(* ===== verification/Prelude.thy ===== *)
theory Prelude
  imports Main "HOL-Library.Char_ord" "HOL-Library.List_Lexorder"
begin

text \<open>
  What the component theories share.  Machine integers that the code adds with
  \<open>checked_add\<close>, \<open>saturating_add\<close> or \<open>saturating_sub\<close> are natural numbers with the bound
  written out.  A \<open>BTreeMap\<close> is an association list with strictly increasing keys; the
  locale \<open>ordered_map\<close> states what its users rely on, and is interpreted on the list
  operations.  Strings are byte lists (Rust's \<open>String\<close> is UTF-8 bytes, and
  \<open>List_Lexorder\<close> with \<open>Char_ord\<close> is Rust's byte-wise order on them).
  The locale \<open>kept_invariant\<close> lifts a one-step invariant to whole runs.
\<close>

named_theorems model_defs \<comment> \<open>definitions a proof usually unfolds\<close>

section \<open>Bounded integers\<close>

definition u64_max :: nat where "u64_max = 2 ^ 64 - 1"
definition u32_max :: nat where "u32_max = 2 ^ 32 - 1"
definition u16_max :: nat where "u16_max = 2 ^ 16 - 1"

text \<open>\<open>x.saturating_add(y)\<close> and \<open>x.checked_add(y)\<close> at a type whose greatest value is \<open>hi\<close>.\<close>

definition saturating_add :: "nat \<Rightarrow> nat \<Rightarrow> nat \<Rightarrow> nat" where
  "saturating_add hi x y = min hi (x + y)"

definition checked_add :: "nat \<Rightarrow> nat \<Rightarrow> nat \<Rightarrow> nat option" where
  "checked_add hi x y = (if x + y \<le> hi then Some (x + y) else None)"

lemma saturating_add_le [simp]: "saturating_add hi x y \<le> hi"
  by (simp add: saturating_add_def)

lemma checked_add_eq_Some [simp]:
  "checked_add hi x y = Some z \<longleftrightarrow> z = x + y \<and> x + y \<le> hi"
  by (auto simp: checked_add_def)

lemma checked_add_eq_None [simp]: "checked_add hi x y = None \<longleftrightarrow> hi < x + y"
  by (auto simp: checked_add_def)

section \<open>Lists\<close>

text \<open>\<open>Vec::drain(..len - n)\<close> when the length exceeds \<open>n\<close>: the last \<open>n\<close> elements.\<close>

definition last_n :: "nat \<Rightarrow> 'a list \<Rightarrow> 'a list" where
  "last_n n xs = drop (length xs - n) xs"

lemma length_last_n [simp]: "length (last_n n xs) = min n (length xs)"
  by (simp add: last_n_def)

lemma last_n_id [simp]: "length xs \<le> n \<Longrightarrow> last_n n xs = xs"
  by (simp add: last_n_def)

lemma map_last_n: "map f (last_n n xs) = last_n n (map f xs)"
  by (simp add: last_n_def drop_map)

lemma last_n_last_n_append: "last_n n (last_n n xs @ ys) = last_n n (xs @ ys)"
  by (cases "length xs \<le> n") (auto simp: last_n_def add.commute)

lemma set_last_n: "set (last_n n xs) \<subseteq> set xs"
  by (simp add: last_n_def set_drop_subset)

lemma last_n_eq_Nil [simp]: "last_n n xs = [] \<longleftrightarrow> n = 0 \<or> xs = []"
  by (cases xs) (auto simp: last_n_def)

lemma last_last_n [simp]: "0 < n \<Longrightarrow> last (last_n n xs) = last xs"
  by (cases "xs = []") (auto simp: last_n_def last_drop)

lemma butlast_last_n: "butlast (last_n (Suc n) xs) = last_n n (butlast xs)"
  by (simp add: last_n_def butlast_drop)

lemma find_Some_iff_unique:
  "distinct (map f xs) \<Longrightarrow> x \<in> set xs \<Longrightarrow> List.find (\<lambda>y. f y = f x) xs = Some x"
  by (induction xs) (auto simp: rev_image_eqI)

section \<open>Decimal rendering\<close>

text \<open>What \<open>format!("{}")\<close> prints for an unsigned integer.\<close>

definition digit_char :: "nat \<Rightarrow> char" where
  "digit_char d = char_of (48 + d)"

fun show_nat :: "nat \<Rightarrow> string" where
  "show_nat n = (if n < 10 then [digit_char n] else show_nat (n div 10) @ [digit_char (n mod 10)])"

declare show_nat.simps [simp del]

definition read_nat :: "string \<Rightarrow> nat" where
  "read_nat cs = foldl (\<lambda>a c. a * 10 + (of_char c - 48)) 0 cs"

lemma of_char_digit [simp]: "d < 10 \<Longrightarrow> (of_char (digit_char d) :: nat) = 48 + d"
  by (simp add: digit_char_def)

lemma read_show_nat [simp]: "read_nat (show_nat n) = n"
proof (induction n rule: show_nat.induct)
  case (1 n)
  show ?case
  proof (cases "n < 10")
    case True
    then show ?thesis by (simp add: show_nat.simps [of n] read_nat_def)
  next
    case False
    with 1 have "read_nat (show_nat (n div 10)) = n div 10" by simp
    with False show ?thesis by (simp add: show_nat.simps [of n] read_nat_def)
  qed
qed

lemma show_nat_inj [simp]: "show_nat m = show_nat n \<longleftrightarrow> m = n"
  by (metis read_show_nat)

lemma show_nat_digits: "c \<in> set (show_nat n) \<Longrightarrow> 48 \<le> (of_char c :: nat) \<and> (of_char c :: nat) \<le> 57"
proof (induction n rule: show_nat.induct)
  case (1 n)
  show ?case
  proof (cases "n < 10")
    case True
    with 1 show ?thesis by (auto simp: show_nat.simps [of n])
  next
    case False
    moreover have "n mod 10 < 10" by simp
    ultimately show ?thesis using 1
      by (auto simp: show_nat.simps [of n] simp del: mod_less_divisor)
  qed
qed

text \<open>A name, a separator that is no digit, and a number: the number can be read back.\<close>

lemma tagged_number_inj:
  assumes "r @ [sep] @ show_nat m = r' @ [sep] @ show_nat n" and sep: "(of_char sep :: nat) = 58"
  shows "m = n \<and> r = r'"
proof -
  have none: "sep \<notin> set (show_nat k)" for k using show_nat_digits [of sep k] sep by auto
  from assms(1) have "rev (show_nat m) @ sep # rev r = rev (show_nat n) @ sep # rev r'"
    by (metis append_Cons append_Nil append_assoc rev.simps(2) rev_append)
  then have "takeWhile (\<lambda>c. c \<noteq> sep) (rev (show_nat m) @ sep # rev r)
      = takeWhile (\<lambda>c. c \<noteq> sep) (rev (show_nat n) @ sep # rev r')" by simp
  moreover have "takeWhile (\<lambda>c. c \<noteq> sep) (rev (show_nat k) @ sep # x) = rev (show_nat k)" for k x
    by (subst takeWhile_append2) (use none [of k] in auto)
  ultimately have "rev (show_nat m) = rev (show_nat n)" by simp
  then show ?thesis using assms(1) by simp
qed

section \<open>\<open>BTreeMap\<close> as an ordered association list\<close>

type_synonym ('k, 'v) btree = "('k \<times> 'v) list"

definition bt_ok :: "('k::linorder, 'v) btree \<Rightarrow> bool" where
  "bt_ok m \<longleftrightarrow> sorted_wrt (<) (map fst m)"

definition bt_get :: "('k::linorder, 'v) btree \<Rightarrow> 'k \<Rightarrow> 'v option" where
  "bt_get m = map_of m"

fun bt_insert :: "'k::linorder \<Rightarrow> 'v \<Rightarrow> ('k, 'v) btree \<Rightarrow> ('k, 'v) btree" where
  "bt_insert k v [] = [(k, v)]"
| "bt_insert k v ((k', v') # m) =
     (if k < k' then (k, v) # (k', v') # m
      else if k = k' then (k, v) # m
      else (k', v') # bt_insert k v m)"

definition bt_remove :: "'k::linorder \<Rightarrow> ('k, 'v) btree \<Rightarrow> ('k, 'v) btree" where
  "bt_remove k m = filter (\<lambda>(k', v). k' \<noteq> k) m"

text \<open>\<open>values_mut\<close> with a closure, and \<open>retain\<close>.\<close>

definition bt_map :: "('k \<Rightarrow> 'v \<Rightarrow> 'w) \<Rightarrow> ('k, 'v) btree \<Rightarrow> ('k, 'w) btree" where
  "bt_map f m = map (\<lambda>(k, v). (k, f k v)) m"

definition bt_retain :: "('k \<Rightarrow> 'v \<Rightarrow> bool) \<Rightarrow> ('k, 'v) btree \<Rightarrow> ('k, 'v) btree" where
  "bt_retain P m = filter (\<lambda>(k, v). P k v) m"

lemma bt_ok_Nil [simp]: "bt_ok []"
  by (simp add: bt_ok_def)

lemma bt_get_Nil [simp]: "bt_get [] k = None"
  by (simp add: bt_get_def)

lemma bt_ok_distinct: "bt_ok m \<Longrightarrow> distinct (map fst m)"
  unfolding bt_ok_def using strict_sorted_iff by blast

lemma bt_insert_keys: "fst ` set (bt_insert k v m) = insert k (fst ` set m)"
  by (induction k v m rule: bt_insert.induct) auto

lemma bt_insert_ok [simp]: "bt_ok m \<Longrightarrow> bt_ok (bt_insert k v m)"
proof (induction m)
  case Nil
  then show ?case by (simp add: bt_ok_def)
next
  case (Cons p m)
  obtain k' v' where p: "p = (k', v')" by (cases p)
  have above: "\<forall>x \<in> fst ` set m. k' < x" and "bt_ok m"
    using Cons.prems by (auto simp: bt_ok_def p)
  moreover from this have "bt_ok (bt_insert k v m)" using Cons.IH by simp
  moreover have "k' < k \<Longrightarrow> \<forall>x \<in> fst ` set (bt_insert k v m). k' < x"
    using above by (simp add: bt_insert_keys)
  ultimately show ?case by (auto simp: bt_ok_def p)
qed

lemma bt_get_insert [simp]:
  "bt_get (bt_insert k v m) = (bt_get m)(k \<mapsto> v)"
  by (induction k v m rule: bt_insert.induct) (auto simp: bt_get_def)

lemma bt_get_remove [simp]: "bt_get (bt_remove k m) = (bt_get m)(k := None)"
  by (induction m) (auto simp: bt_get_def bt_remove_def)

lemma bt_remove_ok [simp]: "bt_ok m \<Longrightarrow> bt_ok (bt_remove k m)"
  by (induction m) (auto simp: bt_ok_def bt_remove_def)

lemma bt_get_map [simp]: "bt_get (bt_map f m) k = map_option (f k) (bt_get m k)"
  by (induction m) (auto simp: bt_get_def bt_map_def)

lemma bt_map_keys [simp]: "map fst (bt_map f m) = map fst m"
  by (induction m) (auto simp: bt_map_def)

lemma bt_map_ok [simp]: "bt_ok (bt_map f m) \<longleftrightarrow> bt_ok m"
  by (simp add: bt_ok_def)

lemma bt_map_length [simp]: "length (bt_map f m) = length m"
  by (simp add: bt_map_def)

lemma bt_retain_ok [simp]: "bt_ok m \<Longrightarrow> bt_ok (bt_retain P m)"
  by (induction m) (auto simp: bt_ok_def bt_retain_def)

lemma bt_get_in: "bt_ok m \<Longrightarrow> (k, v) \<in> set m \<longleftrightarrow> bt_get m k = Some v"
  unfolding bt_get_def using bt_ok_distinct by (metis map_of_eq_Some_iff)

lemma bt_get_None_keys: "bt_get m k = None \<longleftrightarrow> k \<notin> fst ` set m"
  by (simp add: bt_get_def map_of_eq_None_iff)

lemma bt_get_retain:
  "bt_ok m \<Longrightarrow> bt_get (bt_retain P m) k
     = (case bt_get m k of None \<Rightarrow> None | Some v \<Rightarrow> if P k v then Some v else None)"
proof (induction m)
  case Nil
  then show ?case by (simp add: bt_retain_def)
next
  case (Cons p m)
  then have "bt_ok m" and "fst p \<notin> fst ` set m"
    by (auto simp: bt_ok_def)
  then have "bt_get m (fst p) = None" by (simp add: bt_get_None_keys)
  with Cons.IH \<open>bt_ok m\<close> show ?case
    by (cases p) (auto simp: bt_get_def bt_retain_def split: option.splits)
qed

lemma bt_retain_length: "length (bt_retain P m) \<le> length m"
  by (simp add: bt_retain_def)

lemma bt_insert_length_ok:
  "bt_ok m \<Longrightarrow> length (bt_insert k v m)
     = (case bt_get m k of None \<Rightarrow> Suc (length m) | Some _ \<Rightarrow> length m)"
proof (induction m)
  case Nil
  then show ?case by simp
next
  case (Cons p m)
  then have "bt_ok m" by (simp add: bt_ok_def)
  moreover have "k < fst p \<Longrightarrow> bt_get m k = None"
    using Cons.prems by (auto simp: bt_ok_def bt_get_None_keys)
  ultimately show ?case using Cons.IH
    by (cases p) (auto simp: bt_get_def split: option.splits)
qed

lemma bt_eqI: "bt_ok m \<Longrightarrow> bt_ok m' \<Longrightarrow> bt_get m = bt_get m' \<Longrightarrow> m = m'"
proof (induction m arbitrary: m')
  case Nil
  then show ?case by (metis bt_get_Nil bt_get_None_keys image_is_empty equals0I set_empty)
next
  case (Cons p m)
  obtain q n where m': "m' = q # n"
  proof (cases m')
    case Nil
    then have "bt_get (p # m) (fst p) = None" using Cons.prems(3) by simp
    then show ?thesis by (simp add: bt_get_None_keys)
  qed auto
  have p_low: "\<forall>x \<in> fst ` set m. fst p < x" and q_low: "\<forall>x \<in> fst ` set n. fst q < x"
    and ok: "bt_ok m" "bt_ok n"
    using Cons.prems(1,2) by (auto simp: bt_ok_def m')
  have keys: "fst ` set (p # m) = fst ` set (q # n)"
    using Cons.prems(3) bt_get_None_keys by (metis m' subsetI subset_antisym)
  then have "fst p = fst q"
    using p_low q_low by (metis image_insert insert_iff list.simps(15) not_less_iff_gr_or_eq)
  moreover from this have "p = q"
    using Cons.prems(3) by (metis bt_get_def m' map_of_Cons_code(2) option.inject prod.collapse)
  moreover have "bt_get m = bt_get n"
  proof
    fix k
    show "bt_get m k = bt_get n k"
    proof (cases "k = fst p")
      case True
      then have "k \<notin> fst ` set m" "k \<notin> fst ` set n"
        using p_low q_low \<open>fst p = fst q\<close> by auto
      then show ?thesis by (metis bt_get_None_keys)
    next
      case False
      then show ?thesis
        using fun_cong [OF Cons.prems(3), of k] \<open>p = q\<close>
        by (cases p) (simp add: bt_get_def m')
    qed
  qed
  ultimately show ?case using Cons.IH ok m' by metis
qed

text \<open>
  The contract the code relies on when it keeps a \<open>BTreeMap\<close>: lookup after insert and
  remove, iteration in key order, extensionality.
\<close>

locale ordered_map =
  fixes lookup :: "'m \<Rightarrow> 'k::linorder \<Rightarrow> 'v option"
    and store :: "'k \<Rightarrow> 'v \<Rightarrow> 'm \<Rightarrow> 'm"
    and erase :: "'k \<Rightarrow> 'm \<Rightarrow> 'm"
    and entries :: "'m \<Rightarrow> ('k \<times> 'v) list"
    and proper :: "'m \<Rightarrow> bool"
  assumes lookup_store: "lookup (store k v m) = (lookup m)(k \<mapsto> v)"
    and lookup_erase: "lookup (erase k m) = (lookup m)(k := None)"
    and entries_lookup: "proper m \<Longrightarrow> (k, v) \<in> set (entries m) \<longleftrightarrow> lookup m k = Some v"
    and entries_ordered: "proper m \<Longrightarrow> sorted_wrt (<) (map fst (entries m))"
    and store_proper: "proper m \<Longrightarrow> proper (store k v m)"
    and erase_proper: "proper m \<Longrightarrow> proper (erase k m)"
    and map_ext: "proper m \<Longrightarrow> proper m' \<Longrightarrow> lookup m = lookup m' \<Longrightarrow> m = m'"
begin

lemma store_twice: "proper m \<Longrightarrow> store k w (store k v m) = store k w m"
  by (rule map_ext) (simp_all add: lookup_store store_proper)

lemma store_comm: "proper m \<Longrightarrow> k \<noteq> l \<Longrightarrow> store k v (store l w m) = store l w (store k v m)"
  by (rule map_ext) (simp_all add: lookup_store store_proper fun_upd_twist)

lemma store_same: "proper m \<Longrightarrow> lookup m k = Some v \<Longrightarrow> store k v m = m"
  by (rule map_ext) (auto simp: lookup_store store_proper)

lemma erase_store: "proper m \<Longrightarrow> lookup m k = None \<Longrightarrow> erase k (store k v m) = m"
  by (rule map_ext) (auto simp: lookup_store lookup_erase store_proper erase_proper)

end

interpretation bt: ordered_map bt_get bt_insert bt_remove "\<lambda>m. m" bt_ok
  by unfold_locales (auto simp: bt_get_in bt_eqI, simp add: bt_ok_def)

section \<open>Runs of a deterministic machine\<close>

text \<open>
  A component is an initial state and a step per input.  \<open>run_inputs\<close> folds the step over a list of
  inputs, and an invariant every step keeps holds after every run.
\<close>

definition run_inputs :: "('s \<Rightarrow> 'i \<Rightarrow> 's) \<Rightarrow> 's \<Rightarrow> 'i list \<Rightarrow> 's" where
  "run_inputs step s is = foldl step s is"

lemma run_inputs_Nil [simp]: "run_inputs step s [] = s"
  by (simp add: run_inputs_def)

lemma run_inputs_Cons [simp]: "run_inputs step s (i # is) = run_inputs step (step s i) is"
  by (simp add: run_inputs_def)

lemma run_inputs_append: "run_inputs step s (is @ js) = run_inputs step (run_inputs step s is) js"
  by (simp add: run_inputs_def)

locale kept_invariant =
  fixes step :: "'s \<Rightarrow> 'i \<Rightarrow> 's" and Inv :: "'s \<Rightarrow> bool" and admitted :: "'s \<Rightarrow> 'i \<Rightarrow> bool"
  assumes step_keeps: "Inv s \<Longrightarrow> admitted s i \<Longrightarrow> Inv (step s i)"
begin

lemma run_keeps:
  "Inv s \<Longrightarrow> (\<And>t i. Inv t \<Longrightarrow> i \<in> set is \<Longrightarrow> admitted t i) \<Longrightarrow> Inv (run_inputs step s is)"
  by (induction "is" arbitrary: s) (auto intro: step_keeps)

end

text \<open>
  A promise about the future: once it holds it holds after every admitted input that spares it.
\<close>

locale kept_promise = kept_invariant step Inv admitted
  for step :: "'s \<Rightarrow> 'i \<Rightarrow> 's" and Inv :: "'s \<Rightarrow> bool" and admitted :: "'s \<Rightarrow> 'i \<Rightarrow> bool" +
  fixes promise :: "'p \<Rightarrow> 's \<Rightarrow> bool" and spares :: "'p \<Rightarrow> 'i \<Rightarrow> bool"
  assumes promise_step: "Inv s \<Longrightarrow> admitted s i \<Longrightarrow> spares p i \<Longrightarrow> promise p s \<Longrightarrow> promise p (step s i)"
begin

lemma promise_run:
  "Inv s \<Longrightarrow> (\<And>t i. Inv t \<Longrightarrow> i \<in> set is \<Longrightarrow> admitted t i) \<Longrightarrow> (\<And>i. i \<in> set is \<Longrightarrow> spares p i) \<Longrightarrow>
    promise p s \<Longrightarrow> promise p (run_inputs step s is)"
proof (induction "is" arbitrary: s)
  case (Cons i rest)
  have "Inv (step s i)" "promise p (step s i)"
    using step_keeps promise_step Cons.prems by simp_all
  then show ?case using Cons.IH Cons.prems by simp
qed simp

end

section \<open>Keys that name a finite set of words\<close>

text \<open>
  Several enumerations cross the wire as a key and come back by searching the list of all
  values for the first with that key.  The contract: every value is listed, and no two share
  a key.
\<close>

definition by_key :: "'a list \<Rightarrow> ('a \<Rightarrow> 'k) \<Rightarrow> 'k \<Rightarrow> 'a option" where
  "by_key all key k = List.find (\<lambda>x. key x = k) all"

locale keyed_words =
  fixes all :: "'a list" and key :: "'a \<Rightarrow> 'k"
  assumes listed: "x \<in> set all" and keys_distinct: "distinct (map key all)"
begin

lemma by_key_key: "by_key all key (key x) = Some x"
  by (simp add: by_key_def find_Some_iff_unique keys_distinct listed)

lemma key_inj: "key x = key y \<Longrightarrow> x = y"
  by (metis by_key_key option.inject)

lemma by_key_Some: "by_key all key k = Some x \<longleftrightarrow> k = key x"
  by (metis (mono_tags, lifting) by_key_def by_key_key find_Some_iff)

lemma by_key_None: "by_key all key k = None \<longleftrightarrow> k \<notin> range key"
  by (metis by_key_Some not_None_eq rangeE rangeI)

end

end
