(* ===== verification/StateWords.thy ===== *)
theory StateWords
  imports Prelude
begin

text \<open>
  The closed vocabularies of \<open>crates/core/src/lib.rs\<close>: the six state words and their two
  orders, the roads a wire can be on, the cells of the day strip, how full a resource is, and
  a token tally.  Each enumeration that crosses the wire does so as a key and comes back by
  search, so each interprets the locale \<open>keyed_words\<close>.
\<close>

section \<open>State words\<close>

datatype state = Busy | Blocked | Done | Errored | Failed | Idle

definition state_ALL :: "state list" where
  "state_ALL = [Busy, Blocked, Done, Errored, Failed, Idle]"

fun state_rank :: "state \<Rightarrow> nat" where
  "state_rank Blocked = 0"
| "state_rank Errored = 1"
| "state_rank Done = 2"
| "state_rank Busy = 3"
| "state_rank Idle = 4"
| "state_rank Failed = 5"

fun state_key :: "state \<Rightarrow> string" where
  "state_key Busy = ''busy''"
| "state_key Blocked = ''blocked''"
| "state_key Done = ''done''"
| "state_key Errored = ''errored''"
| "state_key Failed = ''failed''"
| "state_key Idle = ''idle''"

text \<open>The rejected key travels in the error.\<close>

datatype unknown_state = UnknownState string

definition state_try_from :: "string \<Rightarrow> unknown_state + state" where
  "state_try_from k =
     (case by_key state_ALL state_key k of Some s \<Rightarrow> Inr s | None \<Rightarrow> Inl (UnknownState k))"

interpretation state_words: keyed_words state_ALL state_key
proof
  show "s \<in> set state_ALL" for s by (cases s) (simp_all add: state_ALL_def)
  show "distinct (map state_key state_ALL)" by (simp add: state_ALL_def)
qed

lemma state_rank_inj: "state_rank s = state_rank t \<longleftrightarrow> s = t"
  by (cases s; cases t) simp_all

lemma state_rank_less_6 [simp]: "state_rank s < 6"
  by (cases s) simp_all

lemma state_rank_bounds [simp]:
  "state_rank s \<noteq> 6" "state_rank s \<noteq> 7" "6 \<noteq> state_rank s" "7 \<noteq> state_rank s"
  by (cases s; simp)+

text \<open>
  a state word survives its crossing as a key, and a string is accepted exactly when it is
  the key of one of the six words: a seventh is refused with the offending string.
\<close>

theorem state_wire_roundtrip:
  "state_try_from (state_key s) = Inr s
   \<and> (state_try_from k = Inr t \<longleftrightarrow> k = state_key t)
   \<and> (state_try_from k = Inl (UnknownState k) \<longleftrightarrow> k \<notin> range state_key)"
  by (auto simp: state_try_from_def state_words.by_key_key state_words.by_key_Some
      state_words.by_key_None dest: state_words.key_inj split: option.splits)

section \<open>Hops\<close>

datatype hop = HopDirect | HopRelay | HopIdle | HopNoServe | HopSsh | HopForwarded

definition hop_ALL :: "hop list" where
  "hop_ALL = [HopDirect, HopRelay, HopIdle, HopNoServe, HopSsh, HopForwarded]"

fun hop_key :: "hop \<Rightarrow> string" where
  "hop_key HopDirect = ''direct''"
| "hop_key HopRelay = ''relay''"
| "hop_key HopIdle = ''quiet''"
| "hop_key HopNoServe = ''no-serve''"
| "hop_key HopSsh = ''ssh''"
| "hop_key HopForwarded = ''forwarded''"

definition hop_try_from :: "string \<Rightarrow> string + hop" where
  "hop_try_from s =
     (case by_key hop_ALL hop_key s of Some h \<Rightarrow> Inr h | None \<Rightarrow> Inl (''not a hop: '' @ s))"

interpretation hop_words: keyed_words hop_ALL hop_key
proof
  show "h \<in> set hop_ALL" for h by (cases h) (simp_all add: hop_ALL_def)
  show "distinct (map hop_key hop_ALL)" by (simp add: hop_ALL_def)
qed

lemma hop_wire_roundtrip: "hop_try_from s = Inr h \<longleftrightarrow> s = hop_key h"
  by (auto simp: hop_try_from_def hop_words.by_key_key hop_words.by_key_Some
      dest: hop_words.key_inj split: option.splits)

text \<open>The two tables share no key, so a word looked up in the wrong one is not found.\<close>

lemma hop_key_not_state_key: "hop_key h \<noteq> state_key s"
  by (cases h; cases s) simp_all

section \<open>Cells of the day strip\<close>

datatype day_cell = Word state | Unwatched | Absent

fun cell_rank :: "day_cell \<Rightarrow> nat" where
  "cell_rank (Word w) = state_rank w"
| "cell_rank Unwatched = 6"
| "cell_rank Absent = 7"

lemma cell_rank_inj: "cell_rank a = cell_rank b \<longleftrightarrow> a = b"
  by (cases a; cases b) (simp_all add: state_rank_inj)

lemma cell_rank_word: "cell_rank c < 6 \<longleftrightarrow> (\<exists>w. c = Word w)"
  by (cases c) simp_all

lemma cell_rank_le_Absent [simp]: "cell_rank c \<le> 7"
  by (cases c) (simp_all add: less_imp_le_nat [OF less_le_trans [OF state_rank_less_6]])

section \<open>Fill and strain\<close>

record fill =
  used :: nat
  total :: nat

datatype strain = Tight | Critical

text \<open>
  \<open>used\<close> and \<open>total\<close> are \<open>u64\<close>; the code multiplies them as \<open>u128\<close>, where
  \<open>(2^64 - 1) * 100\<close> fits, so the product is exact.
\<close>

definition fill_strain :: "fill \<Rightarrow> strain option" where
  "fill_strain f =
     (if total f = 0 then None
      else if total f * 95 \<le> used f * 100 then Some Critical
      else if total f * 90 \<le> used f * 100 then Some Tight
      else None)"

lemma fill_products_fit_u128:
  "used f \<le> u64_max \<Longrightarrow> used f * 100 < 2 ^ 128"
  by (simp add: u64_max_def)

lemma fill_strain_monotone:
  assumes "total f = total g" "used f \<le> used g" "fill_strain f = Some s"
  shows "\<exists>t. fill_strain g = Some t \<and> (s = Critical \<longrightarrow> t = Critical)"
  using assms by (auto simp: fill_strain_def split: if_splits)

section \<open>Tokens\<close>

record tokens =
  input_tokens :: nat
  cached_input :: nat
  cache_write :: nat
  output_tokens :: nat

definition tokens_default :: tokens where
  "tokens_default = \<lparr>input_tokens = 0, cached_input = 0, cache_write = 0, output_tokens = 0\<rparr>"

definition tokens_add :: "tokens \<Rightarrow> tokens \<Rightarrow> tokens" where
  "tokens_add a b =
     \<lparr>input_tokens = saturating_add u64_max (input_tokens a) (input_tokens b),
      cached_input = saturating_add u64_max (cached_input a) (cached_input b),
      cache_write = saturating_add u64_max (cache_write a) (cache_write b),
      output_tokens = saturating_add u64_max (output_tokens a) (output_tokens b)\<rparr>"

definition tokens_is_zero :: "tokens \<Rightarrow> bool" where
  "tokens_is_zero t \<longleftrightarrow> t = tokens_default"

definition tokens_ok :: "tokens \<Rightarrow> bool" where
  "tokens_ok t \<longleftrightarrow> input_tokens t \<le> u64_max \<and> cached_input t \<le> u64_max
     \<and> cache_write t \<le> u64_max \<and> output_tokens t \<le> u64_max"

lemma tokens_add_ok: "tokens_ok (tokens_add a b)"
  by (simp add: tokens_ok_def tokens_add_def)

text \<open>
  Saturation keeps the tally independent of the order the readings are added in, and a tally
  is zero only when both parts are.
\<close>

lemma saturating_add_swap:
  "saturating_add n (saturating_add n a b) c = saturating_add n (saturating_add n a c) b"
  by (simp add: saturating_add_def min_def)

lemma tokens_add_order:
  "tokens_add (tokens_add a b) c = tokens_add (tokens_add a c) b"
  by (simp add: tokens_add_def saturating_add_swap)

lemma tokens_add_zero:
  "tokens_is_zero (tokens_add a b) \<longleftrightarrow> tokens_is_zero a \<and> tokens_is_zero b"
  by (cases a; cases b)
    (auto simp: tokens_is_zero_def tokens_add_def tokens_default_def saturating_add_def
      u64_max_def min_def split: if_splits)

end
