(* ===== verification/Activity.thy ===== *)
theory Activity
  imports StateWords
begin

text \<open>
  The bounded session event log of \<open>crates/core/src/activity.rs\<close>: a host reports a run, a
  state word and perhaps an exit code, and the log turns the reports into at most 24 events.
  The log refines the same log without a bound: what is shown is exactly its tail.
\<close>

definition RETAINED_EVENTS :: nat where "RETAINED_EVENTS = 24"

datatype activity_kind = NeedsInput | TurnCompleted | FailedTurn | CommandFinished | Notice

record activity_event =
  event_id :: string
  event_kind :: activity_kind
  at_ms :: nat
  resolved :: bool
  event_text :: "string option"
  duration_ms :: "nat option"
  event_exit :: "int option"

record activity_log =
  sequence :: nat
  last_report :: "(string \<times> state \<times> int option) option"
  events :: "activity_event list"

definition activity_default :: activity_log where
  "activity_default = \<lparr>sequence = 0, last_report = None, events = []\<rparr>"

text \<open>\<open>matches!(code, 0 | 130 | 141)\<close>: success, interrupt and broken pipe are no failure.\<close>

definition quiet_exit :: "int \<Rightarrow> bool" where
  "quiet_exit code \<longleftrightarrow> code = 0 \<or> code = 130 \<or> code = 141"

definition same_pending :: "activity_log \<Rightarrow> string \<Rightarrow> bool" where
  "same_pending log run =
     (case last_report log of None \<Rightarrow> False
      | Some (old_run, old_word, old_exit) \<Rightarrow> old_run = run \<and> old_word = Blocked \<and> old_exit = None)"

definition same_failure :: "activity_log \<Rightarrow> string \<Rightarrow> bool" where
  "same_failure log run =
     (case last_report log of None \<Rightarrow> False
      | Some (old_run, old_word, old_exit) \<Rightarrow> old_run = run \<and>
          (old_word = Errored \<or> (case old_exit of None \<Rightarrow> False | Some code \<Rightarrow> \<not> quiet_exit code)))"

definition resolve_pending :: "activity_event \<Rightarrow> activity_event" where
  "resolve_pending e = (if event_kind e = NeedsInput then e\<lparr>resolved := True\<rparr> else e)"

definition kind_of_report :: "bool \<Rightarrow> state \<Rightarrow> int option \<Rightarrow> activity_kind option" where
  "kind_of_report pending word exit =
     (case exit of
        Some code \<Rightarrow> if quiet_exit code then None else Some FailedTurn
      | None \<Rightarrow> (case word of
            Blocked \<Rightarrow> if \<not> pending then Some NeedsInput else None
          | Done \<Rightarrow> Some TurnCompleted
          | Errored \<Rightarrow> Some FailedTurn
          | _ \<Rightarrow> None))"

definition new_event :: "string \<Rightarrow> nat \<Rightarrow> activity_kind \<Rightarrow> nat \<Rightarrow> int option \<Rightarrow> activity_event" where
  "new_event run seq kind at exit =
     \<lparr>event_id = run @ '':'' @ show_nat seq, event_kind = kind, at_ms = at, resolved = False,
      event_text = None, duration_ms = None, event_exit = exit\<rparr>"

text \<open>
  The body of \<open>ActivityLog::report\<close>, with what is done to the events after a push as an
  argument: the code drains them to the bound, the unbounded log leaves them.
\<close>

definition report_with ::
  "(activity_event list \<Rightarrow> activity_event list) \<Rightarrow>
   activity_log \<Rightarrow> string \<Rightarrow> state \<Rightarrow> int option \<Rightarrow> nat \<Rightarrow> activity_log" where
  "report_with keep log run word exit at =
     (let current = (run, word, exit) in
      if last_report log = Some current then log
      else
        let pending = same_pending log run;
            failure = same_failure log run;
            evs = (if word \<noteq> Blocked \<or> exit \<noteq> None \<or> \<not> pending
                   then map resolve_pending (events log) else events log);
            log' = log\<lparr>last_report := Some current, events := evs\<rparr>
        in case kind_of_report pending word exit of
             None \<Rightarrow> log'
           | Some kind \<Rightarrow>
               if kind = FailedTurn \<and> failure \<and> evs \<noteq> [] \<and> event_kind (last evs) = FailedTurn
               then log'\<lparr>events := butlast evs @
                      [(last evs)\<lparr>event_exit :=
                         (case exit of Some c \<Rightarrow> Some c | None \<Rightarrow> event_exit (last evs))\<rparr>]\<rparr>
               else let seq = saturating_add u64_max (sequence log) 1
                    in log'\<lparr>sequence := seq,
                            events := keep (evs @ [new_event run seq kind at exit])\<rparr>)"

definition keep_retained :: "activity_event list \<Rightarrow> activity_event list" where
  "keep_retained evs =
     (if length evs > RETAINED_EVENTS then drop (length evs - RETAINED_EVENTS) evs else evs)"

definition report :: "activity_log \<Rightarrow> string \<Rightarrow> state \<Rightarrow> int option \<Rightarrow> nat \<Rightarrow> activity_log" where
  "report = report_with keep_retained"

type_synonym activity_input = "string \<times> state \<times> int option \<times> nat"

definition report_step :: "activity_log \<Rightarrow> activity_input \<Rightarrow> activity_log" where
  "report_step log i = (case i of (r, w, e, t) \<Rightarrow> report log r w e t)"

definition activity_after :: "activity_input list \<Rightarrow> activity_log" where
  "activity_after is = run_inputs report_step activity_default is"

section \<open>The abstract log\<close>

definition history_step :: "activity_log \<Rightarrow> activity_input \<Rightarrow> activity_log" where
  "history_step log i = (case i of (r, w, e, t) \<Rightarrow> report_with (\<lambda>evs. evs) log r w e t)"

definition history_after :: "activity_input list \<Rightarrow> activity_log" where
  "history_after is = run_inputs history_step activity_default is"

definition abs_log :: "activity_log \<Rightarrow> activity_log" where
  "abs_log log = log\<lparr>events := last_n RETAINED_EVENTS (events log)\<rparr>"

lemma keep_retained_last_n [simp]: "keep_retained evs = last_n RETAINED_EVENTS evs"
  by (simp add: keep_retained_def last_n_def)

lemma RETAINED_pos [simp]: "0 < RETAINED_EVENTS"
  by (simp add: RETAINED_EVENTS_def)

lemma kind_of_report_pending [simp]: "kind_of_report True Blocked None = None"
  by (simp add: kind_of_report_def)

lemma last_n_replace_last:
  "xs \<noteq> [] \<Longrightarrow> 0 < n \<Longrightarrow> last_n n (butlast xs @ [y]) = butlast (last_n n xs) @ [y]"
  by (cases n) (auto simp: last_n_def butlast_drop)

lemma report_history: "report (abs_log log) r w e t = abs_log (report_with (\<lambda>evs. evs) log r w e t)"
proof -
  have same: "same_pending (abs_log log) r = same_pending log r"
      "same_failure (abs_log log) r = same_failure log r"
    by (simp_all add: same_pending_def same_failure_def abs_log_def)
  show ?thesis
    unfolding report_def report_with_def Let_def same
    by (auto simp: abs_log_def map_last_n last_n_last_n_append last_n_replace_last
        split: option.splits)
qed

lemma activity_after_abs: "activity_after is = abs_log (history_after is)"
proof -
  have "run_inputs report_step (abs_log log) is = abs_log (run_inputs history_step log is)" for log
  proof (induction "is" arbitrary: log)
    case (Cons i "is")
    then show ?case
      by (cases i) (simp add: report_step_def history_step_def report_history)
  qed simp
  moreover have "abs_log activity_default = activity_default"
    by (simp add: abs_log_def activity_default_def)
  ultimately show ?thesis unfolding activity_after_def history_after_def by metis
qed

text \<open>
  The bounded log never shows anything the unbounded one would not: after any reports its
  events are exactly the last 24 of the whole history, with the same last report and the same
  sequence number.
\<close>

theorem activity_shows_tail:
  "events (activity_after is) = last_n RETAINED_EVENTS (events (history_after is))
   \<and> last_report (activity_after is) = last_report (history_after is)
   \<and> sequence (activity_after is) = sequence (history_after is)
   \<and> length (events (activity_after is)) \<le> RETAINED_EVENTS"
  by (simp add: activity_after_abs abs_log_def)

section \<open>Pending events\<close>

definition pending_event :: "activity_event \<Rightarrow> bool" where
  "pending_event e \<longleftrightarrow> event_kind e = NeedsInput \<and> \<not> resolved e"

definition blocked_now :: "activity_log \<Rightarrow> bool" where
  "blocked_now log \<longleftrightarrow> (\<exists>r. last_report log = Some (r, Blocked, None))"

definition pending_ok :: "activity_log \<Rightarrow> bool" where
  "pending_ok log \<longleftrightarrow>
     (if blocked_now log
      then events log \<noteq> [] \<and> pending_event (last (events log))
        \<and> (\<forall>e \<in> set (butlast (events log)). \<not> pending_event e)
      else (\<forall>e \<in> set (events log). \<not> pending_event e))"

lemma resolve_pending_not_pending [simp]: "\<not> pending_event (resolve_pending e)"
  by (simp add: pending_event_def resolve_pending_def)

lemma resolve_pending_kind [simp]: "event_kind (resolve_pending e) = event_kind e"
  by (simp add: resolve_pending_def)

lemma resolve_pending_id [simp]: "event_id (resolve_pending e) = event_id e"
  by (simp add: resolve_pending_def)

text \<open>
  A report that is not a repeat resolves every pending event first: the one guard that could
  skip it needs the previous report to be the same one.
\<close>

lemma report_resolves:
  "last_report log \<noteq> Some (r, w, e) \<Longrightarrow> w \<noteq> Blocked \<or> e \<noteq> None \<or> \<not> same_pending log r"
  by (cases e) (auto simp: same_pending_def split: option.splits)

lemma history_step_new:
  assumes "last_report log \<noteq> Some (r, w, e)"
  shows "history_step log (r, w, e, t) =
    (let evs = map resolve_pending (events log);
         log' = log\<lparr>last_report := Some (r, w, e), events := evs\<rparr>
     in case kind_of_report (same_pending log r) w e of
          None \<Rightarrow> log'
        | Some kind \<Rightarrow>
            if kind = FailedTurn \<and> same_failure log r \<and> evs \<noteq> [] \<and> event_kind (last evs) = FailedTurn
            then log'\<lparr>events := butlast evs @
                   [(last evs)\<lparr>event_exit := (case e of Some c \<Rightarrow> Some c | None \<Rightarrow> event_exit (last evs))\<rparr>]\<rparr>
            else log'\<lparr>sequence := saturating_add u64_max (sequence log) 1,
                       events := evs @ [new_event r (saturating_add u64_max (sequence log) 1) kind t e]\<rparr>)"
  using assms report_resolves [OF assms]
  by (auto simp: history_step_def report_with_def Let_def split: option.splits)

lemma history_step_repeat [simp]:
  "last_report log = Some (r, w, e) \<Longrightarrow> history_step log (r, w, e, t) = log"
  by (simp add: history_step_def report_with_def Let_def)

lemma kind_NeedsInput:
  "last_report log \<noteq> Some (r, w, e) \<Longrightarrow>
   kind_of_report (same_pending log r) w e = Some NeedsInput \<longleftrightarrow> w = Blocked \<and> e = None"
  using report_resolves [of log r w e]
  by (auto simp: kind_of_report_def split: option.splits state.splits)

lemma history_step_pending_ok: "pending_ok log \<Longrightarrow> pending_ok (history_step log i)"
proof (cases i)
  case (fields r w e t)
  assume ok: "pending_ok log"
  show ?thesis
  proof (cases "last_report log = Some (r, w, e)")
    case True
    with ok show ?thesis by (simp add: fields)
  next
    case False
    have resolved: "\<forall>x \<in> set (map resolve_pending (events log)). \<not> pending_event x" by auto
    show ?thesis
    proof (cases "w = Blocked \<and> e = None")
      case True
      then have "kind_of_report (same_pending log r) w e = Some NeedsInput"
        using kind_NeedsInput [OF False] by simp
      then show ?thesis using True resolved
        unfolding fields history_step_new [OF False] Let_def
        by (simp add: pending_ok_def blocked_now_def new_event_def pending_event_def)
    next
      case blk: False
      have kn: "kind_of_report (same_pending log r) w e \<noteq> Some NeedsInput"
        using kind_NeedsInput [OF False] blk by simp
      have last_kept: "\<not> pending_event ((last (map resolve_pending (events log)))\<lparr>event_exit := x\<rparr>)"
        if "event_kind (last (map resolve_pending (events log))) = FailedTurn" for x
        using that by (simp add: pending_event_def)
      have "\<not> blocked_now (history_step log (r, w, e, t))"
        using blk by (auto simp: history_step_new [OF False] blocked_now_def Let_def
            split: option.splits)
      moreover have "\<forall>x \<in> set (events (history_step log (r, w, e, t))). \<not> pending_event x"
        using kn last_kept resolved
        by (auto simp: history_step_new [OF False] Let_def new_event_def pending_event_def
            dest!: in_set_butlastD split: option.splits)
      ultimately show ?thesis by (simp add: fields pending_ok_def)
    qed
  qed
qed

interpretation pending: kept_invariant history_step pending_ok "\<lambda>_ _. True"
  by unfold_locales (rule history_step_pending_ok)

lemma history_pending_ok: "pending_ok (history_after is)"
  unfolding history_after_def
  by (rule pending.run_keeps) (simp_all add: pending_ok_def blocked_now_def activity_default_def)

lemma in_butlast_last_n: "x \<in> set (butlast (last_n n xs)) \<Longrightarrow> x \<in> set (butlast xs)"
  by (auto simp: last_n_def butlast_drop dest: in_set_dropD)

text \<open>
  an event asks for input exactly while the last report says so.  In the log after any
  reports there is an unresolved \<open>NeedsInput\<close> event if and only if the last report is a
  blocked run with no exit, and then it is one event, the newest.
\<close>

theorem activity_pending_exact:
  "filter pending_event (events (activity_after is)) =
     (if blocked_now (activity_after is) then [last (events (activity_after is))] else [])"
proof -
  let ?h = "history_after is"
  have blocked: "blocked_now (activity_after is) = blocked_now ?h"
    by (simp add: activity_after_abs abs_log_def blocked_now_def)
  have evs: "events (activity_after is) = last_n RETAINED_EVENTS (events ?h)"
    by (simp add: activity_after_abs abs_log_def)
  show ?thesis
  proof (cases "blocked_now ?h")
    case True
    then have ne: "events ?h \<noteq> []" and top: "pending_event (last (events ?h))"
      and rest: "\<forall>e \<in> set (butlast (events ?h)). \<not> pending_event e"
      using history_pending_ok [of "is"] by (auto simp: pending_ok_def)
    define xs where "xs = last_n RETAINED_EVENTS (events ?h)"
    have "xs \<noteq> []" "last xs = last (events ?h)" using ne by (simp_all add: xs_def)
    moreover have "filter pending_event (butlast xs) = []"
      using rest by (auto simp: filter_empty_conv xs_def dest: in_butlast_last_n)
    ultimately have "filter pending_event (butlast xs @ [last xs]) = [last xs]"
      using top by simp
    then show ?thesis using True \<open>xs \<noteq> []\<close> by (simp add: blocked evs flip: xs_def)
  next
    case False
    then show ?thesis
      using history_pending_ok [of "is"] set_last_n [of RETAINED_EVENTS "events ?h"]
      by (auto simp: blocked evs pending_ok_def filter_empty_conv)
  qed
qed

section \<open>Event identities\<close>

definition tagged_upto :: "nat \<Rightarrow> string \<Rightarrow> bool" where
  "tagged_upto n x \<longleftrightarrow> (\<exists>r k. x = r @ '':'' @ show_nat k \<and> k \<le> n)"

definition ids_ok :: "activity_log \<Rightarrow> bool" where
  "ids_ok log \<longleftrightarrow> distinct (map event_id (events log))
     \<and> (\<forall>x \<in> set (map event_id (events log)). tagged_upto (sequence log) x)"

lemma tagged_upto_mono: "tagged_upto m x \<Longrightarrow> m \<le> n \<Longrightarrow> tagged_upto n x"
  by (force simp: tagged_upto_def)

lemma tagged_upto_fresh: "\<not> tagged_upto n (r @ '':'' @ show_nat (Suc n))"
proof
  assume "tagged_upto n (r @ '':'' @ show_nat (Suc n))"
  then obtain r' k where "r @ [CHR '':''] @ show_nat (Suc n) = r' @ [CHR '':''] @ show_nat k" "k \<le> n"
    by (auto simp: tagged_upto_def)
  then show False using tagged_number_inj [of r "CHR '':''" "Suc n" r' k] by simp
qed

lemma map_id_replace_last:
  "evs \<noteq> [] \<Longrightarrow> map event_id (butlast evs @ [(last evs)\<lparr>event_exit := x\<rparr>]) = map event_id evs"
  by (induction evs rule: rev_induct) simp_all

lemma history_step_ids:
  "map event_id (events (history_step log (r, w, e, t))) = map event_id (events log)
     \<and> sequence (history_step log (r, w, e, t)) = sequence log
   \<or> map event_id (events (history_step log (r, w, e, t)))
        = map event_id (events log) @ [r @ '':'' @ show_nat (saturating_add u64_max (sequence log) 1)]
     \<and> sequence (history_step log (r, w, e, t)) = saturating_add u64_max (sequence log) 1"
proof (cases "last_report log = Some (r, w, e)")
  case False
  have same: "map event_id (map resolve_pending xs) = map event_id xs" for xs by simp
  show ?thesis
    unfolding history_step_new [OF False] Let_def
    using map_id_replace_last [of "map resolve_pending (events log)"]
    by (cases "kind_of_report (same_pending log r) w e") (simp_all add: new_event_def)
qed simp

lemma history_step_ids_ok:
  assumes ok: "ids_ok log" and small: "sequence log < u64_max"
  shows "ids_ok (history_step log i)"
proof (cases i)
  case (fields r w e t)
  have seq: "saturating_add u64_max (sequence log) 1 = Suc (sequence log)"
    using small by (simp add: saturating_add_def)
  have "\<forall>x \<in> set (map event_id (events log)). tagged_upto (Suc (sequence log)) x"
    using ok tagged_upto_mono by (metis ids_ok_def le_SucI order_refl)
  moreover have "tagged_upto (Suc (sequence log)) (r @ '':'' @ show_nat (Suc (sequence log)))"
    by (auto simp: tagged_upto_def)
  moreover have "r @ '':'' @ show_nat (Suc (sequence log)) \<notin> set (map event_id (events log))"
    using ok tagged_upto_fresh by (metis ids_ok_def)
  ultimately show ?thesis
    using ok history_step_ids [of log r w e t, unfolded seq]
    unfolding fields ids_ok_def by (elim disjE conjE) simp_all
qed

lemma history_step_sequence: "sequence (history_step log i) \<le> Suc (sequence log)"
proof (cases i)
  case (fields r w e t)
  then show ?thesis
    using history_step_ids [of log r w e t] by (elim disjE) (simp_all add: saturating_add_def)
qed

lemma history_ids_ok:
  "ids_ok log \<Longrightarrow> sequence log + length is \<le> u64_max \<Longrightarrow> ids_ok (run_inputs history_step log is)"
proof (induction "is" arbitrary: log)
  case (Cons i "is")
  then show ?case
    using history_step_ids_ok [of log i] history_step_sequence [of log i] by simp
qed simp

text \<open>
  no two events shown share an identity, for as many reports as the 64-bit sequence can
  count (past it the saturating counter would repeat the last number).
\<close>

theorem activity_ids_distinct:
  "length is \<le> u64_max \<Longrightarrow> distinct (map event_id (events (activity_after is)))"
proof -
  assume "length is \<le> u64_max"
  then have "ids_ok (history_after is)"
    unfolding history_after_def
    by (intro history_ids_ok) (simp_all add: ids_ok_def activity_default_def)
  then show ?thesis
    by (simp add: activity_after_abs abs_log_def ids_ok_def map_last_n)
      (simp add: last_n_def)
qed

lemma activity_ids_distinct_witness:
  "distinct (map event_id (events (activity_after
     [(''a'', Blocked, None, 1), (''b'', Blocked, None, 2), (''b'', Done, None, 3)])))
   \<and> length (events (activity_after
     [(''a'', Blocked, None, 1), (''b'', Blocked, None, 2), (''b'', Done, None, 3)])) = 3"
proof
  show "distinct (map event_id (events (activity_after
     [(''a'', Blocked, None, 1), (''b'', Blocked, None, 2), (''b'', Done, None, 3)])))"
    by (rule activity_ids_distinct) (simp add: u64_max_def)
qed (simp add: activity_after_def report_step_def report_def report_with_def Let_def
    activity_default_def same_pending_def kind_of_report_def same_failure_def last_n_def
    RETAINED_EVENTS_def)

section \<open>Incidents\<close>

text \<open>
  a turn that fails and the failing exit that follows it in the same run are one incident:
  the log gains exactly one failure event, which carries the exit code.
\<close>

theorem failed_turn_and_exit_are_one_incident:
  assumes "\<not> same_failure log r" and "\<not> quiet_exit c"
    and "last_report log \<noteq> Some (r, Errored, None)"
  shows "\<exists>e. events (report (report log r Errored None t) r w (Some c) t')
           = last_n RETAINED_EVENTS (map resolve_pending (events log) @ [e])
         \<and> event_kind e = FailedTurn \<and> event_exit e = Some c \<and> at_ms e = t"
proof -
  let ?n = "saturating_add u64_max (sequence log) 1"
  let ?e = "new_event r ?n FailedTurn t None"
  define l1 where "l1 = report log r Errored None t"
  have evs1: "events l1 = last_n RETAINED_EVENTS (map resolve_pending (events log) @ [?e])"
    and last1: "last_report l1 = Some (r, Errored, None)"
    using assms by (auto simp: l1_def report_def report_with_def Let_def kind_of_report_def)
  have idem: "resolve_pending \<circ> resolve_pending = resolve_pending"
    by (auto simp: resolve_pending_def)
  have "resolve_pending ?e = ?e" by (simp add: resolve_pending_def new_event_def)
  then have m: "map resolve_pending (events l1) = events l1"
    by (simp add: evs1 map_last_n idem)
  have ne: "events l1 \<noteq> []" and le: "last (events l1) = ?e" by (simp_all add: evs1)
  have "events (report l1 r w (Some c) t')
      = butlast (events l1) @ [?e\<lparr>event_exit := Some c\<rparr>]"
    using assms(2) ne le last1 m
    by (simp add: report_def report_with_def Let_def kind_of_report_def same_failure_def
        same_pending_def new_event_def)
  also have "\<dots> = last_n RETAINED_EVENTS
      (map resolve_pending (events log) @ [?e\<lparr>event_exit := Some c\<rparr>])"
    by (subst evs1)
      (metis RETAINED_pos butlast_snoc last_n_replace_last snoc_eq_iff_butlast)
  finally show ?thesis
    by (intro exI [of _ "?e\<lparr>event_exit := Some c\<rparr>"]) (simp add: l1_def new_event_def)
qed

lemma failed_turn_and_exit_witness:
  "\<exists>e. events (report (report activity_default ''r'' Errored None 1) ''r'' Idle (Some 1) 2)
           = last_n RETAINED_EVENTS (map resolve_pending (events activity_default) @ [e])
         \<and> event_kind e = FailedTurn \<and> event_exit e = Some 1 \<and> at_ms e = 1"
  by (rule failed_turn_and_exit_are_one_incident)
    (simp_all add: same_failure_def activity_default_def quiet_exit_def)

end
