(* ===== verification/DayStrip.thy ===== *)
theory DayStrip
  imports StateWords "HOL-Library.Option_ord" "HOL-Library.Product_Lexorder"
begin

text \<open>
  The day strip of \<open>crates/node/src/day.rs\<close>: for each session of this machine one byte per
  minute of the last 24 hours, beside a machine-wide ledger of which minutes were sampled.
  Bytes are \<open>char\<close>, instants and minutes are \<open>int\<close>.  Reading and writing the file and the
  JSON text are outside: the functions that cross it take the encoder and decoder, and the
  standard library's \<open>from_utf8_lossy\<close>, as arguments, and leave the type of the text open.
\<close>

section \<open>Cells and minutes\<close>

definition MINUTES :: nat where "MINUTES = 24 * 60"
definition CELL_MS :: int where "CELL_MS = 60000"
definition MAX_ROWS :: nat where "MAX_ROWS = 512"

definition UNWATCHED_BYTE :: char where "UNWATCHED_BYTE = CHR ''-''"
definition WATCHED_BYTE :: char where "WATCHED_BYTE = CHR ''+''"
definition ABSENT_BYTE :: char where "ABSENT_BYTE = CHR ''.''"

fun byte_of :: "state \<Rightarrow> char" where
  "byte_of Busy = CHR ''b''"
| "byte_of Blocked = CHR ''k''"
| "byte_of Done = CHR ''d''"
| "byte_of Errored = CHR ''e''"
| "byte_of Failed = CHR ''f''"
| "byte_of Idle = CHR ''i''"

definition word_of :: "char \<Rightarrow> state option" where
  "word_of b = by_key state_ALL byte_of b"

interpretation day_words: keyed_words state_ALL byte_of
proof
  show "s \<in> set state_ALL" for s by (rule state_words.listed)
  show "distinct (map byte_of state_ALL)" by (simp add: state_ALL_def)
qed

lemma word_of_byte_of [simp]: "word_of (byte_of w) = Some w"
  by (simp add: word_of_def day_words.by_key_key)

lemma word_of_Some: "word_of b = Some w \<longleftrightarrow> b = byte_of w"
  by (simp add: word_of_def day_words.by_key_Some)

lemma byte_of_not_mark [simp]:
  "byte_of w \<noteq> ABSENT_BYTE" "byte_of w \<noteq> UNWATCHED_BYTE"
  "ABSENT_BYTE \<noteq> byte_of w" "UNWATCHED_BYTE \<noteq> byte_of w"
  by (cases w; simp add: ABSENT_BYTE_def UNWATCHED_BYTE_def)+

lemma word_of_marks [simp]: "word_of ABSENT_BYTE = None" "word_of UNWATCHED_BYTE = None"
  by (metis byte_of_not_mark not_None_eq word_of_Some)+

lemma marks_distinct [simp]:
  "UNWATCHED_BYTE \<noteq> WATCHED_BYTE" "UNWATCHED_BYTE \<noteq> ABSENT_BYTE" "WATCHED_BYTE \<noteq> ABSENT_BYTE"
  by (simp_all add: UNWATCHED_BYTE_def WATCHED_BYTE_def ABSENT_BYTE_def)

lemma MINUTES_pos [simp]: "0 < MINUTES"
  by (simp add: MINUTES_def)

record run_cells =
  run_cell :: day_cell
  run_len :: nat

record day =
  day_from :: int
  watched :: "char list"
  rows :: "(string, char list) btree"

definition blank :: "char \<Rightarrow> char list" where
  "blank fill = replicate MINUTES fill"

definition minute :: "int \<Rightarrow> int" where
  "minute now_ms = now_ms div CELL_MS"

definition day_empty :: "int \<Rightarrow> day" where
  "day_empty now_ms =
     \<lparr>day_from = minute now_ms - int MINUTES + 1, watched = blank UNWATCHED_BYTE, rows = []\<rparr>"

section \<open>The window\<close>

text \<open>\<open>i64::checked_sub\<close>: no slot when the difference leaves the 64-bit range.\<close>

definition slot :: "day \<Rightarrow> int \<Rightarrow> nat option" where
  "slot d at_min =
     (let i = at_min - day_from d in
      if i < - (2 ^ 63) \<or> 2 ^ 63 \<le> i then None
      else if 0 \<le> i \<and> i < int MINUTES then Some (nat i) else None)"

definition shift_left :: "char list \<Rightarrow> nat \<Rightarrow> char \<Rightarrow> char list" where
  "shift_left cells count fill =
     (let rest = drop count cells
      in take MINUTES rest @ replicate (MINUTES - length rest) fill)"

definition row_seen :: "char list \<Rightarrow> bool" where
  "row_seen cells \<longleftrightarrow> (\<exists>b \<in> set cells. b \<noteq> ABSENT_BYTE)"

definition roll :: "day \<Rightarrow> int \<Rightarrow> day" where
  "roll d now_min =
     (let want = now_min - int MINUTES + 1 in
      if want \<le> day_from d then d
      else
        let shift = nat (want - day_from d) in
        if MINUTES \<le> shift
        then \<lparr>day_from = want, watched = blank UNWATCHED_BYTE, rows = []\<rparr>
        else \<lparr>day_from = want,
              watched = shift_left (watched d) shift UNWATCHED_BYTE,
              rows = bt_retain (\<lambda>_ cells. row_seen cells)
                       (bt_map (\<lambda>_ cells. shift_left cells shift ABSENT_BYTE) (rows d))\<rparr>)"

section \<open>Recording\<close>

text \<open>
  \<open>rposition(|b| *b != ABSENT)\<close>; the eviction key pairs it with the id, and \<open>None\<close> (a row never
  seen) sorts first, as in Rust.
\<close>

definition last_seen :: "char list \<Rightarrow> nat option" where
  "last_seen cells =
     (case dropWhile (\<lambda>b. b = ABSENT_BYTE) (rev cells) of [] \<Rightarrow> None
      | _ # earlier \<Rightarrow> Some (length earlier))"

definition evict_key :: "string \<times> char list \<Rightarrow> nat option \<times> string" where
  "evict_key r = (last_seen (snd r), fst r)"

definition stalest :: "(string, char list) btree \<Rightarrow> string option" where
  "stalest rs = (if rs = [] then None else Some (fst (arg_min_list evict_key rs)))"

lemma stalest_in: "stalest rs = Some sid \<Longrightarrow> sid \<in> fst ` set rs"
  using arg_min_list_in [of rs evict_key] by (auto simp: stalest_def split: if_splits)

lemma bt_remove_shorter: "k \<in> fst ` set m \<Longrightarrow> length (bt_remove k m) < length m"
  unfolding bt_remove_def by (auto intro!: length_filter_less)

function make_room :: "(string, char list) btree \<Rightarrow> (string, char list) btree" where
  "make_room rs =
     (if MAX_ROWS \<le> length rs
      then (case stalest rs of None \<Rightarrow> rs | Some sid \<Rightarrow> make_room (bt_remove sid rs))
      else rs)"
  by pat_completeness auto
termination
  by (relation "measure length") (auto intro: bt_remove_shorter stalest_in)

declare make_room.simps [simp del]

definition row_or_blank :: "(string, char list) btree \<Rightarrow> string \<Rightarrow> char list" where
  "row_or_blank rs sid = (case bt_get rs sid of Some cells \<Rightarrow> cells | None \<Rightarrow> blank ABSENT_BYTE)"

definition room_for :: "(string, char list) btree \<Rightarrow> string \<Rightarrow> (string, char list) btree" where
  "room_for rs sid = (if bt_get rs sid = None then make_room rs else rs)"

text \<open>The stronger of the word already in the cell and the one reported now.\<close>

definition keep_word :: "char \<Rightarrow> state \<Rightarrow> state" where
  "keep_word b word =
     (case word_of b of
        Some had \<Rightarrow> if state_rank had \<le> state_rank word then had else word
      | None \<Rightarrow> word)"

definition observe_row ::
  "nat \<Rightarrow> (string, char list) btree \<Rightarrow> string \<times> state \<Rightarrow> (string, char list) btree" where
  "observe_row i rs r =
     (case r of (sid, word) \<Rightarrow>
        let rs' = room_for rs sid; cells = row_or_blank rs' sid
        in bt_insert sid (cells[i := byte_of (keep_word (cells ! i) word)]) rs')"

definition observe :: "day \<Rightarrow> int \<Rightarrow> (string \<times> state) list \<Rightarrow> day" where
  "observe d now_ms sample =
     (let at_min = minute now_ms; d' = roll d at_min in
      case slot d' at_min of
        None \<Rightarrow> d'
      | Some i \<Rightarrow> d'\<lparr>watched := (watched d')[i := WATCHED_BYTE],
                     rows := foldl (observe_row i) (rows d') sample\<rparr>)"

definition unavailable_row ::
  "nat \<Rightarrow> (string, char list) btree \<Rightarrow> string \<Rightarrow> (string, char list) btree" where
  "unavailable_row i rs sid =
     (let rs' = room_for rs sid
      in bt_insert sid ((row_or_blank rs' sid)[i := UNWATCHED_BYTE]) rs')"

definition unavailable :: "day \<Rightarrow> int \<Rightarrow> string list \<Rightarrow> day" where
  "unavailable d now_ms ids =
     (let d' = roll d (minute now_ms) in
      case slot d' (minute now_ms) of
        None \<Rightarrow> d'
      | Some i \<Rightarrow> d'\<lparr>rows := foldl (unavailable_row i) (rows d') ids\<rparr>)"

section \<open>Reading\<close>

definition cell_at :: "day \<Rightarrow> char list option \<Rightarrow> nat \<Rightarrow> day_cell" where
  "cell_at d row i =
     (if watched d ! i \<noteq> WATCHED_BYTE then Unwatched
      else if (case row of None \<Rightarrow> False | Some cells \<Rightarrow> cells ! i = UNWATCHED_BYTE) then Unwatched
      else (case row of
              None \<Rightarrow> Absent
            | Some cells \<Rightarrow> (case word_of (cells ! i) of Some w \<Rightarrow> Word w | None \<Rightarrow> Absent)))"

definition push :: "run_cells list \<Rightarrow> day_cell \<Rightarrow> run_cells list" where
  "push out cell =
     (if out \<noteq> [] \<and> run_cell (last out) = cell
      then butlast out @ [(last out)\<lparr>run_len := run_len (last out) + 1\<rparr>]
      else out @ [\<lparr>run_cell = cell, run_len = 1\<rparr>])"

definition strip_lo :: "nat \<Rightarrow> nat \<Rightarrow> nat" where
  "strip_lo cells c = c * MINUTES div cells"

definition strip_hi :: "nat \<Rightarrow> nat \<Rightarrow> nat" where
  "strip_hi cells c = max ((c + 1) * MINUTES div cells) (strip_lo cells c + 1)"

text \<open>The loop over one cell's minutes, keeping the first of the strongest.\<close>

definition strongest :: "day_cell list \<Rightarrow> day_cell" where
  "strongest cs = foldl (\<lambda>best here. if cell_rank here < cell_rank best then here else best) Absent cs"

definition strip_cell :: "day \<Rightarrow> string \<Rightarrow> nat \<Rightarrow> nat \<Rightarrow> day_cell" where
  "strip_cell d sid cells c =
     strongest (map (cell_at d (bt_get (rows d) sid))
                  [strip_lo cells c ..< min (strip_hi cells c) MINUTES])"

definition clamp_cells :: "nat \<Rightarrow> nat" where
  "clamp_cells cells = max 1 (min MINUTES cells)"

definition strip_of :: "day \<Rightarrow> string \<Rightarrow> nat \<Rightarrow> run_cells list" where
  "strip_of d sid cells =
     (let n = clamp_cells cells in foldl push [] (map (strip_cell d sid n) [0..<n]))"

definition unwatched_strip :: "nat \<Rightarrow> run_cells list" where
  "unwatched_strip cells = [\<lparr>run_cell = Unwatched, run_len = clamp_cells cells\<rparr>]"

section \<open>The stored and the wire form\<close>

record stored =
  stored_from :: int
  stored_watched :: string
  stored_rows :: "(string, string) btree"

definition to_stored :: "(char list \<Rightarrow> string) \<Rightarrow> day \<Rightarrow> stored" where
  "to_stored lossy d =
     \<lparr>stored_from = day_from d, stored_watched = lossy (watched d),
      stored_rows = bt_map (\<lambda>_ cells. lossy cells) (rows d)\<rparr>"

definition from_stored :: "stored \<Rightarrow> day option" where
  "from_stored s =
     (if length (stored_watched s) \<noteq> MINUTES then None
      else if \<exists>(sid, cells) \<in> set (stored_rows s). length cells \<noteq> MINUTES then None
      else Some \<lparr>day_from = stored_from s, watched = stored_watched s, rows = stored_rows s\<rparr>)"

definition to_wire :: "(stored \<Rightarrow> 't) \<Rightarrow> (char list \<Rightarrow> string) \<Rightarrow> day \<Rightarrow> 't" where
  "to_wire enc lossy d = enc (to_stored lossy d)"

definition from_wire :: "('t \<Rightarrow> stored option) \<Rightarrow> 't \<Rightarrow> int \<Rightarrow> day option" where
  "from_wire dec text now_ms =
     map_option (\<lambda>d. roll d (minute now_ms)) (Option.bind (dec text) from_stored)"

definition end_of_wire :: "('t \<Rightarrow> stored option) \<Rightarrow> 't \<Rightarrow> int option" where
  "end_of_wire dec text = map_option (\<lambda>s. stored_from s + int MINUTES - 1) (dec text)"

text \<open>\<open>load\<close>: the file's text if it could be read; anything malformed is an empty record.\<close>

definition load_day :: "('t \<Rightarrow> stored option) \<Rightarrow> 't option \<Rightarrow> int \<Rightarrow> day" where
  "load_day dec file now_ms =
     roll (case Option.bind (Option.bind file dec) from_stored of
             Some d \<Rightarrow> d | None \<Rightarrow> day_empty now_ms) (minute now_ms)"

section \<open>Increments\<close>

record day_since =
  since_from :: int
  since_watched :: string
  since_rows :: "(string \<times> string) list"

definition since :: "(char list \<Rightarrow> string) \<Rightarrow> day \<Rightarrow> int \<Rightarrow> day_since option" where
  "since lossy d held_end =
     (case slot d held_end of
        None \<Rightarrow> None
      | Some start \<Rightarrow> Some \<lparr>since_from = day_from d,
                         since_watched = lossy (drop start (watched d)),
                         since_rows = map (\<lambda>(sid, cells). (sid, lossy (drop start cells))) (rows d)\<rparr>)"

text \<open>The closure \<open>lay\<close>: a tail longer than the window does not fit.\<close>

definition lay :: "char list \<Rightarrow> string \<Rightarrow> char list option" where
  "lay cells tail =
     (if MINUTES < length tail then None else Some (take (MINUTES - length tail) cells @ tail))"

fun lay_rows ::
  "(string, char list) btree \<Rightarrow> (string \<times> string) list \<Rightarrow> (string, char list) btree \<Rightarrow>
   (string, char list) btree option" where
  "lay_rows held [] out = Some out"
| "lay_rows held ((sid, tail) # rest) out =
     (case lay (row_or_blank held sid) tail of
        None \<Rightarrow> None
      | Some cells \<Rightarrow> lay_rows (bt_remove sid held) rest (bt_insert sid cells out))"

definition apply_since_day :: "day \<Rightarrow> day_since \<Rightarrow> day option" where
  "apply_since_day held s =
     (let d = roll held (since_from s + int MINUTES - 1) in
      if day_from d \<noteq> since_from s then None
      else case lay (watched d) (since_watched s) of
             None \<Rightarrow> None
           | Some w \<Rightarrow> map_option (\<lambda>rs. d\<lparr>watched := w, rows := rs\<rparr>)
                         (lay_rows (rows d) (since_rows s) []))"

definition apply_since ::
  "(stored \<Rightarrow> 't) \<Rightarrow> ('t \<Rightarrow> stored option) \<Rightarrow> (char list \<Rightarrow> string) \<Rightarrow>
   't \<Rightarrow> day_since \<Rightarrow> 't option" where
  "apply_since enc dec lossy held s =
     map_option (to_wire enc lossy)
       (Option.bind (Option.bind (dec held) from_stored) (\<lambda>d. apply_since_day d s))"

end
