(* ===== verification/DayStripFacts.thy ===== *)
theory DayStripFacts
  imports DayStrip
begin

text \<open>
  What the day strip promises: its shape and its bound after any samples, that rolling the
  window only forgets what fell off it, that a cell keeps the strongest word, that a merged
  strip covers every minute and hides no word, and that the stored form and the increments
  give back the record.
\<close>

section \<open>Shape\<close>

definition rows_ok :: "(string, char list) btree \<Rightarrow> bool" where
  "rows_ok rs \<longleftrightarrow> bt_ok rs \<and> (\<forall>cells \<in> snd ` set rs. length cells = MINUTES)"

definition day_ok :: "day \<Rightarrow> bool" where
  "day_ok d \<longleftrightarrow> length (watched d) = MINUTES \<and> rows_ok (rows d)"

lemma length_blank [simp]: "length (blank fill) = MINUTES"
  by (simp add: blank_def)

lemma blank_nth [simp]: "i < MINUTES \<Longrightarrow> blank fill ! i = fill"
  by (simp add: blank_def)

lemma length_shift_left [simp]: "length (shift_left cells s fill) = MINUTES"
  by (simp add: shift_left_def Let_def)

lemma shift_left_nth:
  "length cells = MINUTES \<Longrightarrow> i < MINUTES \<Longrightarrow>
   shift_left cells s fill ! i = (if i + s < MINUTES then cells ! (i + s) else fill)"
  by (auto simp: shift_left_def Let_def nth_append add.commute)

lemma rows_ok_Nil [simp]: "rows_ok []"
  by (simp add: rows_ok_def)

lemma rows_ok_get: "rows_ok rs \<Longrightarrow> bt_get rs sid = Some cells \<Longrightarrow> length cells = MINUTES"
  using bt_get_in [of rs] by (force simp: rows_ok_def)

lemma length_row_or_blank [simp]: "rows_ok rs \<Longrightarrow> length (row_or_blank rs sid) = MINUTES"
  by (auto simp: row_or_blank_def rows_ok_get split: option.splits)

lemma rows_okI:
  "bt_ok rs \<Longrightarrow> (\<And>sid cells. bt_get rs sid = Some cells \<Longrightarrow> length cells = MINUTES) \<Longrightarrow> rows_ok rs"
  using bt_get_in [of rs] by (force simp: rows_ok_def)

lemma rows_ok_insert [simp]:
  "rows_ok rs \<Longrightarrow> length cells = MINUTES \<Longrightarrow> rows_ok (bt_insert sid cells rs)"
  by (rule rows_okI) (auto simp: rows_ok_def [THEN iffD1] rows_ok_get split: if_splits)

lemma rows_ok_remove [simp]: "rows_ok rs \<Longrightarrow> rows_ok (bt_remove sid rs)"
  by (rule rows_okI) (auto simp: rows_ok_def [THEN iffD1] rows_ok_get split: if_splits)

lemma make_room_keeps:
  "rows_ok rs \<Longrightarrow> rows_ok (make_room rs)"
  "bt_get rs sid = None \<Longrightarrow> bt_get (make_room rs) sid = None"
  by (induction rs rule: make_room.induct; subst make_room.simps;
      simp split: option.splits)+

lemma make_room_length: "length (make_room rs) < MAX_ROWS"
proof (induction rs rule: make_room.induct)
  case (1 rs)
  then show ?case
    by (subst make_room.simps) (auto simp: stalest_def MAX_ROWS_def split: option.splits)
qed

lemma make_room_id: "length rs < MAX_ROWS \<Longrightarrow> make_room rs = rs"
  by (simp add: make_room.simps)

lemma room_for_ok [simp]: "rows_ok rs \<Longrightarrow> rows_ok (room_for rs sid)"
  by (simp add: room_for_def make_room_keeps)

lemma insert_in_room:
  assumes "rows_ok rs" "length rs \<le> MAX_ROWS"
  shows "length (bt_insert sid cells (room_for rs sid)) \<le> MAX_ROWS"
proof -
  have "bt_ok (room_for rs sid)" using room_for_ok [OF assms(1)] by (simp add: rows_ok_def)
  then show ?thesis
    using assms(2) make_room_length [of rs] make_room_keeps(2) [of rs sid]
    by (auto simp: bt_insert_length_ok room_for_def split: option.splits)
qed

lemma observe_row_ok: "rows_ok rs \<Longrightarrow> rows_ok (observe_row i rs r)"
  by (cases r) (simp add: observe_row_def Let_def)

lemma unavailable_row_ok: "rows_ok rs \<Longrightarrow> rows_ok (unavailable_row i rs sid)"
  by (simp add: unavailable_row_def Let_def)

lemma observe_row_length:
  "rows_ok rs \<Longrightarrow> length rs \<le> MAX_ROWS \<Longrightarrow> length (observe_row i rs r) \<le> MAX_ROWS"
  by (cases r) (simp add: observe_row_def Let_def insert_in_room)

lemma unavailable_row_length:
  "rows_ok rs \<Longrightarrow> length rs \<le> MAX_ROWS \<Longrightarrow> length (unavailable_row i rs sid) \<le> MAX_ROWS"
  by (simp add: unavailable_row_def Let_def insert_in_room)

lemma rows_ok_map_retain:
  assumes "rows_ok rs" and "\<And>k c. length (f k c) = MINUTES"
  shows "rows_ok (bt_retain P (bt_map f rs))"
proof (rule rows_okI)
  have ok: "bt_ok (bt_map f rs)" using assms(1) by (simp add: rows_ok_def)
  then show "bt_ok (bt_retain P (bt_map f rs))" by simp
  show "bt_get (bt_retain P (bt_map f rs)) sid = Some cells \<Longrightarrow> length cells = MINUTES" for sid cells
    using assms(2) by (auto simp: bt_get_retain [OF ok] split: option.splits if_splits)
qed

lemma roll_ok [simp]: "day_ok d \<Longrightarrow> day_ok (roll d m)"
  by (auto simp: roll_def Let_def day_ok_def rows_ok_map_retain)

lemma roll_rows_length: "length (rows (roll d m)) \<le> length (rows d)"
  by (auto simp: roll_def Let_def bt_retain_def bt_map_def
      intro: order.trans [OF length_filter_le])

definition day_bounded :: "day \<Rightarrow> bool" where
  "day_bounded d \<longleftrightarrow> day_ok d \<and> length (rows d) \<le> MAX_ROWS"

datatype day_op = Observe int "(string \<times> state) list" | Unavailable int "string list" | Roll int

fun day_step :: "day \<Rightarrow> day_op \<Rightarrow> day" where
  "day_step d (Observe now sample) = observe d now sample"
| "day_step d (Unavailable now ids) = unavailable d now ids"
| "day_step d (Roll m) = roll d m"

lemma foldl_rows_keep:
  assumes "\<And>rs x. rows_ok rs \<Longrightarrow> length rs \<le> MAX_ROWS \<Longrightarrow>
             rows_ok (f rs x) \<and> length (f rs x) \<le> MAX_ROWS"
  shows "rows_ok rs \<Longrightarrow> length rs \<le> MAX_ROWS \<Longrightarrow>
         rows_ok (foldl f rs xs) \<and> length (foldl f rs xs) \<le> MAX_ROWS"
  by (induction xs arbitrary: rs) (auto simp: assms)

lemma day_step_bounded: "day_bounded d \<Longrightarrow> day_bounded (day_step d op)"
proof (cases op)
  case (Observe now sample)
  assume d: "day_bounded d"
  let ?d = "roll d (minute now)"
  have "rows_ok (rows ?d)" "length (rows ?d) \<le> MAX_ROWS" "length (watched ?d) = MINUTES"
    using d roll_ok [of d "minute now"] roll_rows_length [of d "minute now"]
    by (auto simp: day_bounded_def day_ok_def)
  with d show ?thesis
    using foldl_rows_keep [of "observe_row i" for i] observe_row_ok observe_row_length
    by (auto simp: Observe observe_def Let_def day_bounded_def day_ok_def split: option.splits)
next
  case (Unavailable now ids)
  assume d: "day_bounded d"
  let ?d = "roll d (minute now)"
  have "rows_ok (rows ?d)" "length (rows ?d) \<le> MAX_ROWS" "length (watched ?d) = MINUTES"
    using d roll_ok [of d "minute now"] roll_rows_length [of d "minute now"]
    by (auto simp: day_bounded_def day_ok_def)
  with d show ?thesis
    using foldl_rows_keep [of "unavailable_row i" for i] unavailable_row_ok unavailable_row_length
    by (auto simp: Unavailable unavailable_def Let_def day_bounded_def day_ok_def
        split: option.splits)
next
  case (Roll m)
  assume "day_bounded d"
  then show ?thesis
    using roll_rows_length [of d m] by (simp add: Roll day_bounded_def)
qed

interpretation day_inv: kept_invariant day_step day_bounded "\<lambda>_ _. True"
  by unfold_locales (rule day_step_bounded)

lemma day_empty_ok: "day_bounded (day_empty now)"
  by (simp add: day_bounded_def day_ok_def day_empty_def)

text \<open>
  bounded by construction.  After any samples, absences and rolls of the window the record
  has one byte per minute of the day for the machine and for every row, its rows are in key
  order, and there are at most 512 of them.
\<close>

theorem day_stays_bounded:
  "day_bounded (run_inputs day_step (day_empty now) ops)"
  by (rule day_inv.run_keeps) (simp_all add: day_empty_ok)

section \<open>The window in absolute minutes\<close>

text \<open>
  What the record says about a session, and about the machine, at an absolute minute; outside
  the window it says nothing.
\<close>

definition in_window :: "day \<Rightarrow> int \<Rightarrow> bool" where
  "in_window d m \<longleftrightarrow> day_from d \<le> m \<and> m < day_from d + int MINUTES"

definition byte_at :: "day \<Rightarrow> string \<Rightarrow> int \<Rightarrow> char" where
  "byte_at d sid m =
     (if in_window d m then row_or_blank (rows d) sid ! nat (m - day_from d) else ABSENT_BYTE)"

definition watched_at :: "day \<Rightarrow> int \<Rightarrow> char" where
  "watched_at d m = (if in_window d m then watched d ! nat (m - day_from d) else UNWATCHED_BYTE)"

lemma not_row_seen: "length cells = MINUTES \<Longrightarrow> \<not> row_seen cells \<Longrightarrow> cells = blank ABSENT_BYTE"
  by (rule nth_equalityI) (auto simp: row_seen_def all_set_conv_all_nth)

lemma shift_left_blank [simp]: "s < MINUTES \<Longrightarrow> shift_left (blank b) s b = blank b"
  by (rule nth_equalityI) (auto simp: shift_left_nth)

lemma row_or_blank_roll:
  assumes "rows_ok rs" "s < MINUTES"
  shows "row_or_blank (bt_retain (\<lambda>_ cells. row_seen cells)
           (bt_map (\<lambda>_ cells. shift_left cells s ABSENT_BYTE) rs)) sid
         = shift_left (row_or_blank rs sid) s ABSENT_BYTE"
proof -
  have ok: "bt_ok (bt_map (\<lambda>_ cells. shift_left cells s ABSENT_BYTE) rs)"
    using assms(1) by (simp add: rows_ok_def)
  show ?thesis
    using assms(2) not_row_seen [of "shift_left c s ABSENT_BYTE" for c]
    by (auto simp: row_or_blank_def bt_get_retain [OF ok] split: option.splits)
qed

lemma roll_from: "day_from (roll d m) = max (day_from d) (m - int MINUTES + 1)"
  by (auto simp: roll_def Let_def)

lemma row_or_blank_Nil [simp]: "row_or_blank [] sid = blank ABSENT_BYTE"
  by (simp add: row_or_blank_def)

lemma roll_keeps_minutes:
  assumes "day_ok d" and "in_window (roll d now) m"
  shows "byte_at (roll d now) sid m = byte_at d sid m \<and> watched_at (roll d now) m = watched_at d m"
proof (cases "now - int MINUTES + 1 \<le> day_from d")
  case True
  then show ?thesis by (simp add: roll_def)
next
  case moved: False
  define s where "s = nat (now - int MINUTES + 1 - day_from d)"
  have start: "day_from (roll d now) = day_from d + int s"
    using moved by (simp add: roll_from s_def)
  define i where "i = nat (m - day_from (roll d now))"
  have m: "m = day_from d + int s + int i" and i: "i < MINUTES"
    using assms(2) by (auto simp: in_window_def i_def start)
  have ok: "rows_ok (rows d)" "length (watched d) = MINUTES" using assms(1) by (simp_all add: day_ok_def)
  show ?thesis
  proof (cases "MINUTES \<le> s")
    case True
    then have "roll d now = \<lparr>day_from = now - int MINUTES + 1, watched = blank UNWATCHED_BYTE, rows = []\<rparr>"
      using moved by (simp add: roll_def Let_def s_def)
    moreover have "\<not> in_window d m" using True by (simp add: in_window_def m)
    ultimately show ?thesis
      using i assms(2) by (simp add: byte_at_def watched_at_def i_def)
  next
    case False
    then have r: "watched (roll d now) = shift_left (watched d) s UNWATCHED_BYTE"
      "rows (roll d now) = bt_retain (\<lambda>_ cells. row_seen cells)
         (bt_map (\<lambda>_ cells. shift_left cells s ABSENT_BYTE) (rows d))"
      using moved by (simp_all add: roll_def Let_def s_def)
    have w: "in_window d m \<longleftrightarrow> i + s < MINUTES" by (auto simp: in_window_def m)
    have "row_or_blank (rows (roll d now)) sid = shift_left (row_or_blank (rows d) sid) s ABSENT_BYTE"
      using False by (simp add: r(2) row_or_blank_roll [OF ok(1)])
    then show ?thesis
      using assms(2) i ok w
      by (simp add: byte_at_def watched_at_def r(1) shift_left_nth flip: i_def)
        (simp add: m nat_add_distrib add.commute)
  qed
qed

text \<open>
  rolling the window forgets exactly what fell off its front.  Every minute of the new window
  reads, for every session and for the machine, what it read before the roll (a minute the old
  window had not reached reads as never sampled and never there), although rows left with
  nothing in the window are dropped.
\<close>

theorem roll_forgets_only_the_front:
  assumes "day_ok d" and "in_window (roll d now) m"
  shows "byte_at (roll d now) sid m = byte_at d sid m \<and> watched_at (roll d now) m = watched_at d m"
  by (rule roll_keeps_minutes [OF assms])

lemma roll_forgets_witness:
  "byte_at (roll (day_empty 0) 5) ''a'' 3 = byte_at (day_empty 0) ''a'' 3
   \<and> watched_at (roll (day_empty 0) 5) 3 = watched_at (day_empty 0) 3"
proof (rule roll_forgets_only_the_front)
  show "day_ok (day_empty 0)" using day_empty_ok by (simp add: day_bounded_def)
  show "in_window (roll (day_empty 0) 5) 3"
    by (simp add: in_window_def roll_from day_empty_def minute_def MINUTES_def)
qed

section \<open>A cell keeps the strongest word\<close>

lemma keep_word_rank:
  "state_rank (keep_word b w) = (case word_of b of None \<Rightarrow> state_rank w
     | Some had \<Rightarrow> min (state_rank had) (state_rank w))"
  by (auto simp: keep_word_def split: option.splits)

definition word_at :: "day \<Rightarrow> string \<Rightarrow> int \<Rightarrow> state option" where
  "word_at d sid m = word_of (byte_at d sid m)"

lemma row_or_blank_insert [simp]:
  "row_or_blank (bt_insert k v rs) sid = (if sid = k then v else row_or_blank rs sid)"
  by (simp add: row_or_blank_def)

lemma row_or_blank_room_for [simp]: "row_or_blank (room_for rs sid) sid = row_or_blank rs sid"
  by (simp add: row_or_blank_def room_for_def make_room_keeps)

text \<open>The window always reaches the minute being observed, unless the clock is behind it.\<close>

lemma roll_reaches: "day_from d \<le> m \<Longrightarrow> in_window (roll d m) m"
  using MINUTES_pos by (auto simp: in_window_def roll_from simp del: MINUTES_pos)

text \<open>
  recording one row leaves, in the observed minute, the stronger of the word already there
  and the word reported, marks the minute as sampled, and changes no other minute of that row.
\<close>

theorem observe_keeps_strongest_word:
  assumes ok: "day_ok d" and now: "day_from d \<le> minute now"
  shows "(\<exists>w'. word_at (observe d now [(sid, w)]) sid (minute now) = Some w'
             \<and> state_rank w' = (case word_at d sid (minute now) of None \<Rightarrow> state_rank w
                                | Some had \<Rightarrow> min (state_rank had) (state_rank w)))
    \<and> watched_at (observe d now [(sid, w)]) (minute now) = WATCHED_BYTE
    \<and> (\<forall>m. m \<noteq> minute now \<longrightarrow> in_window (observe d now [(sid, w)]) m \<longrightarrow>
           byte_at (observe d now [(sid, w)]) sid m = byte_at d sid m)"
proof -
  let ?d = "roll d (minute now)" and ?n = "minute now"
  have win: "in_window ?d ?n" by (rule roll_reaches [OF now])
  define i where "i = nat (?n - day_from ?d)"
  have i: "i < MINUTES" and n: "?n - day_from ?d = int i"
    using win by (auto simp: in_window_def i_def)
  have small: "int MINUTES \<le> 2 ^ 63" by (simp add: MINUTES_def)
  have slot: "slot ?d ?n = Some i"
    unfolding slot_def Let_def n using i small by simp
  define cells where "cells = row_or_blank (rows ?d) sid"
  have obs: "observe d now [(sid, w)] = ?d\<lparr>watched := (watched ?d)[i := WATCHED_BYTE],
      rows := bt_insert sid (cells[i := byte_of (keep_word (cells ! i) w)]) (room_for (rows ?d) sid)\<rparr>"
    by (simp add: observe_def Let_def slot observe_row_def cells_def)
  have okd: "day_ok ?d" using ok by simp
  then have len: "length cells = MINUTES" "length (watched ?d) = MINUTES"
    by (simp_all add: cells_def day_ok_def)
  have here: "byte_at ?d sid ?n = cells ! i"
    using win by (simp add: byte_at_def cells_def i_def)
  also have "byte_at ?d sid ?n = byte_at d sid ?n"
    using roll_keeps_minutes [OF ok win] by simp
  finally have was: "word_of (cells ! i) = word_at d sid ?n" by (simp add: word_at_def)
  have "\<exists>w'. word_at (observe d now [(sid, w)]) sid ?n = Some w'
      \<and> state_rank w' = (case word_at d sid ?n of None \<Rightarrow> state_rank w
                          | Some had \<Rightarrow> min (state_rank had) (state_rank w))"
  proof -
    have "word_at (observe d now [(sid, w)]) sid ?n = Some (keep_word (cells ! i) w)"
      using win i len
      by (simp add: obs word_at_def byte_at_def in_window_def flip: i_def)
    then show ?thesis by (simp add: keep_word_rank was)
  qed
  moreover have "watched_at (observe d now [(sid, w)]) ?n = WATCHED_BYTE"
    using win i len by (simp add: obs watched_at_def in_window_def flip: i_def)
  moreover have "byte_at (observe d now [(sid, w)]) sid m = byte_at d sid m"
    if "m \<noteq> ?n" "in_window (observe d now [(sid, w)]) m" for m
  proof -
    have wm: "in_window ?d m" using that(2) by (simp add: obs in_window_def)
    moreover have "i \<noteq> nat (m - day_from ?d)"
      using that(1) wm n by (auto simp: in_window_def)
    ultimately have "byte_at (observe d now [(sid, w)]) sid m = byte_at ?d sid m"
      using that(2) by (simp add: obs byte_at_def cells_def in_window_def)
    then show ?thesis using roll_keeps_minutes [OF ok wm] by simp
  qed
  ultimately show ?thesis by blast
qed

lemma observe_witness:
  "watched_at (observe (day_empty 0) 0 [(''a'', Blocked)]) (minute 0) = WATCHED_BYTE"
proof -
  have "day_ok (day_empty 0)" using day_empty_ok by (simp add: day_bounded_def)
  moreover have "day_from (day_empty 0) \<le> minute 0" by (simp add: day_empty_def MINUTES_def)
  ultimately show ?thesis
    using observe_keeps_strongest_word [of "day_empty 0" 0 "''a''" Blocked] by blast
qed

section \<open>Merging minutes into a strip\<close>

definition expand :: "run_cells list \<Rightarrow> day_cell list" where
  "expand runs = concat (map (\<lambda>r. replicate (run_len r) (run_cell r)) runs)"

definition canonical_runs :: "run_cells list \<Rightarrow> bool" where
  "canonical_runs runs \<longleftrightarrow> distinct_adj (map run_cell runs) \<and> (\<forall>r \<in> set runs. 0 < run_len r)"

lemma expand_append [simp]: "expand (xs @ ys) = expand xs @ expand ys"
  by (simp add: expand_def)

lemma expand_push: "expand (push out c) = expand out @ [c]"
proof (cases "out \<noteq> [] \<and> run_cell (last out) = c")
  case True
  then obtain out' r where "out = out' @ [r]" by (metis rev_exhaust)
  with True show ?thesis
    by (simp add: push_def) (simp add: expand_def replicate_append_same)
qed (auto simp: push_def expand_def)

lemma canonical_push: "canonical_runs out \<Longrightarrow> canonical_runs (push out c)"
proof (cases "out \<noteq> [] \<and> run_cell (last out) = c")
  case True
  assume ok: "canonical_runs out"
  from True obtain out' r where "out = out' @ [r]" by (metis rev_exhaust)
  with True ok show ?thesis by (simp add: push_def canonical_runs_def)
next
  case False
  assume ok: "canonical_runs out"
  show ?thesis
  proof (cases out rule: rev_cases)
    case Nil
    then show ?thesis by (simp add: push_def canonical_runs_def)
  next
    case (snoc out' r)
    with False ok show ?thesis
      by (simp add: push_def canonical_runs_def distinct_adj_append_iff last_map)
  qed
qed

lemma foldl_push:
  "expand (foldl push out cs) = expand out @ cs"
  "canonical_runs out \<Longrightarrow> canonical_runs (foldl push out cs)"
  by (induction cs arbitrary: out) (simp_all add: expand_push canonical_push)

text \<open>
  a strip is the run-length form of its cells.  Expanding the runs of a strip gives exactly
  one cell per requested cell (the count clamped to between 1 and 1440), in order, and the form
  is canonical: no run is empty and no two neighbouring runs show the same word.
\<close>

theorem strip_is_canonical:
  "expand (strip_of d sid cells) = map (strip_cell d sid (clamp_cells cells)) [0..<clamp_cells cells]
   \<and> canonical_runs (strip_of d sid cells)"
proof -
  have "canonical_runs []" by (simp add: canonical_runs_def)
  then show ?thesis
    unfolding strip_of_def Let_def
    using foldl_push(2) [of "[]"] by (auto simp: foldl_push(1)) (simp add: expand_def)
qed

lemma clamp_cells_bounds: "0 < clamp_cells cells" "clamp_cells cells \<le> MINUTES"
  using MINUTES_pos by (auto simp: clamp_cells_def simp del: MINUTES_pos)

lemma strip_hi_eq: "0 < n \<Longrightarrow> n \<le> MINUTES \<Longrightarrow> strip_hi n c = strip_lo n (Suc c)"
proof -
  assume n: "0 < n" "n \<le> MINUTES"
  have "(c * MINUTES + n) div n \<le> (Suc c * MINUTES) div n"
    using n by (intro div_le_mono) simp
  moreover from n have "(c * MINUTES + n) div n = c * MINUTES div n + 1"
    by (intro div_add_self2) simp
  ultimately have "strip_lo n c + 1 \<le> strip_lo n (Suc c)"
    by (simp only: strip_lo_def)
  then show ?thesis by (simp add: strip_hi_def strip_lo_def)
qed

lemma strip_lo_end: "0 < n \<Longrightarrow> strip_lo n n = MINUTES"
  by (simp add: strip_lo_def)

lemma strip_lo_step: "0 < n \<Longrightarrow> n \<le> MINUTES \<Longrightarrow> strip_lo n c < strip_lo n (Suc c)"
  using strip_hi_eq [of n c] by (simp add: strip_hi_def)

lemma strip_lo_mono: "a \<le> b \<Longrightarrow> strip_lo n a \<le> strip_lo n b"
  by (simp add: strip_lo_def div_le_mono)

lemma strip_slice:
  assumes "c < clamp_cells n"
  shows "strip_lo (clamp_cells n) c < strip_hi (clamp_cells n) c"
    and "strip_hi (clamp_cells n) c \<le> MINUTES"
  using clamp_cells_bounds [of n] strip_lo_step [of "clamp_cells n" c] assms
    strip_lo_mono [of "Suc c" "clamp_cells n" "clamp_cells n"]
  by (simp_all add: strip_hi_eq strip_lo_end)

lemma find_slice:
  assumes "i < strip_lo n k"
  shows "\<exists>c < k. strip_lo n c \<le> i \<and> i < strip_lo n (Suc c)"
  using assms
proof (induction k)
  case 0
  then show ?case by (simp add: strip_lo_def)
next
  case (Suc k)
  then show ?case by (metis less_Suc_eq not_le)
qed

lemma strongest_fold:
  fixes b :: day_cell
  defines "f \<equiv> \<lambda>best here. if cell_rank here < cell_rank best then here else best"
  shows "foldl f b cs \<in> insert b (set cs) \<and> cell_rank (foldl f b cs) \<le> cell_rank b
    \<and> (\<forall>c \<in> set cs. cell_rank (foldl f b cs) \<le> cell_rank c)"
proof (induction cs arbitrary: b)
  case (Cons c cs)
  have "f b c \<in> {b, c}" "cell_rank (f b c) \<le> cell_rank b" "cell_rank (f b c) \<le> cell_rank c"
    by (auto simp: f_def)
  with Cons.IH [of "f b c"] show ?case by fastforce
qed simp

lemma cell_rank_Absent: "cell_rank Absent \<le> cell_rank c \<Longrightarrow> c = Absent"
  by (metis cell_rank.simps(3) cell_rank_inj cell_rank_le_Absent le_antisym)

lemma strongest_in: "cs \<noteq> [] \<Longrightarrow> strongest cs \<in> set cs"
proof -
  assume "cs \<noteq> []"
  then obtain c where c: "c \<in> set cs" by (cases cs) auto
  note fold = strongest_fold [of Absent cs, folded strongest_def]
  show "strongest cs \<in> set cs"
  proof (cases "strongest cs = Absent")
    case True
    then have "c = Absent" using fold c cell_rank_Absent by auto
    then show ?thesis using c True by simp
  qed (use fold in auto)
qed

lemma strongest_least: "c \<in> set cs \<Longrightarrow> cell_rank (strongest cs) \<le> cell_rank c"
  using strongest_fold [of Absent cs] by (simp add: strongest_def)

text \<open>
  Merging hides nothing.  Whatever number of cells is asked for, the slices of the day cover
  each of the 1440 minutes; the cell over a minute shows a word at least as strong as that
  minute's, and it shows a word that one of its own minutes really had.
\<close>

theorem strip_hides_no_word:
  assumes "i < MINUTES"
  shows "\<exists>c < clamp_cells cells.
      strip_lo (clamp_cells cells) c \<le> i \<and> i < strip_hi (clamp_cells cells) c
    \<and> cell_rank (strip_cell d sid (clamp_cells cells) c) \<le> cell_rank (cell_at d (bt_get (rows d) sid) i)
    \<and> strip_cell d sid (clamp_cells cells) c
        \<in> cell_at d (bt_get (rows d) sid) ` {strip_lo (clamp_cells cells) c ..< strip_hi (clamp_cells cells) c}"
proof -
  let ?n = "clamp_cells cells" and ?f = "cell_at d (bt_get (rows d) sid)"
  obtain c where c: "c < ?n" "strip_lo ?n c \<le> i" "i < strip_hi ?n c"
    using find_slice [of i ?n ?n] assms clamp_cells_bounds [of cells]
    by (auto simp: strip_lo_end strip_hi_eq)
  define cs where "cs = map ?f [strip_lo ?n c ..< strip_hi ?n c]"
  have cell: "strip_cell d sid ?n c = strongest cs"
    using strip_slice [OF c(1)] by (simp add: strip_cell_def cs_def min_absorb1)
  moreover have "?f i \<in> set cs" using c by (simp add: cs_def)
  moreover from this have "strongest cs \<in> set cs" by (intro strongest_in) auto
  then have "strongest cs \<in> ?f ` {strip_lo ?n c ..< strip_hi ?n c}"
    unfolding cs_def by simp
  ultimately show ?thesis using c strongest_least by metis
qed

lemma strip_hides_no_word_witness:
  "\<exists>c < clamp_cells 3. strip_lo (clamp_cells 3) c \<le> 700 \<and> 700 < strip_hi (clamp_cells 3) c"
  using strip_hides_no_word [of 700 3 "day_empty 0" "''a''"] by (auto simp: MINUTES_def)

section \<open>The stored form\<close>

definition row_bytes :: "char list \<Rightarrow> bool" where
  "row_bytes cells \<longleftrightarrow> set cells \<subseteq> {ABSENT_BYTE, UNWATCHED_BYTE} \<union> range byte_of"

definition watched_bytes :: "char list \<Rightarrow> bool" where
  "watched_bytes cells \<longleftrightarrow> set cells \<subseteq> {UNWATCHED_BYTE, WATCHED_BYTE}"

definition rows_bytes :: "(string, char list) btree \<Rightarrow> bool" where
  "rows_bytes rs \<longleftrightarrow> rows_ok rs \<and> (\<forall>cells \<in> snd ` set rs. row_bytes cells)"

definition day_bytes :: "day \<Rightarrow> bool" where
  "day_bytes d \<longleftrightarrow> length (watched d) = MINUTES \<and> watched_bytes (watched d) \<and> rows_bytes (rows d)"

definition ascii :: "string \<Rightarrow> bool" where
  "ascii cs \<longleftrightarrow> (\<forall>c \<in> set cs. (of_char c :: nat) < 128)"

lemma bytes_ascii: "row_bytes cells \<Longrightarrow> ascii cells" "watched_bytes cells \<Longrightarrow> ascii cells"
proof -
  have "(of_char (byte_of w) :: nat) < 128" for w by (cases w) simp_all
  then show "row_bytes cells \<Longrightarrow> ascii cells" "watched_bytes cells \<Longrightarrow> ascii cells"
    by (auto simp: row_bytes_def watched_bytes_def ascii_def ABSENT_BYTE_def
        UNWATCHED_BYTE_def WATCHED_BYTE_def)
qed

lemma ascii_drop: "ascii cells \<Longrightarrow> ascii (drop n cells)"
  by (auto simp: ascii_def dest: in_set_dropD)

lemma row_bytes_update: "row_bytes cells \<Longrightarrow> b \<in> {ABSENT_BYTE, UNWATCHED_BYTE} \<union> range byte_of \<Longrightarrow>
   row_bytes (cells[i := b])"
  unfolding row_bytes_def using set_update_subset_insert by fastforce

lemma bytes_blank: "row_bytes (blank ABSENT_BYTE)" "watched_bytes (blank UNWATCHED_BYTE)"
  by (auto simp: row_bytes_def watched_bytes_def blank_def)

lemma bytes_shift: "row_bytes cells \<Longrightarrow> row_bytes (shift_left cells n ABSENT_BYTE)"
  "watched_bytes cells \<Longrightarrow> watched_bytes (shift_left cells n UNWATCHED_BYTE)"
  by (auto simp: row_bytes_def watched_bytes_def shift_left_def Let_def
      dest!: in_set_takeD in_set_dropD)

lemma rows_bytesI:
  "rows_ok rs \<Longrightarrow> (\<And>sid cells. bt_get rs sid = Some cells \<Longrightarrow> row_bytes cells) \<Longrightarrow> rows_bytes rs"
  using bt_get_in [of rs] by (force simp: rows_bytes_def rows_ok_def)

lemma rows_bytes_get: "rows_bytes rs \<Longrightarrow> bt_get rs sid = Some cells \<Longrightarrow> row_bytes cells"
  using bt_get_in [of rs] by (force simp: rows_bytes_def rows_ok_def)

lemma rows_bytes_ok: "rows_bytes rs \<Longrightarrow> rows_ok rs"
  by (simp add: rows_bytes_def)

lemma rows_bytes_row: "rows_bytes rs \<Longrightarrow> row_bytes (row_or_blank rs sid)"
  by (auto simp: row_or_blank_def bytes_blank rows_bytes_get split: option.splits)

lemma rows_bytes_insert:
  "rows_bytes rs \<Longrightarrow> length cells = MINUTES \<Longrightarrow> row_bytes cells \<Longrightarrow> rows_bytes (bt_insert sid cells rs)"
  by (rule rows_bytesI) (auto simp: rows_bytes_ok dest: rows_bytes_get split: if_splits)

lemma rows_bytes_remove: "rows_bytes rs \<Longrightarrow> rows_bytes (bt_remove sid rs)"
  by (rule rows_bytesI) (auto simp: rows_bytes_ok dest: rows_bytes_get split: if_splits)

lemma make_room_bytes: "rows_bytes rs \<Longrightarrow> rows_bytes (make_room rs)"
  by (induction rs rule: make_room.induct; subst make_room.simps)
    (simp add: rows_bytes_remove split: option.splits)

lemma room_for_bytes: "rows_bytes rs \<Longrightarrow> rows_bytes (room_for rs sid)"
  by (simp add: room_for_def make_room_bytes)

lemma observe_row_bytes: "rows_bytes rs \<Longrightarrow> rows_bytes (observe_row i rs r)"
  by (cases r)
    (simp add: observe_row_def Let_def rows_bytes_insert rows_bytes_ok row_bytes_update
      rows_bytes_row room_for_bytes)

lemma unavailable_row_bytes: "rows_bytes rs \<Longrightarrow> rows_bytes (unavailable_row i rs sid)"
  by (simp add: unavailable_row_def Let_def rows_bytes_insert rows_bytes_ok row_bytes_update
      rows_bytes_row room_for_bytes)

lemma foldl_keep: "(\<And>s x. P s \<Longrightarrow> P (f s x)) \<Longrightarrow> P s \<Longrightarrow> P (foldl f s xs)"
  by (induction xs arbitrary: s) auto

lemma roll_bytes: "day_bytes d \<Longrightarrow> day_bytes (roll d m)"
proof -
  assume d: "day_bytes d"
  have "rows_bytes (bt_retain P (bt_map (\<lambda>_ cells. shift_left cells n ABSENT_BYTE) (rows d)))" for P n
  proof (rule rows_bytesI)
    have ok: "bt_ok (bt_map (\<lambda>_ cells. shift_left cells n ABSENT_BYTE) (rows d))"
      using d by (simp add: day_bytes_def rows_bytes_def rows_ok_def)
    show "rows_ok (bt_retain P (bt_map (\<lambda>_ cells. shift_left cells n ABSENT_BYTE) (rows d)))"
      using d by (simp add: day_bytes_def rows_bytes_def rows_ok_map_retain)
    show "row_bytes cells"
      if "bt_get (bt_retain P (bt_map (\<lambda>_ cells. shift_left cells n ABSENT_BYTE) (rows d))) sid = Some cells"
      for sid cells
      using that d
      by (auto simp: bt_get_retain [OF ok] day_bytes_def intro!: bytes_shift dest: rows_bytes_get
          split: option.splits if_splits)
  qed
  then show ?thesis using d
    by (auto simp: roll_def Let_def day_bytes_def bytes_shift bytes_blank rows_bytes_def [of "[]"])
qed

lemma watched_update: "watched_bytes cells \<Longrightarrow> watched_bytes (cells[i := WATCHED_BYTE])"
  unfolding watched_bytes_def using set_update_subset_insert by fastforce

lemma day_step_bytes: "day_bytes d \<Longrightarrow> day_bytes (day_step d op)"
proof (cases op)
  case (Observe now sample)
  assume "day_bytes d"
  from roll_bytes [OF this, of "minute now"] show ?thesis
    by (auto simp: Observe observe_def Let_def day_bytes_def watched_update observe_row_bytes
        intro: foldl_keep split: option.splits)
next
  case (Unavailable now ids)
  assume "day_bytes d"
  from roll_bytes [OF this, of "minute now"] show ?thesis
    by (auto simp: Unavailable unavailable_def Let_def day_bytes_def unavailable_row_bytes
        intro: foldl_keep split: option.splits)
qed (simp add: roll_bytes)

interpretation day_text: kept_invariant day_step day_bytes "\<lambda>_ _. True"
  by unfold_locales (rule day_step_bytes)

lemma day_empty_bytes: "day_bytes (day_empty now)"
  by (simp add: day_bytes_def day_empty_def bytes_blank rows_bytes_def)

lemma reachable_bytes: "day_bytes (run_inputs day_step (day_empty now) ops)"
  by (rule day_text.run_keeps) (simp_all add: day_empty_bytes)

text \<open>What the standard library documents: lossy decoding leaves ASCII alone.\<close>

definition keeps_ascii :: "(char list \<Rightarrow> string) \<Rightarrow> bool" where
  "keeps_ascii lossy \<longleftrightarrow> (\<forall>cs. ascii cs \<longrightarrow> lossy cs = cs)"

definition codec :: "('a \<Rightarrow> 't) \<Rightarrow> ('t \<Rightarrow> 'a option) \<Rightarrow> bool" where
  "codec enc dec \<longleftrightarrow> (\<forall>x. dec (enc x) = Some x)"

lemma bt_map_same: "(\<And>k v. (k, v) \<in> set m \<Longrightarrow> f k v = v) \<Longrightarrow> bt_map f m = m"
  by (induction m) (auto simp: bt_map_def)

lemma to_stored_plain:
  assumes "keeps_ascii lossy" "day_bytes d"
  shows "to_stored lossy d = \<lparr>stored_from = day_from d, stored_watched = watched d, stored_rows = rows d\<rparr>"
proof -
  have "bt_map (\<lambda>_ cells. lossy cells) (rows d) = rows d"
    using assms bytes_ascii by (intro bt_map_same) (force simp: keeps_ascii_def day_bytes_def rows_bytes_def)
  then show ?thesis
    using assms bytes_ascii by (simp add: to_stored_def keeps_ascii_def day_bytes_def)
qed

lemma from_to_stored:
  assumes "keeps_ascii lossy" "day_bytes d"
  shows "from_stored (to_stored lossy d) = Some d"
  using assms(2)
  by (auto simp: to_stored_plain [OF assms] from_stored_def day_bytes_def rows_bytes_def rows_ok_def)

text \<open>
  no record is lost to the disk or the wire.  Whatever was sampled, the record a machine
  writes is read back whole, rolled to the reader's clock; and a restart continues from it.
\<close>

theorem day_wire_roundtrip:
  assumes "keeps_ascii lossy" and "codec enc dec"
    and "d = run_inputs day_step (day_empty start) ops"
  shows "from_wire dec (to_wire enc lossy d) now = Some (roll d (minute now))
    \<and> load_day dec (Some (to_wire enc lossy d)) now = roll d (minute now)
    \<and> end_of_wire dec (to_wire enc lossy d) = Some (day_from d + int MINUTES - 1)"
  using from_to_stored [OF assms(1)] assms(2) reachable_bytes [of start ops]
  by (simp add: assms(3) from_wire_def load_day_def end_of_wire_def to_wire_def codec_def)
    (simp add: to_stored_def)

lemma day_wire_roundtrip_witness:
  "from_wire Some (to_wire (\<lambda>s. s) (\<lambda>cs. cs) (run_inputs day_step (day_empty 0) [Observe 0 [(''a'', Blocked)]])) 0
     = Some (roll (run_inputs day_step (day_empty 0) [Observe 0 [(''a'', Blocked)]]) (minute 0))"
  using day_wire_roundtrip [of "\<lambda>cs. cs" "\<lambda>s. s" Some
      "run_inputs day_step (day_empty 0) [Observe 0 [(''a'', Blocked)]]" 0
      "[Observe 0 [(''a'', Blocked)]]" 0]
  by (simp add: keeps_ascii_def codec_def)

section \<open>Increments\<close>

lemma lay_rows_all:
  assumes "distinct (map fst rs)"
    and "\<And>sid cells. (sid, cells) \<in> set rs \<Longrightarrow> lay (row_or_blank held sid) (tail_of sid cells) = Some cells"
  shows "lay_rows held (map (\<lambda>(sid, cells). (sid, tail_of sid cells)) rs) out
       = Some (foldl (\<lambda>m (sid, cells). bt_insert sid cells m) out rs)"
  using assms
proof (induction rs arbitrary: held out)
  case (Cons r rs)
  obtain sid cells where r: "r = (sid, cells)" by (cases r)
  have "lay (row_or_blank (bt_remove sid held) s) (tail_of s c) = Some c" if "(s, c) \<in> set rs" for s c
  proof -
    have "s \<noteq> sid" using that Cons.prems(1) by (force simp: r)
    then show ?thesis using Cons.prems(2) that by (simp add: row_or_blank_def r)
  qed
  with Cons show ?case by (simp add: r)
qed simp

lemma bt_rebuild:
  assumes "bt_ok rs"
  shows "foldl (\<lambda>m (k, v). bt_insert k v m) [] rs = rs"
proof -
  have fold: "bt_ok out \<and> distinct (map fst ps) \<Longrightarrow>
      bt_ok (foldl (\<lambda>m (k, v). bt_insert k v m) out ps)
    \<and> bt_get (foldl (\<lambda>m (k, v). bt_insert k v m) out ps) = bt_get out ++ map_of ps" for out ps
  proof (induction ps arbitrary: out)
    case (Cons p ps)
    then have new: "map_of ps (fst p) = None" by (simp add: map_of_eq_None_iff)
    have "bt_get (bt_insert (fst p) (snd p) out) ++ map_of ps = bt_get out ++ map_of (p # ps)"
      by (rule ext) (cases p, use new in \<open>auto simp: map_add_def split: option.splits\<close>)
    moreover have "bt_ok (bt_insert (fst p) (snd p) out) \<and> distinct (map fst ps)"
      using Cons.prems by simp
    ultimately show ?case
      using Cons.IH [of "bt_insert (fst p) (snd p) out"] by (simp only: foldl_Cons case_prod_beta)
  qed simp
  from fold [of "[]" rs] bt_ok_distinct [OF assms] show ?thesis
    by (intro bt_eqI) (auto simp: assms bt_get_def fun_eq_iff map_add_def)
qed

text \<open>The two records agree on every minute of the newer window before \<open>until\<close>.\<close>

definition agree_before :: "day \<Rightarrow> day \<Rightarrow> int \<Rightarrow> bool" where
  "agree_before h d until \<longleftrightarrow>
     (\<forall>m. in_window d m \<and> m < until \<longrightarrow>
        watched_at h m = watched_at d m
      \<and> (\<forall>sid \<in> fst ` set (rows d). byte_at h sid m = byte_at d sid m))"

lemma lay_tail:
  assumes "length cells = MINUTES" "length held = MINUTES" "start \<le> MINUTES"
    and "\<And>i. i < start \<Longrightarrow> held ! i = cells ! i"
  shows "lay held (drop start cells) = Some cells"
proof -
  have "take start held = take start cells"
    using assms by (intro nth_equalityI) auto
  then show ?thesis using assms by (simp add: lay_def)
qed

lemma nth_window:
  "i < MINUTES \<Longrightarrow> row_or_blank (rows d) sid ! i = byte_at d sid (day_from d + int i)
     \<and> watched d ! i = watched_at d (day_from d + int i)"
  by (simp add: byte_at_def watched_at_def in_window_def)

lemma apply_since_exact:
  assumes "day_ok h" and d: "day_bytes d" and plain: "keeps_ascii lossy"
    and newer: "day_from h \<le> day_from d" and since: "since lossy d until = Some s"
    and agree: "agree_before h d until"
  shows "apply_since_day h s = Some d"
proof -
  obtain start where start: "slot d until = Some start"
    and s: "s = \<lparr>since_from = day_from d, since_watched = lossy (drop start (watched d)),
        since_rows = map (\<lambda>(sid, cells). (sid, lossy (drop start cells))) (rows d)\<rparr>"
    using since by (auto simp: since_def split: option.splits)
  have until: "start < MINUTES" "until = day_from d + int start"
    using start by (auto simp: slot_def Let_def split: if_splits)
  define r where "r = roll h (day_from d + int MINUTES - 1)"
  have r_from: "day_from r = day_from d" using newer by (simp add: r_def roll_from)
  have r_ok: "day_ok r" using assms(1) by (simp add: r_def)
  have d_ok: "rows_ok (rows d)" "bt_ok (rows d)" "length (watched d) = MINUTES"
    using d by (simp_all add: day_bytes_def rows_bytes_def rows_ok_def)
  have same: "watched_at r m = watched_at d m \<and>
      (sid \<in> fst ` set (rows d) \<longrightarrow> byte_at r sid m = byte_at d sid m)"
    if "in_window d m" "m < until" for m sid
  proof -
    have "in_window r m" using that(1) by (simp add: in_window_def r_from)
    from roll_keeps_minutes [OF assms(1) this [unfolded r_def], folded r_def]
    show ?thesis using agree that by (auto simp: agree_before_def)
  qed
  have before: "watched r ! i = watched d ! i \<and> (\<forall>sid \<in> fst ` set (rows d).
      row_or_blank (rows r) sid ! i = row_or_blank (rows d) sid ! i)" if "i < start" for i
  proof -
    have "in_window d (day_from d + int i)" "day_from d + int i < until"
      using that until by (auto simp: in_window_def)
    from same [OF this] that until(1) show ?thesis
      using nth_window [of i r] nth_window [of i d] by (simp add: r_from)
  qed
  have row: "lay (row_or_blank (rows r) sid) (lossy (drop start cells)) = Some cells"
    if "(sid, cells) \<in> set (rows d)" for sid cells
  proof -
    have cells: "row_or_blank (rows d) sid = cells" "bt_get (rows d) sid = Some cells"
      using that bt_get_in [OF d_ok(2)] by (auto simp: row_or_blank_def)
    have "ascii cells" using d cells(2) bytes_ascii
      by (auto simp: day_bytes_def dest!: rows_bytes_get)
    then have "lossy (drop start cells) = drop start cells"
      using plain ascii_drop by (auto simp: keeps_ascii_def)
    moreover have "lay (row_or_blank (rows r) sid) (drop start cells) = Some cells"
    proof (rule lay_tail)
      show "length cells = MINUTES" using rows_ok_get [OF d_ok(1) cells(2)] .
      show "length (row_or_blank (rows r) sid) = MINUTES" using r_ok by (simp add: day_ok_def)
      show "start \<le> MINUTES" using until by simp
      show "row_or_blank (rows r) sid ! i = cells ! i" if "i < start" for i
        using before [OF that] \<open>(sid, cells) \<in> set (rows d)\<close> cells(1) by force
    qed
    ultimately show ?thesis by simp
  qed
  have "lossy (drop start (watched d)) = drop start (watched d)"
    using plain d bytes_ascii ascii_drop by (auto simp: keeps_ascii_def day_bytes_def)
  moreover have "lay (watched r) (drop start (watched d)) = Some (watched d)"
    using before r_ok until d_ok by (intro lay_tail) (auto simp: day_ok_def)
  moreover have "lay_rows (rows r) (since_rows s) [] = Some (rows d)"
    using lay_rows_all [of "rows d" "rows r" "\<lambda>_ c. lossy (drop start c)" "[]"] row
      bt_ok_distinct [OF d_ok(2)] bt_rebuild [OF d_ok(2)] by (simp add: s)
  ultimately show ?thesis
    by (simp add: apply_since_day_def Let_def s r_from flip: r_def)
qed

text \<open>
  an increment is as good as the record.  When the record a device holds agrees with the
  machine's record on the minutes before the one it asks from, laying the machine's increment
  over it gives exactly the machine's whole record.
\<close>

theorem increment_equals_full_record:
  assumes "keeps_ascii lossy" and "codec enc dec"
    and "h = run_inputs day_step (day_empty t) old" and "d = run_inputs day_step (day_empty u) new"
    and "day_from h \<le> day_from d" and "since lossy d until = Some s" and "agree_before h d until"
  shows "apply_since enc dec lossy (to_wire enc lossy h) s = Some (to_wire enc lossy d)"
proof -
  have bytes: "day_bytes h" "day_bytes d" using reachable_bytes by (simp_all add: assms(3,4))
  then have "day_ok h" by (simp add: day_bytes_def rows_bytes_def day_ok_def)
  from apply_since_exact [OF this bytes(2) assms(1,5,6,7)] assms(2) show ?thesis
    by (simp add: apply_since_def to_wire_def codec_def from_to_stored [OF assms(1) bytes(1)])
qed

lemma increment_witness:
  "apply_since (\<lambda>s. s) Some (\<lambda>cs. cs) (to_wire (\<lambda>s. s) (\<lambda>cs. cs) (day_empty 0))
     (the (since (\<lambda>cs. cs) (day_empty 0) 0)) = Some (to_wire (\<lambda>s. s) (\<lambda>cs. cs) (day_empty 0))"
proof -
  have "since (\<lambda>cs. cs) (day_empty 0) 0 = Some (the (since (\<lambda>cs. cs) (day_empty 0) 0))"
    by (simp add: since_def slot_def day_empty_def minute_def MINUTES_def)
  then show ?thesis
    using increment_equals_full_record [of "\<lambda>cs. cs" "\<lambda>s. s" Some "day_empty 0" 0 "[]"
        "day_empty 0" 0 "[]" 0 "the (since (\<lambda>cs. cs) (day_empty 0) 0)"]
    by (simp add: keeps_ascii_def codec_def agree_before_def)
qed

end
