(* ===== verification/Budget.thy ===== *)
theory Budget
  imports Prelude
begin

text \<open>
  The credit of one event store, \<open>crates/acp/src/event_store/budget.rs\<close>: encoded records share a
  window of bytes and records, a record larger than the window is admitted alone, and pending
  interactions share sixteen slots.  A credit is a Rust value that gives itself back when it is
  dropped; the held credits are the lists beside the counters.  The locale \<open>credit_pool\<close> states
  what an owner of credits relies on, and both kinds of credit interpret it.
\<close>

definition WINDOW_BYTES :: nat where "WINDOW_BYTES = 8 * 1024 * 1024"
definition WINDOW_RECORDS :: nat where "WINDOW_RECORDS = 256"
definition CONTROL_ITEMS :: nat where "CONTROL_ITEMS = 16"
definition CONTROL_BYTES :: nat where "CONTROL_BYTES = 128 * 1024"

record budget =
  encoded_bytes :: nat
  records :: nat
  peak_encoded_bytes :: nat
  peak_records :: nat
  largest_exclusive_record :: nat
  controls :: nat
  control_bytes :: nat
  peak_controls :: nat
  peak_control_bytes :: nat
  budget_closed :: bool

definition budget_new :: budget where
  "budget_new = \<lparr>encoded_bytes = 0, records = 0, peak_encoded_bytes = 0, peak_records = 0,
     largest_exclusive_record = 0, controls = 0, control_bytes = 0, peak_controls = 0,
     peak_control_bytes = 0, budget_closed = False\<rparr>"

text \<open>One pass of the admission loop: granted, asleep until credit returns, or refused.\<close>

datatype admission = Admitted budget | Waits | Refused string

definition encoded_fits :: "nat \<Rightarrow> budget \<Rightarrow> bool" where
  "encoded_fits bytes b \<longleftrightarrow>
     records b < WINDOW_RECORDS
   \<and> (if WINDOW_BYTES < bytes then records b = 0
      else (case checked_add u64_max (encoded_bytes b) bytes of
              None \<Rightarrow> False | Some taken \<Rightarrow> taken \<le> WINDOW_BYTES))"

definition encoded :: "nat \<Rightarrow> budget \<Rightarrow> admission" where
  "encoded bytes b =
     (if budget_closed b then Refused ''ACP event store is closed''
      else if encoded_fits bytes b then
        (case checked_add u64_max (encoded_bytes b) bytes of
           None \<Rightarrow> Refused ''ACP event byte accounting overflow''
         | Some taken \<Rightarrow>
             let n = records b + 1 in
             Admitted (b\<lparr>encoded_bytes := taken, records := n,
                        peak_encoded_bytes := max (peak_encoded_bytes b) taken,
                        peak_records := max (peak_records b) n,
                        largest_exclusive_record :=
                          (if WINDOW_BYTES < bytes then max (largest_exclusive_record b) bytes
                           else largest_exclusive_record b)\<rparr>))
      else Waits)"

definition interaction :: "nat \<Rightarrow> budget \<Rightarrow> string + budget" where
  "interaction bytes b =
     (if budget_closed b then Inl ''ACP event store is closed''
      else if CONTROL_BYTES < bytes \<or> controls b = CONTROL_ITEMS
      then Inl ''ACP pending interaction budget is exhausted''
      else let n = controls b + 1; taken = control_bytes b + bytes in
        Inr (b\<lparr>controls := n, control_bytes := taken,
               peak_controls := max (peak_controls b) n,
               peak_control_bytes := max (peak_control_bytes b) taken\<rparr>))"

definition close_budget :: "budget \<Rightarrow> budget" where
  "close_budget b = b\<lparr>budget_closed := True\<rparr>"

definition drop_encoded :: "nat \<Rightarrow> budget \<Rightarrow> budget" where
  "drop_encoded bytes b = b\<lparr>encoded_bytes := encoded_bytes b - bytes, records := records b - 1\<rparr>"

definition drop_interaction :: "nat \<Rightarrow> budget \<Rightarrow> budget" where
  "drop_interaction bytes b = b\<lparr>controls := controls b - 1, control_bytes := control_bytes b - bytes\<rparr>"

section \<open>Credits are counted exactly\<close>

locale credit_pool =
  fixes grant :: "nat \<Rightarrow> 'p \<Rightarrow> 'p option"
    and give_back :: "nat \<Rightarrow> 'p \<Rightarrow> 'p"
    and used :: "'p \<Rightarrow> nat"
    and holders :: "'p \<Rightarrow> nat"
  assumes grant_counts: "grant n p = Some p' \<Longrightarrow> used p' = used p + n \<and> holders p' = Suc (holders p)"
    and give_counts: "used (give_back n p) = used p - n \<and> holders (give_back n p) = holders p - 1"
begin

definition exact :: "'p \<Rightarrow> nat list \<Rightarrow> bool" where
  "exact p held \<longleftrightarrow> used p = sum_list held \<and> holders p = length held"

lemma grant_exact: "exact p held \<Longrightarrow> grant n p = Some p' \<Longrightarrow> exact p' (n # held)"
  using grant_counts by (simp add: exact_def)

lemma give_exact: "exact p held \<Longrightarrow> n \<in> set held \<Longrightarrow> exact (give_back n p) (remove1 n held)"
  by (simp add: exact_def give_counts sum_list_map_remove1 [of n held "\<lambda>x. x", simplified]
      length_remove1)

lemma no_underflow: "exact p held \<Longrightarrow> n \<in> set held \<Longrightarrow> n \<le> used p \<and> 0 < holders p"
  by (auto simp: exact_def member_le_sum_list)

lemma all_returned: "exact p [] \<Longrightarrow> used p = 0 \<and> holders p = 0"
  by (simp add: exact_def)

end

definition grant_encoded :: "nat \<Rightarrow> budget \<Rightarrow> budget option" where
  "grant_encoded n b = (case encoded n b of Admitted b' \<Rightarrow> Some b' | _ \<Rightarrow> None)"

definition grant_interaction :: "nat \<Rightarrow> budget \<Rightarrow> budget option" where
  "grant_interaction n b = (case interaction n b of Inr b' \<Rightarrow> Some b' | Inl _ \<Rightarrow> None)"

lemma grant_encoded_Some: "grant_encoded n b = Some b' \<longleftrightarrow> encoded n b = Admitted b'"
  by (simp add: grant_encoded_def split: admission.splits)

lemma grant_interaction_Some: "grant_interaction n b = Some b' \<longleftrightarrow> interaction n b = Inr b'"
  by (simp add: grant_interaction_def split: sum.splits)

lemma encoded_Admitted:
  "encoded n b = Admitted b' \<Longrightarrow>
     \<not> budget_closed b \<and> encoded_fits n b \<and> encoded_bytes b' = encoded_bytes b + n
   \<and> records b' = Suc (records b) \<and> controls b' = controls b \<and> control_bytes b' = control_bytes b
   \<and> \<not> budget_closed b'"
  by (auto simp: encoded_def Let_def split: if_splits option.splits)

lemma interaction_Inr:
  "interaction n b = Inr b' \<Longrightarrow>
     \<not> budget_closed b \<and> n \<le> CONTROL_BYTES \<and> controls b \<noteq> CONTROL_ITEMS
   \<and> controls b' = Suc (controls b) \<and> control_bytes b' = control_bytes b + n
   \<and> encoded_bytes b' = encoded_bytes b \<and> records b' = records b \<and> \<not> budget_closed b'"
  by (auto simp: interaction_def Let_def split: if_splits)

interpretation encoded_pool: credit_pool grant_encoded drop_encoded encoded_bytes records
  by unfold_locales (auto simp: grant_encoded_Some drop_encoded_def dest: encoded_Admitted)

interpretation question_pool:
  credit_pool grant_interaction drop_interaction control_bytes controls
  by unfold_locales (auto simp: grant_interaction_Some drop_interaction_def dest: interaction_Inr)

section \<open>Every run of a store\<close>

record store_credit =
  pool :: budget
  held_encoded :: "nat list"
  held_questions :: "nat list"

datatype credit_op =
  TakeEncoded nat | DropEncoded nat | TakeQuestion nat | DropQuestion nat | CloseStore

text \<open>A credit can be dropped only by whoever holds it.\<close>

fun credit_step :: "store_credit \<Rightarrow> credit_op \<Rightarrow> store_credit" where
  "credit_step c (TakeEncoded n) =
     (case grant_encoded n (pool c) of
        Some b \<Rightarrow> c\<lparr>pool := b, held_encoded := n # held_encoded c\<rparr> | None \<Rightarrow> c)"
| "credit_step c (DropEncoded n) =
     (if n \<in> set (held_encoded c)
      then c\<lparr>pool := drop_encoded n (pool c), held_encoded := remove1 n (held_encoded c)\<rparr> else c)"
| "credit_step c (TakeQuestion n) =
     (case grant_interaction n (pool c) of
        Some b \<Rightarrow> c\<lparr>pool := b, held_questions := n # held_questions c\<rparr> | None \<Rightarrow> c)"
| "credit_step c (DropQuestion n) =
     (if n \<in> set (held_questions c)
      then c\<lparr>pool := drop_interaction n (pool c), held_questions := remove1 n (held_questions c)\<rparr>
      else c)"
| "credit_step c CloseStore = c\<lparr>pool := close_budget (pool c)\<rparr>"

definition credit_start :: store_credit where
  "credit_start = \<lparr>pool = budget_new, held_encoded = [], held_questions = []\<rparr>"

definition window_respected :: "nat list \<Rightarrow> bool" where
  "window_respected held \<longleftrightarrow>
     length held \<le> WINDOW_RECORDS \<and> (sum_list held \<le> WINDOW_BYTES \<or> length held = 1)"

definition questions_respected :: "nat list \<Rightarrow> bool" where
  "questions_respected held \<longleftrightarrow> length held \<le> CONTROL_ITEMS \<and> (\<forall>n \<in> set held. n \<le> CONTROL_BYTES)"

definition credit_ok :: "store_credit \<Rightarrow> bool" where
  "credit_ok c \<longleftrightarrow>
     encoded_pool.exact (pool c) (held_encoded c) \<and> question_pool.exact (pool c) (held_questions c)
   \<and> window_respected (held_encoded c) \<and> questions_respected (held_questions c)"

lemma exact_other [simp]:
  "encoded_pool.exact (drop_interaction n b) held = encoded_pool.exact b held"
  "question_pool.exact (drop_encoded n b) asks = question_pool.exact b asks"
  "encoded_pool.exact (close_budget b) held = encoded_pool.exact b held"
  "question_pool.exact (close_budget b) asks = question_pool.exact b asks"
  by (simp_all add: encoded_pool.exact_def question_pool.exact_def drop_interaction_def
      drop_encoded_def close_budget_def)

lemma window_grant:
  assumes "encoded_pool.exact b held" "window_respected held" "encoded n b = Admitted b'"
  shows "window_respected (n # held)"
  using assms(1,2) encoded_Admitted [OF assms(3)]
  by (auto simp: window_respected_def encoded_fits_def encoded_pool.exact_def add.commute
      split: if_splits option.splits)

lemma window_remove: "window_respected held \<Longrightarrow> n \<in> set held \<Longrightarrow> window_respected (remove1 n held)"
proof -
  assume h: "window_respected held" "n \<in> set held"
  have "sum_list (remove1 n held) = sum_list held - n"
    using h(2) by (simp add: sum_list_map_remove1 [of n held "\<lambda>x. x", simplified])
  moreover have "length held = 1 \<Longrightarrow> remove1 n held = []"
    using h(2) by (cases held) auto
  ultimately show ?thesis using h by (auto simp: window_respected_def length_remove1)
qed

lemma credit_step_ok: "credit_ok c \<Longrightarrow> credit_ok (credit_step c op)"
proof (cases op)
  case (TakeEncoded n)
  assume c: "credit_ok c"
  show ?thesis
  proof (cases "grant_encoded n (pool c)")
    case (Some b)
    then have a: "encoded n (pool c) = Admitted b" by (simp add: grant_encoded_Some)
    then have "question_pool.exact b (held_questions c)"
      using c encoded_Admitted [OF a] by (simp add: credit_ok_def question_pool.exact_def)
    then show ?thesis
      using c a Some encoded_pool.grant_exact window_grant
      by (auto simp: TakeEncoded credit_ok_def)
  qed (use c TakeEncoded in simp)
next
  case (TakeQuestion n)
  assume c: "credit_ok c"
  show ?thesis
  proof (cases "grant_interaction n (pool c)")
    case (Some b)
    then have a: "interaction n (pool c) = Inr b" by (simp add: grant_interaction_Some)
    have "encoded_pool.exact b (held_encoded c)" "questions_respected (n # held_questions c)"
      using c interaction_Inr [OF a]
      by (auto simp: credit_ok_def encoded_pool.exact_def question_pool.exact_def questions_respected_def)
    then show ?thesis
      using c Some question_pool.grant_exact by (auto simp: TakeQuestion credit_ok_def)
  qed (use c TakeQuestion in simp)
next
  case (DropQuestion n)
  assume "credit_ok c"
  then show ?thesis
    using question_pool.give_exact [of "pool c" "held_questions c" n]
    by (auto simp: DropQuestion credit_ok_def questions_respected_def length_remove1
        dest: notin_set_remove1)
qed (auto simp: credit_ok_def window_remove encoded_pool.give_exact)

interpretation credit_inv: kept_invariant credit_step credit_ok "\<lambda>_ _. True"
  by unfold_locales (rule credit_step_ok)

lemma credit_start_ok: "credit_ok credit_start"
  by (simp add: credit_ok_def credit_start_def budget_new_def encoded_pool.exact_def
      question_pool.exact_def window_respected_def questions_respected_def)

lemma credit_run_ok: "credit_ok (run_inputs credit_step credit_start ops)"
  by (rule credit_inv.run_keeps) (simp_all add: credit_start_ok)

text \<open>
  credit is accounted exactly and bounded.  After any takes, drops and a close, the counters
  equal what is held (so no drop can underflow and nothing leaks), at most 256 records are
  admitted, their bytes fit the eight-megabyte window unless a single larger record is admitted
  alone, and at most sixteen questions of at most 128 KiB are pending.
\<close>

theorem credit_is_exact_and_bounded:
  "let c = run_inputs credit_step credit_start ops in
     encoded_bytes (pool c) = sum_list (held_encoded c) \<and> records (pool c) = length (held_encoded c)
   \<and> controls (pool c) = length (held_questions c) \<and> control_bytes (pool c) = sum_list (held_questions c)
   \<and> window_respected (held_encoded c) \<and> questions_respected (held_questions c)"
  using credit_run_ok [of ops]
  by (simp add: Let_def credit_ok_def encoded_pool.exact_def question_pool.exact_def)

text \<open>
  nobody waits for credit that nobody holds.  When every encoded credit has come back and the
  store is open, a record of any size is admitted, the largest included; and once closed, nothing
  is admitted again.
\<close>

theorem returned_credit_admits_any_record:
  assumes "c = run_inputs credit_step credit_start ops"
  shows "(held_encoded c = [] \<longrightarrow> \<not> budget_closed (pool c) \<longrightarrow> n \<le> u64_max \<longrightarrow>
            (\<exists>b. encoded n (pool c) = Admitted b))
       \<and> (budget_closed (pool c) \<longrightarrow>
            encoded n (pool c) = Refused ''ACP event store is closed''
          \<and> interaction n (pool c) = Inl ''ACP event store is closed'')"
proof -
  have "held_encoded c = [] \<Longrightarrow> encoded_bytes (pool c) = 0 \<and> records (pool c) = 0"
    using credit_run_ok [of ops] encoded_pool.all_returned
    by (auto simp: credit_ok_def assms)
  then show ?thesis
    by (auto simp: encoded_def encoded_fits_def interaction_def Let_def checked_add_def
        WINDOW_RECORDS_def split: option.splits)
qed

lemma returned_credit_witness:
  "\<exists>b. encoded 9000000 (pool credit_start) = Admitted b"
  using returned_credit_admits_any_record [of credit_start "[]" 9000000]
  by (simp add: credit_start_def budget_new_def u64_max_def)

end
