(* ===== verification/Bytes.thy ===== *)
theory Bytes
  imports Prelude "HOL-Library.Word"
begin

text \<open>
  Integers as bytes: \<open>to_be_bytes\<close>, \<open>from_be_bytes\<close> and \<open>to_le_bytes\<close> of the unsigned integers.
\<close>

type_synonym byte = "8 word"

section \<open>Big-endian integers\<close>

text \<open>\<open>u64::to_be_bytes\<close> is \<open>be_bytes 8\<close>, and \<open>u64::from_be_bytes\<close> is \<open>from_be\<close>.\<close>

fun be_bytes :: "nat \<Rightarrow> nat \<Rightarrow> byte list" where
  "be_bytes 0 n = []"
| "be_bytes (Suc k) n = be_bytes k (n div 256) @ [of_nat (n mod 256)]"

definition from_be :: "byte list \<Rightarrow> nat" where
  "from_be bs = foldl (\<lambda>a b. a * 256 + unat b) 0 bs"

lemma length_be_bytes [simp]: "length (be_bytes k n) = k"
  by (induction k arbitrary: n) auto

lemma unat_byte_mod [simp]: "unat (of_nat (n mod 256) :: byte) = n mod 256"
  by (simp add: unat_of_nat)

lemma from_be_be_bytes: "from_be (be_bytes k n) = n mod 256 ^ k"
proof (induction k arbitrary: n)
  case (Suc k)
  have "n mod 256 ^ Suc k = (n div 256 mod 256 ^ k) * 256 + n mod 256"
    by (simp add: mod_mult2_eq)
  with Suc show ?case by (simp add: from_be_def)
qed (simp add: from_be_def)

lemma from_be_u64 [simp]: "n \<le> u64_max \<Longrightarrow> from_be (be_bytes 8 n) = n"
  by (simp add: from_be_be_bytes u64_max_def)

lemma from_be_append: "from_be (xs @ [b]) = from_be xs * 256 + unat b"
  by (simp add: from_be_def)

lemma unat_byte: "unat (b :: byte) < 256"
proof -
  have "unat b < 2 ^ LENGTH(8)" by (rule unsigned_less)
  then show ?thesis by simp
qed

lemma be_bytes_from_be: "be_bytes (length bs) (from_be bs) = bs"
proof (induction bs rule: rev_induct)
  case (snoc b bs)
  have "(from_be bs * 256 + unat b) div 256 = from_be bs" "(from_be bs * 256 + unat b) mod 256 = unat b"
    using unat_byte [of b] by simp_all
  then show ?case using snoc by (simp add: from_be_append)
qed (simp add: from_be_def)

lemma from_be_u32: "n < 4294967296 \<Longrightarrow> from_be (be_bytes 4 n) = n"
  by (simp add: from_be_be_bytes)

lemma from_be_less: "from_be bs < 256 ^ length bs"
proof -
  have "from_be bs = from_be bs mod 256 ^ length bs"
    using from_be_be_bytes [of "length bs" "from_be bs"] unfolding be_bytes_from_be .
  then show ?thesis by (metis mod_less_divisor zero_less_numeral zero_less_power)
qed

lemma be_bytes_inj: "m < 256 ^ k \<Longrightarrow> n < 256 ^ k \<Longrightarrow> be_bytes k m = be_bytes k n \<longleftrightarrow> m = n"
  by (metis from_be_be_bytes mod_less)

section \<open>Little-endian integers\<close>

text \<open>\<open>u64::to_le_bytes\<close> is \<open>le_bytes 8\<close>.\<close>

definition le_bytes :: "nat \<Rightarrow> nat \<Rightarrow> byte list" where
  "le_bytes k n = rev (be_bytes k n)"

lemma length_le_bytes [simp]: "length (le_bytes k n) = k"
  by (simp add: le_bytes_def)

lemma le_bytes_inj: "m < 256 ^ k \<Longrightarrow> n < 256 ^ k \<Longrightarrow> le_bytes k m = le_bytes k n \<longleftrightarrow> m = n"
  by (simp add: le_bytes_def be_bytes_inj)

end
