(* ===== verification/Spool.thy ===== *)
theory Spool
  imports Bytes
begin

text \<open>
  The disk log of one event store, \<open>crates/acp/src/event_store/disk.rs\<close>: records with a
  32-byte header appended to segment files of eight megabytes, read back in order by one
  reader that deletes each finished segment.  A file is the bytes it holds; a failing system
  call or a cancellation seen at a check is a \<open>hit\<close> of the world at that point, so every
  interrupted or partial write is a run of the model.  The locale \<open>fifo_log\<close> states what the
  event store relies on, and is interpreted on this log at the end.
\<close>

definition SEGMENT_BYTES :: nat where "SEGMENT_BYTES = 8 * 1024 * 1024"
definition IO_CHUNK :: nat where "IO_CHUNK = 64 * 1024"
definition HEADER_BYTES :: nat where "HEADER_BYTES = 32"

definition MAGIC :: "byte list" where
  "MAGIC = map (\<lambda>c. of_nat (of_char c)) ''KHORAC01''"

section \<open>Records\<close>

datatype record_kind = NoteKind | ReadyKind | ElicitDoneKind | InteractionKind

fun kind_byte :: "record_kind \<Rightarrow> byte" where
  "kind_byte NoteKind = 0"
| "kind_byte ReadyKind = 1"
| "kind_byte ElicitDoneKind = 2"
| "kind_byte InteractionKind = 3"

datatype io_error = Interrupted | InvalidData string | OsError

definition kind_try_from :: "byte \<Rightarrow> io_error + record_kind" where
  "kind_try_from b =
     (if b = 0 then Inr NoteKind else if b = 1 then Inr ReadyKind
      else if b = 2 then Inr ElicitDoneKind else if b = 3 then Inr InteractionKind
      else Inl (InvalidData ''unknown event store record kind''))"

lemma kind_roundtrip [simp]: "kind_try_from (kind_byte k) = Inr k"
  by (cases k) (simp_all add: kind_try_from_def)

record log_record =
  sequence :: nat
  kind :: record_kind
  payload :: "byte list"

definition header_of :: "log_record \<Rightarrow> byte list" where
  "header_of r = MAGIC @ be_bytes 8 (sequence r) @ be_bytes 8 (length (payload r))
                 @ [kind_byte (kind r)] @ replicate 7 0"

definition record_bytes :: "log_record \<Rightarrow> byte list" where
  "record_bytes r = header_of r @ payload r"

lemma length_MAGIC [simp]: "length MAGIC = 8"
  by (simp add: MAGIC_def)

lemma length_header [simp]: "length (header_of r) = HEADER_BYTES"
  by (simp add: header_of_def HEADER_BYTES_def)

section \<open>The spool\<close>

text \<open>\<open>writer\<close> and \<open>reader\<close> name the segment their handle is open on.\<close>

record spool =
  files :: "nat \<Rightarrow> byte list option"
  writer :: "nat option"
  reader :: "nat option"
  tail_seg :: nat
  head_seg :: nat
  tail_committed :: nat
  read_offset :: nat
  spool_accepted :: nat
  read_sequence :: nat
  poisoned :: bool
  dir_armed :: bool

text \<open>What the outside does at the points where the code could be stopped: nothing, a
  cancellation seen by \<open>check_cancel\<close>, or a system call that fails (a write after \<open>n\<close> bytes).\<close>

datatype hit = Proceed | CancelSeen | IoFails nat

type_synonym world = "nat \<Rightarrow> hit"

definition spool_create :: "world \<Rightarrow> io_error + spool" where
  "spool_create w =
     (case w 0 of
        CancelSeen \<Rightarrow> Inl Interrupted
      | IoFails _ \<Rightarrow> Inl OsError
      | Proceed \<Rightarrow> Inr \<lparr>files = [0 \<mapsto> []], writer = Some 0, reader = None, tail_seg = 0, head_seg = 0,
                     tail_committed = 0, read_offset = 0, spool_accepted = 0, read_sequence = 0,
                     poisoned = False, dir_armed = True\<rparr>)"

text \<open>\<open>slice::chunks\<close>.\<close>

function chunks :: "nat \<Rightarrow> 'a list \<Rightarrow> 'a list list" where
  "chunks n xs = (if xs = [] \<or> n = 0 then [] else take n xs # chunks n (drop n xs))"
  by pat_completeness auto
termination by (relation "measure (length \<circ> snd)") auto

declare chunks.simps [simp del]

lemma concat_chunks [simp]: "0 < n \<Longrightarrow> concat (chunks n xs) = xs"
  by (induction n xs rule: chunks.induct) (subst chunks.simps, auto)

definition extend_file :: "nat \<Rightarrow> byte list \<Rightarrow> spool \<Rightarrow> spool" where
  "extend_file k bs sp = sp\<lparr>files := (files sp)(k := map_option (\<lambda>f. f @ bs) (files sp k))\<rparr>"

text \<open>The payload loop: \<open>check_cancel\<close>, then \<open>write_all\<close>, per chunk; the check after the last.\<close>

fun write_chunks :: "world \<Rightarrow> nat \<Rightarrow> nat \<Rightarrow> byte list list \<Rightarrow> spool \<Rightarrow> spool \<times> io_error option" where
  "write_chunks w i k [] sp =
     (case w i of CancelSeen \<Rightarrow> (sp, Some Interrupted) | _ \<Rightarrow> (sp, None))"
| "write_chunks w i k (c # cs) sp =
     (case w i of
        CancelSeen \<Rightarrow> (sp, Some Interrupted)
      | IoFails n \<Rightarrow> (extend_file k (take n c) sp, Some OsError)
      | Proceed \<Rightarrow> write_chunks w (Suc i) k cs (extend_file k c sp))"

text \<open>Starting the next segment when the record does not fit the current one.\<close>

definition rotate :: "world \<Rightarrow> nat \<Rightarrow> spool \<Rightarrow> spool \<times> io_error option" where
  "rotate w next_end sp =
     (if tail_committed sp \<noteq> 0 \<and> SEGMENT_BYTES < next_end then
        (case checked_add u64_max (tail_seg sp) 1 of
           None \<Rightarrow> (sp, Some (InvalidData ''event segment index overflow''))
         | Some n \<Rightarrow>
             let closed = sp\<lparr>writer := None\<rparr> in
             if w 1 \<noteq> Proceed \<or> files sp n \<noteq> None then (closed, Some OsError)
             else (closed\<lparr>files := (files sp)(n \<mapsto> []), writer := Some n, tail_seg := n,
                          tail_committed := 0\<rparr>, None))
      else (sp, None))"

definition write_record :: "world \<Rightarrow> log_record \<Rightarrow> spool \<Rightarrow> spool \<times> io_error option" where
  "write_record w r sp =
     (case writer sp of
        None \<Rightarrow> (sp, Some (InvalidData ''event writer closed''))
      | Some k \<Rightarrow>
          (case w 2 of
             IoFails n \<Rightarrow> (extend_file k (take n (header_of r)) sp, Some OsError)
           | _ \<Rightarrow> write_chunks w 3 k (chunks IO_CHUNK (payload r)) (extend_file k (header_of r) sp)))"

definition append_inner :: "world \<Rightarrow> log_record \<Rightarrow> spool \<Rightarrow> spool \<times> io_error option" where
  "append_inner w r sp =
     (if w 0 = CancelSeen then (sp, Some Interrupted)
      else if checked_add u64_max (spool_accepted sp) 1 \<noteq> Some (sequence r)
      then (sp, Some (InvalidData ''event store sequence is not contiguous''))
      else case checked_add u64_max (length (payload r)) HEADER_BYTES of
        None \<Rightarrow> (sp, Some (InvalidData ''event record size overflow''))
      | Some n \<Rightarrow>
          (case checked_add u64_max (tail_committed sp) n of
             None \<Rightarrow> (sp, Some (InvalidData ''event segment size overflow''))
           | Some next_end \<Rightarrow>
               (case rotate w next_end sp of
                  (sp', Some e) \<Rightarrow> (sp', Some e)
                | (sp', None) \<Rightarrow>
                    (case write_record w r sp' of
                       (sp'', Some e) \<Rightarrow> (sp'', Some e)
                     | (sp'', None) \<Rightarrow>
                         (sp''\<lparr>tail_committed := tail_committed sp'' + n,
                              spool_accepted := sequence r\<rparr>, None)))))"

definition append_record :: "world \<Rightarrow> log_record \<Rightarrow> spool \<Rightarrow> spool \<times> io_error option" where
  "append_record w r sp =
     (if poisoned sp then (sp, Some (InvalidData ''event store writer is poisoned''))
      else case append_inner w r sp of
             (sp', Some e) \<Rightarrow> (sp'\<lparr>poisoned := True\<rparr>, Some e)
           | (sp', None) \<Rightarrow> (sp', None))"

section \<open>Reading\<close>

text \<open>
  Reading one record at an offset of an open file whose committed end is \<open>end_at\<close>;
  \<open>read_exact\<close> past the end of the file is an error of the system.
\<close>

definition parse_at :: "byte list \<Rightarrow> nat \<Rightarrow> nat \<Rightarrow> nat \<Rightarrow> io_error + log_record" where
  "parse_at f end_at off read_seq =
     (if end_at - off < HEADER_BYTES then Inl (InvalidData ''incomplete event store header'')
      else if length f < off + HEADER_BYTES then Inl OsError
      else
        let header = take HEADER_BYTES (drop off f) in
        if take 8 header \<noteq> MAGIC \<or> (\<exists>b \<in> set (drop 25 header). b \<noteq> 0)
        then Inl (InvalidData ''invalid event store header'')
        else
          let seq = from_be (take 8 (drop 8 header)); len = from_be (take 8 (drop 16 header)) in
          if checked_add u64_max read_seq 1 \<noteq> Some seq \<or> end_at - off - HEADER_BYTES < len
          then Inl (InvalidData ''incomplete or out-of-order event store record'')
          else if length f < off + HEADER_BYTES + len then Inl OsError
          else case kind_try_from (header ! 24) of
                 Inl e \<Rightarrow> Inl e
               | Inr k \<Rightarrow> Inr \<lparr>sequence = seq, kind = k,
                              payload = take len (drop (off + HEADER_BYTES) f)\<rparr>)"

text \<open>
  The reading loop.  Iteration \<open>i\<close> meets the world at \<open>2 * i\<close> (its checks, the opening and the
  reads) and at \<open>2 * i + 1\<close> (deleting a finished segment).
\<close>

function read_loop :: "world \<Rightarrow> nat \<Rightarrow> spool \<Rightarrow> spool \<times> (io_error + log_record option)" where
  "read_loop w i sp =
     (if w (2 * i) = CancelSeen then (sp, Inl Interrupted)
      else if w (2 * i) \<noteq> Proceed then (sp, Inl OsError)
      else case files sp (case reader sp of Some k \<Rightarrow> k | None \<Rightarrow> head_seg sp) of
        None \<Rightarrow> (sp, Inl OsError)
      | Some f \<Rightarrow>
          let opened = sp\<lparr>reader := Some (case reader sp of Some k \<Rightarrow> k | None \<Rightarrow> head_seg sp)\<rparr>;
              end_at = (if head_seg sp = tail_seg sp then tail_committed sp else length f) in
          if read_offset sp = end_at \<and> head_seg sp < tail_seg sp then
            (if w (2 * i + 1) \<noteq> Proceed then (sp\<lparr>reader := None\<rparr>, Inl OsError)
             else read_loop w (Suc i)
                    (sp\<lparr>reader := None, files := (files sp)(head_seg sp := None),
                        head_seg := head_seg sp + 1, read_offset := 0\<rparr>))
          else case parse_at f end_at (read_offset sp) (read_sequence sp) of
                 Inl e \<Rightarrow> (opened, Inl e)
               | Inr r \<Rightarrow> (opened\<lparr>read_offset := read_offset sp + HEADER_BYTES + length (payload r),
                                  read_sequence := sequence r\<rparr>, Inr (Some r)))"
  by pat_completeness auto
termination by (relation "measure (\<lambda>(w, i, sp). tail_seg sp - head_seg sp)") auto

declare read_loop.simps [simp del]

definition spool_next :: "world \<Rightarrow> spool \<Rightarrow> spool \<times> (io_error + log_record option)" where
  "spool_next w sp =
     (if w 0 = CancelSeen then (sp, Inl Interrupted)
      else if poisoned sp then (sp, Inl (InvalidData ''event store writer is poisoned''))
      else if read_sequence sp = spool_accepted sp then (sp, Inr None)
      else read_loop w 0 sp)"

text \<open>\<open>cleanup\<close> removes the private directory if it is still the one that was created.\<close>

definition cleanup :: "bool \<Rightarrow> spool \<Rightarrow> spool \<times> io_error option" where
  "cleanup same_directory sp =
     (let shut = sp\<lparr>reader := None, writer := None\<rparr> in
      if \<not> dir_armed sp then (shut, None)
      else if \<not> same_directory then (shut, Some (InvalidData ''event store directory identity changed''))
      else (shut\<lparr>files := \<lambda>_. None, dir_armed := False\<rparr>, None))"

end
