(* ===== verification/SpoolFacts.thy ===== *)
theory SpoolFacts
  imports Spool
begin

text \<open>
  The disk log is a first-in first-out queue.  \<open>spool_rep\<close> relates the files and cursors to the
  records that are written and not yet read; appending adds one at the end or poisons the log
  for good, reading takes the first or changes nothing that matters.
\<close>

section \<open>What the event store relies on\<close>

text \<open>One run over a log: each operation meets its own world.  The second and third results are
  the items put and the items got, in order.\<close>

fun log_run ::
  "('w \<Rightarrow> 'i \<Rightarrow> 's \<Rightarrow> 's \<times> 'e option) \<Rightarrow> ('w \<Rightarrow> 's \<Rightarrow> 's \<times> ('e + 'i option)) \<Rightarrow>
   's \<Rightarrow> ('w \<times> 'i option) list \<Rightarrow> 's \<times> 'i list \<times> 'i list" where
  "log_run put get s [] = (s, [], [])"
| "log_run put get s ((w, Some i) # ops) =
     (case put w i s of (s', outcome) \<Rightarrow>
        (case log_run put get s' ops of (t, ps, gs) \<Rightarrow>
           (t, (if outcome = None then i # ps else ps), gs)))"
| "log_run put get s ((w, None) # ops) =
     (case get w s of (s', outcome) \<Rightarrow>
        (case log_run put get s' ops of (t, ps, gs) \<Rightarrow>
           (t, ps, (case outcome of Inr (Some i) \<Rightarrow> i # gs | _ \<Rightarrow> gs))))"

locale fifo_log =
  fixes put :: "'w \<Rightarrow> 'i \<Rightarrow> 's \<Rightarrow> 's \<times> 'e option"
    and get :: "'w \<Rightarrow> 's \<Rightarrow> 's \<times> ('e + 'i option)"
    and rep :: "'s \<Rightarrow> 'i list \<Rightarrow> bool"
    and dead :: "'s \<Rightarrow> bool"
  assumes put_rep: "rep s q \<Longrightarrow> put w i s = (s', outcome) \<Longrightarrow>
      if outcome = None then rep s' (q @ [i]) else dead s'"
    and get_rep: "rep s q \<Longrightarrow> get w s = (s', answer) \<Longrightarrow>
      (case answer of
         Inl e \<Rightarrow> rep s' q
       | Inr None \<Rightarrow> q = [] \<and> rep s' q
       | Inr (Some i) \<Rightarrow> (\<exists>rest. q = i # rest \<and> rep s' rest))"
    and put_dead: "dead s \<Longrightarrow> put w i s = (s', outcome) \<Longrightarrow> dead s' \<and> outcome \<noteq> None"
    and get_dead: "dead s \<Longrightarrow> get w s = (s', answer) \<Longrightarrow> dead s' \<and> (\<exists>e. answer = Inl e)"
begin

lemma run_dead: "dead s \<Longrightarrow> log_run put get s ops = (t, ps, gs) \<Longrightarrow> dead t \<and> ps = [] \<and> gs = []"
proof (induction ops arbitrary: s t ps gs)
  case (Cons op ops)
  obtain w x where op: "op = (w, x)" by (cases op)
  show ?case
  proof (cases x)
    case (Some i)
    obtain s' outcome where step: "put w i s = (s', outcome)" by fastforce
    obtain ps' where run: "log_run put get s' ops = (t, ps', gs)"
      and ps: "ps = (if outcome = None then i # ps' else ps')"
      using Cons.prems(2) by (auto simp: op Some step split: prod.splits)
    from put_dead [OF Cons.prems(1) step] Cons.IH [OF _ run] show ?thesis by (simp add: ps)
  next
    case None
    obtain s' outcome where step: "get w s = (s', outcome)" by fastforce
    obtain gs' where run: "log_run put get s' ops = (t, ps, gs')"
      and gs: "gs = (case outcome of Inr (Some i) \<Rightarrow> i # gs' | _ \<Rightarrow> gs')"
      using Cons.prems(2) by (auto simp: op None step split: prod.splits)
    from get_dead [OF Cons.prems(1) step] Cons.IH [OF _ run] show ?thesis by (auto simp: gs)
  qed
qed simp

lemma run_fifo:
  "rep s q \<Longrightarrow> log_run put get s ops = (t, ps, gs) \<Longrightarrow>
   \<exists>rest. q @ ps = gs @ rest \<and> (rep t rest \<or> dead t)"
proof (induction ops arbitrary: s q t ps gs)
  case (Cons op ops)
  obtain w x where op: "op = (w, x)" by (cases op)
  show ?case
  proof (cases x)
    case (Some i)
    obtain s' outcome where step: "put w i s = (s', outcome)" by fastforce
    obtain ps' where run: "log_run put get s' ops = (t, ps', gs)"
      and ps: "ps = (if outcome = None then i # ps' else ps')"
      using Cons.prems(2) by (auto simp: op Some step split: prod.splits)
    show ?thesis
    proof (cases "outcome = None")
      case True
      then have "rep s' (q @ [i])" using put_rep [OF Cons.prems(1) step] by simp
      from Cons.IH [OF this run] show ?thesis by (simp add: ps True)
    next
      case False
      then have "dead s'" using put_rep [OF Cons.prems(1) step] by simp
      from run_dead [OF this run] show ?thesis by (simp add: ps False)
    qed
  next
    case None
    obtain s' outcome where step: "get w s = (s', outcome)" by fastforce
    obtain gs' where run: "log_run put get s' ops = (t, ps, gs')"
      and gs: "gs = (case outcome of Inr (Some i) \<Rightarrow> i # gs' | _ \<Rightarrow> gs')"
      using Cons.prems(2) by (auto simp: op None step split: prod.splits)
    note after = get_rep [OF Cons.prems(1) step]
    show ?thesis
    proof (cases "\<exists>i. outcome = Inr (Some i)")
      case True
      then obtain i rest where "outcome = Inr (Some i)" "q = i # rest" "rep s' rest"
        using after by auto
      with Cons.IH [OF this(3) run] show ?thesis by (simp add: gs)
    next
      case False
      then have "rep s' q \<and> gs = gs'"
        using after by (auto simp: gs split: sum.splits option.splits)
      with Cons.IH [of s' q] run show ?thesis by simp
    qed
  qed
qed auto

end

section \<open>The log holds its unread records\<close>

definition seg_bytes :: "log_record list \<Rightarrow> byte list" where
  "seg_bytes rs = concat (map record_bytes rs)"

lemma seg_bytes_simps [simp]:
  "seg_bytes [] = []" "seg_bytes (r # rs) = record_bytes r @ seg_bytes rs"
  "seg_bytes (rs @ rs') = seg_bytes rs @ seg_bytes rs'"
  by (simp_all add: seg_bytes_def)

text \<open>From segment \<open>h\<close> on, the files hold these records, the first segment from an offset.\<close>

fun segs_hold :: "(nat \<Rightarrow> byte list option) \<Rightarrow> nat \<Rightarrow> nat \<Rightarrow> log_record list list \<Rightarrow> bool" where
  "segs_hold fs h off [] = False"
| "segs_hold fs h off [p] = (\<exists>pre. fs h = Some (pre @ seg_bytes p) \<and> length pre = off)"
| "segs_hold fs h off (p # p' # ps) =
     ((\<exists>pre. fs h = Some (pre @ seg_bytes p) \<and> length pre = off) \<and> segs_hold fs (Suc h) 0 (p' # ps))"

definition unread_segs :: "spool \<Rightarrow> log_record list \<Rightarrow> bool" where
  "unread_segs sp q \<longleftrightarrow>
     (\<exists>parts. length parts = Suc (tail_seg sp - head_seg sp) \<and> concat parts = q
        \<and> segs_hold (files sp) (head_seg sp) (read_offset sp) parts)"

definition spool_rep :: "spool \<Rightarrow> log_record list \<Rightarrow> bool" where
  "spool_rep sp q \<longleftrightarrow>
     \<not> poisoned sp \<and> writer sp = Some (tail_seg sp)
   \<and> (reader sp = None \<or> reader sp = Some (head_seg sp)) \<and> head_seg sp \<le> tail_seg sp
   \<and> (\<forall>k > tail_seg sp. files sp k = None)
   \<and> map_option length (files sp (tail_seg sp)) = Some (tail_committed sp)
   \<and> map sequence q = [read_sequence sp + 1 ..< spool_accepted sp + 1]
   \<and> read_sequence sp \<le> spool_accepted sp \<and> spool_accepted sp \<le> u64_max
   \<and> (\<forall>r \<in> set q. length (payload r) \<le> u64_max)
   \<and> unread_segs sp q"

lemma unread_segsI:
  "length parts = Suc (tail_seg sp - head_seg sp) \<Longrightarrow> concat parts = q \<Longrightarrow>
   segs_hold (files sp) (head_seg sp) (read_offset sp) parts \<Longrightarrow> unread_segs sp q"
  by (auto simp: unread_segs_def)

lemma spool_repE:
  assumes "spool_rep sp q"
  obtains parts where "length parts = Suc (tail_seg sp - head_seg sp)" "concat parts = q"
    "segs_hold (files sp) (head_seg sp) (read_offset sp) parts"
  using assms by (auto simp: spool_rep_def unread_segs_def)

lemma segs_frame:
  "segs_hold fs h off parts \<Longrightarrow> (\<And>k. h \<le> k \<Longrightarrow> fs' k = fs k) \<Longrightarrow> segs_hold fs' h off parts"
  by (induction fs h off parts rule: segs_hold.induct) auto

lemma segs_append:
  "segs_hold fs h off parts \<Longrightarrow> k = h + length parts - 1 \<Longrightarrow> fs k = Some f \<Longrightarrow>
   segs_hold (fs(k \<mapsto> f @ record_bytes r)) h off (butlast parts @ [last parts @ [r]])"
proof (induction fs h off parts rule: segs_hold.induct)
  case (3 fs h off p p' ps)
  let ?fs = "fs(k \<mapsto> f @ record_bytes r)"
  have "segs_hold ?fs (Suc h) 0 (butlast (p' # ps) @ [last (p' # ps) @ [r]])"
    using 3 by (simp del: butlast.simps last.simps fun_upd_apply)
  moreover have "?fs h = fs h" using 3 by simp
  moreover obtain a as where "butlast (p' # ps) @ [last (p' # ps) @ [r]] = a # as"
    by (cases "butlast (p' # ps)") auto
  moreover have "butlast (p # p' # ps) @ [last (p # p' # ps) @ [r]]
      = p # butlast (p' # ps) @ [last (p' # ps) @ [r]]" by simp
  ultimately show ?case using 3 by (simp del: butlast.simps last.simps fun_upd_apply)
qed auto

lemma segs_new:
  "segs_hold fs h off parts \<Longrightarrow>
   segs_hold (fs(h + length parts \<mapsto> record_bytes r)) h off (parts @ [[r]])"
  by (induction fs h off parts rule: segs_hold.induct) auto

lemma write_chunks_ok:
  "write_chunks w i k cs sp = (sp', None) \<Longrightarrow> files sp k = Some f \<Longrightarrow>
   sp' = sp\<lparr>files := (files sp)(k \<mapsto> f @ concat cs)\<rparr>"
proof (induction w i k cs sp arbitrary: f rule: write_chunks.induct)
  case (1 w i k sp)
  then show ?case by (auto simp: fun_upd_idem split: hit.splits)
next
  case (2 w i k c cs sp)
  then have go: "w i = Proceed" "write_chunks w (Suc i) k cs (extend_file k c sp) = (sp', None)"
    by (auto split: hit.splits)
  from "2.IH" [OF go, of "f @ c"] show ?case
    using "2.prems"(2) by (simp add: extend_file_def fun_upd_def cong: if_cong)
qed

lemma write_record_ok:
  assumes "write_record w r sp = (sp', None)" "writer sp = Some k" "files sp k = Some f"
  shows "sp' = sp\<lparr>files := (files sp)(k \<mapsto> f @ record_bytes r)\<rparr>"
proof -
  have "write_chunks w 3 k (chunks IO_CHUNK (payload r)) (extend_file k (header_of r) sp) = (sp', None)"
    using assms(1,2) by (auto simp: write_record_def split: hit.splits)
  from write_chunks_ok [OF this, of "f @ header_of r"] assms(3) show ?thesis
    by (simp add: extend_file_def record_bytes_def IO_CHUNK_def)
qed

lemma length_record_bytes [simp]: "length (record_bytes r) = HEADER_BYTES + length (payload r)"
  by (simp add: record_bytes_def)

lemma append_rep:
  assumes rep: "spool_rep sp q" and ok: "append_record w r sp = (sp', None)"
  shows "spool_rep sp' (q @ [r])"
proof -
  obtain fl where fl: "files sp (tail_seg sp) = Some fl" "length fl = tail_committed sp"
    using rep by (auto simp: spool_rep_def)
  obtain parts where parts: "length parts = Suc (tail_seg sp - head_seg sp)" "concat parts = q"
    "segs_hold (files sp) (head_seg sp) (read_offset sp) parts"
    using spool_repE [OF rep] .
  then have "parts \<noteq> []" by auto
  then have snoc: "concat (butlast parts @ [last parts @ [r]]) = q @ [r]"
    using parts(2) by (metis append.assoc append_butlast_last_id concat.simps concat_append append_Nil2)
  have last: "head_seg sp + length parts = Suc (tail_seg sp)"
    using parts(1) rep by (simp add: spool_rep_def)
  define n where "n = length (payload r) + HEADER_BYTES"
  obtain sp1 sp2 where r: "sequence r = spool_accepted sp + 1" "sequence r \<le> u64_max" "n \<le> u64_max"
      and rot: "rotate w (tail_committed sp + n) sp = (sp1, None)"
      and wr: "write_record w r sp1 = (sp2, None)"
      and sp': "sp' = sp2\<lparr>tail_committed := tail_committed sp2 + n, spool_accepted := sequence r\<rparr>"
    using ok rep
    by (auto simp: append_record_def append_inner_def spool_rep_def n_def
        split: if_splits option.splits prod.splits)
  show ?thesis
  proof (cases "tail_committed sp \<noteq> 0 \<and> SEGMENT_BYTES < tail_committed sp + n")
    case True
    then have sp1: "sp1 = sp\<lparr>files := (files sp)(Suc (tail_seg sp) \<mapsto> []), writer := Some (Suc (tail_seg sp)),
        tail_seg := Suc (tail_seg sp), tail_committed := 0\<rparr>"
      using rot by (auto simp: rotate_def Let_def split: if_splits option.splits)
    from write_record_ok [OF wr, of "Suc (tail_seg sp)" "[]"]
    have sp2: "sp2 = sp1\<lparr>files := (files sp)(Suc (tail_seg sp) \<mapsto> record_bytes r)\<rparr>"
      by (simp add: sp1)
    have "unread_segs sp' (q @ [r])"
      using segs_new [OF parts(3), of r] parts last
      by (intro unread_segsI [of "parts @ [[r]]"]) (simp_all add: sp' sp2 sp1 del: fun_upd_apply)
    then show ?thesis
      using rep r by (auto simp: spool_rep_def sp' sp2 sp1 n_def)
  next
    case False
    then have sp1: "sp1 = sp" using rot by (auto simp: rotate_def)
    from write_record_ok [OF wr, of "tail_seg sp" fl] rep fl
    have sp2: "sp2 = sp\<lparr>files := (files sp)(tail_seg sp \<mapsto> fl @ record_bytes r)\<rparr>"
      by (simp add: sp1 spool_rep_def)
    have "unread_segs sp' (q @ [r])"
      using segs_append [OF parts(3) _ fl(1), of r] parts(1) last snoc
      by (intro unread_segsI [of "butlast parts @ [last parts @ [r]]"])
        (simp_all add: sp' sp2 del: fun_upd_apply)
    then show ?thesis
      using rep r fl by (auto simp: spool_rep_def sp' sp2 n_def)
  qed
qed

section \<open>Reading takes the first record\<close>

lemma parse_ok:
  assumes "f = pre @ record_bytes r @ rest" "length pre = off"
    and "off + length (record_bytes r) \<le> end_at" "sequence r = read_seq + 1" "sequence r \<le> u64_max"
    and "length (payload r) \<le> u64_max"
  shows "parse_at f end_at off read_seq = Inr r"
proof -
  have body: "drop off f = header_of r @ payload r @ rest"
    using assms(1,2) by (simp add: record_bytes_def)
  have head: "take HEADER_BYTES (drop off f) = header_of r" by (simp add: body)
  have "drop (off + HEADER_BYTES) f = payload r @ rest"
    using body by (metis add.commute append_eq_conv_conj drop_drop length_header)
  moreover have "take 8 (header_of r) = MAGIC" "drop 25 (header_of r) = replicate 7 0"
    "take 8 (drop 8 (header_of r)) = be_bytes 8 (sequence r)"
    "take 8 (drop 16 (header_of r)) = be_bytes 8 (length (payload r))"
    "header_of r ! 24 = kind_byte (kind r)"
    by (simp_all add: header_of_def nth_append)
  ultimately show ?thesis
    using assms unfolding parse_at_def Let_def head by (auto simp del: replicate.simps)
qed

lemma segs_first:
  "segs_hold fs h off parts \<Longrightarrow>
   \<exists>p ps pre. parts = p # ps \<and> fs h = Some (pre @ seg_bytes p) \<and> length pre = off
     \<and> (ps \<noteq> [] \<longrightarrow> segs_hold fs (Suc h) 0 ps)"
  by (cases "(fs, h, off, parts)" rule: segs_hold.cases) auto

lemma segs_advance:
  assumes "segs_hold fs h off ((r # p) # ps)"
  shows "segs_hold fs h (off + length (record_bytes r)) (p # ps)"
proof -
  obtain pre where "fs h = Some (pre @ seg_bytes (r # p))" "length pre = off"
      and rest: "ps \<noteq> [] \<longrightarrow> segs_hold fs (Suc h) 0 ps"
    using segs_first [OF assms] by auto
  then have "fs h = Some ((pre @ record_bytes r) @ seg_bytes p)
      \<and> length (pre @ record_bytes r) = off + length (record_bytes r)" by simp
  then have "\<exists>pre'. fs h = Some (pre' @ seg_bytes p) \<and> length pre' = off + length (record_bytes r)"
    by blast
  with rest show ?thesis by (cases ps) simp_all
qed

text \<open>What one call of the loop gives back, relative to the unread records \<open>q\<close>.\<close>

definition quiet :: world where "quiet = (\<lambda>_. Proceed)"

definition read_result ::
  "world \<Rightarrow> spool \<times> (io_error + log_record option) \<Rightarrow> log_record list \<Rightarrow> bool" where
  "read_result w out q \<longleftrightarrow>
     (case snd out of
        Inl e \<Rightarrow> w \<noteq> quiet \<and> spool_rep (fst out) q
      | Inr None \<Rightarrow> False
      | Inr (Some r) \<Rightarrow> (\<exists>rest. q = r # rest \<and> spool_rep (fst out) rest))"

lemma spool_rep_reader:
  "spool_rep sp q \<Longrightarrow> rd = None \<or> rd = Some (head_seg sp) \<Longrightarrow> spool_rep (sp\<lparr>reader := rd\<rparr>) q"
  by (auto simp: spool_rep_def unread_segs_def)

lemma read_result_err: "spool_rep sp q \<Longrightarrow> w i \<noteq> Proceed \<Longrightarrow> read_result w (sp, Inl e) q"
  by (auto simp: read_result_def quiet_def)

lemma spool_rep_next_segment:
  assumes rep: "spool_rep sp q" and "head_seg sp < tail_seg sp"
    and ended: "files sp (head_seg sp) = Some f" "read_offset sp = length f"
  shows "spool_rep (sp\<lparr>reader := None, files := (files sp)(head_seg sp := None),
           head_seg := head_seg sp + 1, read_offset := 0\<rparr>) q"
proof -
  obtain parts where parts: "length parts = Suc (tail_seg sp - head_seg sp)" "concat parts = q"
    "segs_hold (files sp) (head_seg sp) (read_offset sp) parts"
    using spool_repE [OF rep] .
  obtain p ps pre where p: "parts = p # ps" "f = pre @ seg_bytes p" "length pre = read_offset sp"
      "ps \<noteq> [] \<longrightarrow> segs_hold (files sp) (Suc (head_seg sp)) 0 ps"
    using segs_first [OF parts(3)] ended(1) by auto
  have "p = []"
    using p(2,3) ended(2) by (cases p) (auto simp: HEADER_BYTES_def)
  then have "concat ps = q" using parts(2) p(1) by simp
  moreover have "ps \<noteq> []" using parts(1) p(1) assms(2) by auto
  with p(4) have "segs_hold (files sp) (Suc (head_seg sp)) 0 ps" by blast
  from segs_frame [OF this, of "(files sp)(head_seg sp := None)"]
  have "segs_hold ((files sp)(head_seg sp := None)) (Suc (head_seg sp)) 0 ps" by simp
  moreover have "length ps = Suc (tail_seg sp - Suc (head_seg sp))"
    using parts(1) p(1) assms(2) by simp
  ultimately have "unread_segs (sp\<lparr>reader := None, files := (files sp)(head_seg sp := None),
           head_seg := head_seg sp + 1, read_offset := 0\<rparr>) q"
    by (intro unread_segsI [of ps]) (simp_all del: fun_upd_apply)
  moreover have "((files sp)(head_seg sp := None)) (tail_seg sp) = files sp (tail_seg sp)"
    "\<forall>k > tail_seg sp. ((files sp)(head_seg sp := None)) k = None"
    using assms(2) rep by (simp_all add: spool_rep_def)
  ultimately show ?thesis
    using rep assms(2) by (simp add: spool_rep_def del: upt_Suc fun_upd_apply)
qed

lemma spool_rep_taken:
  assumes rep: "spool_rep sp q" and parts: "length parts = Suc (tail_seg sp - head_seg sp)"
    "concat parts = q" "segs_hold (files sp) (head_seg sp) (read_offset sp) parts"
    and first: "parts = (r # p) # ps"
  shows "spool_rep (sp\<lparr>reader := Some (head_seg sp),
           read_offset := read_offset sp + HEADER_BYTES + length (payload r),
           read_sequence := sequence r\<rparr>) (p @ concat ps)"
proof -
  have q: "q = r # p @ concat ps" using parts(2) first by simp
  have seqs: "map sequence q = [read_sequence sp + 1 ..< spool_accepted sp + 1]"
    using rep by (simp add: spool_rep_def)
  then have some: "read_sequence sp + 1 < spool_accepted sp + 1" by (cases "read_sequence sp + 1 < spool_accepted sp + 1") (auto simp: q)
  then have r: "sequence r = read_sequence sp + 1"
    and rest: "map sequence (p @ concat ps) = [sequence r + 1 ..< spool_accepted sp + 1]"
    using seqs by (simp_all add: q upt_conv_Cons del: upt_Suc)
  have "segs_hold (files sp) (head_seg sp) (read_offset sp + length (record_bytes r)) (p # ps)"
    using segs_advance parts(3) first by metis
  then show ?thesis
    using rep some r rest parts(1) first
    by (simp add: spool_rep_def q unread_segsI [of "p # ps"] add.assoc del: upt_Suc)
qed

lemma read_loop_result: "spool_rep sp q \<Longrightarrow> q \<noteq> [] \<Longrightarrow> read_result w (read_loop w i sp) q"
proof (induction w i sp rule: read_loop.induct)
  case (1 w i sp)
  obtain parts where parts: "length parts = Suc (tail_seg sp - head_seg sp)" "concat parts = q"
    "segs_hold (files sp) (head_seg sp) (read_offset sp) parts"
    using spool_repE [OF "1.prems"(1)] .
  obtain p ps pre where p: "parts = p # ps" "files sp (head_seg sp) = Some (pre @ seg_bytes p)"
      "length pre = read_offset sp" "ps \<noteq> [] \<longrightarrow> segs_hold (files sp) (Suc (head_seg sp)) 0 ps"
    using segs_first [OF parts(3)] by auto
  define f where "f = pre @ seg_bytes p"
  have handle: "(case reader sp of Some k \<Rightarrow> k | None \<Rightarrow> head_seg sp) = head_seg sp"
    using "1.prems"(1) by (auto simp: spool_rep_def split: option.splits)
  define end_at where "end_at = (if head_seg sp = tail_seg sp then tail_committed sp else length f)"
  have end_at: "end_at = length f"
    using "1.prems"(1) p(2) by (auto simp: end_at_def spool_rep_def f_def)
  let ?opened = "sp\<lparr>reader := Some (head_seg sp)\<rparr>"
  have opened: "spool_rep ?opened q" by (rule spool_rep_reader [OF "1.prems"(1)]) simp
  show ?case
  proof (cases "w (2 * i) = Proceed")
    case False
    then show ?thesis
      using "1.prems"(1) read_result_err [of sp q w "2 * i"] by (subst read_loop.simps) simp
  next
    case go: True
    show ?thesis
    proof (cases "read_offset sp = end_at \<and> head_seg sp < tail_seg sp")
      case True
      let ?next = "sp\<lparr>reader := None, files := (files sp)(head_seg sp := None),
                      head_seg := head_seg sp + 1, read_offset := 0\<rparr>"
      have "spool_rep ?next q"
        using True p(2) by (intro spool_rep_next_segment [OF "1.prems"(1), of f]) (simp_all add: f_def end_at)
      then have "w (2 * i + 1) = Proceed \<Longrightarrow> read_result w (read_loop w (Suc i) ?next) q"
        using "1.IH" [of f "sp\<lparr>reader := Some (head_seg sp)\<rparr>" end_at] "1.prems"(2) go True p(2)
        by (simp add: handle end_at_def f_def)
      moreover have "spool_rep (sp\<lparr>reader := None\<rparr>) q"
        by (rule spool_rep_reader [OF "1.prems"(1)]) simp
      moreover have "read_loop w i sp = (if w (2 * i + 1) \<noteq> Proceed then (sp\<lparr>reader := None\<rparr>, Inl OsError)
          else read_loop w (Suc i) ?next)"
        using go True p(2) [folded f_def] end_at
        by (subst read_loop.simps) (simp add: handle Let_def flip: end_at_def)
      ultimately show ?thesis by (simp add: read_result_err)
    next
      case False
      have loop: "read_loop w i sp = (case parse_at f end_at (read_offset sp) (read_sequence sp) of
            Inl e \<Rightarrow> (?opened, Inl e)
          | Inr r \<Rightarrow> (?opened\<lparr>read_offset := read_offset sp + HEADER_BYTES + length (payload r),
                             read_sequence := sequence r\<rparr>, Inr (Some r)))"
        using go False p(2) [folded f_def]
        by (subst read_loop.simps) (auto simp: handle Let_def simp flip: end_at_def)
      have "p \<noteq> []"
      proof
        assume "p = []"
        then have "read_offset sp = end_at" by (simp add: end_at f_def p(3))
        then have "ps = []" using False "1.prems"(1) parts(1) p(1) by (simp add: spool_rep_def)
        with \<open>p = []\<close> parts(2) p(1) "1.prems"(2) show False by simp
      qed
      then obtain r p' where first: "p = r # p'" by (cases p) auto
      have q: "q = r # p' @ concat ps" using parts(2) p(1) first by simp
      note rep = spool_rep_taken [OF "1.prems"(1) parts, of r p' ps]
      have bound: "length (payload r) \<le> u64_max" "read_sequence sp + 1 < spool_accepted sp + 1"
          "sequence r = read_sequence sp + 1" "spool_accepted sp \<le> u64_max"
      proof -
        have "map sequence q = [read_sequence sp + 1 ..< spool_accepted sp + 1]"
          using "1.prems"(1) by (simp add: spool_rep_def)
        then show lt: "read_sequence sp + 1 < spool_accepted sp + 1"
          by (cases "read_sequence sp + 1 < spool_accepted sp + 1") (auto simp: q)
        then show "sequence r = read_sequence sp + 1"
          using \<open>map sequence q = _\<close> by (simp add: q upt_conv_Cons del: upt_Suc)
      qed (use "1.prems"(1) in \<open>auto simp: spool_rep_def q\<close>)
      have "parse_at f end_at (read_offset sp) (read_sequence sp) = Inr r"
        using bound p(3)
        by (intro parse_ok [of f pre r "seg_bytes p'"]) (auto simp: f_def first end_at)
      then show ?thesis
        using rep p(1) first q by (simp add: loop read_result_def)
    qed
  qed
qed

lemma next_rep:
  assumes "spool_rep sp q" "spool_next w sp = (sp', answer)"
  shows "case answer of
      Inl e \<Rightarrow> spool_rep sp' q
    | Inr None \<Rightarrow> q = [] \<and> spool_rep sp' q
    | Inr (Some r) \<Rightarrow> (\<exists>rest. q = r # rest \<and> spool_rep sp' rest)"
proof -
  have "length q = spool_accepted sp - read_sequence sp"
    using assms(1) by (metis (no_types, lifting) add_diff_cancel_right length_map length_upt spool_rep_def)
  then have empty: "read_sequence sp = spool_accepted sp \<longleftrightarrow> q = []"
    using assms(1) by (auto simp: spool_rep_def)
  show ?thesis
  proof (cases "w 0 = CancelSeen \<or> poisoned sp \<or> q = []")
    case True
    then show ?thesis
      using assms empty by (auto simp: spool_next_def split: if_splits)
  next
    case False
    then have "read_result w (sp', answer) q"
      using assms empty read_loop_result [OF assms(1), of w 0] by (simp add: spool_next_def)
    then show ?thesis by (auto simp: read_result_def split: sum.splits option.splits)
  qed
qed

lemma append_dead: "poisoned sp \<Longrightarrow> append_record w r sp = (sp', outcome) \<Longrightarrow> poisoned sp' \<and> outcome \<noteq> None"
  by (auto simp: append_record_def)

lemma next_dead: "poisoned sp \<Longrightarrow> spool_next w sp = (sp', answer) \<Longrightarrow> poisoned sp' \<and> (\<exists>e. answer = Inl e)"
  by (auto simp: spool_next_def split: if_splits)

lemma append_outcome:
  assumes "spool_rep sp q" "append_record w r sp = (sp', outcome)"
  shows "if outcome = None then spool_rep sp' (q @ [r]) else poisoned sp'"
proof (cases outcome)
  case None
  then show ?thesis using append_rep assms by simp
next
  case (Some e)
  then show ?thesis using assms(2) by (auto simp: append_record_def split: if_splits prod.splits option.splits)
qed

interpretation disk_log: fifo_log append_record spool_next spool_rep poisoned
proof
  show "if outcome = None then spool_rep s' (q @ [i]) else poisoned s'"
    if "spool_rep s q" "append_record w i s = (s', outcome)" for s q w i s' outcome
    using append_outcome [OF that] .
  show "case answer of Inl e \<Rightarrow> spool_rep s' q | Inr None \<Rightarrow> q = [] \<and> spool_rep s' q
      | Inr (Some i) \<Rightarrow> \<exists>rest. q = i # rest \<and> spool_rep s' rest"
    if "spool_rep s q" "spool_next w s = (s', answer)" for s q w s' answer
    using next_rep [OF that] .
qed (use append_dead next_dead in blast)+

lemma spool_create_rep: "spool_create w = Inr sp \<Longrightarrow> spool_rep sp []"
  by (auto simp: spool_create_def spool_rep_def unread_segs_def split: hit.splits intro!: exI [of _ "[[]]"])

text \<open>
  C17: the disk log is a queue.  In any run of appends and reads over a fresh log, with any
  cancellation, failed call or half-written record at any point, the records read are a prefix
  of the records whose append succeeded, each byte for byte, in order, none twice.
\<close>

theorem spool_is_fifo:
  assumes "spool_create w = Inr sp" and "log_run append_record spool_next sp ops = (sp', puts, gets)"
  shows "\<exists>unread. puts = gets @ unread"
  using disk_log.run_fifo [OF spool_create_rep [OF assms(1)] assms(2)] by auto

lemma write_chunks_quiet: "snd (write_chunks quiet i k cs sp) = None"
  by (induction "quiet" i k cs sp rule: write_chunks.induct) (auto simp: quiet_def)

lemma append_quiet:
  assumes rep: "spool_rep sp q" and "sequence r = spool_accepted sp + 1" "sequence r \<le> u64_max"
    and room: "tail_committed sp + HEADER_BYTES + length (payload r) \<le> u64_max" "tail_seg sp < u64_max"
  shows "snd (append_record quiet r sp) = None"
proof -
  have "writer sp = Some (tail_seg sp)" "\<not> poisoned sp" "files sp (Suc (tail_seg sp)) = None"
    using rep by (simp_all add: spool_rep_def)
  then have rot: "\<exists>sp1 k. rotate quiet n sp = (sp1, None) \<and> writer sp1 = Some k" for n
    using room(2) by (auto simp: rotate_def Let_def quiet_def split: option.splits)
  have wr: "snd (write_record quiet r sp1) = None" if "writer sp1 = Some k" for sp1 k
    using that write_chunks_quiet by (auto simp: write_record_def quiet_def split: hit.splits)
  define n where "n = length (payload r) + HEADER_BYTES"
  obtain sp1 k where r1: "rotate quiet (tail_committed sp + n) sp = (sp1, None)" "writer sp1 = Some k"
    using rot by blast
  obtain sp2 where r2: "write_record quiet r sp1 = (sp2, None)"
    using wr [OF r1(2)] by (metis prod.collapse)
  have adds: "checked_add u64_max (spool_accepted sp) 1 = Some (sequence r)"
    "checked_add u64_max (length (payload r)) HEADER_BYTES = Some n"
    "checked_add u64_max (tail_committed sp) n = Some (tail_committed sp + n)"
    using assms by (auto simp: n_def)
  have "quiet 0 \<noteq> CancelSeen" by (simp add: quiet_def)
  then have "snd (append_inner quiet r sp) = None"
    by (simp add: append_inner_def adds [unfolded One_nat_def] r1 r2 del: checked_add_eq_Some)
  then show ?thesis
    using \<open>\<not> poisoned sp\<close> by (auto simp: append_record_def split: prod.splits option.splits)
qed

text \<open>
  in a world that does not fail, the log does its work: a log that is not poisoned appends
  the next record in sequence, and returns the first record that was appended and not read.
\<close>

theorem quiet_log_works:
  assumes "spool_create w = Inr sp0"
    and "log_run append_record spool_next sp0 ops = (sp, puts, gets)" and "\<not> poisoned sp"
  shows "(sequence r = spool_accepted sp + 1 \<longrightarrow> sequence r \<le> u64_max \<longrightarrow> tail_seg sp < u64_max \<longrightarrow>
            tail_committed sp + HEADER_BYTES + length (payload r) \<le> u64_max \<longrightarrow>
            snd (append_record quiet r sp) = None)
       \<and> (puts = gets @ s # rest \<longrightarrow> snd (spool_next quiet sp) = Inr (Some s))"
proof -
  obtain q where q: "puts = gets @ q" "spool_rep sp q"
    using disk_log.run_fifo [OF spool_create_rep [OF assms(1)] assms(2)] assms(3) by auto
  have "snd (spool_next quiet sp) = Inr (Some s)" if "puts = gets @ s # rest"
  proof -
    have qs: "q = s # rest" using that q(1) by simp
    have "length q = spool_accepted sp - read_sequence sp"
      using q(2) by (metis (no_types, lifting) add_diff_cancel_right length_map length_upt spool_rep_def)
    then have "spool_next quiet sp = read_loop quiet 0 sp"
      using assms(3) by (auto simp: spool_next_def quiet_def qs)
    then show ?thesis
      using read_loop_result [OF q(2), of quiet 0]
      by (auto simp: read_result_def qs split: sum.splits option.splits)
  qed
  then show ?thesis using append_quiet [OF q(2)] by simp
qed

definition sample_record :: log_record where
  "sample_record = \<lparr>sequence = 1, kind = NoteKind, payload = [7, 8]\<rparr>"

lemma sample_runs:
  "\<exists>sp0 sp1 sp2. spool_create quiet = Inr sp0
     \<and> log_run append_record spool_next sp0 [(quiet, Some sample_record)] = (sp1, [sample_record], [])
     \<and> \<not> poisoned sp1
     \<and> log_run append_record spool_next sp0 [(quiet, Some sample_record), (quiet, None)]
         = (sp2, [sample_record], [sample_record])"
proof -
  obtain sp0 where sp0: "spool_create quiet = Inr sp0" by (simp add: spool_create_def quiet_def)
  note rep0 = spool_create_rep [OF sp0]
  have "snd (append_record quiet sample_record sp0) = None"
    using sp0 by (intro append_quiet [OF rep0])
      (auto simp: spool_create_def quiet_def sample_record_def u64_max_def HEADER_BYTES_def)
  then obtain sp1 where sp1: "append_record quiet sample_record sp0 = (sp1, None)"
    by (metis prod.collapse)
  have rep1: "spool_rep sp1 [sample_record]" using append_rep [OF rep0 sp1] by simp
  obtain sp2 answer where sp2: "spool_next quiet sp1 = (sp2, answer)" by fastforce
  have "read_sequence sp1 \<noteq> spool_accepted sp1"
    using rep1 by (auto simp: spool_rep_def)
  then have "spool_next quiet sp1 = read_loop quiet 0 sp1"
    using rep1 by (simp add: spool_next_def spool_rep_def quiet_def)
  then have "answer = snd (read_loop quiet 0 sp1)" using sp2 by (metis snd_conv)
  then have "answer = Inr (Some sample_record)"
    using read_loop_result [OF rep1, of quiet 0]
    by (auto simp: read_result_def split: sum.splits option.splits)
  then show ?thesis using sp0 sp1 sp2 rep1 by (auto simp: spool_rep_def)
qed

lemma spool_is_fifo_witness:
  "\<exists>sp0 sp' puts gets unread. spool_create quiet = Inr sp0
     \<and> log_run append_record spool_next sp0 [(quiet, Some sample_record), (quiet, None)] = (sp', puts, gets)
     \<and> gets = [sample_record] \<and> puts = gets @ unread"
  using sample_runs spool_is_fifo by blast

lemma quiet_log_witness:
  "\<exists>sp0 sp. spool_create quiet = Inr sp0
     \<and> log_run append_record spool_next sp0 [(quiet, Some sample_record)] = (sp, [sample_record], [])
     \<and> snd (spool_next quiet sp) = Inr (Some sample_record)"
proof -
  obtain sp0 sp1 where *: "spool_create quiet = Inr sp0"
    "log_run append_record spool_next sp0 [(quiet, Some sample_record)] = (sp1, [sample_record], [])"
    "\<not> poisoned sp1" using sample_runs by blast
  from quiet_log_works [OF this, of sample_record sample_record "[]"] * show ?thesis by auto
qed

end
