(* ===== verification/EventStore.thy ===== *)
theory EventStore
  imports Budget SpoolFacts
begin

text \<open>
  The event store of one agent connection, \<open>crates/acp/src/event_store.rs\<close>: producers admit and
  enqueue events, one worker writes them to the disk log and reads them back on demand, one
  receiver takes them, and a fence names a finite prefix.  Each function here is one critical
  section of the shared mutex with the effects the code performs right after releasing it
  (closing the budget, merging the progress snapshot, waking).  The worker's loop is cut where
  it holds no lock, so every interleaving with the producers and the receiver is a sequence of
  these steps.  The JSON codec and the operating system's error text are the fields of \<open>env\<close>.
\<close>

section \<open>Events and the shared state\<close>

record session_note =
  note_session :: string
  note_update :: "byte list"

record question =
  question_id :: nat
  question_credit :: nat

datatype event =
    Note session_note
  | Ready string
  | ElicitDone string
  | Ask question
  | Elicit question
  | Closed "string option"

record env =
  enc_note :: "session_note \<Rightarrow> byte list"
  dec_note :: "byte list \<Rightarrow> session_note option"
  enc_id :: "string \<Rightarrow> byte list"
  dec_id :: "byte list \<Rightarrow> string option"
  os_text :: string

record queued =
  q_record :: log_record
  q_interaction :: "event option"
  q_credit :: "nat option"

record decoded =
  out_sequence :: "nat option"
  out_event :: event

datatype source_end =
    Eof nat
  | Closing nat nat
  | SourceClosed nat nat "string option"

fun data_through :: "source_end \<Rightarrow> nat" where
  "data_through (Eof t) = t"
| "data_through (Closing t s) = t"
| "data_through (SourceClosed t s e) = t"

fun event_sequence :: "source_end \<Rightarrow> nat option" where
  "event_sequence (Eof t) = None"
| "event_sequence (Closing t s) = Some s"
| "event_sequence (SourceClosed t s e) = Some s"

fun confirmed :: "source_end \<Rightarrow> bool" where
  "confirmed (Closing t s) = False"
| "confirmed _ = True"

fun end_error :: "source_end \<Rightarrow> string option" where
  "end_error (SourceClosed t s e) = e"
| "end_error _ = None"

text \<open>\<open>State\<close> and the fields of \<open>Shared\<close> outside its mutex.\<close>

record store =
  queue :: "queued list"
  accepted :: nat
  written :: nat
  delivered :: nat
  read_requested :: bool
  out_slot :: "decoded option"
  source_end :: "source_end option"
  failed :: "string option"
  receiver_alive :: bool
  ready_enqueued :: bool
  session :: "string option"
  io_done :: bool
  cancelled :: bool
  progress_written :: nat
  progress_failed :: "string option"
  completed :: "(string + unit) option"
  budget :: budget

definition store_new :: store where
  "store_new = \<lparr>queue = [], accepted = 0, written = 0, delivered = 0, read_requested = False,
     out_slot = None, source_end = None, failed = None, receiver_alive = True,
     ready_enqueued = False, session = None, io_done = False, cancelled = False,
     progress_written = 0, progress_failed = None, completed = None, budget = budget_new\<rparr>"

section \<open>Operations on the shared state\<close>

definition writable :: "store \<Rightarrow> string + unit" where
  "writable s =
     (case failed s of
        Some e \<Rightarrow> Inl e
      | None \<Rightarrow>
          if \<not> receiver_alive s then Inl ''ACP event receiver closed''
          else if source_end s \<noteq> None \<or> io_done s then Inl ''ACP event source closed''
          else Inr ())"

definition enqueue :: "queued \<Rightarrow> store \<Rightarrow> store \<times> (string + unit)" where
  "enqueue item s =
     (case writable s of
        Inl e \<Rightarrow> (s, Inl e)
      | Inr _ \<Rightarrow>
          (case checked_add u64_max (accepted s) 1 of
             None \<Rightarrow> (s, Inl ''ACP event sequence overflow'')
           | Some n \<Rightarrow>
               (s\<lparr>accepted := n,
                  queue := queue s @ [item\<lparr>q_record := (q_record item)\<lparr>sequence := n\<rparr>\<rparr>]\<rparr>, Inr ())))"

text \<open>\<open>merge_progress\<close>: never lets an older snapshot erase a failure or a cursor.\<close>

definition merge_progress :: "nat \<Rightarrow> string option \<Rightarrow> store \<Rightarrow> store" where
  "merge_progress w f s =
     s\<lparr>progress_written := max (progress_written s) w,
       progress_failed := (if progress_failed s = None then f else progress_failed s)\<rparr>"

definition pulse_progress :: "store \<Rightarrow> store" where
  "pulse_progress s = merge_progress (written s) (failed s) s"

definition shut_budget :: "store \<Rightarrow> store" where
  "shut_budget s = s\<lparr>budget := close_budget (budget s)\<rparr>"

definition cancel :: "string \<Rightarrow> store \<Rightarrow> store" where
  "cancel reason s =
     (if io_done s then s
      else pulse_progress (shut_budget
             (s\<lparr>failed := (if failed s = None then Some reason else failed s), cancelled := True\<rparr>)))"

definition source_eof :: "store \<Rightarrow> store" where
  "source_eof s =
     pulse_progress (shut_budget
       (if source_end s = None \<and> failed s = None then s\<lparr>source_end := Some (Eof (accepted s))\<rparr> else s))"

definition begin_close :: "store \<Rightarrow> store" where
  "begin_close s =
     (if source_end s \<noteq> None \<or> failed s \<noteq> None then s
      else case checked_add u64_max (accepted s) 1 of
             None \<Rightarrow> cancel ''ACP event sequence overflow'' s
           | Some n \<Rightarrow>
               pulse_progress (shut_budget
                 (s\<lparr>accepted := n, source_end := Some (Closing (accepted s) n)\<rparr>)))"

definition confirm_closed :: "string option \<Rightarrow> store \<Rightarrow> store" where
  "confirm_closed error s =
     (case source_end s of
        Some (Closing t n) \<Rightarrow> s\<lparr>source_end := Some (SourceClosed t n error)\<rparr>
      | _ \<Rightarrow> s)"

definition closed :: "string option \<Rightarrow> store \<Rightarrow> store" where
  "closed error s = pulse_progress (confirm_closed error (begin_close s))"

section \<open>The sender\<close>

definition encoded_size :: "byte list \<Rightarrow> string + nat" where
  "encoded_size bs =
     (case checked_add u64_max (length bs) HEADER_BYTES of
        None \<Rightarrow> Inl ''event encoded size overflow'' | Some n \<Rightarrow> Inr n)"

text \<open>\<open>Sender::note\<close> up to the wait for credit: a note of another session cancels the store.\<close>

definition note_session_ok :: "session_note \<Rightarrow> store \<Rightarrow> store \<times> (string + unit)" where
  "note_session_ok n s =
     (if session s \<noteq> None \<and> session s \<noteq> Some (note_session n)
      then (cancel ''ACP event belongs to another native session'' s,
            Inl ''ACP event belongs to another native session'')
      else (s, Inr ()))"

definition accept_session :: "string \<Rightarrow> store \<Rightarrow> store \<times> (string + unit)" where
  "accept_session sid s =
     (case writable s of
        Inl e \<Rightarrow> (s, Inl e)
      | Inr _ \<Rightarrow>
          if session s \<noteq> None \<and> session s \<noteq> Some sid
          then (s, Inl ''ACP opening belongs to another native session'')
          else (s\<lparr>session := Some sid\<rparr>, Inr ()))"

definition accepts_interactions :: "store \<Rightarrow> bool" where
  "accepts_interactions s \<longleftrightarrow> session s \<noteq> None \<and> writable s = Inr ()"

definition receiver_released :: "store \<Rightarrow> bool" where
  "receiver_released s = ready_enqueued s"

text \<open>\<open>serialized\<close> after its credit: the encoding is compared with the admitted size.\<close>

definition enqueue_encoded ::
  "record_kind \<Rightarrow> byte list \<Rightarrow> nat \<Rightarrow> store \<Rightarrow> store \<times> (string + unit)" where
  "enqueue_encoded k bs n s =
     (if checked_add u64_max (length bs) HEADER_BYTES \<noteq> Some n
      then (s, Inl ''ACP event encoding changed during admission'')
      else enqueue \<lparr>q_record = \<lparr>sequence = 0, kind = k, payload = bs\<rparr>,
                    q_interaction = None, q_credit = Some n\<rparr> s)"

fun is_interaction :: "event \<Rightarrow> bool" where
  "is_interaction (Ask q) = True"
| "is_interaction (Elicit q) = True"
| "is_interaction _ = False"

text \<open>\<open>own\<close>: the question's credit belongs to this store's budget.\<close>

definition send_interaction :: "bool \<Rightarrow> event \<Rightarrow> store \<Rightarrow> store \<times> (string + unit)" where
  "send_interaction own ev s =
     (if \<not> is_interaction ev then (s, Inl ''ACP event is not an interaction'')
      else if \<not> own then (s, Inl ''ACP interaction belongs to another event owner'')
      else enqueue \<lparr>q_record = \<lparr>sequence = 0, kind = InteractionKind, payload = []\<rparr>,
                    q_interaction = Some ev, q_credit = None\<rparr> s)"

definition ready :: "string \<Rightarrow> store \<Rightarrow> store \<times> (string + unit)" where
  "ready sid s =
     (case writable s of
        Inl e \<Rightarrow> (s, Inl e)
      | Inr _ \<Rightarrow>
          if ready_enqueued s then (s, Inl ''ACP opening was already published'')
          else if session s \<noteq> None \<and> session s \<noteq> Some sid
          then (s, Inl ''ACP opening belongs to another native session'')
          else case checked_add u64_max (accepted s) 1 of
                 None \<Rightarrow> (s, Inl ''ACP event sequence overflow'')
               | Some n \<Rightarrow>
                   (s\<lparr>accepted := n, ready_enqueued := True, session := Some sid,
                      queue := queue s @ [\<lparr>q_record = \<lparr>sequence = n, kind = ReadyKind, payload = []\<rparr>,
                                          q_interaction = None, q_credit = None\<rparr>]\<rparr>, Inr ()))"

text \<open>\<open>problem\<close>: what its loop answers at one look, if anything.\<close>

definition problem :: "bool \<Rightarrow> store \<Rightarrow> string option" where
  "problem opening s =
     (case failed s of
        Some e \<Rightarrow> Some e
      | None \<Rightarrow>
          if opening
          then map_option (\<lambda>e. case end_error e of Some m \<Rightarrow> m
                            | None \<Rightarrow> ''The agent disconnected before opening'') (source_end s)
          else None)"

section \<open>Dropping what holds credit\<close>

definition return_credit :: "queued \<Rightarrow> budget \<Rightarrow> budget" where
  "return_credit item b = (case q_credit item of None \<Rightarrow> b | Some n \<Rightarrow> drop_encoded n b)"

fun event_credit :: "event \<Rightarrow> nat option" where
  "event_credit (Ask q) = Some (question_credit q)"
| "event_credit (Elicit q) = Some (question_credit q)"
| "event_credit _ = None"

definition return_question :: "event option \<Rightarrow> budget \<Rightarrow> budget" where
  "return_question ev b =
     (case Option.bind ev event_credit of None \<Rightarrow> b | Some n \<Rightarrow> drop_interaction n b)"

definition drop_item :: "queued \<Rightarrow> budget \<Rightarrow> budget" where
  "drop_item item b = return_question (q_interaction item) (return_credit item b)"

section \<open>The fence and the receiver\<close>

definition fence_begin :: "store \<Rightarrow> string + nat" where
  "fence_begin s =
     (if \<not> receiver_alive s then Inl ''ACP event receiver closed''
      else case failed s of Some e \<Rightarrow> Inl e | None \<Rightarrow> Inr (accepted s))"

text \<open>One look at the progress channel: an answer, or wait for the next change.\<close>

definition fence_poll :: "nat \<Rightarrow> store \<Rightarrow> (string + nat) option" where
  "fence_poll through s =
     (case progress_failed s of
        Some e \<Rightarrow> Some (Inl e)
      | None \<Rightarrow> if through \<le> progress_written s then Some (Inr through) else None)"

text \<open>\<open>own\<close>: the prefix was made by a fence of this store.\<close>

definition remaining_through :: "bool \<Rightarrow> nat \<Rightarrow> store \<Rightarrow> string + nat" where
  "remaining_through own through s =
     (if \<not> own then Inl ''ACP fence belongs to another event store''
      else case failed s of
        Some e \<Rightarrow> Inl e
      | None \<Rightarrow>
          if accepted s < through then Inl ''ACP fence exceeds the accepted event prefix''
          else Inr (through - delivered s))"

fun is_closed :: "event \<Rightarrow> bool" where
  "is_closed (Closed e) = True"
| "is_closed _ = False"

text \<open>
  \<open>take_output\<close>: the new state, whether the receiver has ended, and the answer
  (\<open>Inl\<close> is the error of a broken delivery sequence).
\<close>

definition take_output :: "store \<Rightarrow> store \<times> bool \<times> (string + event option)" where
  "take_output s =
     (case out_slot s of
        Some out \<Rightarrow>
          (case out_sequence out of
             None \<Rightarrow> (s\<lparr>out_slot := None\<rparr>, is_closed (out_event out), Inr (Some (out_event out)))
           | Some n \<Rightarrow>
               if checked_add u64_max (delivered s) 1 \<noteq> Some n
               then (s\<lparr>out_slot := None, budget := return_question (Some (out_event out)) (budget s)\<rparr>,
                     False, Inl ''ACP event delivery sequence changed'')
               else (s\<lparr>out_slot := None, delivered := n\<rparr>, is_closed (out_event out),
                     Inr (Some (out_event out))))
      | None \<Rightarrow>
          (case failed s of
             Some e \<Rightarrow> (s, True, Inr (Some (Closed (Some e))))
           | None \<Rightarrow>
               if io_done s then (s, True, Inr None)
               else (s\<lparr>read_requested := True\<rparr>, False, Inr None)))"

text \<open>\<open>try_recv\<close>, and one pass of \<open>poll_recv\<close>: the event given to the caller, if any.\<close>

definition receive :: "store \<Rightarrow> store \<times> bool \<times> event option" where
  "receive s =
     (case take_output s of
        (s', ended, Inr answer) \<Rightarrow> (s', ended, answer)
      | (s', ended, Inl e) \<Rightarrow> (cancel e s', True, Some (Closed (Some e))))"

definition drop_receiver :: "store \<Rightarrow> store" where
  "drop_receiver s = cancel ''ACP event receiver closed'' (s\<lparr>receiver_alive := False\<rparr>)"

section \<open>The worker\<close>

datatype work = WriteItem queued | ReadOne | TerminalWritten nat | FinishSource source_end | CancelWork

text \<open>One look of \<open>next_work\<close>: its answer, or \<open>None\<close> when it sleeps on the condition variable.\<close>

definition finish_work :: "store \<Rightarrow> work option" where
  "finish_work s =
     (case source_end s of
        None \<Rightarrow> None
      | Some e \<Rightarrow>
          if confirmed e \<and> queue s = [] \<and> data_through e \<le> written s then
            (case event_sequence e of
               Some n \<Rightarrow>
                 if written s < n then Some (TerminalWritten n)
                 else if data_through e \<le> delivered s \<and> out_slot s = None then Some (FinishSource e)
                 else None
             | None \<Rightarrow>
                 if data_through e \<le> delivered s \<and> out_slot s = None then Some (FinishSource e) else None)
          else None)"

definition readable :: "store \<Rightarrow> bool" where
  "readable s \<longleftrightarrow>
     read_requested s \<and> out_slot s = None
   \<and> delivered s < (case source_end s of None \<Rightarrow> written s | Some e \<Rightarrow> min (written s) (data_through e))"

definition next_work :: "bool \<Rightarrow> store \<Rightarrow> store \<times> work option" where
  "next_work prefer_read s =
     (if cancelled s then (s, Some CancelWork)
      else case finish_work s of
             Some w \<Rightarrow> (s, Some w)
           | None \<Rightarrow>
               if readable s \<and> (prefer_read \<or> queue s = [])
               then (s\<lparr>read_requested := False\<rparr>, Some ReadOne)
               else case queue s of
                      item # rest \<Rightarrow> (s\<lparr>queue := rest\<rparr>, Some (WriteItem item))
                    | [] \<Rightarrow> (s, None))"

definition publish_written :: "nat \<Rightarrow> store \<Rightarrow> store" where
  "publish_written n s = merge_progress n (failed s) (s\<lparr>written := n\<rparr>)"

text \<open>\<open>read_event\<close>, with the live questions; a decoder that sees the cancellation fails.\<close>

definition read_event ::
  "env \<Rightarrow> store \<Rightarrow> (nat, event) btree \<Rightarrow> log_record \<Rightarrow> (nat, event) btree \<times> (string + decoded)" where
  "read_event v s asks r =
     (let out = (\<lambda>ev. Inr \<lparr>out_sequence = Some (sequence r), out_event = ev\<rparr>) in
      case kind r of
        NoteKind \<Rightarrow>
          (asks,
           case dec_note v (payload r) of
             None \<Rightarrow> Inl (os_text v)
           | Some n \<Rightarrow>
               if cancelled s then Inl ''ACP event store cancelled''
               else case session s of
                      None \<Rightarrow> Inl ''ACP event store has no native session binding''
                    | Some sid \<Rightarrow>
                        if note_session n \<noteq> sid
                        then Inl ''ACP event belongs to another native session''
                        else out (Note n))
      | ReadyKind \<Rightarrow>
          (asks,
           case session s of
             None \<Rightarrow> Inl ''ACP opening has no native session binding''
           | Some sid \<Rightarrow> out (Ready sid))
      | ElicitDoneKind \<Rightarrow>
          (asks,
           case dec_id v (payload r) of
             None \<Rightarrow> Inl (os_text v)
           | Some i \<Rightarrow> if cancelled s then Inl ''ACP event store cancelled'' else out (ElicitDone i))
      | InteractionKind \<Rightarrow>
          (bt_remove (sequence r) asks,
           case bt_get asks (sequence r) of
             None \<Rightarrow> Inl ''ACP interaction marker has no live question''
           | Some ev \<Rightarrow> out ev))"

datatype worker_end = EndSource source_end | EndCancelled | EndFailed string

text \<open>
  The end of the worker.  The credits of what is still queued go back, the private directory is
  removed, and the receiver gets its last event, if any.
\<close>

definition end_failed :: "worker_end \<Rightarrow> bool" where
  "end_failed e = (case e of EndSource _ \<Rightarrow> False | _ \<Rightarrow> True)"

fun end_result :: "worker_end \<Rightarrow> (string + unit) \<times> decoded option" where
  "end_result (EndSource (Eof t)) = (Inr (), None)"
| "end_result (EndSource (SourceClosed t n e)) =
     (Inr (), Some \<lparr>out_sequence = Some n, out_event = Closed e\<rparr>)"
| "end_result (EndSource (Closing t n)) = (Inl ''ACP shutdown fact was not confirmed'', None)"
| "end_result EndCancelled = (Inr (), Some \<lparr>out_sequence = None, out_event = Closed None\<rparr>)"
| "end_result (EndFailed e) = (Inl e, Some \<lparr>out_sequence = None, out_event = Closed (Some e)\<rparr>)"

definition drop_questions :: "event list \<Rightarrow> budget \<Rightarrow> budget" where
  "drop_questions evs b = foldl (\<lambda>b ev. return_question (Some ev) b) b evs"

definition release_all :: "bool \<Rightarrow> (nat, event) btree \<Rightarrow> store \<Rightarrow> store" where
  "release_all failing asks s =
     s\<lparr>queue := [], out_slot := (if failing then None else out_slot s),
       budget := (let b = foldl (\<lambda>b item. drop_item item b) (budget s) (queue s);
                      b' = (if failing then return_question (map_option out_event (out_slot s)) b else b)
                  in drop_questions (map snd asks) b')\<rparr>"

definition complete_io ::
  "string option \<Rightarrow> (nat, event) btree \<Rightarrow> worker_end \<Rightarrow> store \<Rightarrow> store" where
  "complete_io cleanup_error asks e s =
     (let s1 = (case e of EndFailed m \<Rightarrow> cancel m s | _ \<Rightarrow> s);
          s2 = release_all (end_failed e) asks s1;
          result = (case cleanup_error of None \<Rightarrow> fst (end_result e) | Some m \<Rightarrow> Inl m);
          s3 = (case result of
                  Inl m \<Rightarrow> s2\<lparr>failed := (if failed s2 = None then Some m else failed s2)\<rparr>
                | Inr _ \<Rightarrow> s2);
          last_output = (case result of
                           Inl m \<Rightarrow> Some \<lparr>out_sequence = None, out_event = Closed (Some m)\<rparr>
                         | Inr _ \<Rightarrow> snd (end_result e));
          s4 = s3\<lparr>out_slot := (if receiver_alive s3 then last_output else out_slot s3), io_done := True\<rparr>
      in (merge_progress (written s4) (failed s4) (shut_budget s4))\<lparr>completed := Some result\<rparr>)"

end
