(* ===== verification/EventSystem.thy ===== *)
theory EventSystem
  imports EventStore
begin

text \<open>
  One event store with everyone who uses it: producers waiting for credit, the questions the
  agent holds, the worker at the point where it holds no lock, and the receiver.  The input
  names who moves; any interleaving of the real threads is a list of inputs.  \<open>sent\<close> and \<open>got\<close>
  are observers: what was accepted, in sequence, and what the receiver was given.
\<close>

datatype phase =
    Unstarted
  | Picking
  | Writing queued
  | Reading
  | Putting decoded
  | Ending worker_end
  | Finished

text \<open>A producer inside \<open>serialized\<close>: it knows its bytes and may hold their credit.\<close>

record ticket =
  t_kind :: record_kind
  t_payload :: "byte list"
  t_bytes :: nat
  t_event :: event
  t_granted :: bool

record sys =
  st :: store
  phase :: phase
  disk :: spool
  asks_live :: "(nat, event) btree"
  prefer_read :: bool
  tickets :: "ticket list"
  questions :: "event list"
  ended :: bool
  sent :: "event list"
  got :: "event list"

datatype input =
    SendNote session_note
  | SendElicitDone string
  | Admit nat
  | Publish nat
  | Abandon nat
  | NewQuestion event
  | SendQuestion nat
  | AnswerQuestion nat
  | AcceptSession string
  | SendReady string
  | BeginClose
  | ConfirmClosed "string option"
  | ProducersGone
  | Cancel string
  | Receive
  | DropReceiver
  | Start world
  | Pick
  | Write world
  | ReadBack world
  | Put
  | Finish "string option"
  | WorkerLost

definition drop_nth :: "nat \<Rightarrow> 'a list \<Rightarrow> 'a list" where
  "drop_nth i xs = take i xs @ drop (Suc i) xs"

definition no_disk :: spool where
  "no_disk = \<lparr>files = \<lambda>_. None, writer = None, reader = None, tail_seg = 0, head_seg = 0,
     tail_committed = 0, read_offset = 0, spool_accepted = 0, read_sequence = 0,
     poisoned = False, dir_armed = False\<rparr>"

definition sys_new :: sys where
  "sys_new = \<lparr>st = store_new, phase = Unstarted, disk = no_disk, asks_live = [],
     prefer_read = True, tickets = [], questions = [], ended = False, sent = [], got = []\<rparr>"

definition on_budget :: "(budget \<Rightarrow> budget) \<Rightarrow> store \<Rightarrow> store" where
  "on_budget f s = s\<lparr>budget := f (budget s)\<rparr>"

section \<open>Producers\<close>

definition start_ticket :: "record_kind \<Rightarrow> byte list \<Rightarrow> event \<Rightarrow> sys \<Rightarrow> sys" where
  "start_ticket k bs ev g =
     (case encoded_size bs of
        Inl e \<Rightarrow> g
      | Inr n \<Rightarrow> g\<lparr>tickets := tickets g @
          [\<lparr>t_kind = k, t_payload = bs, t_bytes = n, t_event = ev, t_granted = False\<rparr>]\<rparr>)"

definition send_note :: "env \<Rightarrow> session_note \<Rightarrow> sys \<Rightarrow> sys" where
  "send_note v n g =
     (case note_session_ok n (st g) of
        (s, Inl e) \<Rightarrow> g\<lparr>st := s\<rparr>
      | (s, Inr _) \<Rightarrow> start_ticket NoteKind (enc_note v n) (Note n) (g\<lparr>st := s\<rparr>))"

definition admit :: "nat \<Rightarrow> sys \<Rightarrow> sys" where
  "admit i g =
     (if i < length (tickets g) \<and> \<not> t_granted (tickets g ! i) then
        (case encoded (t_bytes (tickets g ! i)) (budget (st g)) of
           Admitted b \<Rightarrow> g\<lparr>st := (st g)\<lparr>budget := b\<rparr>,
                          tickets := (tickets g)[i := (tickets g ! i)\<lparr>t_granted := True\<rparr>]\<rparr>
         | Waits \<Rightarrow> g
         | Refused e \<Rightarrow> g\<lparr>tickets := drop_nth i (tickets g)\<rparr>)
      else g)"

definition publish :: "nat \<Rightarrow> sys \<Rightarrow> sys" where
  "publish i g =
     (if i < length (tickets g) \<and> t_granted (tickets g ! i) then
        let t = tickets g ! i; g' = g\<lparr>tickets := drop_nth i (tickets g)\<rparr> in
        (case enqueue_encoded (t_kind t) (t_payload t) (t_bytes t) (st g) of
           (s, Inl e) \<Rightarrow> g'\<lparr>st := on_budget (drop_encoded (t_bytes t)) s\<rparr>
         | (s, Inr _) \<Rightarrow> g'\<lparr>st := s, sent := sent g @ [t_event t]\<rparr>)
      else g)"

definition abandon :: "nat \<Rightarrow> sys \<Rightarrow> sys" where
  "abandon i g =
     (if i < length (tickets g) then
        let t = tickets g ! i; g' = g\<lparr>tickets := drop_nth i (tickets g)\<rparr> in
        if t_granted t then g'\<lparr>st := on_budget (drop_encoded (t_bytes t)) (st g)\<rparr> else g'
      else g)"

definition new_question :: "event \<Rightarrow> sys \<Rightarrow> sys" where
  "new_question ev g =
     (case event_credit ev of
        None \<Rightarrow> g
      | Some n \<Rightarrow>
          (case interaction n (budget (st g)) of
             Inl e \<Rightarrow> g
           | Inr b \<Rightarrow> g\<lparr>st := (st g)\<lparr>budget := b\<rparr>, questions := questions g @ [ev]\<rparr>))"

definition send_question :: "nat \<Rightarrow> sys \<Rightarrow> sys" where
  "send_question i g =
     (if i < length (questions g) then
        let ev = questions g ! i; g' = g\<lparr>questions := drop_nth i (questions g)\<rparr> in
        (case send_interaction True ev (st g) of
           (s, Inl e) \<Rightarrow> g'\<lparr>st := on_budget (return_question (Some ev)) s\<rparr>
         | (s, Inr _) \<Rightarrow> g'\<lparr>st := s, sent := sent g @ [ev]\<rparr>)
      else g)"

definition answer_question :: "nat \<Rightarrow> sys \<Rightarrow> sys" where
  "answer_question i g =
     (if i < length (questions g) then
        g\<lparr>questions := drop_nth i (questions g),
          st := on_budget (return_question (Some (questions g ! i))) (st g)\<rparr>
      else g)"

definition send_ready :: "string \<Rightarrow> sys \<Rightarrow> sys" where
  "send_ready sid g =
     (case ready sid (st g) of
        (s, Inl e) \<Rightarrow> g\<lparr>st := s\<rparr>
      | (s, Inr _) \<Rightarrow> g\<lparr>st := s, sent := sent g @ [Ready sid]\<rparr>)"

section \<open>The receiver\<close>

definition give :: "event option \<Rightarrow> sys \<Rightarrow> sys" where
  "give answer g =
     (case answer of
        None \<Rightarrow> g
      | Some ev \<Rightarrow> g\<lparr>got := got g @ [ev],
                     questions := (if is_interaction ev then questions g @ [ev] else questions g)\<rparr>)"

definition receive_step :: "sys \<Rightarrow> sys" where
  "receive_step g =
     (if ended g then g
      else case receive (st g) of (s, over, answer) \<Rightarrow> give answer (g\<lparr>st := s, ended := over\<rparr>))"

section \<open>The worker between its locks\<close>

definition io_text :: "env \<Rightarrow> io_error \<Rightarrow> string" where
  "io_text v e = (case e of Interrupted \<Rightarrow> ''ACP event store cancelled''
                  | InvalidData m \<Rightarrow> m | OsError \<Rightarrow> os_text v)"

definition stop :: "string \<Rightarrow> sys \<Rightarrow> sys" where
  "stop m g = g\<lparr>phase := Ending (if cancelled (st g) then EndCancelled else EndFailed m)\<rparr>"

definition start_worker :: "env \<Rightarrow> world \<Rightarrow> sys \<Rightarrow> sys" where
  "start_worker v w g =
     (case spool_create w of
        Inr sp \<Rightarrow> g\<lparr>disk := sp, phase := Picking, prefer_read := True\<rparr>
      | Inl e \<Rightarrow> stop (io_text v e) g)"

definition pick :: "sys \<Rightarrow> sys" where
  "pick g =
     (case next_work (prefer_read g) (st g) of
        (s, None) \<Rightarrow> g\<lparr>st := s\<rparr>
      | (s, Some (WriteItem item)) \<Rightarrow> g\<lparr>st := s, phase := Writing item\<rparr>
      | (s, Some ReadOne) \<Rightarrow> g\<lparr>st := s, phase := Reading\<rparr>
      | (s, Some (TerminalWritten n)) \<Rightarrow> g\<lparr>st := publish_written n s\<rparr>
      | (s, Some (FinishSource e)) \<Rightarrow> g\<lparr>st := s, phase := Ending (EndSource e)\<rparr>
      | (s, Some CancelWork) \<Rightarrow> g\<lparr>st := s, phase := Ending EndCancelled\<rparr>)"

definition write_step :: "env \<Rightarrow> world \<Rightarrow> queued \<Rightarrow> sys \<Rightarrow> sys" where
  "write_step v w item g =
     (case append_record w (q_record item) (disk g) of
        (sp, Some e) \<Rightarrow> stop (io_text v e) (g\<lparr>disk := sp, st := on_budget (drop_item item) (st g)\<rparr>)
      | (sp, None) \<Rightarrow>
          let n = sequence (q_record item); g' = g\<lparr>disk := sp\<rparr> in
          (case q_interaction item of
             None \<Rightarrow>
               g'\<lparr>st := on_budget (return_credit item) (publish_written n (st g)),
                  phase := Picking, prefer_read := True\<rparr>
           | Some ev \<Rightarrow>
               let g'' = g'\<lparr>asks_live := bt_insert n ev (asks_live g)\<rparr> in
               (case bt_get (asks_live g) n of
                  Some old \<Rightarrow>
                    g''\<lparr>st := on_budget (\<lambda>b. return_credit item (return_question (Some old) b)) (st g),
                        phase := Ending (EndFailed ''ACP interaction sequence was reused'')\<rparr>
                | None \<Rightarrow>
                    g''\<lparr>st := on_budget (return_credit item) (publish_written n (st g)),
                        phase := Picking, prefer_read := True\<rparr>)))"

definition read_step :: "env \<Rightarrow> world \<Rightarrow> sys \<Rightarrow> sys" where
  "read_step v w g =
     (case spool_next w (disk g) of
        (sp, Inl e) \<Rightarrow> stop (io_text v e) (g\<lparr>disk := sp\<rparr>)
      | (sp, Inr None) \<Rightarrow>
          g\<lparr>disk := sp, phase := Ending (EndFailed ''ACP committed event prefix has no record'')\<rparr>
      | (sp, Inr (Some r)) \<Rightarrow>
          (case read_event v (st g) (asks_live g) r of
             (asks, Inl m) \<Rightarrow> stop m (g\<lparr>disk := sp, asks_live := asks\<rparr>)
           | (asks, Inr out) \<Rightarrow> g\<lparr>disk := sp, asks_live := asks, phase := Putting out\<rparr>))"

definition put_step :: "decoded \<Rightarrow> sys \<Rightarrow> sys" where
  "put_step out g =
     (let dropped = g\<lparr>st := on_budget (return_question (Some (out_event out))) (st g)\<rparr> in
      if cancelled (st g) then dropped\<lparr>phase := Ending EndCancelled\<rparr>
      else if out_slot (st g) \<noteq> None
      then dropped\<lparr>phase := Ending (EndFailed ''ACP decoded result slot is occupied'')\<rparr>
      else g\<lparr>st := (st g)\<lparr>out_slot := Some out\<rparr>, phase := Picking, prefer_read := False\<rparr>)"

definition finish_step :: "string option \<Rightarrow> worker_end \<Rightarrow> sys \<Rightarrow> sys" where
  "finish_step cleanup_error e g =
     g\<lparr>st := complete_io cleanup_error (asks_live g) e (st g), asks_live := [], phase := Finished\<rparr>"

text \<open>
  A worker that unwinds, or is dropped before it starts: its locals are dropped, and
  \<open>WorkerGuard\<close> cancels and completes.
\<close>

definition hand_dropped :: "sys \<Rightarrow> store" where
  "hand_dropped g =
     (case phase g of
        Writing item \<Rightarrow> on_budget (drop_item item) (st g)
      | Putting out \<Rightarrow> on_budget (return_question (Some (out_event out))) (st g)
      | _ \<Rightarrow> st g)"

definition worker_lost :: "sys \<Rightarrow> sys" where
  "worker_lost g =
     (case phase g of
        Finished \<Rightarrow> g
      | Ending _ \<Rightarrow> g
      | Unstarted \<Rightarrow>
          (let reason = ''ACP event I/O worker was cancelled before starting'' in
           g\<lparr>st := complete_io None (asks_live g) EndCancelled (cancel reason (st g)),
             asks_live := [], phase := Finished\<rparr>)
      | _ \<Rightarrow>
          (let reason = ''ACP event I/O worker ended without confirmation'' in
           g\<lparr>st := complete_io None (asks_live g) (EndFailed reason) (cancel reason (hand_dropped g)),
             asks_live := [], phase := Finished\<rparr>))"

section \<open>One move\<close>

fun sys_step :: "env \<Rightarrow> sys \<Rightarrow> input \<Rightarrow> sys" where
  "sys_step v g (SendNote n) = send_note v n g"
| "sys_step v g (SendElicitDone i) = start_ticket ElicitDoneKind (enc_id v i) (ElicitDone i) g"
| "sys_step v g (Admit i) = admit i g"
| "sys_step v g (Publish i) = publish i g"
| "sys_step v g (Abandon i) = abandon i g"
| "sys_step v g (NewQuestion ev) = new_question ev g"
| "sys_step v g (SendQuestion i) = send_question i g"
| "sys_step v g (AnswerQuestion i) = answer_question i g"
| "sys_step v g (AcceptSession sid) = g\<lparr>st := fst (accept_session sid (st g))\<rparr>"
| "sys_step v g (SendReady sid) = send_ready sid g"
| "sys_step v g BeginClose = g\<lparr>st := begin_close (st g)\<rparr>"
| "sys_step v g (ConfirmClosed e) = g\<lparr>st := closed e (st g)\<rparr>"
| "sys_step v g ProducersGone = g\<lparr>st := source_eof (st g)\<rparr>"
| "sys_step v g (Cancel reason) = g\<lparr>st := cancel reason (st g)\<rparr>"
| "sys_step v g Receive = receive_step g"
| "sys_step v g DropReceiver = g\<lparr>st := drop_receiver (st g), ended := True\<rparr>"
| "sys_step v g (Start w) = (if phase g = Unstarted then start_worker v w g else g)"
| "sys_step v g Pick = (if phase g = Picking then pick g else g)"
| "sys_step v g (Write w) = (case phase g of Writing item \<Rightarrow> write_step v w item g | _ \<Rightarrow> g)"
| "sys_step v g (ReadBack w) = (if phase g = Reading then read_step v w g else g)"
| "sys_step v g Put = (case phase g of Putting out \<Rightarrow> put_step out g | _ \<Rightarrow> g)"
| "sys_step v g (Finish c) = (case phase g of Ending e \<Rightarrow> finish_step c e g | _ \<Rightarrow> g)"
| "sys_step v g WorkerLost = worker_lost g"

definition sys_after :: "env \<Rightarrow> input list \<Rightarrow> sys" where
  "sys_after v is = run_inputs (sys_step v) sys_new is"

end
