(* ===== verification/EventStoreFacts.thy ===== *)
theory EventStoreFacts
  imports EventSystem
begin

text \<open>
  What the event store promises.  The invariant has three parts: \<open>hist_ok\<close> relates the cursors to
  what was sent and got, \<open>live_ok\<close> says that while the worker runs every accepted event is in
  exactly one place (in hand, queued, on the disk, decoded), and \<open>close_ok\<close> is about the last
  event.  Most operations change nothing the invariant mentions; \<open>calm\<close> states what they may
  change, and \<open>inv_calm\<close> is proved once for all of them.
\<close>

section \<open>Views of the state\<close>

definition data_end :: "store \<Rightarrow> nat" where
  "data_end s = (case source_end s of None \<Rightarrow> accepted s | Some e \<Rightarrow> data_through e)"

definition stored_end :: "store \<Rightarrow> nat" where
  "stored_end s = min (written s) (data_end s)"

definition data_got :: "event list \<Rightarrow> event list" where
  "data_got evs = filter (\<lambda>ev. \<not> is_closed ev) evs"

definition in_hand :: "phase \<Rightarrow> queued list" where
  "in_hand p = (case p of Writing item \<Rightarrow> [item] | _ \<Rightarrow> [])"

definition decoded_out :: "sys \<Rightarrow> decoded list" where
  "decoded_out g = (case phase g of Putting out \<Rightarrow> [out] | _ \<Rightarrow> []) @ (case out_slot (st g) of Some o' \<Rightarrow> [o'] | None \<Rightarrow> [])"

definition running :: "phase \<Rightarrow> bool" where
  "running p = (case p of Ending _ \<Rightarrow> False | Finished \<Rightarrow> False | _ \<Rightarrow> True)"

lemma data_got_simps [simp]:
  "data_got [] = []" "data_got (a @ b) = data_got a @ data_got b"
  "data_got [ev] = (if is_closed ev then [] else [ev])"
  by (simp_all add: data_got_def)

definition end_wf :: "store \<Rightarrow> bool" where
  "end_wf s \<longleftrightarrow>
     accepted s \<le> u64_max
   \<and> (case source_end s of
        None \<Rightarrow> True
      | Some (Eof t) \<Rightarrow> accepted s = t
      | Some (Closing t n) \<Rightarrow> n = Suc t \<and> accepted s = n
      | Some (SourceClosed t n e) \<Rightarrow> n = Suc t \<and> accepted s = n)
   \<and> (data_end s < written s \<longrightarrow>
        (\<exists>t n e. source_end s = Some (SourceClosed t n e) \<and> written s = n))"

section \<open>The history\<close>

definition hist_ok :: "sys \<Rightarrow> bool" where
  "hist_ok g \<longleftrightarrow>
     length (sent g) = data_end (st g)
   \<and> (\<forall>ev \<in> set (sent g). \<not> is_closed ev)
   \<and> data_got (got g) = take (delivered (st g)) (sent g)
   \<and> (data_end (st g) < delivered (st g) \<longrightarrow> source_end (st g) \<noteq> None)
   \<and> end_wf (st g)
   \<and> (cancelled (st g) \<longrightarrow> failed (st g) \<noteq> None)
   \<and> (io_done (st g) \<longleftrightarrow> phase g = Finished)"

text \<open>A decoded event waiting for the receiver is the next one sent; after the worker has
  finished only its closing event can wait.\<close>

definition next_out :: "sys \<Rightarrow> decoded \<Rightarrow> bool" where
  "next_out g o' \<longleftrightarrow>
     delivered (st g) < data_end (st g) \<and> out_sequence o' = Some (Suc (delivered (st g)))
   \<and> out_event o' = sent g ! delivered (st g)"

definition closing_out :: "sys \<Rightarrow> decoded \<Rightarrow> bool" where
  "closing_out g o' \<longleftrightarrow>
     is_closed (out_event o')
   \<and> (case out_sequence o' of
        None \<Rightarrow> failed (st g) \<noteq> None
      | Some n \<Rightarrow> n = Suc (delivered (st g)) \<and> delivered (st g) = data_end (st g)
          \<and> (\<exists>t e. source_end (st g) = Some (SourceClosed t n e)))"

definition out_ok :: "sys \<Rightarrow> bool" where
  "out_ok g \<longleftrightarrow>
     (case out_slot (st g) of
        None \<Rightarrow> True
      | Some o' \<Rightarrow> if phase g = Finished then closing_out g o' else next_out g o')"

definition phase_ok :: "sys \<Rightarrow> bool" where
  "phase_ok g \<longleftrightarrow>
     (case phase g of
        Ending EndCancelled \<Rightarrow> failed (st g) \<noteq> None
      | Ending (EndSource e) \<Rightarrow>
          source_end (st g) = Some e \<and> confirmed e \<and> delivered (st g) = data_end (st g)
        \<and> out_slot (st g) = None
      | Putting o' \<Rightarrow> out_slot (st g) = None \<and> next_out g o'
      | Reading \<Rightarrow> out_slot (st g) = None \<and> delivered (st g) < stored_end (st g)
      | _ \<Rightarrow> True)"

definition one_close :: "event list \<Rightarrow> bool" where
  "one_close evs \<longleftrightarrow> (\<exists>ds. (\<forall>d \<in> set ds. \<not> is_closed d) \<and> (evs = ds \<or> (\<exists>e. evs = ds @ [Closed e])))"

definition close_ok :: "sys \<Rightarrow> bool" where
  "close_ok g \<longleftrightarrow>
     ((\<exists>ev \<in> set (got g). is_closed ev) \<longrightarrow>
        ended g \<and> (failed (st g) \<noteq> None \<or> (source_end (st g) \<noteq> None \<and> data_got (got g) = sent g)))
   \<and> one_close (got g)"

section \<open>Where the accepted events are\<close>

definition record_is :: "env \<Rightarrow> string option \<Rightarrow> log_record \<Rightarrow> event \<Rightarrow> bool" where
  "record_is v sess r ev \<longleftrightarrow>
     (case kind r of
        NoteKind \<Rightarrow> (\<exists>n. ev = Note n \<and> payload r = enc_note v n)
      | ReadyKind \<Rightarrow> (\<exists>sid. ev = Ready sid \<and> sess = Some sid)
      | ElicitDoneKind \<Rightarrow> (\<exists>i. ev = ElicitDone i \<and> payload r = enc_id v i)
      | InteractionKind \<Rightarrow> is_interaction ev)"

definition item_is :: "env \<Rightarrow> string option \<Rightarrow> queued \<Rightarrow> event \<Rightarrow> bool" where
  "item_is v sess item ev \<longleftrightarrow>
     record_is v sess (q_record item) ev
   \<and> q_interaction item = (if kind (q_record item) = InteractionKind then Some ev else None)"

definition stored_is :: "env \<Rightarrow> string option \<Rightarrow> (nat, event) btree \<Rightarrow> log_record \<Rightarrow> event \<Rightarrow> bool" where
  "stored_is v sess asks r ev \<longleftrightarrow>
     record_is v sess r ev \<and> (kind r = InteractionKind \<longrightarrow> bt_get asks (sequence r) = Some ev)"

definition queue_is :: "env \<Rightarrow> sys \<Rightarrow> queued list \<Rightarrow> bool" where
  "queue_is v g items \<longleftrightarrow>
     map (sequence \<circ> q_record) items = [Suc (stored_end (st g)) ..< Suc (data_end (st g))]
   \<and> (\<forall>item \<in> set items. item_is v (session (st g)) item (sent g ! (sequence (q_record item) - 1)))"

definition asks_ok :: "nat \<Rightarrow> (nat, event) btree \<Rightarrow> bool" where
  "asks_ok n asks \<longleftrightarrow> bt_ok asks \<and> (\<forall>k \<in> fst ` set asks. k \<le> n)"

definition log_is :: "env \<Rightarrow> sys \<Rightarrow> bool" where
  "log_is v g \<longleftrightarrow>
     spool_accepted (disk g) = stored_end (st g)
   \<and> read_sequence (disk g) = delivered (st g) + length (decoded_out g)
   \<and> (\<exists>unread. spool_rep (disk g) unread
        \<and> (\<forall>r \<in> set unread. stored_is v (session (st g)) (asks_live g) r (sent g ! (sequence r - 1))))"

definition live_ok :: "env \<Rightarrow> sys \<Rightarrow> bool" where
  "live_ok v g \<longleftrightarrow>
     queue_is v g (in_hand (phase g) @ queue (st g)) \<and> asks_ok (stored_end (st g)) (asks_live g)
   \<and> (if phase g = Unstarted
      then stored_end (st g) = 0 \<and> delivered (st g) = 0 \<and> out_slot (st g) = None
      else log_is v g)"

definition ticket_ok :: "env \<Rightarrow> ticket \<Rightarrow> bool" where
  "ticket_ok v t \<longleftrightarrow>
     (t_kind t = NoteKind \<and> (\<exists>n. t_event t = Note n \<and> t_payload t = enc_note v n))
   \<or> (t_kind t = ElicitDoneKind \<and> (\<exists>i. t_event t = ElicitDone i \<and> t_payload t = enc_id v i))"

definition tickets_ok :: "env \<Rightarrow> sys \<Rightarrow> bool" where
  "tickets_ok v g \<longleftrightarrow> (\<forall>t \<in> set (tickets g). ticket_ok v t)"

definition inv :: "env \<Rightarrow> sys \<Rightarrow> bool" where
  "inv v g \<longleftrightarrow> hist_ok g \<and> out_ok g \<and> phase_ok g \<and> close_ok g \<and> tickets_ok v g
     \<and> (running (phase g) \<longrightarrow> live_ok v g)"

section \<open>Operations the invariant does not notice\<close>

definition calm :: "store \<Rightarrow> store \<Rightarrow> bool" where
  "calm s s' \<longleftrightarrow>
     queue s' = queue s \<and> written s' = written s \<and> delivered s' = delivered s
   \<and> out_slot s' = out_slot s \<and> io_done s' = io_done s \<and> data_end s' = data_end s
   \<and> (failed s \<noteq> None \<longrightarrow> failed s' \<noteq> None) \<and> (cancelled s' \<longrightarrow> cancelled s \<or> failed s' \<noteq> None)
   \<and> (session s \<noteq> None \<longrightarrow> session s' = session s)
   \<and> (\<forall>e. source_end s = Some e \<longrightarrow> confirmed e \<longrightarrow> source_end s' = Some e)
   \<and> (source_end s \<noteq> None \<longrightarrow> source_end s' \<noteq> None)
   \<and> (end_wf s \<longrightarrow> end_wf s')"

lemma record_is_mono:
  "record_is v sess r ev \<Longrightarrow> sess \<noteq> None \<longrightarrow> sess' = sess \<Longrightarrow> record_is v sess' r ev"
  by (auto simp: record_is_def split: record_kind.splits)

lemma calm_live:
  assumes "calm (st g) s'" "live_ok v g"
  shows "live_ok v (g\<lparr>st := s'\<rparr>)"
proof -
  have sess: "session (st g) \<noteq> None \<longrightarrow> session s' = session (st g)"
    and same: "stored_end s' = stored_end (st g)" "data_end s' = data_end (st g)"
      "queue s' = queue (st g)" "delivered s' = delivered (st g)" "out_slot s' = out_slot (st g)"
    using assms(1) by (auto simp: calm_def stored_end_def)
  have item: "item_is v (session (st g)) i ev \<Longrightarrow> item_is v (session s') i ev" for i ev
    unfolding item_is_def using record_is_mono [OF _ sess] by blast
  have rec: "stored_is v (session (st g)) a r ev \<Longrightarrow> stored_is v (session s') a r ev" for a r ev
    unfolding stored_is_def using record_is_mono [OF _ sess] by blast
  have "queue_is v g items \<Longrightarrow> queue_is v (g\<lparr>st := s'\<rparr>) items" for items
    using item by (simp add: queue_is_def same)
  moreover have "log_is v (g\<lparr>st := s'\<rparr>)" if l: "log_is v g"
  proof -
    obtain unread where u: "spool_rep (disk g) unread"
      "\<forall>r \<in> set unread. stored_is v (session (st g)) (asks_live g) r (sent g ! (sequence r - 1))"
      using l by (auto simp: log_is_def)
    have "\<forall>r \<in> set unread. stored_is v (session s') (asks_live g) r (sent g ! (sequence r - 1))"
      using u(2) rec by blast
    moreover have "decoded_out (g\<lparr>st := s'\<rparr>) = decoded_out g"
      by (simp add: decoded_out_def same)
    ultimately show ?thesis
      using l u(1) unfolding log_is_def by (simp add: same) (rule exI [of _ unread], simp)
  qed
  ultimately show ?thesis
    using assms(2) by (simp add: live_ok_def same split: if_splits)
qed

lemma inv_calm:
  assumes "calm (st g) s'" "inv v g"
  shows "inv v (g\<lparr>st := s'\<rparr>)"
proof -
  have same: "stored_end s' = stored_end (st g)" "data_end s' = data_end (st g)"
      "delivered s' = delivered (st g)" "out_slot s' = out_slot (st g)" "io_done s' = io_done (st g)"
    and fail: "failed (st g) \<noteq> None \<longrightarrow> failed s' \<noteq> None"
      "cancelled s' \<longrightarrow> cancelled (st g) \<or> failed s' \<noteq> None"
    and conf: "\<And>e. source_end (st g) = Some e \<Longrightarrow> confirmed e \<Longrightarrow> source_end s' = Some e"
    and ends: "source_end (st g) \<noteq> None \<longrightarrow> source_end s' \<noteq> None" "end_wf (st g) \<longrightarrow> end_wf s'"
    using assms(1) by (simp_all add: calm_def stored_end_def)
  have i: "hist_ok g" "out_ok g" "phase_ok g" "close_ok g" "tickets_ok v g"
    using assms(2) by (simp_all add: inv_def)
  have "hist_ok (g\<lparr>st := s'\<rparr>)" using i(1) fail ends by (simp add: hist_ok_def same) blast
  moreover have next_same: "next_out (g\<lparr>st := s'\<rparr>) o' = next_out g o'" for o'
    by (simp add: next_out_def same)
  moreover have "closing_out g o' \<Longrightarrow> closing_out (g\<lparr>st := s'\<rparr>) o'" for o'
    using fail(1) conf by (auto simp: closing_out_def same split: option.splits)
  then have "out_ok (g\<lparr>st := s'\<rparr>)"
    using i(2) next_same by (cases "out_slot (st g)") (auto simp: out_ok_def same)
  moreover have "phase_ok (g\<lparr>st := s'\<rparr>)"
    using i(3) fail(1) conf next_same
    by (simp add: phase_ok_def same split: phase.splits worker_end.splits)
  moreover have "close_ok (g\<lparr>st := s'\<rparr>)"
    using i(4) fail(1) ends(1) by (simp add: close_ok_def) blast
  moreover have "tickets_ok v (g\<lparr>st := s'\<rparr>)" using i(5) by (simp add: tickets_ok_def)
  ultimately show ?thesis using assms calm_live by (simp add: inv_def)
qed

lemma calm_refl [simp]: "calm s s"
  by (simp add: calm_def)

lemma calm_trans: "calm s t \<Longrightarrow> calm t u \<Longrightarrow> calm s u"
  by (simp add: calm_def) blast

lemma end_wf_cong:
  "source_end s' = source_end s \<Longrightarrow> accepted s' = accepted s \<Longrightarrow> written s' = written s \<Longrightarrow>
   end_wf s' = end_wf s"
  by (simp add: end_wf_def data_end_def cong: option.case_cong source_end.case_cong)

lemma calm_same:
  "queue s' = queue s \<Longrightarrow> written s' = written s \<Longrightarrow> delivered s' = delivered s \<Longrightarrow>
   out_slot s' = out_slot s \<Longrightarrow> io_done s' = io_done s \<Longrightarrow> source_end s' = source_end s \<Longrightarrow>
   accepted s' = accepted s \<Longrightarrow> (failed s \<noteq> None \<longrightarrow> failed s' \<noteq> None) \<Longrightarrow>
   (cancelled s' \<longrightarrow> cancelled s \<or> failed s' \<noteq> None) \<Longrightarrow>
   (session s \<noteq> None \<longrightarrow> session s' = session s) \<Longrightarrow> calm s s'"
  using end_wf_cong [of s' s] by (simp add: calm_def data_end_def cong: option.case_cong)

lemma calm_progress [simp]: "calm s (merge_progress w f s)" "calm s (pulse_progress s)"
  by (rule calm_same; simp add: merge_progress_def pulse_progress_def)+

lemma calm_budget [simp]: "calm s (shut_budget s)" "calm s (on_budget f s)" "calm s (s\<lparr>budget := b\<rparr>)"
  by (rule calm_same; simp add: shut_budget_def on_budget_def)+

lemma calm_pulse: "calm s t \<Longrightarrow> calm s (pulse_progress (shut_budget t))"
  using calm_trans calm_progress(2) calm_budget(1) by blast

lemma calm_cancel [simp]: "calm s (cancel reason s)"
  unfolding cancel_def
  by (auto intro!: calm_pulse calm_same)

lemma calm_source_eof [simp]: "calm s (source_eof s)"
proof (cases "source_end s = None \<and> failed s = None")
  case True
  then have "calm s (s\<lparr>source_end := Some (Eof (accepted s))\<rparr>)"
    by (simp add: calm_def data_end_def end_wf_def)
  then show ?thesis using True by (simp add: source_eof_def calm_pulse)
qed (auto simp: source_eof_def intro: calm_pulse)

lemma calm_begin_close [simp]: "calm s (begin_close s)"
proof (cases "source_end s = None \<and> failed s = None \<and> accepted s < u64_max")
  case True
  then have "calm s (s\<lparr>accepted := Suc (accepted s), source_end := Some (Closing (accepted s) (Suc (accepted s)))\<rparr>)"
    by (simp add: calm_def data_end_def end_wf_def)
  then show ?thesis using True by (simp add: begin_close_def calm_pulse checked_add_def)
qed (auto simp: begin_close_def checked_add_def)

lemma calm_closed [simp]: "calm s (closed e s)"
proof -
  have "calm t (confirm_closed e t)" for t
    by (auto simp: confirm_closed_def calm_def data_end_def end_wf_def split: option.splits source_end.splits)
  then show ?thesis
    unfolding closed_def using calm_begin_close calm_trans calm_progress(2) by blast
qed

lemma calm_accept_session [simp]: "calm s (fst (accept_session sid s))"
  by (auto simp: accept_session_def intro!: calm_same split: sum.splits)

lemma calm_drop_receiver [simp]: "calm s (drop_receiver s)"
proof -
  have "calm s (s\<lparr>receiver_alive := False\<rparr>)" by (rule calm_same) simp_all
  then show ?thesis unfolding drop_receiver_def using calm_cancel calm_trans by blast
qed

lemma calm_note_session [simp]: "calm s (fst (note_session_ok n s))"
  by (simp add: note_session_ok_def)

lemma inv_other:
  assumes "inv v g" "st g' = st g" "phase g' = phase g" "disk g' = disk g" "asks_live g' = asks_live g"
    "ended g \<longrightarrow> ended g'" "sent g' = sent g" "got g' = got g" "tickets_ok v g'"
  shows "inv v g'"
proof -
  have "hist_ok g' = hist_ok g" "phase_ok g' = phase_ok g" "out_ok g' = out_ok g" "live_ok v g' = live_ok v g"
    by (simp_all add: hist_ok_def phase_ok_def out_ok_def live_ok_def queue_is_def log_is_def
        decoded_out_def next_out_def closing_out_def assms(2-5,7,8)
        cong: phase.case_cong worker_end.case_cong option.case_cong if_cong)
  moreover have "close_ok g \<Longrightarrow> close_ok g'" using assms(6,7,8,2) by (auto simp: close_ok_def)
  ultimately show ?thesis using assms(1,3,9) by (simp add: inv_def)
qed

section \<open>Accepting an event\<close>

definition adds :: "store \<Rightarrow> store \<Rightarrow> queued \<Rightarrow> bool" where
  "adds s s' item \<longleftrightarrow>
     source_end s = None \<and> failed s = None \<and> \<not> io_done s
   \<and> accepted s' = Suc (accepted s) \<and> accepted s' \<le> u64_max \<and> queue s' = queue s @ [item]
   \<and> sequence (q_record item) = Suc (accepted s)
   \<and> source_end s' = None \<and> failed s' = None \<and> \<not> io_done s' \<and> written s' = written s
   \<and> delivered s' = delivered s \<and> out_slot s' = out_slot s \<and> cancelled s' = cancelled s
   \<and> (session s \<noteq> None \<longrightarrow> session s' = session s)"

lemma writable_open: "writable s = Inr () \<Longrightarrow> source_end s = None \<and> failed s = None \<and> \<not> io_done s"
  by (auto simp: writable_def split: option.splits if_splits)

lemma enqueue_adds:
  "enqueue item s = (s', Inr ()) \<Longrightarrow>
   adds s s' (item\<lparr>q_record := (q_record item)\<lparr>sequence := Suc (accepted s)\<rparr>\<rparr>)"
  using writable_open [of s]
  by (auto simp: enqueue_def adds_def split: sum.splits option.splits)

lemma spool_rep_seq:
  "spool_rep sp unread \<Longrightarrow> r \<in> set unread \<Longrightarrow>
   read_sequence sp < sequence r \<and> sequence r \<le> spool_accepted sp"
proof -
  assume rep: "spool_rep sp unread" and r: "r \<in> set unread"
  have "sequence r \<in> set (map sequence unread)" using r by simp
  also have "map sequence unread = [read_sequence sp + 1 ..< spool_accepted sp + 1]"
    using rep by (simp add: spool_rep_def)
  finally show ?thesis by auto
qed

lemma stored_end_le: "stored_end s \<le> data_end s"
  by (simp add: stored_end_def)

lemma queue_is_seq:
  "queue_is v g items \<Longrightarrow> item \<in> set items \<Longrightarrow>
   stored_end (st g) < sequence (q_record item) \<and> sequence (q_record item) \<le> data_end (st g)"
proof -
  assume q: "queue_is v g items" and i: "item \<in> set items"
  have "sequence (q_record item) \<in> set (map (sequence \<circ> q_record) items)" using i by simp
  also have "map (sequence \<circ> q_record) items = [Suc (stored_end (st g)) ..< Suc (data_end (st g))]"
    using q by (simp add: queue_is_def)
  finally show ?thesis by auto
qed

lemma inv_adds:
  assumes inv: "inv v g" and add: "adds (st g) s' item" and item: "item_is v (session s') item ev"
    and "\<not> is_closed ev"
  shows "inv v (g\<lparr>st := s', sent := sent g @ [ev]\<rparr>)"
proof -
  let ?g = "g\<lparr>st := s', sent := sent g @ [ev]\<rparr>"
  have i: "hist_ok g" "out_ok g" "phase_ok g" "close_ok g" "tickets_ok v g"
    using inv by (simp_all add: inv_def)
  have a: "source_end (st g) = None" "failed (st g) = None" "\<not> io_done (st g)"
    "accepted s' = Suc (accepted (st g))" "queue s' = queue (st g) @ [item]"
    "sequence (q_record item) = Suc (accepted (st g))" "source_end s' = None" "failed s' = None"
    "accepted s' \<le> u64_max" "\<not> io_done s'" "written s' = written (st g)" "delivered s' = delivered (st g)"
    "out_slot s' = out_slot (st g)" "cancelled s' = cancelled (st g)"
    "session (st g) \<noteq> None \<longrightarrow> session s' = session (st g)"
    using add by (simp_all add: adds_def)
  have len: "length (sent g) = accepted (st g)" "data_end (st g) = accepted (st g)"
      "data_end s' = Suc (accepted (st g))"
    using i(1) a by (simp_all add: hist_ok_def data_end_def)
  have w: "written (st g) \<le> accepted (st g)" "delivered (st g) \<le> accepted (st g)"
    using i(1) a(1) len(2) by (auto simp: hist_ok_def end_wf_def)
  have ends: "stored_end (st g) = written (st g)" "stored_end s' = written (st g)"
    using w(1) by (simp_all add: stored_end_def len a)
  have "hist_ok ?g"
    using i(1) assms(4) w len a by (simp add: hist_ok_def end_wf_def)
  moreover have next_same: "next_out g o' \<Longrightarrow> next_out ?g o'" for o'
    by (auto simp: next_out_def len a nth_append)
  have "phase g \<noteq> Finished" using i(1) a by (simp add: hist_ok_def)
  then have "out_ok ?g"
    using i(2) next_same by (auto simp: out_ok_def a split: option.splits)
  moreover have "phase_ok ?g"
    using i(3) a next_same
    by (auto simp: phase_ok_def ends split: phase.splits worker_end.splits)
  moreover have "close_ok ?g" using i(4) a by (auto simp: close_ok_def)
  moreover have "tickets_ok v ?g" using i(5) by (simp add: tickets_ok_def)
  moreover have "live_ok v ?g" if "running (phase g)"
  proof -
    have live: "live_ok v g" using inv that by (simp add: inv_def)
    have sess: "session (st g) \<noteq> None \<longrightarrow> session s' = session (st g)" using a(15) .
    have old: "item_is v (session (st g)) x e \<Longrightarrow> item_is v (session s') x e" for x e
      unfolding item_is_def using record_is_mono [OF _ sess] by blast
    have rec: "stored_is v (session (st g)) b r e \<Longrightarrow> stored_is v (session s') b r e" for b r e
      unfolding stored_is_def using record_is_mono [OF _ sess] by blast
    let ?items = "in_hand (phase g) @ queue (st g)"
    have q: "queue_is v g ?items" using live by (simp add: live_ok_def)
    have "queue_is v ?g (?items @ [item])"
    proof -
      have "item_is v (session s') x ((sent g @ [ev]) ! (sequence (q_record x) - 1))"
        if "x \<in> set ?items" for x
      proof -
        have "sequence (q_record x) - 1 < length (sent g)"
          using queue_is_seq [OF q that] len by auto
        then show ?thesis using q that old by (simp add: queue_is_def nth_append)
      qed
      moreover have "map (sequence \<circ> q_record) ?items = [Suc (written (st g)) ..< Suc (accepted (st g))]"
        using q by (simp add: queue_is_def ends len)
      ultimately show ?thesis
        using item w len a(6) by (auto simp: queue_is_def ends nth_append)
    qed
    moreover have "log_is v ?g" if l: "log_is v g"
    proof -
      obtain unread where u: "spool_rep (disk g) unread"
        "\<forall>r \<in> set unread. stored_is v (session (st g)) (asks_live g) r (sent g ! (sequence r - 1))"
        using l by (auto simp: log_is_def)
      have "stored_is v (session s') (asks_live g) r ((sent g @ [ev]) ! (sequence r - 1))"
        if "r \<in> set unread" for r
      proof -
        have "sequence r - 1 < length (sent g)"
          using spool_rep_seq [OF u(1) that] l w len ends by (auto simp: log_is_def)
        then show ?thesis using u(2) that rec by (simp add: nth_append)
      qed
      moreover have "decoded_out ?g = decoded_out g" by (simp add: decoded_out_def a cong: option.case_cong)
      ultimately show ?thesis
        using l u(1) a ends by (auto simp: log_is_def)
    qed
    ultimately show ?thesis
      using live a ends by (simp add: live_ok_def split: if_splits)
  qed
  ultimately show ?thesis by (simp add: inv_def)
qed

section \<open>Receiving\<close>

lemma take_Suc_sent:
  "n < length xs \<Longrightarrow> data_got evs = take n xs \<Longrightarrow> \<not> is_closed (xs ! n) \<Longrightarrow>
   data_got (evs @ [xs ! n]) = take (Suc n) xs"
  by (simp add: take_Suc_conv_app_nth)

lemma one_close_snoc: "one_close evs \<Longrightarrow> \<forall>ev \<in> set evs. \<not> is_closed ev \<Longrightarrow> one_close (evs @ [ev])"
  unfolding one_close_def by (cases ev) auto

lemma inv_delivered:
  assumes inv: "inv v g" and "\<not> ended g" and out: "out_slot (st g) = Some o'" "next_out g o'"
    and p: "phase g \<noteq> Finished"
  shows "inv v (g\<lparr>st := (st g)\<lparr>out_slot := None, delivered := Suc (delivered (st g))\<rparr>,
                got := got g @ [out_event o']\<rparr>)"
proof -
  let ?s = "(st g)\<lparr>out_slot := None, delivered := Suc (delivered (st g))\<rparr>"
  let ?g = "g\<lparr>st := ?s, got := got g @ [out_event o']\<rparr>"
  have i: "hist_ok g" "phase_ok g" "close_ok g" "tickets_ok v g" using inv by (simp_all add: inv_def)
  have ends: "data_end ?s = data_end (st g)" "stored_end ?s = stored_end (st g)"
    "end_wf ?s = end_wf (st g)"
    using end_wf_cong [of ?s "st g"]
    by (simp_all add: data_end_def stored_end_def cong: option.case_cong)
  have n: "delivered (st g) < length (sent g)" "out_event o' = sent g ! delivered (st g)"
    using out(2) i(1) by (simp_all add: next_out_def hist_ok_def)
  then have plain: "\<not> is_closed (out_event o')" using i(1) by (simp add: hist_ok_def)
  have "data_got (got g @ [out_event o']) = take (Suc (delivered (st g))) (sent g)"
    using i(1) n plain by (simp add: hist_ok_def take_Suc_conv_app_nth)
  then have "hist_ok ?g" using i(1) n by (simp add: hist_ok_def ends)
  moreover have "out_ok ?g" by (simp add: out_ok_def)
  moreover have "phase_ok ?g"
    using i(2) out(1) by (simp add: phase_ok_def split: phase.splits worker_end.splits)
  moreover have no_close: "\<forall>ev \<in> set (got g). \<not> is_closed ev" using i(3) assms(2) by (auto simp: close_ok_def)
  then have "close_ok ?g"
    using i(3) plain one_close_snoc [of "got g" "out_event o'"] by (auto simp: close_ok_def)
  moreover have "tickets_ok v ?g" using i(4) by (simp add: tickets_ok_def)
  moreover have "live_ok v ?g" if run: "running (phase g)"
  proof -
    have live: "live_ok v g" using inv run by (simp add: inv_def)
    have "length (decoded_out g) = Suc (length (decoded_out ?g))"
      by (simp add: decoded_out_def out(1))
    moreover have "phase g \<noteq> Unstarted" using live out(1) by (auto simp: live_ok_def)
    ultimately show ?thesis
      using live by (simp add: live_ok_def queue_is_def log_is_def ends)
  qed
  ultimately show ?thesis by (simp add: inv_def)
qed

lemma inv_last_event:
  assumes inv: "inv v g" and open': "\<not> ended g" and closed: "is_closed ev"
    and ok: "failed (st g) \<noteq> None \<or> source_end (st g) \<noteq> None \<and> data_got (got g) = sent g"
    and same: "queue s' = queue (st g)" "written s' = written (st g)" "accepted s' = accepted (st g)"
      "source_end s' = source_end (st g)" "failed s' = failed (st g)" "cancelled s' = cancelled (st g)"
      "io_done s' = io_done (st g)" "session s' = session (st g)"
    and out: "out_slot s' = out_slot (st g) \<and> delivered s' = delivered (st g)
        \<or> phase g = Finished \<and> out_slot s' = None
          \<and> (delivered s' = delivered (st g)
             \<or> source_end (st g) \<noteq> None \<and> delivered (st g) = data_end (st g) \<and> delivered s' = Suc (delivered (st g)))"
  shows "inv v (g\<lparr>st := s', ended := True, got := got g @ [ev]\<rparr>)"
proof -
  let ?g = "g\<lparr>st := s', ended := True, got := got g @ [ev]\<rparr>"
  have i: "hist_ok g" "out_ok g" "phase_ok g" "close_ok g" "tickets_ok v g"
    using inv by (simp_all add: inv_def)
  have ends: "data_end s' = data_end (st g)" "stored_end s' = stored_end (st g)"
    by (simp_all add: data_end_def stored_end_def same cong: option.case_cong)
  have wf: "end_wf s' = end_wf (st g)" by (rule end_wf_cong) (simp_all add: same)
  have data: "data_got (got g @ [ev]) = data_got (got g)" using closed by simp
  have "take (delivered s') (sent g) = take (delivered (st g)) (sent g)"
    using out i(1) by (auto simp: hist_ok_def)
  then have "hist_ok ?g"
    using i(1) out unfolding hist_ok_def by (auto simp: ends wf same data simp del: data_got_simps)
  moreover have "out_ok ?g"
    using i(2) out
    by (cases "phase g = Finished"; cases "out_slot (st g)")
      (auto simp: out_ok_def next_out_def closing_out_def ends same split: option.splits)
  moreover have "phase_ok ?g"
    using i(3) out
    by (auto simp: phase_ok_def next_out_def ends same split: phase.splits worker_end.splits)
  moreover have "\<forall>e \<in> set (got g). \<not> is_closed e" using i(4) open' by (auto simp: close_ok_def)
  then have "close_ok ?g"
    using i(4) ok one_close_snoc [of "got g" ev] closed
    by (simp add: close_ok_def same data_got_def)
  moreover have "tickets_ok v ?g" using i(5) by (simp add: tickets_ok_def)
  moreover have "live_ok v ?g" if run: "running (phase g)"
  proof -
    have "phase g \<noteq> Finished" using run by (auto simp: running_def)
    then have "out_slot s' = out_slot (st g)" "delivered s' = delivered (st g)" using out by auto
    then have "decoded_out ?g = decoded_out g" "delivered s' = delivered (st g)" "out_slot s' = out_slot (st g)"
      by (simp_all add: decoded_out_def)
    then show ?thesis
      using inv run
      by (simp add: inv_def live_ok_def queue_is_def log_is_def ends same cong: if_cong)
  qed
  ultimately show ?thesis by (simp add: inv_def)
qed

lemma inv_questions:
  "inv v g \<Longrightarrow> inv v (g\<lparr>questions := qs\<rparr>)"
  by (rule inv_other [of v g]) (auto simp: inv_def tickets_ok_def)

lemma give_eq:
  "give (Some ev) g = (g\<lparr>got := got g @ [ev]\<rparr>)
     \<lparr>questions := (if is_interaction ev then questions g @ [ev] else questions g)\<rparr>"
  by (simp add: give_def)

lemma inv_give: "inv v (g\<lparr>got := got g @ [ev]\<rparr>) \<Longrightarrow> inv v (give (Some ev) g)"
  unfolding give_eq by (rule inv_questions)

lemma receive_failed:
  "out_slot s = None \<Longrightarrow> failed s = Some e \<Longrightarrow> receive s = (s, True, Some (Closed (Some e)))"
  by (simp add: receive_def take_output_def)

lemma inv_receive:
  assumes inv: "inv v g"
  shows "inv v (receive_step g)"
proof (cases "ended g")
  case True
  then show ?thesis using inv by (simp add: receive_step_def)
next
  case open': False
  have i: "hist_ok g" "out_ok g" using inv by (simp_all add: inv_def)
  show ?thesis
  proof (cases "out_slot (st g)")
    case None
    show ?thesis
    proof (cases "failed (st g)")
      case (Some e)
      have "inv v (g\<lparr>st := st g, ended := True, got := got g @ [Closed (Some e)]\<rparr>)"
        by (rule inv_last_event [OF inv open']) (simp_all add: Some)
      then show ?thesis
        using open' receive_failed [OF None Some] by (simp add: receive_step_def give_def)
    next
      case nofail: None
      have "calm (st g) ((st g)\<lparr>read_requested := True\<rparr>)" by (rule calm_same) simp_all
      note asked = inv_calm [OF this inv]
      have same: "g\<lparr>st := s, ended := False\<rparr> = g\<lparr>st := s\<rparr>" "g\<lparr>st := st g\<rparr> = g" for s
        using open' by (cases g; simp)+
      have over: "inv v (g\<lparr>ended := True\<rparr>)"
        by (rule inv_other [OF inv]) (use inv in \<open>simp_all add: inv_def tickets_ok_def\<close>)
      show ?thesis
      proof (cases "io_done (st g)")
        case True
        then have "receive_step g = g\<lparr>ended := True\<rparr>"
          using open' None nofail same
          by (simp add: receive_step_def receive_def take_output_def give_def)
        then show ?thesis using over by simp
      next
        case False
        then have "receive_step g = g\<lparr>st := (st g)\<lparr>read_requested := True\<rparr>\<rparr>"
          using open' None nofail same
          by (simp add: receive_step_def receive_def take_output_def give_def)
        then show ?thesis using asked by simp
      qed
    qed
  next
    case (Some o')
    show ?thesis
    proof (cases "phase g = Finished")
      case False
      then have next': "next_out g o'" using i(2) Some by (simp add: out_ok_def)
      have bound: "Suc (delivered (st g)) \<le> u64_max"
        using i(1) next'
        by (auto simp: hist_ok_def end_wf_def data_end_def next_out_def split: option.splits source_end.splits)
      have plain: "\<not> is_closed (out_event o')"
        using i(1) next' by (simp add: hist_ok_def next_out_def)
      have "receive (st g) = ((st g)\<lparr>out_slot := None, delivered := Suc (delivered (st g))\<rparr>, False, Some (out_event o'))"
        using next' bound plain by (simp add: receive_def take_output_def Some next_out_def checked_add_def)
      moreover have same: "g\<lparr>st := s, ended := False\<rparr> = g\<lparr>st := s\<rparr>" for s using open' by (cases g) simp
      ultimately have "receive_step g = give (Some (out_event o'))
          (g\<lparr>st := (st g)\<lparr>out_slot := None, delivered := Suc (delivered (st g))\<rparr>\<rparr>)"
        using open' by (simp add: receive_step_def same)
      moreover have "inv v (give (Some (out_event o'))
          (g\<lparr>st := (st g)\<lparr>out_slot := None, delivered := Suc (delivered (st g))\<rparr>\<rparr>))"
        using inv_delivered [OF inv open' Some next' False] by (intro inv_give) simp
      ultimately show ?thesis by simp
    next
      case True
      then have last': "closing_out g o'" using i(2) Some by (simp add: out_ok_def)
      then obtain e where e: "out_event o' = Closed e" by (cases "out_event o'") (auto simp: closing_out_def)
      show ?thesis
      proof (cases "out_sequence o'")
        case None
        then have rec: "receive (st g) = ((st g)\<lparr>out_slot := None\<rparr>, True, Some (Closed e))"
          by (simp add: receive_def take_output_def Some e)
        have "inv v (g\<lparr>st := (st g)\<lparr>out_slot := None\<rparr>, ended := True, got := got g @ [Closed e]\<rparr>)"
          using last' None True by (intro inv_last_event [OF inv open']) (simp_all add: closing_out_def)
        then show ?thesis using rec open' by (simp add: receive_step_def give_def)
      next
        case (Some n)
        then have c: "n = Suc (delivered (st g))" "delivered (st g) = data_end (st g)"
          "\<exists>t e. source_end (st g) = Some (SourceClosed t n e)"
          using last' by (auto simp: closing_out_def)
        then have "n \<le> u64_max" using i(1) by (auto simp: hist_ok_def end_wf_def)
        then have rec: "receive (st g) = ((st g)\<lparr>out_slot := None, delivered := n\<rparr>, True, Some (Closed e))"
          using c(1) by (simp add: receive_def take_output_def \<open>out_slot (st g) = Some o'\<close> e Some checked_add_def)
        have "data_got (got g) = sent g" using i(1) c(2) by (simp add: hist_ok_def)
        then have "inv v (g\<lparr>st := (st g)\<lparr>out_slot := None, delivered := n\<rparr>, ended := True, got := got g @ [Closed e]\<rparr>)"
          using c True by (intro inv_last_event [OF inv open']) auto
        then show ?thesis using rec open' by (simp add: receive_step_def give_def)
      qed
    qed
  qed
qed

section \<open>The worker's moves\<close>

definition codec_ok :: "env \<Rightarrow> bool" where
  "codec_ok v \<longleftrightarrow> (\<forall>n. dec_note v (enc_note v n) = Some n) \<and> (\<forall>i. dec_id v (enc_id v i) = Some i)"

lemma inv_phase:
  assumes "inv v g" "phase g \<noteq> Finished" "p \<noteq> Finished" "phase_ok (g\<lparr>phase := p\<rparr>)"
    "running p \<Longrightarrow> live_ok v (g\<lparr>phase := p\<rparr>)"
  shows "inv v (g\<lparr>phase := p\<rparr>)"
proof -
  have "hist_ok (g\<lparr>phase := p\<rparr>) = hist_ok g" "out_ok (g\<lparr>phase := p\<rparr>) = out_ok g"
    "close_ok (g\<lparr>phase := p\<rparr>) = close_ok g" "tickets_ok v (g\<lparr>phase := p\<rparr>) = tickets_ok v g"
    using assms(1-3)
    by (simp_all add: inv_def hist_ok_def out_ok_def close_ok_def tickets_ok_def next_out_def
        cong: option.case_cong)
  then show ?thesis using assms by (simp add: inv_def)
qed

lemma inv_stop:
  assumes "inv v g" "phase g \<noteq> Finished"
  shows "inv v (stop m g)"
  unfolding stop_def using assms
  by (intro inv_phase) (auto simp: phase_ok_def running_def inv_def hist_ok_def)

lemma inv_end_failed: "inv v g \<Longrightarrow> phase g \<noteq> Finished \<Longrightarrow> inv v (g\<lparr>phase := Ending (EndFailed m)\<rparr>)"
  by (rule inv_phase) (simp_all add: phase_ok_def running_def)

lemma inv_end_cancelled:
  "inv v g \<Longrightarrow> phase g \<noteq> Finished \<Longrightarrow> failed (st g) \<noteq> None \<Longrightarrow> inv v (g\<lparr>phase := Ending EndCancelled\<rparr>)"
  by (rule inv_phase) (simp_all add: phase_ok_def running_def)

text \<open>Outside a run the invariant does not look at the disk, the questions or the hand.\<close>

lemma inv_idle:
  assumes "inv v g" "\<not> running (phase g)" "st g' = st g" "phase g' = phase g" "ended g' = ended g"
    "sent g' = sent g" "got g' = got g" "tickets g' = tickets g"
  shows "inv v g'"
proof -
  have "hist_ok g' = hist_ok g" "phase_ok g' = phase_ok g" "out_ok g' = out_ok g"
    "close_ok g' = close_ok g" "tickets_ok v g' = tickets_ok v g"
    by (simp_all add: hist_ok_def phase_ok_def out_ok_def close_ok_def tickets_ok_def next_out_def
        closing_out_def assms cong: phase.case_cong worker_end.case_cong option.case_cong if_cong)
  then show ?thesis using assms(1,2,4) by (simp add: inv_def)
qed

lemma live_cursors:
  assumes "live_ok v g" "phase g \<noteq> Unstarted"
  shows "delivered (st g) + length (decoded_out g) \<le> stored_end (st g)"
proof -
  have l: "log_is v g" using assms by (simp add: live_ok_def)
  then obtain u where "spool_rep (disk g) u" by (auto simp: log_is_def)
  then have "read_sequence (disk g) \<le> spool_accepted (disk g)" by (simp add: spool_rep_def)
  then show ?thesis using l by (simp add: log_is_def)
qed

lemma inv_start:
  assumes inv: "inv v g" and p: "phase g = Unstarted"
  shows "inv v (start_worker v w g)"
proof (cases "spool_create w")
  case (Inl e)
  then show ?thesis using inv_stop [OF inv] p by (simp add: start_worker_def)
next
  case (Inr sp)
  let ?g = "g\<lparr>disk := sp, phase := Picking, prefer_read := True\<rparr>"
  have i: "hist_ok g" "out_ok g" "close_ok g" "tickets_ok v g" "live_ok v g"
    using inv p by (simp_all add: inv_def running_def)
  have sp: "spool_rep sp []" "spool_accepted sp = 0" "read_sequence sp = 0"
    using spool_create_rep [OF Inr] Inr by (auto simp: spool_create_def split: hit.splits)
  have "live_ok v ?g"
    using i(5) p sp by (simp add: live_ok_def queue_is_def log_is_def in_hand_def decoded_out_def) fastforce
  then have "inv v ?g"
    using i p by (simp add: inv_def hist_ok_def out_ok_def phase_ok_def close_ok_def tickets_ok_def
        next_out_def cong: option.case_cong)
  then show ?thesis by (simp add: start_worker_def Inr)
qed

lemma finish_work_cases:
  assumes "finish_work s = Some work"
  obtains (terminal) t n e where "work = TerminalWritten n" "source_end s = Some (SourceClosed t n e)"
      "queue s = []" "t \<le> written s" "written s < n"
    | (finish) e where "work = FinishSource e" "source_end s = Some e" "confirmed e"
      "data_through e \<le> delivered s" "out_slot s = None"
proof -
  obtain e where e: "source_end s = Some e" "confirmed e" "queue s = []" "data_through e \<le> written s"
    using assms by (auto simp: finish_work_def split: option.splits if_splits)
  show thesis
  proof (cases "\<exists>n. event_sequence e = Some n \<and> written s < n")
    case True
    then obtain n where n: "event_sequence e = Some n" "written s < n" by blast
    then obtain t m where "e = SourceClosed t n m" using e(2) by (cases e) auto
    then show thesis using terminal [of n t m] e n assms by (simp add: finish_work_def)
  next
    case False
    then have "work = FinishSource e \<and> data_through e \<le> delivered s \<and> out_slot s = None"
      using assms e by (auto simp: finish_work_def split: option.splits if_splits)
    then show thesis using finish e by blast
  qed
qed

lemma inv_terminal:
  assumes inv: "inv v g" and e: "source_end (st g) = Some (SourceClosed t n e)"
    "t \<le> written (st g)" "written (st g) < n" and p: "phase g = Picking"
  shows "inv v (g\<lparr>st := publish_written n (st g)\<rparr>)"
proof -
  let ?s = "publish_written n (st g)"
  have n: "n = Suc t" "accepted (st g) = n" using inv e(1) by (auto simp: inv_def hist_ok_def end_wf_def)
  have same: "queue ?s = queue (st g)" "delivered ?s = delivered (st g)" "out_slot ?s = out_slot (st g)"
    "accepted ?s = accepted (st g)" "source_end ?s = source_end (st g)" "failed ?s = failed (st g)"
    "cancelled ?s = cancelled (st g)" "io_done ?s = io_done (st g)" "session ?s = session (st g)" "written ?s = n"
    by (simp_all add: publish_written_def merge_progress_def)
  have ends: "data_end ?s = data_end (st g)" "stored_end ?s = stored_end (st g)" "data_end (st g) = t"
    unfolding data_end_def stored_end_def same using e n by simp_all
  have wf: "end_wf ?s"
    using inv e n(2) unfolding end_wf_def same ends by (simp add: inv_def hist_ok_def end_wf_def)
  have i: "hist_ok g" "out_ok g" "phase_ok g" "close_ok g" "tickets_ok v g" "live_ok v g"
    using inv p by (simp_all add: inv_def running_def)
  have "hist_ok (g\<lparr>st := ?s\<rparr>)" using i(1) wf by (simp add: hist_ok_def same ends)
  moreover have "out_ok (g\<lparr>st := ?s\<rparr>)"
    using i(2) p by (simp add: out_ok_def next_out_def same ends cong: option.case_cong)
  moreover have "phase_ok (g\<lparr>st := ?s\<rparr>)" using p by (simp add: phase_ok_def)
  moreover have "close_ok (g\<lparr>st := ?s\<rparr>)" using i(4) by (simp add: close_ok_def same)
  moreover have "tickets_ok v (g\<lparr>st := ?s\<rparr>)" using i(5) by (simp add: tickets_ok_def)
  moreover have "live_ok v (g\<lparr>st := ?s\<rparr>)"
    using i(6) p by (simp add: live_ok_def queue_is_def log_is_def decoded_out_def same ends
        cong: option.case_cong)
  ultimately show ?thesis by (simp add: inv_def)
qed

lemma inv_pick:
  assumes inv: "inv v g" and p: "phase g = Picking"
  shows "inv v (pick g)"
proof -
  have i: "hist_ok g" "out_ok g" "live_ok v g" using inv p by (simp_all add: inv_def running_def)
  have g: "g\<lparr>st := st g\<rparr> = g" by (cases g) simp
  show ?thesis
  proof (cases "cancelled (st g)")
    case True
    have "g\<lparr>st := st g, phase := Ending EndCancelled\<rparr> = g\<lparr>phase := Ending EndCancelled\<rparr>" by (cases g) simp
    then show ?thesis
      using inv_end_cancelled [OF inv] p i(1) True by (simp add: pick_def next_work_def hist_ok_def)
  next
    case not_cancelled: False
    show ?thesis
    proof (cases "finish_work (st g)")
      case (Some work)
      then show ?thesis
      proof (cases rule: finish_work_cases)
        case (terminal t n e)
        then show ?thesis
          using inv_terminal [OF inv] p Some not_cancelled by (simp add: pick_def next_work_def)
      next
        case (finish e)
        have "delivered (st g) \<le> data_end (st g)"
          using live_cursors [OF i(3)] p stored_end_le [of "st g"] by simp
        then have "inv v (g\<lparr>phase := Ending (EndSource e)\<rparr>)"
          using finish p inv
          by (intro inv_phase) (simp_all add: phase_ok_def running_def data_end_def)
        moreover have "pick g = g\<lparr>phase := Ending (EndSource e)\<rparr>"
          using finish Some not_cancelled by (cases g) (simp add: pick_def next_work_def)
        ultimately show ?thesis by simp
      qed
    next
      case None
      show ?thesis
      proof (cases "readable (st g) \<and> (prefer_read g \<or> queue (st g) = [])")
        case True
        let ?s = "(st g)\<lparr>read_requested := False\<rparr>"
        have "calm (st g) ?s" by (rule calm_same) simp_all
        from inv_calm [OF this inv] have inv': "inv v (g\<lparr>st := ?s\<rparr>)" .
        have r: "out_slot (st g) = None" "delivered (st g) < stored_end (st g)"
          using True by (auto simp: readable_def stored_end_def data_end_def split: option.splits)
            (use i(1) in \<open>auto simp: hist_ok_def end_wf_def data_end_def\<close>)
        have ends: "stored_end ?s = stored_end (st g)" "data_end ?s = data_end (st g)"
          by (simp_all add: stored_end_def data_end_def cong: option.case_cong)
        have "inv v (g\<lparr>st := ?s, phase := Reading\<rparr>)"
        proof -
          have "live_ok v (g\<lparr>st := ?s\<rparr>)" using inv' p by (simp add: inv_def running_def)
          then have "live_ok v ((g\<lparr>st := ?s\<rparr>)\<lparr>phase := Reading\<rparr>)"
            using p by (simp add: live_ok_def queue_is_def log_is_def in_hand_def decoded_out_def)
          moreover have "phase_ok ((g\<lparr>st := ?s\<rparr>)\<lparr>phase := Reading\<rparr>)"
            using r by (simp add: phase_ok_def ends)
          ultimately have "inv v ((g\<lparr>st := ?s\<rparr>)\<lparr>phase := Reading\<rparr>)"
            using inv' p by (intro inv_phase) simp_all
          then show ?thesis by simp
        qed
        then show ?thesis using True None not_cancelled by (simp add: pick_def next_work_def)
      next
        case False
        show ?thesis
        proof (cases "queue (st g)")
          case Nil
          then show ?thesis
            using False None not_cancelled inv by (simp add: pick_def next_work_def g)
        next
          case (Cons item rest)
          let ?g = "g\<lparr>st := (st g)\<lparr>queue := rest\<rparr>, phase := Writing item\<rparr>"
          have ends: "stored_end ((st g)\<lparr>queue := rest\<rparr>) = stored_end (st g)"
            "data_end ((st g)\<lparr>queue := rest\<rparr>) = data_end (st g)"
            "end_wf ((st g)\<lparr>queue := rest\<rparr>) = end_wf (st g)"
            using end_wf_cong [of "(st g)\<lparr>queue := rest\<rparr>" "st g"]
            by (simp_all add: stored_end_def data_end_def cong: option.case_cong)
          have "live_ok v ?g"
            using i(3) p Cons
            by (simp add: live_ok_def queue_is_def log_is_def in_hand_def decoded_out_def ends
                cong: option.case_cong)
          moreover have "hist_ok ?g" "out_ok ?g" "close_ok ?g" "tickets_ok v ?g" "phase_ok ?g"
            using i(1,2) p inv
            by (simp_all add: inv_def hist_ok_def out_ok_def phase_ok_def close_ok_def
                tickets_ok_def next_out_def ends cong: option.case_cong)
          ultimately have "inv v ?g" by (simp add: inv_def)
          moreover have "pick g = ?g"
            using Cons False None not_cancelled by (auto simp: pick_def next_work_def)
          ultimately show ?thesis by simp
        qed
      qed
    qed
  qed
qed

section \<open>Writing and reading back\<close>

lemma write_chunks_cursor: "read_sequence (fst (write_chunks w i k cs sp)) = read_sequence sp"
  by (induction w i k cs sp rule: write_chunks.induct) (auto simp: extend_file_def split: hit.splits)

lemma append_cursors:
  assumes "append_record w r sp = (sp', None)"
  shows "spool_accepted sp' = sequence r \<and> read_sequence sp' = read_sequence sp"
proof -
  have rot: "read_sequence (fst (rotate w n sp)) = read_sequence sp" for n
    by (auto simp: rotate_def Let_def split: option.splits)
  have wr: "read_sequence (fst (write_record w r t)) = read_sequence t" for t
    by (auto simp: write_record_def extend_file_def write_chunks_cursor split: option.splits hit.splits)
  have "append_inner w r sp = (sp', None)"
    using assms by (auto simp: append_record_def split: if_splits prod.splits option.splits)
  then obtain n m t u where "rotate w m sp = (t, None)" "write_record w r t = (u, None)"
      "sp' = u\<lparr>tail_committed := tail_committed u + n, spool_accepted := sequence r\<rparr>"
    by (auto simp: append_inner_def split: if_splits option.splits prod.splits)
  then show ?thesis using rot [of m] wr [of t] by simp
qed

lemma read_loop_cursors:
  "read_loop w i sp = (sp', answer) \<Longrightarrow>
   spool_accepted sp' = spool_accepted sp \<and> (\<forall>r. answer = Inr (Some r) \<longrightarrow> read_sequence sp' = sequence r)"
proof (induction w i sp rule: read_loop.induct)
  case (1 w i sp)
  let ?k = "case reader sp of Some k \<Rightarrow> k | None \<Rightarrow> head_seg sp"
  show ?case
  proof (cases "w (2 * i) = Proceed \<and> files sp ?k \<noteq> None")
    case False
    with "1.prems" show ?thesis
      by (subst (asm) read_loop.simps) (auto split: if_splits option.splits)
  next
    case True
    then obtain f where f: "w (2 * i) = Proceed" "files sp ?k = Some f" by auto
    define end_at where "end_at = (if head_seg sp = tail_seg sp then tail_committed sp else length f)"
    let ?next = "sp\<lparr>reader := None, files := (files sp)(head_seg sp := None),
                    head_seg := head_seg sp + 1, read_offset := 0\<rparr>"
    have loop: "read_loop w i sp =
        (if read_offset sp = end_at \<and> head_seg sp < tail_seg sp then
           (if w (2 * i + 1) \<noteq> Proceed then (sp\<lparr>reader := None\<rparr>, Inl OsError) else read_loop w (Suc i) ?next)
         else case parse_at f end_at (read_offset sp) (read_sequence sp) of
             Inl e \<Rightarrow> (sp\<lparr>reader := Some ?k\<rparr>, Inl e)
           | Inr r \<Rightarrow> (sp\<lparr>reader := Some ?k, read_offset := read_offset sp + HEADER_BYTES + length (payload r),
                          read_sequence := sequence r\<rparr>, Inr (Some r)))"
      using f by (subst read_loop.simps) (simp add: Let_def end_at_def [symmetric] del: fun_upd_apply)
    show ?thesis
    proof (cases "read_offset sp = end_at \<and> head_seg sp < tail_seg sp")
      case adv: True
      then show ?thesis
      proof (cases "w (2 * i + 1) = Proceed")
        case True
        then have "read_loop w (Suc i) ?next = (sp', answer)" using "1.prems" loop adv by simp
        from "1.IH" [OF _ _ f(2) refl end_at_def adv _ this] f(1) True show ?thesis by simp
      qed (use "1.prems" loop in auto)
    next
      case False
      then show ?thesis using "1.prems" loop by (auto split: sum.splits)
    qed
  qed
qed

lemma next_cursors:
  "spool_next w sp = (sp', Inr (Some r)) \<Longrightarrow>
   spool_accepted sp' = spool_accepted sp \<and> read_sequence sp' = sequence r"
  using read_loop_cursors [of w 0 sp sp'] by (auto simp: spool_next_def split: if_splits)

lemma calm_publish:
  "publish_written n s = merge_progress n (failed s) (s\<lparr>written := n\<rparr>)"
  by (simp add: publish_written_def)

text \<open>What the state is after one record has reached the disk.\<close>

lemma inv_written:
  assumes inv: "inv v g" and p: "phase g = Writing item"
    and rec: "append_record w (q_record item) (disk g) = (sp, None)"
    and asks: "asks = (case q_interaction item of None \<Rightarrow> asks_live g
                      | Some ev \<Rightarrow> bt_insert (sequence (q_record item)) ev (asks_live g))"
  shows "bt_get (asks_live g) (sequence (q_record item)) = None
    \<and> inv v (g\<lparr>st := publish_written (sequence (q_record item)) (st g), disk := sp,
                asks_live := asks, phase := Picking, prefer_read := True\<rparr>)"
proof -
  define n where "n = sequence (q_record item)"
  let ?s = "publish_written n (st g)"
  let ?g = "g\<lparr>st := ?s, disk := sp, asks_live := asks, phase := Picking, prefer_read := True\<rparr>"
  have i: "hist_ok g" "out_ok g" "close_ok g" "tickets_ok v g" "live_ok v g"
    using inv p by (simp_all add: inv_def running_def)
  have q: "queue_is v g (item # queue (st g))" and a: "asks_ok (stored_end (st g)) (asks_live g)"
      and l: "log_is v g"
    using i(5) p by (simp_all add: live_ok_def in_hand_def)
  have seqs: "map (sequence \<circ> q_record) (item # queue (st g)) = [Suc (stored_end (st g)) ..< Suc (data_end (st g))]"
    using q by (simp add: queue_is_def del: upt_Suc)
  then have more: "stored_end (st g) < data_end (st g)"
    by (cases "stored_end (st g) < data_end (st g)") auto
  then have n: "n = Suc (stored_end (st g))"
    and rest: "map (sequence \<circ> q_record) (queue (st g)) = [Suc n ..< Suc (data_end (st g))]"
    using seqs by (simp_all add: n_def upt_conv_Cons del: upt_Suc)
  have same: "queue ?s = queue (st g)" "delivered ?s = delivered (st g)" "out_slot ?s = out_slot (st g)"
    "accepted ?s = accepted (st g)" "source_end ?s = source_end (st g)" "failed ?s = failed (st g)"
    "cancelled ?s = cancelled (st g)" "io_done ?s = io_done (st g)" "session ?s = session (st g)" "written ?s = n"
    by (simp_all add: publish_written_def merge_progress_def)
  have ends: "data_end ?s = data_end (st g)" "stored_end ?s = n"
    unfolding data_end_def stored_end_def same using more n by (simp_all add: data_end_def)
  have wf: "end_wf ?s"
    using i(1) more n unfolding end_wf_def same ends by (simp add: hist_ok_def end_wf_def)
  have fresh: "bt_get (asks_live g) n = None"
    using a n by (force simp: asks_ok_def bt_get_None_keys)
  obtain unread where u: "spool_rep (disk g) unread"
    "\<forall>r \<in> set unread. stored_is v (session (st g)) (asks_live g) r (sent g ! (sequence r - 1))"
    using l by (auto simp: log_is_def)
  have item_here: "item_is v (session (st g)) item (sent g ! (n - 1))"
    using q by (simp add: queue_is_def n_def)
  have asks_get: "bt_get asks k = (if k = n \<and> q_interaction item \<noteq> None then q_interaction item
      else bt_get (asks_live g) k)" for k
    by (simp add: asks n_def split: option.splits)
  have "spool_rep sp (unread @ [q_record item])" by (rule append_rep [OF u(1) rec])
  moreover have "\<forall>r \<in> set (unread @ [q_record item]).
      stored_is v (session (st g)) asks r (sent g ! (sequence r - 1))"
  proof -
    have "stored_is v (session (st g)) asks (q_record item) (sent g ! (n - 1))"
      using item_here by (auto simp: stored_is_def item_is_def asks_get simp flip: n_def)
    moreover have "stored_is v (session (st g)) asks r (sent g ! (sequence r - 1))" if "r \<in> set unread" for r
    proof -
      have "sequence r \<noteq> n" using spool_rep_seq [OF u(1) that] l n by (simp add: log_is_def)
      then show ?thesis using u(2) that by (auto simp: stored_is_def asks_get)
    qed
    ultimately show ?thesis by (simp add: n_def)
  qed
  moreover have "decoded_out ?g = decoded_out g" by (simp add: decoded_out_def same p cong: option.case_cong)
  ultimately have "log_is v ?g"
    using append_cursors [OF rec] l unfolding log_is_def
    by (intro conjI exI [of _ "unread @ [q_record item]"]) (simp_all add: ends same flip: n_def)
  moreover have "queue_is v ?g (queue (st g))"
    using q rest by (simp add: queue_is_def ends same)
  moreover have "asks_ok n asks"
  proof -
    have up: "\<forall>k \<in> fst ` set (asks_live g). k \<le> n" "bt_ok (asks_live g)"
      using a n by (auto simp: asks_ok_def)
    show ?thesis
      unfolding asks n_def [symmetric]
      using up by (cases "q_interaction item") (simp_all add: asks_ok_def bt_insert_keys)
  qed
  ultimately have "live_ok v ?g" by (simp add: live_ok_def in_hand_def same ends)
  moreover have "hist_ok ?g" "out_ok ?g" "close_ok ?g" "tickets_ok v ?g" "phase_ok ?g"
    using i(1-4) p wf
    by (simp_all add: hist_ok_def out_ok_def phase_ok_def close_ok_def tickets_ok_def next_out_def
        same ends cong: option.case_cong)
  ultimately show ?thesis using fresh by (simp add: inv_def flip: n_def)
qed

definition on_store :: "(store \<Rightarrow> store) \<Rightarrow> sys \<Rightarrow> sys" where
  "on_store f g = g\<lparr>st := f (st g)\<rparr>"

lemma inv_budget: "inv v g \<Longrightarrow> inv v (g\<lparr>st := on_budget f (st g)\<rparr>)"
  by (rule inv_calm) simp_all

lemma inv_write:
  assumes inv: "inv v g" and p: "phase g = Writing item"
  shows "inv v (write_step v w item g)"
proof (cases "append_record w (q_record item) (disk g)")
  case (Pair sp outcome)
  show ?thesis
  proof (cases outcome)
    case (Some e)
    define g1 where "g1 = g\<lparr>st := on_budget (drop_item item) (st g)\<rparr>"
    have "inv v (stop (io_text v e) g1)"
      using inv_stop [OF inv_budget [OF inv]] p by (simp add: g1_def)
    then have "inv v ((stop (io_text v e) g1)\<lparr>disk := sp\<rparr>)"
      by (rule inv_idle) (simp_all add: stop_def running_def)
    moreover have "write_step v w item g = (stop (io_text v e) g1)\<lparr>disk := sp\<rparr>"
      by (simp add: write_step_def Pair Some g1_def stop_def)
    ultimately show ?thesis by simp
  next
    case None
    note ok = inv_written [OF inv p Pair [unfolded None] refl]
    let ?asks = "case q_interaction item of None \<Rightarrow> asks_live g
                 | Some ev \<Rightarrow> bt_insert (sequence (q_record item)) ev (asks_live g)"
    let ?g = "g\<lparr>st := publish_written (sequence (q_record item)) (st g), disk := sp,
                asks_live := ?asks, phase := Picking, prefer_read := True\<rparr>"
    show ?thesis
    proof (cases "q_interaction item")
      case none: None
      have "write_step v w item g = on_store (on_budget (return_credit item)) ?g"
        by (rule sys.equality) (simp_all add: write_step_def Pair None none on_store_def)
      then show ?thesis using inv_budget [OF ok [THEN conjunct2]] by (simp add: on_store_def none)
    next
      case (Some ev)
      have "write_step v w item g = on_store (on_budget (return_credit item)) ?g"
        using ok by (intro sys.equality) (simp_all add: write_step_def Pair None Some on_store_def Let_def)
      then show ?thesis using inv_budget [OF ok [THEN conjunct2]] by (simp add: on_store_def Some)
    qed
  qed
qed

text \<open>What a record read back from the disk decodes to.\<close>

lemma read_event_ok:
  assumes "codec_ok v" and "stored_is v (session s) asks r ev"
    and "read_event v s asks r = (asks', Inr out)"
  shows "out = \<lparr>out_sequence = Some (sequence r), out_event = ev\<rparr>
    \<and> (asks' = asks \<or> asks' = bt_remove (sequence r) asks)"
  using assms
  by (auto simp: codec_ok_def stored_is_def record_is_def read_event_def Let_def
      split: record_kind.splits option.splits if_splits)

lemma inv_read_ok:
  assumes codec: "codec_ok v" and inv: "inv v g" and p: "phase g = Reading"
    and nxt: "spool_next w (disk g) = (sp, Inr (Some r))"
    and ev: "read_event v (st g) (asks_live g) r = (asks, Inr out)"
  shows "inv v (g\<lparr>disk := sp, asks_live := asks, phase := Putting out\<rparr>)"
proof -
  let ?g = "g\<lparr>disk := sp, asks_live := asks, phase := Putting out\<rparr>"
  have i: "hist_ok g" "out_ok g" "close_ok g" "tickets_ok v g" "live_ok v g" "phase_ok g"
    using inv p by (simp_all add: inv_def running_def)
  have r: "out_slot (st g) = None" using i(6) p by (simp add: phase_ok_def)
  have l: "log_is v g" and q: "queue_is v g (queue (st g))"
      and a: "asks_ok (stored_end (st g)) (asks_live g)"
    using i(5) p by (simp_all add: live_ok_def in_hand_def)
  obtain unread where u: "spool_rep (disk g) unread"
    "\<forall>r \<in> set unread. stored_is v (session (st g)) (asks_live g) r (sent g ! (sequence r - 1))"
    using l by (auto simp: log_is_def)
  obtain rest where rest: "unread = r # rest" "spool_rep sp rest"
    using next_rep [OF u(1) nxt] by auto
  have cur: "read_sequence (disk g) = delivered (st g)" "spool_accepted (disk g) = stored_end (st g)"
    using l r p by (simp_all add: log_is_def decoded_out_def)
  have "map sequence unread = [Suc (delivered (st g)) ..< Suc (stored_end (st g))]"
    using u(1) cur by (simp add: spool_rep_def)
  then have seq: "sequence r = Suc (delivered (st g))" and lt: "delivered (st g) < stored_end (st g)"
    using rest(1) by (cases "delivered (st g) < stored_end (st g)"; simp add: upt_conv_Cons del: upt_Suc)+
  have out: "out = \<lparr>out_sequence = Some (sequence r), out_event = sent g ! delivered (st g)\<rparr>"
      and asks: "asks = asks_live g \<or> asks = bt_remove (sequence r) (asks_live g)"
    using read_event_ok [OF codec _ ev, of "sent g ! (sequence r - 1)"] u(2) rest(1) seq by auto
  have "stored_is v (session (st g)) asks x (sent g ! (sequence x - 1))" if "x \<in> set rest" for x
  proof -
    have "sequence x \<noteq> sequence r"
      using spool_rep_seq [OF rest(2) that] next_cursors [OF nxt] by auto
    then show ?thesis using u(2) that rest(1) asks by (auto simp: stored_is_def)
  qed
  moreover have "length (decoded_out ?g) = 1" by (simp add: decoded_out_def r)
  ultimately have "log_is v ?g"
    using next_cursors [OF nxt] rest(2) cur seq unfolding log_is_def
    by (intro conjI exI [of _ rest]) simp_all
  moreover have "queue_is v ?g (queue (st g))" using q by (simp add: queue_is_def)
  moreover have "asks_ok (stored_end (st g)) asks"
  proof -
    have "bt_ok asks" using a asks by (auto simp: asks_ok_def)
    then show ?thesis using a asks by (auto simp: asks_ok_def bt_remove_def)
  qed
  ultimately have "live_ok v ?g" by (simp add: live_ok_def in_hand_def)
  moreover have "phase_ok ?g"
    using r lt stored_end_le [of "st g"] by (simp add: phase_ok_def next_out_def out seq)
  moreover have "hist_ok ?g" "out_ok ?g" "close_ok ?g" "tickets_ok v ?g"
    using i(1-4) p by (simp_all add: hist_ok_def out_ok_def close_ok_def tickets_ok_def r)
  ultimately show ?thesis by (simp add: inv_def)
qed

lemma inv_stop_upd:
  assumes "inv v g" "phase g \<noteq> Finished"
  shows "inv v (stop m (g\<lparr>disk := sp, asks_live := asks\<rparr>))" "inv v (stop m (g\<lparr>disk := sp\<rparr>))"
    "inv v (g\<lparr>disk := sp, phase := Ending (EndFailed m)\<rparr>)"
proof -
  show "inv v (stop m (g\<lparr>disk := sp, asks_live := asks\<rparr>))" "inv v (stop m (g\<lparr>disk := sp\<rparr>))"
    by (rule inv_idle [OF inv_stop [OF assms, of m]]; simp add: stop_def running_def)+
  show "inv v (g\<lparr>disk := sp, phase := Ending (EndFailed m)\<rparr>)"
    by (rule inv_idle [OF inv_end_failed [OF assms, of m]]) (simp_all add: running_def)
qed

lemma inv_read:
  assumes codec: "codec_ok v" and inv: "inv v g" and p: "phase g = Reading"
  shows "inv v (read_step v w g)"
proof -
  have p': "phase g \<noteq> Finished" using p by simp
  obtain sp answer where nxt: "spool_next w (disk g) = (sp, answer)" by fastforce
  show ?thesis
  proof (cases "\<exists>r. answer = Inr (Some r)")
    case False
    then show ?thesis
      using inv_stop_upd [OF inv p'] nxt
      by (auto simp: read_step_def split: sum.splits option.splits)
  next
    case True
    then obtain r where r: "answer = Inr (Some r)" by blast
    obtain asks result where ev: "read_event v (st g) (asks_live g) r = (asks, result)" by fastforce
    show ?thesis
    proof (cases result)
      case (Inl m)
      then show ?thesis
        using inv_stop_upd [OF inv p'] nxt r ev by (simp add: read_step_def)
    next
      case (Inr out)
      then show ?thesis
        using inv_read_ok [OF codec inv p nxt [unfolded r] ev [unfolded Inr]] nxt r ev
        by (simp add: read_step_def)
    qed
  qed
qed

lemma inv_put:
  assumes inv: "inv v g" and p: "phase g = Putting out"
  shows "inv v (put_step out g)"
proof -
  have i: "hist_ok g" "close_ok g" "tickets_ok v g" "live_ok v g" "phase_ok g"
    using inv p by (simp_all add: inv_def running_def)
  have o': "out_slot (st g) = None" "next_out g out" using i(5) p by (simp_all add: phase_ok_def)
  show ?thesis
  proof (cases "cancelled (st g)")
    case True
    let ?g = "g\<lparr>st := on_budget (return_question (Some (out_event out))) (st g)\<rparr>"
    have "inv v (?g\<lparr>phase := Ending EndCancelled\<rparr>)"
      by (rule inv_end_cancelled [OF inv_budget [OF inv]])
        (use p i(1) True in \<open>simp_all add: on_budget_def hist_ok_def\<close>)
    then show ?thesis using True by (simp add: put_step_def Let_def)
  next
    case False
    let ?s = "(st g)\<lparr>out_slot := Some out\<rparr>"
    let ?g = "g\<lparr>st := ?s, phase := Picking, prefer_read := False\<rparr>"
    have ends: "data_end ?s = data_end (st g)" "stored_end ?s = stored_end (st g)" "end_wf ?s = end_wf (st g)"
      using end_wf_cong [of ?s "st g"]
      by (simp_all add: data_end_def stored_end_def cong: option.case_cong)
    have "decoded_out ?g = decoded_out g" by (simp add: decoded_out_def p o'(1))
    then have "live_ok v ?g"
      using i(4) p by (simp add: live_ok_def queue_is_def log_is_def in_hand_def ends)
    moreover have "hist_ok ?g" "close_ok ?g" "tickets_ok v ?g" "phase_ok ?g" "out_ok ?g"
      using i(1-3) o'(2) p
      by (simp_all add: hist_ok_def close_ok_def tickets_ok_def phase_ok_def out_ok_def next_out_def ends)
    ultimately have "inv v ?g" by (simp add: inv_def)
    then show ?thesis using False o'(1) by (simp add: put_step_def Let_def)
  qed
qed

section \<open>The end of the worker\<close>

lemma inv_finish:
  assumes inv: "inv v g" and p: "phase g = Ending e"
  shows "inv v (finish_step c e g)"
proof -
  define s' where "s' = complete_io c (asks_live g) e (st g)"
  let ?g = "g\<lparr>st := s', asks_live := [], phase := Finished\<rparr>"
  have g: "finish_step c e g = ?g" by (simp add: finish_step_def s'_def)
  have i: "hist_ok g" "close_ok g" "tickets_ok v g" "phase_ok g" using inv by (simp_all add: inv_def)
  have not_done: "\<not> io_done (st g)" using i(1) p by (simp add: hist_ok_def)
  have same: "written s' = written (st g)" "delivered s' = delivered (st g)"
    "accepted s' = accepted (st g)" "source_end s' = source_end (st g)"
    by (auto simp: s'_def complete_io_def Let_def merge_progress_def shut_budget_def release_all_def cancel_def
        pulse_progress_def split: worker_end.splits option.splits sum.splits)
  have fin: "io_done s'" by (simp add: s'_def complete_io_def Let_def merge_progress_def shut_budget_def)
  have fail: "failed (st g) \<noteq> None \<longrightarrow> failed s' \<noteq> None" "cancelled s' \<longrightarrow> cancelled (st g) \<or> failed s' \<noteq> None"
    by (auto simp: s'_def complete_io_def Let_def merge_progress_def shut_budget_def release_all_def cancel_def
        pulse_progress_def split: worker_end.splits option.splits sum.splits)
  have out: "closing_out ?g o'" if "out_slot s' = Some o'" for o'
  proof -
    have wf: "end_wf (st g)" using i(1) by (simp add: hist_ok_def)
    have "out_sequence o' = None \<and> is_closed (out_event o') \<and> failed s' \<noteq> None
        \<or> (\<exists>t n m. e = EndSource (SourceClosed t n m) \<and> o' = \<lparr>out_sequence = Some n, out_event = Closed m\<rparr>)"
    proof (cases e)
      case (EndSource x)
      then have "out_slot (st g) = None" using i(4) p by (simp add: phase_ok_def)
      then show ?thesis
        using that EndSource
        by (cases x) (auto simp: s'_def complete_io_def Let_def merge_progress_def shut_budget_def release_all_def
            end_failed_def split: option.splits if_splits)
    next
      case EndCancelled
      then have "failed (st g) \<noteq> None" using i(4) p by (simp add: phase_ok_def)
      then show ?thesis
        using that EndCancelled
        by (auto simp: s'_def complete_io_def Let_def merge_progress_def shut_budget_def release_all_def
            end_failed_def split: option.splits if_splits)
    next
      case (EndFailed m)
      then show ?thesis
        using that not_done
        by (auto simp: s'_def complete_io_def Let_def merge_progress_def shut_budget_def release_all_def
            end_failed_def cancel_def pulse_progress_def split: option.splits if_splits)
    qed
    then show ?thesis
      using i(4) p wf
      by (auto simp: closing_out_def same data_end_def phase_ok_def end_wf_def)
  qed
  have ends: "data_end s' = data_end (st g)" by (simp add: data_end_def same cong: option.case_cong)
  have wf: "end_wf s' = end_wf (st g)" by (rule end_wf_cong) (simp_all add: same)
  have "hist_ok ?g" using i(1) fin fail by (auto simp: hist_ok_def ends wf same)
  moreover have "out_ok ?g"
    using out by (auto simp: out_ok_def split: option.splits)
  moreover have "close_ok ?g" using i(2) fail by (auto simp: close_ok_def same)
  moreover have "tickets_ok v ?g" using i(3) by (simp add: tickets_ok_def)
  moreover have "phase_ok ?g" by (simp add: phase_ok_def)
  ultimately show ?thesis by (simp add: inv_def running_def g)
qed

lemma inv_lost:
  assumes inv: "inv v g"
  shows "inv v (worker_lost g)"
proof (cases "running (phase g)")
  case False
  then show ?thesis using inv by (cases "phase g") (simp_all add: worker_lost_def running_def)
next
  case True
  then have p: "phase g \<noteq> Finished" by (auto simp: running_def)
  have alive: "\<not> io_done (st g)" using inv p by (simp add: inv_def hist_ok_def)
  define e where "e = (if phase g = Unstarted then EndCancelled
    else EndFailed ''ACP event I/O worker ended without confirmation'')"
  define reason where "reason = (if phase g = Unstarted
    then ''ACP event I/O worker was cancelled before starting''
    else ''ACP event I/O worker ended without confirmation'')"
  have hand: "hand_dropped g = on_budget (case phase g of Writing item \<Rightarrow> drop_item item
      | Putting out \<Rightarrow> return_question (Some (out_event out)) | _ \<Rightarrow> (\<lambda>b. b)) (st g)"
    by (auto simp: hand_dropped_def on_budget_def split: phase.splits)
  have "calm (st g) (cancel reason (hand_dropped g))"
    unfolding hand using calm_trans [OF calm_budget(2) calm_cancel] by blast
  note cancelled = inv_calm [OF this inv]
  have "failed (cancel reason (hand_dropped g)) \<noteq> None"
    using alive by (simp add: hand cancel_def on_budget_def pulse_progress_def shut_budget_def merge_progress_def)
  then have "inv v ((g\<lparr>st := cancel reason (hand_dropped g)\<rparr>)\<lparr>phase := Ending e\<rparr>)"
    using p by (intro inv_phase [OF cancelled]) (simp_all add: phase_ok_def e_def running_def)
  from inv_finish [OF this, of e None]
  have "inv v (finish_step None e (g\<lparr>st := cancel reason (hand_dropped g), phase := Ending e\<rparr>))" by simp
  moreover have "worker_lost g = finish_step None e (g\<lparr>st := cancel reason (hand_dropped g), phase := Ending e\<rparr>)"
    using True
    by (cases "phase g")
      (simp_all add: worker_lost_def finish_step_def e_def reason_def hand_dropped_def running_def Let_def)
  ultimately show ?thesis by simp
qed

section \<open>Every move keeps the invariant\<close>

lemma tickets_ok_drop: "tickets_ok v g \<Longrightarrow> tickets_ok v (g\<lparr>tickets := drop_nth i (tickets g)\<rparr>)"
  by (auto simp: tickets_ok_def drop_nth_def dest: in_set_takeD in_set_dropD)

lemma inv_tickets:
  assumes "inv v g" "tickets_ok v (g\<lparr>tickets := ts\<rparr>)"
  shows "inv v (g\<lparr>tickets := ts\<rparr>)"
  by (rule inv_other [OF assms(1)]) (simp_all add: assms(2))

lemma inv_drop_ticket: "inv v g \<Longrightarrow> inv v (g\<lparr>tickets := drop_nth i (tickets g)\<rparr>)"
  by (rule inv_tickets) (auto simp: inv_def intro: tickets_ok_drop)

lemma inv_new_ticket:
  assumes "inv v g"
    and "(k = NoteKind \<and> (\<exists>n. ev = Note n \<and> bs = enc_note v n))
      \<or> (k = ElicitDoneKind \<and> (\<exists>i. ev = ElicitDone i \<and> bs = enc_id v i))"
  shows "inv v (start_ticket k bs ev g)"
proof (cases "encoded_size bs")
  case (Inr n)
  have "tickets_ok v g" using assms(1) by (simp add: inv_def)
  then show ?thesis
    using assms Inr by (auto simp: start_ticket_def tickets_ok_def ticket_ok_def intro!: inv_tickets)
qed (use assms in \<open>simp add: start_ticket_def\<close>)

lemma inv_send_note: "inv v g \<Longrightarrow> inv v (send_note v n g)"
proof -
  assume inv: "inv v g"
  obtain s r where sr: "note_session_ok n (st g) = (s, r)" by fastforce
  then have "calm (st g) s" using calm_note_session [of "st g" n] by simp
  from inv_calm [OF this inv] have inv': "inv v (g\<lparr>st := s\<rparr>)" .
  show ?thesis
    using inv' inv_new_ticket [OF inv', of NoteKind "Note n" "enc_note v n"]
    by (auto simp: send_note_def sr split: sum.splits)
qed

lemma inv_admit: "inv v g \<Longrightarrow> inv v (admit i g)"
proof (cases "i < length (tickets g) \<and> \<not> t_granted (tickets g ! i)")
  case True
  assume inv: "inv v g"
  show ?thesis
  proof (cases "encoded (t_bytes (tickets g ! i)) (budget (st g))")
    case (Admitted b)
    have "inv v (g\<lparr>st := (st g)\<lparr>budget := b\<rparr>\<rparr>)" by (rule inv_calm [OF _ inv]) simp
    moreover have "tickets_ok v g" using inv by (simp add: inv_def)
    then have "tickets_ok v (g\<lparr>tickets := (tickets g)[i := (tickets g ! i)\<lparr>t_granted := True\<rparr>]\<rparr>)"
      using True nth_mem [of i "tickets g"] unfolding tickets_ok_def
      by (auto simp: ticket_ok_def [of v "t\<lparr>t_granted := b\<rparr>" for t b, simplified, folded ticket_ok_def]
          dest!: set_update_subset_insert [THEN subsetD])
    ultimately have "inv v ((g\<lparr>st := (st g)\<lparr>budget := b\<rparr>\<rparr>)
        \<lparr>tickets := (tickets g)[i := (tickets g ! i)\<lparr>t_granted := True\<rparr>]\<rparr>)"
      by (intro inv_tickets) (simp_all add: tickets_ok_def)
    then show ?thesis using True Admitted by (simp add: admit_def)
  qed (use True inv inv_drop_ticket in \<open>simp_all add: admit_def\<close>)
qed (auto simp: admit_def)

lemma enqueue_Inl: "enqueue item s = (s', Inl e) \<Longrightarrow> s' = s"
  by (auto simp: enqueue_def split: sum.splits option.splits)

lemma inv_publish: "inv v g \<Longrightarrow> inv v (publish i g)"
proof (cases "i < length (tickets g) \<and> t_granted (tickets g ! i)")
  case True
  assume inv: "inv v g"
  define t where "t = tickets g ! i"
  let ?g = "g\<lparr>tickets := drop_nth i (tickets g)\<rparr>"
  have inv': "inv v ?g" by (rule inv_drop_ticket [OF inv])
  have t: "(t_kind t = NoteKind \<and> (\<exists>n. t_event t = Note n \<and> t_payload t = enc_note v n))
      \<or> (t_kind t = ElicitDoneKind \<and> (\<exists>i. t_event t = ElicitDone i \<and> t_payload t = enc_id v i))"
    using inv True by (auto simp: inv_def tickets_ok_def ticket_ok_def t_def)
  obtain s r where sr: "enqueue_encoded (t_kind t) (t_payload t) (t_bytes t) (st g) = (s, r)" by fastforce
  show ?thesis
  proof (cases r)
    case (Inl e)
    then have "s = st g" using sr by (auto simp: enqueue_encoded_def dest: enqueue_Inl split: if_splits)
    then have "publish i g = ?g\<lparr>st := on_budget (drop_encoded (t_bytes t)) (st ?g)\<rparr>"
      using True sr Inl by (simp add: publish_def t_def Let_def)
    then show ?thesis using inv_budget [OF inv'] by simp
  next
    case (Inr u)
    let ?item = "\<lparr>q_record = \<lparr>sequence = Suc (accepted (st g)), kind = t_kind t, payload = t_payload t\<rparr>,
                  q_interaction = None, q_credit = Some (t_bytes t)\<rparr>"
    have "adds (st ?g) s ?item"
      using sr Inr by (auto simp: enqueue_encoded_def dest!: enqueue_adds split: if_splits)
    moreover have "item_is v (session s) ?item (t_event t)" "\<not> is_closed (t_event t)"
      using t by (auto simp: item_is_def record_is_def)
    ultimately have "inv v (?g\<lparr>st := s, sent := sent ?g @ [t_event t]\<rparr>)" by (rule inv_adds [OF inv'])
    then show ?thesis using True sr Inr by (simp add: publish_def t_def Let_def)
  qed
qed (auto simp: publish_def)

lemma inv_abandon: "inv v g \<Longrightarrow> inv v (abandon i g)"
  using inv_drop_ticket [of v g i] inv_budget [of v "g\<lparr>tickets := drop_nth i (tickets g)\<rparr>"]
  by (auto simp: abandon_def Let_def)

lemma inv_new_question: "inv v g \<Longrightarrow> inv v (new_question ev g)"
proof -
  assume inv: "inv v g"
  have "inv v (g\<lparr>st := (st g)\<lparr>budget := b\<rparr>\<rparr>)" for b by (rule inv_calm [OF _ inv]) simp
  then have "inv v (g\<lparr>st := (st g)\<lparr>budget := b\<rparr>, questions := qs\<rparr>)" for b qs
    using inv_questions [of v "g\<lparr>st := (st g)\<lparr>budget := b\<rparr>\<rparr>" qs] by simp
  then show ?thesis using inv by (simp add: new_question_def split: option.splits sum.splits)
qed

lemma inv_send_question: "inv v g \<Longrightarrow> inv v (send_question i g)"
proof (cases "i < length (questions g)")
  case True
  assume inv: "inv v g"
  define ev where "ev = questions g ! i"
  let ?g = "g\<lparr>questions := drop_nth i (questions g)\<rparr>"
  have inv': "inv v ?g" by (rule inv_questions [OF inv])
  obtain s r where sr: "send_interaction True ev (st g) = (s, r)" by fastforce
  show ?thesis
  proof (cases r)
    case (Inl e)
    then have "s = st g" using sr by (auto simp: send_interaction_def dest: enqueue_Inl split: if_splits)
    then have "send_question i g = ?g\<lparr>st := on_budget (return_question (Some ev)) (st ?g)\<rparr>"
      using True sr Inl by (simp add: send_question_def ev_def Let_def)
    then show ?thesis using inv_budget [OF inv'] by simp
  next
    case (Inr u)
    let ?item = "\<lparr>q_record = \<lparr>sequence = Suc (accepted (st g)), kind = InteractionKind, payload = []\<rparr>,
                  q_interaction = Some ev, q_credit = None\<rparr>"
    have "is_interaction ev" using sr Inr by (auto simp: send_interaction_def split: if_splits)
    moreover have "adds (st ?g) s ?item"
      using sr Inr by (auto simp: send_interaction_def dest!: enqueue_adds split: if_splits)
    moreover from calculation(1) have "item_is v (session s) ?item ev" "\<not> is_closed ev"
      by (cases ev; simp add: item_is_def record_is_def)+
    ultimately have "inv v (?g\<lparr>st := s, sent := sent ?g @ [ev]\<rparr>)" by (intro inv_adds [OF inv'])
    then show ?thesis using True sr Inr by (simp add: send_question_def ev_def Let_def)
  qed
qed (simp add: send_question_def)

lemma inv_answer_question: "inv v g \<Longrightarrow> inv v (answer_question i g)"
proof -
  assume "inv v g"
  note changed = inv_questions [OF inv_budget [OF this, of "return_question (Some (questions g ! i))"],
      of "drop_nth i (questions g)"]
  have "i < length (questions g) \<Longrightarrow> answer_question i g =
      g\<lparr>st := on_budget (return_question (Some (questions g ! i))) (st g),
        questions := drop_nth i (questions g)\<rparr>"
    by (rule sys.equality) (simp_all add: answer_question_def)
  moreover have "\<not> i < length (questions g) \<Longrightarrow> answer_question i g = g"
    by (simp add: answer_question_def)
  ultimately show ?thesis using changed \<open>inv v g\<close> by metis
qed

lemma inv_send_ready: "inv v g \<Longrightarrow> inv v (send_ready sid g)"
proof -
  assume inv: "inv v g"
  obtain s r where sr: "ready sid (st g) = (s, r)" by fastforce
  show ?thesis
  proof (cases r)
    case (Inl e)
    then have "s = st g" using sr by (auto simp: ready_def split: sum.splits option.splits if_splits)
    moreover have "g\<lparr>st := st g\<rparr> = g" by (cases g) simp
    ultimately show ?thesis using inv sr Inl by (simp add: send_ready_def)
  next
    case (Inr u)
    let ?item = "\<lparr>q_record = \<lparr>sequence = Suc (accepted (st g)), kind = ReadyKind, payload = []\<rparr>,
                  q_interaction = None, q_credit = None\<rparr>"
    have "adds (st g) s ?item \<and> session s = Some sid"
      using sr Inr writable_open [of "st g"]
      by (auto simp: ready_def adds_def split: sum.splits option.splits if_splits)
    then have "inv v (g\<lparr>st := s, sent := sent g @ [Ready sid]\<rparr>)"
      by (intro inv_adds [OF inv]) (auto simp: item_is_def record_is_def)
    then show ?thesis using sr Inr by (simp add: send_ready_def)
  qed
qed

lemma inv_drop_receiver: "inv v g \<Longrightarrow> inv v (g\<lparr>st := drop_receiver (st g), ended := True\<rparr>)"
proof -
  assume "inv v g"
  then have inv': "inv v (g\<lparr>st := drop_receiver (st g)\<rparr>)" by (intro inv_calm) simp_all
  show ?thesis by (rule inv_other [OF inv']) (use inv' in \<open>simp_all add: inv_def tickets_ok_def\<close>)
qed

lemma inv_step: "codec_ok v \<Longrightarrow> inv v g \<Longrightarrow> inv v (sys_step v g i)"
  by (cases i)
    (simp_all add: inv_send_note inv_new_ticket inv_admit inv_publish inv_abandon inv_new_question
      inv_send_question inv_answer_question inv_send_ready inv_receive inv_drop_receiver inv_start
      inv_pick inv_write inv_read inv_put inv_finish inv_lost inv_calm split: phase.splits)

lemma sys_new_inv: "inv v sys_new"
  by (auto simp: inv_def sys_new_def store_new_def hist_ok_def out_ok_def phase_ok_def close_ok_def
      one_close_def tickets_ok_def live_ok_def queue_is_def asks_ok_def in_hand_def data_end_def
      stored_end_def end_wf_def)

interpretation store_inv: kept_invariant "sys_step v" "inv v" "\<lambda>_ _. codec_ok v" for v
  by unfold_locales (rule inv_step)

lemma reachable_inv: "codec_ok v \<Longrightarrow> inv v (sys_after v is)"
  unfolding sys_after_def by (rule store_inv.run_keeps) (simp_all add: sys_new_inv)

end
