(* ===== verification/EventStoreGuarantees.thy ===== *)
theory EventStoreGuarantees
  imports EventStoreFacts
begin

text \<open>
  The promises of the event store, each read off the invariant of \<open>EventStoreFacts\<close>: what the
  receiver is given, what a clean close and a fence mean, that the worker never sleeps on work
  and that refusal is final.  The runs at the end are the concrete inputs of the witnesses.
\<close>

section \<open>What the users rely on\<close>

lemma is_closed_iff: "is_closed ev \<longleftrightarrow> (\<exists>e. ev = Closed e)"
  by (cases ev) simp_all

text \<open>
  C10: the receiver sees what was sent.  After any interleaving of producers, worker, receiver,
  cancellations and failing system calls, the events the receiver was given are a prefix of the
  accepted ones, each exactly as sent, in order and without a gap; and a closing event is given
  at most once and is the last.
\<close>

theorem receiver_gets_a_prefix:
  assumes "codec_ok v"
  shows "(\<exists>pending. sent (sys_after v is) = data_got (got (sys_after v is)) @ pending)
       \<and> one_close (got (sys_after v is))"
proof -
  define g where "g = sys_after v is"
  have inv: "inv v g" using reachable_inv [OF assms] by (simp add: g_def)
  then have "sent g = data_got (got g) @ drop (delivered (st g)) (sent g)"
    by (simp add: inv_def hist_ok_def)
  moreover have "one_close (got g)" using inv by (simp add: inv_def close_ok_def)
  ultimately show ?thesis unfolding g_def by blast
qed

text \<open>
  C1: a clean close means nothing was lost.  When the receiver has been told that the source
  closed and the store has recorded no failure, every accepted event had been delivered.
\<close>

theorem clean_close_loses_nothing:
  assumes "codec_ok v" and "Closed e \<in> set (got (sys_after v is))"
    and "failed (st (sys_after v is)) = None"
  shows "data_got (got (sys_after v is)) = sent (sys_after v is)"
  using reachable_inv [OF assms(1), of "is"] assms(2,3)
  by (auto simp: inv_def close_ok_def is_closed_iff)

section \<open>Fences\<close>

lemma sent_step: "\<exists>more. sent (sys_step v g i) = sent g @ more"
proof -
  have "sent (stop m h) = sent h" for m h by (simp add: stop_def)
  then show ?thesis
    by (cases i)
      (auto simp: send_note_def start_ticket_def admit_def publish_def abandon_def new_question_def
        send_question_def answer_question_def send_ready_def receive_step_def give_def start_worker_def
        pick_def write_step_def read_step_def put_step_def finish_step_def worker_lost_def Let_def
        split: prod.splits sum.splits option.splits admission.splits phase.splits work.splits)
qed

lemma sent_run: "\<exists>more. sent (run_inputs (sys_step v) g is) = sent g @ more"
proof (induction "is" arbitrary: g)
  case (Cons i "is")
  obtain a where a: "sent (sys_step v g i) = sent g @ a" using sent_step by blast
  obtain b where "sent (run_inputs (sys_step v) (sys_step v g i) is) = sent (sys_step v g i) @ b"
    using Cons.IH by blast
  then show ?case by (simp add: a)
qed simp

definition progress_ok :: "store \<Rightarrow> bool" where
  "progress_ok s \<longleftrightarrow> progress_written s \<le> written s"

lemma progress_simps [simp]:
  "progress_ok (s\<lparr>budget := b\<rparr>) = progress_ok s" "progress_ok (on_budget h s) = progress_ok s"
  "progress_ok (shut_budget s) = progress_ok s" "progress_ok (s\<lparr>failed := f\<rparr>) = progress_ok s"
  "progress_ok (s\<lparr>cancelled := c\<rparr>) = progress_ok s" "progress_ok (s\<lparr>source_end := e\<rparr>) = progress_ok s"
  "progress_ok (s\<lparr>accepted := n\<rparr>) = progress_ok s" "progress_ok (s\<lparr>queue := q\<rparr>) = progress_ok s"
  "progress_ok (s\<lparr>session := sid\<rparr>) = progress_ok s" "progress_ok (s\<lparr>ready_enqueued := r\<rparr>) = progress_ok s"
  "progress_ok (s\<lparr>out_slot := o'\<rparr>) = progress_ok s" "progress_ok (s\<lparr>delivered := d\<rparr>) = progress_ok s"
  "progress_ok (s\<lparr>read_requested := r'\<rparr>) = progress_ok s" "progress_ok (s\<lparr>receiver_alive := a\<rparr>) = progress_ok s"
  "progress_ok (s\<lparr>io_done := i\<rparr>) = progress_ok s" "progress_ok (s\<lparr>completed := r''\<rparr>) = progress_ok s"
  by (simp_all add: progress_ok_def on_budget_def shut_budget_def)

lemma progress_pulse [simp]: "progress_ok s \<Longrightarrow> progress_ok (pulse_progress s)"
  by (simp add: progress_ok_def pulse_progress_def merge_progress_def)

lemma progress_merge [simp]:
  "progress_ok s \<Longrightarrow> w \<le> written s \<Longrightarrow> progress_ok (merge_progress w f s)"
  by (simp add: progress_ok_def merge_progress_def)

lemma written_shut [simp]: "written (shut_budget s) = written s"
  by (simp add: shut_budget_def)

lemma progress_publish [simp]: "progress_ok s \<Longrightarrow> written s \<le> n \<Longrightarrow> progress_ok (publish_written n s)"
  by (simp add: progress_ok_def publish_written_def merge_progress_def)

lemma progress_ops [simp]:
  assumes "progress_ok s"
  shows "progress_ok (cancel m s)" "progress_ok (source_eof s)" "progress_ok (begin_close s)"
    "progress_ok (closed e s)" "progress_ok (fst (accept_session sid s))" "progress_ok (drop_receiver s)"
    "progress_ok (fst (note_session_ok n s))" "progress_ok (fst (enqueue item s))"
    "progress_ok (fst (enqueue_encoded k bs len s))" "progress_ok (fst (send_interaction True ev s))"
    "progress_ok (fst (ready sid s))" "progress_ok (fst (receive s))" "progress_ok (fst (next_work p s))"
    "progress_ok (complete_io c asks en s)"
proof -
  have c: "progress_ok (cancel m t)" if "progress_ok t" for m t using that by (simp add: cancel_def)
  then show "progress_ok (cancel m s)" using assms by blast
  show "progress_ok (source_eof s)" using assms by (simp add: source_eof_def)
  show b: "progress_ok (begin_close s)" using assms c by (simp add: begin_close_def split: option.splits)
  show "progress_ok (closed e s)"
    using b by (simp add: closed_def confirm_closed_def split: option.splits source_end.splits)
  show "progress_ok (fst (accept_session sid s))"
    using assms by (simp add: accept_session_def split: sum.splits)
  show "progress_ok (drop_receiver s)" using assms c by (simp add: drop_receiver_def)
  show "progress_ok (fst (note_session_ok n s))" using assms c by (simp add: note_session_ok_def)
  have q: "progress_ok (fst (enqueue item s))" for item
    using assms by (simp add: enqueue_def split: sum.splits option.splits)
  then show "progress_ok (fst (enqueue item s))" by blast
  show "progress_ok (fst (enqueue_encoded k bs len s))" "progress_ok (fst (send_interaction True ev s))"
    using assms q by (simp_all add: enqueue_encoded_def send_interaction_def)
  show "progress_ok (fst (ready sid s))"
    using assms by (simp add: ready_def split: sum.splits option.splits)
  show "progress_ok (fst (receive s))"
    using assms c by (simp add: receive_def take_output_def split: option.splits)
  show "progress_ok (fst (next_work p s))"
    using assms by (simp add: next_work_def split: option.splits list.splits)
  show "progress_ok (complete_io c asks en s)"
    using assms c
    by (simp add: complete_io_def Let_def release_all_def split: worker_end.splits option.splits sum.splits)
qed

lemma hand_sequence:
  assumes "inv v g" "phase g = Writing item"
  shows "written (st g) < sequence (q_record item)"
proof -
  have q: "queue_is v g (item # queue (st g))"
    using assms by (simp add: inv_def running_def live_ok_def in_hand_def)
  from queue_is_seq [OF q, of item] show ?thesis by (auto simp: stored_end_def min_def split: if_splits)
qed

lemma pick_progress:
  assumes "progress_ok (st g)"
  shows "progress_ok (st (pick g))"
proof -
  obtain s wk where p: "next_work (prefer_read g) (st g) = (s, wk)" by fastforce
  have s: "progress_ok s" using progress_ops(13) [OF assms, of "prefer_read g"] p by simp
  have "written s \<le> n" if "wk = Some (TerminalWritten n)" for n
  proof -
    have "finish_work (st g) = Some (TerminalWritten n) \<and> s = st g"
      using p that by (auto simp: next_work_def split: if_splits option.splits list.splits)
    then show ?thesis by (auto elim!: finish_work_cases)
  qed
  then show ?thesis
    using s by (auto simp: pick_def p split: option.splits work.splits)
qed

lemma progress_step:
  assumes "inv v g" "progress_ok (st g)"
  shows "progress_ok (st (sys_step v g i))"
proof -
  have fst': "progress_ok s" if "f = (s, r)" "progress_ok (fst f)" for f :: "store \<times> 'r" and s r using that by simp
  have stop: "st (stop m h) = st h" for m h by (simp add: stop_def)
  show ?thesis
  proof (cases i)
    case (SendNote n)
    then show ?thesis
      using progress_ops(7) [OF assms(2), of n]
      by (auto simp: send_note_def start_ticket_def split: prod.splits sum.splits)
  next
    case (Publish j)
    let ?t = "tickets g ! j"
    obtain s r where sr: "enqueue_encoded (t_kind ?t) (t_payload ?t) (t_bytes ?t) (st g) = (s, r)" by fastforce
    then have "progress_ok s"
      using progress_ops(9) [OF assms(2), of "t_kind ?t" "t_payload ?t" "t_bytes ?t"] by simp
    then show ?thesis
      using Publish by (simp add: publish_def Let_def assms(2) sr split: sum.splits)
  next
    case (SendQuestion j)
    obtain s r where sr: "send_interaction True (questions g ! j) (st g) = (s, r)" by fastforce
    then have "progress_ok s" using progress_ops(10) [OF assms(2), of "questions g ! j"] by simp
    then show ?thesis
      using SendQuestion by (simp add: send_question_def Let_def assms(2) sr split: sum.splits)
  next
    case (SendReady sid)
    then show ?thesis
      using progress_ops(11) [OF assms(2), of sid]
      by (auto simp: send_ready_def split: prod.splits sum.splits)
  next
    case Receive
    obtain s over ans where r: "receive (st g) = (s, over, ans)" by (metis prod_cases3)
    then have "progress_ok s" using progress_ops(12) [OF assms(2)] by simp
    then show ?thesis
      using Receive assms(2) by (simp add: receive_step_def give_def r split: option.splits)
  next
    case (Write w)
    show ?thesis
    proof (cases "phase g")
      case (Writing item)
      then show ?thesis
        using Write assms(2) hand_sequence [OF assms(1) Writing]
        by (auto simp: write_step_def Let_def stop split: prod.splits option.splits)
    qed (use Write assms in simp_all)
  next
    case (ReadBack w)
    then show ?thesis
      using assms(2) by (auto simp: read_step_def stop split: prod.splits sum.splits option.splits)
  next
    case WorkerLost
    have "progress_ok (hand_dropped g)"
      using assms(2) by (simp add: hand_dropped_def split: phase.splits)
    then show ?thesis
      using WorkerLost assms(2) by (simp add: worker_lost_def Let_def split: phase.splits)
  qed (use assms(2) pick_progress in
      \<open>auto simp: start_ticket_def admit_def abandon_def new_question_def answer_question_def
        start_worker_def put_step_def finish_step_def stop Let_def
        split: sum.splits option.splits admission.splits phase.splits\<close>)
qed

interpretation fence_inv: kept_invariant "sys_step v" "\<lambda>g. inv v g \<and> progress_ok (st g)" "\<lambda>_ _. codec_ok v" for v
  by unfold_locales (auto intro: inv_step progress_step)

lemma run_keeps_both:
  "codec_ok v \<Longrightarrow> inv v g \<and> progress_ok (st g) \<Longrightarrow>
   inv v (run_inputs (sys_step v) g is) \<and> progress_ok (st (run_inputs (sys_step v) g is))"
  by (rule fence_inv.run_keeps) simp_all

lemma reachable_both: "codec_ok v \<Longrightarrow> inv v (sys_after v is) \<and> progress_ok (st (sys_after v is))"
  unfolding sys_after_def
  by (rule run_keeps_both) (simp_all add: sys_new_inv, simp add: sys_new_def store_new_def progress_ok_def)

text \<open>
  a fence means what it says.  A fence that is answered has every event accepted before it
  was asked for on the disk, in its place; and when the receiver finds nothing remaining through
  that fence, it has been given all of them.
\<close>

theorem fence_covers_what_was_sent:
  assumes "codec_ok v" and "fence_begin (st (sys_after v before)) = Inr through"
    and "fence_poll through (st (sys_after v (before @ after))) = Some (Inr answer)"
  shows "answer = through
    \<and> length (sent (sys_after v before)) \<le> written (st (sys_after v (before @ after)))
    \<and> take (length (sent (sys_after v before))) (sent (sys_after v (before @ after))) = sent (sys_after v before)
    \<and> (remaining_through True answer (st (sys_after v (before @ after))) = Inr 0 \<longrightarrow>
         (\<exists>more. data_got (got (sys_after v (before @ after))) = sent (sys_after v before) @ more))"
proof -
  define g where "g = sys_after v before"
  define g' where "g' = sys_after v (before @ after)"
  have run: "g' = run_inputs (sys_step v) g after"
    by (simp add: g'_def g_def sys_after_def run_inputs_append)
  obtain more where more: "sent g' = sent g @ more" using sent_run run by blast
  have g: "inv v g" and g': "inv v g'" "progress_ok (st g')"
    using reachable_both [OF assms(1)] by (simp_all add: g_def g'_def)
  have "data_end s \<le> accepted s" if "end_wf s" for s
    using that by (auto simp: data_end_def end_wf_def split: option.splits source_end.splits)
  then have len: "length (sent g) \<le> accepted (st g)" using g by (simp add: inv_def hist_ok_def)
  have through: "through = accepted (st g)"
    using assms(2) by (auto simp: fence_begin_def g_def split: if_splits option.splits)
  have answer: "answer = through" "through \<le> progress_written (st g')"
    using assms(3) by (auto simp: fence_poll_def g'_def split: option.splits if_splits)
  have "length (sent g) \<le> written (st g')"
    using len through answer(2) g'(2) by (simp add: progress_ok_def)
  moreover have "\<exists>rest. data_got (got g') = sent g @ rest" if "remaining_through True answer (st g') = Inr 0"
  proof -
    have "through \<le> delivered (st g')"
      using that answer(1) by (auto simp: remaining_through_def split: option.splits if_splits)
    then have "length (sent g) \<le> delivered (st g')" using len through by simp
    then show ?thesis using g'(1) more by (simp add: inv_def hist_ok_def take_all)
  qed
  ultimately show ?thesis
    using answer(1) more by (simp flip: g_def g'_def)
qed

section \<open>Closing is final\<close>

definition shut :: "store \<Rightarrow> bool" where
  "shut s \<longleftrightarrow> failed s \<noteq> None \<or> \<not> receiver_alive s \<or> source_end s \<noteq> None \<or> io_done s"

lemma shut_writable: "shut s \<longleftrightarrow> (\<exists>e. writable s = Inl e)"
  by (auto simp: shut_def writable_def split: option.splits)

lemma shut_refuses:
  assumes "shut s"
  shows "enqueue item s = (s, Inl (case writable s of Inl e \<Rightarrow> e))" "\<exists>e. ready sid s = (s, Inl e)"
    "\<exists>e. accept_session sid s = (s, Inl e)"
  using assms by (auto simp: shut_writable enqueue_def ready_def accept_session_def)

text \<open>
  the worker does not sleep on work.  When the worker would wait, nothing is queued and
  nothing is cancelled: every accepted event is on the disk, and if the receiver has asked for an
  event, everything on the disk has already been delivered.
\<close>

theorem worker_sleeps_only_when_idle:
  assumes "codec_ok v" and "phase (sys_after v is) = Picking"
    and "next_work (prefer_read (sys_after v is)) (st (sys_after v is)) = (s, None)"
  shows "queue (st (sys_after v is)) = [] \<and> \<not> cancelled (st (sys_after v is))
    \<and> length (sent (sys_after v is)) \<le> written (st (sys_after v is))
    \<and> (read_requested (st (sys_after v is)) \<longrightarrow> out_slot (st (sys_after v is)) = None \<longrightarrow>
         data_got (got (sys_after v is)) = sent (sys_after v is))"
proof -
  define g where "g = sys_after v is"
  have inv: "inv v g" using reachable_inv [OF assms(1)] by (simp add: g_def)
  have w: "\<not> cancelled (st g)" "queue (st g) = []" "\<not> readable (st g)"
    using assms(3) by (auto simp: next_work_def g_def split: if_splits option.splits list.splits)
  have live: "live_ok v g" using inv assms(2) by (simp add: inv_def running_def g_def)
  then have "queue_is v g []" using w(2) assms(2) by (simp add: live_ok_def in_hand_def g_def)
  then have "[Suc (stored_end (st g)) ..< Suc (data_end (st g))] = []"
    unfolding queue_is_def by (metis list.simps(8))
  then have "\<not> stored_end (st g) < data_end (st g)" by (simp only: upt_eq_Nil_conv) simp
  then have written: "data_end (st g) \<le> written (st g)" by (simp add: stored_end_def)
  have all: "data_got (got g) = sent g" if "read_requested (st g)" "out_slot (st g) = None"
  proof -
    have "min (written (st g)) (data_end (st g)) \<le> delivered (st g)"
    proof (cases "source_end (st g)")
      case None
      then show ?thesis using that w(3) by (auto simp: readable_def)
    next
      case (Some e)
      then show ?thesis using that w(3) by (auto simp: readable_def data_end_def)
    qed
    then show ?thesis using inv written by (simp add: inv_def hist_ok_def)
  qed
  show ?thesis using w written all inv by (simp add: inv_def hist_ok_def flip: g_def)
qed

definition stays_shut :: "store \<Rightarrow> store \<Rightarrow> bool" where
  "stays_shut s s' \<longleftrightarrow>
     (failed s \<noteq> None \<longrightarrow> failed s' \<noteq> None) \<and> (\<not> receiver_alive s \<longrightarrow> \<not> receiver_alive s')
   \<and> (source_end s \<noteq> None \<longrightarrow> source_end s' \<noteq> None) \<and> (io_done s \<longrightarrow> io_done s')"

lemma stays_shutD: "stays_shut s s' \<Longrightarrow> shut s \<Longrightarrow> shut s'"
  by (auto simp: stays_shut_def shut_def)

lemma stays_refl [simp]: "stays_shut s s"
  by (simp add: stays_shut_def)

lemma stays_ops [simp]:
  "stays_shut s (s\<lparr>budget := b\<rparr>)" "stays_shut s (on_budget h s)" "stays_shut s (merge_progress w f s)"
  "stays_shut s (pulse_progress s)" "stays_shut s (publish_written n s)" "stays_shut s (cancel m s)"
  "stays_shut s (source_eof s)" "stays_shut s (begin_close s)" "stays_shut s (drop_receiver s)"
  "stays_shut s (s\<lparr>out_slot := o'\<rparr>)"
  by (auto simp: stays_shut_def on_budget_def merge_progress_def pulse_progress_def publish_written_def
      cancel_def shut_budget_def source_eof_def begin_close_def drop_receiver_def split: option.splits)

lemma stays_closed [simp]: "stays_shut s (closed e s)"
proof -
  have "stays_shut t (confirm_closed e t)" for t
    by (auto simp: stays_shut_def confirm_closed_def split: option.splits source_end.splits)
  then show ?thesis
    using stays_ops(4,8) unfolding closed_def stays_shut_def by meson
qed

lemma cancel_fields [simp]:
  "source_end (cancel m s) = source_end s" "receiver_alive (cancel m s) = receiver_alive s"
  "failed s = Some x \<Longrightarrow> failed (cancel m s) = Some x"
  by (simp_all add: cancel_def pulse_progress_def shut_budget_def merge_progress_def)

lemma complete_fields:
  "io_done (complete_io c asks e s)" "source_end (complete_io c asks e s) = source_end s"
  "receiver_alive (complete_io c asks e s) = receiver_alive s"
  by (simp_all add: complete_io_def Let_def release_all_def merge_progress_def shut_budget_def
      split: worker_end.split sum.split)

lemma complete_failed: "failed s = Some x \<Longrightarrow> failed (complete_io c asks e s) \<noteq> None"
  by (cases e) (simp_all add: complete_io_def Let_def release_all_def merge_progress_def shut_budget_def
      split: sum.split)

lemma stays_complete [simp]: "stays_shut s (complete_io c asks e s)"
  using complete_failed by (auto simp: stays_shut_def complete_fields)

lemma stays_receive [simp]: "receive s = (s', over, ans) \<Longrightarrow> stays_shut s s'"
  by (auto simp: receive_def take_output_def stays_shut_def cancel_def pulse_progress_def shut_budget_def
      merge_progress_def split: option.splits if_splits)

lemma stays_work [simp]: "next_work p s = (s', wk) \<Longrightarrow> stays_shut s s'"
  by (auto simp: next_work_def stays_shut_def split: option.splits if_splits list.splits)

lemma stays_trans: "stays_shut s t \<Longrightarrow> stays_shut t u \<Longrightarrow> stays_shut s u"
  by (simp add: stays_shut_def)

lemma shut_enqueue: "shut s \<Longrightarrow> \<exists>e. enqueue item s = (s, Inl e)"
  using shut_refuses(1) by blast

lemma shut_step:
  assumes "shut (st g)"
  shows "shut (st (sys_step v g i)) \<and> sent (sys_step v g i) = sent g"
proof -
  have stop: "st (stop m h) = st h" "sent (stop m h) = sent h" for m h by (simp_all add: stop_def)
  have D: "stays_shut (st g) s' \<Longrightarrow> shut s'" for s' using assms stays_shutD by blast
  have B: "shut (on_budget h s') = shut s'" "shut (s'\<lparr>budget := b\<rparr>) = shut s'" for h s' b
    by (simp_all add: shut_def on_budget_def)
  have C: "shut (cancel m (st g))" for m using D stays_ops(6) by blast
  have refuse: "\<exists>e. enqueue item (st g) = (st g, Inl e)" for item using shut_enqueue [OF assms] .
  show ?thesis
  proof (cases i)
    case (SendNote n)
    obtain s r where sr: "note_session_ok n (st g) = (s, r)" by fastforce
    then have "shut s" using C assms by (auto simp: note_session_ok_def split: if_splits)
    then show ?thesis
      using SendNote by (simp add: send_note_def sr start_ticket_def split: sum.splits)
  next
    case (Publish j)
    have "\<exists>e. enqueue_encoded k bs n (st g) = (st g, Inl e)" for k bs n
      using refuse by (simp add: enqueue_encoded_def)
    then obtain e where "enqueue_encoded (t_kind (tickets g ! j)) (t_payload (tickets g ! j))
        (t_bytes (tickets g ! j)) (st g) = (st g, Inl e)" by blast
    then show ?thesis using Publish assms by (simp add: publish_def Let_def B)
  next
    case (SendQuestion j)
    have "\<exists>e. send_interaction True ev (st g) = (st g, Inl e)" for ev
      using refuse by (simp add: send_interaction_def)
    then obtain e where "send_interaction True (questions g ! j) (st g) = (st g, Inl e)" by blast
    then show ?thesis using SendQuestion assms by (simp add: send_question_def Let_def B)
  next
    case (SendReady sid)
    obtain e where "ready sid (st g) = (st g, Inl e)" using shut_refuses(2) [OF assms] by blast
    then show ?thesis using SendReady assms by (simp add: send_ready_def)
  next
    case (AcceptSession sid)
    obtain e where "accept_session sid (st g) = (st g, Inl e)" using shut_refuses(3) [OF assms] by blast
    then show ?thesis using AcceptSession assms by simp
  next
    case Receive
    obtain s over ans where r: "receive (st g) = (s, over, ans)" by (metis prod_cases3)
    then have "shut s" using D stays_receive by blast
    then show ?thesis using Receive assms by (simp add: receive_step_def give_def r split: option.splits)
  next
    case Pick
    obtain s wk where p: "next_work (prefer_read g) (st g) = (s, wk)" by fastforce
    then have s: "shut s" using D stays_work by blast
    then have "shut (publish_written n s)" for n using stays_shutD stays_ops(5) by blast
    then show ?thesis using Pick assms s by (simp add: pick_def p split: option.splits work.splits)
  next
    case (Write w)
    have "shut (publish_written n (st g))" for n using D stays_ops(5) by blast
    then show ?thesis
      using Write assms
      by (simp add: write_step_def B stop Let_def split: phase.splits prod.splits option.splits)
  next
    case (ReadBack w)
    then show ?thesis
      using assms by (simp add: read_step_def stop split: prod.splits sum.splits option.splits)
  next
    case (Finish c)
    have "shut (complete_io c asks e (st g))" for asks e using D stays_complete by blast
    then show ?thesis using Finish assms by (simp add: finish_step_def split: phase.splits)
  next
    case WorkerLost
    have "shut (hand_dropped g)" using assms by (simp add: hand_dropped_def B split: phase.splits)
    then have "shut (cancel m (hand_dropped g))" for m using stays_shutD stays_ops(6) by blast
    then have lost: "shut (complete_io c asks e (cancel m (hand_dropped g)))" for c asks e m
      using stays_shutD stays_complete by blast
    have "shut (complete_io c asks e (cancel m (st g)))" for c asks e m
      using C stays_shutD stays_complete by blast
    then show ?thesis
      using WorkerLost assms lost by (simp add: worker_lost_def Let_def split: phase.splits)
  next
    case Put
    have "shut ((st g)\<lparr>out_slot := o'\<rparr>)" for o' using assms by (simp add: shut_def)
    then show ?thesis using Put assms by (simp add: put_step_def Let_def B split: phase.splits)
  next
    case (Start w)
    then show ?thesis using assms by (simp add: start_worker_def stop split: sum.splits)
  next
    case (Admit j)
    then show ?thesis using assms by (simp add: admit_def B split: admission.splits)
  next
    case (NewQuestion ev)
    then show ?thesis using assms by (simp add: new_question_def B split: option.splits sum.splits)
  next
    case (SendElicitDone s)
    then show ?thesis using assms by (simp add: start_ticket_def split: sum.splits)
  qed (use assms C D in \<open>simp_all add: abandon_def answer_question_def Let_def B\<close>)
qed

text \<open>
  closing is final.  Once the store refuses a producer (it failed, the receiver is gone, the
  source has ended or the worker is done), no later move makes it accept anything again.
\<close>

theorem refusal_is_final:
  assumes "writable (st (sys_after v before)) = Inl e"
  shows "sent (sys_after v (before @ after)) = sent (sys_after v before)
    \<and> (\<exists>e'. writable (st (sys_after v (before @ after))) = Inl e')"
proof -
  have "shut (st (run_inputs (sys_step v) g is)) \<and> sent (run_inputs (sys_step v) g is) = sent g"
    if "shut (st g)" for g "is"
    using that
  proof (induction "is" arbitrary: g)
    case (Cons i "is")
    then show ?case using shut_step [OF Cons.prems, of v i] by simp
  qed simp
  then show ?thesis
    using assms by (simp add: sys_after_def run_inputs_append shut_writable)
qed

section \<open>Concrete runs\<close>

definition demo_env :: env where
  "demo_env = \<lparr>
     enc_note = (\<lambda>n. replicate (length (note_session n)) 1 @ [0]
                  @ map (\<lambda>c. of_nat (of_char c)) (note_session n) @ note_update n),
     dec_note = (\<lambda>bs. let k = length (takeWhile (\<lambda>b. b = 1) bs); rest = drop (Suc k) bs in
                  Some \<lparr>note_session = map (\<lambda>b. char_of (unat b)) (take k rest), note_update = drop k rest\<rparr>),
     enc_id = map (\<lambda>c. of_nat (of_char c)),
     dec_id = (\<lambda>bs. Some (map (\<lambda>b. char_of (unat b)) bs)),
     os_text = ''os error''\<rparr>"

lemma unat_of_char [simp]: "unat (of_nat (of_char c) :: byte) = of_char c"
  by (simp add: unat_of_nat)

lemma takeWhile_replicate: "takeWhile (\<lambda>b. b = 1) (replicate k (1::byte) @ 0 # xs) = replicate k 1"
  by (induction k) simp_all

lemma demo_codec: "codec_ok demo_env"
  by (simp add: codec_ok_def demo_env_def Let_def takeWhile_replicate comp_def)

lemma chunks_Nil [simp]: "chunks n [] = []"
  by (subst chunks.simps) simp

lemmas demo_eval =
  sys_after_def sys_new_def store_new_def no_disk_def Let_def checked_add_def u64_max_def

definition written_run :: "input list" where
  "written_run = [Start quiet, Pick, Write quiet]"

lemma sent_ready: "sys_after demo_env [SendReady ''s''] =
  sys_new\<lparr>st := store_new\<lparr>accepted := 1, ready_enqueued := True, session := Some ''s'',
     queue := [\<lparr>q_record = \<lparr>sequence = 1, kind = ReadyKind, payload = []\<rparr>, q_interaction = None, q_credit = None\<rparr>]\<rparr>,
     sent := [Ready ''s'']\<rparr>"
  by (simp add: demo_eval send_ready_def ready_def writable_def)

lemma written_demo: "progress_written (st (sys_after demo_env ([SendReady ''s''] @ written_run))) = 1
   \<and> progress_failed (st (sys_after demo_env ([SendReady ''s''] @ written_run))) = None"
  unfolding written_run_def 
  by (simp add: demo_eval send_ready_def ready_def writable_def start_worker_def spool_create_def quiet_def
    pick_def next_work_def finish_work_def readable_def write_step_def append_record_def append_inner_def
    HEADER_BYTES_def rotate_def write_record_def extend_file_def publish_written_def merge_progress_def
    on_budget_def return_credit_def)

definition closed_run :: "input list" where
  "closed_run = [ConfirmClosed None, Start quiet, Pick, Pick, Finish None, Receive]"

lemma closed_demo: "got (sys_after demo_env closed_run) = [Closed None] \<and> failed (st (sys_after demo_env closed_run)) = None"
  unfolding closed_run_def 
  by (simp add: demo_eval closed_def begin_close_def confirm_closed_def pulse_progress_def shut_budget_def
    merge_progress_def start_worker_def spool_create_def quiet_def pick_def next_work_def finish_work_def
    publish_written_def finish_step_def complete_io_def release_all_def end_failed_def drop_questions_def
    receive_step_def receive_def take_output_def give_def)

lemma receiver_gets_a_prefix_witness:
  "(\<exists>pending. sent (sys_after demo_env ([SendReady ''s''] @ written_run))
      = data_got (got (sys_after demo_env ([SendReady ''s''] @ written_run))) @ pending)"
  using receiver_gets_a_prefix [OF demo_codec] by blast

lemma clean_close_witness:
  "data_got (got (sys_after demo_env closed_run)) = sent (sys_after demo_env closed_run)"
proof (rule clean_close_loses_nothing)
  show "Closed None \<in> set (got (sys_after demo_env closed_run))" using closed_demo by simp
qed (use closed_demo demo_codec in simp_all)

lemma fence_witness:
  "length (sent (sys_after demo_env [SendReady ''s''])) \<le> written (st (sys_after demo_env ([SendReady ''s''] @ written_run)))"
proof -
  have "fence_begin (st (sys_after demo_env [SendReady ''s''])) = Inr 1"
    by (simp add: sent_ready fence_begin_def store_new_def)
  moreover have "fence_poll 1 (st (sys_after demo_env ([SendReady ''s''] @ written_run))) = Some (Inr 1)"
    using written_demo by (simp add: fence_poll_def)
  ultimately show ?thesis using fence_covers_what_was_sent [OF demo_codec] by blast
qed

lemma idle_demo: "sys_after demo_env [Start quiet] = sys_new\<lparr>disk := disk (sys_after demo_env [Start quiet]), phase := Picking\<rparr>"
  by (simp add: demo_eval start_worker_def spool_create_def quiet_def)

lemma worker_sleeps_witness:
  "\<exists>s. next_work (prefer_read (sys_after demo_env [Start quiet])) (st (sys_after demo_env [Start quiet])) = (s, None)
     \<and> queue (st (sys_after demo_env [Start quiet])) = []"
proof -
  have "next_work (prefer_read (sys_after demo_env [Start quiet])) (st (sys_after demo_env [Start quiet]))
      = (st (sys_after demo_env [Start quiet]), None)"
    by (subst (1 2 3) idle_demo) (simp add: sys_new_def store_new_def next_work_def finish_work_def readable_def)
  moreover have "phase (sys_after demo_env [Start quiet]) = Picking" by (subst idle_demo) simp
  ultimately show ?thesis using worker_sleeps_only_when_idle [OF demo_codec] by blast
qed

lemma refusal_witness:
  "sent (sys_after demo_env ([ProducersGone] @ [SendReady ''s''])) = sent (sys_after demo_env [ProducersGone])"
proof -
  have "writable (st (sys_after demo_env [ProducersGone])) = Inl ''ACP event source closed''"
    by (simp add: demo_eval source_eof_def pulse_progress_def shut_budget_def merge_progress_def writable_def)
  from refusal_is_final [OF this] show ?thesis by blast
qed

end
