(* ===== verification/EventStoreCredit.thy ===== *)
theory EventStoreCredit
  imports EventStoreGuarantees
begin

text \<open>
  Credit in the running store.  Every encoded credit is held by a producer, a queued record or the
  record in the worker's hand, and every question's credit by whoever has the question; so the
  counters of the budget are exact through every cancellation and failure, and the queue never
  outgrows the capacity it was created with.
\<close>

section \<open>Weights\<close>

definition w_ticket :: "ticket \<Rightarrow> nat" where
  "w_ticket t = (if t_granted t then 1 else 0)"

definition w_event :: "event \<Rightarrow> nat" where
  "w_event ev = (if event_credit ev = None then 0 else 1)"

definition w_encoded :: "queued \<Rightarrow> nat" where
  "w_encoded item = (if q_credit item = None then 0 else 1)"

definition w_question :: "queued \<Rightarrow> nat" where
  "w_question item = (case q_interaction item of None \<Rightarrow> 0 | Some ev \<Rightarrow> w_event ev)"

definition w_ready :: "queued \<Rightarrow> nat" where
  "w_ready item = (if q_credit item = None \<and> q_interaction item = None then 1 else 0)"

definition item_counted :: "queued \<Rightarrow> bool" where
  "item_counted item \<longleftrightarrow> 1 \<le> w_encoded item + w_question item + w_ready item"

definition items_of :: "sys \<Rightarrow> queued list" where
  "items_of g = in_hand (phase g) @ queue (st g)"

definition putting :: "phase \<Rightarrow> decoded list" where
  "putting p = (case p of Putting out \<Rightarrow> [out] | _ \<Rightarrow> [])"

lemma putting_simps [simp]:
  "putting Unstarted = []" "putting Picking = []" "putting (Writing i) = []" "putting Reading = []"
  "putting (Putting out) = [out]" "putting (Ending e) = []" "putting Finished = []"
  by (simp_all add: putting_def)

lemma in_hand_simps [simp]:
  "in_hand Unstarted = []" "in_hand Picking = []" "in_hand (Writing i) = [i]" "in_hand Reading = []"
  "in_hand (Putting out) = []" "in_hand (Ending e) = []" "in_hand Finished = []"
  by (simp_all add: in_hand_def)

lemma decoded_out_eq:
  "decoded_out g = putting (phase g) @ (case out_slot (st g) of Some o' \<Rightarrow> [o'] | None \<Rightarrow> [])"
  by (simp add: decoded_out_def putting_def)

abbreviation sum_of :: "('a \<Rightarrow> nat) \<Rightarrow> 'a list \<Rightarrow> nat" where
  "sum_of w xs \<equiv> sum_list (map w xs)"

definition question_count :: "sys \<Rightarrow> nat" where
  "question_count g = sum_of w_event (questions g) + sum_of w_question (items_of g)
     + sum_of (w_event \<circ> snd) (asks_live g) + sum_of (w_event \<circ> out_event) (decoded_out g)"

definition cred_ok :: "sys \<Rightarrow> bool" where
  "cred_ok g \<longleftrightarrow>
     records (budget (st g)) = sum_of w_ticket (tickets g) + sum_of w_encoded (items_of g)
   \<and> records (budget (st g)) \<le> WINDOW_RECORDS
   \<and> controls (budget (st g)) = question_count g \<and> controls (budget (st g)) \<le> CONTROL_ITEMS
   \<and> sum_of w_ready (items_of g) \<le> (if ready_enqueued (st g) then 1 else 0)
   \<and> (\<forall>item \<in> set (items_of g). item_counted item)
   \<and> (\<forall>ev \<in> set (questions g). w_event ev = 1)"

lemma w_event_simps [simp]:
  "w_event (Note n) = 0" "w_event (Ready sid) = 0" "w_event (ElicitDone i) = 0" "w_event (Closed e) = 0"
  "w_event (Ask q) = 1" "w_event (Elicit q) = 1"
  by (simp_all add: w_event_def)

lemma w_event_interaction: "w_event ev = (if is_interaction ev then 1 else 0)"
  by (cases ev) simp_all

lemma drop_counts [simp]:
  "records (drop_encoded n b) = records b - 1" "controls (drop_encoded n b) = controls b"
  "records (drop_interaction n b) = records b" "controls (drop_interaction n b) = controls b - 1"
  "records (close_budget b) = records b" "controls (close_budget b) = controls b"
  by (simp_all add: drop_encoded_def drop_interaction_def close_budget_def)

lemma return_counts [simp]:
  "records (return_question (Some ev) b) = records b"
  "controls (return_question (Some ev) b) = controls b - w_event ev"
  "records (return_question None b) = records b" "controls (return_question None b) = controls b"
  "records (return_credit item b) = records b - w_encoded item"
  "controls (return_credit item b) = controls b"
  by (simp_all add: return_question_def return_credit_def w_event_def w_encoded_def split: option.splits)

lemma drop_item_counts [simp]:
  "records (drop_item item b) = records b - w_encoded item"
  "controls (drop_item item b) = controls b - w_question item"
  by (cases "q_interaction item"; simp add: drop_item_def w_question_def)+

lemma drop_items_counts:
  "records (foldl (\<lambda>b item. drop_item item b) b items) = records b - sum_of w_encoded items"
  "controls (foldl (\<lambda>b item. drop_item item b) b items) = controls b - sum_of w_question items"
  by (induction items arbitrary: b) simp_all

lemma drop_questions_counts [simp]:
  "records (drop_questions evs b) = records b"
  "controls (drop_questions evs b) = controls b - sum_of w_event evs"
  unfolding drop_questions_def by (induction evs arbitrary: b) simp_all

lemma budget_of_ops [simp]:
  "budget (on_budget h s) = h (budget s)" "budget (merge_progress w f s) = budget s"
  "budget (pulse_progress s) = budget s" "budget (shut_budget s) = close_budget (budget s)"
  "budget (publish_written n s) = budget s"
  by (simp_all add: on_budget_def merge_progress_def pulse_progress_def shut_budget_def publish_written_def)

lemma sum_of_bt_insert:
  "k \<notin> fst ` set m \<Longrightarrow> sum_of w (bt_insert k v m) = w (k, v) + sum_of w m"
  by (induction k v m rule: bt_insert.induct) auto

lemma sum_of_bt_remove:
  "bt_ok m \<Longrightarrow> bt_get m k = Some v \<Longrightarrow> sum_of w m = w (k, v) + sum_of w (bt_remove k m)"
proof (induction m)
  case (Cons p m)
  have ok: "bt_ok m" and low: "fst p \<notin> fst ` set m"
    using Cons.prems(1) by (auto simp: bt_ok_def)
  show ?case
  proof (cases "fst p = k")
    case True
    then have "\<forall>x \<in> set m. fst x \<noteq> k" using low by (metis image_eqI)
    then have "bt_remove k m = m" by (simp add: bt_remove_def case_prod_beta)
    then show ?thesis
      using True Cons.prems(2) by (cases p) (auto simp: bt_get_def bt_remove_def)
  next
    case False
    then have "bt_get m k = Some v" using Cons.prems(2) by (cases p) (simp add: bt_get_def)
    then show ?thesis using Cons.IH ok False by (cases p) (simp add: bt_remove_def)
  qed
qed simp

lemma sum_of_drop_nth: "i < length xs \<Longrightarrow> sum_of w xs = w (xs ! i) + sum_of w (drop_nth i xs)"
  by (subst (1) id_take_nth_drop [of i xs]) (simp_all add: drop_nth_def)

lemma drop_nth_set: "set (drop_nth i xs) \<subseteq> set xs"
  by (auto simp: drop_nth_def dest: in_set_takeD in_set_dropD)

section \<open>Operations that move no credit\<close>

definition same_credit :: "store \<Rightarrow> store \<Rightarrow> bool" where
  "same_credit s s' \<longleftrightarrow>
     records (budget s') = records (budget s) \<and> controls (budget s') = controls (budget s)
   \<and> queue s' = queue s \<and> out_slot s' = out_slot s \<and> ready_enqueued s' = ready_enqueued s"

lemma cred_same:
  assumes "same_credit (st g) s'" "cred_ok g"
  shows "cred_ok (g\<lparr>st := s'\<rparr>)"
  using assms
  by (simp add: same_credit_def cred_ok_def items_of_def question_count_def decoded_out_eq
      cong: option.case_cong)

lemma same_credit_simps [simp]:
  "same_credit s s" "same_credit s (merge_progress w f s)" "same_credit s (pulse_progress s)"
  "same_credit s (shut_budget s)" "same_credit s (cancel m s)" "same_credit s (source_eof s)"
  "same_credit s (begin_close s)" "same_credit s (drop_receiver s)"
  "same_credit s (fst (accept_session sid s))" "same_credit s (fst (note_session_ok n s))"
  "same_credit s (s\<lparr>read_requested := r\<rparr>)" "same_credit s (publish_written k s)"
  by (auto simp: same_credit_def merge_progress_def pulse_progress_def shut_budget_def cancel_def
      source_eof_def begin_close_def drop_receiver_def accept_session_def note_session_ok_def
      publish_written_def split: option.splits sum.splits)

lemma same_credit_closed [simp]: "same_credit s (closed e s)"
proof -
  have "same_credit t (confirm_closed e t)" for t
    by (auto simp: same_credit_def confirm_closed_def split: option.splits source_end.splits)
  then show ?thesis
    using same_credit_simps(3,7) unfolding closed_def same_credit_def by metis
qed

lemma enqueue_credit:
  "enqueue item s = (s', Inr u) \<Longrightarrow>
     budget s' = budget s \<and> out_slot s' = out_slot s \<and> ready_enqueued s' = ready_enqueued s
   \<and> (\<exists>r. queue s' = queue s @ [item\<lparr>q_record := r\<rparr>])"
  by (auto simp: enqueue_def split: sum.splits option.splits)

lemma w_record [simp]:
  "w_encoded (item\<lparr>q_record := r\<rparr>) = w_encoded item" "w_question (item\<lparr>q_record := r\<rparr>) = w_question item"
  "w_ready (item\<lparr>q_record := r\<rparr>) = w_ready item" "item_counted (item\<lparr>q_record := r\<rparr>) = item_counted item"
  by (simp_all add: w_encoded_def w_question_def w_ready_def item_counted_def)

lemma cred_enqueued:
  assumes "cred_ok g" and "enqueue item (st g) = (s, Inr u)" and "item_counted item"
    and p: "phase g = phase g'" "st g' = s" "asks_live g' = asks_live g"
    and tk: "sum_of w_ticket (tickets g) = sum_of w_ticket (tickets g') + w_encoded item"
    and qs: "sum_of w_event (questions g) = sum_of w_event (questions g') + w_question item"
      "\<forall>ev \<in> set (questions g'). w_event ev = 1" and "w_ready item = 0"
  shows "cred_ok g'"
proof -
  obtain r where e: "budget s = budget (st g)" "out_slot s = out_slot (st g)"
      "ready_enqueued s = ready_enqueued (st g)" "queue s = queue (st g) @ [item\<lparr>q_record := r\<rparr>]"
    using enqueue_credit [OF assms(2)] by blast
  have items: "items_of g' = items_of g @ [item\<lparr>q_record := r\<rparr>]"
    by (simp add: items_of_def p e(4) flip: p(1))
  have out: "decoded_out g' = decoded_out g"
    by (simp add: decoded_out_eq p(2) e(2) cong: option.case_cong flip: p(1))
  show ?thesis
    using assms(1,3) tk qs assms(9-)
    by (simp add: cred_ok_def question_count_def items out p(2,3) e)
qed

lemma sum_upd: "i < length xs \<Longrightarrow> w (xs ! i) \<le> w x \<Longrightarrow>
  sum_of w (xs[i := x]) = sum_of w xs + (w x - w (xs ! i))" for w :: "'a \<Rightarrow> nat"
  by (induction xs arbitrary: i) (auto split: nat.splits)

lemma cred_admit: "cred_ok g \<Longrightarrow> cred_ok (admit i g)"
proof (cases "i < length (tickets g) \<and> \<not> t_granted (tickets g ! i)")
  case True
  assume ok: "cred_ok g"
  have items: "items_of (g\<lparr>st := (st g)\<lparr>budget := b\<rparr>, tickets := ts\<rparr>) = items_of g"
    "question_count (g\<lparr>st := (st g)\<lparr>budget := b\<rparr>, tickets := ts\<rparr>) = question_count g"
    "items_of (g\<lparr>tickets := ts\<rparr>) = items_of g" "question_count (g\<lparr>tickets := ts\<rparr>) = question_count g" for b ts
    by (simp_all add: items_of_def question_count_def decoded_out_eq)
  show ?thesis
  proof (cases "encoded (t_bytes (tickets g ! i)) (budget (st g))")
    case (Admitted b)
    have "sum_of w_ticket ((tickets g)[i := (tickets g ! i)\<lparr>t_granted := True\<rparr>]) = Suc (sum_of w_ticket (tickets g))"
      using True by (simp add: sum_upd w_ticket_def)
    moreover have "records (budget (st g)) < WINDOW_RECORDS"
      using encoded_Admitted [OF Admitted] by (simp add: encoded_fits_def)
    ultimately show ?thesis
      using ok True Admitted encoded_Admitted [OF Admitted] by (simp add: admit_def cred_ok_def items)
  next
    case (Refused e)
    have "sum_of w_ticket (tickets g) = sum_of w_ticket (drop_nth i (tickets g))"
      using True by (simp add: sum_of_drop_nth [of i] w_ticket_def)
    then show ?thesis using ok True Refused by (simp add: admit_def cred_ok_def items)
  qed (use ok True in \<open>simp add: admit_def\<close>)
qed (auto simp: admit_def)

lemma cred_publish: "cred_ok g \<Longrightarrow> cred_ok (publish i g)"
proof (cases "i < length (tickets g) \<and> t_granted (tickets g ! i)")
  case True
  assume ok: "cred_ok g"
  let ?t = "tickets g ! i"
  have tk: "sum_of w_ticket (tickets g) = sum_of w_ticket (drop_nth i (tickets g)) + 1"
    using True by (simp add: sum_of_drop_nth [of i] w_ticket_def)
  obtain s r where sr: "enqueue_encoded (t_kind ?t) (t_payload ?t) (t_bytes ?t) (st g) = (s, r)" by fastforce
  show ?thesis
  proof (cases r)
    case (Inl e)
    then have "s = st g"
      using sr by (auto simp: enqueue_encoded_def enqueue_def split: if_splits sum.splits option.splits)
    then show ?thesis
      using ok True sr Inl tk
      by (simp add: publish_def Let_def cred_ok_def items_of_def question_count_def decoded_out_eq on_budget_def)
  next
    case (Inr u)
    have q: "enqueue \<lparr>q_record = \<lparr>sequence = 0, kind = t_kind ?t, payload = t_payload ?t\<rparr>,
        q_interaction = None, q_credit = Some (t_bytes ?t)\<rparr> (st g) = (s, Inr u)"
      using sr Inr by (auto simp: enqueue_encoded_def split: if_splits)
    have "cred_ok (g\<lparr>tickets := drop_nth i (tickets g), st := s, sent := sent g @ [t_event ?t]\<rparr>)"
      by (rule cred_enqueued [OF ok q])
        (use ok tk in \<open>simp_all add: item_counted_def w_encoded_def w_question_def w_ready_def cred_ok_def\<close>)
    then show ?thesis using True sr Inr by (simp add: publish_def Let_def)
  qed
qed (auto simp: publish_def)

lemma cred_send_question: "cred_ok g \<Longrightarrow> cred_ok (send_question i g)"
proof (cases "i < length (questions g)")
  case True
  assume ok: "cred_ok g"
  let ?ev = "questions g ! i"
  have w: "w_event ?ev = 1" using ok True by (simp add: cred_ok_def)
  have qs: "sum_of w_event (questions g) = sum_of w_event (drop_nth i (questions g)) + 1"
      "\<forall>ev \<in> set (drop_nth i (questions g)). w_event ev = 1"
    using True w ok drop_nth_set [of i "questions g"] by (auto simp: sum_of_drop_nth [of i] cred_ok_def)
  obtain s r where sr: "send_interaction True ?ev (st g) = (s, r)" by fastforce
  show ?thesis
  proof (cases r)
    case (Inl e)
    then have "s = st g"
      using sr by (auto simp: send_interaction_def enqueue_def split: if_splits sum.splits option.splits)
    then show ?thesis
      using ok True sr Inl qs w
      by (simp add: send_question_def Let_def cred_ok_def items_of_def question_count_def decoded_out_eq on_budget_def)
  next
    case (Inr u)
    have q: "enqueue \<lparr>q_record = \<lparr>sequence = 0, kind = InteractionKind, payload = []\<rparr>,
        q_interaction = Some ?ev, q_credit = None\<rparr> (st g) = (s, Inr u)"
      using sr Inr by (auto simp: send_interaction_def split: if_splits)
    have "cred_ok (g\<lparr>questions := drop_nth i (questions g), st := s, sent := sent g @ [?ev]\<rparr>)"
      by (rule cred_enqueued [OF ok q])
        (use ok qs w in \<open>simp_all add: item_counted_def w_encoded_def w_question_def w_ready_def\<close>)
    then show ?thesis using True sr Inr by (simp add: send_question_def Let_def)
  qed
qed (simp add: send_question_def)

lemma cred_send_ready: "cred_ok g \<Longrightarrow> cred_ok (send_ready sid g)"
proof -
  assume ok: "cred_ok g"
  obtain s r where sr: "ready sid (st g) = (s, r)" by fastforce
  show ?thesis
  proof (cases r)
    case (Inl e)
    then have "s = st g" using sr by (auto simp: ready_def split: sum.splits option.splits if_splits)
    then show ?thesis using sr Inl cred_same [OF same_credit_simps(1) ok] by (simp add: send_ready_def)
  next
    case (Inr u)
    obtain item where s: "\<not> ready_enqueued (st g)" "ready_enqueued s" "budget s = budget (st g)"
        "out_slot s = out_slot (st g)" "queue s = queue (st g) @ [item]"
        "q_credit item = None" "q_interaction item = None"
      using sr Inr by (auto simp: ready_def split: sum.splits option.splits if_splits)
    have "items_of (g\<lparr>st := s, sent := x\<rparr>) = items_of g @ [item]" for x by (simp add: items_of_def s)
    moreover have "decoded_out (g\<lparr>st := s, sent := x\<rparr>) = decoded_out g" for x
      by (simp add: decoded_out_eq s cong: option.case_cong)
    moreover have "w_encoded item = 0" "w_question item = 0" "w_ready item = 1" "item_counted item"
      using s by (simp_all add: w_encoded_def w_question_def w_ready_def item_counted_def)
    ultimately show ?thesis
      using ok s sr Inr by (simp add: send_ready_def cred_ok_def question_count_def)
  qed
qed

lemma cred_misc:
  assumes "cred_ok g"
  shows "cred_ok (abandon i g)" "cred_ok (new_question ev g)" "cred_ok (answer_question i g)"
    "cred_ok (start_ticket k bs e g)" "cred_ok (send_note v n g)"
proof -
  show "cred_ok (abandon i g)"
    using assms sum_of_drop_nth [of i "tickets g" w_ticket]
    by (auto simp: abandon_def Let_def cred_ok_def items_of_def question_count_def decoded_out_eq
        on_budget_def w_ticket_def)
  show "cred_ok (new_question ev g)"
  proof (cases "event_credit ev")
    case (Some n)
    show ?thesis
    proof (cases "interaction n (budget (st g))")
      case (Inr b)
      have "controls (budget (st g)) < CONTROL_ITEMS"
        using assms interaction_Inr [OF Inr] by (simp add: cred_ok_def)
      moreover have "w_event ev = 1" using Some by (simp add: w_event_def)
      ultimately show ?thesis
        using assms interaction_Inr [OF Inr]
        by (simp add: new_question_def Some Inr cred_ok_def items_of_def question_count_def decoded_out_eq)
    qed (simp add: new_question_def Some assms)
  qed (simp add: new_question_def assms)
  show "cred_ok (answer_question i g)"
  proof (cases "i < length (questions g)")
    case True
    have "w_event (questions g ! i) = 1" "\<forall>ev \<in> set (drop_nth i (questions g)). w_event ev = 1"
      using assms True drop_nth_set [of i "questions g"] by (auto simp: cred_ok_def)
    then show ?thesis
      using assms True sum_of_drop_nth [of i "questions g" w_event]
      by (simp add: answer_question_def cred_ok_def items_of_def question_count_def decoded_out_eq on_budget_def)
  qed (simp add: answer_question_def assms)
  have t: "cred_ok (start_ticket k bs e h)" if "cred_ok h" for k bs e h
    using that by (auto simp: start_ticket_def cred_ok_def items_of_def question_count_def decoded_out_eq
        w_ticket_def split: sum.splits)
  then show "cred_ok (start_ticket k bs e g)" using assms .
  obtain s r where sr: "note_session_ok n (st g) = (s, r)" by fastforce
  have "cred_ok (g\<lparr>st := s\<rparr>)" using cred_same [OF same_credit_simps(10) assms, of n] by (simp add: sr)
  then show "cred_ok (send_note v n g)"
    using t by (simp add: send_note_def sr split: sum.splits)
qed

section \<open>The worker and the receiver\<close>

lemma end_le_accepted: "end_wf s \<Longrightarrow> data_end s \<le> accepted s \<and> accepted s \<le> u64_max"
  by (cases "source_end s") (auto simp: data_end_def end_wf_def split: source_end.splits)

lemma cred_receive:
  assumes inv: "inv v g" and ok: "cred_ok g"
  shows "cred_ok (receive_step g)"
proof (cases "ended g \<or> out_slot (st g) = None")
  case True
  obtain s over ans where r: "receive (st g) = (s, over, ans)" by (metis prod_cases3)
  show ?thesis
  proof (cases "ended g")
    case False
    then have "same_credit (st g) s \<and> (ans = None \<or> (\<exists>e. ans = Some (Closed e)))"
      using True r same_credit_simps(1,11)
      by (auto simp: receive_def take_output_def split: option.splits if_splits)
    then have "cred_ok (g\<lparr>st := s\<rparr>)" and "ans = None \<or> (\<exists>e. ans = Some (Closed e))"
      using cred_same [OF _ ok] by blast+
    then show ?thesis
      using False
      by (auto simp: receive_step_def give_def r cred_ok_def items_of_def question_count_def decoded_out_eq
          split: option.splits)
  qed (simp add: receive_step_def ok)
next
  case False
  then obtain o' where o': "out_slot (st g) = Some o'" by auto
  have i: "hist_ok g" "out_ok g" "phase_ok g" using inv by (simp_all add: inv_def)
  obtain s over where r: "receive (st g) = (s, over, Some (out_event o'))"
      and s: "budget s = budget (st g)" "queue s = queue (st g)" "out_slot s = None"
        "ready_enqueued s = ready_enqueued (st g)"
  proof (cases "out_sequence o'")
    case None
    then show thesis using that o' by (simp add: receive_def take_output_def)
  next
    case (Some n)
    have wf: "end_wf (st g)" using i(1) by (simp add: hist_ok_def)
    have "n = Suc (delivered (st g)) \<and> n \<le> u64_max"
    proof (cases "phase g = Finished")
      case True
      then have "closing_out g o'" using i(2) o' by (simp add: out_ok_def)
      then show ?thesis using wf Some by (auto simp: closing_out_def end_wf_def)
    next
      case False
      then have "next_out g o'" using i(2) o' by (simp add: out_ok_def)
      then show ?thesis using end_le_accepted [OF wf] Some by (simp add: next_out_def)
    qed
    then show thesis using that o' Some by (simp add: receive_def take_output_def checked_add_def)
  qed
  have "decoded_out g = [o']" "\<And>h. st h = s \<Longrightarrow> phase h = phase g \<Longrightarrow> decoded_out h = []"
    using i(3) o' s(3) by (auto simp: decoded_out_eq phase_ok_def split: phase.splits)
  then show ?thesis
    using False ok s w_event_interaction [of "out_event o'"]
    by (simp add: receive_step_def r give_def cred_ok_def items_of_def question_count_def)
qed

lemma cred_stop: "cred_ok g \<Longrightarrow> in_hand (phase g) = [] \<Longrightarrow> putting (phase g) = [] \<Longrightarrow> cred_ok (stop m g)"
  by (simp add: stop_def cred_ok_def items_of_def question_count_def decoded_out_eq)

lemma cred_phase:
  "cred_ok g \<Longrightarrow> in_hand (phase g) = in_hand p \<Longrightarrow>
   putting (phase g) = putting p \<Longrightarrow> cred_ok (g\<lparr>phase := p\<rparr>)"
  by (simp add: cred_ok_def items_of_def question_count_def decoded_out_eq)

lemma cred_disk: "cred_ok (g\<lparr>disk := sp\<rparr>) = cred_ok g" "cred_ok (g\<lparr>prefer_read := p\<rparr>) = cred_ok g"
  by (simp_all add: cred_ok_def items_of_def question_count_def decoded_out_eq)

lemma cred_pick:
  assumes ok: "cred_ok g" and p: "phase g = Picking"
  shows "cred_ok (pick g)"
proof -
  obtain s wk where nw: "next_work (prefer_read g) (st g) = (s, wk)" by fastforce
  show ?thesis
  proof (cases "\<exists>item. wk = Some (WriteItem item)")
    case True
    then obtain item where item: "wk = Some (WriteItem item)" by blast
    then have "\<exists>rest. queue (st g) = item # rest \<and> s = (st g)\<lparr>queue := rest\<rparr>"
      using nw by (auto simp: next_work_def finish_work_def split: if_splits option.splits list.splits)
    then have "items_of (g\<lparr>st := s, phase := Writing item\<rparr>) = items_of g"
        and s: "budget s = budget (st g)" "out_slot s = out_slot (st g)" "ready_enqueued s = ready_enqueued (st g)"
      using p by (auto simp: items_of_def in_hand_def)
    moreover have "decoded_out (g\<lparr>st := s, phase := Writing item\<rparr>) = decoded_out g"
      using p by (simp add: decoded_out_eq s cong: option.case_cong)
    ultimately show ?thesis
      using ok by (simp add: pick_def nw item cred_ok_def question_count_def)
  next
    case False
    then have same: "same_credit (st g) s"
      using nw same_credit_simps(1,11)
      by (auto simp: next_work_def split: if_splits option.splits list.splits)
    from cred_same [OF this ok] have c: "cred_ok (g\<lparr>st := s\<rparr>)" .
    have ph: "cred_ok (g\<lparr>st := s, phase := q\<rparr>)" if "in_hand q = []" "putting q = []" for q
      using cred_phase [OF c, of q] that p by (simp add: in_hand_def)
    have "same_credit (st g) (publish_written n s)" for n
      using same same_credit_simps(12) unfolding same_credit_def by metis
    from cred_same [OF this ok] have "cred_ok (g\<lparr>st := publish_written n s\<rparr>)" for n .
    then show ?thesis
      using c ph False by (auto simp: pick_def nw in_hand_def split: option.splits work.splits)
  qed
qed

lemma cred_hand_dropped:
  assumes ok: "cred_ok g" and p: "phase g = Writing item"
    and that: "in_hand q = []" "putting q = []"
  shows "cred_ok (g\<lparr>st := on_budget (drop_item item) (st g), phase := q\<rparr>)"
proof -
  have "items_of g = item # queue (st g)" by (simp add: items_of_def p in_hand_def)
  moreover have "items_of (g\<lparr>st := on_budget (drop_item item) (st g), phase := q\<rparr>) = queue (st g)"
    using that by (simp add: items_of_def on_budget_def)
  moreover have "decoded_out (g\<lparr>st := on_budget (drop_item item) (st g), phase := q\<rparr>) = decoded_out g"
    using that p by (simp add: decoded_out_eq on_budget_def)
  ultimately show ?thesis
    using ok by (auto simp: cred_ok_def question_count_def on_budget_def split: if_splits)
qed

lemma cred_write:
  assumes inv: "inv v g" and ok: "cred_ok g" and p: "phase g = Writing item"
  shows "cred_ok (write_step v w item g)"
proof (cases "append_record w (q_record item) (disk g)")
  case (Pair sp outcome)
  have items: "items_of g = item # queue (st g)" by (simp add: items_of_def p)
  show ?thesis
  proof (cases outcome)
    case (Some e)
    define q where "q = Ending (if cancelled (st g) then EndCancelled else EndFailed (io_text v e))"
    have "cred_ok ((g\<lparr>st := on_budget (drop_item item) (st g), phase := q\<rparr>)\<lparr>disk := sp\<rparr>)"
      using cred_hand_dropped [OF ok p, of q] by (simp add: cred_disk q_def)
    moreover have "write_step v w item g = (g\<lparr>st := on_budget (drop_item item) (st g), phase := q\<rparr>)\<lparr>disk := sp\<rparr>"
      by (rule sys.equality) (simp_all add: write_step_def Pair Some stop_def q_def on_budget_def)
    ultimately show ?thesis by simp
  next
    case None
    note fresh = inv_written [OF inv p Pair [unfolded None] refl, THEN conjunct1]
    have asks: "sum_of (w_event \<circ> snd) (bt_insert (sequence (q_record item)) ev (asks_live g))
        = w_event ev + sum_of (w_event \<circ> snd) (asks_live g)" for ev
      using fresh by (simp add: sum_of_bt_insert bt_get_None_keys)
    show ?thesis
    proof (cases "q_interaction item")
      case none: None
      then have "w_question item = 0" by (simp add: w_question_def)
      then show ?thesis
        using ok items p
        by (auto simp: write_step_def Pair None none Let_def cred_ok_def question_count_def items_of_def
            decoded_out_eq publish_written_def merge_progress_def on_budget_def split: if_splits)
    next
      case (Some ev)
      then have "w_question item = w_event ev" by (simp add: w_question_def)
      then show ?thesis
        using ok items p fresh
        by (auto simp: write_step_def Pair None Some Let_def asks cred_ok_def question_count_def
            items_of_def decoded_out_eq publish_written_def merge_progress_def on_budget_def split: if_splits)
    qed
  qed
qed

lemma read_event_asks:
  assumes "bt_ok asks" "read_event v s asks r = (asks', result)"
  shows "sum_of (w_event \<circ> snd) asks = sum_of (w_event \<circ> snd) asks'
      + (case result of Inl e \<Rightarrow> 0 | Inr out \<Rightarrow> w_event (out_event out))"
proof (cases "kind r = InteractionKind")
  case True
  show ?thesis
  proof (cases "bt_get asks (sequence r)")
    case None
    then have "\<forall>x \<in> set asks. fst x \<noteq> sequence r" by (metis bt_get_None_keys image_eqI)
    then have "bt_remove (sequence r) asks = asks" by (simp add: bt_remove_def case_prod_beta)
    then show ?thesis using assms(2) True None by (auto simp: read_event_def Let_def)
  next
    case (Some ev)
    have "sum_of (w_event \<circ> snd) asks = w_event ev + sum_of (w_event \<circ> snd) (bt_remove (sequence r) asks)"
      using sum_of_bt_remove [OF assms(1) Some, of "w_event \<circ> snd"] by (simp add: comp_def)
    then show ?thesis using assms(2) True Some by (auto simp: read_event_def Let_def)
  qed
next
  case False
  then show ?thesis
    using assms(2)
    by (auto simp: read_event_def Let_def split: record_kind.splits option.splits if_splits sum.splits)
qed

lemma cred_read:
  assumes inv: "inv v g" and ok: "cred_ok g" and p: "phase g = Reading"
  shows "cred_ok (read_step v w g)"
proof -
  have out: "out_slot (st g) = None" using inv p by (simp add: inv_def phase_ok_def)
  have bt: "bt_ok (asks_live g)" using inv p by (simp add: inv_def running_def live_ok_def asks_ok_def)
  obtain sp answer where nxt: "spool_next w (disk g) = (sp, answer)" by fastforce
  show ?thesis
  proof (cases "\<exists>r. answer = Inr (Some r)")
    case False
    then show ?thesis
      using ok nxt p
      by (auto simp: read_step_def stop_def cred_ok_def items_of_def question_count_def decoded_out_eq
          split: sum.splits option.splits)
  next
    case True
    then obtain r where r: "answer = Inr (Some r)" by blast
    obtain asks result where ev: "read_event v (st g) (asks_live g) r = (asks, result)" by fastforce
    show ?thesis
      using ok nxt p out read_event_asks [OF bt ev]
      by (cases result)
        (auto simp: read_step_def stop_def r ev cred_ok_def items_of_def question_count_def decoded_out_eq)
  qed
qed

lemma cred_put:
  assumes inv: "inv v g" and ok: "cred_ok g" and p: "phase g = Putting out"
  shows "cred_ok (put_step out g)"
proof -
  have "out_slot (st g) = None" using inv p by (simp add: inv_def phase_ok_def)
  then show ?thesis
    using ok p
    by (auto simp: put_step_def Let_def on_budget_def cred_ok_def items_of_def question_count_def decoded_out_eq)
qed

lemma budget_cancel [simp]:
  "records (budget (cancel m s)) = records (budget s)" "controls (budget (cancel m s)) = controls (budget s)"
  "queue (cancel m s) = queue s" "out_slot (cancel m s) = out_slot s"
  "ready_enqueued (cancel m s) = ready_enqueued s"
  using same_credit_simps(5) [of s m] by (simp_all add: same_credit_def)

lemma return_any:
  "records (return_question x b) = records b"
  "controls (return_question x b) = controls b - (case x of None \<Rightarrow> 0 | Some ev \<Rightarrow> w_event ev)"
  by (cases x; simp)+

lemma release_counts:
  "records (budget (release_all f asks s)) = records (budget s) - sum_of w_encoded (queue s)"
  "controls (budget (release_all f asks s)) =
     controls (budget s) - sum_of w_question (queue s)
       - (if f then (case out_slot s of None \<Rightarrow> 0 | Some o' \<Rightarrow> w_event (out_event o')) else 0)
       - sum_of w_event (map snd asks)"
  by (auto simp: release_all_def Let_def drop_items_counts return_any split: option.splits)

lemma release_fields [simp]:
  "queue (release_all f asks s) = []" "ready_enqueued (release_all f asks s) = ready_enqueued s"
  "out_slot (release_all f asks s) = (if f then None else out_slot s)"
  by (simp_all add: release_all_def)

lemma complete_counts:
  assumes "end_failed e \<or> out_slot s = None"
  shows "records (budget (complete_io c asks e s)) = records (budget s) - sum_of w_encoded (queue s)"
    and "controls (budget (complete_io c asks e s)) = controls (budget s) - sum_of w_question (queue s)
       - (case out_slot s of None \<Rightarrow> 0 | Some o' \<Rightarrow> w_event (out_event o')) - sum_of w_event (map snd asks)"
    and "queue (complete_io c asks e s) = []"
    and "ready_enqueued (complete_io c asks e s) = ready_enqueued s"
    and "\<forall>o'. out_slot (complete_io c asks e s) = Some o' \<longrightarrow> w_event (out_event o') = 0"
proof -
  define s1 where "s1 = (case e of EndFailed m \<Rightarrow> cancel m s | _ \<Rightarrow> s)"
  have s1: "records (budget s1) = records (budget s)" "controls (budget s1) = controls (budget s)"
    "queue s1 = queue s" "out_slot s1 = out_slot s" "ready_enqueued s1 = ready_enqueued s"
    by (simp_all add: s1_def split: worker_end.split)
  define s2 where "s2 = release_all (end_failed e) asks s1"
  have s2: "records (budget s2) = records (budget s) - sum_of w_encoded (queue s)"
    "controls (budget s2) = controls (budget s) - sum_of w_question (queue s)
       - (case out_slot s of None \<Rightarrow> 0 | Some o' \<Rightarrow> w_event (out_event o')) - sum_of w_event (map snd asks)"
    "queue s2 = []" "ready_enqueued s2 = ready_enqueued s" "out_slot s2 = None"
    using assms by (auto simp: s2_def release_counts s1)
  have last': "\<forall>o'. snd (end_result e) = Some o' \<longrightarrow> w_event (out_event o') = 0"
    by (cases e rule: end_result.cases) auto
  show "records (budget (complete_io c asks e s)) = records (budget s) - sum_of w_encoded (queue s)"
    "controls (budget (complete_io c asks e s)) = controls (budget s) - sum_of w_question (queue s)
       - (case out_slot s of None \<Rightarrow> 0 | Some o' \<Rightarrow> w_event (out_event o')) - sum_of w_event (map snd asks)"
    "queue (complete_io c asks e s) = []"
    "ready_enqueued (complete_io c asks e s) = ready_enqueued s"
    using s2
    by (simp_all add: complete_io_def Let_def merge_progress_def shut_budget_def
        flip: s1_def s2_def split: sum.split)
  show "\<forall>o'. out_slot (complete_io c asks e s) = Some o' \<longrightarrow> w_event (out_event o') = 0"
    using s2(5) last'
    by (auto simp: complete_io_def Let_def merge_progress_def shut_budget_def
        simp flip: s1_def s2_def split: sum.splits option.splits)
qed

lemma cred_finish:
  assumes ok: "cred_ok g" and p: "in_hand (phase g) = []" "putting (phase g) = []"
    and e: "end_failed e \<or> out_slot (st g) = None"
  shows "cred_ok (finish_step c e g)"
proof -
  note counts = complete_counts [OF e, of c "asks_live g"]
  have "sum_of (w_event \<circ> out_event) (decoded_out (finish_step c e g)) = 0"
    using counts(5) by (auto simp: decoded_out_eq finish_step_def split: option.splits)
  then show ?thesis
    using ok p counts(1-4)
    by (auto simp: cred_ok_def question_count_def items_of_def decoded_out_eq finish_step_def comp_def
        split: option.splits)
qed

lemma cred_lost:
  assumes inv: "inv v g" and ok: "cred_ok g"
  shows "cred_ok (worker_lost g)"
proof -
  have step: "cred_ok (finish_step None e (h\<lparr>st := cancel m (st h)\<rparr>))"
    if "cred_ok h" "in_hand (phase h) = []" "putting (phase h) = []" "end_failed e" for h e m
    using cred_finish [OF cred_same [OF same_credit_simps(5) that(1)]] that(2-4) by simp
  have hand: "cred_ok (g\<lparr>st := hand_dropped g, phase := Picking\<rparr>)" if "running (phase g)"
  proof (cases "phase g")
    case (Writing item)
    then show ?thesis using cred_hand_dropped [OF ok Writing, of Picking] by (simp add: hand_dropped_def)
  next
    case (Putting out)
    then have "out_slot (st g) = None" using inv by (simp add: inv_def phase_ok_def)
    then show ?thesis
      using ok Putting
      by (auto simp: hand_dropped_def on_budget_def cred_ok_def items_of_def question_count_def decoded_out_eq)
  qed (use that ok in \<open>auto simp: hand_dropped_def running_def cred_ok_def items_of_def question_count_def decoded_out_eq\<close>)
  show ?thesis
  proof (cases "running (phase g)")
    case False
    then show ?thesis using ok by (cases "phase g") (simp_all add: worker_lost_def running_def)
  next
    case True
    define e where "e = (if phase g = Unstarted then EndCancelled
      else EndFailed ''ACP event I/O worker ended without confirmation'')"
    define m where "m = (if phase g = Unstarted
      then ''ACP event I/O worker was cancelled before starting''
      else ''ACP event I/O worker ended without confirmation'')"
    have "cred_ok (finish_step None e ((g\<lparr>st := hand_dropped g, phase := Picking\<rparr>)
        \<lparr>st := cancel m (st (g\<lparr>st := hand_dropped g, phase := Picking\<rparr>))\<rparr>))"
      by (rule step [OF hand [OF True]]) (simp_all add: e_def end_failed_def)
    moreover have "worker_lost g = finish_step None e ((g\<lparr>st := hand_dropped g, phase := Picking\<rparr>)
        \<lparr>st := cancel m (st (g\<lparr>st := hand_dropped g, phase := Picking\<rparr>))\<rparr>)"
      using True
      by (cases "phase g")
        (simp_all add: worker_lost_def finish_step_def e_def m_def hand_dropped_def running_def Let_def)
    ultimately show ?thesis by simp
  qed
qed

lemma cred_step:
  assumes inv: "inv v g" and ok: "cred_ok g"
  shows "cred_ok (sys_step v g i)"
proof -
  have same: "cred_ok (g\<lparr>st := s'\<rparr>)" if "same_credit (st g) s'" for s' using cred_same [OF that ok] .
  show ?thesis
  proof (cases i)
    case (Finish c)
    show ?thesis
    proof (cases "phase g")
      case (Ending e)
      have "end_failed e \<or> out_slot (st g) = None"
        using inv Ending by (cases e) (auto simp: inv_def phase_ok_def end_failed_def)
      then show ?thesis using Finish Ending cred_finish [OF ok] by simp
    qed (use Finish ok in simp_all)
  next
    case (Start w)
    then show ?thesis
      using ok by (auto simp: start_worker_def stop_def cred_ok_def items_of_def question_count_def decoded_out_eq
          split: sum.splits)
  next
    case DropReceiver
    then show ?thesis using same [of "drop_receiver (st g)"]
      by (simp add: cred_ok_def items_of_def question_count_def decoded_out_eq)
  qed (use ok inv same cred_misc [OF ok] cred_admit cred_publish cred_send_question cred_send_ready cred_receive
        cred_pick cred_write cred_read cred_put cred_lost in \<open>auto split: phase.splits\<close>)
qed

interpretation credit_store: kept_invariant "sys_step v" "\<lambda>g. inv v g \<and> cred_ok g" "\<lambda>_ _. codec_ok v" for v
  by unfold_locales (auto intro: inv_step cred_step)

lemma sys_new_credit: "cred_ok sys_new"
  by (simp add: cred_ok_def sys_new_def store_new_def budget_new_def items_of_def question_count_def decoded_out_eq)

lemma reachable_credit: "codec_ok v \<Longrightarrow> cred_ok (sys_after v is)"
  using credit_store.run_keeps [of v sys_new "is"] sys_new_inv sys_new_credit by (simp add: sys_after_def)

text \<open>
  the queue fits the capacity it is created with.  Through any run there are never more than
  256 records, sixteen questions and one opening in the queue, so it is never grown.
\<close>

theorem queue_fits_its_capacity:
  assumes "codec_ok v"
  shows "length (queue (st (sys_after v is))) \<le> WINDOW_RECORDS + CONTROL_ITEMS + 1"
proof -
  define g where "g = sys_after v is"
  have ok: "cred_ok g" using reachable_credit [OF assms] by (simp add: g_def)
  have "length items \<le> sum_of w_encoded items + sum_of w_question items + sum_of w_ready items"
    if "\<forall>item \<in> set items. item_counted item" for items
    using that by (induction items) (auto simp: item_counted_def)
  moreover have "sum_of w_ready (items_of g) \<le> 1" "\<forall>item \<in> set (items_of g). item_counted item"
    "sum_of w_encoded (items_of g) \<le> WINDOW_RECORDS" "sum_of w_question (items_of g) \<le> CONTROL_ITEMS"
    using ok by (auto simp: cred_ok_def question_count_def simp del: sum_list_eq_0_iff split: if_splits)
  ultimately have "length (items_of g) \<le> WINDOW_RECORDS + CONTROL_ITEMS + 1" by fastforce
  then show ?thesis by (simp add: items_of_def flip: g_def)
qed

lemma enqueue_done: "io_done s \<Longrightarrow> \<exists>e. enqueue item s = (s, Inl e)"
  by (auto simp: enqueue_def writable_def split: option.splits)

definition at_rest :: "sys \<Rightarrow> bool" where
  "at_rest g \<longleftrightarrow> io_done (st g) \<and> queue (st g) = [] \<and> asks_live g = []"

lemma complete_done: "io_done (complete_io c asks e s) \<and> queue (complete_io c asks e s) = []"
  by (simp add: complete_io_def Let_def merge_progress_def shut_budget_def split: sum.split)

lemma rest_step:
  assumes "phase g = Finished \<longrightarrow> at_rest g"
  shows "phase (sys_step v g i) = Finished \<longrightarrow> at_rest (sys_step v g i)"
proof (cases "phase g = Finished")
  case True
  then have d: "io_done (st g)" "queue (st g) = []" "asks_live g = []" using assms by (auto simp: at_rest_def)
  have e: "\<exists>m. enqueue_encoded k bs n (st g) = (st g, Inl m)" "\<exists>m. send_interaction True ev (st g) = (st g, Inl m)"
      "\<exists>m. ready sid (st g) = (st g, Inl m)" for k bs n ev sid
    using enqueue_done [OF d(1)] d(1)
    by (auto simp: enqueue_encoded_def send_interaction_def ready_def writable_def split: option.splits)
  have c: "io_done s' = io_done (st g) \<and> queue s' = queue (st g)" if "calm (st g) s'" for s'
    using that by (simp add: calm_def)
  have r: "io_done s' \<and> queue s' = []" if "receive (st g) = (s', over, ans)" for s' over ans
    using that d by (auto simp: receive_def take_output_def cancel_def split: option.splits if_splits)
  have n: "io_done s' \<and> queue s' = []" if "note_session_ok n (st g) = (s', r')" for n s' r'
    using that d by (auto simp: note_session_ok_def cancel_def split: if_splits)
  show ?thesis
  proof (cases i)
    case (Publish j)
    obtain m where "enqueue_encoded (t_kind (tickets g ! j)) (t_payload (tickets g ! j))
        (t_bytes (tickets g ! j)) (st g) = (st g, Inl m)" using e(1) by blast
    then show ?thesis using Publish d True by (simp add: publish_def Let_def at_rest_def on_budget_def)
  next
    case (SendQuestion j)
    obtain m where "send_interaction True (questions g ! j) (st g) = (st g, Inl m)" using e(2) by blast
    then show ?thesis using SendQuestion d True by (simp add: send_question_def Let_def at_rest_def on_budget_def)
  next
    case (SendReady sid)
    obtain m where "ready sid (st g) = (st g, Inl m)" using e(3) by blast
    then show ?thesis using SendReady d True by (simp add: send_ready_def at_rest_def)
  next
    case Receive
    obtain s over ans where rc: "receive (st g) = (s, over, ans)" by (metis prod_cases3)
    show ?thesis
      using r [OF rc] d True Receive
      by (cases ans) (simp_all add: receive_step_def give_def at_rest_def rc)
  next
    case (SendNote n')
    obtain s m where sn: "note_session_ok n' (st g) = (s, m)" by fastforce
    show ?thesis
      using n [OF sn] d True SendNote
      by (simp add: send_note_def start_ticket_def at_rest_def sn split: sum.split)
  next
    case (AcceptSession sid)
    then show ?thesis using d True c [OF calm_accept_session] by (simp add: at_rest_def)
  next
    case BeginClose
    then show ?thesis using d True c [OF calm_begin_close] by (simp add: at_rest_def)
  next
    case (ConfirmClosed m)
    then show ?thesis using d True c [OF calm_closed] by (simp add: at_rest_def)
  next
    case ProducersGone
    then show ?thesis using d True c [OF calm_source_eof] by (simp add: at_rest_def)
  next
    case (Cancel m)
    then show ?thesis using d True c [OF calm_cancel] by (simp add: at_rest_def)
  next
    case DropReceiver
    then show ?thesis using d True c [OF calm_drop_receiver] by (simp add: at_rest_def)
  next
    case (Admit j)
    then show ?thesis using d True by (simp add: at_rest_def admit_def split: admission.splits)
  next
    case (NewQuestion ev)
    then show ?thesis using d True by (simp add: at_rest_def new_question_def split: option.splits sum.splits)
  next
    case (SendElicitDone x)
    then show ?thesis using d True by (simp add: at_rest_def start_ticket_def split: sum.splits)
  qed (use d True in \<open>simp_all add: at_rest_def abandon_def answer_question_def worker_lost_def Let_def on_budget_def\<close>)
next
  case False
  have stop: "phase (stop m h) \<noteq> Finished" for m h by (simp add: stop_def)
  show ?thesis
  proof (cases "\<exists>c. i = Finish c")
    case True
    then show ?thesis
      using False by (auto simp: finish_step_def at_rest_def complete_done split: phase.splits)
  next
    case no: False
    show ?thesis
    proof (cases "i = WorkerLost")
      case True
      then show ?thesis
        using False by (auto simp: worker_lost_def Let_def at_rest_def complete_done split: phase.splits)
    next
      case False
      have "phase (sys_step v g i) \<noteq> Finished"
        using \<open>phase g \<noteq> Finished\<close> no False
        by (cases i)
          (auto simp: send_note_def start_ticket_def admit_def publish_def abandon_def new_question_def
            send_question_def answer_question_def send_ready_def receive_step_def give_def start_worker_def
            pick_def write_step_def read_step_def put_step_def stop Let_def
            split: prod.splits sum.splits option.splits admission.splits phase.splits work.splits)
      then show ?thesis by simp
    qed
  qed
qed

interpretation rest_inv: kept_invariant "sys_step v" "\<lambda>g. phase g = Finished \<longrightarrow> at_rest g" "\<lambda>_ _. True" for v
  by unfold_locales (rule rest_step)

lemma reachable_rest: "phase (sys_after v is) = Finished \<Longrightarrow> at_rest (sys_after v is)"
  using rest_inv.run_keeps [of sys_new "is" v] by (simp add: sys_after_def sys_new_def)

text \<open>
  no credit leaks.  When the worker has finished, no producer is inside a send and every
  question has been answered, the budget is back to zero, however the run went.
\<close>

theorem finished_store_returns_all_credit:
  assumes "codec_ok v" and "phase (sys_after v is) = Finished"
    and "tickets (sys_after v is) = []" and "questions (sys_after v is) = []"
  shows "records (budget (st (sys_after v is))) = 0 \<and> controls (budget (st (sys_after v is))) = 0"
proof -
  have "w_event (out_event o') = 0" if "out_slot (st (sys_after v is)) = Some o'" for o'
    using reachable_inv [OF assms(1), of "is"] assms(2) that
    by (cases "out_event o'") (auto simp: inv_def out_ok_def closing_out_def)
  then have "sum_of (w_event \<circ> out_event) (decoded_out (sys_after v is)) = 0"
    using assms(2) by (auto simp: decoded_out_eq split: option.splits)
  then show ?thesis
    using reachable_credit [OF assms(1), of "is"] reachable_rest [OF assms(2)] assms(2-)
    by (simp add: cred_ok_def question_count_def items_of_def at_rest_def)
qed

lemma queue_fits_witness:
  "length (queue (st (sys_after demo_env [SendReady ''s'']))) \<le> WINDOW_RECORDS + CONTROL_ITEMS + 1"
  by (rule queue_fits_its_capacity [OF demo_codec])

lemma finished_store_witness:
  "records (budget (st (sys_after demo_env [WorkerLost]))) = 0
   \<and> controls (budget (st (sys_after demo_env [WorkerLost]))) = 0"
  by (rule finished_store_returns_all_credit [OF demo_codec])
    (simp_all add: sys_after_def sys_new_def worker_lost_def Let_def)

end
