(* ===== verification/RustBase.thy ===== *)
theory RustBase
  imports Prelude
begin

text \<open>
  The parts of the Rust language and of its standard library that several components use:
  the \<open>?\<close> operator and the checks on \<open>Result\<close>, and the characters of a \<open>String\<close> (its
  bytes are UTF-8; \<open>chars\<close>, \<open>trim\<close> and \<open>char::is_control\<close> read code points).
\<close>

section \<open>Results\<close>

text \<open>\<open>r?\<close> followed by the rest of the function, \<open>if !b { return Err(e) }\<close>, \<open>o.ok_or(e)?\<close>.\<close>

definition and_then :: "'e + 'a \<Rightarrow> ('a \<Rightarrow> 'e + 'b) \<Rightarrow> 'e + 'b" where
  "and_then r f = (case r of Inl e \<Rightarrow> Inl e | Inr x \<Rightarrow> f x)"

definition ensure :: "bool \<Rightarrow> 'e \<Rightarrow> 'e + unit" where
  "ensure b e = (if b then Inr () else Inl e)"

definition ok_or :: "'a option \<Rightarrow> 'e \<Rightarrow> 'e + 'a" where
  "ok_or v e = (case v of None \<Rightarrow> Inl e | Some x \<Rightarrow> Inr x)"

definition map_err :: "('e \<Rightarrow> 'f) \<Rightarrow> 'e + 'a \<Rightarrow> 'f + 'a" where
  "map_err g r = (case r of Inl e \<Rightarrow> Inl (g e) | Inr x \<Rightarrow> Inr x)"

definition is_ok :: "'e + 'a \<Rightarrow> bool" where
  "is_ok r = (case r of Inl e \<Rightarrow> False | Inr x \<Rightarrow> True)"

lemma and_then_simps [simp]:
  "and_then (Inl e) f = Inl e" "and_then (Inr x) f = f x"
  by (simp_all add: and_then_def)

lemma and_then_Inr [simp]: "and_then r f = Inr y \<longleftrightarrow> (\<exists>x. r = Inr x \<and> f x = Inr y)"
  by (cases r) simp_all

lemma and_then_Inl [simp]:
  "and_then r f = Inl e \<longleftrightarrow> r = Inl e \<or> (\<exists>x. r = Inr x \<and> f x = Inl e)"
  by (cases r) simp_all

lemma ensure_Inr [simp]: "ensure b e = Inr u \<longleftrightarrow> b"
  by (cases u) (simp add: ensure_def)

lemma ensure_Inl [simp]: "ensure b e = Inl e' \<longleftrightarrow> \<not> b \<and> e' = e"
  by (auto simp: ensure_def)

lemma ensure_True [simp]: "ensure True e = Inr ()"
  by (simp add: ensure_def)

lemma ensure_False [simp]: "ensure False e = Inl e"
  by (simp add: ensure_def)

lemma ok_or_Inr [simp]: "ok_or v e = Inr x \<longleftrightarrow> v = Some x"
  by (cases v) (simp_all add: ok_or_def)

lemma ok_or_Inl [simp]: "ok_or v e = Inl e' \<longleftrightarrow> v = None \<and> e' = e"
  by (cases v) (auto simp: ok_or_def)

lemma ok_or_simps [simp]: "ok_or (Some x) e = Inr x" "ok_or None e = Inl e"
  by (simp_all add: ok_or_def)

lemma map_err_Inr [simp]: "map_err g r = Inr x \<longleftrightarrow> r = Inr x"
  by (cases r) (simp_all add: map_err_def)

lemma map_err_Inl [simp]: "map_err g r = Inl e \<longleftrightarrow> (\<exists>e'. r = Inl e' \<and> e = g e')"
  by (cases r) (auto simp: map_err_def)

lemma map_err_simps [simp]: "map_err g (Inl e) = Inl (g e)" "map_err g (Inr x) = Inr x"
  by (simp_all add: map_err_def)

lemma is_ok_iff [simp]: "is_ok r \<longleftrightarrow> (\<exists>x. r = Inr x)"
  by (cases r) (simp_all add: is_ok_def)

section \<open>Characters of a string\<close>

text \<open>
  \<open>str::chars\<close> on well-formed UTF-8.  The lead byte gives the length; a byte that starts
  nothing (which no \<open>String\<close> contains) stands for itself.
\<close>

fun tail_bits :: "char \<Rightarrow> nat" where
  "tail_bits c = of_char c mod 64"

fun str_chars :: "string \<Rightarrow> nat list" where
  "str_chars [] = []"
| "str_chars (a # r) =
     (let n = (of_char a :: nat) in
      if n < 192 then n # str_chars r
      else if n < 224 then
        (case r of b # r' \<Rightarrow> ((n mod 32) * 64 + tail_bits b) # str_chars r' | _ \<Rightarrow> [n])
      else if n < 240 then
        (case r of b # c # r' \<Rightarrow>
           ((n mod 16) * 4096 + tail_bits b * 64 + tail_bits c) # str_chars r' | _ \<Rightarrow> [n])
      else
        (case r of b # c # d # r' \<Rightarrow>
           ((n mod 8) * 262144 + tail_bits b * 4096 + tail_bits c * 64 + tail_bits d) # str_chars r'
         | _ \<Rightarrow> [n]))"

text \<open>\<open>char::is_control\<close> is the general category Cc, \<open>char::is_whitespace\<close> is White\_Space.\<close>

definition is_control :: "nat \<Rightarrow> bool" where
  "is_control c \<longleftrightarrow> c < 32 \<or> (127 \<le> c \<and> c < 160)"

definition is_whitespace :: "nat \<Rightarrow> bool" where
  "is_whitespace c \<longleftrightarrow> (9 \<le> c \<and> c \<le> 13) \<or> c \<in> {32, 133, 160, 5760, 8232, 8233, 8239, 8287, 12288}
     \<or> (8192 \<le> c \<and> c \<le> 8202)"

definition trim_is_empty :: "string \<Rightarrow> bool" where
  "trim_is_empty s = list_all is_whitespace (str_chars s)"

definition is_ascii_hexdigit :: "char \<Rightarrow> bool" where
  "is_ascii_hexdigit c = (let n = (of_char c :: nat) in
     (48 \<le> n \<and> n \<le> 57) \<or> (65 \<le> n \<and> n \<le> 70) \<or> (97 \<le> n \<and> n \<le> 102))"

lemma str_chars_ascii:
  "list_all (\<lambda>c. (of_char c :: nat) < 128) s \<Longrightarrow> str_chars s = map of_char s"
  by (induction s) (auto simp: Let_def)

text \<open>\<open>Iterator::collect\<close> into a \<open>BTreeMap\<close>: later pairs replace earlier ones.\<close>

definition bt_collect :: "('k::linorder \<times> 'v) list \<Rightarrow> ('k, 'v) btree" where
  "bt_collect ps = foldl (\<lambda>m (k, v). bt_insert k v m) [] ps"

lemma bt_collect_fold_ok: "bt_ok m \<Longrightarrow> bt_ok (foldl (\<lambda>m (k, v). bt_insert k v m) m ps)"
  by (induction ps arbitrary: m) auto

lemma bt_collect_ok [simp]: "bt_ok (bt_collect ps)"
  by (simp add: bt_collect_def bt_collect_fold_ok)

lemma bt_collect_fold_get:
  "bt_get (foldl (\<lambda>m (k, v). bt_insert k v m) m ps) = bt_get m ++ map_of (rev ps)"
  by (induction ps arbitrary: m) (auto simp: map_add_def fun_eq_iff split: option.splits)

lemma bt_collect_get: "bt_get (bt_collect ps) = map_of (rev ps)"
  by (simp add: bt_collect_def bt_collect_fold_get) (simp add: bt_get_def)

lemma map_of_rev_distinct: "distinct (map fst ps) \<Longrightarrow> map_of (rev ps) = map_of ps"
  by (metis distinct_rev map_of_eqI map_of_eq_Some_iff map_of_inject_set rev_map set_rev)

lemma bt_collect_perm:
  assumes "distinct (map fst ps)" "distinct (map fst qs)" "set ps = set qs"
  shows "bt_collect ps = bt_collect qs"
  by (rule bt_eqI) (simp_all add: bt_collect_get map_of_rev_distinct assms map_of_inject_set)

text \<open>\<open>get_mut(k)\<close> followed by a change of the value.\<close>

definition bt_update :: "'k::linorder \<Rightarrow> ('v \<Rightarrow> 'v) \<Rightarrow> ('k, 'v) btree \<Rightarrow> ('k, 'v) btree" where
  "bt_update k f m = bt_map (\<lambda>k' v. if k' = k then f v else v) m"

lemma bt_update_ok [simp]: "bt_ok (bt_update k f m) \<longleftrightarrow> bt_ok m"
  by (simp add: bt_update_def)

lemma bt_get_update: "bt_get (bt_update k f m) k' =
    (if k' = k then map_option f (bt_get m k) else bt_get m k')"
  by (cases "bt_get m k'") (auto simp: bt_update_def)

lemma bt_values: "bt_ok m \<Longrightarrow> v \<in> snd ` set m \<longleftrightarrow> (\<exists>k. bt_get m k = Some v)"
  by (force simp: bt_get_in [symmetric])

text \<open>\<open>parse\<close> of an unsigned integer: an optional plus sign, at least one digit, no overflow.\<close>

fun parse_digits :: "nat \<Rightarrow> string \<Rightarrow> nat \<Rightarrow> nat option" where
  "parse_digits hi [] acc = Some acc"
| "parse_digits hi (c # cs) acc =
     (if 48 \<le> (of_char c :: nat) \<and> (of_char c :: nat) \<le> 57 then
        let n = acc * 10 + (of_char c - 48) in
        if n \<le> hi then parse_digits hi cs n else None
      else None)"

definition parse_uint :: "nat \<Rightarrow> string \<Rightarrow> nat option" where
  "parse_uint hi s =
     (case s of [] \<Rightarrow> None
      | c # cs \<Rightarrow> if c = CHR ''+'' \<and> cs \<noteq> [] then parse_digits hi cs 0 else parse_digits hi s 0)"

lemma parse_digits_append:
  "parse_digits hi (xs @ ys) acc = (case parse_digits hi xs acc of None \<Rightarrow> None | Some a \<Rightarrow> parse_digits hi ys a)"
  by (induction xs arbitrary: acc) (auto simp: Let_def split: option.splits)

lemma parse_digit: "k < 10 \<Longrightarrow> acc * 10 + k \<le> hi \<Longrightarrow> parse_digits hi [digit_char k] acc = Some (acc * 10 + k)"
  by (simp add: Let_def)

lemma parse_show_digits: "n \<le> hi \<Longrightarrow> parse_digits hi (show_nat n) 0 = Some n"
proof (induction n rule: show_nat.induct)
  case (1 n)
  show ?case
  proof (cases "n < 10")
    case True
    then show ?thesis using parse_digit [of n 0] 1 by (simp add: show_nat.simps [of n])
  next
    case False
    with 1 have "parse_digits hi (show_nat (n div 10)) 0 = Some (n div 10)" by simp
    moreover have "n div 10 * 10 + n mod 10 = n" by simp
    ultimately show ?thesis
      using False 1 parse_digit [of "n mod 10" "n div 10"]
      by (simp add: show_nat.simps [of n] parse_digits_append del: parse_digits.simps)
  qed
qed

lemma show_nat_nonempty [simp]: "show_nat n \<noteq> []"
  by (simp add: show_nat.simps [of n])

lemma parse_uint_digits:
  "s \<noteq> [] \<Longrightarrow> 48 \<le> (of_char (hd s) :: nat) \<Longrightarrow> parse_uint hi s = parse_digits hi s 0"
  by (cases s) (auto simp: parse_uint_def)

lemma parse_uint_show [simp]: "n \<le> hi \<Longrightarrow> parse_uint hi (show_nat n) = Some n"
  using parse_show_digits parse_uint_digits [of "show_nat n" hi] show_nat_digits [of "hd (show_nat n)" n] by simp

text \<open>\<open>format!("{n:020}")\<close>: padded with zeros in front.\<close>

definition zero_padded :: "nat \<Rightarrow> nat \<Rightarrow> string" where
  "zero_padded k n = replicate (k - length (show_nat n)) CHR ''0'' @ show_nat n"

lemma zero_padded_digits: "c \<in> set (zero_padded k n) \<Longrightarrow> 48 \<le> (of_char c :: nat) \<and> (of_char c :: nat) \<le> 57"
  using show_nat_digits [of c n] by (auto simp: zero_padded_def)

lemma zero_padded_nonempty [simp]: "zero_padded k n \<noteq> []"
  by (simp add: zero_padded_def)

lemma parse_zeros: "parse_digits hi (replicate k CHR ''0'') 0 = Some 0"
  by (induction k) (simp_all add: Let_def)

lemma parse_zero_padded [simp]: "n \<le> hi \<Longrightarrow> parse_uint hi (zero_padded k n) = Some n"
proof -
  assume n: "n \<le> hi"
  have "parse_digits hi (zero_padded k n) 0 = Some n"
    unfolding zero_padded_def parse_digits_append parse_zeros using parse_show_digits [OF n] by simp
  moreover have "parse_uint hi (zero_padded k n) = parse_digits hi (zero_padded k n) 0"
    using zero_padded_digits [of "hd (zero_padded k n)" k n] by (intro parse_uint_digits) simp_all
  ultimately show ?thesis by simp
qed

end
