(* ===== verification/A2aLedger.thy ===== *)
theory A2aLedger
  imports RustBase
begin

text \<open>
  The delegation store of \<open>crates/a2a\<close>: the receipts an execution home keeps about the tasks
  that other devices delegate to it.  Here are its data and every operation of
  \<open>store.rs\<close>, each as a transaction over the ledger file.

  The protocol crate (\<open>a2a\<close>), serde and blake3 are not part of this repository.  The
  protocol's data are records with the fields the store reads, the rest of each is opaque
  (\<open>'x\<close>), and what the store calls of these crates are fields of \<open>a2a_env\<close>.
  What the outside world supplies to one call (I/O failures, the clock, fresh identifiers)
  is a \<open>call\<close>.  Revisions and turns are counted without a bound: each step of one is a
  file write, so the \<open>u64\<close> of the code is never full.
\<close>

section \<open>Identities\<close>

datatype device_id = DeviceId string
datatype session_id = SessionId string

record agent_target =
  home :: device_id
  agent :: string

record session_ref =
  session_home :: device_id
  session_name :: session_id

record task_ref =
  ref_home :: device_id
  ref_id :: string

section \<open>Protocol data\<close>

datatype task_state = Unspecified | Submitted | Working | Completed | Failed | Canceled
  | InputRequired | Rejected | AuthRequired

datatype role = UnspecifiedRole | User | Agent

record 'x message =
  message_id :: string
  m_context :: "string option"
  m_task :: "string option"
  m_role :: role
  m_parts :: "'x list"
  m_rest :: 'x

record 'x artifact =
  artifact_id :: string
  a_parts :: "'x list"
  a_rest :: 'x

record 'x task_status =
  s_state :: task_state
  s_message :: "'x message option"
  s_timestamp :: "nat option"

record 'x task =
  t_id :: string
  t_context :: string
  t_status :: "'x task_status"
  t_artifacts :: "'x artifact list option"
  t_history :: "'x message list option"
  t_metadata :: "'x option"

section \<open>The ledger\<close>

record 'x entry =
  e_task :: "'x task"
  e_target :: agent_target
  e_caller :: device_id
  e_parent :: "task_ref option"
  e_revision :: nat
  e_cancel :: bool
  e_turn :: nat
  e_pending :: string

record context_row =
  c_target :: agent_target
  c_caller :: device_id
  c_session :: "session_ref option"

record input_fence =
  f_caller :: device_id
  f_target :: agent_target
  f_message :: string
  f_parent :: "task_ref option"

record dedup =
  d_fingerprint :: "string option"
  d_task :: "string option"
  d_fence :: "input_fence option"

record 'x ledger =
  version :: nat
  l_home :: device_id
  tasks :: "(string, 'x entry) btree"
  contexts :: "(string, context_row) btree"
  messages :: "(string, dedup) btree"

text \<open>What callers see.\<close>

record 'x receipt =
  r_task :: "'x task"
  r_target :: agent_target
  r_caller :: device_id
  r_parent :: "task_ref option"
  r_session :: "session_ref option"
  r_revision :: nat
  r_cancel :: bool

record 'x submission =
  receipt :: "'x receipt"
  accepted :: bool

datatype input_resolution =
    Fenced
  | Known task_ref task_state nat bool
  | Superseded task_ref

datatype a2a_error = Io string | Corrupt string | Invalid string | NotFound string | Conflict
  | InputFenced | Busy | Terminal | NotCancelable string | Adapter string

datatype protocol_error = TaskNotFound string | TaskNotCancelable string | InvalidParams string
  | UnsupportedOperation string | Internal string

fun to_protocol_error :: "a2a_error \<Rightarrow> protocol_error" where
  "to_protocol_error (NotFound i) = TaskNotFound i"
| "to_protocol_error (NotCancelable i) = TaskNotCancelable i"
| "to_protocol_error (Invalid why) = InvalidParams why"
| "to_protocol_error Conflict = InvalidParams ''Message ID or session binding conflict''"
| "to_protocol_error InputFenced = UnsupportedOperation ''This input was canceled before acceptance''"
| "to_protocol_error Busy = UnsupportedOperation ''The context is already executing''"
| "to_protocol_error Terminal = UnsupportedOperation ''The task is terminal''"
| "to_protocol_error _ = Internal ''Delegation storage or executor failure''"

definition MAX_MESSAGE_BYTES :: nat where "MAX_MESSAGE_BYTES = 128 * 1024"
definition MAX_TASK_BYTES :: nat where "MAX_TASK_BYTES = 4 * 1024 * 1024"
definition MAX_STORE_BYTES :: nat where "MAX_STORE_BYTES = 64 * 1024 * 1024"

section \<open>JSON values and fingerprints\<close>

datatype 'n json = JObject "(string \<times> 'n json) list" | JArray "'n json list" | JOther 'n

text \<open>\<open>fingerprint::ordered\<close>: every object's members through a \<open>BTreeMap\<close>, at every depth.\<close>

fun json_ordered :: "'n json \<Rightarrow> 'n json"
  and json_ordered_fields :: "(string \<times> 'n json) list \<Rightarrow> (string \<times> 'n json) list" where
  "json_ordered (JObject ms) = JObject (bt_collect (json_ordered_fields ms))"
| "json_ordered (JArray vs) = JArray (map json_ordered vs)"
| "json_ordered (JOther x) = JOther x"
| "json_ordered_fields [] = []"
| "json_ordered_fields ((k, v) # ms) = (k, json_ordered v) # json_ordered_fields ms"

record ('x, 'n) a2a_env =
  terminal :: "task_state \<Rightarrow> bool" \<comment> \<open>\<open>TaskState::is_terminal\<close>\<close>
  text_part :: "string \<Rightarrow> 'x" \<comment> \<open>\<open>Part::text\<close>\<close>
  new_message :: "string \<Rightarrow> role \<Rightarrow> 'x list \<Rightarrow> 'x message" \<comment> \<open>\<open>Message::new\<close> and the id it draws\<close>
  key_json :: "device_id \<Rightarrow> string \<Rightarrow> string \<Rightarrow> string + 'n json" \<comment> \<open>\<open>to_value\<close> of (caller, agent, message id)\<close>
  digest_json :: "agent_target \<Rightarrow> 'x message \<Rightarrow> task_ref option \<Rightarrow> string + 'n json"
  json_bytes :: "'n json \<Rightarrow> string + string" \<comment> \<open>\<open>serde_json::to_vec\<close>\<close>
  blake3_hex :: "string \<Rightarrow> string"
  message_bytes :: "'x message \<Rightarrow> string + string"
  entry_bytes :: "'x entry \<Rightarrow> string + string"
  ledger_bytes :: "'x ledger \<Rightarrow> string + string"
  ledger_parse :: "string \<Rightarrow> string + 'x ledger" \<comment> \<open>\<open>serde_json::from_slice\<close>\<close>

definition fingerprint :: "('x, 'n) a2a_env \<Rightarrow> string + 'n json \<Rightarrow> a2a_error + string" where
  "fingerprint E v =
     and_then (map_err Corrupt v) (\<lambda>j.
     and_then (map_err Corrupt (json_bytes E (json_ordered j))) (\<lambda>bytes.
       Inr (blake3_hex E bytes)))"

definition message_key :: "('x, 'n) a2a_env \<Rightarrow> device_id \<Rightarrow> agent_target \<Rightarrow> string \<Rightarrow> a2a_error + string" where
  "message_key E caller to message = fingerprint E (key_json E caller (agent to) message)"

section \<open>Checks on a ledger\<close>

definition opaque :: "string \<Rightarrow> a2a_error + unit" where
  "opaque v = ensure (\<not> (trim_is_empty v \<or> length v > 256 \<or> list_ex is_control (str_chars v)))
     (Invalid ''An identifier is empty, too long or contains control characters'')"

definition target_ok :: "device_id \<Rightarrow> agent_target \<Rightarrow> a2a_error + unit" where
  "target_ok here to =
     and_then (ensure (home to = here) (Invalid ''Delegation reached the wrong execution home'')) (\<lambda>_.
       opaque (agent to))"

definition dedup_validate :: "dedup \<Rightarrow> device_id \<Rightarrow> agent_target \<Rightarrow> string \<Rightarrow> a2a_error + unit" where
  "dedup_validate d caller to message =
     (let bad = Inl (Corrupt ''Input index has no valid acceptance or exact fence'') in
      case (d_fingerprint d, d_task d, d_fence d) of
        (Some fp, Some tid, None) \<Rightarrow>
          if length fp = 64 \<and> list_all is_ascii_hexdigit fp then opaque tid else bad
      | (None, None, Some f) \<Rightarrow>
          if f_caller f = caller \<and> f_target f = to \<and> f_message f = message \<and>
             (case f_parent f of None \<Rightarrow> True
              | Some p \<Rightarrow> ref_home p = caller \<and> is_ok (opaque (ref_id p)))
          then Inr () else bad
      | _ \<Rightarrow> bad)"

definition caller_entry ::
    "'x ledger \<Rightarrow> device_id \<Rightarrow> agent_target \<Rightarrow> string \<Rightarrow> a2a_error + 'x entry" where
  "caller_entry s caller to i =
     ok_or (case bt_get (tasks s) i of None \<Rightarrow> None
            | Some e \<Rightarrow> if e_caller e = caller \<and> e_target e = to then Some e else None)
       (NotFound i)"

definition read_record :: "'x ledger \<Rightarrow> string \<Rightarrow> a2a_error + 'x receipt" where
  "read_record s i =
     and_then (ok_or (bt_get (tasks s) i) (NotFound i)) (\<lambda>e.
     and_then (ok_or (case bt_get (contexts s) (t_context (e_task e)) of None \<Rightarrow> None
                      | Some c \<Rightarrow> if c_target c = e_target e \<and> c_caller c = e_caller e then Some c else None)
                (Corrupt ''Task context is missing or inconsistent'')) (\<lambda>c.
       Inr \<lparr>r_task = e_task e, r_target = e_target e, r_caller = e_caller e, r_parent = e_parent e,
            r_session = c_session c, r_revision = e_revision e, r_cancel = e_cancel e\<rparr>))"

definition e_state :: "'x entry \<Rightarrow> task_state" where
  "e_state e = s_state (t_status (e_task e))"

definition resolve_input ::
    "('x, 'n) a2a_env \<Rightarrow> device_id \<Rightarrow> 'x ledger \<Rightarrow> device_id \<Rightarrow> agent_target \<Rightarrow> string
       \<Rightarrow> a2a_error + input_resolution option" where
  "resolve_input E here s caller to message =
     and_then (message_key E caller to message) (\<lambda>key.
       case bt_get (messages s) key of None \<Rightarrow> Inr None
       | Some prior \<Rightarrow>
         and_then (dedup_validate prior caller to message) (\<lambda>_.
           case d_task prior of None \<Rightarrow> Inr (Some Fenced)
           | Some tid \<Rightarrow>
             and_then (caller_entry s caller to tid) (\<lambda>e.
               let ref = \<lparr>ref_home = here, ref_id = tid\<rparr> in
               if e_pending e \<noteq> message then Inr (Some (Superseded ref))
               else Inr (Some (Known ref (e_state e) (e_revision e) (e_cancel e))))))"

section \<open>Changes of an entry\<close>

definition push_history :: "'x message \<Rightarrow> 'x task \<Rightarrow> 'x task" where
  "push_history m t = t\<lparr>t_history := Some ((case t_history t of None \<Rightarrow> [] | Some h \<Rightarrow> h) @ [m])\<rparr>"

definition set_status ::
    "('x, 'n) a2a_env \<Rightarrow> nat \<Rightarrow> task_state \<Rightarrow> 'x message option \<Rightarrow> 'x entry \<Rightarrow> 'x entry" where
  "set_status E now st msg e =
     (let m = map_option (\<lambda>m. m\<lparr>m_task := Some (t_id (e_task e)), m_context := Some (t_context (e_task e))\<rparr>) msg;
          t = (case m of Some m' \<Rightarrow>
                 if terminal E st \<or> st \<in> {InputRequired, AuthRequired}
                 then push_history m' (e_task e) else e_task e
               | None \<Rightarrow> e_task e)
      in e\<lparr>e_task := t\<lparr>t_status := \<lparr>s_state = st, s_message = m, s_timestamp = Some now\<rparr>\<rparr>,
           e_revision := e_revision e + 1\<rparr>)"

definition put_entry :: "string \<Rightarrow> ('x entry \<Rightarrow> 'x entry) \<Rightarrow> 'x ledger \<Rightarrow> 'x ledger" where
  "put_entry i f s = s\<lparr>tasks := bt_update i f (tasks s)\<rparr>"

definition cancel_entry ::
    "('x, 'n) a2a_env \<Rightarrow> nat \<Rightarrow> device_id \<Rightarrow> agent_target \<Rightarrow> string \<Rightarrow> 'x ledger
       \<Rightarrow> a2a_error + 'x ledger" where
  "cancel_entry E now caller to i s =
     and_then (caller_entry s caller to i) (\<lambda>e.
       if e_state e = Canceled then Inr s
       else if terminal E (e_state e) then Inl (NotCancelable i)
       else
         let idle = (e_state e \<noteq> Working);
             flag = (\<lambda>e. if e_cancel e then e else e\<lparr>e_cancel := True, e_revision := e_revision e + 1\<rparr>);
             stop = (\<lambda>e. if idle then set_status E now Canceled None e else e)
         in Inr (put_entry i (\<lambda>e. stop (flag e)) s))"

definition bounded :: "('x, 'n) a2a_env \<Rightarrow> 'x entry \<Rightarrow> a2a_error + unit" where
  "bounded E e =
     (let limit = (if terminal E (e_state e) then MAX_TASK_BYTES else MAX_TASK_BYTES - 4096) in
      and_then (map_err Corrupt (entry_bytes E e)) (\<lambda>bytes.
        ensure (length bytes \<le> limit) (Invalid ''Delegation task exceeds its size limit'')))"

end
