(* ===== verification/A2aStore.thy ===== *)
theory A2aStore
  imports A2aLedger
begin

text \<open>
  The store's operations (\<open>impl Store\<close> in \<open>store.rs\<close>): loading and saving the ledger file,
  the lease files, the transaction around every operation, and the operations themselves.
  An operation is its checks followed by an action on the loaded ledger; an action gives an
  error, or an answer and the changed ledger.
\<close>

section \<open>Files and leases\<close>

datatype save_stage = CreateTemporary | WriteTemporary | SyncTemporary | RenameTemporary | SyncDirectory

record call =
  gate_fault :: "string option" \<comment> \<open>opening or locking \<open>store.lock\<close> fails\<close>
  read_fault :: "string option" \<comment> \<open>reading \<open>tasks.json\<close> fails, other than by its absence\<close>
  save_fault :: "(save_stage \<times> string) option"
  lease_fault :: "string \<Rightarrow> string option" \<comment> \<open>opening or locking this lease file fails\<close>
  clock :: "nat \<Rightarrow> nat"
  new_context :: string
  new_task :: string
  message_ids :: "nat \<Rightarrow> string"

text \<open>The directory: the bytes of \<open>tasks.json\<close>, and the names under \<open>leases\<close> some open file locks.\<close>

record dir =
  ledger_file :: "string option"
  held :: "string set"

definition empty_ledger :: "device_id \<Rightarrow> 'x ledger" where
  "empty_ledger here = \<lparr>version = 1, l_home = here, tasks = [], contexts = [], messages = []\<rparr>"

definition load_ledger :: "('x, 'n) a2a_env \<Rightarrow> device_id \<Rightarrow> call \<Rightarrow> dir \<Rightarrow> a2a_error + 'x ledger" where
  "load_ledger E here c d =
     (case read_fault c of Some e \<Rightarrow> Inl (Io e) | None \<Rightarrow>
      (case ledger_file d of None \<Rightarrow> Inr (empty_ledger here)
       | Some bytes \<Rightarrow>
         and_then (ensure (length bytes \<le> MAX_STORE_BYTES) (Corrupt ''Store exceeds its size limit'')) (\<lambda>_.
         and_then (map_err Corrupt (ledger_parse E bytes)) (\<lambda>s.
         and_then (ensure (version s = 1 \<and> l_home s = here)
                     (Corrupt ''Unsupported store version or execution home'')) (\<lambda>_.
           Inr s)))))"

definition save_ledger :: "('x, 'n) a2a_env \<Rightarrow> call \<Rightarrow> 'x ledger \<Rightarrow> dir \<Rightarrow> (a2a_error + unit) \<times> dir" where
  "save_ledger E c s d =
     (case ledger_bytes E s of Inl e \<Rightarrow> (Inl (Corrupt e), d)
      | Inr bytes \<Rightarrow>
        if length bytes > MAX_STORE_BYTES then (Inl (Invalid ''Delegation store is full''), d)
        else (case save_fault c of
            Some (SyncDirectory, e) \<Rightarrow> (Inl (Io e), d\<lparr>ledger_file := Some bytes\<rparr>)
          | Some (_, e) \<Rightarrow> (Inl (Io e), d)
          | None \<Rightarrow> (Inr (), d\<lparr>ledger_file := Some bytes\<rparr>)))"

definition transaction ::
    "('x, 'n) a2a_env \<Rightarrow> device_id \<Rightarrow> call \<Rightarrow> bool \<Rightarrow> ('x ledger \<Rightarrow> a2a_error + 'r \<times> 'x ledger) \<Rightarrow> dir
       \<Rightarrow> (a2a_error + 'r) \<times> dir" where
  "transaction E here c writes action d =
     (case gate_fault c of Some e \<Rightarrow> (Inl (Io e), d) | None \<Rightarrow>
      (case load_ledger E here c d of Inl e \<Rightarrow> (Inl e, d) | Inr s \<Rightarrow>
       (case action s of Inl e \<Rightarrow> (Inl e, d) | Inr (r, s') \<Rightarrow>
         if writes then
           (case save_ledger E c s' d of (Inl e, d') \<Rightarrow> (Inl e, d') | (Inr _, d') \<Rightarrow> (Inr r, d'))
         else (Inr r, d))))"

text \<open>The checks an operation makes before its transaction.\<close>

definition checked :: "a2a_error + 'a \<Rightarrow> ('a \<Rightarrow> (a2a_error + 'r) \<times> dir) \<Rightarrow> dir \<Rightarrow> (a2a_error + 'r) \<times> dir" where
  "checked r f d = (case r of Inl e \<Rightarrow> (Inl e, d) | Inr x \<Rightarrow> f x)"

definition try_lease :: "('x, 'n) a2a_env \<Rightarrow> call \<Rightarrow> string set \<Rightarrow> string \<Rightarrow> a2a_error + string" where
  "try_lease E c locked context_id =
     (let name = blake3_hex E context_id in
      case lease_fault c name of Some e \<Rightarrow> Inl (Io e)
      | None \<Rightarrow> if name \<in> locked then Inl Busy else Inr name)"

section \<open>Accepting a message\<close>

definition accept_checks ::
    "('x, 'n) a2a_env \<Rightarrow> device_id \<Rightarrow> device_id \<Rightarrow> agent_target \<Rightarrow> 'x message \<Rightarrow> task_ref option
       \<Rightarrow> a2a_error + string \<times> string" where
  "accept_checks E here caller to m parent =
     and_then (target_ok here to) (\<lambda>_.
     and_then (opaque (message_id m)) (\<lambda>_.
     and_then (case m_task m of None \<Rightarrow> Inr () | Some i \<Rightarrow> opaque i) (\<lambda>_.
     and_then (case m_context m of None \<Rightarrow> Inr () | Some i \<Rightarrow> opaque i) (\<lambda>_.
     and_then (ensure (m_role m = User \<and> m_parts m \<noteq> [])
                 (Invalid ''A delegation requires a client message with content'')) (\<lambda>_.
     and_then (case parent of None \<Rightarrow> Inr () | Some p \<Rightarrow> opaque (ref_id p)) (\<lambda>_.
     and_then (map_err Corrupt (message_bytes E m)) (\<lambda>bytes.
     and_then (ensure (length bytes \<le> MAX_MESSAGE_BYTES)
                 (Invalid ''Delegation message exceeds its size limit'')) (\<lambda>_.
     and_then (message_key E caller to (message_id m)) (\<lambda>key.
     and_then (fingerprint E (digest_json E to m parent)) (\<lambda>digest.
       Inr (key, digest)))))))))))"

definition accept_again ::
    "device_id \<Rightarrow> agent_target \<Rightarrow> 'x message \<Rightarrow> string \<Rightarrow> dedup \<Rightarrow> 'x ledger
       \<Rightarrow> a2a_error + 'x submission \<times> 'x ledger" where
  "accept_again caller to m digest prior s =
     and_then (dedup_validate prior caller to (message_id m)) (\<lambda>_.
     and_then (ok_or (d_task prior) InputFenced) (\<lambda>tid.
     and_then (ensure (d_fingerprint prior = Some digest) Conflict) (\<lambda>_.
     and_then (read_record s tid) (\<lambda>r.
       Inr (\<lparr>receipt = r, accepted = False\<rparr>, s)))))"

text \<open>A message that names its task answers the question that task waits on.\<close>

definition accept_answer ::
    "('x, 'n) a2a_env \<Rightarrow> call \<Rightarrow> string set \<Rightarrow> device_id \<Rightarrow> agent_target \<Rightarrow> 'x message \<Rightarrow> task_ref option
       \<Rightarrow> string \<Rightarrow> 'x ledger \<Rightarrow> a2a_error + string \<times> 'x ledger" where
  "accept_answer E c locked caller to m parent i s =
     and_then (caller_entry s caller to i) (\<lambda>e.
     and_then (ensure (\<not> terminal E (e_state e)) Terminal) (\<lambda>_.
     and_then (ensure ((case m_context m of None \<Rightarrow> True | Some cx \<Rightarrow> cx = t_context (e_task e)) \<and>
                       e_parent e = parent) Conflict) (\<lambda>_.
     and_then (ensure (\<not> e_cancel e \<and> e_state e \<in> {InputRequired, AuthRequired}) Busy) (\<lambda>_.
     and_then (try_lease E c locked (t_context (e_task e))) (\<lambda>_.
       let delivered = m\<lparr>m_context := Some (t_context (e_task e))\<rparr>;
           deliver = (\<lambda>e. set_status E (clock c 0) Submitted None
                        (e\<lparr>e_task := push_history delivered (e_task e), e_pending := message_id m\<rparr>))
       in Inr (i, put_entry i deliver s))))))"

definition new_entry ::
    "call \<Rightarrow> device_id \<Rightarrow> agent_target \<Rightarrow> 'x message \<Rightarrow> task_ref option \<Rightarrow> string \<Rightarrow> 'x entry" where
  "new_entry c caller to m parent cx =
     \<lparr>e_task = \<lparr>t_id = new_task c, t_context = cx,
         t_status = \<lparr>s_state = Submitted, s_message = None, s_timestamp = Some (clock c 0)\<rparr>,
         t_artifacts = None,
         t_history = Some [m\<lparr>m_task := Some (new_task c), m_context := Some cx\<rparr>],
         t_metadata = None\<rparr>,
       e_target = to, e_caller = caller, e_parent = parent, e_revision = 1, e_cancel = False,
       e_turn = 0, e_pending = message_id m\<rparr>"

definition accept_context ::
    "call \<Rightarrow> device_id \<Rightarrow> agent_target \<Rightarrow> 'x message \<Rightarrow> 'x ledger \<Rightarrow> a2a_error + string \<times> 'x ledger" where
  "accept_context c caller to m s =
     (case m_context m of
        Some i \<Rightarrow>
          and_then (ok_or (case bt_get (contexts s) i of None \<Rightarrow> None
              | Some x \<Rightarrow> if c_caller x = caller \<and> c_target x = to then Some x else None) (NotFound i)) (\<lambda>_.
            Inr (i, s))
      | None \<Rightarrow>
          Inr (new_context c, s\<lparr>contexts := bt_insert (new_context c)
                 \<lparr>c_target = to, c_caller = caller, c_session = None\<rparr> (contexts s)\<rparr>))"

definition accept_new ::
    "call \<Rightarrow> device_id \<Rightarrow> agent_target \<Rightarrow> 'x message \<Rightarrow> task_ref option \<Rightarrow> 'x ledger
       \<Rightarrow> a2a_error + string \<times> 'x ledger" where
  "accept_new c caller to m parent s =
     and_then (accept_context c caller to m s) (\<lambda>(cx, s').
       Inr (new_task c, s'\<lparr>tasks := bt_insert (new_task c) (new_entry c caller to m parent cx) (tasks s')\<rparr>))"

definition accept_action ::
    "('x, 'n) a2a_env \<Rightarrow> call \<Rightarrow> string set \<Rightarrow> device_id \<Rightarrow> agent_target \<Rightarrow> 'x message \<Rightarrow> task_ref option
       \<Rightarrow> string \<Rightarrow> string \<Rightarrow> 'x ledger \<Rightarrow> a2a_error + 'x submission \<times> 'x ledger" where
  "accept_action E c locked caller to m parent key digest s =
     (case bt_get (messages s) key of
        Some prior \<Rightarrow> accept_again caller to m digest prior s
      | None \<Rightarrow>
        and_then (case m_task m of Some i \<Rightarrow> accept_answer E c locked caller to m parent i s
                  | None \<Rightarrow> accept_new c caller to m parent s) (\<lambda>(tid, s').
        and_then (ok_or (bt_get (tasks s') tid) (NotFound tid)) (\<lambda>e.
        and_then (bounded E e) (\<lambda>_.
          let s'' = s'\<lparr>messages := bt_insert key
                 \<lparr>d_fingerprint = Some digest, d_task = Some tid, d_fence = None\<rparr> (messages s')\<rparr> in
          and_then (read_record s'' tid) (\<lambda>r.
            Inr (\<lparr>receipt = r, accepted = True\<rparr>, s''))))))"

definition accept ::
    "('x, 'n) a2a_env \<Rightarrow> device_id \<Rightarrow> call \<Rightarrow> device_id \<Rightarrow> agent_target \<Rightarrow> 'x message \<Rightarrow> task_ref option
       \<Rightarrow> dir \<Rightarrow> (a2a_error + 'x submission) \<times> dir" where
  "accept E here c caller to m parent d =
     checked (accept_checks E here caller to m parent) (\<lambda>(key, digest).
       transaction E here c True (accept_action E c (held d) caller to m parent key digest) d) d"

section \<open>Reading\<close>

definition get_task ::
    "('x, 'n) a2a_env \<Rightarrow> device_id \<Rightarrow> call \<Rightarrow> device_id \<Rightarrow> agent_target \<Rightarrow> string \<Rightarrow> dir
       \<Rightarrow> (a2a_error + 'x receipt) \<times> dir" where
  "get_task E here c caller to i d =
     checked (target_ok here to) (\<lambda>_.
       transaction E here c False (\<lambda>s.
         and_then (caller_entry s caller to i) (\<lambda>_.
         and_then (read_record s i) (\<lambda>r. Inr (r, s)))) d) d"

text \<open>\<open>collect\<close> into a \<open>Result\<close>: the first error, or all values.\<close>

fun collect_results :: "('e + 'a) list \<Rightarrow> 'e + 'a list" where
  "collect_results [] = Inr []"
| "collect_results (r # rs) = and_then r (\<lambda>x. and_then (collect_results rs) (\<lambda>xs. Inr (x # xs)))"

definition list_action ::
    "device_id \<Rightarrow> agent_target \<Rightarrow> string option \<Rightarrow> string option \<Rightarrow> nat \<Rightarrow> 'x ledger
       \<Rightarrow> a2a_error + 'x receipt list \<times> 'x ledger" where
  "list_action caller to cx after limit s =
     and_then (collect_results
       (map (\<lambda>e. read_record s (t_id (e_task e)))
         (take limit
           (filter (\<lambda>e. case after of None \<Rightarrow> True | Some i \<Rightarrow> i < t_id (e_task e))
             (filter (\<lambda>e. case cx of None \<Rightarrow> True | Some x \<Rightarrow> t_context (e_task e) = x)
               (filter (\<lambda>e. e_caller e = caller \<and> e_target e = to) (map snd (tasks s)))))))) (\<lambda>rs.
     Inr (rs, s))"

definition list_tasks ::
    "('x, 'n) a2a_env \<Rightarrow> device_id \<Rightarrow> call \<Rightarrow> device_id \<Rightarrow> agent_target \<Rightarrow> string option \<Rightarrow> string option
       \<Rightarrow> nat \<Rightarrow> dir \<Rightarrow> (a2a_error + 'x receipt list) \<times> dir" where
  "list_tasks E here c caller to cx after limit d =
     checked (and_then (target_ok here to) (\<lambda>_.
         ensure (1 \<le> limit \<and> limit \<le> 100) (Invalid ''Page size must be between 1 and 100''))) (\<lambda>_.
       transaction E here c False (list_action caller to cx after limit) d) d"

definition find_owned_message ::
    "('x, 'n) a2a_env \<Rightarrow> device_id \<Rightarrow> call \<Rightarrow> device_id \<Rightarrow> agent_target \<Rightarrow> string \<Rightarrow> dir
       \<Rightarrow> (a2a_error + input_resolution option) \<times> dir" where
  "find_owned_message E here c caller to message d =
     checked (and_then (target_ok here to) (\<lambda>_. opaque message)) (\<lambda>_.
       transaction E here c False (\<lambda>s.
         and_then (resolve_input E here s caller to message) (\<lambda>r. Inr (r, s))) d) d"

section \<open>Cancelling\<close>

definition cancel_action ::
    "('x, 'n) a2a_env \<Rightarrow> call \<Rightarrow> device_id \<Rightarrow> agent_target \<Rightarrow> string \<Rightarrow> 'x ledger
       \<Rightarrow> a2a_error + 'x receipt \<times> 'x ledger" where
  "cancel_action E c caller to i s =
     and_then (cancel_entry E (clock c 0) caller to i s) (\<lambda>s'.
     and_then (read_record s' i) (\<lambda>r. Inr (r, s')))"

definition request_cancel ::
    "('x, 'n) a2a_env \<Rightarrow> device_id \<Rightarrow> call \<Rightarrow> device_id \<Rightarrow> agent_target \<Rightarrow> string \<Rightarrow> dir
       \<Rightarrow> (a2a_error + 'x receipt) \<times> dir" where
  "request_cancel E here c caller to i d =
     checked (target_ok here to) (\<lambda>_.
       transaction E here c True (cancel_action E c caller to i) d) d"

definition cancel_input_change ::
    "('x, 'n) a2a_env \<Rightarrow> call \<Rightarrow> device_id \<Rightarrow> agent_target \<Rightarrow> string \<Rightarrow> task_ref option \<Rightarrow> string
       \<Rightarrow> 'x ledger \<Rightarrow> a2a_error + input_resolution option \<times> 'x ledger" where
  "cancel_input_change E c caller to message parent key s =
     (case bt_get (messages s) key of
        Some prior \<Rightarrow>
          and_then (dedup_validate prior caller to message) (\<lambda>_.
          (case d_fence prior of
             Some f \<Rightarrow> and_then (ensure (f_parent f = parent) Conflict) (\<lambda>_. Inr (Some Fenced, s))
           | None \<Rightarrow>
             (case d_task prior of None \<Rightarrow> Inr (None, s) \<comment> \<open>\<open>expect\<close>; \<open>validate\<close> excludes it\<close>
              | Some i \<Rightarrow>
                and_then (caller_entry s caller to i) (\<lambda>e.
                and_then (ensure (e_parent e = parent) Conflict) (\<lambda>_.
                  if e_pending e = message \<and> \<not> terminal E (e_state e)
                  then and_then (cancel_entry E (clock c 0) caller to i s) (\<lambda>s'. Inr (None, s'))
                  else Inr (None, s))))))
      | None \<Rightarrow>
          Inr (None, s\<lparr>messages := bt_insert key
            \<lparr>d_fingerprint = None, d_task = None,
             d_fence = Some \<lparr>f_caller = caller, f_target = to, f_message = message, f_parent = parent\<rparr>\<rparr>
            (messages s)\<rparr>))"

definition cancel_input_action ::
    "('x, 'n) a2a_env \<Rightarrow> device_id \<Rightarrow> call \<Rightarrow> device_id \<Rightarrow> agent_target \<Rightarrow> string \<Rightarrow> task_ref option
       \<Rightarrow> string \<Rightarrow> 'x ledger \<Rightarrow> a2a_error + input_resolution \<times> 'x ledger" where
  "cancel_input_action E here c caller to message parent key s =
     and_then (cancel_input_change E c caller to message parent key s) (\<lambda>(early, s').
       case early of Some r \<Rightarrow> Inr (r, s')
       | None \<Rightarrow>
         and_then (resolve_input E here s' caller to message) (\<lambda>r.
         and_then (ok_or r (Corrupt ''Input resolution disappeared'')) (\<lambda>r.
           Inr (r, s'))))"

definition cancel_input_checks ::
    "('x, 'n) a2a_env \<Rightarrow> device_id \<Rightarrow> device_id \<Rightarrow> agent_target \<Rightarrow> string \<Rightarrow> task_ref option
       \<Rightarrow> a2a_error + string" where
  "cancel_input_checks E here caller to message parent =
     and_then (target_ok here to) (\<lambda>_.
     and_then (opaque message) (\<lambda>_.
     and_then (case parent of None \<Rightarrow> Inr ()
               | Some p \<Rightarrow> and_then (opaque (ref_id p)) (\<lambda>_.
                   ensure (ref_home p = caller) (Invalid ''Input parent belongs to another caller''))) (\<lambda>_.
       message_key E caller to message)))"

definition cancel_input ::
    "('x, 'n) a2a_env \<Rightarrow> device_id \<Rightarrow> call \<Rightarrow> device_id \<Rightarrow> agent_target \<Rightarrow> string \<Rightarrow> task_ref option
       \<Rightarrow> dir \<Rightarrow> (a2a_error + input_resolution) \<times> dir" where
  "cancel_input E here c caller to message parent d =
     checked (cancel_input_checks E here caller to message parent) (\<lambda>key.
       transaction E here c True (cancel_input_action E here c caller to message parent key) d) d"

section \<open>The executor's side\<close>

definition claim_action ::
    "('x, 'n) a2a_env \<Rightarrow> call \<Rightarrow> string set \<Rightarrow> string \<Rightarrow> string \<Rightarrow> 'x ledger
       \<Rightarrow> a2a_error + (string \<times> nat \<times> 'x receipt \<times> 'x message) \<times> 'x ledger" where
  "claim_action E c locked i message s =
     and_then (ok_or (bt_get (tasks s) i) (NotFound i)) (\<lambda>e.
     and_then (ensure (\<not> terminal E (e_state e)) Terminal) (\<lambda>_.
     and_then (ensure (e_state e = Submitted \<and> e_pending e = message \<and> \<not> e_cancel e) Busy) (\<lambda>_.
     and_then (try_lease E c locked (t_context (e_task e))) (\<lambda>lease.
     and_then (ensure (\<not> list_ex (\<lambda>(k, o'). t_id (e_task o') \<noteq> i \<and>
                   t_context (e_task o') = t_context (e_task e) \<and> e_state o' = Working) (tasks s)) Busy) (\<lambda>_.
     and_then (ok_or (case t_history (e_task e) of None \<Rightarrow> None
                      | Some h \<Rightarrow> List.find (\<lambda>m. message_id m = message) h)
                 (Corrupt ''Accepted input is missing'')) (\<lambda>input.
       let s' = put_entry i (\<lambda>e. set_status E (clock c 0) Working None (e\<lparr>e_turn := e_turn e + 1\<rparr>)) s in
       and_then (read_record s' i) (\<lambda>r.
         Inr ((lease, e_turn e + 1, r, input), s'))))))))"

text \<open>The lease is held once the call has returned it.\<close>

definition claim ::
    "('x, 'n) a2a_env \<Rightarrow> device_id \<Rightarrow> call \<Rightarrow> string \<Rightarrow> string \<Rightarrow> dir
       \<Rightarrow> (a2a_error + string \<times> nat \<times> 'x receipt \<times> 'x message) \<times> dir" where
  "claim E here c i message d =
     (case transaction E here c True (claim_action E c (held d) i message) d of
        (Inl e, d') \<Rightarrow> (Inl e, d')
      | (Inr (lease, r), d') \<Rightarrow> (Inr (lease, r), d'\<lparr>held := insert lease (held d')\<rparr>))"

fun put_artifact :: "'x artifact \<Rightarrow> 'x artifact list \<Rightarrow> 'x artifact list" where
  "put_artifact a [] = [a]"
| "put_artifact a (b # bs) = (if artifact_id b = artifact_id a then a # bs else b # put_artifact a bs)"

definition update_checks ::
    "task_state \<Rightarrow> 'x message option \<Rightarrow> 'x artifact option \<Rightarrow> a2a_error + unit" where
  "update_checks st msg art =
     and_then (ensure (st \<notin> {Unspecified, Submitted})
         (Invalid ''An executor cannot reset a task to submitted or unspecified'')) (\<lambda>_.
     and_then (ensure (case msg of None \<Rightarrow> True | Some m \<Rightarrow> m_role m = Agent \<and> m_parts m \<noteq> [])
         (Invalid ''An executor status message must be an agent message'')) (\<lambda>_.
     and_then (case msg of None \<Rightarrow> Inr () | Some m \<Rightarrow> opaque (message_id m)) (\<lambda>_.
       (case art of None \<Rightarrow> Inr () | Some a \<Rightarrow>
          and_then (opaque (artifact_id a)) (\<lambda>_.
            ensure (a_parts a \<noteq> []) (Invalid ''An artifact requires content''))))))"

definition add_artifact :: "'x artifact option \<Rightarrow> 'x entry \<Rightarrow> 'x entry" where
  "add_artifact art e = (case art of None \<Rightarrow> e | Some a \<Rightarrow>
     e\<lparr>e_task := (e_task e)\<lparr>t_artifacts :=
        Some (put_artifact a (case t_artifacts (e_task e) of None \<Rightarrow> [] | Some l \<Rightarrow> l))\<rparr>\<rparr>)"

definition update_action ::
    "('x, 'n) a2a_env \<Rightarrow> call \<Rightarrow> string \<Rightarrow> nat \<Rightarrow> task_state \<Rightarrow> 'x message option \<Rightarrow> 'x artifact option
       \<Rightarrow> 'x ledger \<Rightarrow> a2a_error + 'x receipt \<times> 'x ledger" where
  "update_action E c i turn st msg art s =
     and_then (ok_or (bt_get (tasks s) i) (NotFound i)) (\<lambda>e.
     and_then (ensure (\<not> terminal E (e_state e)) Terminal) (\<lambda>_.
     and_then (ensure (e_turn e = turn \<and> e_state e \<noteq> Submitted) Conflict) (\<lambda>_.
       let change = (\<lambda>e. set_status E (clock c 0) st msg (add_artifact art e));
           s' = put_entry i change s in
       and_then (bounded E (change e)) (\<lambda>_.
       and_then (read_record s' i) (\<lambda>r. Inr (r, s'))))))"

definition executor_update ::
    "('x, 'n) a2a_env \<Rightarrow> device_id \<Rightarrow> call \<Rightarrow> string \<Rightarrow> nat \<Rightarrow> task_state \<Rightarrow> 'x message option
       \<Rightarrow> 'x artifact option \<Rightarrow> dir \<Rightarrow> (a2a_error + 'x receipt) \<times> dir" where
  "executor_update E here c i turn st msg art d =
     checked (update_checks st msg art) (\<lambda>_.
       transaction E here c True (update_action E c i turn st msg art) d) d"

text \<open>The binding reaches every task of the context: each of their records shows it.\<close>

definition bind_context :: "string \<Rightarrow> session_ref \<Rightarrow> 'x ledger \<Rightarrow> 'x ledger" where
  "bind_context cx session s =
     s\<lparr>contexts := bt_update cx (\<lambda>x. x\<lparr>c_session := Some session\<rparr>) (contexts s),
       tasks := bt_map (\<lambda>k e. if t_context (e_task e) = cx then e\<lparr>e_revision := e_revision e + 1\<rparr> else e)
                  (tasks s)\<rparr>"

definition bind_action ::
    "device_id \<Rightarrow> string \<Rightarrow> nat \<Rightarrow> session_ref \<Rightarrow> ('x, 'n) a2a_env \<Rightarrow> 'x ledger
       \<Rightarrow> a2a_error + 'x receipt \<times> 'x ledger" where
  "bind_action here i turn session E s =
     and_then (ok_or (bt_get (tasks s) i) (NotFound i)) (\<lambda>e.
     and_then (ensure (\<not> terminal E (e_state e)) Terminal) (\<lambda>_.
     and_then (ensure (e_turn e = turn \<and> e_state e \<noteq> Submitted) Conflict) (\<lambda>_.
     and_then (ensure (session_home session = here)
         (Invalid ''A session binding must belong to the execution home'')) (\<lambda>_.
     let cx = t_context (e_task e) in
     and_then (ensure (\<not> list_ex (\<lambda>(k, x). k \<noteq> cx \<and> c_session x = Some session) (contexts s)) Conflict) (\<lambda>_.
     and_then (ok_or (bt_get (contexts s) cx) (Corrupt ''Context missing'')) (\<lambda>x.
     and_then (ensure (case c_session x of None \<Rightarrow> True | Some b \<Rightarrow> b = session) Conflict) (\<lambda>_.
       let s' = (if c_session x = None then bind_context cx session s else s) in
       and_then (read_record s' i) (\<lambda>r. Inr (r, s')))))))))"

definition bind_session ::
    "('x, 'n) a2a_env \<Rightarrow> device_id \<Rightarrow> call \<Rightarrow> string \<Rightarrow> nat \<Rightarrow> session_ref \<Rightarrow> dir
       \<Rightarrow> (a2a_error + 'x receipt) \<times> dir" where
  "bind_session E here c i turn session d =
     checked (case session_name session of SessionId n \<Rightarrow> opaque n) (\<lambda>_.
       transaction E here c True (bind_action here i turn session E) d) d"

section \<open>Startup\<close>

definition INTERRUPTED :: string where
  "INTERRUPTED = ''Execution was interrupted; the task was not restarted.''"

fun recover_loop ::
    "('x, 'n) a2a_env \<Rightarrow> call \<Rightarrow> string set \<Rightarrow> nat \<Rightarrow> (string \<times> string) list \<Rightarrow> 'x ledger
       \<Rightarrow> a2a_error + 'x receipt list \<times> 'x ledger" where
  "recover_loop E c locked n [] s = Inr ([], s)"
| "recover_loop E c locked n ((i, cx) # ids) s =
     (case try_lease E c locked cx of
        Inl Busy \<Rightarrow> recover_loop E c locked (n + 1) ids s
      | Inl e \<Rightarrow> Inl e
      | Inr _ \<Rightarrow>
        let s' = put_entry i (set_status E (clock c n) Failed
                   (Some (new_message E (message_ids c n) Agent [text_part E INTERRUPTED]))) s in
        and_then (read_record s' i) (\<lambda>r.
        and_then (recover_loop E c locked (n + 1) ids s') (\<lambda>(rs, s'').
          Inr (r # rs, s''))))"

definition working_tasks :: "'x ledger \<Rightarrow> (string \<times> string) list" where
  "working_tasks s = map (\<lambda>e. (t_id (e_task e), t_context (e_task e)))
     (filter (\<lambda>e. e_state e = Working) (map snd (tasks s)))"

definition recover_action ::
    "('x, 'n) a2a_env \<Rightarrow> call \<Rightarrow> string set \<Rightarrow> 'x ledger \<Rightarrow> a2a_error + 'x receipt list \<times> 'x ledger" where
  "recover_action E c locked s = recover_loop E c locked 0 (working_tasks s) s"

definition recover ::
    "('x, 'n) a2a_env \<Rightarrow> device_id \<Rightarrow> call \<Rightarrow> dir \<Rightarrow> (a2a_error + 'x receipt list) \<times> dir" where
  "recover E here c d = transaction E here c True (recover_action E c (held d)) d"

end
