(* ===== verification/A2aMachine.thy ===== *)
theory A2aMachine
  imports A2aStore "HOL-Library.Sublist"
begin

text \<open>
  The abstract machine the delegation store implements.  One task moves by \<open>entry_step\<close>
  (deliver an answer, flag a cancellation, stop, start a turn, report); a ledger moves by
  \<open>ledger_change\<close> (one task moves, or a context, a task, an input index row or a session
  binding appears).  \<open>A2aRefines\<close> shows every operation of the store to be a sequence of
  these changes.  Here: what every change preserves.
\<close>

definition a2a_env_ok :: "('x, 'n) a2a_env \<Rightarrow> bool" where
  "a2a_env_ok E \<longleftrightarrow>
     (\<forall>st. terminal E st \<longleftrightarrow> st \<in> {Completed, Failed, Canceled, Rejected}) \<and>
     (\<forall>s b. ledger_bytes E s = Inr b \<longrightarrow> ledger_parse E b = Inr s) \<and>
     (\<forall>b. length (blake3_hex E b) = 64 \<and> list_all is_ascii_hexdigit (blake3_hex E b))"

lemma env_terminal: "a2a_env_ok E \<Longrightarrow> terminal E st \<longleftrightarrow> st \<in> {Completed, Failed, Canceled, Rejected}"
  by (simp add: a2a_env_ok_def)

lemma env_codec: "a2a_env_ok E \<Longrightarrow> ledger_bytes E s = Inr b \<Longrightarrow> ledger_parse E b = Inr s"
  by (simp add: a2a_env_ok_def)

section \<open>One task\<close>

inductive entry_step :: "('x, 'n) a2a_env \<Rightarrow> string set \<Rightarrow> bool \<Rightarrow> bool \<Rightarrow> 'x entry \<Rightarrow> 'x entry \<Rightarrow> bool"
  for E locked mine alone where
  Deliver: "e_state e \<in> {InputRequired, AuthRequired} \<Longrightarrow> \<not> e_cancel e \<Longrightarrow>
    blake3_hex E (t_context (e_task e)) \<notin> locked \<Longrightarrow> message_id m = p \<Longrightarrow> m_role m = User \<Longrightarrow>
    entry_step E locked mine alone e
      (set_status E now Submitted None (e\<lparr>e_task := push_history m (e_task e), e_pending := p\<rparr>))"
| Flag: "\<not> terminal E (e_state e) \<Longrightarrow> \<not> e_cancel e \<Longrightarrow>
    entry_step E locked mine alone e (e\<lparr>e_cancel := True, e_revision := e_revision e + 1\<rparr>)"
| Stop: "\<not> terminal E (e_state e) \<Longrightarrow> e_state e \<noteq> Working \<Longrightarrow> e_cancel e \<Longrightarrow>
    entry_step E locked mine alone e (set_status E now Canceled None e)"
| Start: "e_state e = Submitted \<Longrightarrow> \<not> e_cancel e \<Longrightarrow>
    blake3_hex E (t_context (e_task e)) \<notin> locked \<Longrightarrow> alone \<Longrightarrow>
    entry_step E locked mine alone e (set_status E now Working None (e\<lparr>e_turn := e_turn e + 1\<rparr>))"
| Report: "\<not> terminal E (e_state e) \<Longrightarrow> e_state e \<noteq> Submitted \<Longrightarrow> st \<notin> {Unspecified, Submitted} \<Longrightarrow>
    st = Working \<longrightarrow> mine \<and> alone \<Longrightarrow>
    entry_step E locked mine alone e (set_status E now st msg (add_artifact art e))"

inductive_cases entry_stepE: "entry_step E locked mine alone e e'"

definition history :: "'x task \<Rightarrow> 'x message list" where
  "history t = (case t_history t of None \<Rightarrow> [] | Some h \<Rightarrow> h)"

lemma set_status_simps [simp]:
  "e_state (set_status E now st msg e) = st"
  "t_id (e_task (set_status E now st msg e)) = t_id (e_task e)"
  "t_context (e_task (set_status E now st msg e)) = t_context (e_task e)"
  "e_target (set_status E now st msg e) = e_target e"
  "e_caller (set_status E now st msg e) = e_caller e"
  "e_parent (set_status E now st msg e) = e_parent e"
  "e_revision (set_status E now st msg e) = Suc (e_revision e)"
  "e_cancel (set_status E now st msg e) = e_cancel e"
  "e_turn (set_status E now st msg e) = e_turn e"
  "e_pending (set_status E now st msg e) = e_pending e"
  by (auto simp: set_status_def e_state_def push_history_def Let_def split: option.splits)

lemma add_artifact_simps [simp]:
  "e_state (add_artifact a e) = e_state e"
  "t_id (e_task (add_artifact a e)) = t_id (e_task e)"
  "t_context (e_task (add_artifact a e)) = t_context (e_task e)"
  "t_history (e_task (add_artifact a e)) = t_history (e_task e)"
  "e_target (add_artifact a e) = e_target e"
  "e_caller (add_artifact a e) = e_caller e"
  "e_parent (add_artifact a e) = e_parent e"
  "e_revision (add_artifact a e) = e_revision e"
  "e_cancel (add_artifact a e) = e_cancel e"
  "e_turn (add_artifact a e) = e_turn e"
  "e_pending (add_artifact a e) = e_pending e"
  by (auto simp: add_artifact_def e_state_def split: option.splits)

lemma push_history_simps [simp]:
  "t_id (push_history m t) = t_id t"
  "t_context (push_history m t) = t_context t"
  "t_status (push_history m t) = t_status t"
  "history (push_history m t) = history t @ [m]"
  by (simp_all add: push_history_def history_def)

lemma e_state_update [simp]:
  "e_state (e\<lparr>e_cancel := b\<rparr>) = e_state e" "e_state (e\<lparr>e_revision := n\<rparr>) = e_state e"
  "e_state (e\<lparr>e_turn := n\<rparr>) = e_state e" "e_state (e\<lparr>e_pending := p\<rparr>) = e_state e"
  "e_state (e\<lparr>e_task := push_history m (e_task e)\<rparr>) = e_state e"
  by (simp_all add: e_state_def)

lemma set_status_history: "prefix (history (e_task e)) (history (e_task (set_status E now st msg e)))"
  by (auto simp: set_status_def history_def push_history_def Let_def split: option.splits)

lemma history_add_artifact [simp]: "history (e_task (add_artifact a e)) = history (e_task e)"
  by (simp add: history_def)

text \<open>What a move of a task keeps, and what it may only advance.\<close>

definition entry_evolves :: "('x, 'n) a2a_env \<Rightarrow> 'x entry \<Rightarrow> 'x entry \<Rightarrow> bool" where
  "entry_evolves E e e' \<longleftrightarrow>
     t_id (e_task e') = t_id (e_task e) \<and> t_context (e_task e') = t_context (e_task e) \<and>
     e_target e' = e_target e \<and> e_caller e' = e_caller e \<and> e_parent e' = e_parent e \<and>
     e_revision e \<le> e_revision e' \<and> e_turn e \<le> e_turn e' \<and> (e_cancel e \<longrightarrow> e_cancel e') \<and>
     prefix (history (e_task e)) (history (e_task e')) \<and>
     (terminal E (e_state e) \<longrightarrow> e' = e\<lparr>e_revision := e_revision e'\<rparr>)"

lemma entry_evolves_refl [simp]: "entry_evolves E e e"
  by (simp add: entry_evolves_def)

lemma entry_evolves_trans:
  assumes "entry_evolves E a b" "entry_evolves E b c"
  shows "entry_evolves E a c"
proof -
  have "terminal E (e_state a) \<longrightarrow> c = a\<lparr>e_revision := e_revision c\<rparr>"
  proof
    assume t: "terminal E (e_state a)"
    then have b: "b = a\<lparr>e_revision := e_revision b\<rparr>" using assms(1) by (simp add: entry_evolves_def)
    then have "e_state b = e_state a" by (metis e_state_update(2))
    then have "c = b\<lparr>e_revision := e_revision c\<rparr>" using assms(2) t by (simp add: entry_evolves_def)
    then show "c = a\<lparr>e_revision := e_revision c\<rparr>" using b by (metis entry.update_convs(5) entry.surjective)
  qed
  then show ?thesis using assms unfolding entry_evolves_def
    by (metis le_trans prefix_order.order_trans)
qed

lemma entry_step_evolves:
  assumes "a2a_env_ok E" "entry_step E locked mine alone e e'"
  shows "entry_evolves E e e' \<and> e_revision e < e_revision e'"
  using assms(2)
proof cases
  case (Deliver m p now)
  let ?e = "e\<lparr>e_task := push_history m (e_task e), e_pending := p\<rparr>"
  have "prefix (history (e_task e)) (history (e_task ?e))" by simp
  also have "prefix \<dots> (history (e_task (set_status E now Submitted None ?e)))" by (rule set_status_history)
  finally show ?thesis using Deliver assms(1) by (auto simp: entry_evolves_def env_terminal)
next
  case (Start now)
  then show ?thesis
    using assms(1) set_status_history [of "e\<lparr>e_turn := e_turn e + 1\<rparr>" E now Working None]
    by (auto simp: entry_evolves_def env_terminal)
next
  case (Report st now msg art)
  then show ?thesis using set_status_history [of "add_artifact art e" E now st msg]
    by (auto simp: entry_evolves_def)
qed (auto simp: entry_evolves_def set_status_history)

section \<open>The ledger\<close>

definition alone :: "'x ledger \<Rightarrow> string \<Rightarrow> string \<Rightarrow> bool" where
  "alone s i cx \<longleftrightarrow> (\<forall>j e. bt_get (tasks s) j = Some e \<and> j \<noteq> i \<and> t_context (e_task e) = cx \<longrightarrow> e_state e \<noteq> Working)"

definition dedup_shape :: "'x ledger \<Rightarrow> dedup \<Rightarrow> bool" where
  "dedup_shape s d \<longleftrightarrow>
     (\<exists>fp i e. d = \<lparr>d_fingerprint = Some fp, d_task = Some i, d_fence = None\<rparr> \<and> length fp = 64 \<and>
        list_all is_ascii_hexdigit fp \<and> opaque i = Inr () \<and> bt_get (tasks s) i = Some e) \<or>
     (\<exists>f. d = \<lparr>d_fingerprint = None, d_task = None, d_fence = Some f\<rparr>)"

inductive ledger_change ::
    "('x, 'n) a2a_env \<Rightarrow> string set \<Rightarrow> string option \<Rightarrow> 'x ledger \<Rightarrow> 'x ledger \<Rightarrow> bool"
  for E locked who where
  Move: "bt_get (tasks s) i = Some e \<Longrightarrow>
    entry_step E locked (who = Some i) (alone s i (t_context (e_task e))) e (f e) \<Longrightarrow>
    ledger_change E locked who s (put_entry i f s)"
| New_context: "bt_get (contexts s) cx = None \<Longrightarrow>
    ledger_change E locked who s
      (s\<lparr>contexts := bt_insert cx \<lparr>c_target = to, c_caller = caller, c_session = None\<rparr> (contexts s)\<rparr>)"
| New_entry: "bt_get (tasks s) i = None \<Longrightarrow> bt_get (contexts s) (t_context (e_task e)) = Some x \<Longrightarrow>
    c_target x = e_target e \<Longrightarrow> c_caller x = e_caller e \<Longrightarrow> t_id (e_task e) = i \<Longrightarrow>
    e_state e = Submitted \<Longrightarrow> e_turn e = 0 \<Longrightarrow>
    (\<exists>m \<in> set (history (e_task e)). message_id m = e_pending e \<and> m_role m = User) \<Longrightarrow>
    ledger_change E locked who s (s\<lparr>tasks := bt_insert i e (tasks s)\<rparr>)"
| New_index: "bt_get (messages s) k = None \<Longrightarrow> dedup_shape s d \<Longrightarrow>
    ledger_change E locked who s (s\<lparr>messages := bt_insert k d (messages s)\<rparr>)"
| Bind: "bt_get (contexts s) cx = Some x \<Longrightarrow> c_session x = None \<Longrightarrow>
    (\<forall>k y. bt_get (contexts s) k = Some y \<and> k \<noteq> cx \<longrightarrow> c_session y \<noteq> Some b) \<Longrightarrow>
    ledger_change E locked who s (bind_context cx b s)"

abbreviation ledger_changes ::
    "('x, 'n) a2a_env \<Rightarrow> string set \<Rightarrow> string option \<Rightarrow> 'x ledger \<Rightarrow> 'x ledger \<Rightarrow> bool" where
  "ledger_changes E locked who \<equiv> (ledger_change E locked who)\<^sup>*\<^sup>*"

definition session_of :: "'x ledger \<Rightarrow> string \<Rightarrow> session_ref option" where
  "session_of s cx = (case bt_get (contexts s) cx of None \<Rightarrow> None | Some x \<Rightarrow> c_session x)"

lemma put_entry_simps [simp]:
  "contexts (put_entry i f s) = contexts s" "messages (put_entry i f s) = messages s"
  "version (put_entry i f s) = version s" "l_home (put_entry i f s) = l_home s"
  "bt_get (tasks (put_entry i f s)) j = (if j = i then map_option f (bt_get (tasks s) i) else bt_get (tasks s) j)"
  "bt_ok (tasks (put_entry i f s)) = bt_ok (tasks s)"
  by (simp_all add: put_entry_def bt_get_update)

lemma bind_context_simps [simp]:
  "messages (bind_context cx b s) = messages s"
  "version (bind_context cx b s) = version s" "l_home (bind_context cx b s) = l_home s"
  "bt_get (tasks (bind_context cx b s)) j =
     map_option (\<lambda>e. if t_context (e_task e) = cx then e\<lparr>e_revision := e_revision e + 1\<rparr> else e)
       (bt_get (tasks s) j)"
  "bt_get (contexts (bind_context cx b s)) k =
     (if k = cx then map_option (\<lambda>x. x\<lparr>c_session := Some b\<rparr>) (bt_get (contexts s) cx)
      else bt_get (contexts s) k)"
  "bt_ok (tasks (bind_context cx b s)) = bt_ok (tasks s)"
  "bt_ok (contexts (bind_context cx b s)) = bt_ok (contexts s)"
  by (simp_all add: bind_context_def bt_get_update)

text \<open>How two ledgers of one run are related.\<close>

definition evolves :: "('x, 'n) a2a_env \<Rightarrow> 'x ledger \<Rightarrow> 'x ledger \<Rightarrow> bool" where
  "evolves E s s' \<longleftrightarrow>
     version s' = version s \<and> l_home s' = l_home s \<and>
     (\<forall>i e. bt_get (tasks s) i = Some e \<longrightarrow>
        (\<exists>e'. bt_get (tasks s') i = Some e' \<and> entry_evolves E e e' \<and>
          (e_revision e' = e_revision e \<and> bt_get (contexts s) (t_context (e_task e)) \<noteq> None \<longrightarrow>
             e' = e \<and> session_of s' (t_context (e_task e)) = session_of s (t_context (e_task e))))) \<and>
     (\<forall>cx x. bt_get (contexts s) cx = Some x \<longrightarrow>
        (\<exists>x'. bt_get (contexts s') cx = Some x' \<and> c_target x' = c_target x \<and> c_caller x' = c_caller x \<and>
          (\<forall>b. c_session x = Some b \<longrightarrow> c_session x' = Some b))) \<and>
     (\<forall>k d. bt_get (messages s) k = Some d \<longrightarrow> bt_get (messages s') k = Some d)"

lemma evolves_refl [simp]: "evolves E s s"
  by (auto simp: evolves_def)

lemma evolves_trans:
  assumes "evolves E a b" "evolves E b c"
  shows "evolves E a c"
proof -
  have "\<exists>e''. bt_get (tasks c) i = Some e'' \<and> entry_evolves E e e'' \<and>
      (e_revision e'' = e_revision e \<and> bt_get (contexts a) (t_context (e_task e)) \<noteq> None \<longrightarrow>
        e'' = e \<and> session_of c (t_context (e_task e)) = session_of a (t_context (e_task e)))"
    if e: "bt_get (tasks a) i = Some e" for i e
  proof -
    obtain e' where e': "bt_get (tasks b) i = Some e'" "entry_evolves E e e'"
        "e_revision e' = e_revision e \<and> bt_get (contexts a) (t_context (e_task e)) \<noteq> None \<longrightarrow>
          e' = e \<and> session_of b (t_context (e_task e)) = session_of a (t_context (e_task e))"
      using assms(1) e unfolding evolves_def by meson
    obtain e'' where e'': "bt_get (tasks c) i = Some e''" "entry_evolves E e' e''"
        "e_revision e'' = e_revision e' \<and> bt_get (contexts b) (t_context (e_task e')) \<noteq> None \<longrightarrow>
          e'' = e' \<and> session_of c (t_context (e_task e')) = session_of b (t_context (e_task e'))"
      using assms(2) e'(1) unfolding evolves_def by meson
    have "e_revision e \<le> e_revision e'" "e_revision e' \<le> e_revision e''"
        "t_context (e_task e') = t_context (e_task e)"
      using e'(2) e''(2) by (auto simp: entry_evolves_def)
    moreover have "bt_get (contexts a) cx \<noteq> None \<Longrightarrow> bt_get (contexts b) cx \<noteq> None" for cx
      using assms(1) unfolding evolves_def by (metis not_Some_eq)
    ultimately show ?thesis using e' e'' entry_evolves_trans by (metis le_antisym)
  qed
  moreover have "\<exists>x''. bt_get (contexts c) cx = Some x'' \<and> c_target x'' = c_target x \<and>
      c_caller x'' = c_caller x \<and> (\<forall>b. c_session x = Some b \<longrightarrow> c_session x'' = Some b)"
    if x: "bt_get (contexts a) cx = Some x" for cx x
  proof -
    obtain x' where "bt_get (contexts b) cx = Some x'" "c_target x' = c_target x"
        "c_caller x' = c_caller x" "\<forall>b. c_session x = Some b \<longrightarrow> c_session x' = Some b"
      using assms(1) x unfolding evolves_def by meson
    moreover from this(1) obtain x'' where "bt_get (contexts c) cx = Some x''" "c_target x'' = c_target x'"
        "c_caller x'' = c_caller x'" "\<forall>b. c_session x' = Some b \<longrightarrow> c_session x'' = Some b"
      using assms(2) unfolding evolves_def by meson
    ultimately show ?thesis by auto
  qed
  ultimately show ?thesis using assms by (simp add: evolves_def)
qed

lemma ledger_change_evolves:
  assumes "a2a_env_ok E" "ledger_change E locked who s s'"
  shows "evolves E s s'"
  using assms(2)
proof cases
  case (Move i e f)
  note step = entry_step_evolves [OF assms(1) Move(3)]
  show ?thesis using Move step by (auto simp: evolves_def session_of_def)
next
  case (Bind cx x b)
  then show ?thesis
    by (auto simp: evolves_def entry_evolves_def session_of_def)
qed (auto simp: evolves_def session_of_def split: option.splits)

lemma ledger_changes_evolve:
  assumes "a2a_env_ok E" "ledger_changes E locked who s s'"
  shows "evolves E s s'"
  using assms(2) by (induction) (auto intro: evolves_trans ledger_change_evolves [OF assms(1)])

end
