(* ===== verification/A2aInvariant.thy ===== *)
theory A2aInvariant
  imports A2aMachine
begin

text \<open>
  The ledger's well-formedness, the rule that one task of a context works at a time, and
  what an execution relies on while it holds its context's lease; each is kept by every
  change of the abstract machine.
\<close>

definition entry_ok :: "'x ledger \<Rightarrow> string \<Rightarrow> 'x entry \<Rightarrow> bool" where
  "entry_ok s i e \<longleftrightarrow> t_id (e_task e) = i \<and>
     (\<exists>x. bt_get (contexts s) (t_context (e_task e)) = Some x \<and> c_target x = e_target e \<and> c_caller x = e_caller e) \<and>
     (\<exists>m \<in> set (history (e_task e)). message_id m = e_pending e \<and> m_role m = User)"

definition sessions_apart :: "'x ledger \<Rightarrow> bool" where
  "sessions_apart s \<longleftrightarrow> (\<forall>j k b. session_of s j = Some b \<and> session_of s k = Some b \<longrightarrow> j = k)"

definition one_worker :: "'x ledger \<Rightarrow> bool" where
  "one_worker s \<longleftrightarrow> (\<forall>i j e e'. bt_get (tasks s) i = Some e \<and> bt_get (tasks s) j = Some e' \<and>
     t_context (e_task e) = t_context (e_task e') \<and> e_state e = Working \<and> e_state e' = Working \<longrightarrow> i = j)"

definition ledger_ok :: "device_id \<Rightarrow> 'x ledger \<Rightarrow> bool" where
  "ledger_ok here s \<longleftrightarrow> version s = 1 \<and> l_home s = here \<and>
     bt_ok (tasks s) \<and> bt_ok (contexts s) \<and> bt_ok (messages s) \<and>
     (\<forall>i e. bt_get (tasks s) i = Some e \<longrightarrow> entry_ok s i e) \<and>
     (\<forall>k d. bt_get (messages s) k = Some d \<longrightarrow> dedup_shape s d) \<and>
     sessions_apart s \<and> one_worker s"

lemma ledger_ok_entry: "ledger_ok here s \<Longrightarrow> bt_get (tasks s) i = Some e \<Longrightarrow> entry_ok s i e"
  by (simp add: ledger_ok_def)

lemma ledger_ok_id: "ledger_ok here s \<Longrightarrow> bt_get (tasks s) i = Some e \<Longrightarrow> t_id (e_task e) = i"
  by (simp add: ledger_ok_def entry_ok_def)

lemma read_record_ok:
  assumes "ledger_ok here s" "bt_get (tasks s) i = Some e"
  shows "read_record s i = Inr \<lparr>r_task = e_task e, r_target = e_target e, r_caller = e_caller e,
    r_parent = e_parent e, r_session = session_of s (t_context (e_task e)),
    r_revision = e_revision e, r_cancel = e_cancel e\<rparr>"
  using ledger_ok_entry [OF assms] assms(2)
  by (auto simp: read_record_def entry_ok_def session_of_def)

lemma ledger_ok_empty [simp]: "ledger_ok here (empty_ledger here)"
  by (simp add: ledger_ok_def empty_ledger_def sessions_apart_def one_worker_def session_of_def)

section \<open>Steps of one task\<close>

lemma entry_step_pending:
  assumes "entry_step E locked mine al e e'"
    and "\<exists>m \<in> set (history (e_task e)). message_id m = e_pending e \<and> m_role m = User"
  shows "\<exists>m \<in> set (history (e_task e')). message_id m = e_pending e' \<and> m_role m = User"
  using assms(1)
proof cases
  case (Deliver m p now)
  have "m \<in> set (history (push_history m (e_task e)))" by simp
  then have "m \<in> set (history (e_task e'))"
    using set_mono_prefix [OF set_status_history [of "e\<lparr>e_task := push_history m (e_task e), e_pending := p\<rparr>" E now Submitted None]]
    by (auto simp: Deliver(1))
  then show ?thesis using Deliver by auto
next
  case (Stop now)
  then show ?thesis using assms(2) set_mono_prefix [OF set_status_history [of e E now Canceled None]] by auto
next
  case (Start now)
  then show ?thesis using assms(2)
      set_mono_prefix [OF set_status_history [of "e\<lparr>e_turn := e_turn e + 1\<rparr>" E now Working None]] by auto
next
  case (Report st now msg art)
  then show ?thesis using assms(2)
      set_mono_prefix [OF set_status_history [of "add_artifact art e" E now st msg]] by auto
qed (use assms(2) in auto)

lemma entry_step_working:
  "entry_step E locked mine al e e' \<Longrightarrow> e_state e' = Working \<Longrightarrow> e_state e = Working \<or> al"
  by (erule entry_step.cases) auto

lemma entry_step_fixed:
  assumes "a2a_env_ok E" "entry_step E locked mine al e e'"
  shows "t_id (e_task e') = t_id (e_task e)" "t_context (e_task e') = t_context (e_task e)"
    "e_target e' = e_target e" "e_caller e' = e_caller e" "e_parent e' = e_parent e"
  using entry_step_evolves [OF assms] by (auto simp: entry_evolves_def)

lemma entry_step_locked:
  "entry_step E locked mine al e e' \<Longrightarrow> blake3_hex E (t_context (e_task e)) \<in> locked \<Longrightarrow>
     e_turn e' = e_turn e \<and> (e_state e \<noteq> Submitted \<longrightarrow> e_state e' \<noteq> Submitted)
     \<and> (e_state e' = Working \<longrightarrow> e_state e = Working \<or> mine)"
  by (erule entry_step.cases) auto

section \<open>Changes of the ledger\<close>

lemma dedup_shape_mono:
  assumes "dedup_shape s d" "\<And>i e. bt_get (tasks s) i = Some e \<Longrightarrow> \<exists>e'. bt_get (tasks s') i = Some e'"
  shows "dedup_shape s' d"
  using assms(1) unfolding dedup_shape_def
proof (elim disjE exE conjE)
  fix fp i e
  assume "bt_get (tasks s) i = Some e" and d: "d = \<lparr>d_fingerprint = Some fp, d_task = Some i, d_fence = None\<rparr>"
    "length fp = 64" "list_all is_ascii_hexdigit fp" "opaque i = Inr ()"
  then obtain e' where "bt_get (tasks s') i = Some e'" using assms(2) by blast
  with d show "(\<exists>fp i e. d = \<lparr>d_fingerprint = Some fp, d_task = Some i, d_fence = None\<rparr> \<and> length fp = 64 \<and>
        list_all is_ascii_hexdigit fp \<and> opaque i = Inr () \<and> bt_get (tasks s') i = Some e) \<or>
     (\<exists>f. d = \<lparr>d_fingerprint = None, d_task = None, d_fence = Some f\<rparr>)" by blast
qed blast

lemma entry_ok_mono:
  assumes "entry_ok s i e"
    and "\<And>x. bt_get (contexts s) (t_context (e_task e)) = Some x \<Longrightarrow>
      \<exists>x'. bt_get (contexts s') (t_context (e_task e)) = Some x' \<and> c_target x' = c_target x \<and> c_caller x' = c_caller x"
  shows "entry_ok s' i e"
  using assms unfolding entry_ok_def by metis

lemma ledger_change_ok:
  assumes env: "a2a_env_ok E" and change: "ledger_change E locked who s s'" and ok: "ledger_ok here s"
  shows "ledger_ok here s'"
proof -
  note ev = ledger_change_evolves [OF env change, unfolded evolves_def]
  have kept: "\<exists>e'. bt_get (tasks s') i = Some e'" if "bt_get (tasks s) i = Some e" for i e
    using ev that by blast
  have ctx: "\<exists>x'. bt_get (contexts s') k = Some x' \<and> c_target x' = c_target x \<and> c_caller x' = c_caller x"
    if "bt_get (contexts s) k = Some x" for k x
    using ev that by blast
  have shapes: "dedup_shape s' d" if "bt_get (messages s) k = Some d" for k d
    using ok that kept dedup_shape_mono unfolding ledger_ok_def by blast
  have old: "entry_ok s' i e" if "bt_get (tasks s) i = Some e" for i e
    using ledger_ok_entry [OF ok that] ctx by (rule entry_ok_mono)
  show ?thesis
    using change
  proof cases
    case (Move i e f)
    have id: "t_id (e_task (f e)) = t_id (e_task e)" "t_context (e_task (f e)) = t_context (e_task e)"
      "e_target (f e) = e_target e" "e_caller (f e) = e_caller e"
      using entry_step_fixed [OF env Move(3)] by simp_all
    have "entry_ok s' i (f e)"
      using old [OF Move(2)] entry_step_pending [OF Move(3)] id by (auto simp: entry_ok_def)
    then have entries: "entry_ok s' j e'" if "bt_get (tasks s') j = Some e'" for j e'
      using that old Move(1,2) by (auto split: if_splits)
    have "one_worker s'"
      unfolding one_worker_def
    proof (intro allI impI, elim conjE)
      fix j k a b
      assume a: "bt_get (tasks s') j = Some a" "bt_get (tasks s') k = Some b"
        "t_context (e_task a) = t_context (e_task b)" "e_state a = Working" "e_state b = Working"
      have clash: False
        if "bt_get (tasks s) m = Some c" "m \<noteq> i" "t_context (e_task c) = t_context (e_task e)"
          "e_state c = Working" "e_state (f e) = Working" for m c
        using entry_step_working [OF Move(3) that(5)]
      proof
        assume "e_state e = Working"
        then have "m = i" using ok that(1,3,4) Move(2) unfolding ledger_ok_def one_worker_def by blast
        then show False using that(2) by simp
      next
        assume "alone s i (t_context (e_task e))"
        then show False using that by (auto simp: alone_def)
      qed
      have get: "bt_get (tasks s') m = (if m = i then Some (f e) else bt_get (tasks s) m)" for m
        using Move(1,2) by simp
      show "j = k"
      proof (rule ccontr)
        assume ne: "j \<noteq> k"
        consider "j = i" "k \<noteq> i" | "k = i" "j \<noteq> i" | "j \<noteq> i" "k \<noteq> i" using ne by blast
        then show False
        proof cases
          case 1
          then show ?thesis using clash [of k b] a get id(2) by simp
        next
          case 2
          then show ?thesis using clash [of j a] a get id(2) by simp
        next
          case 3
          then have "bt_get (tasks s) j = Some a" "bt_get (tasks s) k = Some b" using a get by simp_all
          then show ?thesis using ok a(3-5) ne unfolding ledger_ok_def one_worker_def by blast
        qed
      qed
    qed
    then show ?thesis
      using ok entries shapes Move(1) by (auto simp: ledger_ok_def sessions_apart_def session_of_def)
  next
    case (New_context cx to caller)
    then have "session_of s' = session_of s" by (auto simp: session_of_def fun_eq_iff)
    moreover have "one_worker s'" using ok New_context by (simp add: ledger_ok_def one_worker_def)
    ultimately show ?thesis using ok old shapes New_context
      by (auto simp: ledger_ok_def sessions_apart_def)
  next
    case (New_entry i e x)
    then have "entry_ok s' i e" by (auto simp: entry_ok_def)
    moreover have "one_worker s'" using ok New_entry(1,2,7)
      by (auto simp: ledger_ok_def one_worker_def split: if_splits)
    ultimately show ?thesis using ok old shapes New_entry(1)
      by (auto simp: ledger_ok_def sessions_apart_def session_of_def)
  next
    case (New_index k d)
    have "dedup_shape s' d" using New_index(3) kept by (rule dedup_shape_mono)
    moreover have "one_worker s'" using ok New_index by (simp add: ledger_ok_def one_worker_def)
    ultimately show ?thesis using ok old shapes New_index(1)
      by (auto simp: ledger_ok_def sessions_apart_def session_of_def)
  next
    case (Bind cx x b)
    have entries: "entry_ok s' j e'" if e': "bt_get (tasks s') j = Some e'" for j e'
    proof -
      obtain e where e: "bt_get (tasks s) j = Some e"
        and eq: "e' = (if t_context (e_task e) = cx then e\<lparr>e_revision := e_revision e + 1\<rparr> else e)"
        using e' by (auto simp: Bind(1))
      show ?thesis using old [OF e] by (auto simp: eq entry_ok_def)
    qed
    have "one_worker s'"
      unfolding one_worker_def
    proof (intro allI impI, elim conjE)
      fix j k a' b'
      assume *: "bt_get (tasks s') j = Some a'" "bt_get (tasks s') k = Some b'"
        "t_context (e_task a') = t_context (e_task b')" "e_state a' = Working" "e_state b' = Working"
      then obtain a c where "bt_get (tasks s) j = Some a" "bt_get (tasks s) k = Some c"
        "e_task a' = e_task a" "e_task b' = e_task c"
        by (auto simp: Bind(1) split: if_splits)
      with * show "j = k" using ok unfolding ledger_ok_def one_worker_def e_state_def by metis
    qed
    moreover have "sessions_apart s'"
    proof -
      have new: "session_of s' k = (if k = cx then Some b else session_of s k)" for k
        using Bind(2) by (auto simp: Bind(1) session_of_def)
      have "session_of s k \<noteq> Some b" if "k \<noteq> cx" for k
        using Bind(4) that by (auto simp: session_of_def split: option.splits)
      then show ?thesis using ok unfolding sessions_apart_def ledger_ok_def new by (metis option.inject)
    qed
    ultimately show ?thesis using ok entries shapes by (auto simp: ledger_ok_def Bind(1))
  qed
qed

text \<open>The turn an execution drives, as long as its context's lease stays locked.\<close>

definition driven :: "'x ledger \<Rightarrow> string \<Rightarrow> string \<Rightarrow> nat \<Rightarrow> bool" where
  "driven s i cx turn \<longleftrightarrow> (\<exists>e. bt_get (tasks s) i = Some e \<and> t_context (e_task e) = cx \<and>
     e_turn e = turn \<and> e_state e \<noteq> Submitted) \<and> alone s i cx"

lemma ledger_change_driven:
  assumes env: "a2a_env_ok E" and change: "ledger_change E locked who s s'"
    and locked: "blake3_hex E cx \<in> locked" and d: "driven s i cx turn"
    and other: "\<And>j e. who = Some j \<Longrightarrow> bt_get (tasks s) j = Some e \<Longrightarrow> j = i \<or> t_context (e_task e) \<noteq> cx"
  shows "driven s' i cx turn"
proof -
  obtain e where e: "bt_get (tasks s) i = Some e" "t_context (e_task e) = cx" "e_turn e = turn"
      "e_state e \<noteq> Submitted" and al: "alone s i cx"
    using d by (auto simp: driven_def)
  show ?thesis
    using change
  proof cases
    case (Move j g f)
    note fixed = entry_step_fixed [OF env Move(3)]
    have "alone s' i cx"
      unfolding alone_def
    proof (intro allI impI, elim conjE)
      fix k e'
      assume k: "bt_get (tasks s') k = Some e'" "k \<noteq> i" "t_context (e_task e') = cx"
      show "e_state e' \<noteq> Working"
      proof (cases "k = j")
        case True
        then have [simp]: "e' = f g" and cx: "t_context (e_task g) = cx"
          using k(1,3) Move(1,2) fixed by auto
        have "e_state g \<noteq> Working" using al Move(2) True k(2) cx by (auto simp: alone_def)
        moreover have "who \<noteq> Some j" using other [OF _ Move(2)] True k(2) cx by blast
        ultimately show ?thesis using entry_step_locked [OF Move(3)] locked by (simp add: cx)
      next
        case False
        then show ?thesis using k al Move(1) by (auto simp: alone_def)
      qed
    qed
    moreover have "\<exists>e. bt_get (tasks s') i = Some e \<and> t_context (e_task e) = cx \<and>
     e_turn e = turn \<and> e_state e \<noteq> Submitted"
    proof (cases "i = j")
      case True
      then have "g = e" using e(1) Move(2) by simp
      then show ?thesis
        using True Move(1,2) e fixed entry_step_locked [OF Move(3)] locked by auto
    next
      case False
      then show ?thesis using e Move(1) by auto
    qed
    ultimately show ?thesis by (simp add: driven_def)
  next
    case (New_entry j f x)
    then have "j \<noteq> i" using e(1) by auto
    then show ?thesis using e al New_entry(1,7) by (auto simp: driven_def alone_def)
  next
    case (Bind k x b)
    have "alone s' i cx"
      unfolding alone_def
    proof (intro allI impI, elim conjE)
      fix j e'
      assume *: "bt_get (tasks s') j = Some e'" "j \<noteq> i" "t_context (e_task e') = cx"
      then obtain g where g: "bt_get (tasks s) j = Some g"
        "e' = (if t_context (e_task g) = k then g\<lparr>e_revision := e_revision g + 1\<rparr> else g)"
        by (auto simp: Bind(1))
      then have "e_state e' = e_state g" "t_context (e_task g) = cx" using *(3) by (auto split: if_splits)
      then show "e_state e' \<noteq> Working" using al g(1) *(2) by (simp add: alone_def)
    qed
    then show ?thesis using e by (auto simp: driven_def Bind(1))
  qed (use e al in \<open>auto simp: driven_def alone_def\<close>)
qed

end
