(* ===== verification/A2aRefines.thy ===== *)
theory A2aRefines
  imports A2aInvariant
begin

text \<open>
  Every operation of the store is a sequence of changes of the abstract machine
  (\<open>ledger_changes\<close>), under the leases that are locked while it runs.
\<close>

lemma change1: "ledger_change E locked who s s' \<Longrightarrow> ledger_changes E locked who s s'"
  by (rule r_into_rtranclp)

lemma changes2:
  "ledger_change E locked who s t \<Longrightarrow> ledger_changes E locked who t u \<Longrightarrow> ledger_changes E locked who s u"
  by (rule converse_rtranclp_into_rtranclp)

lemma try_lease_free: "try_lease E c locked cx = Inr n \<Longrightarrow> n = blake3_hex E cx \<and> n \<notin> locked"
  by (auto simp: try_lease_def Let_def split: option.splits if_splits)

lemma caller_entry_Inr [simp]:
  "caller_entry s caller to i = Inr e \<longleftrightarrow>
     bt_get (tasks s) i = Some e \<and> e_caller e = caller \<and> e_target e = to"
  by (auto simp: caller_entry_def split: option.splits if_splits)

lemma caller_entry_Inl [simp]:
  "caller_entry s caller to i = Inl x \<longleftrightarrow> x = NotFound i \<and>
     (\<forall>e. bt_get (tasks s) i = Some e \<longrightarrow> e_caller e \<noteq> caller \<or> e_target e \<noteq> to)"
  by (auto simp: caller_entry_def split: option.splits if_splits)

lemma put_entry_twice: "put_entry i g (put_entry i f s) = put_entry i (\<lambda>e. g (f e)) s"
  by (cases s) (auto simp: put_entry_def bt_update_def bt_map_def)

lemma put_entry_id:
  assumes "bt_ok (tasks s)" "bt_get (tasks s) i = Some e" "f e = e"
  shows "put_entry i f s = s"
proof -
  have "bt_update i f (tasks s) = tasks s"
    by (rule bt_eqI) (use assms in \<open>auto simp: bt_get_update fun_eq_iff\<close>)
  then show ?thesis by (cases s) (simp add: put_entry_def)
qed

section \<open>Cancelling\<close>

lemma cancel_entry_changes:
  assumes ok: "ledger_ok here s" and run: "cancel_entry E now caller to i s = Inr s'"
  shows "ledger_changes E locked who s s'"
proof -
  obtain e where e: "bt_get (tasks s) i = Some e" "e_caller e = caller" "e_target e = to"
    using run by (auto simp: cancel_entry_def)
  let ?flag = "\<lambda>e. if e_cancel e then e else e\<lparr>e_cancel := True, e_revision := e_revision e + 1\<rparr>"
  let ?stop = "\<lambda>x. if e_state e \<noteq> Working then set_status E now Canceled None x else x"
  consider "s' = s" | "\<not> terminal E (e_state e)" "s' = put_entry i (\<lambda>x. ?stop (?flag x)) s"
    using run e by (auto simp: cancel_entry_def Let_def split: if_splits)
  then show ?thesis
  proof cases
    case 2
    have flag: "ledger_changes E locked who s (put_entry i ?flag s)"
    proof (cases "e_cancel e")
      case True
      then have "put_entry i ?flag s = s" using ok e(1) by (intro put_entry_id) (auto simp: ledger_ok_def)
      then show ?thesis by simp
    next
      case False
      have "ledger_change E locked who s (put_entry i ?flag s)"
        by (rule ledger_change.Move [where f = ?flag, OF e(1)])
          (use entry_step.Flag [of E e] False 2(1) in simp)
      then show ?thesis by (rule change1)
    qed
    let ?e = "?flag e"
    have got: "bt_get (tasks (put_entry i ?flag s)) i = Some ?e" using e(1) by simp
    have "ledger_changes E locked who (put_entry i ?flag s) (put_entry i ?stop (put_entry i ?flag s))"
    proof (cases "e_state e = Working")
      case True
      then have "put_entry i ?stop (put_entry i ?flag s) = put_entry i ?flag s"
        using ok got by (intro put_entry_id) (auto simp: ledger_ok_def)
      then show ?thesis by simp
    next
      case False
      have "ledger_change E locked who (put_entry i ?flag s) (put_entry i ?stop (put_entry i ?flag s))"
        by (rule ledger_change.Move [where f = ?stop, OF got])
          (use entry_step.Stop [of E ?e] False 2(1) in simp)
      then show ?thesis by (rule change1)
    qed
    with flag show ?thesis unfolding 2(2) put_entry_twice by (rule rtranclp_trans)
  qed simp
qed


section \<open>Accepting\<close>

definition fresh_ids :: "call \<Rightarrow> 'x ledger \<Rightarrow> bool" where
  "fresh_ids c s \<longleftrightarrow> bt_get (tasks s) (new_task c) = None \<and> bt_get (contexts s) (new_context c) = None \<and>
     opaque (new_task c) = Inr ()"

lemma accept_answer_changes:
  assumes env: "a2a_env_ok E" and user: "m_role m = User"
    and run: "accept_answer E c locked caller to m parent i s = Inr (tid, s')"
  shows "tid = i \<and> ledger_changes E locked who s s' \<and> (\<exists>e. bt_get (tasks s') i = Some e) \<and> messages s' = messages s"
proof -
  obtain e n where e: "bt_get (tasks s) i = Some e" "\<not> e_cancel e" "e_state e \<in> {InputRequired, AuthRequired}"
      "try_lease E c locked (t_context (e_task e)) = Inr n"
    and s': "s' = put_entry i (\<lambda>x. set_status E (clock c 0) Submitted None
        (x\<lparr>e_task := push_history (m\<lparr>m_context := Some (t_context (e_task e))\<rparr>) (e_task x), e_pending := message_id m\<rparr>)) s"
    and tid: "tid = i"
    using run by (auto simp: accept_answer_def Let_def)
  have "ledger_change E locked who s s'"
    unfolding s' by (rule ledger_change.Move [OF e(1)], rule entry_step.Deliver)
      (use e user in \<open>auto dest: try_lease_free\<close>)
  then show ?thesis using e(1) tid by (auto simp: s' intro: change1)
qed

lemma accept_new_changes:
  assumes user: "m_role m = User" and fresh: "fresh_ids c s"
    and run: "accept_new c caller to m parent s = Inr (tid, s')"
  shows "tid = new_task c \<and> ledger_changes E locked who s s' \<and> (\<exists>e. bt_get (tasks s') tid = Some e) \<and> messages s' = messages s"
proof -
  obtain cx t where t: "accept_context c caller to m s = Inr (cx, t)"
    and s': "s' = t\<lparr>tasks := bt_insert (new_task c) (new_entry c caller to m parent cx) (tasks t)\<rparr>"
    and tid: "tid = new_task c"
    using run by (auto simp: accept_new_def)
  have ctx: "ledger_changes E locked who s t \<and> tasks t = tasks s \<and> messages t = messages s \<and>
      (\<exists>x. bt_get (contexts t) cx = Some x \<and> c_target x = to \<and> c_caller x = caller)"
    using t fresh ledger_change.New_context [of s "new_context c" E locked who to caller]
    by (auto simp: accept_context_def fresh_ids_def intro: change1 split: option.splits if_splits)
  then obtain x where x: "bt_get (contexts t) cx = Some x" "c_target x = to" "c_caller x = caller" by blast
  have "ledger_change E locked who t s'"
    unfolding s' by (rule ledger_change.New_entry [where x = x])
      (use x ctx fresh user in \<open>auto simp: fresh_ids_def new_entry_def e_state_def history_def\<close>)
  then show ?thesis using ctx tid by (auto simp: s' intro: rtranclp.rtrancl_into_rtrancl)
qed

lemma accept_action_changes:
  assumes env: "a2a_env_ok E" and user: "m_role m = User"
    and ids: "\<forall>i. m_task m = Some i \<longrightarrow> opaque i = Inr ()"
    and digest: "length digest = 64" "list_all is_ascii_hexdigit digest"
    and fresh: "fresh_ids c s"
    and run: "accept_action E c locked caller to m parent key digest s = Inr (sub, s')"
  shows "ledger_changes E locked who s s'"
proof (cases "bt_get (messages s) key")
  case (Some prior)
  then show ?thesis using run by (auto simp: accept_action_def accept_again_def)
next
  case None
  obtain tid t where t: "(case m_task m of Some i \<Rightarrow> accept_answer E c locked caller to m parent i s
                  | None \<Rightarrow> accept_new c caller to m parent s) = Inr (tid, t)"
    and s': "s' = t\<lparr>messages := bt_insert key
                 \<lparr>d_fingerprint = Some digest, d_task = Some tid, d_fence = None\<rparr> (messages t)\<rparr>"
    using run None by (auto simp: accept_action_def Let_def)
  have st: "ledger_changes E locked who s t \<and> (\<exists>e. bt_get (tasks t) tid = Some e) \<and> messages t = messages s \<and>
      opaque tid = Inr ()"
  proof (cases "m_task m")
    case None
    then show ?thesis using accept_new_changes [OF user fresh] t fresh
      by (simp add: fresh_ids_def) blast
  next
    case (Some i)
    then show ?thesis using accept_answer_changes [OF env user] t ids by simp blast
  qed
  then have "dedup_shape t \<lparr>d_fingerprint = Some digest, d_task = Some tid, d_fence = None\<rparr>"
    using digest by (auto simp: dedup_shape_def)
  then have "ledger_change E locked who t s'"
    unfolding s' using st None by (intro ledger_change.New_index) auto
  then show ?thesis using st by (auto intro: rtranclp.rtrancl_into_rtrancl)
qed

section \<open>Fencing\<close>

lemma cancel_input_action_changes:
  assumes ok: "ledger_ok here s"
    and run: "cancel_input_action E h c caller to message parent key s = Inr (r, s')"
  shows "ledger_changes E locked who s s'"
proof -
  obtain early where run': "cancel_input_change E c caller to message parent key s = Inr (early, s')"
    using run by (auto simp: cancel_input_action_def split: option.splits)
  show ?thesis
  proof (cases "bt_get (messages s) key")
    case None
    let ?d = "\<lparr>d_fingerprint = None, d_task = None,
             d_fence = Some \<lparr>f_caller = caller, f_target = to, f_message = message, f_parent = parent\<rparr>\<rparr>"
    have "s' = s\<lparr>messages := bt_insert key ?d (messages s)\<rparr>"
      using run' None by (simp add: cancel_input_change_def)
    moreover have "dedup_shape s ?d" by (auto simp: dedup_shape_def)
    ultimately show ?thesis by (metis ledger_change.New_index [OF None] change1)
  next
    case (Some prior)
    then have "s' = s \<or> (\<exists>i. cancel_entry E (clock c 0) caller to i s = Inr s')"
      using run' by (auto simp: cancel_input_change_def split: option.splits if_splits)
    then show ?thesis using cancel_entry_changes [OF ok] by auto
  qed
qed

section \<open>The executor's side\<close>

lemma claim_action_changes:
  assumes ok: "ledger_ok here s"
    and run: "claim_action E c locked i message s = Inr ((lease, turn, r, input), s')"
  shows "ledger_changes E locked who s s' \<and> lease \<notin> locked \<and>
    (\<exists>e. bt_get (tasks s) i = Some e \<and> lease = blake3_hex E (t_context (e_task e)) \<and>
      t_context (r_task r) = t_context (e_task e) \<and> t_id (r_task r) = i \<and>
      driven s' i (t_context (e_task e)) turn)"
proof -
  let ?go = "\<lambda>e. set_status E (clock c 0) Working None (e\<lparr>e_turn := e_turn e + 1\<rparr>)"
  obtain e where e: "bt_get (tasks s) i = Some e" "e_state e = Submitted" "\<not> e_cancel e"
      "try_lease E c locked (t_context (e_task e)) = Inr lease"
    and none: "\<not> list_ex (\<lambda>(k, o'). t_id (e_task o') \<noteq> i \<and>
                   t_context (e_task o') = t_context (e_task e) \<and> e_state o' = Working) (tasks s)"
    and s': "s' = put_entry i ?go s" and turn: "turn = e_turn e + 1" and r: "read_record s' i = Inr r"
    using run by (auto simp: claim_action_def Let_def)
  have al: "alone s i (t_context (e_task e))"
    unfolding alone_def
  proof (intro allI impI, elim conjE)
    fix j o'
    assume o': "bt_get (tasks s) j = Some o'" "j \<noteq> i" "t_context (e_task o') = t_context (e_task e)"
    then have "t_id (e_task o') \<noteq> i" "(j, o') \<in> set (tasks s)"
      using ledger_ok_id [OF ok] ok by (auto simp: ledger_ok_def bt_get_in)
    then show "e_state o' \<noteq> Working" using none o'(3) by (auto simp: list_ex_iff)
  qed
  have "ledger_change E locked who s s'"
    unfolding s' by (rule ledger_change.Move [OF e(1)], rule entry_step.Start)
      (use e al in \<open>auto dest: try_lease_free\<close>)
  moreover have "driven s' i (t_context (e_task e)) turn"
    using al e(1) turn by (auto simp: driven_def alone_def s')
  moreover have "t_id (r_task r) = i" "t_context (r_task r) = t_context (e_task e)"
    using r e(1) ledger_ok_id [OF ok e(1)] by (auto simp: read_record_def s' split: option.splits if_splits)
  ultimately show ?thesis using e by (auto intro: change1 dest: try_lease_free)
qed

lemma update_action_changes:
  assumes checks: "update_checks st msg art = Inr ()"
    and run: "update_action E c i turn st msg art s = Inr (r, s')"
    and al: "\<And>e. bt_get (tasks s) i = Some e \<Longrightarrow> e_turn e = turn \<Longrightarrow> alone s i (t_context (e_task e))"
  shows "ledger_changes E locked (Some i) s s'"
proof -
  obtain e where e: "bt_get (tasks s) i = Some e" "\<not> terminal E (e_state e)" "e_turn e = turn"
      "e_state e \<noteq> Submitted"
    and s': "s' = put_entry i (\<lambda>e. set_status E (clock c 0) st msg (add_artifact art e)) s"
    using run by (auto simp: update_action_def Let_def)
  have "st \<notin> {Unspecified, Submitted}" using checks by (auto simp: update_checks_def)
  then have "ledger_change E locked (Some i) s s'"
    unfolding s' by (intro ledger_change.Move [OF e(1)] entry_step.Report) (use e al in auto)
  then show ?thesis by (rule change1)
qed

lemma bind_action_changes:
  assumes run: "bind_action here i turn session E s = Inr (r, s')"
  shows "ledger_changes E locked who s s'"
proof -
  obtain e x where e: "bt_get (tasks s) i = Some e"
    and none: "\<not> list_ex (\<lambda>(k, x). k \<noteq> t_context (e_task e) \<and> c_session x = Some session) (contexts s)"
    and x: "bt_get (contexts s) (t_context (e_task e)) = Some x"
    and s': "s' = (if c_session x = None then bind_context (t_context (e_task e)) session s else s)"
    using run by (auto simp: bind_action_def Let_def)
  have "\<forall>k y. bt_get (contexts s) k = Some y \<and> k \<noteq> t_context (e_task e) \<longrightarrow> c_session y \<noteq> Some session"
    using none by (auto simp: list_ex_iff bt_get_def dest!: map_of_SomeD)
  then show ?thesis using x by (auto simp: s' intro: change1 ledger_change.Bind)
qed

section \<open>Startup\<close>

lemma recover_loop_changes:
  assumes env: "a2a_env_ok E"
    and run: "recover_loop E c locked n ids s = Inr (rs, s')"
    and work: "distinct (map fst ids)"
      "\<And>i cx. (i, cx) \<in> set ids \<Longrightarrow> \<exists>e. bt_get (tasks s) i = Some e \<and> e_state e = Working"
  shows "ledger_changes E locked who s s'"
  using run work
proof (induction ids arbitrary: n s rs s')
  case Nil
  then show ?case by simp
next
  case (Cons p ids)
  obtain i cx where p: "p = (i, cx)" by (cases p)
  obtain e where e: "bt_get (tasks s) i = Some e" "e_state e = Working" using Cons.prems(3) p by auto
  show ?case
  proof (cases "try_lease E c locked cx")
    case (Inl err)
    then have "recover_loop E c locked (n + 1) ids s = Inr (rs, s')"
      using Cons.prems(1) p by (cases err) auto
    then show ?thesis using Cons.prems(2,3) by (intro Cons.IH) auto
  next
    case (Inr l)
    let ?f = "set_status E (clock c n) Failed
                   (Some (new_message E (message_ids c n) Agent [text_part E INTERRUPTED]))"
    obtain rs' where rest: "recover_loop E c locked (n + 1) ids (put_entry i ?f s) = Inr (rs', s')"
      using Cons.prems(1) p Inr by (auto simp: Let_def)
    have "entry_step E locked False False e (set_status E now Failed msg (add_artifact None e))" for now msg
      by (rule entry_step.Report) (use e env in \<open>auto simp: env_terminal\<close>)
    then have "entry_step E locked (who = Some i) (alone s i (t_context (e_task e))) e (?f e)"
      using entry_step.Report [of E e Failed "who = Some i" "alone s i (t_context (e_task e))" locked _ _ None] e env
      by (simp add: env_terminal add_artifact_def)
    then have "ledger_change E locked who s (put_entry i ?f s)" by (rule ledger_change.Move [OF e(1)])
    moreover have "ledger_changes E locked who (put_entry i ?f s) s'"
      using Cons.prems(2,3) p by (intro Cons.IH [OF rest]) (force simp: image_iff)+
    ultimately show ?thesis by (rule changes2)
  qed
qed

lemma working_tasks_iff:
  assumes "ledger_ok here s"
  shows "(i, cx) \<in> set (working_tasks s) \<longleftrightarrow>
    (\<exists>e. bt_get (tasks s) i = Some e \<and> t_context (e_task e) = cx \<and> e_state e = Working)"
proof -
  have mem: "(k, e) \<in> set (tasks s) \<longleftrightarrow> bt_get (tasks s) k = Some e" for k e
    using assms by (simp add: ledger_ok_def bt_get_in)
  show ?thesis
  proof
    assume "(i, cx) \<in> set (working_tasks s)"
    then obtain k e where "(k, e) \<in> set (tasks s)" "e_state e = Working" "i = t_id (e_task e)" "cx = t_context (e_task e)"
      by (auto simp: working_tasks_def)
    then show "\<exists>e. bt_get (tasks s) i = Some e \<and> t_context (e_task e) = cx \<and> e_state e = Working"
      using mem ledger_ok_id [OF assms] by auto
  next
    assume "\<exists>e. bt_get (tasks s) i = Some e \<and> t_context (e_task e) = cx \<and> e_state e = Working"
    then obtain e where e: "(i, e) \<in> set (tasks s)" "t_context (e_task e) = cx" "e_state e = Working"
        "t_id (e_task e) = i"
      using mem ledger_ok_id [OF assms] by blast
    then have "e \<in> set (filter (\<lambda>e. e_state e = Working) (map snd (tasks s)))" by force
    then show "(i, cx) \<in> set (working_tasks s)" using e by (auto simp: working_tasks_def)
  qed
qed

lemma working_tasks_distinct:
  assumes "ledger_ok here s"
  shows "distinct (map fst (working_tasks s))"
proof -
  have ids: "map (\<lambda>p. t_id (e_task (snd p))) (tasks s) = map fst (tasks s)"
    using ledger_ok_id [OF assms] assms by (auto simp: ledger_ok_def bt_get_in [symmetric])
  have "map fst (working_tasks s) = map (\<lambda>p. t_id (e_task (snd p))) (filter (\<lambda>p. e_state (snd p) = Working) (tasks s))"
    by (simp add: working_tasks_def filter_map comp_def)
  moreover have "distinct (map (\<lambda>p. t_id (e_task (snd p))) (tasks s))"
    unfolding ids using assms by (auto simp: ledger_ok_def intro: bt_ok_distinct)
  ultimately show ?thesis by (simp add: distinct_map_filter)
qed

lemma recover_action_changes:
  assumes "a2a_env_ok E" "ledger_ok here s" "recover_action E c locked s = Inr (rs, s')"
  shows "ledger_changes E locked who s s'"
  using assms(3) working_tasks_distinct [OF assms(2)] working_tasks_iff [OF assms(2)]
  by (intro recover_loop_changes [OF assms(1), of c locked 0 "working_tasks s" s rs])
    (auto simp: recover_action_def)

end
