(* ===== verification/A2aExecutor.thy ===== *)
theory A2aExecutor
  imports A2aRefines
begin

text \<open>
  \<open>executor.rs\<close>: one claimed turn of a task, which holds the context's lease as long as it
  lives, and \<open>dispatch\<close>, which claims a turn, lets an executor drive it and settles what it
  left.  The executor is the adapter's, a function of the turn and the directory; what other
  processes do to the directory meanwhile is part of it.  Then the system: the directory
  with all executions alive on this machine, and its steps.
\<close>

record 'x execution =
  x_record :: "'x receipt"
  x_message :: "'x message"
  x_turn :: nat
  x_lease :: string

definition x_task :: "'x execution \<Rightarrow> string" where
  "x_task x = t_id (r_task (x_record x))"

definition execution_claim ::
    "('x, 'n) a2a_env \<Rightarrow> device_id \<Rightarrow> call \<Rightarrow> string \<Rightarrow> string \<Rightarrow> dir \<Rightarrow> (a2a_error + 'x execution) \<times> dir" where
  "execution_claim E here c i message d =
     (case claim E here c i message d of
        (Inl e, d') \<Rightarrow> (Inl e, d')
      | (Inr (lease, turn, r, m), d') \<Rightarrow>
          (Inr \<lparr>x_record = r, x_message = m, x_turn = turn, x_lease = lease\<rparr>, d'))"

definition execution_bind ::
    "('x, 'n) a2a_env \<Rightarrow> device_id \<Rightarrow> call \<Rightarrow> session_ref \<Rightarrow> 'x execution \<Rightarrow> dir
       \<Rightarrow> (a2a_error + unit) \<times> 'x execution \<times> dir" where
  "execution_bind E here c session x d =
     (case bind_session E here c (x_task x) (x_turn x) session d of
        (Inl e, d') \<Rightarrow> (Inl e, x, d')
      | (Inr r, d') \<Rightarrow> (Inr (), x\<lparr>x_record := r\<rparr>, d'))"

definition execution_update ::
    "('x, 'n) a2a_env \<Rightarrow> device_id \<Rightarrow> call \<Rightarrow> task_state \<Rightarrow> 'x message option \<Rightarrow> 'x artifact option
       \<Rightarrow> 'x execution \<Rightarrow> dir \<Rightarrow> (a2a_error + unit) \<times> 'x execution \<times> dir" where
  "execution_update E here c st msg art x d =
     (case executor_update E here c (x_task x) (x_turn x) st msg art d of
        (Inl e, d') \<Rightarrow> (Inl e, x, d')
      | (Inr r, d') \<Rightarrow> (Inr (), x\<lparr>x_record := r\<rparr>, d'))"

definition execution_latest ::
    "('x, 'n) a2a_env \<Rightarrow> device_id \<Rightarrow> call \<Rightarrow> 'x execution \<Rightarrow> dir \<Rightarrow> a2a_error + 'x receipt" where
  "execution_latest E here c x d =
     fst (get_task E here c (r_caller (x_record x)) (r_target (x_record x)) (x_task x) d)"

definition cancellation_requested ::
    "('x, 'n) a2a_env \<Rightarrow> device_id \<Rightarrow> call \<Rightarrow> 'x execution \<Rightarrow> dir \<Rightarrow> a2a_error + bool" where
  "cancellation_requested E here c x d =
     and_then (execution_latest E here c x d) (\<lambda>r. Inr (r_cancel r))"

text \<open>Dropping an \<open>Execution\<close> closes its lease file.\<close>

definition release :: "'x execution \<Rightarrow> dir \<Rightarrow> dir" where
  "release x d = d\<lparr>held := held d - {x_lease x}\<rparr>"

fun error_text :: "a2a_error \<Rightarrow> string" where
  "error_text (Io e) = e"
| "error_text (Corrupt e) = ''Invalid delegation store: '' @ e"
| "error_text (Invalid e) = e"
| "error_text (NotFound i) = ''Task or context not found: '' @ i"
| "error_text Conflict = ''Message ID or session binding conflict''"
| "error_text InputFenced = ''This input was canceled before acceptance''"
| "error_text Busy = ''The context is already executing''"
| "error_text Terminal = ''The task is terminal''"
| "error_text (NotCancelable i) = ''Task cannot be canceled: '' @ i"
| "error_text (Adapter e) = e"

definition UNFINISHED :: string where
  "UNFINISHED = ''Executor returned without completing or suspending the task''"

definition failure_text :: "a2a_error + unit \<Rightarrow> task_state \<Rightarrow> string option" where
  "failure_text result st =
     (case result of Inl e \<Rightarrow> Some (error_text e)
      | Inr _ \<Rightarrow> if st = Working then Some UNFINISHED else None)"

definition settle ::
    "('x, 'n) a2a_env \<Rightarrow> device_id \<Rightarrow> call \<Rightarrow> call \<Rightarrow> a2a_error + unit \<Rightarrow> 'x execution \<Rightarrow> dir
       \<Rightarrow> (a2a_error + 'x receipt) \<times> dir" where
  "settle E here c c' result x d =
     (case execution_latest E here c x d of
        Inl e \<Rightarrow> (Inl e, d)
      | Inr r \<Rightarrow>
        let x' = x\<lparr>x_record := r\<rparr>; st = s_state (t_status (r_task r)) in
        if terminal E st then (Inr r, d)
        else (case failure_text result st of
            None \<Rightarrow> (Inr r, d)
          | Some text \<Rightarrow>
            (case execution_update E here c' Failed
                    (Some (new_message E (message_ids c' 0) Agent [text_part E text])) None x' d of
               (Inl e, _, d') \<Rightarrow> (Inl e, d')
             | (Inr _, x'', d') \<Rightarrow> (Inr (x_record x''), d'))))"

definition dispatch ::
    "('x, 'n) a2a_env \<Rightarrow> device_id \<Rightarrow> call \<Rightarrow> call \<Rightarrow> call
       \<Rightarrow> ('x execution \<times> dir \<Rightarrow> (a2a_error + unit) \<times> 'x execution \<times> dir)
       \<Rightarrow> string \<Rightarrow> string \<Rightarrow> dir \<Rightarrow> (a2a_error + 'x receipt) \<times> dir" where
  "dispatch E here c1 c2 c3 execute i message d =
     (case execution_claim E here c1 i message d of
        (Inl e, d') \<Rightarrow> (Inl e, d')
      | (Inr x, d1) \<Rightarrow>
        (case execute (x, d1) of (result, x', d2) \<Rightarrow>
          let (r, d3) = settle E here c2 c3 result x' d2 in (r, release x' d3)))"

section \<open>The system\<close>

record 'x world =
  disk :: dir
  live :: "nat \<Rightarrow> 'x execution option"

definition start_world :: "'x world" where
  "start_world = \<lparr>disk = \<lparr>ledger_file = None, held = {}\<rparr>, live = (\<lambda>_. None)\<rparr>"

definition clean_call :: call where
  "clean_call = \<lparr>gate_fault = None, read_fault = None, save_fault = None, lease_fault = (\<lambda>_. None),
     clock = (\<lambda>_. 0), new_context = [], new_task = [], message_ids = (\<lambda>_. [])\<rparr>"

text \<open>The ledger a file holds.\<close>

definition stored :: "('x, 'n) a2a_env \<Rightarrow> device_id \<Rightarrow> dir \<Rightarrow> 'x ledger option" where
  "stored E here d = (case load_ledger E here clean_call d of Inl _ \<Rightarrow> None | Inr s \<Rightarrow> Some s)"

definition fresh_call :: "('x, 'n) a2a_env \<Rightarrow> device_id \<Rightarrow> call \<Rightarrow> dir \<Rightarrow> bool" where
  "fresh_call E here c d = (case stored E here d of None \<Rightarrow> True | Some s \<Rightarrow> fresh_ids c s)"

inductive world_step :: "('x, 'n) a2a_env \<Rightarrow> device_id \<Rightarrow> 'x world \<Rightarrow> 'x world \<Rightarrow> bool"
  for E here where
  Accept: "fresh_call E here c (disk w) \<Longrightarrow> accept E here c caller to m parent (disk w) = (r, d) \<Longrightarrow>
    world_step E here w (w\<lparr>disk := d\<rparr>)"
| Request_cancel: "request_cancel E here c caller to i (disk w) = (r, d) \<Longrightarrow>
    world_step E here w (w\<lparr>disk := d\<rparr>)"
| Cancel_input: "cancel_input E here c caller to message parent (disk w) = (r, d) \<Longrightarrow>
    world_step E here w (w\<lparr>disk := d\<rparr>)"
| Recover: "recover E here c (disk w) = (r, d) \<Longrightarrow> world_step E here w (w\<lparr>disk := d\<rparr>)"
| Claim: "execution_claim E here c i message (disk w) = (Inr x, d) \<Longrightarrow> live w h = None \<Longrightarrow>
    world_step E here w \<lparr>disk = d, live = (live w)(h \<mapsto> x)\<rparr>"
| Claim_fails: "execution_claim E here c i message (disk w) = (Inl e, d) \<Longrightarrow>
    world_step E here w (w\<lparr>disk := d\<rparr>)"
| Bind_turn: "live w h = Some x \<Longrightarrow> execution_bind E here c session x (disk w) = (r, x', d) \<Longrightarrow>
    world_step E here w \<lparr>disk = d, live = (live w)(h \<mapsto> x')\<rparr>"
| Update_turn: "live w h = Some x \<Longrightarrow> execution_update E here c st msg art x (disk w) = (r, x', d) \<Longrightarrow>
    world_step E here w \<lparr>disk = d, live = (live w)(h \<mapsto> x')\<rparr>"
| Drop_turn: "live w h = Some x \<Longrightarrow>
    world_step E here w \<lparr>disk = release x (disk w), live = (live w)(h := None)\<rparr>"

inductive_cases world_stepE: "world_step E here w w'"

abbreviation world_steps :: "('x, 'n) a2a_env \<Rightarrow> device_id \<Rightarrow> 'x world \<Rightarrow> 'x world \<Rightarrow> bool" where
  "world_steps E here \<equiv> (world_step E here)\<^sup>*\<^sup>*"

section \<open>Transactions\<close>

lemma load_stored: "load_ledger E here c d = Inr s \<Longrightarrow> stored E here d = Some s"
  by (auto simp: load_ledger_def stored_def clean_call_def split: option.splits sum.splits)

lemma load_clean: "stored E here d = Some s \<Longrightarrow> read_fault c = None \<Longrightarrow> load_ledger E here c d = Inr s"
  by (auto simp: load_ledger_def stored_def clean_call_def split: option.splits sum.splits)

lemma stored_held [simp]: "stored E here (d\<lparr>held := h\<rparr>) = stored E here d"
  by (simp add: stored_def load_ledger_def clean_call_def)

text \<open>A file the store itself wrote.\<close>

definition written :: "('x, 'n) a2a_env \<Rightarrow> dir \<Rightarrow> bool" where
  "written E d = (case ledger_file d of None \<Rightarrow> True
     | Some b \<Rightarrow> \<exists>s. ledger_bytes E s = Inr b \<and> length b \<le> MAX_STORE_BYTES)"

lemma save_ledger_cases:
  assumes env: "a2a_env_ok E" and save: "save_ledger E c s d = (r, d')" and head: "version s = 1" "l_home s = here"
  obtains "d' = d" "\<exists>e. r = Inl e"
  | "stored E here d' = Some s" "written E d'" "held d' = held d"
      "r = Inr () \<or> (\<exists>e. r = Inl (Io e) \<and> save_fault c = Some (SyncDirectory, e))"
  using save head
  by (fastforce simp: save_ledger_def stored_def load_ledger_def clean_call_def written_def env_codec [OF env]
      split: sum.splits if_splits option.splits prod.splits save_stage.splits)

text \<open>
  What one transaction did: nothing, or it answered from an unchanged ledger, or it replaced
  the ledger by what its action made of it.  Only the directory's own sync can fail after that.
\<close>

definition answered where
  "answered E here action d r \<longleftrightarrow> (\<exists>s s'. stored E here d = Some s \<and> action s = Inr (r, s'))"

definition committed where
  "committed E here c action d res d' \<longleftrightarrow>
     (\<exists>s r s'. stored E here d = Some s \<and> action s = Inr (r, s') \<and> stored E here d' = Some s' \<and>
       written E d' \<and> held d' = held d \<and>
       (res = Inr r \<or> (\<exists>e. res = Inl (Io e) \<and> save_fault c = Some (SyncDirectory, e))))"

lemma transaction_cases:
  assumes env: "a2a_env_ok E" and run: "transaction E here c w action d = (res, d')"
    and head: "\<And>s r s'. stored E here d = Some s \<Longrightarrow> action s = Inr (r, s') \<Longrightarrow> version s' = version s \<and> l_home s' = l_home s"
  obtains "d' = d" "\<exists>e. res = Inl e"
  | "d' = d" "\<not> w" "\<exists>r. res = Inr r \<and> answered E here action d r"
  | "w" "committed E here c action d res d'"
proof (cases "gate_fault c")
  case (Some e)
  then show ?thesis using run that(1) by (auto simp: transaction_def)
next
  case None
  show ?thesis
  proof (cases "load_ledger E here c d")
    case (Inl e)
    then show ?thesis using run None that(1) by (auto simp: transaction_def)
  next
    case load: (Inr s)
    note st = load_stored [OF load]
    have hd: "version s = 1" "l_home s = here"
      using load by (auto simp: load_ledger_def empty_ledger_def split: option.splits)
    show ?thesis
    proof (cases "action s")
      case (Inl e)
      then show ?thesis using run None load that(1) by (auto simp: transaction_def)
    next
      case (Inr p)
      obtain r s' where act: "action s = Inr (r, s')" using Inr by (cases p) auto
      show ?thesis
      proof (cases w)
        case False
        then show ?thesis using run None load act that(2) st by (auto simp: transaction_def answered_def)
      next
        case True
        obtain q d'' where save: "save_ledger E c s' d = (q, d'')" by (cases "save_ledger E c s' d") auto
        have eq: "d' = d''" "res = (case q of Inl e \<Rightarrow> Inl e | Inr _ \<Rightarrow> Inr r)"
          using run None load act True save by (auto simp: transaction_def split: sum.splits)
        have hd': "version s' = 1" "l_home s' = here" using head [OF st act] hd by simp_all
        show ?thesis
          using env save hd'
        proof (cases rule: save_ledger_cases)
          case 1
          then show ?thesis using eq that(1) by auto
        next
          case 2
          then show ?thesis using eq that(3) True st act unfolding committed_def by auto
        qed
      qed
    qed
  qed
qed

lemma transaction_clean:
  assumes "gate_fault c = None" "read_fault c = None" "stored E here d = Some s" "action s = Inr (r, s)"
  shows "transaction E here c False action d = (Inr r, d)"
  using assms by (simp add: transaction_def load_clean)

end
