(* ===== verification/A2aSystem.thy ===== *)
theory A2aSystem
  imports A2aExecutor
begin

text \<open>
  The system's invariant: the file is one the store wrote and holds a well-formed ledger, and
  every live execution holds the lease of its context and drives the current turn of its task.
  Every step keeps it, and moves the ledger by changes of the abstract machine.
\<close>

definition dir_ok :: "('x, 'n) a2a_env \<Rightarrow> device_id \<Rightarrow> dir \<Rightarrow> bool" where
  "dir_ok E here d \<longleftrightarrow> written E d \<and> (\<exists>s. stored E here d = Some s \<and> ledger_ok here s)"

definition dir_moves ::
    "('x, 'n) a2a_env \<Rightarrow> device_id \<Rightarrow> string option \<Rightarrow> dir \<Rightarrow> dir \<Rightarrow> bool" where
  "dir_moves E here who d d' \<longleftrightarrow> d' = d \<or>
     (\<exists>s s'. stored E here d = Some s \<and> ledger_changes E (held d) who s s' \<and> stored E here d' = Some s' \<and>
        written E d' \<and> held d' = held d)"

lemma ledger_changes_ok:
  assumes "a2a_env_ok E" "ledger_changes E locked who s s'" "ledger_ok here s"
  shows "ledger_ok here s'"
  using assms(2,3) by induction (auto intro: ledger_change_ok [OF assms(1)])

lemma dir_moves_ok:
  assumes "a2a_env_ok E" "dir_moves E here who d d'" "dir_ok E here d"
  shows "dir_ok E here d'" "held d' = held d"
    "\<exists>s s'. stored E here d = Some s \<and> stored E here d' = Some s' \<and> evolves E s s'"
proof -
  obtain s where s: "stored E here d = Some s" "ledger_ok here s" using assms(3) by (auto simp: dir_ok_def)
  show "dir_ok E here d'"
    using assms(2,3) s ledger_changes_ok [OF assms(1)] by (auto simp: dir_moves_def dir_ok_def)
  show "held d' = held d" using assms(2) by (auto simp: dir_moves_def)
  show "\<exists>s s'. stored E here d = Some s \<and> stored E here d' = Some s' \<and> evolves E s s'"
    using assms(2) s ledger_changes_evolve [OF assms(1)] by (auto simp: dir_moves_def)
qed

lemma transaction_moves:
  assumes env: "a2a_env_ok E" and ok: "dir_ok E here d"
    and run: "transaction E here c w action d = (res, d')"
    and act: "\<And>s r s'. stored E here d = Some s \<Longrightarrow> ledger_ok here s \<Longrightarrow> action s = Inr (r, s') \<Longrightarrow>
      ledger_changes E (held d) who s s'"
  shows "dir_moves E here who d d'"
proof -
  obtain s where s: "stored E here d = Some s" "ledger_ok here s" using ok by (auto simp: dir_ok_def)
  have head: "version t' = version t \<and> l_home t' = l_home t"
    if "stored E here d = Some t" "action t = Inr (r, t')" for t r t'
    using ledger_changes_evolve [OF env act [OF that(1) _ that(2)]] s that(1) by (auto simp: evolves_def)
  show ?thesis
  proof (rule transaction_cases [OF env run])
    show "version t' = version t \<and> l_home t' = l_home t"
      if "stored E here d = Some t" "action t = Inr (r, t')" for t r t' using that by (rule head)
    assume "committed E here c action d res d'"
    then obtain r s' where c: "action s = Inr (r, s')" "stored E here d' = Some s'" "written E d'" "held d' = held d"
      using s unfolding committed_def by auto
    then show ?thesis using act [OF s c(1)] s(1) unfolding dir_moves_def by blast
  qed (simp_all add: dir_moves_def)
qed

lemma checked_cases:
  assumes "checked r f d = (res, d')"
  obtains "d' = d" "\<exists>e. res = Inl e \<and> r = Inl e" | x where "r = Inr x" "f x = (res, d')"
  using assms by (auto simp: checked_def split: sum.splits)

section \<open>Operations\<close>

lemma fingerprint_shape:
  assumes "a2a_env_ok E" "fingerprint E v = Inr h"
  shows "length h = 64 \<and> list_all is_ascii_hexdigit h"
  using assms by (auto simp: fingerprint_def a2a_env_ok_def)

lemma accept_checks_Inr:
  assumes "accept_checks E here caller to m parent = Inr (key, digest)"
  shows "m_role m = User" "\<forall>i. m_task m = Some i \<longrightarrow> opaque i = Inr ()"
    "message_key E caller to (message_id m) = Inr key" "fingerprint E (digest_json E to m parent) = Inr digest"
  using assms by (auto simp: accept_checks_def split: option.splits)

lemma accept_moves:
  assumes env: "a2a_env_ok E" and ok: "dir_ok E here d" and fresh: "fresh_call E here c d"
    and run: "accept E here c caller to m parent d = (res, d')"
  shows "dir_moves E here who d d'"
  using run unfolding accept_def
proof (rule checked_cases)
  fix p
  assume p: "accept_checks E here caller to m parent = Inr p"
    and tr: "(case p of (key, digest) \<Rightarrow> transaction E here c True (accept_action E c (held d) caller to m parent key digest) d) = (res, d')"
  obtain key digest where kd: "p = (key, digest)" by (cases p) auto
  note chk = accept_checks_Inr [OF p [unfolded kd]]
  have shape: "length digest = 64" "list_all is_ascii_hexdigit digest"
    using fingerprint_shape [OF env chk(4)] by simp_all
  show ?thesis
  proof (rule transaction_moves [OF env ok])
    show "transaction E here c True (accept_action E c (held d) caller to m parent key digest) d = (res, d')"
      using tr kd by simp
    fix s r s'
    assume "stored E here d = Some s" "accept_action E c (held d) caller to m parent key digest s = Inr (r, s')"
    then show "ledger_changes E (held d) who s s'"
      using accept_action_changes [OF env chk(1,2) shape] fresh by (auto simp: fresh_call_def)
  qed
qed (simp add: dir_moves_def)

lemma request_cancel_moves:
  assumes env: "a2a_env_ok E" and ok: "dir_ok E here d"
    and run: "request_cancel E here c caller to i d = (res, d')"
  shows "dir_moves E here who d d'"
  using run unfolding request_cancel_def
proof (rule checked_cases)
  fix u
  assume tr: "transaction E here c True (cancel_action E c caller to i) d = (res, d')"
  show ?thesis
    by (rule transaction_moves [OF env ok tr])
      (auto simp: cancel_action_def intro: cancel_entry_changes)
qed (simp add: dir_moves_def)

lemma cancel_input_moves:
  assumes env: "a2a_env_ok E" and ok: "dir_ok E here d"
    and run: "cancel_input E here c caller to message parent d = (res, d')"
  shows "dir_moves E here who d d'"
  using run unfolding cancel_input_def
proof (rule checked_cases)
  fix key
  assume tr: "transaction E here c True (cancel_input_action E here c caller to message parent key) d = (res, d')"
  show ?thesis
    by (rule transaction_moves [OF env ok tr]) (auto intro: cancel_input_action_changes)
qed (simp add: dir_moves_def)

lemma recover_moves:
  assumes env: "a2a_env_ok E" and ok: "dir_ok E here d" and run: "recover E here c d = (res, d')"
  shows "dir_moves E here who d d'"
  by (rule transaction_moves [OF env ok run [unfolded recover_def]])
    (auto intro: recover_action_changes [OF env])

lemma bind_session_moves:
  assumes env: "a2a_env_ok E" and ok: "dir_ok E here d"
    and run: "bind_session E here c i turn session d = (res, d')"
  shows "dir_moves E here who d d'"
  using run unfolding bind_session_def
proof (rule checked_cases)
  fix u
  assume tr: "transaction E here c True (bind_action here i turn session E) d = (res, d')"
  show ?thesis
    by (rule transaction_moves [OF env ok tr]) (auto intro: bind_action_changes)
qed (simp add: dir_moves_def)

lemma executor_update_moves:
  assumes env: "a2a_env_ok E" and ok: "dir_ok E here d"
    and run: "executor_update E here c i turn st msg art d = (res, d')"
    and al: "\<And>s e. stored E here d = Some s \<Longrightarrow> bt_get (tasks s) i = Some e \<Longrightarrow> e_turn e = turn \<Longrightarrow>
      alone s i (t_context (e_task e))"
  shows "dir_moves E here (Some i) d d'"
  using run unfolding executor_update_def
proof (rule checked_cases)
  fix u
  assume chk: "update_checks st msg art = Inr u"
    and tr: "transaction E here c True (update_action E c i turn st msg art) d = (res, d')"
  show ?thesis
    by (rule transaction_moves [OF env ok tr])
      (use chk al in \<open>auto intro: update_action_changes\<close>)
qed (simp add: dir_moves_def)

text \<open>An answer of a transaction that committed is one its action gave.\<close>

lemma transaction_answer:
  assumes env: "a2a_env_ok E" and ok: "dir_ok E here d"
    and run: "transaction E here c True action d = (Inr r, d')"
    and act: "\<And>s r s'. stored E here d = Some s \<Longrightarrow> ledger_ok here s \<Longrightarrow> action s = Inr (r, s') \<Longrightarrow>
      ledger_changes E (held d) who s s'"
  obtains s s' where "stored E here d = Some s" "ledger_ok here s" "action s = Inr (r, s')"
    "stored E here d' = Some s'" "ledger_ok here s'" "written E d'" "held d' = held d"
proof -
  obtain s where s: "stored E here d = Some s" "ledger_ok here s" using ok by (auto simp: dir_ok_def)
  have head: "version t' = version t \<and> l_home t' = l_home t"
    if "stored E here d = Some t" "action t = Inr (r, t')" for t r t'
    using ledger_changes_evolve [OF env act [OF that(1) _ that(2)]] s that(1) by (auto simp: evolves_def)
  show ?thesis
  proof (rule transaction_cases [OF env run])
    show "version t' = version t \<and> l_home t' = l_home t"
      if "stored E here d = Some t" "action t = Inr (r, t')" for t r t' using that by (rule head)
    assume "committed E here c action d (Inr r) d'"
    then obtain s' where "action s = Inr (r, s')" "stored E here d' = Some s'" "written E d'" "held d' = held d"
      using s unfolding committed_def by auto
    then show ?thesis using that s act ledger_changes_ok [OF env] by blast
  qed simp_all
qed

lemma claim_answer:
  assumes env: "a2a_env_ok E" and ok: "dir_ok E here d"
    and run: "claim E here c i message d = (Inr (lease, turn, r, m), d')"
  obtains s s' where "stored E here d = Some s" "claim_action E c (held d) i message s = Inr ((lease, turn, r, m), s')"
    "stored E here d' = Some s'" "ledger_ok here s'" "written E d'" "held d' = insert lease (held d)" "ledger_ok here s"
proof -
  obtain d1 where tr: "transaction E here c True (claim_action E c (held d) i message) d = (Inr (lease, turn, r, m), d1)"
    and d': "d' = d1\<lparr>held := insert lease (held d1)\<rparr>"
    using run by (auto simp: claim_def split: prod.splits sum.splits)
  show ?thesis
  proof (rule transaction_answer [OF env ok tr])
    show "ledger_changes E (held d) None s s'"
      if "ledger_ok here s" "claim_action E c (held d) i message s = Inr (q, s')" for s q s'
      using that by (cases q) (auto dest: claim_action_changes)
  next
    fix s s'
    assume "stored E here d = Some s" "ledger_ok here s"
      "claim_action E c (held d) i message s = Inr ((lease, turn, r, m), s')"
      "stored E here d1 = Some s'" "ledger_ok here s'" "written E d1" "held d1 = held d"
    then show thesis using that d' by (simp add: written_def)
  qed
qed

lemma claim_fails_moves:
  assumes env: "a2a_env_ok E" and ok: "dir_ok E here d"
    and run: "claim E here c i message d = (Inl e, d')"
  shows "dir_moves E here who d d'"
proof -
  have tr: "transaction E here c True (claim_action E c (held d) i message) d = (Inl e, d')"
    using run by (auto simp: claim_def split: prod.splits sum.splits)
  show ?thesis
    by (rule transaction_moves [OF env ok tr]) (auto dest: claim_action_changes)
qed

section \<open>The invariant\<close>

definition live_ok :: "('x, 'n) a2a_env \<Rightarrow> device_id \<Rightarrow> dir \<Rightarrow> 'x execution \<Rightarrow> bool" where
  "live_ok E here d x \<longleftrightarrow>
     x_lease x = blake3_hex E (t_context (r_task (x_record x))) \<and> x_lease x \<in> held d \<and>
     (\<exists>s. stored E here d = Some s \<and> driven s (x_task x) (t_context (r_task (x_record x))) (x_turn x))"

definition leases_apart :: "(nat \<Rightarrow> 'x execution option) \<Rightarrow> bool" where
  "leases_apart l \<longleftrightarrow> (\<forall>h k x y. l h = Some x \<and> l k = Some y \<and> x_lease x = x_lease y \<longrightarrow> h = k)"

definition world_ok :: "('x, 'n) a2a_env \<Rightarrow> device_id \<Rightarrow> 'x world \<Rightarrow> bool" where
  "world_ok E here w \<longleftrightarrow> dir_ok E here (disk w) \<and> leases_apart (live w) \<and>
     (\<forall>h x. live w h = Some x \<longrightarrow> live_ok E here (disk w) x)"

lemma world_ok_start: "world_ok E here start_world"
  by (simp add: world_ok_def leases_apart_def start_world_def dir_ok_def written_def stored_def load_ledger_def
    clean_call_def)

lemma ledger_changes_driven:
  assumes env: "a2a_env_ok E" and changes: "ledger_changes E locked who s s'"
    and locked: "blake3_hex E cx \<in> locked" and d: "driven s i cx turn"
    and other: "\<forall>j. who = Some j \<longrightarrow> (\<exists>e. bt_get (tasks s) j = Some e \<and> (j = i \<or> t_context (e_task e) \<noteq> cx))"
  shows "driven s' i cx turn"
  using changes
proof (induction)
  case (step t u)
  have ev: "evolves E s t" using ledger_changes_evolve [OF env step(1)] .
  show ?case
  proof (rule ledger_change_driven [OF env step(2) locked step(3)])
    fix j e
    assume j: "who = Some j" "bt_get (tasks t) j = Some e"
    then obtain f where f: "bt_get (tasks s) j = Some f" "j = i \<or> t_context (e_task f) \<noteq> cx" using other by blast
    obtain e' where "bt_get (tasks t) j = Some e'" "entry_evolves E f e'"
      using ev f(1) unfolding evolves_def by meson
    then have "t_context (e_task e) = t_context (e_task f)" using j(2) by (simp add: entry_evolves_def)
    then show "j = i \<or> t_context (e_task e) \<noteq> cx" using f(2) by simp
  qed
qed (rule d)

lemma dir_moves_driven:
  assumes env: "a2a_env_ok E" and move: "dir_moves E here who d d'"
    and locked: "blake3_hex E cx \<in> held d" and d: "stored E here d = Some s" "driven s i cx turn"
    and other: "\<forall>j. who = Some j \<longrightarrow> (\<exists>e. bt_get (tasks s) j = Some e \<and> (j = i \<or> t_context (e_task e) \<noteq> cx))"
  shows "\<exists>s'. stored E here d' = Some s' \<and> driven s' i cx turn"
  using move unfolding dir_moves_def
proof (elim disjE exE conjE)
  fix t t'
  assume *: "stored E here d = Some t" "ledger_changes E (held d) who t t'" "stored E here d' = Some t'"
  then have "ledger_changes E (held d) who s t'" using d(1) by simp
  from ledger_changes_driven [OF env this locked d(2) other] *(3) show ?thesis by blast
qed (use d in auto)

lemma live_ok_held:
  "live_ok E here (d\<lparr>held := l\<rparr>) x \<Longrightarrow> l \<subseteq> held d \<Longrightarrow> live_ok E here d x"
  by (auto simp: live_ok_def)

lemma dir_moves_live:
  assumes env: "a2a_env_ok E" and move: "dir_moves E here who d d'" and ok: "dir_ok E here d" "live_ok E here d x"
    and other: "\<forall>j s. who = Some j \<and> stored E here d = Some s \<longrightarrow>
      (\<exists>e. bt_get (tasks s) j = Some e \<and> (j = x_task x \<or> t_context (e_task e) \<noteq> t_context (r_task (x_record x))))"
  shows "live_ok E here d' x"
proof -
  obtain s where s: "stored E here d = Some s" "driven s (x_task x) (t_context (r_task (x_record x))) (x_turn x)"
      "blake3_hex E (t_context (r_task (x_record x))) \<in> held d"
    using ok(2) by (auto simp: live_ok_def)
  then have "\<exists>s'. stored E here d' = Some s' \<and> driven s' (x_task x) (t_context (r_task (x_record x))) (x_turn x)"
    using other by (intro dir_moves_driven [OF env move]) auto
  then show ?thesis using ok(2) dir_moves_ok(2) [OF env move ok(1)] unfolding live_ok_def by metis
qed

lemma world_ok_move:
  assumes env: "a2a_env_ok E" and ok: "world_ok E here w" and move: "dir_moves E here None (disk w) d"
  shows "world_ok E here (w\<lparr>disk := d\<rparr>)"
  using ok dir_moves_ok(1) [OF env move] dir_moves_live [OF env move] by (simp add: world_ok_def)

text \<open>A call of the live execution \<open>h\<close> that leaves its task, context, turn and lease as they were.\<close>

lemma leases_apart_replace:
  assumes "leases_apart l" "l h = Some x" "x_lease x' = x_lease x"
  shows "leases_apart (l(h \<mapsto> x'))"
  using assms unfolding leases_apart_def by (metis fun_upd_apply option.inject)

lemma world_ok_turn:
  assumes env: "a2a_env_ok E" and ok: "world_ok E here w" and h: "live w h = Some x"
    and move: "dir_moves E here who (disk w) d" and who: "who = None \<or> who = Some (x_task x)"
    and same: "x_task x' = x_task x" "t_context (r_task (x_record x')) = t_context (r_task (x_record x))"
      "x_turn x' = x_turn x" "x_lease x' = x_lease x"
  shows "world_ok E here \<lparr>disk = d, live = (live w)(h \<mapsto> x')\<rparr>"
proof -
  have dok: "dir_ok E here (disk w)" and apart: "leases_apart (live w)"
    and lives: "\<And>k y. live w k = Some y \<Longrightarrow> live_ok E here (disk w) y"
    using ok by (auto simp: world_ok_def)
  have kept: "live_ok E here d y" if y: "live w k = Some y" for k y
  proof (rule dir_moves_live [OF env move dok lives [OF y]], intro allI impI, elim conjE)
    fix j s
    assume j: "who = Some j" and s: "stored E here (disk w) = Some s"
    obtain e where e: "bt_get (tasks s) (x_task x) = Some e" "t_context (e_task e) = t_context (r_task (x_record x))"
      using lives [OF h] s by (auto simp: live_ok_def driven_def)
    have "x_task x = x_task y \<or> t_context (e_task e) \<noteq> t_context (r_task (x_record y))"
    proof (cases "x_lease y = x_lease x")
      case True
      then have "k = h" using apart y h unfolding leases_apart_def by metis
      then show ?thesis using y h by simp
    next
      case False
      then show ?thesis using lives [OF y] lives [OF h] e(2) by (auto simp: live_ok_def)
    qed
    then show "\<exists>e. bt_get (tasks s) j = Some e \<and> (j = x_task y \<or> t_context (e_task e) \<noteq> t_context (r_task (x_record y)))"
      using e(1) j who by auto
  qed
  have "live_ok E here d x'" using kept [OF h] same unfolding live_ok_def by metis
  then show ?thesis
    using kept dir_moves_ok(1) [OF env move dok] leases_apart_replace [OF apart h same(4)]
    by (auto simp: world_ok_def)
qed

lemma bind_answer_same:
  assumes env: "a2a_env_ok E" and ok: "dir_ok E here d" and run: "bind_session E here c i turn session d = (Inr r, d')"
    and s: "stored E here d = Some s" "bt_get (tasks s) i = Some e"
  shows "t_id (r_task r) = i \<and> t_context (r_task r) = t_context (e_task e)"
  using run unfolding bind_session_def
proof (rule checked_cases)
  fix u
  assume tr: "transaction E here c True (bind_action here i turn session E) d = (Inr r, d')"
  show ?thesis
  proof (rule transaction_answer [OF env ok tr])
    show "ledger_changes E (held d) None t t'" if "bind_action here i turn session E t = Inr (q, t')" for t q t'
      using that by (rule bind_action_changes)
  next
    fix t t'
    assume *: "stored E here d = Some t" "ledger_ok here t" "bind_action here i turn session E t = Inr (r, t')"
      "ledger_ok here t'"
    then have t: "t = s" using s by simp
    have "ledger_changes E {} None s t'" using *(3) t bind_action_changes by blast
    then obtain e' where e': "bt_get (tasks t') i = Some e'" "entry_evolves E e e'"
      using ledger_changes_evolve [OF env] s(2) unfolding evolves_def by meson
    have "read_record t' i = Inr r" using *(3) by (auto simp: bind_action_def Let_def)
    then have "r_task r = e_task e'" using read_record_ok [OF *(4) e'(1)] by auto
    then show ?thesis using e' ledger_ok_id [OF *(4) e'(1)] by (auto simp: entry_evolves_def)
  qed
qed simp

lemma update_answer_same:
  assumes env: "a2a_env_ok E" and ok: "dir_ok E here d"
    and run: "executor_update E here c i turn st msg art d = (Inr r, d')"
    and s: "stored E here d = Some s" "bt_get (tasks s) i = Some e" "alone s i (t_context (e_task e))"
  shows "t_id (r_task r) = i \<and> t_context (r_task r) = t_context (e_task e) \<and> s_state (t_status (r_task r)) = st"
  using run unfolding executor_update_def
proof (rule checked_cases)
  fix u
  assume chk: "update_checks st msg art = Inr u"
    and tr: "transaction E here c True (update_action E c i turn st msg art) d = (Inr r, d')"
  have changes: "ledger_changes E (held d) (Some i) t t'"
    if "stored E here d = Some t" "update_action E c i turn st msg art t = Inr (q, t')" for t q t'
    using that s chk by (auto intro: update_action_changes)
  show ?thesis
  proof (rule transaction_answer [OF env ok tr])
    show "ledger_changes E (held d) (Some i) t t'"
      if "stored E here d = Some t" "update_action E c i turn st msg art t = Inr (q, t')" for t q t'
      using that by (rule changes)
  next
    fix t t'
    assume *: "stored E here d = Some t" "ledger_ok here t" "update_action E c i turn st msg art t = Inr (r, t')"
      "ledger_ok here t'"
    then have t: "t = s" using s by simp
    have t': "t' = put_entry i (\<lambda>e. set_status E (clock c 0) st msg (add_artifact art e)) s"
      and r: "read_record t' i = Inr r"
      using *(3) t by (auto simp: update_action_def Let_def)
    then have "bt_get (tasks t') i = Some (set_status E (clock c 0) st msg (add_artifact art e))" using s(2) by simp
    note rr = read_record_ok [OF *(4) this]
    then show ?thesis using r ledger_ok_id [OF *(2)] s(2) t set_status_simps(1) [of E "clock c 0" st msg "add_artifact art e"]
      by (auto simp: e_state_def)
  qed
qed simp

lemma world_ok_bind:
  assumes env: "a2a_env_ok E" and ok: "world_ok E here w" and h: "live w h = Some x"
    and run: "execution_bind E here c session x (disk w) = (r, x', d)"
  shows "world_ok E here \<lparr>disk = d, live = (live w)(h \<mapsto> x')\<rparr> \<and> dir_moves E here None (disk w) d"
proof -
  have dok: "dir_ok E here (disk w)" and x: "live_ok E here (disk w) x" using ok h by (auto simp: world_ok_def)
  obtain s e where s: "stored E here (disk w) = Some s" "bt_get (tasks s) (x_task x) = Some e"
      "t_context (e_task e) = t_context (r_task (x_record x))"
    using x by (auto simp: live_ok_def driven_def)
  obtain q where q: "bind_session E here c (x_task x) (x_turn x) session (disk w) = (q, d)"
    and x': "x' = (case q of Inl _ \<Rightarrow> x | Inr r \<Rightarrow> x\<lparr>x_record := r\<rparr>)"
    using run by (auto simp: execution_bind_def split: prod.splits sum.splits)
  note move = bind_session_moves [OF env dok q]
  have "x_task x' = x_task x \<and> t_context (r_task (x_record x')) = t_context (r_task (x_record x)) \<and>
      x_turn x' = x_turn x \<and> x_lease x' = x_lease x"
    using x' bind_answer_same [OF env dok _ s(1,2)] q s(3) by (auto simp: x_task_def split: sum.splits)
  then show ?thesis using world_ok_turn [OF env ok h move [of None]] move by auto
qed

lemma world_ok_update:
  assumes env: "a2a_env_ok E" and ok: "world_ok E here w" and h: "live w h = Some x"
    and run: "execution_update E here c st msg art x (disk w) = (r, x', d)"
  shows "world_ok E here \<lparr>disk = d, live = (live w)(h \<mapsto> x')\<rparr> \<and> dir_moves E here (Some (x_task x)) (disk w) d"
    and "r = Inr () \<Longrightarrow> s_state (t_status (r_task (x_record x'))) = st"
proof -
  have dok: "dir_ok E here (disk w)" and x: "live_ok E here (disk w) x" using ok h by (auto simp: world_ok_def)
  obtain s e where s: "stored E here (disk w) = Some s" "bt_get (tasks s) (x_task x) = Some e"
      "alone s (x_task x) (t_context (e_task e))" "t_context (e_task e) = t_context (r_task (x_record x))"
    using x by (auto simp: live_ok_def driven_def)
  obtain q where q: "executor_update E here c (x_task x) (x_turn x) st msg art (disk w) = (q, d)"
    and x': "x' = (case q of Inl _ \<Rightarrow> x | Inr r \<Rightarrow> x\<lparr>x_record := r\<rparr>)"
    and r: "r = Inr () \<longrightarrow> (\<exists>p. q = Inr p)"
    using run by (auto simp: execution_update_def split: prod.splits sum.splits)
  have move: "dir_moves E here (Some (x_task x)) (disk w) d"
    by (rule executor_update_moves [OF env dok q]) (use s in auto)
  have same: "x_task x' = x_task x \<and> t_context (r_task (x_record x')) = t_context (r_task (x_record x)) \<and>
      x_turn x' = x_turn x \<and> x_lease x' = x_lease x"
    using x' update_answer_same [OF env dok _ s(1-3)] q s(4) by (auto simp: x_task_def split: sum.splits)
  then show "world_ok E here \<lparr>disk = d, live = (live w)(h \<mapsto> x')\<rparr> \<and> dir_moves E here (Some (x_task x)) (disk w) d"
    using world_ok_turn [OF env ok h move] move by auto
  show "s_state (t_status (r_task (x_record x'))) = st" if "r = Inr ()"
    using that r x' update_answer_same [OF env dok _ s(1-3)] q by auto
qed

lemma world_ok_claim:
  assumes env: "a2a_env_ok E" and ok: "world_ok E here w" and h: "live w h = None"
    and run: "execution_claim E here c i message (disk w) = (Inr x, d)"
  shows "world_ok E here \<lparr>disk = d, live = (live w)(h \<mapsto> x)\<rparr>"
    and "\<exists>s s'. stored E here (disk w) = Some s \<and> stored E here d = Some s' \<and> evolves E s s'"
    and "x_task x = i"
proof -
  have dok: "dir_ok E here (disk w)" and apart: "leases_apart (live w)"
    and lives: "\<And>k y. live w k = Some y \<Longrightarrow> live_ok E here (disk w) y"
    using ok by (auto simp: world_ok_def)
  obtain lease turn r m where cl: "claim E here c i message (disk w) = (Inr (lease, turn, r, m), d)"
    and x: "x = \<lparr>x_record = r, x_message = m, x_turn = turn, x_lease = lease\<rparr>"
    using run by (auto simp: execution_claim_def split: prod.splits sum.splits)
  obtain s s' where s: "stored E here (disk w) = Some s" "ledger_ok here s"
    and act: "claim_action E c (held (disk w)) i message s = Inr ((lease, turn, r, m), s')"
    and s': "stored E here d = Some s'" "ledger_ok here s'" "written E d" "held d = insert lease (held (disk w))"
    by (rule claim_answer [OF env dok cl])
  note ch = claim_action_changes [OF s(2) act, where who = None]
  then have changes: "ledger_changes E (held (disk w)) None s s'" and fresh: "lease \<notin> held (disk w)" by simp_all
  have move: "dir_moves E here None (disk w) (d\<lparr>held := held (disk w)\<rparr>)"
    using s(1) s' changes by (auto simp: dir_moves_def written_def)
  have kept: "live_ok E here d y" if "live w k = Some y" for k y
  proof -
    have "live_ok E here (d\<lparr>held := held (disk w)\<rparr>) y" using dir_moves_live [OF env move dok lives [OF that]] by simp
    then show ?thesis by (rule live_ok_held) (use s'(4) in auto)
  qed
  have new: "live_ok E here d x" "x_task x = i"
    using ch s' by (auto simp: x live_ok_def x_task_def)
  have "x_lease y \<noteq> lease" if "live w k = Some y" for k y
    using lives [OF that] fresh by (auto simp: live_ok_def)
  then have "leases_apart ((live w)(h \<mapsto> x))"
    using apart x unfolding leases_apart_def by (auto split: if_splits)
  then show "world_ok E here \<lparr>disk = d, live = (live w)(h \<mapsto> x)\<rparr>"
    using kept new s' by (auto simp: world_ok_def dir_ok_def)
  show "\<exists>s s'. stored E here (disk w) = Some s \<and> stored E here d = Some s' \<and> evolves E s s'"
    using s s' ledger_changes_evolve [OF env changes] by auto
  show "x_task x = i" by (rule new(2))
qed

lemma world_ok_drop:
  assumes ok: "world_ok E here w" and h: "live w h = Some x"
  shows "world_ok E here \<lparr>disk = release x (disk w), live = (live w)(h := None)\<rparr>"
proof -
  have "live_ok E here (release x (disk w)) y" if "live w k = Some y" "k \<noteq> h" for k y
  proof -
    have y: "live_ok E here (disk w) y" and "x_lease y \<noteq> x_lease x"
      using ok that h unfolding world_ok_def leases_apart_def by metis+
    then have "x_lease y \<in> held (release x (disk w))" by (auto simp: live_ok_def release_def)
    then show ?thesis using y by (auto simp: live_ok_def release_def)
  qed
  then show ?thesis
    using ok by (auto simp: world_ok_def leases_apart_def release_def dir_ok_def written_def)
qed

lemma world_step_ok:
  assumes env: "a2a_env_ok E" and step: "world_step E here w w'" and ok: "world_ok E here w"
  shows "world_ok E here w' \<and>
    (\<exists>s s'. stored E here (disk w) = Some s \<and> stored E here (disk w') = Some s' \<and> evolves E s s')"
proof -
  have dok: "dir_ok E here (disk w)" using ok by (simp add: world_ok_def)
  obtain s where s: "stored E here (disk w) = Some s" using dok by (auto simp: dir_ok_def)
  have by_move: ?thesis if "dir_moves E here None (disk w) d" "w' = w\<lparr>disk := d\<rparr>" for d
    using world_ok_move [OF env ok that(1)] dir_moves_ok(3) [OF env that(1) dok] that(2) by simp
  show ?thesis
    using step
  proof cases
    case (Accept c caller to m parent r d)
    then show ?thesis using by_move accept_moves [OF env dok] by blast
  next
    case (Request_cancel c caller to i r d)
    then show ?thesis using by_move request_cancel_moves [OF env dok] by blast
  next
    case (Cancel_input c caller to message parent r d)
    then show ?thesis using by_move cancel_input_moves [OF env dok] by blast
  next
    case (Recover c r d)
    then show ?thesis using by_move recover_moves [OF env dok] by blast
  next
    case (Claim c i message x d h)
    then show ?thesis using world_ok_claim [OF env ok] by auto
  next
    case (Claim_fails c i message e d)
    then have "claim E here c i message (disk w) = (Inl e, d)"
      by (auto simp: execution_claim_def split: prod.splits sum.splits)
    then show ?thesis using by_move claim_fails_moves [OF env dok] Claim_fails by blast
  next
    case (Bind_turn h x c session r x' d)
    note b = world_ok_bind [OF env ok Bind_turn(2,3)]
    then show ?thesis using dir_moves_ok(3) [OF env _ dok] Bind_turn(1) by auto
  next
    case (Update_turn h x c st msg art r x' d)
    note b = world_ok_update(1) [OF env ok Update_turn(2,3)]
    then show ?thesis using dir_moves_ok(3) [OF env _ dok] Update_turn(1) by auto
  next
    case (Drop_turn h x)
    then show ?thesis using world_ok_drop [OF ok] s by (auto simp: release_def)
  qed
qed

lemma world_steps_ok:
  assumes env: "a2a_env_ok E" and steps: "world_steps E here w w'" and ok: "world_ok E here w"
  shows "world_ok E here w' \<and>
    (\<exists>s s'. stored E here (disk w) = Some s \<and> stored E here (disk w') = Some s' \<and> evolves E s s')"
  using steps
proof induction
  case base
  then show ?case using ok by (auto simp: world_ok_def dir_ok_def)
next
  case (step u v)
  then show ?case using world_step_ok [OF env step(2)] by (fastforce intro: evolves_trans)
qed

end
