(* ===== verification/A2aGuarantees.thy ===== *)
theory A2aGuarantees
  imports A2aSystem
begin

text \<open>What the delegation store promises to callers, over every run of the system.\<close>

section \<open>Shared steps\<close>

lemma reach_ok: "a2a_env_ok E \<Longrightarrow> world_steps E here start_world w \<Longrightarrow> world_ok E here w"
  using world_steps_ok world_ok_start by blast

lemma reach_dir: "a2a_env_ok E \<Longrightarrow> world_steps E here start_world w \<Longrightarrow> dir_ok E here (disk w)"
  by (drule (1) reach_ok) (simp add: world_ok_def)

lemma reach_evolves:
  assumes "a2a_env_ok E" "world_steps E here start_world w" "world_steps E here w w'"
    and "stored E here (disk w) = Some s"
  obtains s' where "stored E here (disk w') = Some s'" "evolves E s s'" "ledger_ok here s" "ledger_ok here s'"
proof -
  obtain s' where s': "stored E here (disk w') = Some s'" "evolves E s s'"
    using world_steps_ok [OF assms(1,3) reach_ok [OF assms(1,2)]] assms(4) by auto
  moreover have "ledger_ok here s" "ledger_ok here s'"
    using reach_dir [OF assms(1,2)] reach_dir [OF assms(1) rtranclp_trans [OF assms(2,3)]] assms(4) s'(1)
    by (auto simp: dir_ok_def)
  ultimately show ?thesis using that by blast
qed

lemma evolves_entry:
  assumes "evolves E s s'" "bt_get (tasks s) i = Some e"
  obtains e' where "bt_get (tasks s') i = Some e'" "entry_evolves E e e'"
  using assms unfolding evolves_def by blast

lemma evolves_message: "evolves E s s' \<Longrightarrow> bt_get (messages s) k = Some d \<Longrightarrow> bt_get (messages s') k = Some d"
  by (simp add: evolves_def)

lemma evolves_session: "evolves E s s' \<Longrightarrow> session_of s cx = Some b \<Longrightarrow> session_of s' cx = Some b"
  unfolding evolves_def session_of_def by (force split: option.splits)

lemma read_record_Inr:
  assumes "ledger_ok here s" "read_record s i = Inr r"
  obtains e where "bt_get (tasks s) i = Some e" "r = \<lparr>r_task = e_task e, r_target = e_target e,
    r_caller = e_caller e, r_parent = e_parent e, r_session = session_of s (t_context (e_task e)),
    r_revision = e_revision e, r_cancel = e_cancel e\<rparr>"
proof -
  obtain e where "bt_get (tasks s) i = Some e" using assms(2) by (auto simp: read_record_def)
  then show ?thesis using that read_record_ok [OF assms(1)] assms(2) by auto
qed

section \<open>Tasks\<close>

text \<open>
  C22: a terminal task is final.  Whatever callers, executors, other processes and restarts do
  after a task has completed, failed, or been cancelled or rejected, its state, history,
  artifacts, owner and turn stay what they were; only the revision may move on.
\<close>

theorem terminal_task_is_final:
  assumes "a2a_env_ok E" "world_steps E here start_world w" "world_steps E here w w'"
    and "stored E here (disk w) = Some s" "bt_get (tasks s) i = Some e" "terminal E (e_state e)"
  shows "\<exists>s' n. stored E here (disk w') = Some s' \<and> bt_get (tasks s') i = Some (e\<lparr>e_revision := n\<rparr>)"
proof -
  obtain s' where s': "stored E here (disk w') = Some s'" "evolves E s s'"
    using reach_evolves [OF assms(1-4)] by blast
  obtain e' where "bt_get (tasks s') i = Some e'" "entry_evolves E e e'" by (rule evolves_entry [OF s'(2) assms(5)])
  then show ?thesis using s'(1) assms(6) unfolding entry_evolves_def by metis
qed

text \<open>
  the revision identifies the record.  Revisions never go back, and two reads of a task that
  show the same revision show the same record, the context's session included, which is
  what a caller that waits for the next revision relies on.
\<close>

theorem revision_identifies_record:
  assumes "a2a_env_ok E" "world_steps E here start_world w" "world_steps E here w w'"
    and "stored E here (disk w) = Some s" "read_record s i = Inr r"
    and "stored E here (disk w') = Some s'" "read_record s' i = Inr r'"
  shows "r_revision r \<le> r_revision r' \<and> (r_revision r' = r_revision r \<longrightarrow> r' = r)"
proof -
  obtain s'' where "stored E here (disk w') = Some s''" and ev: "evolves E s s''" and ok: "ledger_ok here s" "ledger_ok here s''"
    by (rule reach_evolves [OF assms(1-4)])
  then have ev: "evolves E s s'" and ok': "ledger_ok here s'" using assms(6) by auto
  obtain e where e: "bt_get (tasks s) i = Some e" and r: "r = \<lparr>r_task = e_task e, r_target = e_target e,
    r_caller = e_caller e, r_parent = e_parent e, r_session = session_of s (t_context (e_task e)),
    r_revision = e_revision e, r_cancel = e_cancel e\<rparr>"
    by (rule read_record_Inr [OF ok(1) assms(5)])
  obtain e' where e': "bt_get (tasks s') i = Some e'" and r': "r' = \<lparr>r_task = e_task e', r_target = e_target e',
    r_caller = e_caller e', r_parent = e_parent e', r_session = session_of s' (t_context (e_task e')),
    r_revision = e_revision e', r_cancel = e_cancel e'\<rparr>"
    by (rule read_record_Inr [OF ok' assms(7)])
  have both: "entry_evolves E e e' \<and> (e_revision e' = e_revision e \<and> bt_get (contexts s) (t_context (e_task e)) \<noteq> None \<longrightarrow>
             e' = e \<and> session_of s' (t_context (e_task e)) = session_of s (t_context (e_task e)))"
    using ev e e' unfolding evolves_def by (metis option.inject)
  have "r_revision r \<le> r_revision r'" using both by (simp add: r r' entry_evolves_def)
  have "bt_get (contexts s) (t_context (e_task e)) \<noteq> None"
    using ledger_ok_entry [OF ok(1) e] by (auto simp: entry_ok_def)
  then have "r_revision r' = r_revision r \<longrightarrow> r' = r" using both by (auto simp: r r')
  with \<open>r_revision r \<le> r_revision r'\<close> show ?thesis ..
qed

text \<open>
  C19: one task of a context works at a time, across all processes, crashes and restarts.
\<close>

theorem one_worker_per_context:
  assumes "a2a_env_ok E" "world_steps E here start_world w" "stored E here (disk w) = Some s"
    and "bt_get (tasks s) i = Some e" "bt_get (tasks s) j = Some f"
    and "t_context (e_task e) = t_context (e_task f)" "e_state e = Working" "e_state f = Working"
  shows "i = j"
proof -
  have "one_worker s" using reach_dir [OF assms(1,2)] assms(3) by (auto simp: dir_ok_def ledger_ok_def)
  then show ?thesis using assms(4-8) unfolding one_worker_def by blast
qed

text \<open>
  a live execution owns its turn.  As long as it holds its lease its task exists, is at the turn
  it claimed and has not been handed out again, no other task of the context works, and no
  other live execution holds the same lease.
\<close>

theorem live_turn_is_current:
  assumes "a2a_env_ok E" "world_steps E here start_world w" "live w h = Some x"
  shows "\<exists>s e. stored E here (disk w) = Some s \<and> bt_get (tasks s) (x_task x) = Some e \<and>
    e_turn e = x_turn x \<and> e_state e \<noteq> Submitted \<and> alone s (x_task x) (t_context (e_task e)) \<and>
    (\<forall>k y. live w k = Some y \<and> x_lease y = x_lease x \<longrightarrow> k = h)"
proof -
  have ok: "world_ok E here w" using reach_ok [OF assms(1,2)] .
  then have "live_ok E here (disk w) x" "leases_apart (live w)" using assms(3) by (auto simp: world_ok_def)
  then obtain s e where "stored E here (disk w) = Some s" "bt_get (tasks s) (x_task x) = Some e"
      "t_context (e_task e) = t_context (r_task (x_record x))" "e_turn e = x_turn x" "e_state e \<noteq> Submitted"
      "alone s (x_task x) (t_context (r_task (x_record x)))"
    by (auto simp: live_ok_def driven_def)
  moreover have "\<forall>k y. live w k = Some y \<and> x_lease y = x_lease x \<longrightarrow> k = h"
    using \<open>leases_apart (live w)\<close> assms(3) unfolding leases_apart_def by blast
  ultimately show ?thesis by metis
qed

text \<open>
  a session binding is final and exclusive: once a context is bound to a session it stays bound to
  it, and no other context is ever bound to the same session.
\<close>

theorem session_binding_is_final:
  assumes "a2a_env_ok E" "world_steps E here start_world w" "world_steps E here w w'"
    and "stored E here (disk w) = Some s" "session_of s cx = Some b"
  shows "\<exists>s'. stored E here (disk w') = Some s' \<and> session_of s' cx = Some b \<and>
    (\<forall>k. session_of s' k = Some b \<longrightarrow> k = cx)"
proof -
  obtain s' where s': "stored E here (disk w') = Some s'" "evolves E s s'" "ledger_ok here s'"
    using reach_evolves [OF assms(1-4)] by blast
  then have "session_of s' cx = Some b" using evolves_session assms(5) by blast
  then show ?thesis using s' unfolding ledger_ok_def sessions_apart_def by blast
qed

section \<open>Input messages\<close>

lemma accept_known:
  assumes env: "a2a_env_ok E" and ok: "dir_ok E here d"
    and s: "stored E here d = Some s" "message_key E caller to (message_id m) = Inr key" "bt_get (messages s) key = Some prior"
    and run: "accept E here c caller to m parent d = (Inr sub, d')"
  shows "\<not> accepted sub \<and> d_task prior \<noteq> None \<and> read_record s (the (d_task prior)) = Inr (receipt sub) \<and>
    stored E here d' = Some s"
  using run unfolding accept_def
proof (rule checked_cases)
  fix p
  assume p: "accept_checks E here caller to m parent = Inr p"
    and tr: "(case p of (key, digest) \<Rightarrow> transaction E here c True (accept_action E c (held d) caller to m parent key digest) d) = (Inr sub, d')"
  obtain k digest where kd: "p = (k, digest)" by (cases p) auto
  have k: "k = key" using accept_checks_Inr(3) [OF p [unfolded kd]] s(2) by simp
  have tr': "transaction E here c True (accept_action E c (held d) caller to m parent key digest) d = (Inr sub, d')"
    using tr kd k by simp
  have act: "accept_action E c (held d) caller to m parent key digest s = accept_again caller to m digest prior s"
    by (simp add: accept_action_def s(3))
  have same: "q = s" if "accept_again caller to m digest prior s = Inr (r, q)" for r q
    using that by (auto simp: accept_again_def)
  show ?thesis
  proof (rule transaction_answer [OF env ok tr'])
    fix t r t'
    assume "stored E here d = Some t" "accept_action E c (held d) caller to m parent key digest t = Inr (r, t')"
    then have "accept_again caller to m digest prior s = Inr (r, t')" "t = s" using s(1) act by simp_all
    then show "ledger_changes E (held d) None t t'" using same by blast
  next
    fix t t'
    assume "stored E here d = Some t" "accept_action E c (held d) caller to m parent key digest t = Inr (sub, t')"
      "stored E here d' = Some t'"
    then have again: "accept_again caller to m digest prior s = Inr (sub, t')" and t': "stored E here d' = Some t'"
      using s(1) act by simp_all
    have "t' = s" using again by (rule same)
    then show ?thesis using again t' by (auto simp: accept_again_def)
  qed
qed simp

lemma accept_first:
  assumes env: "a2a_env_ok E" and ok: "dir_ok E here d" and fresh: "fresh_call E here c d"
    and run: "accept E here c caller to m parent d = (Inr sub, d')" "accepted sub"
  obtains key digest s tid where
    "accept_checks E here caller to m parent = Inr (key, digest)" "stored E here d' = Some s" "ledger_ok here s"
    "bt_get (messages s) key = Some \<lparr>d_fingerprint = Some digest, d_task = Some tid, d_fence = None\<rparr>"
    "t_id (r_task (receipt sub)) = tid" "written E d'"
  using run(1) unfolding accept_def
proof (rule checked_cases)
  fix p
  assume p: "accept_checks E here caller to m parent = Inr p"
    and tr: "(case p of (key, digest) \<Rightarrow> transaction E here c True (accept_action E c (held d) caller to m parent key digest) d) = (Inr sub, d')"
  obtain key digest where kd: "p = (key, digest)" by (cases p) auto
  note chk = accept_checks_Inr [OF p [unfolded kd]]
  have shape: "length digest = 64" "list_all is_ascii_hexdigit digest"
    using fingerprint_shape [OF env chk(4)] by simp_all
  have tr': "transaction E here c True (accept_action E c (held d) caller to m parent key digest) d = (Inr sub, d')"
    using tr kd by simp
  show thesis
  proof (rule transaction_answer [OF env ok tr'])
    fix t r t'
    assume "stored E here d = Some t" "accept_action E c (held d) caller to m parent key digest t = Inr (r, t')"
    then show "ledger_changes E (held d) None t t'"
      using accept_action_changes [OF env chk(1,2) shape] fresh by (auto simp: fresh_call_def)
  next
    fix t t'
    assume t: "accept_action E c (held d) caller to m parent key digest t = Inr (sub, t')"
      and t': "stored E here d' = Some t'" "ledger_ok here t'" "written E d'"
    obtain tid u where u: "t' = u\<lparr>messages := bt_insert key
                 \<lparr>d_fingerprint = Some digest, d_task = Some tid, d_fence = None\<rparr> (messages u)\<rparr>"
        "read_record t' tid = Inr (receipt sub)"
      using t run(2) by (auto simp: accept_action_def accept_again_def Let_def split: option.splits)
    obtain e where "bt_get (tasks t') tid = Some e" "r_task (receipt sub) = e_task e"
      by (rule read_record_Inr [OF t'(2) u(2)]) auto
    then have "t_id (r_task (receipt sub)) = tid" using ledger_ok_id [OF t'(2)] by simp
    moreover have "bt_get (messages t') key = Some \<lparr>d_fingerprint = Some digest, d_task = Some tid, d_fence = None\<rparr>"
      by (simp add: u(1))
    ultimately show thesis using that p kd t' by blast
  qed
qed simp

text \<open>
  C2: a message is accepted once.  After a message has been accepted, no later delivery of a message
  with the same caller, agent and identifier is accepted again, whatever happened in between:
  it is refused, or answered with the receipt of the same task, and leaves the ledger alone.
\<close>

theorem message_accepted_once:
  assumes "a2a_env_ok E" "world_steps E here start_world w" "fresh_call E here c (disk w)"
    and "accept E here c caller to m parent (disk w) = (Inr sub, d)" "accepted sub"
    and "world_steps E here (w\<lparr>disk := d\<rparr>) w'"
    and "message_id m' = message_id m"
    and "accept E here c' caller to m' parent' (disk w') = (Inr sub', d')"
  shows "\<not> accepted sub' \<and> t_id (r_task (receipt sub')) = t_id (r_task (receipt sub)) \<and>
    stored E here d' = stored E here (disk w')"
proof -
  have reach: "world_steps E here start_world (w\<lparr>disk := d\<rparr>)"
    using assms(2) world_step.Accept [OF assms(3,4)] by (rule rtranclp.rtrancl_into_rtrancl)
  obtain key digest s tid where s: "accept_checks E here caller to m parent = Inr (key, digest)"
    "stored E here d = Some s" "ledger_ok here s"
    "bt_get (messages s) key = Some \<lparr>d_fingerprint = Some digest, d_task = Some tid, d_fence = None\<rparr>"
    "t_id (r_task (receipt sub)) = tid"
    by (rule accept_first [OF assms(1) reach_dir [OF assms(1,2)] assms(3,4,5)])
  have st: "stored E here (disk (w\<lparr>disk := d\<rparr>)) = Some s" using s(2) by simp
  obtain s' where s': "stored E here (disk w') = Some s'" "evolves E s s'" "ledger_ok here s'"
    by (rule reach_evolves [OF assms(1) reach assms(6) st])
  have key: "message_key E caller to (message_id m') = Inr key" using accept_checks_Inr(3) [OF s(1)] assms(7) by simp
  have k: "\<not> accepted sub' \<and> read_record s' tid = Inr (receipt sub') \<and> stored E here d' = Some s'"
    using accept_known [OF assms(1) reach_dir [OF assms(1) rtranclp_trans [OF reach assms(6)]] s'(1) key
        evolves_message [OF s'(2) s(4)] assms(8)] by simp
  then obtain e where "bt_get (tasks s') tid = Some e" "r_task (receipt sub') = e_task e"
    using read_record_Inr [OF s'(3)] by (metis receipt.select_convs(1))
  then show ?thesis using k s(5) s'(1) ledger_ok_id [OF s'(3)] by simp
qed


lemma file_present:
  assumes "stored E here d = Some s" "bt_get (messages s) k = Some x"
  shows "ledger_file d \<noteq> None"
proof
  assume "ledger_file d = None"
  then have "s = empty_ledger here" using assms(1) by (simp add: stored_def load_ledger_def clean_call_def)
  then show False using assms(2) by (simp add: empty_ledger_def)
qed

lemma save_again:
  assumes "a2a_env_ok E" "written E d" "stored E here d = Some s" "ledger_file d \<noteq> None" "save_fault c = None"
  shows "save_ledger E c s d = (Inr (), d)"
proof -
  obtain b t where b: "ledger_file d = Some b" "ledger_bytes E t = Inr b" "length b \<le> MAX_STORE_BYTES"
    using assms(2,4) by (auto simp: written_def)
  then have "s = t" using assms(3) env_codec [OF assms(1) b(2)]
    by (auto simp: stored_def load_ledger_def clean_call_def split: sum.splits)
  then show ?thesis using b assms(5) by (cases d) (simp add: save_ledger_def)
qed

lemma transaction_no_change:
  assumes "a2a_env_ok E" "written E d" "stored E here d = Some s" "ledger_file d \<noteq> None"
    and "gate_fault c = None" "read_fault c = None" "save_fault c = None" "action s = Inr (r, s)"
  shows "transaction E here c True action d = (Inr r, d)"
  using assms save_again [OF assms(1-4,7)] by (simp add: transaction_def load_clean)

text \<open>
  a retry is answered.  A caller that delivers an accepted message again, unchanged, at any later time and
  with the disk in order gets the task's current receipt with \<open>accepted = false\<close>, and not a byte
  of the store changes.
\<close>

theorem retry_returns_receipt:
  assumes "a2a_env_ok E" "world_steps E here start_world w" "fresh_call E here c (disk w)"
    and "accept E here c caller to m parent (disk w) = (Inr sub, d)" "accepted sub"
    and "world_steps E here (w\<lparr>disk := d\<rparr>) w'"
    and "gate_fault c' = None" "read_fault c' = None" "save_fault c' = None"
  shows "\<exists>s r. stored E here (disk w') = Some s \<and> read_record s (t_id (r_task (receipt sub))) = Inr r \<and>
    accept E here c' caller to m parent (disk w') = (Inr \<lparr>receipt = r, accepted = False\<rparr>, disk w')"
proof -
  have reach: "world_steps E here start_world (w\<lparr>disk := d\<rparr>)"
    using assms(2) world_step.Accept [OF assms(3,4)] by (rule rtranclp.rtrancl_into_rtrancl)
  obtain key digest s tid where s: "accept_checks E here caller to m parent = Inr (key, digest)"
    "stored E here d = Some s" "ledger_ok here s"
    "bt_get (messages s) key = Some \<lparr>d_fingerprint = Some digest, d_task = Some tid, d_fence = None\<rparr>"
    "t_id (r_task (receipt sub)) = tid"
    by (rule accept_first [OF assms(1) reach_dir [OF assms(1,2)] assms(3,4,5)])
  let ?prior = "\<lparr>d_fingerprint = Some digest, d_task = Some tid, d_fence = None\<rparr>"
  have st: "stored E here (disk (w\<lparr>disk := d\<rparr>)) = Some s" using s(2) by simp
  obtain s' where s': "stored E here (disk w') = Some s'" "evolves E s s'" "ledger_ok here s'"
    by (rule reach_evolves [OF assms(1) reach assms(6) st])
  have prior: "bt_get (messages s') key = Some ?prior" by (rule evolves_message [OF s'(2) s(4)])
  then have shape: "dedup_shape s' ?prior" using s'(3) unfolding ledger_ok_def by blast
  then obtain e where e: "bt_get (tasks s') tid = Some e" by (auto simp: dedup_shape_def)
  have valid: "dedup_validate ?prior caller to (message_id m) = Inr ()"
    using shape by (auto simp: dedup_shape_def dedup_validate_def Let_def)
  obtain r where r: "read_record s' tid = Inr r" using read_record_ok [OF s'(3) e] by blast
  have act: "accept_action E c' (held (disk w')) caller to m parent key digest s' =
      Inr (\<lparr>receipt = r, accepted = False\<rparr>, s')"
    by (simp add: accept_action_def accept_again_def prior valid r)
  have wr: "written E (disk w')"
    using reach_dir [OF assms(1) rtranclp_trans [OF reach assms(6)]] by (simp add: dir_ok_def)
  have "transaction E here c' True (accept_action E c' (held (disk w')) caller to m parent key digest) (disk w') =
      (Inr \<lparr>receipt = r, accepted = False\<rparr>, disk w')"
    by (rule transaction_no_change [OF assms(1) wr s'(1) file_present [OF s'(1) prior] assms(7-9)]) (rule act)
  then show ?thesis using s' r s(1,5) by (simp add: accept_def checked_def)
qed

lemma cancel_input_fences:
  assumes env: "a2a_env_ok E" and ok: "dir_ok E here d"
    and run: "cancel_input E here c caller to message parent d = (Inr Fenced, d')"
  obtains key s prior where "message_key E caller to message = Inr key" "stored E here d' = Some s"
    "bt_get (messages s) key = Some prior" "d_task prior = None" "dedup_validate prior caller to message = Inr ()"
  using run unfolding cancel_input_def
proof (rule checked_cases)
  fix key
  assume k: "cancel_input_checks E here caller to message parent = Inr key"
    and tr: "transaction E here c True (cancel_input_action E here c caller to message parent key) d = (Inr Fenced, d')"
  have key: "message_key E caller to message = Inr key" using k by (auto simp: cancel_input_checks_def)
  show thesis
  proof (rule transaction_answer [OF env ok tr])
    show "ledger_changes E (held d) None t t'"
      if "ledger_ok here t" "cancel_input_action E here c caller to message parent key t = Inr (r, t')" for t r t'
      using that by (rule cancel_input_action_changes)
  next
    fix t t'
    assume t: "cancel_input_action E here c caller to message parent key t = Inr (Fenced, t')"
      and t': "stored E here d' = Some t'"
    obtain early where e: "cancel_input_change E c caller to message parent key t = Inr (early, t')"
      using t by (auto simp: cancel_input_action_def split: option.splits)
    show thesis
    proof (cases early)
      case None
      then have "resolve_input E here t' caller to message = Inr (Some Fenced)"
        using t e by (auto simp: cancel_input_action_def)
      then show ?thesis using that key t' by (auto simp: resolve_input_def Let_def split: option.splits if_splits)
    next
      case (Some q)
      then obtain prior f where p: "bt_get (messages t) key = Some prior" "dedup_validate prior caller to message = Inr ()"
          "d_fence prior = Some f" "t' = t"
        using e by (auto simp: cancel_input_change_def split: option.splits if_splits)
      then have "d_task prior = None" by (auto simp: dedup_validate_def Let_def split: option.splits)
      then show ?thesis using that key t' p by blast
    qed
  qed
qed simp

text \<open>
  C18: a fence holds.  Once \<open>cancel_input\<close> has answered that an input is fenced, no later delivery of that input
  is accepted: the call fails, nothing on the disk changes, and when its checks pass and the
  disk is in order the error is \<open>InputFenced\<close>.
\<close>

theorem fenced_input_is_never_accepted:
  assumes "a2a_env_ok E" "world_steps E here start_world w"
    and "cancel_input E here c caller to message parent (disk w) = (Inr Fenced, d)"
    and "world_steps E here (w\<lparr>disk := d\<rparr>) w'"
    and "message_id m = message" "accept E here c' caller to m parent' (disk w') = (r, d')"
  shows "(\<exists>e. r = Inl e) \<and> d' = disk w' \<and>
    (gate_fault c' = None \<and> read_fault c' = None \<and> is_ok (accept_checks E here caller to m parent') \<longrightarrow>
      r = Inl InputFenced)"
proof -
  have reach: "world_steps E here start_world (w\<lparr>disk := d\<rparr>)"
    using assms(2) world_step.Cancel_input [OF assms(3)] by (rule rtranclp.rtrancl_into_rtrancl)
  obtain key s prior where s: "message_key E caller to message = Inr key" "stored E here d = Some s"
    "bt_get (messages s) key = Some prior" "d_task prior = None" "dedup_validate prior caller to message = Inr ()"
    by (rule cancel_input_fences [OF assms(1) reach_dir [OF assms(1,2)] assms(3)])
  have st: "stored E here (disk (w\<lparr>disk := d\<rparr>)) = Some s" using s(2) by simp
  obtain s' where s': "stored E here (disk w') = Some s'" "evolves E s s'"
    by (rule reach_evolves [OF assms(1) reach assms(4) st])
  note prior = evolves_message [OF s'(2) s(3)]
  have act: "accept_action E c' (held (disk w')) caller to m parent' key digest s' = Inl InputFenced" for digest
    by (simp add: accept_action_def accept_again_def prior assms(5) s(4,5))
  have load: "load_ledger E here c' (disk w') = Inr t \<Longrightarrow> t = s'" for t
    using load_stored s'(1) by fastforce
  show ?thesis
  proof (cases "accept_checks E here caller to m parent'")
    case (Inl e)
    then show ?thesis using assms(6) by (auto simp: accept_def checked_def)
  next
    case (Inr p)
    obtain digest where p: "p = (key, digest)"
      using accept_checks_Inr(3) [of E here caller to m parent' "fst p" "snd p"] Inr s(1) assms(5)
      by (cases p) auto
    have tr: "transaction E here c' True (accept_action E c' (held (disk w')) caller to m parent' key digest) (disk w') = (r, d')"
      using assms(6) Inr p by (simp add: accept_def checked_def)
    have "(\<exists>e. r = Inl e) \<and> d' = disk w'"
      using tr act load by (auto simp: transaction_def split: option.splits sum.splits)
    moreover have "r = Inl InputFenced" if "gate_fault c' = None" "read_fault c' = None"
      using tr act load_clean [OF s'(1) that(2)] that(1) by (simp add: transaction_def)
    ultimately show ?thesis by blast
  qed
qed

end
