(* ===== verification/A2aAnswers.thy ===== *)
theory A2aAnswers
  imports A2aGuarantees
begin

text \<open>
  What single calls of the delegation store answer: failures leave the disk alone, an old Stop
  spares a newer input, recovery touches exactly the lost tasks, dispatch leaves nothing
  working, pages list every task once, and equal requests have equal fingerprints.
\<close>

section \<open>Failures\<close>

lemma transaction_fails:
  assumes "transaction E here c w action d = (Inl e, d')" "\<forall>x. save_fault c \<noteq> Some (SyncDirectory, x)"
  shows "d' = d"
  using assms by (auto simp: transaction_def save_ledger_def
      split: option.splits sum.splits if_splits prod.splits save_stage.splits)

definition harmless :: "(a2a_error + 'r) \<times> dir \<Rightarrow> dir \<Rightarrow> bool" where
  "harmless q d \<longleftrightarrow> (case q of (Inl _, d') \<Rightarrow> d' = d | (Inr _, _) \<Rightarrow> True)"

lemma harmless_transaction:
  "\<forall>x. save_fault c \<noteq> Some (SyncDirectory, x) \<Longrightarrow> harmless (transaction E here c w action d) d"
  by (auto simp: harmless_def intro: transaction_fails split: sum.split)

lemma harmless_checked: "(\<And>x. harmless (f x) d) \<Longrightarrow> harmless (checked r f d) d"
  by (simp add: checked_def harmless_def split: sum.split)

lemma harmless_claim:
  assumes "\<forall>x. save_fault c \<noteq> Some (SyncDirectory, x)"
  shows "harmless (claim E here c i message d) d"
  using harmless_transaction [OF assms, of E here True "claim_action E c (held d) i message" d]
  by (auto simp: claim_def harmless_def split: sum.splits prod.splits)

text \<open>
  a failed call changes nothing.  When an operation of the store fails, whatever the failure, the
  ledger file and the leases are what they were, except when syncing the directory failed
  after the new file was already in place.
\<close>

theorem failed_call_changes_nothing:
  assumes "\<forall>x. save_fault c \<noteq> Some (SyncDirectory, x)"
  shows "harmless (accept E here c caller to m parent d) d \<and>
    harmless (request_cancel E here c caller to i d) d \<and>
    harmless (cancel_input E here c caller to message parent d) d \<and>
    harmless (claim E here c i message d) d \<and>
    harmless (executor_update E here c i turn st msg art d) d \<and>
    harmless (bind_session E here c i turn session d) d \<and>
    harmless (recover E here c d) d"
  unfolding accept_def request_cancel_def cancel_input_def executor_update_def bind_session_def recover_def
  by (intro conjI harmless_checked harmless_claim [OF assms] harmless_transaction [OF assms])
    (auto split: prod.split intro: harmless_transaction [OF assms])

section \<open>Stopping an input\<close>

text \<open>
  an old Stop spares the newer input.  Cancelling an input whose task has meanwhile accepted another
  message answers \<open>Superseded\<close> with that task, and changes neither the task nor the ledger.
\<close>

theorem old_stop_spares_newer_input:
  assumes "a2a_env_ok E" "dir_ok E here d" "stored E here d = Some s"
    and "cancel_input_checks E here caller to message parent = Inr key"
    and "bt_get (messages s) key = Some prior" "d_task prior = Some i"
    and "bt_get (tasks s) i = Some e" "e_caller e = caller" "e_target e = to" "e_parent e = parent"
    and "e_pending e \<noteq> message"
    and "gate_fault c = None" "read_fault c = None" "save_fault c = None"
  shows "cancel_input E here c caller to message parent d = (Inr (Superseded \<lparr>ref_home = here, ref_id = i\<rparr>), d)"
proof -
  have ok: "ledger_ok here s" "written E d" using assms(2,3) by (auto simp: dir_ok_def)
  have "dedup_shape s prior" using ok(1) assms(5) unfolding ledger_ok_def by blast
  then have valid: "dedup_validate prior caller to message = Inr ()" and fence: "d_fence prior = None"
    using assms(6) by (auto simp: dedup_shape_def dedup_validate_def Let_def)
  have key: "message_key E caller to message = Inr key" using assms(4) by (auto simp: cancel_input_checks_def)
  have entry: "caller_entry s caller to i = Inr e" using assms(7-9) by simp
  have "resolve_input E here s caller to message = Inr (Some (Superseded \<lparr>ref_home = here, ref_id = i\<rparr>))"
    using key valid entry assms(5,6,11) by (simp add: resolve_input_def Let_def)
  then have act: "cancel_input_action E here c caller to message parent key s =
      Inr (Superseded \<lparr>ref_home = here, ref_id = i\<rparr>, s)"
    using valid fence entry assms(5,6,10,11) by (simp add: cancel_input_action_def cancel_input_change_def)
  have "transaction E here c True (cancel_input_action E here c caller to message parent key) d =
      (Inr (Superseded \<lparr>ref_home = here, ref_id = i\<rparr>), d)"
    by (rule transaction_no_change [OF assms(1) ok(2) assms(3) file_present [OF assms(3,5)] assms(12-14)]) (rule act)
  then show ?thesis using assms(4) by (simp add: cancel_input_def checked_def)
qed

section \<open>Recovery\<close>

definition lost :: "('x, 'n) a2a_env \<Rightarrow> string set \<Rightarrow> (string \<times> string) list \<Rightarrow> string \<Rightarrow> bool" where
  "lost E locked ids i \<longleftrightarrow> (\<exists>cx. (i, cx) \<in> set ids \<and> blake3_hex E cx \<notin> locked)"

lemma lost_Nil [simp]: "\<not> lost E locked [] j"
  by (simp add: lost_def)

lemma lost_Cons: "lost E locked ((i, cx) # ids) j \<longleftrightarrow> (j = i \<and> blake3_hex E cx \<notin> locked) \<or> lost E locked ids j"
  by (auto simp: lost_def)

lemma recover_loop_effect:
  assumes "recover_loop E c locked n ids s = Inr (rs, s')" "distinct (map fst ids)" "\<And>x. lease_fault c x = None"
  shows "contexts s' = contexts s \<and> messages s' = messages s \<and>
    (\<forall>i e. bt_get (tasks s) i = Some e \<longrightarrow>
      (if lost E locked ids i
       then \<exists>f. bt_get (tasks s') i = Some f \<and> e_state f = Failed
       else bt_get (tasks s') i = Some e))"
  using assms(1,2)
proof (induction ids arbitrary: n s rs s')
  case Nil
  then show ?case by simp
next
  case (Cons p ids)
  obtain i cx where p: "p = (i, cx)" by (cases p)
  have once: "\<not> lost E locked ids i" using Cons.prems(2) p by (force simp: lost_def)
  show ?case
  proof (cases "blake3_hex E cx \<in> locked")
    case True
    then have rest: "recover_loop E c locked (n + 1) ids s = Inr (rs, s')"
      using Cons.prems(1) p assms(3) by (simp add: try_lease_def Let_def)
    have "lost E locked (p # ids) j = lost E locked ids j" for j using p True by (simp add: lost_Cons)
    then show ?thesis using Cons.IH [OF rest] Cons.prems(2) by simp
  next
    case False
    let ?f = "set_status E (clock c n) Failed
                   (Some (new_message E (message_ids c n) Agent [text_part E INTERRUPTED]))"
    obtain rs' where rest: "recover_loop E c locked (n + 1) ids (put_entry i ?f s) = Inr (rs', s')"
      using Cons.prems(1) p False assms(3) by (auto simp: try_lease_def Let_def)
    note ih = Cons.IH [OF rest]
    show ?thesis
    proof (intro conjI allI impI)
      show "contexts s' = contexts s" "messages s' = messages s" using ih Cons.prems(2) by auto
      fix j e
      assume e: "bt_get (tasks s) j = Some e"
      show "if lost E locked (p # ids) j
       then \<exists>f. bt_get (tasks s') j = Some f \<and> e_state f = Failed
       else bt_get (tasks s') j = Some e"
      proof (cases "j = i")
        case True
        then have "bt_get (tasks s') j = Some (?f e)" using ih Cons.prems(2) e once by simp
        then show ?thesis using True p False by (simp add: lost_Cons)
      next
        case j: False
        then have "bt_get (tasks (put_entry i ?f s)) j = Some e" using e by simp
        then show ?thesis using ih Cons.prems(2) j p by (simp add: lost_Cons)
      qed
    qed
  qed
qed

text \<open>
  recovery fails exactly the lost tasks.  After a successful recovery a task that was working
  while nobody held its context's lease has failed; every other task, and every context and
  input, is exactly what it was.
\<close>

theorem recovery_fails_exactly_the_lost_tasks:
  assumes "a2a_env_ok E" "dir_ok E here d" "stored E here d = Some s"
    and "recover E here c d = (Inr rs, d')" "\<forall>x. lease_fault c x = None"
  shows "\<exists>s'. stored E here d' = Some s' \<and> contexts s' = contexts s \<and> messages s' = messages s \<and>
    (\<forall>i e. bt_get (tasks s) i = Some e \<longrightarrow>
      (if e_state e = Working \<and> blake3_hex E (t_context (e_task e)) \<notin> held d
       then \<exists>f. bt_get (tasks s') i = Some f \<and> e_state f = Failed
       else bt_get (tasks s') i = Some e))"
proof (rule transaction_answer [OF assms(1,2) assms(4) [unfolded recover_def]])
  show "ledger_changes E (held d) None t t'" if "ledger_ok here t" "recover_action E c (held d) t = Inr (r, t')" for t r t'
    using recover_action_changes [OF assms(1)] that by blast
next
  fix t s'
  assume "stored E here d = Some t" and ok: "ledger_ok here t" and run: "recover_action E c (held d) t = Inr (rs, s')"
    and s': "stored E here d' = Some s'"
  then have t: "t = s" using assms(3) by simp
  have "lost E (held d) (working_tasks s) i \<longleftrightarrow> e_state e = Working \<and> blake3_hex E (t_context (e_task e)) \<notin> held d" if "bt_get (tasks s) i = Some e" for i e
    using working_tasks_iff ok t that unfolding lost_def by fastforce
  then show ?thesis
    using recover_loop_effect [OF run [unfolded recover_action_def]] working_tasks_distinct [OF ok] assms(5) s' t
    by simp
qed

section \<open>Dispatch\<close>

text \<open>What the other parties and the executor may do between the claim and the executor's return.\<close>

definition during :: "('x, 'n) a2a_env \<Rightarrow> device_id \<Rightarrow> nat \<Rightarrow> 'x world \<Rightarrow> 'x world \<Rightarrow> bool" where
  "during E here h = (\<lambda>w w'. world_step E here w w' \<and> live w' h \<noteq> None)\<^sup>*\<^sup>*"

lemma during_steps: "during E here h w w' \<Longrightarrow> world_steps E here w w'"
  unfolding during_def by (rule rtranclp_mono [THEN predicate2D]) auto

lemma get_task_answer:
  assumes "get_task E here c caller to i d = (Inr r, d')" "dir_ok E here d" "stored E here d = Some s"
  shows "\<exists>e. bt_get (tasks s) i = Some e \<and> r_task r = e_task e \<and> r_caller r = e_caller e \<and> r_target r = e_target e"
proof -
  have ok: "ledger_ok here s" using assms(2,3) by (auto simp: dir_ok_def)
  have "read_record s i = Inr r"
    using assms(1,3) load_stored by (fastforce simp: get_task_def checked_def transaction_def
        split: sum.splits option.splits prod.splits)
  then show ?thesis by (rule read_record_Inr [OF ok]) auto
qed

text \<open>
  C35: dispatch leaves nothing working.  When \<open>dispatch\<close> returns a record, whatever the executor did
  and answered and whatever else happened to the store meanwhile, the task is not left
  working or submitted: it has ended, or waits for input or authorization.
\<close>

theorem dispatch_leaves_nothing_working:
  assumes "a2a_env_ok E" "world_steps E here start_world w" "live w h = None"
    and "dispatch E here c1 c2 c3 execute i message (disk w) = (Inr r, d')"
    and "\<And>x d1 result x' d2. execution_claim E here c1 i message (disk w) = (Inr x, d1) \<Longrightarrow>
        execute (x, d1) = (result, x', d2) \<Longrightarrow>
        \<exists>w2. during E here h \<lparr>disk = d1, live = (live w)(h \<mapsto> x)\<rparr> w2 \<and> disk w2 = d2 \<and> live w2 h = Some x'"
  shows "s_state (t_status (r_task r)) \<notin> {Working, Submitted}"
proof -
  obtain x d1 where x: "execution_claim E here c1 i message (disk w) = (Inr x, d1)"
    using assms(4) by (auto simp: dispatch_def split: sum.splits prod.splits)
  obtain result x' d2 where ex: "execute (x, d1) = (result, x', d2)" by (cases "execute (x, d1)") auto
  obtain w2 where w2: "during E here h \<lparr>disk = d1, live = (live w)(h \<mapsto> x)\<rparr> w2" "disk w2 = d2" "live w2 h = Some x'"
    using assms(5) [OF x ex] by blast
  have step: "world_step E here w \<lparr>disk = d1, live = (live w)(h \<mapsto> x)\<rparr>" by (rule world_step.Claim [OF x assms(3)])
  have "world_steps E here start_world w2"
    using assms(2) step during_steps [OF w2(1)] by (meson rtranclp.rtrancl_into_rtrancl rtranclp_trans)
  then have ok: "world_ok E here w2" by (rule reach_ok [OF assms(1)])
  then have live: "live_ok E here d2 x'" and dok: "dir_ok E here d2" using w2 by (auto simp: world_ok_def)
  obtain s e where s: "stored E here d2 = Some s" "bt_get (tasks s) (x_task x') = Some e" "e_state e \<noteq> Submitted"
      "t_context (e_task e) = t_context (r_task (x_record x'))"
    using live by (auto simp: live_ok_def driven_def)
  obtain d3 where settle: "settle E here c2 c3 result x' d2 = (Inr r, d3)"
    using assms(4) x ex by (auto simp: dispatch_def Let_def split: prod.splits)
  obtain q where q: "execution_latest E here c2 x' d2 = Inr q"
    using settle by (auto simp: settle_def split: sum.splits)
  obtain dq where get: "get_task E here c2 (r_caller (x_record x')) (r_target (x_record x')) (x_task x') d2 = (Inr q, dq)"
    using q unfolding execution_latest_def
    by (cases "get_task E here c2 (r_caller (x_record x')) (r_target (x_record x')) (x_task x') d2") auto
  have qe: "r_task q = e_task e" using get_task_answer [OF get dok s(1)] s(2) by auto
  let ?st = "s_state (t_status (r_task q))"
  have st: "?st \<noteq> Submitted" using qe s(3) by (simp add: e_state_def)
  show ?thesis
  proof (cases "terminal E ?st \<or> failure_text result ?st = None")
    case True
    then have "r = q" using settle q by (auto simp: settle_def Let_def split: if_splits)
    moreover have "?st \<noteq> Working" using True assms(1)
      by (auto simp: env_terminal failure_text_def split: sum.splits)
    ultimately show ?thesis using st by simp
  next
    case False
    then obtain tx where why: "failure_text result ?st = Some tx" "\<not> terminal E ?st" by auto
    let ?x = "x'\<lparr>x_record := q\<rparr>"
    let ?msg = "Some (new_message E (message_ids c3 0) Agent [text_part E tx])"
    obtain u x'' where up: "execution_update E here c3 Failed ?msg None ?x d2 = (Inr u, x'', d3)" "r = x_record x''"
      using settle q why by (auto simp: settle_def Let_def split: sum.splits prod.splits)
    have id: "t_id (e_task e) = x_task x'"
      using dok s(1,2) by (auto simp: dir_ok_def dest: ledger_ok_id)
    have "world_ok E here \<lparr>disk = d2, live = (live w2)(h \<mapsto> ?x)\<rparr>"
      by (rule world_ok_turn [OF assms(1) ok w2(3), of None])
        (use w2(2) qe id s(4) in \<open>auto simp: dir_moves_def x_task_def\<close>)
    then have "s_state (t_status (r_task (x_record x''))) = Failed"
      by (rule world_ok_update(2) [OF assms(1), of here _ h ?x c3 Failed ?msg None "Inr u" x'' d3]) (use up in auto)
    then show ?thesis using up(2) by simp
  qed
qed


section \<open>Pages\<close>

definition visible :: "device_id \<Rightarrow> agent_target \<Rightarrow> string option \<Rightarrow> 'x ledger \<Rightarrow> 'x entry list" where
  "visible caller to cx s =
     filter (\<lambda>e. case cx of None \<Rightarrow> True | Some x \<Rightarrow> t_context (e_task e) = x)
       (filter (\<lambda>e. e_caller e = caller \<and> e_target e = to) (map snd (tasks s)))"

definition receipt_of :: "'x ledger \<Rightarrow> 'x entry \<Rightarrow> 'x receipt" where
  "receipt_of s e = \<lparr>r_task = e_task e, r_target = e_target e, r_caller = e_caller e, r_parent = e_parent e,
     r_session = session_of s (t_context (e_task e)), r_revision = e_revision e, r_cancel = e_cancel e\<rparr>"

lemma collect_results_map:
  "(\<And>x. x \<in> set xs \<Longrightarrow> f x = Inr (g x)) \<Longrightarrow> collect_results (map f xs) = Inr (map g xs)"
  by (induction xs) auto

lemma visible_entries:
  assumes "ledger_ok here s" "e \<in> set (visible caller to cx s)"
  shows "bt_get (tasks s) (t_id (e_task e)) = Some e"
proof -
  obtain k where "(k, e) \<in> set (tasks s)" using assms(2) by (auto simp: visible_def)
  then have "bt_get (tasks s) k = Some e" using assms(1) by (simp add: ledger_ok_def bt_get_in)
  then show ?thesis using ledger_ok_id [OF assms(1)] by simp
qed

lemma visible_sorted:
  assumes "ledger_ok here s"
  shows "sorted_wrt (<) (map (\<lambda>e. t_id (e_task e)) (visible caller to cx s))"
proof -
  have "map (\<lambda>e. t_id (e_task e)) (map snd (tasks s)) = map fst (tasks s)"
    using ledger_ok_id [OF assms] assms by (auto simp: ledger_ok_def bt_get_in [symmetric])
  moreover have "sorted_wrt (<) (map fst (tasks s))" using assms by (simp add: ledger_ok_def bt_ok_def)
  ultimately have "sorted_wrt (<) (map (\<lambda>e. t_id (e_task e)) (map snd (tasks s)))" by (simp only:)
  then show ?thesis unfolding visible_def by (simp add: sorted_wrt_map sorted_wrt_filter)
qed

lemma list_action_ok:
  assumes "ledger_ok here s"
  shows "list_action caller to cx after limit s = Inr (map (receipt_of s) (take limit
    (filter (\<lambda>e. case after of None \<Rightarrow> True | Some i \<Rightarrow> i < t_id (e_task e)) (visible caller to cx s))), s)"
proof -
  have "read_record s (t_id (e_task e)) = Inr (receipt_of s e)" if "e \<in> set (visible caller to cx s)" for e
    using read_record_ok [OF assms visible_entries [OF assms that]] by (simp add: receipt_of_def)
  then show ?thesis
    unfolding list_action_def visible_def [symmetric]
    by (subst collect_results_map [where g = "receipt_of s"]) (auto dest: in_set_takeD)
qed

lemma filter_after:
  fixes key :: "'a \<Rightarrow> 'k::linorder"
  assumes "sorted_wrt (<) (map key xs)" "n < length xs"
  shows "filter (\<lambda>x. key (xs ! n) < key x) xs = drop (Suc n) xs"
  using assms
proof (induction xs arbitrary: n)
  case (Cons x xs)
  show ?case
  proof (cases n)
    case 0
    then show ?thesis using Cons.prems(1) by (auto simp: filter_id_conv)
  next
    case (Suc m)
    then have "xs ! m \<in> set xs" using Cons.prems(2) by simp
    then have "\<not> key (xs ! m) < key x" using Cons.prems(1) by (auto simp: not_less less_imp_le)
    then show ?thesis using Cons Suc by simp
  qed
qed simp

text \<open>A client that asks for page after page, from the last identifier it was shown, until a page is empty.\<close>

fun all_pages ::
    "('x, 'n) a2a_env \<Rightarrow> device_id \<Rightarrow> call \<Rightarrow> device_id \<Rightarrow> agent_target \<Rightarrow> string option \<Rightarrow> string option
       \<Rightarrow> nat \<Rightarrow> dir \<Rightarrow> nat \<Rightarrow> a2a_error + 'x receipt list" where
  "all_pages E here c caller to cx after limit d 0 = Inr []"
| "all_pages E here c caller to cx after limit d (Suc n) =
     and_then (fst (list_tasks E here c caller to cx after limit d)) (\<lambda>rs.
       if rs = [] then Inr []
       else and_then (all_pages E here c caller to cx (Some (t_id (r_task (last rs)))) limit d n) (\<lambda>more.
         Inr (rs @ more)))"

lemma list_tasks_ok:
  assumes "dir_ok E here d" "stored E here d = Some s" "target_ok here to = Inr ()" "1 \<le> limit" "limit \<le> 100"
    and "gate_fault c = None" "read_fault c = None"
  shows "list_tasks E here c caller to cx after limit d = (Inr (map (receipt_of s) (take limit
    (filter (\<lambda>e. case after of None \<Rightarrow> True | Some i \<Rightarrow> i < t_id (e_task e)) (visible caller to cx s)))), d)"
proof -
  have "ledger_ok here s" using assms(1,2) by (auto simp: dir_ok_def)
  note act = list_action_ok [OF this, of caller to cx after limit]
  show ?thesis
    using assms transaction_clean [where action = "list_action caller to cx after limit", OF assms(6,7,2) act]
    by (simp add: list_tasks_def checked_def)
qed

lemma all_pages_from:
  assumes ok: "dir_ok E here d" "stored E here d = Some s" "target_ok here to = Inr ()" "1 \<le> limit" "limit \<le> 100"
      "gate_fault c = None" "read_fault c = None"
    and rest: "filter (\<lambda>e. case after of None \<Rightarrow> True | Some i \<Rightarrow> i < t_id (e_task e)) (visible caller to cx s)
      = drop k (visible caller to cx s)"
    and fuel: "length (visible caller to cx s) - k < n"
  shows "all_pages E here c caller to cx after limit d n = Inr (map (receipt_of s) (drop k (visible caller to cx s)))"
  using rest fuel
proof (induction n arbitrary: after k)
  case 0
  then show ?case by simp
next
  case (Suc n)
  let ?v = "visible caller to cx s"
  let ?page = "take limit (drop k ?v)"
  have page: "list_tasks E here c caller to cx after limit d = (Inr (map (receipt_of s) ?page), d)"
    using list_tasks_ok [OF ok] Suc.prems(1) by simp
  show ?case
  proof (cases "k < length ?v")
    case False
    then show ?thesis using page by simp
  next
    case True
    let ?m = "min limit (length ?v - k)"
    have m: "1 \<le> ?m" "k + ?m \<le> length ?v" using True ok(4) by auto
    have "?page \<noteq> []" using True ok(4) by simp
    then have "last (map (receipt_of s) ?page) = receipt_of s (last ?page)" by (rule last_map)
    moreover have "last ?page = ?v ! (k + ?m - 1)"
      using m \<open>?page \<noteq> []\<close> by (subst last_conv_nth) (auto simp: min_def)
    ultimately have cursor: "t_id (r_task (last (map (receipt_of s) ?page))) = t_id (e_task (?v ! (k + ?m - 1)))"
      by (simp add: receipt_of_def)
    have "ledger_ok here s" using ok(1,2) by (auto simp: dir_ok_def)
    note after = filter_after [OF visible_sorted [OF this, of caller to cx], of "k + ?m - 1"]
    have "filter (\<lambda>e. t_id (e_task (?v ! (k + ?m - 1))) < t_id (e_task e)) ?v = drop (k + ?m) ?v"
    proof -
      have "k + ?m - 1 < length ?v" "Suc (k + ?m - 1) = k + ?m" using m by linarith+
      with after show ?thesis by simp
    qed
    then have "all_pages E here c caller to cx (Some (t_id (e_task (?v ! (k + ?m - 1))))) limit d n =
        Inr (map (receipt_of s) (drop (k + ?m) ?v))"
      using Suc.prems(2) m True by (intro Suc.IH) auto
    moreover have "drop (k + ?m) ?v = drop limit (drop k ?v)"
      by (cases "limit \<le> length ?v - k") (auto simp: min_def add.commute)
    then have "?page @ drop (k + ?m) ?v = drop k ?v" by (simp only: append_take_drop_id)
    ultimately show ?thesis
      using page cursor \<open>?page \<noteq> []\<close> by (simp flip: map_append)
  qed
qed

text \<open>
  pages list every task once.  A client that follows the cursor, with any page size, sees the receipt of
  every task of its own with that agent (and context) exactly once, in the order of their
  identifiers.
\<close>

theorem pages_list_every_task_once:
  assumes "dir_ok E here d" "stored E here d = Some s" "target_ok here to = Inr ()" "1 \<le> limit" "limit \<le> 100"
    and "gate_fault c = None" "read_fault c = None" "length (tasks s) < n"
  shows "all_pages E here c caller to cx None limit d n = Inr (map (receipt_of s) (visible caller to cx s)) \<and>
    distinct (map (\<lambda>e. t_id (e_task e)) (visible caller to cx s)) \<and>
    (\<forall>e. e \<in> set (visible caller to cx s) \<longleftrightarrow> (\<exists>i. bt_get (tasks s) i = Some e \<and> e_caller e = caller \<and>
       e_target e = to \<and> (cx = None \<or> cx = Some (t_context (e_task e)))))"
proof -
  have ok: "ledger_ok here s" using assms(1,2) by (auto simp: dir_ok_def)
  have "length (visible caller to cx s) \<le> length (tasks s)"
    by (auto simp: visible_def intro: order_trans [OF length_filter_le])
  then have "all_pages E here c caller to cx None limit d n = Inr (map (receipt_of s) (drop 0 (visible caller to cx s)))"
    using assms(8) by (intro all_pages_from [OF assms(1-7)]) auto
  moreover have "distinct (map (\<lambda>e. t_id (e_task e)) (visible caller to cx s))"
    using visible_sorted [OF ok] strict_sorted_iff by blast
  moreover have "e \<in> set (visible caller to cx s) \<longleftrightarrow> (\<exists>i. bt_get (tasks s) i = Some e \<and> e_caller e = caller \<and>
       e_target e = to \<and> (cx = None \<or> cx = Some (t_context (e_task e))))" for e
    using ok bt_values [of "tasks s" e] by (auto simp: visible_def ledger_ok_def split: option.splits)
  ultimately show ?thesis by simp
qed

section \<open>Fingerprints\<close>

text \<open>Two JSON values that differ only in the order of object members, at any depth.\<close>

inductive same_json :: "'n json \<Rightarrow> 'n json \<Rightarrow> bool" where
  Same_other: "same_json (JOther x) (JOther x)"
| Same_array: "list_all2 same_json vs ws \<Longrightarrow> same_json (JArray vs) (JArray ws)"
| Same_object: "distinct (map fst ms) \<Longrightarrow> distinct (map fst ns) \<Longrightarrow> fst ` set ms = fst ` set ns \<Longrightarrow>
    \<forall>k v w. map_of ms k = Some v \<and> map_of ns k = Some w \<longrightarrow> same_json v w \<Longrightarrow>
    same_json (JObject ms) (JObject ns)"

lemma json_ordered_fields_map: "json_ordered_fields ms = map (\<lambda>(k, v). (k, json_ordered v)) ms"
  by (induction ms) auto

lemma same_json_ordered: "same_json j j' \<Longrightarrow> json_ordered j = json_ordered j'"
proof (induction rule: same_json.induct)
  case (Same_array vs ws)
  then have "map json_ordered vs = map json_ordered ws"
    by (induction vs ws rule: list_all2_induct) auto
  then show ?case by simp
next
  case (Same_object ms ns)
  have get: "map_of (json_ordered_fields xs) = (\<lambda>k. map_option json_ordered (map_of xs k))" for xs :: "(string \<times> 'a json) list"
    by (auto simp: json_ordered_fields_map map_of_map fun_eq_iff)
  have keys: "map fst (json_ordered_fields xs) = map fst xs" for xs :: "(string \<times> 'a json) list"
    by (auto simp: json_ordered_fields_map)
  have "map_of (json_ordered_fields ms) k = map_of (json_ordered_fields ns) k" for k
  proof (cases "map_of ms k")
    case None
    then have "map_of ns k = None" using Same_object(3) by (simp add: map_of_eq_None_iff)
    then show ?thesis using None by (simp add: get)
  next
    case (Some v)
    then obtain w where "map_of ns k = Some w" using Same_object(3) by (metis map_of_eq_None_iff not_None_eq)
    then show ?thesis using Some Same_object(4) by (simp add: get)
  qed
  then have "bt_collect (json_ordered_fields ms) = bt_collect (json_ordered_fields ns)"
    by (intro bt_eqI) (auto simp: bt_collect_get map_of_rev_distinct keys Same_object(1,2) fun_eq_iff)
  then show ?case by simp
qed simp

text \<open>
  key order is no conflict.  Requests whose JSON differs only in the order of object members, at any depth,
  have the same fingerprint, so a retry by a client that writes its members in another order
  is not refused as a conflict.
\<close>

theorem fingerprint_ignores_key_order:
  assumes "same_json j j'"
  shows "fingerprint E (Inr j) = fingerprint E (Inr j')"
  using same_json_ordered [OF assms] by (simp add: fingerprint_def)

end
