(* ===== verification/A2aDemo.thy ===== *)
theory A2aDemo
  imports A2aAnswers
begin

text \<open>
  A concrete outside world for the delegation store and a short run in it, on which the
  witnesses rest: a message is accepted, claimed, and completed; or its session bound; or its
  executor lost and recovered; and an input that is fenced before it arrives.
\<close>

definition demo_hash :: "string \<Rightarrow> string" where
  "demo_hash b = replicate 64 (if b = [] \<or> \<not> is_ascii_hexdigit (hd b) then CHR ''f'' else hd b)"

lemma demo_hash_eq [simp]: "is_ascii_hexdigit c \<Longrightarrow> demo_hash (c # r) = replicate 64 c"
  by (simp add: demo_hash_def)

definition demo_home :: device_id where "demo_home = DeviceId ''H''"
definition demo_caller :: device_id where "demo_caller = DeviceId ''C''"
definition demo_to :: agent_target where "demo_to = \<lparr>home = demo_home, agent = ''pi''\<rparr>"
definition demo_message :: "string message" where
  "demo_message = \<lparr>message_id = ''a1'', m_context = None, m_task = None, m_role = User, m_parts = [''do''], m_rest = []\<rparr>"
definition demo_call :: call where
  "demo_call = clean_call\<lparr>new_context := ''c1'', new_task := ''t1'', message_ids := (\<lambda>_. ''e1'')\<rparr>"
definition demo_session :: session_ref where
  "demo_session = \<lparr>session_home = demo_home, session_name = SessionId ''s1''\<rparr>"

definition demo_entry :: "task_state \<Rightarrow> nat \<Rightarrow> nat \<Rightarrow> string entry" where
  "demo_entry st n trn = \<lparr>e_task = \<lparr>t_id = ''t1'', t_context = ''c1'',
        t_status = \<lparr>s_state = st, s_message = None, s_timestamp = Some 0\<rparr>, t_artifacts = None,
        t_history = Some [demo_message\<lparr>m_task := Some ''t1'', m_context := Some ''c1''\<rparr>], t_metadata = None\<rparr>,
     e_target = demo_to, e_caller = demo_caller, e_parent = None, e_revision = n, e_cancel = False,
     e_turn = trn, e_pending = ''a1''\<rparr>"

definition demo_ledger :: "task_state \<Rightarrow> nat \<Rightarrow> nat \<Rightarrow> session_ref option \<Rightarrow> string ledger" where
  "demo_ledger st n trn b = \<lparr>version = 1, l_home = demo_home, tasks = [(''t1'', demo_entry st n trn)],
     contexts = [(''c1'', \<lparr>c_target = demo_to, c_caller = demo_caller, c_session = b\<rparr>)],
     messages = [(replicate 64 CHR ''a'', \<lparr>d_fingerprint = Some (replicate 64 CHR ''d''), d_task = Some ''t1'', d_fence = None\<rparr>)]\<rparr>"

definition demo_fenced :: "string ledger" where
  "demo_fenced = (empty_ledger demo_home)\<lparr>messages := [(replicate 64 CHR ''a'', \<lparr>d_fingerprint = None, d_task = None,
     d_fence = Some \<lparr>f_caller = demo_caller, f_target = demo_to, f_message = ''a1'', f_parent = None\<rparr>\<rparr>)]\<rparr>"

definition demo_notice :: "string message" where
  "demo_notice = \<lparr>message_id = ''e1'', m_context = None, m_task = None, m_role = Agent, m_parts = [INTERRUPTED], m_rest = []\<rparr>"

definition demo_lost :: "string ledger" where
  "demo_lost = (demo_ledger Working 2 1 None)\<lparr>tasks := [(''t1'', (demo_entry Failed 3 1)\<lparr>e_task := (e_task (demo_entry Failed 3 1))
     \<lparr>t_status := \<lparr>s_state = Failed, s_message = Some (demo_notice\<lparr>m_task := Some ''t1'', m_context := Some ''c1''\<rparr>), s_timestamp = Some 0\<rparr>,
      t_history := Some [demo_message\<lparr>m_task := Some ''t1'', m_context := Some ''c1''\<rparr>, demo_notice\<lparr>m_task := Some ''t1'', m_context := Some ''c1''\<rparr>]\<rparr>\<rparr>)]\<rparr>"

definition demo_later :: "string ledger" where
  "demo_later = (demo_ledger Submitted 5 1 None)\<lparr>
     tasks := [(''t1'', (demo_entry Submitted 5 1)\<lparr>e_task := push_history
       (demo_message\<lparr>message_id := ''b1'', m_task := Some ''t1'', m_context := Some ''c1''\<rparr>) (e_task (demo_entry Submitted 5 1)),
       e_pending := ''b1''\<rparr>)],
     messages := messages (demo_ledger Submitted 5 1 None) @ [(replicate 64 CHR ''b'',
       \<lparr>d_fingerprint = Some (replicate 64 CHR ''d''), d_task = Some ''t1'', d_fence = None\<rparr>)]\<rparr>"

lemma demo_ledger_inject [simp]:
  "demo_ledger st r t b = demo_ledger st' r' t' b' \<longleftrightarrow> st = st' \<and> r = r' \<and> t = t' \<and> b = b'"
  by (auto simp: demo_ledger_def demo_entry_def)

lemma demo_ledgers_differ [simp]:
  "demo_fenced \<noteq> demo_ledger st r t b" "demo_ledger st r t b \<noteq> demo_fenced"
  "demo_lost \<noteq> demo_ledger st r t b" "demo_ledger st r t b \<noteq> demo_lost" "demo_lost \<noteq> demo_fenced" "demo_fenced \<noteq> demo_lost"
  "demo_later \<noteq> demo_ledger st r t b" "demo_ledger st r t b \<noteq> demo_later"
  "demo_later \<noteq> demo_fenced" "demo_fenced \<noteq> demo_later" "demo_later \<noteq> demo_lost" "demo_lost \<noteq> demo_later"
  by (simp_all add: demo_fenced_def demo_ledger_def demo_lost_def demo_entry_def empty_ledger_def demo_later_def)

definition demo_write :: "string ledger \<Rightarrow> string + string" where
  "demo_write s =
     (if s = demo_ledger Submitted 1 0 None then Inr ''1''
      else if s = demo_ledger Working 2 1 None then Inr ''2''
      else if s = demo_ledger Completed 3 1 None then Inr ''3''
      else if s = demo_ledger Working 3 1 (Some demo_session) then Inr ''B''
      else if s = demo_fenced then Inr ''F''
      else if s = demo_lost then Inr ''L''
      else if s = demo_later then Inr ''S''
      else Inl ''unused'')"

definition demo_read :: "string \<Rightarrow> string + string ledger" where
  "demo_read b =
     (if b = ''1'' then Inr (demo_ledger Submitted 1 0 None)
      else if b = ''2'' then Inr (demo_ledger Working 2 1 None)
      else if b = ''3'' then Inr (demo_ledger Completed 3 1 None)
      else if b = ''B'' then Inr (demo_ledger Working 3 1 (Some demo_session))
      else if b = ''F'' then Inr demo_fenced
      else if b = ''L'' then Inr demo_lost
      else if b = ''S'' then Inr demo_later
      else Inl ''unused'')"

definition demo_env :: "(string, string) a2a_env" where
  "demo_env = \<lparr>terminal = (\<lambda>st. st \<in> {Completed, Failed, Canceled, Rejected}),
     text_part = (\<lambda>t. t),
     new_message = (\<lambda>i r ps. \<lparr>message_id = i, m_context = None, m_task = None, m_role = r, m_parts = ps, m_rest = []\<rparr>),
     key_json = (\<lambda>d a m. Inr (JOther m)),
     digest_json = (\<lambda>to m p. Inr (JOther (concat (m_parts m)))),
     json_bytes = (\<lambda>j. case j of JOther t \<Rightarrow> Inr t | _ \<Rightarrow> Inl ''unused''),
     blake3_hex = demo_hash,
     message_bytes = (\<lambda>m. Inr (concat (m_parts m))),
     entry_bytes = (\<lambda>e. Inr (e_pending e)),
     ledger_bytes = demo_write, ledger_parse = demo_read\<rparr>"

lemma demo_env_ok: "a2a_env_ok demo_env"
proof -
  have "demo_read b = Inr s" if "demo_write s = Inr b" for s b
    using that by (auto simp: demo_write_def demo_read_def split: if_splits)
  moreover have "length (demo_hash b) = 64 \<and> list_all is_ascii_hexdigit (demo_hash b)" for b
    by (auto simp: demo_hash_def list_all_iff is_ascii_hexdigit_def)
  ultimately show ?thesis by (simp add: a2a_env_ok_def demo_env_def)
qed

lemma demo_hex [simp]:
  "is_ascii_hexdigit CHR ''a''" "is_ascii_hexdigit CHR ''c''" "is_ascii_hexdigit CHR ''d''"
  by (simp_all add: is_ascii_hexdigit_def Let_def)

lemma demo_opaque [simp]:
  "opaque ''a1'' = Inr ()" "opaque ''t1'' = Inr ()" "opaque ''c1'' = Inr ()" "opaque ''pi'' = Inr ()" "opaque ''s1'' = Inr ()"
  by (simp_all add: opaque_def str_chars.simps Let_def trim_is_empty_def is_whitespace_def is_control_def)

definition demo_dir :: "string option \<Rightarrow> string set \<Rightarrow> dir" where
  "demo_dir f l = \<lparr>ledger_file = f, held = l\<rparr>"

lemmas demo_data = demo_env_def demo_dir_def demo_call_def clean_call_def demo_message_def demo_to_def
  demo_home_def demo_session_def demo_caller_def

lemma demo_stored:
  "stored demo_env demo_home (demo_dir None l) = Some (empty_ledger demo_home)"
  "stored demo_env demo_home (demo_dir (Some ''1'') l) = Some (demo_ledger Submitted 1 0 None)"
  "stored demo_env demo_home (demo_dir (Some ''2'') l) = Some (demo_ledger Working 2 1 None)"
  "stored demo_env demo_home (demo_dir (Some ''3'') l) = Some (demo_ledger Completed 3 1 None)"
  "stored demo_env demo_home (demo_dir (Some ''B'') l) = Some (demo_ledger Working 3 1 (Some demo_session))"
  "stored demo_env demo_home (demo_dir (Some ''F'') l) = Some demo_fenced"
  "stored demo_env demo_home (demo_dir (Some ''L'') l) = Some demo_lost"
  "stored demo_env demo_home (demo_dir (Some ''S'') l) = Some demo_later"
  by (simp_all add: stored_def load_ledger_def clean_call_def demo_dir_def demo_env_def demo_read_def
      MAX_STORE_BYTES_def demo_ledger_def demo_fenced_def demo_lost_def empty_ledger_def
      demo_later_def)

lemma demo_saved:
  assumes "save_fault c = None"
  shows "save_ledger demo_env c (demo_ledger Submitted 1 0 None) (demo_dir f l) = (Inr (), demo_dir (Some ''1'') l)"
  "save_ledger demo_env c (demo_ledger Working 2 1 None) (demo_dir f l) = (Inr (), demo_dir (Some ''2'') l)"
  "save_ledger demo_env c (demo_ledger Completed 3 1 None) (demo_dir f l) = (Inr (), demo_dir (Some ''3'') l)"
  "save_ledger demo_env c (demo_ledger Working 3 1 (Some demo_session)) (demo_dir f l) = (Inr (), demo_dir (Some ''B'') l)"
  "save_ledger demo_env c demo_fenced (demo_dir f l) = (Inr (), demo_dir (Some ''F'') l)"
  "save_ledger demo_env c demo_lost (demo_dir f l) = (Inr (), demo_dir (Some ''L'') l)"
  using assms by (simp_all add: save_ledger_def demo_dir_def demo_env_def demo_write_def MAX_STORE_BYTES_def)

lemma demo_transaction:
  assumes "stored demo_env demo_home d = Some s" "action s = Inr (r, s')" "save_ledger demo_env demo_call s' d = (Inr (), d')"
  shows "transaction demo_env demo_home demo_call True action d = (Inr r, d')"
  using assms load_clean [OF assms(1), of demo_call]
  by (simp add: transaction_def demo_call_def clean_call_def)

definition demo_receipt :: "task_state \<Rightarrow> nat \<Rightarrow> nat \<Rightarrow> session_ref option \<Rightarrow> string receipt" where
  "demo_receipt st n trn b = \<lparr>r_task = e_task (demo_entry st n trn), r_target = demo_to, r_caller = demo_caller,
     r_parent = None, r_session = b, r_revision = n, r_cancel = False\<rparr>"

lemma demo_record: "read_record (demo_ledger st n trn b) ''t1'' = Inr (demo_receipt st n trn b)"
  by (simp add: read_record_def demo_ledger_def demo_receipt_def demo_entry_def bt_get_def)

section \<open>The run\<close>

lemma demo_checks:
  "accept_checks demo_env demo_home demo_caller demo_to demo_message None = Inr (replicate 64 CHR ''a'', replicate 64 CHR ''d'')"
  by (simp add: accept_checks_def target_ok_def demo_data MAX_MESSAGE_BYTES_def message_key_def fingerprint_def)

lemma demo_accept:
  "accept demo_env demo_home demo_call demo_caller demo_to demo_message None (demo_dir None l) =
     (Inr \<lparr>receipt = demo_receipt Submitted 1 0 None, accepted = True\<rparr>, demo_dir (Some ''1'') l)"
proof -
  have new: "accept_new demo_call demo_caller demo_to demo_message None (empty_ledger demo_home) =
      Inr (''t1'', (demo_ledger Submitted 1 0 None)\<lparr>messages := []\<rparr>)"
    by (simp add: accept_new_def accept_context_def demo_message_def demo_call_def clean_call_def new_entry_def
        empty_ledger_def demo_ledger_def demo_entry_def)
  have bound: "bounded demo_env (demo_entry st r t) = Inr ()" for st r t
    by (simp add: bounded_def demo_env_def demo_entry_def MAX_TASK_BYTES_def)
  have "accept_action demo_env demo_call l demo_caller demo_to demo_message None
      (replicate 64 CHR ''a'') (replicate 64 CHR ''d'') (empty_ledger demo_home) =
      Inr (\<lparr>receipt = demo_receipt Submitted 1 0 None, accepted = True\<rparr>, demo_ledger Submitted 1 0 None)"
  proof -
    have l: "demo_ledger Submitted 1 0 None = (demo_ledger Submitted 1 0 None)\<lparr>messages := [(replicate 64 CHR ''a'',
        \<lparr>d_fingerprint = Some (replicate 64 CHR ''d''), d_task = Some ''t1'', d_fence = None\<rparr>)]\<rparr>"
      by (simp add: demo_ledger_def)
    have t: "bt_get (tasks (demo_ledger Submitted 1 0 None)) ''t1'' = Some (demo_entry Submitted 1 0)"
      by (simp add: demo_ledger_def bt_get_def)
    show ?thesis
      using new l t bound demo_record [of Submitted 1 0 None]
      by (simp add: accept_action_def demo_message_def empty_ledger_def Let_def)
  qed
  then show ?thesis
    using demo_transaction [OF demo_stored(1) _ demo_saved(1)]
    by (simp add: accept_def checked_def demo_checks demo_dir_def demo_call_def clean_call_def)
qed

definition demo_turn :: "string execution" where
  "demo_turn = \<lparr>x_record = demo_receipt Working 2 1 None,
     x_message = demo_message\<lparr>m_task := Some ''t1'', m_context := Some ''c1''\<rparr>, x_turn = 1, x_lease = replicate 64 CHR ''c''\<rparr>"

lemma demo_get [simp]:
  "bt_get (tasks (demo_ledger st n trn b)) ''t1'' = Some (demo_entry st n trn)"
  "bt_get (contexts (demo_ledger st n trn b)) ''c1'' = Some \<lparr>c_target = demo_to, c_caller = demo_caller, c_session = b\<rparr>"
  "bt_get (tasks (demo_ledger st n trn b)) i = (if i = ''t1'' then Some (demo_entry st n trn) else None)"
  "e_state (demo_entry st n trn) = st" "e_pending (demo_entry st n trn) = ''a1''" "e_turn (demo_entry st n trn) = trn"
  "e_cancel (demo_entry st n trn) = False" "t_context (e_task (demo_entry st n trn)) = ''c1''"
  "t_id (e_task (demo_entry st n trn)) = ''t1''" "e_target (demo_entry st n trn) = demo_to"
  "e_caller (demo_entry st n trn) = demo_caller"
  by (simp_all add: demo_ledger_def bt_get_def demo_entry_def e_state_def)

lemma demo_put:
  assumes "f (demo_entry st n trn) = demo_entry st' n' trn'"
  shows "put_entry ''t1'' f (demo_ledger st n trn b) = demo_ledger st' n' trn' b"
  using assms by (simp add: put_entry_def demo_ledger_def bt_update_def bt_map_def)

lemma demo_status: "set_status demo_env 0 st None (demo_entry st' n trn) = demo_entry st (Suc n) trn"
  by (simp add: set_status_def demo_entry_def Let_def)

lemma demo_clock [simp]: "clock demo_call i = 0" "lease_fault demo_call x = None"
  by (simp_all add: demo_call_def clean_call_def)

lemma demo_ids [simp]: "message_ids demo_call i = ''e1''"
  by (simp add: demo_call_def)

lemma demo_terminal [simp]: "terminal demo_env st \<longleftrightarrow> st \<in> {Completed, Failed, Canceled, Rejected}"
  by (simp add: demo_env_def)

lemma demo_blake3 [simp]: "blake3_hex demo_env ''c1'' = replicate 64 CHR ''c''"
  by (simp add: demo_env_def)

lemma demo_claim:
  "execution_claim demo_env demo_home demo_call ''t1'' ''a1'' (demo_dir (Some ''1'') {}) =
     (Inr demo_turn, demo_dir (Some ''2'') {replicate 64 CHR ''c''})"
proof -
  have put: "put_entry ''t1'' (\<lambda>e. set_status demo_env 0 Working None (e\<lparr>e_turn := Suc (e_turn e)\<rparr>)) (demo_ledger Submitted 1 0 None) =
      demo_ledger Working 2 1 None"
  proof (rule demo_put)
    have "(demo_entry Submitted 1 0)\<lparr>e_turn := Suc (e_turn (demo_entry Submitted 1 0))\<rparr> = demo_entry Submitted 1 1"
      by (simp add: demo_entry_def)
    then show "set_status demo_env 0 Working None ((demo_entry Submitted 1 0)\<lparr>e_turn := Suc (e_turn (demo_entry Submitted 1 0))\<rparr>) =
        demo_entry Working 2 1" using demo_status by (simp add: numeral_2_eq_2)
  qed
  have alone: "\<not> list_ex (\<lambda>(k, o'). t_id (e_task o') \<noteq> ''t1'' \<and> t_context (e_task o') = ''c1'' \<and> e_state o' = Working)
      (tasks (demo_ledger Submitted 1 0 None))"
    by (simp add: demo_ledger_def)
  have hist: "t_history (e_task (demo_entry st n trn)) = Some [demo_message\<lparr>m_task := Some ''t1'', m_context := Some ''c1''\<rparr>]" for st n trn
    by (simp add: demo_entry_def)
  have "claim_action demo_env demo_call {} ''t1'' ''a1'' (demo_ledger Submitted 1 0 None) =
      Inr ((replicate 64 CHR ''c'', 1, demo_receipt Working 2 1 None,
        demo_message\<lparr>m_task := Some ''t1'', m_context := Some ''c1''\<rparr>), demo_ledger Working 2 1 None)"
    using put alone demo_record [of Working 2 1 None] hist
    by (simp add: claim_action_def try_lease_def Let_def demo_message_def)
  then have "transaction demo_env demo_home demo_call True (claim_action demo_env demo_call {} ''t1'' ''a1'') (demo_dir (Some ''1'') {}) =
      (Inr (replicate 64 CHR ''c'', 1, demo_receipt Working 2 1 None,
        demo_message\<lparr>m_task := Some ''t1'', m_context := Some ''c1''\<rparr>), demo_dir (Some ''2'') {})"
    by (rule demo_transaction [OF demo_stored(2)]) (rule demo_saved(2), simp add: demo_call_def clean_call_def)
  then show ?thesis
    by (simp add: execution_claim_def claim_def demo_turn_def demo_dir_def)
qed

lemma demo_update:
  "execution_update demo_env demo_home demo_call Completed None None demo_turn (demo_dir (Some ''2'') l) =
     (Inr (), demo_turn\<lparr>x_record := demo_receipt Completed 3 1 None\<rparr>, demo_dir (Some ''3'') l)"
proof -
  have put: "put_entry ''t1'' (\<lambda>e. set_status demo_env 0 Completed None (add_artifact None e)) (demo_ledger Working 2 1 None) =
      demo_ledger Completed 3 1 None"
    by (rule demo_put) (simp add: add_artifact_def demo_status)
  have task: "x_task demo_turn = ''t1''" "x_turn demo_turn = 1"
    by (simp_all add: x_task_def demo_turn_def demo_receipt_def)
  have bound: "bounded demo_env (demo_entry st r t) = Inr ()" for st r t
    by (simp add: bounded_def demo_env_def demo_entry_def MAX_TASK_BYTES_def)
  have "update_action demo_env demo_call ''t1'' 1 Completed None None (demo_ledger Working 2 1 None) =
      Inr (demo_receipt Completed 3 1 None, demo_ledger Completed 3 1 None)"
    using put demo_record [of Completed 3 1 None] bound
    by (simp add: update_action_def Let_def add_artifact_def demo_status)
  then have "transaction demo_env demo_home demo_call True (update_action demo_env demo_call ''t1'' 1 Completed None None) (demo_dir (Some ''2'') l) =
      (Inr (demo_receipt Completed 3 1 None), demo_dir (Some ''3'') l)"
    by (rule demo_transaction [OF demo_stored(3)]) (rule demo_saved(3), simp add: demo_call_def clean_call_def)
  then show ?thesis
    by (simp add: execution_update_def executor_update_def checked_def update_checks_def task)
qed

lemma demo_bind:
  "execution_bind demo_env demo_home demo_call demo_session demo_turn (demo_dir (Some ''2'') l) =
     (Inr (), demo_turn\<lparr>x_record := demo_receipt Working 3 1 (Some demo_session)\<rparr>, demo_dir (Some ''B'') l)"
proof -
  have bind: "bind_context ''c1'' demo_session (demo_ledger Working 2 1 None) = demo_ledger Working 3 1 (Some demo_session)"
    by (simp add: bind_context_def demo_ledger_def bt_update_def bt_map_def demo_entry_def)
  have task: "x_task demo_turn = ''t1''" "x_turn demo_turn = 1"
    by (simp_all add: x_task_def demo_turn_def demo_receipt_def)
  have free: "\<not> list_ex (\<lambda>(k, x). k \<noteq> ''c1'' \<and> c_session x = Some demo_session) (contexts (demo_ledger Working 2 1 None))"
    by (simp add: demo_ledger_def)
  have "bind_action demo_home ''t1'' 1 demo_session demo_env (demo_ledger Working 2 1 None) =
      Inr (demo_receipt Working 3 1 (Some demo_session), demo_ledger Working 3 1 (Some demo_session))"
    using bind demo_record [of Working 3 1 "Some demo_session"] free
    by (simp add: bind_action_def Let_def) (simp add: demo_session_def)
  then have "transaction demo_env demo_home demo_call True (bind_action demo_home ''t1'' 1 demo_session demo_env) (demo_dir (Some ''2'') l) =
      (Inr (demo_receipt Working 3 1 (Some demo_session)), demo_dir (Some ''B'') l)"
    by (rule demo_transaction [OF demo_stored(3)]) (rule demo_saved(4), simp add: demo_call_def clean_call_def)
  then show ?thesis
    by (simp add: execution_bind_def bind_session_def checked_def task) (simp add: demo_session_def)
qed

lemma demo_fence:
  "cancel_input demo_env demo_home demo_call demo_caller demo_to ''a1'' None (demo_dir None l) =
     (Inr Fenced, demo_dir (Some ''F'') l)"
proof -
  have checks: "cancel_input_checks demo_env demo_home demo_caller demo_to ''a1'' None = Inr (replicate 64 CHR ''a'')"
    by (simp add: cancel_input_checks_def target_ok_def demo_data message_key_def fingerprint_def)
  have "cancel_input_action demo_env demo_home demo_call demo_caller demo_to ''a1'' None (replicate 64 CHR ''a'') (empty_ledger demo_home) =
      Inr (Fenced, demo_fenced)"
    by (simp add: cancel_input_action_def cancel_input_change_def empty_ledger_def demo_fenced_def resolve_input_def
        message_key_def fingerprint_def demo_env_def bt_get_def dedup_validate_def)
  then have "transaction demo_env demo_home demo_call True (cancel_input_action demo_env demo_home demo_call demo_caller demo_to ''a1'' None (replicate 64 CHR ''a''))
      (demo_dir None l) = (Inr Fenced, demo_dir (Some ''F'') l)"
    by (rule demo_transaction [OF demo_stored(1)]) (rule demo_saved(5), simp add: demo_call_def clean_call_def)
  then show ?thesis by (simp add: cancel_input_def checked_def checks)
qed

lemma demo_recover:
  "\<exists>rs. recover demo_env demo_home demo_call (demo_dir (Some ''2'') {}) = (Inr rs, demo_dir (Some ''L'') {})"
proof -
  have work: "working_tasks (demo_ledger Working 2 1 None) = [(''t1'', ''c1'')]"
    by (simp add: working_tasks_def demo_ledger_def)
  have put: "put_entry ''t1'' (set_status demo_env 0 Failed (Some (new_message demo_env ''e1'' Agent [text_part demo_env INTERRUPTED])))
      (demo_ledger Working 2 1 None) = demo_lost"
    by (simp add: put_entry_def demo_ledger_def bt_update_def bt_map_def demo_lost_def set_status_def demo_entry_def demo_notice_def
        push_history_def Let_def demo_env_def)
  obtain r where r: "read_record demo_lost ''t1'' = Inr r"
    by (simp add: read_record_def demo_lost_def demo_ledger_def bt_get_def demo_entry_def)
  have "recover_action demo_env demo_call {} (demo_ledger Working 2 1 None) = Inr ([r], demo_lost)"
    using put r by (simp add: recover_action_def work [simplified] try_lease_def Let_def demo_ids)
  then have "transaction demo_env demo_home demo_call True (recover_action demo_env demo_call {}) (demo_dir (Some ''2'') {}) =
      (Inr [r], demo_dir (Some ''L'') {})"
    by (rule demo_transaction [OF demo_stored(3)]) (rule demo_saved(6), simp add: demo_call_def clean_call_def)
  then show ?thesis by (auto simp: recover_def demo_dir_def)
qed

end
