(* ===== verification/A2aWitnesses.thy ===== *)
theory A2aWitnesses
  imports A2aDemo
begin

text \<open>The guarantees of the delegation store at the concrete run of \<open>A2aDemo\<close>.\<close>

abbreviation demo_lease :: string where "demo_lease \<equiv> replicate 64 CHR ''c''"

definition demo_w1 :: "string world" where
  "demo_w1 = start_world\<lparr>disk := demo_dir (Some ''1'') {}\<rparr>"
definition demo_w2 :: "string world" where
  "demo_w2 = \<lparr>disk = demo_dir (Some ''2'') {demo_lease}, live = (live demo_w1)(0 \<mapsto> demo_turn)\<rparr>"
definition demo_w3 :: "string world" where
  "demo_w3 = \<lparr>disk = demo_dir (Some ''3'') {demo_lease},
     live = (live demo_w2)(0 \<mapsto> demo_turn\<lparr>x_record := demo_receipt Completed 3 1 None\<rparr>)\<rparr>"
definition demo_w4 :: "string world" where
  "demo_w4 = \<lparr>disk = demo_dir (Some ''3'') {}, live = (live demo_w3)(0 := None)\<rparr>"
definition demo_wB :: "string world" where
  "demo_wB = \<lparr>disk = demo_dir (Some ''B'') {demo_lease},
     live = (live demo_w2)(0 \<mapsto> demo_turn\<lparr>x_record := demo_receipt Working 3 1 (Some demo_session)\<rparr>)\<rparr>"
definition demo_wB' :: "string world" where
  "demo_wB' = \<lparr>disk = demo_dir (Some ''B'') {}, live = (live demo_wB)(0 := None)\<rparr>"

lemma demo_start_disk: "disk (start_world :: string world) = demo_dir None {}"
  by (simp add: start_world_def demo_dir_def)

lemma demo_fresh: "fresh_call demo_env demo_home demo_call (demo_dir None l)"
  by (simp add: fresh_call_def demo_stored fresh_ids_def empty_ledger_def) (simp add: demo_call_def)

lemma demo_accept_start:
  "accept demo_env demo_home demo_call demo_caller demo_to demo_message None (disk (start_world :: string world)) =
     (Inr \<lparr>receipt = demo_receipt Submitted 1 0 None, accepted = True\<rparr>, demo_dir (Some ''1'') {})"
  by (simp add: demo_start_disk demo_accept)

lemma demo_step1: "world_step demo_env demo_home start_world demo_w1"
  unfolding demo_w1_def
  by (rule world_step.Accept [OF _ demo_accept_start]) (simp add: demo_start_disk demo_fresh)

lemma demo_step2: "world_step demo_env demo_home demo_w1 demo_w2"
  unfolding demo_w2_def
  by (rule world_step.Claim [where c = demo_call and i = "''t1''" and message = "''a1''"])
    (simp_all add: demo_claim demo_w1_def start_world_def)

lemma demo_step3: "world_step demo_env demo_home demo_w2 demo_w3"
  unfolding demo_w3_def
  by (rule world_step.Update_turn [where c = demo_call and x = demo_turn and st = Completed and msg = None and art = None])
    (simp_all add: demo_update demo_w2_def)

lemma demo_stepB: "world_step demo_env demo_home demo_w2 demo_wB"
  unfolding demo_wB_def
  by (rule world_step.Bind_turn [where c = demo_call and x = demo_turn and session = demo_session])
    (simp_all add: demo_bind demo_w2_def)

lemma demo_step4: "world_step demo_env demo_home demo_w3 demo_w4"
proof -
  have "live demo_w3 0 = Some (demo_turn\<lparr>x_record := demo_receipt Completed 3 1 None\<rparr>)" by (simp add: demo_w3_def)
  from world_step.Drop_turn [OF this] show ?thesis
    by (simp add: demo_w4_def release_def demo_w3_def demo_dir_def demo_turn_def)
qed

lemma demo_stepB': "world_step demo_env demo_home demo_wB demo_wB'"
proof -
  have "live demo_wB 0 = Some (demo_turn\<lparr>x_record := demo_receipt Working 3 1 (Some demo_session)\<rparr>)" by (simp add: demo_wB_def)
  from world_step.Drop_turn [OF this] show ?thesis
    by (simp add: demo_wB'_def release_def demo_wB_def demo_dir_def demo_turn_def)
qed

lemma demo_reach:
  "world_steps demo_env demo_home start_world demo_w1" "world_steps demo_env demo_home start_world demo_w2"
  "world_steps demo_env demo_home start_world demo_w3" "world_steps demo_env demo_home start_world demo_wB"
  using demo_step1 demo_step2 demo_step3 demo_stepB
  by (auto intro: rtranclp.rtrancl_into_rtrancl)

lemma demo_disks [simp]:
  "disk demo_w1 = demo_dir (Some ''1'') {}" "disk demo_w2 = demo_dir (Some ''2'') {demo_lease}"
  "disk demo_w3 = demo_dir (Some ''3'') {demo_lease}" "disk demo_w4 = demo_dir (Some ''3'') {}"
  "disk demo_wB = demo_dir (Some ''B'') {demo_lease}" "disk demo_wB' = demo_dir (Some ''B'') {}"
  by (simp_all add: demo_w1_def demo_w2_def demo_w3_def demo_w4_def demo_wB_def demo_wB'_def)

theorem terminal_task_is_final_witness:
  "\<exists>s' n. stored demo_env demo_home (disk demo_w4) = Some s' \<and>
     bt_get (tasks s') ''t1'' = Some ((demo_entry Completed 3 1)\<lparr>e_revision := n\<rparr>)"
  by (rule terminal_task_is_final [OF demo_env_ok demo_reach(3) r_into_rtranclp [of "world_step demo_env demo_home", OF demo_step4],
        of "demo_ledger Completed 3 1 None"])
    (simp_all add: demo_stored del: One_nat_def)

theorem revision_identifies_record_witness:
  "r_revision (demo_receipt Working 2 1 None) \<le> r_revision (demo_receipt Completed 3 1 None) \<and>
    r_revision (demo_receipt Working 2 1 None) \<noteq> r_revision (demo_receipt Completed 3 1 None)"
  using revision_identifies_record [OF demo_env_ok demo_reach(2) r_into_rtranclp [of "world_step demo_env demo_home", OF demo_step3],
        of "demo_ledger Working 2 1 None" "''t1''" "demo_receipt Working 2 1 None" "demo_ledger Completed 3 1 None"
        "demo_receipt Completed 3 1 None"] demo_record
  by (simp add: demo_stored demo_receipt_def)

theorem one_worker_per_context_witness:
  "stored demo_env demo_home (disk demo_w2) = Some (demo_ledger Working 2 1 None) \<and> ''t1'' = ''t1''"
  by (rule conjI, simp add: demo_stored, rule one_worker_per_context [OF demo_env_ok demo_reach(2),
        of "demo_ledger Working 2 1 None" "''t1''" "demo_entry Working 2 1" "''t1''" "demo_entry Working 2 1"])
    (simp_all add: demo_stored)

theorem live_turn_is_current_witness:
  "\<exists>s e. stored demo_env demo_home (disk demo_w2) = Some s \<and> bt_get (tasks s) (x_task demo_turn) = Some e \<and>
    e_turn e = x_turn demo_turn \<and> e_state e \<noteq> Submitted \<and> alone s (x_task demo_turn) (t_context (e_task e))"
  using live_turn_is_current [OF demo_env_ok demo_reach(2), of 0 demo_turn] by (auto simp: demo_w2_def)

theorem session_binding_is_final_witness:
  "\<exists>s'. stored demo_env demo_home (disk demo_wB') = Some s' \<and> session_of s' ''c1'' = Some demo_session"
  using session_binding_is_final [OF demo_env_ok demo_reach(4) r_into_rtranclp [of "world_step demo_env demo_home", OF demo_stepB'],
        of "demo_ledger Working 3 1 (Some demo_session)" "''c1''" demo_session]
  by (auto simp: demo_stored session_of_def)

lemma demo_from1: "world_steps demo_env demo_home (start_world\<lparr>disk := demo_dir (Some ''1'') {}\<rparr>) demo_w3"
  using demo_step2 demo_step3 unfolding demo_w1_def by (auto intro: rtranclp.rtrancl_into_rtrancl)

lemma demo_again:
  "accept demo_env demo_home demo_call demo_caller demo_to demo_message None (demo_dir (Some ''3'') l) =
     (Inr \<lparr>receipt = demo_receipt Completed 3 1 None, accepted = False\<rparr>, demo_dir (Some ''3'') l)"
proof -
  have "bt_get (messages (demo_ledger Completed 3 1 None)) (replicate 64 CHR ''a'') =
      Some \<lparr>d_fingerprint = Some (replicate 64 CHR ''d''), d_task = Some ''t1'', d_fence = None\<rparr>"
    by (simp add: demo_ledger_def bt_get_def)
  then have "accept_action demo_env demo_call l demo_caller demo_to demo_message None (replicate 64 CHR ''a'') (replicate 64 CHR ''d'')
      (demo_ledger Completed 3 1 None) =
    Inr (\<lparr>receipt = demo_receipt Completed 3 1 None, accepted = False\<rparr>, demo_ledger Completed 3 1 None)"
    using demo_record [of Completed 3 1 None]
    by (simp add: accept_action_def accept_again_def dedup_validate_def Let_def list_all_iff)
  then have "transaction demo_env demo_home demo_call True (accept_action demo_env demo_call l demo_caller demo_to demo_message None
      (replicate 64 CHR ''a'') (replicate 64 CHR ''d'')) (demo_dir (Some ''3'') l) =
    (Inr \<lparr>receipt = demo_receipt Completed 3 1 None, accepted = False\<rparr>, demo_dir (Some ''3'') l)"
    by (rule demo_transaction [OF demo_stored(4)]) (rule demo_saved(3), simp add: demo_call_def clean_call_def)
  then show ?thesis by (simp add: accept_def checked_def demo_checks) (simp add: demo_dir_def)
qed

theorem message_accepted_once_witness:
  "\<not> accepted \<lparr>receipt = demo_receipt Completed 3 1 None, accepted = False\<rparr> \<and>
    t_id (r_task (demo_receipt Completed 3 1 None)) = t_id (r_task (demo_receipt Submitted 1 0 None)) \<and>
    stored demo_env demo_home (disk demo_w3) = stored demo_env demo_home (disk demo_w3)"
  using message_accepted_once [OF demo_env_ok rtranclp.rtrancl_refl, of demo_home demo_call demo_caller demo_to demo_message None
      "\<lparr>receipt = demo_receipt Submitted 1 0 None, accepted = True\<rparr>" "demo_dir (Some ''1'') {}" demo_w3 demo_message demo_call None
      "\<lparr>receipt = demo_receipt Completed 3 1 None, accepted = False\<rparr>" "disk demo_w3"]
    demo_accept_start demo_from1 demo_again [of "{demo_lease}"]
  by (simp add: demo_start_disk demo_fresh)

theorem retry_returns_receipt_witness:
  "\<exists>s r. stored demo_env demo_home (disk demo_w3) = Some s \<and> read_record s (t_id (r_task (demo_receipt Submitted 1 0 None))) = Inr r \<and>
    accept demo_env demo_home demo_call demo_caller demo_to demo_message None (disk demo_w3) =
      (Inr \<lparr>receipt = r, accepted = False\<rparr>, disk demo_w3)"
  using retry_returns_receipt [OF demo_env_ok rtranclp.rtrancl_refl, of demo_home demo_call demo_caller demo_to demo_message None
      "\<lparr>receipt = demo_receipt Submitted 1 0 None, accepted = True\<rparr>" "demo_dir (Some ''1'') {}" demo_w3 demo_call]
    demo_accept_start demo_from1
  by (simp add: demo_start_disk demo_fresh) (simp add: demo_call_def clean_call_def)

theorem fenced_input_is_never_accepted_witness:
  "accept demo_env demo_home demo_call demo_caller demo_to demo_message None (demo_dir (Some ''F'') {}) =
     (Inl InputFenced, demo_dir (Some ''F'') {})"
proof -
  obtain r d' where run: "accept demo_env demo_home demo_call demo_caller demo_to demo_message None (demo_dir (Some ''F'') {}) = (r, d')"
    by (cases "accept demo_env demo_home demo_call demo_caller demo_to demo_message None (demo_dir (Some ''F'') {})") auto
  have f: "cancel_input demo_env demo_home demo_call demo_caller demo_to ''a1'' None (disk (start_world :: string world)) =
      (Inr Fenced, demo_dir (Some ''F'') {})"
    by (simp add: demo_start_disk demo_fence)
  have id: "message_id demo_message = ''a1''" by (simp add: demo_message_def)
  have run': "accept demo_env demo_home demo_call demo_caller demo_to demo_message None
      (disk ((start_world :: string world)\<lparr>disk := demo_dir (Some ''F'') {}\<rparr>)) = (r, d')"
    using run by simp
  have "r = Inl InputFenced" "d' = demo_dir (Some ''F'') {}"
    using fenced_input_is_never_accepted [OF demo_env_ok rtranclp.rtrancl_refl f rtranclp.rtrancl_refl id run'] demo_checks
    by (simp_all add: demo_call_def clean_call_def)
  then show ?thesis using run by simp
qed

theorem failed_call_changes_nothing_witness:
  "harmless (accept demo_env demo_home demo_call demo_caller demo_to demo_message None (demo_dir (Some ''F'') {})) (demo_dir (Some ''F'') {})"
  using failed_call_changes_nothing [of demo_call demo_env demo_home demo_caller demo_to demo_message None "demo_dir (Some ''F'') {}"]
  by (simp add: demo_call_def clean_call_def)

lemma demo_dir_ok: "dir_ok demo_env demo_home (demo_dir (Some ''2'') {})"
proof -
  have ok: "ledger_ok demo_home (demo_ledger Working 2 1 None)"
    using reach_dir [OF demo_env_ok demo_reach(2)] by (simp add: dir_ok_def demo_stored)
  moreover have "written demo_env (demo_dir (Some ''2'') {})"
    using reach_dir [OF demo_env_ok demo_reach(2)] by (simp add: dir_ok_def written_def demo_dir_def)
  ultimately show ?thesis by (simp add: dir_ok_def demo_stored)
qed

theorem recovery_fails_exactly_the_lost_tasks_witness:
  "\<exists>s'. stored demo_env demo_home (demo_dir (Some ''L'') {}) = Some s' \<and>
    contexts s' = contexts (demo_ledger Working 2 1 None) \<and> messages s' = messages (demo_ledger Working 2 1 None) \<and>
    (\<exists>f. bt_get (tasks s') ''t1'' = Some f \<and> e_state f = Failed)"
proof -
  obtain rs where r: "recover demo_env demo_home demo_call (demo_dir (Some ''2'') {}) = (Inr rs, demo_dir (Some ''L'') {})"
    using demo_recover by blast
  have l: "held (demo_dir (Some ''2'') {}) = {}" by (simp add: demo_dir_def)
  show ?thesis
    using recovery_fails_exactly_the_lost_tasks [OF demo_env_ok demo_dir_ok demo_stored(3) r]
    by (auto simp: l)
qed

theorem pages_list_every_task_once_witness:
  "all_pages demo_env demo_home demo_call demo_caller demo_to None None 1 (demo_dir (Some ''2'') {}) 2 =
     Inr (map (receipt_of (demo_ledger Working 2 1 None)) (visible demo_caller demo_to None (demo_ledger Working 2 1 None)))"
proof -
  have t: "target_ok demo_home demo_to = Inr ()" by (simp add: target_ok_def demo_to_def)
  have c: "gate_fault demo_call = None" "read_fault demo_call = None" by (simp_all add: demo_call_def clean_call_def)
  have n: "length (tasks (demo_ledger Working 2 1 None)) < 2" by (simp add: demo_ledger_def)
  show ?thesis
    using pages_list_every_task_once [OF demo_dir_ok demo_stored(3) t _ _ c n] by simp
qed

definition demo_swap :: "string json" where
  "demo_swap = JObject [(''b'', JOther ''1''), (''a'', JArray [JOther ''2''])]"

theorem fingerprint_ignores_key_order_witness:
  "fingerprint demo_env (Inr (JObject [(''a'', JArray [JOther ''2'']), (''b'', JOther ''1'')])) = fingerprint demo_env (Inr demo_swap)"
proof (rule fingerprint_ignores_key_order)
  have "same_json (JArray [JOther ''2'']) (JArray [JOther (''2'' :: string)])" by (rule Same_array) (simp add: Same_other)
  then show "same_json (JObject [(''a'', JArray [JOther ''2'']), (''b'', JOther ''1'')]) demo_swap"
    unfolding demo_swap_def by (intro Same_object) (auto simp: Same_other split: if_splits)
qed

theorem dispatch_leaves_nothing_working_witness:
  "s_state (t_status (r_task (demo_receipt Completed 3 1 None))) \<notin> {Working, Submitted}"
proof (rule dispatch_leaves_nothing_working [OF demo_env_ok demo_reach(1), where h = 0 and
    execute = "\<lambda>(x, d). execution_update demo_env demo_home demo_call Completed None None x d"
    and ?c1.0 = demo_call and ?c2.0 = demo_call and ?c3.0 = demo_call and i = "''t1''" and message = "''a1''"])
  show "live demo_w1 0 = None" by (simp add: demo_w1_def start_world_def)
  have latest: "execution_latest demo_env demo_home demo_call (demo_turn\<lparr>x_record := demo_receipt Completed 3 1 None\<rparr>)
      (demo_dir (Some ''3'') l) = Inr (demo_receipt Completed 3 1 None)" for l
  proof -
    have "target_ok demo_home demo_to = Inr ()" by (simp add: target_ok_def demo_to_def)
    moreover have "load_ledger demo_env demo_home demo_call (demo_dir (Some ''3'') l) = Inr (demo_ledger Completed 3 1 None)"
      using load_clean [OF demo_stored(4)] by (simp add: demo_call_def clean_call_def)
    ultimately show ?thesis using demo_record [of Completed 3 1 None]
      by (simp add: execution_latest_def get_task_def checked_def x_task_def demo_receipt_def transaction_def caller_entry_def)
        (simp add: demo_call_def clean_call_def)
  qed
  show "dispatch demo_env demo_home demo_call demo_call demo_call
      (\<lambda>(x, d). execution_update demo_env demo_home demo_call Completed None None x d) ''t1'' ''a1'' (disk demo_w1) =
    (Inr (demo_receipt Completed 3 1 None), demo_dir (Some ''3'') {})"
    using latest by (simp add: dispatch_def demo_claim demo_update settle_def)
      (simp add: demo_receipt_def demo_entry_def release_def demo_dir_def demo_turn_def)
next
  fix x d1 result x' d2
  assume x: "execution_claim demo_env demo_home demo_call ''t1'' ''a1'' (disk demo_w1) = (Inr x, d1)"
    and e: "(case (x, d1) of (x, d) \<Rightarrow> execution_update demo_env demo_home demo_call Completed None None x d) = (result, x', d2)"
  have eq: "x = demo_turn" "d1 = demo_dir (Some ''2'') {demo_lease}" using x demo_claim by simp_all
  then have eq': "x' = demo_turn\<lparr>x_record := demo_receipt Completed 3 1 None\<rparr>" "d2 = demo_dir (Some ''3'') {demo_lease}"
    using e demo_update by simp_all
  have "during demo_env demo_home 0 demo_w2 demo_w3"
    unfolding during_def by (rule r_into_rtranclp) (simp add: demo_step3, simp add: demo_w3_def)
  then show "\<exists>w2. during demo_env demo_home 0 \<lparr>disk = d1, live = (live demo_w1)(0 \<mapsto> x)\<rparr> w2 \<and> disk w2 = d2 \<and> live w2 0 = Some x'"
    using eq eq' by (intro exI [of _ demo_w3]) (simp add: demo_w2_def demo_w3_def)
qed


lemma demo_later_ok: "dir_ok demo_env demo_home (demo_dir (Some ''S'') {})"
proof -
  let ?e = "(demo_entry Submitted 5 1)\<lparr>e_task := push_history
       (demo_message\<lparr>message_id := ''b1'', m_task := Some ''t1'', m_context := Some ''c1''\<rparr>) (e_task (demo_entry Submitted 5 1)),
       e_pending := ''b1''\<rparr>"
  have get: "bt_get (tasks demo_later) i = (if i = ''t1'' then Some ?e else None)" for i
    by (simp add: demo_later_def bt_get_def)
  have ctx: "bt_get (contexts demo_later) k = (if k = ''c1'' then Some \<lparr>c_target = demo_to, c_caller = demo_caller, c_session = None\<rparr> else None)" for k
    by (simp add: demo_later_def demo_ledger_def bt_get_def)
  have msgs: "d = \<lparr>d_fingerprint = Some (replicate 64 CHR ''d''), d_task = Some ''t1'', d_fence = None\<rparr>"
    if "bt_get (messages demo_later) k = Some d" for k d
    using that by (auto simp: demo_later_def demo_ledger_def bt_get_def split: if_splits)
  have keys: "(replicate 64 CHR ''a'' :: string) < replicate 64 CHR ''b''"
    by (simp add: numeral_eq_Suc less_char_def)
  have one: "entry_ok demo_later ''t1'' ?e"
    by (simp add: entry_ok_def ctx) (simp add: demo_message_def)
  have shape: "dedup_shape demo_later \<lparr>d_fingerprint = Some (replicate 64 CHR ''d''), d_task = Some ''t1'', d_fence = None\<rparr>"
    by (simp add: dedup_shape_def get list_all_iff)
  have "entry_ok demo_later i e" if "bt_get (tasks demo_later) i = Some e" for i e
    using that one unfolding get by (simp split: if_splits)
  moreover have "dedup_shape demo_later d" if "bt_get (messages demo_later) k = Some d" for k d
    using msgs [OF that] shape by simp
  moreover have "bt_ok (tasks demo_later)" "bt_ok (contexts demo_later)" "bt_ok (messages demo_later)"
    using keys by (simp_all add: demo_later_def demo_ledger_def bt_ok_def)
  moreover have "version demo_later = 1" "l_home demo_later = demo_home"
    by (simp_all add: demo_later_def demo_ledger_def)
  moreover have "sessions_apart demo_later" by (simp add: sessions_apart_def session_of_def ctx)
  moreover have "one_worker demo_later" by (simp add: one_worker_def get)
  ultimately have "ledger_ok demo_home demo_later"
    unfolding ledger_ok_def by blast
  moreover have "written demo_env (demo_dir (Some ''S'') {})"
    by (auto simp: written_def demo_dir_def demo_env_def demo_write_def MAX_STORE_BYTES_def intro!: exI [of _ demo_later])
  ultimately show ?thesis by (simp add: dir_ok_def demo_stored)
qed

theorem old_stop_spares_newer_input_witness:
  "cancel_input demo_env demo_home demo_call demo_caller demo_to ''a1'' None (demo_dir (Some ''S'') {}) =
     (Inr (Superseded \<lparr>ref_home = demo_home, ref_id = ''t1''\<rparr>), demo_dir (Some ''S'') {})"
proof (rule old_stop_spares_newer_input [OF demo_env_ok demo_later_ok demo_stored(8)])
  show "cancel_input_checks demo_env demo_home demo_caller demo_to ''a1'' None = Inr (replicate 64 CHR ''a'')"
    by (simp add: cancel_input_checks_def target_ok_def demo_data message_key_def fingerprint_def)
  show "bt_get (messages demo_later) (replicate 64 CHR ''a'') =
      Some \<lparr>d_fingerprint = Some (replicate 64 CHR ''d''), d_task = Some ''t1'', d_fence = None\<rparr>"
    by (simp add: demo_later_def demo_ledger_def bt_get_def)
  show "bt_get (tasks demo_later) ''t1'' = Some ((demo_entry Submitted 5 1)\<lparr>e_task := push_history
       (demo_message\<lparr>message_id := ''b1'', m_task := Some ''t1'', m_context := Some ''c1''\<rparr>) (e_task (demo_entry Submitted 5 1)),
       e_pending := ''b1''\<rparr>)"
    by (simp add: demo_later_def bt_get_def)
qed (simp_all add: demo_call_def clean_call_def demo_entry_def)

end
