(* ===== verification/JsonMeter.thy ===== *)
theory JsonMeter
  imports RustBase "HOL-Library.Word"
begin

text \<open>
  \<open>crates/web/src/json_request.rs\<close>: how the web entry reads a JSON request without
  letting it exhaust memory.  \<open>CountedRead\<close> meters the bytes before the parser sees them,
  \<open>Tree\<close> meters the values the parser builds, and \<open>read\<close> turns a violation into a 413.
  The parser itself (serde) is not part of the repository: it presents the document to the
  visitor as a \<open>presented\<close> tree.
\<close>

section \<open>Limits and failures\<close>

definition MIB :: nat where "MIB = 1024 * 1024"
definition TEXT :: nat where "TEXT = 64 * MIB"

record limits =
  max_strings :: nat
  max_string :: nat
  max_encoded :: nat
  max_width :: nat
  max_nodes :: nat
  max_depth :: nat

definition limits_for_command :: "string \<Rightarrow> limits" where
  "limits_for_command command =
     (let strings = (if command = ''merge_text'' then 3 * TEXT else TEXT) + MIB in
      \<lparr>max_strings = strings, max_string = TEXT, max_encoded = strings * 6 + MIB, max_width = 65536,
       max_nodes = 262144, max_depth = 128\<rparr>)"

record failure =
  failure_code :: nat
  failure_message :: string

definition failure_bad :: "string \<Rightarrow> failure" where
  "failure_bad message = \<lparr>failure_code = 400, failure_message = message\<rparr>"

definition failure_limit :: "string \<Rightarrow> failure" where
  "failure_limit reason = \<lparr>failure_code = 413, failure_message = ''JSON request exceeds '' @ reason @ '' limit''\<rparr>"

section \<open>The byte meter\<close>

datatype string_state = Outside | InText | Escape | Unicode nat "16 word"

record meter =
  encoded :: nat
  strings :: nat
  this_string :: nat
  sstate :: string_state
  high_surrogate :: bool
  nesting :: nat
  violation :: "string option"

definition new_meter :: meter where
  "new_meter = \<lparr>encoded = 0, strings = 0, this_string = 0, sstate = Outside, high_surrogate = False,
     nesting = 0, violation = None\<rparr>"

text \<open>A call gives whether it went well, and the meter.\<close>

definition meter_reject :: "string \<Rightarrow> meter \<Rightarrow> bool \<times> meter" where
  "meter_reject reason m = (False, m\<lparr>violation := Some reason\<rparr>)"

definition charge :: "limits \<Rightarrow> nat \<Rightarrow> meter \<Rightarrow> bool \<times> meter" where
  "charge L bytes m =
     (if bytes > max_string L - this_string m then meter_reject ''single string bytes'' m
      else if bytes > max_strings L - strings m then meter_reject ''decoded string bytes'' m
      else (True, m\<lparr>this_string := this_string m + bytes, strings := strings m + bytes\<rparr>))"

definition after_charge :: "bool \<times> meter \<Rightarrow> (meter \<Rightarrow> meter) \<Rightarrow> bool \<times> meter" where
  "after_charge r f = (case r of (False, m) \<Rightarrow> (False, m) | (True, m) \<Rightarrow> (True, f m))"

definition to_digit16 :: "char \<Rightarrow> nat option" where
  "to_digit16 c = (let n = (of_char c :: nat) in
     if 48 \<le> n \<and> n \<le> 57 then Some (n - 48)
     else if 97 \<le> n \<and> n \<le> 102 then Some (n - 87)
     else if 65 \<le> n \<and> n \<le> 70 then Some (n - 55)
     else None)"

definition unit_bytes :: "bool \<Rightarrow> 16 word \<Rightarrow> nat" where
  "unit_bytes high w = (let u = unat w in
     if 0xd800 \<le> u \<and> u \<le> 0xdbff then 3
     else if 0xdc00 \<le> u \<and> u \<le> 0xdfff \<and> high then 1
     else if u \<le> 0x7f then 1
     else if u \<le> 0x7ff then 2
     else 3)"

definition is_high_surrogate :: "16 word \<Rightarrow> bool" where
  "is_high_surrogate w \<longleftrightarrow> 0xd800 \<le> unat w \<and> unat w \<le> 0xdbff"

definition next_unit :: "16 word \<Rightarrow> char \<Rightarrow> 16 word" where
  "next_unit w c = or (push_bit 4 w) (of_nat (case to_digit16 c of None \<Rightarrow> 0 | Some n \<Rightarrow> n))"

definition count_byte :: "limits \<Rightarrow> char \<Rightarrow> meter \<Rightarrow> bool \<times> meter" where
  "count_byte L byte m =
     (if encoded m = max_encoded L then meter_reject ''encoded body bytes'' m
      else let m = m\<lparr>encoded := encoded m + 1\<rparr> in
      case sstate m of
        Outside \<Rightarrow>
          if byte = CHR 0x22 then (True, m\<lparr>this_string := 0, high_surrogate := False, sstate := InText\<rparr>)
          else if byte = CHR ''['' \<or> byte = CHR ''{'' then
            (let m = m\<lparr>nesting := nesting m + 1\<rparr> in
             if nesting m \<ge> max_depth L then meter_reject ''nesting depth'' m else (True, m))
          else if byte = CHR '']'' \<or> byte = CHR ''}'' then (True, m\<lparr>nesting := nesting m - 1\<rparr>)
          else (True, m)
      | InText \<Rightarrow>
          if byte = CHR 0x22 then (True, m\<lparr>sstate := Outside\<rparr>)
          else if byte = CHR 0x5C then (True, m\<lparr>sstate := Escape\<rparr>)
          else after_charge (charge L 1 m) (\<lambda>m. m\<lparr>high_surrogate := False\<rparr>)
      | Escape \<Rightarrow>
          if byte = CHR ''u'' then (True, m\<lparr>sstate := Unicode 0 0\<rparr>)
          else after_charge (charge L 1 m) (\<lambda>m. m\<lparr>high_surrogate := False, sstate := InText\<rparr>)
      | Unicode digits w \<Rightarrow>
          let w = next_unit w byte in
          if digits = 3 then
            after_charge (charge L (unit_bytes (high_surrogate m) w) m)
              (\<lambda>m. m\<lparr>high_surrogate := is_high_surrogate w, sstate := InText\<rparr>)
          else (True, m\<lparr>sstate := Unicode (digits + 1) w\<rparr>))"

text \<open>One \<open>read\<close> counts every byte it got before it hands them on; the first failure ends it.\<close>

fun count_chunk :: "limits \<Rightarrow> string \<Rightarrow> meter \<Rightarrow> bool \<times> meter" where
  "count_chunk L [] m = (True, m)"
| "count_chunk L (b # bs) m = (case count_byte L b m of (True, m') \<Rightarrow> count_chunk L bs m' | (False, m') \<Rightarrow> (False, m'))"

fun count_reads :: "limits \<Rightarrow> string list \<Rightarrow> meter \<Rightarrow> bool \<times> meter" where
  "count_reads L [] m = (True, m)"
| "count_reads L (c # cs) m = (case count_chunk L c m of (True, m') \<Rightarrow> count_reads L cs m' | (False, m') \<Rightarrow> (False, m'))"

section \<open>The value meter\<close>

datatype ('n, 'v) json_value = JNull | JBool bool | JNumber 'n | JString string
  | JArray "('n, 'v) json_value list" | JObject "(string, ('n, 'v) json_value) btree"

text \<open>What the parser presents: the call it makes on the visitor, or its own error at that point.\<close>

datatype 'n presented = P_unit | P_bool bool | P_int 'n | P_float "'n option" | P_str string
  | P_seq "'n presented list" | P_map "('n presented \<times> 'n presented) list" | P_error string

record tree =
  nodes :: nat
  tree_violation :: "string option"

datatype parse_error = Resource | Custom string | Syntax string

definition tree_reject :: "string \<Rightarrow> tree \<Rightarrow> (parse_error + 'a) \<times> tree" where
  "tree_reject reason t = (Inl Resource, t\<lparr>tree_violation := Some reason\<rparr>)"

function (sequential) visit :: "limits \<Rightarrow> nat \<Rightarrow> bool \<Rightarrow> 'n presented \<Rightarrow> tree \<Rightarrow> (parse_error + ('n, unit) json_value) \<times> tree"
  and visit_seq :: "limits \<Rightarrow> nat \<Rightarrow> nat \<Rightarrow> 'n presented list \<Rightarrow> tree \<Rightarrow> (parse_error + ('n, unit) json_value list) \<times> tree"
  and visit_map :: "limits \<Rightarrow> nat \<Rightarrow> nat \<Rightarrow> (string, ('n, unit) json_value) btree \<Rightarrow> ('n presented \<times> 'n presented) list \<Rightarrow> tree
        \<Rightarrow> (parse_error + (string, ('n, unit) json_value) btree) \<times> tree" where
  "visit L depth allowed p t =
     (if \<not> allowed then tree_reject ''container entries'' t
      else if nodes t = max_nodes L then tree_reject ''total values'' t
      else if depth > max_depth L then tree_reject ''nesting depth'' t
      else let t = t\<lparr>nodes := nodes t + 1\<rparr> in
      case p of
        P_unit \<Rightarrow> (Inr JNull, t)
      | P_bool b \<Rightarrow> (Inr (JBool b), t)
      | P_int n \<Rightarrow> (Inr (JNumber n), t)
      | P_float None \<Rightarrow> (Inl (Custom ''invalid JSON number''), t)
      | P_float (Some n) \<Rightarrow> (Inr (JNumber n), t)
      | P_str s \<Rightarrow> (Inr (JString s), t)
      | P_error e \<Rightarrow> (Inl (Syntax e), t)
      | P_seq ps \<Rightarrow> (case visit_seq L depth 0 ps t of (Inl e, t) \<Rightarrow> (Inl e, t) | (Inr vs, t) \<Rightarrow> (Inr (JArray vs), t))
      | P_map ms \<Rightarrow> (case visit_map L depth 0 [] ms t of (Inl e, t) \<Rightarrow> (Inl e, t) | (Inr vs, t) \<Rightarrow> (Inr (JObject vs), t)))"
| "visit_seq L depth n [] t = (Inr [], t)"
| "visit_seq L depth n (p # ps) t =
     (case visit L (depth + 1) (n < max_width L) p t of (Inl e, t) \<Rightarrow> (Inl e, t)
      | (Inr v, t) \<Rightarrow> (case visit_seq L depth (n + 1) ps t of (Inl e, t) \<Rightarrow> (Inl e, t) | (Inr vs, t) \<Rightarrow> (Inr (v # vs), t)))"
| "visit_map L depth n acc [] t = (Inr acc, t)"
| "visit_map L depth n acc ((k, p) # ms) t =
     (case visit L (depth + 1) (n < max_width L) k t of (Inl e, t) \<Rightarrow> (Inl e, t)
      | (Inr key, t) \<Rightarrow>
        (case key of
           JString s \<Rightarrow>
             (case visit L (depth + 1) True p t of (Inl e, t) \<Rightarrow> (Inl e, t)
              | (Inr v, t) \<Rightarrow> visit_map L depth (n + 1) (bt_insert s v acc) ms t)
         | _ \<Rightarrow> (Inl (Custom ''JSON object key must be a string''), t)))"

  by pat_completeness auto
termination
  by (relation "measure (\<lambda>x. case x of Inl (_, _, _, p, _) \<Rightarrow> size p
      | Inr (Inl (_, _, _, ps, _)) \<Rightarrow> size_list size ps
      | Inr (Inr (_, _, _, _, ms, _)) \<Rightarrow> size_list (size_prod size size) ms)") auto

section \<open>Reading a request\<close>

definition is_json_space :: "char \<Rightarrow> bool" where
  "is_json_space b \<longleftrightarrow> b \<in> {CHR '' '', CHR 0x0D, CHR 0x0A, CHR 0x09}"

text \<open>Leading blanks are skipped read by read; a body of nothing else stands for no arguments.\<close>

fun skip_spaces :: "string list \<Rightarrow> string list" where
  "skip_spaces [] = []"
| "skip_spaces (c # cs) = (case dropWhile is_json_space c of [] \<Rightarrow> skip_spaces cs | rest \<Rightarrow> rest # cs)"

definition parse_error_text :: "parse_error \<Rightarrow> string" where
  "parse_error_text e = (case e of Resource \<Rightarrow> ''JSON request resource limit'' | Custom s \<Rightarrow> s | Syntax s \<Rightarrow> s)"

definition read_result ::
    "meter \<Rightarrow> tree \<Rightarrow> bool \<Rightarrow> parse_error + 'a \<Rightarrow> failure + 'a" where
  "read_result m t io parsed =
     (case (case violation m of Some r \<Rightarrow> Some r | None \<Rightarrow> tree_violation t) of
        Some reason \<Rightarrow> Inl (failure_limit reason)
      | None \<Rightarrow> map_err (\<lambda>e. failure_bad ((if io then ''Could not read JSON request'' else ''Invalid JSON request'')
                   @ '': '' @ parse_error_text e)) parsed)"

definition dispatch_command :: "failure + 'v \<Rightarrow> ('v \<Rightarrow> string + 'r) \<Rightarrow> failure + 'r" where
  "dispatch_command args command = and_then args (\<lambda>v. map_err failure_bad (command v))"

end
