(* ===== verification/JsonMeterFacts.thy ===== *)
theory JsonMeterFacts
  imports JsonMeter
begin

text \<open>
  What the meters guarantee: they never pass their limits, however the bytes arrive; the byte
  meter charges a string literal exactly the bytes it decodes to; and the value the parser
  builds is within the node, width and depth limits.
\<close>

section \<open>The byte meter\<close>

definition meter_ok :: "limits \<Rightarrow> meter \<Rightarrow> bool" where
  "meter_ok L m \<longleftrightarrow> encoded m \<le> max_encoded L \<and> this_string m \<le> max_string L \<and>
     this_string m \<le> strings m \<and> strings m \<le> max_strings L \<and>
     (\<forall>k w. sstate m = Unicode k w \<longrightarrow> k < 4)"

lemma charge_ok:
  assumes "meter_ok L m"
  shows "meter_ok L (snd (charge L n m))"
    "sstate (snd (charge L n m)) = sstate m"
    "fst (charge L n m) \<Longrightarrow> violation (snd (charge L n m)) = violation m"
    "\<not> fst (charge L n m) \<Longrightarrow> violation (snd (charge L n m)) \<noteq> None"
  using assms by (auto simp: charge_def meter_reject_def meter_ok_def)

lemma count_byte_keeps:
  assumes "meter_ok L m"
  shows "meter_ok L (snd (count_byte L b m))"
proof (cases "encoded m = max_encoded L")
  case True
  then show ?thesis using assms by (simp add: count_byte_def meter_reject_def meter_ok_def)
next
  case False
  let ?m = "m\<lparr>encoded := encoded m + 1\<rparr>"
  have ok: "meter_ok L ?m" using assms False by (auto simp: meter_ok_def)
  have ch: "meter_ok L (snd (charge L n ?m))" "sstate (snd (charge L n ?m)) = sstate m" for n
    using charge_ok(1,2) [OF ok, of n] by simp_all
  have set: "meter_ok L (snd (after_charge (charge L n ?m) (\<lambda>m. m\<lparr>high_surrogate := h, sstate := InText\<rparr>)))"
    "meter_ok L (snd (after_charge (charge L n ?m) (\<lambda>m. m\<lparr>high_surrogate := h\<rparr>)))" for n h
    using ch(1) [of n] by (auto simp: after_charge_def meter_ok_def split: prod.splits bool.splits)
  have moved: "meter_ok L (?m\<lparr>sstate := Outside\<rparr>)" "meter_ok L (?m\<lparr>sstate := Escape\<rparr>)"
    "j < 4 \<Longrightarrow> meter_ok L (?m\<lparr>sstate := Unicode j v\<rparr>)" for j v
    using ok by (simp_all add: meter_ok_def)
  show ?thesis
  proof (cases "sstate m")
    case Outside
    have "meter_ok L (?m\<lparr>this_string := 0, high_surrogate := False, sstate := InText\<rparr>)"
      "meter_ok L (?m\<lparr>nesting := n\<rparr>)" "meter_ok L (?m\<lparr>nesting := n, violation := v\<rparr>)" for n v
      using ok by (simp_all add: meter_ok_def)
    then show ?thesis using Outside False ok by (simp add: count_byte_def meter_reject_def Let_def)
  next
    case InText
    then show ?thesis using False set moved by (simp add: count_byte_def Let_def)
  next
    case Escape
    then show ?thesis using False set moved by (simp add: count_byte_def Let_def)
  next
    case (Unicode k w)
    then have "k \<noteq> 3 \<Longrightarrow> Suc k < 4" using assms by (auto simp: meter_ok_def)
    then show ?thesis using Unicode False set moved(3) by (simp add: count_byte_def Let_def)
  qed
qed

lemma count_byte_verdict:
  "fst (count_byte L b m) \<Longrightarrow> violation (snd (count_byte L b m)) = violation m"
  "\<not> fst (count_byte L b m) \<Longrightarrow> violation (snd (count_byte L b m)) \<noteq> None"
proof -
  have c: "fst (charge L n m') \<Longrightarrow> violation (snd (charge L n m')) = violation m'"
    "\<not> fst (charge L n m') \<Longrightarrow> violation (snd (charge L n m')) \<noteq> None" for n m'
    by (auto simp: charge_def meter_reject_def)
  have a: "fst (after_charge (charge L n m') f) = fst (charge L n m')"
    "(\<And>m. violation (f m) = violation m) \<Longrightarrow> violation (snd (after_charge (charge L n m') f)) = violation (snd (charge L n m'))"
    for n m' and f :: "meter \<Rightarrow> meter"
    by (auto simp: after_charge_def split: prod.splits bool.splits)
  show "fst (count_byte L b m) \<Longrightarrow> violation (snd (count_byte L b m)) = violation m"
    by (cases "sstate m") (simp_all add: count_byte_def meter_reject_def Let_def a c split: if_splits)
  show "\<not> fst (count_byte L b m) \<Longrightarrow> violation (snd (count_byte L b m)) \<noteq> None"
    by (cases "sstate m") (auto simp: count_byte_def meter_reject_def Let_def a c(2) [simplified] split: if_splits)
qed

lemma count_chunk_keeps: "meter_ok L m \<Longrightarrow> meter_ok L (snd (count_chunk L bs m))"
proof (induction bs arbitrary: m)
  case (Cons b bs)
  then show ?case using count_byte_keeps [OF Cons.prems, of b]
    by (auto split: prod.splits bool.splits)
qed simp

lemma count_chunk_verdict:
  "violation m = None \<Longrightarrow> fst (count_chunk L bs m) \<longleftrightarrow> violation (snd (count_chunk L bs m)) = None"
proof (induction bs arbitrary: m)
  case (Cons b bs)
  then show ?case using count_byte_verdict [of L b m]
    by (cases "count_byte L b m") (auto split: bool.splits)
qed simp

lemma count_chunk_append:
  "count_chunk L (xs @ ys) m = (case count_chunk L xs m of (True, m') \<Rightarrow> count_chunk L ys m' | (False, m') \<Rightarrow> (False, m'))"
  by (induction xs arbitrary: m) (auto split: prod.splits bool.splits)

lemma count_reads_concat: "count_reads L cs m = count_chunk L (concat cs) m"
  by (induction cs arbitrary: m) (auto simp: count_chunk_append split: prod.splits bool.splits)

text \<open>
  the meter never passes its limits.  For any limits, any bytes and any way they are cut into
  reads, the encoded bytes, the bytes of the current string and of all strings stay within
  the limits, reading fails exactly when a violation is recorded, and the cuts do not matter.
\<close>

theorem meter_stays_within_limits:
  "encoded (snd (count_reads L cs new_meter)) \<le> max_encoded L \<and>
   this_string (snd (count_reads L cs new_meter)) \<le> max_string L \<and>
   strings (snd (count_reads L cs new_meter)) \<le> max_strings L \<and>
   (fst (count_reads L cs new_meter) \<longleftrightarrow> violation (snd (count_reads L cs new_meter)) = None) \<and>
   count_reads L cs new_meter = count_chunk L (concat cs) new_meter"
proof -
  have "meter_ok L new_meter" by (simp add: meter_ok_def new_meter_def)
  then have "meter_ok L (snd (count_reads L cs new_meter))"
    unfolding count_reads_concat by (rule count_chunk_keeps)
  then show ?thesis using count_chunk_verdict [of new_meter L "concat cs"]
    by (simp add: meter_ok_def count_reads_concat new_meter_def)
qed

section \<open>String literals\<close>

text \<open>
  The characters of a JSON string literal and the scalar values they stand for: a raw byte, a
  short escape, one \<open>\u\<close> escape, or a surrogate pair of them.
\<close>

datatype piece = Raw char | Short char | Code "16 word" | Pair "16 word" "16 word"

definition hex_digit :: "nat \<Rightarrow> char" where
  "hex_digit n = (if n < 10 then char_of (48 + n) else char_of (87 + n))"

definition hex4 :: "16 word \<Rightarrow> string" where
  "hex4 w = [hex_digit (unat w div 4096), hex_digit (unat w div 256 mod 16),
     hex_digit (unat w div 16 mod 16), hex_digit (unat w mod 16)]"

fun piece_text :: "piece \<Rightarrow> string" where
  "piece_text (Raw c) = [c]"
| "piece_text (Short c) = [CHR 0x5C, c]"
| "piece_text (Code w) = [CHR 0x5C, CHR ''u''] @ hex4 w"
| "piece_text (Pair h l) = [CHR 0x5C, CHR ''u''] @ hex4 h @ [CHR 0x5C, CHR ''u''] @ hex4 l"

fun piece_ok :: "piece \<Rightarrow> bool" where
  "piece_ok (Raw c) \<longleftrightarrow> c \<noteq> CHR 0x22 \<and> c \<noteq> CHR 0x5C"
| "piece_ok (Short c) \<longleftrightarrow> c \<noteq> CHR ''u''"
| "piece_ok (Code w) \<longleftrightarrow> \<not> (0xd800 \<le> unat w \<and> unat w \<le> 0xdfff)"
| "piece_ok (Pair h l) \<longleftrightarrow> 0xd800 \<le> unat h \<and> unat h \<le> 0xdbff \<and> 0xdc00 \<le> unat l \<and> unat l \<le> 0xdfff"

definition utf8_length :: "nat \<Rightarrow> nat" where
  "utf8_length c = (if c < 0x80 then 1 else if c < 0x800 then 2 else if c < 0x10000 then 3 else 4)"

fun decoded_bytes :: "piece \<Rightarrow> nat" where
  "decoded_bytes (Raw c) = 1"
| "decoded_bytes (Short c) = 1"
| "decoded_bytes (Code w) = utf8_length (unat w)"
| "decoded_bytes (Pair h l) = utf8_length (0x10000 + (unat h - 0xd800) * 0x400 + (unat l - 0xdc00))"

lemma to_digit16_hex: "n < 16 \<Longrightarrow> to_digit16 (hex_digit n) = Some n"
  by (auto simp: to_digit16_def hex_digit_def Let_def)

lemma shift_in: "n < 16 \<Longrightarrow> (x * 16 + n) mod 65536 = (x * 16) mod 65536 + (n :: nat)"
proof -
  assume n: "n < 16"
  have low: "x mod 4096 < 4096" by simp
  have "x * 16 + k = (16 * (x mod 4096) + k) + 65536 * (x div 4096)" for k
    using mult_div_mod_eq [of 4096 x] by linarith
  then have m: "(x * 16 + k) mod 65536 = (16 * (x mod 4096) + k) mod 65536" for k
    by (metis mod_mult_self2)
  have "(16 * (x mod 4096) + n) mod 65536 = 16 * (x mod 4096) + n" "(16 * (x mod 4096)) mod 65536 = 16 * (x mod 4096)"
    using low n by (intro mod_less; linarith)+
  then show ?thesis using m [of n] m [of 0] by simp
qed

lemma next_unit_hex:
  assumes "n < 16"
  shows "unat (next_unit w (hex_digit n)) = (unat w * 16) mod 65536 + n"
proof -
  have bits: "and (push_bit 4 w) (of_nat n) = 0"
  proof (rule bit_word_eqI)
    fix k :: nat assume "k < LENGTH(16)"
    have "\<not> bit n k" if "4 \<le> k"
    proof -
      have "n < 2 ^ k" using assms that power_increasing [of 4 k "2 :: nat"] by simp
      then show ?thesis by (simp add: bit_iff_odd)
    qed
    then show "bit (and (push_bit 4 w) (of_nat n)) k = bit (0 :: 16 word) k"
      by (auto simp: bit_simps)
  qed
  have "next_unit w (hex_digit n) = push_bit 4 w + of_nat n"
    using to_digit16_hex [OF assms] disjunctive_add_eq_or [OF bits] by (simp add: next_unit_def)
  also have "\<dots> = word_of_nat (unat w * 16 + n)"
    by (simp add: push_bit_eq_mult mult.commute)
  finally have eq: "next_unit w (hex_digit n) = word_of_nat (unat w * 16 + n)" .
  have "unat (next_unit w (hex_digit n)) = (unat w * 16 + n) mod 65536"
    unfolding eq by (simp add: unsigned_of_nat take_bit_eq_mod del: of_nat_add of_nat_mult)
  also have "\<dots> = (unat w * 16) mod 65536 + n"
    by (rule shift_in [OF assms])
  finally show ?thesis .
qed

lemma four_nibbles:
  fixes a b c d :: nat
  assumes "a < 16" "b < 16" "c < 16" "d < 16"
  shows "((((0 * 16) mod 65536 + a) * 16 mod 65536 + b) * 16 mod 65536 + c) * 16 mod 65536 + d = 4096 * a + 256 * b + 16 * c + d"
  using assms by (simp add: mod_less)

lemma nibbles_of: "4096 * (x div 4096) + 256 * (x div 256 mod 16) + 16 * (x div 16 mod 16) + x mod 16 = (x :: nat)"
proof -
  have "x = 16 * (x div 16) + x mod 16" by simp
  moreover have "x div 16 = 16 * (x div 256) + x div 16 mod 16"
    using mult_div_mod_eq [of 16 "x div 16"] by (simp flip: div_mult2_eq)
  moreover have "x div 256 = 16 * (x div 4096) + x div 256 mod 16"
    using mult_div_mod_eq [of 16 "x div 256"] by (simp flip: div_mult2_eq)
  ultimately show ?thesis by linarith
qed

lemma hex4_reads:
  "next_unit (next_unit (next_unit (next_unit 0 (hex_digit (unat w div 4096))) (hex_digit (unat w div 256 mod 16)))
     (hex_digit (unat w div 16 mod 16))) (hex_digit (unat w mod 16)) = w"
proof -
  have lt: "unat w < 65536" using unsigned_less [of w, where ?'a = nat] by simp
  then have d: "unat w div 4096 < 16" by (simp add: less_mult_imp_div_less)
  have "unat (next_unit (next_unit (next_unit (next_unit 0 (hex_digit (unat w div 4096))) (hex_digit (unat w div 256 mod 16)))
     (hex_digit (unat w div 16 mod 16))) (hex_digit (unat w mod 16))) =
     ((((0 * 16) mod 65536 + unat w div 4096) * 16 mod 65536 + unat w div 256 mod 16) * 16 mod 65536 + unat w div 16 mod 16) * 16 mod 65536
       + unat w mod 16"
    by (simp only: next_unit_hex [OF d] next_unit_hex [OF mod_less_divisor] zero_less_numeral unat_0)
  also have "\<dots> = unat w" by (subst four_nibbles) (simp_all only: d mod_less_divisor zero_less_numeral nibbles_of)
  finally show ?thesis by (rule unsigned_word_eqI)
qed

section \<open>Charging a literal\<close>

lemma count_chunk_step:
  "count_byte L b m = (True, m') \<Longrightarrow> count_chunk L (b # bs) m = count_chunk L bs m'"
  "count_byte L b m = (False, m') \<Longrightarrow> count_chunk L (b # bs) m = (False, m')"
  by simp_all

definition charged :: "limits \<Rightarrow> nat \<Rightarrow> nat \<Rightarrow> bool \<Rightarrow> meter \<Rightarrow> meter" where
  "charged L len n h m = m\<lparr>encoded := encoded m + len, strings := strings m + n, this_string := this_string m + n,
     high_surrogate := h, sstate := InText\<rparr>"

definition fits :: "limits \<Rightarrow> nat \<Rightarrow> meter \<Rightarrow> bool" where
  "fits L n m \<longleftrightarrow> n \<le> max_string L - this_string m \<and> n \<le> max_strings L - strings m"

lemma count_unit:
  assumes "sstate m = Escape" "encoded m + 5 \<le> max_encoded L"
  shows "fits L (unit_bytes (high_surrogate m) w) m \<Longrightarrow>
      count_chunk L (CHR ''u'' # hex4 w @ rest) m =
        count_chunk L rest (charged L 5 (unit_bytes (high_surrogate m) w) (is_high_surrogate w) m)"
    and "\<not> fits L (unit_bytes (high_surrogate m) w) m \<Longrightarrow> \<not> fst (count_chunk L (CHR ''u'' # hex4 w @ rest) m)"
proof -
  let ?d = "\<lambda>i. hex4 w ! i"
  have hex: "hex4 w = [?d 0, ?d 1, ?d 2, ?d 3]" by (simp add: hex4_def)
  have unit: "next_unit (next_unit (next_unit (next_unit 0 (?d 0)) (?d 1)) (?d 2)) (?d 3) = w"
    using hex4_reads [of w] by (simp add: hex4_def)
  define m5 where "m5 = m\<lparr>sstate := Unicode 3 (next_unit (next_unit (next_unit 0 (?d 0)) (?d 1)) (?d 2)), encoded := 5 + encoded m\<rparr>"
  have s: "count_byte L CHR ''u'' m = (True, m\<lparr>encoded := encoded m + 1, sstate := Unicode 0 0\<rparr>)"
    "count_byte L (?d 0) (m\<lparr>encoded := encoded m + 1, sstate := Unicode 0 0\<rparr>) =
       (True, m\<lparr>encoded := encoded m + 2, sstate := Unicode 1 (next_unit 0 (?d 0))\<rparr>)"
    "count_byte L (?d 1) (m\<lparr>encoded := encoded m + 2, sstate := Unicode 1 (next_unit 0 (?d 0))\<rparr>) =
       (True, m\<lparr>encoded := encoded m + 3, sstate := Unicode 2 (next_unit (next_unit 0 (?d 0)) (?d 1))\<rparr>)"
    "count_byte L (?d 2) (m\<lparr>encoded := encoded m + 3, sstate := Unicode 2 (next_unit (next_unit 0 (?d 0)) (?d 1))\<rparr>) =
       (True, m\<lparr>encoded := encoded m + 4, sstate := Unicode 3 (next_unit (next_unit (next_unit 0 (?d 0)) (?d 1)) (?d 2))\<rparr>)"
    using assms by (simp_all add: count_byte_def Let_def)
  have go: "count_chunk L (CHR ''u'' # hex4 w @ rest) m = count_chunk L (?d 3 # rest)
      (m\<lparr>encoded := encoded m + 4, sstate := Unicode 3 (next_unit (next_unit (next_unit 0 (?d 0)) (?d 1)) (?d 2))\<rparr>)"
    by (subst hex) (simp only: append_Cons append_Nil count_chunk_step(1) [OF s(1)] count_chunk_step(1) [OF s(2)]
        count_chunk_step(1) [OF s(3)] count_chunk_step(1) [OF s(4)])
  have last: "count_byte L (?d 3) (m\<lparr>encoded := encoded m + 4, sstate := Unicode 3 (next_unit (next_unit (next_unit 0 (?d 0)) (?d 1)) (?d 2))\<rparr>) =
      after_charge (charge L (unit_bytes (high_surrogate m) w) m5) (\<lambda>m. m\<lparr>high_surrogate := is_high_surrogate w, sstate := InText\<rparr>)"
    using assms unit by (simp add: count_byte_def Let_def m5_def)
  show "count_chunk L (CHR ''u'' # hex4 w @ rest) m =
        count_chunk L rest (charged L 5 (unit_bytes (high_surrogate m) w) (is_high_surrogate w) m)"
    if "fits L (unit_bytes (high_surrogate m) w) m"
  proof -
    have "count_byte L (?d 3) (m\<lparr>encoded := encoded m + 4, sstate := Unicode 3 (next_unit (next_unit (next_unit 0 (?d 0)) (?d 1)) (?d 2))\<rparr>) =
       (True, charged L 5 (unit_bytes (high_surrogate m) w) (is_high_surrogate w) m)"
      using that unfolding last by (auto simp: charge_def fits_def after_charge_def m5_def charged_def intro!: meter.equality)
    then show ?thesis unfolding go by (rule count_chunk_step(1))
  qed
  show "\<not> fst (count_chunk L (CHR ''u'' # hex4 w @ rest) m)" if "\<not> fits L (unit_bytes (high_surrogate m) w) m"
    unfolding go unfolding count_chunk.simps last
    using that by (auto simp: charge_def fits_def after_charge_def m5_def meter_reject_def)
qed


lemma unit_bytes_code:
  "piece_ok (Code w) \<Longrightarrow> unit_bytes h w = utf8_length (unat w) \<and> \<not> is_high_surrogate w"
  using unsigned_less [of w, where ?'a = nat]
  by (auto simp: unit_bytes_def utf8_length_def is_high_surrogate_def Let_def)

lemma unit_bytes_pair:
  assumes "piece_ok (Pair h l)"
  shows "unit_bytes x h = 3" "unit_bytes True l = 1" "is_high_surrogate h" "\<not> is_high_surrogate l"
    "decoded_bytes (Pair h l) = 4"
  using assms by (auto simp: unit_bytes_def utf8_length_def is_high_surrogate_def Let_def)

lemma fits_charged: "fits L n m \<Longrightarrow> fits L k (charged L len n h m) \<longleftrightarrow> fits L (n + k) m"
  by (auto simp: fits_def charged_def)

lemma charged_charged: "charged L a n h (charged L b k g m) = charged L (b + a) (k + n) h m"
  by (simp add: charged_def)

lemma count_escape_unit:
  assumes "sstate m = InText" "encoded m + 6 \<le> max_encoded L"
  shows "fits L (unit_bytes (high_surrogate m) w) m \<Longrightarrow>
      count_chunk L ([CHR 0x5C, CHR ''u''] @ hex4 w @ rest) m =
        count_chunk L rest (charged L 6 (unit_bytes (high_surrogate m) w) (is_high_surrogate w) m)"
    and "\<not> fits L (unit_bytes (high_surrogate m) w) m \<Longrightarrow>
      \<not> fst (count_chunk L ([CHR 0x5C, CHR ''u''] @ hex4 w @ rest) m)"
proof -
  let ?m = "m\<lparr>encoded := encoded m + 1, sstate := Escape\<rparr>"
  have s: "count_byte L CHR 0x5C m = (True, ?m)" using assms by (simp add: count_byte_def Let_def)
  have c: "count_chunk L ([CHR 0x5C, CHR ''u''] @ hex4 w @ rest) m = count_chunk L (CHR ''u'' # hex4 w @ rest) ?m"
    by (simp only: append_Cons append_Nil count_chunk_step(1) [OF s])
  have f: "fits L k ?m = fits L k m" for k by (simp add: fits_def)
  have e: "charged L 5 k h ?m = charged L 6 k h m" for k h by (simp add: charged_def)
  have u: "sstate ?m = Escape" "encoded ?m + 5 \<le> max_encoded L" "high_surrogate ?m = high_surrogate m" using assms by simp_all
  show "count_chunk L ([CHR 0x5C, CHR ''u''] @ hex4 w @ rest) m =
        count_chunk L rest (charged L 6 (unit_bytes (high_surrogate m) w) (is_high_surrogate w) m)"
    if "fits L (unit_bytes (high_surrogate m) w) m"
    using count_unit(1) [OF u(1,2), of w rest] that unfolding c f e u(3) by blast
  show "\<not> fst (count_chunk L ([CHR 0x5C, CHR ''u''] @ hex4 w @ rest) m)" if "\<not> fits L (unit_bytes (high_surrogate m) w) m"
    using count_unit(2) [OF u(1,2), of w rest] that unfolding c f u(3) by blast
qed

lemma count_piece:
  assumes "piece_ok p" "sstate m = InText" "encoded m + length (piece_text p) \<le> max_encoded L"
  shows "fits L (decoded_bytes p) m \<Longrightarrow> count_chunk L (piece_text p @ rest) m =
      count_chunk L rest (charged L (length (piece_text p)) (decoded_bytes p) False m)"
    and "\<not> fits L (decoded_bytes p) m \<Longrightarrow> \<not> fst (count_chunk L (piece_text p @ rest) m)"
proof -
  have len4: "length (hex4 w) = 4" for w by (simp add: hex4_def)
  have "(fits L (decoded_bytes p) m \<longrightarrow> count_chunk L (piece_text p @ rest) m =
      count_chunk L rest (charged L (length (piece_text p)) (decoded_bytes p) False m)) \<and>
    (\<not> fits L (decoded_bytes p) m \<longrightarrow> \<not> fst (count_chunk L (piece_text p @ rest) m))"
  proof (cases p)
    case (Raw c)
    then show ?thesis using assms
      by (auto simp: count_byte_def Let_def charge_def fits_def after_charge_def meter_reject_def charged_def
          intro!: arg_cong [where f = "count_chunk L rest"] meter.equality)
  next
    case (Short c)
    then show ?thesis using assms
      by (auto simp: count_byte_def Let_def charge_def fits_def after_charge_def meter_reject_def charged_def
          intro!: arg_cong [where f = "count_chunk L rest"] meter.equality)
  next
    case (Code w)
    have b: "unit_bytes (high_surrogate m) w = decoded_bytes p" "\<not> is_high_surrogate w" "encoded m + 6 \<le> max_encoded L"
      using unit_bytes_code [of w] assms(1,3) Code len4 by simp_all
    then show ?thesis using count_escape_unit [OF assms(2) b(3), of w rest] Code len4 by simp
  next
    case (Pair h l)
    note u = unit_bytes_pair [OF assms(1) [unfolded Pair]]
    have e: "encoded m + 6 \<le> max_encoded L" "encoded m + 12 \<le> max_encoded L" using assms(3) Pair len4 by simp_all
    have spelled: "piece_text p @ rest = [CHR 0x5C, CHR ''u''] @ hex4 h @ ([CHR 0x5C, CHR ''u''] @ hex4 l @ rest)" using Pair by simp
    have d: "decoded_bytes p = 4" "length (piece_text p) = 12" using Pair u(5) len4 by simp_all
    show ?thesis
    proof (cases "fits L 3 m")
      case True
      let ?m = "charged L 6 3 True m"
      have one: "count_chunk L (piece_text p @ rest) m = count_chunk L ([CHR 0x5C, CHR ''u''] @ hex4 l @ rest) ?m"
        unfolding spelled using count_escape_unit(1) [OF assms(2) e(1), of h] True u(1,3) by simp
      have m: "sstate ?m = InText" "encoded ?m + 6 \<le> max_encoded L" "high_surrogate ?m = True"
        using e by (simp_all add: charged_def)
      have f: "fits L 1 ?m = fits L 4 m" using fits_charged [OF True] by simp
      show ?thesis
        unfolding one d using count_escape_unit [OF m(1,2), of l rest] u(2,4) m(3) f by (simp add: charged_charged)
    next
      case False
      then have "\<not> fits L 4 m" by (auto simp: fits_def)
      then show ?thesis unfolding spelled d using count_escape_unit(2) [OF assms(2) e(1), of h] False u(1) by simp
    qed
  qed
  then show "fits L (decoded_bytes p) m \<Longrightarrow> count_chunk L (piece_text p @ rest) m =
      count_chunk L rest (charged L (length (piece_text p)) (decoded_bytes p) False m)"
    and "\<not> fits L (decoded_bytes p) m \<Longrightarrow> \<not> fst (count_chunk L (piece_text p @ rest) m)" by blast+
qed

lemma count_pieces:
  assumes "list_all piece_ok ps" "sstate m = InText" "encoded m + length (concat (map piece_text ps)) \<le> max_encoded L"
  shows "(fits L (sum_list (map decoded_bytes ps)) m \<longrightarrow> (\<exists>h. count_chunk L (concat (map piece_text ps) @ rest) m =
      count_chunk L rest (charged L (length (concat (map piece_text ps))) (sum_list (map decoded_bytes ps)) h m))) \<and>
    (\<not> fits L (sum_list (map decoded_bytes ps)) m \<longrightarrow> \<not> fst (count_chunk L (concat (map piece_text ps) @ rest) m))"
  using assms
proof (induction ps arbitrary: m)
  case Nil
  have "charged L 0 0 (high_surrogate m) m = m" using Nil by (simp add: charged_def)
  then show ?case by (auto simp: fits_def intro!: exI [of _ "high_surrogate m"])
next
  case (Cons p ps)
  have p: "piece_ok p" "encoded m + length (piece_text p) \<le> max_encoded L" using Cons.prems by simp_all
  let ?m = "charged L (length (piece_text p)) (decoded_bytes p) False m"
  show ?case
  proof (cases "fits L (decoded_bytes p) m")
    case True
    have m: "sstate ?m = InText" "encoded ?m + length (concat (map piece_text ps)) \<le> max_encoded L"
      using Cons.prems by (simp_all add: charged_def)
    have go: "count_chunk L (concat (map piece_text (p # ps)) @ rest) m = count_chunk L (concat (map piece_text ps) @ rest) ?m"
      using count_piece(1) [OF p(1) Cons.prems(2) p(2) True] by simp
    show ?thesis unfolding go using Cons.IH [OF _ m] Cons.prems(1) fits_charged [OF True]
      by (simp add: charged_charged)
  next
    case False
    then have "\<not> fits L (sum_list (map decoded_bytes (p # ps))) m" by (auto simp: fits_def)
    then show ?thesis using count_piece(2) [OF p(1) Cons.prems(2) p(2) False] by simp
  qed
qed

text \<open>
  C38: a literal is charged what it decodes to.  A JSON string literal, in any mix of raw bytes, short escapes,
  \<open>\u\<close> escapes and surrogate pairs, is charged exactly the bytes of the UTF-8 text it
  stands for, and is let through exactly when that text fits both string limits.
\<close>

theorem literal_charged_decoded_bytes:
  assumes "list_all piece_ok ps" "sstate m = Outside"
    and "encoded m + length (concat (map piece_text ps)) + 2 \<le> max_encoded L"
  shows "(fst (count_chunk L ([CHR 0x22] @ concat (map piece_text ps) @ [CHR 0x22]) m) \<longleftrightarrow>
      sum_list (map decoded_bytes ps) \<le> max_string L \<and> sum_list (map decoded_bytes ps) \<le> max_strings L - strings m) \<and>
    (fst (count_chunk L ([CHR 0x22] @ concat (map piece_text ps) @ [CHR 0x22]) m) \<longrightarrow>
      strings (snd (count_chunk L ([CHR 0x22] @ concat (map piece_text ps) @ [CHR 0x22]) m)) =
        strings m + sum_list (map decoded_bytes ps) \<and>
      sstate (snd (count_chunk L ([CHR 0x22] @ concat (map piece_text ps) @ [CHR 0x22]) m)) = Outside)"
proof -
  let ?m = "m\<lparr>encoded := encoded m + 1, this_string := 0, high_surrogate := False, sstate := InText\<rparr>"
  have s: "count_byte L CHR 0x22 m = (True, ?m)" using assms by (simp add: count_byte_def Let_def)
  have go: "count_chunk L ([CHR 0x22] @ concat (map piece_text ps) @ [CHR 0x22]) m =
      count_chunk L (concat (map piece_text ps) @ [CHR 0x22]) ?m"
    by (simp only: append_Cons append_Nil count_chunk_step(1) [OF s])
  have m: "sstate ?m = InText" "encoded ?m + length (concat (map piece_text ps)) \<le> max_encoded L" using assms(3) by simp_all
  have f: "fits L n ?m \<longleftrightarrow> n \<le> max_string L \<and> n \<le> max_strings L - strings m" for n by (simp add: fits_def)
  have quote: "count_byte L CHR 0x22 (charged L (length (concat (map piece_text ps))) n h ?m) =
      (True, (charged L (length (concat (map piece_text ps))) n h ?m)\<lparr>encoded := encoded m + length (concat (map piece_text ps)) + 2, sstate := Outside\<rparr>)" for n h
    using assms(3) by (simp add: count_byte_def Let_def charged_def)
  have last: "fst (count_chunk L [CHR 0x22] (charged L (length (concat (map piece_text ps))) n h ?m))"
    "strings (snd (count_chunk L [CHR 0x22] (charged L (length (concat (map piece_text ps))) n h ?m))) = strings m + n"
    "sstate (snd (count_chunk L [CHR 0x22] (charged L (length (concat (map piece_text ps))) n h ?m))) = Outside" for n h
    unfolding count_chunk_step(1) [OF quote] by (simp_all add: charged_def)
  show ?thesis
    unfolding go using count_pieces [OF assms(1) m, of "[CHR 0x22]"] last f by fastforce
qed

theorem literal_charged_decoded_bytes_witness:
  "strings (snd (count_chunk (limits_for_command ''copy'')
      ([CHR 0x22] @ concat (map piece_text [Raw CHR ''a'', Short CHR ''n'', Code 0xe9, Pair 0xd83d 0xde00]) @ [CHR 0x22]) new_meter)) = 8"
proof -
  let ?ps = "[Raw CHR ''a'', Short CHR ''n'', Code 0xe9, Pair 0xd83d 0xde00]"
  have ok: "list_all piece_ok ?ps" by simp
  have sum: "sum_list (map decoded_bytes ?ps) = 8" by (simp add: utf8_length_def)
  have len: "length (concat (map piece_text ?ps)) = 21" by (simp add: hex4_def)
  show ?thesis
    using literal_charged_decoded_bytes [OF ok, of new_meter "limits_for_command ''copy''"] sum len
    by (simp add: new_meter_def limits_for_command_def TEXT_def MIB_def)
qed

section \<open>The value meter\<close>

text \<open>Depth and width of a value at a depth, and the values it is made of.\<close>

fun within_limits :: "limits \<Rightarrow> nat \<Rightarrow> ('n, 'v) json_value \<Rightarrow> bool" where
  "within_limits L d (JArray vs) \<longleftrightarrow> d \<le> max_depth L \<and> length vs \<le> max_width L \<and> (\<forall>v \<in> set vs. within_limits L (Suc d) v)"
| "within_limits L d (JObject ms) \<longleftrightarrow> d \<le> max_depth L \<and> length ms \<le> max_width L \<and> (\<forall>p \<in> set ms. within_limits L (Suc d) (snd p))"
| "within_limits L d _ \<longleftrightarrow> d \<le> max_depth L"

fun value_nodes :: "('n, 'v) json_value \<Rightarrow> nat" where
  "value_nodes (JArray vs) = 1 + sum_list (map value_nodes vs)"
| "value_nodes (JObject ms) = 1 + sum_list (map (\<lambda>p. value_nodes (snd p)) ms)"
| "value_nodes _ = 1"

lemma bt_insert_sum: "sum_list (map (\<lambda>p. f (snd p)) (bt_insert k v m)) \<le> f v + sum_list (map (\<lambda>p. f (snd p)) m)" for f :: "'v \<Rightarrow> nat"
  by (induction m) auto

lemma bt_insert_length: "length (bt_insert k v m) \<le> Suc (length m)"
  by (induction m) auto

lemma bt_insert_snd: "p \<in> set (bt_insert k v m) \<Longrightarrow> snd p = v \<or> (\<exists>q \<in> set m. snd q = snd p)"
  by (induction m) (auto split: if_splits)

definition built :: "limits \<Rightarrow> tree \<Rightarrow> tree \<Rightarrow> nat \<Rightarrow> bool" where
  "built L t t' n \<longleftrightarrow> nodes t \<le> max_nodes L \<longrightarrow> nodes t' \<le> max_nodes L \<and> nodes t + n \<le> nodes t'"

lemma built_trans: "built L t t' m \<Longrightarrow> built L t' t'' n \<Longrightarrow> built L t t'' (m + n)"
  by (auto simp: built_def)

lemma visit_within:
  fixes p :: "'n presented" and ps :: "'n presented list" and ms :: "('n presented \<times> 'n presented) list"
  shows "visit L d a p t = (Inr v, t') \<Longrightarrow> a \<and> within_limits L d v \<and> built L t t' (value_nodes v)"
    and "visit_seq L d n ps t = (Inr vs, t') \<Longrightarrow> (n \<le> max_width L \<longrightarrow> n + length vs \<le> max_width L) \<and>
      (\<forall>v \<in> set vs. within_limits L (Suc d) v) \<and> built L t t' (sum_list (map value_nodes vs))"
    and "visit_map L d n acc ms t = (Inr r, t') \<Longrightarrow> length acc \<le> n \<Longrightarrow> n \<le> max_width L \<Longrightarrow>
      (\<forall>p \<in> set acc. within_limits L (Suc d) (snd p)) \<Longrightarrow>
      length r \<le> max_width L \<and> (\<forall>p \<in> set r. within_limits L (Suc d) (snd p)) \<and>
      (nodes t \<le> max_nodes L \<longrightarrow> nodes t' \<le> max_nodes L \<and> nodes t + sum_list (map (\<lambda>p. value_nodes (snd p)) r)
        \<le> nodes t' + sum_list (map (\<lambda>p. value_nodes (snd p)) acc))"
proof (induction L d a p t and L d n ps t and L d n acc ms t arbitrary: v t' and vs t' and r t' rule: visit_visit_seq_visit_map.induct)
  case (1 L depth allowed p t)
  let ?t = "t\<lparr>nodes := nodes t + 1\<rparr>"
  have a: allowed "nodes t \<noteq> max_nodes L" "depth \<le> max_depth L"
    using "1.prems" by (auto simp: tree_reject_def split: if_splits)
  then have \<section>: "\<not> \<not> allowed" "nodes t \<noteq> max_nodes L" "\<not> depth > max_depth L" by simp_all
  show ?case
  proof (cases p)
    case (P_seq ps)
    then obtain vs where s: "visit_seq L depth 0 ps ?t = (Inr vs, t')" "v = JArray vs"
      using "1.prems" a by (auto simp: Let_def split: prod.splits sum.splits)
    have "(0 \<le> max_width L \<longrightarrow> 0 + length vs \<le> max_width L) \<and> (\<forall>v\<in>set vs. within_limits L (Suc depth) v) \<and>
        built L ?t t' (sum_list (map value_nodes vs))"
      by (rule "1.IH"(1) [OF \<section> refl P_seq s(1)])
    then show ?thesis using a s(2) by (auto simp: built_def)
  next
    case (P_map ms)
    then obtain r where s: "visit_map L depth 0 [] ms ?t = (Inr r, t')" "v = JObject r"
      using "1.prems" a by (auto simp: Let_def split: prod.splits sum.splits)
    have "length r \<le> max_width L \<and> (\<forall>p\<in>set r. within_limits L (Suc depth) (snd p)) \<and>
      (nodes ?t \<le> max_nodes L \<longrightarrow> nodes t' \<le> max_nodes L \<and> nodes ?t + sum_list (map (\<lambda>p. value_nodes (snd p)) r)
        \<le> nodes t' + sum_list (map (\<lambda>p. value_nodes (snd p)) []))"
      using "1.IH"(2) [OF \<section> refl P_map s(1)] by simp
    then show ?thesis using a s(2) by (auto simp: built_def)
  qed (use "1.prems" a in \<open>auto simp: built_def Let_def split: option.splits\<close>)
next
  case (2 L depth n t)
  then show ?case by (simp add: built_def)
next
  case (3 L depth n p ps t)
  obtain v t1 where v: "visit L (depth + 1) (n < max_width L) p t = (Inr v, t1)"
    using "3.prems" by (auto split: prod.splits sum.splits)
  obtain ws where w: "visit_seq L depth (n + 1) ps t1 = (Inr ws, t')" "vs = v # ws"
    using "3.prems" v by (auto split: prod.splits sum.splits)
  note h = "3.IH"(1) [OF v]
  note r = "3.IH"(2) [OF v [symmetric] refl w(1)]
  show ?case using h r w(2) built_trans [of L t t1 "value_nodes v" t' "sum_list (map value_nodes ws)"] by auto
next
  case (4 L depth n acc t)
  then show ?case by auto
next
  case (5 L depth n acc k p ms t)
  obtain s t1 where k: "visit L (depth + 1) (n < max_width L) k t = (Inr (JString s), t1)"
    using "5.prems"(1) by (auto split: prod.splits sum.splits json_value.splits)
  obtain v t2 where v: "visit L (depth + 1) True p t1 = (Inr v, t2)"
    using "5.prems"(1) k by (auto split: prod.splits sum.splits)
  have rest: "visit_map L depth (n + 1) (bt_insert s v acc) ms t2 = (Inr r, t')"
    using "5.prems"(1) k v by simp
  note hk = "5.IH"(1) [OF k]
  note hv = "5.IH"(2) [OF k [symmetric] refl refl v]
  have acc: "length (bt_insert s v acc) \<le> n + 1" using bt_insert_length [of s v acc] "5.prems"(2) by simp
  have width: "n + 1 \<le> max_width L" using hk by simp
  have ok: "\<forall>q \<in> set (bt_insert s v acc). within_limits L (Suc depth) (snd q)"
    using hv "5.prems"(4) bt_insert_snd [of _ s v acc] by fastforce
  note h = "5.IH"(3) [OF k [symmetric] refl refl v [symmetric] refl rest acc width ok]
  show ?case using h hk hv bt_insert_sum [of value_nodes s v acc] by (auto simp: built_def)
qed

text \<open>
  C40: an accepted value is within the limits.  Whatever document the parser presents, a value that is built has no
  container wider than the width limit, nothing deeper than the depth limit, and no more values
  than were counted, which the node limit bounds.
\<close>

theorem accepted_value_within_limits:
  assumes "visit L 0 True p \<lparr>nodes = 0, tree_violation = None\<rparr> = (Inr v, t)"
  shows "within_limits L 0 v \<and> value_nodes v \<le> nodes t \<and> nodes t \<le> max_nodes L"
  using visit_within(1) [OF assms] by (auto simp: built_def)

theorem accepted_value_within_limits_witness:
  "within_limits (limits_for_command ''copy'') 0 (JArray [JNull, JObject [(''a'', JNumber (1::nat))]] :: (nat, unit) json_value)"
proof -
  have "visit (limits_for_command ''copy'') 0 True (P_seq [P_unit, P_map [(P_str ''a'', P_int (1::nat))]]) \<lparr>nodes = 0, tree_violation = None\<rparr> =
    (Inr (JArray [JNull, JObject [(''a'', JNumber 1)]]), \<lparr>nodes = 5, tree_violation = None\<rparr>)"
    by (simp add: limits_for_command_def Let_def)
  then show ?thesis using accepted_value_within_limits by blast
qed

end
