(* ===== verification/RoadBook.thy ===== *)
theory RoadBook
  imports StateWords RustBase "HOL-Library.Word"
begin

text \<open>
  \<open>crates/node/src/roadbook.rs\<close>: what a machine writes about its own roads.  A beat reads
  the road to every other machine; the book decides which readings are due to be written, and
  \<open>note_roads\<close> writes them.  Instants and durations are milliseconds, and
  \<open>duration_since\<close> saturates at zero.  The hash maps are never iterated and are maps.
\<close>

section \<open>Roads (\<open>crates/core/src/lib.rs\<close>)\<close>

datatype road_kind = Direct | Relay | NoRoad | Ssh

datatype leg_kind = ToSponsor | ToJump | JumpToTarget | LegSsh | Auth

record leg =
  leg_from :: "string option"
  leg_to :: "string option"
  leg_is :: leg_kind
  leg_said :: "string option"

record road =
  r_to :: string
  r_road :: road_kind
  r_relay :: "string option"
  r_ms :: "16 word option"
  r_via :: "string option"
  r_broken :: "leg option"

definition road_own :: "string \<Rightarrow> road_kind \<Rightarrow> string option \<Rightarrow> 16 word option \<Rightarrow> road" where
  "road_own to k relay ms =
     \<lparr>r_to = to, r_road = k, r_relay = relay, r_ms = ms, r_via = None, r_broken = None\<rparr>"

section \<open>The book\<close>

definition SETTLE :: nat where "SETTLE = 12000"
definition MS_FLOOR :: nat where "MS_FLOOR = 10 * 60 * 1000"
definition MS_LEAST :: "16 word" where "MS_LEAST = 5"
definition FIRST_NONE :: nat where "FIRST_NONE = 120000"

record seen =
  s_road :: road_kind
  s_relay :: "string option"
  s_ms :: "16 word option"
  s_broken :: "leg option"
  s_via :: "string option"

record kept_road =
  w_road :: road_kind
  w_relay :: "string option"
  w_ms :: "16 word option"
  w_broken :: "leg option"
  w_via :: "string option"
  w_at :: nat

text \<open>What a change that settles is compared by, and since when it has held.\<close>

type_synonym way = "road_kind \<times> string option \<times> leg option \<times> string option"

datatype broken = BrokenToJump | BrokenJumpToTarget | PasswordOnly

record roadbook =
  book_written :: "string \<rightharpoonup> kept_road"
  book_waiting :: "string \<rightharpoonup> way \<times> nat"
  book_started :: bool
  sat_broken :: "string \<rightharpoonup> broken option \<times> string option"

definition new_book :: roadbook where
  "new_book = \<lparr>book_written = Map.empty, book_waiting = Map.empty, book_started = False,
     sat_broken = Map.empty\<rparr>"

definition held_row :: "nat \<Rightarrow> road \<Rightarrow> kept_road" where
  "held_row now r = \<lparr>w_road = r_road r, w_relay = r_relay r, w_ms = r_ms r, w_broken = r_broken r,
     w_via = r_via r, w_at = now\<rparr>"

definition start_from :: "road list \<Rightarrow> nat \<Rightarrow> roadbook \<Rightarrow> roadbook" where
  "start_from held now b =
     (if book_started b then b
      else b\<lparr>book_started := True,
             book_written := foldl (\<lambda>m r. m(r_to r \<mapsto> held_row now r)) (book_written b) held\<rparr>)"

definition way_of :: "seen \<Rightarrow> way" where
  "way_of seen = (s_road seen, s_relay seen, s_broken seen, s_via seen)"

text \<open>Whether the kind of \<open>seen\<close> has held for \<open>hold\<close>; a new kind starts waiting.\<close>

definition settle_road :: "string \<Rightarrow> seen \<Rightarrow> nat \<Rightarrow> nat \<Rightarrow> roadbook \<Rightarrow> bool \<times> roadbook" where
  "settle_road to seen now hold b =
     (case book_waiting b to of
        Some (way, since) \<Rightarrow>
          if way = way_of seen then (now - since \<ge> hold, b)
          else (False, b\<lparr>book_waiting := (book_waiting b)(to \<mapsto> (way_of seen, now))\<rparr>)
      | None \<Rightarrow> (False, b\<lparr>book_waiting := (book_waiting b)(to \<mapsto> (way_of seen, now))\<rparr>))"

definition written_row :: "seen \<Rightarrow> nat \<Rightarrow> kept_road" where
  "written_row seen now = \<lparr>w_road = s_road seen, w_relay = s_relay seen, w_ms = s_ms seen,
     w_broken = s_broken seen, w_via = s_via seen, w_at = now\<rparr>"

definition wrote :: "string \<Rightarrow> seen \<Rightarrow> nat \<Rightarrow> roadbook \<Rightarrow> roadbook" where
  "wrote to seen now b = b\<lparr>book_waiting := (book_waiting b)(to := None),
     book_written := (book_written b)(to \<mapsto> written_row seen now)\<rparr>"

definition road_of_seen :: "string \<Rightarrow> seen \<Rightarrow> road" where
  "road_of_seen to seen =
     (road_own to (s_road seen) (s_relay seen) (s_ms seen))\<lparr>r_broken := s_broken seen, r_via := s_via seen\<rparr>"

definition abs_diff :: "16 word \<Rightarrow> 16 word \<Rightarrow> 16 word" where
  "abs_diff a b = (if a < b then b - a else a - b)"

text \<open>\<open>moved\<close>: by more than a quarter and at least \<open>MS_LEAST\<close>; the product is at 32 bits.\<close>

definition ms_moved :: "16 word option \<Rightarrow> 16 word option \<Rightarrow> bool" where
  "ms_moved had got =
     (case (had, got) of
        (Some was, Some now_ms) \<Rightarrow>
          (let by' = abs_diff was now_ms in
           (ucast was :: 32 word) < ucast by' * 4 \<and> MS_LEAST \<le> by')
      | (None, Some _) \<Rightarrow> True
      | _ \<Rightarrow> False)"

definition then_wrote :: "string \<Rightarrow> seen \<Rightarrow> nat \<Rightarrow> bool \<times> roadbook \<Rightarrow> road option \<times> roadbook" where
  "then_wrote to seen now r =
     (case r of (ok, b) \<Rightarrow> if ok then (Some (road_of_seen to seen), wrote to seen now b) else (None, b))"

definition note_road :: "string \<Rightarrow> seen \<Rightarrow> nat \<Rightarrow> roadbook \<Rightarrow> road option \<times> roadbook" where
  "note_road to seen now b =
     (case book_written b to of
        None \<Rightarrow>
          (let hold = (if s_road seen = NoRoad then FIRST_NONE else SETTLE) in
           then_wrote to seen now (settle_road to seen now hold b))
      | Some w \<Rightarrow>
          if w_road w \<noteq> s_road seen \<or> w_relay w \<noteq> s_relay seen \<or> w_broken w \<noteq> s_broken seen \<or> w_via w \<noteq> s_via seen
          then then_wrote to seen now (settle_road to seen now SETTLE b)
          else
            let b' = b\<lparr>book_waiting := (book_waiting b)(to := None)\<rparr> in
            if ms_moved (w_ms w) (s_ms seen) \<and> now - w_at w \<ge> MS_FLOOR
            then (Some (road_of_seen to seen), wrote to seen now b')
            else (None, b'))"

definition sampled :: "string \<Rightarrow> (broken option \<times> string option) option \<Rightarrow> roadbook \<Rightarrow> roadbook" where
  "sampled sat failed b = b\<lparr>sat_broken := (sat_broken b)(sat := failed)\<rparr>"

definition idle_road :: "string \<Rightarrow> roadbook \<Rightarrow> roadbook" where
  "idle_road to b = b\<lparr>book_waiting := (book_waiting b)(to := None)\<rparr>"

section \<open>One beat\<close>

text \<open>What the beat reads: the device table, the wires, the carriers and the satellites' samples.\<close>

datatype path_kind = PathDirect | PathRelay | PathCarried | PathUnknown

datatype carrier = CarrierSsh | CarrierHop string

record reading =
  link_road :: "path_kind option"
  link_relay :: "string option"
  link_rtt_us :: "nat option"
  link_down :: bool

record device =
  d_id :: string
  d_sponsor :: "string option"
  d_carrier :: "string option"
  d_roads :: "(string \<times> string) list"

record road_world =
  me :: string
  devices :: "device list"
  link :: "string \<Rightarrow> reading"
  last_carrier :: "string \<Rightarrow> carrier option"
  vitals_age :: "string \<Rightarrow> nat option"
  from_json :: "string \<Rightarrow> string \<Rightarrow> road option"

definition SAMPLE_EVERY :: nat where "SAMPLE_EVERY = 60000"
definition SAT_FRESH :: nat where "SAT_FRESH = SAMPLE_EVERY * 5 div 2"

definition roads_in :: "road_world \<Rightarrow> device \<Rightarrow> road list" where
  "roads_in W d = List.map_filter (\<lambda>(to, json). from_json W to json) (d_roads d)"

definition carried_hop :: "road_world \<Rightarrow> string \<Rightarrow> hop" where
  "carried_hop W i = (case last_carrier W i of Some (CarrierHop v) \<Rightarrow> HopForwarded | _ \<Rightarrow> HopSsh)"

definition satellite_leg :: "string \<Rightarrow> string \<Rightarrow> broken option \<Rightarrow> string option \<Rightarrow> leg" where
  "satellite_leg self sat broke said =
     (case broke of
        Some BrokenToJump \<Rightarrow> \<lparr>leg_from = Some self, leg_to = None, leg_is = ToJump, leg_said = said\<rparr>
      | Some BrokenJumpToTarget \<Rightarrow> \<lparr>leg_from = None, leg_to = Some sat, leg_is = JumpToTarget, leg_said = said\<rparr>
      | Some PasswordOnly \<Rightarrow> \<lparr>leg_from = Some self, leg_to = Some sat, leg_is = Auth, leg_said = said\<rparr>
      | None \<Rightarrow> \<lparr>leg_from = Some self, leg_to = Some sat, leg_is = LegSsh, leg_said = said\<rparr>)"

definition satellite_road_in :: "road_world \<Rightarrow> roadbook \<Rightarrow> string \<Rightarrow> road option" where
  "satellite_road_in W b sat =
     (case vitals_age W sat of
        None \<Rightarrow> None
      | Some age \<Rightarrow>
          if age < SAT_FRESH then Some (road_own sat Ssh None None)
          else
            let (broke, said) = (case sat_broken b sat of None \<Rightarrow> (None, None) | Some p \<Rightarrow> p) in
            Some ((road_own sat NoRoad None None)\<lparr>r_broken := Some (satellite_leg (me W) sat broke said)\<rparr>))"

definition note_due :: "string \<Rightarrow> seen \<Rightarrow> nat \<Rightarrow> road list \<times> roadbook \<Rightarrow> road list \<times> roadbook" where
  "note_due to seen now st =
     (case st of (due, b) \<Rightarrow>
        case note_road to seen now b of
          (Some w, b') \<Rightarrow> (due @ [w], b')
        | (None, b') \<Rightarrow> (due, b'))"

definition note_satellite :: "road_world \<Rightarrow> nat \<Rightarrow> road list \<times> roadbook \<Rightarrow> device \<Rightarrow> road list \<times> roadbook" where
  "note_satellite W now st d =
     (case st of (due, b) \<Rightarrow>
        case satellite_road_in W b (d_id d) of
          Some r \<Rightarrow>
            note_due (d_id d) \<lparr>s_road = r_road r, s_relay = None, s_ms = None, s_broken = r_broken r,
              s_via = None\<rparr> now (due, b)
        | None \<Rightarrow> (due, idle_road (d_id d) b))"

text \<open>Through a middle the road is the first leg's, with \<open>via\<close>.\<close>

definition first_leg :: "road_world \<Rightarrow> string \<Rightarrow> reading \<times> string option" where
  "first_leg W i =
     (let r = link W i in
      case last_carrier W i of
        Some (CarrierHop via) \<Rightarrow>
          if link_road r = Some PathCarried then
            let first = link W via in
            (r\<lparr>link_road := (if link_road first = Some PathCarried then None else link_road first),
               link_relay := link_relay first\<rparr>, Some via)
          else (r, None)
      | _ \<Rightarrow> (r, None))"

definition wire_road :: "road_world \<Rightarrow> string \<Rightarrow> reading \<Rightarrow> road_kind option" where
  "wire_road W i r =
     (if link_road r = Some PathDirect then Some Direct
      else if link_road r = Some PathRelay then Some Relay
      else if link_road r = Some PathCarried \<and> carried_hop W i = HopSsh then Some Ssh
      else if link_down r then Some NoRoad
      else None)"

definition whole_ms :: "nat \<Rightarrow> 16 word" where
  "whole_ms us = of_nat (min ((us + 999) div 1000) u16_max)"

definition note_wire :: "road_world \<Rightarrow> nat \<Rightarrow> road list \<times> roadbook \<Rightarrow> device \<Rightarrow> road list \<times> roadbook" where
  "note_wire W now st d =
     (let (r, via) = first_leg W (d_id d) in
      case wire_road W (d_id d) r of
        None \<Rightarrow> (case st of (due, b) \<Rightarrow> (due, idle_road (d_id d) b))
      | Some k \<Rightarrow>
          note_due (d_id d) \<lparr>s_road = k, s_relay = (if k = Relay then link_relay r else None),
            s_ms = (if k = NoRoad then None else map_option whole_ms (link_rtt_us r)),
            s_broken = None, s_via = via\<rparr> now st)"

text \<open>The reading half of \<open>note_roads\<close>: the rows due, and the book after the beat.\<close>

definition beat_roads :: "road_world \<Rightarrow> nat \<Rightarrow> roadbook \<Rightarrow> road list \<times> roadbook" where
  "beat_roads W now b =
     (let b1 = (case List.find (\<lambda>d. d_id d = me W) (devices W) of
                  Some mine \<Rightarrow> start_from (roads_in W mine) now b | None \<Rightarrow> b);
          sats = filter (\<lambda>d. d_sponsor d = Some (me W)) (devices W);
          others = filter (\<lambda>d. d_id d \<noteq> me W \<and> d_sponsor d = None) (devices W) in
      foldl (note_wire W now) (foldl (note_satellite W now) ([], b1) sats) others)"

text \<open>
  The writing half: every row due goes to the table by \<open>set_road\<close>, which writes only a
  register that changes.  The table (a CRDT map), its serialiser and its disk are parameters.
\<close>

definition set_road ::
    "('doc \<Rightarrow> string \<Rightarrow> string option) \<Rightarrow> ('doc \<Rightarrow> string \<Rightarrow> string \<Rightarrow> 'doc option) \<Rightarrow>
     string \<Rightarrow> string \<Rightarrow> 'doc \<Rightarrow> bool option \<times> 'doc" where
  "set_road get ins to json doc =
     (if get doc to = Some json then (Some False, doc)
      else case ins doc to json of None \<Rightarrow> (None, doc) | Some doc' \<Rightarrow> (Some True, doc'))"

definition write_due ::
    "('doc \<Rightarrow> string \<Rightarrow> string option) \<Rightarrow> ('doc \<Rightarrow> string \<Rightarrow> string \<Rightarrow> 'doc option) \<Rightarrow>
     (road \<Rightarrow> string) \<Rightarrow> road list \<Rightarrow> 'doc \<Rightarrow> nat \<times> 'doc" where
  "write_due get ins to_json due doc =
     foldl (\<lambda>(n, doc) w. case set_road get ins (r_to w) (to_json w) doc of
              (ok, doc') \<Rightarrow> (if ok = Some True then n + 1 else n, doc')) (0, doc) due"

section \<open>Roads through a machine in the middle\<close>

definition in_the_middle :: "device \<Rightarrow> string option" where
  "in_the_middle d =
     (case d_sponsor d of Some s \<Rightarrow> Some s
      | None \<Rightarrow> (case d_carrier d of Some c \<Rightarrow> if c \<noteq> d_id d then Some c else None | None \<Rightarrow> None))"

definition broken_road :: "string \<Rightarrow> string \<Rightarrow> leg \<Rightarrow> road" where
  "broken_road s p l = (road_own s NoRoad None None)\<lparr>r_via := Some p, r_broken := Some l\<rparr>"

definition road_through :: "string \<Rightarrow> string \<Rightarrow> string \<Rightarrow> road option \<Rightarrow> road option \<Rightarrow> road option" where
  "road_through x s p first second =
     (case (first, second) of
        (Some f, sec) \<Rightarrow>
          if r_road f = NoRoad then
            Some (broken_road s p \<lparr>leg_from = Some x, leg_to = Some p, leg_is = ToSponsor, leg_said = None\<rparr>)
          else (case sec of
              None \<Rightarrow> None
            | Some r \<Rightarrow>
                if r_road r = NoRoad then
                  Some (broken_road s p (case r_broken r of Some l \<Rightarrow> l
                    | None \<Rightarrow> \<lparr>leg_from = Some p, leg_to = Some s, leg_is = LegSsh, leg_said = None\<rparr>))
                else if r_road r = Ssh then Some (f\<lparr>r_to := s, r_via := Some p\<rparr>)
                else None)
      | (None, Some r) \<Rightarrow>
          if r_road r = NoRoad then
            Some (broken_road s p (case r_broken r of Some l \<Rightarrow> l
              | None \<Rightarrow> \<lparr>leg_from = Some p, leg_to = Some s, leg_is = LegSsh, leg_said = None\<rparr>))
          else None
      | (None, None) \<Rightarrow> None)"

fun through_sponsors ::
    "string \<Rightarrow> (string \<Rightarrow> string \<Rightarrow> road option) \<Rightarrow> road list \<Rightarrow> (string \<times> string) list \<Rightarrow> road list" where
  "through_sponsors x second roads [] = roads"
| "through_sponsors x second roads ((s, p) # sats) =
     (if p = x \<or> s = x \<or> list_ex (\<lambda>r. r_to r = s) roads then through_sponsors x second roads sats
      else case road_through x s p (List.find (\<lambda>r. r_to r = p) roads) (second p s) of
             None \<Rightarrow> through_sponsors x second roads sats
           | Some r \<Rightarrow> through_sponsors x second (roads @ [r]) sats)"

text \<open>\<open>with_satellite_roads\<close>, and \<open>own_roads\<close> from the live wires.\<close>

definition with_satellite_roads :: "road_world \<Rightarrow> roadbook \<Rightarrow> string \<Rightarrow> road list \<Rightarrow> road list" where
  "with_satellite_roads W b x x_roads =
     through_sponsors x
       (\<lambda>middle s.
          if middle = me W \<and> list_ex (\<lambda>d. d_id d = s \<and> d_sponsor d \<noteq> None) (devices W)
          then satellite_road_in W b s
          else case List.find (\<lambda>d. d_id d = middle) (devices W) of
                 None \<Rightarrow> None
               | Some d \<Rightarrow> List.find (\<lambda>r. r_to r = s) (roads_in W d))
       x_roads
       (List.map_filter (\<lambda>d. map_option (\<lambda>m. (d_id d, m)) (in_the_middle d)) (devices W))"

definition my_satellite_roads :: "road_world \<Rightarrow> roadbook \<Rightarrow> road list" where
  "my_satellite_roads W b =
     List.map_filter (\<lambda>d. satellite_road_in W b (d_id d))
       (filter (\<lambda>d. d_sponsor d = Some (me W)) (devices W))"

record face_link =
  fl_hop :: hop
  fl_rtt :: "nat option"
  fl_relay :: "string option"
  fl_down :: "nat option"
  fl_via :: "string option"

definition own_way :: "(string \<times> face_link) list \<Rightarrow> face_link \<Rightarrow> (hop \<times> string option \<times> string option) option" where
  "own_way links l =
     (case (fl_hop l, fl_via l) of
        (HopForwarded, Some v) \<Rightarrow>
          map_option (\<lambda>(_, first). (fl_hop first, fl_relay first, Some v))
            (List.find (\<lambda>(i, _). i = v) links)
      | _ \<Rightarrow> Some (fl_hop l, fl_relay l, None))"

definition own_road :: "(string \<times> face_link) list \<Rightarrow> string \<times> face_link \<Rightarrow> road option" where
  "own_road links at =
     (case at of (to, l) \<Rightarrow>
        Option.bind (own_way links l) (\<lambda>(h, relay, via).
        Option.bind
          (if h = HopDirect then Some Direct
           else if h = HopRelay then Some Relay
           else if h = HopSsh \<and> via = None then Some Ssh
           else if fl_down l \<noteq> None then Some NoRoad
           else None) (\<lambda>k.
          let ms = map_option (\<lambda>m. of_nat (min m u16_max)) (fl_rtt l) in
          Some ((road_own to k (if k = Relay then relay else None) (if k = NoRoad then None else ms))
            \<lparr>r_via := via\<rparr>))))"

definition own_roads :: "(string \<times> face_link) list \<Rightarrow> road list" where
  "own_roads links = List.map_filter (own_road links) links"

end
