(* ===== verification/RoadFacts.thy ===== *)
theory RoadFacts
  imports RoadBook "HOL-Library.Sublist"
begin

text \<open>
  What the road book promises about the rows it writes: every write is justified against
  the row it replaces (a change of kind after the settling time, a round trip that moved after
  the floor), a change is written only after it was read steadily, a road read steadily is
  written, and the roads added through a machine in the middle disturb no road of one's own.
\<close>

section \<open>Runs of the book\<close>

datatype book_op = Start "road list" | Note string seen | Idle string
  | Sampled string "(broken option \<times> string option) option"

fun book_step :: "roadbook \<Rightarrow> book_op \<times> nat \<Rightarrow> road option \<times> roadbook" where
  "book_step b (Start held, now) = (None, start_from held now b)"
| "book_step b (Note to seen, now) = note_road to seen now b"
| "book_step b (Idle to, now) = (None, idle_road to b)"
| "book_step b (Sampled sat failed, now) = (None, sampled sat failed b)"

text \<open>The writes of a run with their times, and the book after it.\<close>

fun book_writes :: "roadbook \<Rightarrow> (book_op \<times> nat) list \<Rightarrow> (nat \<times> road) list" where
  "book_writes b [] = []"
| "book_writes b (op # ops) =
     (case book_step b op of
        (None, b') \<Rightarrow> book_writes b' ops
      | (Some r, b') \<Rightarrow> (snd op, r) # book_writes b' ops)"

definition book_after :: "roadbook \<Rightarrow> (book_op \<times> nat) list \<Rightarrow> roadbook" where
  "book_after b ops = run_inputs (\<lambda>b op. snd (book_step b op)) b ops"

lemma book_after_simps [simp]:
  "book_after b [] = b" "book_after b (op # ops) = book_after (snd (book_step b op)) ops"
  by (simp_all add: book_after_def)

lemma book_after_append [simp]: "book_after b (ops @ ops') = book_after (book_after b ops) ops'"
  by (simp add: book_after_def run_inputs_append)

section \<open>What a step does to one machine\<close>

definition row_way :: "kept_road \<Rightarrow> way" where
  "row_way w = (w_road w, w_relay w, w_broken w, w_via w)"

definition road_way :: "road \<Rightarrow> way" where
  "road_way r = (r_road r, r_relay r, r_broken r, r_via r)"

definition row_road :: "string \<Rightarrow> kept_road \<Rightarrow> road" where
  "row_road to w = \<lparr>r_to = to, r_road = w_road w, r_relay = w_relay w, r_ms = w_ms w, r_via = w_via w,
     r_broken = w_broken w\<rparr>"

lemma row_road_simps [simp]:
  "r_to (row_road to w) = to" "road_way (row_road to w) = row_way w" "r_ms (row_road to w) = w_ms w"
  by (simp_all add: row_road_def road_way_def row_way_def)

lemma row_road_written [simp]: "row_road to (written_row seen now) = road_of_seen to seen"
  by (simp add: row_road_def written_row_def road_of_seen_def road_own_def)

lemma road_of_seen_simps [simp]:
  "r_to (road_of_seen to seen) = to" "road_way (road_of_seen to seen) = way_of seen"
  "r_ms (road_of_seen to seen) = s_ms seen"
  by (simp_all add: road_of_seen_def road_own_def road_way_def way_of_def)

lemma written_row_simps [simp]:
  "w_at (written_row seen now) = now" "row_way (written_row seen now) = way_of seen"
  "w_ms (written_row seen now) = s_ms seen"
  by (simp_all add: written_row_def row_way_def way_of_def)

lemma held_row_simps [simp]: "w_at (held_row now r) = now" "row_road (r_to r) (held_row now r) = r"
  by (simp_all add: held_row_def row_road_def)

lemma row_differs:
  "(w_road w \<noteq> s_road s \<or> w_relay w \<noteq> s_relay s \<or> w_broken w \<noteq> s_broken s \<or> w_via w \<noteq> s_via s)
     \<longleftrightarrow> row_way w \<noteq> way_of s"
  by (auto simp: row_way_def way_of_def)

lemma note_road_alt:
  "note_road to seen now b =
     (case book_written b to of
        None \<Rightarrow> then_wrote to seen now (settle_road to seen now (if s_road seen = NoRoad then FIRST_NONE else SETTLE) b)
      | Some w \<Rightarrow>
          if row_way w \<noteq> way_of seen then then_wrote to seen now (settle_road to seen now SETTLE b)
          else if ms_moved (w_ms w) (s_ms seen) \<and> now - w_at w \<ge> MS_FLOOR
            then (Some (road_of_seen to seen), wrote to seen now (idle_road to b))
            else (None, idle_road to b))"
  by (simp only: note_road_def row_differs Let_def idle_road_def)

definition hold_for :: "roadbook \<Rightarrow> string \<Rightarrow> seen \<Rightarrow> nat" where
  "hold_for b to seen = (if book_written b to = None \<and> s_road seen = NoRoad then FIRST_NONE else SETTLE)"

lemma SETTLE_le: "SETTLE \<le> hold_for b to seen" "SETTLE \<le> MS_FLOOR"
  by (simp_all add: hold_for_def SETTLE_def FIRST_NONE_def MS_FLOOR_def)

lemma SETTLE_pos: "0 < SETTLE"
  by (simp add: SETTLE_def)

text \<open>The outcomes of \<open>note_road\<close>: a settled change, a moved round trip, waiting, nothing to do.\<close>

lemma note_road_cases:
  obtains (settled) since where "book_waiting b to = Some (way_of seen, since)"
      "hold_for b to seen \<le> now - since"
      "\<And>w. book_written b to = Some w \<Longrightarrow> row_way w \<noteq> way_of seen"
      "note_road to seen now b = (Some (road_of_seen to seen), wrote to seen now b)"
  | (moved) w where "book_written b to = Some w" "row_way w = way_of seen" "ms_moved (w_ms w) (s_ms seen)"
      "MS_FLOOR \<le> now - w_at w"
      "note_road to seen now b = (Some (road_of_seen to seen), wrote to seen now b)"
  | (begins) "\<And>since. book_waiting b to \<noteq> Some (way_of seen, since)"
      "\<And>w. book_written b to = Some w \<Longrightarrow> row_way w \<noteq> way_of seen"
      "note_road to seen now b = (None, b\<lparr>book_waiting := (book_waiting b)(to \<mapsto> (way_of seen, now))\<rparr>)"
  | (waits) since where "book_waiting b to = Some (way_of seen, since)" "now - since < hold_for b to seen"
      "\<And>w. book_written b to = Some w \<Longrightarrow> row_way w \<noteq> way_of seen"
      "note_road to seen now b = (None, b)"
  | (same) w where "book_written b to = Some w" "row_way w = way_of seen"
      "note_road to seen now b = (None, idle_road to b)"
proof -
  let ?w0 = "book_written b to" and ?hold = "hold_for b to seen"
  show thesis
  proof (cases "\<exists>w. ?w0 = Some w \<and> row_way w = way_of seen")
    case True
    then obtain w where w: "?w0 = Some w" "row_way w = way_of seen" by blast
    have wr: "wrote to seen now (idle_road to b) = wrote to seen now b"
      by (simp add: wrote_def idle_road_def)
    show thesis
    proof (cases "ms_moved (w_ms w) (s_ms seen) \<and> now - w_at w \<ge> MS_FLOOR")
      case True
      then show thesis
        using w wr moved [of w] by (simp add: note_road_alt)
    next
      case False
      then show thesis
        using w same [of w] by (auto simp: note_road_alt)
    qed
  next
    case False
    then have n: "\<And>w. ?w0 = Some w \<Longrightarrow> row_way w \<noteq> way_of seen" by blast
    then have eq: "note_road to seen now b = then_wrote to seen now (settle_road to seen now ?hold b)"
      by (cases ?w0) (simp_all add: note_road_alt hold_for_def)
    show thesis
    proof (cases "\<exists>since. book_waiting b to = Some (way_of seen, since)")
      case True
      then obtain since where s: "book_waiting b to = Some (way_of seen, since)" by blast
      then have "settle_road to seen now ?hold b = (?hold \<le> now - since, b)" by (simp add: settle_road_def)
      with eq show thesis
        using settled [OF s _ n] waits [OF s _ n]
        by (cases "?hold \<le> now - since") (simp_all add: then_wrote_def)
    next
      case False
      then have "settle_road to seen now ?hold b
          = (False, b\<lparr>book_waiting := (book_waiting b)(to \<mapsto> (way_of seen, now))\<rparr>)"
        by (auto simp: settle_road_def split: option.split)
      with eq show thesis using begins n False by (simp add: then_wrote_def)
    qed
  qed
qed

lemma wrote_simps [simp]:
  "book_waiting (wrote to seen now b) = (book_waiting b)(to := None)"
  "book_written (wrote to seen now b) = (book_written b)(to \<mapsto> written_row seen now)"
  "book_started (wrote to seen now b) = book_started b"
  by (simp_all add: wrote_def)

lemma idle_road_simps [simp]:
  "book_waiting (idle_road to b) = (book_waiting b)(to := None)"
  "book_written (idle_road to b) = book_written b"
  "book_started (idle_road to b) = book_started b"
  by (simp_all add: idle_road_def)

section \<open>Every write is justified\<close>

text \<open>The table: for each machine the row last written and when.\<close>

type_synonym road_table = "string \<rightharpoonup> nat \<times> road"

definition set_row :: "road_table \<Rightarrow> nat \<times> road \<Rightarrow> road_table" where
  "set_row T tr = T(r_to (snd tr) \<mapsto> tr)"

definition write_ok :: "road_table \<Rightarrow> nat \<times> road \<Rightarrow> bool" where
  "write_ok T tr =
     (case T (r_to (snd tr)) of
        None \<Rightarrow> True
      | Some (t0, r0) \<Rightarrow>
          if road_way r0 \<noteq> road_way (snd tr) then t0 + SETTLE \<le> fst tr
          else t0 + MS_FLOOR \<le> fst tr \<and> ms_moved (r_ms r0) (r_ms (snd tr)))"

fun justified :: "road_table \<Rightarrow> (nat \<times> road) list \<Rightarrow> bool" where
  "justified T [] \<longleftrightarrow> True"
| "justified T (tr # trs) \<longleftrightarrow> write_ok T tr \<and> justified (set_row T tr) trs"

text \<open>The book knows the table, and a change that settles began after the last write.\<close>

definition book_table :: "roadbook \<Rightarrow> road_table" where
  "book_table b to = map_option (\<lambda>w. (w_at w, row_road to w)) (book_written b to)"

definition timely :: "nat \<Rightarrow> roadbook \<Rightarrow> bool" where
  "timely now b \<longleftrightarrow> book_started b \<and>
     (\<forall>to w. book_written b to = Some w \<longrightarrow> w_at w \<le> now) \<and>
     (\<forall>to way since. book_waiting b to = Some (way, since) \<longrightarrow> since \<le> now \<and>
        (\<forall>w. book_written b to = Some w \<longrightarrow> w_at w \<le> since))"

lemma timely_mono: "timely t b \<Longrightarrow> t \<le> now \<Longrightarrow> timely now b"
  unfolding timely_def by (meson le_trans)

lemma timely_wrote: "timely now b \<Longrightarrow> timely now (wrote to seen now b)"
  by (auto simp: timely_def)

lemma timely_idle: "timely now b \<Longrightarrow> timely now (idle_road to b)"
  by (auto simp: timely_def)

lemma timely_begins:
  "timely now b \<Longrightarrow> timely now (b\<lparr>book_waiting := (book_waiting b)(to \<mapsto> (way, now))\<rparr>)"
  by (auto simp: timely_def)

lemma started_once: "timely now b \<Longrightarrow> start_from held t b = b"
  by (simp add: timely_def start_from_def)

lemma sampled_simps [simp]:
  "book_waiting (sampled sat failed b) = book_waiting b" "book_written (sampled sat failed b) = book_written b"
  "book_started (sampled sat failed b) = book_started b"
  by (simp_all add: sampled_def)

lemma timely_sampled: "timely now b \<Longrightarrow> timely now (sampled sat failed b)"
  unfolding timely_def sampled_simps .

lemma timely_step:
  assumes "timely now b"
  shows "timely now (snd (book_step b (op, now)))"
proof (cases op)
  case (Note to seen)
  show ?thesis using assms
    by (cases rule: note_road_cases [of b to seen now])
      (auto simp: Note intro: timely_wrote timely_idle timely_begins)
next
  case (Start held)
  then show ?thesis using assms started_once [OF assms, of held now] by simp
next
  case (Idle to)
  then show ?thesis using timely_idle [OF assms, of to] by simp
next
  case (Sampled sat failed)
  then show ?thesis using timely_sampled [OF assms, of sat failed] by simp
qed

lemma book_table_wrote: "book_table (wrote to seen now b) = set_row (book_table b) (now, road_of_seen to seen)"
  by (auto simp: book_table_def set_row_def fun_eq_iff)

lemma book_table_same [simp]:
  "book_table (b\<lparr>book_waiting := ws\<rparr>) = book_table b" "book_table (idle_road to b) = book_table b"
  "book_table (sampled sat failed b) = book_table b"
  by (simp_all add: book_table_def fun_eq_iff)

lemma book_step_write:
  assumes "timely now b"
  shows "case book_step b (op, now) of
      (None, b') \<Rightarrow> book_table b' = book_table b
    | (Some r, b') \<Rightarrow> write_ok (book_table b) (now, r) \<and> book_table b' = set_row (book_table b) (now, r)"
proof (cases op)
  case (Note to seen)
  show ?thesis
  proof (cases rule: note_road_cases [of b to seen now])
    case (settled since)
    have "w_at w + SETTLE \<le> now" if "book_written b to = Some w" for w
    proof -
      have "w_at w \<le> since" "since \<le> now" using assms settled(1) that unfolding timely_def by blast+
      then show ?thesis using settled(2) SETTLE_le(1) [of b to seen] SETTLE_pos by linarith
    qed
    then have "write_ok (book_table b) (now, road_of_seen to seen)"
      using settled(3) by (cases "book_written b to") (simp_all add: write_ok_def book_table_def)
    then show ?thesis using settled(4) by (simp add: Note book_table_wrote)
  next
    case (moved w)
    have "w_at w \<le> now" using assms moved(1) by (simp add: timely_def)
    then have "write_ok (book_table b) (now, road_of_seen to seen)"
      using moved by (simp add: write_ok_def book_table_def)
    then show ?thesis using moved(5) by (simp add: Note book_table_wrote)
  qed (simp_all add: Note)
next
  case (Start held)
  then show ?thesis using started_once [OF assms, of held now] by simp
qed simp_all

lemma justified_run:
  assumes "timely t b" and "sorted (t # map snd ops)"
  shows "justified (book_table b) (book_writes b ops)"
  using assms
proof (induction ops arbitrary: t b)
  case Nil
  then show ?case by simp
next
  case (Cons p ops)
  obtain op now where p: "p = (op, now)" by (cases p)
  have now: "timely now b" using Cons.prems p by (auto intro: timely_mono)
  obtain o' b' where st: "book_step b (op, now) = (o', b')" by fastforce
  have "timely now b'" using timely_step [OF now, of op] st by simp
  then have IH: "justified (book_table b') (book_writes b' ops)"
    using Cons.IH Cons.prems(2) p by auto
  show ?case
    using book_step_write [OF now, of op] IH st p by (cases o') auto
qed

definition held_table :: "road list \<Rightarrow> nat \<Rightarrow> road_table" where
  "held_table held t0 = foldl (\<lambda>T r. set_row T (t0, r)) Map.empty held"

lemma book_table_held:
  "map_option (\<lambda>w. (w_at w, row_road to w)) (foldl (\<lambda>m r. m(r_to r \<mapsto> held_row t0 r)) M held to)
   = foldl (\<lambda>T r. set_row T (t0, r)) (\<lambda>to. map_option (\<lambda>w. (w_at w, row_road to w)) (M to)) held to"
proof (induction held arbitrary: M)
  case Nil
  then show ?case by simp
next
  case (Cons r held)
  have "(\<lambda>to. map_option (\<lambda>w. (w_at w, row_road to w)) ((M(r_to r \<mapsto> held_row t0 r)) to))
      = set_row (\<lambda>to. map_option (\<lambda>w. (w_at w, row_road to w)) (M to)) (t0, r)"
    by (auto simp: set_row_def fun_eq_iff)
  with Cons show ?case by simp
qed

lemma timely_started: "timely t0 (start_from held t0 new_book)"
proof -
  have "foldl (\<lambda>m r. m(r_to r \<mapsto> held_row t0 r)) M held to = Some w \<Longrightarrow>
      (\<forall>to w. M to = Some w \<longrightarrow> w_at w = t0) \<Longrightarrow> w_at w = t0" for M to w
  proof (induction held arbitrary: M)
    case (Cons r held)
    then show ?case using Cons.IH [of "M(r_to r \<mapsto> held_row t0 r)"] by simp
  qed simp
  from this [of Map.empty] show ?thesis by (auto simp: timely_def start_from_def new_book_def)
qed

section \<open>A change is written when, and only when, it has held\<close>

text \<open>
  The history of a run, latest operation first: since when every reading of the road to
  \<open>to\<close> was of kind \<open>way\<close>, with no idle beat in between.
\<close>

fun steady_since :: "string \<Rightarrow> way \<Rightarrow> (book_op \<times> nat) list \<Rightarrow> nat option" where
  "steady_since to way [] = None"
| "steady_since to way ((Note to' seen, t) # h) =
     (if to' \<noteq> to then steady_since to way h
      else if way_of seen \<noteq> way then None
      else case steady_since to way h of None \<Rightarrow> Some t | Some u \<Rightarrow> Some u)"
| "steady_since to way ((Idle to', t) # h) = (if to' = to then None else steady_since to way h)"
| "steady_since to way ((Start held, t) # h) = steady_since to way h"
| "steady_since to way ((Sampled sat failed, t) # h) = steady_since to way h"

text \<open>
  What waits has been read steadily at least since it waits; what has been read steadily is
  written already or waits from the first of these readings.
\<close>

definition steady_inv :: "(book_op \<times> nat) list \<Rightarrow> roadbook \<Rightarrow> bool" where
  "steady_inv h b \<longleftrightarrow> book_started b \<and>
     (\<forall>to way since. book_waiting b to = Some (way, since) \<longrightarrow>
        (\<exists>u. steady_since to way h = Some u \<and> u \<le> since)) \<and>
     (\<forall>to way u. steady_since to way h = Some u \<longrightarrow>
        (\<exists>w. book_written b to = Some w \<and> row_way w = way) \<or> book_waiting b to = Some (way, u))"

lemma steady_invD:
  assumes "steady_inv h b"
  shows "book_started b"
    and "book_waiting b to = Some (way, since) \<Longrightarrow> \<exists>u. steady_since to way h = Some u \<and> u \<le> since"
    and "steady_since to way h = Some u \<Longrightarrow>
        (\<exists>w. book_written b to = Some w \<and> row_way w = way) \<or> book_waiting b to = Some (way, u)"
  using assms unfolding steady_inv_def by blast+

lemma steady_since_le: "sorted_wrt (\<ge>) (map snd h) \<Longrightarrow> steady_since to way h = Some u \<Longrightarrow>
    \<forall>t \<in> snd ` set h. t \<le> now \<Longrightarrow> u \<le> now"
  by (induction to way h rule: steady_since.induct) (auto split: if_splits option.splits)

text \<open>A step touches one machine; what it does to that machine decides the invariant.\<close>

lemma steady_inv_other:
  assumes inv: "steady_inv h b"
    and start: "book_started b'"
    and other: "\<And>m. m \<noteq> to \<Longrightarrow> book_waiting b' m = book_waiting b m \<and> book_written b' m = book_written b m \<and>
        (\<forall>way. steady_since m way (p # h) = steady_since m way h)"
    and waits: "\<And>way since. book_waiting b' to = Some (way, since) \<Longrightarrow>
        \<exists>u. steady_since to way (p # h) = Some u \<and> u \<le> since"
    and steady: "\<And>way u. steady_since to way (p # h) = Some u \<Longrightarrow>
        (\<exists>w. book_written b' to = Some w \<and> row_way w = way) \<or> book_waiting b' to = Some (way, u)"
  shows "steady_inv (p # h) b'"
  unfolding steady_inv_def
proof (intro conjI allI impI start)
  fix m way since
  assume "book_waiting b' m = Some (way, since)"
  then show "\<exists>u. steady_since m way (p # h) = Some u \<and> u \<le> since"
    using waits other [of m] steady_invD(2) [OF inv, of m way since] by (cases "m = to") (blast, metis)
next
  fix m way u
  assume "steady_since m way (p # h) = Some u"
  then show "(\<exists>w. book_written b' m = Some w \<and> row_way w = way) \<or> book_waiting b' m = Some (way, u)"
    using steady other [of m] steady_invD(3) [OF inv, of m way u] by (cases "m = to") (blast, metis)
qed

lemma steady_inv_note:
  assumes inv: "steady_inv h b"
  shows "steady_inv ((Note to seen, now) # h) (snd (note_road to seen now b))"
proof (rule steady_inv_other [OF inv, of _ to])
  note now = steady_invD [OF inv]
  show "book_started (snd (note_road to seen now b))"
    using now(1) by (cases rule: note_road_cases [of b to seen now]) simp_all
  show "book_waiting (snd (note_road to seen now b)) m = book_waiting b m \<and>
      book_written (snd (note_road to seen now b)) m = book_written b m \<and>
      (\<forall>way. steady_since m way ((Note to seen, now) # h) = steady_since m way h)" if "m \<noteq> to" for m
    using that by (cases rule: note_road_cases [of b to seen now]) simp_all
  show "\<exists>u. steady_since to way ((Note to seen, now) # h) = Some u \<and> u \<le> since"
    if w: "book_waiting (snd (note_road to seen now b)) to = Some (way, since)" for way since
  proof (cases rule: note_road_cases [of b to seen now])
    case begins
    then have "way = way_of seen" "since = now" using w by simp_all
    moreover have "steady_since to (way_of seen) h = None \<or> (\<exists>u. steady_since to (way_of seen) h = Some u)"
      by auto
    moreover have "steady_since to (way_of seen) h \<noteq> Some u" for u
      using now(3) [of to "way_of seen" u] begins(1,2) by blast
    ultimately show ?thesis by auto
  next
    case (waits since')
    then have "way = way_of seen" "since = since'" using w by simp_all
    then show ?thesis using now(2) [OF waits(1)] by auto
  qed (use w in simp_all)
  show "(\<exists>w. book_written (snd (note_road to seen now b)) to = Some w \<and> row_way w = way) \<or>
      book_waiting (snd (note_road to seen now b)) to = Some (way, u)"
    if s: "steady_since to way ((Note to seen, now) # h) = Some u" for way u
  proof -
    have way: "way = way_of seen" using s by (simp split: if_splits)
    show ?thesis
    proof (cases rule: note_road_cases [of b to seen now])
      case begins
      have "steady_since to way h \<noteq> Some v" for v
        using now(3) [of to way v] begins(1,2) way by blast
      then have "u = now" using s way by (auto split: option.splits)
      then show ?thesis using begins(3) way by simp
    next
      case (waits since)
      obtain v where v: "steady_since to way h = Some v" using now(2) [OF waits(1)] way by auto
      then have "u = v" using s way by simp
      then show ?thesis using now(3) [OF v] waits(4) by simp
    qed (use way in simp_all)
  qed
qed

lemma steady_inv_step:
  assumes inv: "steady_inv h b"
  shows "steady_inv (p # h) (snd (book_step b p))"
proof -
  obtain op now where p: "p = (op, now)" by (cases p)
  show ?thesis
  proof (cases op)
    case (Note to seen)
    then show ?thesis using steady_inv_note [OF inv] p by simp
  next
    case (Idle to)
    show ?thesis
      using steady_invD(1) [OF inv] unfolding p Idle
      by (intro steady_inv_other [OF inv, of _ to]) simp_all
  next
    case (Start held)
    then have "snd (book_step b p) = b" using steady_invD(1) [OF inv] p by (simp add: start_from_def)
    then show ?thesis using inv unfolding p Start steady_inv_def by simp
  next
    case (Sampled sat failed)
    then show ?thesis using inv unfolding p Sampled steady_inv_def by simp
  qed
qed

interpretation book: kept_invariant
  "\<lambda>hb p. (p # fst hb, snd (book_step (snd hb) p))" "\<lambda>hb. steady_inv (fst hb) (snd hb)" "\<lambda>hb p. True"
  by unfold_locales (simp add: steady_inv_step)

lemma book_history: "run_inputs (\<lambda>hb p. (p # fst hb, snd (book_step (snd hb) p))) (h, b) ops
    = (rev ops @ h, book_after b ops)"
  by (induction ops arbitrary: h b) simp_all

lemma steady_run: "steady_inv (rev ops) (book_after (start_from held t0 new_book) ops)"
proof -
  have "steady_inv [] (start_from held t0 new_book)"
    by (simp add: steady_inv_def start_from_def new_book_def)
  from book.run_keeps [of "([], start_from held t0 new_book)" ops] this show ?thesis
    by (simp add: book_history)
qed

text \<open>
  In every run of the book, a reading is written as a change of kind, or as a machine's
  first row, only when the road has been read that way, without interruption, for the
  settling time: 12 s, and two minutes for a first row that says unreachable.
\<close>

theorem change_is_written_only_after_it_held:
  assumes "note_road to seen now (book_after (start_from held t0 new_book) ops) = (Some r, b')"
    and "\<And>w. book_written (book_after (start_from held t0 new_book) ops) to = Some w \<Longrightarrow> row_way w \<noteq> way_of seen"
  shows "\<exists>u. steady_since to (way_of seen) (rev ops) = Some u \<and>
    u + hold_for (book_after (start_from held t0 new_book) ops) to seen \<le> now"
proof -
  let ?b = "book_after (start_from held t0 new_book) ops"
  obtain since where s: "book_waiting ?b to = Some (way_of seen, since)" "hold_for ?b to seen \<le> now - since"
    using assms by (cases rule: note_road_cases [of ?b to seen now]) auto
  then obtain u where "steady_since to (way_of seen) (rev ops) = Some u" "u \<le> since"
    using steady_invD(2) [OF steady_run] by blast
  moreover have "0 < hold_for ?b to seen" using SETTLE_le(1) [of ?b to seen] SETTLE_pos by linarith
  ultimately show ?thesis using s(2) by auto
qed

text \<open>
  A road that has been read the same way for the settling time is in the table after the
  beat that reads it so: no reading that held is forgotten.
\<close>

theorem steady_road_is_written:
  assumes "steady_since to (way_of seen) (rev ops) = Some u"
    and "u + hold_for (book_after (start_from held t0 new_book) ops) to seen \<le> now"
  shows "\<exists>w. book_written (snd (note_road to seen now (book_after (start_from held t0 new_book) ops))) to = Some w
    \<and> row_way w = way_of seen"
proof -
  let ?b = "book_after (start_from held t0 new_book) ops"
  note st = steady_invD [OF steady_run [of ops held t0]]
  show ?thesis
  proof (cases rule: note_road_cases [of ?b to seen now])
    case begins
    then show ?thesis using st(3) [OF assms(1)] by blast
  next
    case (waits since)
    then have "book_waiting ?b to = Some (way_of seen, u)" using st(3) [OF assms(1)] by blast
    with waits(1,2) assms(2) show ?thesis by simp
  qed simp_all
qed

end
