(* ===== verification/RoadThrough.thy ===== *)
theory RoadThrough
  imports RoadFacts
begin

text \<open>
  The roads added through a sponsor or a carrier, the beat as a run of the book, and the
  book at work on a concrete history.
\<close>

section \<open>Roads through a middle\<close>

text \<open>A road through \<open>p\<close>: both legs known, or the leg that is known broken named.\<close>

definition leg_known :: "string \<Rightarrow> (string \<Rightarrow> string \<Rightarrow> road option) \<Rightarrow> road list \<Rightarrow> string \<Rightarrow> road \<Rightarrow> bool" where
  "leg_known x second known p r =
     (if r_road r = NoRoad then
        r_broken r \<noteq> None \<and>
        ((\<exists>f \<in> set known. r_to f = p \<and> r_road f = NoRoad) \<or>
         (\<exists>sec. second p (r_to r) = Some sec \<and> r_road sec = NoRoad))
      else
        (\<exists>f \<in> set known. r_to f = p \<and> r_road f = r_road r \<and> r_ms f = r_ms r \<and> r_relay f = r_relay r) \<and>
        (\<exists>sec. second p (r_to r) = Some sec \<and> r_road sec = Ssh))"

definition sound_through ::
    "string \<Rightarrow> (string \<Rightarrow> string \<Rightarrow> road option) \<Rightarrow> (string \<times> string) list \<Rightarrow> road list \<Rightarrow> road \<Rightarrow> bool" where
  "sound_through x second sats known r \<longleftrightarrow>
     (\<exists>p. (r_to r, p) \<in> set sats \<and> r_via r = Some p \<and> p \<noteq> x \<and> r_to r \<noteq> x \<and> leg_known x second known p r)"

lemma broken_road_simps [simp]:
  "r_to (broken_road s p l) = s" "r_via (broken_road s p l) = Some p" "r_road (broken_road s p l) = NoRoad"
  "r_broken (broken_road s p l) = Some l"
  by (simp_all add: broken_road_def road_own_def)

lemma road_through_sound:
  assumes "road_through x s p (List.find (\<lambda>r. r_to r = p) roads) (second p s) = Some r"
  shows "r_to r = s \<and> r_via r = Some p \<and> leg_known x second roads p r"
proof -
  have f: "f \<in> set roads \<and> r_to f = p" if "List.find (\<lambda>r. r_to r = p) roads = Some f" for f
    using that by (metis (mono_tags, lifting) find_Some_iff nth_mem)
  show ?thesis
  proof (cases "List.find (\<lambda>r. r_to r = p) roads")
    case None
    then show ?thesis using assms
      by (auto simp: road_through_def leg_known_def split: option.splits if_splits)
  next
    case (Some fr)
    then show ?thesis using assms f [OF Some]
      by (auto simp: road_through_def leg_known_def split: option.splits if_splits)
  qed
qed

lemma leg_known_mono: "leg_known x second known p r \<Longrightarrow> set known \<subseteq> set known' \<Longrightarrow> leg_known x second known' p r"
  by (auto simp: leg_known_def split: if_splits)

lemma sound_through_Cons: "sound_through x second sats known r \<Longrightarrow> sound_through x second (sp # sats) known r"
  unfolding sound_through_def by (meson list.set_intros(2))

lemma through_sponsors_adds:
  "\<exists>added. through_sponsors x second roads sats = roads @ added \<and> distinct (map r_to added) \<and>
     r_to ` set added \<inter> r_to ` set roads = {} \<and>
     (\<forall>r \<in> set added. sound_through x second sats (roads @ added) r)"
proof (induction x second roads sats rule: through_sponsors.induct)
  case (1 x second roads)
  then show ?case by simp
next
  case (2 x second roads s p sats)
  show ?case
  proof (cases "p = x \<or> s = x \<or> list_ex (\<lambda>r. r_to r = s) roads")
    case True
    then have "through_sponsors x second roads ((s, p) # sats) = through_sponsors x second roads sats" by simp
    with 2(1) [OF True] sound_through_Cons show ?thesis by metis
  next
    case skip: False
    show ?thesis
    proof (cases "road_through x s p (List.find (\<lambda>r. r_to r = p) roads) (second p s)")
      case None
      then have "through_sponsors x second roads ((s, p) # sats) = through_sponsors x second roads sats"
        using skip by simp
      with 2(2) [OF skip None] sound_through_Cons show ?thesis by metis
    next
      case (Some r)
      have r: "r_to r = s" "r_via r = Some p" "leg_known x second roads p r"
        using road_through_sound [where second = second, OF Some] by simp_all
      obtain added where a: "through_sponsors x second (roads @ [r]) sats = (roads @ [r]) @ added"
          "distinct (map r_to added)" "r_to ` set added \<inter> r_to ` set (roads @ [r]) = {}"
          "\<forall>q \<in> set added. sound_through x second sats ((roads @ [r]) @ added) q"
        using 2(3) [OF skip Some] by blast
      have "sound_through x second ((s, p) # sats) (roads @ r # added) q" if "q \<in> set (r # added)" for q
      proof (cases "q = r")
        case True
        then show ?thesis
          using r skip leg_known_mono [OF r(3), of "roads @ r # added"] by (auto simp: sound_through_def)
      next
        case False
        then have "sound_through x second sats ((roads @ [r]) @ added) q" using that a(4) by simp
        then show ?thesis using sound_through_Cons by simp
      qed
      moreover have "r_to ` set (r # added) \<inter> r_to ` set roads = {}"
        using a(3) skip r(1) by (auto simp: list_ex_iff)
      ultimately show ?thesis
        using a(1,2,3) skip Some r(1) by (intro exI [of _ "r # added"]) auto
    qed
  qed
qed

lemma road_through_mono:
  "road_through x s p (List.find (\<lambda>r. r_to r = p) roads) sec \<noteq> None \<Longrightarrow>
   road_through x s p (List.find (\<lambda>r. r_to r = p) (roads @ later)) sec \<noteq> None"
  by (induction roads)
    (auto simp: road_through_def split: option.splits if_splits)

lemma through_sponsors_keeps: "set roads \<subseteq> set (through_sponsors x second roads sats)"
  using through_sponsors_adds [of x second roads sats] by auto

lemma through_sponsors_reaches:
  assumes "(s, p) \<in> set sats" and "p \<noteq> x" and "s \<noteq> x"
    and "road_through x s p (List.find (\<lambda>r. r_to r = p) roads) (second p s) \<noteq> None"
  shows "s \<in> r_to ` set (through_sponsors x second roads sats)"
  using assms
proof (induction x second roads sats rule: through_sponsors.induct)
  case (1 x second roads)
  then show ?case by simp
next
  case (2 x second roads s' p' sats)
  show ?case
  proof (cases "(s, p) = (s', p')")
    case True
    show ?thesis
    proof (cases "list_ex (\<lambda>r. r_to r = s) roads")
      case True
      then have "s \<in> r_to ` set roads" by (auto simp: list_ex_iff)
      then show ?thesis using through_sponsors_keeps by blast
    next
      case False
      obtain r where r: "road_through x s p (List.find (\<lambda>r. r_to r = p) roads) (second p s) = Some r"
        using "2.prems"(4) by blast
      then have "r_to r = s" using road_through_sound by blast
      moreover have "r \<in> set (through_sponsors x second (roads @ [r]) sats)"
        using through_sponsors_keeps [of "roads @ [r]"] by auto
      ultimately show ?thesis using True False r "2.prems"(2,3) by (auto simp: image_iff)
    qed
  next
    case False
    then have in_rest: "(s, p) \<in> set sats" using "2.prems"(1) by auto
    show ?thesis
    proof (cases "p' = x \<or> s' = x \<or> list_ex (\<lambda>r. r_to r = s') roads")
      case True
      with "2.IH"(1) [OF True in_rest "2.prems"(2-4)] show ?thesis by simp
    next
      case skip: False
      show ?thesis
      proof (cases "road_through x s' p' (List.find (\<lambda>r. r_to r = p') roads) (second p' s')")
        case None
        with "2.IH"(2) [OF skip None in_rest "2.prems"(2-4)] skip show ?thesis by simp
      next
        case (Some r)
        with "2.IH"(3) [OF skip Some in_rest "2.prems"(2,3)] skip show ?thesis
          using road_through_mono [OF "2.prems"(4), of "[r]"] by simp
      qed
    qed
  qed
qed

text \<open>
  Adding the roads through sponsors and carriers keeps a machine's own roads as they are
  and in place, adds at most one road for each machine and none to the machine itself or to
  one already reached; each added road goes through that machine's middle with both legs known, or
  names a leg known broken; and every machine whose legs say something gets a road.
\<close>

theorem middle_roads_are_sound_and_complete:
  "\<exists>added. through_sponsors x second roads sats = roads @ added \<and> distinct (map r_to added) \<and>
     r_to ` set added \<inter> r_to ` set roads = {} \<and>
     set added \<subseteq> {r. sound_through x second sats (roads @ added) r} \<and>
     {s. \<exists>p. (s, p) \<in> set sats \<and> p \<noteq> x \<and> s \<noteq> x \<and>
           road_through x s p (List.find (\<lambda>r. r_to r = p) roads) (second p s) \<noteq> None}
       \<subseteq> r_to ` set (roads @ added)"
proof -
  obtain added where a: "through_sponsors x second roads sats = roads @ added" "distinct (map r_to added)"
      "r_to ` set added \<inter> r_to ` set roads = {}"
      "\<forall>r \<in> set added. sound_through x second sats (roads @ added) r"
    using through_sponsors_adds by blast
  moreover have "s \<in> r_to ` set (roads @ added)"
    if "(s, p) \<in> set sats" "p \<noteq> x" "s \<noteq> x"
      "road_through x s p (List.find (\<lambda>r. r_to r = p) roads) (second p s) \<noteq> None" for s p
    using through_sponsors_reaches [where second = second, OF that] unfolding a(1) .
  ultimately show ?thesis by blast
qed

text \<open>
  A satellite whose sponsor is itself reached through a middle: the road is drawn through
  the sponsor with the kind of the first leg, which goes to the other machine, and it is drawn only when the
  sponsor stands before it in the table.
\<close>

lemma two_middles_shown_as_one:
  "map (\<lambda>r. (r_to r, r_road r, r_via r))
     (through_sponsors ''x'' (\<lambda>_ s. Some (road_own s Ssh None None)) [road_own ''q'' Relay None None]
       [(''p'', ''q''), (''s'', ''p'')])
   = [(''q'', Relay, None), (''p'', Relay, Some ''q''), (''s'', Relay, Some ''p'')]"
  "map r_to
     (through_sponsors ''x'' (\<lambda>_ s. Some (road_own s Ssh None None)) [road_own ''q'' Relay None None]
       [(''s'', ''p''), (''p'', ''q'')])
   = [''q'', ''p'']"
  by (simp_all add: road_through_def road_own_def)

section \<open>The beat is a run of the book\<close>

lemma satellite_run:
  "\<exists>ops. snd (note_satellite W now (due, b) d) = book_after b ops \<and>
     fst (note_satellite W now (due, b) d) = due @ map snd (book_writes b ops) \<and> set (map snd ops) \<subseteq> {now}"
proof (cases "satellite_road_in W b (d_id d)")
  case None
  then show ?thesis
    by (intro exI [of _ "[(Idle (d_id d), now)]"]) (simp add: note_satellite_def)
next
  case (Some r)
  then show ?thesis
    by (intro exI [of _ "[(Note (d_id d) \<lparr>s_road = r_road r, s_relay = None, s_ms = None,
          s_broken = r_broken r, s_via = None\<rparr>, now)]"])
      (simp add: note_satellite_def note_due_def split: option.split prod.split)
qed

lemma wire_run:
  "\<exists>ops. snd (note_wire W now (due, b) d) = book_after b ops \<and>
     fst (note_wire W now (due, b) d) = due @ map snd (book_writes b ops) \<and> set (map snd ops) \<subseteq> {now}"
proof -
  obtain r via where rv: "first_leg W (d_id d) = (r, via)" by fastforce
  show ?thesis
  proof (cases "wire_road W (d_id d) r")
    case None
    with rv show ?thesis
      by (intro exI [of _ "[(Idle (d_id d), now)]"]) (simp add: note_wire_def)
  next
    case (Some k)
    with rv show ?thesis
      by (intro exI [of _ "[(Note (d_id d) \<lparr>s_road = k, s_relay = (if k = Relay then link_relay r else None),
            s_ms = (if k = NoRoad then None else map_option whole_ms (link_rtt_us r)),
            s_broken = None, s_via = via\<rparr>, now)]"])
        (simp add: note_wire_def note_due_def split: option.split prod.split)
  qed
qed

lemma book_writes_append:
  "book_writes b (ops @ ops') = book_writes b ops @ book_writes (book_after b ops) ops'"
  by (induction ops arbitrary: b) (auto split: prod.splits option.splits)

lemma fold_run:
  assumes step: "\<And>due b d. \<exists>ops. snd (f (due, b) d) = book_after b ops \<and>
     fst (f (due, b) d) = due @ map snd (book_writes b ops) \<and> set (map snd ops) \<subseteq> {now}"
  shows "\<exists>ops. snd (foldl f (due, b) ds) = book_after b ops \<and>
     fst (foldl f (due, b) ds) = due @ map snd (book_writes b ops) \<and> set (map snd ops) \<subseteq> {now}"
proof (induction ds arbitrary: due b)
  case Nil
  then show ?case by (intro exI [of _ "[]"]) simp
next
  case (Cons d ds)
  obtain ops where o1: "snd (f (due, b) d) = book_after b ops"
      "fst (f (due, b) d) = due @ map snd (book_writes b ops)" "set (map snd ops) \<subseteq> {now}"
    using step by blast
  obtain ops' where o2: "snd (foldl f (f (due, b) d) ds) = book_after (snd (f (due, b) d)) ops'"
      "fst (foldl f (f (due, b) d) ds) = fst (f (due, b) d) @ map snd (book_writes (snd (f (due, b) d)) ops')"
      "set (map snd ops') \<subseteq> {now}"
    using Cons.IH [of "fst (f (due, b) d)" "snd (f (due, b) d)"] by auto
  from o1 o2 show ?case by (intro exI [of _ "ops @ ops'"]) (auto simp: book_writes_append)
qed

lemma beat_run:
  "\<exists>ops. snd (beat_roads W now b) = book_after b ops \<and>
     fst (beat_roads W now b) = map snd (book_writes b ops) \<and> set (map snd ops) \<subseteq> {now}"
proof -
  define b1 where "b1 = (case List.find (\<lambda>d. d_id d = me W) (devices W) of
      Some mine \<Rightarrow> start_from (roads_in W mine) now b | None \<Rightarrow> b)"
  obtain ops0 where o0: "b1 = book_after b ops0" "book_writes b ops0 = []" "set (map snd ops0) \<subseteq> {now}"
  proof (cases "List.find (\<lambda>d. d_id d = me W) (devices W)")
    case None
    then show thesis using that [of "[]"] by (simp add: b1_def)
  next
    case (Some mine)
    then show thesis using that [of "[(Start (roads_in W mine), now)]"] by (simp add: b1_def)
  qed
  let ?sats = "filter (\<lambda>d. d_sponsor d = Some (me W)) (devices W)"
  let ?others = "filter (\<lambda>d. d_id d \<noteq> me W \<and> d_sponsor d = None) (devices W)"
  let ?s = "foldl (note_satellite W now) ([], b1) ?sats"
  obtain ops1 where o1: "snd ?s = book_after b1 ops1" "fst ?s = map snd (book_writes b1 ops1)"
      "set (map snd ops1) \<subseteq> {now}"
    using fold_run [of "note_satellite W now" now "[]" b1 ?sats] satellite_run by auto
  obtain ops2 where o2: "snd (foldl (note_wire W now) ?s ?others) = book_after (snd ?s) ops2"
      "fst (foldl (note_wire W now) ?s ?others) = fst ?s @ map snd (book_writes (snd ?s) ops2)"
      "set (map snd ops2) \<subseteq> {now}"
    using fold_run [of "note_wire W now" now "fst ?s" "snd ?s" ?others] wire_run by auto
  have "beat_roads W now b = foldl (note_wire W now) ?s ?others"
    by (simp only: beat_roads_def b1_def Let_def)
  with o0 o1 o2 show ?thesis
    by (intro exI [of _ "ops0 @ ops1 @ ops2"]) (auto simp: book_writes_append)
qed

text \<open>Beats at their times, one after the other.\<close>

fun beats :: "roadbook \<Rightarrow> (road_world \<times> nat) list \<Rightarrow> (nat \<times> road) list" where
  "beats b [] = []"
| "beats b ((W, now) # ws) =
     map (Pair now) (fst (beat_roads W now b)) @ beats (snd (beat_roads W now b)) ws"

lemma book_writes_at: "set (map snd ops) \<subseteq> {now} \<Longrightarrow> book_writes b ops = map (Pair now) (map snd (book_writes b ops))"
  by (induction ops arbitrary: b) (auto split: prod.splits option.splits)

lemma sorted_const_append: "set xs \<subseteq> {a} \<Longrightarrow> sorted ((a::nat) # ys) \<Longrightarrow> sorted (xs @ ys)"
  by (induction xs) auto

lemma beats_run:
  "sorted (map snd ws) \<Longrightarrow> \<exists>ops. beats b ws = book_writes b ops \<and> sorted (map snd ops) \<and>
     set (map snd ops) \<subseteq> snd ` set ws"
proof (induction ws arbitrary: b)
  case Nil
  then show ?case by (intro exI [of _ "[]"]) simp
next
  case (Cons w ws)
  obtain W now where w: "w = (W, now)" by (cases w)
  obtain ops where o1: "snd (beat_roads W now b) = book_after b ops"
      "fst (beat_roads W now b) = map snd (book_writes b ops)" "set (map snd ops) \<subseteq> {now}"
    using beat_run by blast
  obtain ops' where o2: "beats (snd (beat_roads W now b)) ws = book_writes (book_after b ops) ops'"
      "sorted (map snd ops')" "set (map snd ops') \<subseteq> snd ` set ws"
    using Cons.IH [of "book_after b ops"] Cons.prems o1(1) by auto
  have "beats b (w # ws) = book_writes b (ops @ ops')"
    using o1 o2(1) book_writes_at [OF o1(3), of b] by (simp add: w book_writes_append)
  moreover have "sorted (map snd (ops @ ops'))"
    using o1(3) o2(2,3) Cons.prems sorted_const_append [of "map snd ops" now "map snd ops'"]
    by (force simp: w)
  moreover have "set (map snd (ops @ ops')) \<subseteq> snd ` set (w # ws)"
    using o1(3) o2(3) by (auto simp: w)
  ultimately show ?case by blast
qed

text \<open>
  C34: The rows a machine writes about its roads, beat after beat, whatever its wires, carriers
  and satellites read: each is justified against the row it replaces, by a change of kind
  after at least 12 s, or after at least ten minutes by a round trip that moved by more than a
  quarter and at least 5 ms.
\<close>

theorem beats_write_only_justified_rows:
  assumes "sorted (t0 # map snd ws)"
  shows "justified (held_table held t0) (beats (start_from held t0 new_book) ws)"
proof -
  obtain ops where ops: "beats (start_from held t0 new_book) ws = book_writes (start_from held t0 new_book) ops"
      "sorted (map snd ops)" "set (map snd ops) \<subseteq> snd ` set ws"
    using beats_run assms by (metis sorted_wrt.simps(2))
  have "book_table (start_from held t0 new_book) = held_table held t0"
    by (rule ext) (simp add: book_table_def held_table_def start_from_def new_book_def book_table_held)
  moreover have "t0 \<le> t" if "t \<in> set (map snd ops)" for t
    using that ops(3) assms by (fastforce simp: subset_iff)
  moreover from this have "sorted (t0 # map snd ops)" using ops(2) by simp
  ultimately show ?thesis using justified_run [OF timely_started, of t0 ops held] ops(1) by simp
qed

section \<open>The book at work\<close>

text \<open>One other machine, seen on a direct wire of 20 ms at 0 s and at 12 s: its row is written once.\<close>

definition demo_seen :: seen where
  "demo_seen = \<lparr>s_road = Direct, s_relay = None, s_ms = Some 20, s_broken = None, s_via = None\<rparr>"

definition demo_ops :: "(book_op \<times> nat) list" where
  "demo_ops = [(Note ''a'' demo_seen, 0)]"

lemma demo_waiting:
  "book_after (start_from [] 0 new_book) demo_ops
   = \<lparr>book_written = Map.empty, book_waiting = [''a'' \<mapsto> (way_of demo_seen, 0)], book_started = True,
      sat_broken = Map.empty\<rparr>"
  by (simp add: demo_ops_def start_from_def new_book_def note_road_def Let_def settle_road_def then_wrote_def)

lemma demo_written:
  "note_road ''a'' demo_seen 12000 (book_after (start_from [] 0 new_book) demo_ops)
   = (Some (road_of_seen ''a'' demo_seen),
      wrote ''a'' demo_seen 12000 (book_after (start_from [] 0 new_book) demo_ops))"
  unfolding demo_waiting
  by (simp add: note_road_def Let_def settle_road_def then_wrote_def SETTLE_def demo_seen_def)

lemma demo_steady: "steady_since ''a'' (way_of demo_seen) (rev demo_ops) = Some 0"
  by (simp add: demo_ops_def)

lemma demo_hold: "hold_for (book_after (start_from [] 0 new_book) demo_ops) ''a'' demo_seen = 12000"
  unfolding demo_waiting by (simp add: hold_for_def demo_seen_def SETTLE_def)

theorem change_is_written_only_after_it_held_witness:
  "\<exists>u. steady_since ''a'' (way_of demo_seen) (rev demo_ops) = Some u \<and>
     u + hold_for (book_after (start_from [] 0 new_book) demo_ops) ''a'' demo_seen \<le> 12000"
  by (rule change_is_written_only_after_it_held [OF demo_written]) (simp add: demo_waiting)

theorem steady_road_is_written_witness:
  "\<exists>w. book_written (snd (note_road ''a'' demo_seen 12000 (book_after (start_from [] 0 new_book) demo_ops))) ''a''
     = Some w \<and> row_way w = way_of demo_seen"
  by (rule steady_road_is_written [OF demo_steady]) (simp add: demo_hold)

definition demo_world :: road_world where
  "demo_world = \<lparr>me = ''m'',
     devices = [\<lparr>d_id = ''m'', d_sponsor = None, d_carrier = None, d_roads = []\<rparr>,
                \<lparr>d_id = ''a'', d_sponsor = None, d_carrier = None, d_roads = []\<rparr>],
     link = (\<lambda>_. \<lparr>link_road = Some PathDirect, link_relay = None, link_rtt_us = Some 19500, link_down = False\<rparr>),
     last_carrier = (\<lambda>_. None), vitals_age = (\<lambda>_. None), from_json = (\<lambda>_ _. None)\<rparr>"

lemma demo_beat: "beat_roads demo_world now b = note_due ''a'' demo_seen now ([], start_from [] now b)"
  by (simp add: beat_roads_def demo_world_def roads_in_def note_wire_def first_leg_def wire_road_def
      demo_seen_def whole_ms_def u16_max_def map_filter_simps)

lemma demo_beats:
  "beats (start_from [] 0 new_book) [(demo_world, 0), (demo_world, 12000)] = [(12000, road_of_seen ''a'' demo_seen)]"
proof -
  let ?b = "start_from [] 0 new_book"
  have again: "start_from [] t ?b = ?b" "start_from [] t (book_after ?b demo_ops) = book_after ?b demo_ops" for t
    unfolding demo_waiting by (simp_all add: start_from_def)
  have "note_road ''a'' demo_seen 0 ?b = (None, book_after ?b demo_ops)"
    by (simp add: demo_ops_def start_from_def new_book_def note_road_def Let_def settle_road_def then_wrote_def)
  then have "beat_roads demo_world 0 ?b = ([], book_after ?b demo_ops)"
    by (simp add: demo_beat again note_due_def)
  moreover have "fst (beat_roads demo_world 12000 (book_after ?b demo_ops)) = [road_of_seen ''a'' demo_seen]"
    by (simp add: demo_beat again note_due_def demo_written)
  ultimately show ?thesis by simp
qed

theorem beats_write_only_justified_rows_witness:
  "justified (held_table [] 0) (beats (start_from [] 0 new_book) [(demo_world, 0), (demo_world, 12000)]) \<and>
   length (beats (start_from [] 0 new_book) [(demo_world, 0), (demo_world, 12000)]) = 1"
  using beats_write_only_justified_rows [of 0 "[(demo_world, 0), (demo_world, 12000)]" "[]"]
  unfolding demo_beats by simp

end
