(* ===== verification/PathChoice.thy ===== *)
theory PathChoice
  imports RoadBook
begin

text \<open>
  \<open>crates/net/src/carry.rs\<close> and \<open>crates/net/src/path.rs\<close>: which of a connection's open paths
  carries it.  iroh measures the paths and runs the selector; a path is what the selector reads of
  it.  Durations are nanoseconds, as \<open>Duration\<close> counts.  The table of carried links is the
  part of \<open>Links\<close> that decides which link stands.
\<close>

section \<open>Kinds of path (\<open>path.rs\<close>)\<close>

record path_fact =
  pf_relay :: bool
  pf_carried :: bool
  pf_selected :: bool
  pf_rtt_ms :: nat

definition kind_of :: "path_fact list \<Rightarrow> path_kind" where
  "kind_of facts =
     (case List.find pf_selected facts of
        Some f \<Rightarrow> if pf_relay f then PathRelay else if pf_carried f then PathCarried else PathDirect
      | None \<Rightarrow> PathUnknown)"

definition relay_beats_carried :: "path_fact list \<Rightarrow> nat \<Rightarrow> bool" where
  "relay_beats_carried facts margin_ms =
     (case List.find (\<lambda>f. pf_selected f \<and> pf_relay f) facts of
        None \<Rightarrow> False
      | Some relay \<Rightarrow>
          \<not> list_ex (\<lambda>f. pf_carried f \<and> pf_rtt_ms f > 0 \<and> pf_rtt_ms f + margin_ms \<le> pf_rtt_ms relay) facts)"

section \<open>The choice among candidates\<close>

datatype tier = DirectTier | CarriedTier | RelayTier

definition ms :: "nat \<Rightarrow> nat" where "ms n = n * 1000000"

definition DIRECT_MARGIN :: nat where "DIRECT_MARGIN = ms 5"
definition DIRECT_DWELL :: nat where "DIRECT_DWELL = ms 60000"
definition SWITCH_MARGIN :: nat where "SWITCH_MARGIN = ms 10"
definition SPARE_NEAR :: nat where "SPARE_NEAR = ms 10"

definition direct_margin :: "nat \<Rightarrow> bool \<Rightarrow> nat" where
  "direct_margin rtt settling =
     (if settling then max (DIRECT_MARGIN * 2) (rtt div 2) else max DIRECT_MARGIN (rtt div 4))"

definition rides_out :: "nat \<Rightarrow> nat option \<Rightarrow> bool" where
  "rides_out stall fastest = (case fastest of None \<Rightarrow> False | Some f \<Rightarrow> stall < f)"

text \<open>\<open>enumerate().min_by_key(..)\<close>: the index of the first least element.\<close>

definition tier_key :: "tier \<times> nat \<Rightarrow> nat \<times> nat" where
  "tier_key c = (if fst c = DirectTier then 0 else 1, snd c)"

definition key_less :: "nat \<times> nat \<Rightarrow> nat \<times> nat \<Rightarrow> bool" where
  "key_less a b \<longleftrightarrow> fst a < fst b \<or> (fst a = fst b \<and> snd a < snd b)"

fun best_from :: "(tier \<times> nat) list \<Rightarrow> nat \<Rightarrow> (nat \<times> (tier \<times> nat)) option \<Rightarrow> nat option" where
  "best_from [] i best = map_option fst best"
| "best_from (c # cs) i best =
     best_from cs (i + 1)
       (case best of None \<Rightarrow> Some (i, c)
        | Some (j, b) \<Rightarrow> if key_less (tier_key c) (tier_key b) then Some (i, c) else Some (j, b))"

definition best_candidate :: "(tier \<times> nat) list \<Rightarrow> nat option" where
  "best_candidate cs = best_from cs 0 None"

definition choose_settling :: "(tier \<times> nat) option \<Rightarrow> (tier \<times> nat) list \<Rightarrow> bool \<Rightarrow> nat option" where
  "choose_settling current cands settling =
     (case best_candidate cands of
        None \<Rightarrow> None
      | Some best \<Rightarrow>
          (case current of
             None \<Rightarrow> Some best
           | Some (t, rtt) \<Rightarrow>
               let (best_tier, best_rtt) = cands ! best in
               if t = DirectTier \<and> best_tier = DirectTier then
                 (if best_rtt + direct_margin rtt settling \<le> rtt then Some best else None)
               else if best_tier = DirectTier then Some best
               else if t = DirectTier then None
               else (if best_rtt + SWITCH_MARGIN \<le> rtt then Some best else None)))"

definition choose_path :: "(tier \<times> nat) option \<Rightarrow> (tier \<times> nat) list \<Rightarrow> nat option" where
  "choose_path current cands = choose_settling current cands False"

section \<open>The spare\<close>

datatype spare_policy = SpareOff | SpareNear | SpareOn

definition spare_env :: "string option \<Rightarrow> bool \<Rightarrow> spare_policy" where
  "spare_env word ios =
     (if word = Some ''off'' then SpareOff
      else if word = Some ''near'' then SpareNear
      else if word = Some ''on'' then SpareOn
      else if ios then SpareOff
      else SpareNear)"

definition spare_fits :: "spare_policy \<Rightarrow> nat \<Rightarrow> nat \<Rightarrow> bool" where
  "spare_fits policy rtt r =
     (case policy of SpareOff \<Rightarrow> False | SpareNear \<Rightarrow> r \<le> rtt + SPARE_NEAR | SpareOn \<Rightarrow> True)"

fun spare_from :: "(nat \<Rightarrow> bool) \<Rightarrow> (bool \<times> nat) list \<Rightarrow> nat \<Rightarrow> (nat \<times> nat) option \<Rightarrow> nat option" where
  "spare_from fits [] i best = map_option fst best"
| "spare_from fits ((direct, r) # os) i best =
     spare_from fits os (i + 1)
       (if direct \<and> fits r then
          (case best of None \<Rightarrow> Some (i, r) | Some (j, b) \<Rightarrow> if r < b then Some (i, r) else Some (j, b))
        else best)"

definition spare :: "spare_policy \<Rightarrow> nat \<Rightarrow> (bool \<times> nat) list \<Rightarrow> nat option \<Rightarrow> nat option" where
  "spare policy rtt others held =
     (case spare_from (spare_fits policy rtt) others 0 None of
        None \<Rightarrow> None
      | Some best \<Rightarrow>
          (case held of
             Some h \<Rightarrow>
               if fst (others ! h) \<and> spare_fits policy rtt (snd (others ! h)) \<and>
                  snd (others ! h) \<le> snd (others ! best) + DIRECT_MARGIN
               then Some h else Some best
           | None \<Rightarrow> Some best))"

section \<open>The selector\<close>

text \<open>What \<open>select\<close> reads of a path; \<open>op_net\<close> is its network path.\<close>

datatype addr_kind = IpV4 | IpV6 | RelayAddr | CustomAddr

record open_path =
  op_net :: nat
  op_kind :: addr_kind
  op_rtt :: "nat option"
  op_unanswered :: "nat option"

record selection_context =
  cx_paths :: "open_path list"
  cx_current :: "nat option"
  cx_backup :: "nat option"
  cx_held_for :: "nat option"

record path_selection =
  sel_path :: "nat option"
  sel_backup :: "nat option"

definition tier_of :: "open_path \<Rightarrow> tier" where
  "tier_of p = (case op_kind p of IpV4 \<Rightarrow> DirectTier | IpV6 \<Rightarrow> DirectTier
     | RelayAddr \<Rightarrow> RelayTier | CustomAddr \<Rightarrow> CarriedTier)"

record gathered =
  g_candidates :: "(open_path \<times> tier \<times> nat) list"
  g_current :: "(tier \<times> nat) option"
  g_stalled :: "(open_path \<times> nat \<times> nat) list"

definition faster_current :: "tier \<Rightarrow> nat \<Rightarrow> (tier \<times> nat) option \<Rightarrow> (tier \<times> nat) option" where
  "faster_current t rtt current =
     Some (case current of Some (t', r) \<Rightarrow> if r \<le> rtt then (t', r) else (t, rtt) | None \<Rightarrow> (t, rtt))"

definition gather_path :: "selection_context \<Rightarrow> gathered \<Rightarrow> open_path \<Rightarrow> gathered" where
  "gather_path cx g p =
     (case op_rtt p of
        None \<Rightarrow> g
      | Some rtt \<Rightarrow>
          let t = tier_of p; in_use = (Some (op_net p) = cx_current cx) in
          (case op_unanswered p of
             Some stall \<Rightarrow>
               if in_use \<and> t = DirectTier then g\<lparr>g_stalled := g_stalled g @ [(p, stall, rtt)]\<rparr> else g
           | None \<Rightarrow>
               g\<lparr>g_current := (if in_use then faster_current t rtt (g_current g) else g_current g),
                 g_candidates := g_candidates g @ [(p, t, rtt)]\<rparr>))"

definition gather :: "selection_context \<Rightarrow> gathered" where
  "gather cx = foldl (gather_path cx)
     \<lparr>g_candidates = [], g_current = None, g_stalled = []\<rparr> (cx_paths cx)"

definition list_min :: "nat list \<Rightarrow> nat option" where
  "list_min xs = (if xs = [] then None else Some (Min (set xs)))"

definition list_max :: "nat list \<Rightarrow> nat option" where
  "list_max xs = (if xs = [] then None else Some (Max (set xs)))"

definition hold_stalled :: "gathered \<Rightarrow> gathered" where
  "hold_stalled g =
     (let fastest = list_min (map (\<lambda>(_, _, r). r) (g_candidates g)) in
      case list_max (map (\<lambda>(_, s, _). s) (g_stalled g)) of
        None \<Rightarrow> g
      | Some stall \<Rightarrow>
          if rides_out stall fastest then
            foldl (\<lambda>g (p, _, rtt).
                g\<lparr>g_current := faster_current DirectTier rtt (g_current g),
                  g_candidates := g_candidates g @ [(p, DirectTier, rtt)]\<rparr>) g (g_stalled g)
          else g)"

definition select_spare ::
    "spare_policy \<Rightarrow> selection_context \<Rightarrow> gathered \<Rightarrow> nat option \<Rightarrow> nat option" where
  "select_spare policy cx g chosen =
     (let cands = g_candidates g;
          carrying = (case chosen of
              Some i \<Rightarrow> (case cands ! i of (p, t, r) \<Rightarrow> Some (op_net p, t, r))
            | None \<Rightarrow> (case g_current g of None \<Rightarrow> None
                | Some (t, r) \<Rightarrow> map_option (\<lambda>c. (c, t, r)) (cx_current cx))) in
      case carrying of
        None \<Rightarrow> None
      | Some (path, t, rtt) \<Rightarrow>
          if t = DirectTier then
            let others = map (\<lambda>(p, t, r). (t = DirectTier \<and> op_net p \<noteq> path, r)) cands;
                held = List.find (\<lambda>i. Some (op_net (fst (cands ! i))) = cx_backup cx) [0..<length cands] in
            map_option (\<lambda>i. op_net (fst (cands ! i))) (spare policy rtt others held)
          else None)"

definition select :: "spare_policy \<Rightarrow> selection_context \<Rightarrow> path_selection" where
  "select policy cx =
     (let g = hold_stalled (gather cx);
          ranked = map (\<lambda>(_, t, r). (t, r)) (g_candidates g);
          settling = (case cx_held_for cx of None \<Rightarrow> False | Some held \<Rightarrow> held < DIRECT_DWELL);
          chosen = choose_settling (g_current g) ranked settling in
      \<lparr>sel_path = map_option (\<lambda>i. op_net (fst (g_candidates g ! i))) chosen,
       sel_backup = select_spare policy cx g chosen\<rparr>)"

section \<open>The table of carried links\<close>

record carried_link =
  cl_carrier :: carrier
  cl_serial :: nat

record links =
  lk_links :: "string \<rightharpoonup> carried_link"
  lk_serial :: nat
  lk_last :: "string \<rightharpoonup> carrier"

definition new_links :: links where
  "new_links = \<lparr>lk_links = Map.empty, lk_serial = 1, lk_last = Map.empty\<rparr>"

definition links_has :: "string \<Rightarrow> links \<Rightarrow> bool" where
  "links_has peer l = (lk_links l peer \<noteq> None)"

definition links_carrier :: "string \<Rightarrow> links \<Rightarrow> carrier option" where
  "links_carrier peer l = map_option cl_carrier (lk_links l peer)"

definition links_last_carrier :: "string \<Rightarrow> links \<Rightarrow> carrier option" where
  "links_last_carrier peer l = (case links_carrier peer l of Some c \<Rightarrow> Some c | None \<Rightarrow> lk_last l peer)"

definition links_detach :: "string \<Rightarrow> carrier \<Rightarrow> links \<Rightarrow> links" where
  "links_detach peer c l =
     (case lk_links l peer of
        Some k \<Rightarrow> if cl_carrier k = c then l\<lparr>lk_links := (lk_links l)(peer := None)\<rparr> else l
      | None \<Rightarrow> l)"

text \<open>\<open>attach\<close> gives the link its serial; the task of a link ends with \<open>links_ended\<close>.\<close>

definition links_attach :: "string \<Rightarrow> carrier \<Rightarrow> links \<Rightarrow> nat \<times> links" where
  "links_attach peer c l =
     (lk_serial l, l\<lparr>lk_serial := lk_serial l + 1,
        lk_links := (lk_links l)(peer \<mapsto> \<lparr>cl_carrier = c, cl_serial = lk_serial l\<rparr>),
        lk_last := (lk_last l)(peer \<mapsto> c)\<rparr>)"

definition links_ended :: "string \<Rightarrow> nat \<Rightarrow> links \<Rightarrow> links" where
  "links_ended peer serial l =
     (case lk_links l peer of
        Some k \<Rightarrow> if cl_serial k = serial then l\<lparr>lk_links := (lk_links l)(peer := None)\<rparr> else l
      | None \<Rightarrow> l)"

end
