(* ===== verification/PathFacts.thy ===== *)
theory PathFacts
  imports PathChoice
begin

text \<open>
  What the choice of road promises: what it moves to is the least candidate, a move pays by its
  margin, readings that wander by less than half a margin never move the
  connection again, a direct path is left only for a better direct one or when it stopped
  answering, and the path selected is one of the open ones.
\<close>

section \<open>The least candidate\<close>

lemma key_less_trans: "\<not> key_less a b \<Longrightarrow> key_less c b \<Longrightarrow> \<not> key_less a c"
  by (auto simp: key_less_def)

lemma key_less_irrefl [simp]: "\<not> key_less a a"
  by (simp add: key_less_def)

lemma key_le_trans: "\<not> key_less b a \<Longrightarrow> \<not> key_less c b \<Longrightarrow> \<not> key_less c a"
  by (auto simp: key_less_def)

lemma best_from_None: "best_from cs i best = None \<longleftrightarrow> cs = [] \<and> best = None"
  by (induction cs i best rule: best_from.induct) (auto split: option.splits if_splits)

lemma best_from_Some:
  assumes "best_from (drop i all) i best = Some k"
    and "i \<le> length all"
    and "\<And>j b. best = Some (j, b) \<Longrightarrow> j < i \<and> all ! j = b \<and> (\<forall>m < i. \<not> key_less (tier_key (all ! m)) (tier_key b))"
    and "best = None \<Longrightarrow> i = 0"
  shows "k < length all \<and> (\<forall>m < length all. \<not> key_less (tier_key (all ! m)) (tier_key (all ! k)))"
  using assms
proof (induction "length all - i" arbitrary: i best)
  case 0
  then have i: "i = length all" by simp
  then obtain j b where b: "best = Some (j, b)" "k = j" using "0.prems"(1) by (cases best) auto
  from "0.prems"(3) [OF b(1)] b(2) i show ?case by auto
next
  case (Suc d)
  then have i: "i < length all" by simp
  let ?c = "all ! i"
  let ?best = "case best of None \<Rightarrow> Some (i, ?c)
      | Some (j, b) \<Rightarrow> if key_less (tier_key ?c) (tier_key b) then Some (i, ?c) else Some (j, b)"
  have run: "best_from (drop (Suc i) all) (Suc i) ?best = Some k"
    using Suc.prems(1) i by (simp add: Cons_nth_drop_Suc [symmetric])
  show ?case
  proof (rule Suc.hyps(1) [OF _ run])
    show "d = length all - Suc i" using Suc.hyps(2) by simp
    show "Suc i \<le> length all" using i by simp
    show "j < Suc i \<and> all ! j = b \<and> (\<forall>m < Suc i. \<not> key_less (tier_key (all ! m)) (tier_key b))"
      if b: "?best = Some (j, b)" for j b
    proof (cases best)
      case None
      then have "i = 0" "j = i" "b = ?c" using Suc.prems(4) b by auto
      then show ?thesis by simp
    next
      case (Some jb)
      obtain j0 b0 where jb: "jb = (j0, b0)" by (cases jb)
      have old: "j0 < i" "all ! j0 = b0" "\<And>m. m < i \<Longrightarrow> \<not> key_less (tier_key (all ! m)) (tier_key b0)"
        using Suc.prems(3) [of j0 b0] Some jb by auto
      show ?thesis
      proof (cases "key_less (tier_key ?c) (tier_key b0)")
        case True
        then have "j = i" "b = ?c" using b Some jb by auto
        then show ?thesis using old(3) key_less_trans [OF _ True] by (auto simp: less_Suc_eq)
      next
        case False
        then have "j = j0" "b = b0" using b Some jb by auto
        then show ?thesis using old False by (auto simp: less_Suc_eq)
      qed
    qed
    show "?best = None \<Longrightarrow> Suc i = 0" by (auto split: option.splits if_splits)
  qed
qed

lemma best_candidate_Some:
  assumes "best_candidate cands = Some k"
  shows "k < length cands" and "m < length cands \<Longrightarrow> \<not> key_less (tier_key (cands ! m)) (tier_key (cands ! k))"
  using best_from_Some [of 0 cands None k] assms by (auto simp: best_candidate_def)

lemma best_candidate_Nil [simp]: "best_candidate [] = None"
  by (simp add: best_candidate_def)

lemma best_candidate_None: "best_candidate cands = None \<longleftrightarrow> cands = []"
  by (simp add: best_candidate_def best_from_None)

text \<open>What it means for \<open>b\<close> to be worth leaving \<open>a\<close> for, with margins.\<close>

definition pays :: "bool \<Rightarrow> tier \<times> nat \<Rightarrow> tier \<times> nat \<Rightarrow> bool" where
  "pays settling a b =
     (if fst b = DirectTier then
        if fst a = DirectTier then snd b + direct_margin (snd a) settling \<le> snd a else True
      else fst a \<noteq> DirectTier \<and> snd b + SWITCH_MARGIN \<le> snd a)"

lemma choose_pays_iff:
  "choose_settling (Some a) cands settling = Some i \<longleftrightarrow> best_candidate cands = Some i \<and> pays settling a (cands ! i)"
  by (cases a; cases "best_candidate cands"; cases "cands ! the (best_candidate cands)")
    (auto simp: choose_settling_def pays_def Let_def)

lemma choose_none_iff: "choose_settling None cands settling = Some i \<longleftrightarrow> best_candidate cands = Some i"
  by (cases "best_candidate cands") (auto simp: choose_settling_def)

lemma choose_best: "choose_settling cur cands settling = Some i \<Longrightarrow> best_candidate cands = Some i"
  by (cases cur) (auto simp: choose_pays_iff choose_none_iff)

lemma direct_margin_ge: "DIRECT_MARGIN \<le> direct_margin rtt settling"
  by (cases settling) (simp_all add: direct_margin_def le_max_iff_disj)

lemma margins [simp]: "0 < DIRECT_MARGIN" "DIRECT_MARGIN \<le> SWITCH_MARGIN"
  by (simp_all add: DIRECT_MARGIN_def SWITCH_MARGIN_def ms_def)

text \<open>Later readings of the same paths: each tier kept, each round trip moved by at most \<open>d\<close>.\<close>

definition wandered :: "nat \<Rightarrow> (tier \<times> nat) list \<Rightarrow> (tier \<times> nat) list \<Rightarrow> bool" where
  "wandered d cands later \<longleftrightarrow>
     list_all2 (\<lambda>a b. fst a = fst b \<and> snd a \<le> snd b + d \<and> snd b \<le> snd a + d) cands later"

text \<open>
  Once the connection moved to a candidate, it stays: as long as no round trip
  wanders by 2.5 ms or more from what it was then, no later choice moves the connection, within the dwell or after
  it.
\<close>

theorem choice_withstands_noise:
  assumes "choose_settling cur cands settling = Some i"
    and "wandered d cands later" and "2 * d < DIRECT_MARGIN"
  shows "choose_settling (Some (later ! i)) later settling' = None"
proof (rule ccontr)
  assume "choose_settling (Some (later ! i)) later settling' \<noteq> None"
  then obtain k where k: "best_candidate later = Some k" "pays settling' (later ! i) (later ! k)"
    using choose_pays_iff by (metis option.exhaust)
  have len: "length later = length cands" using assms(2) by (simp add: wandered_def list_all2_lengthD)
  have i: "i < length cands" and least: "\<And>m. m < length cands \<Longrightarrow> \<not> key_less (tier_key (cands ! m)) (tier_key (cands ! i))"
    using best_candidate_Some [OF choose_best [OF assms(1)]] by auto
  have kl: "k < length cands" using best_candidate_Some(1) [OF k(1)] len by simp
  have near: "fst (cands ! m) = fst (later ! m) \<and> snd (cands ! m) \<le> snd (later ! m) + d \<and>
      snd (later ! m) \<le> snd (cands ! m) + d" if "m < length cands" for m
    using assms(2) that list_all2_nthD by (fastforce simp: wandered_def)
  have "snd (later ! k) + DIRECT_MARGIN \<le> snd (later ! i) \<or> (fst (later ! k) = DirectTier \<and> fst (later ! i) \<noteq> DirectTier)"
    using k(2) direct_margin_ge [of "snd (later ! i)" settling'] margins(2)
    unfolding pays_def by (auto split: if_splits simp del: margins)
  moreover have "fst (later ! k) = DirectTier \<longrightarrow> fst (later ! i) = DirectTier"
    using least [OF kl] near [OF i] near [OF kl] by (auto simp: key_less_def tier_key_def split: if_splits)
  moreover have "fst (later ! i) = DirectTier \<longrightarrow> fst (later ! k) = DirectTier"
    using k(2) by (auto simp: pays_def split: if_splits)
  ultimately have far: "snd (later ! k) + DIRECT_MARGIN \<le> snd (later ! i)"
    and same: "fst (later ! k) = DirectTier \<longleftrightarrow> fst (later ! i) = DirectTier" by blast+
  have "snd (cands ! k) < snd (cands ! i)"
    using far near [OF i] near [OF kl] assms(3) by linarith
  with least [OF kl] same near [OF i] near [OF kl] show False
    by (auto simp: key_less_def tier_key_def split: if_splits)
qed

theorem choice_withstands_noise_witness:
  "choose_settling (Some ([(RelayTier, ms 57), (CarriedTier, ms 31)] ! 1))
     [(RelayTier, ms 57), (CarriedTier, ms 31)] False = None"
  by (rule choice_withstands_noise
      [where cur = "Some (RelayTier, ms 58)" and cands = "[(RelayTier, ms 58), (CarriedTier, ms 29)]"
        and settling = False and d = "ms 2"])
    (simp_all add: choose_settling_def best_candidate_def key_less_def tier_key_def SWITCH_MARGIN_def
      wandered_def DIRECT_MARGIN_def ms_def)

text \<open>A direct path in use is left only for a direct path that is faster by the margin.\<close>

lemma direct_left_for_direct:
  assumes "choose_settling (Some (DirectTier, rtt)) cands settling = Some i"
  shows "fst (cands ! i) = DirectTier \<and> snd (cands ! i) + DIRECT_MARGIN \<le> rtt"
  using assms direct_margin_ge [of rtt settling]
  unfolding choose_pays_iff pays_def by (auto split: if_splits)

lemma direct_preferred:
  assumes "choose_settling cur cands settling = Some i" and "\<exists>r. (DirectTier, r) \<in> set cands"
  shows "fst (cands ! i) = DirectTier"
proof -
  obtain m where "m < length cands" "fst (cands ! m) = DirectTier"
    using assms(2) by (metis fst_conv in_set_conv_nth)
  with best_candidate_Some(2) [OF choose_best [OF assms(1)], of m] show ?thesis
    by (auto simp: key_less_def tier_key_def split: if_splits)
qed

section \<open>The selector\<close>

text \<open>What \<open>gather\<close> collects.\<close>

definition answers_now :: "open_path \<Rightarrow> bool" where
  "answers_now p \<longleftrightarrow> op_rtt p \<noteq> None \<and> op_unanswered p = None"

lemma gather_fold:
  "g_candidates (foldl (gather_path cx) g ps) =
     g_candidates g @ map (\<lambda>p. (p, tier_of p, the (op_rtt p))) (filter answers_now ps)"
  "g_stalled (foldl (gather_path cx) g ps) =
     g_stalled g @ map (\<lambda>p. (p, the (op_unanswered p), the (op_rtt p)))
       (filter (\<lambda>p. op_rtt p \<noteq> None \<and> op_unanswered p \<noteq> None \<and> Some (op_net p) = cx_current cx \<and>
          tier_of p = DirectTier) ps)"
  by (induction ps arbitrary: g) (auto simp: gather_path_def answers_now_def Let_def split: option.splits)

lemma gather_candidates:
  "g_candidates (gather cx) = map (\<lambda>p. (p, tier_of p, the (op_rtt p))) (filter answers_now (cx_paths cx))"
  "g_stalled (gather cx) = map (\<lambda>p. (p, the (op_unanswered p), the (op_rtt p)))
       (filter (\<lambda>p. op_rtt p \<noteq> None \<and> op_unanswered p \<noteq> None \<and> Some (op_net p) = cx_current cx \<and>
          tier_of p = DirectTier) (cx_paths cx))"
  by (simp_all add: gather_def gather_fold)

definition add_stalled :: "gathered \<Rightarrow> (open_path \<times> nat \<times> nat) list \<Rightarrow> gathered" where
  "add_stalled = foldl (\<lambda>g (p, _, rtt).
                g\<lparr>g_current := faster_current DirectTier rtt (g_current g),
                  g_candidates := g_candidates g @ [(p, DirectTier, rtt)]\<rparr>)"

lemma add_stalled_candidates:
  "g_candidates (add_stalled g ss) = g_candidates g @ map (\<lambda>(p, _, rtt). (p, DirectTier, rtt)) ss"
  by (induction ss arbitrary: g) (auto simp: add_stalled_def)

lemma list_max_min:
  "list_max (map f xs) = Some a \<Longrightarrow> list_min (map h ys) = Some b \<Longrightarrow> a < b \<Longrightarrow>
   \<forall>x \<in> set xs. \<forall>y \<in> set ys. f x < h y"
  by (auto simp: list_max_def list_min_def split: if_splits)

lemma hold_stalled_cases:
  "hold_stalled g = g \<or>
   (hold_stalled g = add_stalled g (g_stalled g) \<and> g_stalled g \<noteq> [] \<and> g_candidates g \<noteq> [] \<and>
    (\<forall>x \<in> set (g_stalled g). \<forall>y \<in> set (g_candidates g). fst (snd x) < snd (snd y)))"
proof -
  let ?s = "list_max (map (\<lambda>(_, s, _). s) (g_stalled g))" and ?r = "list_min (map (\<lambda>(_, _, r). r) (g_candidates g))"
  show ?thesis
  proof (cases "\<exists>a b. ?s = Some a \<and> ?r = Some b \<and> a < b")
    case True
    then obtain a b where ab: "?s = Some a" "?r = Some b" "a < b" by blast
    then have "hold_stalled g = add_stalled g (g_stalled g)"
      by (simp add: hold_stalled_def add_stalled_def rides_out_def)
    moreover have "g_stalled g \<noteq> []" "g_candidates g \<noteq> []"
      using ab by (auto simp: list_max_def list_min_def)
    ultimately show ?thesis
      using list_max_min [OF ab] by (auto simp: case_prod_unfold)
  next
    case False
    then have "hold_stalled g = g"
      by (cases ?s; cases ?r) (auto simp: hold_stalled_def rides_out_def)
    then show ?thesis by simp
  qed
qed

text \<open>A candidate answers, or is the direct path in use riding out its stall.\<close>

definition fit_to_carry :: "selection_context \<Rightarrow> open_path \<Rightarrow> bool" where
  "fit_to_carry cx p \<longleftrightarrow> p \<in> set (cx_paths cx) \<and> op_rtt p \<noteq> None \<and>
     (case op_unanswered p of
        None \<Rightarrow> True
      | Some stall \<Rightarrow> Some (op_net p) = cx_current cx \<and> tier_of p = DirectTier \<and>
          (\<exists>q r. q \<in> set (cx_paths cx) \<and> answers_now q \<and> op_rtt q = Some r) \<and>
          {r. \<exists>q. q \<in> set (cx_paths cx) \<and> answers_now q \<and> op_rtt q = Some r} \<subseteq> {stall <..})"

lemma candidate_fit:
  assumes "(p, t, r) \<in> set (g_candidates (hold_stalled (gather cx)))"
  shows "fit_to_carry cx p \<and> t = tier_of p \<and> op_rtt p = Some r"
proof -
  let ?g = "gather cx"
  consider (plain) "(p, t, r) \<in> set (g_candidates ?g)"
    | (held) "(p, t, r) \<in> set (map (\<lambda>(p, _, rtt). (p, DirectTier, rtt)) (g_stalled ?g))"
        "g_candidates ?g \<noteq> []"
        "\<forall>x \<in> set (g_stalled ?g). \<forall>y \<in> set (g_candidates ?g). fst (snd x) < snd (snd y)"
    using hold_stalled_cases [of ?g] assms add_stalled_candidates [of ?g "g_stalled ?g"]
    by (metis (no_types, lifting) Un_iff set_append)
  then show ?thesis
  proof cases
    case plain
    then show ?thesis by (auto simp: gather_candidates answers_now_def fit_to_carry_def)
  next
    case held
    then obtain s where s: "(p, s, r) \<in> set (g_stalled ?g)" "t = DirectTier" by auto
    then have p: "p \<in> set (cx_paths cx)" "op_rtt p = Some r" "op_unanswered p = Some s"
        "Some (op_net p) = cx_current cx" "tier_of p = DirectTier"
      by (auto simp: gather_candidates)
    have "s < r'" if q: "q \<in> set (cx_paths cx)" "answers_now q" "op_rtt q = Some r'" for q r'
    proof -
      have "(q, tier_of q, r') \<in> set (g_candidates ?g)" using q by (force simp: gather_candidates)
      then show ?thesis using held(3) s(1) by fastforce
    qed
    moreover obtain q where "q \<in> set (cx_paths cx)" "answers_now q"
      using held(2) by (auto simp: gather_candidates filter_empty_conv)
    ultimately show ?thesis using p s(2) by (auto simp: fit_to_carry_def answers_now_def)
  qed
qed

definition properly_selected :: "selection_context \<Rightarrow> nat \<Rightarrow> bool" where
  "properly_selected cx n \<longleftrightarrow> (\<exists>p. op_net p = n \<and> fit_to_carry cx p \<and>
     (if \<exists>q \<in> set (cx_paths cx). answers_now q \<and> tier_of q = DirectTier then tier_of p = DirectTier else True))"

section \<open>The spare\<close>

lemma spare_from_Some:
  assumes "spare_from fits (drop i os) i best = Some k"
    and "i \<le> length os"
    and "\<And>j b. best = Some (j, b) \<Longrightarrow> j < i \<and> fst (os ! j) \<and> fits (snd (os ! j))"
  shows "k < length os \<and> fst (os ! k) \<and> fits (snd (os ! k))"
  using assms
proof (induction "length os - i" arbitrary: i best)
  case 0
  then have "i = length os" by simp
  then obtain b where b: "best = Some (k, b)" using "0.prems"(1) by (cases best) auto
  with "0.prems"(2) "0.prems"(3) [OF b] show ?case by simp
next
  case (Suc d)
  then have i: "i < length os" by simp
  obtain direct r where o: "os ! i = (direct, r)" by (metis surj_pair)
  let ?best = "if direct \<and> fits r then
      (case best of None \<Rightarrow> Some (i, r) | Some (j, b) \<Rightarrow> if r < b then Some (i, r) else Some (j, b)) else best"
  have run: "spare_from fits (drop (Suc i) os) (Suc i) ?best = Some k"
    using Suc.prems(1) i o by (simp add: Cons_nth_drop_Suc [symmetric])
  show ?case
  proof (rule Suc.hyps(1) [OF _ run])
    show "d = length os - Suc i" using Suc.hyps(2) by simp
    show "Suc i \<le> length os" using i by simp
    show "j < Suc i \<and> fst (os ! j) \<and> fits (snd (os ! j))" if "?best = Some (j, b)" for j b
      using that Suc.prems(3) o by (cases best) (auto split: if_splits simp: less_Suc_eq)
  qed
qed

text \<open>The spare is one of the others, direct, and as near as the policy asks.\<close>

lemma spare_Some:
  assumes "spare policy rtt os held = Some k" and "\<And>h. held = Some h \<Longrightarrow> h < length os"
  shows "k < length os \<and> fst (os ! k) \<and> spare_fits policy rtt (snd (os ! k))"
proof -
  obtain b where b: "spare_from (spare_fits policy rtt) os 0 None = Some b"
    using assms(1) by (auto simp: spare_def split: option.splits)
  have "b < length os \<and> fst (os ! b) \<and> spare_fits policy rtt (snd (os ! b))"
    by (rule spare_from_Some [where i = 0 and best = None]) (use b in auto)
  with assms b show ?thesis by (auto simp: spare_def split: option.splits if_splits)
qed

lemma find_index: "List.find P [0..<n] = Some h \<Longrightarrow> h < n"
  by (auto simp: find_Some_iff)

text \<open>What is in use, as gathered, is one of the candidates on the path in use.\<close>

definition in_use :: "selection_context \<Rightarrow> gathered \<Rightarrow> bool" where
  "in_use cx g \<longleftrightarrow> (\<forall>t r. g_current g = Some (t, r) \<longrightarrow>
     (\<exists>p. (p, t, r) \<in> set (g_candidates g) \<and> Some (op_net p) = cx_current cx))"

lemma faster_current_Some:
  "faster_current t rtt cur = Some (t', r') \<Longrightarrow> cur = Some (t', r') \<or> (t', r') = (t, rtt)"
  by (auto simp: faster_current_def split: option.splits if_splits prod.splits)

lemma in_use_gather_path: "in_use cx g \<Longrightarrow> in_use cx (gather_path cx g p)"
  by (fastforce simp: in_use_def gather_path_def Let_def split: option.split dest: faster_current_Some)

lemma in_use_gather: "in_use cx (gather cx)"
proof -
  have "in_use cx g \<Longrightarrow> in_use cx (foldl (gather_path cx) g ps)" for g ps
    by (induction ps arbitrary: g) (auto intro: in_use_gather_path)
  then show ?thesis unfolding gather_def by (simp add: in_use_def)
qed

lemma in_use_add_stalled:
  assumes "in_use cx g" and "\<And>p s r. (p, s, r) \<in> set ss \<Longrightarrow> Some (op_net p) = cx_current cx"
  shows "in_use cx (add_stalled g ss)"
  using assms
proof (induction ss arbitrary: g)
  case Nil
  then show ?case by (simp add: add_stalled_def)
next
  case (Cons x ss)
  obtain p s r where x: "x = (p, s, r)" by (metis prod_cases3)
  let ?g = "g\<lparr>g_current := faster_current DirectTier r (g_current g),
      g_candidates := g_candidates g @ [(p, DirectTier, r)]\<rparr>"
  have "Some (op_net p) = cx_current cx" by (rule Cons.prems(2) [of p s r]) (simp add: x)
  then have "in_use cx ?g"
    using Cons.prems(1) by (fastforce simp: in_use_def dest: faster_current_Some)
  moreover have "add_stalled g (x # ss) = add_stalled ?g ss" by (simp add: add_stalled_def x)
  moreover have "in_use cx (add_stalled ?g ss)" if "in_use cx ?g"
    by (rule Cons.IH [OF that]) (meson Cons.prems(2) list.set_intros(2))
  ultimately show ?case by simp
qed

lemma in_use_hold_stalled: "in_use cx (hold_stalled (gather cx))"
proof -
  have "in_use cx (add_stalled (gather cx) (g_stalled (gather cx)))"
    by (rule in_use_add_stalled [OF in_use_gather]) (auto simp: gather_candidates)
  then show ?thesis using hold_stalled_cases [of "gather cx"] in_use_gather [of cx] by metis
qed

text \<open>
  What carries the connection after a selection: the path selected, else the one in use,
  with a round trip measured on an open path that may go on carrying.
\<close>

definition carried_at :: "selection_context \<Rightarrow> path_selection \<Rightarrow> nat \<Rightarrow> nat \<Rightarrow> bool" where
  "carried_at cx s n rtt \<longleftrightarrow>
     (case sel_path s of Some m \<Rightarrow> n = m | None \<Rightarrow> cx_current cx = Some n) \<and>
     (\<exists>p. op_net p = n \<and> fit_to_carry cx p \<and> tier_of p = DirectTier \<and> op_rtt p = Some rtt)"

definition properly_spared :: "spare_policy \<Rightarrow> selection_context \<Rightarrow> path_selection \<Rightarrow> nat \<Rightarrow> bool" where
  "properly_spared policy cx s b \<longleftrightarrow>
     (\<exists>n rtt p r. carried_at cx s n rtt \<and> op_net p = b \<and> b \<noteq> n \<and> fit_to_carry cx p \<and>
        tier_of p = DirectTier \<and> op_rtt p = Some r \<and> spare_fits policy rtt r)"

lemma selected_path:
  assumes "sel_path (select policy cx) = Some n"
  shows "properly_selected cx n"
proof -
  let ?g = "hold_stalled (gather cx)"
  let ?ranked = "map (\<lambda>(_, t, r). (t, r)) (g_candidates ?g)"
  obtain i settling where i: "choose_settling (g_current ?g) ?ranked settling = Some i"
      "n = op_net (fst (g_candidates ?g ! i))"
    using assms by (auto simp: select_def Let_def)
  have len: "i < length (g_candidates ?g)" using best_candidate_Some(1) [OF choose_best [OF i(1)]] by simp
  obtain p t r where p: "g_candidates ?g ! i = (p, t, r)" by (metis prod_cases3)
  then have fit: "fit_to_carry cx p \<and> t = tier_of p \<and> op_rtt p = Some r"
    using candidate_fit nth_mem [OF len] by simp
  have "tier_of p = DirectTier" if q: "q \<in> set (cx_paths cx)" "answers_now q" "tier_of q = DirectTier" for q
  proof -
    have "(q, DirectTier, the (op_rtt q)) \<in> set (g_candidates (gather cx))"
      using q by (force simp: gather_candidates)
    then have "(q, DirectTier, the (op_rtt q)) \<in> set (g_candidates ?g)"
      using hold_stalled_cases [of "gather cx"] by (auto simp: add_stalled_candidates)
    then have "(DirectTier, the (op_rtt q)) \<in> set ?ranked" by force
    from direct_preferred [OF i(1)] this have "fst (?ranked ! i) = DirectTier" by blast
    then show ?thesis using p len fit by simp
  qed
  with i(2) p fit show ?thesis unfolding properly_selected_def by auto
qed

lemma selected_spare:
  assumes "sel_backup (select policy cx) = Some b"
  shows "properly_spared policy cx (select policy cx) b"
proof -
  let ?g = "hold_stalled (gather cx)"
  let ?cands = "g_candidates ?g"
  obtain chosen settling where ch: "chosen = choose_settling (g_current ?g) (map (\<lambda>(_, t, r). (t, r)) ?cands) settling"
    "sel_path (select policy cx) = map_option (\<lambda>i. op_net (fst (?cands ! i))) chosen"
    "select_spare policy cx ?g chosen = Some b"
    using assms by (auto simp: select_def Let_def)
  have carrying: "\<exists>q. (q, t, rtt) \<in> set ?cands \<and> op_net q = n \<and>
      (case sel_path (select policy cx) of Some m \<Rightarrow> n = m | None \<Rightarrow> cx_current cx = Some n)"
    if "(case chosen of
              Some i \<Rightarrow> (case ?cands ! i of (p, t, r) \<Rightarrow> Some (op_net p, t, r))
            | None \<Rightarrow> (case g_current ?g of None \<Rightarrow> None
                | Some (t, r) \<Rightarrow> map_option (\<lambda>c. (c, t, r)) (cx_current cx))) = Some (n, t, rtt)" for n t rtt
  proof (cases chosen)
    case None
    have "g_current ?g = Some (t, rtt) \<and> cx_current cx = Some n"
      using that by (cases "g_current ?g"; cases "cx_current cx") (auto simp: None)
    with in_use_hold_stalled [of cx] None ch(2) show ?thesis by (fastforce simp: in_use_def)
  next
    case (Some i)
    have "i < length ?cands" using best_candidate_Some(1) [OF choose_best [OF ch(1) [symmetric, unfolded Some]]] by simp
    then have "?cands ! i \<in> set ?cands" by simp
    with that Some ch(2) show ?thesis by (auto split: prod.splits)
  qed
  obtain n rtt k where k: "(case chosen of
              Some i \<Rightarrow> (case ?cands ! i of (p, t, r) \<Rightarrow> Some (op_net p, t, r))
            | None \<Rightarrow> (case g_current ?g of None \<Rightarrow> None
                | Some (t, r) \<Rightarrow> map_option (\<lambda>c. (c, t, r)) (cx_current cx))) = Some (n, DirectTier, rtt)"
    "spare policy rtt (map (\<lambda>(p, t, r). (t = DirectTier \<and> op_net p \<noteq> n, r)) ?cands)
       (List.find (\<lambda>i. Some (op_net (fst (?cands ! i))) = cx_backup cx) [0..<length ?cands]) = Some k"
    "b = op_net (fst (?cands ! k))"
    using ch(3) unfolding select_spare_def Let_def by (auto split: option.splits prod.splits if_splits)
  let ?os = "map (\<lambda>(p, t, r). (t = DirectTier \<and> op_net p \<noteq> n, r)) ?cands"
  have os: "k < length ?os \<and> fst (?os ! k) \<and> spare_fits policy rtt (snd (?os ! k))"
    by (rule spare_Some [OF k(2)]) (auto dest: find_index)
  obtain p t r where p: "?cands ! k = (p, t, r)" by (metis prod_cases3)
  have "(p, t, r) \<in> set ?cands" using os p by (metis length_map nth_mem)
  from candidate_fit [OF this] have "fit_to_carry cx p" "t = tier_of p" "op_rtt p = Some r" by simp_all
  moreover have "t = DirectTier" "op_net p \<noteq> n" "spare_fits policy rtt r" using os p by auto
  moreover obtain q where "(q, DirectTier, rtt) \<in> set ?cands" "op_net q = n"
    "case sel_path (select policy cx) of Some m \<Rightarrow> n = m | None \<Rightarrow> cx_current cx = Some n"
    using carrying [OF k(1)] by blast
  moreover from this have "carried_at cx (select policy cx) n rtt"
    using candidate_fit unfolding carried_at_def by fastforce
  ultimately show ?thesis using k(3) p unfolding properly_spared_def by fastforce
qed

text \<open>
  C37: The path the selector moves a connection to is one of its open paths, with a measured round
  trip, and it answers, unless it is the direct path in use and its stall is still
  shorter than the round trip of every path that answers; if any path that answers is direct, it
  is a direct one.  The path it keeps as a spare is as fit, direct, another than the one that
  carries the connection from now on (which is direct as well), and within the policy of the
  round trip measured there.
\<close>

theorem selected_path_is_fit:
  "(case sel_path (select policy cx) of None \<Rightarrow> True | Some n \<Rightarrow> properly_selected cx n) \<and>
   (case sel_backup (select policy cx) of None \<Rightarrow> True
    | Some b \<Rightarrow> properly_spared policy cx (select policy cx) b)"
  using selected_path [of policy cx] selected_spare [of policy cx] by (auto split: option.split)

text \<open>A stalled direct path in use of 2 ms beside a relay of 500 ms, and a hop faster than the relay.\<close>

definition demo_paths :: selection_context where
  "demo_paths = \<lparr>cx_paths = [\<lparr>op_net = 1, op_kind = RelayAddr, op_rtt = Some (ms 58), op_unanswered = None\<rparr>,
       \<lparr>op_net = 2, op_kind = CustomAddr, op_rtt = Some (ms 29), op_unanswered = None\<rparr>,
       \<lparr>op_net = 3, op_kind = IpV4, op_rtt = Some (ms 2), op_unanswered = Some (ms 300)\<rparr>],
     cx_current = Some 1, cx_backup = None, cx_held_for = None\<rparr>"

text \<open>A direct path in use of 20 ms beside another of 24 ms.\<close>

definition demo_direct :: selection_context where
  "demo_direct = \<lparr>cx_paths = [\<lparr>op_net = 4, op_kind = IpV4, op_rtt = Some (ms 20), op_unanswered = None\<rparr>,
       \<lparr>op_net = 5, op_kind = IpV6, op_rtt = Some (ms 24), op_unanswered = None\<rparr>],
     cx_current = Some 4, cx_backup = None, cx_held_for = None\<rparr>"

theorem selected_path_is_fit_witness:
  "sel_path (select SpareNear demo_paths) = Some 2 \<and> properly_selected demo_paths 2 \<and>
   sel_path (select SpareNear demo_direct) = None \<and> sel_backup (select SpareNear demo_direct) = Some 5 \<and>
   properly_spared SpareNear demo_direct (select SpareNear demo_direct) 5"
proof -
  note run = select_def gather_def gather_path_def tier_of_def Let_def hold_stalled_def
    list_max_def faster_current_def choose_settling_def best_candidate_def key_less_def tier_key_def
    SWITCH_MARGIN_def ms_def
  have "sel_path (select SpareNear demo_paths) = Some 2"
    by (simp add: run demo_paths_def)
  moreover have "sel_path (select SpareNear demo_direct) = None"
    by (simp add: run demo_direct_def direct_margin_def DIRECT_MARGIN_def)
  moreover have "sel_backup (select SpareNear demo_direct) = Some 5"
    by (simp add: run demo_direct_def direct_margin_def DIRECT_MARGIN_def select_spare_def spare_def
        spare_fits_def SPARE_NEAR_def upt_rec)
  ultimately show ?thesis
    using selected_path_is_fit [where policy = SpareNear and cx = demo_paths]
      selected_path_is_fit [where policy = SpareNear and cx = demo_direct] by simp
qed

section \<open>Carried links\<close>

text \<open>
  The end of a link's task takes away that link only: a newer link to the same machine
  stays, and so does what the last one rode.
\<close>

lemma newer_link_survives:
  assumes "links_attach p c l = (s, l1)" and "links_attach p c' l1 = (s', l2)"
  shows "links_ended p s l2 = l2" and "links_carrier p (links_ended p s l2) = Some c'"
  using assms by (auto simp: links_attach_def links_ended_def links_carrier_def)

lemma last_carrier_stays:
  assumes "links_attach p c l = (s, l1)"
  shows "links_carrier p (links_ended p s l1) = None" and "links_last_carrier p (links_ended p s l1) = Some c"
  using assms by (auto simp: links_attach_def links_ended_def links_carrier_def links_last_carrier_def)

end
