(* ===== verification/Hop.thy ===== *)
theory Hop
  imports PathChoice "HOL-Library.Product_Lexorder"
begin

text \<open>
  \<open>crates/node/src/hop.rs\<close>: two machines with no direct road meet through a third.  The
  asker picks its middles from the road book, asks at most two of them, and does not ask again
  for a while after nobody could; the middle and the far end decide whether they serve an ask.
  Streams and dials are not modelled; instants and durations are milliseconds.
\<close>

definition HOP_WITHIN :: nat where "HOP_WITHIN = 3000"
definition MIDDLE_WITHIN :: nat where "MIDDLE_WITHIN = HOP_WITHIN - 500"
definition TRIES :: nat where "TRIES = 2"
definition COMPARE_EVERY :: nat where "COMPARE_EVERY = 30000"
definition LOST_FOR :: nat where "LOST_FOR = 10 * 60 * 1000"
definition MISSED_FIRST :: nat where "MISSED_FIRST = 30000"

section \<open>What was missed, what was lost, what is being asked\<close>

text \<open>The three process-wide tables, keyed by this machine (or the far one) and the other.\<close>

type_synonym hop_pair = "string \<times> string"

record hop_tables =
  MISSED :: "hop_pair \<rightharpoonup> nat \<times> nat"
  LOST :: "hop_pair \<rightharpoonup> nat"
  ASKING :: "hop_pair \<rightharpoonup> nat"
  LAST_COMPARE :: "nat option"

definition missed_wait :: "nat \<Rightarrow> nat" where
  "missed_wait n = min (MISSED_FIRST * push_bit (min (n - 1) 8) 1) LOST_FOR"

definition missed :: "string \<Rightarrow> string \<Rightarrow> nat \<Rightarrow> hop_tables \<Rightarrow> hop_tables" where
  "missed self to now t =
     (let n = (case MISSED t (self, to) of None \<Rightarrow> 0 | Some (n, at) \<Rightarrow> n) in
      t\<lparr>MISSED := (MISSED t)((self, to) \<mapsto> (saturating_add u32_max n 1, now))\<rparr>)"

definition hop_made :: "string \<Rightarrow> string \<Rightarrow> hop_tables \<Rightarrow> hop_tables" where
  "hop_made self to t = t\<lparr>MISSED := (MISSED t)((self, to) := None)\<rparr>"

definition missed_lately :: "string \<Rightarrow> string \<Rightarrow> nat \<Rightarrow> hop_tables \<Rightarrow> bool" where
  "missed_lately self to now t =
     (case MISSED t (self, to) of None \<Rightarrow> False | Some (n, at) \<Rightarrow> now - at < missed_wait n)"

definition lost_hop :: "string \<Rightarrow> string \<Rightarrow> nat \<Rightarrow> hop_tables \<Rightarrow> hop_tables" where
  "lost_hop to via now t = t\<lparr>LOST := (LOST t)((to, via) \<mapsto> now)\<rparr>"

definition was_lost :: "string \<Rightarrow> string \<Rightarrow> nat \<Rightarrow> hop_tables \<Rightarrow> bool" where
  "was_lost to via now t = (case LOST t (to, via) of None \<Rightarrow> False | Some at \<Rightarrow> now - at < LOST_FOR)"

definition asking_new :: "string \<Rightarrow> string \<Rightarrow> hop_tables \<Rightarrow> hop_tables" where
  "asking_new self to t =
     t\<lparr>ASKING := (ASKING t)((self, to) \<mapsto> (case ASKING t (self, to) of None \<Rightarrow> 0 | Some n \<Rightarrow> n) + 1)\<rparr>"

definition asking_drop :: "string \<Rightarrow> string \<Rightarrow> hop_tables \<Rightarrow> hop_tables" where
  "asking_drop self to t =
     (case ASKING t (self, to) of
        None \<Rightarrow> t
      | Some n \<Rightarrow> t\<lparr>ASKING := (ASKING t)((self, to) := (if n - 1 = 0 then None else Some (n - 1)))\<rparr>)"

definition asking :: "string \<Rightarrow> string \<Rightarrow> hop_tables \<Rightarrow> bool" where
  "asking self to t = (ASKING t (self, to) \<noteq> None)"

section \<open>The words of an ask\<close>

datatype 'i ask = AskTo 'i | AskFrom 'i

definition ASK :: string where "ASK = ''hop ''"
definition HAND :: string where "HAND = ''hop-in ''"

definition strip_prefix :: "string \<Rightarrow> string \<Rightarrow> string option" where
  "strip_prefix p s = (if take (length p) s = p then Some (drop (length p) s) else None)"

definition ask_of :: "(string \<Rightarrow> 'i option) \<Rightarrow> string \<Rightarrow> 'i ask option" where
  "ask_of parse target =
     (case strip_prefix HAND target of
        Some i \<Rightarrow> map_option AskFrom (parse i)
      | None \<Rightarrow> Option.bind (strip_prefix ASK target) (\<lambda>i. map_option AskTo (parse i)))"

definition ask_words :: "('i \<Rightarrow> string) \<Rightarrow> 'i ask \<Rightarrow> string" where
  "ask_words show a = (case a of AskTo i \<Rightarrow> ASK @ show i | AskFrom i \<Rightarrow> HAND @ show i)"

section \<open>Choosing the middles\<close>

definition hop_beats :: "nat \<Rightarrow> nat \<Rightarrow> bool" where
  "hop_beats hop_ms relay_ms \<longleftrightarrow> saturating_add u32_max hop_ms (SWITCH_MARGIN div 1000000) \<le> relay_ms"

datatype legs = DialLegs | MeasuredLegs | NoRelayLegs | ToNoRelayLegs

definition usable_legs :: "legs \<Rightarrow> road_kind \<Rightarrow> road_kind \<Rightarrow> bool" where
  "usable_legs legs first second =
     (if (first = Direct \<and> (second = Direct \<or> second = Ssh)) \<or> (first = Relay \<and> second = Ssh) then True
      else if first = Direct \<and> second = Relay \<and> legs = NoRelayLegs then True
      else if first = Relay \<and> second = Direct \<and> legs = ToNoRelayLegs then True
      else if (first = Direct \<or> first = Relay) \<and> (second = Direct \<or> second = Relay) then legs = MeasuredLegs
      else False)"

definition leg_ms :: "road \<Rightarrow> nat" where
  "leg_ms r = (case r_ms r of None \<Rightarrow> u16_max | Some m \<Rightarrow> unat m)"

definition own_leg :: "road option \<Rightarrow> road option" where
  "own_leg r = (case r of None \<Rightarrow> None | Some r \<Rightarrow> if r_via r = None then Some r else None)"

definition middle_cost ::
    "(string \<Rightarrow> road option) \<Rightarrow> (string \<Rightarrow> road option) \<Rightarrow> legs \<Rightarrow> string \<Rightarrow> (bool \<times> nat \<times> string) option" where
  "middle_cost mine theirs legs b =
     Option.bind (own_leg (theirs b)) (\<lambda>second.
     Option.bind (own_leg (mine b)) (\<lambda>first.
       if usable_legs legs (r_road first) (r_road second)
       then Some (legs \<noteq> MeasuredLegs \<and> r_road first \<noteq> Direct, leg_ms first + leg_ms second, b)
       else None))"

definition middles_with_cost ::
    "string \<Rightarrow> string \<Rightarrow> (string \<times> bool \<times> bool) list \<Rightarrow> (string \<Rightarrow> road option) \<Rightarrow> (string \<Rightarrow> road option) \<Rightarrow>
     legs \<Rightarrow> (string \<times> nat) list" where
  "middles_with_cost self to rows mine theirs legs =
     map (\<lambda>(_, ms, b). (b, ms))
       (sort (List.map_filter (\<lambda>(b, _, _). middle_cost mine theirs legs b)
         (filter (\<lambda>(i, sat, paused). i \<noteq> self \<and> i \<noteq> to \<and> \<not> sat \<and> \<not> paused) rows)))"

definition worth_a_hop ::
    "string \<Rightarrow> string \<Rightarrow> nat \<Rightarrow> (string \<times> bool \<times> bool) list \<Rightarrow> (string \<Rightarrow> road option) \<Rightarrow>
     (string \<Rightarrow> road option) \<Rightarrow> (string \<Rightarrow> bool) \<Rightarrow> string list" where
  "worth_a_hop self to relay_ms rows mine theirs lost =
     map fst (filter (\<lambda>(b, ms). hop_beats ms relay_ms \<and> \<not> lost b)
       (middles_with_cost self to rows mine theirs MeasuredLegs))"

section \<open>The asker\<close>

text \<open>What the asker reads besides the road book's world.\<close>

record hop_world = road_world +
  hop_on :: bool
  carrying :: bool
  is_endpoint :: "string \<Rightarrow> bool"
  carried_links :: links
  no_relay :: bool
  far_no_relay :: "string \<Rightarrow> bool"
  last_road :: "string \<Rightarrow> path_kind option"
  peer_paused :: "string \<Rightarrow> bool"

definition carry_has :: "hop_world \<Rightarrow> string \<Rightarrow> bool" where
  "carry_has W i = links_has i (carried_links W)"

definition my_roads :: "hop_world \<Rightarrow> road list" where
  "my_roads W = (case List.find (\<lambda>d. d_id d = me W) (devices W) of
     Some d \<Rightarrow> roads_in (road_world.truncate W) d | None \<Rightarrow> [])"

definition link_ms :: "reading \<Rightarrow> 16 word option" where
  "link_ms r = map_option (\<lambda>us. of_nat (min (us div 1000) u16_max)) (link_rtt_us r)"

definition road_for_hop :: "hop_world \<Rightarrow> string \<Rightarrow> road list \<Rightarrow> road option" where
  "road_for_hop W b mine =
     (let r = link W b in
      if link_road r = Some PathDirect then Some (road_own b Direct None (link_ms r))
      else if link_road r = Some PathRelay then Some (road_own b Relay (link_relay r) (link_ms r))
      else if link_road r = Some PathCarried then None
      else if link_down r then None
      else if \<not> is_endpoint W b then None
      else if links_carrier b (carried_links W) \<noteq> None then None
      else List.find (\<lambda>w. r_to w = b) mine)"

definition wants_hop :: "hop_world \<Rightarrow> device \<Rightarrow> road list \<Rightarrow> bool" where
  "wants_hop W y mine =
     (if \<not> is_endpoint W (d_id y) then False
      else if \<not> hop_on W \<or> \<not> carrying W \<or> carry_has W (d_id y) \<or> d_sponsor y \<noteq> None then False
      else
        let r = link W (d_id y) in
        if link_down r \<or> no_relay W \<or> far_no_relay W (d_id y) then True
        else last_road W (d_id y) \<noteq> Some PathDirect \<and>
          (case List.find (\<lambda>w. r_to w = d_id y \<and> r_via w = None) mine of
             None \<Rightarrow> True | Some w \<Rightarrow> r_road w \<noteq> Direct))"

definition member_rows :: "hop_world \<Rightarrow> (string \<times> bool \<times> bool) list" where
  "member_rows W = map (\<lambda>d. (d_id d, d_sponsor d \<noteq> None, peer_paused W (d_id d))) (devices W)"

definition their_road :: "hop_world \<Rightarrow> string \<Rightarrow> string \<Rightarrow> road option" where
  "their_road W y b =
     (case List.find (\<lambda>d. d_id d = b) (devices W) of None \<Rightarrow> None
      | Some d \<Rightarrow> List.find (\<lambda>r. r_to r = y) (roads_in (road_world.truncate W) d))"

text \<open>The middles \<open>hop_ahead\<close> hands to \<open>open_hop\<close>; \<open>None\<close> where it returns without one.\<close>

definition hop_ahead_picks :: "hop_world \<Rightarrow> hop_tables \<Rightarrow> nat \<Rightarrow> device \<Rightarrow> string list option" where
  "hop_ahead_picks W t now y =
     (if \<not> hop_on W \<or> (is_endpoint W (d_id y) \<and> carry_has W (d_id y)) then None
      else
        let mine = my_roads W in
        if \<not> wants_hop W y mine \<or> missed_lately (me W) (d_id y) now t then None
        else
          let legs = (if no_relay W then NoRelayLegs else if far_no_relay W (d_id y) then ToNoRelayLegs else DialLegs) in
          Some (map fst (middles_with_cost (me W) (d_id y) (member_rows W)
            (\<lambda>b. road_for_hop W b mine) (their_road W (d_id y)) legs)))"

text \<open>The machines \<open>compare_roads\<close> opens a hop to, with their middles.\<close>

definition compare_one :: "hop_world \<Rightarrow> hop_tables \<Rightarrow> nat \<Rightarrow> device \<Rightarrow> (string \<times> string list) option" where
  "compare_one W t now y =
     (if \<not> is_endpoint W (d_id y) \<or> carry_has W (d_id y) \<or> peer_paused W (d_id y) then None
      else case (link_road (link W (d_id y)), link_rtt_us (link W (d_id y))) of
        (Some PathRelay, Some rtt) \<Rightarrow>
          let picked = worth_a_hop (me W) (d_id y) (min (rtt div 1000) u32_max) (member_rows W)
                (\<lambda>b. road_for_hop W b (my_roads W)) (their_road W (d_id y)) (\<lambda>b. was_lost (d_id y) b now t) in
          if picked \<noteq> [] then Some (d_id y, picked) else None
      | _ \<Rightarrow> None)"

definition compare_roads :: "hop_world \<Rightarrow> nat \<Rightarrow> hop_tables \<Rightarrow> (string \<times> string list) list \<times> hop_tables" where
  "compare_roads W now t =
     (if (case LAST_COMPARE t of None \<Rightarrow> False | Some at \<Rightarrow> now - at < COMPARE_EVERY) then ([], t)
      else
        let t' = t\<lparr>LAST_COMPARE := Some now\<rparr> in
        if \<not> hop_on W \<or> \<not> carrying W then ([], t')
        else (List.map_filter (compare_one W t' now)
          (filter (\<lambda>d. d_id d \<noteq> me W \<and> d_sponsor d = None) (devices W)), t'))"

text \<open>
  \<open>open_hop\<close>: the middles tried in order (\<open>answers\<close> is whether the middle's stream came
  up), and what became of the first that answered when a link came in meanwhile.
\<close>

definition first_answer :: "hop_world \<Rightarrow> (string \<Rightarrow> bool) \<Rightarrow> string list \<Rightarrow> string option" where
  "first_answer W answers picked =
     List.find (\<lambda>b. list_ex (\<lambda>d. d_id d = b) (devices W) \<and> is_endpoint W b \<and> answers b) (take TRIES picked)"

definition keep_hop :: "string \<Rightarrow> string \<Rightarrow> links \<Rightarrow> bool" where
  "keep_hop self y l =
     (case links_carrier y l of
        Some CarrierSsh \<Rightarrow> False
      | Some (CarrierHop v) \<Rightarrow> \<not> y < self
      | None \<Rightarrow> True)"

definition open_hop ::
    "hop_world \<Rightarrow> (string \<Rightarrow> bool) \<Rightarrow> nat \<Rightarrow> string \<Rightarrow> string list \<Rightarrow> hop_tables \<times> links \<Rightarrow> bool \<times> hop_tables \<times> links" where
  "open_hop W answers now y picked tl' =
     (case tl' of (t, l) \<Rightarrow>
      if \<not> is_endpoint W y then (False, t, l)
      else
        let t1 = asking_new (me W) y t in
        case first_answer W answers picked of
          None \<Rightarrow> (False, asking_drop (me W) y (if min (length picked) TRIES > 0 then missed (me W) y now t1 else t1), l)
        | Some via \<Rightarrow>
            let t2 = hop_made (me W) y t1 in
            if keep_hop (me W) y l then (True, t2, snd (links_attach y (CarrierHop via) l))
            else (False, asking_drop (me W) y t2, l))"

text \<open>The watch over an open hop: two losing looks in a row let it go.\<close>

definition hop_losing :: "path_kind option \<Rightarrow> bool \<Rightarrow> bool" where
  "hop_losing road beaten =
     (case road of Some PathDirect \<Rightarrow> True | Some PathRelay \<Rightarrow> beaten | _ \<Rightarrow> False)"

definition hop_look ::
    "string \<Rightarrow> string \<Rightarrow> nat \<Rightarrow> path_kind option \<times> bool \<Rightarrow> nat \<times> hop_tables \<times> links \<Rightarrow> nat \<times> hop_tables \<times> links" where
  "hop_look y via now look st =
     (case (look, st) of ((road, beaten), held, t, l) \<Rightarrow>
        let held' = (if hop_losing road beaten then held + 1 else 0) in
        if held' \<ge> 2 then
          (held', (if road = Some PathRelay then lost_hop y via now t else t), links_detach y (CarrierHop via) l)
        else (held', t, l))"

section \<open>The middle and the far end\<close>

datatype hop_reply = HopRefused | HopNoRoute | HopServe

text \<open>
  The gate of \<open>serve_hop\<close>.  \<open>admit\<close> is the roster, \<open>out_of_reach\<close> what the middle
  itself knows of the far end, \<open>live\<close> whether it has a tunnel wire to it.
\<close>

definition hop_member :: "hop_world \<Rightarrow> (string \<Rightarrow> bool) \<Rightarrow> string \<Rightarrow> string \<Rightarrow> bool" where
  "hop_member W admit other i \<longleftrightarrow> i \<noteq> me W \<and> i \<noteq> other \<and> \<not> peer_paused W i \<and> admit i \<and>
     list_ex (\<lambda>d. d_id d = i \<and> d_sponsor d = None) (devices W)"

definition serve_hop ::
    "hop_world \<Rightarrow> hop_tables \<Rightarrow> (string \<Rightarrow> bool) \<Rightarrow> (string \<Rightarrow> bool) \<Rightarrow> (string \<Rightarrow> bool) \<Rightarrow> bool \<Rightarrow>
     string \<Rightarrow> string ask \<Rightarrow> hop_reply" where
  "serve_hop W t admit live out_of_reach paired other a =
     (if \<not> paired \<or> \<not> hop_on W \<or> \<not> carrying W then HopRefused
      else case a of
        AskTo y \<Rightarrow>
          if \<not> hop_member W admit other y \<or> (case links_carrier y (carried_links W) of Some (CarrierHop v) \<Rightarrow> True | _ \<Rightarrow> False) then HopRefused
          else if \<not> live y \<and> out_of_reach y then HopNoRoute
          else HopServe
      | AskFrom x \<Rightarrow>
          if \<not> hop_member W admit other x \<or> links_carrier x (carried_links W) = Some CarrierSsh then HopRefused
          else if me W < x \<and> asking (me W) x t then HopRefused
          else HopServe)"

end
