(* ===== verification/HopFacts.thy ===== *)
theory HopFacts
  imports Hop
begin

text \<open>
  The peer hop's promises: a middle is asked only over roads of one hop each, never
  over a carried road, and only when it can pay; nobody keeps asking for a machine no middle
  reaches; and of two hops asked for at once between the same two machines, both ends keep the one the
  lower id asked for.
\<close>

section \<open>Middles\<close>

text \<open>A middle between this machine and \<open>y\<close>: a member of its own, one hop from either.\<close>

definition one_hop_middle :: "hop_world \<Rightarrow> string \<Rightarrow> string \<Rightarrow> bool" where
  "one_hop_middle W y b \<longleftrightarrow> b \<noteq> me W \<and> b \<noteq> y \<and> \<not> peer_paused W b \<and>
     link_road (link W b) \<noteq> Some PathCarried \<and>
     (\<exists>d. d \<in> set (devices W) \<and> d_id d = b \<and> d_sponsor d = None) \<and>
     (\<exists>first second. road_for_hop W b (my_roads W) = Some first \<and> their_road W y b = Some second \<and>
        r_via first = None \<and> r_via second = None \<and>
        r_road first \<in> {Direct, Relay} \<and> r_road second \<in> {Direct, Relay, Ssh})"

lemma own_leg_Some [simp]: "own_leg r = Some q \<longleftrightarrow> r = Some q \<and> r_via q = None"
  by (cases r) (auto simp: own_leg_def)

lemma middle_cost_Some:
  assumes "middle_cost mine theirs legs b = Some (far, c, b')"
  obtains first second where "mine b = Some first" "theirs b = Some second" "r_via first = None"
    "r_via second = None" "usable_legs legs (r_road first) (r_road second)" "b' = b"
    "c = leg_ms first + leg_ms second" "far \<longleftrightarrow> legs \<noteq> MeasuredLegs \<and> r_road first \<noteq> Direct"
  using assms by (auto simp: middle_cost_def Option.bind_eq_Some_conv split: if_splits)

lemma usable_legs_kinds:
  "usable_legs legs first second \<Longrightarrow> first \<in> {Direct, Relay} \<and> second \<in> {Direct, Relay, Ssh}"
  by (auto simp: usable_legs_def split: if_splits)

lemma set_map_filter: "y \<in> set (List.map_filter f xs) \<longleftrightarrow> (\<exists>x \<in> set xs. f x = Some y)"
  by (induction xs) (auto simp: map_filter_simps split: option.splits)

lemma middles_with_cost_in:
  assumes "(b, c) \<in> set (middles_with_cost self to rows mine theirs legs)"
  obtains far where "middle_cost mine theirs legs b = Some (far, c, b)" "(b, False, False) \<in> set rows"
    "b \<noteq> self" "b \<noteq> to"
proof -
  obtain far where f: "(far, c, b) \<in> set (List.map_filter (\<lambda>(b, _, _). middle_cost mine theirs legs b)
      (filter (\<lambda>(i, sat, paused). i \<noteq> self \<and> i \<noteq> to \<and> \<not> sat \<and> \<not> paused) rows))"
    using assms by (auto simp: middles_with_cost_def)
  then obtain i where "middle_cost mine theirs legs i = Some (far, c, b)" "(i, False, False) \<in> set rows"
      "i \<noteq> self" "i \<noteq> to" by (auto simp: set_map_filter)
  moreover from this have "i = b" by (auto elim: middle_cost_Some)
  ultimately show thesis using that by blast
qed

lemma middle_is_one_hop:
  assumes "(b, c) \<in> set (middles_with_cost (me W) y (member_rows W)
    (\<lambda>b. road_for_hop W b (my_roads W)) (their_road W y) legs)"
  shows "one_hop_middle W y b"
proof -
  obtain far where f: "middle_cost (\<lambda>b. road_for_hop W b (my_roads W)) (their_road W y) legs b = Some (far, c, b)"
      "(b, False, False) \<in> set (member_rows W)" "b \<noteq> me W" "b \<noteq> y"
    using middles_with_cost_in [OF assms] by metis
  obtain first second where l: "road_for_hop W b (my_roads W) = Some first" "their_road W y b = Some second"
      "r_via first = None" "r_via second = None" "usable_legs legs (r_road first) (r_road second)"
    by (rule middle_cost_Some [OF f(1)]) blast
  have "link_road (link W b) \<noteq> Some PathCarried" using l(1) by (auto simp: road_for_hop_def Let_def)
  moreover have "\<exists>d. d \<in> set (devices W) \<and> d_id d = b \<and> d_sponsor d = None" "\<not> peer_paused W b"
    using f(2) by (auto simp: member_rows_def)
  ultimately show ?thesis
    using l f(3,4) usable_legs_kinds [OF l(5)] unfolding one_hop_middle_def by blast
qed

text \<open>A hop opened against the relay: the two legs are faster by the margin, and lost nothing lately.\<close>

definition pays_against_relay :: "hop_world \<Rightarrow> hop_tables \<Rightarrow> nat \<Rightarrow> string \<Rightarrow> string \<Rightarrow> bool" where
  "pays_against_relay W t now y b \<longleftrightarrow> \<not> was_lost y b now t \<and>
     (\<exists>first second rtt. road_for_hop W b (my_roads W) = Some first \<and> their_road W y b = Some second \<and>
        link_road (link W y) = Some PathRelay \<and> link_rtt_us (link W y) = Some rtt \<and>
        (leg_ms first + leg_ms second + 10) * 1000 \<le> rtt)"

lemma hop_beats_margin:
  assumes "hop_beats h (min (rtt div 1000) u32_max)" and "h \<le> 2 * u16_max"
  shows "(h + 10) * 1000 \<le> rtt"
proof -
  have "h + 10 \<le> u32_max" using assms(2) by (simp add: u16_max_def u32_max_def)
  then have "h + 10 \<le> rtt div 1000"
    using assms(1) by (simp add: hop_beats_def saturating_add_def SWITCH_MARGIN_def ms_def)
  then show ?thesis by (simp add: less_eq_div_iff_mult_less_eq)
qed

lemma leg_ms_le: "leg_ms r \<le> u16_max"
proof -
  have "unat (m :: 16 word) < 2 ^ 16" for m using unsigned_less [of m] by simp
  then show ?thesis by (auto simp: leg_ms_def u16_max_def less_Suc_eq_le [symmetric] split: option.split)
qed

lemma worth_a_hop_pays:
  assumes "b \<in> set (worth_a_hop (me W) (d_id y) (min (rtt div 1000) u32_max) (member_rows W)
      (\<lambda>b. road_for_hop W b (my_roads W)) (their_road W (d_id y)) (\<lambda>b. was_lost (d_id y) b now t))"
    and "link_road (link W (d_id y)) = Some PathRelay" and "link_rtt_us (link W (d_id y)) = Some rtt"
  shows "one_hop_middle W (d_id y) b \<and> pays_against_relay W t now (d_id y) b"
proof -
  let ?mine = "\<lambda>b. road_for_hop W b (my_roads W)" and ?theirs = "their_road W (d_id y)"
  obtain c where c: "(b, c) \<in> set (middles_with_cost (me W) (d_id y) (member_rows W) ?mine ?theirs MeasuredLegs)"
      "hop_beats c (min (rtt div 1000) u32_max)" "\<not> was_lost (d_id y) b now t"
    using assms(1) by (auto simp: worth_a_hop_def)
  obtain far where f: "middle_cost ?mine ?theirs MeasuredLegs b = Some (far, c, b)"
    using middles_with_cost_in [OF c(1)] by metis
  obtain first second where l: "?mine b = Some first" "?theirs b = Some second" "c = leg_ms first + leg_ms second"
    by (rule middle_cost_Some [OF f]) blast
  have "c \<le> 2 * u16_max" using l(3) leg_ms_le [of first] leg_ms_le [of second] by simp
  then have "(c + 10) * 1000 \<le> rtt" using hop_beats_margin [OF c(2)] by simp
  then show ?thesis
    using middle_is_one_hop [OF c(1)] c(3) l assms(2,3) unfolding pays_against_relay_def by blast
qed

lemma compare_one_pays:
  assumes "compare_one W t now y = Some (i, picked)"
  shows "i = d_id y \<and> (\<forall>b \<in> set picked. one_hop_middle W i b \<and> pays_against_relay W t now i b)"
proof -
  have relay: "link_road (link W (d_id y)) = Some PathRelay"
  proof (rule ccontr)
    assume "link_road (link W (d_id y)) \<noteq> Some PathRelay"
    then have "compare_one W t now y = None"
      by (cases "link_road (link W (d_id y))"; cases "the (link_road (link W (d_id y)))") (simp_all add: compare_one_def)
    with assms show False by simp
  qed
  obtain rtt where us: "link_rtt_us (link W (d_id y)) = Some rtt"
    using assms relay by (cases "link_rtt_us (link W (d_id y))") (simp_all add: compare_one_def split: if_splits)
  let ?picked = "worth_a_hop (me W) (d_id y) (min (rtt div 1000) u32_max) (member_rows W)
      (\<lambda>b. road_for_hop W b (my_roads W)) (their_road W (d_id y)) (\<lambda>b. was_lost (d_id y) b now t)"
  have "compare_one W t now y = None \<or> compare_one W t now y = Some (d_id y, ?picked)"
    by (simp add: compare_one_def relay us Let_def)
  with assms have "i = d_id y" "picked = ?picked" by auto
  then show ?thesis using worth_a_hop_pays [OF _ relay us] by blast
qed

lemma compare_one_nonempty: "compare_one W t now y = Some (i, picked) \<Longrightarrow> picked \<noteq> []"
  by (cases "link_road (link W (d_id y))"; cases "the (link_road (link W (d_id y)))"; cases "link_rtt_us (link W (d_id y))")
    (auto simp: compare_one_def Let_def split: if_splits)

lemma compare_roads_in:
  assumes "(y, picked) \<in> set (fst (compare_roads W now t))"
  obtains d where "compare_one W (t\<lparr>LAST_COMPARE := Some now\<rparr>) now d = Some (y, picked)"
  using assms by (auto simp: compare_roads_def Let_def set_map_filter split: if_splits)

lemma pays_same_tables [simp]: "pays_against_relay W (t\<lparr>LAST_COMPARE := x\<rparr>) now y b = pays_against_relay W t now y b"
  by (simp add: pays_against_relay_def was_lost_def)

definition ahead_middles :: "hop_world \<Rightarrow> hop_tables \<Rightarrow> nat \<Rightarrow> device \<Rightarrow> string list" where
  "ahead_middles W t now y = (case hop_ahead_picks W t now y of None \<Rightarrow> [] | Some p \<Rightarrow> p)"

text \<open>
  Every middle a machine asks for a hop, before a dial or against the relay in use, is a
  member that is not paused and no satellite, which both ends reach by one leg of its own, the
  asker's not a carried road; and a hop is opened against the relay only through a middle whose
  two legs are at least 10 ms faster and which did not lose to the relay in the last ten minutes.
\<close>

theorem hops_go_through_one_middle:
  "set (ahead_middles W t now y) \<subseteq> {b. one_hop_middle W (d_id y) b} \<and>
   set (fst (compare_roads W now t)) \<subseteq>
     {(i, picked). picked \<noteq> [] \<and> set picked \<subseteq> {b. one_hop_middle W i b \<and> pays_against_relay W t now i b}}"
proof
  show "set (ahead_middles W t now y) \<subseteq> {b. one_hop_middle W (d_id y) b}"
  proof
    fix b
    assume "b \<in> set (ahead_middles W t now y)"
    then obtain legs c where "(b, c) \<in> set (middles_with_cost (me W) (d_id y) (member_rows W)
        (\<lambda>b. road_for_hop W b (my_roads W)) (their_road W (d_id y)) legs)"
      by (auto simp: ahead_middles_def hop_ahead_picks_def Let_def split: if_splits)
    then show "b \<in> {b. one_hop_middle W (d_id y) b}" using middle_is_one_hop by blast
  qed
  show "set (fst (compare_roads W now t)) \<subseteq>
     {(i, picked). picked \<noteq> [] \<and> set picked \<subseteq> {b. one_hop_middle W i b \<and> pays_against_relay W t now i b}}"
  proof clarify
    fix i picked
    assume "(i, picked) \<in> set (fst (compare_roads W now t))"
    then obtain d where d: "compare_one W (t\<lparr>LAST_COMPARE := Some now\<rparr>) now d = Some (i, picked)"
      by (rule compare_roads_in)
    then have "picked \<noteq> []" using compare_one_nonempty by blast
    then show "picked \<noteq> [] \<and> set picked \<subseteq> {b. one_hop_middle W i b \<and> pays_against_relay W t now i b}"
      using compare_one_pays [OF d] by auto
  qed
qed

text \<open>The best middle first.\<close>

lemma middles_sorted:
  "legs = MeasuredLegs \<Longrightarrow> sorted (map snd (middles_with_cost self to rows mine theirs legs))"
proof -
  let ?xs = "List.map_filter (\<lambda>(b, _, _). middle_cost mine theirs legs b)
      (filter (\<lambda>(i, sat, paused). i \<noteq> self \<and> i \<noteq> to \<and> \<not> sat \<and> \<not> paused) rows)"
  assume legs: "legs = MeasuredLegs"
  have near: "fst x = False" if x: "x \<in> set (sort ?xs)" for x
  proof -
    obtain i where "middle_cost mine theirs legs i = Some x" using x by (auto simp: set_map_filter)
    then show ?thesis using legs by (cases x) (auto elim: middle_cost_Some)
  qed
  have "sorted_wrt (\<lambda>x y. fst (snd x) \<le> fst (snd y)) (sort ?xs)"
  proof (rule sorted_wrt_mono_rel)
    show "sorted_wrt (\<le>) (sort ?xs)" by simp
    show "fst (snd x) \<le> fst (snd y)" if "x \<in> set (sort ?xs)" "y \<in> set (sort ?xs)" "x \<le> y" for x y
      using near [OF that(1)] near [OF that(2)] that(3) by (cases x; cases y) auto
  qed
  then show ?thesis by (simp add: middles_with_cost_def sorted_map sorted_wrt_map case_prod_unfold)
qed

section \<open>Asking again\<close>

lemma missed_wait_bounds: "MISSED_FIRST \<le> missed_wait n \<and> missed_wait n \<le> LOST_FOR"
  by (simp add: missed_wait_def MISSED_FIRST_def LOST_FOR_def push_bit_eq_mult)

lemma missed_wait_mono: "m \<le> n \<Longrightarrow> missed_wait m \<le> missed_wait n"
  unfolding missed_wait_def push_bit_eq_mult
  by (intro min.mono mult_le_mono power_increasing order_refl diff_le_mono) simp_all

lemma no_ask_after_miss:
  assumes "missed_lately (me W) (d_id y) now t"
  shows "hop_ahead_picks W t now y = None"
  using assms by (simp add: hop_ahead_picks_def Let_def)

lemma miss_is_waited_out:
  "missed_lately self to later (missed self to now t) \<longleftrightarrow>
     later - now < missed_wait (saturating_add u32_max (case MISSED t (self, to) of None \<Rightarrow> 0 | Some (n, at) \<Rightarrow> n) 1)"
  by (simp add: missed_lately_def missed_def Let_def)

section \<open>Two hops at once\<close>

lemma asking_balanced:
  assumes "\<And>p. ASKING t p \<noteq> Some 0"
  shows "ASKING (asking_drop self to (asking_new self to t)) = ASKING t"
  using assms [of "(self, to)"]
  by (auto simp: asking_drop_def asking_new_def fun_eq_iff split: option.split)

text \<open>
  While the lower end asks, it refuses the other's hop; the higher end never refuses the
  lower's for that, and gives up its own when the lower's came in meanwhile, which the lower
  end does not.
\<close>

lemma lower_asker_stands:
  assumes "lo < hi" and "asking lo hi t"
  shows "me W = lo \<Longrightarrow> serve_hop W t admit live reach paired other (AskFrom hi) = HopRefused"
    and "me V = hi \<Longrightarrow> paired \<Longrightarrow> hop_on V \<Longrightarrow> carrying V \<Longrightarrow> hop_member V admit other lo \<Longrightarrow>
      links_carrier lo (carried_links V) \<noteq> Some CarrierSsh \<Longrightarrow>
      serve_hop V t' admit live reach paired other (AskFrom lo) = HopServe"
    and "links_carrier lo l = Some (CarrierHop via) \<Longrightarrow> \<not> keep_hop hi lo l"
    and "links_carrier hi l' = Some (CarrierHop via') \<Longrightarrow> keep_hop lo hi l'"
  using assms by (auto simp: serve_hop_def keep_hop_def)

end
