(* ===== verification/Preview.thy ===== *)
theory Preview
  imports RustBase
begin

text \<open>
  The one-line previews of \<open>crates/core/src/lib.rs\<close>: \<open>says_something\<close>, \<open>preview\<close> (white
  space collapsed, cut at 160 characters) and \<open>plain\<close> (markdown marks taken off).  A text is
  its list of code points, what \<open>chars\<close> yields.  \<open>char::is_alphanumeric\<close> is a Unicode table
  and is the parameter \<open>alnum\<close>.  Where the code indexes or slices at a place it computed, the
  model's partial operations answer \<open>None\<close> out of range (\<open>index\<close> and \<open>slice\<close> for a vector of
  characters, \<open>str_from\<close> for the bytes of a string, where a place inside a character panics as
  well), so \<open>Some\<close> means neither a panic nor an endless loop.  The element and the tail at the
  index of a loop are read as they are: the condition of the loop says it is in range.
\<close>

section \<open>Characters and strings\<close>

type_synonym uchars = "nat list"

abbreviation uc :: "char \<Rightarrow> nat" where "uc c \<equiv> of_char c"

definition trim_start :: "uchars \<Rightarrow> uchars" where
  "trim_start s = dropWhile is_whitespace s"

definition trim_end :: "uchars \<Rightarrow> uchars" where
  "trim_end s = rev (dropWhile is_whitespace (rev s))"

definition trim :: "uchars \<Rightarrow> uchars" where
  "trim s = trim_end (trim_start s)"

text \<open>\<open>str::trim_matches(c)\<close> and \<open>str::split(c)\<close> for one character.\<close>

definition trim_matches :: "nat \<Rightarrow> uchars \<Rightarrow> uchars" where
  "trim_matches m s = rev (dropWhile ((=) m) (rev (dropWhile ((=) m) s)))"

fun split_char :: "nat \<Rightarrow> uchars \<Rightarrow> uchars list" where
  "split_char m [] = [[]]"
| "split_char m (c # s) =
     (if c = m then [] # split_char m s
      else case split_char m s of [] \<Rightarrow> [[c]] | p # ps \<Rightarrow> (c # p) # ps)"

fun join :: "uchars \<Rightarrow> uchars list \<Rightarrow> uchars" where
  "join sep [] = []"
| "join sep [p] = p"
| "join sep (p # ps) = p @ sep @ join sep ps"

text \<open>\<open>str::lines\<close>: split at line feeds, no last empty line, a carriage return before the feed dropped.\<close>

definition chomp :: "uchars \<Rightarrow> uchars" where
  "chomp l = (if l \<noteq> [] \<and> last l = 13 then butlast l else l)"

definition str_lines :: "uchars \<Rightarrow> uchars list" where
  "str_lines s = (let ps = split_char 10 s in
     map chomp (butlast ps) @ (if last ps = [] then [] else [last ps]))"

definition len_utf8 :: "nat \<Rightarrow> nat" where
  "len_utf8 c = (if c < 128 then 1 else if c < 2048 then 2 else if c < 65536 then 3 else 4)"

definition byte_len :: "uchars \<Rightarrow> nat" where
  "byte_len s = sum_list (map len_utf8 s)"

definition starts_with :: "uchars \<Rightarrow> uchars \<Rightarrow> bool" where
  "starts_with s p \<longleftrightarrow> take (length p) s = p"

text \<open>\<open>src[k]\<close> and \<open>src[a..b]\<close> panic out of range; \<open>iter().position\<close> is the first index.\<close>

definition index :: "'a list \<Rightarrow> nat \<Rightarrow> 'a option" where
  "index xs k = (if k < length xs then Some (xs ! k) else None)"

definition slice :: "'a list \<Rightarrow> nat \<Rightarrow> nat \<Rightarrow> 'a list option" where
  "slice xs a b = (if a \<le> b \<and> b \<le> length xs then Some (take (b - a) (drop a xs)) else None)"

text \<open>
  \<open>rest[n..]\<close> of a string: \<open>n\<close> counts bytes, and it panics past the end and inside a
  character.
\<close>

fun str_from :: "uchars \<Rightarrow> nat \<Rightarrow> uchars option" where
  "str_from s 0 = Some s"
| "str_from [] (Suc n) = None"
| "str_from (c # s) (Suc n) =
     (if len_utf8 c \<le> Suc n then str_from s (Suc n - len_utf8 c) else None)"

fun position :: "('a \<Rightarrow> bool) \<Rightarrow> 'a list \<Rightarrow> nat option" where
  "position P [] = None"
| "position P (x # xs) = (if P x then Some 0 else map_option Suc (position P xs))"

section \<open>\<open>says_something\<close> and \<open>preview\<close>\<close>

definition says_something :: "(nat \<Rightarrow> bool) \<Rightarrow> uchars \<Rightarrow> bool" where
  "says_something alnum line = list_ex alnum line"

fun preview_push :: "nat \<Rightarrow> uchars \<times> bool \<Rightarrow> uchars \<times> bool" where
  "preview_push c (out, spaced) =
     (if is_whitespace c then (if \<not> spaced then (out @ [uc CHR '' ''], True) else (out, spaced))
      else (out @ [c], False))"

fun preview_loop :: "uchars \<Rightarrow> uchars \<Rightarrow> bool \<Rightarrow> uchars" where
  "preview_loop [] out spaced = out"
| "preview_loop (c # cs) out spaced =
     (let (out', spaced') = preview_push c (out, spaced) in
      if length out' \<ge> 160 then out' else preview_loop cs out' spaced')"

definition preview :: "uchars \<Rightarrow> uchars" where
  "preview said = trim_end (preview_loop said [] True)"

section \<open>Paired marks: \<open>closing_run\<close> and \<open>inline\<close>\<close>

definition run_at :: "uchars \<Rightarrow> nat \<Rightarrow> nat \<Rightarrow> nat" where
  "run_at src i mark = length (takeWhile ((=) mark) (drop i src))"

lemma run_at_pos: "i < length src \<Longrightarrow> 0 < run_at src i (src ! i)"
  by (simp add: run_at_def Cons_nth_drop_Suc [symmetric])

lemma run_at_closer [termination_simp]:
  "i < length src \<Longrightarrow> length src - (i + run_at src i (src ! i)) < length src - i"
  using run_at_pos [of i src] by simp

text \<open>The loop of \<open>closing_run\<close> at index \<open>i\<close>; \<open>start\<close> is its argument \<open>from\<close>.\<close>

function closing_loop :: "uchars \<Rightarrow> nat \<Rightarrow> nat \<Rightarrow> nat \<Rightarrow> nat \<Rightarrow> nat option" where
  "closing_loop src start mark n i =
     (if i < length src then
        if src ! i = mark then
          let k = run_at src i mark in
          if k = n \<and> i > start then Some i else closing_loop src start mark n (i + k)
        else closing_loop src start mark n (i + 1)
      else None)"
  by pat_completeness auto
termination
  by (relation "measure (\<lambda>(src, start, mark, n, i). length src - i)")
    (auto simp: run_at_closer)

declare closing_loop.simps [simp del]

definition closing_run :: "uchars \<Rightarrow> nat \<Rightarrow> nat \<Rightarrow> nat \<Rightarrow> nat option" where
  "closing_run src start mark n = closing_loop src start mark n start"

text \<open>
  The three attempts at a pair starting at \<open>i\<close>.  Each answers where the content starts and
  ends and where reading goes on, \<open>Some None\<close> when there is no such pair here, and
  \<open>None\<close> when it would index out of range.
\<close>

type_synonym pair_found = "(nat \<times> nat \<times> nat) option"

definition code_span :: "uchars \<Rightarrow> nat \<Rightarrow> pair_found" where
  "code_span src i =
     (if src ! i = uc CHR ''`'' then
        let k = run_at src i (uc CHR ''`'') in
        map_option (\<lambda>close. (i + k, close, close + k)) (closing_run src (i + k) (uc CHR ''`'') k)
      else None)"

definition opens :: "(nat \<Rightarrow> bool) \<Rightarrow> uchars \<Rightarrow> nat \<Rightarrow> bool option" where
  "opens alnum src i =
     (let c = src ! i; k = run_at src i c in
      if k \<le> 3 \<and> (case index src (i + k) of None \<Rightarrow> False | Some n \<Rightarrow> \<not> is_whitespace n) then
        if c \<noteq> uc CHR ''_'' \<or> i = 0 then Some True
        else map_option (\<lambda>b. is_whitespace b \<or> \<not> alnum b) (index src (i - 1))
      else Some False)"

definition closes :: "(nat \<Rightarrow> bool) \<Rightarrow> uchars \<Rightarrow> nat \<Rightarrow> nat \<Rightarrow> nat \<Rightarrow> bool option" where
  "closes alnum src c close k =
     Option.bind (if close = 0 then None else index src (close - 1)) (\<lambda>b.
       Some (\<not> is_whitespace b \<and>
         (c \<noteq> uc CHR ''_'' \<or>
          (case index src (close + k) of None \<Rightarrow> True | Some n \<Rightarrow> is_whitespace n \<or> \<not> alnum n))))"

definition is_emphasis_mark :: "nat \<Rightarrow> bool" where
  "is_emphasis_mark c \<longleftrightarrow> c = uc CHR ''*'' \<or> c = uc CHR ''_'' \<or> c = uc CHR ''~''"

definition emphasis :: "(nat \<Rightarrow> bool) \<Rightarrow> uchars \<Rightarrow> nat \<Rightarrow> pair_found option" where
  "emphasis alnum src i =
     (let c = src ! i; k = run_at src i c in
      if is_emphasis_mark c then
        Option.bind (opens alnum src i) (\<lambda>ok.
          if ok then
            case closing_run src (i + k) c k of
              None \<Rightarrow> Some None
            | Some close \<Rightarrow>
                Option.bind (closes alnum src c close k) (\<lambda>shut.
                  Some (if shut then Some (i + k, close, close + k) else None))
          else Some None)
      else Some None)"

definition link_label :: "uchars \<Rightarrow> nat \<Rightarrow> pair_found option" where
  "link_label src i =
     (let c = src ! i in
      if c = uc CHR ''['' \<or> (c = uc CHR ''!'' \<and> index src (i + 1) = Some (uc CHR ''['')) then
        let op = (if c = uc CHR ''!'' then i + 1 else i) in
        Option.bind (slice src op (length src)) (\<lambda>from_op.
          case position (\<lambda>x. x = uc CHR '']'') from_op of None \<Rightarrow> Some None
          | Some p \<Rightarrow>
              let shut = op + p in
              if index src (shut + 1) = Some (uc CHR ''('') then
                Option.bind (slice src shut (length src)) (\<lambda>from_shut.
                  case position (\<lambda>x. x = uc CHR '')'') from_shut of None \<Rightarrow> Some None
                  | Some q \<Rightarrow> Some (Some (op + 1, shut, shut + q + 1)))
              else Some None)
      else Some None)"

text \<open>
  The loop of \<open>inline\<close> at index \<open>i\<close> with what was put out so far.  \<open>inline\<close> calls itself on the
  content of a pair, so nothing in its shape says that it ends.
\<close>

partial_function (option) inline_loop ::
    "(nat \<Rightarrow> bool) \<Rightarrow> uchars \<Rightarrow> nat \<Rightarrow> uchars \<Rightarrow> uchars option" where
  "inline_loop alnum src i out =
     (if i < length src then
        if src ! i = uc CHR 0x5C \<and> i + 1 < length src then
          inline_loop alnum src (i + 2) (out @ [src ! (i + 1)])
        else
          case code_span src i of
            Some (a, close, nxt) \<Rightarrow>
              Option.bind (slice src a close) (\<lambda>s. inline_loop alnum src nxt (out @ s))
          | None \<Rightarrow>
              Option.bind (emphasis alnum src i) (\<lambda>em.
                case em of
                  Some (a, close, nxt) \<Rightarrow>
                    Option.bind (slice src a close) (\<lambda>s.
                    Option.bind (inline_loop alnum s 0 []) (\<lambda>t. inline_loop alnum src nxt (out @ t)))
                | None \<Rightarrow>
                    Option.bind (link_label src i) (\<lambda>li.
                      case li of
                        Some (a, shut, nxt) \<Rightarrow>
                          Option.bind (slice src a shut) (\<lambda>s.
                          Option.bind (inline_loop alnum s 0 []) (\<lambda>t. inline_loop alnum src nxt (out @ t)))
                      | None \<Rightarrow> inline_loop alnum src (i + 1) (out @ [src ! i])))
      else Some out)"

definition inline :: "(nat \<Rightarrow> bool) \<Rightarrow> uchars \<Rightarrow> uchars option" where
  "inline alnum line = inline_loop alnum line 0 []"

section \<open>Marks at the head of a line: \<open>plain_line\<close> and \<open>plain\<close>\<close>

definition is_rule :: "uchars \<Rightarrow> bool" where
  "is_rule bare \<longleftrightarrow> byte_len bare \<ge> 3 \<and>
     (list_all (\<lambda>c. c = uc CHR ''-'') bare \<or> list_all (\<lambda>c. c = uc CHR ''*'') bare \<or>
      list_all (\<lambda>c. c = uc CHR ''_'') bare)"

definition is_fence :: "uchars \<Rightarrow> bool" where
  "is_fence bare \<longleftrightarrow> starts_with bare (map uc ''```'') \<or> starts_with bare (map uc ''~~~'')"

fun inline_cells :: "(nat \<Rightarrow> bool) \<Rightarrow> uchars list \<Rightarrow> uchars list option" where
  "inline_cells alnum [] = Some []"
| "inline_cells alnum (cell # cells) =
     Option.bind (inline alnum (trim cell)) (\<lambda>t.
     Option.bind (inline_cells alnum cells) (\<lambda>ts. Some (if t = [] then ts else t # ts)))"

definition table_row :: "(nat \<Rightarrow> bool) \<Rightarrow> uchars \<Rightarrow> uchars option" where
  "table_row alnum bare =
     (if list_all (\<lambda>c. c \<in> {uc CHR ''|'', uc CHR ''-'', uc CHR '':'', uc CHR '' ''}) bare then Some []
      else map_option (join [uc CHR '' '']) (inline_cells alnum (split_char (uc CHR ''|'') (trim_matches (uc CHR ''|'') bare))))"

lemma dropWhile_shorter [termination_simp]: "length (dropWhile P xs) < Suc (length xs)"
  by (simp add: le_imp_less_Suc length_dropWhile_le)

fun strip_quotes :: "uchars \<Rightarrow> uchars" where
  "strip_quotes [] = []"
| "strip_quotes (c # r) = (if c = uc CHR ''>'' then strip_quotes (dropWhile is_whitespace r) else c # r)"

definition strip_heading :: "uchars \<Rightarrow> uchars option" where
  "strip_heading rest =
     (case rest of
        [] \<Rightarrow> Some rest
      | c # r \<Rightarrow>
          if c = uc CHR ''#'' then
            let hashes = 1 + length (takeWhile ((=) (uc CHR ''#'')) r) in
            Option.bind (str_from rest hashes) (\<lambda>after.
              Some (if hashes \<le> 6 \<and> starts_with after [uc CHR '' ''] then trim_start after else rest))
          else Some rest)"

fun strip_bullet :: "uchars list \<Rightarrow> uchars \<Rightarrow> uchars" where
  "strip_bullet [] rest = rest"
| "strip_bullet (mark # marks) rest =
     (if starts_with rest mark then trim_start (drop (length mark) rest) else strip_bullet marks rest)"

definition is_ascii_digit :: "nat \<Rightarrow> bool" where
  "is_ascii_digit c \<longleftrightarrow> 48 \<le> c \<and> c \<le> 57"

definition strip_number :: "uchars \<Rightarrow> uchars option" where
  "strip_number rest =
     (let digits = length (takeWhile is_ascii_digit rest) in
      if digits > 0 then
        Option.bind (str_from rest digits) (\<lambda>after.
          if starts_with after (map uc ''. '') then map_option trim_start (str_from rest (digits + 2))
          else Some rest)
      else Some rest)"

definition plain_line :: "(nat \<Rightarrow> bool) \<Rightarrow> uchars \<Rightarrow> uchars option" where
  "plain_line alnum line =
     (let rest = trim_start line; bare = trim_end rest in
      if is_rule bare then Some []
      else if is_fence bare then Some []
      else if starts_with rest [uc CHR ''|''] then table_row alnum bare
      else
        Option.bind (strip_heading (strip_quotes rest)) (\<lambda>body.
        Option.bind (strip_number (strip_bullet [map uc ''- '', map uc ''* '', map uc ''+ ''] body))
          (inline alnum)))"

fun plain_lines :: "(nat \<Rightarrow> bool) \<Rightarrow> nat \<Rightarrow> uchars list \<Rightarrow> uchars \<Rightarrow> uchars option" where
  "plain_lines alnum i [] out = Some out"
| "plain_lines alnum i (line # lines) out =
     Option.bind (plain_line alnum line) (\<lambda>l.
       plain_lines alnum (i + 1) lines ((if i > 0 then out @ [10] else out) @ l))"

definition plain :: "(nat \<Rightarrow> bool) \<Rightarrow> uchars \<Rightarrow> uchars option" where
  "plain alnum said = plain_lines alnum 0 (str_lines said) []"

end
