(* ===== verification/PreviewFacts.thy ===== *)
theory PreviewFacts
  imports Preview "HOL-Library.Sublist"
begin

text \<open>
  What the previews promise: \<open>preview\<close> is the words of the text joined by single spaces and
  cut at 160 characters; \<open>plain\<close> always comes back, never indexes out of range, puts out no
  character that was not written, and leaves prose without paired marks as typed.
\<close>

section \<open>\<open>preview\<close> against its specification\<close>

text \<open>The words of a text: its maximal stretches without white space.\<close>

fun words :: "uchars \<Rightarrow> uchars list" where
  "words [] = []"
| "words (c # r) =
     (if is_whitespace c then words r
      else (c # takeWhile (\<lambda>x. \<not> is_whitespace x) r) # words (dropWhile (\<lambda>x. \<not> is_whitespace x) r))"

definition preview_spec :: "uchars \<Rightarrow> uchars" where
  "preview_spec s = trim_end (take 160 (join [32] (words s)))"

text \<open>What the loop would put out without the cut.\<close>

fun collapse :: "uchars \<Rightarrow> bool \<Rightarrow> uchars" where
  "collapse [] spaced = []"
| "collapse (c # cs) spaced =
     (if is_whitespace c then (if spaced then collapse cs True else 32 # collapse cs True)
      else c # collapse cs False)"

lemma preview_loop_take:
  "length out < 160 \<Longrightarrow> preview_loop cs out spaced = take 160 (out @ collapse cs spaced)"
proof (induction cs arbitrary: out spaced)
  case Nil
  then show ?case by simp
next
  case (Cons c cs)
  obtain d sp where p: "preview_push c (out, spaced) = (out @ d, sp)" "length d \<le> 1"
    and col: "collapse (c # cs) spaced = d @ collapse cs sp"
    by (cases "is_whitespace c"; cases spaced) auto
  show ?case
  proof (cases "length (out @ d) \<ge> 160")
    case True
    with p(2) Cons.prems have "length (out @ d) = 160" by simp
    with p(1) col show ?thesis by simp
  next
    case False
    with p(1) Cons.IH [of "out @ d" sp] col show ?thesis by simp
  qed
qed

lemma collapse_word:
  "collapse r False = takeWhile (\<lambda>x. \<not> is_whitespace x) r @
     (case dropWhile (\<lambda>x. \<not> is_whitespace x) r of [] \<Rightarrow> [] | d # r' \<Rightarrow> 32 # collapse r' True)"
  by (induction r) auto

lemma words_Nil: "words s = [] \<Longrightarrow> collapse s True = []"
  by (induction s rule: words.induct) (auto split: if_splits)

lemma words_dropWhile:
  "dropWhile (\<lambda>x. \<not> is_whitespace x) r = d # r' \<Longrightarrow> is_whitespace d"
  using hd_dropWhile [of "\<lambda>x. \<not> is_whitespace x" r] by (metis list.distinct(1) list.sel(1))

lemma collapse_words:
  "\<exists>e. collapse s True = join [32] (words s) @ e \<and> (e = [] \<or> e = [32])"
proof (induction s rule: words.induct)
  case 1
  then show ?case by simp
next
  case (2 c r)
  show ?case
  proof (cases "is_whitespace c")
    case True
    with 2 show ?thesis by simp
  next
    case False
    let ?w = "takeWhile (\<lambda>x. \<not> is_whitespace x) r"
    show ?thesis
    proof (cases "dropWhile (\<lambda>x. \<not> is_whitespace x) r")
      case Nil
      have "collapse r False = ?w" unfolding collapse_word [of r] unfolding Nil by simp
      moreover have "words (c # r) = [c # ?w]" unfolding words.simps Nil using False by simp
      ultimately show ?thesis using False by simp
    next
      case (Cons d r')
      have d: "is_whitespace d" using words_dropWhile [OF Cons] .
      then have IH: "\<exists>e. collapse r' True = join [32] (words r') @ e \<and> (e = [] \<or> e = [32])"
        using 2(2) [OF False] Cons by simp
      have now: "collapse (c # r) True = c # ?w @ 32 # collapse r' True"
        using False Cons by (simp add: collapse_word [of r])
      have wds: "words (c # r) = (c # ?w) # words r'" using False Cons d by simp
      show ?thesis
      proof (cases "words r'")
        case Nil
        then show ?thesis using now wds words_Nil by simp
      next
        case (Cons w ws)
        then show ?thesis using now wds IH by auto
      qed
    qed
  qed
qed

lemma trim_end_space: "trim_end (s @ [32]) = trim_end s"
  by (simp add: trim_end_def is_whitespace_def)

text \<open>
  The one-line preview of a text is its words joined by single spaces, cut at 160
  characters, without a space at the cut.
\<close>

theorem preview_is_words: "preview s = preview_spec s"
proof -
  obtain e where e: "collapse s True = join [32] (words s) @ e" "e = [] \<or> e = [32]"
    using collapse_words by blast
  let ?j = "join [32] (words s)"
  have "preview s = trim_end (take 160 (?j @ e))"
    by (simp add: preview_def preview_loop_take e(1))
  also have "\<dots> = trim_end (take 160 ?j)"
  proof (cases "length ?j < 160")
    case True
    then have "take 160 (?j @ e) = ?j @ e" using e(2) by auto
    with True e(2) show ?thesis by (auto simp: trim_end_space)
  qed simp
  finally show ?thesis by (simp add: preview_spec_def)
qed

section \<open>\<open>inline\<close> comes back\<close>

lemma closing_loop_Some:
  "closing_loop src start mark n i = Some close \<Longrightarrow>
     start < close \<and> close < length src \<and> i \<le> close \<and> src ! close = mark"
proof (induction src start mark n i rule: closing_loop.induct)
  case (1 src start mark n i)
  have eq: "(if i < length src then
        if src ! i = mark then
          if run_at src i mark = n \<and> i > start then Some i
          else closing_loop src start mark n (i + run_at src i mark)
        else closing_loop src start mark n (i + 1)
      else None) = Some close"
    using "1.prems" closing_loop.simps [of src start mark n i] unfolding Let_def by argo
  then have inside: "i < length src" by (simp split: if_splits)
  show ?case
  proof (cases "src ! i = mark")
    case False
    with eq inside "1.IH"(2) [OF inside False] show ?thesis by simp
  next
    case True
    show ?thesis
    proof (cases "run_at src i mark = n \<and> i > start")
      case True
      with eq inside \<open>src ! i = mark\<close> show ?thesis by simp
    next
      case False
      with eq inside True "1.IH"(1) [OF inside True refl False] show ?thesis by simp
    qed
  qed
qed

lemma closing_run_Some:
  "closing_run src start mark n = Some close \<Longrightarrow> start < close \<and> close < length src"
  by (auto simp: closing_run_def dest: closing_loop_Some)

lemma code_span_Some:
  assumes "code_span src i = Some (a, close, nxt)" and "i < length src"
  shows "i < a \<and> a \<le> close \<and> close \<le> nxt \<and> close \<le> length src"
  using assms run_at_pos [OF assms(2)]
  by (auto simp: code_span_def Let_def split: if_splits dest!: closing_run_Some)

lemma opens_defined: "i < length src \<Longrightarrow> opens alnum src i \<noteq> None"
  by (cases i) (auto simp: opens_def Let_def index_def split: option.split)

lemma closes_defined: "0 < close \<Longrightarrow> close < length src \<Longrightarrow> closes alnum src c close k \<noteq> None"
  by (simp add: closes_def index_def)

lemma emphasis_defined: "i < length src \<Longrightarrow> \<exists>em. emphasis alnum src i = Some em"
proof (cases "closing_run src (i + run_at src i (src ! i)) (src ! i) (run_at src i (src ! i))")
  case None
  then show "i < length src \<Longrightarrow> ?thesis"
    using opens_defined [of i src alnum] by (auto simp: emphasis_def Let_def)
next
  case (Some close)
  then have "closes alnum src (src ! i) close (run_at src i (src ! i)) \<noteq> None"
    using closing_run_Some [OF Some] by (intro closes_defined) simp_all
  then show "i < length src \<Longrightarrow> ?thesis"
    using Some opens_defined [of i src alnum] by (auto simp: emphasis_def Let_def)
qed

lemma emphasis_Some:
  assumes "emphasis alnum src i = Some (Some (a, close, nxt))" and "i < length src"
  shows "i < a \<and> a \<le> close \<and> close \<le> nxt \<and> close \<le> length src"
  using assms run_at_pos [OF assms(2)]
  by (auto simp: emphasis_def Let_def split: if_splits option.splits bind_splits dest!: closing_run_Some)

lemma position_Some: "position P xs = Some p \<Longrightarrow> p < length xs \<and> P (xs ! p)"
  by (induction xs arbitrary: p) (auto split: if_splits)

lemma slice_tail: "a \<le> length xs \<Longrightarrow> slice xs a (length xs) = Some (drop a xs)"
  by (simp add: slice_def)

lemma link_label_defined:
  assumes i: "i < length src"
  obtains li where "link_label src i = Some li"
    and "\<And>a close nxt. li = Some (a, close, nxt) \<Longrightarrow>
      i < a \<and> a \<le> close \<and> close \<le> nxt \<and> close \<le> length src"
proof -
  let ?c = "src ! i"
  define op where "op = (if ?c = uc CHR ''!'' then i + 1 else i)"
  show ?thesis
  proof (cases "?c = uc CHR ''['' \<or> (?c = uc CHR ''!'' \<and> index src (i + 1) = Some (uc CHR ''[''))")
    case False
    then have "link_label src i = Some None" by (auto simp: link_label_def Let_def)
    then show ?thesis by (rule that) simp
  next
    case c: True
    then have op: "i \<le> op" "op < length src" "src ! op = uc CHR ''[''"
      using i by (auto simp: op_def index_def split: if_splits)
    let ?shuts = "position (\<lambda>x. x = uc CHR '']'') (drop op src)"
    have eq: "link_label src i = (case ?shuts of None \<Rightarrow> Some None
        | Some p \<Rightarrow> if index src (op + p + 1) = Some (uc CHR ''('') then
            Option.bind (slice src (op + p) (length src)) (\<lambda>s.
              case position (\<lambda>x. x = uc CHR '')'') s of None \<Rightarrow> Some None
              | Some q \<Rightarrow> Some (Some (op + 1, op + p, op + p + q + 1)))
          else Some None)"
      using c op(2) unfolding link_label_def Let_def op_def [symmetric]
      by (simp only: if_True slice_tail less_imp_le bind.bind_lunit)
    show ?thesis
    proof (cases ?shuts)
      case None
      with eq have "link_label src i = Some None" by simp
      then show ?thesis by (rule that) simp
    next
      case (Some p)
      then have "p < length (drop op src)" "drop op src ! p = uc CHR '']''"
        using position_Some [OF Some] by auto
      then have p: "p \<noteq> 0" "op + p < length src" using op by (auto intro: gr0I)
      then have "link_label src i = Some None \<or>
          (\<exists>q. link_label src i = Some (Some (op + 1, op + p, op + p + q + 1)))"
        using eq Some by (auto simp: slice_tail split: option.splits)
      then obtain li where li: "link_label src i = Some li"
          "li = None \<or> (\<exists>q. li = Some (op + 1, op + p, op + p + q + 1))" by blast
      show ?thesis by (rule that [OF li(1)]) (use li(2) p op(1) in auto)
    qed
  qed
qed

lemma link_label_Some:
  assumes "link_label src i = Some (Some (a, close, nxt))" and "i < length src"
  shows "i < a \<and> a \<le> close \<and> close \<le> nxt \<and> close \<le> length src"
  using link_label_defined [OF assms(2)] assms(1) by (metis option.inject)

lemma subseq_around:
  assumes "i \<le> a" "a \<le> close" "close \<le> nxt"
    and "subseq t (take (close - a) (drop a src))" and "subseq r (drop nxt src)"
  shows "subseq (t @ r) (drop i src)"
proof -
  have "drop i src = take (a - i) (drop i src) @ drop a src"
    using assms(1) by (metis append_take_drop_id drop_drop le_add_diff_inverse2)
  also have "drop a src = take (close - a) (drop a src) @ drop close src"
    using assms(2) by (metis append_take_drop_id drop_drop le_add_diff_inverse2)
  also have "drop close src = take (nxt - close) (drop close src) @ drop nxt src"
    using assms(3) by (metis append_take_drop_id drop_drop le_add_diff_inverse2)
  finally have eq: "drop i src = take (a - i) (drop i src) @ take (close - a) (drop a src) @
      take (nxt - close) (drop close src) @ drop nxt src" .
  have "subseq (t @ r) (take (close - a) (drop a src) @ take (nxt - close) (drop close src) @ drop nxt src)"
    using assms(4,5) by (intro list_emb_append_mono subseq_append_le_same_iff list_emb_append2) auto
  then show ?thesis by (subst eq) (rule list_emb_append2)
qed

lemma inline_loop_returns:
  "\<exists>r. inline_loop alnum src i out = Some (out @ r) \<and> subseq r (drop i src)"
proof (induction "length src" arbitrary: src i out rule: less_induct)
  case less
  note nested = less.hyps
  show ?case
  proof (induction "length src - i" arbitrary: i out rule: less_induct)
    case less
    have next_ok: "\<exists>r. inline_loop alnum src j out' = Some (out' @ r) \<and> subseq r (drop j src)"
      if "i < j" "i < length src" for j out'
      using less.hyps [of j out'] that by simp
    have pair: "\<exists>r. Option.bind (slice src a close) (\<lambda>s.
          Option.bind (if deep then inline_loop alnum s 0 [] else Some s)
            (\<lambda>t. inline_loop alnum src nxt (out @ t))) = Some (out @ r) \<and> subseq r (drop i src)"
      if p: "i < a \<and> a \<le> close \<and> close \<le> nxt \<and> close \<le> length src" and i: "i < length src"
      for a close nxt deep
    proof -
      let ?s = "take (close - a) (drop a src)"
      have s: "slice src a close = Some ?s" using p by (simp add: slice_def)
      have "length ?s < length src" using p by auto
      then obtain t where t: "(if deep then inline_loop alnum ?s 0 [] else Some ?s) = Some t" "subseq t ?s"
        using nested [of ?s 0 "[]"] by (cases deep) auto
      obtain r where r: "inline_loop alnum src nxt (out @ t) = Some ((out @ t) @ r)" "subseq r (drop nxt src)"
        using next_ok [of nxt "out @ t"] p i by auto
      have "subseq (t @ r) (drop i src)"
        by (rule subseq_around [of i a close nxt]) (use p t r in auto)
      with s t r show ?thesis by (intro exI [of _ "t @ r"]) simp
    qed
    show ?case
    proof (cases "i < length src")
      case False
      then show ?thesis by (subst inline_loop.simps) simp
    next
      case i: True
      have d: "drop i src = src ! i # drop (i + 1) src" using i by (simp add: Cons_nth_drop_Suc)
      consider (esc) "src ! i = uc CHR 0x5C" "i + 1 < length src"
        | (code) a c n where "\<not> (src ! i = uc CHR 0x5C \<and> i + 1 < length src)" "code_span src i = Some (a, c, n)"
        | (em) a c n where "\<not> (src ! i = uc CHR 0x5C \<and> i + 1 < length src)" "code_span src i = None"
            "emphasis alnum src i = Some (Some (a, c, n))"
        | (link) a c n where "\<not> (src ! i = uc CHR 0x5C \<and> i + 1 < length src)" "code_span src i = None"
            "emphasis alnum src i = Some None" "link_label src i = Some (Some (a, c, n))"
        | (other) "\<not> (src ! i = uc CHR 0x5C \<and> i + 1 < length src)" "code_span src i = None"
            "emphasis alnum src i = Some None" "link_label src i = Some None"
        using emphasis_defined [OF i, of alnum] link_label_defined [OF i] by (metis option.exhaust prod_cases3)
      then show ?thesis
      proof cases
        case esc
        obtain r where r: "inline_loop alnum src (i + 2) (out @ [src ! (i + 1)]) = Some ((out @ [src ! (i + 1)]) @ r)"
          "subseq r (drop (i + 2) src)" using next_ok [of "i + 2" "out @ [src ! (i + 1)]"] i by auto
        have "drop (i + 1) src = src ! (i + 1) # drop (i + 2) src" using esc(2) by (simp add: Cons_nth_drop_Suc)
        with r(2) have "subseq (src ! (i + 1) # r) (drop (i + 1) src)" by simp
        then have "subseq (src ! (i + 1) # r) (drop i src)" unfolding d by (rule list_emb_Cons)
        with r(1) esc i show ?thesis
          by (subst inline_loop.simps) (auto intro!: exI [of _ "src ! (i + 1) # r"])
      next
        case code
        from pair [OF code_span_Some [OF code(2) i] i, of False] code i show ?thesis
          by (subst inline_loop.simps) auto
      next
        case em
        from pair [OF emphasis_Some [OF em(3) i] i, of True] em i show ?thesis
          by (subst inline_loop.simps) auto
      next
        case link
        from pair [OF link_label_Some [OF link(4) i] i, of True] link i show ?thesis
          by (subst inline_loop.simps) auto
      next
        case other
        obtain r where r: "inline_loop alnum src (i + 1) (out @ [src ! i]) = Some ((out @ [src ! i]) @ r)"
          "subseq r (drop (i + 1) src)" using next_ok [of "i + 1" "out @ [src ! i]"] i by auto
        then have "subseq (src ! i # r) (drop i src)" using d by simp
        with r(1) other i show ?thesis
          by (subst inline_loop.simps) (auto intro!: exI [of _ "src ! i # r"])
      qed
    qed
  qed
qed

lemma inline_returns: "\<exists>r. inline alnum line = Some r \<and> subseq r line"
  using inline_loop_returns [of alnum line 0 "[]"] by (simp add: inline_def)

section \<open>\<open>plain\<close> comes back\<close>

text \<open>What is written on a line: its characters that are not white space.\<close>

definition ink :: "uchars \<Rightarrow> uchars" where
  "ink s = filter (\<lambda>c. \<not> is_whitespace c) s"

lemma ink_append [simp]: "ink (s @ t) = ink s @ ink t"
  by (simp add: ink_def)

lemma ink_dropWhile [simp]: "ink (dropWhile is_whitespace s) = ink s"
  by (induction s) (auto simp: ink_def)

lemma ink_rev: "ink (rev s) = rev (ink s)"
  by (simp add: ink_def rev_filter)

lemma ink_trim [simp]: "ink (trim_start s) = ink s" "ink (trim_end s) = ink s" "ink (trim s) = ink s"
  by (simp_all add: trim_start_def trim_end_def trim_def ink_rev)

lemma subseq_ink: "subseq r s \<Longrightarrow> subseq (ink r) (ink s)"
  unfolding ink_def by (rule subseq_filter)

lemma subseq_suffix: "suffix r s \<Longrightarrow> subseq r s"
  by (auto simp: suffix_def)

lemma suffix_trim_start [simp]: "suffix (trim_start s) s"
  by (simp add: trim_start_def suffix_dropWhile)

lemma suffix_trim_drop: "suffix (trim_start (drop k s)) s"
  using suffix_trim_start suffix_drop suffix_order.trans by blast

lemma strip_quotes_suffix: "suffix (strip_quotes s) s"
proof (induction s rule: strip_quotes.induct)
  case (2 c r)
  then show ?case
    by (auto intro: suffix_ConsI suffix_order.trans [OF _ suffix_dropWhile])
qed simp

text \<open>
  A slice at the end of a prefix that was read is in range; a prefix of ASCII characters has
  as many bytes as characters.
\<close>

lemma str_from_prefix: "str_from (p @ s) (byte_len p) = Some s"
proof (induction p)
  case Nil
  show ?case by (simp add: byte_len_def)
next
  case (Cons c p)
  have "0 < len_utf8 c" by (simp add: len_utf8_def)
  then obtain k where k: "len_utf8 c = Suc k" using gr0_implies_Suc by blast
  then have "byte_len (c # p) = Suc (k + byte_len p)" by (simp add: byte_len_def)
  with Cons k show ?case by simp
qed

lemma byte_len_ascii: "list_all (\<lambda>c. c < 128) p \<Longrightarrow> byte_len p = length p"
  by (induction p) (auto simp: byte_len_def len_utf8_def)

lemma str_from_ascii:
  assumes "list_all (\<lambda>c. c < 128) p"
  shows "str_from (p @ s) (length p) = Some s"
  using str_from_prefix [of p s] byte_len_ascii [OF assms] by simp

lemma strip_heading_suffix: "\<exists>r. strip_heading s = Some r \<and> suffix r s"
proof (cases "\<exists>t. s = uc CHR ''#'' # t")
  case False
  then show ?thesis by (auto simp: strip_heading_def split: list.split)
next
  case True
  then obtain t where t: "s = uc CHR ''#'' # t" by blast
  let ?run = "takeWhile ((=) (uc CHR ''#'')) t" and ?after = "dropWhile ((=) (uc CHR ''#'')) t"
  have s: "s = (uc CHR ''#'' # ?run) @ ?after" using t by simp
  have "list_all (\<lambda>c. c < 128) (uc CHR ''#'' # ?run)"
    by (auto simp: list_all_iff dest: set_takeWhileD)
  from str_from_ascii [OF this, of ?after]
  have "str_from s (1 + length ?run) = Some ?after" unfolding s [symmetric] by simp
  then have "strip_heading s =
      Some (if 1 + length ?run \<le> 6 \<and> starts_with ?after [uc CHR '' ''] then trim_start ?after else s)"
    by (simp add: strip_heading_def t Let_def)
  moreover have "suffix ?after s" using s by (metis suffix_def)
  ultimately show ?thesis using suffix_order.trans [OF suffix_trim_start] by auto
qed

lemma strip_bullet_suffix: "suffix (strip_bullet marks s) s"
  by (induction marks s rule: strip_bullet.induct) (auto simp: suffix_trim_drop)

lemma strip_number_suffix: "\<exists>r. strip_number s = Some r \<and> suffix r s"
proof -
  let ?run = "takeWhile is_ascii_digit s" and ?after = "dropWhile is_ascii_digit s"
  have digits: "list_all (\<lambda>c. c < 128) ?run"
    by (auto simp: list_all_iff is_ascii_digit_def dest: set_takeWhileD)
  have at: "str_from s (length ?run) = Some ?after"
    using str_from_ascii [OF digits, of ?after] by simp
  have two: "str_from s (length ?run + 2) = Some (drop 2 ?after)"
    if dot: "starts_with ?after (map uc ''. '')"
  proof -
    obtain t where t: "?after = map uc ''. '' @ t"
      using dot unfolding starts_with_def by (metis append_take_drop_id)
    then have s: "s = (?run @ map uc ''. '') @ t" by (metis append.assoc takeWhile_dropWhile_id)
    have "list_all (\<lambda>c. c < 128) (?run @ map uc ''. '')" using digits by simp
    from str_from_ascii [OF this, of t] have "str_from s (length ?run + 2) = Some t"
      unfolding s [symmetric] by simp
    then show ?thesis using t by simp
  qed
  have "suffix (trim_start (drop 2 ?after)) s"
    using suffix_trim_drop suffix_dropWhile suffix_order.trans by blast
  then show ?thesis using at two by (auto simp: strip_number_def Let_def)
qed

lemma subseq_join_split:
  "subseq (ink (join [32] ps)) (ink (concat ps))"
  by (induction "[32 :: nat]" ps rule: join.induct) (auto simp: ink_def is_whitespace_def intro: list_emb_append_mono)

lemma split_char_subseq: "subseq (concat (split_char m s)) s"
  by (induction m s rule: split_char.induct) (auto split: list.splits)

lemma inline_cells_returns:
  "\<exists>ts. inline_cells alnum cells = Some ts \<and> subseq (ink (concat ts)) (ink (concat cells))"
proof (induction cells)
  case Nil
  then show ?case by simp
next
  case (Cons cell cells)
  then obtain ts where ts: "inline_cells alnum cells = Some ts" "subseq (ink (concat ts)) (ink (concat cells))"
    by blast
  obtain t where t: "inline alnum (trim cell) = Some t" "subseq t (trim cell)"
    using inline_returns by blast
  from subseq_ink [OF t(2)] have "subseq (ink t) (ink cell)" by simp
  with ts t show ?case by (auto intro: list_emb_append_mono)
qed

lemma trim_matches_subseq: "subseq (trim_matches m s) s"
proof -
  have "prefix (rev (dropWhile ((=) m) (rev t))) t" for t
    using suffix_dropWhile [of "(=) m" "rev t"] by (simp add: suffix_to_prefix)
  then have "subseq (rev (dropWhile ((=) m) (rev t))) t" for t
    by (meson prefix_imp_subseq)
  then show ?thesis unfolding trim_matches_def
    by (metis subseq_order.trans subseq_suffix suffix_dropWhile)
qed

lemma table_row_returns: "\<exists>t. table_row alnum bare = Some t \<and> subseq (ink t) (ink bare)"
proof -
  let ?cells = "split_char (uc CHR ''|'') (trim_matches (uc CHR ''|'') bare)"
  obtain ts where ts: "inline_cells alnum ?cells = Some ts" "subseq (ink (concat ts)) (ink (concat ?cells))"
    using inline_cells_returns by blast
  have "subseq (ink (concat ?cells)) (ink bare)"
    using split_char_subseq trim_matches_subseq subseq_order.trans subseq_ink by metis
  then have "subseq (ink (join [32] ts)) (ink bare)"
    using ts(2) subseq_join_split subseq_order.trans by blast
  with ts(1) show ?thesis by (simp add: table_row_def ink_def)
qed

lemma plain_line_returns: "\<exists>t. plain_line alnum line = Some t \<and> subseq (ink t) (ink line)"
proof -
  let ?rest = "trim_start line"
  let ?marks = "[map uc ''- '', map uc ''* '', map uc ''+ '']"
  obtain h where h: "strip_heading (strip_quotes ?rest) = Some h" "suffix h (strip_quotes ?rest)"
    using strip_heading_suffix by blast
  obtain body where body: "strip_number (strip_bullet ?marks h) = Some body"
      "suffix body (strip_bullet ?marks h)"
    using strip_number_suffix by blast
  obtain t where t: "inline alnum body = Some t" "subseq t body" using inline_returns by blast
  have "suffix body ?rest"
    by (rule suffix_order.trans [OF body(2) suffix_order.trans [OF strip_bullet_suffix
          suffix_order.trans [OF h(2) strip_quotes_suffix]]])
  then have "subseq t ?rest" using t(2) subseq_suffix subseq_order.trans by blast
  then have b: "subseq (ink t) (ink line)" using subseq_ink [of t ?rest] by simp
  obtain u where u: "table_row alnum (trim_end ?rest) = Some u" "subseq (ink u) (ink (trim_end ?rest))"
    using table_row_returns by blast
  then have u': "subseq (ink u) (ink line)" by simp
  have empty: "subseq (ink []) (ink line)" by (simp add: ink_def)
  show ?thesis
    using t(1) h(1) body(1) b u(1) u' empty
    by (cases "is_rule (trim_end ?rest)"; cases "is_fence (trim_end ?rest)";
        cases "starts_with ?rest [uc CHR ''|'']")
      (simp_all only: plain_line_def Let_def if_True if_False option.inject ex_simps simp_thms bind.bind_lunit)
qed

lemma plain_lines_returns:
  "\<exists>t. plain_lines alnum i lines out = Some (out @ t) \<and> subseq (ink t) (ink (concat lines))"
proof (induction lines arbitrary: i out)
  case Nil
  then show ?case by simp
next
  case (Cons line lines)
  obtain l where l: "plain_line alnum line = Some l" "subseq (ink l) (ink line)"
    using plain_line_returns by blast
  obtain t where t: "plain_lines alnum (i + 1) lines ((if i > 0 then out @ [10] else out) @ l)
      = Some (((if i > 0 then out @ [10] else out) @ l) @ t)" "subseq (ink t) (ink (concat lines))"
    using Cons.IH by blast
  let ?t = "(if i > 0 then [10] else []) @ l @ t"
  have "ink ?t = ink l @ ink t" by (simp add: ink_def is_whitespace_def)
  with l t have "subseq (ink ?t) (ink (concat (line # lines)))"
    by (auto intro: list_emb_append_mono)
  moreover have "plain_lines alnum i (line # lines) out = Some (out @ ?t)"
    using l t by auto
  ultimately show ?case by blast
qed

lemma chomp_subseq: "subseq (chomp l) l"
  by (auto simp: chomp_def butlast_conv_take intro: subseq_order.trans)

lemma concat_chomp_subseq: "subseq (concat (map chomp ls)) (concat ls)"
  by (induction ls) (auto intro: list_emb_append_mono chomp_subseq)

lemma str_lines_subseq: "subseq (concat (str_lines s)) s"
proof -
  let ?ps = "split_char 10 s"
  have ne: "?ps \<noteq> []" by (induction "10 :: nat" s rule: split_char.induct) (auto split: list.splits)
  have "subseq (concat (str_lines s)) (concat (butlast ?ps @ [last ?ps]))"
    by (auto simp: str_lines_def Let_def concat_chomp_subseq intro: list_emb_append_mono)
  also have "butlast ?ps @ [last ?ps] = ?ps" using ne by simp
  finally show ?thesis using split_char_subseq subseq_order.trans by blast
qed

text \<open>
  C39: Taking the markdown marks off a text always comes back with a text: the nested
  readings of pairs inside pairs end and no index or slice is out of range or inside a
  character; and, white space apart, the characters put out were all written, in that order.
  (The cells of a table row are joined by spaces that nobody wrote.)
\<close>

theorem plain_returns:
  "\<exists>t. plain alnum s = Some t \<and> subseq (ink t) (ink s)"
proof -
  obtain t where "plain_lines alnum 0 (str_lines s) [] = Some ([] @ t)"
    and "subseq (ink t) (ink (concat (str_lines s)))"
    using plain_lines_returns by blast
  then show ?thesis
    using subseq_ink [OF str_lines_subseq [of s]] subseq_order.trans by (auto simp: plain_def)
qed

section \<open>Prose is left as typed\<close>

text \<open>
  A line in which no pair can open: no back slash, back tick, bracket or exclamation mark,
  and every star, underscore and tilde stands where it opens nothing.
\<close>

definition prose :: "(nat \<Rightarrow> bool) \<Rightarrow> uchars \<Rightarrow> bool" where
  "prose alnum src = list_all (\<lambda>i. src ! i \<notin> {uc CHR 0x5C, uc CHR ''`'', uc CHR ''['', uc CHR ''!''} \<and>
     (if is_emphasis_mark (src ! i) then opens alnum src i = Some False else True)) [0..<length src]"

lemma prose_step:
  assumes "prose alnum src" and i: "i < length src"
  shows "inline_loop alnum src i out = inline_loop alnum src (i + 1) (out @ [src ! i])"
proof -
  have c: "src ! i \<notin> {uc CHR 0x5C, uc CHR ''`'', uc CHR ''['', uc CHR ''!''}"
    and e: "is_emphasis_mark (src ! i) \<Longrightarrow> opens alnum src i = Some False"
    using assms by (auto simp: prose_def list_all_iff split: if_splits)
  have "code_span src i = None" "link_label src i = Some None" "emphasis alnum src i = Some None"
    using c e by (auto simp: code_span_def link_label_def emphasis_def Let_def)
  then show ?thesis using c i by (subst inline_loop.simps) auto
qed

text \<open>
  Taking the marks off a line on which no pair can open (stars and underscores between
  spaces or inside words included) changes nothing.
\<close>

theorem prose_is_left_as_typed:
  assumes "prose alnum line"
  shows "inline alnum line = Some line"
proof -
  have "inline_loop alnum line i (take i line) = Some line" if "i \<le> length line" for i
    using that
  proof (induction "length line - i" arbitrary: i)
    case 0
    then show ?case by (subst inline_loop.simps) simp
  next
    case (Suc d)
    then have i: "i < length line" by simp
    then have "take (i + 1) line = take i line @ [line ! i]" by (simp add: take_Suc_conv_app_nth)
    moreover have "inline_loop alnum line (i + 1) (take (i + 1) line) = Some line"
      using Suc i by (intro Suc.hyps) simp_all
    ultimately show ?case using prose_step [OF assms i, of "take i line"] by simp
  qed
  from this [of 0] show ?thesis by (simp add: inline_def)
qed

definition ascii_alnum :: "nat \<Rightarrow> bool" where
  "ascii_alnum c \<longleftrightarrow> is_ascii_digit c \<or> (65 \<le> c \<and> c \<le> 90) \<or> (97 \<le> c \<and> c \<le> 122)"

theorem prose_is_left_as_typed_witness:
  "inline ascii_alnum (map uc ''2 * a_b'') = Some (map uc ''2 * a_b'')"
proof -
  have "prose ascii_alnum (map uc ''2 * a_b'')"
    by (simp add: prose_def is_emphasis_mark_def opens_def Let_def run_at_def index_def
        is_whitespace_def ascii_alnum_def is_ascii_digit_def)
  then show ?thesis by (rule prose_is_left_as_typed)
qed

text \<open>An escape drops its back slash whatever follows it, so a Windows path loses its separators.\<close>

lemma inline_eats_path_separator:
  "inline ascii_alnum (map uc ''C:'' @ [uc CHR 0x5C] @ map uc ''a'') = Some (map uc ''C:a'')"
proof -
  have run: "inline_loop ascii_alnum [67, 58, 92, 97] 4 [67, 58, 97] = Some [67, 58, 97]"
    by (subst inline_loop.simps) simp
  have "inline_loop ascii_alnum [67, 58, 92, 97] 2 [67, 58] = Some [67, 58, 97]"
    by (subst inline_loop.simps) (simp add: run)
  moreover have "inline_loop ascii_alnum [67, 58, 92, 97] 1 [67]
      = inline_loop ascii_alnum [67, 58, 92, 97] 2 [67, 58]"
    by (subst inline_loop.simps)
      (simp add: code_span_def link_label_def emphasis_def is_emphasis_mark_def Let_def numeral_2_eq_2)
  moreover have "inline_loop ascii_alnum [67, 58, 92, 97] 0 []
      = inline_loop ascii_alnum [67, 58, 92, 97] 1 [67]"
    by (subst inline_loop.simps)
      (simp add: code_span_def link_label_def emphasis_def is_emphasis_mark_def Let_def)
  ultimately show ?thesis by (simp add: inline_def)
qed

end
