(* ===== verification/SyncPlan.thy ===== *)
theory SyncPlan
  imports PreviewFacts
begin

text \<open>
  \<open>crates/sync/src/plan.rs\<close>: what two sides that hold block files move in a round, and the
  ledger of blocks ever merged.  Names are code points, and a \<open>BTreeSet\<close> of names is its
  strictly sorted list.
\<close>

section \<open>Ordered sets\<close>

definition set_insert :: "'a::linorder \<Rightarrow> 'a list \<Rightarrow> bool \<times> 'a list" where
  "set_insert x s = (x \<notin> set s, if x \<in> set s then s else insort x s)"

definition set_collect :: "'a::linorder list \<Rightarrow> 'a list" where
  "set_collect xs = sort (remdups xs)"

definition set_ok :: "'a::linorder list \<Rightarrow> bool" where
  "set_ok s \<longleftrightarrow> sorted s \<and> distinct s"

lemma set_insert_set [simp]: "set (snd (set_insert x s)) = insert x (set s)"
  by (auto simp: set_insert_def set_insort_key)

lemma set_insert_ok [simp]: "set_ok s \<Longrightarrow> set_ok (snd (set_insert x s))"
  by (simp add: set_ok_def set_insert_def sorted_insort distinct_insort)

lemma set_collect_ok [simp]: "set_ok (set_collect xs)" "set (set_collect xs) = set xs"
  by (simp_all add: set_ok_def set_collect_def)

lemma set_collect_id [simp]: "set_ok s \<Longrightarrow> set_collect s = s"
  by (simp add: set_ok_def set_collect_def sorted_sort_id distinct_remdups_id)

section \<open>The plan\<close>

record side =
  present :: "uchars list"
  merged :: "uchars list"

definition side_new :: "uchars list \<Rightarrow> uchars list \<Rightarrow> side" where
  "side_new p m = \<lparr>present = set_collect p, merged = set_collect m\<rparr>"

record plan =
  pull :: "uchars list"
  push :: "uchars list"

definition plan_is_empty :: "plan \<Rightarrow> bool" where
  "plan_is_empty p \<longleftrightarrow> pull p = [] \<and> push p = []"

definition make_plan :: "side \<Rightarrow> side \<Rightarrow> plan" where
  "make_plan mine theirs =
     \<lparr>pull = filter (\<lambda>n. n \<notin> set (merged mine)) (present theirs),
      push = filter (\<lambda>n. n \<notin> set (present theirs) \<and> n \<notin> set (merged theirs)) (present mine)\<rparr>"

section \<open>The ledger\<close>

type_synonym name_ledger = "uchars list"

definition ledger_parse :: "uchars \<Rightarrow> name_ledger" where
  "ledger_parse content = set_collect (filter (\<lambda>l. l \<noteq> []) (map trim (str_lines content)))"

definition ledger_render :: "name_ledger \<Rightarrow> uchars" where
  "ledger_render l = concat (map (\<lambda>n. n @ [10]) l)"

definition ledger_insert :: "uchars \<Rightarrow> name_ledger \<Rightarrow> bool \<times> name_ledger" where
  "ledger_insert n l = set_insert n l"

definition ledger_has :: "name_ledger \<Rightarrow> uchars \<Rightarrow> bool" where
  "ledger_has l n = (n \<in> set l)"

section \<open>What the ledger promises\<close>

text \<open>A name that survives a line of its own: no line feed, and no white space at its ends.\<close>

definition line_name :: "uchars \<Rightarrow> bool" where
  "line_name n \<longleftrightarrow> n \<noteq> [] \<and> 10 \<notin> set n \<and> \<not> is_whitespace (hd n) \<and> \<not> is_whitespace (last n)"

lemma trim_line_name: "line_name n \<Longrightarrow> trim n = n"
proof -
  assume n: "line_name n"
  then have "trim_start n = n" by (cases n) (auto simp: line_name_def trim_start_def)
  moreover have "rev n \<noteq> []" "\<not> is_whitespace (hd (rev n))" using n by (auto simp: line_name_def hd_rev)
  then have "dropWhile is_whitespace (rev n) = rev n" by (cases "rev n") auto
  ultimately show ?thesis by (simp add: trim_def trim_end_def)
qed

lemma chomp_line_name: "line_name n \<Longrightarrow> chomp n = n"
  by (auto simp: line_name_def chomp_def is_whitespace_def)

lemma split_char_line: "10 \<notin> set n \<Longrightarrow> split_char 10 (n @ 10 # rest) = n # split_char 10 rest"
  by (induction n) auto

lemma split_char_nonempty: "split_char m s \<noteq> []"
  by (induction m s rule: split_char.induct) (auto split: list.splits)

lemma split_render:
  "list_all line_name l \<Longrightarrow> split_char 10 (ledger_render l) = l @ [[]]"
proof (induction l)
  case (Cons n l)
  have "ledger_render (n # l) = n @ 10 # ledger_render l" by (simp add: ledger_render_def)
  with Cons show ?case by (simp add: split_char_line line_name_def)
qed (simp add: ledger_render_def)

lemma lines_render: "list_all line_name l \<Longrightarrow> str_lines (ledger_render l) = l"
  by (simp add: str_lines_def split_render) (induction l, auto simp: chomp_line_name)

text \<open>
  A ledger written to its file and read back is the same ledger.
\<close>

lemma ledger_file_roundtrip:
  assumes "set_ok l" and "list_all line_name l"
  shows "ledger_parse (ledger_render l) = l"
proof -
  have "map trim l = l" using assms(2) by (induction l) (auto simp: trim_line_name)
  moreover have "filter (\<lambda>n. n \<noteq> []) l = l" using assms(2) by (induction l) (auto simp: line_name_def)
  ultimately show ?thesis using assms by (simp add: ledger_parse_def lines_render)
qed

section \<open>What a round of the plan promises\<close>

text \<open>
  Both sides after the plan was carried out: a pulled block is merged and present here, a
  pushed one present there (and merged, unless the other side is a dumb node).
\<close>

definition after_pull :: "plan \<Rightarrow> side \<Rightarrow> side" where
  "after_pull p s = s\<lparr>present := set_collect (present s @ pull p), merged := set_collect (merged s @ pull p)\<rparr>"

definition after_push :: "bool \<Rightarrow> plan \<Rightarrow> side \<Rightarrow> side" where
  "after_push dumb p s = s\<lparr>present := set_collect (present s @ push p),
     merged := (if dumb then merged s else set_collect (merged s @ push p))\<rparr>"

lemma plan_settles:
  assumes "set (present mine) \<subseteq> set (merged mine)"
  shows "plan_is_empty (make_plan (after_pull (make_plan mine theirs) mine)
    (after_push dumb (make_plan mine theirs) theirs))"
  using assms
  by (auto simp: plan_is_empty_def make_plan_def after_pull_def after_push_def filter_empty_conv)

lemma plan_brings_everything:
  "set (present theirs) \<subseteq> set (merged (after_pull (make_plan mine theirs) mine))"
  "set (present mine) \<subseteq> set (present (after_push dumb (make_plan mine theirs) theirs)) \<union> set (merged theirs)"
  by (auto simp: make_plan_def after_pull_def after_push_def)

lemma plan_never_pulls_back:
  "set (pull (make_plan mine theirs)) \<inter> set (merged mine) = {}"
  "set (push (make_plan mine theirs)) \<inter> set (merged theirs) = {}"
  by (auto simp: make_plan_def)

end
