(* ===== verification/Pile.thy ===== *)
theory Pile
  imports SyncPlan
begin

text \<open>
  \<open>crates/sync/src/store.rs\<close>: a document kept as a pile of immutable block files.  The
  document is a CRDT of a third-party crate (loro); it is the parameter \<open>doc_ops\<close>, with an
  operation named by its writer and that writer's counter, as loro names them, so that a version
  vector is a function from writers to counters.  A write to the directory may
  fail: an operation takes the outcome of its \<open>i\<close>-th write, and the state it leaves behind then is
  part of its answer.
\<close>

section \<open>The document\<close>

type_synonym vv = "nat \<Rightarrow> nat"

record import_span =
  sp_writer :: nat
  sp_start :: nat
  sp_end :: nat

record merge_report =
  rep_applied :: "import_span list"
  rep_pending :: "import_span list"

record ('d, 'b) doc_ops =
  d_open :: "nat \<Rightarrow> string + 'd"
  d_peer :: "'d \<Rightarrow> nat"
  d_version :: "'d \<Rightarrow> vv"
  d_changes :: "'d \<Rightarrow> vv \<Rightarrow> string + 'b"
  d_snapshot :: "'d \<Rightarrow> string + 'b"
  d_merge :: "'d \<Rightarrow> 'b \<Rightarrow> string + merge_report \<times> 'd"
  d_items :: "'d \<Rightarrow> nat"
  b_empty :: "'b \<Rightarrow> bool"
  b_len :: "'b \<Rightarrow> nat"

section \<open>The directory\<close>

text \<open>
  The files with the block extension, the ledger's text, the epoch the epoch file parses to,
  and the name in each pen's file.
\<close>

record 'b pile =
  p_dir :: bool
  p_blocks :: "(uchars, 'b) btree"
  p_ledger :: "uchars option"
  p_epoch :: "nat option"
  p_pens :: "nat \<rightharpoonup> nat"

datatype pile_error = DocError string | CantMakeDir | CantList | CantWrite | CantRead uchars | UnresolvedImports

definition EPOCH :: nat where "EPOCH = 1"

definition read_epoch :: "'b pile \<Rightarrow> nat" where
  "read_epoch p = (case p_epoch p of None \<Rightarrow> 0 | Some e \<Rightarrow> e)"

definition read_ledger :: "'b pile \<Rightarrow> name_ledger" where
  "read_ledger p = (case p_ledger p of None \<Rightarrow> [] | Some t \<Rightarrow> ledger_parse t)"

text \<open>
  \<open>blocks\<close>: the names, sorted; no directory is no blocks, and a directory that cannot be listed
  (\<open>ok\<close>) is an error.
\<close>

definition blocks :: "'b pile \<Rightarrow> uchars list" where
  "blocks p = (if p_dir p then map fst (p_blocks p) else [])"

definition list_blocks :: "bool \<Rightarrow> 'b pile \<Rightarrow> pile_error + uchars list" where
  "list_blocks ok p = (if p_dir p \<and> \<not> ok then Inl CantList else Inr (blocks p))"

section \<open>The store of one open copy\<close>

record block_store =
  on_disk :: vv
  st_ledger :: name_ledger
  held :: "uchars list"
  st_epoch :: nat
  stamp :: bool
  pen :: "(nat \<times> nat) option"
  retired :: "nat option"
  pending :: "nat \<rightharpoonup> nat"

definition remember_pending :: "merge_report \<Rightarrow> (nat \<rightharpoonup> nat) \<Rightarrow> (nat \<rightharpoonup> nat)" where
  "remember_pending rep pend =
     foldl (\<lambda>m s. m(sp_writer s \<mapsto> (case m (sp_writer s) of None \<Rightarrow> sp_end s | Some e \<Rightarrow> max e (sp_end s))))
       pend (rep_pending rep)"

definition record_import :: "merge_report \<Rightarrow> block_store \<Rightarrow> block_store" where
  "record_import rep st = st\<lparr>pending := remember_pending rep (pending st)\<rparr>"

text \<open>
  The map of pendings is finite; the check runs over it.  \<open>unresolved\<close> is the closed form
  used in statements: some remembered end is past the version.
\<close>

definition unresolved :: "(nat \<rightharpoonup> nat) \<Rightarrow> vv \<Rightarrow> bool" where
  "unresolved pend v \<longleftrightarrow> (\<exists>w e. pend w = Some e \<and> v w < e)"

definition has_unresolved_imports :: "('d, 'b) doc_ops \<Rightarrow> 'd \<Rightarrow> block_store \<Rightarrow> bool" where
  "has_unresolved_imports D d st = unresolved (pending st) (d_version D d)"

definition store_side :: "bool \<Rightarrow> block_store \<Rightarrow> 'b pile \<Rightarrow> pile_error + side" where
  "store_side ok st p = and_then (list_blocks ok p) (\<lambda>ns. Inr (side_new ns (st_ledger st)))"

text \<open>
  Writing: \<open>io i\<close> says whether a call to the directory succeeds: 0 making it, 1 the epoch file,
  2 the block, 3 the ledger, 4 the listing that numbers a block, 5 the listing that a compaction
  replaces.
\<close>

definition make_dir :: "(nat \<Rightarrow> bool) \<Rightarrow> block_store \<Rightarrow> 'b pile \<Rightarrow> (pile_error + unit) \<times> block_store \<times> 'b pile" where
  "make_dir io st p =
     (if \<not> io 0 then (Inl CantMakeDir, st, p)
      else
        let p' = p\<lparr>p_dir := True\<rparr> in
        if stamp st then
          if p_epoch p' = None then
            if io 1 then (Inr (), st\<lparr>stamp := False\<rparr>, p'\<lparr>p_epoch := Some (st_epoch st)\<rparr>)
            else (Inl CantWrite, st, p')
          else (Inr (), st\<lparr>stamp := False\<rparr>, p')
        else (Inr (), st, p'))"

definition write_block :: "bool \<Rightarrow> uchars \<Rightarrow> 'b \<Rightarrow> 'b pile \<Rightarrow> (pile_error + unit) \<times> 'b pile" where
  "write_block ok n b p =
     (if ok then (Inr (), p\<lparr>p_blocks := bt_insert n b (p_blocks p)\<rparr>) else (Inl CantWrite, p))"

definition save_names :: "bool \<Rightarrow> block_store \<Rightarrow> 'b pile \<Rightarrow> (pile_error + unit) \<times> 'b pile" where
  "save_names ok st p =
     (if ok then (Inr (), p\<lparr>p_ledger := Some (ledger_render (st_ledger st))\<rparr>) else (Inl CantWrite, p))"

definition enter_name :: "uchars \<Rightarrow> block_store \<Rightarrow> block_store" where
  "enter_name n st = st\<lparr>st_ledger := snd (ledger_insert n (st_ledger st)), held := snd (set_insert n (held st))\<rparr>"

section \<open>Names\<close>

definition hex_char :: "nat \<Rightarrow> nat" where
  "hex_char d = (if d < 10 then 48 + d else 87 + d)"

fun hex_pad :: "nat \<Rightarrow> nat \<Rightarrow> uchars" where
  "hex_pad 0 n = (if n = 0 then [] else hex_pad 0 (n div 16) @ [hex_char (n mod 16)])"
| "hex_pad (Suc k) n = hex_pad k (n div 16) @ [hex_char (n mod 16)]"

declare hex_pad.simps [simp del]

definition EXT :: uchars where "EXT = map uc ''.loro''"

definition unit_prefix :: "nat \<Rightarrow> uchars" where
  "unit_prefix peer = map uc ''u-'' @ hex_pad 16 peer @ map uc ''-''"

definition snap_prefix :: "nat \<Rightarrow> uchars" where
  "snap_prefix peer = map uc ''snap-'' @ hex_pad 16 peer @ map uc ''-''"

definition from_digit :: "nat \<Rightarrow> nat option" where
  "from_digit c = (if 48 \<le> c \<and> c \<le> 57 then Some (c - 48)
     else if 97 \<le> c \<and> c \<le> 102 then Some (c - 87)
     else if 65 \<le> c \<and> c \<le> 70 then Some (c - 55) else None)"

fun from_digits :: "uchars \<Rightarrow> nat \<Rightarrow> nat option" where
  "from_digits [] acc = Some acc"
| "from_digits (c # cs) acc =
     (case from_digit c of None \<Rightarrow> None
      | Some d \<Rightarrow> if acc * 16 + d \<le> u32_max then from_digits cs (acc * 16 + d) else None)"

text \<open>\<open>u32::from_str_radix(_, 16)\<close>: an optional plus sign, at least one digit, no overflow.\<close>

definition from_hex :: "uchars \<Rightarrow> nat option" where
  "from_hex s =
     (case s of [] \<Rightarrow> None
      | c # cs \<Rightarrow> if c = uc CHR ''+'' \<and> cs \<noteq> [] then from_digits cs 0 else from_digits s 0)"

definition number_of :: "uchars \<Rightarrow> uchars \<Rightarrow> nat option" where
  "number_of pre n =
     (if take (length pre) n = pre then
        let r = drop (length pre) n in
        if length EXT \<le> length r \<and> drop (length r - length EXT) r = EXT
        then from_hex (take (length r - length EXT) r) else None
      else None)"

text \<open>A directory that cannot be listed (\<open>ok\<close>) leaves the numbers of the ledger alone.\<close>

definition next_number :: "bool \<Rightarrow> uchars \<Rightarrow> block_store \<Rightarrow> 'b pile \<Rightarrow> nat" where
  "next_number ok pre st p =
     (let ns = List.map_filter (number_of pre) ((if ok then blocks p else []) @ st_ledger st) in
      if ns = [] then 0 else (Max (set ns) + 1) mod 2 ^ 32)"

definition block_name :: "uchars \<Rightarrow> nat \<Rightarrow> uchars" where
  "block_name pre n = pre @ hex_pad 8 n @ EXT"

section \<open>Writing a block: \<open>flush\<close>, \<open>absorb\<close>, \<open>compact\<close>\<close>

type_synonym ('d, 'b, 'r) store_result = "(pile_error + 'r) \<times> block_store \<times> 'b pile"

definition flush ::
    "('d, 'b) doc_ops \<Rightarrow> (nat \<Rightarrow> bool) \<Rightarrow> 'd \<Rightarrow> block_store \<Rightarrow> 'b pile \<Rightarrow>
     (pile_error + uchars option) \<times> block_store \<times> 'b pile" where
  "flush D io d st p =
     (if d_version D d = on_disk st then (Inr None, st, p)
      else case d_changes D d (on_disk st) of
        Inl e \<Rightarrow> (Inl (DocError e), st, p)
      | Inr delta \<Rightarrow>
          if b_empty D delta then (Inr None, st, p)
          else case make_dir io st p of
            (Inl e, st1, p1) \<Rightarrow> (Inl e, st1, p1)
          | (Inr _, st1, p1) \<Rightarrow>
              let pre = unit_prefix (d_peer D d); n = block_name pre (next_number (io 4) pre st1 p1) in
              case write_block (io 2) n delta p1 of
                (Inl e, p2) \<Rightarrow> (Inl e, st1, p2)
              | (Inr _, p2) \<Rightarrow>
                  let st2 = enter_name n st1 in
                  case save_names (io 3) st2 p2 of
                    (Inl e, p3) \<Rightarrow> (Inl e, st2, p3)
                  | (Inr _, p3) \<Rightarrow> (Inr (Some n), st2\<lparr>on_disk := d_version D d\<rparr>, p3))"

definition absorb ::
    "('d, 'b) doc_ops \<Rightarrow> (nat \<Rightarrow> bool) \<Rightarrow> uchars \<Rightarrow> 'b \<Rightarrow> 'd \<times> block_store \<times> 'b pile \<Rightarrow>
     (pile_error + unit) \<times> 'd \<times> block_store \<times> 'b pile" where
  "absorb D io n b dsp =
     (case dsp of (d, st, p) \<Rightarrow>
      case d_merge D d b of
        Inl e \<Rightarrow> (Inl (DocError e), d, st, p)
      | Inr (rep, d') \<Rightarrow>
          case make_dir io (record_import rep st) p of
            (Inl e, st1, p1) \<Rightarrow> (Inl e, d', st1, p1)
          | (Inr _, st1, p1) \<Rightarrow>
              (case write_block (io 2) n b p1 of
                 (Inl e, p2) \<Rightarrow> (Inl e, d', st1, p2)
               | (Inr _, p2) \<Rightarrow>
                   let st2 = enter_name n st1 in
                   (case save_names (io 3) st2 p2 of
                      (Inl e, p3) \<Rightarrow> (Inl e, d', st2, p3)
                    | (Inr _, p3) \<Rightarrow> (Inr (), d', st2\<lparr>on_disk := d_version D d'\<rparr>, p3))))"

definition read_block :: "uchars \<Rightarrow> 'b pile \<Rightarrow> pile_error + 'b" where
  "read_block n p = (case bt_get (p_blocks p) n of None \<Rightarrow> Inl (CantRead n) | Some b \<Rightarrow> Inr b)"

text \<open>\<open>remove_file\<close> of each covered block; \<open>rm\<close> says which removals succeed, and no one looks.\<close>

definition remove_blocks :: "(uchars \<Rightarrow> bool) \<Rightarrow> uchars list \<Rightarrow> block_store \<Rightarrow> 'b pile \<Rightarrow> block_store \<times> 'b pile" where
  "remove_blocks rm old st p =
     (st\<lparr>held := filter (\<lambda>n. n \<notin> set old) (held st)\<rparr>,
      p\<lparr>p_blocks := bt_retain (\<lambda>n _. \<not> (n \<in> set old \<and> rm n)) (p_blocks p)\<rparr>)"

definition compact ::
    "('d, 'b) doc_ops \<Rightarrow> (nat \<Rightarrow> bool) \<Rightarrow> (uchars \<Rightarrow> bool) \<Rightarrow> 'd \<Rightarrow> block_store \<Rightarrow> 'b pile \<Rightarrow>
     (pile_error + uchars) \<times> block_store \<times> 'b pile" where
  "compact D io rm d st p =
     (if has_unresolved_imports D d st then (Inl UnresolvedImports, st, p)
      else case make_dir io st p of
        (Inl e, st1, p1) \<Rightarrow> (Inl e, st1, p1)
      | (Inr _, st1, p1) \<Rightarrow>
          (case list_blocks (io 5) p1 of
             Inl e \<Rightarrow> (Inl e, st1, p1)
           | Inr ns \<Rightarrow>
          let old = filter (\<lambda>n. n \<in> set (held st1)) ns in
          (case d_snapshot D d of
             Inl e \<Rightarrow> (Inl (DocError e), st1, p1)
           | Inr snap \<Rightarrow>
               let pre = snap_prefix (d_peer D d); n = block_name pre (next_number (io 4) pre st1 p1) in
               (case write_block (io 2) n snap p1 of
                  (Inl e, p2) \<Rightarrow> (Inl e, st1, p2)
                | (Inr _, p2) \<Rightarrow>
                    let (st3, p3) = remove_blocks rm (filter (\<lambda>m. m \<noteq> n) old) st1 p2; st4 = enter_name n st3 in
                    (case save_names (io 3) st4 p3 of
                       (Inl e, p4) \<Rightarrow> (Inl e, st4, p4)
                     | (Inr _, p4) \<Rightarrow> (Inr n, st4\<lparr>on_disk := d_version D d\<rparr>, p4))))))"

text \<open>
  \<open>took_in\<close>: a merge that raises the counter of this copy's own name retires its pen; \<open>fresh\<close> is
  the new name, \<open>ok\<close> the outcome of its write.
\<close>

definition took_in ::
    "('d, 'b) doc_ops \<Rightarrow> bool \<Rightarrow> nat \<Rightarrow> vv \<Rightarrow> 'd \<Rightarrow> block_store \<Rightarrow> 'b pile \<Rightarrow> nat option \<times> block_store \<times> 'b pile" where
  "took_in D ok fresh before d st p =
     (case pen st of
        None \<Rightarrow> (None, st, p)
      | Some (k, name) \<Rightarrow>
          if d_version D d name \<le> before name then (None, st, p)
          else if \<not> ok then (None, st, p)
          else (Some name, st\<lparr>pen := None, retired := Some name\<rparr>, p\<lparr>p_pens := (p_pens p)(k \<mapsto> fresh)\<rparr>))"

section \<open>Reading\<close>

text \<open>
  What a reader sees of the directory: the listing, and for each listed block what
  \<open>fs::read\<close> gave when its turn came.
\<close>

datatype 'b block_read = ReadOk 'b | ReadGone | ReadFailed

record 'b look =
  lk_dir :: bool
  lk_listed :: bool
  lk_list :: "uchars list"
  lk_read :: "uchars \<Rightarrow> 'b block_read"
  lk_ledger :: name_ledger
  lk_epoch :: nat

definition look_at :: "'b pile \<Rightarrow> 'b look" where
  "look_at p = \<lparr>lk_dir = p_dir p, lk_listed = True, lk_list = blocks p,
     lk_read = (\<lambda>n. case bt_get (p_blocks p) n of Some b \<Rightarrow> ReadOk b | None \<Rightarrow> ReadGone),
     lk_ledger = read_ledger p, lk_epoch = read_epoch p\<rparr>"

record 'd imported =
  im_doc :: 'd
  im_names :: "uchars list"
  im_broken :: "uchars list"
  im_pending :: "nat \<rightharpoonup> nat"
  im_vanished :: bool

definition read_one :: "('d, 'b) doc_ops \<Rightarrow> (uchars \<Rightarrow> 'b block_read) \<Rightarrow> 'd imported \<Rightarrow> uchars \<Rightarrow> 'd imported" where
  "read_one D rd im n =
     (case rd n of
        ReadOk b \<Rightarrow>
          (case d_merge D (im_doc im) b of
             Inl _ \<Rightarrow> im\<lparr>im_broken := im_broken im @ [n]\<rparr>
           | Inr (rep, d) \<Rightarrow>
               im\<lparr>im_doc := d, im_pending := remember_pending rep (im_pending im),
                 im_names := snd (set_insert n (im_names im))\<rparr>)
      | ReadGone \<Rightarrow> im\<lparr>im_vanished := True\<rparr>
      | ReadFailed \<Rightarrow> im\<lparr>im_broken := im_broken im @ [n]\<rparr>)"

definition read_blocks :: "('d, 'b) doc_ops \<Rightarrow> 'b look \<Rightarrow> uchars list \<Rightarrow> 'd \<Rightarrow> 'd imported" where
  "read_blocks D lk kept d =
     foldl (read_one D (lk_read lk))
       \<lparr>im_doc = d, im_names = [], im_broken = [], im_pending = Map.empty, im_vanished = False\<rparr>
       (filter (\<lambda>n. n \<notin> set kept) (lk_list lk))"

record 'd loaded =
  l_store :: block_store
  l_doc :: 'd
  l_broken :: "uchars list"

text \<open>What an earlier read of the directory kept: a snapshot and the blocks it was made of.\<close>

record 'b read_base =
  rb_snapshot :: 'b
  rb_names :: "uchars list"
  rb_broken :: "uchars list"

definition merge_base :: "('d, 'b) doc_ops \<Rightarrow> 'd \<Rightarrow> 'b read_base option \<Rightarrow> 'd \<times> uchars list \<times> uchars list \<times> uchars list" where
  "merge_base D d base =
     (case base of
        None \<Rightarrow> (d, [], [], [])
      | Some r \<Rightarrow>
          (case d_merge D d (rb_snapshot r) of
             Inr (rep, d') \<Rightarrow>
               if rep_pending rep = []
               then (d', filter (\<lambda>n. n \<notin> set (rb_broken r)) (rb_names r), rb_broken r, rb_names r)
               else (d, [], [], [])
           | Inl _ \<Rightarrow> (d, [], [], [])))"

text \<open>
  \<open>read_once\<close>: \<open>peer\<close> and \<open>pn\<close> are the lease's name and pen, \<open>ok\<close> the outcome of
  saving the ledger.  Answers the copy, whether a listed block was gone, and whether the ledger
  was written.
\<close>

definition read_once ::
    "('d, 'b) doc_ops \<Rightarrow> 'b look \<Rightarrow> nat \<Rightarrow> (nat \<times> nat) option \<Rightarrow> bool \<Rightarrow> 'b read_base option \<Rightarrow>
     pile_error + 'd loaded \<times> bool \<times> name_ledger option" where
  "read_once D lk peer pn ok base =
     (case d_open D peer of
        Inl e \<Rightarrow> Inl (DocError e)
      | Inr d0 \<Rightarrow>
          let (d, held0, broken0, kept) = merge_base D d0 base;
              im = read_blocks D lk kept d;
              grew = list_ex (\<lambda>n. n \<notin> set (lk_ledger lk)) (im_names im);
              led = foldl (\<lambda>l n. snd (ledger_insert n l)) (lk_ledger lk) (im_names im);
              st = \<lparr>on_disk = d_version D (im_doc im), st_ledger = led,
                    held = foldl (\<lambda>h n. snd (set_insert n h)) held0 (im_names im),
                    st_epoch = lk_epoch lk, stamp = False, pen = pn, retired = None, pending = im_pending im\<rparr> in
          if \<not> lk_listed lk then Inl CantList
          else if lk_dir lk \<and> grew \<and> \<not> ok then Inl CantWrite
          else Inr (\<lparr>l_store = st, l_doc = im_doc im, l_broken = broken0 @ im_broken im\<rparr>, im_vanished im,
                    if lk_dir lk \<and> grew then Some led else None))"

definition load_inner ::
    "('d, 'b) doc_ops \<Rightarrow> 'b look \<Rightarrow> 'b look \<Rightarrow> nat \<Rightarrow> (nat \<times> nat) option \<Rightarrow> bool \<Rightarrow> bool \<Rightarrow> 'b read_base option \<Rightarrow>
     pile_error + 'd loaded \<times> name_ledger option" where
  "load_inner D lk1 lk2 peer pn ok1 ok2 base =
     and_then (read_once D lk1 peer pn ok1 base) (\<lambda>(l, vanished, led).
       if \<not> vanished then Inr (l, led)
       else and_then (read_once D lk2 peer pn ok2 None) (\<lambda>(l', _, led'). Inr (l', led')))"

text \<open>\<open>read_snapshot\<close>: reads without writing, and refuses what moved or is incomplete.\<close>

definition read_snapshot :: "('d, 'b) doc_ops \<Rightarrow> 'b look \<Rightarrow> bool \<Rightarrow> nat \<Rightarrow> pile_error + 'd" where
  "read_snapshot D lk unchanged peer =
     (case d_open D peer of
        Inl e \<Rightarrow> Inl (DocError e)
      | Inr d0 \<Rightarrow>
          let im = read_blocks D lk [] d0 in
          if \<not> lk_listed lk then Inl CantList
          else if im_vanished im \<or> im_broken im \<noteq> [] \<or> unresolved (im_pending im) (d_version D (im_doc im)) \<or> \<not> unchanged
          then Inl (DocError ''configuration changed or is incomplete during read-only snapshot'')
          else Inr (im_doc im))"

text \<open>\<open>load_pile\<close>'s last step: an empty pile starts in this build's epoch.\<close>

definition stamp_empty :: "'d loaded \<Rightarrow> 'd loaded" where
  "stamp_empty l =
     (if st_epoch (l_store l) < EPOCH \<and> held (l_store l) = [] \<and> l_broken l = []
      then l\<lparr>l_store := (l_store l)\<lparr>st_epoch := EPOCH, stamp := True\<rparr>\<rparr> else l)"

end
