(* ===== verification/PileFacts.thy ===== *)
theory PileFacts
  imports Pile
begin

text \<open>
  The facts about the document that the store's code relies on (\<open>doc_laws\<close>), stated over what
  a block carries and what a copy was given, and the states each operation of the store can
  leave.
\<close>

section \<open>What a document promises\<close>

type_synonym ops = "(nat \<times> nat) set"

definition covered :: "vv \<Rightarrow> ops" where
  "covered v = {(w, c). c < v w}"

definition pend_ops :: "(nat \<rightharpoonup> nat) \<Rightarrow> ops" where
  "pend_ops m = {(w, c). \<exists>e. m w = Some e \<and> c < e}"

definition rep_ops :: "merge_report \<Rightarrow> ops" where
  "rep_ops rep = {(w, c). \<exists>s \<in> set (rep_pending rep). sp_writer s = w \<and> c < sp_end s}"

text \<open>
  The documented behaviour of loro the code rests on: a fresh document holds nothing; a merge
  never goes back, keeps the writer's name and applies each operation of the bytes or reports
  it pending; an export since a version carries exactly what the document has beyond it, a
  snapshot all it has; and bytes exported since a version that the importer includes leave nothing of
  the exporter's out.
\<close>

definition open_law :: "('d, 'b) doc_ops \<Rightarrow> ('d \<Rightarrow> ops) \<Rightarrow> bool" where
  "open_law D known \<longleftrightarrow> (\<forall>p d. d_open D p = Inr d \<longrightarrow>
     d_version D d = (\<lambda>_. 0) \<and> known d = {} \<and> d_peer D d = p)"

definition merge_law :: "('d, 'b) doc_ops \<Rightarrow> ('b \<Rightarrow> ops) \<Rightarrow> ('d \<Rightarrow> ops) \<Rightarrow> bool" where
  "merge_law D carries known \<longleftrightarrow> (\<forall>d b rep d'. d_merge D d b = Inr (rep, d') \<longrightarrow>
     d_peer D d' = d_peer D d \<and> known d' = known d \<union> carries b \<and> d_version D d \<le> d_version D d' \<and>
     carries b \<subseteq> covered (d_version D d') \<union> rep_ops rep)"

definition known_law :: "('d, 'b) doc_ops \<Rightarrow> ('d \<Rightarrow> ops) \<Rightarrow> bool" where
  "known_law D known \<longleftrightarrow> (\<forall>d. covered (d_version D d) \<subseteq> known d)"

definition export_law :: "('d, 'b) doc_ops \<Rightarrow> ('b \<Rightarrow> ops) \<Rightarrow> bool" where
  "export_law D carries \<longleftrightarrow>
     (\<forall>d v b. d_changes D d v = Inr b \<longrightarrow>
        carries b = covered (d_version D d) - covered v \<and> (b_empty D b \<longrightarrow> carries b = {})) \<and>
     (\<forall>d b. d_snapshot D d = Inr b \<longrightarrow> carries b = covered (d_version D d))"

definition catch_up_law :: "('d, 'b) doc_ops \<Rightarrow> bool" where
  "catch_up_law D \<longleftrightarrow>
     (\<forall>d v b d' rep d''. d_changes D d v = Inr b \<and> v \<le> d_version D d' \<and> d_merge D d' b = Inr (rep, d'')
        \<longrightarrow> d_version D d \<le> d_version D d'')"

definition doc_laws :: "('d, 'b) doc_ops \<Rightarrow> ('b \<Rightarrow> ops) \<Rightarrow> ('d \<Rightarrow> ops) \<Rightarrow> bool" where
  "doc_laws D carries known \<longleftrightarrow> open_law D known \<and> merge_law D carries known \<and> known_law D known \<and>
     export_law D carries \<and> catch_up_law D"

lemma doc_openD:
  assumes "doc_laws D carries known" and "d_open D p = Inr d"
  shows "d_version D d = (\<lambda>_. 0)" and "known d = {}" and "d_peer D d = p"
  using assms by (simp_all add: doc_laws_def open_law_def)

lemma doc_mergeD:
  assumes "doc_laws D carries known" and "d_merge D d b = Inr (rep, d')"
  shows "d_peer D d' = d_peer D d" and "known d' = known d \<union> carries b"
    and "d_version D d \<le> d_version D d'" and "carries b \<subseteq> covered (d_version D d') \<union> rep_ops rep"
proof -
  have "merge_law D carries known" using assms(1) by (simp add: doc_laws_def)
  then show "d_peer D d' = d_peer D d" "known d' = known d \<union> carries b"
    "d_version D d \<le> d_version D d'" "carries b \<subseteq> covered (d_version D d') \<union> rep_ops rep"
    using assms(2) unfolding merge_law_def by meson+
qed

lemma doc_knownD: "doc_laws D carries known \<Longrightarrow> covered (d_version D d) \<subseteq> known d"
  by (simp add: doc_laws_def known_law_def)

lemma doc_changesD:
  assumes "doc_laws D carries known" and "d_changes D d v = Inr b"
  shows "carries b = covered (d_version D d) - covered v" and "b_empty D b \<Longrightarrow> carries b = {}"
proof -
  have "export_law D carries" using assms(1) by (simp add: doc_laws_def)
  then show "carries b = covered (d_version D d) - covered v" "b_empty D b \<Longrightarrow> carries b = {}"
    using assms(2) unfolding export_law_def by meson+
qed

lemma doc_snapshotD:
  "doc_laws D carries known \<Longrightarrow> d_snapshot D d = Inr b \<Longrightarrow> carries b = covered (d_version D d)"
  unfolding doc_laws_def export_law_def by meson

lemma doc_catch_upD:
  "doc_laws D carries known \<Longrightarrow> d_changes D d v = Inr b \<Longrightarrow> v \<le> d_version D d' \<Longrightarrow>
   d_merge D d' b = Inr (rep, d'') \<Longrightarrow> d_version D d \<le> d_version D d''"
  unfolding doc_laws_def catch_up_law_def by meson

lemma covered_mono: "v \<le> v' \<Longrightarrow> covered v \<subseteq> covered v'"
  by (auto simp: covered_def le_fun_def intro: less_le_trans)

lemma covered_le: "covered v \<subseteq> covered v' \<Longrightarrow> v \<le> v'"
proof (rule le_funI, rule ccontr)
  fix w
  assume sub: "covered v \<subseteq> covered v'" and "\<not> v w \<le> v' w"
  then have "(w, v' w) \<in> covered v" by (simp add: covered_def)
  with sub have "(w, v' w) \<in> covered v'" by blast
  then show False by (simp add: covered_def)
qed

lemma covered_zero [simp]: "covered (\<lambda>_. 0) = {}"
  by (simp add: covered_def)

lemma pend_ops_empty [simp]: "pend_ops Map.empty = {}"
  by (simp add: pend_ops_def)

lemma pend_ops_add:
  "pend_ops (m(w \<mapsto> (case m w of None \<Rightarrow> e | Some f \<Rightarrow> max f e))) = pend_ops m \<union> {(x, c). x = w \<and> c < e}"
  by (cases "m w") (auto simp: pend_ops_def less_max_iff_disj split: if_splits)

lemma pend_ops_remember [simp]: "pend_ops (remember_pending rep m) = pend_ops m \<union> rep_ops rep"
proof -
  have "pend_ops (foldl (\<lambda>m s. m(sp_writer s \<mapsto>
      (case m (sp_writer s) of None \<Rightarrow> sp_end s | Some e \<Rightarrow> max e (sp_end s)))) m ss)
    = pend_ops m \<union> {(w, c). \<exists>s \<in> set ss. sp_writer s = w \<and> c < sp_end s}" for ss
    by (induction ss arbitrary: m) (auto simp: pend_ops_add)
  then show ?thesis by (simp add: remember_pending_def rep_ops_def)
qed

lemma resolved_pending: "\<not> unresolved m v \<Longrightarrow> pend_ops m \<subseteq> covered v"
  by (auto simp: unresolved_def pend_ops_def covered_def) (meson less_le_trans not_less)

section \<open>What a directory holds\<close>

definition durable :: "('b \<Rightarrow> ops) \<Rightarrow> 'b pile \<Rightarrow> ops" where
  "durable carries p = {x. \<exists>n b. bt_get (p_blocks p) n = Some b \<and> x \<in> carries b}"

text \<open>
  \<open>used\<close> is every block a name ever stood for.  A name never stands for two
  blocks: that is what numbering by disk and ledger is for.
\<close>

definition blocks_agree :: "(uchars \<rightharpoonup> 'b) \<Rightarrow> 'b pile \<Rightarrow> bool" where
  "blocks_agree used p \<longleftrightarrow> (\<forall>n b. bt_get (p_blocks p) n = Some b \<longrightarrow> used n = None \<or> used n = Some b)"

definition use_blocks :: "(uchars \<rightharpoonup> 'b) \<Rightarrow> 'b pile \<Rightarrow> (uchars \<rightharpoonup> 'b)" where
  "use_blocks used p = used ++ bt_get (p_blocks p)"

definition pile_ok :: "(uchars \<rightharpoonup> 'b) \<Rightarrow> 'b pile \<Rightarrow> bool" where
  "pile_ok used p \<longleftrightarrow> bt_ok (p_blocks p) \<and> (if p_dir p then True else p_blocks p = []) \<and>
     (\<forall>n b. bt_get (p_blocks p) n = Some b \<longrightarrow> used n = Some b)"

text \<open>
  A copy: every block it holds, it has taken in, applied or remembered as pending; and, where
  its mark is honest (\<open>mk\<close>), what it believes to be on disk is.
\<close>

definition copy_at ::
    "bool \<Rightarrow> ('d, 'b) doc_ops \<Rightarrow> ('b \<Rightarrow> ops) \<Rightarrow> (uchars \<rightharpoonup> 'b) \<Rightarrow> 'b pile \<Rightarrow> 'd \<times> block_store \<Rightarrow> bool" where
  "copy_at mk D carries used p ds \<longleftrightarrow>
     (case ds of (d, st) \<Rightarrow> (mk \<longrightarrow> covered (on_disk st) \<subseteq> durable carries p) \<and>
        (\<forall>n \<in> set (held st). \<exists>b. used n = Some b \<and>
           carries b \<subseteq> covered (d_version D d) \<union> pend_ops (pending st)))"

abbreviation copy_ok where "copy_ok \<equiv> copy_at True"

lemma use_blocks_mono: "blocks_agree used p \<Longrightarrow> used n = Some b \<Longrightarrow> use_blocks used p n = Some b"
  by (fastforce simp: use_blocks_def blocks_agree_def map_add_def split: option.splits)

lemma copy_ok_other:
  assumes "copy_at mk D carries used p ds" and "blocks_agree used p'" and "durable carries p \<subseteq> durable carries p'"
  shows "copy_at mk D carries (use_blocks used p') p' ds"
proof (cases ds)
  case (Pair d st)
  have "mk \<longrightarrow> covered (on_disk st) \<subseteq> durable carries p'"
    using assms(1,3) by (auto simp: copy_at_def Pair)
  moreover have "\<exists>b. use_blocks used p' n = Some b \<and> carries b \<subseteq> covered (d_version D d) \<union> pend_ops (pending st)"
    if n: "n \<in> set (held st)" for n
  proof -
    obtain b where b: "used n = Some b" "carries b \<subseteq> covered (d_version D d) \<union> pend_ops (pending st)"
      using assms(1) n unfolding copy_at_def Pair by auto
    then show ?thesis using use_blocks_mono [OF assms(2)] by blast
  qed
  ultimately show ?thesis by (simp add: copy_at_def Pair)
qed

lemma pile_ok_use:
  assumes "blocks_agree used p'" and "bt_ok (p_blocks p')" and "if p_dir p' then True else p_blocks p' = []"
  shows "pile_ok (use_blocks used p') p'"
  using assms by (simp add: pile_ok_def use_blocks_def)

lemma durable_insert:
  assumes "p_blocks p' = bt_insert n b (p_blocks p)" and "pile_ok used p" and "blocks_agree used p'"
  shows "durable carries p' = durable carries p \<union> carries b"
proof -
  have get: "bt_get (p_blocks p') = (bt_get (p_blocks p))(n \<mapsto> b)" by (simp add: assms(1))
  then have "used n = None \<or> used n = Some b" using assms(3) by (simp add: blocks_agree_def)
  moreover have "bt_get (p_blocks p) n = Some b0 \<Longrightarrow> used n = Some b0" for b0
    using assms(2) unfolding pile_ok_def by blast
  ultimately have same: "bt_get (p_blocks p) n = Some b0 \<Longrightarrow> b0 = b" for b0 by force
  show ?thesis
  proof
    show "durable carries p' \<subseteq> durable carries p \<union> carries b"
      unfolding durable_def get by (auto split: if_splits)
    have "\<exists>m b1. bt_get (p_blocks p') m = Some b1 \<and> x \<in> carries b1"
      if "bt_get (p_blocks p) m0 = Some b0" "x \<in> carries b0" for x m0 b0
      using that same [of b0] by (cases "m0 = n") (auto simp: get)
    moreover have "bt_get (p_blocks p') n = Some b" by (simp add: get)
    ultimately show "durable carries p \<union> carries b \<subseteq> durable carries p'"
      unfolding durable_def by blast
  qed
qed

lemma durable_same: "p_blocks p' = p_blocks p \<Longrightarrow> durable carries p' = durable carries p"
  by (simp add: durable_def)

section \<open>What each operation does\<close>

lemma make_dir_cases:
  assumes "make_dir io st p = (r, st', p')"
  shows "p_blocks p' = p_blocks p" and "held st' = held st" and "on_disk st' = on_disk st"
    and "pending st' = pending st" and "st_ledger st' = st_ledger st" and "p_ledger p' = p_ledger p"
    and "p_dir p \<Longrightarrow> p_dir p'" and "r = Inr u \<Longrightarrow> p_dir p'"
  using assms by (auto simp: make_dir_def Let_def split: if_splits)

lemma save_names_cases:
  assumes "save_names ok st p = (r, p')"
  shows "p_blocks p' = p_blocks p" and "p_dir p' = p_dir p"
  using assms by (auto simp: save_names_def split: if_splits)

lemma enter_name_simps [simp]:
  "set (held (enter_name n st)) = insert n (set (held st))" "on_disk (enter_name n st) = on_disk st"
  "pending (enter_name n st) = pending st"
  by (simp_all add: enter_name_def)

text \<open>The states an operation that writes one block can leave.\<close>

definition untouched :: "block_store \<Rightarrow> 'b pile \<Rightarrow> block_store \<Rightarrow> 'b pile \<Rightarrow> bool" where
  "untouched st p st' p' \<longleftrightarrow> p_blocks p' = p_blocks p \<and> held st' = held st \<and> on_disk st' = on_disk st \<and>
     pending st' = pending st \<and> (p_dir p \<longrightarrow> p_dir p')"

definition wrote_block :: "uchars \<Rightarrow> 'b \<Rightarrow> block_store \<Rightarrow> 'b pile \<Rightarrow> block_store \<Rightarrow> 'b pile \<Rightarrow> bool" where
  "wrote_block n b st p st' p' \<longleftrightarrow> p_blocks p' = bt_insert n b (p_blocks p) \<and>
     set (held st') = insert n (set (held st)) \<and> pending st' = pending st \<and> p_dir p'"

lemma flush_cases:
  assumes "flush D io d st p = (r, st', p')"
  obtains (unchanged) "r = Inr None" "st' = st" "p' = p"
      "d_version D d = on_disk st \<or> (\<exists>delta. d_changes D d (on_disk st) = Inr delta \<and> b_empty D delta)"
  | (failed) e where "r = Inl e" "untouched st p st' p'"
  | (unledgered) e n delta where "r = Inl e" "d_changes D d (on_disk st) = Inr delta"
      "wrote_block n delta st p st' p'" "on_disk st' = on_disk st"
  | (written) n delta where "r = Inr (Some n)" "d_changes D d (on_disk st) = Inr delta"
      "wrote_block n delta st p st' p'" "on_disk st' = d_version D d"
proof (cases "d_version D d = on_disk st")
  case True
  then have "r = Inr None \<and> st' = st \<and> p' = p" using assms by (auto simp: flush_def)
  then show thesis using unchanged True by blast
next
  case changed: False
  show thesis
  proof (cases "d_changes D d (on_disk st)")
    case (Inl e)
    with assms changed show thesis by (intro failed) (auto simp: flush_def untouched_def)
  next
    case delta: (Inr delta)
    show thesis
    proof (cases "b_empty D delta")
      case True
      with assms changed delta show thesis by (intro unchanged) (auto simp: flush_def)
    next
      case full: False
      obtain r1 st1 p1 where md: "make_dir io st p = (r1, st1, p1)" by (metis prod_cases3)
      note m = make_dir_cases [OF md]
      show thesis
      proof (cases r1)
        case (Inl e)
        with assms changed delta full md m show thesis
          by (intro failed) (auto simp: flush_def untouched_def)
      next
        case (Inr u)
        let ?pre = "unit_prefix (d_peer D d)"
        let ?n = "block_name ?pre (next_number (io 4) ?pre st1 p1)"
        show thesis
        proof (cases "io 2")
          case False
          with assms changed delta full md m Inr show thesis
            by (intro failed) (auto simp: flush_def untouched_def write_block_def Let_def)
        next
          case True
          then have wr: "write_block (io 2) ?n delta p1 = (Inr (), p1\<lparr>p_blocks := bt_insert ?n delta (p_blocks p1)\<rparr>)"
            by (simp add: write_block_def)
          show thesis
          proof (cases "io 3")
            case False
            with assms changed delta full md m Inr wr show thesis
              by (intro unledgered [of CantWrite delta ?n])
                (auto simp: flush_def wrote_block_def save_names_def Let_def)
          next
            case True
            with assms changed delta full md m Inr wr show thesis
              by (intro written [of ?n delta])
                (auto simp: flush_def wrote_block_def save_names_def Let_def)
          qed
        qed
      qed
    qed
  qed
qed

lemma absorb_cases:
  assumes "absorb D io n b (d, st, p) = (r, d', st', p')"
  obtains (refused) e where "r = Inl (DocError e)" "d' = d" "st' = st" "p' = p"
  | (failed) e rep where "r = Inl e" "d_merge D d b = Inr (rep, d')" "untouched (record_import rep st) p st' p'"
  | (unledgered) e rep where "r = Inl e" "d_merge D d b = Inr (rep, d')"
      "wrote_block n b (record_import rep st) p st' p'" "on_disk st' = on_disk st"
  | (taken) rep where "r = Inr ()" "d_merge D d b = Inr (rep, d')"
      "wrote_block n b (record_import rep st) p st' p'" "on_disk st' = d_version D d'"
proof (cases "d_merge D d b")
  case (Inl e)
  with assms show thesis by (intro refused) (auto simp: absorb_def)
next
  case (Inr rd)
  obtain rep d1 where rd: "rd = (rep, d1)" by (cases rd)
  obtain r1 st1 p1 where md: "make_dir io (record_import rep st) p = (r1, st1, p1)" by (metis prod_cases3)
  note m = make_dir_cases [OF md]
  have od: "on_disk (record_import rep st) = on_disk st" by (simp add: record_import_def)
  show thesis
  proof (cases r1)
    case (Inl e)
    with assms \<open>d_merge D d b = Inr rd\<close> rd md m show thesis
      by (intro failed [of e rep]) (auto simp: absorb_def untouched_def)
  next
    case (Inr u)
    show thesis
    proof (cases "io 2")
      case False
      with assms \<open>d_merge D d b = Inr rd\<close> rd md m Inr show thesis
        by (intro failed [of CantWrite rep]) (auto simp: absorb_def untouched_def write_block_def)
    next
      case io2: True
      show thesis
      proof (cases "io 3")
        case False
        with io2 assms \<open>d_merge D d b = Inr rd\<close> rd md m Inr od show thesis
          by (intro unledgered [of CantWrite rep])
            (auto simp: absorb_def wrote_block_def write_block_def save_names_def Let_def)
      next
        case True
        with io2 assms \<open>d_merge D d b = Inr rd\<close> rd md m Inr show thesis
          by (intro taken [of rep])
            (auto simp: absorb_def wrote_block_def write_block_def save_names_def Let_def)
      qed
    qed
  qed
qed

end
