(* ===== verification/PileKeeps.thy ===== *)
theory PileKeeps
  imports PileFacts
begin

text \<open>
  What flushing, taking a block in and compacting keep: everything the directory held, and the
  books of the copy that does it.
\<close>

section \<open>Compaction\<close>

lemma remove_blocks_simps:
  assumes "remove_blocks rm old st p = (st', p')"
  shows "p_blocks p' = bt_retain (\<lambda>m _. \<not> (m \<in> set old \<and> rm m)) (p_blocks p)"
    and "set (held st') = set (held st) - set old" and "on_disk st' = on_disk st" and "pending st' = pending st"
    and "p_dir p' = p_dir p"
  using assms by (auto simp: remove_blocks_def)

lemma compact_cases:
  assumes "compact D io rm d st p = (r, st', p')"
  obtains (failed) e where "r = Inl e" "untouched st p st' p'"
  | (written) n snap old where "d_snapshot D d = Inr snap" "\<not> unresolved (pending st) (d_version D d)"
      "set old \<subseteq> set (held st)" "n \<notin> set old"
      "p_blocks p' = bt_retain (\<lambda>m _. \<not> (m \<in> set old \<and> rm m)) (bt_insert n snap (p_blocks p))"
      "set (held st') = insert n (set (held st) - set old)" "pending st' = pending st" "p_dir p'"
      "on_disk st' = on_disk st \<or> on_disk st' = d_version D d" "r \<noteq> Inr n \<or> on_disk st' = d_version D d"
proof (cases "has_unresolved_imports D d st")
  case True
  with assms show thesis by (intro failed) (auto simp: compact_def untouched_def)
next
  case resolved: False
  obtain r1 st1 p1 where md: "make_dir io st p = (r1, st1, p1)" by (metis prod_cases3)
  note m = make_dir_cases [OF md]
  show thesis
  proof (cases r1)
    case (Inl e)
    with assms resolved md m show thesis by (intro failed) (auto simp: compact_def untouched_def)
  next
    case (Inr u)
    show thesis
    proof (cases "p_dir p1 \<and> \<not> io 5")
      case True
      with assms resolved md m \<open>r1 = Inr u\<close> show thesis
        by (intro failed) (auto simp: compact_def untouched_def list_blocks_def)
    next
      case False
      then have ls: "list_blocks (io 5) p1 = Inr (blocks p1)" by (simp add: list_blocks_def)
    show thesis
    proof (cases "d_snapshot D d")
      case (Inl e)
      with assms resolved md m ls \<open>r1 = Inr u\<close> show thesis
        by (intro failed) (auto simp: compact_def untouched_def Let_def)
    next
      case snap: (Inr snap)
      let ?pre = "snap_prefix (d_peer D d)"
      let ?n = "block_name ?pre (next_number (io 4) ?pre st1 p1)"
      let ?old = "filter (\<lambda>m. m \<noteq> ?n) (filter (\<lambda>n. n \<in> set (held st1)) (blocks p1))"
      show thesis
      proof (cases "io 2")
        case False
        with assms resolved md m ls Inr snap show thesis
          by (intro failed) (auto simp: compact_def untouched_def write_block_def Let_def)
      next
        case True
        define p2 where "p2 = p1\<lparr>p_blocks := bt_insert ?n snap (p_blocks p1)\<rparr>"
        obtain st3 p3 where rb: "remove_blocks rm ?old st1 p2 = (st3, p3)" by fastforce
        note rs = remove_blocks_simps [OF rb]
        obtain r4 p4 where sl: "save_names (io 3) (enter_name ?n st3) p3 = (r4, p4)" by fastforce
        note ss = save_names_cases [OF sl]
        have wr: "write_block (io 2) ?n snap p1 = (Inr (), p2)" using True by (simp add: write_block_def p2_def)
        have res: "compact D io rm d st p = (case r4 of Inl e \<Rightarrow> (Inl e, enter_name ?n st3, p4)
            | Inr _ \<Rightarrow> (Inr ?n, (enter_name ?n st3)\<lparr>on_disk := d_version D d\<rparr>, p4))"
          using resolved md Inr ls snap wr rb sl by (cases r4) (simp_all add: compact_def Let_def)
        have eqs: "p' = p4 \<and> (st' = enter_name ?n st3 \<or> st' = (enter_name ?n st3)\<lparr>on_disk := d_version D d\<rparr>) \<and>
            (r \<noteq> Inr ?n \<or> on_disk st' = d_version D d)"
        proof (cases r4)
          case (Inl e)
          with res assms have "(r, st', p') = (Inl e, enter_name ?n st3, p4)" by simp
          then show ?thesis by blast
        next
          case (Inr u)
          with res assms have "(r, st', p') = (Inr ?n, (enter_name ?n st3)\<lparr>on_disk := d_version D d\<rparr>, p4)" by simp
          then show ?thesis by auto
        qed
        have st: "set (held st') = insert ?n (set (held st3))" "pending st' = pending st3"
            "on_disk st' = on_disk st3 \<or> on_disk st' = d_version D d"
          using eqs by auto
        show thesis
        proof (rule written [of snap ?old ?n])
          show "\<not> unresolved (pending st) (d_version D d)" using resolved by (simp add: has_unresolved_imports_def)
          show "set ?old \<subseteq> set (held st)" using m(2) by auto
          show "p_blocks p' = bt_retain (\<lambda>m _. \<not> (m \<in> set ?old \<and> rm m)) (bt_insert ?n snap (p_blocks p))"
            using eqs ss(1) rs(1) m(1) by (simp add: p2_def)
          show "set (held st') = insert ?n (set (held st) - set ?old)"
            using st(1) rs(2) m(2) by simp
          show "pending st' = pending st" using st(2) rs(4) m(4) by simp
          show "p_dir p'" using eqs ss(2) rs(5) m(8) [OF Inr] by (simp add: p2_def)
          show "on_disk st' = on_disk st \<or> on_disk st' = d_version D d" using st(3) rs(3) m(3) by simp
          show "r \<noteq> Inr ?n \<or> on_disk st' = d_version D d" using eqs by blast
        qed (use snap in simp_all)
      qed
    qed
    qed
  qed
qed

lemma bt_get_removed:
  assumes "bt_ok m"
  shows "bt_get (bt_retain (\<lambda>k _. \<not> P k) m) n = (if P n then None else bt_get m n)"
  using bt_get_retain [OF assms, of "\<lambda>k _. \<not> P k" n] by (auto split: option.splits)

section \<open>The operations keep what is durable\<close>

text \<open>What an operation of a copy keeps: its own books, and everything the pile held.\<close>

definition op_at ::
    "bool \<Rightarrow> ('d, 'b) doc_ops \<Rightarrow> ('b \<Rightarrow> ops) \<Rightarrow> (uchars \<rightharpoonup> 'b) \<Rightarrow> 'b pile \<Rightarrow> 'b pile \<Rightarrow> 'd \<times> block_store \<Rightarrow> bool" where
  "op_at mk D carries used p p' ds \<longleftrightarrow> durable carries p \<subseteq> durable carries p' \<and>
     pile_ok (use_blocks used p') p' \<and> copy_at mk D carries (use_blocks used p') p' ds"

abbreviation op_ok where "op_ok \<equiv> op_at True"

lemma op_okI:
  assumes "blocks_agree used p'" and "bt_ok (p_blocks p')" and "p_dir p' \<or> p_blocks p' = []"
    and "durable carries p \<subseteq> durable carries p'" and "mk \<Longrightarrow> covered (on_disk st) \<subseteq> durable carries p'"
    and "\<And>n. n \<in> set (held st) \<Longrightarrow> \<exists>b. use_blocks used p' n = Some b \<and>
      carries b \<subseteq> covered (d_version D d) \<union> pend_ops (pending st)"
  shows "op_at mk D carries used p p' (d, st)"
  using assms by (auto simp: op_at_def copy_at_def intro!: pile_ok_use)

lemma copy_okD:
  assumes "copy_at mk D carries used p (d, st)"
  shows "mk \<Longrightarrow> covered (on_disk st) \<subseteq> durable carries p"
    and "n \<in> set (held st) \<Longrightarrow> \<exists>b. used n = Some b \<and> carries b \<subseteq> covered (d_version D d) \<union> pend_ops (pending st)"
  using assms by (auto simp: copy_at_def)

lemma pile_okD:
  assumes "pile_ok used p"
  shows "bt_ok (p_blocks p)" and "p_dir p \<or> p_blocks p = []"
    and "bt_get (p_blocks p) n = Some b \<Longrightarrow> used n = Some b"
  using assms by (auto simp: pile_ok_def split: if_splits)

lemma held_stays:
  assumes "copy_at mk D carries used p (d, st)" and "blocks_agree used p'" and "n \<in> set (held st)"
    and "covered (d_version D d) \<union> pend_ops (pending st) \<subseteq> X"
  shows "\<exists>b. use_blocks used p' n = Some b \<and> carries b \<subseteq> X"
proof -
  obtain b where "used n = Some b" "carries b \<subseteq> covered (d_version D d) \<union> pend_ops (pending st)"
    using copy_okD(2) [OF assms(1,3)] by blast
  then show ?thesis using use_blocks_mono [OF assms(2)] assms(4) by (meson order_trans)
qed

lemma op_ok_untouched:
  assumes "pile_ok used p" and "copy_at mk D carries used p (d, st)" and "blocks_agree used p'"
    and "untouched st1 p st' p'" and "held st1 = held st" and "on_disk st1 = on_disk st"
    and "covered (d_version D d) \<union> pend_ops (pending st) \<subseteq> covered (d_version D d') \<union> pend_ops (pending st1)"
  shows "op_at mk D carries used p p' (d', st')"
proof (rule op_okI)
  have u: "p_blocks p' = p_blocks p" "held st' = held st" "on_disk st' = on_disk st" "pending st' = pending st1"
      "p_dir p \<longrightarrow> p_dir p'" using assms(4-6) by (auto simp: untouched_def)
  have d: "durable carries p' = durable carries p" by (rule durable_same) (rule u(1))
  show "bt_ok (p_blocks p')" "p_dir p' \<or> p_blocks p' = []" using pile_okD(1,2) [OF assms(1)] u(1,5) by auto
  show "durable carries p \<subseteq> durable carries p'" using d by simp
  show "covered (on_disk st') \<subseteq> durable carries p'" if mk using copy_okD(1) [OF assms(2) that] u(3) d by simp
  show "\<exists>b. use_blocks used p' n = Some b \<and> carries b \<subseteq> covered (d_version D d') \<union> pend_ops (pending st')"
    if "n \<in> set (held st')" for n
    using held_stays [OF assms(2,3) _ assms(7)] that u(2,4) by simp
qed (rule assms(3))

lemma op_ok_wrote:
  assumes "pile_ok used p" and "copy_at mk D carries used p (d, st)" and "blocks_agree used p'"
    and "wrote_block n b st1 p st' p'" and "held st1 = held st"
    and "covered (d_version D d) \<union> pend_ops (pending st) \<subseteq> covered (d_version D d') \<union> pend_ops (pending st1)"
    and "carries b \<subseteq> covered (d_version D d') \<union> pend_ops (pending st1)"
    and "mk \<Longrightarrow> covered (on_disk st') \<subseteq> durable carries p \<union> carries b"
  shows "op_at mk D carries used p p' (d', st')"
proof (rule op_okI)
  have w: "p_blocks p' = bt_insert n b (p_blocks p)" "set (held st') = insert n (set (held st))"
      "pending st' = pending st1" "p_dir p'" using assms(4,5) by (auto simp: wrote_block_def)
  have d: "durable carries p' = durable carries p \<union> carries b"
    by (rule durable_insert [OF w(1) assms(1,3)])
  show "bt_ok (p_blocks p')" "p_dir p' \<or> p_blocks p' = []" using pile_okD(1) [OF assms(1)] w(1,4) by auto
  show "durable carries p \<subseteq> durable carries p'" using d by simp
  show "covered (on_disk st') \<subseteq> durable carries p'" if mk using assms(8) [OF that] d by simp
  show "\<exists>b. use_blocks used p' m = Some b \<and> carries b \<subseteq> covered (d_version D d') \<union> pend_ops (pending st')"
    if m: "m \<in> set (held st')" for m
  proof (cases "m = n")
    case True
    have "use_blocks used p' n = Some b" by (simp add: use_blocks_def w(1))
    then show ?thesis using True assms(7) w(3) by auto
  next
    case False
    then show ?thesis using held_stays [OF assms(2,3) _ assms(6), of m] m w(2,3) by simp
  qed
qed (rule assms(3))

lemma flush_ok:
  assumes "doc_laws D carries known" and "pile_ok used p" and "copy_at mk D carries used p (d, st)"
    and "flush D io d st p = (r, st', p')" and "blocks_agree used p'"
  shows "op_at mk D carries used p p' (d, st')"
  using assms(4)
proof (cases rule: flush_cases)
  case unchanged
  then show ?thesis by (intro op_ok_untouched [OF assms(2,3,5), of st]) (auto simp: untouched_def)
next
  case (failed e)
  show ?thesis by (rule op_ok_untouched [OF assms(2,3,5) failed(2)]) auto
next
  case (unledgered e n delta)
  have c: "carries delta \<subseteq> covered (d_version D d)" using doc_changesD(1) [OF assms(1) unledgered(2)] by simp
  show ?thesis
    by (rule op_ok_wrote [OF assms(2,3,5) unledgered(3)])
      (use c unledgered(4) copy_okD(1) [OF assms(3)] in auto)
next
  case (written n delta)
  have c: "carries delta = covered (d_version D d) - covered (on_disk st)"
    using doc_changesD(1) [OF assms(1) written(2)] .
  show ?thesis
    by (rule op_ok_wrote [OF assms(2,3,5) written(3)])
      (use c written(4) copy_okD(1) [OF assms(3)] in auto)
qed

lemma take_in_more:
  assumes "doc_laws D carries known" and "d_merge D d b = Inr (rep, d')"
  shows "covered (d_version D d) \<union> pend_ops (pending st) \<subseteq>
      covered (d_version D d') \<union> pend_ops (pending (record_import rep st))"
    and "carries b \<subseteq> covered (d_version D d') \<union> pend_ops (pending (record_import rep st))"
  using covered_mono [OF doc_mergeD(3) [OF assms]] doc_mergeD(4) [OF assms] by (auto simp: record_import_def)

lemma absorb_ok:
  assumes "doc_laws D carries known" and "pile_ok used p" and "copy_at mk D carries used p (d, st)"
    and "absorb D io n b (d, st, p) = (r, d', st', p')" and "blocks_agree used p'"
  shows "op_at (mk \<and> known d \<subseteq> durable carries p) D carries used p p' (d', st')"
proof -
  let ?mk = "mk \<and> known d \<subseteq> durable carries p"
  have c: "copy_at ?mk D carries used p (d, st)" using assms(3) by (simp add: copy_at_def)
  have rec: "held (record_import rep st) = held st" "on_disk (record_import rep st) = on_disk st" for rep
    by (simp_all add: record_import_def)
  show ?thesis
    using assms(4)
  proof (cases rule: absorb_cases)
    case (refused e)
    then show ?thesis
      by (intro op_ok_untouched [OF assms(2) c assms(5), of st]) (auto simp: untouched_def)
  next
    case (failed e rep)
    show ?thesis
      by (rule op_ok_untouched [OF assms(2) c assms(5) failed(3) rec take_in_more(1) [OF assms(1) failed(2)]])
  next
    case (unledgered e rep)
    show ?thesis
      by (rule op_ok_wrote [OF assms(2) c assms(5) unledgered(3) rec(1) take_in_more [OF assms(1) unledgered(2)]])
        (use unledgered(4) copy_okD(1) [OF c] in auto)
  next
    case (taken rep)
    have "covered (d_version D d') \<subseteq> known d \<union> carries b"
      using doc_knownD [OF assms(1), of d'] doc_mergeD(2) [OF assms(1) taken(2)] by simp
    then show ?thesis
      by (intro op_ok_wrote [OF assms(2) c assms(5) taken(3) rec(1) take_in_more [OF assms(1) taken(2)]])
        (use taken(4) in auto)
  qed
qed

lemma compact_ok:
  assumes "doc_laws D carries known" and "pile_ok used p" and "copy_at mk D carries used p (d, st)"
    and "compact D io rm d st p = (r, st', p')" and "blocks_agree used p'"
  shows "op_at mk D carries used p p' (d, st')"
  using assms(4)
proof (cases rule: compact_cases)
  case (failed e)
  show ?thesis by (rule op_ok_untouched [OF assms(2,3,5) failed(2)]) auto
next
  case (written n snap old)
  have snap: "carries snap = covered (d_version D d)" by (rule doc_snapshotD [OF assms(1) written(1)])
  have bt: "bt_ok (bt_insert n snap (p_blocks p))" using pile_okD(1) [OF assms(2)] by simp
  have get: "bt_get (p_blocks p') m = (if m \<in> set old \<and> rm m then None else
      ((bt_get (p_blocks p))(n \<mapsto> snap)) m)" for m
    unfolding written(5) by (subst bt_get_removed [OF bt]) simp
  then have "bt_get (p_blocks p') n = Some snap" using written(4) by simp
  then have new: "covered (d_version D d) \<subseteq> durable carries p'"
    using snap by (auto simp: durable_def)
  have gone: "carries b0 \<subseteq> covered (d_version D d)" if "m \<in> set old" "bt_get (p_blocks p) m = Some b0" for m b0
  proof -
    have "m \<in> set (held st)" using that(1) written(3) by blast
    then obtain b where "used m = Some b" "carries b \<subseteq> covered (d_version D d) \<union> pend_ops (pending st)"
      using copy_okD(2) [OF assms(3)] by blast
    moreover have "used m = Some b0" by (rule pile_okD(3) [OF assms(2) that(2)])
    ultimately show ?thesis using resolved_pending [OF written(2)] by auto
  qed
  have keep: "durable carries p \<subseteq> durable carries p'"
  proof
    fix x
    assume "x \<in> durable carries p"
    then obtain m b0 where m: "bt_get (p_blocks p) m = Some b0" "x \<in> carries b0" by (auto simp: durable_def)
    show "x \<in> durable carries p'"
    proof (cases "m \<in> set old \<or> m = n")
      case True
      show ?thesis
      proof (cases "m = n")
        case True
        have "used n = None \<or> used n = Some snap"
          using assms(5) \<open>bt_get (p_blocks p') n = Some snap\<close> unfolding blocks_agree_def by blast
        moreover have "used n = Some b0" using pile_okD(3) [OF assms(2) m(1)] True by simp
        ultimately show ?thesis using snap new m(2) by auto
      next
        case False
        with True gone [of m b0] m new show ?thesis by auto
      qed
    next
      case False
      then have "bt_get (p_blocks p') m = Some b0" using get m(1) by simp
      with m(2) show ?thesis by (auto simp: durable_def)
    qed
  qed
  show ?thesis
  proof (rule op_okI)
    show "bt_ok (p_blocks p')" unfolding written(5) using bt by simp
    show "p_dir p' \<or> p_blocks p' = []" using written(8) by simp
    show "covered (on_disk st') \<subseteq> durable carries p'" if mk
      using written(9) copy_okD(1) [OF assms(3) that] keep new by auto
    show "\<exists>b. use_blocks used p' m = Some b \<and> carries b \<subseteq> covered (d_version D d) \<union> pend_ops (pending st')"
      if m: "m \<in> set (held st')" for m
    proof (cases "m = n")
      case True
      then show ?thesis using \<open>bt_get (p_blocks p') n = Some snap\<close> snap by (simp add: use_blocks_def)
    next
      case False
      then show ?thesis
        using held_stays [OF assms(3,5) _ order_refl, of m] m written(6,7) by simp
    qed
  qed (use assms(5) keep in simp_all)
qed

end
