(* ===== verification/PileReads.thy ===== *)
theory PileReads
  imports PileKeeps
begin

text \<open>
  Reading a pile: whatever a look at the directory listed is taken in, remembered as pending,
  reported broken, or noticed as gone; and the copy that is opened keeps honest books.
\<close>

section \<open>One look\<close>

lemma set_insert_all [simp]: "set (foldl (\<lambda>h n. snd (set_insert n h)) h ns) = set h \<union> set ns"
  by (induction ns arbitrary: h) auto

text \<open>
  What the blocks of a look are: each is the block its name stands for, and what it carries is
  in the directory.  Compaction can move that to another block, never lose it, so a look stays
  good however long its reads take.
\<close>

definition look_ok :: "('b \<Rightarrow> ops) \<Rightarrow> (uchars \<rightharpoonup> 'b) \<Rightarrow> 'b pile \<Rightarrow> 'b look \<Rightarrow> bool" where
  "look_ok carries used p lk \<longleftrightarrow>
     (\<forall>n b. lk_read lk n = ReadOk b \<longrightarrow> used n = Some b \<and> carries b \<subseteq> durable carries p)"

definition read_state ::
    "('d, 'b) doc_ops \<Rightarrow> ('b \<Rightarrow> ops) \<Rightarrow> ('d \<Rightarrow> ops) \<Rightarrow> (uchars \<Rightarrow> 'b block_read) \<Rightarrow> ops \<Rightarrow> 'd \<Rightarrow> 'd imported \<Rightarrow> uchars list \<Rightarrow> bool" where
  "read_state D carries known rd all d im seen \<longleftrightarrow>
     known d \<subseteq> known (im_doc im) \<and> known (im_doc im) \<subseteq> known d \<union> all \<and>
     d_version D d \<le> d_version D (im_doc im) \<and> d_peer D (im_doc im) = d_peer D d \<and>
     (\<forall>n \<in> set (im_names im). \<exists>b. rd n = ReadOk b \<and>
        carries b \<subseteq> covered (d_version D (im_doc im)) \<union> pend_ops (im_pending im)) \<and>
     (\<forall>n \<in> set seen. n \<in> set (im_names im) \<or> n \<in> set (im_broken im) \<or> (rd n = ReadGone \<and> im_vanished im))"

lemma read_stateD:
  assumes "read_state D carries known rd all d im seen"
  shows "known d \<subseteq> known (im_doc im)" and "known (im_doc im) \<subseteq> known d \<union> all"
    and "d_version D d \<le> d_version D (im_doc im)" and "d_peer D (im_doc im) = d_peer D d"
    and "n \<in> set (im_names im) \<Longrightarrow> \<exists>b. rd n = ReadOk b \<and>
      carries b \<subseteq> covered (d_version D (im_doc im)) \<union> pend_ops (im_pending im)"
    and "n \<in> set seen \<Longrightarrow> n \<in> set (im_names im) \<or> n \<in> set (im_broken im) \<or> (rd n = ReadGone \<and> im_vanished im)"
  using assms unfolding read_state_def by simp_all

lemma read_one_state:
  assumes "doc_laws D carries known" and "read_state D carries known rd all d im seen"
    and "\<And>b. rd n = ReadOk b \<Longrightarrow> carries b \<subseteq> all"
  shows "read_state D carries known rd all d (read_one D rd im n) (seen @ [n])"
proof (cases "rd n")
  case (ReadOk b)
  show ?thesis
  proof (cases "d_merge D (im_doc im) b")
    case (Inl e)
    with ReadOk assms(2) show ?thesis by (auto simp: read_one_def read_state_def)
  next
    case (Inr rd')
    obtain rep d' where rd': "rd' = (rep, d')" by (cases rd')
    note m = doc_mergeD [OF assms(1) Inr [unfolded rd']]
    have step: "read_one D rd im n = im\<lparr>im_doc := d', im_pending := remember_pending rep (im_pending im),
        im_names := snd (set_insert n (im_names im))\<rparr>"
      using ReadOk Inr rd' by (simp add: read_one_def)
    have more: "covered (d_version D (im_doc im)) \<union> pend_ops (im_pending im) \<subseteq>
        covered (d_version D d') \<union> pend_ops (remember_pending rep (im_pending im))"
      using covered_mono [OF m(3)] pend_ops_remember [of rep "im_pending im"] by blast
    have names: "\<exists>b. rd k = ReadOk b \<and>
        carries b \<subseteq> covered (d_version D d') \<union> pend_ops (remember_pending rep (im_pending im))"
      if "k = n \<or> k \<in> set (im_names im)" for k
    proof (cases "k = n")
      case True
      then show ?thesis using ReadOk m(4) pend_ops_remember [of rep "im_pending im"] by blast
    next
      case False
      then have "k \<in> set (im_names im)" using that by simp
      then obtain b where "rd k = ReadOk b" "carries b \<subseteq> covered (d_version D (im_doc im)) \<union> pend_ops (im_pending im)"
        using read_stateD(5) [OF assms(2)] by blast
      then show ?thesis using more by blast
    qed
    have k: "known d' \<subseteq> known d \<union> all" "known d \<subseteq> known d'"
      using m(2) read_stateD(1,2) [OF assms(2)] assms(3) [OF ReadOk] by blast+
    have v: "d_version D d \<le> d_version D d'" "d_peer D d' = d_peer D d"
      using m(1) read_stateD(4) [OF assms(2)] order_trans [OF read_stateD(3) [OF assms(2)] m(3)] by simp_all
    have seen: "k \<in> set (im_names (read_one D rd im n)) \<or> k \<in> set (im_broken (read_one D rd im n)) \<or>
        (rd k = ReadGone \<and> im_vanished (read_one D rd im n))" if "k \<in> set (seen @ [n])" for k
    proof (cases "k = n")
      case True
      then show ?thesis by (simp add: step)
    next
      case False
      with that have "k \<in> set seen" by simp
      then have "k \<in> set (im_names im) \<or> k \<in> set (im_broken im) \<or> (rd k = ReadGone \<and> im_vanished im)"
        by (rule read_stateD(6) [OF assms(2)])
      then show ?thesis by (auto simp: step)
    qed
    have "\<exists>b. rd k = ReadOk b \<and> carries b \<subseteq> covered (d_version D (im_doc (read_one D rd im n))) \<union>
        pend_ops (im_pending (read_one D rd im n))" if "k \<in> set (im_names (read_one D rd im n))" for k
      using names [of k] that by (simp add: step)
    moreover have "im_doc (read_one D rd im n) = d'" by (simp add: step)
    ultimately show ?thesis using k v seen unfolding read_state_def by simp
  qed
next
  case ReadGone
  with assms(2) show ?thesis by (auto simp: read_one_def read_state_def)
next
  case ReadFailed
  with assms(2) show ?thesis by (auto simp: read_one_def read_state_def)
qed

lemma read_blocks_state:
  assumes "doc_laws D carries known" and "\<And>n b. lk_read lk n = ReadOk b \<Longrightarrow> carries b \<subseteq> all"
  shows "read_state D carries known (lk_read lk) all d (read_blocks D lk kept d) (filter (\<lambda>n. n \<notin> set kept) (lk_list lk))"
proof -
  have "read_state D carries known (lk_read lk) all d (foldl (read_one D (lk_read lk)) im ns) (seen @ ns)"
    if "read_state D carries known (lk_read lk) all d im seen" for im ns seen
    using that
  proof (induction ns arbitrary: im seen)
    case Nil
    then show ?case by simp
  next
    case (Cons n ns)
    show ?case
      using Cons.IH [OF read_one_state [OF assms(1) Cons.prems assms(2)]] by simp
  qed
  from this [of _ "[]"] show ?thesis by (simp add: read_blocks_def read_state_def)
qed

section \<open>Opening a copy\<close>

definition base_ok :: "('b \<Rightarrow> ops) \<Rightarrow> (uchars \<rightharpoonup> 'b) \<Rightarrow> 'b pile \<Rightarrow> 'b read_base option \<Rightarrow> bool" where
  "base_ok carries used p base \<longleftrightarrow>
     (case base of None \<Rightarrow> True
      | Some r \<Rightarrow> carries (rb_snapshot r) \<subseteq> durable carries p \<and>
          (\<forall>n \<in> set (rb_names r). n \<notin> set (rb_broken r) \<longrightarrow>
             (\<exists>b. used n = Some b \<and> carries b \<subseteq> carries (rb_snapshot r))))"

lemma base_ok_None [simp]: "base_ok carries used p None"
  by (simp add: base_ok_def)

lemma merge_base_facts:
  assumes "doc_laws D carries known" and "base_ok carries used p base" and "known d0 = {}"
    and "merge_base D d0 base = (d, held0, broken0, kept)"
  shows "known d \<subseteq> durable carries p"
    and "n \<in> set held0 \<Longrightarrow> \<exists>b. used n = Some b \<and> carries b \<subseteq> covered (d_version D d)"
    and "n \<in> set kept \<Longrightarrow> n \<in> set held0 \<or> n \<in> set broken0"
proof -
  consider (plain) "d = d0" "held0 = []" "kept = []"
    | (kept) r rep where "base = Some r" "d_merge D d0 (rb_snapshot r) = Inr (rep, d)" "rep_pending rep = []"
        "held0 = filter (\<lambda>n. n \<notin> set (rb_broken r)) (rb_names r)" "broken0 = rb_broken r" "kept = rb_names r"
    using assms(4) by (auto simp: merge_base_def split: option.splits sum.splits if_splits)
  then have "known d \<subseteq> durable carries p \<and>
      (n \<in> set held0 \<longrightarrow> (\<exists>b. used n = Some b \<and> carries b \<subseteq> covered (d_version D d))) \<and>
      (n \<in> set kept \<longrightarrow> n \<in> set held0 \<or> n \<in> set broken0)"
  proof cases
    case plain
    with assms(3) show ?thesis by simp
  next
    case (kept r rep)
    have snap: "carries (rb_snapshot r) \<subseteq> covered (d_version D d)"
      using doc_mergeD(4) [OF assms(1) kept(2)] kept(3) by (simp add: rep_ops_def)
    have base: "carries (rb_snapshot r) \<subseteq> durable carries p"
        "m \<in> set (rb_names r) \<Longrightarrow> m \<notin> set (rb_broken r) \<Longrightarrow>
          \<exists>b. used m = Some b \<and> carries b \<subseteq> carries (rb_snapshot r)" for m
      using assms(2) unfolding kept(1) base_ok_def by simp_all
    have "known d \<subseteq> durable carries p"
      using doc_mergeD(2) [OF assms(1) kept(2)] assms(3) base(1) by simp
    moreover have "\<exists>b. used n = Some b \<and> carries b \<subseteq> covered (d_version D d)" if "n \<in> set held0"
      using base(2) [of n] that snap unfolding kept(4) by auto
    moreover have "n \<in> set kept \<longrightarrow> n \<in> set held0 \<or> n \<in> set broken0" using kept(4-6) by simp
    ultimately show ?thesis by blast
  qed
  then show "known d \<subseteq> durable carries p"
    and "n \<in> set held0 \<Longrightarrow> \<exists>b. used n = Some b \<and> carries b \<subseteq> covered (d_version D d)"
    and "n \<in> set kept \<Longrightarrow> n \<in> set held0 \<or> n \<in> set broken0" by blast+
qed

lemma read_once_facts:
  assumes "doc_laws D carries known" and "look_ok carries used p lk" and "base_ok carries used p base"
    and "read_once D lk peer pn ok base = Inr (l, vanished, led)"
  shows "copy_ok D carries used p (l_doc l, l_store l)"
    and "\<not> vanished \<Longrightarrow> l_broken l = [] \<Longrightarrow> n \<in> set (lk_list lk) \<Longrightarrow>
      \<exists>b. used n = Some b \<and> carries b \<subseteq> covered (d_version D (l_doc l)) \<union> pend_ops (pending (l_store l))"
    and "d_peer D (l_doc l) = peer" and "pen (l_store l) = pn"
proof -
  obtain d0 where op: "d_open D peer = Inr d0"
    using assms(4) by (auto simp: read_once_def split: sum.splits)
  obtain d held0 broken0 kept where mb: "merge_base D d0 base = (d, held0, broken0, kept)"
    by (metis prod_cases4)
  define im where "im = read_blocks D lk kept d"
  have l: "l_doc l = im_doc im" "vanished = im_vanished im" "l_broken l = broken0 @ im_broken im"
      "on_disk (l_store l) = d_version D (im_doc im)" "pending (l_store l) = im_pending im"
      "set (held (l_store l)) = set held0 \<union> set (im_names im)" "pen (l_store l) = pn"
    using assms(4) op mb by (auto simp: read_once_def Let_def im_def [symmetric] split: if_splits)
  note b = merge_base_facts [OF assms(1,3) doc_openD(2) [OF assms(1) op] mb]
  have rs: "read_state D carries known (lk_read lk) (durable carries p) d im (filter (\<lambda>n. n \<notin> set kept) (lk_list lk))"
    unfolding im_def by (rule read_blocks_state [OF assms(1)]) (use assms(2) in \<open>auto simp: look_ok_def\<close>)
  note r = read_stateD [OF rs]
  have disk: "covered (on_disk (l_store l)) \<subseteq> durable carries p"
    using doc_knownD [OF assms(1), of "im_doc im"] r(2) b(1) unfolding l(4) by blast
  have names: "\<exists>b. used m = Some b \<and> carries b \<subseteq> covered (d_version D (l_doc l)) \<union> pend_ops (pending (l_store l))"
    if m: "m \<in> set held0 \<or> m \<in> set (im_names im)" for m
    using m
  proof
    assume "m \<in> set held0"
    then show ?thesis using b(2) [of m] covered_mono [OF r(3)] unfolding l(1) by blast
  next
    assume "m \<in> set (im_names im)"
    then show ?thesis using r(5) [of m] assms(2) unfolding l(1,5) look_ok_def by blast
  qed
  show "copy_ok D carries used p (l_doc l, l_store l)"
    unfolding copy_at_def split l(6) using disk names by blast
  have peer: "d_peer D d = d_peer D d0"
    using mb doc_mergeD(1) [OF assms(1)]
    by (auto simp: merge_base_def split: option.splits sum.splits if_splits)
  show "d_peer D (l_doc l) = peer" using r(4) peer doc_openD(3) [OF assms(1) op] l(1) by simp
  show "pen (l_store l) = pn" by (rule l(7))
  show "\<exists>b. used n = Some b \<and> carries b \<subseteq> covered (d_version D (l_doc l)) \<union> pend_ops (pending (l_store l))"
    if "\<not> vanished" "l_broken l = []" "n \<in> set (lk_list lk)"
  proof (rule names, cases "n \<in> set kept")
    case True
    then show "n \<in> set held0 \<or> n \<in> set (im_names im)" using b(3) that(2) l(3) by auto
  next
    case False
    then show "n \<in> set held0 \<or> n \<in> set (im_names im)"
      using r(6) [of n] that l(2,3) by auto
  qed
qed

lemma load_inner_cases:
  assumes "load_inner D lk1 lk2 peer pn ok1 ok2 base = Inr (l, led)"
  obtains (once) "read_once D lk1 peer pn ok1 base = Inr (l, False, led)"
  | (again) v where "read_once D lk2 peer pn ok2 None = Inr (l, v, led)"
  using assms by (auto simp: load_inner_def split: sum.splits if_splits)

lemma load_inner_ok:
  assumes "doc_laws D carries known" and "look_ok carries used p lk1" and "look_ok carries used p lk2"
    and "base_ok carries used p base" and "load_inner D lk1 lk2 peer pn ok1 ok2 base = Inr (l, led)"
  shows "copy_ok D carries used p (l_doc l, l_store l)"
  using assms(5)
proof (cases rule: load_inner_cases)
  case once
  then show ?thesis by (rule read_once_facts(1) [OF assms(1,2,4)])
next
  case (again v)
  then show ?thesis by (rule read_once_facts(1) [OF assms(1,3) base_ok_None])
qed

lemma stamp_empty_simps [simp]:
  "l_doc (stamp_empty l) = l_doc l" "on_disk (l_store (stamp_empty l)) = on_disk (l_store l)"
  "held (l_store (stamp_empty l)) = held (l_store l)" "pending (l_store (stamp_empty l)) = pending (l_store l)"
  "l_broken (stamp_empty l) = l_broken l"
  by (simp_all add: stamp_empty_def)

lemma copy_ok_stamp_empty [simp]:
  "copy_ok D carries used p (d, l_store (stamp_empty l)) = copy_ok D carries used p (d, l_store l)"
  by (simp add: copy_at_def)

text \<open>A look at a directory that does not move.\<close>

lemma look_at_ok:
  assumes "pile_ok used p"
  shows "look_ok carries used p (look_at p)"
  using assms by (auto simp: look_ok_def look_at_def pile_ok_def durable_def split: option.splits)

lemma look_at_list:
  assumes "pile_ok used p" and "bt_get (p_blocks p) n = Some b"
  shows "n \<in> set (lk_list (look_at p))"
proof -
  have "p_dir p" using assms by (auto simp: pile_ok_def split: if_splits)
  moreover have "n \<in> fst ` set (p_blocks p)" using assms(2) bt_get_None_keys by (metis option.distinct(1))
  ultimately show ?thesis by (simp add: look_at_def blocks_def)
qed

lemma look_at_not_gone: "n \<in> set (lk_list (look_at p)) \<Longrightarrow> lk_read (look_at p) n \<noteq> ReadGone"
  using bt_get_None_keys [of "p_blocks p" n] by (auto simp: look_at_def blocks_def split: if_splits option.splits)

end
