(* ===== verification/PileRuns.thy ===== *)
theory PileRuns
  imports PileReads
begin

text \<open>
  Runs of a pile: any number of copies open at once, which edit, take in what a far side sends,
  flush, pull blocks, compact, give up a name and die, each with whatever outcome its writes
  have.  As long as no block name has stood for two contents, what the directory holds only
  grows, and a reader sees all of it even while a compaction moves it; a copy's mark of what is
  on disk is honest unless it pulled a block over edits it had not flushed.
\<close>

section \<open>The directory and the copies open on it\<close>

text \<open>
  Beside the directory and the copies a world keeps books of its own, which no step reads:
  what each block name has stood for (\<open>sw_used\<close>), whether some name stood for two contents
  (\<open>sw_twice\<close>: the writers do not look for that), and which of the copies open now pulled a block
  while they knew operations that are in no block of the directory (\<open>sw_over\<close>: \<open>absorb\<close> does not
  look for that, and moves the mark of what is on disk past them).
\<close>

record ('d, 'b) sync_world =
  sw_pile :: "'b pile"
  sw_used :: "uchars \<rightharpoonup> 'b"
  sw_copies :: "nat \<rightharpoonup> 'd \<times> block_store"
  sw_twice :: bool
  sw_over :: "nat set"

definition empty_pile :: "'b pile" where
  "empty_pile = \<lparr>p_dir = False, p_blocks = [], p_ledger = None, p_epoch = None, p_pens = Map.empty\<rparr>"

definition empty_world :: "('d, 'b) sync_world" where
  "empty_world = \<lparr>sw_pile = empty_pile, sw_used = Map.empty, sw_copies = Map.empty,
     sw_twice = False, sw_over = {}\<rparr>"

definition put_copy :: "nat \<Rightarrow> 'd \<times> block_store \<Rightarrow> 'b pile \<Rightarrow> ('d, 'b) sync_world \<Rightarrow> ('d, 'b) sync_world" where
  "put_copy i c p w = \<lparr>sw_pile = p, sw_used = use_blocks (sw_used w) p, sw_copies = (sw_copies w)(i \<mapsto> c),
     sw_twice = (sw_twice w \<or> \<not> blocks_agree (sw_used w) p), sw_over = sw_over w\<rparr>"

definition put_ledger :: "name_ledger option \<Rightarrow> 'b pile \<Rightarrow> 'b pile" where
  "put_ledger led p = (case led of None \<Rightarrow> p | Some l \<Rightarrow> p\<lparr>p_ledger := Some (ledger_render l)\<rparr>)"

definition note_over :: "bool \<Rightarrow> nat \<Rightarrow> ('d, 'b) sync_world \<Rightarrow> ('d, 'b) sync_world" where
  "note_over flushed i w = (if flushed then w else w\<lparr>sw_over := insert i (sw_over w)\<rparr>)"

text \<open>
  A step is a call on a copy, whatever it knows and wherever its writes end; what a reader sees
  at \<open>Opened\<close> is what the blocks it read held when it read them.
\<close>

inductive pile_step ::
    "('d, 'b) doc_ops \<Rightarrow> ('b \<Rightarrow> ops) \<Rightarrow> ('d \<Rightarrow> ops) \<Rightarrow> ('d, 'b) sync_world \<Rightarrow> ('d, 'b) sync_world \<Rightarrow> bool"
  for D :: "('d, 'b) doc_ops" and carries :: "'b \<Rightarrow> ops" and known :: "'d \<Rightarrow> ops" where
  Opened: "sw_copies w i = None \<Longrightarrow>
     look_ok carries (sw_used w) (sw_pile w) lk1 \<Longrightarrow> look_ok carries (sw_used w) (sw_pile w) lk2 \<Longrightarrow>
     base_ok carries (sw_used w) (sw_pile w) base \<Longrightarrow>
     load_inner D lk1 lk2 peer pn ok1 ok2 base = Inr (l, led) \<Longrightarrow>
     pile_step D carries known w (put_copy i (l_doc l, l_store (stamp_empty l)) (put_ledger led (sw_pile w)) w)"
| Edited: "sw_copies w i = Some (d, st) \<Longrightarrow> d_version D d \<le> d_version D d' \<Longrightarrow>
     pile_step D carries known w (put_copy i (d', st) (sw_pile w) w)"
| Merged: "sw_copies w i = Some (d, st) \<Longrightarrow> d_merge D d b = Inr (rep, d') \<Longrightarrow>
     pile_step D carries known w (put_copy i (d', record_import rep st) (sw_pile w) w)"
| Flushed: "sw_copies w i = Some (d, st) \<Longrightarrow> flush D io d st (sw_pile w) = (r, st', p') \<Longrightarrow>
     pile_step D carries known w (put_copy i (d, st') p' w)"
| Absorbed: "sw_copies w i = Some (d, st) \<Longrightarrow> absorb D io n b (d, st, sw_pile w) = (ra, d', st', p') \<Longrightarrow>
     pile_step D carries known w
       (note_over (known d \<subseteq> durable carries (sw_pile w)) i (put_copy i (d', st') p' w))"
| Compacted: "sw_copies w i = Some (d, st) \<Longrightarrow> compact D io rm d st (sw_pile w) = (rc, st', p') \<Longrightarrow>
     pile_step D carries known w (put_copy i (d, st') p' w)"
| Renamed: "sw_copies w i = Some (d, st) \<Longrightarrow> took_in D ok fresh before d st (sw_pile w) = (rn, st', p') \<Longrightarrow>
     pile_step D carries known w (put_copy i (d, st') p' w)"
| Closed: "pile_step D carries known w (w\<lparr>sw_copies := (sw_copies w)(i := None), sw_over := sw_over w - {i}\<rparr>)"

abbreviation pile_runs where
  "pile_runs D carries known \<equiv> (pile_step D carries known)\<^sup>*\<^sup>*"

definition sw_ok :: "('d, 'b) doc_ops \<Rightarrow> ('b \<Rightarrow> ops) \<Rightarrow> ('d, 'b) sync_world \<Rightarrow> bool" where
  "sw_ok D carries w \<longleftrightarrow> pile_ok (sw_used w) (sw_pile w) \<and>
     (\<forall>i c. sw_copies w i = Some c \<longrightarrow> copy_at (i \<notin> sw_over w) D carries (sw_used w) (sw_pile w) c)"

lemma sw_okD:
  assumes "sw_ok D carries w"
  shows "pile_ok (sw_used w) (sw_pile w)"
    and "sw_copies w i = Some c \<Longrightarrow> copy_at (i \<notin> sw_over w) D carries (sw_used w) (sw_pile w) c"
  using assms unfolding sw_ok_def by blast+

definition grown :: "('b \<Rightarrow> ops) \<Rightarrow> ('d, 'b) sync_world \<Rightarrow> ('d, 'b) sync_world \<Rightarrow> bool" where
  "grown carries w w' \<longleftrightarrow> durable carries (sw_pile w) \<subseteq> durable carries (sw_pile w') \<and> sw_used w \<subseteq>\<^sub>m sw_used w'"

lemma use_blocks_grows: "blocks_agree used p \<Longrightarrow> used \<subseteq>\<^sub>m use_blocks used p"
  using use_blocks_mono [of used p] by (auto simp: map_le_def)

lemma pile_ok_agrees: "pile_ok used p \<Longrightarrow> blocks_agree used p"
  by (simp add: pile_ok_def blocks_agree_def)

lemma copy_at_weaken: "copy_at mk D carries used p c \<Longrightarrow> (mk' \<Longrightarrow> mk) \<Longrightarrow> copy_at mk' D carries used p c"
  by (auto simp: copy_at_def)

lemma put_copy_ok:
  assumes "sw_ok D carries w" and "\<not> sw_twice (put_copy i c p' w)"
    and "op_at mk D carries (sw_used w) (sw_pile w) p' c" and "i \<notin> sw_over w \<Longrightarrow> \<not> flushed \<or> mk"
  shows "sw_ok D carries (note_over flushed i (put_copy i c p' w)) \<and> grown carries w (note_over flushed i (put_copy i c p' w))"
proof -
  have agree: "blocks_agree (sw_used w) p'" using assms(2) by (simp add: put_copy_def)
  have others: "copy_at (j \<notin> sw_over w) D carries (use_blocks (sw_used w) p') p' c'" if "sw_copies w j = Some c'" for j c'
  proof (rule copy_ok_other [OF sw_okD(2) [OF assms(1) that] agree])
    show "durable carries (sw_pile w) \<subseteq> durable carries p'" using assms(3) unfolding op_at_def by blast
  qed
  have own: "copy_at (i \<notin> sw_over w \<and> flushed) D carries (use_blocks (sw_used w) p') p' c"
    by (rule copy_at_weaken [of mk]) (use assms(3,4) in \<open>auto simp: op_at_def\<close>)
  show ?thesis
    using assms(3) others own use_blocks_grows [OF agree]
    by (cases flushed) (auto simp: sw_ok_def grown_def put_copy_def op_at_def note_over_def intro: copy_at_weaken)
qed

text \<open>A step of a copy that does not pull: its mark is as honest as it was.\<close>

lemma put_copy_keeps:
  assumes "sw_ok D carries w" and "\<not> sw_twice (put_copy i c p' w)"
    and "op_at (i \<notin> sw_over w) D carries (sw_used w) (sw_pile w) p' c"
  shows "sw_ok D carries (put_copy i c p' w) \<and> grown carries w (put_copy i c p' w)"
  using put_copy_ok [OF assms, of True] by (simp add: note_over_def)

text \<open>A step that writes no block: the books only have to be honest about the same blocks.\<close>

lemma put_copy_same:
  assumes "sw_ok D carries w" and "\<not> sw_twice (put_copy i c p' w)"
    and "p_blocks p' = p_blocks (sw_pile w)" and "p_dir p' = p_dir (sw_pile w)"
    and "copy_at (i \<notin> sw_over w) D carries (sw_used w) (sw_pile w) c"
  shows "sw_ok D carries (put_copy i c p' w) \<and> grown carries w (put_copy i c p' w)"
proof -
  have p: "pile_ok (sw_used w) p'" using assms(1,3,4) by (simp add: sw_ok_def pile_ok_def)
  note a = pile_ok_agrees [OF p]
  have d: "durable carries p' = durable carries (sw_pile w)" by (rule durable_same) (rule assms(3))
  have "op_at (i \<notin> sw_over w) D carries (sw_used w) (sw_pile w) p' c"
    unfolding op_at_def d
    using pile_ok_use [OF a pile_okD(1) [OF p]] p copy_ok_other [OF assms(5) a] d
    by (simp add: pile_ok_def)
  then show ?thesis by (rule put_copy_keeps [OF assms(1,2)])
qed

lemma copy_ok_further:
  assumes "copy_at mk D carries used p (d, st)" and "held st' = held st" and "on_disk st' = on_disk st"
    and "covered (d_version D d) \<union> pend_ops (pending st) \<subseteq> covered (d_version D d') \<union> pend_ops (pending st')"
  shows "copy_at mk D carries used p (d', st')"
  using assms(1,4) unfolding copy_at_def split assms(2,3) by (meson order_trans)

lemma step_keeps:
  assumes "doc_laws D carries known" and "pile_step D carries known w w'" and "sw_ok D carries w" and "\<not> sw_twice w'"
  shows "sw_ok D carries w' \<and> grown carries w w'"
  using assms(2)
proof cases
  case (Opened i lk1 lk2 base peer pn ok1 ok2 l led)
  have "copy_ok D carries (sw_used w) (sw_pile w) (l_doc l, l_store (stamp_empty l))"
    using load_inner_ok [OF assms(1) Opened(3-6)] by simp
  then have c: "copy_at (i \<notin> sw_over w) D carries (sw_used w) (sw_pile w) (l_doc l, l_store (stamp_empty l))"
    by (rule copy_at_weaken) simp
  show ?thesis unfolding Opened(1)
    by (rule put_copy_same [OF assms(3,4) [unfolded Opened(1)] _ _ c]) (auto simp: put_ledger_def split: option.splits)
next
  case (Edited i d st d')
  note c = sw_okD(2) [OF assms(3) Edited(2)]
  show ?thesis unfolding Edited(1)
    by (rule put_copy_same [OF assms(3,4) [unfolded Edited(1)] refl refl copy_ok_further [OF c refl refl]])
      (use covered_mono [OF Edited(3)] in blast)
next
  case (Merged i d st b rep d')
  note c = sw_okD(2) [OF assms(3) Merged(2)]
  show ?thesis unfolding Merged(1)
    by (rule put_copy_same [OF assms(3,4) [unfolded Merged(1)] refl refl
          copy_ok_further [OF c _ _ take_in_more(1) [OF assms(1) Merged(3)]]])
      (simp_all add: record_import_def)
next
  case (Flushed i d st io r st' p')
  have agree: "blocks_agree (sw_used w) p'" using assms(4) Flushed(1) by (simp add: put_copy_def)
  show ?thesis unfolding Flushed(1)
    by (rule put_copy_keeps [OF assms(3,4) [unfolded Flushed(1)]
          flush_ok [OF assms(1) sw_okD(1) [OF assms(3)] sw_okD(2) [OF assms(3) Flushed(2)] Flushed(3) agree]])
next
  case (Absorbed i d st io n b ra d' st' p')
  have once: "\<not> sw_twice (put_copy i (d', st') p' w)"
    using assms(4) Absorbed(1) by (simp add: note_over_def split: if_splits)
  then have agree: "blocks_agree (sw_used w) p'" by (simp add: put_copy_def)
  show ?thesis unfolding Absorbed(1)
    by (rule put_copy_ok [OF assms(3) once
          absorb_ok [OF assms(1) sw_okD(1) [OF assms(3)] sw_okD(2) [OF assms(3) Absorbed(2)] Absorbed(3) agree]]) simp
next
  case (Compacted i d st io rm rc st' p')
  have agree: "blocks_agree (sw_used w) p'" using assms(4) Compacted(1) by (simp add: put_copy_def)
  show ?thesis unfolding Compacted(1)
    by (rule put_copy_keeps [OF assms(3,4) [unfolded Compacted(1)]
          compact_ok [OF assms(1) sw_okD(1) [OF assms(3)] sw_okD(2) [OF assms(3) Compacted(2)] Compacted(3) agree]])
next
  case (Renamed i d st ok fresh before rn st' p')
  note c = sw_okD(2) [OF assms(3) Renamed(2)]
  have t: "held st' = held st" "on_disk st' = on_disk st" "pending st' = pending st"
      "p_blocks p' = p_blocks (sw_pile w)" "p_dir p' = p_dir (sw_pile w)"
    using Renamed(3) by (auto simp: took_in_def split: option.splits prod.splits if_splits)
  show ?thesis unfolding Renamed(1)
    by (rule put_copy_same [OF assms(3,4) [unfolded Renamed(1)] t(4,5) copy_ok_further [OF c t(1,2)]]) (simp add: t(3))
next
  case (Closed i)
  then show ?thesis using assms(3) by (auto simp: sw_ok_def grown_def)
qed

lemma grown_refl [simp]: "grown carries w w"
  by (simp add: grown_def)

lemma grown_trans: "grown carries w w' \<Longrightarrow> grown carries w' w'' \<Longrightarrow> grown carries w w''"
  unfolding grown_def using map_le_trans by blast

text \<open>A name that stood for two contents stays one that did.\<close>

lemma step_twice: "pile_step D carries known w w' \<Longrightarrow> sw_twice w \<Longrightarrow> sw_twice w'"
  by (induction rule: pile_step.induct) (auto simp: put_copy_def note_over_def)

lemma runs_twice: "pile_runs D carries known w w' \<Longrightarrow> \<not> sw_twice w' \<Longrightarrow> \<not> sw_twice w"
  by (induction rule: rtranclp_induct) (auto dest: step_twice)

lemma runs_keep:
  assumes "doc_laws D carries known" and "pile_runs D carries known w w'" and "sw_ok D carries w" and "\<not> sw_twice w'"
  shows "sw_ok D carries w' \<and> grown carries w w'"
  using assms(2,4)
proof (induction rule: rtranclp_induct)
  case base
  then show ?case using assms(3) by simp
next
  case (step y z)
  have y: "\<not> sw_twice y" using step_twice [OF step.hyps(2)] step.prems by blast
  then show ?case
    using step.IH step_keeps [OF assms(1) step.hyps(2) _ step.prems] grown_trans by blast
qed

lemma empty_sw_ok [simp]: "sw_ok D carries empty_world"
  by (simp add: sw_ok_def empty_world_def pile_ok_def empty_pile_def)

end
