(* ===== verification/PileGuarantees.thy ===== *)
theory PileGuarantees
  imports PileRuns
begin

text \<open>
  What a pile guarantees: what was flushed reaches every later reader, and a new block takes a
  name no block or ledger line has.
\<close>

section \<open>What was flushed stays\<close>

lemma flush_covers:
  assumes "doc_laws D carries known" and "pile_ok used p" and "copy_ok D carries used p (d, st)"
    and "flush D io d st p = (Inr r, st', p')" and "blocks_agree used p'"
  shows "covered (d_version D d) \<subseteq> durable carries p'"
proof -
  note ok = flush_ok [OF assms(1-5)]
  show ?thesis
    using assms(4)
  proof (cases rule: flush_cases)
    case unchanged
    from unchanged(4) show ?thesis
    proof
      assume "d_version D d = on_disk st"
      then show ?thesis using copy_okD(1) [OF assms(3)] unchanged(3) by simp
    next
      assume "\<exists>delta. d_changes D d (on_disk st) = Inr delta \<and> b_empty D delta"
      then obtain delta where "d_changes D d (on_disk st) = Inr delta" "b_empty D delta" by blast
      then have "covered (d_version D d) \<subseteq> covered (on_disk st)" using doc_changesD [OF assms(1)] by blast
      then show ?thesis using copy_okD(1) [OF assms(3)] unchanged(3) by blast
    qed
  next
    case (written n delta)
    have "copy_ok D carries (use_blocks used p') p' (d, st')" using ok by (simp add: op_at_def)
    then show ?thesis using copy_okD(1) written(4) by fastforce
  qed simp_all
qed

text \<open>
  A look that takes its time: the listing is of \<open>w\<close>, each block is read in some later world
  on the way to \<open>w'\<close>.
\<close>

definition slow_look ::
    "('d, 'b) doc_ops \<Rightarrow> ('b \<Rightarrow> ops) \<Rightarrow> ('d \<Rightarrow> ops) \<Rightarrow> ('d, 'b) sync_world \<Rightarrow> ('d, 'b) sync_world \<Rightarrow> 'b look \<Rightarrow> bool" where
  "slow_look D carries known w w' lk \<longleftrightarrow> lk_list lk = blocks (sw_pile w) \<and>
     (\<forall>n. \<exists>v. pile_runs D carries known w v \<and> pile_runs D carries known v w' \<and>
        lk_read lk n = lk_read (look_at (sw_pile v)) n)"

lemma slow_look_ok:
  assumes "doc_laws D carries known" and "sw_ok D carries w" and "slow_look D carries known w w' lk"
    and "\<not> sw_twice w'"
  shows "look_ok carries (sw_used w') (sw_pile w') lk"
  unfolding look_ok_def
proof (intro allI impI)
  fix n b
  assume r: "lk_read lk n = ReadOk b"
  obtain v where v: "pile_runs D carries known w v" "pile_runs D carries known v w'"
      "lk_read lk n = lk_read (look_at (sw_pile v)) n"
    using assms(3) unfolding slow_look_def by blast
  have "\<not> sw_twice v" by (rule runs_twice [OF v(2) assms(4)])
  then have "sw_ok D carries v" using runs_keep [OF assms(1) v(1) assms(2)] by blast
  moreover have "grown carries v w'" using runs_keep [OF assms(1) v(2) calculation assms(4)] by blast
  moreover have "look_ok carries (sw_used v) (sw_pile v) (look_at (sw_pile v))"
    by (rule look_at_ok) (use calculation(1) in \<open>simp add: sw_ok_def\<close>)
  ultimately show "sw_used w' n = Some b \<and> carries b \<subseteq> durable carries (sw_pile w')"
    using r v(3) unfolding look_ok_def grown_def map_le_def by (metis domI order_trans)
qed

text \<open>A look that finds every block it listed.\<close>

definition finds_all :: "'b look \<Rightarrow> bool" where
  "finds_all lk \<longleftrightarrow> (\<forall>n \<in> set (lk_list lk). lk_read lk n \<noteq> ReadGone)"

lemma finds_all_whole: "finds_all (look_at p)"
  using look_at_not_gone by (auto simp: finds_all_def)

lemma whole_look_not_gone:
  assumes "finds_all lk"
  shows "im_vanished (read_blocks D lk kept d) = False"
proof -
  have fold: "im_vanished (foldl (read_one D rd) im ns) = im_vanished im" if "\<And>n. n \<in> set ns \<Longrightarrow> rd n \<noteq> ReadGone"
    for rd im ns
    using that
  proof (induction ns arbitrary: im)
    case (Cons n ns)
    have "im_vanished (read_one D rd im n) = im_vanished im"
      using Cons.prems [of n] by (auto simp: read_one_def split: block_read.splits sum.splits)
    then show ?case using Cons by simp
  qed simp
  show ?thesis
    unfolding read_blocks_def by (subst fold) (use assms in \<open>auto simp: finds_all_def\<close>)
qed

lemma whole_read_once: "finds_all lk \<Longrightarrow> read_once D lk peer pn ok base = Inr (l, v, led) \<Longrightarrow> \<not> v"
  using whole_look_not_gone [of lk D]
  by (auto simp: read_once_def Let_def split: sum.splits prod.splits if_splits)

lemma blocks_listed: "pile_ok used p \<Longrightarrow> bt_get (p_blocks p) n = Some b \<Longrightarrow> n \<in> set (blocks p)"
  using look_at_list by (fastforce simp: look_at_def)

text \<open>
  A reader gets all that was in the directory when it listed it; the second look, if it takes
  one, starts after the first.
\<close>

lemma reader_sees_the_listing:
  assumes "doc_laws D carries known" and "sw_ok D carries w" and "pile_runs D carries known w w1"
    and "pile_runs D carries known w1 w2" and "slow_look D carries known w w1 lk1"
    and "slow_look D carries known w1 w2 lk2" and "finds_all lk2" and "\<not> sw_twice w2"
    and "load_inner D lk1 lk2 peer pn ok1 ok2 None = Inr (l, led)" and "l_broken l = []"
  shows "durable carries (sw_pile w) \<subseteq> covered (d_version D (l_doc l)) \<union> pend_ops (pending (l_store l))"
proof -
  have t1: "\<not> sw_twice w1" by (rule runs_twice [OF assms(4,8)])
  have later: "sw_ok D carries w1" "grown carries w w1" using runs_keep [OF assms(1,3,2) t1] by blast+
  have sees: "durable carries (sw_pile v) \<subseteq> covered (d_version D (l_doc l)) \<union> pend_ops (pending (l_store l))"
    if "sw_ok D carries v" and "pile_runs D carries known v v'" and "\<not> sw_twice v'"
      and "slow_look D carries known v v' lk" and "read_once D lk peer pn ok None = Inr (l, False, led)" for v v' lk ok
  proof
    have p: "pile_ok (sw_used v) (sw_pile v)" by (rule sw_okD(1) [OF that(1)])
    have up: "sw_used v \<subseteq>\<^sub>m sw_used v'" using runs_keep [OF assms(1) that(2,1,3)] by (simp add: grown_def)
    fix x
    assume "x \<in> durable carries (sw_pile v)"
    then obtain n b where b: "bt_get (p_blocks (sw_pile v)) n = Some b" "x \<in> carries b" by (auto simp: durable_def)
    have "sw_used v n = Some b" by (rule pile_okD(3) [OF p b(1)])
    then have u: "sw_used v' n = Some b" using up unfolding map_le_def by (metis domI)
    have "n \<in> set (lk_list lk)" using blocks_listed [OF p b(1)] that(4) by (simp add: slow_look_def)
    then show "x \<in> covered (d_version D (l_doc l)) \<union> pend_ops (pending (l_store l))"
      using read_once_facts(2) [OF assms(1) slow_look_ok [OF assms(1) that(1,4,3)] base_ok_None that(5) _ assms(10), of n] u b(2)
      by force
  qed
  show ?thesis
    using assms(9)
  proof (cases rule: load_inner_cases)
    case once
    show ?thesis by (rule sees [OF assms(2,3) t1 assms(5) once])
  next
    case (again v)
    have "v = False" using whole_read_once [OF assms(7) again] by simp
    then have "durable carries (sw_pile w1) \<subseteq> covered (d_version D (l_doc l)) \<union> pend_ops (pending (l_store l))"
      using sees [OF later(1) assms(4,8,6)] again by blast
    then show ?thesis using later(2) unfolding grown_def by blast
  qed
qed

text \<open>
  C3: What was flushed is never lost, and never hidden.  From an empty directory, let any number
  of copies be opened, edit, merge, flush, pull blocks, compact, lose their names and die, in any
  order and with any writes failing.  Once a flush of a copy has answered Ok that has not, since
  it was opened, pulled a block while it knew operations that were in no block, then after
  any further steps a reader that lists the directory and reads its blocks while still more
  steps happen (a compaction replacing them under its eyes included) gets a document that
  includes the flushed one's version, unless it reports broken blocks or pending imports.  No
  block name stood for two contents by then; and when a listed block was gone at the first
  look, the second look finds all it lists.
\<close>

theorem flushed_edits_reach_every_later_reader:
  assumes "doc_laws D carries known" and "pile_runs D carries known empty_world w"
    and "sw_copies w i = Some (d, st)" and "i \<notin> sw_over w" and "flush D io d st (sw_pile w) = (Inr r, st', p')"
    and "pile_runs D carries known (put_copy i (d, st') p' w) w1"
    and "pile_runs D carries known w1 w2" and "slow_look D carries known w1 w2 lk1"
    and "pile_runs D carries known w2 w3" and "slow_look D carries known w2 w3 lk2" and "finds_all lk2"
    and "\<not> sw_twice w3"
    and "load_inner D lk1 lk2 peer pn ok1 ok2 None = Inr (l, led)" and "l_broken l = []"
    and "\<not> has_unresolved_imports D (l_doc l) (l_store l)"
  shows "d_version D d \<le> d_version D (l_doc l)"
proof (rule covered_le)
  let ?w = "put_copy i (d, st') p' w"
  have t1: "\<not> sw_twice w1" using runs_twice [OF assms(7)] runs_twice [OF assms(9,12)] by blast
  note t = runs_twice [OF assms(6) t1]
  have once: "\<not> sw_twice w" "blocks_agree (sw_used w) p'" using t by (simp_all add: put_copy_def)
  have w: "sw_ok D carries w" using runs_keep [OF assms(1,2) _ once(1)] by simp
  have c: "copy_ok D carries (sw_used w) (sw_pile w) (d, st)"
    using sw_okD(2) [OF w assms(3)] assms(4) by simp
  have f: "covered (d_version D d) \<subseteq> durable carries p'"
    by (rule flush_covers [OF assms(1) sw_okD(1) [OF w] c assms(5) once(2)])
  have "sw_ok D carries ?w"
    using step_keeps [OF assms(1) pile_step.Flushed [OF assms(3,5)] w t] by blast
  then have w1: "sw_ok D carries w1" "grown carries ?w w1"
    using runs_keep [OF assms(1,6) _ t1] by blast+
  have "durable carries (sw_pile w1) \<subseteq> covered (d_version D (l_doc l)) \<union> pend_ops (pending (l_store l))"
    by (rule reader_sees_the_listing [OF assms(1) w1(1) assms(7,9,8,10-14)])
  moreover have "pend_ops (pending (l_store l)) \<subseteq> covered (d_version D (l_doc l))"
    using assms(15) resolved_pending by (simp add: has_unresolved_imports_def)
  moreover have "durable carries p' \<subseteq> durable carries (sw_pile w1)"
    using w1(2) by (simp add: grown_def put_copy_def)
  ultimately show "covered (d_version D d) \<subseteq> covered (d_version D (l_doc l))" using f by blast
qed

section \<open>A run with a document that counts\<close>

text \<open>
  A document that is one counter: writer 0's operations, of which a copy has the first so many.
  Bytes are a range of them, refused when they leave a gap.
\<close>

definition counting :: "(nat \<times> nat, nat \<times> nat) doc_ops" where
  "counting = \<lparr>d_open = (\<lambda>p. Inr (p, 0)), d_peer = fst, d_version = (\<lambda>d w. if w = 0 then snd d else 0),
     d_changes = (\<lambda>d v. Inr (v 0, snd d)), d_snapshot = (\<lambda>d. Inr (0, snd d)),
     d_merge = (\<lambda>d b. if fst b \<le> snd d then Inr (\<lparr>rep_applied = [], rep_pending = []\<rparr>, (fst d, max (snd d) (snd b)))
                 else Inl ''gap''),
     d_items = snd, b_empty = (\<lambda>b. snd b \<le> fst b), b_len = (\<lambda>b. snd b - fst b)\<rparr>"

definition counting_carries :: "nat \<times> nat \<Rightarrow> ops" where
  "counting_carries b = {(w, c). w = 0 \<and> fst b \<le> c \<and> c < snd b}"

definition counting_known :: "nat \<times> nat \<Rightarrow> ops" where
  "counting_known d = {(w, c). w = 0 \<and> c < snd d}"

lemma counting_covered: "covered (d_version counting d) = counting_known d"
  by (auto simp: covered_def counting_def counting_known_def split: if_splits)

lemma counting_laws: "doc_laws counting counting_carries counting_known"
proof -
  have "open_law counting counting_known"
    by (auto simp: open_law_def counting_def counting_known_def)
  moreover have "merge_law counting counting_carries counting_known"
    unfolding merge_law_def counting_covered
    by (auto simp: counting_def counting_known_def counting_carries_def le_fun_def split: if_splits)
  moreover have "known_law counting counting_known" by (simp add: known_law_def counting_covered)
  moreover have "export_law counting counting_carries"
    unfolding export_law_def counting_covered
    by (auto simp: counting_def counting_known_def counting_carries_def covered_def)
  moreover have "catch_up_law counting"
    by (auto simp: catch_up_law_def counting_def le_fun_def split: if_splits)
  ultimately show ?thesis by (simp add: doc_laws_def)
qed

text \<open>
  Copy 0 is opened on nothing, makes two edits, flushes, and compacts while a reader that has
  listed the flushed block is about to read it.
\<close>

abbreviation "all_writes \<equiv> (\<lambda>_. True)"

definition demo_open :: "(nat \<times> nat, nat \<times> nat) sync_world" where
  "demo_open = (case load_inner counting (look_at empty_pile) (look_at empty_pile) 7 None True True None of
     Inl _ \<Rightarrow> empty_world
   | Inr (l, led) \<Rightarrow> put_copy 0 (l_doc l, l_store (stamp_empty l)) (put_ledger led empty_pile) empty_world)"

definition demo_store :: block_store where
  "demo_store = \<lparr>on_disk = (\<lambda>_. 0), st_ledger = [], held = [], st_epoch = EPOCH, stamp = True, pen = None,
     retired = None, pending = Map.empty\<rparr>"

definition demo_name :: uchars where
  "demo_name = block_name (unit_prefix 7) 0"

lemma counting_simps:
  "d_changes counting d v = Inr (v 0, snd d)" "d_snapshot counting d = Inr (0, snd d)" "d_peer counting d = fst d"
  "d_merge counting d b = (if fst b \<le> snd d then Inr (\<lparr>rep_applied = [], rep_pending = []\<rparr>, (fst d, max (snd d) (snd b)))
     else Inl ''gap'')"
  "b_empty counting b = (snd b \<le> fst b)" "d_open counting p = Inr (p, 0)"
  by (simp_all add: counting_def)

lemma counting_version: "d_version counting (p, n) = d_version counting (q, m) \<longleftrightarrow> n = m"
  by (auto simp: counting_def fun_eq_iff)

lemma demo_open_eq: "demo_open = put_copy 0 ((7, 0), demo_store) empty_pile empty_world"
  by (simp add: demo_open_def load_inner_def read_once_def merge_base_def read_blocks_def look_at_def blocks_def
      empty_pile_def counting_def read_ledger_def read_epoch_def stamp_empty_def demo_store_def put_ledger_def
      EPOCH_def cong: if_cong)

lemma demo_name_eq: "demo_name = map uc ''u-0000000000000007-00000000.loro''"
  by code_simp

lemmas writing_defs = make_dir_def write_block_def save_names_def enter_name_def ledger_insert_def set_insert_def
  next_number_def blocks_def list_blocks_def Let_def List.map_filter_def

definition demo_snap :: uchars where
  "demo_snap = block_name (snap_prefix 7) 0"

definition demo_pile :: "uchars \<Rightarrow> uchars list \<Rightarrow> (nat \<times> nat) pile" where
  "demo_pile n led = \<lparr>p_dir = True, p_blocks = [(n, (0, 2))], p_ledger = Some (ledger_render led),
     p_epoch = Some EPOCH, p_pens = Map.empty\<rparr>"

definition demo_wrote :: "uchars \<Rightarrow> uchars list \<Rightarrow> block_store" where
  "demo_wrote n led = demo_store\<lparr>stamp := False, st_ledger := led, held := [n], on_disk := d_version counting (7, 2)\<rparr>"

lemma demo_flush: "flush counting all_writes (7, 2) demo_store empty_pile =
    (Inr (Some demo_name), demo_wrote demo_name [demo_name], demo_pile demo_name [demo_name])"
proof -
  have "d_version counting (7, 2) \<noteq> on_disk demo_store"
    by (simp add: counting_def demo_store_def fun_eq_iff exI [of _ 0])
  then show ?thesis
    by (simp add: flush_def counting_simps demo_store_def empty_pile_def demo_name_def demo_wrote_def demo_pile_def
        writing_defs)
qed

lemma demo_names: "number_of (snap_prefix 7) demo_name = None" "demo_snap < demo_name" "demo_snap \<noteq> demo_name" "demo_snap \<le> demo_name"
  by code_simp+

lemma demo_compact: "compact counting all_writes all_writes (7, 2) (demo_wrote demo_name [demo_name]) (demo_pile demo_name [demo_name]) =
    (Inr demo_snap, demo_wrote demo_snap [demo_snap, demo_name], demo_pile demo_snap [demo_snap, demo_name])"
  using demo_names
  by (simp add: compact_def has_unresolved_imports_def unresolved_def counting_simps demo_store_def demo_wrote_def
      demo_pile_def writing_defs remove_blocks_def bt_retain_def demo_snap_def [symmetric])

definition demo_edited :: "(nat \<times> nat, nat \<times> nat) sync_world" where
  "demo_edited = put_copy 0 ((7, 2), demo_store) empty_pile demo_open"

definition demo_flushed :: "(nat \<times> nat, nat \<times> nat) sync_world" where
  "demo_flushed = put_copy 0 ((7, 2), demo_wrote demo_name [demo_name]) (demo_pile demo_name [demo_name]) demo_edited"

definition demo_compacted :: "(nat \<times> nat, nat \<times> nat) sync_world" where
  "demo_compacted = put_copy 0 ((7, 2), demo_wrote demo_snap [demo_snap, demo_name])
     (demo_pile demo_snap [demo_snap, demo_name]) demo_flushed"

text \<open>The reader listed the flushed block and reads after the compaction.\<close>

definition demo_look :: "(nat \<times> nat) look" where
  "demo_look = (look_at (sw_pile demo_flushed))\<lparr>lk_read := lk_read (look_at (sw_pile demo_compacted))\<rparr>"

definition demo_loaded :: "(nat \<times> nat) loaded" where
  "demo_loaded = \<lparr>l_store = \<lparr>on_disk = d_version counting (9, 2), st_ledger = [demo_snap, demo_name], held = [demo_snap],
       st_epoch = EPOCH, stamp = False, pen = None, retired = None, pending = Map.empty\<rparr>,
     l_doc = (9, 2), l_broken = []\<rparr>"

lemmas demo_worlds = demo_open_eq demo_edited_def demo_flushed_def demo_compacted_def put_copy_def empty_world_def
  empty_pile_def demo_pile_def use_blocks_def

lemma demo_agree:
  "blocks_agree (sw_used demo_edited) (demo_pile demo_name [demo_name])"
  "blocks_agree (sw_used demo_flushed) (demo_pile demo_snap [demo_snap, demo_name])"
  using demo_names by (auto simp: blocks_agree_def demo_worlds bt_get_def)

lemma demo_first: "pile_runs counting counting_carries counting_known empty_world demo_edited"
proof -
  have look: "look_ok counting_carries Map.empty empty_pile (look_at empty_pile)"
    by (rule look_at_ok) (simp add: pile_ok_def empty_pile_def)
  obtain l led where l: "load_inner counting (look_at empty_pile) (look_at empty_pile) 7 None True True None = Inr (l, led)"
    by (simp add: load_inner_def read_once_def merge_base_def read_blocks_def look_at_def blocks_def
      empty_pile_def counting_simps)
  have "pile_step counting counting_carries counting_known empty_world demo_open"
    unfolding demo_open_def l sum.case prod.case
    using pile_step.Opened [of empty_world 0 counting_carries "look_at empty_pile" "look_at empty_pile" None counting 7
        None True True l led counting_known] look l
    by (simp add: empty_world_def)
  moreover have "pile_step counting counting_carries counting_known demo_open demo_edited"
    unfolding demo_edited_def
    using pile_step.Edited [of demo_open 0 "(7, 0)" demo_store counting "(7, 2)" counting_carries counting_known]
    by (simp add: demo_open_eq put_copy_def empty_world_def counting_def le_fun_def)
  ultimately show ?thesis by (meson converse_rtranclp_into_rtranclp rtranclp.rtrancl_refl)
qed

lemma demo_copies: "sw_copies demo_edited 0 = Some ((7, 2), demo_store)" "sw_pile demo_edited = empty_pile"
  "sw_copies demo_flushed 0 = Some ((7, 2), demo_wrote demo_name [demo_name])"
  "sw_pile demo_flushed = demo_pile demo_name [demo_name]"
  "sw_pile demo_compacted = demo_pile demo_snap [demo_snap, demo_name]"
  by (simp_all add: demo_edited_def demo_flushed_def demo_compacted_def put_copy_def)

lemma demo_second: "pile_runs counting counting_carries counting_known demo_flushed demo_compacted"
  unfolding demo_compacted_def
  by (rule r_into_rtranclp, rule pile_step.Compacted [OF demo_copies(3)])
    (use demo_compact in \<open>simp_all add: demo_copies\<close>)

lemma demo_once: "\<not> sw_twice demo_compacted" "0 \<notin> sw_over demo_edited"
  "\<not> sw_twice (put_copy 0 ((7, 2), demo_wrote demo_name [demo_name]) (demo_pile demo_name [demo_name]) demo_edited)"
proof -
  have t: "\<not> sw_twice demo_edited" by (auto simp: demo_worlds blocks_agree_def bt_get_def)
  then show "\<not> sw_twice (put_copy 0 ((7, 2), demo_wrote demo_name [demo_name]) (demo_pile demo_name [demo_name]) demo_edited)"
    using demo_agree(1) by (simp add: put_copy_def)
  then have "\<not> sw_twice demo_flushed" by (simp only: demo_flushed_def not_False_eq_True)
  then show "\<not> sw_twice demo_compacted"
    using demo_agree(2) unfolding demo_compacted_def by (simp add: put_copy_def)
  show "0 \<notin> sw_over demo_edited" by (simp add: demo_worlds)
qed

lemma demo_slow: "slow_look counting counting_carries counting_known demo_flushed demo_compacted demo_look"
  using demo_second by (auto simp: slow_look_def demo_look_def look_at_def)

lemma demo_slow_again: "slow_look counting counting_carries counting_known demo_compacted demo_compacted
    (look_at (sw_pile demo_compacted))"
  by (auto simp: slow_look_def look_at_def)

lemma demo_ledger: "read_ledger (demo_pile n led) = ledger_parse (ledger_render led)"
  by (simp add: read_ledger_def demo_pile_def)

lemma demo_snap_eq: "demo_snap = map uc ''snap-0000000000000007-00000000.loro''"
  by code_simp

lemma demo_parse: "ledger_parse (ledger_render [demo_snap, demo_name]) = [demo_snap, demo_name]"
proof (rule ledger_file_roundtrip)
  show "set_ok [demo_snap, demo_name]" using demo_names by (simp add: set_ok_def)
  show "list_all line_name [demo_snap, demo_name]"
    by (simp add: demo_snap_eq demo_name_eq line_name_def is_whitespace_def)
qed

lemmas reading_defs = read_once_def merge_base_def read_blocks_def read_one_def look_at_def blocks_def counting_simps
  remember_pending_def set_insert_def ledger_insert_def

lemma demo_read_gone: "\<exists>l. read_once counting demo_look 9 None True None = Inr (l, True, None)"
proof -
  have "bt_get [(demo_snap, (0::nat, 2::nat))] demo_name = None" using demo_names by (simp add: bt_get_def)
  then show ?thesis
    by (simp add: reading_defs demo_look_def demo_copies) (simp add: reading_defs demo_pile_def Let_def)
qed

lemma demo_read_snap: "read_once counting (look_at (demo_pile demo_snap [demo_snap, demo_name])) 9 None True None =
    Inr (demo_loaded, False, None)"
proof -
  have "bt_get [(demo_snap, (0::nat, 2::nat))] demo_snap = Some (0, 2)" by (simp add: bt_get_def)
  then show ?thesis
    by (simp add: reading_defs demo_ledger demo_parse demo_loaded_def read_epoch_def Let_def)
      (simp add: reading_defs demo_pile_def)
qed

lemma demo_load: "load_inner counting demo_look (look_at (sw_pile demo_compacted)) 9 None True True None = Inr (demo_loaded, None)"
  using demo_read_gone demo_read_snap by (auto simp: load_inner_def demo_copies)

lemma demo_loaded_fields: "l_broken demo_loaded = []" "l_doc demo_loaded = (9, 2)" "pending (l_store demo_loaded) = Map.empty"
  by (simp_all add: demo_loaded_def)

theorem flushed_edits_reach_every_later_reader_witness:
  "d_version counting (7, 2) \<le> d_version counting (l_doc demo_loaded) \<and> l_doc demo_loaded = (9, 2) \<and>
   lk_list demo_look = [demo_name] \<and> lk_read demo_look demo_name = ReadGone"
proof -
  have "d_version counting (7, 2) \<le> d_version counting (l_doc demo_loaded)"
    by (rule flushed_edits_reach_every_later_reader [OF counting_laws demo_first demo_copies(1) demo_once(2)
          demo_flush [folded demo_copies(2)] _ demo_second demo_slow rtranclp.rtrancl_refl demo_slow_again
          finds_all_whole demo_once(1) demo_load])
      (simp_all add: demo_flushed_def demo_loaded_fields has_unresolved_imports_def unresolved_def)
  moreover have "lk_read demo_look demo_name = ReadGone"
    using demo_names by (simp add: demo_look_def look_at_def demo_copies demo_pile_def bt_get_def)
  ultimately show ?thesis by (simp add: demo_loaded_fields demo_look_def look_at_def blocks_def demo_copies demo_pile_def)
qed

section \<open>Names\<close>

lemma from_digit_hex: "d < 16 \<Longrightarrow> from_digit (hex_char d) = Some d"
  by (auto simp: from_digit_def hex_char_def)

lemma from_digits_append:
  "from_digits (xs @ ys) acc = (case from_digits xs acc of None \<Rightarrow> None | Some a \<Rightarrow> from_digits ys a)"
  by (induction xs arbitrary: acc) (auto split: option.splits)

lemma from_digits_hex_pad:
  "n < 16 ^ k \<Longrightarrow> acc * 16 ^ k + n \<le> u32_max \<Longrightarrow> from_digits (hex_pad k n) acc = Some (acc * 16 ^ k + n)"
proof (induction k arbitrary: n)
  case 0
  then show ?case by (simp add: hex_pad.simps)
next
  case (Suc k)
  have n: "n div 16 < 16 ^ k" using Suc.prems(1) by (simp add: less_mult_imp_div_less)
  have split: "acc * 16 ^ Suc k + n = (acc * 16 ^ k + n div 16) * 16 + n mod 16"
    by (simp add: algebra_simps)
  moreover have "acc * 16 ^ k + n div 16 \<le> (acc * 16 ^ k + n div 16) * 16 + n mod 16" by simp
  ultimately have "acc * 16 ^ k + n div 16 \<le> u32_max" using Suc.prems(2) by (metis order_trans)
  then have "from_digits (hex_pad k (n div 16)) acc = Some (acc * 16 ^ k + n div 16)" by (rule Suc.IH [OF n])
  then show ?case
    using Suc.prems(2) unfolding split by (simp add: hex_pad.simps from_digits_append from_digit_hex)
qed

lemma from_digits_le: "acc \<le> u32_max \<Longrightarrow> from_digits cs acc = Some k \<Longrightarrow> k \<le> u32_max"
  by (induction cs arbitrary: acc) (auto split: option.splits if_splits)

lemma from_hex_le: "from_hex s = Some k \<Longrightarrow> k \<le> u32_max"
  using from_digits_le [OF le0] by (auto simp: from_hex_def simp del: from_digits.simps split: if_splits list.splits)

lemma number_of_le: "number_of pre n = Some k \<Longrightarrow> k \<le> u32_max"
  by (auto simp: number_of_def Let_def split: if_splits intro: from_hex_le)

lemma number_of_block_name:
  assumes "n \<le> u32_max"
  shows "number_of pre (block_name pre n) = Some n"
proof -
  have "hex_pad (Suc 7) n \<noteq> []" by (simp only: hex_pad.simps) simp
  then have "hex_pad 8 n \<noteq> []" by simp
  then obtain c cs where c: "hex_pad 8 n = c # cs" by (cases "hex_pad 8 n") auto
  have "from_digits (hex_pad 8 n) 0 = Some n"
    using from_digits_hex_pad [of n 8 0] assms by (simp add: u32_max_def)
  moreover have "c \<noteq> uc CHR ''+''"
    using calculation by (auto simp: c from_digit_def split: if_splits)
  ultimately have "from_hex (hex_pad 8 n) = Some n" by (simp add: from_hex_def c)
  then show ?thesis by (simp add: number_of_def block_name_def Let_def)
qed

text \<open>
  A new block never lands on a file that is there, or takes a name the ledger has: the
  number a flush or a compaction picks for its name is past every number of that writer's on disk and
  in the ledger, as long as the directory can be listed and none of them is the last number 32 bits have.
\<close>

theorem new_block_takes_a_free_name:
  assumes "u32_max \<notin> set (List.map_filter (number_of pre) (blocks p @ st_ledger st))"
  shows "block_name pre (next_number True pre st p) \<notin> set (blocks p) \<union> set (st_ledger st)"
proof
  let ?ns = "List.map_filter (number_of pre) (blocks p @ st_ledger st)"
  assume taken: "block_name pre (next_number True pre st p) \<in> set (blocks p) \<union> set (st_ledger st)"
  have small: "k \<le> u32_max" if "k \<in> set ?ns" for k
    using that by (auto simp: List.map_filter_def intro: number_of_le)
  have below: "k < u32_max" if "k \<in> set ?ns" for k
    using small [OF that] assms that by (cases "k = u32_max") auto
  have past: "next_number True pre st p \<le> u32_max \<and> (\<forall>k \<in> set ?ns. k < next_number True pre st p)"
  proof (cases "?ns = []")
    case True
    then show ?thesis by (simp add: next_number_def Let_def)
  next
    case False
    then have "Max (set ?ns) < u32_max" using below by simp
    then have "next_number True pre st p = Max (set ?ns) + 1"
      using False by (simp add: next_number_def Let_def u32_max_def)
    then show ?thesis using \<open>Max (set ?ns) < u32_max\<close> by (auto simp: less_Suc_eq_le)
  qed
  then have "number_of pre (block_name pre (next_number True pre st p)) = Some (next_number True pre st p)"
    by (simp add: number_of_block_name)
  then have "next_number True pre st p \<in> set ?ns" using taken by (force simp: List.map_filter_def)
  then show False using past by blast
qed

theorem new_block_takes_a_free_name_witness:
  "demo_name \<notin> set (blocks empty_pile) \<union> set (st_ledger demo_store)"
proof -
  have n: "next_number True (unit_prefix 7) demo_store empty_pile = 0"
    by (simp add: next_number_def blocks_def demo_store_def empty_pile_def List.map_filter_def)
  show ?thesis
    using new_block_takes_a_free_name [of "unit_prefix 7" empty_pile demo_store]
    unfolding n demo_name_def by (simp add: blocks_def demo_store_def empty_pile_def List.map_filter_def)
qed

end
