(* ===== verification/Wire.thy ===== *)
theory Wire
  imports PileGuarantees Bytes "HOL-Library.Product_Lexorder"
begin

text \<open>
  \<open>crates/sync/src/wire.rs\<close>: one round between two copies of a document.  Versions and increments
  travel as strings: base64 and the encoding of a version vector belong to other crates and are
  the parameter \<open>codec\<close>; the epoch in front of a version is the code's own.  A call takes the
  outcomes of its writes and gives back the copy (the document, its store) and its directory.
\<close>

definition MAX_BYTES :: nat where "MAX_BYTES = 4 * 1024 * 1024"

record 'b codec =
  b64_encode :: "'b \<Rightarrow> string"
  b64_decode :: "string \<Rightarrow> string + 'b"
  vv_encode :: "vv \<Rightarrow> 'b"
  vv_decode :: "'b \<Rightarrow> string + vv"

datatype wire_error =
    WireDoc string
  | WirePile pile_error
  | VersionNotBase64 string
  | VersionUndecodable string
  | DeltaNotBase64 string
  | TableNotBase64 string
  | OtherEpoch nat nat
  | OutboundTooBig nat nat
  | InboundTooBig nat nat

section \<open>Epochs in front of versions\<close>

definition spell :: "'b codec \<Rightarrow> nat \<Rightarrow> 'b \<Rightarrow> string" where
  "spell C epoch bytes =
     (if epoch = 0 then b64_encode C bytes else show_nat epoch @ '':'' @ b64_encode C bytes)"

definition version_b64 :: "('d, 'b) doc_ops \<Rightarrow> 'b codec \<Rightarrow> 'd \<Rightarrow> block_store \<Rightarrow> string" where
  "version_b64 D C d st = spell C (st_epoch st) (vv_encode C (d_version D d))"

text \<open>\<open>split_once(':')\<close> and \<open>u32::parse\<close>.\<close>

definition split_once :: "char \<Rightarrow> string \<Rightarrow> (string \<times> string) option" where
  "split_once c s =
     (if c \<in> set s then Some (takeWhile (\<lambda>x. x \<noteq> c) s, tl (dropWhile (\<lambda>x. x \<noteq> c) s)) else None)"

definition parse_u32 :: "string \<Rightarrow> nat option" where
  "parse_u32 s = parse_uint u32_max s"

definition unspell :: "block_store \<Rightarrow> string \<Rightarrow> wire_error + string" where
  "unspell st s =
     and_then (case split_once CHR '':'' s of
         Some (e, rest) \<Rightarrow> and_then (ok_or (parse_u32 e) (VersionNotBase64 e)) (\<lambda>n. Inr (n, rest))
       | None \<Rightarrow> Inr (0, s)) (\<lambda>(epoch, b64).
     if epoch \<noteq> st_epoch st then Inl (OtherEpoch epoch (st_epoch st)) else Inr b64)"

definition other_epoch :: "wire_error \<Rightarrow> bool" where
  "other_epoch e = (case e of OtherEpoch a b \<Rightarrow> True | _ \<Rightarrow> False)"

definition decode_version :: "'b codec \<Rightarrow> block_store \<Rightarrow> string \<Rightarrow> wire_error + vv" where
  "decode_version C st s =
     (if s = [] then Inr (\<lambda>_. 0)
      else
        and_then (unspell st s) (\<lambda>b.
        and_then (map_err VersionNotBase64 (b64_decode C b)) (\<lambda>bytes.
        map_err VersionUndecodable (vv_decode C bytes))))"

text \<open>
  \<open>version_canonical\<close> is over the version vector as its hash map yields it: (peer, counter)
  pairs in any order.
\<close>

definition version_canonical :: "nat \<Rightarrow> (nat \<times> int) list \<Rightarrow> byte list" where
  "version_canonical epoch vv =
     (let entries = sort (filter (\<lambda>(p, c). 0 < c) vv) in
      concat (map (\<lambda>(p, c). le_bytes 8 p @ le_bytes 4 (nat c)) entries) @
      (if epoch \<noteq> 0 then map of_char ''epoch'' @ le_bytes 4 epoch else []))"

section \<open>What goes out\<close>

type_synonym ('d, 'b) copy = "'d \<times> block_store \<times> 'b pile"

definition flush_copy :: "('d, 'b) doc_ops \<Rightarrow> (nat \<Rightarrow> bool) \<Rightarrow> ('d, 'b) copy \<Rightarrow> (wire_error + unit) \<times> ('d, 'b) copy" where
  "flush_copy D io c =
     (case c of (d, st, p) \<Rightarrow>
      case flush D io d st p of
        (Inl e, st', p') \<Rightarrow> (Inl (WirePile e), d, st', p')
      | (Inr _, st', p') \<Rightarrow> (Inr (), d, st', p'))"

definition table_b64 :: "('d, 'b) doc_ops \<Rightarrow> 'b codec \<Rightarrow> (nat \<Rightarrow> bool) \<Rightarrow> ('d, 'b) copy \<Rightarrow> (wire_error + string) \<times> ('d, 'b) copy" where
  "table_b64 D C io c =
     (case flush_copy D io c of
        (Inl e, c') \<Rightarrow> (Inl e, c')
      | (Inr _, (d, st, p)) \<Rightarrow>
          (and_then (map_err WireDoc (d_snapshot D d)) (\<lambda>b. Inr (spell C (st_epoch st) b)), d, st, p))"

definition table_bytes :: "'b codec \<Rightarrow> block_store \<Rightarrow> string \<Rightarrow> wire_error + 'b" where
  "table_bytes C st s = and_then (unspell st s) (\<lambda>b. map_err TableNotBase64 (b64_decode C b))"

definition changes_since_b64 ::
    "('d, 'b) doc_ops \<Rightarrow> 'b codec \<Rightarrow> (nat \<Rightarrow> bool) \<Rightarrow> string \<Rightarrow> ('d, 'b) copy \<Rightarrow> (wire_error + string) \<times> ('d, 'b) copy" where
  "changes_since_b64 D C io theirs c =
     (case c of (d, st, p) \<Rightarrow>
      case decode_version C st theirs of
        Inl e \<Rightarrow> (Inl e, c)
      | Inr vv \<Rightarrow>
          (case flush_copy D io c of
             (Inl e, c') \<Rightarrow> (Inl e, c')
           | (Inr _, c') \<Rightarrow>
               (if d_version D d \<le> vv then Inr []
                else case d_changes D d vv of
                  Inl e \<Rightarrow> Inl (WireDoc e)
                | Inr bytes \<Rightarrow>
                    if b_len D bytes > MAX_BYTES
                    then Inl (OutboundTooBig (b_len D bytes div 1024) (MAX_BYTES div 1024))
                    else Inr (b64_encode C bytes), c')))"

section \<open>What comes in\<close>

definition no_report :: merge_report where
  "no_report = \<lparr>rep_applied = [], rep_pending = []\<rparr>"

definition merge_b64_report :: "('d, 'b) doc_ops \<Rightarrow> 'b codec \<Rightarrow> 'd \<Rightarrow> string \<Rightarrow> wire_error + merge_report \<times> 'd" where
  "merge_b64_report D C d changes =
     (if changes = [] then Inr (no_report, d)
      else
        and_then (map_err DeltaNotBase64 (b64_decode C changes)) (\<lambda>bytes.
        if b_len D bytes > MAX_BYTES then Inl (InboundTooBig (b_len D bytes div 1024) (MAX_BYTES div 1024))
        else map_err WireDoc (d_merge D d bytes)))"

text \<open>
  The outcomes of a call's writes: the flush before anything leaves, the flush after the merge,
  and the pen file (with the fresh name it would get).
\<close>

record wire_io =
  wi_out :: "nat \<Rightarrow> bool"
  wi_in :: "nat \<Rightarrow> bool"
  wi_pen :: bool
  wi_name :: nat

text \<open>Merge, remember what is pending, retire a name the far side knows more of, flush.\<close>

definition take_in ::
    "('d, 'b) doc_ops \<Rightarrow> 'b codec \<Rightarrow> wire_io \<Rightarrow> string \<Rightarrow> ('d, 'b) copy \<Rightarrow> (wire_error + unit) \<times> ('d, 'b) copy" where
  "take_in D C io changes c =
     (case c of (d, st, p) \<Rightarrow>
      case merge_b64_report D C d changes of
        Inl e \<Rightarrow> (Inl e, c)
      | Inr (rep, d') \<Rightarrow>
          (case took_in D (wi_pen io) (wi_name io) (d_version D d) d' (record_import rep st) p of
             (_, st', p') \<Rightarrow> flush_copy D (wi_in io) (d', st', p')))"

section \<open>A round\<close>

record reply =
  re_version :: string
  re_changes :: string
  re_items :: nat

record outgoing =
  og_have :: string
  og_changes :: string

record round_result =
  rd_pushed :: nat
  rd_pulled :: nat
  rd_items :: nat

definition pushes :: "outgoing \<Rightarrow> bool" where
  "pushes o' \<longleftrightarrow> og_changes o' \<noteq> []"

definition raw_len :: "string \<Rightarrow> nat" where
  "raw_len b64 = length b64 div 4 * 3"

text \<open>A \<open>Peer\<close> is the far side's version as last told; empty before the first round.\<close>

definition peer_outgoing ::
    "('d, 'b) doc_ops \<Rightarrow> 'b codec \<Rightarrow> wire_io \<Rightarrow> string \<Rightarrow> ('d, 'b) copy \<Rightarrow> (wire_error + outgoing) \<times> ('d, 'b) copy" where
  "peer_outgoing D C io their c =
     (case c of (d, st, p) \<Rightarrow>
      let have = version_b64 D C d st in
      if their = [] then (Inr \<lparr>og_have = have, og_changes = []\<rparr>, c)
      else case changes_since_b64 D C (wi_out io) their c of
        (Inl e, c') \<Rightarrow> (Inl e, c')
      | (Inr ch, c') \<Rightarrow> (Inr \<lparr>og_have = have, og_changes = ch\<rparr>, c'))"

definition peer_absorb ::
    "('d, 'b) doc_ops \<Rightarrow> 'b codec \<Rightarrow> wire_io \<Rightarrow> outgoing \<Rightarrow> reply \<Rightarrow> string \<times> ('d, 'b) copy \<Rightarrow>
     (wire_error + round_result) \<times> string \<times> ('d, 'b) copy" where
  "peer_absorb D C io sent r pc =
     (case pc of (their, (d, st, p)) \<Rightarrow>
      case decode_version C st (re_version r) of
        Inl e \<Rightarrow> (Inl e, their, (d, st, p))
      | Inr _ \<Rightarrow>
          (case take_in D C io (re_changes r) (d, st, p) of
             (Inl e, c') \<Rightarrow> (Inl e, their, c')
           | (Inr _, (d', st', p')) \<Rightarrow>
               (Inr \<lparr>rd_pushed = raw_len (og_changes sent), rd_pulled = raw_len (re_changes r), rd_items = d_items D d'\<rparr>,
                re_version r, (d', st', p'))))"

text \<open>The far side: what they lack first, then what they sent, merged even when the first failed.\<close>

definition answer ::
    "('d, 'b) doc_ops \<Rightarrow> 'b codec \<Rightarrow> wire_io \<Rightarrow> string \<Rightarrow> string \<Rightarrow> ('d, 'b) copy \<Rightarrow>
     (wire_error + reply) \<times> ('d, 'b) copy" where
  "answer D C io have changes c =
     (case c of (d, st, p) \<Rightarrow>
      case decode_version C st have of
        Inl e \<Rightarrow> (Inl e, c)
      | Inr _ \<Rightarrow>
          (case changes_since_b64 D C (wi_out io) have c of
             (out, c1) \<Rightarrow>
               (case take_in D C io changes c1 of
                  (Inl e, c2) \<Rightarrow> (Inl e, c2)
                | (Inr _, (d', st', p')) \<Rightarrow>
                    (and_then out (\<lambda>ch. Inr \<lparr>re_version = version_b64 D C d' st', re_changes = ch,
                       re_items = d_items D d'\<rparr>), d', st', p'))))"

text \<open>\<open>round\<close>, with the far side's \<open>answer\<close> as the transport.\<close>

definition sync_round ::
    "('d, 'b) doc_ops \<Rightarrow> 'b codec \<Rightarrow> wire_io \<Rightarrow> wire_io \<Rightarrow> string \<times> ('d, 'b) copy \<Rightarrow> ('d, 'b) copy \<Rightarrow>
     (wire_error + round_result) \<times> string \<times> ('d, 'b) copy \<times> ('d, 'b) copy" where
  "sync_round D C io io' pc far =
     (case pc of (their, near) \<Rightarrow>
      case peer_outgoing D C io their near of
        (Inl e, near') \<Rightarrow> (Inl e, their, near', far)
      | (Inr out, near') \<Rightarrow>
          (case answer D C io' (og_have out) (og_changes out) far of
             (Inl e, far') \<Rightarrow> (Inl e, their, near', far')
           | (Inr r, far') \<Rightarrow>
               (case peer_absorb D C io out r (their, near') of
                  (res, their', near'') \<Rightarrow> (res, their', near'', far'))))"

end
