(* ===== verification/WireFacts.thy ===== *)
theory WireFacts
  imports Wire
begin

text \<open>
  A round between two copies: nothing leaves before it is on the disk, nothing merges across
  epochs, and two rounds bring each side all the other had.
\<close>

section \<open>Spelling a version\<close>

lemma parse_show [simp]: "n \<le> u32_max \<Longrightarrow> parse_u32 (show_nat n) = Some n"
  by (simp add: parse_u32_def)

lemma no_colon: "CHR '':'' \<notin> set (show_nat n)"
  using show_nat_digits [of "CHR '':''" n] by auto

text \<open>
  The documented behaviour of base64 and of a version vector's encoding: bytes that are not empty come
  back, the alphabet has no colon, no bytes are no characters, and a document's version
  comes back.
\<close>

definition codec_laws :: "('d, 'b) doc_ops \<Rightarrow> 'b codec \<Rightarrow> bool" where
  "codec_laws D C \<longleftrightarrow>
     (\<forall>b. \<not> b_empty D b \<longrightarrow> b64_decode C (b64_encode C b) = Inr b) \<and>
     (\<forall>b. CHR '':'' \<notin> set (b64_encode C b)) \<and>
     (\<forall>b. b64_encode C b = [] \<longleftrightarrow> b_empty D b) \<and>
     (\<forall>d. \<not> b_empty D (vv_encode C (d_version D d)) \<and> vv_decode C (vv_encode C (d_version D d)) = Inr (d_version D d))"

lemma codecD:
  assumes "codec_laws D C"
  shows "\<not> b_empty D b \<Longrightarrow> b64_decode C (b64_encode C b) = Inr b" and "CHR '':'' \<notin> set (b64_encode C b)"
    and "b64_encode C b = [] \<longleftrightarrow> b_empty D b" and "\<not> b_empty D (vv_encode C (d_version D d))"
    and "vv_decode C (vv_encode C (d_version D d)) = Inr (d_version D d)"
  using assms unfolding codec_laws_def by blast+

lemma split_spelled: "CHR '':'' \<notin> set b \<Longrightarrow> split_once CHR '':'' (show_nat e @ '':'' @ b) = Some (show_nat e, b)"
proof -
  assume "CHR '':'' \<notin> set b"
  have "\<And>x. x \<in> set (show_nat e) \<Longrightarrow> x \<noteq> CHR '':''" using no_colon [of e] by auto
  then have "takeWhile (\<lambda>x. x \<noteq> CHR '':'') (show_nat e @ CHR '':'' # b) = show_nat e"
    and "dropWhile (\<lambda>x. x \<noteq> CHR '':'') (show_nat e @ CHR '':'' # b) = CHR '':'' # b"
    by (simp_all add: takeWhile_append2 dropWhile_append2)
  then show ?thesis by (simp add: split_once_def)
qed

lemma unspell_spell:
  assumes "codec_laws D C" and "e \<le> u32_max"
  shows "unspell st (spell C e b) = (if e \<noteq> st_epoch st then Inl (OtherEpoch e (st_epoch st)) else Inr (b64_encode C b))"
proof (cases "e = 0")
  case True
  then show ?thesis using codecD(2) [OF assms(1)] by (simp add: unspell_def spell_def split_once_def)
next
  case False
  then show ?thesis
    using split_spelled [OF codecD(2) [OF assms(1)]] assms(2) by (simp add: unspell_def spell_def)
qed

lemma spell_nonempty:
  assumes "codec_laws D C"
  shows "spell C e (vv_encode C (d_version D d)) \<noteq> []"
  using codecD(3,4) [OF assms] by (simp add: spell_def)

lemma decode_spelled:
  assumes "codec_laws D C" and "e \<le> u32_max"
  shows "decode_version C st (spell C e (vv_encode C (d_version D d))) =
    (if e \<noteq> st_epoch st then Inl (OtherEpoch e (st_epoch st)) else Inr (d_version D d))"
  using spell_nonempty [OF assms(1), of e d] codecD(1,4,5) [OF assms(1)]
  by (simp add: decode_version_def unspell_spell [OF assms] map_err_def)

lemma decode_version_b64:
  assumes "codec_laws D C" and "st_epoch st' \<le> u32_max" and "st_epoch st = st_epoch st'"
  shows "decode_version C st (version_b64 D C d st') = Inr (d_version D d)"
  using decode_spelled [OF assms(1,2)] assms(3) by (simp add: version_b64_def)

section \<open>Nothing merges across epochs\<close>

text \<open>
  Across a re-seeding nothing happens: a far side that counts in another epoch is answered
  with that refusal, and neither the document, nor the store, nor the directory changes, whatever
  it sent and whatever writes would do.
\<close>

theorem other_epoch_changes_nothing:
  assumes "codec_laws D C" and "st_epoch su \<le> u32_max" and "st_epoch su \<noteq> st_epoch st"
  shows "answer D C io (version_b64 D C e su) changes (d, st, p) =
      (Inl (OtherEpoch (st_epoch su) (st_epoch st)), (d, st, p)) \<and>
    other_epoch (OtherEpoch (st_epoch su) (st_epoch st)) \<and>
    peer_absorb D C io sent \<lparr>re_version = version_b64 D C e su, re_changes = changes, re_items = n\<rparr> (their, (d, st, p)) =
      (Inl (OtherEpoch (st_epoch su) (st_epoch st)), their, (d, st, p))"
  using decode_spelled [OF assms(1,2), of st e] assms(3)
  by (simp add: answer_def peer_absorb_def version_b64_def other_epoch_def)

section \<open>What leaves is on the disk\<close>

lemma flush_copy_cases:
  assumes "flush_copy D io (d, st, p) = (r, c')"
  obtains rf st' p' where "flush D io d st p = (rf, st', p')" "c' = (d, st', p')" "r = Inr () \<longleftrightarrow> (\<exists>n. rf = Inr n)"
    "\<And>e. r = Inl e \<Longrightarrow> \<exists>f. rf = Inl f"
proof -
  obtain rf st' p' where f: "flush D io d st p = (rf, st', p')" by (metis prod_cases3)
  show thesis
    by (rule that [OF f]) (use assms f in \<open>auto simp: flush_copy_def split: sum.splits\<close>)
qed

lemma changes_since_cases:
  assumes "changes_since_b64 D C io theirs (d, st, p) = (Inr s, c')"
  obtains vv rf st' p' where "decode_version C st theirs = Inr vv" "flush D io d st p = (Inr rf, st', p')" "c' = (d, st', p')"
    "s = [] \<and> d_version D d \<le> vv \<or>
     (\<exists>b. d_changes D d vv = Inr b \<and> b_len D b \<le> MAX_BYTES \<and> s = b64_encode C b \<and> \<not> d_version D d \<le> vv)"
proof -
  obtain vv where vv: "decode_version C st theirs = Inr vv"
    using assms by (auto simp: changes_since_b64_def split: sum.splits)
  obtain r0 c0 where fc: "flush_copy D io (d, st, p) = (r0, c0)" by (metis prod.exhaust)
  from fc obtain rf st' p' where f: "flush D io d st p = (rf, st', p')" "c0 = (d, st', p')"
      "r0 = Inr () \<longleftrightarrow> (\<exists>n. rf = Inr n)" by (rule flush_copy_cases)
  have r0: "r0 = Inr ()" using assms vv fc by (auto simp: changes_since_b64_def split: sum.splits)
  then obtain n where n: "rf = Inr n" using f(3) by blast
  show thesis
  proof (rule that [OF vv])
    show "flush D io d st p = (Inr n, st', p')" using f(1) n by simp
    show "c' = (d, st', p')" using assms vv fc r0 f(2) by (simp add: changes_since_b64_def)
    show "s = [] \<and> d_version D d \<le> vv \<or>
     (\<exists>b. d_changes D d vv = Inr b \<and> b_len D b \<le> MAX_BYTES \<and> s = b64_encode C b \<and> \<not> d_version D d \<le> vv)"
      using assms vv fc r0 by (auto simp: changes_since_b64_def split: if_splits sum.splits)
  qed
qed

text \<open>
  C11: No increment leaves before it is on this disk, and then it stays there.  In any run of a directory's copies,
  when the increment for a far side is given out of a copy that has not, since it was opened, pulled a block while it
  knew operations that were in no block, it is empty or the text of bytes all of whose operations are in blocks of the
  directory, now and after any further steps, as long as no block name stood for two contents.  The version sent in
  front of a round is not an increment and may be ahead of the disk.
\<close>

theorem nothing_leaves_unflushed:
  assumes "doc_laws D carries known" and "pile_runs D carries known empty_world w"
    and "sw_copies w i = Some (d, st)" and "i \<notin> sw_over w"
    and "changes_since_b64 D C io theirs (d, st, sw_pile w) = (Inr s, (d', st', p'))"
    and "pile_runs D carries known (put_copy i (d', st') p' w) w2" and "\<not> sw_twice w2"
  shows "s = [] \<or> (\<exists>b. s = b64_encode C b \<and> carries b \<subseteq> durable carries p' \<and> carries b \<subseteq> durable carries (sw_pile w2))"
proof -
  note t = runs_twice [OF assms(6,7)]
  have once: "\<not> sw_twice w" "blocks_agree (sw_used w) p'" using t by (simp_all add: put_copy_def)
  have w: "sw_ok D carries w" using runs_keep [OF assms(1,2) _ once(1)] by simp
  have c: "copy_ok D carries (sw_used w) (sw_pile w) (d, st)"
    using sw_okD(2) [OF w assms(3)] assms(4) by simp
  from assms(5) obtain vv rf where f: "flush D io d st (sw_pile w) = (Inr rf, st', p')" "d' = d"
    and out: "s = [] \<or> (\<exists>b. d_changes D d vv = Inr b \<and> s = b64_encode C b)"
    by (rule changes_since_cases) auto
  have covered: "covered (d_version D d) \<subseteq> durable carries p'"
    by (rule flush_covers [OF assms(1) sw_okD(1) [OF w] c f(1) once(2)])
  have "sw_ok D carries (put_copy i (d, st') p' w)"
    using step_keeps [OF assms(1) pile_step.Flushed [OF assms(3) f(1)] w] t f(2) by simp
  then have "durable carries p' \<subseteq> durable carries (sw_pile w2)"
    using runs_keep [OF assms(1,6) _ assms(7)] f(2) by (simp add: grown_def put_copy_def)
  moreover have "d_changes D d vv = Inr b \<Longrightarrow> carries b \<subseteq> durable carries p'" for b
    using doc_changesD(1) [OF assms(1)] covered by blast
  ultimately show ?thesis using out by blast
qed

lemma table_is_flushed:
  assumes "doc_laws D carries known" and "pile_ok used p" and "copy_ok D carries used p (d, st)"
    and "table_b64 D C io (d, st, p) = (Inr s, (d', st', p'))" and "blocks_agree used p'"
  shows "\<exists>b. s = spell C (st_epoch st') b \<and> carries b \<subseteq> durable carries p'"
proof -
  obtain r0 c0 where fc: "flush_copy D io (d, st, p) = (r0, c0)" by (metis prod.exhaust)
  from fc obtain rf st0 p0 where f: "flush D io d st p = (rf, st0, p0)" "c0 = (d, st0, p0)"
      "r0 = Inr () \<longleftrightarrow> (\<exists>n. rf = Inr n)" by (rule flush_copy_cases)
  have r0: "r0 = Inr ()" using assms(4) fc by (auto simp: table_b64_def split: sum.splits)
  then obtain n where n: "rf = Inr n" using f(3) by blast
  have res: "(and_then (map_err WireDoc (d_snapshot D d)) (\<lambda>b. Inr (spell C (st_epoch st0) b)), d, st0, p0) =
      (Inr s, d', st', p')"
    using assms(4) unfolding table_b64_def fc r0 f(2) by auto
  have "\<exists>b. d_snapshot D d = Inr b" using res by (cases "d_snapshot D d") (auto simp: map_err_def)
  then obtain b where b1: "d_snapshot D d = Inr b" by blast
  then have b: "d_snapshot D d = Inr b" "s = spell C (st_epoch st0) b" "st' = st0" "p' = p0"
    using res by (auto simp: map_err_def)
  have "covered (d_version D d) \<subseteq> durable carries p'"
    by (rule flush_covers [OF assms(1-3) _ assms(5), of io n st0]) (use f(1) n b(4) in simp)
  then have "carries b \<subseteq> durable carries p'" using doc_snapshotD [OF assms(1) b(1)] by simp
  then show ?thesis using b(2,3) by auto
qed

section \<open>Two rounds bring everything across\<close>

text \<open>
  A document that answers: it exports what it is asked for, and takes in what was exported since a version it has.
  Whether an increment fits a message depends on the documents: \<open>fits_message\<close> says that whatever is exported of
  these operations does.
\<close>

definition doc_answers :: "('d, 'b) doc_ops \<Rightarrow> bool" where
  "doc_answers D \<longleftrightarrow> (\<forall>d v. \<exists>b. d_changes D d v = Inr b) \<and>
     (\<forall>d v b d'. d_changes D d v = Inr b \<and> v \<le> d_version D d' \<longrightarrow> (\<exists>rep d''. d_merge D d' b = Inr (rep, d'')))"

definition fits_message :: "('d, 'b) doc_ops \<Rightarrow> ('d \<Rightarrow> ops) \<Rightarrow> ops \<Rightarrow> bool" where
  "fits_message D known S \<longleftrightarrow> (\<forall>d v b. known d \<subseteq> S \<longrightarrow> d_changes D d v = Inr b \<longrightarrow> b_len D b \<le> MAX_BYTES)"

lemma doc_exports: "doc_answers D \<Longrightarrow> \<exists>b. d_changes D d v = Inr b"
  unfolding doc_answers_def by blast

definition writes_work :: "wire_io \<Rightarrow> bool" where
  "writes_work io \<longleftrightarrow> (\<forall>i. wi_out io i) \<and> (\<forall>i. wi_in io i)"

lemma flush_works:
  assumes "doc_answers D" and "\<forall>i. io i"
  obtains n st' p' where "flush D io d st p = (Inr n, st', p')" "st_epoch st' = st_epoch st"
proof -
  obtain delta where d: "d_changes D d (on_disk st) = Inr delta" using doc_exports [OF assms(1)] by blast
  have "fst (make_dir io st p) = Inr () \<and> st_epoch (fst (snd (make_dir io st p))) = st_epoch st"
    using assms(2) by (simp add: make_dir_def Let_def)
  then obtain st1 p1 where m: "make_dir io st p = (Inr (), st1, p1)" "st_epoch st1 = st_epoch st"
    by (cases "make_dir io st p") auto
  have "\<exists>n. fst (flush D io d st p) = Inr n \<and> st_epoch (fst (snd (flush D io d st p))) = st_epoch st"
    using d m assms(2) by (simp add: flush_def write_block_def save_names_def enter_name_def Let_def)
  then show thesis using that by (cases "flush D io d st p") auto
qed

lemma flush_copy_works:
  assumes "doc_answers D" and "\<forall>i. io i"
  obtains st' p' where "flush_copy D io (d, st, p) = (Inr (), d, st', p')" "st_epoch st' = st_epoch st"
proof -
  obtain n st' p' where "flush D io d st p = (Inr n, st', p')" "st_epoch st' = st_epoch st"
    by (rule flush_works [OF assms])
  then show thesis by (intro that [of st' p']) (simp_all add: flush_copy_def)
qed

lemma changes_since_works:
  assumes "doc_answers D" and "\<forall>i. io i" and "decode_version C st theirs = Inr vv"
    and "fits_message D known S" and "known d \<subseteq> S"
  obtains s st' p' where "changes_since_b64 D C io theirs (d, st, p) = (Inr s, (d, st', p'))" "st_epoch st' = st_epoch st"
    "s = [] \<and> d_version D d \<le> vv \<or>
     (\<exists>b. d_changes D d vv = Inr b \<and> b_len D b \<le> MAX_BYTES \<and> s = b64_encode C b \<and> \<not> d_version D d \<le> vv)"
proof -
  obtain st' p' where f: "flush_copy D io (d, st, p) = (Inr (), d, st', p')" "st_epoch st' = st_epoch st"
    by (rule flush_copy_works [OF assms(1,2)])
  obtain b where b: "d_changes D d vv = Inr b" using doc_exports [OF assms(1)] by blast
  have "b_len D b \<le> MAX_BYTES" using assms(4,5) b unfolding fits_message_def by blast
  note b = b this
  show thesis
    using that [of "if d_version D d \<le> vv then [] else b64_encode C b" st' p'] f b assms(3)
    by (simp add: changes_since_b64_def)
qed

text \<open>What was given out for a version the taker has leaves nothing of the giver's out.\<close>

lemma take_in_works:
  assumes "doc_laws D carries known" and "codec_laws D C" and "doc_answers D" and "writes_work io"
    and sent: "s = [] \<and> d_version D d \<le> vv \<or>
     (\<exists>b. d_changes D d vv = Inr b \<and> b_len D b \<le> MAX_BYTES \<and> s = b64_encode C b \<and> \<not> d_version D d \<le> vv)"
    and "vv \<le> d_version D e"
  obtains e' su' q' where "take_in D C io s (e, su, q) = (Inr (), (e', su', q'))" "st_epoch su' = st_epoch su"
    "d_version D e \<le> d_version D e'" "d_version D d \<le> d_version D e'" "known e' \<subseteq> known e \<union> covered (d_version D d)"
proof -
  have pens: "st_epoch (fst (snd (took_in D ok fresh v0 x y z))) = st_epoch y" for ok fresh v0 x y z
    by (auto simp: took_in_def split: option.splits)
  obtain rep e' where m: "merge_b64_report D C e s = Inr (rep, e')" "d_version D e \<le> d_version D e'" "d_version D d \<le> d_version D e'"
      "known e' \<subseteq> known e \<union> covered (d_version D d)"
    using sent
  proof (elim disjE exE conjE)
    assume "s = []" "d_version D d \<le> vv"
    then show thesis using that [of no_report e] assms(6) by (auto simp: merge_b64_report_def)
  next
    fix b
    assume b: "d_changes D d vv = Inr b" "b_len D b \<le> MAX_BYTES" "s = b64_encode C b" "\<not> d_version D d \<le> vv"
    have full: "\<not> b_empty D b"
      using b(4) doc_changesD [OF assms(1) b(1)] covered_le by blast
    obtain rep e' where e: "d_merge D e b = Inr (rep, e')"
      using assms(3,6) b(1) unfolding doc_answers_def by blast
    show thesis
    proof (rule that)
      show "known e' \<subseteq> known e \<union> covered (d_version D d)"
        using doc_mergeD(2) [OF assms(1) e] doc_changesD(1) [OF assms(1) b(1)] by blast
      show "merge_b64_report D C e s = Inr (rep, e')"
        using b(2,3) full e codecD(1,3) [OF assms(2)] by (simp add: merge_b64_report_def map_err_def)
      show "d_version D e \<le> d_version D e'" by (rule doc_mergeD(3) [OF assms(1) e])
      show "d_version D d \<le> d_version D e'" by (rule doc_catch_upD [OF assms(1) b(1) assms(6) e])
    qed
  qed
  obtain rn su1 q1 where t: "took_in D (wi_pen io) (wi_name io) (d_version D e) e' (record_import rep su) q = (rn, su1, q1)"
    by (metis prod_cases3)
  have ep: "st_epoch su1 = st_epoch su"
    using pens [of "wi_pen io" "wi_name io" "d_version D e" e' "record_import rep su" q] t by (simp add: record_import_def)
  have io: "\<forall>i. wi_in io i" using assms(4) by (simp add: writes_work_def)
  obtain su' q' where f: "flush_copy D (wi_in io) (e', su1, q1) = (Inr (), e', su', q')" "st_epoch su' = st_epoch su1"
    by (rule flush_copy_works [OF assms(3) io])
  show thesis
    by (rule that [of e' su' q']) (use m t f ep in \<open>simp_all add: take_in_def\<close>)
qed

lemma round_works:
  assumes laws: "doc_laws D carries known" "codec_laws D C" "doc_answers D"
    and io: "writes_work io" "writes_work io'"
    and ep: "st_epoch st = st_epoch su" "st_epoch su \<le> u32_max"
    and their: "their = [] \<or> (\<exists>vv. decode_version C st their = Inr vv \<and> vv \<le> d_version D e)"
    and small: "fits_message D known S" "known d \<subseteq> S" "known e \<subseteq> S"
  obtains rr their' d' st' p' e' su' q' where
    "sync_round D C io io' (their, (d, st, p)) (e, su, q) = (Inr rr, their', (d', st', p'), (e', su', q'))"
    "st_epoch st' = st_epoch st" "st_epoch su' = st_epoch su"
    "d_version D d \<le> d_version D d'" "d_version D e \<le> d_version D d'" "d_version D e \<le> d_version D e'"
    "their \<noteq> [] \<Longrightarrow> d_version D d \<le> d_version D e'" "their' \<noteq> []" "decode_version C st' their' = Inr (d_version D e')"
    "known d' \<subseteq> known d \<union> covered (d_version D e)" "known e' \<subseteq> known e \<union> covered (d_version D d)"
proof -
  have outs: "\<forall>i. wi_out io i" "\<forall>i. wi_out io' i" using io by (simp_all add: writes_work_def)
  \<comment> \<open>what the near side sends\<close>
  obtain s1 st1 p1 where out: "peer_outgoing D C io their (d, st, p) = (Inr \<lparr>og_have = version_b64 D C d st, og_changes = s1\<rparr>, (d, st1, p1))"
      "st_epoch st1 = st_epoch st" and s1: "their = [] \<and> s1 = [] \<or>
        (\<exists>vv. vv \<le> d_version D e \<and> (s1 = [] \<and> d_version D d \<le> vv \<or>
     (\<exists>b. d_changes D d vv = Inr b \<and> b_len D b \<le> MAX_BYTES \<and> s1 = b64_encode C b \<and> \<not> d_version D d \<le> vv)))"
  proof (cases "their = []")
    case True
    then show thesis using that [of "[]" st p] by (simp add: peer_outgoing_def Let_def)
  next
    case False
    then obtain vv where vv: "decode_version C st their = Inr vv" "vv \<le> d_version D e" using their by blast
    obtain s st' p' where c: "changes_since_b64 D C (wi_out io) their (d, st, p) = (Inr s, (d, st', p'))" "st_epoch st' = st_epoch st"
      "s = [] \<and> d_version D d \<le> vv \<or>
     (\<exists>b. d_changes D d vv = Inr b \<and> b_len D b \<le> MAX_BYTES \<and> s = b64_encode C b \<and> \<not> d_version D d \<le> vv)"
      by (rule changes_since_works [OF laws(3) outs(1) vv(1) small(1,2)])
    show thesis
      by (rule that [of s st' p']) (use False c vv(2) in \<open>auto simp: peer_outgoing_def Let_def\<close>)
  qed
  \<comment> \<open>what the far side answers\<close>
  have have': "decode_version C su (version_b64 D C d st) = Inr (d_version D d)"
    by (rule decode_version_b64 [OF laws(2)]) (use ep in simp_all)
  obtain s2 su1 q1 where c2: "changes_since_b64 D C (wi_out io') (version_b64 D C d st) (e, su, q) = (Inr s2, (e, su1, q1))"
      "st_epoch su1 = st_epoch su" and s2: "s2 = [] \<and> d_version D e \<le> d_version D d \<or>
     (\<exists>b. d_changes D e (d_version D d) = Inr b \<and> b_len D b \<le> MAX_BYTES \<and> s2 = b64_encode C b \<and> \<not> d_version D e \<le> d_version D d)"
    by (rule changes_since_works [OF laws(3) outs(2) have' small(1,3)])
  obtain e' su' q' where t2: "take_in D C io' s1 (e, su1, q1) = (Inr (), (e', su', q'))" "st_epoch su' = st_epoch su1"
      "d_version D e \<le> d_version D e'" "known e' \<subseteq> known e \<union> covered (d_version D d)"
      and d_e: "their \<noteq> [] \<Longrightarrow> d_version D d \<le> d_version D e'"
  proof (cases "s1 = [] \<and> their = []")
    case True
    show thesis
    proof (rule take_in_works [OF laws io(2), of s1 e "d_version D e" e su1 q1])
      fix e' su' q'
      assume t: "take_in D C io' s1 (e, su1, q1) = (Inr (), (e', su', q'))" "st_epoch su' = st_epoch su1"
        "d_version D e \<le> d_version D e'" "known e' \<subseteq> known e \<union> covered (d_version D e)"
      then have "known e' \<subseteq> known e \<union> covered (d_version D d)" using doc_knownD [OF laws(1), of e] by blast
      then show thesis using that t(1-3) True by blast
    qed (use True in simp_all)
  next
    case False
    then obtain vv where v: "vv \<le> d_version D e" "s1 = [] \<and> d_version D d \<le> vv \<or>
     (\<exists>b. d_changes D d vv = Inr b \<and> b_len D b \<le> MAX_BYTES \<and> s1 = b64_encode C b \<and> \<not> d_version D d \<le> vv)"
      using s1 by blast
    show thesis by (rule take_in_works [OF laws io(2) v(2,1), of su1 q1]) (rule that)
  qed
  define r where "r = \<lparr>re_version = version_b64 D C e' su', re_changes = s2, re_items = d_items D e'\<rparr>"
  have ans: "answer D C io' (version_b64 D C d st) s1 (e, su, q) = (Inr r, (e', su', q'))"
    using have' c2 t2(1) by (simp add: answer_def r_def)
  \<comment> \<open>what the near side takes in\<close>
  have said: "decode_version C x (re_version r) = Inr (d_version D e')" if "st_epoch x = st_epoch su" for x
    unfolding r_def by simp (rule decode_version_b64 [OF laws(2)], use that t2(2) c2(2) ep in simp_all)
  obtain d' st' p' where t3: "take_in D C io s2 (d, st1, p1) = (Inr (), (d', st', p'))" "st_epoch st' = st_epoch st1"
      "d_version D d \<le> d_version D d'" "d_version D e \<le> d_version D d'" "known d' \<subseteq> known d \<union> covered (d_version D e)"
    by (rule take_in_works [OF laws io(1) s2 order_refl, of st1 p1]) (rule that)
  show thesis
  proof (rule that)
    show "sync_round D C io io' (their, (d, st, p)) (e, su, q) = (Inr \<lparr>rd_pushed = raw_len s1, rd_pulled = raw_len s2,
        rd_items = d_items D d'\<rparr>, re_version r, (d', st', p'), (e', su', q'))"
      using out ans said [of st1] t3(1) ep by (simp add: sync_round_def peer_absorb_def r_def)
    show "st_epoch st' = st_epoch st" "st_epoch su' = st_epoch su" using out(2) t3(2) t2(2) c2(2) by simp_all
    show "re_version r \<noteq> []" using spell_nonempty [OF laws(2)] by (simp add: r_def version_b64_def)
    show "decode_version C st' (re_version r) = Inr (d_version D e')" by (rule said) (use out(2) t3(2) ep in simp)
  qed (use t3 t2 d_e in simp_all)
qed

lemma covered_eq: "covered v = covered v' \<Longrightarrow> v = v'"
  using covered_le [of v v'] covered_le [of v' v] by (simp add: order.antisym)

text \<open>
  C12: Two rounds bring everything across.  Two copies of one epoch that never met, on disks that take their writes,
  whose operations fit a message: the first round (a pull) and the second both succeed, and afterwards each side's
  version includes both versions the two had before, even though neither side knew anything of the other; and if
  neither held operations it could not place, both are at one version, with exactly what the two had.
\<close>

theorem two_rounds_converge:
  assumes "doc_laws D carries known" and "codec_laws D C" and "doc_answers D" and "fits_message D known (known d \<union> known e)"
    and "writes_work io1" and "writes_work io2" and "writes_work io3" and "writes_work io4"
    and "st_epoch st = st_epoch su" and "st_epoch su \<le> u32_max"
  shows "\<exists>r1 their1 near1 far1 r2 their2 d2 st2 p2 e2 su2 q2.
    sync_round D C io1 io2 ([], (d, st, p)) (e, su, q) = (Inr r1, their1, near1, far1) \<and>
    sync_round D C io3 io4 (their1, near1) far1 = (Inr r2, their2, (d2, st2, p2), (e2, su2, q2)) \<and>
    d_version D d \<le> d_version D d2 \<and> d_version D e \<le> d_version D d2 \<and>
    d_version D d \<le> d_version D e2 \<and> d_version D e \<le> d_version D e2 \<and>
    (known d = covered (d_version D d) \<and> known e = covered (d_version D e) \<longrightarrow>
      d_version D d2 = d_version D e2 \<and> covered (d_version D d2) = known d \<union> known e)"
proof -
  let ?S = "known d \<union> known e"
  have cov: "covered (d_version D x) \<subseteq> known x" for x by (rule doc_knownD [OF assms(1)])
  obtain r1 their1 d1 st1 p1 e1 su1 q1 where one:
      "sync_round D C io1 io2 ([], (d, st, p)) (e, su, q) = (Inr r1, their1, (d1, st1, p1), (e1, su1, q1))"
      "st_epoch st1 = st_epoch st" "st_epoch su1 = st_epoch su"
      "d_version D d \<le> d_version D d1" "d_version D e \<le> d_version D d1" "d_version D e \<le> d_version D e1"
      "their1 \<noteq> []" "decode_version C st1 their1 = Inr (d_version D e1)"
      "known d1 \<subseteq> known d \<union> covered (d_version D e)" "known e1 \<subseteq> known e \<union> covered (d_version D d)"
    by (rule round_works [OF assms(1-3,5,6,9,10), of "[]" e ?S]) (use assms(4) in auto)
  have know: "their1 = [] \<or> (\<exists>vv. decode_version C st1 their1 = Inr vv \<and> vv \<le> d_version D e1)" using one(8) by simp
  have ep: "st_epoch st1 = st_epoch su1" "st_epoch su1 \<le> u32_max" using one(2,3) assms(9,10) by simp_all
  have sub: "known d1 \<subseteq> ?S" "known e1 \<subseteq> ?S" using one(9,10) cov [of d] cov [of e] by blast+
  obtain r2 their2 d2 st2 p2 e2 su2 q2 where two:
      "sync_round D C io3 io4 (their1, (d1, st1, p1)) (e1, su1, q1) = (Inr r2, their2, (d2, st2, p2), (e2, su2, q2))"
      "d_version D d1 \<le> d_version D d2" "d_version D e1 \<le> d_version D d2" "d_version D e1 \<le> d_version D e2"
      "their1 \<noteq> [] \<Longrightarrow> d_version D d1 \<le> d_version D e2"
      "known d2 \<subseteq> known d1 \<union> covered (d_version D e1)" "known e2 \<subseteq> known e1 \<union> covered (d_version D d1)"
    by (rule round_works [OF assms(1-3,7,8) ep know assms(4) sub]) blast
  have le: "d_version D d \<le> d_version D d2" "d_version D e \<le> d_version D d2"
    "d_version D d \<le> d_version D e2" "d_version D e \<le> d_version D e2"
    using one(4,5) two(2) two(5) [OF one(7)] order_trans by blast+
  have all: "covered (d_version D d2) \<subseteq> ?S" "covered (d_version D e2) \<subseteq> ?S"
    using two(6,7) sub cov [of d1] cov [of e1] cov [of d2] cov [of e2] by blast+
  have "d_version D d2 = d_version D e2 \<and> covered (d_version D d2) = ?S"
    if placed: "known d = covered (d_version D d) \<and> known e = covered (d_version D e)"
  proof -
    have "covered (d_version D d2) = ?S" "covered (d_version D e2) = ?S"
      using all placed covered_mono [OF le(1)] covered_mono [OF le(2)] covered_mono [OF le(3)] covered_mono [OF le(4)] by blast+
    then show ?thesis using covered_eq by blast
  qed
  then show ?thesis using one(1) two(1) le by blast
qed

section \<open>The canonical version\<close>

lemma chunks_inj:
  assumes "\<And>x. x \<in> set xs \<union> set ys \<Longrightarrow> length (f x) = n" and "0 < n"
    and "\<And>x y. x \<in> set xs \<Longrightarrow> y \<in> set ys \<Longrightarrow> f x = f y \<Longrightarrow> x = y"
    and "concat (map f xs) @ u = concat (map f ys) @ v" and "length u < n" and "length v < n"
  shows "xs = ys \<and> u = v"
  using assms
proof (induction xs arbitrary: ys)
  case Nil
  show ?case
  proof (cases ys)
    case (Cons y ys')
    then have "length (f y) = n" using Nil.prems(1) by simp
    moreover have "length u = length (f y) + length (concat (map f ys')) + length v"
      using arg_cong [OF Nil.prems(4), of length] Cons by simp
    ultimately show ?thesis using Nil.prems(5) by simp
  qed (use Nil in simp)
next
  case (Cons x xs)
  show ?case
  proof (cases ys)
    case Nil
    then have "length v = length (f x) + length (concat (map f xs)) + length u"
      using arg_cong [OF Cons.prems(4), of length] by simp
    moreover have "length (f x) = n" using Cons.prems(1) by simp
    ultimately show ?thesis using Cons.prems(6) by simp
  next
    case y: (Cons y ys')
    have len: "length (f x) = length (f y)" using Cons.prems(1) y by simp
    then have "f x = f y" "concat (map f xs) @ u = concat (map f ys') @ v"
      using Cons.prems(4) y by simp_all
    moreover from this(2) have "xs = ys' \<and> u = v"
      by (intro Cons.IH) (use Cons.prems y in auto)
    ultimately show ?thesis using Cons.prems(3) [of x y] y by simp
  qed
qed

text \<open>A version vector as the code holds it: one counter of 32 bits for each writer of 64.\<close>

definition vector_ok :: "(nat \<times> int) list \<Rightarrow> bool" where
  "vector_ok vv \<longleftrightarrow> distinct (map fst vv) \<and> list_all (\<lambda>(p, c). p \<le> u64_max \<and> c < 2 ^ 31) vv"

definition counter_of :: "(nat \<times> int) list \<Rightarrow> nat \<Rightarrow> int" where
  "counter_of vv p = (case map_of vv p of Some c \<Rightarrow> max 0 c | None \<Rightarrow> 0)"

lemma counter_of_pos:
  assumes "distinct (map fst vv)" and "0 < c"
  shows "counter_of vv p = c \<longleftrightarrow> (p, c) \<in> set vv"
proof -
  have "map_of vv p = Some c \<longleftrightarrow> (p, c) \<in> set vv" using assms(1) by (rule map_of_eq_Some_iff)
  moreover have "counter_of vv p = c \<longleftrightarrow> map_of vv p = Some c"
    using assms(2) by (auto simp: counter_of_def split: option.splits)
  ultimately show ?thesis by simp
qed

lemma entries_eq_iff:
  assumes "distinct (map fst vv)" and "distinct (map fst uu)"
  shows "sort (filter (\<lambda>(p, c). 0 < c) vv) = sort (filter (\<lambda>(p, c). 0 < c) uu) \<longleftrightarrow> counter_of vv = counter_of uu"
    (is "?l \<longleftrightarrow> ?r")
proof
  assume ?l
  then have same: "set (filter (\<lambda>(p, c). 0 < c) vv) = set (filter (\<lambda>(p, c). 0 < c) uu)" by (metis set_sort)
  have iff: "counter_of vv p = c \<longleftrightarrow> counter_of uu p = c" if "0 < c" for p c
    using same that counter_of_pos [OF assms(1) that] counter_of_pos [OF assms(2) that] by auto
  have nonneg: "0 \<le> counter_of ww p" for ww p by (simp add: counter_of_def split: option.splits)
  show ?r
  proof
    fix p
    show "counter_of vv p = counter_of uu p"
      using iff [of "counter_of vv p" p] iff [of "counter_of uu p" p] nonneg [of vv p] nonneg [of uu p]
      by (cases "counter_of vv p = 0"; cases "counter_of uu p = 0") auto
  qed
next
  assume r: ?r
  have "set (filter (\<lambda>(p, c). 0 < c) vv) = set (filter (\<lambda>(p, c). 0 < c) uu)"
    using r counter_of_pos [OF assms(1)] counter_of_pos [OF assms(2)] by auto
  moreover have "distinct (filter (\<lambda>(p, c). 0 < c) vv)" "distinct (filter (\<lambda>(p, c). 0 < c) uu)"
    using assms by (simp_all add: distinct_map)
  ultimately show ?l
    by (metis distinct_sort set_sort sorted_distinct_set_unique sorted_sort)
qed

text \<open>
  The canonical version says the version and nothing else: two version vectors of two copies, in
  whatever order their hash maps yield them, have equal canonical bytes exactly when they count
  the same for every writer and the copies' epochs are the same.
\<close>

theorem canonical_bytes_say_the_version:
  assumes "vector_ok vv" and "vector_ok uu" and "e \<le> u32_max" and "e' \<le> u32_max"
  shows "version_canonical e vv = version_canonical e' uu \<longleftrightarrow> counter_of vv = counter_of uu \<and> e = e'"
proof -
  define f where "f = (\<lambda>(p, c :: int). le_bytes 8 p @ le_bytes 4 (nat c))"
  define tail where "tail = (\<lambda>e. if e \<noteq> 0 then map of_char ''epoch'' @ le_bytes 4 e else [] :: byte list)"
  let ?es = "\<lambda>vv. sort (filter (\<lambda>(p, c). 0 < c) vv) :: (nat \<times> int) list"
  have can: "version_canonical e vv = concat (map f (?es vv)) @ tail e" for e vv
    by (simp add: version_canonical_def f_def tail_def Let_def)
  have len: "length (f x) = 12" for x by (simp add: f_def split: prod.split)
  have small: "length (tail e) < 12" for e by (simp add: tail_def)
  have inj: "f x = f y \<Longrightarrow> x = y" if "x \<in> set (?es vv)" "y \<in> set (?es uu)" for x y
  proof -
    obtain p c q d where xy: "x = (p, c)" "y = (q, d)" by (cases x, cases y)
    have "p < 256 ^ 8" "q < 256 ^ 8" "nat c < 256 ^ 4" "nat d < 256 ^ 4" "0 < c" "0 < d"
      using that assms(1,2) unfolding xy vector_ok_def list_all_iff by (auto simp: u64_max_def)
    then show "f x = f y \<Longrightarrow> x = y" unfolding xy f_def by (simp add: le_bytes_inj eq_nat_nat_iff)
  qed
  have tails: "tail e = tail e' \<longleftrightarrow> e = e'"
    using assms(3,4) le_bytes_inj [of e 4 e'] by (auto simp: tail_def u32_max_def)
  have "version_canonical e vv = version_canonical e' uu \<longleftrightarrow> ?es vv = ?es uu \<and> tail e = tail e'"
    unfolding can
  proof
    assume eq: "concat (map f (?es vv)) @ tail e = concat (map f (?es uu)) @ tail e'"
    show "?es vv = ?es uu \<and> tail e = tail e'"
      by (rule chunks_inj [where f = f and n = 12]) (use len inj eq small in auto)
  qed auto
  also have "\<dots> \<longleftrightarrow> counter_of vv = counter_of uu \<and> e = e'"
    using entries_eq_iff [of vv uu] assms(1,2) tails by (simp add: vector_ok_def)
  finally show ?thesis .
qed

theorem canonical_bytes_say_the_version_witness:
  "version_canonical 1 [(7, 2), (3, 5), (9, 0)] = version_canonical 1 [(3, 5), (7, 2)] \<longleftrightarrow>
    counter_of [(7, 2), (3, 5), (9, 0)] = counter_of [(3, 5), (7, 2)] \<and> (1::nat) = 1"
  by (rule canonical_bytes_say_the_version) (simp_all add: vector_ok_def u64_max_def u32_max_def)

section \<open>A codec for the counting document\<close>

definition counting_one :: "(nat \<times> nat, nat \<times> nat) doc_ops" where
  "counting_one = counting\<lparr>b_len := (\<lambda>_. 1)\<rparr>"

lemma doc_laws_b_len [simp]: "doc_laws (D\<lparr>b_len := f\<rparr>) carries known = doc_laws D carries known"
  unfolding doc_laws_def open_law_def merge_law_def known_law_def export_law_def catch_up_law_def by simp

lemma counting_one_laws: "doc_laws counting_one counting_carries counting_known"
  using counting_laws by (simp add: counting_one_def)

definition wire_tally :: "(nat \<times> nat) codec" where
  "wire_tally = \<lparr>b64_encode = (\<lambda>b. if snd b \<le> fst b then [] else replicate (fst b) CHR ''A'' @ ''/'' @ replicate (snd b) CHR ''A''),
     b64_decode = (\<lambda>s. Inr (length (takeWhile (\<lambda>c. c = CHR ''A'') s), length (tl (dropWhile (\<lambda>c. c = CHR ''A'') s)))),
     vv_encode = (\<lambda>v. (0, v 0 + 1)),
     vv_decode = (\<lambda>b. Inr (\<lambda>w. if w = 0 then snd b - 1 else 0))\<rparr>"

lemma run_of:
  assumes "y \<noteq> x"
  shows "takeWhile (\<lambda>c. c = x) (replicate n x @ y # zs) = replicate n x"
    and "dropWhile (\<lambda>c. c = x) (replicate n x @ y # zs) = y # zs"
  using assms by (induction n) auto

lemma wire_tally_laws: "codec_laws counting_one wire_tally"
proof -
  have decodes: "b64_decode wire_tally (b64_encode wire_tally b) = Inr b" if "\<not> b_empty counting_one b" for b
    using that by (cases b) (simp add: wire_tally_def counting_one_def counting_def run_of)
  moreover have "CHR '':'' \<notin> set (b64_encode wire_tally b)" for b by (auto simp: wire_tally_def)
  moreover have "b64_encode wire_tally b = [] \<longleftrightarrow> b_empty counting_one b" for b
    by (simp add: wire_tally_def counting_one_def counting_def)
  moreover have "\<not> b_empty counting_one (vv_encode wire_tally (d_version counting_one d)) \<and>
      vv_decode wire_tally (vv_encode wire_tally (d_version counting_one d)) = Inr (d_version counting_one d)" for d
    by (auto simp: wire_tally_def counting_one_def counting_def)
  ultimately show ?thesis unfolding codec_laws_def by blast
qed

lemma counting_answers: "doc_answers counting_one"
  by (auto simp: doc_answers_def counting_one_def counting_def le_fun_def)

lemma counting_fits: "fits_message counting_one known S"
  by (auto simp: fits_message_def counting_one_def MAX_BYTES_def)

definition good_writes :: wire_io where
  "good_writes = \<lparr>wi_out = all_writes, wi_in = all_writes, wi_pen = True, wi_name = 5\<rparr>"

lemma good_writes_work: "writes_work good_writes"
  by (simp add: writes_work_def good_writes_def)

theorem two_rounds_converge_witness:
  "\<exists>r1 their1 near1 far1 r2 their2 d2 st2 p2 e2 su2 q2.
    sync_round counting_one wire_tally good_writes good_writes ([], ((7, 2), demo_store, empty_pile)) ((8, 1), demo_store, empty_pile)
      = (Inr r1, their1, near1, far1) \<and>
    sync_round counting_one wire_tally good_writes good_writes (their1, near1) far1 = (Inr r2, their2, (d2, st2, p2), (e2, su2, q2)) \<and>
    d_version counting_one d2 = d_version counting_one e2 \<and>
    covered (d_version counting_one d2) = counting_known (7, 2) \<union> counting_known (8, 1)"
proof -
  have e: "st_epoch demo_store \<le> u32_max" by (simp add: demo_store_def EPOCH_def u32_max_def)
  have k: "counting_known d = covered (d_version counting_one d)" for d
    using counting_covered [of d] by (simp add: counting_one_def)
  from two_rounds_converge [OF counting_one_laws wire_tally_laws counting_answers counting_fits
      good_writes_work good_writes_work good_writes_work good_writes_work refl e, of "(7, 2)" empty_pile "(8, 1)" empty_pile]
  show ?thesis using k by blast
qed

theorem other_epoch_changes_nothing_witness:
  "answer counting_one wire_tally good_writes (version_b64 counting_one wire_tally (8, 1) (demo_store\<lparr>st_epoch := 0\<rparr>)) ''A/AA''
      ((7, 2), demo_store, empty_pile) = (Inl (OtherEpoch 0 1), ((7, 2), demo_store, empty_pile))"
  using other_epoch_changes_nothing [OF wire_tally_laws, of "demo_store\<lparr>st_epoch := 0\<rparr>" demo_store good_writes "(8, 1)"]
  by (simp add: demo_store_def EPOCH_def)

text \<open>The increment of the copy of the demonstration that made two edits.\<close>

lemma demo_leaves: "changes_since_b64 counting wire_tally all_writes [] ((7, 2), demo_store, sw_pile demo_edited) =
   (Inr ''/AA'', (7, 2), demo_wrote demo_name [demo_name], demo_pile demo_name [demo_name])"
proof -
  have "\<not> d_version counting (7, 2) \<le> (\<lambda>_. 0)"
    by (simp add: counting_def le_fun_def exI [of _ 0])
  then show ?thesis
    using demo_flush
    by (simp add: changes_since_b64_def decode_version_def flush_copy_def demo_copies counting_simps wire_tally_def)
      (simp add: counting_def MAX_BYTES_def numeral_2_eq_2)
qed

theorem nothing_leaves_unflushed_witness:
  "\<exists>b. ''/AA'' = b64_encode wire_tally b \<and> counting_carries b \<subseteq> durable counting_carries (demo_pile demo_name [demo_name])"
  using nothing_leaves_unflushed [OF counting_laws demo_first demo_copies(1) demo_once(2) demo_leaves
      rtranclp.rtrancl_refl demo_once(3)] by auto

end
