(* ===== verification/Staging.thy ===== *)
theory Staging
  imports Bytes RustBase
begin

text \<open>
  \<open>crates/sync/src/transfer.rs\<close>: the private staging directory a large document arrives in, chunk by
  chunk, across crashes.  blake3 is a third-party crate: it is the parameter \<open>H\<close>, and a
  running hasher is the bytes it was fed.  A stage is its three files; the files' privacy checks
  are one flag, a system call that fails is a fault of the operation, and what was written
  before a crash is there after it, as the module claims no more.
\<close>

section \<open>Sizes\<close>

definition CHUNK_BYTES :: nat where "CHUNK_BYTES = 256 * 1024"
definition MAX_METADATA_BYTES :: nat where "MAX_METADATA_BYTES = 64 * 1024"
definition MAX_BLOB_BYTES :: nat where "MAX_BLOB_BYTES = 64 * 1024 * 1024"
definition MAX_RESERVED_BYTES :: nat where "MAX_RESERVED_BYTES = 128 * 1024 * 1024"
definition MAX_OWNERS :: nat where "MAX_OWNERS = 2"
definition MAX_RETAINED_STAGES :: nat where "MAX_RETAINED_STAGES = 64"
definition XFER_MAGIC :: "byte list" where "XFER_MAGIC = map (\<lambda>c. of_nat (of_char c)) ''khor-x01''"
definition XFER_HEADER_BYTES :: nat where "XFER_HEADER_BYTES = 8 + 32 + 32 + 8 + 8 + 32"
definition RECORD_BYTES :: nat where "RECORD_BYTES = 8 + 32 + 32"
definition MAX_RECORDS :: nat where "MAX_RECORDS = MAX_BLOB_BYTES div CHUNK_BYTES + 1"

section \<open>The manifest\<close>

record manifest =
  source :: "byte list"
  recipient :: "byte list"
  binding :: "byte list"
  total_bytes :: nat
  digest :: "byte list"

datatype transfer_error =
    ResourceLimit string
  | Busy
  | InvalidManifest string
  | InvalidStage string
  | InvalidChunk string
  | OutOfOrder nat nat
  | ConflictingDuplicate
  | DigestMismatch
  | Cleanup transfer_error
  | IoFailed

definition validate :: "manifest \<Rightarrow> transfer_error + unit" where
  "validate m =
     (if binding m = [] then Inl (InvalidManifest ''empty purpose binding'')
      else if length (binding m) > MAX_METADATA_BYTES - XFER_HEADER_BYTES
        then Inl (ResourceLimit ''manifest metadata exceeds 64 KiB'')
      else if total_bytes m > MAX_BLOB_BYTES then Inl (ResourceLimit ''blob exceeds 64 MiB'')
      else Inr ())"

definition encode_manifest :: "manifest \<Rightarrow> byte list" where
  "encode_manifest m =
     XFER_MAGIC @ source m @ recipient m @ be_bytes 8 (total_bytes m) @ be_bytes 8 (length (binding m)) @
     digest m @ binding m"

definition manifest_id :: "(byte list \<Rightarrow> byte list) \<Rightarrow> manifest \<Rightarrow> transfer_error + byte list" where
  "manifest_id H m = and_then (validate m) (\<lambda>_. Inr (H (encode_manifest m)))"

definition decode_manifest :: "byte list \<Rightarrow> transfer_error + manifest" where
  "decode_manifest bytes =
     (if length bytes < XFER_HEADER_BYTES \<or> length bytes > MAX_METADATA_BYTES \<or> take 8 bytes \<noteq> XFER_MAGIC
      then Inl (InvalidStage ''manifest framing'')
      else if from_be (take 8 (drop 80 bytes)) \<noteq> length bytes - XFER_HEADER_BYTES
        then Inl (InvalidStage ''manifest binding length'')
      else
        let m = \<lparr>source = take 32 (drop 8 bytes), recipient = take 32 (drop 40 bytes), binding = drop 120 bytes,
                 total_bytes = from_be (take 8 (drop 72 bytes)), digest = take 32 (drop 88 bytes)\<rparr> in
        and_then (validate m) (\<lambda>_. Inr m))"

section \<open>The checkpoint journal\<close>

definition checkpoint :: "(byte list \<Rightarrow> byte list) \<Rightarrow> byte list \<Rightarrow> nat \<Rightarrow> byte list \<Rightarrow> byte list" where
  "checkpoint H i offset prefix =
     (let r = be_bytes 8 offset @ prefix in
      r @ H (map (\<lambda>c. of_nat (of_char c)) ''khor-transfer-offset-v1'' @ i @ r))"

text \<open>\<open>chunks_exact(n)\<close>: the whole chunks, what is left over dropped.\<close>

function chunks_exact :: "nat \<Rightarrow> 'a list \<Rightarrow> 'a list list" where
  "chunks_exact n xs = (if n = 0 \<or> length xs < n then [] else take n xs # chunks_exact n (drop n xs))"
  by pat_completeness auto
termination by (relation "measure (\<lambda>(n, xs). length xs)") auto

declare chunks_exact.simps [simp del]

text \<open>The scan of \<open>recover\<close>: bytes accepted, offset and prefix digest of the last good record.\<close>

fun scan :: "(byte list \<Rightarrow> byte list) \<Rightarrow> byte list \<Rightarrow> nat \<Rightarrow> byte list list \<Rightarrow> nat \<times> nat \<times> byte list \<Rightarrow>
    transfer_error + nat \<times> nat \<times> byte list" where
  "scan H i whole [] acc = Inr acc"
| "scan H i whole (r # rs) (accepted, offset, prefix) =
     (let e = from_be (take 8 r); d = take 32 (drop 8 r) in
      if checkpoint H i e d \<noteq> r then Inr (accepted, offset, prefix)
      else if accepted = 0 then
        (if e \<noteq> 0 \<or> d \<noteq> prefix then Inl (InvalidStage ''missing initial checkpoint'')
         else scan H i whole rs (accepted + RECORD_BYTES, e, d))
      else if e \<le> offset \<or> e > whole \<or> e - offset > CHUNK_BYTES \<or> (e \<noteq> whole \<and> e - offset \<noteq> CHUNK_BYTES)
        then Inl (InvalidStage ''invalid checkpoint offset'')
      else scan H i whole rs (accepted + RECORD_BYTES, e, d))"

record stage =
  sg_manifest :: "byte list"
  sg_body :: "byte list"
  sg_offsets :: "byte list"

text \<open>
  \<open>recover\<close>: \<open>io\<close> says which calls succeed: 0 reading the journal, 1 reading the body, 2 and 3
  cutting and syncing the body, 4 and 5 the journal.  The answer is the offset and what the hasher was fed.
\<close>

definition recover_stage ::
    "(byte list \<Rightarrow> byte list) \<Rightarrow> (nat \<Rightarrow> bool) \<Rightarrow> byte list \<Rightarrow> nat \<Rightarrow> stage \<Rightarrow>
     (transfer_error + nat \<times> byte list) \<times> stage" where
  "recover_stage H io i whole sg =
     (if \<not> io 0 then (Inl IoFailed, sg)
      else if length (sg_offsets sg) > MAX_RECORDS * RECORD_BYTES
        then (Inl (InvalidStage ''checkpoint journal exceeds budget''), sg)
      else case scan H i whole (chunks_exact RECORD_BYTES (sg_offsets sg)) (0, 0, H []) of
        Inl e \<Rightarrow> (Inl e, sg)
      | Inr (accepted, offset, prefix) \<Rightarrow>
          if accepted = 0 then (Inl (InvalidStage ''no valid checkpoint''), sg)
          else if length (sg_body sg) < offset then (Inl (InvalidStage ''checkpoint exceeds stored body''), sg)
          else if \<not> io 1 then (Inl IoFailed, sg)
          else if H (take offset (sg_body sg)) \<noteq> prefix then (Inl (InvalidStage ''stored prefix digest mismatch''), sg)
          else if \<not> io 2 then (Inl IoFailed, sg)
          else
            let sg1 = sg\<lparr>sg_body := take offset (sg_body sg)\<rparr> in
            if \<not> io 3 \<or> \<not> io 4 then (Inl IoFailed, sg1)
            else
              let sg2 = sg1\<lparr>sg_offsets := take accepted (sg_offsets sg)\<rparr> in
              if \<not> io 5 then (Inl IoFailed, sg2)
              else (Inr (offset, take offset (sg_body sg)), sg2))"

section \<open>A sink\<close>

record sink =
  sk_manifest :: manifest
  sk_id :: "byte list"
  sk_offset :: nat
  sk_hashed :: "byte list"
  sk_poisoned :: bool

datatype progress = Stored nat | VerifiedComplete "byte list" nat

definition progress_of :: "(byte list \<Rightarrow> byte list) \<Rightarrow> sink \<Rightarrow> transfer_error + progress" where
  "progress_of H sk =
     (if sk_poisoned sk then Inl (InvalidStage ''uncertain write; drop and reopen'')
      else if sk_offset sk \<noteq> total_bytes (sk_manifest sk) then Inr (Stored (sk_offset sk))
      else if H (sk_hashed sk) \<noteq> digest (sk_manifest sk) then Inl DigestMismatch
      else Inr (VerifiedComplete (sk_id sk) (sk_offset sk)))"

text \<open>
  Where the writes of an append stop: reading the duplicate, the body after so many bytes, the
  journal after so many bytes.  A body sync that fails has written all of the chunk, a journal sync
  all of the record.
\<close>

datatype append_fault = NoFault | ReadFault | BodyFault nat | JournalFault nat

definition write_at :: "nat \<Rightarrow> byte list \<Rightarrow> byte list \<Rightarrow> byte list" where
  "write_at pos bytes file = take pos file @ bytes @ drop (pos + length bytes) file"

definition append_chunk ::
    "(byte list \<Rightarrow> byte list) \<Rightarrow> append_fault \<Rightarrow> nat \<Rightarrow> byte list \<Rightarrow> sink \<times> stage \<Rightarrow>
     (transfer_error + progress) \<times> sink \<times> stage" where
  "append_chunk H fault at bytes ss =
     (case ss of (sk, sg) \<Rightarrow>
      let e = at + length bytes; whole = total_bytes (sk_manifest sk) in
      if sk_poisoned sk then (Inl (InvalidStage ''uncertain write; drop and reopen''), sk, sg)
      else if at > sk_offset sk then (Inl (OutOfOrder (sk_offset sk) at), sk, sg)
      else if length bytes > CHUNK_BYTES then (Inl (InvalidChunk ''chunk exceeds 256 KiB''), sk, sg)
      else if e > u64_max then (Inl (InvalidChunk ''offset overflow''), sk, sg)
      else if e > whole then (Inl (InvalidChunk ''chunk exceeds declared total''), sk, sg)
      else if e \<noteq> whole \<and> length bytes \<noteq> CHUNK_BYTES then (Inl (InvalidChunk ''non-final chunk is not 256 KiB''), sk, sg)
      else if bytes = [] then (progress_of H sk, sk, sg)
      else if at < sk_offset sk then
        (if e > sk_offset sk then (Inl (InvalidChunk ''duplicate overlaps unstored bytes''), sk, sg)
         else if fault = ReadFault then (Inl IoFailed, sk, sg)
         else if take (length bytes) (drop at (sg_body sg)) \<noteq> bytes then (Inl ConflictingDuplicate, sk, sg)
         else (progress_of H sk, sk, sg))
      else
        let poisoned = sk\<lparr>sk_poisoned := True\<rparr>;
            rec = checkpoint H (sk_id sk) e (H (sk_hashed sk @ bytes)) in
        case fault of
          BodyFault k \<Rightarrow> (Inl IoFailed, poisoned, sg\<lparr>sg_body := write_at at (take k bytes) (sg_body sg)\<rparr>)
        | JournalFault k \<Rightarrow> (Inl IoFailed, poisoned, sg\<lparr>sg_body := write_at at bytes (sg_body sg),
            sg_offsets := sg_offsets sg @ take k rec\<rparr>)
        | _ \<Rightarrow>
            let sk' = sk\<lparr>sk_offset := e, sk_hashed := sk_hashed sk @ bytes\<rparr> in
            (progress_of H sk', sk', sg\<lparr>sg_body := write_at at bytes (sg_body sg), sg_offsets := sg_offsets sg @ rec\<rparr>))"

definition read_verified :: "(byte list \<Rightarrow> byte list) \<Rightarrow> bool \<Rightarrow> nat \<Rightarrow> nat \<Rightarrow> sink \<times> stage \<Rightarrow> transfer_error + byte list" where
  "read_verified H ok at n ss =
     (case ss of (sk, sg) \<Rightarrow>
      and_then (progress_of H sk) (\<lambda>p.
        case p of
          Stored _ \<Rightarrow> Inl (InvalidStage ''body has not been verified complete'')
        | VerifiedComplete _ _ \<Rightarrow>
            if n > CHUNK_BYTES then Inl (InvalidChunk ''read buffer exceeds 256 KiB'')
            else if at > sk_offset sk then Inl (InvalidChunk ''read offset exceeds total'')
            else if \<not> ok then Inl IoFailed
            else Inr (take n (drop at (sg_body sg)))))"

end
