(* ===== verification/StagingFacts.thy ===== *)
theory StagingFacts
  imports Staging "HOL-Library.Sublist"
begin

text \<open>
  What one stage and one sink keep: the manifest comes back from its file, a journal that
  was cut anywhere is read back to its last whole record, and an append leaves a stage from
  which everything it acknowledged is read back.
\<close>

definition hash_len :: "(byte list \<Rightarrow> byte list) \<Rightarrow> bool" where
  "hash_len H \<longleftrightarrow> (\<forall>x. length (H x) = 32)"

lemma hash_lenD [simp]: "hash_len H \<Longrightarrow> length (H x) = 32"
  by (simp add: hash_len_def)

section \<open>The manifest\<close>

definition manifest_ok :: "manifest \<Rightarrow> bool" where
  "manifest_ok m \<longleftrightarrow> length (source m) = 32 \<and> length (recipient m) = 32 \<and> length (digest m) = 32 \<and> is_ok (validate m)"

lemma is_ok_validate: "is_ok (validate m) \<longleftrightarrow>
    binding m \<noteq> [] \<and> length (binding m) \<le> MAX_METADATA_BYTES - XFER_HEADER_BYTES \<and> total_bytes m \<le> MAX_BLOB_BYTES"
  by (auto simp: validate_def is_ok_def)

lemma validate_Inr: "validate m = Inr () \<longleftrightarrow>
    binding m \<noteq> [] \<and> length (binding m) \<le> MAX_METADATA_BYTES - XFER_HEADER_BYTES \<and> total_bytes m \<le> MAX_BLOB_BYTES"
  by (auto simp: validate_def)

lemma is_ok_Inr: "is_ok (r :: 'e + unit) \<longleftrightarrow> r = Inr ()"
  by (cases r) (simp_all add: is_ok_def)

lemma decode_encode:
  assumes "manifest_ok m"
  shows "decode_manifest (encode_manifest m) = Inr m"
proof -
  have len: "length (source m) = 32" "length (recipient m) = 32" "length (digest m) = 32"
    and ok: "is_ok (validate m)"
    using assms by (simp_all add: manifest_ok_def)
  have b: "length (binding m) \<le> 65416" "total_bytes m \<le> u64_max"
    using ok unfolding is_ok_validate by (simp_all add: MAX_METADATA_BYTES_def XFER_HEADER_BYTES_def MAX_BLOB_BYTES_def u64_max_def)
  have v: "validate m = Inr ()" using ok by (simp add: is_ok_Inr)
  have magic: "length XFER_MAGIC = 8" by (simp add: XFER_MAGIC_def)
  have parts: "take 8 (encode_manifest m) = XFER_MAGIC" "take 32 (drop 8 (encode_manifest m)) = source m"
      "take 32 (drop 40 (encode_manifest m)) = recipient m"
      "take 8 (drop 72 (encode_manifest m)) = be_bytes 8 (total_bytes m)"
      "take 8 (drop 80 (encode_manifest m)) = be_bytes 8 (length (binding m))"
      "take 32 (drop 88 (encode_manifest m)) = digest m" "drop 120 (encode_manifest m) = binding m"
      "length (encode_manifest m) = 120 + length (binding m)"
    using len magic by (simp_all add: encode_manifest_def)
  have "from_be (be_bytes 8 (length (binding m))) = length (binding m)"
    using b(1) by (intro from_be_u64) (simp add: u64_max_def)
  moreover have "validate \<lparr>source = source m, recipient = recipient m, binding = binding m,
      total_bytes = total_bytes m, digest = digest m\<rparr> = Inr ()"
  proof -
    have e: "\<lparr>source = source m, recipient = recipient m, binding = binding m,
      total_bytes = total_bytes m, digest = digest m\<rparr> = m" by simp
    show ?thesis unfolding e by (rule v)
  qed
  ultimately show ?thesis
    using parts b by (simp add: decode_manifest_def XFER_HEADER_BYTES_def MAX_METADATA_BYTES_def Let_def)
qed

text \<open>
  A manifest's file says the manifest: decoding what was encoded gives the same manifest,
  field by field.
\<close>

theorem manifest_file_roundtrip:
  assumes "manifest_ok m"
  shows "decode_manifest (encode_manifest m) = Inr m"
  using assms by (rule decode_encode)

definition demo_manifest :: manifest where
  "demo_manifest = \<lparr>source = replicate 32 1, recipient = replicate 32 2, binding = [7],
     total_bytes = 3, digest = replicate 32 3\<rparr>"

lemma demo_manifest_ok: "manifest_ok demo_manifest"
  by (simp add: manifest_ok_def demo_manifest_def validate_Inr MAX_METADATA_BYTES_def XFER_HEADER_BYTES_def
      MAX_BLOB_BYTES_def)

theorem manifest_file_roundtrip_witness:
  "manifest_ok demo_manifest \<and> decode_manifest (encode_manifest demo_manifest) = Inr demo_manifest"
  using manifest_file_roundtrip [OF demo_manifest_ok] demo_manifest_ok by simp

lemma decode_manifest_ok:
  assumes "decode_manifest bytes = Inr m"
  shows "manifest_ok m"
  using assms
  by (auto simp: decode_manifest_def manifest_ok_def Let_def XFER_HEADER_BYTES_def is_ok_Inr split: if_splits)

section \<open>The journal\<close>

text \<open>The records of a journal that says \<open>n\<close> bytes are stored: one for nothing, one for each chunk.\<close>

definition mark :: "nat \<Rightarrow> nat \<Rightarrow> nat" where
  "mark n k = min (k * CHUNK_BYTES) n"

definition marks :: "nat \<Rightarrow> nat" where
  "marks n = (n + CHUNK_BYTES - 1) div CHUNK_BYTES + 1"

definition journal_record :: "(byte list \<Rightarrow> byte list) \<Rightarrow> byte list \<Rightarrow> byte list \<Rightarrow> nat \<Rightarrow> byte list" where
  "journal_record H i body o' = checkpoint H i o' (H (take o' body))"

definition journal :: "(byte list \<Rightarrow> byte list) \<Rightarrow> byte list \<Rightarrow> byte list \<Rightarrow> nat \<Rightarrow> byte list" where
  "journal H i body n = concat (map (\<lambda>k. journal_record H i body (mark n k)) [0..<marks n])"

lemma chunk_pos [simp]: "0 < CHUNK_BYTES"
  by (simp add: CHUNK_BYTES_def)

lemma record_pos [simp]: "0 < RECORD_BYTES"
  by (simp add: RECORD_BYTES_def)

lemma marks_pos [simp]: "0 < marks n"
  by (simp add: marks_def)

lemma less_marks: "k < marks n \<longleftrightarrow> k = 0 \<or> (k - 1) * CHUNK_BYTES < n"
proof (cases k)
  case (Suc j)
  have "j < (n + CHUNK_BYTES - 1) div CHUNK_BYTES \<longleftrightarrow> Suc j * CHUNK_BYTES \<le> n + CHUNK_BYTES - 1"
    by (simp only: Suc_le_eq [symmetric] less_eq_div_iff_mult_less_eq [OF chunk_pos])
  also have "\<dots> \<longleftrightarrow> j * CHUNK_BYTES < n" using chunk_pos by (simp only: mult_Suc) linarith
  finally show ?thesis by (simp add: marks_def Suc)
qed simp

lemma last_mark: "mark n (marks n - 1) = n"
proof -
  have "\<not> marks n < marks n" by simp
  then have "n \<le> (marks n - 1) * CHUNK_BYTES" unfolding less_marks [of "marks n"] by simp
  then show ?thesis by (simp add: mark_def)
qed

lemma checkpoint_length: "hash_len H \<Longrightarrow> length p = 32 \<Longrightarrow> length (checkpoint H i o' p) = RECORD_BYTES"
  by (simp add: checkpoint_def RECORD_BYTES_def Let_def)

lemma record_length [simp]: "hash_len H \<Longrightarrow> length (journal_record H i body o') = RECORD_BYTES"
  by (simp add: journal_record_def checkpoint_length)

lemma checkpoint_fields:
  "length p = 32 \<Longrightarrow> o' \<le> u64_max \<Longrightarrow> from_be (take 8 (checkpoint H i o' p)) = o'"
  "length p = 32 \<Longrightarrow> take 32 (drop 8 (checkpoint H i o' p)) = p"
  by (simp_all add: checkpoint_def Let_def)

lemma chunks_exact_append:
  assumes "\<And>x. x \<in> set xs \<Longrightarrow> length x = n" and "0 < n" and "length part < n"
  shows "chunks_exact n (concat xs @ part) = xs"
  using assms(1)
proof (induction xs)
  case Nil
  then show ?case using assms(3) by (simp add: chunks_exact.simps [of n part])
next
  case (Cons x xs)
  then show ?case using assms(2) by (subst chunks_exact.simps) simp
qed

lemma journal_length: "hash_len H \<Longrightarrow> length (journal H i body n) = marks n * RECORD_BYTES"
  by (simp add: journal_def length_concat o_def sum_list_triv)

text \<open>A whole number of chunks, or everything.\<close>

definition full_mark :: "nat \<Rightarrow> nat \<Rightarrow> bool" where
  "full_mark whole n \<longleftrightarrow> n \<le> whole \<and> (n = whole \<or> CHUNK_BYTES dvd n)"

lemma scan_marks:
  assumes "hash_len H" and "full_mark whole n" and "n \<le> u64_max" and "0 < j" and "j \<le> marks n"
  shows "scan H i whole (map (\<lambda>k. journal_record H i body (mark n k)) [j..<marks n])
      (j * RECORD_BYTES, mark n (j - 1), H (take (mark n (j - 1)) body))
    = Inr (marks n * RECORD_BYTES, n, H (take n body))"
  using assms(4,5)
proof (induction "marks n - j" arbitrary: j)
  case 0
  then have "j = marks n" by simp
  then show ?case by (simp add: last_mark [unfolded One_nat_def])
next
  case (Suc d)
  then have j: "j < marks n" by simp
  then have below: "(j - 1) * CHUNK_BYTES < n" using Suc.prems(1) by (simp add: less_marks)
  then have prev: "mark n (j - 1) = (j - 1) * CHUNK_BYTES" by (simp add: mark_def)
  have up: "j * CHUNK_BYTES = (j - 1) * CHUNK_BYTES + CHUNK_BYTES"
    using Suc.prems(1) by (cases j) simp_all
  have good: "mark n j > mark n (j - 1)" "mark n j \<le> whole" "mark n j - mark n (j - 1) \<le> CHUNK_BYTES"
    using below up assms(2) by (auto simp: prev mark_def full_mark_def min_def)
  have full: "mark n j = whole \<or> mark n j - mark n (j - 1) = CHUNK_BYTES"
  proof (cases "j * CHUNK_BYTES \<le> n")
    case True
    then show ?thesis using prev up by (simp add: mark_def)
  next
    case False
    then have m: "mark n j = n" by (simp add: mark_def)
    have "\<not> CHUNK_BYTES dvd n"
    proof
      assume "CHUNK_BYTES dvd n"
      then obtain q where q: "n = CHUNK_BYTES * q" by blast
      then have "j - 1 < q" "q < j" using below False by (auto simp: mult.commute)
      then show False by simp
    qed
    then show ?thesis using assms(2) m by (simp add: full_mark_def)
  qed
  let ?r = "journal_record H i body (mark n j)"
  have "mark n j \<le> u64_max" using assms(3) by (simp add: mark_def)
  then have f: "from_be (take 8 ?r) = mark n j" "take 32 (drop 8 ?r) = H (take (mark n j) body)"
      "checkpoint H i (mark n j) (H (take (mark n j) body)) = ?r"
    using assms(1) by (simp_all add: journal_record_def checkpoint_fields)
  have "[j..<marks n] = j # [Suc j..<marks n]" using j by (simp add: upt_conv_Cons)
  moreover have "scan H i whole (map (\<lambda>k. journal_record H i body (mark n k)) [Suc j..<marks n])
      (Suc j * RECORD_BYTES, mark n (Suc j - 1), H (take (mark n (Suc j - 1)) body))
    = Inr (marks n * RECORD_BYTES, n, H (take n body))"
    by (rule Suc.hyps(1)) (use Suc.hyps(2) j in auto)
  ultimately show ?case
    using f good full Suc.prems(1) by (simp add: Let_def algebra_simps)
qed

lemma scan_journal:
  assumes "hash_len H" and "full_mark whole n" and "n \<le> u64_max" and "length part < RECORD_BYTES"
  shows "scan H i whole (chunks_exact RECORD_BYTES (journal H i body n @ part)) (0, 0, H []) =
    Inr (marks n * RECORD_BYTES, n, H (take n body))"
proof -
  have c: "chunks_exact RECORD_BYTES (journal H i body n @ part) = map (\<lambda>k. journal_record H i body (mark n k)) [0..<marks n]"
    unfolding journal_def by (rule chunks_exact_append) (use assms in auto)
  have "[0..<marks n] = 0 # [1..<marks n]" by (simp add: upt_conv_Cons)
  moreover have "mark n 0 = 0" by (simp add: mark_def)
  moreover have "from_be (take 8 (journal_record H i body 0)) = 0" "take 32 (drop 8 (journal_record H i body 0)) = H []"
      "checkpoint H i 0 (H []) = journal_record H i body 0"
    using assms(1) by (simp_all add: journal_record_def checkpoint_fields)
  moreover have "scan H i whole (map (\<lambda>k. journal_record H i body (mark n k)) [1..<marks n]) (1 * RECORD_BYTES, mark n (1 - 1), H (take (mark n (1 - 1)) body))
    = Inr (marks n * RECORD_BYTES, n, H (take n body))"
    by (rule scan_marks) (use assms marks_pos [of n] in \<open>auto simp: Suc_le_eq\<close>)
  ultimately show ?thesis unfolding c by (simp add: Let_def)
qed

lemma journal_grows:
  assumes "CHUNK_BYTES dvd n" and "n < e" and "e \<le> n + CHUNK_BYTES" and "take n body' = take n body"
  shows "journal H i body' e = journal H i body n @ checkpoint H i e (H (take e body'))"
proof -
  obtain q where q: "n = q * CHUNK_BYTES" using assms(1) by (auto simp: dvd_def mult.commute)
  have mn: "marks n = Suc q"
  proof (rule antisym)
    have "\<not> Suc q < marks n" unfolding less_marks by (simp add: q)
    then show "marks n \<le> Suc q" by simp
    have "q < marks n" unfolding less_marks using chunk_pos by (cases q) (simp_all add: q)
    then show "Suc q \<le> marks n" by simp
  qed
  have me: "marks e = Suc (Suc q)"
  proof (rule antisym)
    have "\<not> Suc (Suc q) < marks e" unfolding less_marks using assms(3) by (simp add: q)
    then show "marks e \<le> Suc (Suc q)" by simp
    have "Suc q < marks e" unfolding less_marks using assms(2) by (simp add: q)
    then show "Suc (Suc q) \<le> marks e" by simp
  qed
  have same: "mark e k = mark n k" "mark n k \<le> n" if "k < Suc q" for k
  proof -
    have "k * CHUNK_BYTES \<le> n" using that by (simp add: q)
    then show "mark e k = mark n k" "mark n k \<le> n" using assms(2) by (simp_all add: mark_def)
  qed
  have rec: "journal_record H i body' (mark e k) = journal_record H i body (mark n k)" if "k < Suc q" for k
  proof -
    have "take (mark n k) body' = take (mark n k) body"
      using same(2) [OF that] assms(4) by (metis min.absorb1 take_take)
    then show ?thesis using same(1) [OF that] by (simp add: journal_record_def)
  qed
  have "map (\<lambda>k. journal_record H i body' (mark e k)) [0..<Suc q] = map (\<lambda>k. journal_record H i body (mark n k)) [0..<Suc q]"
    by (rule map_cong) (use rec in auto)
  moreover have "mark e (Suc q) = e" using assms(3) by (simp add: mark_def q)
  moreover have "[0..<Suc (Suc q)] = [0..<Suc q] @ [Suc q]" by simp
  ultimately show ?thesis
    unfolding journal_def mn me by (simp only: map_append concat_append list.map concat.simps append_Nil2 journal_record_def)
qed

lemma marks_bound: "n \<le> MAX_BLOB_BYTES \<Longrightarrow> marks n \<le> MAX_RECORDS"
proof -
  assume n: "n \<le> MAX_BLOB_BYTES"
  have "\<not> 257 < marks n" unfolding less_marks using n by (simp add: MAX_BLOB_BYTES_def CHUNK_BYTES_def)
  then show ?thesis by (simp add: MAX_RECORDS_def MAX_BLOB_BYTES_def CHUNK_BYTES_def)
qed

lemma marks_bound_part: "n < MAX_BLOB_BYTES \<Longrightarrow> CHUNK_BYTES dvd n \<Longrightarrow> marks n < MAX_RECORDS"
proof -
  assume n: "n < MAX_BLOB_BYTES" and d: "CHUNK_BYTES dvd n"
  obtain q where q: "n = CHUNK_BYTES * q" using d by blast
  have "q < 256" using n by (simp add: q MAX_BLOB_BYTES_def CHUNK_BYTES_def)
  then have "\<not> 256 < marks n" unfolding less_marks by (simp add: q CHUNK_BYTES_def)
  then show ?thesis by (simp add: MAX_RECORDS_def MAX_BLOB_BYTES_def CHUNK_BYTES_def)
qed

end
