(* ===== verification/StagingStore.thy ===== *)
theory StagingStore
  imports Staging
begin

text \<open>
  \<open>TransferStore\<close> of \<open>crates/sync/src/transfer.rs\<close>: the private directory of stages, its quota, its two
  owner slots, the initializer a new stage is built in, and cancelling.  A stage is known by its
  32 byte id; its directory's name is that id in hex.  Every system call that can fail is a field of
  the operation's fault record; a crash is an operation that stops with its cleanup not begun and
  every sink gone.
\<close>

section \<open>The directory\<close>

text \<open>A stage directory, or \<open>.initializing\<close>: the files it has.\<close>

record files =
  fi_manifest :: "byte list option"
  fi_body :: "byte list option"
  fi_offsets :: "byte list option"

text \<open>
  \<open>xr_odd\<close>: the root has an entry that is not the gate, an owner file or a private stage directory;
  \<open>xr_init_odd\<close>: the initializer is linked, not private, or has a foreign entry.
\<close>

record xfer_root =
  xr_stages :: "(byte list \<times> files) list"
  xr_odd :: bool
  xr_init :: "files option"
  xr_init_odd :: bool

definition empty_root :: xfer_root where
  "empty_root = \<lparr>xr_stages = [], xr_odd = False, xr_init = None, xr_init_odd = False\<rparr>"

definition read_manifest :: "files \<Rightarrow> transfer_error + manifest" where
  "read_manifest f = (case fi_manifest f of None \<Rightarrow> Inl IoFailed | Some b \<Rightarrow> decode_manifest b)"

text \<open>Which files an unlinking that stopped had already removed.\<close>

type_synonym unlinked = "bool \<times> bool \<times> bool"

definition unlink_some :: "unlinked \<Rightarrow> files \<Rightarrow> files" where
  "unlink_some u f =
     (case u of (a, b, c) \<Rightarrow>
        \<lparr>fi_manifest = (if a then None else fi_manifest f), fi_body = (if b then None else fi_body f),
         fi_offsets = (if c then None else fi_offsets f)\<rparr>)"

section \<open>The initializer\<close>

definition over :: "nat \<Rightarrow> byte list option \<Rightarrow> bool" where
  "over limit b = (case b of None \<Rightarrow> False | Some bytes \<Rightarrow> length bytes > limit)"

definition initialization_entries :: "xfer_root \<Rightarrow> transfer_error + files option" where
  "initialization_entries x =
     (case xr_init x of
        None \<Rightarrow> Inr None
      | Some f \<Rightarrow>
          if xr_init_odd x then Inl (InvalidStage ''unknown initializer control'')
          else if over MAX_METADATA_BYTES (fi_manifest f) \<or> over 0 (fi_body f) \<or> over RECORD_BYTES (fi_offsets f)
            then Inl (InvalidStage ''initializer control exceeds its bound'')
          else Inr (Some f))"

definition clear_initialization :: "unlinked option \<Rightarrow> xfer_root \<Rightarrow> (transfer_error + unit) \<times> xfer_root" where
  "clear_initialization fault x =
     (case initialization_entries x of
        Inl e \<Rightarrow> (Inl e, x)
      | Inr None \<Rightarrow> (Inr (), x)
      | Inr (Some f) \<Rightarrow>
          (case fault of
             None \<Rightarrow> (Inr (), x\<lparr>xr_init := None\<rparr>)
           | Some u \<Rightarrow> (Inl IoFailed, x\<lparr>xr_init := Some (unlink_some u f)\<rparr>)))"

definition initialization_error :: "unlinked option \<Rightarrow> transfer_error \<Rightarrow> xfer_root \<Rightarrow> transfer_error \<times> xfer_root" where
  "initialization_error fault cause x =
     (case clear_initialization fault x of
        (Inr _, x') \<Rightarrow> (cause, x')
      | (Inl _, x') \<Rightarrow> (Cleanup cause, x'))"

text \<open>
  Where \<open>create_stage\<close> and \<open>initialize\<close> stop: at the mkdir, after so many bytes of the manifest, with the
  manifest written and no body, with an empty body, after so many bytes of the first checkpoint.
\<close>

datatype init_fault = NoInitFault | MkdirFault | ManifestFault nat | BodyCreateFault | OffsetsCreateFault | OffsetsFault nat

definition no_files :: files where
  "no_files = \<lparr>fi_manifest = None, fi_body = None, fi_offsets = None\<rparr>"

definition initialize :: "(byte list \<Rightarrow> byte list) \<Rightarrow> init_fault \<Rightarrow> manifest \<Rightarrow> byte list \<Rightarrow> (transfer_error + unit) \<times> files" where
  "initialize H fault m i =
     (let meta = encode_manifest m; initial = checkpoint H i 0 (H []) in
      case fault of
        ManifestFault k \<Rightarrow> (Inl IoFailed, no_files\<lparr>fi_manifest := Some (take k meta)\<rparr>)
      | BodyCreateFault \<Rightarrow> (Inl IoFailed, no_files\<lparr>fi_manifest := Some meta\<rparr>)
      | OffsetsCreateFault \<Rightarrow> (Inl IoFailed, no_files\<lparr>fi_manifest := Some meta, fi_body := Some []\<rparr>)
      | OffsetsFault k \<Rightarrow> (Inl IoFailed,
          no_files\<lparr>fi_manifest := Some meta, fi_body := Some [], fi_offsets := Some (take k initial)\<rparr>)
      | _ \<Rightarrow> (Inr (), no_files\<lparr>fi_manifest := Some meta, fi_body := Some [], fi_offsets := Some initial\<rparr>))"

definition create_stage ::
    "(byte list \<Rightarrow> byte list) \<Rightarrow> init_fault \<Rightarrow> unlinked option \<Rightarrow> manifest \<Rightarrow> byte list \<Rightarrow> xfer_root \<Rightarrow>
     (transfer_error + unit) \<times> xfer_root" where
  "create_stage H fault cleanup m i x =
     (if fault = MkdirFault \<or> xr_init x \<noteq> None then (Inl IoFailed, x)
      else case initialize H fault m i of
        (Inr _, f) \<Rightarrow> (Inr (), x\<lparr>xr_init := Some f\<rparr>)
      | (Inl e, f) \<Rightarrow>
          (case initialization_error cleanup e (x\<lparr>xr_init := Some f\<rparr>) of (e', x') \<Rightarrow> (Inl e', x')))"

text \<open>The check of the initializer and the rename that publishes it, which replaces nothing.\<close>

definition publish_stage :: "(byte list \<Rightarrow> byte list) \<Rightarrow> bool \<Rightarrow> manifest \<Rightarrow> byte list \<Rightarrow> xfer_root \<Rightarrow> transfer_error + xfer_root" where
  "publish_stage H ok m i x =
     and_then (initialization_entries x) (\<lambda>e.
       case e of
         None \<Rightarrow> Inl (InvalidStage ''initializer disappeared'')
       | Some f \<Rightarrow>
           if fi_manifest f = None \<or> fi_body f = None \<or> fi_offsets f = None
             then Inl (InvalidStage ''initializer binding changed'')
           else and_then (read_manifest f) (\<lambda>held.
             if held \<noteq> m \<or> fi_offsets f \<noteq> Some (checkpoint H i 0 (H []))
               then Inl (InvalidStage ''initializer binding changed'')
             else if \<not> ok \<or> map_of (xr_stages x) i \<noteq> None then Inl IoFailed
             else Inr (x\<lparr>xr_init := None, xr_stages := xr_stages x @ [(i, f)]\<rparr>)))"

record open_fault =
  of_gate :: bool
  of_clear :: "unlinked option"
  of_list :: bool
  of_owner :: "nat \<Rightarrow> bool"
  of_init :: init_fault
  of_publish :: bool
  of_cleanup :: "unlinked option"
  of_recover :: "nat \<Rightarrow> bool"
  of_claim :: bool

definition no_open_fault :: open_fault where
  "no_open_fault = \<lparr>of_gate = True, of_clear = None, of_list = True, of_owner = (\<lambda>_. True), of_init = NoInitFault,
     of_publish = True, of_cleanup = None, of_recover = (\<lambda>_. True), of_claim = True\<rparr>"

definition initialize_unpublished ::
    "(byte list \<Rightarrow> byte list) \<Rightarrow> open_fault \<Rightarrow> manifest \<Rightarrow> byte list \<Rightarrow> xfer_root \<Rightarrow> (transfer_error + unit) \<times> xfer_root" where
  "initialize_unpublished H fault m i x =
     (case create_stage H (of_init fault) (of_cleanup fault) m i x of
        (Inl e, x1) \<Rightarrow> (Inl e, x1)
      | (Inr _, x1) \<Rightarrow>
          (case publish_stage H (of_publish fault) m i x1 of
             Inr x2 \<Rightarrow> (Inr (), x2)
           | Inl e \<Rightarrow> (case initialization_error (of_cleanup fault) e x1 of (e', x2) \<Rightarrow> (Inl e', x2))))"

section \<open>Gate, quota, owners\<close>

text \<open>The gate lock, then the abandoned initializer cleared.\<close>

definition gate :: "bool \<Rightarrow> unlinked option \<Rightarrow> xfer_root \<Rightarrow> (transfer_error + unit) \<times> xfer_root" where
  "gate ok clear x = (if \<not> ok then (Inl Busy, x) else clear_initialization clear x)"

fun tally_stages :: "(byte list \<Rightarrow> byte list) \<Rightarrow> (byte list \<times> files) list \<Rightarrow> nat \<times> nat \<Rightarrow> transfer_error + nat \<times> nat" where
  "tally_stages H [] acc = Inr acc"
| "tally_stages H ((name, f) # rest) (bytes, n) =
     and_then (read_manifest f) (\<lambda>m.
       and_then (manifest_id H m) (\<lambda>i.
         if i \<noteq> name then Inl (InvalidStage ''stage id does not bind manifest'')
         else if bytes + total_bytes m > u64_max then Inl (ResourceLimit ''reservation overflow'')
         else if Suc n > MAX_RETAINED_STAGES then Inl (ResourceLimit ''retained stages exceed 64'')
         else tally_stages H rest (bytes + total_bytes m, Suc n)))"

text \<open>What is reserved and how many stages there are.\<close>

definition reservations :: "(byte list \<Rightarrow> byte list) \<Rightarrow> bool \<Rightarrow> xfer_root \<Rightarrow> transfer_error + nat \<times> nat" where
  "reservations H ok x =
     (if \<not> ok then Inl IoFailed
      else if xr_odd x then Inl (InvalidStage ''unexpected root entry; explicit reconciliation required'')
      else and_then (tally_stages H (xr_stages x) (0, 0)) (\<lambda>(bytes, n).
        if bytes > MAX_RESERVED_BYTES then Inl (ResourceLimit ''retained stages exceed 128 MiB'')
        else Inr (bytes, n)))"

definition reserved_bytes ::
    "(byte list \<Rightarrow> byte list) \<Rightarrow> bool \<Rightarrow> unlinked option \<Rightarrow> bool \<Rightarrow> xfer_root \<Rightarrow> (transfer_error + nat) \<times> xfer_root" where
  "reserved_bytes H ok clear listing x =
     (case gate ok clear x of
        (Inl e, x1) \<Rightarrow> (Inl e, x1)
      | (Inr _, x1) \<Rightarrow> (and_then (reservations H listing x1) (\<lambda>(bytes, n). Inr bytes), x1))"

text \<open>The slots in order: the first free one, unless some slot is at work on this very stage;
  \<open>ok\<close> says whose lock file can be opened.\<close>

fun pick_owner :: "(nat \<Rightarrow> bool) \<Rightarrow> byte list \<Rightarrow> (nat \<Rightarrow> byte list option) \<Rightarrow> nat list \<Rightarrow> nat option \<Rightarrow> transfer_error + nat" where
  "pick_owner ok i owners [] found =
     (case found of None \<Rightarrow> Inl (ResourceLimit ''two transfer owners are already active'') | Some s \<Rightarrow> Inr s)"
| "pick_owner ok i owners (s # rest) found =
     (case owners s of
        Some active \<Rightarrow> if active = i then Inl Busy else pick_owner ok i owners rest found
      | None \<Rightarrow> if \<not> ok s then Inl IoFailed else pick_owner ok i owners rest (if found = None then Some s else found))"

definition available_owner :: "(nat \<Rightarrow> bool) \<Rightarrow> byte list \<Rightarrow> (nat \<Rightarrow> byte list option) \<Rightarrow> transfer_error + nat" where
  "available_owner ok i owners = pick_owner ok i owners [0..<MAX_OWNERS] None"

section \<open>Opening and cancelling\<close>

definition put_files :: "byte list \<Rightarrow> files \<Rightarrow> xfer_root \<Rightarrow> xfer_root" where
  "put_files i f x = x\<lparr>xr_stages := map (\<lambda>(j, g). (j, if j = i then f else g)) (xr_stages x)\<rparr>"

text \<open>The end of \<open>open_stage\<close>: the manifest once more, the files, the recovery, the owner's name.\<close>

definition take_up ::
    "(byte list \<Rightarrow> byte list) \<Rightarrow> open_fault \<Rightarrow> manifest \<Rightarrow> byte list \<Rightarrow> nat \<Rightarrow> xfer_root \<Rightarrow>
     (transfer_error + (nat \<times> sink) option) \<times> xfer_root" where
  "take_up H fault m i slot x =
     (case map_of (xr_stages x) i of
        None \<Rightarrow> (Inl IoFailed, x)
      | Some f \<Rightarrow>
          (case read_manifest f of
             Inl e \<Rightarrow> (Inl e, x)
           | Inr held \<Rightarrow>
               if held \<noteq> m then (Inl (InvalidStage ''manifest changed''), x)
               else
                 (case (fi_body f, fi_offsets f) of
                    (Some body, Some offsets) \<Rightarrow>
                      (case recover_stage H (of_recover fault) i (total_bytes m)
                          \<lparr>sg_manifest = encode_manifest m, sg_body = body, sg_offsets = offsets\<rparr> of
                         (r, sg) \<Rightarrow>
                           let x' = put_files i (f\<lparr>fi_body := Some (sg_body sg), fi_offsets := Some (sg_offsets sg)\<rparr>) x in
                           (case r of
                              Inl e \<Rightarrow> (Inl e, x')
                            | Inr (offset, hashed) \<Rightarrow>
                                if \<not> of_claim fault then (Inl IoFailed, x')
                                else (Inr (Some (slot, \<lparr>sk_manifest = m, sk_id = i, sk_offset = offset,
                                  sk_hashed = hashed, sk_poisoned = False\<rparr>)), x')))
                  | _ \<Rightarrow> (Inl IoFailed, x))))"

definition open_stage ::
    "(byte list \<Rightarrow> byte list) \<Rightarrow> open_fault \<Rightarrow> manifest \<Rightarrow> bool \<Rightarrow> (nat \<Rightarrow> byte list option) \<Rightarrow> xfer_root \<Rightarrow>
     (transfer_error + (nat \<times> sink) option) \<times> xfer_root" where
  "open_stage H fault m create_missing owners x =
     (case manifest_id H m of
        Inl e \<Rightarrow> (Inl e, x)
      | Inr i \<Rightarrow>
          (case gate (of_gate fault) (of_clear fault) x of
             (Inl e, x1) \<Rightarrow> (Inl e, x1)
           | (Inr _, x1) \<Rightarrow>
               (case reservations H (of_list fault) x1 of
                  Inl e \<Rightarrow> (Inl e, x1)
                | Inr (reserved, n) \<Rightarrow>
                    let exists = map_of (xr_stages x1) i \<noteq> None in
                    if \<not> exists \<and> \<not> create_missing then (Inr None, x1)
                    else if \<not> exists \<and> reserved + total_bytes m > MAX_RESERVED_BYTES
                      then (Inl (ResourceLimit ''retained stages would exceed 128 MiB''), x1)
                    else if \<not> exists \<and> n \<ge> MAX_RETAINED_STAGES
                      then (Inl (ResourceLimit ''64 retained stages are already reserved''), x1)
                    else
                      (case available_owner (of_owner fault) i owners of
                         Inl e \<Rightarrow> (Inl e, x1)
                       | Inr slot \<Rightarrow>
                           if exists then take_up H fault m i slot x1
                           else
                             (case initialize_unpublished H fault m i x1 of
                                (Inl e, x2) \<Rightarrow> (Inl e, x2)
                              | (Inr _, x2) \<Rightarrow> take_up H fault m i slot x2)))))"

definition receive_stage ::
    "(byte list \<Rightarrow> byte list) \<Rightarrow> open_fault \<Rightarrow> manifest \<Rightarrow> (nat \<Rightarrow> byte list option) \<Rightarrow> xfer_root \<Rightarrow>
     (transfer_error + nat \<times> sink) \<times> xfer_root" where
  "receive_stage H fault m owners x =
     (case open_stage H fault m True owners x of
        (r, x') \<Rightarrow> (and_then r (\<lambda>s.
          case s of None \<Rightarrow> Inl (InvalidStage ''new stage was not initialized'') | Some ss \<Rightarrow> Inr ss), x'))"

definition open_existing ::
    "(byte list \<Rightarrow> byte list) \<Rightarrow> open_fault \<Rightarrow> manifest \<Rightarrow> (nat \<Rightarrow> byte list option) \<Rightarrow> xfer_root \<Rightarrow>
     (transfer_error + (nat \<times> sink) option) \<times> xfer_root" where
  "open_existing H fault m owners x =
     (case validate m of Inl e \<Rightarrow> (Inl e, x) | Inr _ \<Rightarrow> open_stage H fault m False owners x)"

datatype cancelled = Removed | Absent

record cancel_fault =
  cf_gate :: bool
  cf_clear :: "unlinked option"
  cf_owner :: "nat \<Rightarrow> bool"
  cf_unlinked :: "unlinked option"

definition cancel_stage ::
    "(byte list \<Rightarrow> byte list) \<Rightarrow> cancel_fault \<Rightarrow> manifest \<Rightarrow> (nat \<Rightarrow> byte list option) \<Rightarrow> xfer_root \<Rightarrow>
     (transfer_error + cancelled) \<times> xfer_root" where
  "cancel_stage H fault m owners x =
     (case manifest_id H m of
        Inl e \<Rightarrow> (Inl e, x)
      | Inr i \<Rightarrow>
          (case gate (cf_gate fault) (cf_clear fault) x of
             (Inl e, x1) \<Rightarrow> (Inl e, x1)
           | (Inr _, x1) \<Rightarrow>
               (case available_owner (cf_owner fault) i owners of
                  Inl e \<Rightarrow> (Inl e, x1)
                | Inr _ \<Rightarrow>
                    (case map_of (xr_stages x1) i of
                       None \<Rightarrow> (Inr Absent, x1)
                     | Some f \<Rightarrow>
                         (case read_manifest f of
                            Inl e \<Rightarrow> (Inl e, x1)
                          | Inr held \<Rightarrow>
                              if held \<noteq> m then (Inl (InvalidStage ''cancel manifest changed''), x1)
                              else
                                (case cf_unlinked fault of
                                   None \<Rightarrow> (Inr Removed, x1\<lparr>xr_stages := filter (\<lambda>(j, g). j \<noteq> i) (xr_stages x1)\<rparr>)
                                 | Some u \<Rightarrow> (Inl IoFailed, put_files i (unlink_some u f) x1)))))))"

section \<open>The store and its sinks\<close>

record xfer_world =
  xw_root :: xfer_root
  xw_sinks :: "nat \<Rightarrow> sink option"

definition owners_of :: "xfer_world \<Rightarrow> nat \<Rightarrow> byte list option" where
  "owners_of w s = map_option sk_id (xw_sinks w s)"

definition new_world :: xfer_world where
  "new_world = \<lparr>xw_root = empty_root, xw_sinks = (\<lambda>_. None)\<rparr>"

definition bytes_of :: "byte list option \<Rightarrow> byte list" where
  "bytes_of b = (case b of None \<Rightarrow> [] | Some bytes \<Rightarrow> bytes)"

text \<open>The open files of a sink, and what an append leaves in them.\<close>

definition sink_files :: "xfer_world \<Rightarrow> sink \<Rightarrow> stage" where
  "sink_files w sk =
     (case map_of (xr_stages (xw_root w)) (sk_id sk) of
        Some f \<Rightarrow> \<lparr>sg_manifest = bytes_of (fi_manifest f), sg_body = bytes_of (fi_body f),
          sg_offsets = bytes_of (fi_offsets f)\<rparr>
      | None \<Rightarrow> \<lparr>sg_manifest = [], sg_body = [], sg_offsets = []\<rparr>)"

datatype xfer_act =
    Receive open_fault manifest
  | OpenExisting open_fault manifest
  | Reserved bool "unlinked option" bool
  | Append nat append_fault nat "byte list"
  | DropSink nat
  | Cancel cancel_fault manifest
  | Crash

definition append_at ::
    "(byte list \<Rightarrow> byte list) \<Rightarrow> append_fault \<Rightarrow> nat \<Rightarrow> nat \<Rightarrow> byte list \<Rightarrow> xfer_world \<Rightarrow>
     (transfer_error + progress) option \<times> xfer_world" where
  "append_at H fault slot at bytes w =
     (case xw_sinks w slot of
        None \<Rightarrow> (None, w)
      | Some sk \<Rightarrow>
          (case append_chunk H fault at bytes (sk, sink_files w sk) of
             (r, sk', sg) \<Rightarrow>
               (Some r, w\<lparr>xw_sinks := (xw_sinks w)(slot := Some sk'),
                  xw_root := put_files (sk_id sk)
                    \<lparr>fi_manifest = Some (sg_manifest sg), fi_body = Some (sg_body sg), fi_offsets = Some (sg_offsets sg)\<rparr>
                    (xw_root w)\<rparr>)))"

fun xfer_step :: "(byte list \<Rightarrow> byte list) \<Rightarrow> xfer_world \<Rightarrow> xfer_act \<Rightarrow> xfer_world" where
  "xfer_step H w (Receive fault m) =
     (case receive_stage H fault m (owners_of w) (xw_root w) of
        (Inr (slot, sk), x) \<Rightarrow> w\<lparr>xw_root := x, xw_sinks := (xw_sinks w)(slot := Some sk)\<rparr>
      | (Inl _, x) \<Rightarrow> w\<lparr>xw_root := x\<rparr>)"
| "xfer_step H w (OpenExisting fault m) =
     (case open_existing H fault m (owners_of w) (xw_root w) of
        (Inr (Some (slot, sk)), x) \<Rightarrow> w\<lparr>xw_root := x, xw_sinks := (xw_sinks w)(slot := Some sk)\<rparr>
      | (_, x) \<Rightarrow> w\<lparr>xw_root := x\<rparr>)"
| "xfer_step H w (Reserved ok clear listing) = w\<lparr>xw_root := snd (reserved_bytes H ok clear listing (xw_root w))\<rparr>"
| "xfer_step H w (Append slot fault at bytes) = snd (append_at H fault slot at bytes w)"
| "xfer_step H w (DropSink slot) = w\<lparr>xw_sinks := (xw_sinks w)(slot := None)\<rparr>"
| "xfer_step H w (Cancel fault m) = w\<lparr>xw_root := snd (cancel_stage H fault m (owners_of w) (xw_root w))\<rparr>"
| "xfer_step H w Crash = w\<lparr>xw_sinks := (\<lambda>_. None)\<rparr>"

end
