(* ===== verification/StagingKeeps.thy ===== *)
theory StagingKeeps
  imports StagingFacts StagingStore
begin

text \<open>
  The invariant of the staging directory and its sinks: every stage holds a body, of which the
  journal vouches for a prefix of whole chunks, and every step but the stage's own cancelling keeps
  that prefix.
\<close>

section \<open>One stage\<close>

text \<open>The stage of \<open>m\<close> has stored \<open>n\<close> bytes.\<close>

definition stage_stores :: "(byte list \<Rightarrow> byte list) \<Rightarrow> byte list \<Rightarrow> manifest \<Rightarrow> byte list \<Rightarrow> byte list \<Rightarrow> nat \<Rightarrow> bool" where
  "stage_stores H i m body offsets n \<longleftrightarrow>
     manifest_ok m \<and> H (encode_manifest m) = i \<and> n \<le> length body \<and> length body \<le> total_bytes m \<and>
     full_mark (total_bytes m) n \<and>
     (\<exists>part. offsets = journal H i body n @ part \<and> length part < RECORD_BYTES \<and> (part = [] \<or> n < total_bytes m))"

text \<open>A sink at work: what it hashed is the whole body, and the journal is at it.\<close>

definition sink_at :: "(byte list \<Rightarrow> byte list) \<Rightarrow> sink \<Rightarrow> byte list \<Rightarrow> byte list \<Rightarrow> bool" where
  "sink_at H sk body offsets \<longleftrightarrow>
     sk_hashed sk = body \<and> sk_offset sk = length body \<and> offsets = journal H (sk_id sk) body (length body) \<and>
     full_mark (total_bytes (sk_manifest sk)) (length body)"

lemma journal_cong: "take n body' = take n body \<Longrightarrow> journal H i body' n = journal H i body n"
proof -
  assume t: "take n body' = take n body"
  have "take (mark n k) body' = take (mark n k) body" for k
    using t by (metis mark_def min.cobounded2 min.absorb1 take_take)
  then show ?thesis by (simp add: journal_def journal_record_def)
qed

lemma journal_budget:
  assumes "hash_len H" and "stage_stores H i m body offsets n"
  shows "length offsets \<le> MAX_RECORDS * RECORD_BYTES"
proof -
  obtain part where o': "offsets = journal H i body n @ part" "length part < RECORD_BYTES"
      "part = [] \<or> n < total_bytes m"
    using assms(2) by (auto simp: stage_stores_def)
  have whole: "total_bytes m \<le> MAX_BLOB_BYTES" and full: "full_mark (total_bytes m) n"
    using assms(2) by (simp_all add: stage_stores_def manifest_ok_def validate_Inr)
  have n: "n \<le> MAX_BLOB_BYTES" using full whole by (simp add: full_mark_def)
  show ?thesis
  proof (cases "part = []")
    case True
    then show ?thesis using o'(1) marks_bound [OF n] assms(1) by (simp add: journal_length)
  next
    case False
    then have "n < total_bytes m" using o'(3) by simp
    then have "Suc (marks n) \<le> MAX_RECORDS"
      using marks_bound_part [of n] full whole by (auto simp: full_mark_def)
    then have "Suc (marks n) * RECORD_BYTES \<le> MAX_RECORDS * RECORD_BYTES" by (rule mult_le_mono1)
    then show ?thesis using o'(1,2) assms(1) by (simp add: journal_length)
  qed
qed

lemma stage_stores_u64: "stage_stores H i m body offsets n \<Longrightarrow> n \<le> u64_max"
  by (auto simp: stage_stores_def manifest_ok_def validate_Inr full_mark_def MAX_BLOB_BYTES_def u64_max_def)

lemma stage_stores_cut:
  assumes "stage_stores H i m body offsets n" and "n \<le> k" and "k \<le> length body"
  shows "stage_stores H i m (take k body) offsets n" "take n (take k body) = take n body"
proof -
  have t: "take n (take k body) = take n body" using assms(2) by (simp add: min_def)
  then show "take n (take k body) = take n body" .
  show "stage_stores H i m (take k body) offsets n"
    using assms journal_cong [OF t, of H i] by (auto simp: stage_stores_def)
qed

lemma recover_scans:
  assumes "hash_len H" and "stage_stores H i m body offsets n"
  shows "scan H i (total_bytes m) (chunks_exact RECORD_BYTES offsets) (0, 0, H []) =
    Inr (marks n * RECORD_BYTES, n, H (take n body))"
    "take (marks n * RECORD_BYTES) offsets = journal H i body n"
proof -
  obtain part where o': "offsets = journal H i body n @ part" "length part < RECORD_BYTES"
    using assms(2) by (auto simp: stage_stores_def)
  have full: "full_mark (total_bytes m) n" using assms(2) by (simp add: stage_stores_def)
  show "scan H i (total_bytes m) (chunks_exact RECORD_BYTES offsets) (0, 0, H []) =
    Inr (marks n * RECORD_BYTES, n, H (take n body))"
    unfolding o'(1) by (rule scan_journal) (use assms(1) o'(2) full stage_stores_u64 [OF assms(2)] in auto)
  show "take (marks n * RECORD_BYTES) offsets = journal H i body n"
    using assms(1) by (simp add: o'(1) journal_length)
qed

lemma stage_stores_journal:
  "stage_stores H i m body offsets n \<Longrightarrow> stage_stores H i m (take n body) (journal H i body n) n"
  using journal_cong [of n "take n body" body H i] by (auto simp: stage_stores_def)

lemma recover_keeps:
  assumes "hash_len H" and "stage_stores H i m (sg_body sg) (sg_offsets sg) n"
    and "recover_stage H io i (total_bytes m) sg = (r, sg')"
  shows "stage_stores H i m (sg_body sg') (sg_offsets sg') n \<and> take n (sg_body sg') = take n (sg_body sg) \<and>
    (case r of Inl _ \<Rightarrow> \<not> (\<forall>k. io k) | Inr (offset, hashed) \<Rightarrow> offset = n \<and> hashed = take n (sg_body sg) \<and>
       sg_body sg' = take n (sg_body sg) \<and> sg_offsets sg' = journal H i (sg_body sg) n)"
proof -
  note sc = recover_scans [OF assms(1,2)] and jb = journal_budget [OF assms(1,2)]
  have len: "n \<le> length (sg_body sg)" using assms(2) by (simp add: stage_stores_def)
  have pos: "marks n \<noteq> 0" "RECORD_BYTES \<noteq> 0" by (simp_all only: neq0_conv marks_pos record_pos)
  have cut: "stage_stores H i m (take n (sg_body sg)) (sg_offsets sg) n"
    using stage_stores_cut(1) [OF assms(2) order_refl len] .
  have jr: "stage_stores H i m (take n (sg_body sg)) (journal H i (sg_body sg) n) n"
    using stage_stores_journal [OF assms(2)] .
  have "recover_stage H io i (total_bytes m) sg =
     (if \<not> io 0 \<or> \<not> io 1 \<or> \<not> io 2 then (Inl IoFailed, sg)
      else if \<not> io 3 \<or> \<not> io 4 then (Inl IoFailed, sg\<lparr>sg_body := take n (sg_body sg)\<rparr>)
      else let sg2 = sg\<lparr>sg_body := take n (sg_body sg), sg_offsets := journal H i (sg_body sg) n\<rparr> in
        if \<not> io 5 then (Inl IoFailed, sg2) else (Inr (n, take n (sg_body sg)), sg2))"
    unfolding recover_stage_def sc(1) using jb len by (simp add: sc(2) pos Let_def)
  then show ?thesis
    using assms(2,3) cut jr by (auto simp: Let_def split: if_splits)
qed

section \<open>One append\<close>

lemma write_at_end: "length body = n \<Longrightarrow> write_at n bytes body = body @ bytes"
  by (simp add: write_at_def)

lemma stage_stores_appends:
  assumes "hash_len H" and st: "stage_stores H i m body (journal H i body n) n" and n: "length body = n"
    and bytes: "bytes \<noteq> []" "length bytes \<le> CHUNK_BYTES" "n + length bytes \<le> total_bytes m"
      "n + length bytes = total_bytes m \<or> length bytes = CHUNK_BYTES"
  shows "stage_stores H i m (body @ take k bytes) (journal H i body n) n"
    and "k < RECORD_BYTES \<Longrightarrow>
      stage_stores H i m (body @ bytes) (journal H i body n @ take k (checkpoint H i (n + length bytes) (H (body @ bytes)))) n"
    and "journal H i (body @ bytes) (n + length bytes) = journal H i body n @ checkpoint H i (n + length bytes) (H (body @ bytes))"
    and "stage_stores H i m (body @ bytes) (journal H i (body @ bytes) (n + length bytes)) (n + length bytes)"
proof -
  have less: "n < total_bytes m" using bytes(1,3) by (cases bytes) simp_all
  have dvd: "CHUNK_BYTES dvd n" using st less by (simp add: stage_stores_def full_mark_def)
  have j: "journal H i (body @ xs) n = journal H i body n" for xs
    by (rule journal_cong) (simp add: n)
  show "stage_stores H i m (body @ take k bytes) (journal H i body n) n"
    using st j [of "take k bytes"] bytes(3) n by (auto simp: stage_stores_def)
  show "stage_stores H i m (body @ bytes) (journal H i body n @ take k (checkpoint H i (n + length bytes) (H (body @ bytes)))) n"
    if "k < RECORD_BYTES"
    using st j [of bytes] bytes(3) n less that
    by (auto simp: stage_stores_def intro!: exI [of _ "take k (checkpoint H i (n + length bytes) (H (body @ bytes)))"])
  show grow: "journal H i (body @ bytes) (n + length bytes) = journal H i body n @ checkpoint H i (n + length bytes) (H (body @ bytes))"
    using journal_grows [OF dvd, of "n + length bytes" "body @ bytes" body H i] bytes(1,2) n by simp
  have "full_mark (total_bytes m) (n + length bytes)"
    using bytes(3,4) dvd by (auto simp: full_mark_def)
  then show "stage_stores H i m (body @ bytes) (journal H i (body @ bytes) (n + length bytes)) (n + length bytes)"
    using st bytes(3) n by (simp add: stage_stores_def)
qed

lemma stage_stores_unique:
  assumes "hash_len H" and "stage_stores H i m body offsets n" and "stage_stores H i m body offsets n'"
  shows "n = n'"
  using recover_scans(1) [OF assms(1,2)] recover_scans(1) [OF assms(1,3)] by simp

lemma sink_at_stores:
  assumes "hash_len H" and "stage_stores H i m body offsets n" and "sk_id sk = i" and "sk_manifest sk = m"
    and "sink_at H sk body offsets"
  shows "n = length body"
proof -
  have "stage_stores H i m body offsets (length body)"
    using assms(2-5) by (auto simp: stage_stores_def sink_at_def)
  with assms(1,2) show ?thesis by (rule stage_stores_unique)
qed

text \<open>Every way an append can end: nothing written, the body torn, the journal torn, all of it written.\<close>

lemma append_ends:
  assumes "append_chunk H fault at bytes (sk, sg) = (r, sk', sg')"
  obtains (unwritten) "sk' = sk" "sg' = sg"
      "\<not> sk_poisoned sk \<Longrightarrow> (\<exists>p. r = Inr p) \<Longrightarrow> at + length bytes \<le> sk_offset sk \<and> take (length bytes) (drop at (sg_body sg)) = bytes"
  | (written) r' where "\<not> sk_poisoned sk" "at = sk_offset sk" "bytes \<noteq> []" "length bytes \<le> CHUNK_BYTES"
      "at + length bytes \<le> total_bytes (sk_manifest sk)"
      "at + length bytes = total_bytes (sk_manifest sk) \<or> length bytes = CHUNK_BYTES"
      "r' = checkpoint H (sk_id sk) (at + length bytes) (H (sk_hashed sk @ bytes))"
      "(\<exists>k. r = Inl IoFailed \<and> sk' = sk\<lparr>sk_poisoned := True\<rparr> \<and> sg' = sg\<lparr>sg_body := write_at at (take k bytes) (sg_body sg)\<rparr>) \<or>
       (\<exists>k. r = Inl IoFailed \<and> sk' = sk\<lparr>sk_poisoned := True\<rparr> \<and> sg' = sg\<lparr>sg_body := write_at at bytes (sg_body sg),
          sg_offsets := sg_offsets sg @ take k r'\<rparr>) \<or>
       (sk' = sk\<lparr>sk_offset := at + length bytes, sk_hashed := sk_hashed sk @ bytes\<rparr> \<and>
        sg' = sg\<lparr>sg_body := write_at at bytes (sg_body sg), sg_offsets := sg_offsets sg @ r'\<rparr>)"
proof (cases "sk_poisoned sk \<or> at > sk_offset sk \<or> length bytes > CHUNK_BYTES \<or> at + length bytes > u64_max \<or>
    at + length bytes > total_bytes (sk_manifest sk) \<or>
    (at + length bytes \<noteq> total_bytes (sk_manifest sk) \<and> length bytes \<noteq> CHUNK_BYTES) \<or> bytes = [] \<or> at < sk_offset sk")
  case True
  show ?thesis
    by (rule unwritten) (use assms True in \<open>auto simp: append_chunk_def Let_def split: if_splits\<close>)
next
  case False
  show ?thesis
    by (rule written [OF _ _ _ _ _ _ refl])
      (use assms False in \<open>auto simp: append_chunk_def Let_def split: append_fault.splits\<close>)
qed

lemma append_keeps:
  assumes H: "hash_len H" and st: "stage_stores H i m (sg_body sg) (sg_offsets sg) n"
    and sk: "sk_id sk = i" "sk_manifest sk = m" "\<not> sk_poisoned sk \<Longrightarrow> sink_at H sk (sg_body sg) (sg_offsets sg)"
    and ap: "append_chunk H fault at bytes (sk, sg) = (r, sk', sg')"
  shows "\<exists>n'\<ge>n. stage_stores H i m (sg_body sg') (sg_offsets sg') n' \<and> take n (sg_body sg') = take n (sg_body sg) \<and>
    sg_manifest sg' = sg_manifest sg \<and> sk_id sk' = i \<and> sk_manifest sk' = m \<and>
    (\<not> sk_poisoned sk' \<longrightarrow> sink_at H sk' (sg_body sg') (sg_offsets sg'))"
  using ap
proof (cases rule: append_ends)
  case unwritten
  then show ?thesis using st sk by auto
next
  case (written r')
  have at: "sink_at H sk (sg_body sg) (sg_offsets sg)" using sk(3) written(1) .
  have n: "n = length (sg_body sg)" by (rule sink_at_stores [OF H st sk(1,2) at])
  have pos: "at = n" and offs: "sg_offsets sg = journal H i (sg_body sg) n" and hd: "sk_hashed sk = sg_body sg"
    using at sk(1) written(2) n by (simp_all add: sink_at_def)
  have st': "stage_stores H i m (sg_body sg) (journal H i (sg_body sg) n) n" using st offs by simp
  have w: "write_at at xs (sg_body sg) = sg_body sg @ xs" for xs by (rule write_at_end) (simp add: pos n)
  have r': "r' = checkpoint H i (n + length bytes) (H (sg_body sg @ bytes))" using written(7) sk(1) pos hd by simp
  note ends = stage_stores_appends [OF H st' n [symmetric] written(3,4), unfolded sk(2) [symmetric] pos [symmetric], OF written(5,6)]
  have all: "stage_stores H i m (sg_body sg @ bytes) (sg_offsets sg @ r') (n + length bytes)"
    using ends(3,4) r' offs sk(2) pos by simp
  consider (body) k where "sk' = sk\<lparr>sk_poisoned := True\<rparr>" "sg' = sg\<lparr>sg_body := sg_body sg @ take k bytes\<rparr>"
    | (journal) k where "sk' = sk\<lparr>sk_poisoned := True\<rparr>"
        "sg' = sg\<lparr>sg_body := sg_body sg @ bytes, sg_offsets := sg_offsets sg @ take k r'\<rparr>"
    | (all) "sk' = sk\<lparr>sk_offset := at + length bytes, sk_hashed := sk_hashed sk @ bytes\<rparr>"
        "sg' = sg\<lparr>sg_body := sg_body sg @ bytes, sg_offsets := sg_offsets sg @ r'\<rparr>"
    using written(8) w by auto
  then show ?thesis
  proof cases
    case body
    then show ?thesis using ends(1) [of k] offs sk n pos by (intro exI [of _ n]) simp
  next
    case (journal k)
    show ?thesis
    proof (cases "k < RECORD_BYTES")
      case True
      then show ?thesis using ends(2) [of k] offs sk n pos journal r' by (intro exI [of _ n]) simp
    next
      case False
      have "length r' = RECORD_BYTES" using r' H by (simp add: checkpoint_length)
      then have "take k r' = r'" using False by simp
      then show ?thesis using all sk n journal by (intro exI [of _ "n + length bytes"]) simp
    qed
  next
    case all': all
    have "sink_at H sk' (sg_body sg') (sg_offsets sg')"
      using all' all ends(3) r' offs sk hd pos n by (simp add: sink_at_def stage_stores_def)
    then show ?thesis using all all' sk n by (intro exI [of _ "n + length bytes"]) simp
  qed
qed

text \<open>An append that answers has its bytes in the body, below the sink's offset.\<close>

lemma append_answers:
  assumes "\<not> sk_poisoned sk" and "sk_offset sk = length (sg_body sg)"
    and "append_chunk H fault at bytes (sk, sg) = (Inr p, sk', sg')"
  shows "\<not> sk_poisoned sk' \<and> at + length bytes \<le> sk_offset sk' \<and> take (length bytes) (drop at (sg_body sg')) = bytes"
  using assms(3)
proof (cases rule: append_ends)
  case unwritten
  then show ?thesis using assms(1) by auto
next
  case (written r')
  then show ?thesis using assms(1,2) by (auto simp: write_at_end)
qed

end
