(* ===== verification/StagingRuns.thy ===== *)
theory StagingRuns
  imports StagingKeeps
begin

text \<open>
  The staging directory as a whole: what its invariant is, and that opening, cancelling, appending,
  dropping and crashing keep it, with every stage's acknowledged bytes.
\<close>

section \<open>The invariant\<close>

definition holds :: "(byte list \<Rightarrow> byte list) \<Rightarrow> byte list \<Rightarrow> files \<Rightarrow> manifest \<Rightarrow> nat \<Rightarrow> bool" where
  "holds H i f m n \<longleftrightarrow> fi_manifest f = Some (encode_manifest m) \<and> fi_body f \<noteq> None \<and> fi_offsets f \<noteq> None \<and>
     stage_stores H i m (bytes_of (fi_body f)) (bytes_of (fi_offsets f)) n"

text \<open>An interrupted cancelling leaves a stage without one of its files.\<close>

definition torn :: "files \<Rightarrow> bool" where
  "torn f \<longleftrightarrow> fi_manifest f = None \<or> fi_body f = None \<or> fi_offsets f = None"

definition weight :: "files \<Rightarrow> nat" where
  "weight f = (case read_manifest f of Inr m \<Rightarrow> total_bytes m | Inl _ \<Rightarrow> length (bytes_of (fi_body f)))"

definition files_ok :: "(byte list \<Rightarrow> byte list) \<Rightarrow> byte list \<times> files \<Rightarrow> bool" where
  "files_ok H e = ((torn (snd e) \<or> (\<exists>m n. holds H (fst e) (snd e) m n)) \<and> length (bytes_of (fi_body (snd e))) \<le> weight (snd e))"

definition stages_ok :: "(byte list \<Rightarrow> byte list) \<Rightarrow> (byte list \<times> files) list \<Rightarrow> bool" where
  "stages_ok H st \<longleftrightarrow> distinct (map fst st) \<and> (\<forall>e \<in> set st. files_ok H e) \<and>
     sum_list (map (\<lambda>e. weight (snd e)) st) \<le> MAX_RESERVED_BYTES \<and> length st \<le> MAX_RETAINED_STAGES"

definition init_ok :: "xfer_root \<Rightarrow> bool" where
  "init_ok x \<longleftrightarrow> \<not> xr_odd x \<and> \<not> xr_init_odd x \<and> initialization_entries x = Inr (xr_init x)"

definition sink_fine :: "(byte list \<Rightarrow> byte list) \<Rightarrow> (byte list \<times> files) list \<Rightarrow> sink \<Rightarrow> bool" where
  "sink_fine H st sk \<longleftrightarrow> (\<exists>f n. map_of st (sk_id sk) = Some f \<and> holds H (sk_id sk) f (sk_manifest sk) n \<and>
     (\<not> sk_poisoned sk \<longrightarrow> sink_at H sk (bytes_of (fi_body f)) (bytes_of (fi_offsets f))))"

definition xfer_ok :: "(byte list \<Rightarrow> byte list) \<Rightarrow> xfer_world \<Rightarrow> bool" where
  "xfer_ok H w \<longleftrightarrow> stages_ok H (xr_stages (xw_root w)) \<and> init_ok (xw_root w) \<and>
     (\<forall>s sk. xw_sinks w s = Some sk \<longrightarrow> s < MAX_OWNERS \<and> sink_fine H (xr_stages (xw_root w)) sk) \<and>
     (\<forall>s t sk sk'. xw_sinks w s = Some sk \<longrightarrow> xw_sinks w t = Some sk' \<longrightarrow> sk_id sk = sk_id sk' \<longrightarrow> s = t)"

text \<open>The stage of \<open>i\<close> still vouches for the first \<open>n\<close> bytes, which are \<open>pre\<close>.\<close>

definition vouches :: "(byte list \<Rightarrow> byte list) \<Rightarrow> byte list \<Rightarrow> manifest \<Rightarrow> nat \<Rightarrow> byte list \<Rightarrow> (byte list \<times> files) list \<Rightarrow> bool" where
  "vouches H i m n pre st \<longleftrightarrow>
     (\<exists>f n'. map_of st i = Some f \<and> holds H i f m n' \<and> n \<le> n' \<and> take n (bytes_of (fi_body f)) = pre)"

section \<open>Files\<close>

lemma holds_read: "holds H i f m n \<Longrightarrow> read_manifest f = Inr m"
  by (simp add: holds_def read_manifest_def stage_stores_def decode_encode)

lemma holds_same: "holds H i f m n \<Longrightarrow> holds H i f m' n' \<Longrightarrow> m' = m"
  by (drule holds_read, drule holds_read) simp

lemma holds_weight: "holds H i f m n \<Longrightarrow> weight f = total_bytes m"
  by (simp add: weight_def holds_read)

lemma holds_ok: "holds H i f m n \<Longrightarrow> files_ok H (i, f)"
  by (auto simp: files_ok_def holds_weight) (auto simp: holds_def stage_stores_def)

lemma holds_whole: "holds H i f m n \<Longrightarrow> \<not> torn f"
  by (auto simp: holds_def torn_def)

lemma bytes_of_Some [simp]: "bytes_of (Some b) = b"
  by (simp add: bytes_of_def)

lemma bytes_of_None [simp]: "bytes_of None = []"
  by (simp add: bytes_of_def)

lemma unlink_weight:
  assumes "length (bytes_of (fi_body f)) \<le> weight f"
  shows "weight (unlink_some u f) \<le> weight f" "length (bytes_of (fi_body (unlink_some u f))) \<le> weight (unlink_some u f)"
  using assms
  by (auto simp: weight_def unlink_some_def read_manifest_def split: prod.splits sum.splits option.splits)

lemma unlink_torn: "torn (unlink_some u f) \<or> unlink_some u f = f"
  by (cases u) (auto simp: unlink_some_def torn_def)

lemma unlink_ok: "files_ok H (i, f) \<Longrightarrow> files_ok H (i, unlink_some u f)"
  using unlink_weight [of f u] unlink_torn [of u f] by (auto simp: files_ok_def)

section \<open>Lists of stages\<close>

lemma map_of_put: "map_of (map (\<lambda>(j, g). (j, if j = i then f else g)) st) j =
    (if j = i \<and> map_of st i \<noteq> None then Some f else map_of st j)"
  by (induction st) auto

lemma fst_put [simp]: "map fst (map (\<lambda>(j, g). (j, if j = i then f else g)) st) = map fst st"
  by (induction st) auto

lemma put_files_simps [simp]:
  "xr_stages (put_files i f x) = map (\<lambda>(j, g). (j, if j = i then f else g)) (xr_stages x)"
  "xr_odd (put_files i f x) = xr_odd x" "xr_init (put_files i f x) = xr_init x"
  "xr_init_odd (put_files i f x) = xr_init_odd x"
  "init_ok (put_files i f x) = init_ok x"
  by (simp_all add: put_files_def init_ok_def initialization_entries_def cong: option.case_cong)

lemma stages_ok_put:
  assumes "stages_ok H st" and "map_of st i = Some f" and "files_ok H (i, f')" and "weight f' \<le> weight f"
  shows "stages_ok H (map (\<lambda>(j, g). (j, if j = i then f' else g)) st)"
proof -
  have d: "distinct (map fst st)" and all: "\<And>e. e \<in> set st \<Longrightarrow> files_ok H e"
    using assms(1) by (auto simp: stages_ok_def)
  have one: "g = f" if "(i, g) \<in> set st" for g
    using that d assms(2) by (metis map_of_is_SomeI option.sel)
  have le: "weight (snd (case e of (j, g) \<Rightarrow> (j, if j = i then f' else g))) \<le> weight (snd e)" if "e \<in> set st" for e
  proof (cases e)
    case (Pair j g)
    then show ?thesis using that one [of g] assms(4) by (cases "j = i") simp_all
  qed
  have "sum_list (map (\<lambda>e. weight (snd (case e of (j, g) \<Rightarrow> (j, if j = i then f' else g)))) st)
      \<le> sum_list (map (\<lambda>e. weight (snd e)) st)"
    by (rule sum_list_mono) (rule le)
  moreover have "files_ok H e" if "e \<in> set (map (\<lambda>(j, g). (j, if j = i then f' else g)) st)" for e
    using that all assms(3) by auto
  ultimately show ?thesis
    unfolding stages_ok_def fst_put using assms(1) d by (simp add: stages_ok_def o_def)
qed

lemma stages_ok_filter: "stages_ok H st \<Longrightarrow> stages_ok H (filter P st)"
proof -
  assume ok: "stages_ok H st"
  have "sum_list (map (\<lambda>e. weight (snd e)) (filter P st)) \<le> sum_list (map (\<lambda>e. weight (snd e)) st)"
    by (induction st) auto
  moreover have "length (filter P st) \<le> MAX_RETAINED_STAGES"
    using ok length_filter_le [of P st] by (simp add: stages_ok_def del: length_filter_le)
  ultimately show ?thesis using ok by (auto simp: stages_ok_def distinct_map_filter)
qed

lemma tally_sums:
  "tally_stages H st (b, n) = Inr (b', n') \<Longrightarrow>
    b' = b + sum_list (map (\<lambda>e. weight (snd e)) st) \<and> n' = n + length st \<and> (\<forall>e \<in> set st. fi_manifest (snd e) \<noteq> None)"
proof (induction st arbitrary: b n)
  case (Cons e st)
  obtain name f where e: "e = (name, f)" by (cases e)
  obtain m where m: "read_manifest f = Inr m" and t: "tally_stages H st (b + total_bytes m, Suc n) = Inr (b', n')"
    using Cons.prems by (auto simp: e split: if_splits)
  have "fi_manifest f \<noteq> None" using m by (cases "fi_manifest f") (simp_all add: read_manifest_def)
  moreover have "weight f = total_bytes m" by (simp add: weight_def m)
  ultimately show ?case using Cons.IH [OF t] by (simp add: e)
qed simp

lemma tally_whole:
  assumes "\<forall>e \<in> set st. \<exists>m n. holds H (fst e) (snd e) m n"
    and "b + sum_list (map (\<lambda>e. weight (snd e)) st) \<le> u64_max" and "n + length st \<le> MAX_RETAINED_STAGES"
  shows "tally_stages H st (b, n) = Inr (b + sum_list (map (\<lambda>e. weight (snd e)) st), n + length st)"
  using assms
proof (induction st arbitrary: b n)
  case (Cons e st)
  obtain name f where e: "e = (name, f)" by (cases e)
  obtain m k where h: "holds H name f m k" using Cons.prems(1) by (auto simp: e)
  have "manifest_id H m = Inr name"
    using h by (auto simp: holds_def stage_stores_def manifest_ok_def manifest_id_def)
  then show ?case
    using Cons.prems Cons.IH [of "b + total_bytes m" "Suc n"] holds_read [OF h] holds_weight [OF h]
    by (simp add: e algebra_simps)
qed simp

end
