(* ===== verification/StagingOps.thy ===== *)
theory StagingOps
  imports StagingRuns
begin

text \<open>What clearing, publishing, taking up, opening and cancelling do to the directory.\<close>

section \<open>The initializer\<close>

lemma over_None [simp]: "\<not> over k None"
  by (simp add: over_def)

lemma init_ok_iff: "init_ok x \<longleftrightarrow> \<not> xr_odd x \<and> \<not> xr_init_odd x \<and>
    (\<forall>f. xr_init x = Some f \<longrightarrow> \<not> over MAX_METADATA_BYTES (fi_manifest f) \<and> \<not> over 0 (fi_body f) \<and> \<not> over RECORD_BYTES (fi_offsets f))"
  by (cases "xr_init x") (simp_all add: init_ok_def initialization_entries_def)

lemma init_ok_unlink: "init_ok x \<Longrightarrow> xr_init x = Some f \<Longrightarrow> init_ok (x\<lparr>xr_init := Some (unlink_some u f)\<rparr>)"
  by (cases u) (simp add: init_ok_iff unlink_some_def)

lemma init_ok_cleared: "init_ok x \<Longrightarrow> init_ok (x\<lparr>xr_init := None\<rparr>)"
  by (simp add: init_ok_iff)

lemma clear_shape:
  assumes "init_ok x"
  shows "clear_initialization fault x =
    (case xr_init x of
       None \<Rightarrow> (Inr (), x)
     | Some f \<Rightarrow> (case fault of None \<Rightarrow> (Inr (), x\<lparr>xr_init := None\<rparr>)
         | Some u \<Rightarrow> (Inl IoFailed, x\<lparr>xr_init := Some (unlink_some u f)\<rparr>)))"
proof -
  have "initialization_entries x = Inr (xr_init x)" using assms by (simp add: init_ok_def)
  then show ?thesis by (cases "xr_init x") (simp_all add: clear_initialization_def)
qed

lemma clear_keeps:
  assumes "init_ok x" and "clear_initialization fault x = (r, x')"
  shows "init_ok x'" "xr_stages x' = xr_stages x" "is_ok r \<Longrightarrow> xr_init x' = None" "fault = None \<Longrightarrow> r = Inr ()"
proof -
  have "init_ok x' \<and> xr_stages x' = xr_stages x \<and> (is_ok r \<longrightarrow> xr_init x' = None) \<and> (fault = None \<longrightarrow> r = Inr ())"
  proof (cases "xr_init x")
    case None
    then show ?thesis using assms clear_shape [OF assms(1), of fault] by auto
  next
    case (Some f)
    show ?thesis
    proof (cases fault)
      case None
      then show ?thesis
        using assms clear_shape [OF assms(1), of fault] init_ok_cleared [OF assms(1)] Some by auto
    next
      case (Some u)
      then show ?thesis
        using assms clear_shape [OF assms(1), of fault] init_ok_unlink [OF assms(1) \<open>xr_init x = Some f\<close>, of u]
          \<open>xr_init x = Some f\<close> by auto
    qed
  qed
  then show "init_ok x'" "xr_stages x' = xr_stages x" "is_ok r \<Longrightarrow> xr_init x' = None" "fault = None \<Longrightarrow> r = Inr ()"
    by simp_all
qed

lemma gate_keeps:
  assumes "init_ok x" and "gate ok clear x = (r, x')"
  shows "init_ok x'" "xr_stages x' = xr_stages x" "is_ok r \<Longrightarrow> xr_init x' = None" "ok \<Longrightarrow> clear = None \<Longrightarrow> r = Inr ()"
proof -
  have "init_ok x' \<and> xr_stages x' = xr_stages x \<and> (is_ok r \<longrightarrow> xr_init x' = None) \<and> (ok \<longrightarrow> clear = None \<longrightarrow> r = Inr ())"
  proof (cases ok)
    case True
    then have "clear_initialization clear x = (r, x')" using assms(2) by (simp add: gate_def)
    from clear_keeps [OF assms(1) this] show ?thesis by blast
  next
    case False
    then show ?thesis using assms by (auto simp: gate_def)
  qed
  then show "init_ok x'" "xr_stages x' = xr_stages x" "is_ok r \<Longrightarrow> xr_init x' = None" "ok \<Longrightarrow> clear = None \<Longrightarrow> r = Inr ()"
    by simp_all
qed

definition fresh :: "(byte list \<Rightarrow> byte list) \<Rightarrow> manifest \<Rightarrow> byte list \<Rightarrow> files" where
  "fresh H m i = \<lparr>fi_manifest = Some (encode_manifest m), fi_body = Some [], fi_offsets = Some (checkpoint H i 0 (H []))\<rparr>"

lemma encode_length: "manifest_ok m \<Longrightarrow> length (encode_manifest m) \<le> MAX_METADATA_BYTES"
  by (simp add: manifest_ok_def validate_Inr encode_manifest_def XFER_MAGIC_def MAX_METADATA_BYTES_def XFER_HEADER_BYTES_def)

lemma fresh_holds:
  assumes "manifest_ok m" and "H (encode_manifest m) = i"
  shows "holds H i (fresh H m i) m 0"
proof -
  have "marks 0 = 1" by (simp add: marks_def CHUNK_BYTES_def)
  then have "journal H i [] 0 = checkpoint H i 0 (H [])"
    by (simp add: journal_def journal_record_def mark_def)
  then show ?thesis
    using assms by (auto simp: holds_def fresh_def stage_stores_def full_mark_def)
qed

lemma initialize_bounds:
  assumes "hash_len H" and "manifest_ok m" and "initialize H fault m i = (r, f)"
  shows "\<not> over MAX_METADATA_BYTES (fi_manifest f)" "\<not> over 0 (fi_body f)" "\<not> over RECORD_BYTES (fi_offsets f)"
    "is_ok r \<Longrightarrow> f = fresh H m i" "fault = NoInitFault \<Longrightarrow> r = Inr ()"
  using assms encode_length [OF assms(2)] checkpoint_length [OF assms(1), of "H []" i 0]
  by (auto simp: initialize_def over_def no_files_def fresh_def Let_def split: init_fault.splits)

lemma initialization_error_keeps:
  assumes "init_ok x" and "initialization_error fault e x = (e', x')"
  shows "init_ok x'" "xr_stages x' = xr_stages x"
  using assms(2) clear_keeps [OF assms(1)]
  by (auto simp: initialization_error_def split: prod.splits sum.splits)

lemma create_stage_keeps:
  assumes "hash_len H" and "manifest_ok m" and "init_ok x" and "create_stage H fault cleanup m i x = (r, x')"
  shows "init_ok x'" "xr_stages x' = xr_stages x" "is_ok r \<Longrightarrow> xr_init x' = Some (fresh H m i)"
    "fault = NoInitFault \<Longrightarrow> xr_init x = None \<Longrightarrow> r = Inr ()"
proof -
  obtain r0 f where f: "initialize H fault m i = (r0, f)" by (cases "initialize H fault m i")
  note b = initialize_bounds [OF assms(1,2) f]
  have ok: "init_ok (x\<lparr>xr_init := Some f\<rparr>)"
    using assms(3) b(1-3) by (simp add: init_ok_iff)
  obtain e1 x1 where e1: "initialization_error cleanup IoFailed (x\<lparr>xr_init := Some f\<rparr>) = (e1, x1)"
    by (cases "initialization_error cleanup IoFailed (x\<lparr>xr_init := Some f\<rparr>)")
  note k = initialization_error_keeps [OF ok]
  have "init_ok x' \<and> xr_stages x' = xr_stages x \<and> (is_ok r \<longrightarrow> xr_init x' = Some (fresh H m i))"
  proof (cases "fault = MkdirFault \<or> xr_init x \<noteq> None")
    case True
    then show ?thesis using assms(3,4) by (auto simp: create_stage_def)
  next
    case False
    show ?thesis
    proof (cases r0)
      case (Inl e)
      obtain e' x2 where e': "initialization_error cleanup e (x\<lparr>xr_init := Some f\<rparr>) = (e', x2)"
        by (cases "initialization_error cleanup e (x\<lparr>xr_init := Some f\<rparr>)")
      then show ?thesis using assms(4) False f Inl k [OF e'] by (auto simp: create_stage_def)
    next
      case (Inr u)
      then show ?thesis using assms(4) False f b(4) ok by (auto simp: create_stage_def)
    qed
  qed
  then show "init_ok x'" "xr_stages x' = xr_stages x" "is_ok r \<Longrightarrow> xr_init x' = Some (fresh H m i)" by simp_all
  show "r = Inr ()" if "fault = NoInitFault" "xr_init x = None"
    using assms(4) b(5) that f by (auto simp: create_stage_def)
qed

lemma publish_fresh:
  assumes "manifest_ok m" and "init_ok x" and "xr_init x = Some (fresh H m i)"
  shows "publish_stage H ok m i x =
    (if ok \<and> map_of (xr_stages x) i = None
     then Inr (x\<lparr>xr_init := None, xr_stages := xr_stages x @ [(i, fresh H m i)]\<rparr>) else Inl IoFailed)"
proof -
  have "initialization_entries x = Inr (Some (fresh H m i))" using assms(2,3) by (simp add: init_ok_def)
  moreover have "read_manifest (fresh H m i) = Inr m"
    by (simp add: read_manifest_def fresh_def decode_encode [OF assms(1)])
  ultimately show ?thesis by (auto simp: publish_stage_def) (auto simp: fresh_def)
qed

lemma initialize_unpublished_keeps:
  assumes "hash_len H" and "manifest_ok m" and "init_ok x" and "initialize_unpublished H fault m i x = (r, x')"
  shows "init_ok x'"
    "(\<exists>e. r = Inl e) \<and> xr_stages x' = xr_stages x \<or>
     r = Inr () \<and> map_of (xr_stages x) i = None \<and> xr_stages x' = xr_stages x @ [(i, fresh H m i)]"
    "of_init fault = NoInitFault \<Longrightarrow> of_publish fault \<Longrightarrow> xr_init x = None \<Longrightarrow> map_of (xr_stages x) i = None \<Longrightarrow> r = Inr ()"
proof -
  obtain r1 x1 where c: "create_stage H (of_init fault) (of_cleanup fault) m i x = (r1, x1)"
    by (cases "create_stage H (of_init fault) (of_cleanup fault) m i x")
  note k = create_stage_keeps [OF assms(1-3) c]
  have "init_ok x' \<and> ((\<exists>e. r = Inl e) \<and> xr_stages x' = xr_stages x \<or>
     r = Inr () \<and> map_of (xr_stages x) i = None \<and> xr_stages x' = xr_stages x @ [(i, fresh H m i)])"
  proof (cases r1)
    case (Inl e)
    then show ?thesis using assms(4) c k by (auto simp: initialize_unpublished_def)
  next
    case (Inr u)
    then have p: "publish_stage H (of_publish fault) m i x1 =
      (if of_publish fault \<and> map_of (xr_stages x1) i = None
       then Inr (x1\<lparr>xr_init := None, xr_stages := xr_stages x1 @ [(i, fresh H m i)]\<rparr>) else Inl IoFailed)"
      using publish_fresh [OF assms(2) k(1)] k(3) by simp
    obtain e2 x2 where e2: "initialization_error (of_cleanup fault) IoFailed x1 = (e2, x2)"
      by (cases "initialization_error (of_cleanup fault) IoFailed x1")
    show ?thesis
    proof (cases "of_publish fault \<and> map_of (xr_stages x1) i = None")
      case True
      moreover have "init_ok (x1\<lparr>xr_init := None, xr_stages := xr_stages x1 @ [(i, fresh H m i)]\<rparr>)"
        using k(1) by (simp add: init_ok_iff)
      ultimately show ?thesis using assms(4) c Inr p k(2) by (auto simp: initialize_unpublished_def)
    next
      case False
      then have "initialize_unpublished H fault m i x = (Inl e2, x2)"
        using c Inr p e2 by (auto simp: initialize_unpublished_def)
      then show ?thesis using assms(4) initialization_error_keeps [OF k(1) e2] k(2) by auto
    qed
  qed
  then show "init_ok x'" "(\<exists>e. r = Inl e) \<and> xr_stages x' = xr_stages x \<or>
     r = Inr () \<and> map_of (xr_stages x) i = None \<and> xr_stages x' = xr_stages x @ [(i, fresh H m i)]" by blast+
  show "r = Inr ()" if "of_init fault = NoInitFault" "of_publish fault" "xr_init x = None" "map_of (xr_stages x) i = None"
  proof -
    have "r1 = Inr ()" using k(4) that by simp
    then show ?thesis
      using assms(4) c that publish_fresh [OF assms(2) k(1), of H i "of_publish fault"] k(2,3)
      by (simp add: initialize_unpublished_def)
  qed
qed

section \<open>The owners\<close>

lemma available_owner_free:
  "available_owner ok i owners = Inr s \<Longrightarrow> s < MAX_OWNERS \<and> owners s = None \<and> (\<forall>t < MAX_OWNERS. owners t \<noteq> Some i)"
  by (auto simp: available_owner_def MAX_OWNERS_def upt_rec less_Suc_eq numeral_2_eq_2 split: option.splits if_splits)

lemma available_owner_found:
  assumes "\<And>s. ok s" and "\<forall>t < MAX_OWNERS. owners t \<noteq> Some i" and "t < MAX_OWNERS" and "owners t = None"
  shows "\<exists>s. available_owner ok i owners = Inr s"
  using assms
  by (auto simp: available_owner_def MAX_OWNERS_def upt_rec less_Suc_eq numeral_2_eq_2 split: option.splits)

section \<open>Opening\<close>

lemma stages_ok_entry: "stages_ok H st \<Longrightarrow> map_of st i = Some f \<Longrightarrow> files_ok H (i, f)"
  by (auto simp: stages_ok_def dest: map_of_SomeD)

lemma read_present: "read_manifest f = Inr m \<Longrightarrow> fi_manifest f \<noteq> None"
  by (cases "fi_manifest f") (simp_all add: read_manifest_def)

lemma whole_holds:
  assumes "stages_ok H st" and "map_of st i = Some f" and "\<not> torn f" and "read_manifest f = Inr m"
  obtains n where "holds H i f m n"
proof -
  obtain m' n where h: "holds H i f m' n" using stages_ok_entry [OF assms(1,2)] assms(3) by (auto simp: files_ok_def)
  have "m' = m" using holds_read [OF h] assms(4) by simp
  then show ?thesis using h that by simp
qed

lemma take_up_ends:
  assumes "hash_len H" and "stages_ok H (xr_stages x)" and "take_up H fault m i slot x = (r, x')"
  obtains (refused) e where "x' = x" "r = Inl e"
      "\<And>f n. map_of (xr_stages x) i = Some f \<Longrightarrow> \<not> holds H i f m n"
  | (recovered) f f' n where "map_of (xr_stages x) i = Some f" "holds H i f m n" "holds H i f' m n"
      "take n (bytes_of (fi_body f')) = take n (bytes_of (fi_body f))" "x' = put_files i f' x"
      "(\<exists>e. r = Inl e) \<and> \<not> ((\<forall>k. of_recover fault k) \<and> of_claim fault) \<or>
       (\<exists>sk. r = Inr (Some (slot, sk)) \<and> sk_id sk = i \<and> sk_manifest sk = m \<and> \<not> sk_poisoned sk \<and>
         sink_at H sk (bytes_of (fi_body f')) (bytes_of (fi_offsets f')))"
proof (cases "\<exists>f. map_of (xr_stages x) i = Some f \<and> \<not> torn f \<and> read_manifest f = Inr m")
  case False
  have "x' = x \<and> (\<exists>e. r = Inl e)"
    using assms(3) False
    by (auto simp: take_up_def torn_def dest: read_present split: option.splits sum.splits if_splits prod.splits)
  moreover have "\<not> holds H i f m n" if "map_of (xr_stages x) i = Some f" for f n
    using that False holds_whole holds_read by blast
  ultimately show ?thesis using refused by blast
next
  case True
  then obtain f where f: "map_of (xr_stages x) i = Some f" "\<not> torn f" "read_manifest f = Inr m" by blast
  obtain n where h: "holds H i f m n" by (rule whole_holds [OF assms(2) f])
  obtain body offs where b: "fi_body f = Some body" "fi_offsets f = Some offs"
    using f(2) by (auto simp: torn_def)
  define sg where "sg = \<lparr>sg_manifest = encode_manifest m, sg_body = body, sg_offsets = offs\<rparr>"
  obtain q sg' where rec: "recover_stage H (of_recover fault) i (total_bytes m) sg = (q, sg')"
    by (cases "recover_stage H (of_recover fault) i (total_bytes m) sg")
  have st: "stage_stores H i m (sg_body sg) (sg_offsets sg) n" using h b by (simp add: holds_def sg_def)
  note k = recover_keeps [OF assms(1) st rec]
  let ?f' = "f\<lparr>fi_body := Some (sg_body sg'), fi_offsets := Some (sg_offsets sg')\<rparr>"
  have h': "holds H i ?f' m n" using k h by (simp add: holds_def)
  have t: "take n (bytes_of (fi_body ?f')) = take n (bytes_of (fi_body f))" using k b by (simp add: sg_def)
  have up: "take_up H fault m i slot x =
     (case q of Inl e \<Rightarrow> (Inl e, put_files i ?f' x)
      | Inr (offset, hashed) \<Rightarrow> if \<not> of_claim fault then (Inl IoFailed, put_files i ?f' x)
          else (Inr (Some (slot, \<lparr>sk_manifest = m, sk_id = i, sk_offset = offset, sk_hashed = hashed, sk_poisoned = False\<rparr>)),
            put_files i ?f' x))"
    unfolding take_up_def using f b rec by (simp add: sg_def split: sum.split)
  show ?thesis
  proof (cases q)
    case (Inl e)
    then have "\<not> (\<forall>k. of_recover fault k)" using k by simp
    then show ?thesis using recovered [OF f(1) h h' t] up Inl assms(3) by auto
  next
    case (Inr p)
    obtain offset hashed where p: "p = (offset, hashed)" by (cases p)
    have e: "offset = n" "hashed = sg_body sg'" "sg_body sg' = take n (sg_body sg)"
        "sg_offsets sg' = journal H i (sg_body sg) n" using k Inr p by simp_all
    have len: "length (sg_body sg') = n" using st e(3) by (simp add: stage_stores_def)
    have "journal H i (sg_body sg') n = journal H i (sg_body sg) n"
      by (rule journal_cong) (simp add: e(3))
    then have "sink_at H \<lparr>sk_manifest = m, sk_id = i, sk_offset = offset, sk_hashed = hashed, sk_poisoned = False\<rparr>
        (bytes_of (fi_body ?f')) (bytes_of (fi_offsets ?f'))"
      using st e len by (simp add: sink_at_def stage_stores_def)
    then show ?thesis using recovered [OF f(1) h h' t] up Inr p assms(3) by (auto split: if_splits)
  qed
qed

text \<open>An operation on the stage of \<open>i\<close> leaves the others as they are, and \<open>i\<close> its bytes.\<close>

definition touches :: "(byte list \<Rightarrow> byte list) \<Rightarrow> byte list \<Rightarrow> (byte list \<times> files) list \<Rightarrow> (byte list \<times> files) list \<Rightarrow> bool" where
  "touches H i st st' \<longleftrightarrow> (\<forall>j. j \<noteq> i \<longrightarrow> map_of st' j = map_of st j) \<and>
     (\<forall>j m n pre. vouches H j m n pre st \<longrightarrow> vouches H j m n pre st')"

definition whole :: "(byte list \<times> files) list \<Rightarrow> bool" where
  "whole st \<longleftrightarrow> (\<forall>e \<in> set st. \<not> torn (snd e))"

lemma touches_refl: "touches H i st st"
  by (simp add: touches_def)

lemma touches_trans: "touches H i st st' \<Longrightarrow> touches H i st' st'' \<Longrightarrow> touches H i st st''"
  by (simp add: touches_def)

lemma vouches_le:
  assumes "map_of st' i = Some f'" and "holds H i f' m n'" and "n \<le> n'"
    and "take n (bytes_of (fi_body f')) = pre"
  shows "vouches H i m n pre st'"
  using assms by (auto simp: vouches_def)

lemma touches_put:
  assumes "hash_len H" and "map_of st i = Some f" and "holds H i f m n" and "holds H i f' m n'" and "n \<le> n'"
    and "take n (bytes_of (fi_body f')) = take n (bytes_of (fi_body f))"
  shows "touches H i st (map (\<lambda>(j, g). (j, if j = i then f' else g)) st)"
proof -
  have new: "map_of (map (\<lambda>(j, g). (j, if j = i then f' else g)) st) i = Some f'"
    using assms(2) map_of_put [of i f' st i] by simp
  have "vouches H j k l pre (map (\<lambda>(j, g). (j, if j = i then f' else g)) st)"
    if v: "vouches H j k l pre st" for j k l pre
  proof (cases "j = i")
    case True
    obtain n0 where h0: "holds H i f k n0" "l \<le> n0" "take l (bytes_of (fi_body f)) = pre"
      using v True assms(2) by (auto simp: vouches_def)
    have "k = m" by (rule holds_same [OF assms(3) h0(1)])
    then have "n0 = n" using h0(1) assms(3) stage_stores_unique [OF assms(1)] by (auto simp: holds_def)
    then have "take l (bytes_of (fi_body f')) = pre"
      using assms(6) h0(2,3) by (metis min.absorb1 take_take)
    then show ?thesis
      using vouches_le [OF new assms(4), of l pre] assms(5) h0(2) \<open>k = m\<close> \<open>n0 = n\<close> True by simp
  next
    case False
    then show ?thesis using v map_of_put [of i f' st j] by (simp add: vouches_def)
  qed
  then show ?thesis using map_of_put [of i f' st] by (simp add: touches_def)
qed

lemma whole_put: "whole st \<Longrightarrow> \<not> torn f' \<Longrightarrow> whole (map (\<lambda>(j, g). (j, if j = i then f' else g)) st)"
  by (auto simp: whole_def split: if_splits)

text \<open>What an opening may have done to the stages and whom it gave a sink.\<close>

definition opened ::
    "(byte list \<Rightarrow> byte list) \<Rightarrow> (nat \<Rightarrow> byte list option) \<Rightarrow> byte list \<Rightarrow> xfer_root \<Rightarrow>
     transfer_error + (nat \<times> sink) option \<Rightarrow> xfer_root \<Rightarrow> bool" where
  "opened H owners i x r x' \<longleftrightarrow>
     stages_ok H (xr_stages x') \<and> init_ok x' \<and> touches H i (xr_stages x) (xr_stages x') \<and>
     (whole (xr_stages x) \<longrightarrow> whole (xr_stages x')) \<and>
     ((\<exists>t < MAX_OWNERS. owners t = Some i) \<longrightarrow> xr_stages x' = xr_stages x) \<and>
     (\<forall>slot sk. r = Inr (Some (slot, sk)) \<longrightarrow> slot < MAX_OWNERS \<and> (\<forall>t < MAX_OWNERS. owners t \<noteq> Some i) \<and> owners slot = None \<and>
        sk_id sk = i \<and> \<not> sk_poisoned sk \<and> sink_fine H (xr_stages x') sk)"

lemma take_up_opened:
  assumes "hash_len H" and "stages_ok H (xr_stages x)" and "init_ok x" and "take_up H fault m i slot x = (r, x')"
    and "slot < MAX_OWNERS" and "owners slot = None" and "\<forall>t < MAX_OWNERS. owners t \<noteq> Some i"
  shows "opened H owners i x r x'"
  using assms(1,2,4)
proof (cases rule: take_up_ends)
  case refused
  then show ?thesis using assms(2,3) by (auto simp: opened_def touches_refl)
next
  case (recovered f f' n)
  have w: "weight f' \<le> weight f" using recovered(2,3) by (simp add: holds_weight)
  have st: "stages_ok H (xr_stages x')"
    using stages_ok_put [OF assms(2) recovered(1) holds_ok [OF recovered(3)] w] recovered(5) by simp
  have to: "touches H i (xr_stages x) (xr_stages x')"
    using touches_put [OF assms(1) recovered(1,2,3) order_refl recovered(4)] recovered(5) by simp
  have wh: "whole (xr_stages x) \<longrightarrow> whole (xr_stages x')"
    using whole_put holds_whole [OF recovered(3)] recovered(5) by simp
  have new: "map_of (xr_stages x') i = Some f'"
    using recovered(1,5) map_of_put [of i f' "xr_stages x" i] by simp
  have io: "init_ok x'" using assms(3) recovered(5) by simp
  have "slot' = slot \<and> sk_id sk = i \<and> \<not> sk_poisoned sk \<and> sink_fine H (xr_stages x') sk"
    if r: "r = Inr (Some (slot', sk))" for slot' sk
  proof -
    have s: "slot' = slot" "sk_id sk = i" "sk_manifest sk = m" "\<not> sk_poisoned sk"
        "sink_at H sk (bytes_of (fi_body f')) (bytes_of (fi_offsets f'))"
      using recovered(6) r by auto
    then have "sink_fine H (xr_stages x') sk"
      unfolding sink_fine_def using new recovered(3) by (intro exI [of _ f'] exI [of _ n]) simp
    then show ?thesis using s by simp
  qed
  then show ?thesis using st to wh io assms(5-7) by (auto simp: opened_def)
qed

text \<open>The three arrays of a manifest are 32 bytes by their type.\<close>

definition arrays :: "manifest \<Rightarrow> bool" where
  "arrays m \<longleftrightarrow> length (source m) = 32 \<and> length (recipient m) = 32 \<and> length (digest m) = 32"

lemma manifest_id_Inr: "manifest_id H m = Inr i \<longleftrightarrow> validate m = Inr () \<and> i = H (encode_manifest m)"
  by (auto simp: manifest_id_def)

lemma reservations_Inr:
  assumes "reservations H ok x = Inr (b, n)"
  shows "b = sum_list (map (\<lambda>e. weight (snd e)) (xr_stages x))" "n = length (xr_stages x)"
    "\<forall>e \<in> set (xr_stages x). fi_manifest (snd e) \<noteq> None"
proof -
  have "tally_stages H (xr_stages x) (0, 0) = Inr (b, n)"
    using assms by (auto simp: reservations_def split: if_splits)
  from tally_sums [OF this]
  show "b = sum_list (map (\<lambda>e. weight (snd e)) (xr_stages x))" "n = length (xr_stages x)"
    "\<forall>e \<in> set (xr_stages x). fi_manifest (snd e) \<noteq> None" by simp_all
qed

lemma opened_same:
  assumes "stages_ok H (xr_stages x)" and "init_ok x'" and "xr_stages x' = xr_stages x" and "\<And>ss. r \<noteq> Inr (Some ss)"
  shows "opened H owners i x r x'"
  using assms by (simp add: opened_def touches_refl)

lemma touches_fresh:
  assumes "map_of st i = None"
  shows "touches H i st (st @ [(i, f)])"
proof -
  have same: "map_of (st @ [(i, f)]) j = map_of st j" if "j \<noteq> i" for j
    using that by (cases "map_of st j") (simp_all add: map_add_def)
  have "map_of (st @ [(i, f)]) j = map_of st j" if "map_of st j \<noteq> None" for j
    using that assms same [of j] by (cases "j = i") simp_all
  then have "vouches H j m n pre st \<Longrightarrow> vouches H j m n pre (st @ [(i, f)])" for j m n pre
    unfolding vouches_def by (metis option.discI)
  then show ?thesis using same by (simp only: touches_def) blast
qed

lemma opened_fresh:
  assumes "opened H owners i x2 r x'" and "xr_stages x2 = xr_stages x @ [(i, f)]" and "map_of (xr_stages x) i = None"
    and "\<forall>t < MAX_OWNERS. owners t \<noteq> Some i" and "\<not> torn f"
  shows "opened H owners i x r x'"
proof -
  have "touches H i (xr_stages x) (xr_stages x')"
    using touches_trans [OF touches_fresh [OF assms(3), of H f]] assms(1,2) by (simp add: opened_def)
  moreover have "whole (xr_stages x) \<longrightarrow> whole (xr_stages x2)"
    using assms(2,5) by (simp add: whole_def)
  ultimately show ?thesis using assms(1,4) unfolding opened_def by blast
qed

lemma stages_ok_fresh:
  assumes "stages_ok H st" and "manifest_ok m" and "i = H (encode_manifest m)" and "map_of st i = None"
    and "sum_list (map (\<lambda>e. weight (snd e)) st) + total_bytes m \<le> MAX_RESERVED_BYTES" and "length st < MAX_RETAINED_STAGES"
  shows "stages_ok H (st @ [(i, fresh H m i)])"
proof -
  have h: "holds H i (fresh H m i) m 0" by (rule fresh_holds) (use assms in simp_all)
  have "i \<notin> fst ` set st" using assms(4) by (simp add: map_of_eq_None_iff)
  then show ?thesis
    using assms holds_ok [OF h] holds_weight [OF h] by (auto simp: stages_ok_def)
qed

lemma open_stage_opened:
  assumes "hash_len H" and "stages_ok H (xr_stages x)" and "init_ok x" and "arrays m"
    and "open_stage H fault m c owners x = (r, x')"
  shows "opened H owners (H (encode_manifest m)) x r x'"
proof (cases "manifest_id H m")
  case (Inl e)
  then show ?thesis using assms by (intro opened_same) (auto simp: open_stage_def)
next
  case (Inr i)
  then have i: "i = H (encode_manifest m)" and mok: "manifest_ok m"
    using assms(4) by (auto simp: manifest_id_Inr manifest_ok_def arrays_def)
  obtain g x1 where g: "gate (of_gate fault) (of_clear fault) x = (g, x1)" by (cases "gate (of_gate fault) (of_clear fault) x")
  note gk = gate_keeps [OF assms(3) g]
  have ok1: "stages_ok H (xr_stages x1)" using gk(2) assms(2) by simp
  have from1: "opened H owners i x r x'" if "opened H owners i x1 r x'"
    using that gk(2) by (simp add: opened_def)
  show ?thesis
  proof (cases "\<exists>u reserved n slot. g = Inr u \<and> reservations H (of_list fault) x1 = Inr (reserved, n) \<and>
      (map_of (xr_stages x1) i = None \<longrightarrow> c \<and> reserved + total_bytes m \<le> MAX_RESERVED_BYTES \<and> n < MAX_RETAINED_STAGES) \<and>
      available_owner (of_owner fault) i owners = Inr slot")
    case False
    have "x' = x1 \<and> (\<forall>ss. r \<noteq> Inr (Some ss))"
      using assms(5) Inr g False
      by (auto simp: open_stage_def Let_def not_le split: sum.splits if_splits prod.splits)
    then show ?thesis unfolding i [symmetric] using assms(2) gk(1,2) by (intro opened_same) auto
  next
    case True
    then obtain u reserved n slot where T0: "g = Inr u \<and> reservations H (of_list fault) x1 = Inr (reserved, n) \<and>
      (map_of (xr_stages x1) i = None \<longrightarrow> c \<and> reserved + total_bytes m \<le> MAX_RESERVED_BYTES \<and> n < MAX_RETAINED_STAGES) \<and>
      available_owner (of_owner fault) i owners = Inr slot" by (elim exE)
    note T = conjunct1 [OF T0] conjunct1 [OF conjunct2 [OF T0]]
      conjunct1 [OF conjunct2 [OF conjunct2 [OF T0]], rule_format]
      conjunct2 [OF conjunct2 [OF conjunct2 [OF T0]]]
    note free = available_owner_free [OF T(4)]
    show ?thesis
    proof (cases "map_of (xr_stages x1) i")
      case (Some f)
      then have "take_up H fault m i slot x1 = (r, x')"
        using assms(5) Inr g T by (simp add: open_stage_def Let_def)
      then show ?thesis
        unfolding i [symmetric] using take_up_opened [OF assms(1) ok1 gk(1)] free from1 by blast
    next
      case None
      obtain p x2 where p: "initialize_unpublished H fault m i x1 = (p, x2)"
        by (cases "initialize_unpublished H fault m i x1")
      note pk = initialize_unpublished_keeps [OF assms(1) mok gk(1) p]
      have t: "(case p of Inl e \<Rightarrow> (Inl e, x2) | Inr _ \<Rightarrow> take_up H fault m i slot x2) = (r, x')"
        using assms(5) Inr g T None p by (simp add: open_stage_def Let_def)
      show ?thesis
      proof (cases p)
        case (Inl e)
        then show ?thesis
          unfolding i [symmetric] using t pk(1,2) assms(2) gk(2) by (intro opened_same) auto
      next
        case (Inr v)
        then have x2: "xr_stages x2 = xr_stages x1 @ [(i, fresh H m i)]" using pk(2) by auto
        have "stages_ok H (xr_stages x2)"
          unfolding x2 using stages_ok_fresh [OF ok1 mok i None] T(3) [OF None] reservations_Inr(1,2) [OF T(2)] by simp
        then have "opened H owners i x2 r x'"
          using take_up_opened [OF assms(1) _ pk(1)] free t Inr by auto
        moreover have "\<not> torn (fresh H m i)" by (simp add: torn_def fresh_def)
        ultimately show ?thesis
          unfolding i [symmetric] using opened_fresh [OF _ x2 None] free from1 by blast
      qed
    qed
  qed
qed

section \<open>Cancelling\<close>

lemma map_of_filter_other: "j \<noteq> i \<Longrightarrow> map_of (filter (\<lambda>(k, g). k \<noteq> i) st) j = map_of st j"
  by (induction st) auto

lemma cancel_keeps:
  assumes "stages_ok H (xr_stages x)" and "init_ok x" and "cancel_stage H fault m owners x = (r, x')"
  shows "stages_ok H (xr_stages x')" "init_ok x'" "j \<noteq> H (encode_manifest m) \<Longrightarrow> map_of (xr_stages x') j = map_of (xr_stages x) j"
    "\<exists>t < MAX_OWNERS. owners t = Some (H (encode_manifest m)) \<Longrightarrow> xr_stages x' = xr_stages x"
    "cf_unlinked fault = None \<Longrightarrow> whole (xr_stages x) \<Longrightarrow> whole (xr_stages x')"
proof -
  obtain g x1 where g: "gate (cf_gate fault) (cf_clear fault) x = (g, x1)" by (cases "gate (cf_gate fault) (cf_clear fault) x")
  note gk = gate_keeps [OF assms(2) g]
  let ?i = "H (encode_manifest m)"
  have "stages_ok H (xr_stages x') \<and> init_ok x' \<and> (\<forall>j. j \<noteq> ?i \<longrightarrow> map_of (xr_stages x') j = map_of (xr_stages x) j) \<and>
    ((\<exists>t < MAX_OWNERS. owners t = Some ?i) \<longrightarrow> xr_stages x' = xr_stages x) \<and>
    (cf_unlinked fault = None \<longrightarrow> whole (xr_stages x) \<longrightarrow> whole (xr_stages x'))"
  proof (cases "\<exists>u slot f. manifest_id H m = Inr ?i \<and> g = Inr u \<and> available_owner (cf_owner fault) ?i owners = Inr slot \<and>
      map_of (xr_stages x1) ?i = Some f \<and> read_manifest f = Inr m")
    case False
    have "x' = x1 \<or> x' = x"
      using assms(3) False g
      by (auto simp: cancel_stage_def Let_def manifest_id_Inr split: sum.splits if_splits prod.splits option.splits)
    then show ?thesis using assms(1,2) gk(1,2) by auto
  next
    case True
    then obtain u slot f where T: "manifest_id H m = Inr ?i" "g = Inr u" "available_owner (cf_owner fault) ?i owners = Inr slot"
        "map_of (xr_stages x1) ?i = Some f" "read_manifest f = Inr m" by blast
    note free = available_owner_free [OF T(3)]
    show ?thesis
    proof (cases "cf_unlinked fault")
      case None
      then have x': "x' = x1\<lparr>xr_stages := filter (\<lambda>(j, g). j \<noteq> ?i) (xr_stages x1)\<rparr>"
        using assms(3) g T by (simp add: cancel_stage_def)
      have "init_ok x'" using gk(1) x' by (simp add: init_ok_iff)
      moreover have "stages_ok H (xr_stages x')" using stages_ok_filter assms(1) gk(2) x' by simp
      moreover have "\<forall>j. j \<noteq> ?i \<longrightarrow> map_of (xr_stages x') j = map_of (xr_stages x) j"
        using map_of_filter_other [of _ ?i "xr_stages x1"] x' gk(2) by simp
      moreover have "whole (xr_stages x) \<longrightarrow> whole (xr_stages x')" using x' gk(2) by (simp add: whole_def)
      ultimately show ?thesis using free by blast
    next
      case (Some w)
      then have x': "x' = put_files ?i (unlink_some w f) x1"
        using assms(3) g T by (simp add: cancel_stage_def)
      have fo: "files_ok H (?i, f)" using stages_ok_entry [OF assms(1)] T(4) gk(2) by simp
      have "weight (unlink_some w f) \<le> weight f" using unlink_weight(1) fo by (simp add: files_ok_def)
      then have "stages_ok H (xr_stages x')"
        using stages_ok_put [OF assms(1) _ unlink_ok [OF fo]] T(4) gk(2) x' by simp
      moreover have "init_ok x'" using gk(1) x' by simp
      moreover have "\<forall>j. j \<noteq> ?i \<longrightarrow> map_of (xr_stages x') j = map_of (xr_stages x) j"
        using map_of_put [of ?i "unlink_some w f" "xr_stages x1"] x' gk(2) by simp
      moreover have "\<not> (\<exists>t < MAX_OWNERS. owners t = Some ?i)" using free by blast
      then have "(\<exists>t < MAX_OWNERS. owners t = Some ?i) \<longrightarrow> xr_stages x' = xr_stages x" by (rule notE [THEN impI])
      moreover have "cf_unlinked fault = None \<longrightarrow> whole (xr_stages x) \<longrightarrow> whole (xr_stages x')" using Some by simp
      ultimately show ?thesis by (intro conjI)
    qed
  qed
  then show "stages_ok H (xr_stages x')" "init_ok x'" "j \<noteq> ?i \<Longrightarrow> map_of (xr_stages x') j = map_of (xr_stages x) j"
    "\<exists>t < MAX_OWNERS. owners t = Some ?i \<Longrightarrow> xr_stages x' = xr_stages x"
    "cf_unlinked fault = None \<Longrightarrow> whole (xr_stages x) \<Longrightarrow> whole (xr_stages x')" by blast+
qed

end
