(* ===== verification/StagingGuarantees.thy ===== *)
theory StagingGuarantees
  imports StagingOps
begin

text \<open>
  What the staging directory guarantees over whole runs: acknowledged bytes survive crashes and are
  taken up again, the quota bounds what is stored, only verified bytes are read; and what a
  cancelling that stopped in the middle leaves behind.
\<close>

section \<open>Steps keep the invariant\<close>

fun typed :: "xfer_act \<Rightarrow> bool" where
  "typed (Receive _ m) = arrays m"
| "typed (OpenExisting _ m) = arrays m"
| "typed _ = True"

fun cancels :: "(byte list \<Rightarrow> byte list) \<Rightarrow> byte list \<Rightarrow> xfer_act \<Rightarrow> bool" where
  "cancels H i (Cancel _ m) = (H (encode_manifest m) = i)"
| "cancels H i _ = False"

text \<open>A cancelling whose removal was not cut short.\<close>

fun clean :: "xfer_act \<Rightarrow> bool" where
  "clean (Cancel fault _) = (cf_unlinked fault = None)"
| "clean _ = True"

lemma world_ok_new: "xfer_ok H new_world"
  by (simp add: xfer_ok_def new_world_def empty_root_def stages_ok_def init_ok_iff)

lemma world_ok_root:
  assumes "xfer_ok H w" and "stages_ok H (xr_stages x)" and "init_ok x"
    and "\<And>s sk. xw_sinks w s = Some sk \<Longrightarrow> map_of (xr_stages x) (sk_id sk) = map_of (xr_stages (xw_root w)) (sk_id sk)"
  shows "xfer_ok H (w\<lparr>xw_root := x\<rparr>)"
proof -
  have "sink_fine H (xr_stages x) sk" if "xw_sinks w s = Some sk" for s sk
    using assms(1,4) that unfolding xfer_ok_def sink_fine_def by metis
  then show ?thesis using assms(1-3) unfolding xfer_ok_def by simp
qed

lemma opened_sinks:
  assumes "xfer_ok H w" and "opened H (owners_of w) i (xw_root w) r x" and "xw_sinks w s = Some sk"
  shows "map_of (xr_stages x) (sk_id sk) = map_of (xr_stages (xw_root w)) (sk_id sk)"
proof (cases "sk_id sk = i")
  case True
  have "s < MAX_OWNERS" "owners_of w s = Some i"
    using assms(1,3) True by (auto simp: xfer_ok_def owners_of_def)
  then have "xr_stages x = xr_stages (xw_root w)" using assms(2) unfolding opened_def by blast
  then show ?thesis by simp
next
  case False
  then show ?thesis using assms(2) by (simp add: opened_def touches_def)
qed

lemma opened_world:
  assumes "xfer_ok H w" and "opened H (owners_of w) i (xw_root w) r x"
  shows "xfer_ok H (w\<lparr>xw_root := x\<rparr>)"
    and "r = Inr (Some (slot, sk)) \<Longrightarrow> xfer_ok H (w\<lparr>xw_root := x, xw_sinks := (xw_sinks w)(slot := Some sk)\<rparr>)"
proof -
  show w1: "xfer_ok H (w\<lparr>xw_root := x\<rparr>)"
    by (rule world_ok_root [OF assms(1)]) (use assms(2) opened_sinks [OF assms] in \<open>auto simp: opened_def\<close>)
  assume "r = Inr (Some (slot, sk))"
  then have new: "slot < MAX_OWNERS" "\<forall>t < MAX_OWNERS. owners_of w t \<noteq> Some i" "sk_id sk = i" "sink_fine H (xr_stages x) sk"
    using assms(2) by (simp_all add: opened_def)
  have "sk_id sk' \<noteq> i" if "xw_sinks w t = Some sk'" for t sk'
  proof
    assume "sk_id sk' = i"
    moreover have "t < MAX_OWNERS" using assms(1) that by (simp add: xfer_ok_def)
    ultimately show False using new(2) that by (auto simp: owners_of_def)
  qed
  then show "xfer_ok H (w\<lparr>xw_root := x, xw_sinks := (xw_sinks w)(slot := Some sk)\<rparr>)"
    using w1 new unfolding xfer_ok_def by (auto split: if_splits) metis+
qed

lemma sink_fineD:
  assumes "xfer_ok H w" and "xw_sinks w slot = Some sk"
  shows "\<exists>f n. map_of (xr_stages (xw_root w)) (sk_id sk) = Some f \<and> holds H (sk_id sk) f (sk_manifest sk) n \<and>
     (\<not> sk_poisoned sk \<longrightarrow> sink_at H sk (bytes_of (fi_body f)) (bytes_of (fi_offsets f)))"
proof -
  have "sink_fine H (xr_stages (xw_root w)) sk" using assms unfolding xfer_ok_def by blast
  then show ?thesis by (simp only: sink_fine_def)
qed

lemma world_ok_unique:
  assumes "xfer_ok H w" and "xw_sinks w s = Some sk" and "xw_sinks w t = Some sk'" and "sk_id sk = sk_id sk'"
  shows "s = t"
proof -
  have "\<forall>s t sk sk'. xw_sinks w s = Some sk \<longrightarrow> xw_sinks w t = Some sk' \<longrightarrow> sk_id sk = sk_id sk' \<longrightarrow> s = t"
    using assms(1) unfolding xfer_ok_def by (elim conjE)
  from this [rule_format, OF assms(2-4)] show ?thesis .
qed

lemma unique_update:
  assumes "xfer_ok H w" and "xw_sinks w slot = Some sk" and "sk_id sk' = sk_id sk"
    and "((xw_sinks w)(slot := Some sk')) s = Some k" and "((xw_sinks w)(slot := Some sk')) t = Some k'" and "sk_id k = sk_id k'"
  shows "s = t"
proof -
  have alone: "u = slot" if "xw_sinks w u = Some l" "sk_id l = sk_id sk" for u l
    by (rule world_ok_unique [OF assms(1) that(1) assms(2) that(2)])
  show ?thesis
    proof (cases "s = slot")
      case True
      then have "k = sk'" using assms(4) by simp
      show ?thesis
      proof (rule ccontr)
        assume "s \<noteq> t"
        then have "xw_sinks w t = Some k'" using assms(5) True by (simp split: if_splits)
        moreover have "sk_id k' = sk_id sk" using \<open>k = sk'\<close> assms(3,6) by simp
        ultimately have "t = slot" by (rule alone)
        then show False using True \<open>s \<noteq> t\<close> by simp
      qed
    next
      case False
      then have s: "xw_sinks w s = Some k" using assms(4) by (simp split: if_splits)
      show ?thesis
      proof (cases "t = slot")
        case True
        then have "k' = sk'" using assms(5) by simp
        have "s = slot" by (rule alone [OF s]) (use \<open>k' = sk'\<close> assms(6) assms(3) in simp)
        then show ?thesis using False by simp
      next
        case False
        then have "xw_sinks w t = Some k'" using assms(5) by (simp split: if_splits)
        from world_ok_unique [OF assms(1) s this assms(6)] show ?thesis .
      qed
    qed
qed

lemma append_world:
  assumes "hash_len H" and "xfer_ok H w" and "xw_sinks w slot = Some sk"
    and "append_at H fault slot at bytes w = (r, w')"
  shows "xfer_ok H w'" "touches H (sk_id sk) (xr_stages (xw_root w)) (xr_stages (xw_root w'))"
    "whole (xr_stages (xw_root w)) \<Longrightarrow> whole (xr_stages (xw_root w'))"
    "r = Some (Inr p) \<Longrightarrow> vouches H (sk_id sk) (sk_manifest sk) (at + length bytes)
      (take (at + length bytes) (sg_body (sink_files w' sk))) (xr_stages (xw_root w'))"
    "r = Some (Inr p) \<Longrightarrow> take (length bytes) (drop at (sg_body (sink_files w' sk))) = bytes"
proof -
  obtain f n where f: "map_of (xr_stages (xw_root w)) (sk_id sk) = Some f" "holds H (sk_id sk) f (sk_manifest sk) n"
      "\<not> sk_poisoned sk \<Longrightarrow> sink_at H sk (bytes_of (fi_body f)) (bytes_of (fi_offsets f))"
    using sink_fineD [OF assms(2,3)] by blast
  let ?i = "sk_id sk"
  define sg where "sg = sink_files w sk"
  have sg: "sg_body sg = bytes_of (fi_body f)" "sg_offsets sg = bytes_of (fi_offsets f)" "sg_manifest sg = encode_manifest (sk_manifest sk)"
    using f(1,2) by (simp_all add: sg_def sink_files_def holds_def)
  obtain q sk' sg' where a: "append_chunk H fault at bytes (sk, sg) = (q, sk', sg')"
    by (cases "append_chunk H fault at bytes (sk, sg)") auto
  have st: "stage_stores H ?i (sk_manifest sk) (sg_body sg) (sg_offsets sg) n" using f(2) sg by (simp add: holds_def)
  have at: "sink_at H sk (sg_body sg) (sg_offsets sg)" if "\<not> sk_poisoned sk" using f(3) [OF that] sg by simp
  obtain n' where n': "n' \<ge> n" "stage_stores H ?i (sk_manifest sk) (sg_body sg') (sg_offsets sg') n'"
      "take n (sg_body sg') = take n (sg_body sg)" "sg_manifest sg' = sg_manifest sg" "sk_id sk' = ?i"
      "sk_manifest sk' = sk_manifest sk" "\<not> sk_poisoned sk' \<longrightarrow> sink_at H sk' (sg_body sg') (sg_offsets sg')"
    using append_keeps [OF assms(1) st refl refl at a] by blast
  define f' where "f' = \<lparr>fi_manifest = Some (sg_manifest sg'), fi_body = Some (sg_body sg'), fi_offsets = Some (sg_offsets sg')\<rparr>"
  have w': "r = Some q" "w' = w\<lparr>xw_sinks := (xw_sinks w)(slot := Some sk'), xw_root := put_files ?i f' (xw_root w)\<rparr>"
    using assms(3,4) a by (simp_all add: append_at_def sg_def f'_def)
  let ?st' = "xr_stages (put_files ?i f' (xw_root w))"
  have h': "holds H ?i f' (sk_manifest sk) n'" using n' sg(3) by (simp add: f'_def holds_def)
  have new: "map_of ?st' ?i = Some f'" using f(1) map_of_put [of ?i f' _ ?i] by simp
  have other: "map_of ?st' j = map_of (xr_stages (xw_root w)) j" if "j \<noteq> ?i" for j
    using that map_of_put [of ?i f' _ j] by simp
  have same: "take n (bytes_of (fi_body f')) = take n (bytes_of (fi_body f))" using n'(3) sg(1) by (simp add: f'_def)
  have we: "weight f' \<le> weight f" using f(2) h' by (simp add: holds_weight)
  have ok: "stages_ok H ?st'"
    using stages_ok_put [OF _ f(1) holds_ok [OF h'] we] assms(2) by (simp add: xfer_ok_def)
  show to: "touches H ?i (xr_stages (xw_root w)) (xr_stages (xw_root w'))"
    using touches_put [OF assms(1) f(1,2) h' n'(1) same] w'(2) by simp
  show "whole (xr_stages (xw_root w)) \<Longrightarrow> whole (xr_stages (xw_root w'))"
    using whole_put holds_whole [OF h'] w'(2) by simp
  have fine': "sink_fine H ?st' sk'"
    unfolding sink_fine_def n'(5,6) using new h' n'(7) by (intro exI [of _ f'] exI [of _ n']) (simp add: f'_def)
  have fine: "sink_fine H ?st' k" if k: "xw_sinks w t = Some k" "t \<noteq> slot" for t k
  proof -
    have "sk_id k \<noteq> ?i" using world_ok_unique [OF assms(2) k(1) assms(3)] k(2) by blast
    then have eq: "map_of ?st' (sk_id k) = map_of (xr_stages (xw_root w)) (sk_id k)" by (rule other)
    have "sink_fine H (xr_stages (xw_root w)) k" using assms(2) k(1) unfolding xfer_ok_def by blast
    then show ?thesis by (simp only: sink_fine_def eq)
  qed
  show "xfer_ok H w'"
  proof -
    have io: "init_ok (put_files ?i f' (xw_root w))" using assms(2) by (simp add: xfer_ok_def)
    have slot: "slot < MAX_OWNERS" using assms(2,3) by (simp add: xfer_ok_def)
    have old: "s < MAX_OWNERS" if "xw_sinks w s = Some k" for s k using assms(2) that by (simp add: xfer_ok_def)
    have each: "s < MAX_OWNERS \<and> sink_fine H ?st' k" if "((xw_sinks w)(slot := Some sk')) s = Some k" for s k
      using that fine [of s k] fine' slot old [of s k] by (cases "s = slot") simp_all
    have all: "s = t" if "((xw_sinks w)(slot := Some sk')) s = Some k" "((xw_sinks w)(slot := Some sk')) t = Some k'"
        "sk_id k = sk_id k'" for s t k k'
      by (rule unique_update [OF assms(2,3) n'(5) that])
    have sinks: "xw_sinks w' = (xw_sinks w)(slot := Some sk')" and root: "xw_root w' = put_files ?i f' (xw_root w)"
      using w'(2) by simp_all
    show ?thesis unfolding xfer_ok_def sinks root using ok io each all by blast
  qed
  assume r: "r = Some (Inr p)"
  then have q: "q = Inr p" using w'(1) by simp
  have body: "sg_body (sink_files w' sk) = sg_body sg'"
    using new w'(2) by (simp add: sink_files_def f'_def)
  have np: "\<not> sk_poisoned sk"
  proof
    assume "sk_poisoned sk"
    then show False using a q by (simp add: append_chunk_def)
  qed
  have so: "sk_offset sk = length (sg_body sg)" using at [OF np] by (simp add: sink_at_def)
  have ans: "\<not> sk_poisoned sk'" "at + length bytes \<le> sk_offset sk'" "take (length bytes) (drop at (sg_body sg')) = bytes"
    using append_answers [OF np so] a q by simp_all
  then show "take (length bytes) (drop at (sg_body (sink_files w' sk))) = bytes" using body by simp
  have "n' = length (sg_body sg')" using sink_at_stores [OF assms(1) n'(2,5,6)] n'(7) ans(1) by simp
  moreover have "sk_offset sk' = length (sg_body sg')" using n'(7) ans(1) by (simp add: sink_at_def)
  ultimately have "at + length bytes \<le> n'" using ans(2) by simp
  then show "vouches H ?i (sk_manifest sk) (at + length bytes) (take (at + length bytes) (sg_body (sink_files w' sk)))
      (xr_stages (xw_root w'))"
    unfolding vouches_def using new h' body w'(2) by (intro exI [of _ f'] exI [of _ n']) (simp add: f'_def)
qed

lemma receive_world:
  assumes "hash_len H" and "xfer_ok H w" and "arrays m" and "receive_stage H fault m owners (xw_root w) = (r, x)"
    and "owners = owners_of w"
  shows "opened H owners (H (encode_manifest m)) (xw_root w) (case r of Inl e \<Rightarrow> Inl e | Inr s \<Rightarrow> Inr (Some s)) x"
proof -
  obtain q where q: "open_stage H fault m True owners (xw_root w) = (q, x)"
      "r = and_then q (\<lambda>s. case s of None \<Rightarrow> Inl (InvalidStage ''new stage was not initialized'') | Some ss \<Rightarrow> Inr ss)"
    using assms(4) by (auto simp: receive_stage_def split: prod.splits)
  have o': "opened H owners (H (encode_manifest m)) (xw_root w) q x"
    using open_stage_opened [OF assms(1) _ _ assms(3) q(1)] assms(2) by (simp add: xfer_ok_def)
  show ?thesis
  proof (cases "\<exists>ss. q = Inr (Some ss)")
    case True
    then show ?thesis using o' q(2) by auto
  next
    case False
    then have "\<exists>e. r = Inl e" using q(2) by (cases q) (auto split: option.splits)
    then show ?thesis using o' unfolding opened_def by auto
  qed
qed

lemma open_existing_world:
  assumes "hash_len H" and "xfer_ok H w" and "arrays m" and "open_existing H fault m (owners_of w) (xw_root w) = (r, x)"
  shows "opened H (owners_of w) (H (encode_manifest m)) (xw_root w) r x"
proof (cases "validate m")
  case (Inl e)
  then show ?thesis using assms(2,4) by (intro opened_same) (auto simp: open_existing_def xfer_ok_def)
next
  case (Inr u)
  then have "open_stage H fault m False (owners_of w) (xw_root w) = (r, x)" using assms(4) by (simp add: open_existing_def)
  then show ?thesis using open_stage_opened [OF assms(1) _ _ assms(3)] assms(2) by (simp add: xfer_ok_def)
qed

text \<open>One step: the invariant, every stage's bytes unless it is cancelled, and no stage torn by a clean one.\<close>

lemma opened_step:
  assumes "xfer_ok H w" and "opened H (owners_of w) i (xw_root w) r x"
    and "w' = w\<lparr>xw_root := x\<rparr> \<or> (\<exists>slot sk. r = Inr (Some (slot, sk)) \<and> w' = w\<lparr>xw_root := x, xw_sinks := (xw_sinks w)(slot := Some sk)\<rparr>)"
  shows "xfer_ok H w' \<and>
    (\<forall>j m n pre. vouches H j m n pre (xr_stages (xw_root w)) \<longrightarrow> vouches H j m n pre (xr_stages (xw_root w'))) \<and>
    (whole (xr_stages (xw_root w)) \<longrightarrow> whole (xr_stages (xw_root w')))"
proof -
  have "xfer_ok H w'" using assms(3) opened_world [OF assms(1,2)] by auto
  moreover have "xw_root w' = x" using assms(3) by auto
  ultimately show ?thesis using assms(2) by (simp add: opened_def touches_def)
qed

lemma xfer_step_keeps:
  assumes "hash_len H" and "xfer_ok H w" and "typed a"
  shows "xfer_ok H (xfer_step H w a) \<and>
    (\<forall>j m n pre. \<not> cancels H j a \<longrightarrow> vouches H j m n pre (xr_stages (xw_root w)) \<longrightarrow>
       vouches H j m n pre (xr_stages (xw_root (xfer_step H w a)))) \<and>
    (clean a \<longrightarrow> whole (xr_stages (xw_root w)) \<longrightarrow> whole (xr_stages (xw_root (xfer_step H w a))))"
proof (cases a)
  case (Receive fault m)
  obtain r x where r: "receive_stage H fault m (owners_of w) (xw_root w) = (r, x)" by (cases "receive_stage H fault m (owners_of w) (xw_root w)")
  note o' = receive_world [OF assms(1,2) _ r refl]
  show ?thesis
    using opened_step [OF assms(2) o', of "xfer_step H w a"] Receive r assms(3) by (cases r) auto
next
  case (OpenExisting fault m)
  obtain r x where r: "open_existing H fault m (owners_of w) (xw_root w) = (r, x)"
    by (cases "open_existing H fault m (owners_of w) (xw_root w)")
  note o' = open_existing_world [OF assms(1,2) _ r]
  show ?thesis
    using opened_step [OF assms(2) o', of "xfer_step H w a"] OpenExisting r assms(3)
    by (auto split: sum.split option.split)
next
  case (Reserved ok clear listing)
  obtain g x where g: "gate ok clear (xw_root w) = (g, x)" by (cases "gate ok clear (xw_root w)")
  have i: "init_ok (xw_root w)" using assms(2) by (simp add: xfer_ok_def)
  note gk = gate_keeps [OF i g]
  have x: "xfer_step H w a = w\<lparr>xw_root := x\<rparr>"
    using Reserved g by (auto simp: reserved_bytes_def split: sum.split)
  have "xfer_ok H (w\<lparr>xw_root := x\<rparr>)"
    by (rule world_ok_root [OF assms(2)]) (use gk assms(2) in \<open>auto simp: xfer_ok_def\<close>)
  then show ?thesis using x gk(2) by simp
next
  case (Append slot fault at bytes)
  show ?thesis
  proof (cases "xw_sinks w slot")
    case None
    then show ?thesis using Append assms(2) by (simp add: append_at_def)
  next
    case (Some sk)
    obtain r w' where r: "append_at H fault slot at bytes w = (r, w')" by (cases "append_at H fault slot at bytes w")
    show ?thesis using append_world(1-3) [OF assms(1,2) Some r] Append r by (simp add: touches_def)
  qed
next
  case (DropSink slot)
  then show ?thesis using assms(2) by (auto simp: xfer_ok_def split: if_splits)
next
  case (Cancel fault m)
  obtain r x where r: "cancel_stage H fault m (owners_of w) (xw_root w) = (r, x)" by (cases "cancel_stage H fault m (owners_of w) (xw_root w)")
  have io: "stages_ok H (xr_stages (xw_root w))" "init_ok (xw_root w)" using assms(2) by (simp_all add: xfer_ok_def)
  note ck = cancel_keeps [OF io r]
  have "map_of (xr_stages x) (sk_id sk) = map_of (xr_stages (xw_root w)) (sk_id sk)" if s: "xw_sinks w s = Some sk" for s sk
  proof (cases "sk_id sk = H (encode_manifest m)")
    case True
    have "s < MAX_OWNERS \<and> owners_of w s = Some (H (encode_manifest m))"
      using assms(2) s True by (simp add: xfer_ok_def owners_of_def)
    then have "xr_stages x = xr_stages (xw_root w)" by (intro ck(4)) blast
    then show ?thesis by simp
  next
    case False
    then show ?thesis by (rule ck(3))
  qed
  then have "xfer_ok H (w\<lparr>xw_root := x\<rparr>)" by (intro world_ok_root [OF assms(2) ck(1,2)])
  moreover have "vouches H j k n pre (xr_stages x)"
    if "j \<noteq> H (encode_manifest m)" "vouches H j k n pre (xr_stages (xw_root w))" for j k n pre
    using that ck(3) by (simp add: vouches_def)
  ultimately show ?thesis using Cancel r ck(5) by auto
next
  case Crash
  then show ?thesis using assms(2) by (simp add: xfer_ok_def)
qed

text \<open>
  The three contracts of the directory: the invariant, the vouched-for bytes of a stage nobody
  cancels, and that no stage is torn when no cancelling was cut short.
\<close>

interpretation xfer_bytes: kept_promise "xfer_step H" "xfer_ok H" "\<lambda>_ a. hash_len H \<and> typed a"
    "\<lambda>(i, m, n, pre) w. vouches H i m n pre (xr_stages (xw_root w))" "\<lambda>(i, m, n, pre) a. \<not> cancels H i a" for H
  by unfold_locales (use xfer_step_keeps in auto)

interpretation xfer_whole: kept_promise "xfer_step H" "xfer_ok H" "\<lambda>_ a. hash_len H \<and> typed a"
    "\<lambda>_ w. whole (xr_stages (xw_root w))" "\<lambda>_. clean" for H
  by unfold_locales (use xfer_step_keeps in auto)

lemma xfer_run_keeps:
  assumes "hash_len H" and "xfer_ok H w" and "\<And>a. a \<in> set acts \<Longrightarrow> typed a"
  shows "xfer_ok H (run_inputs (xfer_step H) w acts)"
    "(\<And>a. a \<in> set acts \<Longrightarrow> \<not> cancels H j a) \<Longrightarrow> vouches H j m n pre (xr_stages (xw_root w)) \<Longrightarrow>
      vouches H j m n pre (xr_stages (xw_root (run_inputs (xfer_step H) w acts)))"
    "(\<And>a. a \<in> set acts \<Longrightarrow> clean a) \<Longrightarrow> whole (xr_stages (xw_root w)) \<Longrightarrow>
      whole (xr_stages (xw_root (run_inputs (xfer_step H) w acts)))"
  using xfer_bytes.run_keeps [OF assms(2), of acts] xfer_bytes.promise_run [OF assms(2), of acts "(j, m, n, pre)"]
    xfer_whole.promise_run [OF assms(2), of acts] assms(1,3)
  by auto

section \<open>What the directory guarantees\<close>

definition run_from :: "(byte list \<Rightarrow> byte list) \<Rightarrow> xfer_world \<Rightarrow> xfer_act list \<Rightarrow> xfer_world" where
  "run_from H w acts = run_inputs (xfer_step H) w acts"

lemma vouches_recovers:
  assumes "hash_len H" and "vouches H (sk_id sk) (sk_manifest sk) n pre (xr_stages (xw_root w))"
  shows "\<exists>offset hashed sg. recover_stage H (\<lambda>_. True) (sk_id sk) (total_bytes (sk_manifest sk)) (sink_files w sk) =
    (Inr (offset, hashed), sg) \<and> n \<le> offset \<and> take n hashed = pre"
proof -
  obtain f n' where f: "map_of (xr_stages (xw_root w)) (sk_id sk) = Some f" "holds H (sk_id sk) f (sk_manifest sk) n'"
      "n \<le> n'" "take n (bytes_of (fi_body f)) = pre"
    using assms(2) by (auto simp: vouches_def)
  obtain r sg where r: "recover_stage H (\<lambda>_. True) (sk_id sk) (total_bytes (sk_manifest sk)) (sink_files w sk) = (r, sg)"
    by (cases "recover_stage H (\<lambda>_. True) (sk_id sk) (total_bytes (sk_manifest sk)) (sink_files w sk)")
  have body: "sg_body (sink_files w sk) = bytes_of (fi_body f)" using f(1) by (simp add: sink_files_def)
  have "stage_stores H (sk_id sk) (sk_manifest sk) (sg_body (sink_files w sk)) (sg_offsets (sink_files w sk)) n'"
    using f(1,2) by (simp add: sink_files_def holds_def)
  from recover_keeps [OF assms(1) this r] obtain offset hashed where
    "r = Inr (offset, hashed)" "offset = n'" "hashed = take n' (bytes_of (fi_body f))"
    using body by (cases r) auto
  then show ?thesis using r f(3,4) by (auto simp: min_def)
qed

lemma acknowledged_vouches:
  assumes "hash_len H" and "\<forall>a \<in> set (acts @ later). typed a" and "w = run_from H new_world acts"
    and "xw_sinks w slot = Some sk" and "append_at H fault slot at bytes w = (Some (Inr p), w')"
    and "\<forall>a \<in> set later. \<not> cancels H (sk_id sk) a"
  shows "xfer_ok H (run_from H w' later)"
    "\<exists>pre. take (length bytes) (drop at pre) = bytes \<and>
      vouches H (sk_id sk) (sk_manifest sk) (at + length bytes) pre (xr_stages (xw_root (run_from H w' later)))"
    "\<forall>a \<in> set (acts @ later). clean a \<Longrightarrow> whole (xr_stages (xw_root (run_from H w' later)))"
proof -
  have w: "xfer_ok H w"
    unfolding assms(3) run_from_def by (rule xfer_run_keeps(1) [OF assms(1) world_ok_new]) (use assms(2) in auto)
  note aw = append_world [OF assms(1) w assms(4,5)]
  have ty: "\<And>a. a \<in> set later \<Longrightarrow> typed a" using assms(2) by simp
  show "xfer_ok H (run_from H w' later)"
    unfolding run_from_def by (rule xfer_run_keeps(1) [OF assms(1) aw(1) ty])
  show "\<exists>pre. take (length bytes) (drop at pre) = bytes \<and>
      vouches H (sk_id sk) (sk_manifest sk) (at + length bytes) pre (xr_stages (xw_root (run_from H w' later)))"
  proof (intro exI conjI)
    show "take (length bytes) (drop at (take (at + length bytes) (sg_body (sink_files w' sk)))) = bytes"
      using aw(5) [OF refl] by (simp add: drop_take)
    show "vouches H (sk_id sk) (sk_manifest sk) (at + length bytes) (take (at + length bytes) (sg_body (sink_files w' sk)))
        (xr_stages (xw_root (run_from H w' later)))"
      unfolding run_from_def by (rule xfer_run_keeps(2) [OF assms(1) aw(1) ty]) (use assms(6) aw(4) in auto)
  qed
  show "whole (xr_stages (xw_root (run_from H w' later)))" if c: "\<forall>a \<in> set (acts @ later). clean a"
  proof -
    have "whole (xr_stages (xw_root w))"
      unfolding assms(3) run_from_def
      by (rule xfer_run_keeps(3) [OF assms(1) world_ok_new]) (use assms(2) c in \<open>auto simp: whole_def new_world_def empty_root_def\<close>)
    then show ?thesis unfolding run_from_def by (intro xfer_run_keeps(3) [OF assms(1) aw(1) ty] aw(3)) (use c in auto)
  qed
qed

text \<open>
  C4: Bytes whose append was acknowledged stay readable: whatever operations, failed writes, failed syncs
  and crashes follow, short of cancelling that transfer, recovering its stage succeeds, at an
  offset past them, and gives them back where they were put.
\<close>

theorem acknowledged_bytes_survive:
  assumes "hash_len H" and "\<forall>a \<in> set (acts @ later). typed a" and "w = run_from H new_world acts"
    and "xw_sinks w slot = Some sk" and "append_at H fault slot at bytes w = (Some (Inr p), w')"
    and "\<forall>a \<in> set later. \<not> cancels H (sk_id sk) a"
  shows "\<exists>offset hashed sg.
    recover_stage H (\<lambda>_. True) (sk_id sk) (total_bytes (sk_manifest sk)) (sink_files (run_from H w' later) sk) =
      (Inr (offset, hashed), sg) \<and> at + length bytes \<le> offset \<and> take (length bytes) (drop at hashed) = bytes"
proof -
  obtain pre where pre: "take (length bytes) (drop at pre) = bytes"
      "vouches H (sk_id sk) (sk_manifest sk) (at + length bytes) pre (xr_stages (xw_root (run_from H w' later)))"
    using acknowledged_vouches(2) [OF assms] by blast
  obtain offset hashed sg where r: "recover_stage H (\<lambda>_. True) (sk_id sk) (total_bytes (sk_manifest sk))
      (sink_files (run_from H w' later) sk) = (Inr (offset, hashed), sg)" "at + length bytes \<le> offset"
      "take (at + length bytes) hashed = pre"
    using vouches_recovers [OF assms(1) pre(2)] by blast
  have "take (length bytes) (drop at hashed) = bytes"
    using pre(1) unfolding r(3) [symmetric] by (simp add: drop_take)
  then show ?thesis using r by blast
qed

section \<open>Taking up after a crash\<close>

lemma whole_entry: "stages_ok H st \<Longrightarrow> whole st \<Longrightarrow> e \<in> set st \<Longrightarrow> \<exists>m n. holds H (fst e) (snd e) m n"
  by (auto simp: stages_ok_def whole_def files_ok_def)

lemma reservations_whole:
  assumes "stages_ok H (xr_stages x)" and "whole (xr_stages x)" and "init_ok x"
  shows "\<exists>b n. reservations H True x = Inr (b, n)"
proof -
  have s: "sum_list (map (\<lambda>e. weight (snd e)) (xr_stages x)) \<le> MAX_RESERVED_BYTES" "length (xr_stages x) \<le> MAX_RETAINED_STAGES"
    using assms(1) by (simp_all add: stages_ok_def)
  have all: "\<forall>e \<in> set (xr_stages x). \<exists>m n. holds H (fst e) (snd e) m n"
    by (intro ballI whole_entry [OF assms(1,2)])
  have "0 + sum_list (map (\<lambda>e. weight (snd e)) (xr_stages x)) \<le> u64_max"
    using s(1) by (simp add: MAX_RESERVED_BYTES_def u64_max_def)
  moreover have "0 + length (xr_stages x) \<le> MAX_RETAINED_STAGES" using s(2) by simp
  ultimately have "tally_stages H (xr_stages x) (0, 0) = Inr (0 + sum_list (map (\<lambda>e. weight (snd e)) (xr_stages x)), 0 + length (xr_stages x))"
    by (rule tally_whole [OF all])
  then show ?thesis using s assms(3) by (simp add: reservations_def init_ok_iff)
qed

lemma opens_whole:
  assumes "hash_len H" and "stages_ok H (xr_stages x)" and "whole (xr_stages x)" and "init_ok x"
    and "vouches H i m n pre (xr_stages x)"
  shows "\<exists>slot sk x'. receive_stage H no_open_fault m (\<lambda>_. None) x = (Inr (slot, sk), x') \<and>
    sk_id sk = i \<and> n \<le> sk_offset sk \<and> take n (sk_hashed sk) = pre"
proof -
  obtain f k where f: "map_of (xr_stages x) i = Some f" "holds H i f m k" "n \<le> k" "take n (bytes_of (fi_body f)) = pre"
    using assms(5) by (auto simp: vouches_def)
  have id: "manifest_id H m = Inr i" using f(2) by (auto simp: holds_def stage_stores_def manifest_ok_def manifest_id_def)
  obtain g x1 where g: "gate True None x = (g, x1)" by (cases "gate True None x")
  note gk = gate_keeps [OF assms(4) g]
  have g1: "g = Inr ()" using gk(4) by simp
  obtain b c where re: "reservations H True x1 = Inr (b, c)"
    using reservations_whole [of H x1] assms(2,3) gk(1,2) by auto
  obtain slot where slot: "available_owner (\<lambda>_. True) i (\<lambda>_. None) = Inr slot"
    using available_owner_found [of "\<lambda>_. True" "\<lambda>_. None" i 0] by (auto simp: MAX_OWNERS_def)
  obtain r x' where t: "take_up H no_open_fault m i slot x1 = (r, x')" by (cases "take_up H no_open_fault m i slot x1")
  have o': "open_stage H no_open_fault m True (\<lambda>_. None) x = (r, x')"
    using id g g1 re slot t f(1) gk(2) by (simp add: open_stage_def no_open_fault_def Let_def)
  have ok1: "stages_ok H (xr_stages x1)" using assms(2) gk(2) by simp
  show ?thesis
    using assms(1) ok1 t
  proof (cases rule: take_up_ends)
    case refused
    then show ?thesis using f(1,2) gk(2) by auto
  next
    case (recovered f0 f' k')
    have "f0 = f" using recovered(1) f(1) gk(2) by simp
    then have "k' = k" using recovered(2) f(2) stage_stores_unique [OF assms(1)] by (auto simp: holds_def)
    obtain sk where sk: "r = Inr (Some (slot, sk))" "sk_id sk = i" "sk_manifest sk = m"
        "sink_at H sk (bytes_of (fi_body f')) (bytes_of (fi_offsets f'))"
      using recovered(6) by (auto simp: no_open_fault_def)
    have "k = length (bytes_of (fi_body f'))"
      using sink_at_stores [OF assms(1) _ sk(2,3,4)] recovered(3) \<open>k' = k\<close> by (auto simp: holds_def)
    then have "k \<le> sk_offset sk" "sk_hashed sk = bytes_of (fi_body f')" using sk(4) by (simp_all add: sink_at_def)
    moreover have "take n (bytes_of (fi_body f')) = pre"
      using recovered(4) f(3,4) \<open>f0 = f\<close> \<open>k' = k\<close> by (metis min.absorb1 take_take)
    ultimately show ?thesis using o' sk f(3) by (simp add: receive_stage_def)
  qed
qed

text \<open>
  C23: A transfer goes on after a crash: with no cancelling cut short before, receiving the same manifest
  again after a crash at any point succeeds, and the new sink stands past every byte that was
  acknowledged and has hashed it.
\<close>

theorem crashed_transfer_goes_on:
  assumes "hash_len H" and "\<forall>a \<in> set (acts @ later). typed a" and "w = run_from H new_world acts"
    and "xw_sinks w slot = Some sk" and "append_at H fault slot at bytes w = (Some (Inr p), w')"
    and "\<forall>a \<in> set later. \<not> cancels H (sk_id sk) a" and "\<forall>a \<in> set (acts @ later). clean a"
    and "w2 = xfer_step H (run_from H w' later) Crash"
  shows "\<exists>slot2 sk2 x2. receive_stage H no_open_fault (sk_manifest sk) (owners_of w2) (xw_root w2) = (Inr (slot2, sk2), x2) \<and>
    sk_id sk2 = sk_id sk \<and> at + length bytes \<le> sk_offset sk2 \<and> take (length bytes) (drop at (sk_hashed sk2)) = bytes"
proof -
  note v = acknowledged_vouches [OF assms(1-6)]
  obtain pre where pre: "take (length bytes) (drop at pre) = bytes"
      "vouches H (sk_id sk) (sk_manifest sk) (at + length bytes) pre (xr_stages (xw_root (run_from H w' later)))"
    using v(2) by blast
  have ok: "stages_ok H (xr_stages (xw_root w2))" "init_ok (xw_root w2)"
    using v(1) by (simp_all add: xfer_ok_def assms(8))
  have wh: "whole (xr_stages (xw_root w2))" using v(3) [OF assms(7)] by (simp add: assms(8))
  have v2: "vouches H (sk_id sk) (sk_manifest sk) (at + length bytes) pre (xr_stages (xw_root w2))"
    using pre(2) by (simp add: assms(8))
  have ow: "owners_of w2 = (\<lambda>_. None)" by (simp add: owners_of_def fun_eq_iff assms(8))
  obtain slot2 sk2 x2 where r: "receive_stage H no_open_fault (sk_manifest sk) (\<lambda>_. None) (xw_root w2) = (Inr (slot2, sk2), x2)"
      "sk_id sk2 = sk_id sk" "at + length bytes \<le> sk_offset sk2" "take (at + length bytes) (sk_hashed sk2) = pre"
    using opens_whole [OF assms(1) ok(1) wh ok(2) v2] by blast
  have "take (length bytes) (drop at (sk_hashed sk2)) = bytes"
    using pre(1) unfolding r(4) [symmetric] by (simp add: drop_take)
  then show ?thesis using r ow by auto
qed

text \<open>
  What is stored stays within the quota: after any run, the bodies of all stages together are at
  most 128 MiB and there are at most 64 of them, failed and torn ones included.
\<close>

theorem staged_bytes_within_quota:
  assumes "hash_len H" and "\<forall>a \<in> set acts. typed a"
  shows "sum_list (map (\<lambda>e. length (bytes_of (fi_body (snd e)))) (xr_stages (xw_root (run_from H new_world acts)))) \<le> 128 * 1024 * 1024 \<and>
    length (xr_stages (xw_root (run_from H new_world acts))) \<le> 64"
proof -
  let ?st = "xr_stages (xw_root (run_from H new_world acts))"
  have ok: "stages_ok H ?st"
    using xfer_run_keeps(1) [OF assms(1) world_ok_new] assms(2) by (simp add: run_from_def xfer_ok_def)
  have "sum_list (map (\<lambda>e. length (bytes_of (fi_body (snd e)))) ?st) \<le> sum_list (map (\<lambda>e. weight (snd e)) ?st)"
    by (rule sum_list_mono) (use ok in \<open>simp add: stages_ok_def files_ok_def\<close>)
  then show ?thesis using ok by (simp add: stages_ok_def MAX_RESERVED_BYTES_def MAX_RETAINED_STAGES_def)
qed

text \<open>
  Only verified bytes are read: when a sink lets its body be read, the body is as long as the manifest
  declares and has the declared digest, and what is read is the asked for slice of it.
\<close>

theorem only_verified_bytes_are_read:
  assumes "hash_len H" and "\<forall>a \<in> set acts. typed a" and "w = run_from H new_world acts" and "xw_sinks w slot = Some sk"
    and "read_verified H ok at n (sk, sink_files w sk) = Inr bs"
  shows "length (sg_body (sink_files w sk)) = total_bytes (sk_manifest sk) \<and>
    H (sg_body (sink_files w sk)) = digest (sk_manifest sk) \<and> bs = take n (drop at (sg_body (sink_files w sk)))"
proof -
  have "xfer_ok H w" unfolding assms(3) run_from_def by (rule xfer_run_keeps(1) [OF assms(1) world_ok_new]) (use assms(2) in auto)
  from sink_fineD [OF this assms(4)] obtain f k where f: "map_of (xr_stages (xw_root w)) (sk_id sk) = Some f"
      "holds H (sk_id sk) f (sk_manifest sk) k"
      "\<not> sk_poisoned sk \<longrightarrow> sink_at H sk (bytes_of (fi_body f)) (bytes_of (fi_offsets f))" by blast
  have body: "sg_body (sink_files w sk) = bytes_of (fi_body f)" using f(1) by (simp add: sink_files_def)
  have p: "\<not> sk_poisoned sk" "sk_offset sk = total_bytes (sk_manifest sk)" "H (sk_hashed sk) = digest (sk_manifest sk)"
      "bs = take n (drop at (sg_body (sink_files w sk)))"
    using assms(5) by (auto simp: read_verified_def progress_of_def split: if_splits progress.splits)
  then show ?thesis using f(3) body by (simp add: sink_at_def)
qed

section \<open>A cancelling cut short\<close>

text \<open>A stage whose manifest is gone: the store can neither reserve nor cancel it.\<close>

definition orphan :: "byte list \<Rightarrow> (byte list \<times> files) list \<Rightarrow> bool" where
  "orphan i st \<longleftrightarrow> (\<exists>f. map_of st i = Some f \<and> fi_manifest f = None)"

lemma orphan_refuses: "orphan i (xr_stages x) \<Longrightarrow> \<exists>e. reservations H ok x = Inl e"
proof -
  assume "orphan i (xr_stages x)"
  then obtain f where f: "(i, f) \<in> set (xr_stages x)" "fi_manifest f = None"
    by (auto simp: orphan_def dest: map_of_SomeD)
  show ?thesis
  proof (cases "reservations H ok x")
    case (Inr p)
    then have "fi_manifest (snd (i, f)) \<noteq> None"
      using reservations_Inr(3) [of H ok x "fst p" "snd p"] f(1) by (metis prod.collapse)
    then show ?thesis using f(2) by simp
  qed auto
qed

lemma orphan_open:
  assumes "init_ok x" and "orphan i (xr_stages x)" and "open_stage H fault m c owners x = (r, x')"
  shows "(\<exists>e. r = Inl e) \<and> xr_stages x' = xr_stages x"
proof -
  obtain g x1 where g: "gate (of_gate fault) (of_clear fault) x = (g, x1)" by (cases "gate (of_gate fault) (of_clear fault) x")
  have st: "xr_stages x1 = xr_stages x" by (rule gate_keeps(2) [OF assms(1) g])
  obtain e where "reservations H (of_list fault) x1 = Inl e"
    using orphan_refuses [of i x1 H "of_list fault"] assms(2) st by auto
  then show ?thesis
    using assms(3) g st by (auto simp: open_stage_def split: sum.splits)
qed

lemma orphan_cancel:
  assumes "init_ok x" and "orphan i (xr_stages x)" and "cancel_stage H fault m owners x = (r, x')"
  shows "orphan i (xr_stages x')" "H (encode_manifest m) = i \<Longrightarrow> \<exists>e. r = Inl e"
proof -
  obtain f where f: "map_of (xr_stages x) i = Some f" "fi_manifest f = None" using assms(2) by (auto simp: orphan_def)
  obtain g x1 where g: "gate (cf_gate fault) (cf_clear fault) x = (g, x1)" by (cases "gate (cf_gate fault) (cf_clear fault) x")
  have st: "xr_stages x1 = xr_stages x" by (rule gate_keeps(2) [OF assms(1) g])
  have rd: "read_manifest f = Inl IoFailed" using f(2) by (simp add: read_manifest_def)
  show "\<exists>e. r = Inl e" if "H (encode_manifest m) = i"
    using assms(3) g st f rd that
    by (auto simp: cancel_stage_def manifest_id_def split: sum.splits)
  show "orphan i (xr_stages x')"
  proof (cases "H (encode_manifest m) = i")
    case True
    then have "xr_stages x' = xr_stages x"
      using assms(3) g st f rd by (auto simp: cancel_stage_def manifest_id_def split: sum.splits)
    then show ?thesis using assms(2) by simp
  next
    case False
    show ?thesis
    proof (cases "x' = x \<or> x' = x1")
      case True
      then show ?thesis using assms(2) st by auto
    next
      case changed: False
      have "map_of (xr_stages x') i = map_of (xr_stages x) i"
        using assms(3) g st False changed map_of_filter_other [of i "H (encode_manifest m)" "xr_stages x"]
        by (auto simp: cancel_stage_def manifest_id_def map_of_put split: sum.splits option.splits if_splits)
      then show ?thesis using assms(2) by (simp add: orphan_def)
    qed
  qed
qed

lemma orphan_step:
  assumes "hash_len H" and "xfer_ok H w" and "typed a" and "orphan i (xr_stages (xw_root w))"
  shows "orphan i (xr_stages (xw_root (xfer_step H w a)))"
proof (cases a)
  case (Receive fault m)
  obtain r x where r: "open_stage H fault m True (owners_of w) (xw_root w) = (r, x)"
    by (cases "open_stage H fault m True (owners_of w) (xw_root w)")
  have "init_ok (xw_root w)" using assms(2) by (simp add: xfer_ok_def)
  from orphan_open [OF this assms(4) r] show ?thesis using assms(4) r Receive by (auto simp: receive_stage_def)
next
  case (OpenExisting fault m)
  obtain r x where r: "open_stage H fault m False (owners_of w) (xw_root w) = (r, x)"
    by (cases "open_stage H fault m False (owners_of w) (xw_root w)")
  have "init_ok (xw_root w)" using assms(2) by (simp add: xfer_ok_def)
  from orphan_open [OF this assms(4) r] show ?thesis
    using assms(4) r OpenExisting by (cases "validate m") (auto simp: open_existing_def)
next
  case (Reserved ok clear listing)
  obtain g x where g: "gate ok clear (xw_root w) = (g, x)" by (cases "gate ok clear (xw_root w)")
  have "init_ok (xw_root w)" using assms(2) by (simp add: xfer_ok_def)
  from gate_keeps(2) [OF this g] show ?thesis
    using assms(4) Reserved g by (auto simp: reserved_bytes_def split: sum.split)
next
  case (Append slot fault at bytes)
  show ?thesis
  proof (cases "xw_sinks w slot")
    case None
    then show ?thesis using Append assms(4) by (simp add: append_at_def)
  next
    case (Some sk)
    obtain r w' where r: "append_at H fault slot at bytes w = (r, w')" by (cases "append_at H fault slot at bytes w")
    have "sk_id sk \<noteq> i"
      using sink_fineD [OF assms(2) Some] assms(4) by (auto simp: orphan_def holds_def)
    then show ?thesis
      using append_world(2) [OF assms(1,2) Some r] Append r assms(4) by (simp add: touches_def orphan_def)
  qed
next
  case (Cancel fault m)
  obtain r x where r: "cancel_stage H fault m (owners_of w) (xw_root w) = (r, x)" by (cases "cancel_stage H fault m (owners_of w) (xw_root w)")
  have "init_ok (xw_root w)" using assms(2) by (simp add: xfer_ok_def)
  from orphan_cancel(1) [OF this assms(4) r] show ?thesis using Cancel r by simp
qed (use assms(4) in simp_all)

interpretation xfer_orphan: kept_promise "xfer_step H" "xfer_ok H" "\<lambda>_ a. hash_len H \<and> typed a"
    "\<lambda>i w. orphan i (xr_stages (xw_root w))" "\<lambda>_ _. True" for H
  by unfold_locales (use orphan_step in auto)

text \<open>
  C36: A cancelling that stops once the manifest file is removed blocks the store for good: after any
  further operations and crashes every receive fails, of whichever document, and so does cancelling
  that stage again.
\<close>

theorem interrupted_cancel_blocks_the_store:
  assumes "hash_len H" and "\<forall>a \<in> set (acts @ later). typed a" and "w = run_from H new_world acts"
    and "map_of (xr_stages (xw_root w)) i = Some f" and "fi_manifest f = None" and "w' = run_from H w later"
  shows "(\<exists>e. fst (receive_stage H fault m (owners_of w') (xw_root w')) = Inl e) \<and>
    (H (encode_manifest m) = i \<longrightarrow> (\<exists>e. fst (cancel_stage H cfault m (owners_of w') (xw_root w')) = Inl e))"
proof -
  have w: "xfer_ok H w" unfolding assms(3) run_from_def by (rule xfer_run_keeps(1) [OF assms(1) world_ok_new]) (use assms(2) in auto)
  have o0: "orphan i (xr_stages (xw_root w))" using assms(4,5) by (simp add: orphan_def)
  have w': "xfer_ok H w'" "orphan i (xr_stages (xw_root w'))"
    using xfer_run_keeps(1) [OF assms(1) w] xfer_orphan.promise_run [OF w, of later i] assms(1,2,6) o0 by (auto simp: run_from_def)
  have io: "init_ok (xw_root w')" using w'(1) by (simp add: xfer_ok_def)
  obtain r x where r: "open_stage H fault m True (owners_of w') (xw_root w') = (r, x)"
    by (cases "open_stage H fault m True (owners_of w') (xw_root w')")
  obtain q y where q: "cancel_stage H cfault m (owners_of w') (xw_root w') = (q, y)"
    by (cases "cancel_stage H cfault m (owners_of w') (xw_root w')")
  show ?thesis using orphan_open [OF io w'(2) r] orphan_cancel(2) [OF io w'(2) q] r q by (auto simp: receive_stage_def)
qed

end
