(* ===== verification/StagingDemo.thy ===== *)
theory StagingDemo
  imports StagingGuarantees
begin

text \<open>
  One small transfer, received, appended, crashed and cancelled: the hypotheses of the directory's
  guarantees hold of it.
\<close>

section \<open>A new stage\<close>

text \<open>Receiving a manifest that is not there yet succeeds while the quota has room.\<close>

lemma receive_fresh:
  assumes "hash_len H" and "manifest_ok m" and "i = H (encode_manifest m)" and "stages_ok H (xr_stages x)"
    and "whole (xr_stages x)" and "init_ok x" and "map_of (xr_stages x) i = None"
    and "sum_list (map (\<lambda>e. weight (snd e)) (xr_stages x)) + total_bytes m \<le> MAX_RESERVED_BYTES"
    and "length (xr_stages x) < MAX_RETAINED_STAGES" and slot: "available_owner (\<lambda>_. True) i owners = Inr slot"
  shows "\<exists>sk x'. receive_stage H no_open_fault m owners x = (Inr (slot, sk), x') \<and>
    sk = \<lparr>sk_manifest = m, sk_id = i, sk_offset = 0, sk_hashed = [], sk_poisoned = False\<rparr> \<and>
    xr_stages x' = xr_stages x @ [(i, fresh H m i)]"
proof -
  have id: "manifest_id H m = Inr i" using assms(2,3) by (auto simp: manifest_ok_def manifest_id_def)
  obtain g x1 where g: "gate True None x = (g, x1)" by (cases "gate True None x")
  note gk = gate_keeps [OF assms(6) g]
  have g1: "g = Inr ()" and i1: "xr_init x1 = None" using gk(3,4) by simp_all
  obtain b c where re: "reservations H True x1 = Inr (b, c)"
    using reservations_whole [of H x1] assms(4,5) gk(1,2) by auto
  note bc = reservations_Inr(1,2) [OF re]
  obtain p x2 where p: "initialize_unpublished H no_open_fault m i x1 = (p, x2)"
    by (cases "initialize_unpublished H no_open_fault m i x1")
  note pk = initialize_unpublished_keeps [OF assms(1,2) gk(1) p]
  have "p = Inr ()" by (rule pk(3)) (use i1 assms(7) gk(2) in \<open>simp_all add: no_open_fault_def\<close>)
  then have x2: "p = Inr ()" "xr_stages x2 = xr_stages x @ [(i, fresh H m i)]" using pk(2) gk(2) by auto
  obtain r x' where t: "take_up H no_open_fault m i slot x2 = (r, x')" by (cases "take_up H no_open_fault m i slot x2")
  have o': "open_stage H no_open_fault m True owners x = (r, x')"
    using id g g1 re slot t assms(7-9) gk(2) bc p x2(1) by (simp add: open_stage_def no_open_fault_def Let_def)
  have new: "map_of (xr_stages x2) i = Some (fresh H m i)" using x2(2) assms(7) by (simp add: map_add_def)
  have h: "holds H i (fresh H m i) m 0" by (rule fresh_holds) (use assms in simp_all)
  have rd: "read_manifest (fresh H m i) = Inr m" by (rule holds_read [OF h])
  have st: "stage_stores H i m [] (checkpoint H i 0 (H [])) 0" using h by (simp add: holds_def fresh_def)
  obtain q sg where rec: "recover_stage H (\<lambda>_. True) i (total_bytes m)
      \<lparr>sg_manifest = encode_manifest m, sg_body = [], sg_offsets = checkpoint H i 0 (H [])\<rparr> = (q, sg)"
    by (cases "recover_stage H (\<lambda>_. True) i (total_bytes m)
      \<lparr>sg_manifest = encode_manifest m, sg_body = [], sg_offsets = checkpoint H i 0 (H [])\<rparr>")
  have j0: "journal H i [] 0 = checkpoint H i 0 (H [])"
    by (simp add: journal_def journal_record_def mark_def marks_def CHUNK_BYTES_def)
  have q: "q = Inr (0, [])" "sg_body sg = []" "sg_offsets sg = checkpoint H i 0 (H [])"
    using recover_keeps [OF assms(1) _ rec, of 0] st j0 by (auto split: sum.splits)
  have "r = Inr (Some (slot, \<lparr>sk_manifest = m, sk_id = i, sk_offset = 0, sk_hashed = [], sk_poisoned = False\<rparr>))"
    and x': "x' = put_files i (fresh H m i) x2"
    using t new rd rec q unfolding take_up_def by (simp_all add: fresh_def no_open_fault_def Let_def)
  moreover have "xr_stages (put_files i (fresh H m i) x2) = xr_stages x2"
  proof -
    have "i \<notin> fst ` set (xr_stages x)" using assms(7) by (simp add: map_of_eq_None_iff)
    then have "map (\<lambda>(j, g). (j, if j = i then fresh H m i else g)) (xr_stages x) = xr_stages x"
      by (intro map_idI) force
    then show ?thesis by (simp add: x2(2))
  qed
  ultimately show ?thesis using o' x2(2) by (simp add: receive_stage_def)
qed

section \<open>The demonstration\<close>

definition toy_hash :: "byte list \<Rightarrow> byte list" where
  "toy_hash x = replicate 32 (of_nat (length x))"

definition demo_id :: "byte list" where
  "demo_id = toy_hash (encode_manifest demo_manifest)"

definition demo_sink :: sink where
  "demo_sink = \<lparr>sk_manifest = demo_manifest, sk_id = demo_id, sk_offset = 0, sk_hashed = [], sk_poisoned = False\<rparr>"

definition demo_started :: xfer_world where
  "demo_started = run_from toy_hash new_world [Receive no_open_fault demo_manifest]"

lemma toy_hash_len: "hash_len toy_hash"
  by (simp add: hash_len_def toy_hash_def)

lemma demo_arrays: "arrays demo_manifest"
  by (simp add: arrays_def demo_manifest_def)

lemma demo_started_is:
  "xw_sinks demo_started = (\<lambda>_. None)(0 := Some demo_sink)"
  "xr_stages (xw_root demo_started) = [(demo_id, fresh toy_hash demo_manifest demo_id)]"
proof -
  have "init_ok empty_root" "stages_ok toy_hash (xr_stages empty_root)" "whole (xr_stages empty_root)"
    using world_ok_new [of toy_hash] by (simp_all add: xfer_ok_def new_world_def whole_def empty_root_def)
  moreover have "available_owner (\<lambda>_. True) demo_id (\<lambda>_. None) = Inr 0"
    by (simp add: available_owner_def MAX_OWNERS_def upt_rec)
  ultimately
  obtain x' where r: "receive_stage toy_hash no_open_fault demo_manifest (\<lambda>_. None) empty_root = (Inr (0, demo_sink), x')"
      "xr_stages x' = [(demo_id, fresh toy_hash demo_manifest demo_id)]"
    using receive_fresh [OF toy_hash_len demo_manifest_ok demo_id_def, of empty_root "\<lambda>_. None" 0]
    by (auto simp: empty_root_def demo_sink_def demo_manifest_def MAX_RESERVED_BYTES_def MAX_RETAINED_STAGES_def)
  have "owners_of new_world = (\<lambda>_. None)" by (simp add: owners_of_def new_world_def fun_eq_iff)
  then have e: "demo_started = \<lparr>xw_root = x', xw_sinks = (\<lambda>_. None)(0 := Some demo_sink)\<rparr>"
    using r by (simp add: demo_started_def run_from_def new_world_def)
  show "xw_sinks demo_started = (\<lambda>_. None)(0 := Some demo_sink)"
    "xr_stages (xw_root demo_started) = [(demo_id, fresh toy_hash demo_manifest demo_id)]"
    unfolding e using r(2) by simp_all
qed

definition demo_appended :: xfer_world where
  "demo_appended = snd (append_at toy_hash NoFault 0 0 [9, 8, 7] demo_started)"

lemma demo_append:
  "append_at toy_hash NoFault 0 0 [9, 8, 7] demo_started = (Some (Inr (VerifiedComplete demo_id 3)), demo_appended)"
  "xw_sinks demo_appended 0 = Some (demo_sink\<lparr>sk_offset := 3, sk_hashed := [9, 8, 7]\<rparr>)"
  "sg_body (sink_files demo_appended demo_sink) = [9, 8, 7]"
proof -
  have f: "sink_files demo_started demo_sink =
      \<lparr>sg_manifest = encode_manifest demo_manifest, sg_body = [], sg_offsets = checkpoint toy_hash demo_id 0 (toy_hash [])\<rparr>"
    using demo_started_is(2) by (auto simp: sink_files_def demo_sink_def fresh_def)
  have a: "append_chunk toy_hash NoFault 0 [9, 8, 7] (demo_sink, sink_files demo_started demo_sink) =
      (Inr (VerifiedComplete demo_id 3), demo_sink\<lparr>sk_offset := 3, sk_hashed := [9, 8, 7]\<rparr>,
       (sink_files demo_started demo_sink)\<lparr>sg_body := [9, 8, 7], sg_offsets := checkpoint toy_hash demo_id 0 (toy_hash []) @
         checkpoint toy_hash demo_id 3 (toy_hash [9, 8, 7])\<rparr>)"
    unfolding f by (simp add: append_chunk_def demo_sink_def demo_manifest_def CHUNK_BYTES_def u64_max_def Let_def
        progress_of_def write_at_def toy_hash_def numeral_3_eq_3)
  show "append_at toy_hash NoFault 0 0 [9, 8, 7] demo_started = (Some (Inr (VerifiedComplete demo_id 3)), demo_appended)"
    "xw_sinks demo_appended 0 = Some (demo_sink\<lparr>sk_offset := 3, sk_hashed := [9, 8, 7]\<rparr>)"
    using demo_started_is by (simp_all add: append_at_def a demo_appended_def)
  show "sg_body (sink_files demo_appended demo_sink) = [9, 8, 7]"
  proof -
    have i: "sk_id demo_sink = demo_id" by (simp add: demo_sink_def)
    have "\<exists>j. xr_stages (xw_root demo_appended) = [(demo_id, \<lparr>fi_manifest = Some (encode_manifest demo_manifest),
        fi_body = Some [9, 8, 7], fi_offsets = Some j\<rparr>)]"
      using demo_started_is arg_cong [OF f, of sg_manifest] by (simp add: append_at_def a demo_appended_def i)
    then show ?thesis by (auto simp: sink_files_def i)
  qed
qed

theorem acknowledged_bytes_survive_witness:
  "\<exists>offset hashed sg. recover_stage toy_hash (\<lambda>_. True) demo_id 3 (sink_files (run_from toy_hash demo_appended [DropSink 0, Crash]) demo_sink) =
      (Inr (offset, hashed), sg) \<and> 3 \<le> offset \<and> take 3 (drop 0 hashed) = [9, 8, 7]"
  using acknowledged_bytes_survive [OF toy_hash_len _ demo_started_def _ demo_append(1), of "[DropSink 0, Crash]" demo_sink]
    demo_started_is(1) demo_arrays
  by (simp add: demo_sink_def demo_manifest_def numeral_3_eq_3)

theorem crashed_transfer_goes_on_witness:
  "\<exists>slot2 sk2 x2. receive_stage toy_hash no_open_fault demo_manifest (owners_of (xfer_step toy_hash (run_from toy_hash demo_appended []) Crash))
      (xw_root (xfer_step toy_hash (run_from toy_hash demo_appended []) Crash)) = (Inr (slot2, sk2), x2) \<and>
    sk_id sk2 = demo_id \<and> 3 \<le> sk_offset sk2 \<and> take 3 (drop 0 (sk_hashed sk2)) = [9, 8, 7]"
  using crashed_transfer_goes_on [OF toy_hash_len _ demo_started_def _ demo_append(1) _ _ refl, of "[]" demo_sink]
    demo_started_is(1) demo_arrays
  by (simp add: demo_sink_def numeral_3_eq_3)

theorem staged_bytes_within_quota_witness:
  "sum_list (map (\<lambda>e. length (bytes_of (fi_body (snd e)))) (xr_stages (xw_root (run_from toy_hash new_world
      [Receive no_open_fault demo_manifest, Crash])))) \<le> 128 * 1024 * 1024 \<and>
    length (xr_stages (xw_root (run_from toy_hash new_world [Receive no_open_fault demo_manifest, Crash]))) \<le> 64"
  by (rule staged_bytes_within_quota [OF toy_hash_len]) (simp add: demo_arrays)

lemma demo_fields [simp]:
  "sk_id demo_sink = demo_id" "sk_manifest demo_sink = demo_manifest" "\<not> sk_poisoned demo_sink"
  "total_bytes demo_manifest = 3" "digest demo_manifest = replicate 32 3"
  by (simp_all add: demo_sink_def demo_manifest_def)

definition demo_acts :: "xfer_act list" where
  "demo_acts = [Receive no_open_fault demo_manifest, Append 0 NoFault 0 [9, 8, 7]]"

lemma demo_acts_run: "demo_appended = run_from toy_hash new_world demo_acts"
  by (simp add: demo_acts_def demo_appended_def demo_started_def run_from_def)

theorem only_verified_bytes_are_read_witness:
  "length (sg_body (sink_files demo_appended demo_sink)) = 3 \<and>
    toy_hash (sg_body (sink_files demo_appended demo_sink)) = replicate 32 3 \<and>
    [8, 7] = take 2 (drop 1 (sg_body (sink_files demo_appended demo_sink)))"
proof -
  let ?sk = "demo_sink\<lparr>sk_offset := 3, sk_hashed := [9, 8, 7]\<rparr>"
  have same: "sink_files demo_appended ?sk = sink_files demo_appended demo_sink"
    by (simp add: sink_files_def demo_sink_def)
  have "read_verified toy_hash True 1 2 (?sk, sink_files demo_appended ?sk) = Inr [8, 7]"
    unfolding same
    by (simp add: read_verified_def progress_of_def demo_append(3) toy_hash_def CHUNK_BYTES_def drop_Suc numeral_2_eq_2)
  then show ?thesis
    using only_verified_bytes_are_read [OF toy_hash_len _ demo_acts_run demo_append(2), of True 1 2 "[8, 7]"] same
    by (simp add: demo_acts_def demo_arrays)
qed

definition cut_short :: cancel_fault where
  "cut_short = \<lparr>cf_gate = True, cf_clear = None, cf_owner = (\<lambda>_. True), cf_unlinked = Some (True, False, False)\<rparr>"

definition demo_cancelled :: xfer_world where
  "demo_cancelled = run_from toy_hash new_world [Receive no_open_fault demo_manifest, DropSink 0, Cancel cut_short demo_manifest]"

lemma demo_orphan:
  "map_of (xr_stages (xw_root demo_cancelled)) demo_id =
     Some \<lparr>fi_manifest = None, fi_body = Some [], fi_offsets = Some (checkpoint toy_hash demo_id 0 (toy_hash []))\<rparr>"
proof -
  let ?w = "xfer_step toy_hash demo_started (DropSink 0)"
  have st: "xr_stages (xw_root ?w) = [(demo_id, fresh toy_hash demo_manifest demo_id)]" by (simp add: demo_started_is)
  have ow: "owners_of ?w = (\<lambda>_. None)" by (simp add: owners_of_def fun_eq_iff demo_started_is)
  have ok: "init_ok (xw_root ?w)"
    using xfer_run_keeps(1) [OF toy_hash_len world_ok_new, of "[Receive no_open_fault demo_manifest]"] demo_arrays
    by (simp add: demo_started_def run_from_def xfer_ok_def)
  obtain g x1 where g: "gate True None (xw_root ?w) = (g, x1)" by (cases "gate True None (xw_root ?w)")
  note gk = gate_keeps [OF ok g]
  have g1: "g = Inr ()" using gk(4) by simp
  have id: "manifest_id toy_hash demo_manifest = Inr demo_id"
    using demo_manifest_ok by (auto simp: manifest_ok_def manifest_id_def demo_id_def)
  have slot: "available_owner (\<lambda>_. True) demo_id (\<lambda>_. None) = Inr 0"
    by (simp add: available_owner_def MAX_OWNERS_def upt_rec)
  have rd: "read_manifest (fresh toy_hash demo_manifest demo_id) = Inr demo_manifest"
    by (simp add: read_manifest_def fresh_def decode_encode [OF demo_manifest_ok])
  have "snd (cancel_stage toy_hash cut_short demo_manifest (\<lambda>_. None) (xw_root ?w)) =
      put_files demo_id (unlink_some (True, False, False) (fresh toy_hash demo_manifest demo_id)) x1"
    using g g1 id slot rd gk(2) st by (simp add: cancel_stage_def cut_short_def)
  then show ?thesis
    using st gk(2) ow by (simp add: demo_cancelled_def run_from_def demo_started_def [unfolded run_from_def, symmetric, simplified]
        unlink_some_def fresh_def)
qed

theorem interrupted_cancel_blocks_the_store_witness:
  "(\<exists>e. fst (receive_stage toy_hash no_open_fault demo_manifest (owners_of (run_from toy_hash demo_cancelled [Crash]))
        (xw_root (run_from toy_hash demo_cancelled [Crash]))) = Inl e) \<and>
   (\<exists>e. fst (cancel_stage toy_hash cut_short demo_manifest (owners_of (run_from toy_hash demo_cancelled [Crash]))
        (xw_root (run_from toy_hash demo_cancelled [Crash]))) = Inl e)"
  using interrupted_cancel_blocks_the_store [OF toy_hash_len _ demo_cancelled_def demo_orphan _ refl, of "[Crash]"
      no_open_fault demo_manifest cut_short] demo_arrays
  by (simp add: demo_id_def)

end
