(* ===== verification/Trust.thy ===== *)
theory Trust
  imports Bytes RustBase "HOL-Library.Product_Lexorder"
begin

text \<open>
  \<open>crates/net/src/trust.rs\<close>: certificates and the roster, the signed list that says which machines belong
  to a network.  Ed25519 (iroh) and the postcard encoding are other crates: they are the parameter
  \<open>trust_env\<close>.  A u64 is a natural number; \<open>age_ms\<close> saturates.
\<close>

section \<open>Records\<close>

definition FRESH_DAYS :: nat where "FRESH_DAYS = 30"
definition REFRESH_DAYS :: nat where "REFRESH_DAYS = 7"
definition DAY_MS :: nat where "DAY_MS = 86400000"
definition CERT_MAGIC :: "byte list" where "CERT_MAGIC = map of_char ''khc1''"
definition ROSTER_MAGIC :: "byte list" where "ROSTER_MAGIC = map of_char ''khr1''"
definition SIG :: nat where "SIG = 64"
definition HEAD :: nat where "HEAD = 8"

type_synonym trust_id = "byte list"

datatype member_kind = Device | Satellite

fun member_kind_key :: "member_kind \<Rightarrow> string" where
  "member_kind_key Device = ''device''"
| "member_kind_key Satellite = ''satellite''"

record cert =
  c_root :: trust_id
  c_subject :: trust_id
  c_kind :: member_kind
  c_sponsor :: "trust_id option"
  c_issued_ms :: nat
  c_seq :: nat
  c_expires_ms :: "nat option"

definition live_at :: "cert \<Rightarrow> nat \<Rightarrow> bool" where
  "live_at c now_ms = (case c_expires_ms c of None \<Rightarrow> True | Some e \<Rightarrow> now_ms < e)"

record roster_body =
  b_root :: trust_id
  b_seq :: nat
  b_issued_ms :: nat
  b_certs :: "byte list list"
  b_revoked :: "trust_id list"

record roster =
  r_root :: trust_id
  r_seq :: nat
  r_issued_ms :: nat
  r_certs :: "cert list"
  r_signed :: "byte list list"
  r_revoked :: "trust_id list"
  r_bytes :: "byte list"

datatype trust_error = Garbled | BadSignature | OtherRoot | BadCertInside

text \<open>
  \<open>te_dec_cert\<close> and \<open>te_dec_body\<close> are \<open>take_from_bytes\<close>: the value and the bytes left over.
  \<open>te_point\<close> says which 32 bytes are a public key.
\<close>

record 'k trust_env =
  te_public :: "'k \<Rightarrow> trust_id"
  te_point :: "trust_id \<Rightarrow> bool"
  te_sign :: "'k \<Rightarrow> byte list \<Rightarrow> byte list"
  te_verify :: "trust_id \<Rightarrow> byte list \<Rightarrow> byte list \<Rightarrow> bool"
  te_enc_cert :: "cert \<Rightarrow> byte list"
  te_dec_cert :: "byte list \<Rightarrow> (cert \<times> byte list) option"
  te_enc_body :: "roster_body \<Rightarrow> byte list"
  te_dec_body :: "byte list \<Rightarrow> (roster_body \<times> byte list) option"

section \<open>Ids as text\<close>

definition id_digit :: "nat \<Rightarrow> char" where
  "id_digit n = (if n < 10 then char_of (48 + n) else char_of (87 + n))"

definition id_hex :: "trust_id \<Rightarrow> string" where
  "id_hex i = concat (map (\<lambda>b. [id_digit (unat b div 16), id_digit (unat b mod 16)]) i)"

definition id_digit_value :: "char \<Rightarrow> nat" where
  "id_digit_value c =
     (let n = (of_char c :: nat) in
      if n < 58 then n - 48 else if n < 71 then n - 55 else n - 87)"

fun hex_pairs :: "string \<Rightarrow> trust_id" where
  "hex_pairs (h # l # rest) = of_nat (id_digit_value h * 16 + id_digit_value l) # hex_pairs rest"
| "hex_pairs _ = []"

definition id_from_hex :: "string \<Rightarrow> trust_id option" where
  "id_from_hex s = (if length s \<noteq> 64 \<or> \<not> list_all is_ascii_hexdigit s then None else Some (hex_pairs s))"

section \<open>The signed frame\<close>

definition seal_prefix :: "byte list \<Rightarrow> byte list \<Rightarrow> byte list" where
  "seal_prefix magic body = magic @ be_bytes 4 (length body) @ body"

definition seal :: "'k trust_env \<Rightarrow> byte list \<Rightarrow> byte list \<Rightarrow> 'k \<Rightarrow> byte list" where
  "seal E magic body key = (let out = seal_prefix magic body in out @ te_sign E key out)"

text \<open>The body, the bytes the signature covers, the signature.\<close>

definition frame :: "byte list \<Rightarrow> byte list \<Rightarrow> trust_error + byte list \<times> byte list \<times> byte list" where
  "frame magic bytes =
     (if length bytes < HEAD + SIG \<or> take 4 bytes \<noteq> magic then Inl Garbled
      else let len = from_be (take 4 (drop 4 bytes)) in
        if length bytes \<noteq> HEAD + len + SIG then Inl Garbled
        else Inr (take len (drop HEAD bytes), take (HEAD + len) bytes, drop (HEAD + len) bytes))"

definition decode_exactly :: "(byte list \<Rightarrow> ('a \<times> byte list) option) \<Rightarrow> byte list \<Rightarrow> trust_error + 'a" where
  "decode_exactly dec body =
     (case dec body of Some (v, []) \<Rightarrow> Inr v | _ \<Rightarrow> Inl Garbled)"

definition check_sig :: "'k trust_env \<Rightarrow> trust_id \<Rightarrow> byte list \<Rightarrow> byte list \<Rightarrow> trust_error + unit" where
  "check_sig E root pre sig = (if te_verify E root pre sig then Inr () else Inl BadSignature)"

definition sign_cert :: "'k trust_env \<Rightarrow> 'k \<Rightarrow> cert \<Rightarrow> byte list" where
  "sign_cert E key c = seal E CERT_MAGIC (te_enc_cert E c) key"

definition verify_cert :: "'k trust_env \<Rightarrow> byte list \<Rightarrow> trust_id \<Rightarrow> trust_error + cert" where
  "verify_cert E bytes root =
     and_then (frame CERT_MAGIC bytes) (\<lambda>(body, pre, sig).
     and_then (decode_exactly (te_dec_cert E) body) (\<lambda>c.
     if c_root c \<noteq> root then Inl OtherRoot
     else and_then (check_sig E root pre sig) (\<lambda>_. Inr c)))"

fun verify_certs :: "'k trust_env \<Rightarrow> trust_id \<Rightarrow> nat \<Rightarrow> byte list list \<Rightarrow> trust_error + cert list" where
  "verify_certs E root seq [] = Inr []"
| "verify_certs E root seq (b # bs) =
     (case verify_cert E b root of
        Inl _ \<Rightarrow> Inl BadCertInside
      | Inr c \<Rightarrow>
          if c_seq c > seq then Inl BadCertInside
          else and_then (verify_certs E root seq bs) (\<lambda>cs. Inr (c # cs)))"

definition verify_roster :: "'k trust_env \<Rightarrow> byte list \<Rightarrow> trust_id \<Rightarrow> trust_error + roster" where
  "verify_roster E bytes root =
     and_then (frame ROSTER_MAGIC bytes) (\<lambda>(body, pre, sig).
     and_then (decode_exactly (te_dec_body E) body) (\<lambda>b.
     if b_root b \<noteq> root then Inl OtherRoot
     else and_then (check_sig E root pre sig) (\<lambda>_.
       and_then (verify_certs E root (b_seq b) (b_certs b)) (\<lambda>cs.
         Inr \<lparr>r_root = b_root b, r_seq = b_seq b, r_issued_ms = b_issued_ms b, r_certs = cs,
              r_signed = b_certs b, r_revoked = b_revoked b, r_bytes = bytes\<rparr>))))"

definition claimed_root :: "'k trust_env \<Rightarrow> byte list \<Rightarrow> trust_id option" where
  "claimed_root E bytes =
     (case frame ROSTER_MAGIC bytes of
        Inl _ \<Rightarrow> None
      | Inr (body, _, _) \<Rightarrow>
          (case decode_exactly (te_dec_body E) body of
             Inl _ \<Rightarrow> None
           | Inr b \<Rightarrow> if te_point E (b_root b) then Some (b_root b) else None))"

section \<open>Which roster wins\<close>

definition roster_rank :: "roster \<Rightarrow> nat \<times> nat \<times> byte list" where
  "roster_rank r = (r_seq r, r_issued_ms r, r_bytes r)"

text \<open>\<open>max_by\<close> keeps the last of several greatest.\<close>

fun newest_of :: "roster option \<Rightarrow> roster list \<Rightarrow> roster option" where
  "newest_of best [] = best"
| "newest_of best (r # rs) =
     newest_of (case best of None \<Rightarrow> Some r | Some b \<Rightarrow> if roster_rank r < roster_rank b then Some b else Some r) rs"

definition newest :: "'k trust_env \<Rightarrow> byte list list \<Rightarrow> trust_id \<Rightarrow> roster option" where
  "newest E candidates root =
     newest_of None (List.map_filter (\<lambda>b. case verify_roster E b root of Inl _ \<Rightarrow> None | Inr r \<Rightarrow> Some r) candidates)"

section \<open>Signing\<close>

definition sign_roster :: "'k trust_env \<Rightarrow> 'k \<Rightarrow> nat \<Rightarrow> nat \<Rightarrow> byte list list \<Rightarrow> trust_id list \<Rightarrow> byte list" where
  "sign_roster E key seq issued_ms certs revoked =
     seal E ROSTER_MAGIC (te_enc_body E \<lparr>b_root = te_public E key, b_seq = seq, b_issued_ms = issued_ms,
       b_certs = certs, b_revoked = revoked\<rparr>) key"

record member =
  m_subject :: trust_id
  m_kind :: member_kind
  m_sponsor :: "trust_id option"

definition member_device :: "trust_id \<Rightarrow> member" where
  "member_device i = \<lparr>m_subject = i, m_kind = Device, m_sponsor = None\<rparr>"

definition member_cert :: "trust_id \<Rightarrow> member \<Rightarrow> nat \<Rightarrow> nat \<Rightarrow> cert" where
  "member_cert root m seq now_ms =
     \<lparr>c_root = root, c_subject = m_subject m, c_kind = m_kind m, c_sponsor = m_sponsor m,
      c_issued_ms = now_ms, c_seq = seq, c_expires_ms = None\<rparr>"

definition cert_for :: "'k trust_env \<Rightarrow> 'k \<Rightarrow> member \<Rightarrow> nat \<Rightarrow> nat \<Rightarrow> byte list" where
  "cert_for E key m seq now_ms = sign_cert E key (member_cert (te_public E key) m seq now_ms)"

definition genesis :: "'k trust_env \<Rightarrow> 'k \<Rightarrow> nat \<Rightarrow> member list \<Rightarrow> byte list" where
  "genesis E key now_ms members =
     sign_roster E key 1 now_ms (map (\<lambda>m. cert_for E key m 1 now_ms) members) []"

section \<open>A verified roster\<close>

definition roster_cert :: "roster \<Rightarrow> trust_id \<Rightarrow> cert option" where
  "roster_cert r i = List.find (\<lambda>c. c_subject c = i) (r_certs r)"

definition signed_cert :: "roster \<Rightarrow> trust_id \<Rightarrow> byte list option" where
  "signed_cert r i = map_option snd (List.find (\<lambda>(c, s). c_subject c = i) (zip (r_certs r) (r_signed r)))"

definition is_revoked :: "roster \<Rightarrow> trust_id \<Rightarrow> bool" where
  "is_revoked r i \<longleftrightarrow> i \<in> set (r_revoked r)"

definition admits :: "roster \<Rightarrow> trust_id \<Rightarrow> nat \<Rightarrow> bool" where
  "admits r i now_ms \<longleftrightarrow> \<not> is_revoked r i \<and> (case roster_cert r i of None \<Rightarrow> False | Some c \<Rightarrow> live_at c now_ms)"

definition lone :: "roster \<Rightarrow> trust_id \<Rightarrow> bool" where
  "lone r owner = list_all (\<lambda>c. c_subject c = owner) (r_certs r)"

definition age_ms :: "roster \<Rightarrow> nat \<Rightarrow> nat" where
  "age_ms r now_ms = now_ms - r_issued_ms r"

definition age_days :: "roster \<Rightarrow> nat \<Rightarrow> nat" where
  "age_days r now_ms = age_ms r now_ms div DAY_MS"

definition is_stale :: "roster \<Rightarrow> nat \<Rightarrow> bool" where
  "is_stale r now_ms \<longleftrightarrow> age_ms r now_ms > FRESH_DAYS * DAY_MS"

definition stale_days :: "roster \<Rightarrow> nat \<Rightarrow> nat option" where
  "stale_days r now_ms =
     (if is_stale r now_ms then Some ((age_ms r now_ms - FRESH_DAYS * DAY_MS) div DAY_MS) else None)"

definition needs_refresh :: "roster \<Rightarrow> nat \<Rightarrow> bool" where
  "needs_refresh r now_ms \<longleftrightarrow> age_ms r now_ms > REFRESH_DAYS * DAY_MS"

text \<open>\<open>self.seq + 1\<close> on a \<open>u64\<close>, as the shipped profile computes it: it wraps.  A debug build panics instead.\<close>

definition seq_after :: "roster \<Rightarrow> nat" where
  "seq_after r = (r_seq r + 1) mod (u64_max + 1)"

definition next_roster :: "'k trust_env \<Rightarrow> roster \<Rightarrow> 'k \<Rightarrow> nat \<Rightarrow> byte list list \<Rightarrow> trust_id list \<Rightarrow> byte list" where
  "next_roster E r key now_ms certs revoked = sign_roster E key (seq_after r) now_ms certs revoked"

text \<open>The signed certificates of everyone but \<open>i\<close>.\<close>

definition others_signed :: "roster \<Rightarrow> trust_id \<Rightarrow> byte list list" where
  "others_signed r i = map snd (filter (\<lambda>(c, s). c_subject c \<noteq> i) (zip (r_certs r) (r_signed r)))"

definition admit_member :: "'k trust_env \<Rightarrow> roster \<Rightarrow> 'k \<Rightarrow> nat \<Rightarrow> member \<Rightarrow> byte list" where
  "admit_member E r key now_ms m =
     next_roster E r key now_ms (others_signed r (m_subject m) @ [cert_for E key m (seq_after r) now_ms])
       (filter (\<lambda>i. i \<noteq> m_subject m) (r_revoked r))"

definition revoke :: "'k trust_env \<Rightarrow> roster \<Rightarrow> 'k \<Rightarrow> nat \<Rightarrow> trust_id \<Rightarrow> byte list" where
  "revoke E r key now_ms i =
     next_roster E r key now_ms (others_signed r i)
       (if i \<in> set (r_revoked r) then r_revoked r else r_revoked r @ [i])"

definition refresh :: "'k trust_env \<Rightarrow> roster \<Rightarrow> 'k \<Rightarrow> nat \<Rightarrow> byte list" where
  "refresh E r key now_ms = next_roster E r key now_ms (r_signed r) (r_revoked r)"

section \<open>Two roots meeting\<close>

datatype settle_verdict = Keep | Adopt | Clash

definition settle_roots :: "roster option \<Rightarrow> trust_id \<Rightarrow> roster option \<Rightarrow> trust_id \<Rightarrow> bool \<Rightarrow> settle_verdict" where
  "settle_roots mine me theirs them i_dialed =
     (case theirs of
        None \<Rightarrow> Keep
      | Some t \<Rightarrow>
          (case mine of
             None \<Rightarrow> Adopt
           | Some m \<Rightarrow>
               if r_root m = r_root t then Keep
               else if lone m me then (if lone t them then (if i_dialed then Adopt else Keep) else Adopt)
               else if lone t them then Keep
               else Clash))"

end
