(* ===== verification/TrustFacts.thy ===== *)
theory TrustFacts
  imports Trust
begin

text \<open>
  What signatures give: a frame accounts for every byte, a record that verifies was signed by the
  root, the newest roster does not depend on the order of the candidates, the signed successors of
  a roster say what they were asked to say, and two machines that pair settle on one root.
\<close>

section \<open>What is assumed of the signature and the encoding\<close>

definition id_ok :: "trust_id \<Rightarrow> bool" where
  "id_ok i \<longleftrightarrow> length i = 32"

definition cert_typed :: "cert \<Rightarrow> bool" where
  "cert_typed c \<longleftrightarrow> id_ok (c_root c) \<and> id_ok (c_subject c) \<and> pred_option id_ok (c_sponsor c) \<and>
     c_issued_ms c \<le> u64_max \<and> c_seq c \<le> u64_max \<and> pred_option (\<lambda>e. e \<le> u64_max) (c_expires_ms c)"

definition body_typed :: "roster_body \<Rightarrow> bool" where
  "body_typed b \<longleftrightarrow> id_ok (b_root b) \<and> b_seq b \<le> u64_max \<and> b_issued_ms b \<le> u64_max \<and> list_all id_ok (b_revoked b)"

text \<open>
  Signing and verifying belong together, the encoding is decoded to what was encoded with nothing left,
  a decoded value is one of the type, and a certificate is short.
\<close>

definition trust_laws :: "'k trust_env \<Rightarrow> bool" where
  "trust_laws E \<longleftrightarrow>
     (\<forall>k m. length (te_sign E k m) = SIG \<and> te_verify E (te_public E k) m (te_sign E k m)) \<and>
     (\<forall>k. id_ok (te_public E k) \<and> te_point E (te_public E k)) \<and>
     (\<forall>c. cert_typed c \<longrightarrow> te_dec_cert E (te_enc_cert E c) = Some (c, []) \<and> length (te_enc_cert E c) \<le> 512) \<and>
     (\<forall>b. body_typed b \<longrightarrow> te_dec_body E (te_enc_body E b) = Some (b, [])) \<and>
     (\<forall>x c rest. te_dec_cert E x = Some (c, rest) \<longrightarrow> cert_typed c) \<and>
     (\<forall>x b rest. te_dec_body E x = Some (b, rest) \<longrightarrow> body_typed b)"

text \<open>Unforgeability: whatever verifies under \<open>root\<close> is among the messages its holder signed.\<close>

definition only_signed :: "'k trust_env \<Rightarrow> trust_id \<Rightarrow> byte list set \<Rightarrow> bool" where
  "only_signed E root S \<longleftrightarrow> (\<forall>m sig. te_verify E root m sig \<longrightarrow> m \<in> S)"

section \<open>The frame\<close>

lemma magic_length [simp]: "length CERT_MAGIC = 4" "length ROSTER_MAGIC = 4"
  by (simp_all add: CERT_MAGIC_def ROSTER_MAGIC_def)

lemma frame_seal:
  assumes "trust_laws E" and "length magic = 4" and "length body < 4294967296"
  shows "frame magic (seal E magic body key) = Inr (body, seal_prefix magic body, te_sign E key (seal_prefix magic body))"
proof -
  have "length (te_sign E key (seal_prefix magic body)) = SIG" using assms(1) by (simp add: trust_laws_def)
  then show ?thesis
    using assms(2,3)
    by (simp add: frame_def seal_def seal_prefix_def HEAD_def Let_def from_be_u32)
qed

lemma frame_long:
  assumes "trust_laws E" and "length magic = 4" and "4294967296 \<le> length body"
  shows "frame magic (seal E magic body key) = Inl Garbled"
proof -
  have s: "length (te_sign E key (seal_prefix magic body)) = SIG" using assms(1) by (simp add: trust_laws_def)
  have m: "length body mod 4294967296 \<noteq> length body"
    using assms(3) by (metis mod_less_divisor not_less zero_less_numeral)
  have "from_be (take 4 (drop 4 (seal E magic body key))) = length body mod 4294967296"
    using assms(2) by (simp add: seal_def seal_prefix_def Let_def from_be_be_bytes)
  moreover have "length (seal E magic body key) = HEAD + length body + SIG"
    using s assms(2) by (simp add: seal_def seal_prefix_def HEAD_def Let_def)
  ultimately show ?thesis using m by (simp add: frame_def Let_def)
qed

lemma frame_Inr:
  assumes "frame magic bytes = Inr (body, pre, sig)"
  shows "pre = seal_prefix magic body" "bytes = pre @ sig" "length sig = SIG"
proof -
  let ?len = "from_be (take 4 (drop 4 bytes))"
  have f: "take 4 bytes = magic" "length bytes = HEAD + ?len + SIG" "body = take ?len (drop HEAD bytes)"
      "pre = take (HEAD + ?len) bytes" "sig = drop (HEAD + ?len) bytes"
    using assms unfolding frame_def Let_def by (simp_all only: prod.inject sum.inject split: if_splits) blast+
  show "bytes = pre @ sig" by (simp only: f(4,5) append_take_drop_id)
  show "length sig = SIG" unfolding f(5) length_drop f(2) by simp
  have l8: "8 + ?len \<le> length bytes" unfolding f(2) HEAD_def by simp
  then have len: "length (take 4 (drop 4 bytes)) = 4" by simp
  then have b: "be_bytes 4 ?len = take 4 (drop 4 bytes)" using be_bytes_from_be [of "take 4 (drop 4 bytes)"] by (simp only:)
  have l: "length body = ?len" using l8 unfolding f(3) HEAD_def by simp
  have "take 8 bytes = magic @ take 4 (drop 4 bytes)"
    using take_add [of 4 4 bytes] f(1) by simp
  then have "take (8 + ?len) bytes = magic @ take 4 (drop 4 bytes) @ take ?len (drop 8 bytes)"
    using take_add [of 8 ?len bytes] by simp
  then show "pre = seal_prefix magic body"
    unfolding seal_prefix_def l b f(4) by (simp only: f(3) HEAD_def)
qed

lemma frameD:
  "frame magic bytes = Inr (body, pre, sig) \<Longrightarrow> pre = seal_prefix magic body \<and> bytes = pre @ sig \<and> length sig = SIG"
  using frame_Inr by blast

lemma seal_prefix_magic: "length m = 4 \<Longrightarrow> length m' = 4 \<Longrightarrow> seal_prefix m b = seal_prefix m' b' \<Longrightarrow> m = m'"
  by (simp add: seal_prefix_def)

lemma seal_prefix_body: "length m = 4 \<Longrightarrow> seal_prefix m b = seal_prefix m b' \<Longrightarrow> b = b'"
  by (simp add: seal_prefix_def)

section \<open>Ids as text\<close>

lemma of_id_digit: "n < 16 \<Longrightarrow> (of_char (id_digit n) :: nat) = (if n < 10 then 48 + n else 87 + n)"
  by (simp add: id_digit_def)

lemma id_digit_ok [simp]: "n < 16 \<Longrightarrow> id_digit_value (id_digit n) = n" "n < 16 \<Longrightarrow> is_ascii_hexdigit (id_digit n)"
  by (simp_all add: id_digit_value_def is_ascii_hexdigit_def Let_def of_id_digit)

lemma hex_digits_of_byte: "unat (b :: byte) div 16 < 16" "unat (b :: byte) mod 16 < 16"
  using unat_byte [of b] by (simp_all add: less_mult_imp_div_less)

lemma hex_pairs_id_hex: "hex_pairs (id_hex i) = i"
proof (induction i)
  case (Cons b i)
  have "unat b div 16 * 16 + unat b mod 16 = unat b" by simp
  then have "(of_nat (unat b div 16 * 16 + unat b mod 16) :: byte) = b" by simp
  then show ?case using Cons by (simp add: id_hex_def hex_digits_of_byte)
qed (simp add: id_hex_def)

lemma length_id_hex [simp]: "length (id_hex i) = 2 * length i"
  by (induction i) (simp_all add: id_hex_def)

lemma id_hex_digits: "list_all is_ascii_hexdigit (id_hex i)"
  by (induction i) (simp_all add: id_hex_def hex_digits_of_byte)

lemma id_from_hex_id_hex [simp]: "id_ok i \<Longrightarrow> id_from_hex (id_hex i) = Some i"
  by (simp add: id_from_hex_def id_ok_def id_hex_digits hex_pairs_id_hex)

lemma id_hex_inject [simp]: "id_hex i = id_hex j \<longleftrightarrow> i = j"
  by (metis hex_pairs_id_hex)

section \<open>What verifies\<close>

lemma decode_exactly_Inr: "decode_exactly dec body = Inr v \<longleftrightarrow> dec body = Some (v, [])"
  by (auto simp: decode_exactly_def split: option.splits list.splits prod.splits)

lemma check_sig_Inr [simp]: "check_sig E root pre sig = Inr u \<longleftrightarrow> te_verify E root pre sig"
  by (simp add: check_sig_def)

lemma verify_cert_Inr:
  assumes "verify_cert E bytes root = Inr c"
  obtains body sig where "te_dec_cert E body = Some (c, [])" "c_root c = root"
    "te_verify E root (seal_prefix CERT_MAGIC body) sig" "bytes = seal_prefix CERT_MAGIC body @ sig"
  using assms
  by (auto simp: verify_cert_def decode_exactly_Inr split: if_splits dest!: frameD)

lemma verify_certs_Inr:
  "verify_certs E root seq bs = Inr cs \<longleftrightarrow> list_all2 (\<lambda>b c. verify_cert E b root = Inr c \<and> c_seq c \<le> seq) bs cs"
proof (induction bs arbitrary: cs)
  case Nil
  then show ?case by auto
next
  case (Cons b bs)
  show ?case
  proof (cases "verify_cert E b root")
    case (Inl e)
    then show ?thesis by (auto simp: list_all2_Cons1)
  next
    case (Inr c)
    then show ?thesis using Cons.IH by (auto simp: list_all2_Cons1 not_le)
  qed
qed

lemma verify_roster_Inr:
  assumes "verify_roster E bytes root = Inr r"
  obtains body sig b where "te_dec_body E body = Some (b, [])" "b_root b = root"
    "te_verify E root (seal_prefix ROSTER_MAGIC body) sig" "bytes = seal_prefix ROSTER_MAGIC body @ sig"
    "list_all2 (\<lambda>x c. verify_cert E x root = Inr c \<and> c_seq c \<le> b_seq b) (b_certs b) (r_certs r)"
    "r_root r = root" "r_seq r = b_seq b" "r_issued_ms r = b_issued_ms b" "r_signed r = b_certs b"
    "r_revoked r = b_revoked b" "r_bytes r = bytes"
  using assms
  by (auto simp: verify_roster_def decode_exactly_Inr verify_certs_Inr split: if_splits dest!: frameD)

lemma verified_roster:
  assumes "verify_roster E bytes root = Inr r"
  shows "r_root r = root" "r_bytes r = bytes"
    "list_all2 (\<lambda>x c. verify_cert E x root = Inr c \<and> c_seq c \<le> r_seq r) (r_signed r) (r_certs r)"
  by (rule verify_roster_Inr [OF assms], simp)+

lemma verified_typed:
  assumes "trust_laws E" and "verify_roster E bytes root = Inr r"
  shows "r_seq r \<le> u64_max" "r_issued_ms r \<le> u64_max" "list_all id_ok (r_revoked r)" "id_ok root"
proof -
  obtain body sig b where b: "te_dec_body E body = Some (b, [])" "b_root b = root"
    "r_seq r = b_seq b" "r_issued_ms r = b_issued_ms b" "r_revoked r = b_revoked b"
    by (rule verify_roster_Inr [OF assms(2)])
  have "body_typed b" using assms(1) b(1) unfolding trust_laws_def by blast
  then show "r_seq r \<le> u64_max" "r_issued_ms r \<le> u64_max" "list_all id_ok (r_revoked r)" "id_ok root"
    using b(2-5) by (simp_all add: body_typed_def)
qed

lemma verify_sign_cert:
  assumes "trust_laws E" and "cert_typed c" and "c_root c = te_public E k"
  shows "verify_cert E (sign_cert E k c) (te_public E k) = Inr c"
proof -
  have "length (te_enc_cert E c) < 4294967296" "te_dec_cert E (te_enc_cert E c) = Some (c, [])"
    using assms(1,2) by (auto simp: trust_laws_def le_less_trans)
  moreover have "te_verify E (te_public E k) m (te_sign E k m)" for m using assms(1) by (simp add: trust_laws_def)
  ultimately show ?thesis
    using assms(1,3) by (simp add: verify_cert_def sign_cert_def frame_seal decode_exactly_Inr)
qed

text \<open>What a signed roster says, when it verifies at all (a body of 4 GiB does not).\<close>

lemma sign_roster_says:
  assumes "trust_laws E" and "seq \<le> u64_max" and "now \<le> u64_max" and "list_all id_ok revoked"
    and "verify_roster E (sign_roster E k seq now certs revoked) (te_public E k) = Inr r"
  shows "r_seq r = seq" "r_issued_ms r = now" "r_signed r = certs" "r_revoked r = revoked"
proof -
  let ?b = "\<lparr>b_root = te_public E k, b_seq = seq, b_issued_ms = now, b_certs = certs, b_revoked = revoked\<rparr>"
  have "body_typed ?b" using assms(1-4) by (simp add: body_typed_def trust_laws_def)
  then have d: "te_dec_body E (te_enc_body E ?b) = Some (?b, [])" using assms(1) by (simp add: trust_laws_def)
  have "length (te_enc_body E ?b) < 4294967296"
    using assms(5) frame_long [OF assms(1) magic_length(2), of "te_enc_body E ?b" k]
    by (cases "length (te_enc_body E ?b) < 4294967296") (auto simp: verify_roster_def sign_roster_def not_less)
  then have "frame ROSTER_MAGIC (sign_roster E k seq now certs revoked) =
      Inr (te_enc_body E ?b, seal_prefix ROSTER_MAGIC (te_enc_body E ?b), te_sign E k (seal_prefix ROSTER_MAGIC (te_enc_body E ?b)))"
    using frame_seal [OF assms(1) magic_length(2)] by (simp add: sign_roster_def)
  then have "verify_certs E (te_public E k) seq certs = Inr (r_certs r) \<and> r_seq r = seq \<and> r_issued_ms r = now \<and>
      r_signed r = certs \<and> r_revoked r = revoked"
    using assms(5) d by (auto simp: verify_roster_def decode_exactly_def)
  then show "r_seq r = seq" "r_issued_ms r = now" "r_signed r = certs" "r_revoked r = revoked" by simp_all
qed

section \<open>Which roster wins\<close>

lemma newest_of_max:
  assumes "newest_of best rs = Some r"
  shows "(r \<in> set rs \<or> best = Some r) \<and> (\<forall>x \<in> set rs. roster_rank x \<le> roster_rank r) \<and>
    (\<forall>b. best = Some b \<longrightarrow> roster_rank b \<le> roster_rank r)"
  using assms
proof (induction rs arbitrary: best)
  case (Cons x rs)
  let ?next = "case best of None \<Rightarrow> Some x | Some b \<Rightarrow> if roster_rank x < roster_rank b then Some b else Some x"
  have "(r \<in> set rs \<or> ?next = Some r) \<and> (\<forall>x \<in> set rs. roster_rank x \<le> roster_rank r) \<and>
      (\<forall>b. ?next = Some b \<longrightarrow> roster_rank b \<le> roster_rank r)"
    by (rule Cons.IH) (use Cons.prems in simp)
  then show ?case by (cases best) (auto split: if_splits)
qed simp

lemma newest_of_None: "newest_of best rs = None \<longleftrightarrow> best = None \<and> rs = []"
proof (induction rs arbitrary: best)
  case (Cons x rs)
  then show ?case by (cases best) auto
qed simp

lemma set_verified: "set (List.map_filter (\<lambda>b. case verify_roster E b root of Inl _ \<Rightarrow> None | Inr r \<Rightarrow> Some r) cs) =
    {r. \<exists>b \<in> set cs. verify_roster E b root = Inr r}"
  by (force simp: List.map_filter_def split: sum.splits)

lemma newest_Some:
  "newest E cs root = Some r \<longleftrightarrow> r_bytes r \<in> set cs \<and> verify_roster E (r_bytes r) root = Inr r \<and>
     (\<forall>b \<in> set cs. \<forall>x. verify_roster E b root = Inr x \<longrightarrow> roster_rank x \<le> roster_rank r)" (is "?l \<longleftrightarrow> ?r")
proof
  assume ?l
  from newest_of_max [OF this [unfolded newest_def]] obtain b where
    "b \<in> set cs" "verify_roster E b root = Inr r"
    "\<forall>b \<in> set cs. \<forall>x. verify_roster E b root = Inr x \<longrightarrow> roster_rank x \<le> roster_rank r"
    unfolding set_verified by blast
  then show ?r using verified_roster(2) [of E b root r] by simp
next
  assume r: ?r
  show ?l
  proof (cases "newest E cs root")
    case None
    then show ?thesis using r set_verified [of E root cs] by (auto simp: newest_def newest_of_None)
  next
    case (Some x)
    from newest_of_max [OF this [unfolded newest_def]] obtain b where x: "b \<in> set cs" "verify_roster E b root = Inr x"
      "\<forall>b \<in> set cs. \<forall>y. verify_roster E b root = Inr y \<longrightarrow> roster_rank y \<le> roster_rank x"
      unfolding set_verified by blast
    have "roster_rank x \<le> roster_rank r" using r x(1,2) by blast
    moreover have "roster_rank r \<le> roster_rank x" using r x(3) by blast
    ultimately have "roster_rank x = roster_rank r" by (rule antisym)
    then have "r_bytes x = r_bytes r" by (simp add: roster_rank_def)
    then have "x = r" using r x(2) verified_roster(2) [OF x(2)] by simp
    then show ?thesis using Some by simp
  qed
qed

lemma newest_None: "newest E cs root = None \<longleftrightarrow> (\<forall>b \<in> set cs. \<forall>x. verify_roster E b root \<noteq> Inr x)"
  using set_verified [of E root cs] by (auto simp: newest_def newest_of_None)

text \<open>
  Which roster wins depends only on which rosters there are: two machines that store the same
  signed rosters, in whatever order and however often, follow the same one.
\<close>

lemma newest_ignores_order:
  assumes "set cs = set cs'"
  shows "newest E cs root = newest E cs' root"
proof (cases "newest E cs' root")
  case None
  then have "newest E cs root = None" unfolding newest_None assms .
  then show ?thesis using None by simp
next
  case (Some r)
  then have "newest E cs root = Some r" unfolding newest_Some assms .
  then show ?thesis using Some by simp
qed

lemma newest_grows:
  assumes "newest E cs root = Some r" and "set cs \<subseteq> set cs'"
  shows "\<exists>r'. newest E cs' root = Some r' \<and> roster_rank r \<le> roster_rank r'"
proof (cases "newest E cs' root")
  case None
  then show ?thesis using assms unfolding newest_Some newest_None by blast
next
  case (Some r')
  then show ?thesis using assms unfolding newest_Some by blast
qed

lemma find_append: "List.find P (xs @ ys) = (case List.find P xs of None \<Rightarrow> List.find P ys | Some x \<Rightarrow> Some x)"
  by (induction xs) simp_all

section \<open>The successors of a roster\<close>

lemma others_verified:
  assumes "list_all2 P ss cs"
  shows "list_all2 P (map snd (filter Q (zip cs ss))) (map fst (filter Q (zip cs ss)))"
  using assms by (induction rule: list_all2_induct) auto

lemma verified_others:
  assumes "verify_roster E bytes root = Inr r"
  shows "list_all2 (\<lambda>x c. verify_cert E x root = Inr c \<and> c_seq c \<le> r_seq r) (others_signed r i)
    (map fst (filter (\<lambda>(c, s). c_subject c \<noteq> i) (zip (r_certs r) (r_signed r))))"
  unfolding others_signed_def by (rule others_verified [OF verified_roster(3) [OF assms]])

lemma seq_after_room [simp]: "r_seq r < u64_max \<Longrightarrow> seq_after r = r_seq r + 1"
  by (simp add: seq_after_def)

text \<open>A roster admits whom it was signed to admit.\<close>

lemma admit_says:
  assumes "trust_laws E" and "verify_roster E bytes (te_public E k) = Inr cur" and "r_seq cur < u64_max" and "now \<le> u64_max"
    and "verify_roster E (admit_member E cur k now m) (te_public E k) = Inr r"
    and "id_ok (m_subject m)" and "pred_option id_ok (m_sponsor m)"
  shows "r_seq r = r_seq cur + 1" "r_revoked r = filter (\<lambda>i. i \<noteq> m_subject m) (r_revoked cur)"
    "roster_cert r (m_subject m) = Some (member_cert (te_public E k) m (r_seq cur + 1) now)"
    "signed_cert r (m_subject m) = Some (cert_for E k m (r_seq cur + 1) now)"
proof -
  let ?root = "te_public E k" and ?c = "member_cert (te_public E k) m (r_seq cur + 1) now"
  have rev: "list_all id_ok (filter (\<lambda>i. i \<noteq> m_subject m) (r_revoked cur))"
    using verified_typed(3) [OF assms(1,2)] by (simp add: list_all_iff)
  have seq: "r_seq cur + 1 \<le> u64_max" using assms(3) by simp
  note says = sign_roster_says [OF assms(1) seq assms(4) rev assms(5) [unfolded admit_member_def next_roster_def seq_after_room [OF assms(3)]]]
  show "r_seq r = r_seq cur + 1" "r_revoked r = filter (\<lambda>i. i \<noteq> m_subject m) (r_revoked cur)"
    using says(1,4) .
  have "cert_typed ?c"
    using assms(3,4,6,7) assms(1) by (simp add: cert_typed_def member_cert_def trust_laws_def)
  then have c: "verify_cert E (cert_for E k m (r_seq cur + 1) now) ?root = Inr ?c"
    using verify_sign_cert [OF assms(1)] by (simp add: cert_for_def member_cert_def)
  let ?old = "map fst (filter (\<lambda>(c, s). c_subject c \<noteq> m_subject m) (zip (r_certs cur) (r_signed cur)))"
  have "list_all2 (\<lambda>x c. verify_cert E x ?root = Inr c) (r_signed r) (r_certs r)"
    using verified_roster(3) [OF assms(5)] by (rule list_all2_mono) simp
  moreover have "list_all2 (\<lambda>x c. verify_cert E x ?root = Inr c) (r_signed r) (?old @ [?c])"
    unfolding says(3) using verified_others [OF assms(2), of "m_subject m"] c
    by (auto intro!: list_all2_appendI intro: list_all2_mono)
  ultimately have certs: "r_certs r = ?old @ [?c]"
    by (auto simp: list_all2_conv_all_nth intro!: nth_equalityI)
  have len: "length ?old = length (others_signed cur (m_subject m))" by (simp add: others_signed_def)
  show "roster_cert r (m_subject m) = Some ?c"
  proof -
    have "List.find (\<lambda>c. c_subject c = m_subject m) ?old = None" by (auto simp: find_None_iff)
    then show ?thesis unfolding roster_cert_def certs find_append by (simp add: member_cert_def)
  qed
  have "zip (r_certs r) (r_signed r) =
      zip ?old (others_signed cur (m_subject m)) @ [(?c, cert_for E k m (r_seq cur + 1) now)]"
    unfolding certs says(3) using len by simp
  moreover have "\<not> (\<exists>x. x \<in> set (zip ?old (others_signed cur (m_subject m))) \<and> (\<lambda>(c, s). c_subject c = m_subject m) x)"
    by (auto dest!: set_zip_leftD)
  then have "List.find (\<lambda>(c, s). c_subject c = m_subject m) (zip ?old (others_signed cur (m_subject m))) = None"
    by (simp add: find_None_iff)
  ultimately show "signed_cert r (m_subject m) = Some (cert_for E k m (r_seq cur + 1) now)"
    by (simp add: signed_cert_def find_append member_cert_def)
qed

lemma revoke_says:
  assumes "trust_laws E" and "verify_roster E bytes (te_public E k) = Inr cur" and "r_seq cur < u64_max" and "now \<le> u64_max"
    and "id_ok i" and "verify_roster E (revoke E cur k now i) (te_public E k) = Inr r"
  shows "r_seq r = r_seq cur + 1" "set (r_revoked r) = insert i (set (r_revoked cur))"
proof -
  have rev: "list_all id_ok (if i \<in> set (r_revoked cur) then r_revoked cur else r_revoked cur @ [i])"
    using verified_typed(3) [OF assms(1,2)] assms(5) by (simp add: list_all_iff)
  have seq: "r_seq cur + 1 \<le> u64_max" using assms(3) by simp
  note says = sign_roster_says [OF assms(1) seq assms(4) rev assms(6) [unfolded revoke_def next_roster_def seq_after_room [OF assms(3)]]]
  show "r_seq r = r_seq cur + 1" "set (r_revoked r) = insert i (set (r_revoked cur))"
    using says(1,4) by auto
qed

text \<open>A short enough body signed by the root's key verifies.\<close>

definition short_body :: "'k trust_env \<Rightarrow> 'k \<Rightarrow> nat \<Rightarrow> nat \<Rightarrow> byte list list \<Rightarrow> trust_id list \<Rightarrow> bool" where
  "short_body E k seq now certs revoked \<longleftrightarrow>
     length (te_enc_body E \<lparr>b_root = te_public E k, b_seq = seq, b_issued_ms = now, b_certs = certs, b_revoked = revoked\<rparr>)
       < 4294967296"

lemma verify_sign_roster:
  assumes "trust_laws E" and "seq \<le> u64_max" and "now \<le> u64_max" and "list_all id_ok revoked"
    and "short_body E k seq now certs revoked" and "verify_certs E (te_public E k) seq certs = Inr cs"
  shows "verify_roster E (sign_roster E k seq now certs revoked) (te_public E k) =
    Inr \<lparr>r_root = te_public E k, r_seq = seq, r_issued_ms = now, r_certs = cs, r_signed = certs, r_revoked = revoked,
      r_bytes = sign_roster E k seq now certs revoked\<rparr>"
proof -
  let ?b = "\<lparr>b_root = te_public E k, b_seq = seq, b_issued_ms = now, b_certs = certs, b_revoked = revoked\<rparr>"
  have "body_typed ?b" using assms(1-4) by (simp add: body_typed_def trust_laws_def)
  then have d: "te_dec_body E (te_enc_body E ?b) = Some (?b, [])" using assms(1) by (simp add: trust_laws_def)
  have v: "te_verify E (te_public E k) m (te_sign E k m)" for m using assms(1) by (simp add: trust_laws_def)
  have "frame ROSTER_MAGIC (sign_roster E k seq now certs revoked) =
      Inr (te_enc_body E ?b, seal_prefix ROSTER_MAGIC (te_enc_body E ?b), te_sign E k (seal_prefix ROSTER_MAGIC (te_enc_body E ?b)))"
    using frame_seal [OF assms(1) magic_length(2)] assms(5) by (simp add: sign_roster_def short_body_def)
  then show ?thesis using d v assms(6) by (simp add: verify_roster_def decode_exactly_Inr)
qed

lemma verify_cert_for:
  assumes "trust_laws E" and "seq \<le> u64_max" and "now \<le> u64_max" and "id_ok (m_subject m)" and "pred_option id_ok (m_sponsor m)"
  shows "verify_cert E (cert_for E k m seq now) (te_public E k) = Inr (member_cert (te_public E k) m seq now)"
proof -
  have "cert_typed (member_cert (te_public E k) m seq now)"
    using assms by (simp add: cert_typed_def member_cert_def trust_laws_def)
  then show ?thesis using verify_sign_cert [OF assms(1)] by (simp add: cert_for_def member_cert_def)
qed

lemma verify_others_signed:
  assumes "verify_roster E bytes root = Inr cur" and "r_seq cur \<le> seq"
  shows "\<exists>cs. verify_certs E root seq (others_signed cur i) = Inr cs"
  unfolding verify_certs_Inr using verified_others [OF assms(1), of i] assms(2)
  by (intro exI) (auto elim!: list_all2_mono)

text \<open>The roster a revocation signs verifies, if it fits the frame.\<close>

lemma revoke_verifies:
  assumes "trust_laws E" and "verify_roster E bytes (te_public E k) = Inr cur" and "r_seq cur < u64_max" and "now \<le> u64_max"
    and "id_ok i"
    and "short_body E k (r_seq cur + 1) now (others_signed cur i)
      (if i \<in> set (r_revoked cur) then r_revoked cur else r_revoked cur @ [i])"
  shows "\<exists>r. verify_roster E (revoke E cur k now i) (te_public E k) = Inr r"
proof -
  have "list_all id_ok (if i \<in> set (r_revoked cur) then r_revoked cur else r_revoked cur @ [i])"
    using verified_typed(3) [OF assms(1,2)] assms(5) by (simp add: list_all_iff)
  moreover obtain cs where "verify_certs E (te_public E k) (r_seq cur + 1) (others_signed cur i) = Inr cs"
    using verify_others_signed [OF assms(2), of "r_seq cur + 1"] by auto
  ultimately show ?thesis
    using verify_sign_roster [OF assms(1) _ assms(4) _ assms(6)] assms(3) by (simp add: revoke_def next_roster_def)
qed

lemma verify_certs_append:
  "verify_certs E root seq (xs @ ys) = and_then (verify_certs E root seq xs) (\<lambda>as.
     and_then (verify_certs E root seq ys) (\<lambda>bs. Inr (as @ bs)))"
  by (induction xs) (auto simp: and_then_def split: sum.splits)

text \<open>And so does the roster an admission signs.\<close>

lemma admit_verifies:
  assumes "trust_laws E" and "verify_roster E bytes (te_public E k) = Inr cur" and "r_seq cur < u64_max" and "now \<le> u64_max"
    and "id_ok (m_subject m)" and "pred_option id_ok (m_sponsor m)"
    and "short_body E k (r_seq cur + 1) now (others_signed cur (m_subject m) @ [cert_for E k m (r_seq cur + 1) now])
      (filter (\<lambda>i. i \<noteq> m_subject m) (r_revoked cur))"
  shows "\<exists>r. verify_roster E (admit_member E cur k now m) (te_public E k) = Inr r"
proof -
  have seq: "r_seq cur + 1 \<le> u64_max" using assms(3) by simp
  have "list_all id_ok (filter (\<lambda>i. i \<noteq> m_subject m) (r_revoked cur))"
    using verified_typed(3) [OF assms(1,2)] by (simp add: list_all_iff)
  moreover obtain cs where "verify_certs E (te_public E k) (r_seq cur + 1) (others_signed cur (m_subject m)) = Inr cs"
    using verify_others_signed [OF assms(2), of "r_seq cur + 1"] by auto
  then have "\<exists>cs'. verify_certs E (te_public E k) (r_seq cur + 1)
      (others_signed cur (m_subject m) @ [cert_for E k m (r_seq cur + 1) now]) = Inr cs'"
    using verify_cert_for [OF assms(1) seq assms(4-6)] by (simp add: verify_certs_append member_cert_def)
  ultimately show ?thesis
    using verify_sign_roster [OF assms(1) seq assms(4) _ assms(7)] seq_after_room [OF assms(3)]
    by (auto simp: admit_member_def next_roster_def)
qed

section \<open>Two machines settle\<close>

definition settled_root :: "roster option \<Rightarrow> roster option \<Rightarrow> settle_verdict \<Rightarrow> trust_id option" where
  "settled_root mine theirs v =
     (case v of Keep \<Rightarrow> map_option r_root mine | Adopt \<Rightarrow> map_option r_root theirs | Clash \<Rightarrow> None)"

text \<open>
  C31: Two machines that pair reach one verdict without asking each other: run on both sides, the rule
  either clashes on both or leaves both under the same root; a network of more than one machine
  never gives way.
\<close>

theorem both_sides_settle_on_one_root:
  "(settle_roots mine me theirs them dialed = Clash \<longleftrightarrow> settle_roots theirs them mine me (\<not> dialed) = Clash) \<and>
   settled_root mine theirs (settle_roots mine me theirs them dialed) =
     settled_root theirs mine (settle_roots theirs them mine me (\<not> dialed)) \<and>
   \<not> (settle_roots mine me theirs them dialed = Adopt \<and> (case mine of None \<Rightarrow> False | Some m \<Rightarrow> \<not> lone m me))"
  by (auto simp: settle_roots_def settled_root_def split: option.splits if_splits)

end
