(* ===== verification/TrustNode.thy ===== *)
theory TrustNode
  imports Trust Preview
begin

text \<open>
  \<open>crates/node/src/trust.rs\<close>: where the roster meets the store.  The rosters and certificates ride the device
  document next to its rows (\<open>crates/sync/src/devices.rs\<close>); the document's map is a list of its entries in any
  order, and writing to it does not fail.  The root key, the anchor and the notes of who waits are
  files.  A verb loads the document, changes its copy and flushes it; when the flush fails the copy
  is lost.  The cache in front of \<open>verify_roster\<close> holds results of that function and is left out; how a
  typed name becomes a row is left out, so a verb takes the row's id.
\<close>

section \<open>Standing\<close>

datatype trust_standing = Legacy | Trusted | PendingRoot | Revoked

fun standing_key :: "trust_standing \<Rightarrow> string" where
  "standing_key Legacy = ''legacy''"
| "standing_key Trusted = ''trusted''"
| "standing_key PendingRoot = ''pending''"
| "standing_key Revoked = ''revoked''"

definition admitted_standing :: "trust_standing \<Rightarrow> bool" where
  "admitted_standing s \<longleftrightarrow> s = Legacy \<or> s = Trusted"

definition standing_of ::
    "'k trust_env \<Rightarrow> roster option \<Rightarrow> trust_id option \<Rightarrow> trust_id \<Rightarrow> byte list option \<Rightarrow> nat \<Rightarrow> trust_standing" where
  "standing_of E ros anch i presented now_ms =
     (case anch of
        None \<Rightarrow> Legacy
      | Some root \<Rightarrow>
          (case ros of
             None \<Rightarrow> PendingRoot
           | Some r \<Rightarrow>
               if is_revoked r i then Revoked
               else if admits r i now_ms then Trusted
               else if \<not> is_stale r now_ms \<and>
                 (case presented of
                    None \<Rightarrow> False
                  | Some bytes \<Rightarrow>
                      (case verify_cert E bytes root of
                         Inl _ \<Rightarrow> False
                       | Inr c \<Rightarrow> c_subject c = i \<and> c_seq c > r_seq r \<and> live_at c now_ms))
                 then Trusted
               else PendingRoot))"

section \<open>The document\<close>

record device_row =
  dv_id :: string
  dv_sponsor :: "string option"
  dv_gone :: bool

record device_doc =
  dd_rows :: "device_row list"
  dd_rosters :: "(string \<times> byte list) list"
  dd_certs :: "(string \<times> byte list) list"

text \<open>\<open>all\<close>, \<open>get\<close>, \<open>gone_ids\<close>, \<open>cert_of\<close>, \<open>set_cert\<close>, \<open>put_roster\<close>, \<open>drop_rosters\<close>.\<close>

definition dd_all :: "device_doc \<Rightarrow> device_row list" where
  "dd_all d = filter (\<lambda>r. \<not> dv_gone r) (dd_rows d)"

definition dd_get :: "device_doc \<Rightarrow> string \<Rightarrow> device_row option" where
  "dd_get d i = List.find (\<lambda>r. dv_id r = i) (dd_all d)"

definition gone_ids :: "device_doc \<Rightarrow> string list" where
  "gone_ids d = map dv_id (filter dv_gone (dd_rows d))"

definition cert_of :: "device_doc \<Rightarrow> string \<Rightarrow> byte list option" where
  "cert_of d i = map_of (dd_certs d) i"

definition put_doc_entry :: "string \<Rightarrow> byte list \<Rightarrow> (string \<times> byte list) list \<Rightarrow> (string \<times> byte list) list" where
  "put_doc_entry k b es = filter (\<lambda>(k', _). k' \<noteq> k) es @ [(k, b)]"

definition set_cert :: "string \<Rightarrow> byte list \<Rightarrow> device_doc \<Rightarrow> device_doc" where
  "set_cert i c d = (if cert_of d i = Some c then d else d\<lparr>dd_certs := put_doc_entry i c (dd_certs d)\<rparr>)"

definition put_roster :: "string \<Rightarrow> byte list \<Rightarrow> device_doc \<Rightarrow> device_doc" where
  "put_roster k b d =
     (if map_of (dd_rosters d) k = Some b then d else d\<lparr>dd_rosters := put_doc_entry k b (dd_rosters d)\<rparr>)"

definition drop_rosters :: "string list \<Rightarrow> device_doc \<Rightarrow> device_doc" where
  "drop_rosters ks d = d\<lparr>dd_rosters := filter (\<lambda>(k, _). k \<notin> set ks) (dd_rosters d)\<rparr>"

section \<open>Rosters in the document\<close>

definition byte_hex :: "byte \<Rightarrow> string" where
  "byte_hex b = [id_digit (unat b div 16), id_digit (unat b mod 16)]"

definition roster_key :: "roster \<Rightarrow> string" where
  "roster_key r =
     zero_padded 20 (r_seq r) @ ''-'' @ concat (map byte_hex (drop (length (r_bytes r) - 8) (r_bytes r)))"

definition key_seq :: "string \<Rightarrow> nat option" where
  "key_seq k = parse_uint u64_max (takeWhile (\<lambda>c. c \<noteq> CHR ''-'') k)"

definition newest_in :: "'k trust_env \<Rightarrow> device_doc \<Rightarrow> trust_id \<Rightarrow> roster option" where
  "newest_in E d anch = newest E (map snd (dd_rosters d)) anch"

definition ARCHIVE :: string where "ARCHIVE = ''pair-archive:''"

definition is_archive :: "string \<Rightarrow> bool" where
  "is_archive k \<longleftrightarrow> take (length ARCHIVE) k = ARCHIVE"

definition store_roster :: "roster \<Rightarrow> device_doc \<Rightarrow> device_doc" where
  "store_roster r d =
     (let d' = put_roster (roster_key r) (r_bytes r) d in
      drop_rosters (filter (\<lambda>k. \<not> is_archive k \<and> (case key_seq k of None \<Rightarrow> True | Some s \<Rightarrow> s < r_seq r))
        (map fst (dd_rosters d'))) d')"

section \<open>The machine\<close>

text \<open>\<open>tn_pub\<close> is what \<open>root.pub\<close> reads as, if it can be read.\<close>

record 'k trust_node =
  tn_me :: trust_id
  tn_key :: "'k option"
  tn_pub :: "string option"
  tn_unshown :: bool
  tn_pending :: "string list"
  tn_doc :: device_doc

datatype trust_op_error =
    RootNotHere
  | TrustRefused trust_error
  | NotMachineId
  | NeedsRoot
  | CantRevokeHolder
  | AlreadyRevoked
  | FlushFailed
  | NotPaired
  | NotInRoster
  | RootAlready
  | RecoverOtherNetwork
  | VouchRefused

definition text_id :: "string \<Rightarrow> trust_id option" where
  "text_id text =
     (let u = trim (str_chars text) in
      if list_all (\<lambda>c. c < 128) u then id_from_hex (map char_of u) else None)"

definition anchor_at :: "'k trust_env \<Rightarrow> string option \<Rightarrow> trust_id option" where
  "anchor_at E pub =
     (case pub of
        None \<Rightarrow> None
      | Some text \<Rightarrow> (case text_id text of None \<Rightarrow> None | Some i \<Rightarrow> if te_point E i then Some i else None))"

definition anchor_text :: "trust_id \<Rightarrow> string" where
  "anchor_text root = id_hex root @ [CHR 0x0A]"

definition anchor :: "'k trust_env \<Rightarrow> 'k trust_node \<Rightarrow> trust_id option" where
  "anchor E n = anchor_at E (tn_pub n)"

definition root_secret :: "'k trust_env \<Rightarrow> 'k trust_node \<Rightarrow> 'k option" where
  "root_secret E n =
     (case tn_key n of None \<Rightarrow> None | Some k \<Rightarrow> if anchor E n = Some (te_public E k) then Some k else None)"

definition standing_in :: "'k trust_env \<Rightarrow> 'k trust_node \<Rightarrow> string \<Rightarrow> nat \<Rightarrow> trust_standing" where
  "standing_in E n i now_ms =
     (case id_from_hex i of
        None \<Rightarrow> if anchor E n = None then Legacy else PendingRoot
      | Some idb \<Rightarrow>
          standing_of E (case anchor E n of None \<Rightarrow> None | Some a \<Rightarrow> newest_in E (tn_doc n) a) (anchor E n) idb
            (cert_of (tn_doc n) i) now_ms)"

definition admit_remote :: "'k trust_env \<Rightarrow> 'k trust_node \<Rightarrow> string \<Rightarrow> nat \<Rightarrow> trust_op_error + unit" where
  "admit_remote E n remote now_ms =
     (if dd_get (tn_doc n) remote = None then Inl NotPaired
      else if admitted_standing (standing_in E n remote now_ms) then Inr () else Inl NotInRoster)"

section \<open>The holder's verbs\<close>

definition trust_result :: "trust_error + 'a \<Rightarrow> trust_op_error + 'a" where
  "trust_result r = map_err TrustRefused r"

text \<open>\<open>sign_next\<close> on the loaded copy \<open>d\<close>.\<close>

definition sign_next ::
    "'k trust_env \<Rightarrow> 'k trust_node \<Rightarrow> nat \<Rightarrow> (roster \<Rightarrow> 'k \<Rightarrow> byte list) \<Rightarrow> device_doc \<Rightarrow>
     trust_op_error + roster \<times> device_doc" where
  "sign_next E n now_ms nxt d =
     (case root_secret E n of
        None \<Rightarrow> Inl RootNotHere
      | Some key \<Rightarrow>
          and_then (case newest_in E d (te_public E key) of
              Some c \<Rightarrow> Inr c
            | None \<Rightarrow> trust_result (verify_roster E (genesis E key now_ms [member_device (tn_me n)]) (te_public E key)))
            (\<lambda>cur. and_then (trust_result (verify_roster E (nxt cur key) (te_public E key)))
              (\<lambda>r. Inr (r, store_roster r d))))"

definition drop_note :: "string \<Rightarrow> 'k trust_node \<Rightarrow> 'k trust_node" where
  "drop_note i n = (if id_from_hex i = None then n else n\<lparr>tn_pending := removeAll i (tn_pending n)\<rparr>)"

definition note_pending :: "string \<Rightarrow> 'k trust_node \<Rightarrow> 'k trust_node" where
  "note_pending i n =
     (if id_from_hex i = None \<or> i \<in> set (tn_pending n) then n else n\<lparr>tn_pending := tn_pending n @ [i]\<rparr>)"

definition certify ::
    "'k trust_env \<Rightarrow> nat \<Rightarrow> string \<Rightarrow> member_kind \<Rightarrow> string option \<Rightarrow> 'k trust_node \<Rightarrow> device_doc \<Rightarrow>
     (trust_op_error + roster \<times> device_doc) \<times> 'k trust_node" where
  "certify E now_ms i kind sponsor n d =
     (case id_from_hex i of
        None \<Rightarrow> (Inl NotMachineId, n)
      | Some subject \<Rightarrow>
          let m = \<lparr>m_subject = subject, m_kind = kind,
                   m_sponsor = (case sponsor of None \<Rightarrow> None | Some s \<Rightarrow> id_from_hex s)\<rparr> in
          (case sign_next E n now_ms (\<lambda>cur key. admit_member E cur key now_ms m) d of
             Inl e \<Rightarrow> (Inl e, n)
           | Inr (r, d') \<Rightarrow>
               (Inr (r, case signed_cert r subject of None \<Rightarrow> d' | Some c \<Rightarrow> set_cert i c d'), drop_note i n)))"

text \<open>The flush at a verb's end; \<open>ok\<close> is its outcome.\<close>

definition flush_doc :: "bool \<Rightarrow> device_doc \<Rightarrow> 'k trust_node \<Rightarrow> (trust_op_error + unit) \<times> 'k trust_node" where
  "flush_doc ok d n = (if ok then (Inr (), n\<lparr>tn_doc := d\<rparr>) else (Inl FlushFailed, n))"

definition approve_row ::
    "'k trust_env \<Rightarrow> bool \<Rightarrow> nat \<Rightarrow> string \<Rightarrow> bool \<Rightarrow> 'k trust_node \<Rightarrow> (trust_op_error + nat) \<times> 'k trust_node" where
  "approve_row E ok now_ms i leaving n =
     (if root_secret E n = None then (Inl NeedsRoot, n)
      else
        case (if leaving
              then (case id_from_hex i of
                      None \<Rightarrow> (Inl NotMachineId, n)
                    | Some idb \<Rightarrow> (sign_next E n now_ms (\<lambda>cur key. revoke E cur key now_ms idb) (tn_doc n), n))
              else
                let sponsor = (case dd_get (tn_doc n) i of None \<Rightarrow> None | Some row \<Rightarrow> dv_sponsor row) in
                certify E now_ms i (if sponsor = None then Device else Satellite) sponsor n (tn_doc n)) of
          (Inl e, n1) \<Rightarrow> (Inl e, n1)
        | (Inr (r, d), n1) \<Rightarrow>
            (case flush_doc ok d n1 of
               (Inl e, n2) \<Rightarrow> (Inl e, n2)
             | (Inr _, n2) \<Rightarrow> (Inr (r_seq r), drop_note i n2)))"

definition revoke_row ::
    "'k trust_env \<Rightarrow> bool \<Rightarrow> nat \<Rightarrow> string \<Rightarrow> 'k trust_node \<Rightarrow> (trust_op_error + nat) \<times> 'k trust_node" where
  "revoke_row E ok now_ms i n =
     (case root_secret E n of
        None \<Rightarrow> (Inl NeedsRoot, n)
      | Some key \<Rightarrow>
          if i = id_hex (tn_me n) then (Inl CantRevokeHolder, n)
          else (case id_from_hex i of
            None \<Rightarrow> (Inl NotMachineId, n)
          | Some idb \<Rightarrow>
              if (case newest_in E (tn_doc n) (te_public E key) of None \<Rightarrow> False | Some r \<Rightarrow> is_revoked r idb)
              then (Inl AlreadyRevoked, n)
              else (case sign_next E n now_ms (\<lambda>cur key. revoke E cur key now_ms idb) (tn_doc n) of
                 Inl e \<Rightarrow> (Inl e, n)
               | Inr (r, d) \<Rightarrow>
                   (case flush_doc ok d n of
                      (Inl e, n2) \<Rightarrow> (Inl e, n2)
                    | (Inr _, n2) \<Rightarrow> (Inr (r_seq r), drop_note i n2)))))"

text \<open>\<open>revoke_if_holder\<close> on a loaded copy: whoever leaves the table is revoked, if this machine can.\<close>

definition revoke_if_holder ::
    "'k trust_env \<Rightarrow> nat \<Rightarrow> string \<Rightarrow> 'k trust_node \<Rightarrow> device_doc \<Rightarrow> trust_op_error + device_doc" where
  "revoke_if_holder E now_ms i n d =
     (case root_secret E n of
        None \<Rightarrow> Inr d
      | Some key \<Rightarrow>
          (case id_from_hex i of
             None \<Rightarrow> Inl NotMachineId
           | Some idb \<Rightarrow>
               if (case newest_in E d (te_public E key) of None \<Rightarrow> False
                   | Some r \<Rightarrow> roster_cert r idb \<noteq> None \<and> \<not> is_revoked r idb)
               then and_then (sign_next E n now_ms (\<lambda>cur key. revoke E cur key now_ms idb) d) (\<lambda>(_, d'). Inr d')
               else Inr d))"

definition enroll_satellite ::
    "'k trust_env \<Rightarrow> nat \<Rightarrow> string \<Rightarrow> 'k trust_node \<Rightarrow> device_doc \<Rightarrow> (trust_op_error + device_doc) \<times> 'k trust_node" where
  "enroll_satellite E now_ms i n d =
     (if anchor E n = None then (Inr d, n)
      else if root_secret E n \<noteq> None then
        (case certify E now_ms i Satellite (Some (id_hex (tn_me n))) n d of
           (Inl e, n') \<Rightarrow> (Inl e, n')
         | (Inr (_, d'), n') \<Rightarrow> (Inr d', n'))
      else (Inr d, note_pending i n))"

section \<open>Coming by a root\<close>

definition set_anchor :: "trust_id \<Rightarrow> 'k trust_node \<Rightarrow> 'k trust_node" where
  "set_anchor root n = n\<lparr>tn_pub := Some (anchor_text root)\<rparr>"

text \<open>\<open>certify_self\<close>: the holder makes sure it is on the roster itself.\<close>

definition certify_self ::
    "'k trust_env \<Rightarrow> nat \<Rightarrow> 'k \<Rightarrow> 'k trust_node \<Rightarrow> device_doc \<Rightarrow> (trust_op_error + device_doc) \<times> 'k trust_node" where
  "certify_self E now_ms key n d =
     (case newest_in E d (te_public E key) of
        Some r \<Rightarrow>
          if admits r (tn_me n) now_ms then (Inr d, n)
          else (case certify E now_ms (id_hex (tn_me n)) Device None n d of
             (Inl e, n') \<Rightarrow> (Inl e, n')
           | (Inr (_, d'), n') \<Rightarrow> (Inr d', n'))
      | None \<Rightarrow>
          (and_then (trust_result (verify_roster E (genesis E key now_ms [member_device (tn_me n)]) (te_public E key)))
             (\<lambda>r. Inr (case signed_cert r (tn_me n) of
                None \<Rightarrow> store_roster r d
              | Some c \<Rightarrow> set_cert (id_hex (tn_me n)) c (store_roster r d))), n))"

text \<open>\<open>adopt_from_table\<close>: a machine of a network from before roots takes up the roster that names it.\<close>

fun last_max_seq :: "roster option \<Rightarrow> roster list \<Rightarrow> roster option" where
  "last_max_seq best [] = best"
| "last_max_seq best (r # rs) =
     last_max_seq (case best of None \<Rightarrow> Some r | Some b \<Rightarrow> if r_seq r < r_seq b then Some b else Some r) rs"

definition claimed_roster :: "'k trust_env \<Rightarrow> byte list \<Rightarrow> roster option" where
  "claimed_roster E b =
     (case claimed_root E b of
        None \<Rightarrow> None
      | Some root \<Rightarrow> (case verify_roster E b root of Inl _ \<Rightarrow> None | Inr r \<Rightarrow> Some r))"

definition adopt_from_table :: "'k trust_env \<Rightarrow> nat \<Rightarrow> device_doc \<Rightarrow> 'k trust_node \<Rightarrow> 'k trust_node" where
  "adopt_from_table E now_ms d n =
     (case last_max_seq None (filter (\<lambda>r. admits r (tn_me n) now_ms) (List.map_filter (claimed_roster E) (map snd (dd_rosters d)))) of
        Some r \<Rightarrow> set_anchor (r_root r) n
      | None \<Rightarrow> n)"

definition bootstrap_trust ::
    "'k trust_env \<Rightarrow> bool \<Rightarrow> nat \<Rightarrow> 'k \<Rightarrow> 'k trust_node \<Rightarrow> (trust_op_error + bool) \<times> 'k trust_node" where
  "bootstrap_trust E ok now_ms fresh_key n =
     (if anchor E n \<noteq> None then
        (case root_secret E n of
           None \<Rightarrow> (Inr False, n)
         | Some key \<Rightarrow>
             if (case newest_in E (tn_doc n) (te_public E key) of None \<Rightarrow> False | Some r \<Rightarrow> admits r (tn_me n) now_ms)
             then (Inr False, n)
             else (case certify_self E now_ms key n (tn_doc n) of
                (Inl e, n1) \<Rightarrow> (Inl e, n1)
              | (Inr d, n1) \<Rightarrow>
                  (case flush_doc ok d n1 of (Inl e, n2) \<Rightarrow> (Inl e, n2) | (Inr _, n2) \<Rightarrow> (Inr False, n2))))
      else if tn_key n = None \<and> \<not> list_all (\<lambda>r. dv_id r = id_hex (tn_me n)) (dd_all (tn_doc n))
        then (Inr False, adopt_from_table E now_ms (tn_doc n) n)
      else
        let born = (tn_key n = None);
            key = (case tn_key n of Some k \<Rightarrow> k | None \<Rightarrow> fresh_key);
            n1 = set_anchor (te_public E key) (n\<lparr>tn_key := Some key\<rparr>) in
        (case certify_self E now_ms key n1 (tn_doc n1) of
           (Inl e, n2) \<Rightarrow> (Inl e, n2)
         | (Inr d, n2) \<Rightarrow>
             (case flush_doc ok d n2 of
                (Inl e, n3) \<Rightarrow> (Inl e, n3)
              | (Inr _, n3) \<Rightarrow> (Inr born, if born then n3\<lparr>tn_unshown := True\<rparr> else n3))))"

definition trust_tick ::
    "'k trust_env \<Rightarrow> bool \<Rightarrow> nat \<Rightarrow> 'k trust_node \<Rightarrow> (trust_op_error + unit) \<times> 'k trust_node" where
  "trust_tick E ok now_ms n =
     (if anchor E n = None then
        (Inr (), if tn_key n = None then adopt_from_table E now_ms (tn_doc n) n else n)
      else
        (case root_secret E n of
           None \<Rightarrow> (Inr (), n)
         | Some key \<Rightarrow>
             if (case newest_in E (tn_doc n) (te_public E key) of None \<Rightarrow> False | Some r \<Rightarrow> needs_refresh r now_ms)
             then (case sign_next E n now_ms (\<lambda>cur key. refresh E cur key now_ms) (tn_doc n) of
                Inl e \<Rightarrow> (Inl e, n)
              | Inr (_, d) \<Rightarrow> flush_doc ok d n)
             else (Inr (), n)))"

definition root_recover ::
    "'k trust_env \<Rightarrow> bool \<Rightarrow> nat \<Rightarrow> 'k \<Rightarrow> 'k trust_node \<Rightarrow> (trust_op_error + unit) \<times> 'k trust_node" where
  "root_recover E ok now_ms key n =
     (let other = (case anchor E n of None \<Rightarrow> None | Some a \<Rightarrow> if a \<noteq> te_public E key then Some a else None) in
      if (case other of None \<Rightarrow> False
          | Some a \<Rightarrow> (case newest_in E (tn_doc n) a of None \<Rightarrow> False | Some r \<Rightarrow> \<not> lone r (tn_me n)))
      then (Inl RecoverOtherNetwork, n)
      else
        let d = (if other = None then tn_doc n else drop_rosters (map fst (dd_rosters (tn_doc n))) (tn_doc n));
            n1 = set_anchor (te_public E key) (n\<lparr>tn_key := Some key\<rparr>) in
        (case certify_self E now_ms key (n1\<lparr>tn_unshown := False\<rparr>) d of
           (Inl e, n2) \<Rightarrow> (Inl e, n2)
         | (Inr d', n2) \<Rightarrow> flush_doc ok d' n2))"

text \<open>\<open>root_init\<close>: a network from before roots gets one here, and everyone in the table is certified.\<close>

definition init_member :: "device_row \<Rightarrow> member option" where
  "init_member row =
     (case id_from_hex (dv_id row) of
        None \<Rightarrow> None
      | Some subject \<Rightarrow>
          (case (case dv_sponsor row of None \<Rightarrow> None | Some s \<Rightarrow> id_from_hex s) of
             Some sp \<Rightarrow> Some \<lparr>m_subject = subject, m_kind = Satellite, m_sponsor = Some sp\<rparr>
           | None \<Rightarrow> Some (member_device subject)))"

definition init_members :: "trust_id \<Rightarrow> device_doc \<Rightarrow> member list" where
  "init_members me d =
     (let ms = List.map_filter init_member (dd_all d) in
      if list_ex (\<lambda>m. m_subject m = me) ms then ms else ms @ [member_device me])"

definition give_certs :: "roster \<Rightarrow> member list \<Rightarrow> device_doc \<Rightarrow> device_doc" where
  "give_certs r ms d =
     fold (\<lambda>m d. case signed_cert r (m_subject m) of None \<Rightarrow> d | Some c \<Rightarrow> set_cert (id_hex (m_subject m)) c d) ms d"

definition root_init ::
    "'k trust_env \<Rightarrow> bool \<Rightarrow> nat \<Rightarrow> 'k \<Rightarrow> 'k trust_node \<Rightarrow> (trust_op_error + trust_id \<times> nat) \<times> 'k trust_node" where
  "root_init E ok now_ms fresh_key n =
     (if anchor E n \<noteq> None then (Inl RootAlready, n)
      else
        let members = init_members (tn_me n) (tn_doc n) in
        if tn_key n \<noteq> None then (Inl RootAlready, n)
        else
          let n1 = set_anchor (te_public E fresh_key) (n\<lparr>tn_key := Some fresh_key\<rparr>) in
          (case trust_result (verify_roster E (genesis E fresh_key now_ms members) (te_public E fresh_key)) of
             Inl e \<Rightarrow> (Inl e, n1)
           | Inr r \<Rightarrow>
               (case flush_doc ok (give_certs r members (store_roster r (tn_doc n1))) n1 of
                  (Inl e, n2) \<Rightarrow> (Inl e, n2)
                | (Inr _, n2) \<Rightarrow> (Inr (te_public E fresh_key, length members), n2\<lparr>tn_unshown := True\<rparr>))))"

definition leave_trust :: "'k trust_env \<Rightarrow> 'k trust_node \<Rightarrow> device_doc \<Rightarrow> device_doc \<times> 'k trust_node" where
  "leave_trust E n d =
     (if root_secret E n \<noteq> None then (d, n)
      else (drop_rosters (map fst (dd_rosters d)) d, n\<lparr>tn_pub := None, tn_pending := []\<rparr>))"

section \<open>A vouch\<close>

text \<open>
  \<open>take_vouch\<close>: a machine this one has not met shows a roster under the common anchor that names both.
\<close>

definition dd_upsert :: "string \<Rightarrow> device_doc \<Rightarrow> device_doc" where
  "dd_upsert i d =
     (if i \<in> dv_id ` set (dd_rows d) then d
      else d\<lparr>dd_rows := dd_rows d @ [\<lparr>dv_id = i, dv_sponsor = None, dv_gone = False\<rparr>]\<rparr>)"

definition give_cert :: "roster \<Rightarrow> string \<Rightarrow> device_doc \<Rightarrow> device_doc" where
  "give_cert r i d =
     (case id_from_hex i of
        None \<Rightarrow> d
      | Some idb \<Rightarrow> (case signed_cert r idb of None \<Rightarrow> d | Some c \<Rightarrow> set_cert i c d))"

definition take_vouch ::
    "'k trust_env \<Rightarrow> bool \<Rightarrow> nat \<Rightarrow> string \<Rightarrow> byte list \<Rightarrow> 'k trust_node \<Rightarrow> (trust_op_error + unit) \<times> 'k trust_node" where
  "take_vouch E ok now_ms remote bytes n =
     (case anchor E n of
        None \<Rightarrow> (Inl VouchRefused, n)
      | Some a \<Rightarrow>
          (case verify_roster E bytes a of
             Inl _ \<Rightarrow> (Inl VouchRefused, n)
           | Inr r \<Rightarrow>
               (case id_from_hex remote of
                  None \<Rightarrow> (Inl NotMachineId, n)
                | Some them \<Rightarrow>
                    if is_stale r now_ms \<or> \<not> admits r them now_ms \<or> \<not> admits r (tn_me n) now_ms
                    then (Inl VouchRefused, n)
                    else if (case newest_in E (tn_doc n) a of None \<Rightarrow> False | Some mine \<Rightarrow> r_seq mine > r_seq r) \<or>
                      remote \<in> set (gone_ids (tn_doc n))
                    then (Inl VouchRefused, n)
                    else
                      flush_doc ok (give_cert r (id_hex (tn_me n)) (give_cert r remote
                        (dd_upsert remote (store_roster r (tn_doc n))))) n)))"

end
