(* ===== verification/TrustGuarantees.thy ===== *)
theory TrustGuarantees
  imports TrustFacts TrustNode
begin

text \<open>
  What a machine grants: a revocation holds against every later copy of the table, an approval is
  believed at once, and nobody is trusted whom the root's holder did not certify.
\<close>

section \<open>The anchor's file\<close>

lemma hexdigit_ascii: "is_ascii_hexdigit c \<Longrightarrow> (of_char c :: nat) < 128 \<and> \<not> is_whitespace (of_char c)"
  by (auto simp: is_ascii_hexdigit_def is_whitespace_def Let_def)

text \<open>What is written as the anchor reads back as it.\<close>

lemma text_id_anchor: "id_ok root \<Longrightarrow> text_id (anchor_text root) = Some root"
proof -
  assume root: "id_ok root"
  let ?h = "map of_char (id_hex root) :: nat list"
  have a: "(of_char c :: nat) < 128 \<and> \<not> is_whitespace (of_char c)" if "c \<in> set (id_hex root)" for c
    using that id_hex_digits [of root] hexdigit_ascii by (auto simp: list_all_iff)
  then have "str_chars (anchor_text root) = ?h @ [10]"
    by (subst str_chars_ascii) (auto simp: anchor_text_def list_all_iff)
  moreover have "dropWhile is_whitespace (?h @ [10]) = ?h @ [10]" "dropWhile is_whitespace (rev ?h) = rev ?h"
  proof -
    have ne: "id_hex root \<noteq> []" using root by (simp add: id_ok_def flip: length_0_conv)
    then have "\<not> is_whitespace (of_char (hd (id_hex root)))" "\<not> is_whitespace (of_char (last (id_hex root)))"
      using a by simp_all
    then show "dropWhile is_whitespace (?h @ [10]) = ?h @ [10]" "dropWhile is_whitespace (rev ?h) = rev ?h"
      using ne by (simp_all add: dropWhile_eq_self_iff hd_map hd_rev last_map)
  qed
  moreover have "is_whitespace 10" by (simp add: is_whitespace_def)
  ultimately have "trim (str_chars (anchor_text root)) = ?h"
    by (simp add: trim_def trim_start_def trim_end_def)
  then show ?thesis using a root by (simp add: text_id_def Let_def list_all_iff)
qed

lemma anchor_set_anchor: "id_ok root \<Longrightarrow> te_point E root \<Longrightarrow> anchor E (set_anchor root n) = Some root"
  by (simp add: anchor_def anchor_at_def set_anchor_def text_id_anchor)

section \<open>The document's rosters\<close>

lemma key_seq_roster_key: "r_seq r \<le> u64_max \<Longrightarrow> key_seq (roster_key r) = Some (r_seq r)"
proof -
  assume n: "r_seq r \<le> u64_max"
  have "c \<noteq> CHR ''-''" if "c \<in> set (zero_padded 20 (r_seq r))" for c
    using zero_padded_digits [OF that] by auto
  then have "takeWhile (\<lambda>c. c \<noteq> CHR ''-'') (roster_key r) = zero_padded 20 (r_seq r)"
    by (simp add: roster_key_def takeWhile_append2)
  then show ?thesis using n by (simp add: key_seq_def)
qed

lemma put_roster_values: "set (map snd (dd_rosters (put_roster k b d))) \<subseteq> insert b (set (map snd (dd_rosters d)))"
  by (auto simp: put_roster_def put_doc_entry_def)

lemma put_roster_has: "(k, b) \<in> set (dd_rosters (put_roster k b d))"
  by (auto simp: put_roster_def put_doc_entry_def dest: map_of_SomeD)

lemma store_roster_values:
  "set (map snd (dd_rosters (store_roster r d))) \<subseteq> insert (r_bytes r) (set (map snd (dd_rosters d)))"
  using put_roster_values [of "roster_key r" "r_bytes r" d] by (auto simp: store_roster_def drop_rosters_def Let_def)

lemma store_roster_has:
  "r_seq r \<le> u64_max \<Longrightarrow> (roster_key r, r_bytes r) \<in> set (dd_rosters (store_roster r d))"
  using put_roster_has [of "roster_key r" "r_bytes r" d]
  by (simp add: store_roster_def drop_rosters_def Let_def key_seq_roster_key)

lemma newest_in_store:
  assumes "trust_laws E" and "verify_roster E (r_bytes r) root = Inr r"
    and "\<And>x. newest_in E d root = Some x \<Longrightarrow> roster_rank x \<le> roster_rank r"
  shows "newest_in E (store_roster r d) root = Some r"
proof -
  have "r_seq r \<le> u64_max" by (rule verified_typed(1) [OF assms(1,2)])
  from store_roster_has [OF this] have "r_bytes r \<in> set (map snd (dd_rosters (store_roster r d)))" by force
  moreover have "roster_rank x \<le> roster_rank r"
    if b: "b \<in> set (map snd (dd_rosters (store_roster r d)))" and x: "verify_roster E b root = Inr x" for b x
  proof (cases "b = r_bytes r")
    case True
    then show ?thesis using x assms(2) by simp
  next
    case False
    then have b': "b \<in> set (map snd (dd_rosters d))" using b store_roster_values by blast
    show ?thesis
    proof (cases "newest_in E d root")
      case None
      then show ?thesis using b' x unfolding newest_in_def newest_None by blast
    next
      case (Some y)
      then have "roster_rank x \<le> roster_rank y" using b' x unfolding newest_in_def newest_Some by blast
      then show ?thesis using assms(3) [OF Some] by (rule order_trans)
    qed
  qed
  ultimately show ?thesis unfolding newest_in_def newest_Some using assms(2) by blast
qed

lemma certs_store_roster [simp]: "dd_certs (store_roster r d) = dd_certs d"
  by (simp add: store_roster_def drop_rosters_def put_roster_def Let_def)

lemma rosters_set_cert [simp]: "dd_rosters (set_cert i c d) = dd_rosters d"
  by (simp add: set_cert_def)

lemma newest_in_set_cert [simp]: "newest_in E (set_cert i c d) root = newest_in E d root"
  by (simp add: newest_in_def)

section \<open>Signing the next roster\<close>

text \<open>The roster a change starts from.\<close>

definition current_roster :: "'k trust_env \<Rightarrow> 'k trust_node \<Rightarrow> nat \<Rightarrow> 'k \<Rightarrow> device_doc \<Rightarrow> roster \<Rightarrow> bool" where
  "current_roster E n now key d cur \<longleftrightarrow>
     newest_in E d (te_public E key) = Some cur \<or>
     newest_in E d (te_public E key) = None \<and>
       verify_roster E (genesis E key now [member_device (tn_me n)]) (te_public E key) = Inr cur"

lemma root_secret_anchor: "root_secret E n = Some key \<Longrightarrow> anchor E n = Some (te_public E key)"
  by (auto simp: root_secret_def split: option.splits if_splits)

lemma sign_next_Inr:
  assumes "sign_next E n now nxt d = Inr (r, d')"
  obtains key cur where "root_secret E n = Some key" "current_roster E n now key d cur"
    "verify_roster E (nxt cur key) (te_public E key) = Inr r" "d' = store_roster r d"
  using assms
  by (auto simp: sign_next_def current_roster_def trust_result_def map_err_def split: option.splits sum.splits)

text \<open>A current roster verifies, and its number leaves room for one more if the newest one's does.\<close>

definition room_for_next :: "'k trust_env \<Rightarrow> 'k trust_node \<Rightarrow> bool" where
  "room_for_next E n \<longleftrightarrow>
     (case root_secret E n of
        None \<Rightarrow> True
      | Some key \<Rightarrow>
          (case newest_in E (tn_doc n) (te_public E key) of None \<Rightarrow> True | Some r \<Rightarrow> r_seq r < u64_max))"

lemma current_roster_facts:
  assumes "trust_laws E" and "current_roster E n now key (tn_doc n) cur" and "now \<le> u64_max"
    and "root_secret E n = Some key" and "room_for_next E n"
  shows "verify_roster E (r_bytes cur) (te_public E key) = Inr cur" "r_seq cur < u64_max"
    "\<And>x. newest_in E (tn_doc n) (te_public E key) = Some x \<Longrightarrow> x = cur"
proof -
  have g: "r_seq cur = 1" if "verify_roster E (genesis E key now [member_device (tn_me n)]) (te_public E key) = Inr cur"
    using sign_roster_says(1) [OF assms(1) _ assms(3) _ that [unfolded genesis_def]] by (simp add: u64_max_def)
  show "verify_roster E (r_bytes cur) (te_public E key) = Inr cur"
    using assms(2) verified_roster(2) [of E _ "te_public E key" cur]
    unfolding current_roster_def newest_in_def newest_Some by metis
  show "r_seq cur < u64_max"
    using assms(2,4,5) g by (auto simp: current_roster_def room_for_next_def u64_max_def)
  show "\<And>x. newest_in E (tn_doc n) (te_public E key) = Some x \<Longrightarrow> x = cur"
    using assms(2) by (simp add: current_roster_def)
qed

lemma rank_of_next: "r_seq r = r_seq cur + 1 \<Longrightarrow> roster_rank cur \<le> roster_rank r"
  by (simp add: roster_rank_def less_eq_prod_def)

lemma id_from_hex_ok: "id_from_hex s = Some i \<Longrightarrow> id_ok i"
proof -
  assume s: "id_from_hex s = Some i"
  have len: "length (hex_pairs s) = length s div 2" for s by (induction s rule: hex_pairs.induct) simp_all
  from s have "i = hex_pairs s" "length s = 64" by (auto simp: id_from_hex_def split: if_splits)
  then show ?thesis by (simp add: id_ok_def len)
qed

lemma drop_note_doc [simp]: "tn_doc (drop_note i n) = tn_doc n" "tn_pub (drop_note i n) = tn_pub n"
    "tn_key (drop_note i n) = tn_key n" "tn_me (drop_note i n) = tn_me n"
  by (simp_all add: drop_note_def)

lemma flush_doc_Inr: "flush_doc ok d n = (Inr u, n') \<Longrightarrow> n' = n\<lparr>tn_doc := d\<rparr>"
  by (auto simp: flush_doc_def split: if_splits)

section \<open>Revoking\<close>

lemma revoke_row_Inr:
  assumes "revoke_row E ok now i n = (Inr s, n')"
  obtains key idb r where "root_secret E n = Some key" "id_from_hex i = Some idb"
    "sign_next E n now (\<lambda>cur key. revoke E cur key now idb) (tn_doc n) = Inr (r, tn_doc n')" "r_seq r = s"
    "tn_pub n' = tn_pub n"
  using assms
  by (auto simp: revoke_row_def flush_doc_def split: option.splits if_splits sum.splits prod.splits)

text \<open>The revocation that was signed is the newest roster of the table.\<close>

lemma revocation_newest:
  assumes "trust_laws E" and "now \<le> u64_max" and "room_for_next E n" and "id_ok idb"
    and "sign_next E n now (\<lambda>cur key. revoke E cur key now idb) (tn_doc n) = Inr (r, d')"
  obtains root where "anchor E n = Some root" "newest_in E d' root = Some r" "is_revoked r idb"
proof -
  from assms(5) obtain key cur where c: "root_secret E n = Some key" "current_roster E n now key (tn_doc n) cur"
    "verify_roster E (revoke E cur key now idb) (te_public E key) = Inr r" "d' = store_roster r (tn_doc n)"
    by (rule sign_next_Inr)
  note cur = current_roster_facts [OF assms(1) c(2) assms(2) c(1) assms(3)]
  note says = revoke_says [OF assms(1) cur(1,2) assms(2,4) c(3)]
  have "newest_in E d' (te_public E key) = Some r"
    unfolding c(4)
  proof (rule newest_in_store [OF assms(1)])
    show "verify_roster E (r_bytes r) (te_public E key) = Inr r" using c(3) verified_roster(2) [OF c(3)] by simp
    show "roster_rank x \<le> roster_rank r" if "newest_in E (tn_doc n) (te_public E key) = Some x" for x
      using cur(3) [OF that] rank_of_next [OF says(1)] by simp
  qed
  then show thesis using that root_secret_anchor [OF c(1)] says(2) by (simp add: is_revoked_def)
qed

lemma revoke_row_stores:
  assumes "trust_laws E" and "now \<le> u64_max" and "room_for_next E n" and "revoke_row E ok now i n = (Inr s, n')"
  obtains root idb r where "anchor E n' = Some root" "id_from_hex i = Some idb"
    "newest_in E (tn_doc n') root = Some r" "r_seq r = s" "is_revoked r idb"
proof -
  from assms(4) obtain key idb r where r: "root_secret E n = Some key" "id_from_hex i = Some idb"
    "sign_next E n now (\<lambda>cur key. revoke E cur key now idb) (tn_doc n) = Inr (r, tn_doc n')" "r_seq r = s"
    "tn_pub n' = tn_pub n" by (rule revoke_row_Inr)
  from assms(1-3) id_from_hex_ok [OF r(2)] r(3) obtain root where
    "anchor E n = Some root" "newest_in E (tn_doc n') root = Some r" "is_revoked r idb" by (rule revocation_newest)
  then show thesis using that r(2,4,5) by (simp add: anchor_def)
qed

lemma revoked_standing:
  "anchor E n = Some root \<Longrightarrow> id_from_hex i = Some idb \<Longrightarrow> newest_in E (tn_doc n) root = Some r \<Longrightarrow> is_revoked r idb \<Longrightarrow>
   standing_in E n i t = Revoked"
  by (simp add: standing_in_def standing_of_def)

text \<open>
  C5: A revocation survives every merge.  After a revocation answered, any later copy of the table that still holds the
  rosters that were there then refuses the machine, whatever certificate it shows and however much time has passed,
  unless what it holds besides them is a roster of the root's of that number or higher that does not revoke it.
\<close>

theorem revocation_survives_every_merge:
  assumes "trust_laws E" and "now \<le> u64_max" and "room_for_next E n"
    and "revoke_row E ok now i n = (Inr s, n')"
    and "tn_pub later = tn_pub n'"
    and "set (map snd (dd_rosters (tn_doc n'))) \<subseteq> set (map snd (dd_rosters (tn_doc later)))"
    and "\<And>b root x idb. b \<in> set (map snd (dd_rosters (tn_doc later))) - set (map snd (dd_rosters (tn_doc n'))) \<Longrightarrow>
          anchor E n' = Some root \<Longrightarrow> verify_roster E b root = Inr x \<Longrightarrow> s \<le> r_seq x \<Longrightarrow> id_from_hex i = Some idb \<Longrightarrow> is_revoked x idb"
  shows "standing_in E later i t = Revoked \<and> admit_remote E later i t \<noteq> Inr ()"
proof -
  from assms(1-4) obtain root idb r where r: "anchor E n' = Some root" "id_from_hex i = Some idb"
    "newest_in E (tn_doc n') root = Some r" "r_seq r = s" "is_revoked r idb" by (rule revoke_row_stores)
  from newest_grows [OF r(3) [unfolded newest_in_def] assms(6)] obtain x where
    x: "newest_in E (tn_doc later) root = Some x" "roster_rank r \<le> roster_rank x" by (auto simp: newest_in_def)
  from x(1) have v: "r_bytes x \<in> set (map snd (dd_rosters (tn_doc later)))" "verify_roster E (r_bytes x) root = Inr x"
    unfolding newest_in_def newest_Some by simp_all
  have s: "s \<le> r_seq x" using x(2) r(4) by (auto simp: roster_rank_def less_eq_prod_def)
  have "is_revoked x idb"
  proof (cases "r_bytes x \<in> set (map snd (dd_rosters (tn_doc n')))")
    case True
    then have "roster_rank x \<le> roster_rank r" using r(3) v(2) unfolding newest_in_def newest_Some by blast
    with x(2) have "roster_rank x = roster_rank r" by (rule order.antisym [rotated])
    then have "r_bytes x = r_bytes r" by (simp add: roster_rank_def)
    moreover have "verify_roster E (r_bytes r) root = Inr r" using r(3) unfolding newest_in_def newest_Some by blast
    ultimately show ?thesis using v(2) r(5) by simp
  next
    case False
    then show ?thesis using v(1) by (intro assms(7) [OF _ r(1) v(2) s r(2)]) blast
  qed
  moreover have "anchor E later = Some root" using r(1) assms(5) by (simp add: anchor_def)
  ultimately have "standing_in E later i t = Revoked" using r(2) x(1) by (intro revoked_standing)
  then show ?thesis by (simp add: admit_remote_def admitted_standing_def)
qed

section \<open>Approving\<close>

lemma certify_Inr:
  assumes "certify E now i kind sponsor n d = (Inr (r, d'), n')"
  obtains idb d0 where "id_from_hex i = Some idb"
    "sign_next E n now (\<lambda>cur key. admit_member E cur key now \<lparr>m_subject = idb, m_kind = kind,
       m_sponsor = (case sponsor of None \<Rightarrow> None | Some s \<Rightarrow> id_from_hex s)\<rparr>) d = Inr (r, d0)"
    "dd_rosters d' = dd_rosters d0" "n' = drop_note i n"
  using assms
  by (auto simp: certify_def Let_def split: option.splits sum.splits prod.splits)

lemma approve_row_Inr:
  assumes "approve_row E ok now i False n = (Inr s, n')"
  obtains kind sponsor r d n1 where "certify E now i kind sponsor n (tn_doc n) = (Inr (r, d), n1)"
    "tn_doc n' = d" "r_seq r = s" "tn_pub n' = tn_pub n1"
  using assms
  by (auto simp: approve_row_def Let_def flush_doc_def split: option.splits if_splits sum.splits prod.splits)

lemma approve_row_stores:
  assumes "trust_laws E" and "now \<le> u64_max" and "room_for_next E n" and "approve_row E ok now i False n = (Inr s, n')"
  obtains root idb r where "anchor E n' = Some root" "id_from_hex i = Some idb"
    "newest_in E (tn_doc n') root = Some r" "r_seq r = s" "\<not> is_revoked r idb" "\<And>t. admits r idb t"
proof -
  from assms(4) obtain kind sponsor r d n1 where a: "certify E now i kind sponsor n (tn_doc n) = (Inr (r, d), n1)"
    "tn_doc n' = d" "r_seq r = s" "tn_pub n' = tn_pub n1" by (rule approve_row_Inr)
  from a(1) obtain idb d0 where b: "id_from_hex i = Some idb"
    "sign_next E n now (\<lambda>cur key. admit_member E cur key now \<lparr>m_subject = idb, m_kind = kind,
       m_sponsor = (case sponsor of None \<Rightarrow> None | Some s \<Rightarrow> id_from_hex s)\<rparr>) (tn_doc n) = Inr (r, d0)"
    "dd_rosters d = dd_rosters d0" "n1 = drop_note i n" by (rule certify_Inr)
  let ?m = "\<lparr>m_subject = idb, m_kind = kind, m_sponsor = (case sponsor of None \<Rightarrow> None | Some s \<Rightarrow> id_from_hex s)\<rparr>"
  from b(2) obtain key cur where c: "root_secret E n = Some key" "current_roster E n now key (tn_doc n) cur"
    "verify_roster E (admit_member E cur key now ?m) (te_public E key) = Inr r" "d0 = store_roster r (tn_doc n)"
    by (rule sign_next_Inr)
  note cur = current_roster_facts [OF assms(1) c(2) assms(2) c(1) assms(3)]
  have m: "id_ok (m_subject ?m)" "pred_option id_ok (m_sponsor ?m)"
    using id_from_hex_ok [OF b(1)] id_from_hex_ok by (auto split: option.splits simp: pred_option_def)
  note says = admit_says [OF assms(1) cur(1,2) assms(2) c(3) m]
  have "newest_in E d0 (te_public E key) = Some r"
    unfolding c(4)
  proof (rule newest_in_store [OF assms(1)])
    show "verify_roster E (r_bytes r) (te_public E key) = Inr r" using c(3) verified_roster(2) [OF c(3)] by simp
    show "roster_rank x \<le> roster_rank r" if "newest_in E (tn_doc n) (te_public E key) = Some x" for x
      using cur(3) [OF that] rank_of_next [OF says(1)] by simp
  qed
  then have "newest_in E (tn_doc n') (te_public E key) = Some r" using a(2) b(3) by (simp add: newest_in_def)
  moreover have "anchor E n' = Some (te_public E key)"
    using root_secret_anchor [OF c(1)] a(4) b(4) by (simp add: anchor_def)
  moreover have rev: "\<not> is_revoked r idb" using says(2) by (simp add: is_revoked_def)
  moreover have "admits r idb t" for t
    using rev says(3) by (simp add: admits_def live_at_def member_cert_def)
  ultimately show thesis using that b(1) a(3) by blast
qed

text \<open>
  C33: What is approved is so at once and for good: on the approving machine's table a machine that waited to join
  stands as trusted, at every time, even if it was revoked before, and one that waited to be removed stands as revoked.
\<close>

theorem approval_is_believed:
  assumes "trust_laws E" and "now \<le> u64_max" and "room_for_next E n"
    and "approve_row E ok now i leaving n = (Inr s, n')"
  shows "standing_in E n' i t = (if leaving then Revoked else Trusted)"
proof (cases leaving)
  case True
  with assms(4) obtain idb r where r: "id_from_hex i = Some idb" "tn_pub n' = tn_pub n"
    "sign_next E n now (\<lambda>cur key. revoke E cur key now idb) (tn_doc n) = Inr (r, tn_doc n')"
    by (auto simp: approve_row_def flush_doc_def split: option.splits if_splits sum.splits prod.splits)
  from assms(1-3) id_from_hex_ok [OF r(1)] r(3) obtain root where
    "anchor E n = Some root" "newest_in E (tn_doc n') root = Some r" "is_revoked r idb" by (rule revocation_newest)
  then show ?thesis using r(1,2) True revoked_standing [of E n' root i idb r] by (simp add: anchor_def)
next
  case False
  with assms(4) have "approve_row E ok now i False n = (Inr s, n')" by simp
  with assms(1-3) obtain root idb r where "anchor E n' = Some root" "id_from_hex i = Some idb"
    "newest_in E (tn_doc n') root = Some r" "r_seq r = s" "\<not> is_revoked r idb" "\<And>t. admits r idb t"
    by (rule approve_row_stores) blast
  then show ?thesis using False by (simp add: standing_in_def standing_of_def)
qed

section \<open>A network's first roster\<close>

lemma rosters_give_certs [simp]: "dd_rosters (give_certs r ms d) = dd_rosters d"
proof -
  have "dd_rosters (fold (\<lambda>m d. case signed_cert r (m_subject m) of None \<Rightarrow> d | Some c \<Rightarrow> set_cert (id_hex (m_subject m)) c d) ms d) =
      dd_rosters d"
    by (induction ms arbitrary: d) (simp_all split: option.split)
  then show ?thesis by (simp add: give_certs_def)
qed

lemma init_member_ok: "init_member row = Some m \<Longrightarrow> id_ok (m_subject m) \<and> pred_option id_ok (m_sponsor m)"
  using id_from_hex_ok by (auto simp: init_member_def member_device_def split: option.splits)

lemma init_members_ok: "id_ok me \<Longrightarrow> m \<in> set (init_members me d) \<Longrightarrow> id_ok (m_subject m) \<and> pred_option id_ok (m_sponsor m)"
  using init_member_ok
  by (auto simp: init_members_def Let_def map_filter_def member_device_def split: if_splits)

lemma init_members_all:
  "row \<in> set (dd_all d) \<Longrightarrow> id_from_hex (dv_id row) = Some idb \<Longrightarrow> \<exists>m \<in> set (init_members me d). m_subject m = idb"
  by (auto simp: init_members_def Let_def map_filter_def init_member_def member_device_def split: option.split)

lemma genesis_says:
  assumes "trust_laws E" and "now \<le> u64_max" and "\<And>m. m \<in> set ms \<Longrightarrow> id_ok (m_subject m) \<and> pred_option id_ok (m_sponsor m)"
    and "verify_roster E (genesis E k now ms) (te_public E k) = Inr r"
  shows "r_revoked r = []" "r_certs r = map (\<lambda>m. member_cert (te_public E k) m 1 now) ms"
proof -
  have one: "1 \<le> u64_max" by (simp add: u64_max_def)
  note says = sign_roster_says [OF assms(1) one assms(2) _ assms(4) [unfolded genesis_def]]
  show "r_revoked r = []" using says(4) by simp
  have "list_all2 (\<lambda>x c. verify_cert E x (te_public E k) = Inr c) (r_signed r) (r_certs r)"
    using verified_roster(3) [OF assms(4)] by (rule list_all2_mono) simp
  then show "r_certs r = map (\<lambda>m. member_cert (te_public E k) m 1 now) ms"
    using says(3) verify_cert_for [OF assms(1) one assms(2)] assms(3)
    by (auto simp: list_all2_conv_all_nth intro!: nth_equalityI)
qed

lemma root_init_Inr:
  assumes "root_init E ok now k n = (Inr (root, count), n')"
  obtains r where "root = te_public E k" "verify_roster E (genesis E k now (init_members (tn_me n) (tn_doc n))) root = Inr r"
    "dd_rosters (tn_doc n') = dd_rosters (store_roster r (tn_doc n))" "tn_pub n' = Some (anchor_text root)"
  using assms
  by (auto simp: root_init_def Let_def flush_doc_def trust_result_def map_err_def set_anchor_def split: if_splits sum.splits prod.splits)

text \<open>
  C32: Giving an old network its root shuts nobody out: after \<open>root_init\<close> every machine of the table, and the
  machine itself, is trusted under the new root.
\<close>

theorem root_init_shuts_nobody_out:
  assumes "trust_laws E" and "now \<le> u64_max" and "id_ok (tn_me n)"
    and "newest_in E (tn_doc n) (te_public E k) = None"
    and "root_init E ok now k n = (Inr (root, count), n')"
    and "row \<in> set (dd_all (tn_doc n)) \<or> dv_id row = id_hex (tn_me n)" and "id_from_hex (dv_id row) = Some idb"
  shows "standing_in E n' (dv_id row) t = Trusted"
proof -
  from assms(5) obtain r where r: "root = te_public E k"
    "verify_roster E (genesis E k now (init_members (tn_me n) (tn_doc n))) root = Inr r"
    "dd_rosters (tn_doc n') = dd_rosters (store_roster r (tn_doc n))" "tn_pub n' = Some (anchor_text root)" by (rule root_init_Inr)
  let ?ms = "init_members (tn_me n) (tn_doc n)"
  note says = genesis_says [OF assms(1,2) init_members_ok [OF assms(3)] r(2) [unfolded r(1)]]
  have "\<exists>m \<in> set ?ms. m_subject m = idb"
  proof (cases "row \<in> set (dd_all (tn_doc n))")
    case True
    then show ?thesis using assms(7) by (rule init_members_all)
  next
    case False
    then have "idb = tn_me n" using assms(3,6,7) by simp
    then show ?thesis by (auto simp: init_members_def Let_def list_ex_iff member_device_def)
  qed
  then obtain m where "m \<in> set ?ms" "m_subject m = idb" by blast
  then have "\<exists>c. roster_cert r idb = Some c"
    using find_None_iff [of "\<lambda>c. c_subject c = idb" "r_certs r"]
    by (cases "roster_cert r idb") (auto simp: roster_cert_def says(2) member_cert_def)
  then obtain c where c: "roster_cert r idb = Some c" ..
  then have "c \<in> set (r_certs r)" unfolding roster_cert_def find_Some_iff by auto
  then have "live_at c t" by (auto simp: says(2) member_cert_def live_at_def)
  then have ad: "admits r idb t" using c says(1) by (simp add: admits_def is_revoked_def)
  have v: "verify_roster E (r_bytes r) (te_public E k) = Inr r" using r(1,2) verified_roster(2) [OF r(2)] by simp
  have "newest_in E (store_roster r (tn_doc n)) (te_public E k) = Some r"
    by (rule newest_in_store [OF assms(1) v]) (simp add: assms(4))
  then have "newest_in E (tn_doc n') root = Some r" using r(1,3) by (simp add: newest_in_def)
  moreover have "anchor E n' = Some root"
    using assms(1) r(1,4) by (simp add: anchor_def anchor_at_def text_id_anchor trust_laws_def)
  ultimately show ?thesis using assms(7) ad by (simp add: standing_in_def standing_of_def admits_def)
qed

section \<open>Only the root's holder lets a machine in\<close>

lemma listed_was_signed:
  assumes "only_signed E root S" and "verify_roster E bytes root = Inr r" and "c \<in> set (r_certs r)"
  obtains body where "seal_prefix CERT_MAGIC body \<in> S" "te_dec_cert E body = Some (c, [])" "c_root c = root"
proof -
  from verified_roster(3) [OF assms(2)] assms(3) obtain x where "verify_cert E x root = Inr c"
    by (auto simp: list_all2_conv_all_nth in_set_conv_nth)
  then obtain body sig where "te_dec_cert E body = Some (c, [])" "c_root c = root"
    "te_verify E root (seal_prefix CERT_MAGIC body) sig" by (rule verify_cert_Inr)
  then show thesis using that assms(1) by (auto simp: only_signed_def)
qed

text \<open>
  C6: A machine is trusted only on the word of the root's holder: the holder signed a certificate for it that is
  live now, and either the newest roster lists that certificate, or the certificate is newer than that
  roster and the roster is not stale.  A revoked machine is never trusted.
\<close>

theorem trusted_only_if_certified:
  assumes "only_signed E root S" and "anchor E n = Some root" and "standing_in E n i t = Trusted"
  shows "\<exists>idb r c body. id_from_hex i = Some idb \<and> newest_in E (tn_doc n) root = Some r \<and> \<not> is_revoked r idb \<and>
    seal_prefix CERT_MAGIC body \<in> S \<and> te_dec_cert E body = Some (c, []) \<and>
    c_root c = root \<and> c_subject c = idb \<and> live_at c t \<and> (c \<in> set (r_certs r) \<or> \<not> is_stale r t \<and> r_seq r < c_seq c)"
proof -
  from assms(2,3) obtain idb r where r: "id_from_hex i = Some idb" "newest_in E (tn_doc n) root = Some r"
    "\<not> is_revoked r idb"
    and why: "admits r idb t \<or> (\<not> is_stale r t \<and> (\<exists>bytes c. verify_cert E bytes root = Inr c \<and> c_subject c = idb \<and>
      r_seq r < c_seq c \<and> live_at c t))"
    by (auto simp: standing_in_def standing_of_def split: option.splits if_splits sum.splits)
  have v: "verify_roster E (r_bytes r) root = Inr r" using r(2) unfolding newest_in_def newest_Some by blast
  from why show ?thesis
  proof
    assume "admits r idb t"
    then obtain c where c: "roster_cert r idb = Some c" "live_at c t" by (auto simp: admits_def split: option.splits)
    from c(1) have "c \<in> set (r_certs r)" "c_subject c = idb"
      unfolding roster_cert_def find_Some_iff by auto
    with listed_was_signed [OF assms(1) v this(1)] r c(2) show ?thesis by metis
  next
    assume "\<not> is_stale r t \<and> (\<exists>bytes c. verify_cert E bytes root = Inr c \<and> c_subject c = idb \<and> r_seq r < c_seq c \<and> live_at c t)"
    then obtain bytes c where c: "\<not> is_stale r t" "verify_cert E bytes root = Inr c" "c_subject c = idb" "r_seq r < c_seq c" "live_at c t"
      by blast
    from c(2) obtain body sig where "te_dec_cert E body = Some (c, [])" "c_root c = root"
      "te_verify E root (seal_prefix CERT_MAGIC body) sig" by (rule verify_cert_Inr)
    then show ?thesis using r c assms(1) unfolding only_signed_def by blast
  qed
qed

section \<open>Where the gate fails open\<close>

lemma drop_all_rosters [simp]: "dd_rosters (drop_rosters (map fst (dd_rosters d)) d) = []"
  by (force simp: drop_rosters_def filter_empty_conv)

text \<open>
  C29: The newest roster is only the newest of those still in the table: whoever can edit the table takes the
  signed revocation out, puts the roster before it back in, and the revoked machine is trusted again on
  the holder's own machine.
\<close>

theorem replanted_roster_readmits:
  assumes "trust_laws E" and "now \<le> u64_max" and "room_for_next E n"
    and "anchor E n = Some root" and "newest_in E (tn_doc n) root = Some old"
    and "id_from_hex i = Some idb" and "admits old idb t"
    and "revoke_row E ok now i n = (Inr s, n')"
    and "edited = put_roster k (r_bytes old) (drop_rosters (map fst (dd_rosters (tn_doc n'))) (tn_doc n'))"
  shows "standing_in E n' i t = Revoked \<and> standing_in E (n'\<lparr>tn_doc := edited\<rparr>) i t = Trusted"
proof -
  from assms(1-3,8) obtain root' idb' r where r: "anchor E n' = Some root'" "id_from_hex i = Some idb'"
    "newest_in E (tn_doc n') root' = Some r" "r_seq r = s" "is_revoked r idb'" by (rule revoke_row_stores)
  from assms(8) have "tn_pub n' = tn_pub n" by (rule revoke_row_Inr)
  then have root: "root' = root" using r(1) assms(4) by (simp add: anchor_def)
  have v: "verify_roster E (r_bytes old) root = Inr old" using assms(5) unfolding newest_in_def newest_Some by simp
  have "set (map snd (dd_rosters edited)) = {r_bytes old}"
    unfolding assms(9) by (simp add: put_roster_def put_doc_entry_def)
  then have "newest_in E edited root = Some old"
    unfolding newest_in_def newest_Some using v by simp
  then have "standing_in E (n'\<lparr>tn_doc := edited\<rparr>) i t = Trusted"
    using assms(6,7) r(1) root by (simp add: standing_in_def standing_of_def admits_def anchor_def)
  moreover have "standing_in E n' i t = Revoked" using r by (intro revoked_standing)
  ultimately show ?thesis by simp
qed

text \<open>
  C30: A damaged \<open>root.pub\<close> opens the gate: when the file cannot be read as a public key, every machine in the
  table is answered again, the ones the newest roster revokes among them.
\<close>

theorem damaged_anchor_opens_the_gate:
  assumes "anchor_at E damaged = None" and "dd_get (tn_doc n) remote = Some row"
  shows "admit_remote E (n\<lparr>tn_pub := damaged\<rparr>) remote t = Inr ()"
  using assms by (simp add: admit_remote_def standing_in_def anchor_def standing_of_def admitted_standing_def split: option.split)

end
