(* ===== verification/TrustDemo.thy ===== *)
theory TrustDemo
  imports TrustGuarantees
begin

text \<open>
  A signature and an encoding that satisfy the laws of the trust component, and the properties at a network of
  two machines over them.
\<close>

section \<open>An encoding of lists of byte strings\<close>

text \<open>Every byte behind a 1, a 2 after each string, a 0 at the end.\<close>

definition duo_string :: "byte list \<Rightarrow> byte list" where
  "duo_string s = concat (map (\<lambda>b. [1, b]) s) @ [2]"

definition duo_strings :: "byte list list \<Rightarrow> byte list" where
  "duo_strings ss = concat (map duo_string ss) @ [0]"

fun duo_read :: "byte list \<Rightarrow> byte list \<Rightarrow> (byte list list \<times> byte list) option" where
  "duo_read cur [] = None"
| "duo_read cur (x # xs) =
     (if x = 0 then Some ([], xs)
      else if x = 2 then (case duo_read [] xs of None \<Rightarrow> None | Some (ss, rest) \<Rightarrow> Some (cur # ss, rest))
      else (case xs of [] \<Rightarrow> None | b # ys \<Rightarrow> duo_read (cur @ [b]) ys))"

lemma duo_read_string: "duo_read cur (concat (map (\<lambda>b. [1, b]) s) @ xs) = duo_read (cur @ s) xs"
  by (induction s arbitrary: cur) simp_all

lemma duo_read_strings: "duo_read [] (duo_strings ss) = Some (ss, [])"
proof (induction ss)
  case (Cons s ss)
  have "duo_read [] (duo_strings (s # ss)) = duo_read s (2 # duo_strings ss)"
    using duo_read_string [of "[]" s "2 # duo_strings ss"] by (simp add: duo_strings_def duo_string_def)
  then show ?case using Cons by simp
qed (simp add: duo_strings_def)

lemma length_demo_strings: "length (duo_strings ss) = 2 * sum_list (map length ss) + length ss + 1"
proof -
  have "length (duo_string s) = 2 * length s + 1" for s by (induction s) (simp_all add: duo_string_def)
  then show ?thesis by (induction ss) (simp_all add: duo_strings_def)
qed

section \<open>Certificates and rosters\<close>

fun duo_option :: "byte list option \<Rightarrow> byte list" where
  "duo_option None = [0]"
| "duo_option (Some s) = 1 # s"

definition duo_of_option :: "byte list \<Rightarrow> byte list option" where
  "duo_of_option s = (case s of [] \<Rightarrow> None | b # bs \<Rightarrow> if b = 0 then None else Some bs)"

lemma duo_of_option_inverse [simp]: "duo_of_option (duo_option x) = x"
  by (cases x) (simp_all add: duo_of_option_def)

definition duo_enc_cert :: "cert \<Rightarrow> byte list" where
  "duo_enc_cert c = duo_strings
     [c_root c, c_subject c, [if c_kind c = Device then 0 else 1], duo_option (c_sponsor c),
      be_bytes 8 (c_issued_ms c), be_bytes 8 (c_seq c), duo_option (map_option (be_bytes 8) (c_expires_ms c))]"

definition duo_dec_cert :: "byte list \<Rightarrow> (cert \<times> byte list) option" where
  "duo_dec_cert x =
     (case duo_read [] x of
        Some ([r, s, k, sp, i, q, e], rest) \<Rightarrow>
          let c = \<lparr>c_root = r, c_subject = s, c_kind = (if k = [0] then Device else Satellite),
            c_sponsor = duo_of_option sp, c_issued_ms = from_be i, c_seq = from_be q,
            c_expires_ms = map_option from_be (duo_of_option e)\<rparr> in
          if cert_typed c then Some (c, rest) else None
      | _ \<Rightarrow> None)"

definition duo_enc_body :: "roster_body \<Rightarrow> byte list" where
  "duo_enc_body b = duo_strings
     ([b_root b, be_bytes 8 (b_seq b), be_bytes 8 (b_issued_ms b)] @
      map (\<lambda>s. 1 # s) (b_certs b) @ map (\<lambda>i. 2 # i) (b_revoked b))"

definition duo_tagged :: "byte \<Rightarrow> byte list list \<Rightarrow> byte list list" where
  "duo_tagged t ss = map (drop 1) (filter (\<lambda>s. take 1 s = [t]) ss)"

lemma duo_tagged_simps [simp]:
  "duo_tagged t (xs @ ys) = duo_tagged t xs @ duo_tagged t ys"
  "duo_tagged t (map (\<lambda>s. u # s) ss) = (if t = u then ss else [])"
  by (simp_all add: duo_tagged_def filter_map o_def)

definition duo_dec_body :: "byte list \<Rightarrow> (roster_body \<times> byte list) option" where
  "duo_dec_body x =
     (case duo_read [] x of
        Some (r # q # i # ss, rest) \<Rightarrow>
          let b = \<lparr>b_root = r, b_seq = from_be q, b_issued_ms = from_be i,
            b_certs = duo_tagged 1 ss, b_revoked = duo_tagged 2 ss\<rparr> in
          if body_typed b then Some (b, rest) else None
      | _ \<Rightarrow> None)"

text \<open>Two keys; a signature repeats the sum of the message's bytes and the key.\<close>

definition duo_public :: "bool \<Rightarrow> trust_id" where
  "duo_public k = replicate 32 (if k then 7 else 9)"

definition duo_sum :: "trust_id \<Rightarrow> byte list \<Rightarrow> byte list" where
  "duo_sum root m = replicate 64 (foldl (+) (hd root) m)"

definition duo :: "bool trust_env" where
  "duo = \<lparr>te_public = duo_public, te_point = id_ok, te_sign = (\<lambda>k. duo_sum (duo_public k)),
     te_verify = (\<lambda>root m sig. sig = duo_sum root m),
     te_enc_cert = duo_enc_cert, te_dec_cert = duo_dec_cert, te_enc_body = duo_enc_body, te_dec_body = duo_dec_body\<rparr>"

lemma duo_cert_roundtrip: "cert_typed c \<Longrightarrow> duo_dec_cert (duo_enc_cert c) = Some (c, [])"
proof (cases c)
  case (fields r s k sp i q e)
  assume c: "cert_typed c"
  then have "map_option from_be (map_option (be_bytes 8) e) = e" "from_be (be_bytes 8 i) = i" "from_be (be_bytes 8 q) = q"
    using fields by (cases e; simp add: cert_typed_def)+
  then show ?thesis
    using c fields by (cases k) (simp_all add: duo_dec_cert_def duo_enc_cert_def duo_read_strings Let_def)
qed

lemma duo_cert_short: "cert_typed c \<Longrightarrow> length (duo_enc_cert c) \<le> 512"
  by (cases "c_sponsor c"; cases "c_expires_ms c")
    (simp_all add: duo_enc_cert_def length_demo_strings cert_typed_def id_ok_def)

lemma duo_body_roundtrip: "body_typed b \<Longrightarrow> duo_dec_body (duo_enc_body b) = Some (b, [])"
  by (cases b) (simp add: duo_dec_body_def duo_enc_body_def duo_read_strings body_typed_def Let_def)

lemma duo_laws: "trust_laws duo"
  using duo_cert_roundtrip duo_cert_short duo_body_roundtrip
  by (auto simp: trust_laws_def duo_def duo_sum_def SIG_def id_ok_def duo_public_def duo_dec_cert_def duo_dec_body_def
      Let_def split: option.splits list.splits if_splits prod.splits)

section \<open>A network of two machines\<close>

definition duo_me :: trust_id where "duo_me = replicate 32 1"
definition duo_other :: trust_id where "duo_other = replicate 32 0x2A"

lemma duo_ids [simp]: "id_ok duo_me" "id_ok duo_other" "id_ok (duo_public k)" "duo_me \<noteq> duo_other" "duo_other \<noteq> duo_me"
  by (simp_all add: id_ok_def duo_me_def duo_other_def duo_public_def)

lemma duo_simps [simp]: "te_public duo = duo_public" "te_point duo = id_ok"
    "te_enc_body duo = duo_enc_body"
  by (simp_all add: duo_def)

text \<open>Everything here is far below 4 GiB.\<close>

lemma duo_cert_length:
  assumes "id_ok (m_subject m)" and "pred_option id_ok (m_sponsor m)" and "seq \<le> u64_max" and "now \<le> u64_max"
  shows "length (cert_for duo k m seq now) \<le> 584"
proof -
  have "cert_typed (member_cert (duo_public k) m seq now)"
    using assms by (simp add: cert_typed_def member_cert_def)
  from duo_cert_short [OF this] show ?thesis
    by (simp add: cert_for_def sign_cert_def seal_def seal_prefix_def Let_def duo_def duo_sum_def)
qed

lemma duo_short_body:
  assumes "\<And>c. c \<in> set certs \<Longrightarrow> length c \<le> 584" and "length certs \<le> 9" and "length revoked \<le> 9" and "list_all id_ok revoked"
  shows "short_body duo k seq now certs revoked"
proof -
  have "sum_list (map (\<lambda>x. Suc (length x)) certs) \<le> sum_list (map (\<lambda>x. 585) certs)"
    by (rule sum_list_mono) (use assms(1) in simp)
  moreover have "sum_list (map (\<lambda>x. Suc (length x)) revoked) \<le> sum_list (map (\<lambda>x. 33) revoked)"
    by (rule sum_list_mono) (use assms(4) in \<open>simp add: list_all_iff id_ok_def\<close>)
  ultimately show ?thesis
    using assms(2,3)
    by (simp add: short_body_def duo_enc_body_def length_demo_strings duo_public_def sum_list_triv o_def)
qed

definition duo_signed :: "byte list list" where
  "duo_signed = map (\<lambda>m. cert_for duo True m 1 1000) [member_device duo_me, member_device duo_other]"

definition duo_first :: roster where
  "duo_first = \<lparr>r_root = duo_public True, r_seq = 1, r_issued_ms = 1000,
     r_certs = map (\<lambda>m. member_cert (duo_public True) m 1 1000) [member_device duo_me, member_device duo_other],
     r_signed = duo_signed, r_revoked = [],
     r_bytes = genesis duo True 1000 [member_device duo_me, member_device duo_other]\<rparr>"

definition duo_holder :: "bool trust_node" where
  "duo_holder = \<lparr>tn_me = duo_me, tn_key = Some True, tn_pub = Some (anchor_text (duo_public True)), tn_unshown = False,
     tn_pending = [],
     tn_doc = \<lparr>dd_rows = [\<lparr>dv_id = id_hex duo_other, dv_sponsor = None, dv_gone = False\<rparr>],
       dd_rosters = [(roster_key duo_first, r_bytes duo_first)], dd_certs = []\<rparr>\<rparr>"

lemma duo_fields [simp]: "r_root duo_first = duo_public True" "r_seq duo_first = 1" "r_issued_ms duo_first = 1000"
    "r_signed duo_first = duo_signed" "r_revoked duo_first = []" "tn_me duo_holder = duo_me"
    "tn_key duo_holder = Some True"
  by (simp_all add: duo_first_def duo_holder_def)

lemma duo_next: "r_seq duo_first + 1 = 2"
  by simp

lemma duo_signed_length: "c \<in> set duo_signed \<Longrightarrow> length c \<le> 584"
  using duo_cert_length [of _ 1 1000 True]
  by (auto simp: duo_signed_def member_device_def u64_max_def)

lemma duo_first_verifies: "verify_roster duo (r_bytes duo_first) (duo_public True) = Inr duo_first"
proof -
  have c: "verify_cert duo (cert_for duo True (member_device i) 1 1000) (duo_public True) =
      Inr (member_cert (duo_public True) (member_device i) 1 1000)" if "id_ok i" for i
    using verify_cert_for [OF duo_laws, of 1 1000 "member_device i" True] that
    by (simp add: member_device_def u64_max_def)
  have "verify_certs duo (te_public duo True) 1 duo_signed = Inr (r_certs duo_first)"
    by (simp add: duo_signed_def c duo_first_def member_cert_def del: One_nat_def)
  moreover have "short_body duo True 1 1000 duo_signed []"
    by (rule duo_short_body) (use duo_signed_length in \<open>auto simp: duo_signed_def\<close>)
  ultimately show ?thesis
    using verify_sign_roster [OF duo_laws, of 1 1000 "[]" True duo_signed "r_certs duo_first"]
    by (simp add: genesis_def duo_first_def duo_signed_def u64_max_def)
qed

lemma duo_anchor: "anchor duo duo_holder = Some (duo_public True)"
  by (simp add: anchor_def anchor_at_def duo_holder_def text_id_anchor)

lemma duo_root_secret: "root_secret duo duo_holder = Some True"
  by (simp add: root_secret_def duo_anchor)

lemma duo_newest: "newest_in duo (tn_doc duo_holder) (duo_public True) = Some duo_first"
  using duo_first_verifies by (simp add: newest_in_def newest_Some duo_holder_def)

lemma duo_room: "room_for_next duo duo_holder"
  by (simp add: room_for_next_def duo_root_secret duo_newest u64_max_def)

lemma duo_others: "set (others_signed duo_first i) \<subseteq> set duo_signed" "length (others_signed duo_first i) \<le> 2"
  by (auto simp: others_signed_def duo_signed_def duo_first_def)

lemma duo_revokes: "\<exists>n'. revoke_row duo True 2000 (id_hex duo_other) duo_holder = (Inr 2, n')"
proof -
  have "short_body duo True 2 2000 (others_signed duo_first duo_other) [duo_other]"
    by (rule duo_short_body) (use duo_signed_length duo_others [of duo_other] in auto)
  then obtain r where r: "verify_roster duo (revoke duo duo_first True 2000 duo_other) (duo_public True) = Inr r"
    using revoke_verifies [OF duo_laws, of "r_bytes duo_first" True duo_first 2000 duo_other, unfolded duo_next]
      duo_first_verifies by (auto simp: u64_max_def)
  have "r_seq r = 2"
    using revoke_says(1) [OF duo_laws, of "r_bytes duo_first" True duo_first 2000 duo_other r, unfolded duo_next] r duo_first_verifies
    by (simp add: u64_max_def)
  then show ?thesis
    using r duo_newest
    by (simp add: revoke_row_def duo_root_secret sign_next_def trust_result_def map_err_def is_revoked_def flush_doc_def)
qed

lemma duo_approves: "\<exists>n'. approve_row duo True 2000 (id_hex duo_other) False duo_holder = (Inr 2, n')"
proof -
  let ?m = "\<lparr>m_subject = duo_other, m_kind = Device, m_sponsor = None\<rparr>"
  have len: "length c \<le> 584" if "c \<in> set (others_signed duo_first duo_other @ [cert_for duo True ?m 2 2000])" for c
    using that duo_signed_length duo_others(1) [of duo_other] duo_cert_length [of ?m 2 2000 True] by (auto simp: u64_max_def)
  have "short_body duo True 2 2000 (others_signed duo_first duo_other @ [cert_for duo True ?m 2 2000]) []"
    by (rule duo_short_body [OF len]) (use duo_others(2) [of duo_other] in simp_all)
  then obtain r where r: "verify_roster duo (admit_member duo duo_first True 2000 ?m) (duo_public True) = Inr r"
    using admit_verifies [OF duo_laws, of "r_bytes duo_first" True duo_first 2000 ?m, unfolded duo_next]
      duo_first_verifies by (auto simp: u64_max_def)
  have "r_seq r = 2"
    using admit_says(1) [OF duo_laws, of "r_bytes duo_first" True duo_first 2000 ?m r, unfolded duo_next] r duo_first_verifies
    by (simp add: u64_max_def)
  moreover have "dd_get (tn_doc duo_holder) (id_hex duo_other) =
      Some \<lparr>dv_id = id_hex duo_other, dv_sponsor = None, dv_gone = False\<rparr>"
    by (simp add: dd_get_def dd_all_def duo_holder_def)
  ultimately show ?thesis
    using r duo_newest
    by (simp add: approve_row_def certify_def Let_def duo_root_secret sign_next_def trust_result_def map_err_def flush_doc_def)
qed

section \<open>The properties at this network\<close>

lemma duo_admits: "admits duo_first duo_other t"
  by (simp add: admits_def is_revoked_def roster_cert_def duo_first_def member_cert_def member_device_def live_at_def)

lemma duo_trusted: "standing_in duo duo_holder (id_hex duo_other) t = Trusted"
  using duo_admits [of t] by (simp add: standing_in_def standing_of_def duo_anchor duo_newest admits_def)

text \<open>The roster from before, put back next to the new one, has the lower number.\<close>

theorem revocation_survives_every_merge_witness:
  "\<exists>n'. revoke_row duo True 2000 (id_hex duo_other) duo_holder = (Inr 2, n') \<and>
    standing_in duo (n'\<lparr>tn_doc := (tn_doc n')\<lparr>dd_rosters := (''stolen'', r_bytes duo_first) # dd_rosters (tn_doc n')\<rparr>\<rparr>)
      (id_hex duo_other) 9000 = Revoked"
proof -
  from duo_revokes obtain n' where n': "revoke_row duo True 2000 (id_hex duo_other) duo_holder = (Inr 2, n')" ..
  have bound: "(2000 :: nat) \<le> u64_max" by (simp add: u64_max_def)
  let ?later = "n'\<lparr>tn_doc := (tn_doc n')\<lparr>dd_rosters := (''stolen'', r_bytes duo_first) # dd_rosters (tn_doc n')\<rparr>\<rparr>"
  have "standing_in duo ?later (id_hex duo_other) 9000 = Revoked \<and>
      admit_remote duo ?later (id_hex duo_other) 9000 \<noteq> Inr ()"
  proof (rule revocation_survives_every_merge [OF duo_laws bound duo_room n'])
    fix b root x idb
    assume b: "b \<in> set (map snd (dd_rosters (tn_doc ?later))) - set (map snd (dd_rosters (tn_doc n')))"
      and root: "anchor duo n' = Some root" and x: "verify_roster duo b root = Inr x" "2 \<le> r_seq x"
    from n' have "tn_pub n' = tn_pub duo_holder" by (rule revoke_row_Inr)
    then have "root = duo_public True" using root duo_anchor by (simp add: anchor_def)
    moreover have "b = r_bytes duo_first" using b by auto
    ultimately have "x = duo_first" using x(1) duo_first_verifies by simp
    then show "is_revoked x idb" using x(2) by (simp add: duo_first_def)
  qed auto
  then show ?thesis using n' by blast
qed

theorem approval_is_believed_witness:
  "\<exists>n'. approve_row duo True 2000 (id_hex duo_other) False duo_holder = (Inr 2, n') \<and>
    standing_in duo n' (id_hex duo_other) 9000 = Trusted"
proof -
  from duo_approves obtain n' where n': "approve_row duo True 2000 (id_hex duo_other) False duo_holder = (Inr 2, n')" ..
  have "(2000 :: nat) \<le> u64_max" by (simp add: u64_max_def)
  from approval_is_believed [OF duo_laws this duo_room n'] n' show ?thesis by auto
qed

theorem trusted_only_if_certified_witness:
  "\<exists>idb r c body. id_from_hex (id_hex duo_other) = Some idb \<and>
    newest_in duo (tn_doc duo_holder) (duo_public True) = Some r \<and> \<not> is_revoked r idb \<and>
    seal_prefix CERT_MAGIC body \<in> {m. \<exists>sig. te_verify duo (duo_public True) m sig} \<and>
    te_dec_cert duo body = Some (c, []) \<and>
    c_root c = duo_public True \<and> c_subject c = idb \<and> live_at c 5000 \<and>
    (c \<in> set (r_certs r) \<or> \<not> is_stale r 5000 \<and> r_seq r < c_seq c)"
  by (rule trusted_only_if_certified [OF _ duo_anchor duo_trusted]) (auto simp: only_signed_def)

theorem replanted_roster_readmits_witness:
  "\<exists>n' edited. revoke_row duo True 2000 (id_hex duo_other) duo_holder = (Inr 2, n') \<and>
    standing_in duo n' (id_hex duo_other) 9000 = Revoked \<and>
    standing_in duo (n'\<lparr>tn_doc := edited\<rparr>) (id_hex duo_other) 9000 = Trusted"
proof -
  from duo_revokes obtain n' where n': "revoke_row duo True 2000 (id_hex duo_other) duo_holder = (Inr 2, n')" ..
  have bound: "(2000 :: nat) \<le> u64_max" by (simp add: u64_max_def)
  from replanted_roster_readmits [OF duo_laws bound duo_room duo_anchor duo_newest
      id_from_hex_id_hex [OF duo_ids(2)] duo_admits n' refl, of 9000 "''old''"] n'
  show ?thesis by blast
qed

lemma rows_store_roster [simp]: "dd_rows (store_roster r d) = dd_rows d"
  by (simp add: store_roster_def drop_rosters_def put_roster_def Let_def)

theorem damaged_anchor_opens_the_gate_witness:
  "\<exists>n'. revoke_row duo True 2000 (id_hex duo_other) duo_holder = (Inr 2, n') \<and>
    admit_remote duo (n'\<lparr>tn_pub := Some []\<rparr>) (id_hex duo_other) 9000 = Inr ()"
proof -
  from duo_revokes obtain n' where n': "revoke_row duo True 2000 (id_hex duo_other) duo_holder = (Inr 2, n')" ..
  from n' obtain key idb r where "sign_next duo duo_holder 2000 (\<lambda>cur key. revoke duo cur key 2000 idb)
      (tn_doc duo_holder) = Inr (r, tn_doc n')" by (rule revoke_row_Inr)
  then have "dd_rows (tn_doc n') = dd_rows (tn_doc duo_holder)" by (rule sign_next_Inr) simp
  then have "dd_get (tn_doc n') (id_hex duo_other) = Some \<lparr>dv_id = id_hex duo_other, dv_sponsor = None, dv_gone = False\<rparr>"
    by (simp add: dd_get_def dd_all_def duo_holder_def)
  moreover have "anchor_at duo (Some []) = None"
    by (simp add: anchor_at_def text_id_def str_chars.simps trim_def trim_start_def trim_end_def id_from_hex_def)
  ultimately show ?thesis using n' damaged_anchor_opens_the_gate by blast
qed

text \<open>The same two machines before they had a root.\<close>

definition duo_rootless :: "bool trust_node" where
  "duo_rootless = duo_holder\<lparr>tn_key := None, tn_pub := None, tn_doc := (tn_doc duo_holder)\<lparr>dd_rosters := []\<rparr>\<rparr>"

lemma duo_members: "init_members (tn_me duo_rootless) (tn_doc duo_rootless) = [member_device duo_other, member_device duo_me]"
  by (simp add: init_members_def duo_rootless_def duo_holder_def dd_all_def map_filter_def init_member_def member_device_def)

lemma duo_genesis:
  "\<exists>r. verify_roster duo (genesis duo True 2000 [member_device duo_other, member_device duo_me]) (duo_public True) = Inr r"
proof -
  let ?certs = "map (\<lambda>m. cert_for duo True m 1 2000) [member_device duo_other, member_device duo_me]"
  have c: "verify_cert duo (cert_for duo True (member_device i) 1 2000) (duo_public True) =
      Inr (member_cert (duo_public True) (member_device i) 1 2000)" if "id_ok i" for i
    using verify_cert_for [OF duo_laws, of 1 2000 "member_device i" True] that
    by (simp add: member_device_def u64_max_def)
  have "\<exists>cs. verify_certs duo (te_public duo True) 1 ?certs = Inr cs"
    by (simp add: c member_cert_def del: One_nat_def)
  then obtain cs where "verify_certs duo (te_public duo True) 1 ?certs = Inr cs" ..
  moreover have "short_body duo True 1 2000 ?certs []"
    by (rule duo_short_body) (use duo_cert_length [of _ 1 2000 True] in \<open>auto simp: member_device_def u64_max_def\<close>)
  ultimately show ?thesis
    using verify_sign_roster [OF duo_laws, of 1 2000 "[]" True ?certs cs] by (auto simp: genesis_def u64_max_def)
qed

theorem root_init_shuts_nobody_out_witness:
  "\<exists>n'. root_init duo True 2000 True duo_rootless = (Inr (duo_public True, 2), n') \<and>
    standing_in duo n' (id_hex duo_other) 9000 = Trusted"
proof -
  have "anchor duo duo_rootless = None" by (simp add: anchor_def anchor_at_def duo_rootless_def)
  moreover have "tn_key duo_rootless = None" by (simp add: duo_rootless_def)
  ultimately obtain n' where n': "root_init duo True 2000 True duo_rootless = (Inr (duo_public True, 2), n')"
    using duo_genesis by (auto simp: root_init_def Let_def duo_members trust_result_def map_err_def flush_doc_def)
  have row: "\<lparr>dv_id = id_hex duo_other, dv_sponsor = None, dv_gone = False\<rparr> \<in> set (dd_all (tn_doc duo_rootless)) \<or>
      dv_id \<lparr>dv_id = id_hex duo_other, dv_sponsor = None, dv_gone = False\<rparr> = id_hex (tn_me duo_rootless)"
    by (simp add: dd_all_def duo_rootless_def duo_holder_def)
  have bound: "(2000 :: nat) \<le> u64_max" by (simp add: u64_max_def)
  have me: "id_ok (tn_me duo_rootless)" by (simp add: duo_rootless_def)
  have none: "newest_in duo (tn_doc duo_rootless) (te_public duo True) = None"
    by (simp add: newest_in_def newest_None duo_rootless_def)
  have "standing_in duo n' (id_hex duo_other) 9000 = Trusted"
    using root_init_shuts_nobody_out [OF duo_laws bound me none n' row, of duo_other 9000] by simp
  then show ?thesis using n' by blast
qed

end
