(* ===== verification/Binding.thy ===== *)
theory Binding
  imports Staging
begin

text \<open>
  \<open>crates/sync/src/doc_transfer.rs\<close> and \<open>doc_transfer/version.rs\<close>: the canonical bytes that bind a
  staged body to its document, epoch, encoding and versions.  A version vector is the list of its
  (writer, counter) pairs in the order the hash map yields them; a document's name is its UTF-8 bytes.
\<close>

section \<open>UTF-8\<close>

text \<open>\<open>str::from_utf8\<close>: the well-formed sequences of the Unicode standard.\<close>

definition in_bytes :: "nat \<Rightarrow> nat \<Rightarrow> byte \<Rightarrow> bool" where
  "in_bytes lo hi b \<longleftrightarrow> lo \<le> unat b \<and> unat b \<le> hi"

definition continuation :: "byte \<Rightarrow> bool" where
  "continuation b \<longleftrightarrow> in_bytes 0x80 0xBF b"

definition lead2 :: "byte \<Rightarrow> byte \<Rightarrow> bool" where
  "lead2 a b \<longleftrightarrow> in_bytes 0xC2 0xDF a \<and> continuation b"

definition lead3 :: "byte \<Rightarrow> byte \<Rightarrow> byte \<Rightarrow> bool" where
  "lead3 a b c \<longleftrightarrow>
     (in_bytes 0xE0 0xE0 a \<and> in_bytes 0xA0 0xBF b \<or> in_bytes 0xE1 0xEC a \<and> continuation b \<or>
      in_bytes 0xED 0xED a \<and> in_bytes 0x80 0x9F b \<or> in_bytes 0xEE 0xEF a \<and> continuation b) \<and> continuation c"

definition lead4 :: "byte \<Rightarrow> byte \<Rightarrow> byte \<Rightarrow> byte \<Rightarrow> bool" where
  "lead4 a b c d \<longleftrightarrow>
     (in_bytes 0xF0 0xF0 a \<and> in_bytes 0x90 0xBF b \<or> in_bytes 0xF1 0xF3 a \<and> continuation b \<or>
      in_bytes 0xF4 0xF4 a \<and> in_bytes 0x80 0x8F b) \<and> continuation c \<and> continuation d"

fun utf8_ok :: "byte list \<Rightarrow> bool" where
  "utf8_ok [] = True"
| "utf8_ok (a # s) =
     (if unat a < 0x80 then utf8_ok s
      else case s of
        b # t \<Rightarrow>
          if lead2 a b then utf8_ok t
          else (case t of
            c # u \<Rightarrow>
              if lead3 a b c then utf8_ok u
              else (case u of d # v \<Rightarrow> lead4 a b c d \<and> utf8_ok v | [] \<Rightarrow> False)
          | [] \<Rightarrow> False)
      | [] \<Rightarrow> False)"

section \<open>Versions\<close>

definition DOC_MAGIC :: "byte list" where "DOC_MAGIC = map of_char ''khor-doc-v1'' @ [0]"
definition VERSION_MAGIC :: "byte list" where "VERSION_MAGIC = map of_char ''khor-version-v1'' @ [0]"
definition VERSION_ENTRY_BYTES :: nat where "VERSION_ENTRY_BYTES = 12"
definition i32_max :: nat where "i32_max = 2147483647"

type_synonym ver = "(nat \<times> int) list"

definition entry_bytes :: "nat \<times> int \<Rightarrow> byte list" where
  "entry_bytes e = be_bytes 8 (fst e) @ be_bytes 4 (nat (snd e))"

definition write_version :: "byte list \<Rightarrow> ver \<Rightarrow> transfer_error + byte list" where
  "write_version out version =
     (if list_ex (\<lambda>e. snd e < 0) version then Inl (InvalidManifest ''negative document version counter'')
      else
        let entries = take (MAX_METADATA_BYTES div VERSION_ENTRY_BYTES + 1) (filter (\<lambda>e. 0 < snd e) version) in
        if length out + 4 + length entries * VERSION_ENTRY_BYTES > MAX_METADATA_BYTES
        then Inl (ResourceLimit ''document versions exceed metadata budget'')
        else Inr (out @ be_bytes 4 (length entries) @ concat (map entry_bytes (sort_key fst entries))))"

definition rd_take :: "nat \<Rightarrow> byte list \<Rightarrow> transfer_error + byte list \<times> byte list" where
  "rd_take count inp =
     (if length inp < count then Inl (InvalidManifest ''truncated document binding'')
      else Inr (take count inp, drop count inp))"

definition rd_u32 :: "byte list \<Rightarrow> transfer_error + nat \<times> byte list" where
  "rd_u32 inp = and_then (rd_take 4 inp) (\<lambda>(b, rest). Inr (from_be b, rest))"

fun read_entries :: "nat \<Rightarrow> nat option \<Rightarrow> byte list \<Rightarrow> transfer_error + ver \<times> byte list" where
  "read_entries 0 previous inp = Inr ([], inp)"
| "read_entries (Suc n) previous inp =
     and_then (rd_take 8 inp) (\<lambda>(b, r1).
     and_then (rd_u32 r1) (\<lambda>(counter, r2).
     let writer = from_be b in
     if (case previous of None \<Rightarrow> False | Some p \<Rightarrow> writer \<le> p) \<or> counter = 0 \<or> counter > i32_max
     then Inl (InvalidManifest ''noncanonical document version'')
     else and_then (read_entries n (Some writer) r2) (\<lambda>(es, r3). Inr ((writer, int counter) # es, r3))))"

definition rd_version :: "byte list \<Rightarrow> transfer_error + ver \<times> byte list" where
  "rd_version inp =
     and_then (rd_u32 inp) (\<lambda>(count, rest).
     if count > length rest div VERSION_ENTRY_BYTES then Inl (InvalidManifest ''truncated document version'')
     else read_entries count None rest)"

section \<open>Descriptors\<close>

datatype doc_encoding = Updates | Snapshot

fun encoding_byte :: "doc_encoding \<Rightarrow> byte" where
  "encoding_byte Updates = 0"
| "encoding_byte Snapshot = 1"

record descriptor =
  ds_document :: "byte list"
  ds_epoch :: nat
  ds_encoding :: doc_encoding
  ds_base :: ver
  ds_target :: ver

definition bind_doc ::
    "descriptor \<Rightarrow> byte list \<Rightarrow> byte list \<Rightarrow> nat \<Rightarrow> byte list \<Rightarrow> transfer_error + manifest" where
  "bind_doc ds src rcp whole dig =
     (if ds_document ds = [] then Inl (InvalidManifest ''empty document name'')
      else if length (ds_document ds) > MAX_METADATA_BYTES
        then Inl (ResourceLimit ''document binding exceeds metadata budget'')
      else
        let head = DOC_MAGIC @ be_bytes 4 (length (ds_document ds)) @ ds_document ds @ be_bytes 4 (ds_epoch ds) @
          [encoding_byte (ds_encoding ds)] in
        and_then (write_version head (ds_base ds)) (\<lambda>b1.
        and_then (write_version b1 (ds_target ds)) (\<lambda>b2.
        let m = \<lparr>source = src, recipient = rcp, binding = b2, total_bytes = whole, digest = dig\<rparr> in
        and_then (validate m) (\<lambda>_. Inr m))))"

definition encoding_of :: "byte list \<Rightarrow> transfer_error + doc_encoding" where
  "encoding_of b =
     (if b = [0] then Inr Updates else if b = [1] then Inr Snapshot
      else Inl (InvalidManifest ''unsupported document encoding''))"

definition from_manifest :: "manifest \<Rightarrow> transfer_error + descriptor" where
  "from_manifest m =
     and_then (validate m) (\<lambda>_.
     and_then (rd_take (length DOC_MAGIC) (binding m)) (\<lambda>(magic, r1).
     if magic \<noteq> DOC_MAGIC then Inl (InvalidManifest ''unsupported document binding revision'')
     else and_then (rd_u32 r1) (\<lambda>(name_len, r2).
     and_then (rd_take name_len r2) (\<lambda>(document, r3).
     if \<not> utf8_ok document then Inl (InvalidManifest ''document name is not UTF-8'')
     else if document = [] then Inl (InvalidManifest ''empty document name'')
     else and_then (rd_u32 r3) (\<lambda>(epoch, r4).
     and_then (rd_take 1 r4) (\<lambda>(e, r5).
     and_then (encoding_of e) (\<lambda>encoding.
     and_then (rd_version r5) (\<lambda>(base, r6).
     and_then (rd_version r6) (\<lambda>(target, r7).
     if r7 \<noteq> [] then Inl (InvalidManifest ''trailing document binding bytes'')
     else Inr \<lparr>ds_document = document, ds_epoch = epoch, ds_encoding = encoding, ds_base = base,
       ds_target = target\<rparr>)))))))))"

section \<open>A version on its own\<close>

record document_version =
  dvn_epoch :: nat
  dvn_version :: ver

definition encode_version :: "document_version \<Rightarrow> transfer_error + byte list" where
  "encode_version v = write_version (VERSION_MAGIC @ be_bytes 4 (dvn_epoch v)) (dvn_version v)"

definition decode_doc_version :: "byte list \<Rightarrow> transfer_error + document_version" where
  "decode_doc_version bytes =
     (if length bytes > MAX_METADATA_BYTES then Inl (ResourceLimit ''document version exceeds metadata budget'')
      else
        and_then (rd_take (length VERSION_MAGIC) bytes) (\<lambda>(magic, r1).
        if magic \<noteq> VERSION_MAGIC then Inl (InvalidManifest ''unsupported document version revision'')
        else and_then (rd_u32 r1) (\<lambda>(epoch, r2).
        and_then (rd_version r2) (\<lambda>(version, r3).
        if r3 \<noteq> [] then Inl (InvalidManifest ''trailing document version bytes'')
        else Inr \<lparr>dvn_epoch = epoch, dvn_version = version\<rparr>))))"

end
