(* ===== verification/Outbound.thy ===== *)
theory Outbound
  imports Wire Binding StagingStore
begin

text \<open>
  \<open>crates/sync/src/doc_transfer/outbound.rs\<close> and \<open>body.rs\<close>: a document's changes are frozen into one staged body,
  which the far side fetches chunk by chunk.  The document, blake3 and loro's reading of a body's header are the
  parameter \<open>xdoc\<close>.  A document that another alias may touch is looked at again: what it is then is an argument.
\<close>

section \<open>The parameters\<close>

datatype blob_mode = ModeUpdates | ModeSnapshot | ModeOther

record 'd xdoc =
  xd_ops :: "('d, byte list) doc_ops"
  xd_version :: "'d \<Rightarrow> ver"
  xd_hash :: "byte list \<Rightarrow> byte list"
  xd_meta :: "byte list \<Rightarrow> string + blob_mode"

text \<open>The counters of a version vector.\<close>

definition vv_of :: "ver \<Rightarrow> vv" where
  "vv_of v = (\<lambda>w. case map_of v w of None \<Rightarrow> 0 | Some c \<Rightarrow> nat c)"

datatype body_error =
    BodyTransfer transfer_error
  | InvalidLoro string
  | EncodingMismatch doc_encoding blob_mode

datatype outbound_error =
    WrongEpoch nat nat
  | OutFlush pile_error
  | OutExport string
  | VersionChanged
  | OutBody body_error
  | OutStaging manifest transfer_error
  | OutStagingBody manifest body_error
  | OutTransfer transfer_error

section \<open>A body\<close>

fun mode_fits :: "doc_encoding \<Rightarrow> blob_mode \<Rightarrow> bool" where
  "mode_fits Updates m = (m = ModeUpdates)"
| "mode_fits Snapshot m = (m = ModeSnapshot)"

definition validate_body :: "'d xdoc \<Rightarrow> descriptor \<Rightarrow> manifest \<Rightarrow> byte list \<Rightarrow> body_error + unit" where
  "validate_body X ds m body =
     (if length body > MAX_BLOB_BYTES then Inl (BodyTransfer (ResourceLimit ''document body exceeds 64 MiB''))
      else
        and_then (map_err BodyTransfer (bind_doc ds (source m) (recipient m) (total_bytes m) (digest m))) (\<lambda>m'.
        if m' \<noteq> m then Inl (BodyTransfer (InvalidManifest ''document descriptor differs from manifest''))
        else if length body \<noteq> total_bytes m
          then Inl (BodyTransfer (InvalidStage ''document body length differs from manifest''))
        else if xd_hash X body \<noteq> digest m then Inl (BodyTransfer DigestMismatch)
        else and_then (map_err InvalidLoro (xd_meta X body)) (\<lambda>mode.
          if mode_fits (ds_encoding ds) mode then Inr () else Inl (EncodingMismatch (ds_encoding ds) mode))))"

text \<open>
  The file may give less than it is asked for: \<open>rd\<close> says how many bytes at most a read at an offset gives, or
  that it fails.
\<close>

definition read_short ::
    "(byte list \<Rightarrow> byte list) \<Rightarrow> (nat \<Rightarrow> nat option) \<Rightarrow> nat \<Rightarrow> nat \<Rightarrow> sink \<times> stage \<Rightarrow> transfer_error + byte list" where
  "read_short H rd pos n ss =
     (case rd pos of
        None \<Rightarrow> read_verified H False pos n ss
      | Some k \<Rightarrow> and_then (read_verified H True pos n ss) (\<lambda>b. Inr (take k b)))"

text \<open>The loop that fills a buffer up to \<open>stop\<close>; a read of nothing is an unexpected end.\<close>

function read_fill ::
    "(byte list \<Rightarrow> byte list) \<Rightarrow> (nat \<Rightarrow> nat option) \<Rightarrow> sink \<times> stage \<Rightarrow> nat \<Rightarrow> nat \<Rightarrow> transfer_error + byte list" where
  "read_fill H rd ss stop pos =
     (if stop \<le> pos then Inr []
      else case read_short H rd pos (min CHUNK_BYTES (stop - pos)) ss of
        Inl e \<Rightarrow> Inl e
      | Inr b \<Rightarrow> if b = [] then Inl IoFailed else and_then (read_fill H rd ss stop (pos + length b)) (\<lambda>r. Inr (b @ r)))"
  by pat_completeness auto
termination by (relation "measure (\<lambda>(H, rd, ss, stop, pos). stop - pos)") (auto simp flip: length_greater_0_conv)

declare read_fill.simps [simp del]

definition read_verified_body ::
    "(byte list \<Rightarrow> byte list) \<Rightarrow> (nat \<Rightarrow> nat option) \<Rightarrow> sink \<times> stage \<Rightarrow> transfer_error + byte list" where
  "read_verified_body H rd ss =
     and_then (progress_of H (fst ss)) (\<lambda>p.
       case p of
         Stored _ \<Rightarrow> Inl (InvalidStage ''document stage is incomplete'')
       | VerifiedComplete _ _ \<Rightarrow>
           if total_bytes (sk_manifest (fst ss)) > MAX_BLOB_BYTES then Inl (ResourceLimit ''document body exceeds 64 MiB'')
           else read_fill H rd ss (total_bytes (sk_manifest (fst ss))) 0)"

section \<open>Staging a body\<close>

definition drop_sink :: "nat \<Rightarrow> xfer_world \<Rightarrow> xfer_world" where
  "drop_sink slot w = w\<lparr>xw_sinks := (xw_sinks w)(slot := None)\<rparr>"

function append_all ::
    "(byte list \<Rightarrow> byte list) \<Rightarrow> (nat \<Rightarrow> append_fault) \<Rightarrow> nat \<Rightarrow> byte list \<Rightarrow> nat \<Rightarrow> xfer_world \<Rightarrow>
     (transfer_error + unit) \<times> xfer_world" where
  "append_all H faults slot body pos w =
     (if length body \<le> pos then (Inr (), w)
      else
        let stop = min (pos + CHUNK_BYTES) (length body) in
        case append_at H (faults pos) slot pos (take (stop - pos) (drop pos body)) w of
          (Some (Inr _), w') \<Rightarrow> append_all H faults slot body stop w'
        | (Some (Inl e), w') \<Rightarrow> (Inl e, w')
        | (None, w') \<Rightarrow> (Inl IoFailed, w'))"
  by pat_completeness auto
termination
  by (relation "measure (\<lambda>(H, faults, slot, body, pos, w). length body - pos)") (auto simp: CHUNK_BYTES_def)

declare append_all.simps [simp del]

definition stage_body ::
    "(byte list \<Rightarrow> byte list) \<Rightarrow> open_fault \<Rightarrow> (nat \<Rightarrow> append_fault) \<Rightarrow> manifest \<Rightarrow> byte list \<Rightarrow> xfer_world \<Rightarrow>
     (transfer_error + nat) \<times> xfer_world" where
  "stage_body H fault faults m body w =
     (case receive_stage H fault m (owners_of w) (xw_root w) of
        (Inl e, x) \<Rightarrow> (Inl e, w\<lparr>xw_root := x\<rparr>)
      | (Inr (slot, sk), x) \<Rightarrow>
          (case append_all H faults slot body (sk_offset sk) (w\<lparr>xw_root := x, xw_sinks := (xw_sinks w)(slot := Some sk)\<rparr>) of
             (Inl e, w2) \<Rightarrow> (Inl e, drop_sink slot w2)
           | (Inr _, w2) \<Rightarrow>
               (case xw_sinks w2 slot of
                  None \<Rightarrow> (Inl IoFailed, w2)
                | Some sk' \<Rightarrow>
                    (case progress_of H sk' of
                       Inl e \<Rightarrow> (Inl e, drop_sink slot w2)
                     | Inr (Stored _) \<Rightarrow> (Inl (InvalidStage ''outbound staging is incomplete''), drop_sink slot w2)
                     | Inr (VerifiedComplete _ _) \<Rightarrow> (Inr slot, w2)))))"

section \<open>Preparing\<close>

record prepare_spec =
  ps_document :: "byte list"
  ps_source :: "byte list"
  ps_recipient :: "byte list"
  ps_receiver_epoch :: nat
  ps_base :: ver
  ps_encoding :: doc_encoding

text \<open>An outbound body is its descriptor and the slot of the sink that owns it.\<close>

record outbound =
  ob_descriptor :: descriptor
  ob_slot :: nat

datatype prepared = UpToDate nat ver | Transfer outbound

definition export_doc :: "('d, byte list) doc_ops \<Rightarrow> doc_encoding \<Rightarrow> 'd \<Rightarrow> ver \<Rightarrow> string + byte list" where
  "export_doc D enc d base = (case enc of Updates \<Rightarrow> d_changes D d (vv_of base) | Snapshot \<Rightarrow> d_snapshot D d)"

definition prepare ::
    "'d xdoc \<Rightarrow> (nat \<Rightarrow> bool) \<Rightarrow> 'd \<Rightarrow> 'd \<Rightarrow> open_fault \<Rightarrow> (nat \<Rightarrow> append_fault) \<Rightarrow> prepare_spec \<Rightarrow>
     ('d, byte list) copy \<Rightarrow> xfer_world \<Rightarrow> (outbound_error + prepared) \<times> ('d, byte list) copy \<times> xfer_world" where
  "prepare X io again again2 fault faults spec c w =
     (case c of (d, st, p) \<Rightarrow>
      let D = xd_ops X; epoch = st_epoch st;
          ds = \<lparr>ds_document = ps_document spec, ds_epoch = epoch, ds_encoding = ps_encoding spec, ds_base = ps_base spec,
            ds_target = xd_version X d\<rparr> in
      if ps_receiver_epoch spec \<noteq> epoch then (Inl (WrongEpoch (ps_receiver_epoch spec) epoch), c, w)
      else case bind_doc ds (ps_source spec) (ps_recipient spec) 0 (replicate 32 0) of
        Inl e \<Rightarrow> (Inl (OutTransfer e), c, w)
      | Inr _ \<Rightarrow>
          (case flush D io d st p of
             (Inl e, st', p') \<Rightarrow> (Inl (OutFlush e), (d, st', p'), w)
           | (Inr _, st', p') \<Rightarrow>
               let c' = (again, st', p') in
               if d_version D again \<noteq> vv_of (ds_target ds) then (Inl VersionChanged, c', w)
               else if vv_of (ds_target ds) \<le> vv_of (ps_base spec) then (Inr (UpToDate epoch (ds_target ds)), c', w)
               else case export_doc D (ps_encoding spec) again (ps_base spec) of
                 Inl e \<Rightarrow> (Inl (OutExport e), c', w)
               | Inr body \<Rightarrow>
                   let c'' = (again2, st', p') in
                   if d_version D again2 \<noteq> vv_of (ds_target ds) then (Inl VersionChanged, c'', w)
                   else if length body > MAX_BLOB_BYTES
                     then (Inl (OutTransfer (ResourceLimit ''outbound body exceeds 64 MiB'')), c'', w)
                   else case bind_doc ds (ps_source spec) (ps_recipient spec) (length body) (xd_hash X body) of
                     Inl e \<Rightarrow> (Inl (OutTransfer e), c'', w)
                   | Inr m \<Rightarrow>
                       (case validate_body X ds m body of
                          Inl e \<Rightarrow> (Inl (OutBody e), c'', w)
                        | Inr _ \<Rightarrow>
                            (case stage_body (xd_hash X) fault faults m body w of
                               (Inl e, w') \<Rightarrow> (Inl (OutStaging m e), c'', w')
                             | (Inr slot, w') \<Rightarrow> (Inr (Transfer \<lparr>ob_descriptor = ds, ob_slot = slot\<rparr>), c'', w')))))"

section \<open>An outbound body\<close>

text \<open>\<open>resume\<close>: the retained stage of exactly this manifest, read and checked again.\<close>

definition resume_outbound ::
    "'d xdoc \<Rightarrow> open_fault \<Rightarrow> (nat \<Rightarrow> nat option) \<Rightarrow> manifest \<Rightarrow> xfer_world \<Rightarrow>
     (outbound_error + outbound option) \<times> xfer_world" where
  "resume_outbound X fault rd m w =
     (case from_manifest m of
        Inl e \<Rightarrow> (Inl (OutTransfer e), w)
      | Inr ds \<Rightarrow>
          (case open_existing (xd_hash X) fault m (owners_of w) (xw_root w) of
             (Inl e, x) \<Rightarrow> (Inl (OutStaging m e), w\<lparr>xw_root := x\<rparr>)
           | (Inr None, x) \<Rightarrow> (Inr None, w\<lparr>xw_root := x\<rparr>)
           | (Inr (Some (slot, sk)), x) \<Rightarrow>
               let w1 = w\<lparr>xw_root := x, xw_sinks := (xw_sinks w)(slot := Some sk)\<rparr> in
               (case read_verified_body (xd_hash X) rd (sk, sink_files w1 sk) of
                  Inl e \<Rightarrow> (Inl (OutStaging m e), drop_sink slot w1)
                | Inr body \<Rightarrow>
                    (case validate_body X ds m body of
                       Inl e \<Rightarrow> (Inl (OutStagingBody m e), drop_sink slot w1)
                     | Inr _ \<Rightarrow> (Inr (Some \<lparr>ob_descriptor = ds, ob_slot = slot\<rparr>), w1)))))"

text \<open>\<open>read_chunk\<close>: one chunk of the body, or nothing at its end.\<close>

definition read_chunk ::
    "(byte list \<Rightarrow> byte list) \<Rightarrow> (nat \<Rightarrow> nat option) \<Rightarrow> nat \<Rightarrow> sink \<times> stage \<Rightarrow> transfer_error + byte list" where
  "read_chunk H rd pos ss =
     (let whole = total_bytes (sk_manifest (fst ss)) in
      if pos > whole \<or> pos \<noteq> whole \<and> pos mod CHUNK_BYTES \<noteq> 0
      then Inl (InvalidChunk ''noncanonical outbound read offset'')
      else read_fill H rd ss (pos + min (whole - pos) CHUNK_BYTES) pos)"

definition discard_outbound ::
    "(byte list \<Rightarrow> byte list) \<Rightarrow> cancel_fault \<Rightarrow> outbound \<Rightarrow> xfer_world \<Rightarrow> (transfer_error + cancelled) \<times> xfer_world" where
  "discard_outbound H fault ob w =
     (case xw_sinks w (ob_slot ob) of
        None \<Rightarrow> (Inl IoFailed, w)
      | Some sk \<Rightarrow>
          let w1 = drop_sink (ob_slot ob) w in
          (case cancel_stage H fault (sk_manifest sk) (owners_of w1) (xw_root w1) of (r, x) \<Rightarrow> (r, w1\<lparr>xw_root := x\<rparr>)))"

end
