(* ===== verification/Apply.thy ===== *)
theory Apply
  imports Outbound
begin

text \<open>
  \<open>crates/sync/src/store_apply.rs\<close> and \<open>doc_transfer/receive.rs\<close>: a verified body goes into the live document, with
  every check before the first change, and is flushed under the directory's lock.  The lock, the look whether the
  lock file is still the same one and every read or write of the directory have their outcomes as arguments.
\<close>

section \<open>What is asked for, what is answered\<close>

record apply_spec =
  ap_epoch :: nat
  ap_base :: ver
  ap_target :: ver

record flushed_import =
  fi_version :: vv
  fi_epoch :: nat
  fi_report :: merge_report
  fi_block :: "uchars option"
  fi_retired :: "nat option"

datatype apply_error =
    ApWrongEpoch nat nat
  | StaleBase
  | InvalidVersion
  | SeedFailure string
  | InvalidBody string
  | PendingImport
  | MissingTarget
  | MissingWriterLease
  | NeedsReload
  | FenceUnavailable string
  | FenceLost
  | EpochIo
  | InvalidEpoch
  | StaleEpoch nat nat
  | CommitFailed string

text \<open>
  The lease: whether the pile lock is held.  Of the system calls: making the directory, opening and taking the lock,
  listing, writing the epoch; the \<open>i\<close>-th look at the lock file (whether it is the same, or an error); the \<open>i\<close>-th
  strict read of the epoch (nothing when it works); the pen's file before and after the import, with the fresh name;
  the flush; and whether another alias moved the document while the candidate was tried.
\<close>

record apply_io =
  ai_dir :: bool
  ai_open :: bool
  ai_lock :: bool
  ai_list :: bool
  ai_epoch_write :: bool
  ai_same :: "nat \<Rightarrow> apply_error + unit"
  ai_epoch :: "nat \<Rightarrow> apply_error option"
  ai_pen :: "nat \<Rightarrow> bool"
  ai_name :: "nat \<Rightarrow> nat"
  ai_flush :: "nat \<Rightarrow> bool"
  ai_moved :: bool

record ('d, 'b) live =
  lv_doc :: 'd
  lv_store :: block_store
  lv_pile :: "'b pile"
  lv_fence :: bool

section \<open>The fence\<close>

definition strict_epoch :: "apply_error option \<Rightarrow> 'b pile \<Rightarrow> apply_error + nat option" where
  "strict_epoch fault p = (case fault of Some e \<Rightarrow> Inl e | None \<Rightarrow> Inr (p_epoch p))"

definition check_epoch :: "nat option \<Rightarrow> nat \<Rightarrow> bool \<Rightarrow> apply_error + unit" where
  "check_epoch disk expected stp =
     (case disk of
        Some e \<Rightarrow> if e = expected then Inr () else Inl (StaleEpoch expected e)
      | None \<Rightarrow> if expected = 0 \<and> \<not> stp then Inr () else Inl NeedsReload)"

definition check_apply_fence :: "apply_io \<Rightarrow> nat \<Rightarrow> nat \<Rightarrow> ('d, 'b) live \<Rightarrow> apply_error + unit" where
  "check_apply_fence io i expected l =
     (if \<not> lv_fence l then Inl (FenceUnavailable ''no pile lock'')
      else
        and_then (ai_same io i) (\<lambda>_.
        and_then (strict_epoch (ai_epoch io i) (lv_pile l)) (\<lambda>disk.
        check_epoch disk expected (stamp (lv_store l)))))"

definition ensure_apply_fence :: "apply_io \<Rightarrow> nat \<Rightarrow> ('d, 'b) live \<Rightarrow> (apply_error + unit) \<times> ('d, 'b) live" where
  "ensure_apply_fence io expected l =
     (if lv_fence l then (check_apply_fence io 0 expected l, l)
      else if \<not> ai_dir io then (Inl (FenceUnavailable ''directory''), l)
      else
        let l1 = l\<lparr>lv_pile := (lv_pile l)\<lparr>p_dir := True\<rparr>\<rparr> in
        if \<not> ai_open io then (Inl (FenceUnavailable ''lock file''), l1)
        else if \<not> ai_lock io then (Inl (FenceUnavailable ''lock''), l1)
        else case ai_same io 0 of
          Inl e \<Rightarrow> (Inl e, l1)
        | Inr _ \<Rightarrow>
            (case strict_epoch (ai_epoch io 0) (lv_pile l1) of
               Inl e \<Rightarrow> (Inl e, l1)
             | Inr disk \<Rightarrow>
                 if stamp (lv_store l1) then
                   (if \<not> ai_list io then (Inl (FenceUnavailable ''listing''), l1)
                    else if blocks (lv_pile l1) \<noteq> [] then (Inl NeedsReload, l1)
                    else
                      case (case disk of
                          Some e \<Rightarrow> if e \<noteq> expected then Inl (StaleEpoch expected e) else Inr (lv_pile l1)
                        | None \<Rightarrow> if ai_epoch_write io then Inr ((lv_pile l1)\<lparr>p_epoch := Some expected\<rparr>)
                            else Inl (CommitFailed ''epoch'')) of
                        Inl e \<Rightarrow> (Inl e, l1)
                      | Inr p' \<Rightarrow>
                          let l2 = l1\<lparr>lv_pile := p', lv_store := (lv_store l1)\<lparr>stamp := False\<rparr>, lv_fence := True\<rparr> in
                          (check_apply_fence io 1 expected l2, l2))
                 else
                   (case check_epoch disk expected False of
                      Inl e \<Rightarrow> (Inl e, l1)
                    | Inr _ \<Rightarrow> let l2 = l1\<lparr>lv_fence := True\<rparr> in (check_apply_fence io 1 expected l2, l2))))"

section \<open>The pen\<close>

definition retire_pen_checked :: "bool \<Rightarrow> nat \<Rightarrow> ('d, 'b) live \<Rightarrow> (apply_error + nat option) \<times> ('d, 'b) live" where
  "retire_pen_checked ok fresh l =
     (case pen (lv_store l) of
        None \<Rightarrow> (Inr None, l)
      | Some (k, name) \<Rightarrow>
          if \<not> ok then (Inl (CommitFailed ''pen''), l)
          else (Inr (Some name), l\<lparr>lv_store := (lv_store l)\<lparr>pen := None, retired := Some name\<rparr>,
            lv_pile := (lv_pile l)\<lparr>p_pens := (p_pens (lv_pile l))(k \<mapsto> fresh)\<rparr>\<rparr>))"

definition pending_of :: "block_store \<Rightarrow> nat \<Rightarrow> nat" where
  "pending_of st w = (case pending st w of None \<Rightarrow> 0 | Some e \<Rightarrow> e)"

definition retire_before_import ::
    "bool \<Rightarrow> nat \<Rightarrow> vv \<Rightarrow> vv \<Rightarrow> ('d, 'b) live \<Rightarrow> (apply_error + nat option) \<times> ('d, 'b) live" where
  "retire_before_import ok fresh before projected l =
     (case pen (lv_store l) of
        None \<Rightarrow> (Inr None, l)
      | Some (k, name) \<Rightarrow>
          if projected name \<le> before name \<and> pending_of (lv_store l) name \<le> before name then (Inr None, l)
          else retire_pen_checked ok fresh l)"

definition took_in_checked ::
    "bool \<Rightarrow> nat \<Rightarrow> vv \<Rightarrow> vv \<Rightarrow> ('d, 'b) live \<Rightarrow> (apply_error + nat option) \<times> ('d, 'b) live" where
  "took_in_checked ok fresh before actual l =
     (case pen (lv_store l) of
        None \<Rightarrow> (Inr None, l)
      | Some (k, name) \<Rightarrow> if actual name \<le> before name then (Inr None, l) else retire_pen_checked ok fresh l)"

section \<open>\<open>apply_checked\<close>\<close>

definition covers :: "vv \<Rightarrow> vv \<Rightarrow> apply_spec \<Rightarrow> bool" where
  "covers version before spec \<longleftrightarrow> before \<le> version \<and> vv_of (ap_base spec) \<le> version \<and> vv_of (ap_target spec) \<le> version"

text \<open>The candidate: a copy of the applied state, which takes the body first.\<close>

definition try_candidate :: "('d, 'b) doc_ops \<Rightarrow> apply_spec \<Rightarrow> 'b \<Rightarrow> 'd \<Rightarrow> apply_error + vv" where
  "try_candidate D spec bytes d =
     and_then (map_err SeedFailure (d_open D (d_peer D d))) (\<lambda>c0.
     if d_version D c0 \<noteq> (\<lambda>_. 0) then Inl (SeedFailure ''candidate constructor minted operations'')
     else and_then (map_err SeedFailure (d_snapshot D d)) (\<lambda>snap.
     and_then (map_err SeedFailure (d_merge D c0 snap)) (\<lambda>(seed, c1).
     if rep_pending seed \<noteq> [] \<or> d_version D c1 \<noteq> d_version D d
     then Inl (SeedFailure ''snapshot does not reproduce applied version'')
     else and_then (map_err InvalidBody (d_merge D c1 bytes)) (\<lambda>(rep, c2).
     if rep_pending rep \<noteq> [] then Inl PendingImport
     else if \<not> covers (d_version D c2) (d_version D d) spec then Inl MissingTarget
     else Inr (d_version D c2)))))"

definition is_spare_at_risk :: "nat \<Rightarrow> vv \<Rightarrow> vv \<Rightarrow> block_store \<Rightarrow> bool" where
  "is_spare_at_risk own before projected st \<longleftrightarrow>
     pen st = None \<and> retired st \<noteq> Some own \<and> (projected own > before own \<or> pending_of st own > before own)"

text \<open>A fence error after the import, a \<open>CommitFailed\<close>.\<close>

definition commit_fence :: "apply_error + unit \<Rightarrow> apply_error + unit" where
  "commit_fence r = map_err (\<lambda>_. CommitFailed ''fence'') r"

text \<open>The import into the live document and the flush; \<open>first\<close> is the name the pen was retired from before.\<close>

definition commit_import ::
    "('d, 'b) doc_ops \<Rightarrow> apply_io \<Rightarrow> apply_spec \<Rightarrow> 'b \<Rightarrow> nat option \<Rightarrow> ('d, 'b) live \<Rightarrow>
     (apply_error + flushed_import) \<times> ('d, 'b) live" where
  "commit_import D io spec bytes first l =
     (let before = d_version D (lv_doc l) in
      case d_merge D (lv_doc l) bytes of
        Inl e \<Rightarrow> (Inl (CommitFailed e), l)
      | Inr (rep, d') \<Rightarrow>
          let l1 = l\<lparr>lv_doc := d', lv_store := record_import rep (lv_store l)\<rparr>; actual = d_version D d' in
          (case took_in_checked (ai_pen io 1) (ai_name io 1) before actual l1 of
             (Inl e, l2) \<Rightarrow> (Inl e, l2)
           | (Inr second, l2) \<Rightarrow>
               if \<not> covers actual before spec
               then (Inl (CommitFailed ''live import did not cover required versions''), l2)
               else case commit_fence (check_apply_fence io 2 (ap_epoch spec) l2) of
                 Inl e \<Rightarrow> (Inl e, l2)
               | Inr _ \<Rightarrow>
                   (case flush D (ai_flush io) d' (lv_store l2) (lv_pile l2) of
                      (Inl e, st', p') \<Rightarrow> (Inl (CommitFailed ''flush''), l2\<lparr>lv_store := st', lv_pile := p'\<rparr>)
                    | (Inr block, st', p') \<Rightarrow>
                        let l3 = l2\<lparr>lv_store := st', lv_pile := p'\<rparr> in
                        (case commit_fence (check_apply_fence io 3 (ap_epoch spec) l3) of
                           Inl e \<Rightarrow> (Inl e, l3)
                         | Inr _ \<Rightarrow>
                             if \<not> (actual \<le> on_disk st') \<or> \<not> (vv_of (ap_target spec) \<le> on_disk st')
                             then (Inl (CommitFailed ''flush did not cover the applied version''), l3)
                             else (Inr \<lparr>fi_version = actual, fi_epoch = st_epoch st', fi_report = rep, fi_block = block,
                               fi_retired = (if first = None then second else first)\<rparr>, l3)))))"

definition apply_checked ::
    "('d, 'b) doc_ops \<Rightarrow> apply_io \<Rightarrow> apply_spec \<Rightarrow> 'b \<Rightarrow> ('d, 'b) live \<Rightarrow>
     (apply_error + flushed_import) \<times> ('d, 'b) live" where
  "apply_checked D io spec bytes l =
     (let before = d_version D (lv_doc l); own = d_peer D (lv_doc l) in
      if ap_epoch spec \<noteq> st_epoch (lv_store l) then (Inl (ApWrongEpoch (ap_epoch spec) (st_epoch (lv_store l))), l)
      else if list_ex (\<lambda>e. snd e < 0) (ap_base spec) \<or> list_ex (\<lambda>e. snd e < 0) (ap_target spec)
        then (Inl InvalidVersion, l)
      else if \<not> vv_of (ap_base spec) \<le> before \<or> \<not> vv_of (ap_base spec) \<le> on_disk (lv_store l) then (Inl StaleBase, l)
      else case try_candidate D spec bytes (lv_doc l) of
        Inl e \<Rightarrow> (Inl e, l)
      | Inr projected \<Rightarrow>
          if ai_moved io then (Inl NeedsReload, l)
          else
            (case ensure_apply_fence io (ap_epoch spec) l of
               (Inl e, l1) \<Rightarrow> (Inl e, l1)
             | (Inr _, l1) \<Rightarrow>
                 if is_spare_at_risk own before projected (lv_store l1) then (Inl MissingWriterLease, l1)
                 else
                   (case retire_before_import (ai_pen io 0) (ai_name io 0) before projected l1 of
                      (Inl e, l2) \<Rightarrow> (Inl e, l2)
                    | (Inr first, l2) \<Rightarrow> commit_import D io spec bytes first l2)))"

section \<open>\<open>apply_staged\<close>\<close>

record receive_spec =
  rs_document :: "byte list"
  rs_source :: "byte list"
  rs_recipient :: "byte list"

datatype receive_error =
    WrongDocument "byte list" "byte list"
  | WrongSource
  | WrongRecipient
  | Incomplete nat
  | ReTransfer transfer_error
  | ReBody body_error
  | ReApply apply_error

definition staged_body ::
    "'d xdoc \<Rightarrow> (nat \<Rightarrow> nat option) \<Rightarrow> receive_spec \<Rightarrow> sink \<times> stage \<Rightarrow> receive_error + descriptor \<times> byte list" where
  "staged_body X rd spec ss =
     (let m = sk_manifest (fst ss); H = xd_hash X in
      and_then (map_err ReTransfer (from_manifest m)) (\<lambda>ds.
      if ds_document ds \<noteq> rs_document spec then Inl (WrongDocument (rs_document spec) (ds_document ds))
      else if source m \<noteq> rs_source spec then Inl WrongSource
      else if recipient m \<noteq> rs_recipient spec then Inl WrongRecipient
      else and_then (map_err ReTransfer (progress_of H (fst ss))) (\<lambda>p.
        case p of
          Stored n \<Rightarrow> Inl (Incomplete n)
        | VerifiedComplete _ _ \<Rightarrow>
            and_then (map_err ReTransfer (read_verified_body H rd ss)) (\<lambda>body.
            and_then (map_err ReBody (validate_body X ds m body)) (\<lambda>_. Inr (ds, body))))))"

definition apply_staged ::
    "'d xdoc \<Rightarrow> apply_io \<Rightarrow> (nat \<Rightarrow> nat option) \<Rightarrow> receive_spec \<Rightarrow> sink \<times> stage \<Rightarrow> ('d, byte list) live \<Rightarrow>
     (receive_error + flushed_import) \<times> ('d, byte list) live" where
  "apply_staged X io rd spec ss l =
     (case staged_body X rd spec ss of
        Inl e \<Rightarrow> (Inl e, l)
      | Inr (ds, body) \<Rightarrow>
          (case apply_checked (xd_ops X) io \<lparr>ap_epoch = ds_epoch ds, ap_base = ds_base ds, ap_target = ds_target ds\<rparr> body l of
             (r, l') \<Rightarrow> (map_err ReApply r, l')))"

end
