(* ===== verification/BindingFacts.thy ===== *)
theory BindingFacts
  imports Binding
begin

text \<open>
  The binding says its descriptor and nothing else: what is bound is read back, and only the bytes a
  descriptor binds to are read at all.
\<close>

section \<open>Versions\<close>

definition ver_ok :: "ver \<Rightarrow> bool" where
  "ver_ok v \<longleftrightarrow> distinct (map fst v) \<and> list_all (\<lambda>(w, c). w \<le> u64_max \<and> c \<le> int i32_max) v"

text \<open>Sorted by writer, without the writers of nothing.\<close>

definition canonical :: "ver \<Rightarrow> ver" where
  "canonical v = sort_key fst (filter (\<lambda>e. 0 < snd e) v)"

definition canonical_ok :: "ver \<Rightarrow> bool" where
  "canonical_ok v \<longleftrightarrow> sorted_wrt (<) (map fst v) \<and> list_all (\<lambda>(w, c). w \<le> u64_max \<and> 0 < c \<and> c \<le> int i32_max) v"

definition version_bytes :: "ver \<Rightarrow> byte list" where
  "version_bytes es = be_bytes 4 (length es) @ concat (map entry_bytes es)"

lemma entry_length [simp]: "length (entry_bytes e) = 12"
  by (simp add: entry_bytes_def)

lemma entries_length: "length (concat (map entry_bytes es)) = 12 * length es"
  by (induction es) simp_all

lemma version_length: "length (version_bytes es) = 4 + 12 * length es"
  by (simp add: version_bytes_def entries_length)

lemma canonical_ok_canonical: "ver_ok v \<Longrightarrow> canonical_ok (canonical v)"
proof -
  assume v: "ver_ok v"
  let ?es = "filter (\<lambda>e. 0 < snd e) v"
  have "distinct (map fst (sort_key fst ?es))"
    using v by (simp add: ver_ok_def distinct_map inj_on_def)
  moreover have "sorted (map fst (sort_key fst ?es))" by (rule sorted_sort_key)
  ultimately have "sorted_wrt (<) (map fst (sort_key fst ?es))" by (simp add: strict_sorted_iff)
  then show ?thesis using v by (auto simp: canonical_ok_def canonical_def ver_ok_def list_all_iff)
qed

lemma canonical_same: "canonical_ok v \<Longrightarrow> canonical v = v"
proof -
  assume v: "canonical_ok v"
  then have "filter (\<lambda>e. 0 < snd e) v = v" by (auto simp: canonical_ok_def list_all_iff filter_id_conv)
  moreover have "sorted (map fst v)" using v by (simp add: canonical_ok_def strict_sorted_imp_sorted)
  ultimately show ?thesis by (simp add: canonical_def sort_key_id_if_sorted)
qed

lemma canonical_ok_ver: "canonical_ok v \<Longrightarrow> ver_ok v"
  by (auto simp: canonical_ok_def ver_ok_def list_all_iff strict_sorted_iff)

lemma write_version_Inr:
  assumes "write_version out v = Inr out'"
  shows "out' = out @ version_bytes (canonical v)" "length out' \<le> MAX_METADATA_BYTES"
    "\<forall>e \<in> set v. 0 \<le> snd e"
proof -
  let ?all = "filter (\<lambda>e. 0 < snd e) v" and ?k = "MAX_METADATA_BYTES div VERSION_ENTRY_BYTES + 1"
  have k: "?k = 5462" by (simp add: MAX_METADATA_BYTES_def VERSION_ENTRY_BYTES_def)
  from assms have fits: "length out + 4 + length (take ?k ?all) * 12 \<le> MAX_METADATA_BYTES"
    and o': "out' = out @ be_bytes 4 (length (take ?k ?all)) @ concat (map entry_bytes (sort_key fst (take ?k ?all)))"
    by (auto simp: write_version_def Let_def VERSION_ENTRY_BYTES_def not_less split: if_splits)
  have "length ?all \<le> ?k"
  proof (rule ccontr)
    assume "\<not> length ?all \<le> ?k"
    then have "length (take ?k ?all) = 5462" unfolding k by simp
    then show False using fits by (simp add: MAX_METADATA_BYTES_def)
  qed
  then have "take ?k ?all = ?all" by simp
  then show "out' = out @ version_bytes (canonical v)"
    unfolding o' version_bytes_def canonical_def by simp
  then show "length out' \<le> MAX_METADATA_BYTES"
    using fits \<open>take ?k ?all = ?all\<close> by (simp add: version_length canonical_def)
  show "\<forall>e \<in> set v. 0 \<le> snd e"
    using assms by (auto simp: write_version_def list_ex_iff not_less split: if_splits)
qed

lemma write_version_fits:
  assumes "canonical_ok v" and "length out + length (version_bytes v) \<le> MAX_METADATA_BYTES"
  shows "write_version out v = Inr (out @ version_bytes v)"
proof -
  have "filter (\<lambda>e. 0 < snd e) v = v" "\<not> list_ex (\<lambda>e. snd e < 0) v"
    using assms(1) by (auto simp: canonical_ok_def list_all_iff list_ex_iff filter_id_conv)
  moreover have len: "length out + 4 + length v * 12 \<le> MAX_METADATA_BYTES" using assms(2) by (simp add: version_length)
  moreover have "take (MAX_METADATA_BYTES div VERSION_ENTRY_BYTES + 1) v = v"
    using len by (simp add: MAX_METADATA_BYTES_def VERSION_ENTRY_BYTES_def)
  moreover have "sort_key fst v = v"
    using canonical_same [OF assms(1)] by (simp add: canonical_def calculation(1))
  ultimately show ?thesis by (simp add: write_version_def version_bytes_def VERSION_ENTRY_BYTES_def Let_def)
qed

section \<open>Reading\<close>

lemma rd_take_Inr: "rd_take n inp = Inr (b, rest) \<longleftrightarrow> inp = b @ rest \<and> length b = n"
  by (auto simp: rd_take_def)

lemma rd_u32_Inr: "rd_u32 inp = Inr (k, rest) \<longleftrightarrow> inp = be_bytes 4 k @ rest \<and> k < 4294967296"
proof
  assume "rd_u32 inp = Inr (k, rest)"
  then obtain b where b: "inp = b @ rest" "length b = 4" "k = from_be b"
    by (auto simp: rd_u32_def rd_take_Inr)
  have be: "be_bytes 4 (from_be b) = b" using be_bytes_from_be [of b] b(2) by simp
  have "from_be b < 256 ^ 4" using from_be_less [of b] b(2) by simp
  then show "inp = be_bytes 4 k @ rest \<and> k < 4294967296" using b be by simp
next
  assume "inp = be_bytes 4 k @ rest \<and> k < 4294967296"
  then show "rd_u32 inp = Inr (k, rest)" by (simp add: rd_u32_def rd_take_def from_be_u32)
qed

lemma read_entries_bytes:
  "read_entries n previous inp = Inr (es, rest) \<longleftrightarrow>
     inp = concat (map entry_bytes es) @ rest \<and> length es = n \<and> canonical_ok es \<and>
     (case (previous, es) of (Some p, (w, c) # _) \<Rightarrow> p < w | _ \<Rightarrow> True)"
proof (induction n arbitrary: previous inp es)
  case 0
  then show ?case by (auto simp: canonical_ok_def split: option.split)
next
  case (Suc n)
  show ?case
  proof
    assume "read_entries (Suc n) previous inp = Inr (es, rest)"
    then obtain b counter r2 es' where
      b: "inp = b @ be_bytes 4 counter @ r2" "length b = 8" "counter \<noteq> 0" "counter \<le> i32_max"
        "case previous of None \<Rightarrow> False | Some p \<Rightarrow> from_be b \<le> p \<Longrightarrow> False"
        "read_entries n (Some (from_be b)) r2 = Inr (es', rest)" "es = (from_be b, int counter) # es'"
      by (auto simp: rd_take_Inr rd_u32_Inr Let_def not_less split: if_splits prod.splits)
    have be: "be_bytes 8 (from_be b) = b" using be_bytes_from_be [of b] b(2) by simp
    have "from_be b < 256 ^ 8" using from_be_less [of b] b(2) by simp
    then have w: "from_be b \<le> u64_max" by (simp add: u64_max_def)
    from b(6) have rest': "r2 = concat (map entry_bytes es') @ rest" "length es' = n" "canonical_ok es'"
      "case es' of (w, c) # _ \<Rightarrow> from_be b < w | _ \<Rightarrow> True"
      unfolding Suc.IH by (auto split: list.splits)
    have "canonical_ok es"
      using rest'(3,4) b(3,4) w unfolding b(7) by (cases es') (auto simp: canonical_ok_def list_all_iff)
    then show "inp = concat (map entry_bytes es) @ rest \<and> length es = Suc n \<and> canonical_ok es \<and>
        (case (previous, es) of (Some p, (w, c) # _) \<Rightarrow> p < w | _ \<Rightarrow> True)"
      using b(1,5,7) rest'(1,2) be by (auto simp: entry_bytes_def not_le [symmetric] split: option.splits)
  next
    assume r: "inp = concat (map entry_bytes es) @ rest \<and> length es = Suc n \<and> canonical_ok es \<and>
        (case (previous, es) of (Some p, (w, c) # _) \<Rightarrow> p < w | _ \<Rightarrow> True)"
    then obtain w c es' where es: "es = (w, c) # es'" "length es' = n" by (cases es) auto
    have wc: "w \<le> u64_max" "0 < c" "c \<le> int i32_max" using r unfolding es(1) by (simp_all add: canonical_ok_def)
    have "canonical_ok es'" "case es' of (w', c') # _ \<Rightarrow> w < w' | _ \<Rightarrow> True"
      using r unfolding es(1) by (auto simp: canonical_ok_def split: list.splits)
    then have "read_entries n (Some w) (concat (map entry_bytes es') @ rest) = Inr (es', rest)"
      unfolding Suc.IH using es(2) by (auto split: list.splits)
    moreover have "from_be (be_bytes 8 w) = w" using wc(1) by simp
    moreover have "rd_u32 (be_bytes 4 (nat c) @ concat (map entry_bytes es') @ rest) =
        Inr (nat c, concat (map entry_bytes es') @ rest)"
      using wc by (simp add: rd_u32_Inr i32_max_def)
    ultimately show "read_entries (Suc n) previous inp = Inr (es, rest)"
      using r wc unfolding es(1) by (auto simp: entry_bytes_def rd_take_def Let_def i32_max_def split: option.splits)
  qed
qed

lemma rd_version_Inr:
  "rd_version inp = Inr (es, rest) \<longleftrightarrow> inp = version_bytes es @ rest \<and> canonical_ok es \<and> length es < 4294967296"
proof
  assume "rd_version inp = Inr (es, rest)"
  then obtain count r where "inp = be_bytes 4 count @ r" "count < 4294967296" "read_entries count None r = Inr (es, rest)"
    by (auto simp: rd_version_def rd_u32_Inr split: if_splits prod.splits)
  then show "inp = version_bytes es @ rest \<and> canonical_ok es \<and> length es < 4294967296"
    unfolding read_entries_bytes by (simp add: version_bytes_def)
next
  assume r: "inp = version_bytes es @ rest \<and> canonical_ok es \<and> length es < 4294967296"
  let ?r = "concat (map entry_bytes es) @ rest"
  have "length es \<le> length ?r div VERSION_ENTRY_BYTES" by (simp add: entries_length VERSION_ENTRY_BYTES_def)
  moreover have "read_entries (length es) None ?r = Inr (es, rest)" unfolding read_entries_bytes using r by simp
  moreover have "rd_u32 inp = Inr (length es, ?r)" using r by (simp add: rd_u32_Inr version_bytes_def)
  ultimately show "rd_version inp = Inr (es, rest)" by (simp add: rd_version_def not_less)
qed

section \<open>What a reader is\<close>

text \<open>
  A reader of values written by \<open>put\<close>: it takes a value off the front of its input exactly when that is what is
  written there.
\<close>

locale wire_reader =
  fixes put :: "'a \<Rightarrow> byte list" and get :: "byte list \<Rightarrow> 'e + 'a \<times> byte list" and ok :: "'a \<Rightarrow> bool"
  assumes reads: "get inp = Inr (x, rest) \<longleftrightarrow> ok x \<and> inp = put x @ rest"
begin

lemma read_back: "ok x \<Longrightarrow> get (put x @ rest) = Inr (x, rest)"
  by (simp add: reads)

lemma one_reading: "ok x \<Longrightarrow> ok y \<Longrightarrow> put x @ r = put y @ s \<Longrightarrow> x = y \<and> r = s"
  using read_back [of x r] read_back [of y s] by (metis Inr_inject prod.inject)

end

interpretation u32: wire_reader "be_bytes 4" rd_u32 "\<lambda>k. k < 4294967296"
  by unfold_locales (auto simp: rd_u32_Inr)

interpretation version: wire_reader version_bytes rd_version "\<lambda>es. canonical_ok es \<and> length es < 4294967296"
  by unfold_locales (auto simp: rd_version_Inr)

interpretation span: wire_reader "\<lambda>b. b" "rd_take n" "\<lambda>b. length b = n"
  by unfold_locales (auto simp: rd_take_Inr)

section \<open>Descriptors\<close>

definition desc_head :: "descriptor \<Rightarrow> byte list" where
  "desc_head ds = DOC_MAGIC @ be_bytes 4 (length (ds_document ds)) @ ds_document ds @ be_bytes 4 (ds_epoch ds) @
     [encoding_byte (ds_encoding ds)]"

definition binding_bytes :: "descriptor \<Rightarrow> byte list" where
  "binding_bytes ds = desc_head ds @ version_bytes (ds_base ds) @ version_bytes (ds_target ds)"

text \<open>The types of the fields: a string, integers of 32 bits, hash maps from u64 to i32.\<close>

definition desc_typed :: "descriptor \<Rightarrow> bool" where
  "desc_typed ds \<longleftrightarrow> utf8_ok (ds_document ds) \<and> ds_epoch ds < 4294967296 \<and> ver_ok (ds_base ds) \<and> ver_ok (ds_target ds)"

definition canonical_desc :: "descriptor \<Rightarrow> descriptor" where
  "canonical_desc ds = ds\<lparr>ds_base := canonical (ds_base ds), ds_target := canonical (ds_target ds)\<rparr>"

definition desc_ok :: "descriptor \<Rightarrow> bool" where
  "desc_ok ds \<longleftrightarrow> utf8_ok (ds_document ds) \<and> ds_document ds \<noteq> [] \<and> length (ds_document ds) < 4294967296 \<and>
     ds_epoch ds < 4294967296 \<and> canonical_ok (ds_base ds) \<and> length (ds_base ds) < 4294967296 \<and>
     canonical_ok (ds_target ds) \<and> length (ds_target ds) < 4294967296"

lemma encoding_of_Inr: "encoding_of b = Inr e \<longleftrightarrow> b = [encoding_byte e]"
  by (cases e) (auto simp: encoding_of_def)

lemma canonical_desc_simps [simp]: "ds_document (canonical_desc ds) = ds_document ds" "ds_epoch (canonical_desc ds) = ds_epoch ds"
    "ds_encoding (canonical_desc ds) = ds_encoding ds" "ds_base (canonical_desc ds) = canonical (ds_base ds)"
    "ds_target (canonical_desc ds) = canonical (ds_target ds)" "desc_head (canonical_desc ds) = desc_head ds"
  by (simp_all add: canonical_desc_def desc_head_def)

lemma from_manifest_Inr: "from_manifest m = Inr ds \<longleftrightarrow> validate m = Inr () \<and> binding m = binding_bytes ds \<and> desc_ok ds"
proof
  assume "from_manifest m = Inr ds"
  then obtain name epoch e base target where
    "validate m = Inr ()" "binding m = DOC_MAGIC @ be_bytes 4 (length name) @ name @ be_bytes 4 epoch @ [encoding_byte e] @
       version_bytes base @ version_bytes target"
    "utf8_ok name" "name \<noteq> []" "length name < 4294967296" "epoch < 4294967296"
    "canonical_ok base" "length base < 4294967296" "canonical_ok target" "length target < 4294967296"
    "ds = \<lparr>ds_document = name, ds_epoch = epoch, ds_encoding = e, ds_base = base, ds_target = target\<rparr>"
    by (auto simp: from_manifest_def u32.reads version.reads span.reads encoding_of_Inr split: if_splits)
  then show "validate m = Inr () \<and> binding m = binding_bytes ds \<and> desc_ok ds"
    by (simp add: binding_bytes_def desc_head_def desc_ok_def)
next
  assume r: "validate m = Inr () \<and> binding m = binding_bytes ds \<and> desc_ok ds"
  then have "binding m = DOC_MAGIC @ be_bytes 4 (length (ds_document ds)) @ ds_document ds @ be_bytes 4 (ds_epoch ds) @
      [encoding_byte (ds_encoding ds)] @ version_bytes (ds_base ds) @ version_bytes (ds_target ds) @ []"
    by (simp add: binding_bytes_def desc_head_def)
  moreover have "encoding_of [encoding_byte (ds_encoding ds)] = Inr (ds_encoding ds)" by (simp add: encoding_of_Inr)
  ultimately show "from_manifest m = Inr ds"
    using r unfolding desc_ok_def
    by (simp add: from_manifest_def u32.read_back version.read_back span.read_back del: append_Cons append_Nil2)
qed

lemma bind_doc_Inr:
  assumes "bind_doc ds src rcp n dig = Inr m"
  shows "m = \<lparr>source = src, recipient = rcp, binding = binding_bytes (canonical_desc ds), total_bytes = n, digest = dig\<rparr>"
    "validate m = Inr ()" "ds_document ds \<noteq> []"
proof -
  from assms obtain b1 b2 where b: "write_version (desc_head ds) (ds_base ds) = Inr b1" "write_version b1 (ds_target ds) = Inr b2"
    "m = \<lparr>source = src, recipient = rcp, binding = b2, total_bytes = n, digest = dig\<rparr>" "validate m = Inr ()" "ds_document ds \<noteq> []"
    by (auto simp: bind_doc_def Let_def desc_head_def split: if_splits)
  show "m = \<lparr>source = src, recipient = rcp, binding = binding_bytes (canonical_desc ds), total_bytes = n, digest = dig\<rparr>"
    using b(3) write_version_Inr(1) [OF b(1)] write_version_Inr(1) [OF b(2)] by (simp add: binding_bytes_def)
  show "validate m = Inr ()" "ds_document ds \<noteq> []" using b by simp_all
qed

text \<open>The other fields of the manifest do not matter to what is bound, but for the limit on the length.\<close>

lemma bind_again:
  assumes "bind_doc ds src rcp n dig = Inr m" and "k \<le> MAX_BLOB_BYTES"
  shows "\<exists>m'. bind_doc ds src' rcp' k dig' = Inr m'"
  using assms by (auto simp: bind_doc_def Let_def validate_def split: if_splits)

lemma binding_length: "validate m = Inr () \<Longrightarrow> length (binding m) \<le> MAX_METADATA_BYTES"
  by (auto simp: validate_def MAX_METADATA_BYTES_def XFER_HEADER_BYTES_def split: if_splits)

lemma bind_canonical:
  assumes "desc_ok ds" and "validate m = Inr ()" and "binding m = binding_bytes ds"
  shows "bind_doc ds (source m) (recipient m) (total_bytes m) (digest m) = Inr m"
proof -
  have len: "length (binding_bytes ds) \<le> MAX_METADATA_BYTES" using binding_length [OF assms(2)] assms(3) by simp
  have "write_version (desc_head ds) (ds_base ds) = Inr (desc_head ds @ version_bytes (ds_base ds))"
    using assms(1) len by (intro write_version_fits) (simp_all add: desc_ok_def binding_bytes_def)
  moreover have "write_version (desc_head ds @ version_bytes (ds_base ds)) (ds_target ds) = Inr (binding_bytes ds)"
    using assms(1) len write_version_fits [of "ds_target ds" "desc_head ds @ version_bytes (ds_base ds)"]
    by (simp add: desc_ok_def binding_bytes_def)
  moreover have "length (ds_document ds) \<le> MAX_METADATA_BYTES" using len by (simp add: binding_bytes_def desc_head_def)
  moreover have "\<lparr>source = source m, recipient = recipient m, binding = binding_bytes ds, total_bytes = total_bytes m,
      digest = digest m\<rparr> = m" using assms(3) by (metis manifest.surjective unit.exhaust)
  ultimately show ?thesis
    using assms(1,2) by (simp add: bind_doc_def Let_def desc_head_def [symmetric] desc_ok_def)
qed

lemma bound_ok:
  assumes "desc_typed ds" and "bind_doc ds src rcp n dig = Inr m"
  shows "desc_ok (canonical_desc ds)" "binding m = binding_bytes (canonical_desc ds)"
proof -
  note b = bind_doc_Inr [OF assms(2)]
  show m: "binding m = binding_bytes (canonical_desc ds)" using b(1) by simp
  then have len: "length (binding_bytes (canonical_desc ds)) \<le> 65536"
    using binding_length [OF b(2)] by (simp add: MAX_METADATA_BYTES_def)
  then show "desc_ok (canonical_desc ds)"
    using assms(1) b(3) canonical_ok_canonical
    by (simp add: desc_ok_def desc_typed_def binding_bytes_def desc_head_def version_length)
qed

text \<open>
  C27: One descriptor, one binding: a manifest reads as a descriptor exactly when that descriptor is in canonical form
  and binds to this very manifest.  No other spelling is accepted, and nothing that was bound is refused.
\<close>

theorem one_descriptor_one_binding:
  assumes "desc_typed ds"
  shows "from_manifest m = Inr ds \<longleftrightarrow>
    canonical_desc ds = ds \<and> bind_doc ds (source m) (recipient m) (total_bytes m) (digest m) = Inr m"
proof
  assume "from_manifest m = Inr ds"
  then have r: "validate m = Inr ()" "binding m = binding_bytes ds" "desc_ok ds" unfolding from_manifest_Inr by simp_all
  then have "canonical_desc ds = ds" by (simp add: desc_ok_def canonical_desc_def canonical_same)
  then show "canonical_desc ds = ds \<and> bind_doc ds (source m) (recipient m) (total_bytes m) (digest m) = Inr m"
    using bind_canonical [OF r(3,1,2)] by simp
next
  assume r: "canonical_desc ds = ds \<and> bind_doc ds (source m) (recipient m) (total_bytes m) (digest m) = Inr m"
  then show "from_manifest m = Inr ds"
    using bound_ok [OF assms] bind_doc_Inr(2) unfolding from_manifest_Inr by metis
qed

lemma binds_canonical:
  "desc_typed ds \<Longrightarrow> bind_doc ds src rcp n dig = Inr m \<Longrightarrow> from_manifest m = Inr (canonical_desc ds)"
  unfolding from_manifest_Inr using bound_ok bind_doc_Inr(2) by blast

lemma from_manifest_bind:
  "from_manifest m = Inr ds \<Longrightarrow> bind_doc ds (source m) (recipient m) (total_bytes m) (digest m) = Inr m"
  unfolding from_manifest_Inr using bind_canonical by blast

section \<open>A version on its own\<close>

text \<open>A version's bytes read back as it, and only its own bytes do.\<close>

lemma doc_version_Inr:
  "decode_doc_version bytes = Inr v \<longleftrightarrow>
     canonical_ok (dvn_version v) \<and> dvn_epoch v < 4294967296 \<and> encode_version v = Inr bytes"
proof
  assume d: "decode_doc_version bytes = Inr v"
  then obtain epoch ver where b: "bytes = VERSION_MAGIC @ be_bytes 4 epoch @ version_bytes ver" "canonical_ok ver"
    "epoch < 4294967296" "length bytes \<le> MAX_METADATA_BYTES" "v = \<lparr>dvn_epoch = epoch, dvn_version = ver\<rparr>"
    by (auto simp: decode_doc_version_def u32.reads version.reads span.reads not_less split: if_splits)
  have "encode_version v = Inr bytes"
    using write_version_fits [OF b(2), of "VERSION_MAGIC @ be_bytes 4 epoch"] b(1,4,5)
    by (simp add: encode_version_def)
  then show "canonical_ok (dvn_version v) \<and> dvn_epoch v < 4294967296 \<and> encode_version v = Inr bytes"
    using b by simp
next
  assume r: "canonical_ok (dvn_version v) \<and> dvn_epoch v < 4294967296 \<and> encode_version v = Inr bytes"
  then have e: "write_version (VERSION_MAGIC @ be_bytes 4 (dvn_epoch v)) (dvn_version v) = Inr bytes"
    by (simp add: encode_version_def)
  have b: "bytes = VERSION_MAGIC @ be_bytes 4 (dvn_epoch v) @ version_bytes (dvn_version v) @ []"
    using write_version_Inr(1) [OF e] canonical_same r by simp
  have len: "length bytes \<le> MAX_METADATA_BYTES" by (rule write_version_Inr(2) [OF e])
  then have "length (dvn_version v) < 4294967296" by (simp add: b version_length MAX_METADATA_BYTES_def)
  moreover have "\<lparr>dvn_epoch = dvn_epoch v, dvn_version = dvn_version v\<rparr> = v" by simp
  ultimately show "decode_doc_version bytes = Inr v"
    using r len unfolding b
    by (simp add: decode_doc_version_def u32.read_back version.read_back span.read_back not_less del: append_Nil2)
qed

end
