(* ===== verification/ApplyFacts.thy ===== *)
theory ApplyFacts
  imports Apply BindingFacts
begin

text \<open>
  The live import: everything that can be refused is refused before the document changes; what is answered for is
  on the disk; a writer's name that comes in from outside is given up.
\<close>

section \<open>What the steps touch\<close>

definition fence_only :: "('d, 'b) live \<Rightarrow> ('d, 'b) live \<Rightarrow> bool" where
  "fence_only l l' \<longleftrightarrow> lv_doc l' = lv_doc l \<and> (\<exists>s. lv_store l' = (lv_store l)\<lparr>stamp := s\<rparr>) \<and>
     p_blocks (lv_pile l') = p_blocks (lv_pile l) \<and> p_ledger (lv_pile l') = p_ledger (lv_pile l) \<and>
     p_pens (lv_pile l') = p_pens (lv_pile l) \<and> (p_dir (lv_pile l) \<longrightarrow> p_dir (lv_pile l'))"

definition pen_only :: "('d, 'b) live \<Rightarrow> ('d, 'b) live \<Rightarrow> bool" where
  "pen_only l l' \<longleftrightarrow> lv_doc l' = lv_doc l \<and> on_disk (lv_store l') = on_disk (lv_store l) \<and>
     held (lv_store l') = held (lv_store l) \<and> pending (lv_store l') = pending (lv_store l) \<and>
     st_epoch (lv_store l') = st_epoch (lv_store l) \<and> p_blocks (lv_pile l') = p_blocks (lv_pile l) \<and>
     p_dir (lv_pile l') = p_dir (lv_pile l)"

lemma fence_only_doc: "fence_only l l' \<Longrightarrow> lv_doc l' = lv_doc l"
  by (simp add: fence_only_def)

lemma pen_only_doc: "pen_only l l' \<Longrightarrow> lv_doc l' = lv_doc l"
  by (simp add: pen_only_def)

lemma fence_only_refl [simp]: "fence_only l l"
  unfolding fence_only_def by (intro conjI refl impI exI [of _ "stamp (lv_store l)"]) simp_all

lemma pen_only_refl [simp]: "pen_only l l"
  by (simp add: pen_only_def)

lemma ensure_fence_only: "ensure_apply_fence io expected l = (r, l') \<Longrightarrow> fence_only l l'"
proof -
  assume "ensure_apply_fence io expected l = (r, l')"
  moreover have "\<exists>s. st = st\<lparr>stamp := s\<rparr>" for st :: block_store by (rule exI [of _ "stamp st"]) simp
  ultimately show ?thesis
    by (auto simp: ensure_apply_fence_def fence_only_def Let_def split: if_splits sum.splits option.splits)
qed

lemma retire_pen_cases:
  assumes "retire_pen_checked ok fresh l = (r, l')"
  shows "pen_only l l'" "r = Inl e \<Longrightarrow> l' = l \<and> (\<exists>s. e = CommitFailed s)"
    "r = Inr n \<Longrightarrow> pen (lv_store l') = None"
    "r = Inr n \<Longrightarrow> pen (lv_store l) = Some (k, name) \<Longrightarrow> retired (lv_store l') = Some name \<and> p_pens (lv_pile l') k = Some fresh"
  using assms by (auto simp: retire_pen_checked_def pen_only_def split: option.splits if_splits prod.splits)

lemma retire_before_cases:
  assumes "retire_before_import ok fresh before projected l = (r, l')"
  shows "pen_only l l'" "r = Inl e \<Longrightarrow> l' = l \<and> (\<exists>s. e = CommitFailed s)"
    "r = Inr n \<Longrightarrow> pen (lv_store l) = Some (k, name) \<Longrightarrow>
       projected name \<le> before name \<and> pending_of (lv_store l) name \<le> before name \<and> l' = l \<or>
       pen (lv_store l') = None \<and> retired (lv_store l') = Some name \<and> p_pens (lv_pile l') k = Some fresh"
  using assms retire_pen_cases [of ok fresh l r l']
  by (auto simp: retire_before_import_def split: option.splits if_splits prod.splits)

lemma took_in_cases:
  assumes "took_in_checked ok fresh before actual l = (r, l')"
  shows "pen_only l l'" "r = Inl e \<Longrightarrow> l' = l \<and> (\<exists>s. e = CommitFailed s)"
    "pen (lv_store l) = None \<Longrightarrow> l' = l \<and> r = Inr None"
  using assms retire_pen_cases [of ok fresh l r l']
  by (auto simp: took_in_checked_def split: option.splits if_splits prod.splits)

text \<open>The two ways of a call: refused before the document is touched, or on to the import.\<close>

lemma apply_checked_cases:
  assumes "apply_checked D io spec bytes l = (r, l')"
  obtains (refused) e where "r = Inl e" "fence_only l l'"
  | (retire_failed) s where "r = Inl (CommitFailed s)" "fence_only l l'"
  | (importing) projected l1 l2 first where "st_epoch (lv_store l) = ap_epoch spec"
      "try_candidate D spec bytes (lv_doc l) = Inr projected" "fence_only l l1"
      "\<not> is_spare_at_risk (d_peer D (lv_doc l)) (d_version D (lv_doc l)) projected (lv_store l1)"
      "retire_before_import (ai_pen io 0) (ai_name io 0) (d_version D (lv_doc l)) projected l1 = (Inr first, l2)"
      "commit_import D io spec bytes first l2 = (r, l')"
proof -
  show thesis
  proof (cases "try_candidate D spec bytes (lv_doc l)")
    case (Inl e)
    then show thesis using assms refused by (auto simp: apply_checked_def Let_def split: if_splits)
  next
    case (Inr projected)
    obtain rf l1 where f: "ensure_apply_fence io (ap_epoch spec) l = (rf, l1)" by (metis prod.exhaust)
    have f1: "fence_only l l1" by (rule ensure_fence_only [OF f])
    obtain rr l2 where b: "retire_before_import (ai_pen io 0) (ai_name io 0) (d_version D (lv_doc l)) projected l1 = (rr, l2)"
      by (metis prod.exhaust)
    show thesis
    proof (cases "\<exists>u first. rf = Inr u \<and> rr = Inr first \<and> st_epoch (lv_store l) = ap_epoch spec \<and>
        \<not> is_spare_at_risk (d_peer D (lv_doc l)) (d_version D (lv_doc l)) projected (lv_store l1) \<and> \<not> ai_moved io \<and>
        commit_import D io spec bytes first l2 = (r, l')")
      case True
      then show thesis using importing Inr f1 b by blast
    next
      case False
      have "(\<exists>e. r = Inl e) \<and> (l' = l \<or> l' = l1)"
        using assms Inr f b False retire_before_cases(2) [OF b]
        by (auto simp: apply_checked_def Let_def split: if_splits sum.splits prod.splits)
      then show thesis using refused f1 by auto
    qed
  qed
qed

lemma took_in_Inl: "took_in_checked ok fresh before actual l = (Inl e, l') \<Longrightarrow> l' = l \<and> (\<exists>s. e = CommitFailed s)"
  by (rule took_in_cases(2)) simp_all

lemma commit_import_Inl: "commit_import D io spec bytes first l = (Inl e, l') \<Longrightarrow> \<exists>s. e = CommitFailed s"
  by (auto simp: commit_import_def Let_def commit_fence_def map_err_def split: if_splits sum.splits prod.splits
      dest!: took_in_Inl)

text \<open>
  C25: A refused import changes nothing.  Whatever the answer other than a failed commit (another epoch, a stale base, a
  body that does not load, is incomplete or misses its target, a lock that is not held or lost), the document
  is the one it was, and so are the store, the blocks, the ledger and the pens; at most the directory, the lock and
  the epoch's file were made.
\<close>

theorem refused_import_changes_nothing:
  assumes "apply_checked D io spec bytes l = (Inl e, l')" and "\<nexists>s. e = CommitFailed s"
  shows "lv_doc l' = lv_doc l \<and> (\<exists>s. lv_store l' = (lv_store l)\<lparr>stamp := s\<rparr>) \<and>
    p_blocks (lv_pile l') = p_blocks (lv_pile l) \<and> p_ledger (lv_pile l') = p_ledger (lv_pile l) \<and>
    p_pens (lv_pile l') = p_pens (lv_pile l)"
proof -
  have "fence_only l l'"
    using assms(1)
  proof (cases rule: apply_checked_cases)
    case (importing projected l1 l2 first)
    from commit_import_Inl [OF importing(6)] assms(2) show ?thesis by simp
  qed
  then show ?thesis unfolding fence_only_def by blast
qed

section \<open>An import that was answered for\<close>

lemma commit_import_Inr:
  assumes "commit_import D io spec bytes first l = (Inr fi, l')"
  obtains rep d' second l2 where "d_merge D (lv_doc l) bytes = Inr (rep, d')"
    "took_in_checked (ai_pen io 1) (ai_name io 1) (d_version D (lv_doc l)) (d_version D d')
       (l\<lparr>lv_doc := d', lv_store := record_import rep (lv_store l)\<rparr>) = (Inr second, l2)"
    "covers (d_version D d') (d_version D (lv_doc l)) spec"
    "flush D (ai_flush io) d' (lv_store l2) (lv_pile l2) = (Inr (fi_block fi), lv_store l', lv_pile l')"
    "lv_doc l' = lv_doc l2" "fi_version fi = d_version D d'" "d_version D d' \<le> on_disk (lv_store l')"
    "vv_of (ap_target spec) \<le> on_disk (lv_store l')" "fi_report fi = rep"
  using assms
  by (auto simp: commit_import_def Let_def commit_fence_def map_err_def split: if_splits sum.splits prod.splits)

lemma copy_ok_blocks: "p_blocks p' = p_blocks p \<Longrightarrow> copy_ok D carries used p' ds = copy_ok D carries used p ds"
  by (simp add: copy_at_def durable_def)

lemma pile_ok_blocks: "pile_ok used p \<Longrightarrow> p_blocks p' = p_blocks p \<Longrightarrow> (p_dir p \<longrightarrow> p_dir p') \<Longrightarrow> pile_ok used p'"
  by (auto simp: pile_ok_def)

definition live_ok_copy :: "('d, 'b) doc_ops \<Rightarrow> ('b \<Rightarrow> ops) \<Rightarrow> (uchars \<rightharpoonup> 'b) \<Rightarrow> ('d, 'b) live \<Rightarrow> bool" where
  "live_ok_copy D carries used l \<longleftrightarrow> pile_ok used (lv_pile l) \<and> copy_ok D carries used (lv_pile l) (lv_doc l, lv_store l)"

lemma fence_keeps_copy: "live_ok_copy D carries used l \<Longrightarrow> fence_only l l' \<Longrightarrow> live_ok_copy D carries used l'"
proof -
  assume ok: "live_ok_copy D carries used l" and "fence_only l l'"
  then obtain s where f: "lv_doc l' = lv_doc l" "lv_store l' = (lv_store l)\<lparr>stamp := s\<rparr>"
    "p_blocks (lv_pile l') = p_blocks (lv_pile l)" "p_dir (lv_pile l) \<longrightarrow> p_dir (lv_pile l')"
    unfolding fence_only_def by blast
  have "copy_ok D carries used (lv_pile l) (lv_doc l, (lv_store l)\<lparr>stamp := s\<rparr>)"
    using ok by (simp add: live_ok_copy_def copy_at_def)
  then show ?thesis using ok pile_ok_blocks [OF _ f(3,4)] by (simp add: live_ok_copy_def f(1,2) copy_ok_blocks [OF f(3)])
qed

lemma pen_keeps_copy:
  assumes "live_ok_copy D carries used l" and "pen_only l l'"
  shows "live_ok_copy D carries used l'"
proof -
  have f: "lv_doc l' = lv_doc l" "on_disk (lv_store l') = on_disk (lv_store l)" "held (lv_store l') = held (lv_store l)"
    "pending (lv_store l') = pending (lv_store l)" "p_blocks (lv_pile l') = p_blocks (lv_pile l)"
    "p_dir (lv_pile l') = p_dir (lv_pile l)"
    using assms(2) unfolding pen_only_def by simp_all
  have "copy_ok D carries used (lv_pile l) (lv_doc l', lv_store l')"
    using assms(1) by (simp add: live_ok_copy_def copy_at_def f)
  then show ?thesis using assms(1) pile_ok_blocks [OF _ f(5)] f(6) by (simp add: live_ok_copy_def copy_ok_blocks [OF f(5)])
qed

lemma merge_keeps_copy:
  assumes "doc_laws D carries known" and "live_ok_copy D carries used l" and "d_merge D (lv_doc l) b = Inr (rep, d')"
  shows "live_ok_copy D carries used (l\<lparr>lv_doc := d', lv_store := record_import rep (lv_store l)\<rparr>)"
proof -
  let ?st = "record_import rep (lv_store l)"
  have grows: "covered (d_version D (lv_doc l)) \<union> pend_ops (pending (lv_store l)) \<subseteq>
      covered (d_version D d') \<union> pend_ops (pending ?st)"
    using covered_mono [OF doc_mergeD(3) [OF assms(1,3)]] by (auto simp: record_import_def)
  have ok: "copy_ok D carries used (lv_pile l) (lv_doc l, lv_store l)" using assms(2) by (simp only: live_ok_copy_def)
  have "copy_ok D carries used (lv_pile l) (d', ?st)"
    by (rule copy_ok_further [OF ok _ _ grows]) (simp_all add: record_import_def)
  then show ?thesis using assms(2) by (simp add: live_ok_copy_def)
qed

lemma applied_import:
  assumes "doc_laws D carries known" and "live_ok_copy D carries used l"
    and "apply_checked D io spec bytes l = (Inr fi, l')" and "blocks_agree used (lv_pile l')"
  shows "fi_version fi = d_version D (lv_doc l') \<and> d_version D (lv_doc l) \<le> fi_version fi \<and>
    vv_of (ap_target spec) \<le> fi_version fi \<and> known (lv_doc l') = known (lv_doc l) \<union> carries bytes \<and>
    fi_version fi \<le> on_disk (lv_store l') \<and> covered (fi_version fi) \<subseteq> durable carries (lv_pile l') \<and>
    carries bytes \<subseteq> durable carries (lv_pile l') \<union> rep_ops (fi_report fi)"
  using assms(3)
proof (cases rule: apply_checked_cases)
  case (importing projected l1 l2 first)
  have l2: "live_ok_copy D carries used l2"
    by (rule pen_keeps_copy [OF fence_keeps_copy [OF assms(2) importing(3)] retire_before_cases(1) [OF importing(5)]])
  have doc2: "lv_doc l2 = lv_doc l"
    by (simp only: pen_only_doc [OF retire_before_cases(1) [OF importing(5)]] fence_only_doc [OF importing(3)])
  from importing(6) obtain rep d' second l3 where c: "d_merge D (lv_doc l2) bytes = Inr (rep, d')"
    "took_in_checked (ai_pen io 1) (ai_name io 1) (d_version D (lv_doc l2)) (d_version D d')
       (l2\<lparr>lv_doc := d', lv_store := record_import rep (lv_store l2)\<rparr>) = (Inr second, l3)"
    "covers (d_version D d') (d_version D (lv_doc l2)) spec"
    "flush D (ai_flush io) d' (lv_store l3) (lv_pile l3) = (Inr (fi_block fi), lv_store l', lv_pile l')"
    "lv_doc l' = lv_doc l3" "fi_version fi = d_version D d'" "d_version D d' \<le> on_disk (lv_store l')"
    "fi_report fi = rep"
    by (rule commit_import_Inr)
  have l3: "live_ok_copy D carries used l3"
    by (rule pen_keeps_copy [OF merge_keeps_copy [OF assms(1) l2 c(1)] took_in_cases(1) [OF c(2)]])
  have doc3: "lv_doc l3 = d'" using pen_only_doc [OF took_in_cases(1) [OF c(2)]] by simp
  have "covered (d_version D d') \<subseteq> durable carries (lv_pile l')"
    using l3 unfolding live_ok_copy_def doc3 by (elim conjE) (rule flush_covers [OF assms(1) _ _ c(4) assms(4)])
  moreover from this have "carries bytes \<subseteq> durable carries (lv_pile l') \<union> rep_ops (fi_report fi)"
    using doc_mergeD(4) [OF assms(1) c(1)] c(8) by blast
  moreover have "known d' = known (lv_doc l) \<union> carries bytes" using doc_mergeD(2) [OF assms(1) c(1)] by (simp only: doc2)
  moreover have "d_version D (lv_doc l) \<le> d_version D d'" "vv_of (ap_target spec) \<le> d_version D d'"
    using c(3) by (simp_all add: covers_def doc2)
  ultimately show ?thesis using c(7) by (simp add: c(5,6) doc3)
qed simp_all

lemma apply_checked_epoch: "apply_checked D io spec bytes l = (Inr fi, l') \<Longrightarrow> st_epoch (lv_store l) = ap_epoch spec"
  by (auto simp: apply_checked_def Let_def split: if_splits)

text \<open>
  C26: An import that is answered for is in the document and on the disk: the document knows everything it knew and all
  the body carries; its version is the one the answer says, at least what it was and the announced target, and all of
  it is in blocks of the directory; and so is all the body carries but what the answer's report names as still waiting
  for other operations.  The copy's mark was honest before, and no block name stands for two contents.
\<close>

theorem applied_import_is_on_disk:
  assumes "doc_laws D carries known" and "live_ok_copy D carries used l"
    and "apply_checked D io spec bytes l = (Inr fi, l')" and "blocks_agree used (lv_pile l')"
  shows "fi_version fi = d_version D (lv_doc l') \<and> d_version D (lv_doc l) \<le> fi_version fi \<and>
    vv_of (ap_target spec) \<le> fi_version fi \<and> known (lv_doc l') = known (lv_doc l) \<union> carries bytes \<and>
    fi_version fi \<le> on_disk (lv_store l') \<and> covered (fi_version fi) \<subseteq> durable carries (lv_pile l') \<and>
    carries bytes \<subseteq> durable carries (lv_pile l') \<union> rep_ops (fi_report fi)"
  by (rule applied_import [OF assms])

section \<open>The own name\<close>

definition given_up :: "nat \<Rightarrow> nat \<Rightarrow> apply_io \<Rightarrow> ('d, 'b) live \<Rightarrow> bool" where
  "given_up k name io l \<longleftrightarrow> pen (lv_store l) = None \<and> retired (lv_store l) = Some name \<and>
     (p_pens (lv_pile l) k = Some (ai_name io 0) \<or> p_pens (lv_pile l) k = Some (ai_name io 1))"

lemma flush_leaves_pens:
  assumes "flush D io d st p = (r, st', p')"
  shows "pen st' = pen st" "retired st' = retired st" "p_pens p' = p_pens p"
  using assms
  by (auto simp: flush_def make_dir_def enter_name_def write_block_def save_names_def Let_def split: if_splits sum.splits prod.splits)

lemma given_up_flush:
  "flush D io' d (lv_store l) (lv_pile l) = (r, st', p') \<Longrightarrow>
   given_up k name io (l\<lparr>lv_store := st', lv_pile := p'\<rparr>) = given_up k name io l"
  by (simp add: given_up_def flush_leaves_pens)

lemma given_up_merged [simp]: "given_up k name io (l\<lparr>lv_doc := d, lv_store := record_import rep (lv_store l)\<rparr>) = given_up k name io l"
  by (simp add: given_up_def record_import_def)

lemma took_in_given_up:
  assumes "took_in_checked ok (ai_name io 1) before actual l = (r, l')"
  shows "given_up k name io l \<Longrightarrow> given_up k name io l'"
    "pen (lv_store l) = Some (k, name) \<Longrightarrow> before name < actual name \<Longrightarrow> given_up k name io l' \<or> (\<exists>s. r = Inl (CommitFailed s)) \<and> \<not> ok"
  using assms
  by (auto simp: took_in_checked_def retire_pen_checked_def given_up_def split: option.splits if_splits prod.splits)

lemma commit_import_given_up:
  assumes "commit_import D io spec bytes first l = (r, l')"
  shows "given_up k name io l \<Longrightarrow> given_up k name io l'"
    "pen (lv_store l) = Some (k, name) \<Longrightarrow> d_version D (lv_doc l) name < d_version D (lv_doc l') name \<Longrightarrow>
     given_up k name io l' \<or> (\<exists>s. r = Inl (CommitFailed s)) \<and> \<not> ai_pen io 1"
proof -
  show "given_up k name io l'" if "given_up k name io l"
  proof (cases "d_merge D (lv_doc l) bytes")
    case (Inl e)
    then show ?thesis using assms that by (simp add: commit_import_def)
  next
    case (Inr m)
    obtain rep d' where m: "m = (rep, d')" by (cases m)
    let ?l1 = "l\<lparr>lv_doc := d', lv_store := record_import rep (lv_store l)\<rparr>"
    obtain rr l2 where t: "took_in_checked (ai_pen io 1) (ai_name io 1) (d_version D (lv_doc l)) (d_version D d') ?l1 = (rr, l2)"
      by (metis prod.exhaust)
    have "given_up k name io l2" by (rule took_in_given_up(1) [OF t]) (simp add: that)
    then show ?thesis
      using assms Inr m t by (auto simp: commit_import_def Let_def given_up_flush split: if_splits sum.splits prod.splits)
  qed
next
  assume held: "pen (lv_store l) = Some (k, name)" and more_known: "d_version D (lv_doc l) name < d_version D (lv_doc l') name"
  show "given_up k name io l' \<or> (\<exists>s. r = Inl (CommitFailed s)) \<and> \<not> ai_pen io 1"
  proof (cases "d_merge D (lv_doc l) bytes")
    case (Inl e)
    then show ?thesis using assms more_known by (simp add: commit_import_def)
  next
    case (Inr m)
    obtain rep d' where m: "m = (rep, d')" by (cases m)
    let ?l1 = "l\<lparr>lv_doc := d', lv_store := record_import rep (lv_store l)\<rparr>"
    obtain rr l2 where t: "took_in_checked (ai_pen io 1) (ai_name io 1) (d_version D (lv_doc l)) (d_version D d') ?l1 = (rr, l2)"
      by (metis prod.exhaust)
    have "lv_doc l' = lv_doc l2"
      using assms Inr m t by (auto simp: commit_import_def Let_def split: if_splits sum.splits prod.splits)
    then have "lv_doc l' = d'" using pen_only_doc [OF took_in_cases(1) [OF t]] by simp
    then have "given_up k name io l2 \<or> (\<exists>s. rr = Inl (CommitFailed s)) \<and> \<not> ai_pen io 1"
      using more_known by (intro took_in_given_up(2) [OF t]) (simp_all add: record_import_def held)
    then show ?thesis
      using assms Inr m t by (auto simp: commit_import_def Let_def given_up_flush split: if_splits sum.splits prod.splits)
  qed
qed

lemma retire_before_given_up:
  assumes "retire_before_import ok (ai_name io 0) before projected l = (Inr first, l')" and "pen (lv_store l) = Some (k, name)"
  shows "l' = l \<and> projected name \<le> before name \<and> pending_of (lv_store l) name \<le> before name \<or> given_up k name io l'"
  using assms
  by (auto simp: retire_before_import_def retire_pen_checked_def given_up_def split: if_splits)

text \<open>
  C16: A name that comes in from outside is never written under again: whatever the call answers, when the document
  afterwards knows more of the pen's own writer than before, the pen is given up and its file holds a fresh name.
  The one way round it is a failed commit in which the pen's file could not be written after the import, and the
  name was seen neither in the candidate nor among the pending.
\<close>

theorem own_name_is_given_up:
  assumes "apply_checked D io spec bytes l = (r, l')" and "pen (lv_store l) = Some (k, name)"
    and "d_version D (lv_doc l) name < d_version D (lv_doc l') name"
  shows "given_up k name io l' \<or>
    (\<exists>s. r = Inl (CommitFailed s)) \<and> \<not> ai_pen io 1 \<and>
    (\<exists>projected. try_candidate D spec bytes (lv_doc l) = Inr projected \<and> projected name \<le> d_version D (lv_doc l) name \<and>
       pending_of (lv_store l) name \<le> d_version D (lv_doc l) name)"
  using assms(1)
proof (cases rule: apply_checked_cases)
  case (importing projected l1 l2 first)
  from importing(3) obtain s where l1: "lv_doc l1 = lv_doc l" "lv_store l1 = (lv_store l)\<lparr>stamp := s\<rparr>"
    unfolding fence_only_def by blast
  have doc2: "lv_doc l2 = lv_doc l" by (simp only: pen_only_doc [OF retire_before_cases(1) [OF importing(5)]] l1(1))
  have pen1: "pen (lv_store l1) = Some (k, name)" using assms(2) by (simp add: l1(2))
  from retire_before_given_up [OF importing(5) pen1] show ?thesis
  proof
    assume same: "l2 = l1 \<and> projected name \<le> d_version D (lv_doc l) name \<and> pending_of (lv_store l1) name \<le> d_version D (lv_doc l) name"
    then have "pending_of (lv_store l) name \<le> d_version D (lv_doc l) name" by (simp add: l1(2) pending_of_def)
    moreover have "given_up k name io l' \<or> (\<exists>s. r = Inl (CommitFailed s)) \<and> \<not> ai_pen io 1"
      using pen1 assms(3) l1(1) same by (intro commit_import_given_up(2) [OF importing(6)]) simp_all
    ultimately show ?thesis using importing(2) same by blast
  next
    assume "given_up k name io l2"
    then show ?thesis using commit_import_given_up(1) [OF importing(6)] by blast
  qed
qed (use assms(3) in \<open>auto dest: fence_only_doc\<close>)

end
