(* ===== verification/OutboundFacts.thy ===== *)
theory OutboundFacts
  imports ApplyFacts WireFacts StagingGuarantees
begin

text \<open>
  A document's way from one machine to the other: what is offered is on the sender's disk and staged whole, what is
  read from a stage is the staged body, and what the receiver applies is what the manifest binds.
\<close>

section \<open>A finished stage\<close>

text \<open>The sink in this slot has the whole body of this manifest, with the declared digest.\<close>

definition staged_whole :: "(byte list \<Rightarrow> byte list) \<Rightarrow> xfer_world \<Rightarrow> sink \<Rightarrow> bool" where
  "staged_whole H w sk \<longleftrightarrow> \<not> sk_poisoned sk \<and> sk_offset sk = length (sg_body (sink_files w sk)) \<and>
     length (sg_body (sink_files w sk)) = total_bytes (sk_manifest sk) \<and>
     H (sg_body (sink_files w sk)) = digest (sk_manifest sk) \<and> sk_hashed sk = sg_body (sink_files w sk)"

lemma complete_is_whole:
  assumes "xfer_ok H w" and "xw_sinks w slot = Some sk" and "progress_of H sk = Inr (VerifiedComplete i n)"
  shows "staged_whole H w sk"
proof -
  from sink_fineD [OF assms(1,2)] obtain f where f: "map_of (xr_stages (xw_root w)) (sk_id sk) = Some f"
    "\<not> sk_poisoned sk \<longrightarrow> sink_at H sk (bytes_of (fi_body f)) (bytes_of (fi_offsets f))" by blast
  have body: "sg_body (sink_files w sk) = bytes_of (fi_body f)" using f(1) by (simp add: sink_files_def)
  have p: "\<not> sk_poisoned sk" "sk_offset sk = total_bytes (sk_manifest sk)" "H (sk_hashed sk) = digest (sk_manifest sk)"
    using assms(3) by (auto simp: progress_of_def split: if_splits)
  then show ?thesis using f(2) body by (simp add: staged_whole_def sink_at_def)
qed

lemma whole_is_complete: "staged_whole H w sk \<Longrightarrow> progress_of H sk = Inr (VerifiedComplete (sk_id sk) (sk_offset sk))"
  by (simp add: staged_whole_def progress_of_def)

section \<open>Staging\<close>

lemma append_chunk_keeps_manifest: "append_chunk H fault at bytes (sk, sg) = (r, sk', sg') \<Longrightarrow> sk_manifest sk' = sk_manifest sk"
  by (auto simp: append_chunk_def Let_def split: if_splits append_fault.splits)

lemma append_at_sink:
  assumes "xw_sinks w slot = Some sk" and "append_at H fault slot at bytes w = (r, w')"
  shows "\<exists>sk'. xw_sinks w' slot = Some sk' \<and> sk_manifest sk' = sk_manifest sk"
  using assms append_chunk_keeps_manifest
  by (auto simp: append_at_def split: prod.splits)

lemma append_all_keeps:
  assumes "hash_len H" and "xfer_ok H w" and "xw_sinks w slot = Some sk" and "append_all H faults slot body pos w = (r, w')"
  shows "xfer_ok H w' \<and> (\<exists>sk'. xw_sinks w' slot = Some sk' \<and> sk_manifest sk' = sk_manifest sk)"
  using assms
proof (induction H faults slot body pos w arbitrary: sk r w' rule: append_all.induct)
  case (1 H faults slot body pos w)
  show ?case
  proof (cases "length body \<le> pos")
    case True
    then show ?thesis using "1.prems" by (simp add: append_all.simps)
  next
    case False
    let ?e = "min (pos + CHUNK_BYTES) (length body)"
    obtain q w1 where q: "append_at H (faults pos) slot pos (take (?e - pos) (drop pos body)) w = (q, w1)"
      by (metis prod.exhaust)
    have ok: "xfer_ok H w1" by (rule append_world(1) [OF "1.prems"(1-3) q])
    obtain sk1 where sk1: "xw_sinks w1 slot = Some sk1" "sk_manifest sk1 = sk_manifest sk"
      using append_at_sink [OF "1.prems"(3) q] by blast
    show ?thesis
    proof (cases "\<exists>p. q = Some (Inr p)")
      case True
      then obtain p where p: "q = Some (Inr p)" by blast
      have "append_all H faults slot body ?e w1 = (r, w')"
        using "1.prems"(4) False q p by (subst (asm) append_all.simps) (simp add: Let_def)
      from "1.IH" [OF False refl q [symmetric] p refl "1.prems"(1) ok sk1(1) this] show ?thesis using sk1(2) by simp
    next
      case False
      then have "w' = w1"
        using "1.prems"(4) \<open>\<not> length body \<le> pos\<close> q by (subst (asm) append_all.simps) (auto simp: Let_def split: option.splits sum.splits)
      then show ?thesis using ok sk1 by simp
    qed
  qed
qed

lemma take_up_manifest: "take_up H fault m i slot x = (Inr (Some (s, sk)), x') \<Longrightarrow> sk_manifest sk = m"
  by (auto simp: take_up_def Let_def split: option.splits sum.splits if_splits prod.splits)

lemma open_stage_manifest: "open_stage H fault m c owners x = (Inr (Some (s, sk)), x') \<Longrightarrow> sk_manifest sk = m"
  by (auto simp: open_stage_def Let_def split: if_splits sum.splits prod.splits dest: take_up_manifest)

lemma receive_manifest: "receive_stage H fault m owners x = (Inr (slot, sk), x') \<Longrightarrow> sk_manifest sk = m"
  by (auto simp: receive_stage_def split: prod.splits option.splits dest: open_stage_manifest)

lemma stage_body_whole:
  assumes "hash_len H" and "xfer_ok H w" and "arrays m" and "stage_body H fault faults m body w = (Inr slot, w')"
  shows "xfer_ok H w' \<and> (\<exists>sk. xw_sinks w' slot = Some sk \<and> sk_manifest sk = m \<and> staged_whole H w' sk)"
proof -
  obtain r x where r: "receive_stage H fault m (owners_of w) (xw_root w) = (r, x)" by (metis prod.exhaust)
  obtain s sk where s: "r = Inr (s, sk)" using assms(4) r by (cases r) (auto simp: stage_body_def)
  let ?w1 = "w\<lparr>xw_root := x, xw_sinks := (xw_sinks w)(s := Some sk)\<rparr>"
  have o': "opened H (owners_of w) (H (encode_manifest m)) (xw_root w) (Inr (Some (s, sk))) x"
    using receive_world [OF assms(1-3) r refl] s by simp
  have ok1: "xfer_ok H ?w1" by (rule opened_world(2) [OF assms(2) o' refl])
  have m: "sk_manifest sk = m" using receive_manifest r s by blast
  obtain q w2 where q: "append_all H faults s body (sk_offset sk) ?w1 = (q, w2)" by (metis prod.exhaust)
  have "xw_sinks ?w1 s = Some sk" by simp
  from append_all_keeps [OF assms(1) ok1 this q] obtain sk' where
    k: "xfer_ok H w2" "xw_sinks w2 s = Some sk'" "sk_manifest sk' = m" using m by blast
  have e: "slot = s" "w' = w2" and p: "\<exists>i n. progress_of H sk' = Inr (VerifiedComplete i n)"
    using assms(4) r s q k(2) by (auto simp: stage_body_def split: sum.splits progress.splits)
  from p obtain i n where "progress_of H sk' = Inr (VerifiedComplete i n)" by blast
  from complete_is_whole [OF k(1,2) this] show ?thesis using k e by auto
qed

section \<open>Reading a stage\<close>

lemma read_short_whole:
  assumes "staged_whole H w sk" and "pos \<le> total_bytes (sk_manifest sk)" and "n \<le> CHUNK_BYTES"
  shows "rd pos = Some k \<Longrightarrow> read_short H rd pos n (sk, sink_files w sk) = Inr (take (min k n) (drop pos (sg_body (sink_files w sk))))"
    "rd pos = None \<Longrightarrow> read_short H rd pos n (sk, sink_files w sk) = Inl IoFailed"
proof -
  have o': "sk_offset sk = total_bytes (sk_manifest sk)" using assms(1) by (simp add: staged_whole_def)
  show "rd pos = Some k \<Longrightarrow> read_short H rd pos n (sk, sink_files w sk) = Inr (take (min k n) (drop pos (sg_body (sink_files w sk))))"
    "rd pos = None \<Longrightarrow> read_short H rd pos n (sk, sink_files w sk) = Inl IoFailed"
    using assms(2,3) by (simp_all add: read_short_def read_verified_def whole_is_complete [OF assms(1)] o' take_take not_less)
qed

lemma read_fill_whole:
  assumes "staged_whole H w sk" and "stop \<le> total_bytes (sk_manifest sk)" and "pos \<le> stop"
  shows "(read_fill H rd (sk, sink_files w sk) stop pos = Inr b \<longrightarrow> b = take (stop - pos) (drop pos (sg_body (sink_files w sk)))) \<and>
    ((\<forall>p. \<exists>k. rd p = Some (Suc k)) \<longrightarrow> (\<exists>b. read_fill H rd (sk, sink_files w sk) stop pos = Inr b))"
  using assms(3)
proof (induction "stop - pos" arbitrary: pos b rule: less_induct)
  case less
  let ?body = "sg_body (sink_files w sk)"
  have len: "length ?body = total_bytes (sk_manifest sk)" using assms(1) by (simp add: staged_whole_def)
  show ?case
  proof (cases "stop \<le> pos")
    case True
    then show ?thesis by (simp add: read_fill.simps)
  next
    case False
    let ?n = "min CHUNK_BYTES (stop - pos)"
    have pos: "pos \<le> total_bytes (sk_manifest sk)" "?n \<le> CHUNK_BYTES" using False assms(2) by simp_all
    note short = read_short_whole [OF assms(1) pos, of rd]
    show ?thesis
    proof (cases "rd pos")
      case None
      then have "read_fill H rd (sk, sink_files w sk) stop pos = Inl IoFailed" using short(2) False by (subst read_fill.simps) simp
      moreover have "\<not> (\<forall>p. \<exists>k. rd p = Some (Suc k))" using None by (metis option.distinct(1))
      ultimately show ?thesis by simp
    next
      case (Some k)
      let ?b = "take (min k ?n) (drop pos ?body)"
      have lb: "length ?b = min k ?n" using False assms(2) len by simp
      show ?thesis
      proof (cases "k = 0")
        case True
        then have "read_fill H rd (sk, sink_files w sk) stop pos = Inl IoFailed"
          using short(1) [OF Some] False by (subst read_fill.simps) simp
        moreover have "\<not> (\<forall>p. \<exists>k. rd p = Some (Suc k))" using Some True by (metis option.inject nat.distinct(1))
        ultimately show ?thesis by simp
      next
        case False': False
        have "0 < length ?b" unfolding lb using False False' by simp
        then have ne: "?b \<noteq> []" by blast
        let ?pos' = "pos + length ?b"
        have le: "stop - ?pos' < stop - pos" "?pos' \<le> stop"
          unfolding lb using False False' chunk_pos by (auto simp: min_def intro: diff_less_mono2)
        have unfolded: "read_fill H rd (sk, sink_files w sk) stop pos =
            and_then (read_fill H rd (sk, sink_files w sk) stop ?pos') (\<lambda>r. Inr (?b @ r))"
          by (subst read_fill.simps) (use False in \<open>simp add: short(1) [OF Some] if_not_P [OF ne] del: take_eq_Nil length_take\<close>)
        have glue: "?b @ take (stop - ?pos') (drop ?pos' ?body) = take (stop - pos) (drop pos ?body)"
          unfolding lb using False
          by (simp add: take_add [symmetric] add.commute [of pos] flip: drop_drop)
        show ?thesis
          unfolding unfolded using less.hyps [OF le] glue by auto
      qed
    qed
  qed
qed

text \<open>
  A chunk that is sent is the body's: at every offset the far side may ask for, what a complete stage gives is the
  next chunk of a body of the declared length and digest, and short reads of the file do not show.  While no read
  fails or comes back empty, it gives it.
\<close>

theorem outbound_chunk_is_the_bodys:
  assumes "hash_len H" and "\<forall>a \<in> set acts. typed a" and "w = run_from H new_world acts" and "xw_sinks w slot = Some sk"
    and "progress_of H sk = Inr (VerifiedComplete i n)" and "pos \<le> total_bytes (sk_manifest sk)"
    and "pos = total_bytes (sk_manifest sk) \<or> pos mod CHUNK_BYTES = 0"
  shows "length (sg_body (sink_files w sk)) = total_bytes (sk_manifest sk) \<and> H (sg_body (sink_files w sk)) = digest (sk_manifest sk) \<and>
    (\<forall>b. read_chunk H rd pos (sk, sink_files w sk) = Inr b \<longrightarrow> b = take CHUNK_BYTES (drop pos (sg_body (sink_files w sk)))) \<and>
    ((\<forall>p. \<exists>k. rd p = Some (Suc k)) \<longrightarrow>
       read_chunk H rd pos (sk, sink_files w sk) = Inr (take CHUNK_BYTES (drop pos (sg_body (sink_files w sk)))))"
proof -
  have "xfer_ok H w" unfolding assms(3) run_from_def by (rule xfer_run_keeps(1) [OF assms(1) world_ok_new]) (use assms(2) in auto)
  then have whole: "staged_whole H w sk" using complete_is_whole assms(4,5) by blast
  let ?body = "sg_body (sink_files w sk)" and ?stop = "pos + min (total_bytes (sk_manifest sk) - pos) CHUNK_BYTES"
  have chunk: "read_chunk H rd pos (sk, sink_files w sk) = read_fill H rd (sk, sink_files w sk) ?stop pos"
    using assms(6,7) by (auto simp: read_chunk_def Let_def)
  have "length ?body = total_bytes (sk_manifest sk)" using whole by (simp add: staged_whole_def)
  then have slice: "take (?stop - pos) (drop pos ?body) = take CHUNK_BYTES (drop pos ?body)" by (simp add: min_def)
  have fill: "(read_fill H rd (sk, sink_files w sk) ?stop pos = Inr b \<longrightarrow> b = take CHUNK_BYTES (drop pos ?body)) \<and>
      ((\<forall>p. \<exists>k. rd p = Some (Suc k)) \<longrightarrow> (\<exists>b. read_fill H rd (sk, sink_files w sk) ?stop pos = Inr b))" for b
  proof -
    have "?stop \<le> total_bytes (sk_manifest sk)" "pos \<le> ?stop" using assms(6) by simp_all
    from read_fill_whole [OF whole this, of rd b] show ?thesis unfolding slice .
  qed
  show ?thesis
    unfolding chunk using whole fill by (auto simp: staged_whole_def)
qed

section \<open>What is offered\<close>

lemma canonical_entry: "(w, c) \<in> set (canonical v) \<longleftrightarrow> (w, c) \<in> set v \<and> 0 < c"
  by (auto simp: canonical_def)

lemma vv_of_canonical: "ver_ok v \<Longrightarrow> vv_of (canonical v) = vv_of v"
proof (rule ext)
  fix w
  assume v: "ver_ok v"
  then have d: "distinct (map fst v)" "distinct (map fst (canonical v))"
    using canonical_ok_ver [OF canonical_ok_canonical [OF v]] by (simp_all add: ver_ok_def)
  show "vv_of (canonical v) w = vv_of v w"
  proof (cases "map_of v w")
    case None
    then have "map_of (canonical v) w = None" by (auto simp: map_of_eq_None_iff canonical_entry)
    then show ?thesis using None by (simp add: vv_of_def)
  next
    case (Some c)
    show ?thesis
    proof (cases "0 < c")
      case True
      then have "map_of (canonical v) w = Some c" using Some d by (simp add: canonical_entry)
      then show ?thesis using Some by (simp add: vv_of_def)
    next
      case False
      then have "w \<notin> fst ` set (canonical v)" using Some d(1) by (auto simp: canonical_entry) (metis map_of_is_SomeI option.inject)
      then have "map_of (canonical v) w = None" by (simp add: map_of_eq_None_iff)
      then show ?thesis using Some False by (simp add: vv_of_def)
    qed
  qed
qed

text \<open>
  The types of a preparation: a string, two node ids, an epoch of 32 bits, two version vectors.  The second view of
  the document's version says the same as the first.
\<close>

definition prepare_typed :: "'d xdoc \<Rightarrow> prepare_spec \<Rightarrow> 'd \<Rightarrow> nat \<Rightarrow> bool" where
  "prepare_typed X spec d epoch \<longleftrightarrow> utf8_ok (ps_document spec) \<and> length (ps_source spec) = 32 \<and> length (ps_recipient spec) = 32 \<and>
     ver_ok (ps_base spec) \<and> ver_ok (xd_version X d) \<and> epoch < 4294967296 \<and> vv_of (xd_version X d) = d_version (xd_ops X) d"

definition offer :: "'d xdoc \<Rightarrow> prepare_spec \<Rightarrow> 'd \<Rightarrow> nat \<Rightarrow> descriptor" where
  "offer X spec d epoch = \<lparr>ds_document = ps_document spec, ds_epoch = epoch, ds_encoding = ps_encoding spec,
     ds_base = ps_base spec, ds_target = xd_version X d\<rparr>"

lemma offer_typed: "prepare_typed X spec d epoch \<Longrightarrow> desc_typed (offer X spec d epoch)"
  by (simp add: prepare_typed_def offer_def desc_typed_def)

lemma prepare_transfer:
  assumes "prepare X io again again2 fault faults spec (d, st, p) w = (Inr (Transfer ob), (d', st', p'), w')"
  obtains r body m where "flush (xd_ops X) io d st p = (Inr r, st', p')" "d' = again2" "ps_receiver_epoch spec = st_epoch st"
    "ob_descriptor ob = offer X spec d (st_epoch st)"
    "d_version (xd_ops X) again = vv_of (xd_version X d)" "\<not> vv_of (xd_version X d) \<le> vv_of (ps_base spec)"
    "export_doc (xd_ops X) (ps_encoding spec) again (ps_base spec) = Inr body"
    "bind_doc (ob_descriptor ob) (ps_source spec) (ps_recipient spec) (length body) (xd_hash X body) = Inr m"
    "validate_body X (ob_descriptor ob) m body = Inr ()"
    "stage_body (xd_hash X) fault faults m body w = (Inr (ob_slot ob), w')"
  using assms
  by (auto simp: prepare_def Let_def offer_def split: if_splits sum.splits prod.splits)

text \<open>What a preparation that offers a body has left behind.\<close>

definition offered :: "'d xdoc \<Rightarrow> prepare_spec \<Rightarrow> 'd \<Rightarrow> nat \<Rightarrow> outbound \<Rightarrow> xfer_world \<Rightarrow> sink \<Rightarrow> bool" where
  "offered X spec d epoch ob w sk \<longleftrightarrow> xw_sinks w (ob_slot ob) = Some sk \<and> staged_whole (xd_hash X) w sk \<and>
     source (sk_manifest sk) = ps_source spec \<and> recipient (sk_manifest sk) = ps_recipient spec \<and>
     from_manifest (sk_manifest sk) = Inr (canonical_desc (offer X spec d epoch)) \<and>
     (\<exists>again body. d_version (xd_ops X) again = d_version (xd_ops X) d \<and>
        export_doc (xd_ops X) (ps_encoding spec) again (ps_base spec) = Inr body \<and>
        length body = total_bytes (sk_manifest sk) \<and> xd_hash X body = digest (sk_manifest sk))"

lemma prepare_offers:
  assumes "hash_len (xd_hash X)" and "xfer_ok (xd_hash X) w" and "prepare_typed X spec d (st_epoch st)"
    and "prepare X io again again2 fault faults spec (d, st, p) w = (Inr (Transfer ob), (d', st', p'), w')"
  shows "xfer_ok (xd_hash X) w' \<and> (\<exists>sk. offered X spec d (st_epoch st) ob w' sk)"
  using assms(4)
proof (rule prepare_transfer)
  fix r body m
  assume ob: "ob_descriptor ob = offer X spec d (st_epoch st)"
    and again: "d_version (xd_ops X) again = vv_of (xd_version X d)"
      "export_doc (xd_ops X) (ps_encoding spec) again (ps_base spec) = Inr body"
    and bound: "bind_doc (ob_descriptor ob) (ps_source spec) (ps_recipient spec) (length body) (xd_hash X body) = Inr m"
    and staged: "stage_body (xd_hash X) fault faults m body w = (Inr (ob_slot ob), w')"
  have m: "source m = ps_source spec" "recipient m = ps_recipient spec" "total_bytes m = length body" "digest m = xd_hash X body"
    using bind_doc_Inr(1) [OF bound] by simp_all
  have "from_manifest m = Inr (canonical_desc (offer X spec d (st_epoch st)))"
    by (rule binds_canonical [OF offer_typed [OF assms(3)] bound [unfolded ob]])
  moreover have "arrays m" using m assms(1,3) by (simp add: arrays_def prepare_typed_def)
  note stage_body_whole [OF assms(1,2) this staged]
  moreover have "d_version (xd_ops X) again = d_version (xd_ops X) d" using again(1) assms(3) by (simp add: prepare_typed_def)
  ultimately show ?thesis using m again(2) unfolding offered_def by metis
qed

text \<open>
  C13: What is offered is on the sender's disk: when a preparation answers with a body, everything the document knew is
  in blocks of its directory; the body is staged whole, of the length and digest its manifest says; that
  manifest names the sender, the recipient and, read back, the offer in canonical form; and the digest is that of the
  document's own export.
\<close>

theorem offered_body_is_flushed_and_staged:
  assumes "hash_len (xd_hash X)" and "\<forall>a \<in> set acts. typed a" and "w = run_from (xd_hash X) new_world acts"
    and "prepare_typed X spec d (st_epoch st)" and "doc_laws (xd_ops X) carries known"
    and "pile_ok used p" and "copy_ok (xd_ops X) carries used p (d, st)"
    and "prepare X io again again2 fault faults spec (d, st, p) w = (Inr (Transfer ob), (d', st', p'), w')"
    and "blocks_agree used p'"
  shows "covered (d_version (xd_ops X) d) \<subseteq> durable carries p' \<and> (\<exists>sk. offered X spec d (st_epoch st) ob w' sk)"
proof -
  have "xfer_ok (xd_hash X) w"
    unfolding assms(3) run_from_def by (rule xfer_run_keeps(1) [OF assms(1) world_ok_new]) (use assms(2) in auto)
  then have "\<exists>sk. offered X spec d (st_epoch st) ob w' sk" using prepare_offers [OF assms(1) _ assms(4,8)] by blast
  moreover obtain r where "flush (xd_ops X) io d st p = (Inr r, st', p')" using assms(8) by (rule prepare_transfer)
  then have "covered (d_version (xd_ops X) d) \<subseteq> durable carries p'" by (rule flush_covers [OF assms(5-7) _ assms(9)])
  ultimately show ?thesis by blast
qed

section \<open>What is applied\<close>

lemma verified_Inr: "(case p of Stored n \<Rightarrow> Inl (f n) | VerifiedComplete i n \<Rightarrow> g i n) = Inr y \<longleftrightarrow>
    (\<exists>i n. p = VerifiedComplete i n \<and> g i n = Inr y)"
  by (cases p) auto

lemma staged_body_Inr:
  assumes "staged_body X rd spec (sk, sg) = Inr (ds, body)"
  shows "from_manifest (sk_manifest sk) = Inr ds" "ds_document ds = rs_document spec" "source (sk_manifest sk) = rs_source spec"
    "recipient (sk_manifest sk) = rs_recipient spec" "length body = total_bytes (sk_manifest sk)"
    "xd_hash X body = digest (sk_manifest sk)" "\<exists>mode. xd_meta X body = Inr mode \<and> mode_fits (ds_encoding ds) mode"
proof -
  from assms have s: "from_manifest (sk_manifest sk) = Inr ds" "ds_document ds = rs_document spec"
    "source (sk_manifest sk) = rs_source spec" "recipient (sk_manifest sk) = rs_recipient spec"
    and v: "validate_body X ds (sk_manifest sk) body = Inr ()"
    by (auto simp: staged_body_def Let_def verified_Inr split: if_split_asm)
  show "from_manifest (sk_manifest sk) = Inr ds" "ds_document ds = rs_document spec"
    "source (sk_manifest sk) = rs_source spec" "recipient (sk_manifest sk) = rs_recipient spec" by (fact s)+
  show "length body = total_bytes (sk_manifest sk)"
    "xd_hash X body = digest (sk_manifest sk)" "\<exists>mode. xd_meta X body = Inr mode \<and> mode_fits (ds_encoding ds) mode"
    using v by (auto simp: validate_body_def split: if_split_asm)
qed

lemma apply_staged_Inr:
  assumes "apply_staged X io rd spec ss l = (Inr fi, l')"
  obtains ds body where "staged_body X rd spec ss = Inr (ds, body)"
    "apply_checked (xd_ops X) io \<lparr>ap_epoch = ds_epoch ds, ap_base = ds_base ds, ap_target = ds_target ds\<rparr> body l = (Inr fi, l')"
  using assms by (auto simp: apply_staged_def split: sum.splits prod.splits)

lemma applied_on_disk:
  assumes "doc_laws D carries known" and "live_ok_copy D carries used l"
    and "apply_checked D io spec bytes l = (Inr fi, l')" and "blocks_agree used (lv_pile l')"
  shows "fi_version fi = d_version D (lv_doc l')" "vv_of (ap_target spec) \<le> fi_version fi"
    "covered (fi_version fi) \<subseteq> durable carries (lv_pile l')"
  using applied_import [OF assms] by blast+

text \<open>
  C7: A transfer brings what was offered: when a receiver applies a stage of the manifest a sender's preparation
  staged, it applies the document, sender and recipient it was told to expect, a body of the offered digest, at the
  offer's epoch; and then everything the sender's document knew is in the receiver's document and in blocks of its
  directory.
\<close>

theorem transfer_brings_what_was_offered:
  assumes "hash_len (xd_hash X)" and "\<forall>a \<in> set acts. typed a" and "w = run_from (xd_hash X) new_world acts"
    and "prepare_typed X spec d (st_epoch st)"
    and "prepare X io again again2 fault faults spec (d, st, p) w = (Inr (Transfer ob), (d', st', p'), w')"
    and "xw_sinks w' (ob_slot ob) = Some sk"
    and "doc_laws (xd_ops X) carries known" and "live_ok_copy (xd_ops X) carries used l"
    and "sk_manifest sk2 = sk_manifest sk" and "apply_staged X aio rd rspec (sk2, sg2) l = (Inr fi, l')"
    and "blocks_agree used (lv_pile l')"
  shows "rs_document rspec = ps_document spec \<and> rs_source rspec = ps_source spec \<and> rs_recipient rspec = ps_recipient spec \<and>
    st_epoch (lv_store l) = st_epoch st \<and> d_version (xd_ops X) d \<le> d_version (xd_ops X) (lv_doc l') \<and>
    covered (d_version (xd_ops X) d) \<subseteq> durable carries (lv_pile l')"
proof -
  have "xfer_ok (xd_hash X) w"
    unfolding assms(3) run_from_def by (rule xfer_run_keeps(1) [OF assms(1) world_ok_new]) (use assms(2) in auto)
  then have o': "offered X spec d (st_epoch st) ob w' sk"
    using prepare_offers [OF assms(1) _ assms(4,5)] assms(6) by (auto simp: offered_def)
  from assms(10) show ?thesis
  proof (rule apply_staged_Inr)
    fix ds :: descriptor and body
    let ?ap = "\<lparr>ap_epoch = ds_epoch ds, ap_base = ds_base ds, ap_target = ds_target ds\<rparr>"
    assume sb: "staged_body X rd rspec (sk2, sg2) = Inr (ds, body)"
      and ac: "apply_checked (xd_ops X) aio ?ap body l = (Inr fi, l')"
    note b = staged_body_Inr [OF sb, unfolded assms(9)]
    have ds: "ds = canonical_desc (offer X spec d (st_epoch st))" using b(1) o' by (simp add: offered_def)
    have target: "vv_of (ds_target ds) = d_version (xd_ops X) d"
      using assms(4) by (simp add: ds offer_def prepare_typed_def vv_of_canonical)
    have epoch: "st_epoch (lv_store l) = st_epoch st"
      using apply_checked_epoch [OF ac] by (simp add: ds offer_def)
    note a = applied_on_disk [OF assms(7,8) ac assms(11)]
    have "d_version (xd_ops X) d \<le> fi_version fi" using a(2) target by simp
    moreover have "covered (d_version (xd_ops X) d) \<subseteq> covered (fi_version fi)" by (rule covered_mono [OF calculation])
    ultimately show ?thesis
      using a(1,3) b(2-4) o' epoch by (auto simp: ds offer_def offered_def)
  qed
qed

end
