(* ===== verification/OutboundWorks.thy ===== *)
theory OutboundWorks
  imports OutboundFacts StagingDemo
begin

text \<open>
  With nothing failing, what the far side lacks is offered; and a small document goes from one machine to another.
\<close>

section \<open>Staging without faults\<close>

definition stands_at :: "(byte list \<Rightarrow> byte list) \<Rightarrow> byte list \<Rightarrow> nat \<Rightarrow> sink \<Rightarrow> bool" where
  "stands_at H body pos sk \<longleftrightarrow> \<not> sk_poisoned sk \<and> sk_offset sk = pos \<and> sk_hashed sk = take pos body \<and>
     total_bytes (sk_manifest sk) = length body \<and> digest (sk_manifest sk) = H body"

lemma append_stands:
  assumes "stands_at H body pos sk" and "pos < length body" and "length body \<le> MAX_BLOB_BYTES"
    and "e = min (pos + CHUNK_BYTES) (length body)" and "xw_sinks w slot = Some sk"
  shows "\<exists>p sk' w'. append_at H NoFault slot pos (take (e - pos) (drop pos body)) w = (Some (Inr p), w') \<and>
    xw_sinks w' slot = Some sk' \<and> stands_at H body e sk'"
proof -
  let ?b = "take (e - pos) (drop pos body)"
  let ?sk = "sk\<lparr>sk_offset := e, sk_hashed := take e body\<rparr>"
  have e: "pos < e" "e \<le> length body" "e - pos \<le> CHUNK_BYTES" "e = length body \<or> e - pos = CHUNK_BYTES"
    using assms(2,4) chunk_pos by (auto simp: min_def split: if_splits)
  have lb: "length ?b = e - pos" "?b \<noteq> []" using e by simp_all
  have "take pos body @ ?b = take e body"
    using e(1) take_add [of pos "e - pos" body] by simp
  then have hashed: "sk_hashed sk @ ?b = take e body" using assms(1) by (simp add: stands_at_def)
  have u: "e \<le> u64_max" using e(2) assms(3) by (simp add: MAX_BLOB_BYTES_def u64_max_def)
  have "\<exists>p. progress_of H ?sk = Inr p"
    using assms(1) e(2) by (auto simp: stands_at_def progress_of_def)
  then obtain p where p: "progress_of H ?sk = Inr p" by blast
  have at: "pos + length ?b = e" using lb(1) e(1) by simp
  have "\<exists>sg'. append_chunk H NoFault pos ?b (sk, sink_files w sk) = (Inr p, ?sk, sg')"
    using assms(1) e u lb p hashed unfolding append_chunk_def Let_def split at
    by (simp add: stands_at_def del: length_take take_eq_Nil)
  then obtain sg' where "append_chunk H NoFault pos ?b (sk, sink_files w sk) = (Inr p, ?sk, sg')" by blast
  then show ?thesis
    using assms(1,5) by (auto simp: append_at_def stands_at_def)
qed

lemma append_all_works:
  assumes "length body \<le> MAX_BLOB_BYTES" and "xw_sinks w slot = Some sk" and "stands_at H body pos sk" and "pos \<le> length body"
  shows "\<exists>w' sk'. append_all H (\<lambda>_. NoFault) slot body pos w = (Inr (), w') \<and> xw_sinks w' slot = Some sk' \<and>
    stands_at H body (length body) sk'"
  using assms(2-)
proof (induction "length body - pos" arbitrary: pos w sk rule: less_induct)
  case less
  show ?case
  proof (cases "length body \<le> pos")
    case True
    then show ?thesis using less.prems by (simp add: append_all.simps)
  next
    case False
    let ?e = "min (pos + CHUNK_BYTES) (length body)"
    have "pos < length body" using False by simp
    from append_stands [OF less.prems(2) this assms(1) refl less.prems(1)] obtain p sk' w' where
      a: "append_at H NoFault slot pos (take (?e - pos) (drop pos body)) w = (Some (Inr p), w')"
      "xw_sinks w' slot = Some sk'" "stands_at H body ?e sk'" by blast
    have "length body - ?e < length body - pos" "?e \<le> length body"
      using False chunk_pos by (auto simp: min_def intro: diff_less_mono2)
    moreover have "append_all H (\<lambda>_. NoFault) slot body pos w = append_all H (\<lambda>_. NoFault) slot body ?e w'"
      using False a(1) by (subst append_all.simps) (simp add: Let_def)
    ultimately show ?thesis using less.hyps [OF _ a(2,3)] by simp
  qed
qed

text \<open>
  Room for one more stage: nothing torn, this manifest not staged yet, the quota not used up, one
  of the two owners' slots free.
\<close>

definition stage_room :: "(byte list \<Rightarrow> byte list) \<Rightarrow> manifest \<Rightarrow> xfer_world \<Rightarrow> bool" where
  "stage_room H m w \<longleftrightarrow> xfer_ok H w \<and> whole (xr_stages (xw_root w)) \<and> (\<exists>s. s < MAX_OWNERS \<and> xw_sinks w s = None) \<and>
     map_of (xr_stages (xw_root w)) (H (encode_manifest m)) = None \<and>
     sum_list (map (\<lambda>e. weight (snd e)) (xr_stages (xw_root w))) + total_bytes m \<le> MAX_RESERVED_BYTES \<and>
     length (xr_stages (xw_root w)) < MAX_RETAINED_STAGES"

lemma room_slot:
  assumes "stage_room H m w"
  shows "\<exists>slot. available_owner (\<lambda>_. True) (H (encode_manifest m)) (owners_of w) = Inr slot \<and> xw_sinks w slot = None"
proof -
  let ?i = "H (encode_manifest m)"
  obtain s where s: "s < MAX_OWNERS" "owners_of w s = None"
    using assms by (auto simp: stage_room_def owners_of_def)
  have others: "owners_of w t \<noteq> Some ?i" for t
  proof
    assume "owners_of w t = Some ?i"
    then obtain sk where sk: "xw_sinks w t = Some sk" "sk_id sk = ?i" by (auto simp: owners_of_def)
    have "sink_fine H (xr_stages (xw_root w)) sk" using assms sk(1) unfolding stage_room_def xfer_ok_def by blast
    then have "map_of (xr_stages (xw_root w)) ?i \<noteq> None" using sk(2) unfolding sink_fine_def by auto
    then show False using assms by (simp add: stage_room_def)
  qed
  then obtain slot where slot: "available_owner (\<lambda>_. True) ?i (owners_of w) = Inr slot"
    using available_owner_found [of "\<lambda>_. True" "owners_of w" ?i s] s by auto
  then have "xw_sinks w slot = None" using available_owner_free [OF slot] by (simp add: owners_of_def)
  with slot show ?thesis by blast
qed

lemma stage_body_works:
  assumes "hash_len H" and "manifest_ok m" and "stage_room H m w" and "total_bytes m = length body" and "digest m = H body"
    and slot: "available_owner (\<lambda>_. True) (H (encode_manifest m)) (owners_of w) = Inr slot"
  shows "\<exists>w' sk. stage_body H no_open_fault (\<lambda>_. NoFault) m body w = (Inr slot, w') \<and>
    xw_sinks w' slot = Some sk \<and> sk_hashed sk = body"
proof -
  have r: "stages_ok H (xr_stages (xw_root w))" "init_ok (xw_root w)" "whole (xr_stages (xw_root w))"
    "map_of (xr_stages (xw_root w)) (H (encode_manifest m)) = None"
    "sum_list (map (\<lambda>e. weight (snd e)) (xr_stages (xw_root w))) + total_bytes m \<le> MAX_RESERVED_BYTES"
    "length (xr_stages (xw_root w)) < MAX_RETAINED_STAGES"
    using assms(3) by (simp_all add: stage_room_def xfer_ok_def)
  from receive_fresh [OF assms(1,2) refl r(1,3,2,4-6) slot] obtain sk x where
    rc: "receive_stage H no_open_fault m (owners_of w) (xw_root w) = (Inr (slot, sk), x)"
    "sk = \<lparr>sk_manifest = m, sk_id = H (encode_manifest m), sk_offset = 0, sk_hashed = [], sk_poisoned = False\<rparr>" by blast
  let ?w1 = "w\<lparr>xw_root := x, xw_sinks := (xw_sinks w)(slot := Some sk)\<rparr>"
  have small: "length body \<le> MAX_BLOB_BYTES"
    using assms(2,4) by (simp add: manifest_ok_def validate_Inr is_ok_Inr)
  have "stands_at H body 0 sk" using rc(2) assms(4,5) by (simp add: stands_at_def)
  from append_all_works [OF small _ this, of ?w1 slot] obtain w2 sk' where
    a: "append_all H (\<lambda>_. NoFault) slot body 0 ?w1 = (Inr (), w2)" "xw_sinks w2 slot = Some sk'"
    "stands_at H body (length body) sk'" by auto
  have p: "progress_of H sk' = Inr (VerifiedComplete (sk_id sk') (sk_offset sk'))"
    using a(3) by (simp add: stands_at_def progress_of_def)
  have "sk_offset sk = 0" using rc(2) by simp
  then have "stage_body H no_open_fault (\<lambda>_. NoFault) m body w = (Inr slot, w2)"
    using rc(1) a(1,2) p by (simp add: stage_body_def)
  then show ?thesis using a(2,3) by (auto simp: stands_at_def)
qed

section \<open>What is missing is offered\<close>

text \<open>
  C28: What the far side lacks is offered: when both are at one epoch, the document has something past the base, its
  export is at most 64 MiB and what the reader of exports makes of it fits, its name and versions fit a manifest, that
  manifest is not staged yet, the flush and the staging meet no fault, a slot is free and the quota has room, a
  preparation answers with a body, staged whole in a slot that was free, of exactly what the document exports since
  the base.
\<close>

theorem missing_changes_are_offered:
  assumes "hash_len (xd_hash X)" and "prepare_typed X spec d (st_epoch st)" and "ps_receiver_epoch spec = st_epoch st"
    and "flush (xd_ops X) io d st p = (Inr r, st', p')" and "\<not> d_version (xd_ops X) d \<le> vv_of (ps_base spec)"
    and "export_doc (xd_ops X) (ps_encoding spec) d (ps_base spec) = Inr body" and "length body \<le> MAX_BLOB_BYTES"
    and "xd_meta X body = Inr mode" and "mode_fits (ps_encoding spec) mode"
    and "bind_doc (offer X spec d (st_epoch st)) (ps_source spec) (ps_recipient spec) (length body) (xd_hash X body) = Inr m"
    and "stage_room (xd_hash X) m w"
  shows "\<exists>slot w' sk. prepare X io d d no_open_fault (\<lambda>_. NoFault) spec (d, st, p) w =
      (Inr (Transfer \<lparr>ob_descriptor = offer X spec d (st_epoch st), ob_slot = slot\<rparr>), (d, st', p'), w') \<and>
    xw_sinks w slot = None \<and> xw_sinks w' slot = Some sk \<and> sk_manifest sk = m \<and> sk_hashed sk = body"
proof -
  let ?ds = "offer X spec d (st_epoch st)"
  note m = bind_doc_Inr [OF assms(10)]
  have mf: "source m = ps_source spec" "recipient m = ps_recipient spec" "total_bytes m = length body" "digest m = xd_hash X body"
    using m(1) by simp_all
  have ok: "manifest_ok m"
    using m(2) mf assms(1,2) by (simp add: manifest_ok_def is_ok_Inr prepare_typed_def)
  have early: "\<exists>m0. bind_doc ?ds (ps_source spec) (ps_recipient spec) 0 (replicate 32 0) = Inr m0"
    by (rule bind_again [OF assms(10)]) simp
  have valid: "validate_body X ?ds m body = Inr ()"
    using assms(7-10) mf by (simp add: validate_body_def not_less offer_def)
  obtain slot where slot: "available_owner (\<lambda>_. True) (xd_hash X (encode_manifest m)) (owners_of w) = Inr slot"
    and free: "xw_sinks w slot = None" using room_slot [OF assms(11)] by blast
  from stage_body_works [OF assms(1) ok assms(11) mf(3,4) slot] obtain w' sk where
    sb: "stage_body (xd_hash X) no_open_fault (\<lambda>_. NoFault) m body w = (Inr slot, w')" "xw_sinks w' slot = Some sk"
      "sk_hashed sk = body"
    by blast
  have "arrays m" using mf assms(1,2) by (simp add: arrays_def prepare_typed_def)
  moreover have "xfer_ok (xd_hash X) w" using assms(11) by (simp add: stage_room_def)
  ultimately have "sk_manifest sk = m" using stage_body_whole [OF assms(1) _ _ sb(1)] sb(2) by auto
  moreover have "vv_of (xd_version X d) = d_version (xd_ops X) d" using assms(2) by (simp add: prepare_typed_def)
  moreover have "prepare X io d d no_open_fault (\<lambda>_. NoFault) spec (d, st, p) w =
      (Inr (Transfer \<lparr>ob_descriptor = ?ds, ob_slot = slot\<rparr>), (d, st', p'), w')"
    using early assms(3-7) assms(10) valid sb(1) calculation(2)
    by (auto simp: prepare_def Let_def offer_def not_less)
  ultimately show ?thesis using sb(2,3) free by blast
qed

end
