(* ===== verification/DocTransferDemo.thy ===== *)
theory DocTransferDemo
  imports OutboundWorks
begin

text \<open>
  A counter goes from one machine to another: the hypotheses of the transfer's properties hold of it.
\<close>

section \<open>The counting document in bytes\<close>

definition pack :: "nat \<times> nat \<Rightarrow> byte list" where
  "pack b = replicate (fst b) 0 @ 1 # replicate (snd b) 0"

definition unpack :: "byte list \<Rightarrow> nat \<times> nat" where
  "unpack bs = (length (takeWhile (\<lambda>x. x = 0) bs), length (tl (dropWhile (\<lambda>x. x = 0) bs)))"

lemma unpack_pack [simp]: "unpack (pack b) = b"
  using run_of [of "1 :: byte" 0 "fst b" "replicate (snd b) 0"] by (simp add: pack_def unpack_def)

definition byte_docs :: "(nat \<times> nat, byte list) doc_ops" where
  "byte_docs = \<lparr>d_open = d_open counting, d_peer = fst, d_version = d_version counting,
     d_changes = (\<lambda>d v. Inr (pack (v 0, snd d))), d_snapshot = (\<lambda>d. Inr (pack (0, snd d))),
     d_merge = (\<lambda>d b. d_merge counting d (unpack b)), d_items = snd, b_empty = (\<lambda>b. b_empty counting (unpack b)),
     b_len = length\<rparr>"

definition byte_carries :: "byte list \<Rightarrow> ops" where
  "byte_carries b = counting_carries (unpack b)"

lemma byte_docs_laws: "doc_laws byte_docs byte_carries counting_known"
proof -
  have s: "d_changes counting d v = Inr (v 0, snd d)" "d_snapshot counting d = Inr (0, snd d)" for d v
    by (simp_all add: counting_simps)
  have c: "open_law counting counting_known" "merge_law counting counting_carries counting_known" "known_law counting counting_known"
    "export_law counting counting_carries" "catch_up_law counting"
    using counting_laws by (simp_all add: doc_laws_def)
  have p: "d_peer counting = fst" by (simp add: counting_def)
  have "open_law byte_docs counting_known" using c(1) by (simp add: open_law_def byte_docs_def p)
  moreover have "merge_law byte_docs byte_carries counting_known"
    using c(2) unfolding merge_law_def byte_docs_def byte_carries_def p by (simp del: split_paired_All)
  moreover have "known_law byte_docs counting_known" using c(3) by (simp add: known_law_def byte_docs_def)
  moreover have "export_law byte_docs byte_carries"
    using c(4) unfolding export_law_def byte_docs_def byte_carries_def by (auto simp: s)
  moreover have "catch_up_law byte_docs"
    using c(5) unfolding catch_up_law_def byte_docs_def by (simp add: s)
  ultimately show ?thesis by (simp add: doc_laws_def)
qed

definition cnt :: "nat \<Rightarrow> vv" where
  "cnt n = (\<lambda>w. if w = 0 then n else 0)"

lemma cnt_simps [simp]: "cnt n \<le> cnt m \<longleftrightarrow> n \<le> m" "cnt n = cnt m \<longleftrightarrow> n = m" "cnt n 0 = n" "0 < w \<Longrightarrow> cnt n w = 0"
  by (auto simp: cnt_def le_fun_def fun_eq_iff)

lemma cnt_zero: "(\<lambda>_. 0) = cnt 0"
  by (simp add: cnt_def fun_eq_iff)

lemma byte_simps [simp]:
  "d_version byte_docs d = cnt (snd d)" "d_peer byte_docs d = fst d" "d_open byte_docs p = Inr (p, 0)"
  "d_changes byte_docs d v = Inr (pack (v 0, snd d))" "d_snapshot byte_docs d = Inr (pack (0, snd d))"
  "d_merge byte_docs d b = (if fst (unpack b) \<le> snd d
     then Inr (\<lparr>rep_applied = [], rep_pending = []\<rparr>, (fst d, max (snd d) (snd (unpack b)))) else Inl ''gap'')"
  "b_empty byte_docs b = (snd (unpack b) \<le> fst (unpack b))"
  by (simp_all add: byte_docs_def counting_def cnt_def)

definition demo_xdoc :: "(nat \<times> nat) xdoc" where
  "demo_xdoc = \<lparr>xd_ops = byte_docs, xd_version = (\<lambda>d. if snd d = 0 then [] else [(0, int (snd d))]), xd_hash = toy_hash,
     xd_meta = (\<lambda>_. Inr ModeUpdates)\<rparr>"

lemma demo_xdoc_simps [simp]: "xd_ops demo_xdoc = byte_docs" "xd_hash demo_xdoc = toy_hash" "xd_meta demo_xdoc b = Inr ModeUpdates"
    "xd_version demo_xdoc d = (if snd d = 0 then [] else [(0, int (snd d))])"
  by (simp_all add: demo_xdoc_def)

lemma vv_of_demo [simp]: "vv_of [] = cnt 0" "vv_of [(0, int n)] = cnt n" "vv_of [(0, numeral k)] = cnt (numeral k)"
  by (auto simp: vv_of_def cnt_def fun_eq_iff)

section \<open>A binding\<close>

definition demo_desc :: descriptor where
  "demo_desc = \<lparr>ds_document = [112, 105, 110, 115], ds_epoch = 1, ds_encoding = Updates, ds_base = [], ds_target = [(0, 2)]\<rparr>"

definition demo_bound :: manifest where
  "demo_bound = \<lparr>source = replicate 32 1, recipient = replicate 32 2, binding = binding_bytes demo_desc,
     total_bytes = 3, digest = replicate 32 3\<rparr>"

lemma demo_desc_typed: "desc_typed demo_desc"
  by (simp add: desc_typed_def demo_desc_def ver_ok_def u64_max_def i32_max_def)

lemma demo_canonical: "canonical_desc demo_desc = demo_desc"
  by (simp add: canonical_desc_def demo_desc_def canonical_def)

lemma demo_desc_ok: "desc_ok demo_desc"
  by (simp add: desc_ok_def demo_desc_def canonical_ok_def u64_max_def i32_max_def)

lemma demo_bound_valid: "validate demo_bound = Inr ()"
proof -
  have "length (binding demo_bound) \<le> 100"
    by (simp add: demo_bound_def demo_desc_def binding_bytes_def desc_head_def version_length DOC_MAGIC_def)
  moreover have "binding demo_bound \<noteq> []" by (simp add: demo_bound_def binding_bytes_def desc_head_def DOC_MAGIC_def)
  ultimately show ?thesis
    by (simp add: validate_Inr MAX_METADATA_BYTES_def XFER_HEADER_BYTES_def) (simp add: demo_bound_def MAX_BLOB_BYTES_def)
qed

lemma demo_binds: "bind_doc demo_desc (replicate 32 1) (replicate 32 2) 3 (replicate 32 3) = Inr demo_bound"
  using bind_canonical [OF demo_desc_ok demo_bound_valid] by (simp add: demo_bound_def)

theorem one_descriptor_one_binding_witness: "from_manifest demo_bound = Inr demo_desc"
  using one_descriptor_one_binding [OF demo_desc_typed, of demo_bound] demo_binds demo_canonical by (simp add: demo_bound_def)

lemma demo_bound_from: "from_manifest demo_bound = Inr demo_desc"
  using binds_canonical [OF demo_desc_typed demo_binds] demo_canonical by simp

section \<open>The sender\<close>

definition demo_prepare :: prepare_spec where
  "demo_prepare = \<lparr>ps_document = [112, 105, 110, 115], ps_source = replicate 32 1, ps_recipient = replicate 32 2, ps_receiver_epoch = 1,
     ps_base = [], ps_encoding = Updates\<rparr>"

definition sender_store :: block_store where
  "sender_store = demo_store\<lparr>on_disk := cnt 0\<rparr>"

definition sender_wrote :: block_store where
  "sender_wrote = demo_store\<lparr>stamp := False, st_ledger := [demo_name], held := [demo_name], on_disk := cnt 2\<rparr>"

definition sender_pile :: "byte list pile" where
  "sender_pile = \<lparr>p_dir = True, p_blocks = [(demo_name, pack (0, 2))], p_ledger = Some (ledger_render [demo_name]),
     p_epoch = Some EPOCH, p_pens = Map.empty\<rparr>"

lemma demo_epoch: "st_epoch sender_store = 1"
  by (simp add: sender_store_def demo_store_def EPOCH_def)

lemma sender_flush: "flush byte_docs all_writes (7, 2) sender_store empty_pile = (Inr (Some demo_name), sender_wrote, sender_pile)"
  by (simp add: flush_def demo_store_def empty_pile_def demo_name_def sender_store_def sender_wrote_def sender_pile_def writing_defs)

lemma demo_offer: "offer demo_xdoc demo_prepare (7, 2) (st_epoch sender_store) = demo_desc"
  by (simp add: offer_def demo_prepare_def demo_desc_def demo_epoch)

lemma demo_typed: "prepare_typed demo_xdoc demo_prepare (7, 2) (st_epoch sender_store)"
  by (simp add: prepare_typed_def demo_prepare_def demo_epoch ver_ok_def u64_max_def i32_max_def)

lemma demo_export: "pack (0, 2) = [1, 0, 0]"
  by (simp add: pack_def numeral_2_eq_2)

lemma demo_room: "stage_room toy_hash demo_bound new_world"
  using world_ok_new [of toy_hash]
  by (simp add: stage_room_def new_world_def whole_def empty_root_def demo_bound_def MAX_RESERVED_BYTES_def MAX_RETAINED_STAGES_def
      MAX_OWNERS_def exI [of _ 0])

theorem missing_changes_are_offered_witness:
  "\<exists>slot w' sk. prepare demo_xdoc all_writes (7, 2) (7, 2) no_open_fault (\<lambda>_. NoFault) demo_prepare ((7, 2), sender_store, empty_pile)
      new_world = (Inr (Transfer \<lparr>ob_descriptor = demo_desc, ob_slot = slot\<rparr>), ((7, 2), sender_wrote, sender_pile), w') \<and>
    xw_sinks new_world slot = None \<and> xw_sinks w' slot = Some sk \<and> sk_manifest sk = demo_bound \<and> sk_hashed sk = [1, 0, 0]"
  using missing_changes_are_offered [of demo_xdoc demo_prepare "(7, 2)" sender_store all_writes empty_pile "Some demo_name"
      sender_wrote sender_pile "[1, 0, 0]" ModeUpdates demo_bound new_world]
    sender_flush demo_typed demo_room demo_binds demo_offer
  by (simp add: toy_hash_len demo_prepare_def demo_epoch export_doc_def demo_export MAX_BLOB_BYTES_def toy_hash_def numeral_3_eq_3)

lemma demo_sends:
  obtains w' sk where "prepare demo_xdoc all_writes (7, 2) (7, 2) no_open_fault (\<lambda>_. NoFault) demo_prepare
      ((7, 2), sender_store, empty_pile) new_world =
      (Inr (Transfer \<lparr>ob_descriptor = demo_desc, ob_slot = 0\<rparr>), ((7, 2), sender_wrote, sender_pile), w')"
    "xw_sinks w' 0 = Some sk" "sk_manifest sk = demo_bound" "sk_hashed sk = [1, 0, 0]" "staged_whole toy_hash w' sk"
proof -
  have ok: "manifest_ok demo_bound"
    using demo_bound_valid by (simp add: manifest_ok_def is_ok_Inr) (simp add: demo_bound_def)
  have "total_bytes demo_bound = length [1, 0, 0 :: byte]" "digest demo_bound = toy_hash [1, 0, 0]"
    by (simp_all add: demo_bound_def toy_hash_def)
  moreover have "available_owner (\<lambda>_. True) i (owners_of new_world) = Inr 0" for i
    by (simp add: owners_of_def new_world_def available_owner_def MAX_OWNERS_def upt_rec)
  ultimately obtain w' sk where
    w: "stage_body toy_hash no_open_fault (\<lambda>_. NoFault) demo_bound [1, 0, 0] new_world = (Inr 0, w')"
      "xw_sinks w' 0 = Some sk" "sk_hashed sk = [1, 0, 0]"
    using stage_body_works [OF toy_hash_len ok demo_room] by blast
  have a: "arrays demo_bound" by (simp add: arrays_def demo_bound_def)
  have whole: "sk_manifest sk = demo_bound" "staged_whole toy_hash w' sk"
    using stage_body_whole [OF toy_hash_len world_ok_new a w(1)] w(2) by auto
  have valid: "validate_body demo_xdoc demo_desc demo_bound [1, 0, 0] = Inr ()"
    using demo_binds by (simp add: validate_body_def demo_bound_def MAX_BLOB_BYTES_def toy_hash_def demo_desc_def)
  obtain m0 where early: "bind_doc demo_desc (replicate 32 1) (replicate 32 2) 0 (replicate 32 0) = Inr m0"
    using bind_again [OF demo_binds, of 0] by blast
  have "prepare demo_xdoc all_writes (7, 2) (7, 2) no_open_fault (\<lambda>_. NoFault) demo_prepare
      ((7, 2), sender_store, empty_pile) new_world =
      (Inr (Transfer \<lparr>ob_descriptor = demo_desc, ob_slot = 0\<rparr>), ((7, 2), sender_wrote, sender_pile), w')"
    using early sender_flush valid w(1) demo_binds demo_epoch
    by (simp add: prepare_def demo_prepare_def demo_desc_def export_doc_def demo_export MAX_BLOB_BYTES_def toy_hash_def
        numeral_3_eq_3 Let_def)
  then show thesis using that w whole by blast
qed

lemma sender_copy: "pile_ok Map.empty empty_pile" "copy_ok byte_docs byte_carries Map.empty empty_pile ((7, 2), sender_store)"
    "blocks_agree Map.empty sender_pile"
  by (simp_all add: pile_ok_def empty_pile_def copy_at_def sender_store_def demo_store_def blocks_agree_def bt_ok_def bt_get_def
      covered_def cnt_def durable_def)

theorem offered_body_is_flushed_and_staged_witness:
  "\<exists>w'. prepare demo_xdoc all_writes (7, 2) (7, 2) no_open_fault (\<lambda>_. NoFault) demo_prepare ((7, 2), sender_store, empty_pile)
      new_world = (Inr (Transfer \<lparr>ob_descriptor = demo_desc, ob_slot = 0\<rparr>), ((7, 2), sender_wrote, sender_pile), w') \<and>
    covered (cnt 2) \<subseteq> durable byte_carries sender_pile \<and>
    (\<exists>sk. offered demo_xdoc demo_prepare (7, 2) 1 \<lparr>ob_descriptor = demo_desc, ob_slot = 0\<rparr> w' sk)"
proof -
  obtain w' sk where p: "prepare demo_xdoc all_writes (7, 2) (7, 2) no_open_fault (\<lambda>_. NoFault) demo_prepare
      ((7, 2), sender_store, empty_pile) new_world =
      (Inr (Transfer \<lparr>ob_descriptor = demo_desc, ob_slot = 0\<rparr>), ((7, 2), sender_wrote, sender_pile), w')"
    by (rule demo_sends)
  have "new_world = run_from (xd_hash demo_xdoc) new_world []" by (simp add: run_from_def)
  from offered_body_is_flushed_and_staged [OF _ _ this demo_typed _ _ _ p, of byte_carries counting_known Map.empty]
  show ?thesis using p sender_copy byte_docs_laws by (simp add: toy_hash_len demo_epoch)
qed

section \<open>The receiver\<close>

definition good_io :: apply_io where
  "good_io = \<lparr>ai_dir = True, ai_open = True, ai_lock = True, ai_list = True, ai_epoch_write = True, ai_same = (\<lambda>_. Inr ()),
     ai_epoch = (\<lambda>_. None), ai_pen = (\<lambda>_. True), ai_name = (\<lambda>_. 5), ai_flush = all_writes, ai_moved = False\<rparr>"

definition receiver :: "(nat \<times> nat, byte list) live" where
  "receiver = \<lparr>lv_doc = (8, 0), lv_store = sender_store\<lparr>pen := Some (3, 0)\<rparr>, lv_pile = empty_pile, lv_fence = False\<rparr>"

definition demo_spec :: apply_spec where
  "demo_spec = \<lparr>ap_epoch = 1, ap_base = [], ap_target = [(0, 2)]\<rparr>"

definition received_name :: uchars where
  "received_name = block_name (unit_prefix 8) 0"

definition received_pile :: "byte list pile" where
  "received_pile = \<lparr>p_dir = True, p_blocks = [(received_name, pack (0, 2))], p_ledger = Some (ledger_render [received_name]),
     p_epoch = Some EPOCH, p_pens = [3 \<mapsto> 5]\<rparr>"

definition received :: "(nat \<times> nat, byte list) live" where
  "received = \<lparr>lv_doc = (8, 2), lv_store = sender_wrote\<lparr>st_ledger := [received_name], held := [received_name], pen := None,
     retired := Some 0\<rparr>, lv_pile = received_pile, lv_fence = True\<rparr>"

definition import_receipt :: flushed_import where
  "import_receipt = \<lparr>fi_version = cnt 2, fi_epoch = 1, fi_report = \<lparr>rep_applied = [], rep_pending = []\<rparr>,
     fi_block = Some received_name, fi_retired = Some 0\<rparr>"

lemma unpack_body [simp]: "unpack [1, 0, 0] = (0, 2)"
  using unpack_pack [of "(0, 2)"] by (simp only: demo_export)

lemma demo_try: "try_candidate byte_docs demo_spec [1, 0, 0] (8, 0) = Inr (cnt 2)"
  by (simp add: try_candidate_def cnt_zero covers_def demo_spec_def)

lemma import_fenced: "ensure_apply_fence good_io 1 receiver = (Inr (), receiver\<lparr>lv_pile := (lv_pile receiver)\<lparr>p_dir := True, p_epoch := Some 1\<rparr>,
    lv_store := (lv_store receiver)\<lparr>stamp := False\<rparr>, lv_fence := True\<rparr>)"
  by (simp add: ensure_apply_fence_def good_io_def receiver_def strict_epoch_def check_apply_fence_def check_epoch_def
      sender_store_def demo_store_def empty_pile_def blocks_def)

definition receiver_fenced :: "(nat \<times> nat, byte list) live" where
  "receiver_fenced = \<lparr>lv_doc = (8, 0), lv_store = sender_store\<lparr>pen := None, retired := Some 0, stamp := False\<rparr>,
     lv_pile = empty_pile\<lparr>p_dir := True, p_epoch := Some 1, p_pens := [3 \<mapsto> 5]\<rparr>, lv_fence = True\<rparr>"

lemma demo_commit: "commit_import byte_docs good_io demo_spec [1, 0, 0] (Some 0) receiver_fenced = (Inr import_receipt, received)"
proof -
  have "flush byte_docs all_writes (8, 2) (sender_store\<lparr>pen := None, retired := Some 0, stamp := False\<rparr>)
      (empty_pile\<lparr>p_dir := True, p_epoch := Some 1, p_pens := [3 \<mapsto> 5]\<rparr>) =
      (Inr (Some received_name), lv_store received, received_pile)"
    by (simp add: flush_def demo_store_def empty_pile_def received_name_def received_def sender_store_def sender_wrote_def
        received_pile_def writing_defs EPOCH_def)
  moreover have "on_disk (lv_store received) = cnt 2" "st_epoch (lv_store received) = 1" "p_epoch received_pile = Some 1"
    "stamp (lv_store received) = False" "\<lparr>lv_doc = (8, 2), lv_store = lv_store received, lv_pile = received_pile, lv_fence = True\<rparr> = received"
    by (simp_all add: received_def sender_wrote_def received_pile_def demo_store_def EPOCH_def)
  ultimately show ?thesis
    by (simp add: import_receipt_def commit_import_def receiver_fenced_def good_io_def took_in_checked_def record_import_def remember_pending_def
        sender_store_def demo_store_def covers_def demo_spec_def check_apply_fence_def strict_epoch_def check_epoch_def
        commit_fence_def Let_def)
qed

lemma demo_apply: "apply_checked byte_docs good_io demo_spec [1, 0, 0] receiver = (Inr import_receipt, received)"
proof -
  let ?l1 = "receiver\<lparr>lv_pile := (lv_pile receiver)\<lparr>p_dir := True, p_epoch := Some 1\<rparr>,
    lv_store := (lv_store receiver)\<lparr>stamp := False\<rparr>, lv_fence := True\<rparr>"
  have retire: "retire_before_import True 5 (cnt 0) (cnt 2) ?l1 = (Inr (Some 0), receiver_fenced)"
    by (simp add: retire_before_import_def retire_pen_checked_def receiver_def receiver_fenced_def sender_store_def demo_store_def
        empty_pile_def)
  have "\<not> is_spare_at_risk 8 (cnt 0) (cnt 2) (lv_store ?l1)" by (simp add: is_spare_at_risk_def receiver_def)
  moreover have "st_epoch (lv_store receiver) = 1" "on_disk (lv_store receiver) = cnt 0" "lv_doc receiver = (8, 0)"
    by (simp_all add: receiver_def sender_store_def demo_store_def EPOCH_def)
  moreover have "ai_moved good_io = False" "ai_pen good_io 0" "ai_name good_io 0 = 5" "ap_epoch demo_spec = 1"
    by (simp_all add: good_io_def demo_spec_def)
  moreover have "\<not> list_ex (\<lambda>e. snd e < 0) (ap_base demo_spec)" "\<not> list_ex (\<lambda>e. snd e < 0) (ap_target demo_spec)"
    "vv_of (ap_base demo_spec) = cnt 0"
    by (simp_all add: demo_spec_def)
  ultimately show ?thesis
    using demo_try import_fenced demo_commit retire by (simp add: apply_checked_def)
qed

lemma receiver_copy: "live_ok_copy byte_docs byte_carries Map.empty receiver" "blocks_agree Map.empty (lv_pile received)"
  using sender_copy(1,2) by (simp_all add: live_ok_copy_def receiver_def copy_at_def sender_store_def demo_store_def blocks_agree_def)

theorem refused_import_changes_nothing_witness:
  "apply_checked byte_docs (good_io\<lparr>ai_moved := True\<rparr>) demo_spec [1, 0, 0] receiver = (Inl NeedsReload, receiver) \<and>
    lv_doc receiver = lv_doc receiver \<and> p_blocks (lv_pile receiver) = p_blocks (lv_pile receiver)"
proof -
  have e: "apply_checked byte_docs (good_io\<lparr>ai_moved := True\<rparr>) demo_spec [1, 0, 0] receiver = (Inl NeedsReload, receiver)"
    using demo_try by (simp add: apply_checked_def receiver_def demo_spec_def sender_store_def demo_store_def EPOCH_def)
  with refused_import_changes_nothing [OF e] show ?thesis by simp
qed

theorem applied_import_is_on_disk_witness:
  "apply_checked byte_docs good_io demo_spec [1, 0, 0] receiver = (Inr import_receipt, received) \<and>
    fi_version import_receipt = cnt 2 \<and> covered (cnt 2) \<subseteq> durable byte_carries (lv_pile received)"
  using applied_import_is_on_disk [OF byte_docs_laws receiver_copy(1) demo_apply receiver_copy(2)] demo_apply
  by (simp add: import_receipt_def)

theorem own_name_is_given_up_witness:
  "pen (lv_store receiver) = Some (3, 0) \<and> d_version byte_docs (lv_doc receiver) 0 < d_version byte_docs (lv_doc received) 0 \<and>
    given_up 3 0 good_io received"
proof -
  have "pen (lv_store receiver) = Some (3, 0)" "d_version byte_docs (lv_doc receiver) 0 < d_version byte_docs (lv_doc received) 0"
    by (simp_all add: receiver_def received_def)
  with own_name_is_given_up [OF demo_apply this] show ?thesis by simp
qed

section \<open>The way over\<close>

lemma demo_apply_staged:
  assumes "staged_whole toy_hash w sk" and "sk_manifest sk = demo_bound" and "sk_hashed sk = [1, 0, 0]"
  shows "apply_staged demo_xdoc good_io (\<lambda>_. Some 1) \<lparr>rs_document = [112, 105, 110, 115], rs_source = replicate 32 1, rs_recipient = replicate 32 2\<rparr>
    (sk, sink_files w sk) receiver = (Inr import_receipt, received)"
proof -
  have body: "sg_body (sink_files w sk) = [1, 0, 0]" using assms(1,3) by (simp add: staged_whole_def)
  have b: "total_bytes demo_bound = 3" by (simp add: demo_bound_def)
  have one: "\<forall>p::nat. \<exists>k. Some (1::nat) = Some (Suc k)" by simp
  have "3 \<le> total_bytes (sk_manifest sk)" by (simp add: assms(2) b)
  note rd = read_fill_whole [OF assms(1) this, of 0 "\<lambda>_. Some 1", unfolded body]
  obtain bs where bs: "read_fill toy_hash (\<lambda>_. Some 1) (sk, sink_files w sk) 3 0 = Inr bs" using rd one by blast
  with rd have "bs = [1, 0, 0]" by (simp add: numeral_3_eq_3)
  with bs have read: "read_verified_body toy_hash (\<lambda>_. Some 1) (sk, sink_files w sk) = Inr [1, 0, 0]"
    by (simp add: read_verified_body_def whole_is_complete [OF assms(1)] assms(2) b MAX_BLOB_BYTES_def)
  have valid: "validate_body demo_xdoc demo_desc demo_bound [1, 0, 0] = Inr ()"
    using demo_binds by (simp add: validate_body_def demo_bound_def MAX_BLOB_BYTES_def toy_hash_def demo_desc_def)
  have "staged_body demo_xdoc (\<lambda>_. Some 1) \<lparr>rs_document = [112, 105, 110, 115], rs_source = replicate 32 1, rs_recipient = replicate 32 2\<rparr>
      (sk, sink_files w sk) = Inr (demo_desc, [1, 0, 0])"
    using read valid demo_bound_from whole_is_complete [OF assms(1)]
    by (simp add: staged_body_def assms(2) demo_desc_def) (simp add: demo_bound_def)
  then show ?thesis using demo_apply by (simp add: apply_staged_def demo_desc_def demo_spec_def)
qed

theorem transfer_brings_what_was_offered_witness:
  "\<exists>w' sk. prepare demo_xdoc all_writes (7, 2) (7, 2) no_open_fault (\<lambda>_. NoFault) demo_prepare ((7, 2), sender_store, empty_pile)
      new_world = (Inr (Transfer \<lparr>ob_descriptor = demo_desc, ob_slot = 0\<rparr>), ((7, 2), sender_wrote, sender_pile), w') \<and>
    apply_staged demo_xdoc good_io (\<lambda>_. Some 1) \<lparr>rs_document = [112, 105, 110, 115], rs_source = replicate 32 1, rs_recipient = replicate 32 2\<rparr>
      (sk, sink_files w' sk) receiver = (Inr import_receipt, received) \<and>
    cnt 2 \<le> d_version byte_docs (lv_doc received) \<and> covered (cnt 2) \<subseteq> durable byte_carries (lv_pile received)"
proof -
  obtain w' sk where p: "prepare demo_xdoc all_writes (7, 2) (7, 2) no_open_fault (\<lambda>_. NoFault) demo_prepare
      ((7, 2), sender_store, empty_pile) new_world =
      (Inr (Transfer \<lparr>ob_descriptor = demo_desc, ob_slot = 0\<rparr>), ((7, 2), sender_wrote, sender_pile), w')"
    and sk: "xw_sinks w' 0 = Some sk" "sk_manifest sk = demo_bound" "sk_hashed sk = [1, 0, 0]" "staged_whole toy_hash w' sk"
    by (rule demo_sends)
  note a = demo_apply_staged [OF sk(4,2,3)]
  have "new_world = run_from (xd_hash demo_xdoc) new_world []" by (simp add: run_from_def)
  from transfer_brings_what_was_offered [OF _ _ this demo_typed p _ _ _ refl a receiver_copy(2), of byte_carries counting_known]
  show ?thesis using p a sk(1) byte_docs_laws receiver_copy(1) by (auto simp: toy_hash_len)
qed

theorem outbound_chunk_is_the_bodys_witness:
  "read_chunk toy_hash (\<lambda>_. Some 1) 0 (demo_sink\<lparr>sk_offset := 3, sk_hashed := [9, 8, 7]\<rparr>, sink_files demo_appended demo_sink) =
    Inr [9, 8, 7]"
proof -
  let ?sk = "demo_sink\<lparr>sk_offset := 3, sk_hashed := [9, 8, 7]\<rparr>"
  have same: "sink_files demo_appended ?sk = sink_files demo_appended demo_sink" by (simp add: sink_files_def)
  have "progress_of toy_hash ?sk = Inr (VerifiedComplete demo_id 3)"
    by (simp add: progress_of_def toy_hash_def)
  from outbound_chunk_is_the_bodys [OF toy_hash_len _ demo_acts_run demo_append(2) this, of 0 "\<lambda>_. Some 1"]
  show ?thesis using same by (simp add: demo_acts_def demo_arrays demo_append(3) CHUNK_BYTES_def)
qed

end
