(* ===== verification/MetaJournal.thy ===== *)
theory MetaJournal
  imports Bytes RustBase
begin

text \<open>
  \<open>crates/node/src/doc_transfer_state/io.rs\<close>: the metadata of transfers as one checksummed image, written beside the
  published one and renamed over it.  blake3 is the parameter \<open>H\<close>; every system call has its outcome in the fault
  record, and a crash is a call that stops there.
\<close>

section \<open>The image\<close>

definition MAX_IMAGE :: nat where "MAX_IMAGE = 32 * 1024 * 1024"
definition META_MAGIC :: "byte list" where "META_MAGIC = map of_char ''khor-d01''"
definition META_HEADER :: nat where "META_HEADER = 8 + 8 + 8 + 32"

datatype meta_error = MetaIo | MetaInvalid string | MetaTooLarge | MetaOverflow | MetaRefused string

definition image_head :: "nat \<Rightarrow> byte list \<Rightarrow> byte list" where
  "image_head g body = META_MAGIC @ be_bytes 8 g @ be_bytes 8 (length body)"

definition meta_image :: "(byte list \<Rightarrow> byte list) \<Rightarrow> nat \<Rightarrow> byte list \<Rightarrow> byte list" where
  "meta_image H g body = image_head g body @ H (image_head g body @ body) @ body"

definition decode_meta :: "(byte list \<Rightarrow> byte list) \<Rightarrow> byte list \<Rightarrow> meta_error + nat \<times> byte list" where
  "decode_meta H bytes =
     (if length bytes < META_HEADER \<or> take 8 bytes \<noteq> META_MAGIC then Inl (MetaInvalid ''header'')
      else
        let g = from_be (take 8 (drop 8 bytes)); len = from_be (take 8 (drop 16 bytes)) in
        if g = 0 \<or> len > MAX_IMAGE \<or> length bytes \<noteq> META_HEADER + len then Inl (MetaInvalid ''length or generation'')
        else
          let body = drop META_HEADER bytes in
          if H (take 24 bytes @ body) \<noteq> take 32 (drop 24 bytes) then Inl (MetaInvalid ''checksum'')
          else Inr (g, body))"

section \<open>The directory\<close>

text \<open>\<open>mf_odd\<close>: an entry that is not the gate, the registry or the next registry, or one that is not private.\<close>

record meta_files =
  mf_registry :: "byte list option"
  mf_next :: "byte list option"
  mf_odd :: bool

definition read_optional :: "bool \<Rightarrow> byte list option \<Rightarrow> meta_error + byte list option" where
  "read_optional ok f =
     (if \<not> ok then Inl MetaIo
      else case f of
        None \<Rightarrow> Inr None
      | Some bytes \<Rightarrow> if length bytes > MAX_IMAGE + META_HEADER then Inl MetaTooLarge else Inr (Some bytes))"

record load_fault =
  lf_list :: bool
  lf_registry :: bool
  lf_next :: bool
  lf_remove :: bool
  lf_sync :: bool
  lf_rename :: bool

definition no_load_fault :: load_fault where
  "no_load_fault = \<lparr>lf_list = True, lf_registry = True, lf_next = True, lf_remove = True, lf_sync = True, lf_rename = True\<rparr>"

text \<open>Whether an unpublished image was cut off; a length that cannot be a body's is an error.\<close>

definition cut_off :: "byte list \<Rightarrow> meta_error + bool" where
  "cut_off bytes =
     (if length bytes < 24 then
        (if length bytes > 16 \<and> from_be (drop 16 bytes @ replicate (24 - length bytes) 0) > MAX_IMAGE
         then Inl (MetaInvalid ''partial length'') else Inr True)
      else
        let len = from_be (take 8 (drop 16 bytes)) in
        if len > MAX_IMAGE then Inl MetaTooLarge else Inr (length bytes < META_HEADER + len))"

text \<open>The published generation and its body.\<close>

definition read_published ::
    "(byte list \<Rightarrow> byte list) \<Rightarrow> (byte list \<Rightarrow> meta_error + unit) \<Rightarrow> bool \<Rightarrow> meta_files \<Rightarrow> meta_error + nat \<times> byte list option" where
  "read_published H valid ok f =
     and_then (read_optional ok (mf_registry f)) (\<lambda>current.
       case current of
         None \<Rightarrow> Inr (0, None)
       | Some bytes \<Rightarrow> and_then (decode_meta H bytes) (\<lambda>(g, body). and_then (valid body) (\<lambda>_. Inr (g, Some body))))"

definition load_journal ::
    "(byte list \<Rightarrow> byte list) \<Rightarrow> (byte list \<Rightarrow> meta_error + unit) \<Rightarrow> load_fault \<Rightarrow> meta_files \<Rightarrow>
     (meta_error + nat \<times> byte list option) \<times> meta_files" where
  "load_journal H valid fault f =
     (if \<not> lf_list fault then (Inl MetaIo, f)
      else if mf_odd f then (Inl (MetaInvalid ''unrecognized file''), f)
      else
        case read_published H valid (lf_registry fault) f of
          Inl e \<Rightarrow> (Inl e, f)
        | Inr (g, body) \<Rightarrow>
            (case read_optional (lf_next fault) (mf_next f) of
               Inl e \<Rightarrow> (Inl e, f)
             | Inr None \<Rightarrow> (Inr (g, body), f)
             | Inr (Some bytes) \<Rightarrow>
                 if g + 1 > u64_max then (Inl MetaOverflow, f)
                 else
                   let start = META_MAGIC @ be_bytes 8 (g + 1); n = min (length bytes) (length start) in
                   if take n bytes \<noteq> take n start then (Inl (MetaInvalid ''unrecognized publication''), f)
                   else
                     (case cut_off bytes of
                        Inl e \<Rightarrow> (Inl e, f)
                      | Inr True \<Rightarrow>
                          if \<not> lf_remove fault then (Inl MetaIo, f) else (Inr (g, body), f\<lparr>mf_next := None\<rparr>)
                      | Inr False \<Rightarrow>
                          (case and_then (decode_meta H bytes) (\<lambda>(g', body').
                              if g' \<noteq> g + 1 then Inl (MetaInvalid ''unexpected generation'')
                              else and_then (valid body') (\<lambda>_. Inr (g', body'))) of
                             Inl e \<Rightarrow> (Inl e, f)
                           | Inr (g', body') \<Rightarrow>
                               if \<not> lf_sync fault \<or> \<not> lf_rename fault then (Inl MetaIo, f)
                               else (Inr (g', Some body'), f\<lparr>mf_registry := Some bytes, mf_next := None\<rparr>)))))"

text \<open>A save that stops: at the create, after so many bytes, at the sync or the check, at the rename.\<close>

datatype save_fault = NoSaveFault | SaveCreate | SaveWrite nat | SaveSync | SaveRename

definition save_journal ::
    "(byte list \<Rightarrow> byte list) \<Rightarrow> save_fault \<Rightarrow> nat \<Rightarrow> byte list \<Rightarrow> meta_files \<Rightarrow> (meta_error + nat) \<times> meta_files" where
  "save_journal H fault g body f =
     (if length body > MAX_IMAGE then (Inl MetaTooLarge, f)
      else if g + 1 > u64_max then (Inl MetaOverflow, f)
      else if fault = SaveCreate \<or> mf_next f \<noteq> None then (Inl MetaIo, f)
      else
        let bytes = meta_image H (g + 1) body in
        case fault of
          SaveWrite k \<Rightarrow> (Inl MetaIo, f\<lparr>mf_next := Some (take k bytes)\<rparr>)
        | SaveSync \<Rightarrow> (Inl MetaIo, f\<lparr>mf_next := Some bytes\<rparr>)
        | SaveRename \<Rightarrow> (Inl MetaIo, f\<lparr>mf_next := Some bytes\<rparr>)
        | _ \<Rightarrow> (Inr (g + 1), f\<lparr>mf_registry := Some bytes, mf_next := None\<rparr>))"

section \<open>Reading without the gate\<close>

definition peek :: "(byte list \<Rightarrow> byte list) \<Rightarrow> bool \<Rightarrow> bool \<Rightarrow> bool \<Rightarrow> meta_files \<Rightarrow> meta_error + byte list option" where
  "peek H there listing ok f =
     (if \<not> there then Inr None
      else if \<not> listing then Inl MetaIo
      else if mf_odd f then Inl (MetaInvalid ''unrecognized file'')
      else and_then (read_optional ok (mf_registry f)) (\<lambda>current.
        case current of None \<Rightarrow> Inr None | Some bytes \<Rightarrow> and_then (decode_meta H bytes) (\<lambda>(g, body). Inr (Some body))))"

definition has_publication :: "bool \<Rightarrow> meta_files \<Rightarrow> meta_error + bool" where
  "has_publication ok f = (case mf_next f of Some _ \<Rightarrow> if ok then Inr True else Inl MetaIo | None \<Rightarrow> if ok then Inr False else Inl MetaIo)"

text \<open>
  \<open>publish_anchor\<close>: the root's public key, continued from a prefix that an interrupted call left.  What the last step
  gives is the new anchor, or what is left beside the old one.
\<close>

record anchor_files =
  an_anchor :: "byte list option"
  an_next :: "byte list option"
  an_unsafe :: bool

datatype anchor_fault = NoAnchorFault | AnchorDir | AnchorOpen | AnchorWrite nat | AnchorSync | AnchorRename

definition publish_anchor :: "anchor_fault \<Rightarrow> byte list \<Rightarrow> anchor_files \<Rightarrow> (meta_error + unit) \<times> anchor_files" where
  "publish_anchor fault bytes f =
     (if length bytes \<noteq> 65 \<or> last bytes \<noteq> 10 then (Inl (MetaInvalid ''invalid public anchor publication''), f)
      else if fault = AnchorDir then (Inl MetaIo, f)
      else
        let left = (case an_next f of None \<Rightarrow> [] | Some l \<Rightarrow> l) in
        if length left > MAX_IMAGE + META_HEADER then (Inl MetaTooLarge, f)
        else if length left > length bytes \<or> left \<noteq> take (length left) bytes
          then (Inl (MetaInvalid ''unknown anchor publication''), f)
        else case fault of
          AnchorOpen \<Rightarrow> (Inl MetaIo, f)
        | AnchorWrite k \<Rightarrow> (Inl MetaIo, f\<lparr>an_next := Some (take k bytes @ drop k left)\<rparr>)
        | AnchorSync \<Rightarrow> (Inl MetaIo, f\<lparr>an_next := Some bytes\<rparr>)
        | _ \<Rightarrow>
            if an_unsafe f then (Inl (MetaInvalid ''unsafe public anchor target''), f\<lparr>an_next := Some bytes\<rparr>)
            else if fault = AnchorRename then (Inl MetaIo, f\<lparr>an_next := Some bytes\<rparr>)
            else (Inr (), f\<lparr>an_anchor := Some bytes, an_next := None\<rparr>))"

end
