(* ===== verification/TransferPlan.thy ===== *)
theory TransferPlan
  imports Apply MetaJournal
begin

text \<open>
  The records of \<open>crates/node/src/doc_transfer_state.rs\<close>: the plans of what is sent, the receipts of what came in, and
  what makes them valid.  A manifest on the wire has the fields of the staged one.  The encoding of the records, the
  sizes of their rows and the pairing records beside them are parameters.
\<close>

section \<open>Errors\<close>

text \<open>The kinds; of the words only the literal ones.\<close>

datatype dt_error = DtBusy | DtInvalid string | DtStorage | DtApply | DtResource

definition from_core :: "transfer_error \<Rightarrow> dt_error" where
  "from_core e = (case e of Busy \<Rightarrow> DtBusy | ResourceLimit _ \<Rightarrow> DtResource | _ \<Rightarrow> DtStorage)"

definition from_receive :: "receive_error \<Rightarrow> dt_error" where
  "from_receive e =
     (let core = (\<lambda>c. case c of Busy \<Rightarrow> DtBusy | ResourceLimit _ \<Rightarrow> DtResource | _ \<Rightarrow> DtApply) in
      case e of ReTransfer c \<Rightarrow> core c | ReBody (BodyTransfer c) \<Rightarrow> core c | _ \<Rightarrow> DtApply)"

definition from_outbound :: "outbound_error \<Rightarrow> dt_error" where
  "from_outbound e =
     (case e of
        OutTransfer c \<Rightarrow> from_core c
      | OutStaging _ c \<Rightarrow> from_core c
      | OutBody (BodyTransfer c) \<Rightarrow> from_core c
      | OutStagingBody _ (BodyTransfer c) \<Rightarrow> from_core c
      | _ \<Rightarrow> DtStorage)"

section \<open>Manifests, proofs, acknowledgements\<close>

definition blob_core :: "manifest \<Rightarrow> dt_error + manifest" where
  "blob_core m = and_then (map_err from_core (validate m)) (\<lambda>_. Inr m)"

definition core :: "manifest \<Rightarrow> dt_error + manifest" where
  "core m = and_then (blob_core m) (\<lambda>v. and_then (map_err from_core (from_manifest v)) (\<lambda>_. Inr v))"

definition wire_id :: "(byte list \<Rightarrow> byte list) \<Rightarrow> manifest \<Rightarrow> dt_error + byte list" where
  "wire_id H m = and_then (core m) (\<lambda>v. map_err from_core (manifest_id H v))"

definition wire_descriptor :: "manifest \<Rightarrow> dt_error + descriptor" where
  "wire_descriptor m = and_then (core m) (\<lambda>v. map_err from_core (from_manifest v))"

datatype proof_kind = Applied | AlreadyHaveEquivalent

record doc_proof =
  dp_manifest :: manifest
  dp_version :: "byte list"
  dp_kind :: proof_kind

record doc_ack =
  da_manifest :: manifest
  da_hash :: "byte list"

definition proof_valid :: "doc_proof \<Rightarrow> dt_error + unit" where
  "proof_valid p =
     and_then (wire_descriptor (dp_manifest p)) (\<lambda>d.
     and_then (map_err from_core (decode_doc_version (dp_version p))) (\<lambda>v.
     if dvn_epoch v \<noteq> ds_epoch d \<or> \<not> vv_of (ds_base d) \<le> vv_of (dvn_version v) \<or> \<not> vv_of (ds_target d) \<le> vv_of (dvn_version v)
     then Inl (DtInvalid ''completion proof does not cover its fixed document target'') else Inr ()))"

definition PROOF_MAGIC :: "byte list" where "PROOF_MAGIC = map of_char ''khor-doc-proof-v1'' @ [0]"

text \<open>An id's words: two lower-case digits per byte.\<close>

definition id_words :: "byte list \<Rightarrow> byte list" where
  "id_words i = concat (map (\<lambda>b. map (\<lambda>d. of_nat (if d < 10 then 48 + d else 87 + d)) [unat b div 16, unat b mod 16]) i)"

definition proof_kind_byte :: "proof_kind \<Rightarrow> byte" where
  "proof_kind_byte k = (case k of Applied \<Rightarrow> 0 | AlreadyHaveEquivalent \<Rightarrow> 1)"

definition acknowledgement :: "(byte list \<Rightarrow> byte list) \<Rightarrow> doc_proof \<Rightarrow> dt_error + doc_ack" where
  "acknowledgement H p =
     and_then (proof_valid p) (\<lambda>_.
     and_then (wire_id H (dp_manifest p)) (\<lambda>i.
     Inr \<lparr>da_manifest = dp_manifest p, da_hash = H (PROOF_MAGIC @ id_words i @ dp_version p @ [proof_kind_byte (dp_kind p)])\<rparr>))"

section \<open>Who may send what\<close>

definition name_bytes :: "string \<Rightarrow> byte list" where "name_bytes s = map of_char s"

definition ROUND_DOCS :: "byte list list" where
  "ROUND_DOCS = map name_bytes [''devices'', ''seen'', ''pins'', ''roster'', ''dirpins'', ''workspaces'', ''webpins'',
     ''recents'', ''agents'', ''accounts'', ''titles'']"

definition channel_byte :: "byte \<Rightarrow> bool" where
  "channel_byte b = (let n = unat b in 48 \<le> n \<and> n \<le> 57 \<or> 65 \<le> n \<and> n \<le> 90 \<or> 97 \<le> n \<and> n \<le> 122 \<or> n = 95 \<or> n = 45 \<or> n = 46)"

definition valid_channel :: "byte list \<Rightarrow> bool" where
  "valid_channel n \<longleftrightarrow> n \<noteq> [] \<and> length n \<le> 128 \<and> n \<noteq> name_bytes ''.'' \<and> n \<noteq> name_bytes ''..'' \<and> list_all channel_byte n"

definition wide_name :: "byte list \<Rightarrow> byte list option" where
  "wide_name board =
     (let w = name_bytes ''wide/'' in
      if take (length w) board = w \<and> valid_channel (drop (length w) board) then Some (drop (length w) board) else None)"

definition authorized_name :: "byte list \<Rightarrow> bool" where
  "authorized_name n = (List.member ROUND_DOCS n \<or> wide_name n \<noteq> None)"

definition authorize :: "manifest \<Rightarrow> byte list \<Rightarrow> byte list \<Rightarrow> dt_error + unit" where
  "authorize m src rcp =
     (if source m \<noteq> src \<or> recipient m \<noteq> rcp then Inl (DtInvalid ''document manifest identity or direction mismatch'')
      else and_then (wire_descriptor m) (\<lambda>d.
        if \<not> authorized_name (ds_document d) then Inl (DtInvalid ''unknown document transfer name'') else Inr ()))"

section \<open>Rows\<close>

datatype out_row = OutPreparing manifest | OutReady manifest | OutAccepted doc_proof | OutNeedAck doc_proof

datatype in_row =
    InReceiving manifest
  | InImporting manifest "byte list"
  | InComplete doc_proof bool "nat option"
  | InCleanup doc_proof

fun out_manifest :: "out_row \<Rightarrow> manifest" where
  "out_manifest (OutPreparing m) = m"
| "out_manifest (OutReady m) = m"
| "out_manifest (OutAccepted p) = dp_manifest p"
| "out_manifest (OutNeedAck p) = dp_manifest p"

fun out_active :: "out_row \<Rightarrow> bool" where
  "out_active (OutPreparing _) = True"
| "out_active (OutReady _) = True"
| "out_active _ = False"

fun in_manifest :: "in_row \<Rightarrow> manifest" where
  "in_manifest (InReceiving m) = m"
| "in_manifest (InImporting m _) = m"
| "in_manifest (InComplete p _ _) = dp_manifest p"
| "in_manifest (InCleanup p) = dp_manifest p"

record 'p records =
  rc_outgoing :: "out_row list"
  rc_incoming :: "in_row list"
  rc_pairing :: 'p

definition same_preparing :: "manifest \<Rightarrow> manifest \<Rightarrow> bool" where
  "same_preparing expected actual \<longleftrightarrow> source expected = source actual \<and> recipient expected = recipient actual \<and>
     binding expected = binding actual"

section \<open>Valid records\<close>

definition MAX_STATE_ROWS :: nat where "MAX_STATE_ROWS = 64"
definition MAX_ROW_BYTES :: nat where "MAX_ROW_BYTES = 192 * 1024"

record 'p dt_env =
  de_hash :: "byte list \<Rightarrow> byte list"
  de_encode :: "'p records \<Rightarrow> byte list"
  de_decode :: "byte list \<Rightarrow> 'p records option"
  de_out_size :: "out_row \<Rightarrow> nat"
  de_in_size :: "in_row \<Rightarrow> nat"
  de_pair_valid :: "byte list \<Rightarrow> 'p \<Rightarrow> dt_error + unit"
  de_pair_refs :: "'p \<Rightarrow> manifest \<Rightarrow> bool"
  de_pair_none :: 'p

definition out_proof_valid :: "out_row \<Rightarrow> dt_error + unit" where
  "out_proof_valid r = (case r of OutAccepted p \<Rightarrow> proof_valid p | OutNeedAck p \<Rightarrow> proof_valid p | _ \<Rightarrow> Inr ())"

definition in_proof_valid :: "in_row \<Rightarrow> dt_error + unit" where
  "in_proof_valid r =
     (case r of
        InComplete p _ _ \<Rightarrow> proof_valid p
      | InCleanup p \<Rightarrow> proof_valid p
      | InImporting _ before \<Rightarrow> and_then (map_err from_core (decode_doc_version before)) (\<lambda>_. Inr ())
      | InReceiving _ \<Rightarrow> Inr ())"

fun check_outgoing ::
    "'p dt_env \<Rightarrow> byte list \<Rightarrow> out_row list \<Rightarrow> byte list list \<Rightarrow> (byte list \<times> byte list) list \<Rightarrow> dt_error + unit" where
  "check_outgoing E local [] ids active = Inr ()"
| "check_outgoing E local (r # rows) ids active =
     (let m = out_manifest r in
      and_then (authorize m local (recipient m)) (\<lambda>_.
      if de_out_size E r > MAX_ROW_BYTES then Inl (DtInvalid ''outgoing document record exceeds budget'')
      else and_then (wire_id (de_hash E) m) (\<lambda>i.
      if List.member ids i then Inl (DtInvalid ''duplicate outgoing document record'')
      else if out_active r then
        and_then (wire_descriptor m) (\<lambda>d.
        if List.member active (recipient m, ds_document d) then Inl (DtInvalid ''multiple active plans for peer/document'')
        else and_then (out_proof_valid r) (\<lambda>_. check_outgoing E local rows (i # ids) ((recipient m, ds_document d) # active)))
      else and_then (out_proof_valid r) (\<lambda>_. check_outgoing E local rows (i # ids) active))))"

fun check_incoming :: "'p dt_env \<Rightarrow> byte list \<Rightarrow> in_row list \<Rightarrow> byte list list \<Rightarrow> dt_error + unit" where
  "check_incoming E local [] ids = Inr ()"
| "check_incoming E local (r # rows) ids =
     (let m = in_manifest r in
      and_then (authorize m (source m) local) (\<lambda>_.
      if de_in_size E r > MAX_ROW_BYTES then Inl (DtInvalid ''incoming document record exceeds budget'')
      else and_then (wire_id (de_hash E) m) (\<lambda>i.
      if List.member ids i then Inl (DtInvalid ''duplicate incoming document record'')
      else and_then (in_proof_valid r) (\<lambda>_. check_incoming E local rows (i # ids)))))"

definition validate_records :: "'p dt_env \<Rightarrow> byte list \<Rightarrow> byte list \<Rightarrow> dt_error + unit" where
  "validate_records E local bytes =
     (if length bytes > MAX_IMAGE then Inl (DtInvalid ''document metadata image exceeds budget'')
      else case de_decode E bytes of
        None \<Rightarrow> Inl DtStorage
      | Some r \<Rightarrow>
          if de_encode E r \<noteq> bytes then Inl (DtInvalid ''noncanonical document transfer metadata'')
          else if length (rc_outgoing r) > MAX_STATE_ROWS \<or> length (rc_incoming r) > MAX_STATE_ROWS
            then Inl (DtInvalid ''document transfer metadata count exceeds budget'')
          else
            and_then (de_pair_valid E local (rc_pairing r)) (\<lambda>_.
            and_then (check_outgoing E local (rc_outgoing r) [] []) (\<lambda>_.
            check_incoming E local (rc_incoming r) [])))"

end
