(* ===== verification/TransferState.thy ===== *)
theory TransferState
  imports TransferPlan
begin

text \<open>
  \<open>State\<close> of \<open>crates/node/src/doc_transfer_state.rs\<close>: each call opens the metadata under its gate, does one operation
  and lets everything go.  A call that fails has changed no more than the files it had already written, so a crash is
  a call that fails there.  A document is loaded anew each time: what its directory shows is an argument.
\<close>

section \<open>The state\<close>

record 'p dt_state =
  dt_files :: meta_files
  dt_gen :: nat
  dt_recs :: "'p records"
  dt_blobs :: xfer_world

text \<open>
  The outcomes of a call: opening the gate and the stores, loading the metadata, listing the stages, and of the
  \<open>k\<close>-th save, opening of a stage and cancelling while it opens; the cancelling and the append of the operation; what
  a stage's file gives to a read; the root gate and whether a pairing waits for recovery.
\<close>

record dt_io =
  io_gate :: bool
  io_store :: bool
  io_load :: load_fault
  io_list :: "nat \<Rightarrow> bool \<times> unlinked option \<times> bool"
  io_save :: "nat \<Rightarrow> save_fault"
  io_open :: "nat \<Rightarrow> open_fault"
  io_cancel :: "nat \<Rightarrow> cancel_fault"
  io_discard :: cancel_fault
  io_append :: append_fault
  io_read :: "nat \<Rightarrow> nat option"
  io_stage :: "nat \<Rightarrow> append_fault"
  io_root :: "dt_error + bool"

definition then_do :: "('e + 'a) \<times> 's \<Rightarrow> ('a \<Rightarrow> 's \<Rightarrow> ('e + 'b) \<times> 's) \<Rightarrow> ('e + 'b) \<times> 's" where
  "then_do rs f = (case rs of (Inl e, s) \<Rightarrow> (Inl e, s) | (Inr x, s) \<Rightarrow> f x s)"

definition with_result :: "'e + 'a \<Rightarrow> ('a \<Rightarrow> 's \<Rightarrow> ('e + 'b) \<times> 's) \<Rightarrow> 's \<Rightarrow> ('e + 'b) \<times> 's" where
  "with_result r f s = (case r of Inl e \<Rightarrow> (Inl e, s) | Inr x \<Rightarrow> f x s)"

definition retained_manifests ::
    "(byte list \<Rightarrow> byte list) \<Rightarrow> bool \<times> unlinked option \<times> bool \<Rightarrow> xfer_root \<Rightarrow> (transfer_error + manifest list) \<times> xfer_root" where
  "retained_manifests H fault x =
     (case fault of (ok, clear, listing) \<Rightarrow>
      case gate ok clear x of
        (Inl e, x1) \<Rightarrow> (Inl e, x1)
      | (Inr _, x1) \<Rightarrow>
          (and_then (reservations H listing x1) (\<lambda>_.
             Inr (concat (map (\<lambda>(i, f). case read_manifest f of Inr m \<Rightarrow> [m] | Inl _ \<Rightarrow> []) (xr_stages x1)))), x1))"

definition list_blobs :: "'p dt_env \<Rightarrow> bool \<times> unlinked option \<times> bool \<Rightarrow> 'p dt_state \<Rightarrow> (dt_error + manifest list) \<times> 'p dt_state" where
  "list_blobs E fault s =
     (case retained_manifests (de_hash E) fault (xw_root (dt_blobs s)) of
        (r, x) \<Rightarrow> (map_err from_core r, s\<lparr>dt_blobs := (dt_blobs s)\<lparr>xw_root := x\<rparr>\<rparr>))"

definition cancel_blob :: "'p dt_env \<Rightarrow> cancel_fault \<Rightarrow> manifest \<Rightarrow> 'p dt_state \<Rightarrow> (dt_error + cancelled) \<times> 'p dt_state" where
  "cancel_blob E fault m s =
     with_result (core m) (\<lambda>v s.
       case cancel_stage (de_hash E) fault v (owners_of (dt_blobs s)) (xw_root (dt_blobs s)) of
         (r, x) \<Rightarrow> (map_err from_core r, s\<lparr>dt_blobs := (dt_blobs s)\<lparr>xw_root := x\<rparr>\<rparr>)) s"

text \<open>A stage that is there, opened: its slot and sink.\<close>

definition open_blob ::
    "'p dt_env \<Rightarrow> open_fault \<Rightarrow> manifest \<Rightarrow> 'p dt_state \<Rightarrow> (dt_error + (nat \<times> sink) option) \<times> 'p dt_state" where
  "open_blob E fault m s =
     with_result (core m) (\<lambda>v s.
       case open_existing (de_hash E) fault v (owners_of (dt_blobs s)) (xw_root (dt_blobs s)) of
         (Inr (Some (slot, sk)), x) \<Rightarrow>
           (Inr (Some (slot, sk)), s\<lparr>dt_blobs := (dt_blobs s)\<lparr>xw_root := x, xw_sinks := (xw_sinks (dt_blobs s))(slot := Some sk)\<rparr>\<rparr>)
       | (r, x) \<Rightarrow> (map_err from_core r, s\<lparr>dt_blobs := (dt_blobs s)\<lparr>xw_root := x\<rparr>\<rparr>)) s"

definition drop_blob :: "nat \<Rightarrow> 'p dt_state \<Rightarrow> 'p dt_state" where
  "drop_blob slot s = s\<lparr>dt_blobs := drop_sink slot (dt_blobs s)\<rparr>"

definition set_out :: "out_row list \<Rightarrow> 'p dt_state \<Rightarrow> 'p dt_state" where
  "set_out rows s = s\<lparr>dt_recs := (dt_recs s)\<lparr>rc_outgoing := rows\<rparr>\<rparr>"

definition set_in :: "in_row list \<Rightarrow> 'p dt_state \<Rightarrow> 'p dt_state" where
  "set_in rows s = s\<lparr>dt_recs := (dt_recs s)\<lparr>rc_incoming := rows\<rparr>\<rparr>"

definition save :: "'p dt_env \<Rightarrow> save_fault \<Rightarrow> byte list \<Rightarrow> 'p dt_state \<Rightarrow> (dt_error + unit) \<times> 'p dt_state" where
  "save E fault local s =
     (let bytes = de_encode E (dt_recs s) in
      case validate_records E local bytes of
        Inl e \<Rightarrow> (Inl e, s)
      | Inr _ \<Rightarrow>
          (case save_journal (de_hash E) fault (dt_gen s) bytes (dt_files s) of
             (Inl e, f) \<Rightarrow> (Inl DtStorage, s\<lparr>dt_files := f\<rparr>)
           | (Inr g, f) \<Rightarrow> (Inr (), s\<lparr>dt_files := f, dt_gen := g\<rparr>)))"

fun row_position :: "('a \<Rightarrow> bool) \<Rightarrow> 'a list \<Rightarrow> nat option" where
  "row_position P [] = None"
| "row_position P (x # xs) = (if P x then Some 0 else map_option Suc (row_position P xs))"

definition remove_at :: "nat \<Rightarrow> 'a list \<Rightarrow> 'a list" where
  "remove_at i xs = take i xs @ drop (Suc i) xs"

section \<open>Opening\<close>

definition reconcile_references :: "'p dt_env \<Rightarrow> dt_io \<Rightarrow> 'p dt_state \<Rightarrow> (dt_error + unit) \<times> 'p dt_state" where
  "reconcile_references E io s =
     then_do (list_blobs E (io_list io 0) s) (\<lambda>ms s.
       if list_all (\<lambda>m. list_ex (\<lambda>r. in_manifest r = m) (rc_incoming (dt_recs s)) \<or>
            list_ex (\<lambda>r. case r of OutPreparing expected \<Rightarrow> same_preparing expected m | _ \<Rightarrow> out_manifest r = m)
              (rc_outgoing (dt_recs s)) \<or> de_pair_refs E (rc_pairing (dt_recs s)) m) ms
       then (Inr (), s)
       else (Inl (DtInvalid ''unreferenced retained document stage; explicit reconciliation required''), s))"

text \<open>The bodies of accepted plans are let go; the rows then only wait for their acknowledgement.\<close>

fun recover_out ::
    "'p dt_env \<Rightarrow> dt_io \<Rightarrow> nat \<Rightarrow> out_row list \<Rightarrow> 'p dt_state \<Rightarrow> (dt_error + out_row list \<times> bool) \<times> 'p dt_state" where
  "recover_out E io k [] s = (Inr ([], False), s)"
| "recover_out E io k (OutAccepted p # rows) s =
     then_do (cancel_blob E (io_cancel io k) (dp_manifest p) s) (\<lambda>_ s.
     then_do (recover_out E io (Suc k) rows s) (\<lambda>(rest, _) s. (Inr (OutNeedAck p # rest, True), s)))"
| "recover_out E io k (r # rows) s =
     then_do (recover_out E io (Suc k) rows s) (\<lambda>(rest, changed) s. (Inr (r # rest, changed), s))"

fun recover_in :: "'p dt_env \<Rightarrow> dt_io \<Rightarrow> nat \<Rightarrow> manifest list \<Rightarrow> 'p dt_state \<Rightarrow> (dt_error + unit) \<times> 'p dt_state" where
  "recover_in E io k [] s = (Inr (), s)"
| "recover_in E io k (m # ms) s =
     then_do (cancel_blob E (io_cancel io k) m s) (\<lambda>_ s.
     recover_in E io (Suc k) ms (set_in (filter (\<lambda>r. in_manifest r \<noteq> m) (rc_incoming (dt_recs s))) s))"

definition cleanups :: "in_row list \<Rightarrow> manifest list" where
  "cleanups rows = concat (map (\<lambda>r. case r of InCleanup p \<Rightarrow> [dp_manifest p] | _ \<Rightarrow> []) rows)"

definition recover_completed_cleanup ::
    "'p dt_env \<Rightarrow> dt_io \<Rightarrow> byte list \<Rightarrow> 'p dt_state \<Rightarrow> (dt_error + unit) \<times> 'p dt_state" where
  "recover_completed_cleanup E io local s =
     then_do (recover_out E io 0 (rc_outgoing (dt_recs s)) s) (\<lambda>(rows, changed) s.
     let s = set_out rows s; ms = cleanups (rc_incoming (dt_recs s)) in
     then_do (recover_in E io (length rows) ms s) (\<lambda>_ s.
     if changed \<or> ms \<noteq> [] then save E (io_save io 0) local s else (Inr (), s)))"

definition meta_valid :: "'p dt_env \<Rightarrow> byte list \<Rightarrow> byte list \<Rightarrow> meta_error + unit" where
  "meta_valid E local bytes = map_err (\<lambda>_. MetaRefused '''') (validate_records E local bytes)"

definition no_records :: "'p dt_env \<Rightarrow> 'p records" where
  "no_records E = \<lparr>rc_outgoing = [], rc_incoming = [], rc_pairing = de_pair_none E\<rparr>"

definition open_state ::
    "'p dt_env \<Rightarrow> dt_io \<Rightarrow> byte list \<Rightarrow> meta_files \<Rightarrow> xfer_world \<Rightarrow> (dt_error + unit) \<times> 'p dt_state" where
  "open_state E io local files blobs =
     (let s0 = \<lparr>dt_files = files, dt_gen = 0, dt_recs = no_records E, dt_blobs = blobs\<rparr> in
      if \<not> io_gate io then (Inl DtBusy, s0)
      else case load_journal (de_hash E) (meta_valid E local) (io_load io) files of
        (Inl e, f) \<Rightarrow> (Inl DtStorage, s0\<lparr>dt_files := f\<rparr>)
      | (Inr (g, body), f) \<Rightarrow>
          (case (case body of None \<Rightarrow> Some (no_records E) | Some bytes \<Rightarrow> de_decode E bytes) of
             None \<Rightarrow> (Inl DtStorage, s0\<lparr>dt_files := f\<rparr>)
           | Some recs \<Rightarrow>
               let s = \<lparr>dt_files = f, dt_gen = g, dt_recs = recs, dt_blobs = blobs\<rparr> in
               if \<not> io_store io then (Inl DtStorage, s)
               else then_do (reconcile_references E io s) (\<lambda>_ s. recover_completed_cleanup E io local s)))"

section \<open>Sending\<close>

record doc_chunk =
  ch_manifest :: manifest
  ch_offset :: nat
  ch_bytes :: "byte list"

text \<open>What a document's directory shows when it is loaded for its version; the \<open>k\<close>-th time in a call.\<close>

type_synonym looks = "nat \<Rightarrow> byte list \<Rightarrow> dt_error + document_version"

definition read_stage ::
    "'p dt_env \<Rightarrow> dt_io \<Rightarrow> nat \<Rightarrow> manifest \<Rightarrow> sink \<times> stage \<Rightarrow> dt_error + byte list" where
  "read_stage E io offset m ss =
     and_then (map_err from_core (progress_of (de_hash E) (fst ss))) (\<lambda>p.
       case p of
         Stored _ \<Rightarrow> Inl DtStorage
       | VerifiedComplete _ _ \<Rightarrow>
           if offset > total_bytes m \<or> offset \<noteq> total_bytes m \<and> offset mod CHUNK_BYTES \<noteq> 0 then Inl DtStorage
           else map_err from_core
             (read_fill (de_hash E) (io_read io) ss (offset + min (total_bytes m - offset) CHUNK_BYTES) offset))"

definition read_outgoing ::
    "'p dt_env \<Rightarrow> dt_io \<Rightarrow> nat \<Rightarrow> looks \<Rightarrow> byte list \<Rightarrow> byte list \<Rightarrow> manifest \<Rightarrow> nat \<Rightarrow> 'p dt_state \<Rightarrow>
     (dt_error + doc_chunk) \<times> 'p dt_state" where
  "read_outgoing E io k look local remote m offset s =
     with_result (authorize m local remote) (\<lambda>_ s.
     if \<not> list_ex (\<lambda>r. r = OutReady m) (rc_outgoing (dt_recs s)) then (Inl (DtInvalid ''unknown outgoing document plan''), s)
     else
       with_result (wire_descriptor m) (\<lambda>d s.
       with_result (look k (ds_document d)) (\<lambda>v s.
       if dvn_epoch v \<noteq> ds_epoch d then (Inl (DtInvalid ''outgoing document epoch changed''), s)
       else then_do (open_blob E (io_open io k) m s) (\<lambda>o' s.
         case o' of
           None \<Rightarrow> (Inl (DtInvalid ''outgoing document body is missing''), s)
         | Some (slot, sk) \<Rightarrow>
             (case read_stage E io offset m (sk, sink_files (dt_blobs s) sk) of
                Inl e \<Rightarrow> (Inl e, drop_blob slot s)
              | Inr bytes \<Rightarrow> (Inr \<lparr>ch_manifest = m, ch_offset = offset, ch_bytes = bytes\<rparr>, drop_blob slot s)))) s) s) s"

definition plan_for :: "byte list \<Rightarrow> byte list \<Rightarrow> out_row \<Rightarrow> bool" where
  "plan_for remote name r \<longleftrightarrow> out_active r \<and> recipient (out_manifest r) = remote \<and>
     (case wire_descriptor (out_manifest r) of Inr d \<Rightarrow> ds_document d = name | Inl _ \<Rightarrow> False)"

text \<open>An unfinished preparation of an earlier call: adopted when its body is whole, let go when not.\<close>

definition resume_preparing ::
    "'p dt_env \<Rightarrow> dt_io \<Rightarrow> looks \<Rightarrow> byte list \<Rightarrow> byte list \<Rightarrow> nat \<Rightarrow> manifest \<Rightarrow> 'p dt_state \<Rightarrow>
     (dt_error + doc_chunk option) \<times> 'p dt_state" where
  "resume_preparing E io look local remote i expected s =
     then_do (list_blobs E (io_list io 1) s) (\<lambda>ms s.
     let remove = (\<lambda>s. then_do (save E (io_save io 2) local (set_out (remove_at i (rc_outgoing (dt_recs s))) s)) (\<lambda>_ s. (Inr None, s))) in
     case filter (same_preparing expected) ms of
       [] \<Rightarrow> remove s
     | m # more_ms \<Rightarrow>
         if more_ms \<noteq> [] then (Inl (DtInvalid ''ambiguous prepared document stages; reconciliation required''), s)
         else then_do (open_blob E (io_open io 0) m s) (\<lambda>o' s.
           case o' of
             None \<Rightarrow> (Inl (DtInvalid ''prepared stage disappeared''), s)
           | Some (slot, sk) \<Rightarrow>
               (case progress_of (de_hash E) sk of
                  Inl e \<Rightarrow> (Inl (from_core e), drop_blob slot s)
                | Inr (VerifiedComplete _ _) \<Rightarrow>
                    then_do (save E (io_save io 1) local (set_out ((rc_outgoing (dt_recs s))[i := OutReady m]) (drop_blob slot s))) (\<lambda>_ s.
                    then_do (read_outgoing E io 1 look local remote m 0 s) (\<lambda>c s. (Inr (Some c), s)))
                | Inr (Stored _) \<Rightarrow>
                    then_do (cancel_blob E (io_discard io) m (drop_blob slot s)) (\<lambda>_ s. remove s))))"

definition offer_active ::
    "'p dt_env \<Rightarrow> dt_io \<Rightarrow> looks \<Rightarrow> byte list \<Rightarrow> byte list \<Rightarrow> byte list \<Rightarrow> document_version \<Rightarrow> doc_encoding \<Rightarrow> 'p dt_state \<Rightarrow>
     (dt_error + doc_chunk option) \<times> 'p dt_state" where
  "offer_active E io look local remote name have' encoding s =
     (case row_position (plan_for remote name) (rc_outgoing (dt_recs s)) of
        None \<Rightarrow> (Inr None, s)
      | Some i \<Rightarrow>
          let row = rc_outgoing (dt_recs s) ! i in
          with_result
            (if encoding = Snapshot then
               and_then (wire_descriptor (out_manifest row)) (\<lambda>d.
               if ds_encoding d \<noteq> encoding \<or> ds_epoch d \<noteq> dvn_epoch have' \<or> vv_of (ds_base d) \<noteq> vv_of (dvn_version have')
               then Inl DtBusy else Inr ())
             else Inr ()) (\<lambda>_ s.
          case row of
            OutReady m \<Rightarrow> then_do (read_outgoing E io 1 look local remote m 0 s) (\<lambda>c s. (Inr (Some c), s))
          | OutPreparing expected \<Rightarrow> resume_preparing E io look local remote i expected s
          | _ \<Rightarrow> (Inr None, s)) s)"

definition remove_preparing :: "manifest \<Rightarrow> 'p dt_state \<Rightarrow> 'p dt_state" where
  "remove_preparing expected s = set_out (filter (\<lambda>r. r \<noteq> OutPreparing expected) (rc_outgoing (dt_recs s))) s"

text \<open>
  A new plan: written down before anything is staged.  The document is loaded (or the load fails); \<open>pio\<close> are the
  outcomes of its flush, \<open>again\<close> and \<open>again2\<close> what it is when looked at again.
\<close>

definition offer_new ::
    "'p dt_env \<Rightarrow> 'd xdoc \<Rightarrow> dt_io \<Rightarrow> (nat \<Rightarrow> bool) \<Rightarrow> dt_error option \<Rightarrow> 'd \<Rightarrow> 'd \<Rightarrow> byte list \<Rightarrow> byte list \<Rightarrow> byte list \<Rightarrow>
     document_version \<Rightarrow> doc_encoding \<Rightarrow> ('d, byte list) copy \<Rightarrow> 'p dt_state \<Rightarrow>
     (dt_error + doc_chunk option) \<times> 'p dt_state \<times> ('d, byte list) copy" where
  "offer_new E X io pio fail again again2 local remote name have' encoding c s =
     (case (fail, c) of
        (Some e, _) \<Rightarrow> (Inl e, s, c)
      | (None, (d, st, p)) \<Rightarrow>
          if st_epoch st \<noteq> dvn_epoch have' then (Inl (DtInvalid ''document epochs differ''), s, c)
          else case bind_doc \<lparr>ds_document = name, ds_epoch = st_epoch st, ds_encoding = encoding, ds_base = dvn_version have',
              ds_target = xd_version X d\<rparr> local remote 0 (replicate 32 0) of
            Inl e \<Rightarrow> (Inl (from_core e), s, c)
          | Inr expected \<Rightarrow>
              (case save E (io_save io 3) local (set_out (rc_outgoing (dt_recs s) @ [OutPreparing expected]) s) of
                 (Inl e, s) \<Rightarrow> (Inl e, s, c)
               | (Inr _, s) \<Rightarrow>
                   (case prepare X pio again again2 (io_open io 2) (io_stage io)
                       \<lparr>ps_document = name, ps_source = local, ps_recipient = remote, ps_receiver_epoch = dvn_epoch have',
                         ps_base = dvn_version have', ps_encoding = encoding\<rparr> c (dt_blobs s) of
                      (Inl e, c', w) \<Rightarrow> (Inl (from_outbound e), s\<lparr>dt_blobs := w\<rparr>, c')
                    | (Inr (UpToDate _ _), c', w) \<Rightarrow>
                        (case save E (io_save io 4) local (remove_preparing expected (s\<lparr>dt_blobs := w\<rparr>)) of
                           (r, s) \<Rightarrow> (and_then r (\<lambda>_. Inr None), s, c'))
                    | (Inr (Transfer ob), c', w) \<Rightarrow>
                        let s = s\<lparr>dt_blobs := w\<rparr> in
                        (case xw_sinks w (ob_slot ob) of
                           None \<Rightarrow> (Inl DtStorage, s, c')
                         | Some sk \<Rightarrow>
                             let m = sk_manifest sk in
                             if \<not> same_preparing expected m
                             then (Inl (DtInvalid ''prepared target changed''), drop_blob (ob_slot ob) s, c')
                             else case read_chunk (de_hash E) (io_read io) 0 (sk, sink_files w sk) of
                               Inl e \<Rightarrow> (Inl (from_core e), drop_blob (ob_slot ob) s, c')
                             | Inr bytes \<Rightarrow>
                                 let s1 = remove_preparing expected s in
                                 (case save E (io_save io 4) local (set_out (rc_outgoing (dt_recs s1) @ [OutReady m]) s1) of
                                    (r, s2) \<Rightarrow>
                                      (and_then r (\<lambda>_. Inr (Some \<lparr>ch_manifest = m, ch_offset = 0, ch_bytes = bytes\<rparr>)),
                                       drop_blob (ob_slot ob) s2, c'))))))"

definition offer_encoded ::
    "'p dt_env \<Rightarrow> 'd xdoc \<Rightarrow> dt_io \<Rightarrow> (nat \<Rightarrow> bool) \<Rightarrow> looks \<Rightarrow> dt_error option \<Rightarrow> 'd \<Rightarrow> 'd \<Rightarrow> byte list \<Rightarrow> byte list \<Rightarrow>
     byte list \<Rightarrow> document_version \<Rightarrow> doc_encoding \<Rightarrow> ('d, byte list) copy \<Rightarrow> 'p dt_state \<Rightarrow>
     (dt_error + doc_chunk option) \<times> 'p dt_state \<times> ('d, byte list) copy" where
  "offer_encoded E X io pio look fail again again2 local remote name have' encoding c s =
     (case offer_active E io look local remote name have' encoding s of
        (Inl e, s) \<Rightarrow> (Inl e, s, c)
      | (Inr (Some chunk), s) \<Rightarrow> (Inr (Some chunk), s, c)
      | (Inr None, s) \<Rightarrow> offer_new E X io pio fail again again2 local remote name have' encoding c s)"

section \<open>Receiving\<close>

datatype transfer_state = TsMissing | TsStored nat | TsComplete doc_proof | TsApart nat nat

definition has_row :: "manifest \<Rightarrow> 'p dt_state \<Rightarrow> bool" where
  "has_row m s = list_ex (\<lambda>r. in_manifest r = m) (rc_incoming (dt_recs s))"

definition row_of :: "manifest \<Rightarrow> 'p dt_state \<Rightarrow> nat option" where
  "row_of m s = row_position (\<lambda>r. in_manifest r = m) (rc_incoming (dt_recs s))"

text \<open>A receipt that is there is given again; one is written when the document has the target by other ways.\<close>

definition completed ::
    "'p dt_env \<Rightarrow> dt_io \<Rightarrow> byte list \<Rightarrow> manifest \<Rightarrow> document_version \<Rightarrow> 'p dt_state \<Rightarrow>
     (dt_error + transfer_state option) \<times> 'p dt_state" where
  "completed E io local m version s =
     with_result (wire_descriptor m) (\<lambda>d s.
     let i = row_of m s; row = map_option (\<lambda>k. rc_incoming (dt_recs s) ! k) i in
     case row of
       Some (InComplete proof notify gone) \<Rightarrow>
         with_result (map_err from_core (decode_doc_version (dp_version proof))) (\<lambda>saved s.
           if \<not> vv_of (dvn_version saved) \<le> vv_of (dvn_version version)
           then (Inl (DtInvalid ''persisted receipt version is no longer present; reconciliation required''), s)
           else (Inr (Some (TsComplete proof)), s)) s
     | _ \<Rightarrow>
         if \<not> vv_of (ds_base d) \<le> vv_of (dvn_version version) \<or> \<not> vv_of (ds_target d) \<le> vv_of (dvn_version version)
         then (Inr None, s)
         else
           with_result
             (case row of
                Some (InImporting _ before) \<Rightarrow>
                  and_then (map_err from_core (decode_doc_version before)) (\<lambda>b.
                    Inr (vv_of (dvn_version b) \<noteq> vv_of (dvn_version version)))
              | _ \<Rightarrow> Inr False) (\<lambda>changed s.
           with_result (map_err from_core (encode_version version)) (\<lambda>bytes s.
             let proof = \<lparr>dp_manifest = m, dp_version = bytes, dp_kind = AlreadyHaveEquivalent\<rparr>;
                 complete = InComplete proof changed None;
                 rows = (case i of Some k \<Rightarrow> (rc_incoming (dt_recs s))[k := complete] | None \<Rightarrow> rc_incoming (dt_recs s) @ [complete]) in
             then_do (save E (io_save io 5) local (set_in rows s)) (\<lambda>_ s. (Inr (Some (TsComplete proof)), s))) s) s) s"

text \<open>The live import of a complete stage.  The trust document only changes under the root gate.\<close>

definition context_apply ::
    "'d xdoc \<Rightarrow> dt_io \<Rightarrow> apply_io \<Rightarrow> dt_error option \<Rightarrow> byte list \<Rightarrow> byte list \<Rightarrow> byte list \<Rightarrow> sink \<times> stage \<Rightarrow>
     ('d, byte list) live \<Rightarrow> (dt_error + document_version \<times> bool \<times> nat option) \<times> ('d, byte list) live" where
  "context_apply X io aio fail local remote name ss l =
     (case (if name \<noteq> name_bytes ''devices'' then Inr ()
            else case io_root io of Inl e \<Rightarrow> Inl e | Inr needs \<Rightarrow> if needs then Inl DtBusy else Inr ()) of
        Inl e \<Rightarrow> (Inl e, l)
      | Inr _ \<Rightarrow>
          (case fail of
             Some e \<Rightarrow> (Inl e, l)
           | None \<Rightarrow>
               (case apply_staged X aio (io_read io) \<lparr>rs_document = name, rs_source = remote, rs_recipient = local\<rparr> ss l of
                  (Inl e, l') \<Rightarrow> (Inl (from_receive e), l')
                | (Inr fi, l') \<Rightarrow>
                    (Inr (\<lparr>dvn_epoch = fi_epoch fi, dvn_version = xd_version X (lv_doc l')\<rparr>,
                       d_version (xd_ops X) (lv_doc l) \<noteq> fi_version fi, fi_retired fi), l'))))"

text \<open>The stage a chunk goes to: made when this may begin a transfer, else only one that is there.\<close>

definition receive_blob ::
    "'p dt_env \<Rightarrow> dt_io \<Rightarrow> manifest \<Rightarrow> bool \<Rightarrow> 'p dt_state \<Rightarrow> (dt_error + (nat \<times> sink) option) \<times> 'p dt_state" where
  "receive_blob E io m create s =
     (if \<not> create then open_blob E (io_open io 0) m s
      else with_result (core m) (\<lambda>v s.
        case receive_stage (de_hash E) (io_open io 0) v (owners_of (dt_blobs s)) (xw_root (dt_blobs s)) of
          (Inr (slot, sk), x) \<Rightarrow>
            (Inr (Some (slot, sk)), s\<lparr>dt_blobs := (dt_blobs s)\<lparr>xw_root := x, xw_sinks := (xw_sinks (dt_blobs s))(slot := Some sk)\<rparr>\<rparr>)
        | (Inl e, x) \<Rightarrow> (Inl (from_core e), s\<lparr>dt_blobs := (dt_blobs s)\<lparr>xw_root := x\<rparr>\<rparr>)) s)"

text \<open>After the last chunk: the import is announced in the records, done, and its receipt written.\<close>

definition import_stage ::
    "'p dt_env \<Rightarrow> 'd xdoc \<Rightarrow> dt_io \<Rightarrow> looks \<Rightarrow> apply_io \<Rightarrow> dt_error option \<Rightarrow> byte list \<Rightarrow> byte list \<Rightarrow> manifest \<Rightarrow> byte list \<Rightarrow>
     nat \<Rightarrow> ('d, byte list) live \<Rightarrow> 'p dt_state \<Rightarrow> (dt_error + transfer_state) \<times> 'p dt_state \<times> ('d, byte list) live" where
  "import_stage E X io look aio fail local remote m name slot l s =
     (case look 1 name of
        Inl e \<Rightarrow> (Inl e, drop_blob slot s, l)
      | Inr before \<Rightarrow>
          (case row_of m s of
             None \<Rightarrow> (Inl (DtInvalid ''incoming record disappeared''), drop_blob slot s, l)
           | Some i \<Rightarrow>
               (case map_err from_core (encode_version before) of
                  Inl e \<Rightarrow> (Inl e, drop_blob slot s, l)
                | Inr bytes \<Rightarrow>
                    (case save E (io_save io 2) local (set_in ((rc_incoming (dt_recs s))[i := InImporting m bytes]) s) of
                       (Inl e, s) \<Rightarrow> (Inl e, drop_blob slot s, l)
                     | (Inr _, s) \<Rightarrow>
                         (case xw_sinks (dt_blobs s) slot of
                            None \<Rightarrow> (Inl DtStorage, s, l)
                          | Some sk \<Rightarrow>
                              (case context_apply X io aio fail local remote name (sk, sink_files (dt_blobs s) sk) l of
                                 (Inl e, l') \<Rightarrow> (Inl e, drop_blob slot s, l')
                               | (Inr (version, changed, gone), l') \<Rightarrow>
                                   let s = drop_blob slot s in
                                   (case map_err from_core (encode_version version) of
                                      Inl e \<Rightarrow> (Inl e, s, l')
                                    | Inr out \<Rightarrow>
                                        let proof = \<lparr>dp_manifest = m, dp_version = out, dp_kind = Applied\<rparr> in
                                        (case save E (io_save io 3) local
                                            (set_in ((rc_incoming (dt_recs s))[i := InComplete proof changed gone]) s) of
                                           (r, s) \<Rightarrow> (and_then r (\<lambda>_. Inr (TsComplete proof)), s, l')))))))))"

text \<open>The chunk written; the row is in the records before a stage is made for it.\<close>

definition store_chunk ::
    "'p dt_env \<Rightarrow> dt_io \<Rightarrow> byte list \<Rightarrow> doc_chunk \<Rightarrow> byte list \<Rightarrow> bool \<Rightarrow> 'p dt_state \<Rightarrow>
     (dt_error + transfer_state + nat \<times> byte list) \<times> 'p dt_state" where
  "store_chunk E io local chunk name create s =
     (let m = ch_manifest chunk in
      if row_of m s = None \<and> \<not> create then (Inr (Inl TsMissing), s)
      else
        then_do (if row_of m s = None then save E (io_save io 1) local (set_in (rc_incoming (dt_recs s) @ [InReceiving m]) s)
                 else (Inr (), s)) (\<lambda>_ s.
        then_do (receive_blob E io m create s) (\<lambda>o' s.
        case o' of
          None \<Rightarrow> (Inr (Inl TsMissing), s)
        | Some (slot, sk) \<Rightarrow>
            (case append_at (de_hash E) (io_append io) slot (ch_offset chunk) (ch_bytes chunk) (dt_blobs s) of
               (Some (Inr (Stored n)), w) \<Rightarrow> (Inr (Inl (TsStored n)), drop_blob slot (s\<lparr>dt_blobs := w\<rparr>))
             | (Some (Inr (VerifiedComplete _ _)), w) \<Rightarrow> (Inr (Inr (slot, name)), s\<lparr>dt_blobs := w\<rparr>)
             | (Some (Inl e), w) \<Rightarrow> (Inl (from_core e), drop_blob slot (s\<lparr>dt_blobs := w\<rparr>))
             | (None, w) \<Rightarrow> (Inl DtStorage, s\<lparr>dt_blobs := w\<rparr>)))))"

text \<open>All of a chunk but the import: an answer, or the whole stage's slot and the document.\<close>

definition receive_chunk ::
    "'p dt_env \<Rightarrow> dt_io \<Rightarrow> looks \<Rightarrow> byte list \<Rightarrow> byte list \<Rightarrow> doc_chunk \<Rightarrow> bool \<Rightarrow> 'p dt_state \<Rightarrow>
     (dt_error + transfer_state + nat \<times> byte list) \<times> 'p dt_state" where
  "receive_chunk E io look local remote chunk create s =
     (let m = ch_manifest chunk in
      with_result (authorize m remote local) (\<lambda>_ s.
      with_result (wire_descriptor m) (\<lambda>d s.
      if \<not> create \<and> \<not> has_row m s then (Inr (Inl TsMissing), s)
      else with_result (look 0 (ds_document d)) (\<lambda>version s.
      if dvn_epoch version \<noteq> ds_epoch d then (Inr (Inl (TsApart (ds_epoch d) (dvn_epoch version))), s)
      else then_do (completed E io local m version s) (\<lambda>complete s.
      case complete of
        Some t \<Rightarrow> (Inr (Inl t), s)
      | None \<Rightarrow> store_chunk E io local chunk (ds_document d) create s)) s) s) s)"

definition receive_doc ::
    "'p dt_env \<Rightarrow> 'd xdoc \<Rightarrow> dt_io \<Rightarrow> looks \<Rightarrow> apply_io \<Rightarrow> dt_error option \<Rightarrow> byte list \<Rightarrow> byte list \<Rightarrow> doc_chunk \<Rightarrow> bool \<Rightarrow>
     ('d, byte list) live \<Rightarrow> 'p dt_state \<Rightarrow> (dt_error + transfer_state) \<times> 'p dt_state \<times> ('d, byte list) live" where
  "receive_doc E X io look aio fail local remote chunk create l s =
     (case receive_chunk E io look local remote chunk create s of
        (Inl e, s) \<Rightarrow> (Inl e, s, l)
      | (Inr (Inl t), s) \<Rightarrow> (Inr t, s, l)
      | (Inr (Inr (slot, name)), s) \<Rightarrow> import_stage E X io look aio fail local remote (ch_manifest chunk) name slot l s)"

definition status ::
    "'p dt_env \<Rightarrow> dt_io \<Rightarrow> looks \<Rightarrow> byte list \<Rightarrow> byte list \<Rightarrow> manifest \<Rightarrow> 'p dt_state \<Rightarrow> (dt_error + transfer_state) \<times> 'p dt_state" where
  "status E io look local remote m s =
     with_result (authorize m remote local) (\<lambda>_ s.
     with_result (wire_descriptor m) (\<lambda>d s.
     with_result (look 0 (ds_document d)) (\<lambda>version s.
     if dvn_epoch version \<noteq> ds_epoch d then (Inr (TsApart (ds_epoch d) (dvn_epoch version)), s)
     else then_do (completed E io local m version s) (\<lambda>complete s.
       case complete of
         Some t \<Rightarrow> (Inr t, s)
       | None \<Rightarrow>
           if \<not> has_row m s then (Inr TsMissing, s)
           else then_do (open_blob E (io_open io 0) m s) (\<lambda>o' s.
             case o' of
               None \<Rightarrow> (Inr TsMissing, s)
             | Some (slot, sk) \<Rightarrow> (Inr (TsStored (sk_offset sk)), drop_blob slot s)))) s) s) s"

definition incoming_offset :: "'p dt_env \<Rightarrow> dt_io \<Rightarrow> manifest \<Rightarrow> 'p dt_state \<Rightarrow> (dt_error + nat) \<times> 'p dt_state" where
  "incoming_offset E io m s =
     (if \<not> has_row m s then (Inr 0, s)
      else then_do (open_blob E (io_open io 0) m s) (\<lambda>o' s.
        case o' of
          None \<Rightarrow> (Inr 0, s)
        | Some (slot, sk) \<Rightarrow> (Inr (sk_offset sk), drop_blob slot s)))"

section \<open>Completions\<close>

definition validate_completion :: "looks \<Rightarrow> byte list \<Rightarrow> byte list \<Rightarrow> doc_proof \<Rightarrow> dt_error + unit" where
  "validate_completion look local remote p =
     and_then (proof_valid p) (\<lambda>_.
     and_then (authorize (dp_manifest p) local remote) (\<lambda>_.
     and_then (wire_descriptor (dp_manifest p)) (\<lambda>d.
     and_then (look 0 (ds_document d)) (\<lambda>v.
     if dvn_epoch v \<noteq> ds_epoch d \<or> \<not> vv_of (ds_target d) \<le> vv_of (dvn_version v)
     then Inl (DtInvalid ''outgoing completion belongs to an obsolete source version'') else Inr ()))))"

definition accept_checked ::
    "'p dt_env \<Rightarrow> dt_io \<Rightarrow> byte list \<Rightarrow> doc_proof \<Rightarrow> bool \<Rightarrow> 'p dt_state \<Rightarrow> (dt_error + doc_ack) \<times> 'p dt_state" where
  "accept_checked E io local p confirmation s =
     with_result (wire_id (de_hash E) (dp_manifest p)) (\<lambda>_ s.
     case row_position (\<lambda>r. out_manifest r = dp_manifest p) (rc_outgoing (dt_recs s)) of
       Some i \<Rightarrow>
         then_do (save E (io_save io 1) local (set_out ((rc_outgoing (dt_recs s))[i := OutAccepted p]) s)) (\<lambda>_ s.
         then_do (cancel_blob E (io_discard io) (dp_manifest p) s) (\<lambda>_ s.
         then_do (save E (io_save io 2) local
             (set_out (if confirmation then remove_at i (rc_outgoing (dt_recs s))
                       else (rc_outgoing (dt_recs s))[i := OutNeedAck p]) s)) (\<lambda>_ s.
         (acknowledgement (de_hash E) p, s))))
     | None \<Rightarrow>
         if \<not> confirmation then (Inl DtStorage, s) else (acknowledgement (de_hash E) p, s)) s"

definition accept_proof ::
    "'p dt_env \<Rightarrow> dt_io \<Rightarrow> looks \<Rightarrow> byte list \<Rightarrow> byte list \<Rightarrow> doc_proof \<Rightarrow> bool \<Rightarrow> 'p dt_state \<Rightarrow> (dt_error + doc_ack) \<times> 'p dt_state" where
  "accept_proof E io look local remote p confirmation s =
     with_result (validate_completion look local remote p) (\<lambda>_ s. accept_checked E io local p confirmation s) s"

definition accept_sent ::
    "'p dt_env \<Rightarrow> dt_io \<Rightarrow> looks \<Rightarrow> byte list \<Rightarrow> byte list \<Rightarrow> manifest \<Rightarrow> doc_proof \<Rightarrow> 'p dt_state \<Rightarrow> (dt_error + doc_ack) \<times> 'p dt_state" where
  "accept_sent E io look local remote sent p s =
     (if sent \<noteq> dp_manifest p then (Inl (DtInvalid ''completion does not bind the active outgoing manifest''), s)
      else with_result (validate_completion look local remote p) (\<lambda>_ s.
        if list_ex (\<lambda>r. out_manifest r = sent) (rc_outgoing (dt_recs s)) then accept_checked E io local p False s
        else with_result (acknowledgement (de_hash E) p) (\<lambda>a s.
          then_do (save E (io_save io 1) local (set_out (rc_outgoing (dt_recs s) @ [OutNeedAck p]) s)) (\<lambda>_ s. (Inr a, s))) s) s)"

datatype ack_result = AckReleased doc_ack | AckAbsent doc_ack | AckReconfirm doc_proof

definition acknowledge ::
    "'p dt_env \<Rightarrow> dt_io \<Rightarrow> byte list \<Rightarrow> byte list \<Rightarrow> doc_ack \<Rightarrow> 'p dt_state \<Rightarrow> (dt_error + ack_result) \<times> 'p dt_state" where
  "acknowledge E io local remote ack s =
     with_result (authorize (da_manifest ack) remote local) (\<lambda>_ s.
     case row_of (da_manifest ack) s of
       None \<Rightarrow> (Inr (AckAbsent ack), s)
     | Some i \<Rightarrow>
         (case (case rc_incoming (dt_recs s) ! i of
             InComplete p _ _ \<Rightarrow> Some p | InCleanup p \<Rightarrow> Some p | _ \<Rightarrow> None) of
            None \<Rightarrow> (Inl (DtInvalid ''receipt acknowledgement precedes completion''), s)
          | Some p \<Rightarrow>
              with_result (acknowledgement (de_hash E) p) (\<lambda>a s.
              if a \<noteq> ack then (Inr (AckReconfirm p), s)
              else
                then_do (save E (io_save io 1) local (set_in ((rc_incoming (dt_recs s))[i := InCleanup p]) s)) (\<lambda>_ s.
                then_do (cancel_blob E (io_discard io) (da_manifest ack) s) (\<lambda>_ s.
                then_do (save E (io_save io 2) local (set_in (remove_at i (rc_incoming (dt_recs s))) s)) (\<lambda>_ s.
                (Inr (AckReleased ack), s))))) s)) s"

definition acknowledged ::
    "'p dt_env \<Rightarrow> dt_io \<Rightarrow> looks \<Rightarrow> byte list \<Rightarrow> byte list \<Rightarrow> ack_result \<Rightarrow> 'p dt_state \<Rightarrow> (dt_error + unit) \<times> 'p dt_state" where
  "acknowledged E io look local remote result s =
     (let settle_ack = (\<lambda>ack. with_result (authorize (da_manifest ack) local remote) (\<lambda>_ s.
        case row_position (\<lambda>r. case r of OutNeedAck p \<Rightarrow> acknowledgement (de_hash E) p = Inr ack | _ \<Rightarrow> False)
            (rc_outgoing (dt_recs s)) of
          None \<Rightarrow> (Inr (), s)
        | Some i \<Rightarrow> save E (io_save io 1) local (set_out (remove_at i (rc_outgoing (dt_recs s))) s)) s) in
      case result of
        AckReleased ack \<Rightarrow> settle_ack ack
      | AckAbsent ack \<Rightarrow> settle_ack ack
      | AckReconfirm p \<Rightarrow>
          with_result (proof_valid p) (\<lambda>_ s.
          with_result (authorize (dp_manifest p) local remote) (\<lambda>_ s.
          if list_ex (\<lambda>r. out_manifest r = dp_manifest p) (rc_outgoing (dt_recs s))
          then then_do (accept_proof E io look local remote p False s) (\<lambda>_ s. (Inr (), s))
          else (Inr (), s)) s) s)"

section \<open>What is pending\<close>

definition pending_docs :: "byte list \<Rightarrow> 'p records \<Rightarrow> dt_error + byte list list" where
  "pending_docs remote r =
     foldr (\<lambda>m acc. if source m = remote \<or> recipient m = remote
         then and_then (wire_descriptor m) (\<lambda>d. and_then acc (\<lambda>ns. Inr (List.insert (ds_document d) ns))) else acc)
       (map out_manifest (rc_outgoing r) @ map in_manifest (rc_incoming r)) (Inr [])"

definition pending_proofs :: "byte list \<Rightarrow> nat \<Rightarrow> 'p records \<Rightarrow> doc_proof list" where
  "pending_proofs remote limit r =
     take limit (concat (map (\<lambda>row. case row of
       InComplete p _ _ \<Rightarrow> if source (dp_manifest p) = remote then [p] else [] | _ \<Rightarrow> []) (rc_incoming r)))"

fun all_ok :: "('e + 'a) list \<Rightarrow> 'e + 'a list" where
  "all_ok [] = Inr []"
| "all_ok (r # rs) = and_then r (\<lambda>x. and_then (all_ok rs) (\<lambda>xs. Inr (x # xs)))"

definition pending_acknowledgements :: "(byte list \<Rightarrow> byte list) \<Rightarrow> byte list \<Rightarrow> nat \<Rightarrow> 'p records \<Rightarrow> dt_error + doc_ack list" where
  "pending_acknowledgements H remote limit r =
     all_ok (take limit (concat (map (\<lambda>row. case row of
       OutNeedAck p \<Rightarrow> if recipient (dp_manifest p) = remote then [acknowledgement H p] else [] | _ \<Rightarrow> []) (rc_outgoing r))))"

record doc_notice =
  dn_id :: "byte list"
  dn_document :: "byte list"
  dn_remote :: "byte list"
  dn_retired :: "nat option"

text \<open>What is to be told: only while the document still has what the receipt says.\<close>

definition notice_of :: "(byte list \<Rightarrow> byte list) \<Rightarrow> looks \<Rightarrow> nat \<Rightarrow> in_row \<Rightarrow> dt_error + doc_notice list" where
  "notice_of H look k row =
     (case row of
        InComplete p True gone \<Rightarrow>
          and_then (wire_descriptor (dp_manifest p)) (\<lambda>d.
          and_then (map_err from_core (decode_doc_version (dp_version p))) (\<lambda>saved.
          case look k (ds_document d) of
            Inl _ \<Rightarrow> Inr []
          | Inr current \<Rightarrow>
              if dvn_epoch current = dvn_epoch saved \<and> vv_of (dvn_version saved) \<le> vv_of (dvn_version current)
              then and_then (wire_id H (dp_manifest p)) (\<lambda>i.
                Inr [\<lparr>dn_id = i, dn_document = ds_document d, dn_remote = source (dp_manifest p), dn_retired = gone\<rparr>])
              else Inr []))
      | _ \<Rightarrow> Inr [])"

definition notice_ids :: "(byte list \<Rightarrow> byte list) \<Rightarrow> looks \<Rightarrow> 'p records \<Rightarrow> dt_error + doc_notice list" where
  "notice_ids H look r =
     and_then (all_ok (map (\<lambda>(k, row). notice_of H look (k + 2) row) (enumerate 0 (rc_incoming r)))) (\<lambda>ns. Inr (concat ns))"

definition mark_notified :: "'p dt_env \<Rightarrow> dt_io \<Rightarrow> byte list \<Rightarrow> byte list \<Rightarrow> 'p dt_state \<Rightarrow> (dt_error + unit) \<times> 'p dt_state" where
  "mark_notified E io local i s =
     with_result (all_ok (map (\<lambda>row. case row of
         InComplete p notify gone \<Rightarrow> and_then (wire_id (de_hash E) (dp_manifest p)) (\<lambda>j. Inr (InComplete p (if j = i then False else notify) gone))
       | r \<Rightarrow> Inr r) (rc_incoming (dt_recs s)))) (\<lambda>rows s. save E (io_save io 1) local (set_in rows s)) s"

end
