(* ===== verification/MetaJournalFacts.thy ===== *)
theory MetaJournalFacts
  imports MetaJournal StagingFacts
begin

text \<open>
  The published image is the old one or the new one, wherever a save stopped, and the next load says which for good.
\<close>

section \<open>An image and its beginnings\<close>

lemma META_MAGIC_length [simp]: "length META_MAGIC = 8"
  by (simp add: META_MAGIC_def)

lemma image_head_length [simp]: "length (image_head g body) = 24"
  by (simp add: image_head_def)

lemma meta_image_length: "hash_len H \<Longrightarrow> length (meta_image H g body) = META_HEADER + length body"
  by (simp add: meta_image_def META_HEADER_def)

lemma meta_image_fields:
  assumes "hash_len H"
  shows "take 8 (meta_image H g body) = META_MAGIC" "take 8 (drop 8 (meta_image H g body)) = be_bytes 8 g"
    "take 8 (drop 16 (meta_image H g body)) = be_bytes 8 (length body)" "take 24 (meta_image H g body) = image_head g body"
    "take 32 (drop 24 (meta_image H g body)) = H (image_head g body @ body)" "drop META_HEADER (meta_image H g body) = body"
  using assms by (simp_all add: meta_image_def image_head_def META_HEADER_def)

lemma body_length_u64: "length body \<le> MAX_IMAGE \<Longrightarrow> from_be (be_bytes 8 (length body)) = length body"
  by (rule from_be_u64) (simp add: MAX_IMAGE_def u64_max_def)

lemma decode_meta_image:
  assumes "hash_len H" and "0 < g" and "g \<le> u64_max" and "length body \<le> MAX_IMAGE"
  shows "decode_meta H (meta_image H g body) = Inr (g, body)"
  using assms by (simp add: decode_meta_def meta_image_fields meta_image_length body_length_u64 Let_def)

text \<open>What a write that stopped leaves is recognised, and known to be cut off exactly when it is.\<close>

lemma take_beginning: "n \<le> k \<Longrightarrow> n \<le> length a \<Longrightarrow> take n (take k (a @ b)) = take n a"
  by (simp add: min_def)

lemma beginning_recognised:
  assumes "hash_len H" and "n = min (length (take k (meta_image H g body))) (length (META_MAGIC @ be_bytes 8 g))"
  shows "take n (take k (meta_image H g body)) = take n (META_MAGIC @ be_bytes 8 g)"
proof -
  have "meta_image H g body = (META_MAGIC @ be_bytes 8 g) @ be_bytes 8 (length body) @ H (image_head g body @ body) @ body"
    by (simp add: meta_image_def image_head_def)
  moreover have "n \<le> k" "n \<le> length (META_MAGIC @ be_bytes 8 g)" using assms(2) by auto
  ultimately show ?thesis by (simp only: take_beginning)
qed

lemma partial_length_small:
  assumes "n \<le> MAX_IMAGE" and "j \<le> 8"
  shows "from_be (take j (be_bytes 8 n) @ replicate (8 - j) 0) \<le> MAX_IMAGE"
proof -
  let ?b = "take j (be_bytes 8 n)"
  have z: "from_be (xs @ replicate m 0) = from_be xs * 256 ^ m" for xs m
    by (induction m arbitrary: xs) (simp_all add: replicate_append_same [symmetric] from_be_append flip: append_assoc)
  have a: "from_be (xs @ ys) = from_be xs * 256 ^ length ys + from_be ys" for xs ys
    by (induction ys rule: rev_induct) (simp_all add: from_be_append algebra_simps flip: append_assoc, simp add: from_be_def)
  have "length (drop j (be_bytes 8 n)) = 8 - j" by simp
  with a [of ?b "drop j (be_bytes 8 n)"] have "from_be (be_bytes 8 n) = from_be ?b * 256 ^ (8 - j) + from_be (drop j (be_bytes 8 n))"
    by (simp only: append_take_drop_id)
  moreover have "from_be (be_bytes 8 n) = n" by (rule from_be_u64) (use assms(1) in \<open>simp add: MAX_IMAGE_def u64_max_def\<close>)
  ultimately show ?thesis using z [of ?b "8 - j"] assms(1) by linarith
qed

lemma cut_off_beginning:
  assumes "hash_len H" and "length body \<le> MAX_IMAGE" and "k \<le> length (meta_image H g body)"
  shows "cut_off (take k (meta_image H g body)) = Inr (k < length (meta_image H g body))"
proof (cases "k < 24")
  case True
  have len: "length (take k (meta_image H g body)) = k" using assms(3) by simp
  have "from_be (drop 16 (take k (meta_image H g body)) @ replicate (24 - k) 0) \<le> MAX_IMAGE" if "16 < k"
  proof -
    have "drop 16 (take k (meta_image H g body)) = take (k - 16) (take 8 (drop 16 (meta_image H g body)))"
      using True by (simp add: drop_take min_absorb1)
    then have d: "drop 16 (take k (meta_image H g body)) = take (k - 16) (be_bytes 8 (length body))"
      by (simp only: meta_image_fields [OF assms(1)])
    have k: "24 - k = 8 - (k - 16)" "k - 16 \<le> 8" using that True by simp_all
    show ?thesis unfolding d k(1) by (rule partial_length_small [OF assms(2) k(2)])
  qed
  moreover have "k < length (meta_image H g body)" using True by (simp add: meta_image_length [OF assms(1)] META_HEADER_def)
  ultimately show ?thesis using True len by (cases "16 < k") (auto simp: cut_off_def)
next
  case False
  let ?b = "take k (meta_image H g body)"
  have "take 8 (drop 16 ?b) = be_bytes 8 (length body)"
    using False meta_image_fields(3) [OF assms(1), of g body] by (simp add: drop_take min_absorb1)
  then have "from_be (take 8 (drop 16 ?b)) = length body" using body_length_u64 [OF assms(2)] by simp
  moreover have "length ?b = k" using assms(3) by simp
  ultimately show ?thesis
    unfolding cut_off_def using False assms(2) meta_image_length [OF assms(1), of g body] by simp
qed

section \<open>What a directory says\<close>

text \<open>
  Generation \<open>g\<close> is published with this body; \<open>left\<close> is the body of a whole image that was not renamed, if there is one.
\<close>

definition sized :: "byte list option \<Rightarrow> bool" where
  "sized b \<longleftrightarrow> (case b of None \<Rightarrow> True | Some body \<Rightarrow> length body \<le> MAX_IMAGE)"

definition journal_says :: "(byte list \<Rightarrow> byte list) \<Rightarrow> nat \<Rightarrow> byte list option \<Rightarrow> byte list option \<Rightarrow> meta_files \<Rightarrow> bool" where
  "journal_says H g body left f \<longleftrightarrow> \<not> mf_odd f \<and> g \<le> u64_max \<and> sized body \<and> sized left \<and>
     mf_registry f = map_option (meta_image H g) body \<and> (g = 0 \<longleftrightarrow> body = None) \<and>
     (case left of
        Some new \<Rightarrow> g < u64_max \<and> mf_next f = Some (meta_image H (g + 1) new)
      | None \<Rightarrow> mf_next f = None \<or> g < u64_max \<and> (\<exists>k new. length new \<le> MAX_IMAGE \<and>
          k < length (meta_image H (g + 1) new) \<and> mf_next f = Some (take k (meta_image H (g + 1) new))))"

definition settled :: "(byte list \<Rightarrow> byte list) \<Rightarrow> nat \<Rightarrow> byte list option \<Rightarrow> meta_files \<Rightarrow> bool" where
  "settled H g body f \<longleftrightarrow> journal_says H g body None f \<and> mf_next f = None"

lemma settled_new: "settled H 0 None \<lparr>mf_registry = None, mf_next = None, mf_odd = False\<rparr>"
  by (simp add: settled_def journal_says_def sized_def)

lemma image_in_budget: "hash_len H \<Longrightarrow> length body \<le> MAX_IMAGE \<Longrightarrow> \<not> length (meta_image H g body) > MAX_IMAGE + META_HEADER"
  by (simp add: meta_image_length)

lemma save_says:
  assumes "hash_len H" and "settled H g body f" and "save_journal H fault g new f = (r, f')"
  shows "(\<exists>e. r = Inl e) \<and> (\<exists>left. journal_says H g body left f' \<and> (left = None \<or> left = Some new)) \<or>
    r = Inr (g + 1) \<and> settled H (g + 1) (Some new) f'"
proof (cases "length new \<le> MAX_IMAGE \<and> g + 1 \<le> u64_max \<and> fault \<noteq> SaveCreate")
  case True
  have f: "mf_next f = None" "journal_says H g body None f" using assms(2) by (simp_all add: settled_def)
  show ?thesis
  proof (cases fault)
    case (SaveWrite k)
    then have r: "\<exists>e. r = Inl e" "f' = f\<lparr>mf_next := Some (take k (meta_image H (g + 1) new))\<rparr>"
      using assms(3) True f(1) by (auto simp: save_journal_def Let_def)
    show ?thesis
    proof (cases "k < length (meta_image H (g + 1) new)")
      case less: True
      have "journal_says H g body None f'"
        unfolding r(2) using f(2) True less by (auto simp: journal_says_def)
      then show ?thesis using r(1) by blast
    next
      case False
      then have "journal_says H g body (Some new) f'"
        unfolding r(2) using f(2) True by (simp add: journal_says_def sized_def)
      then show ?thesis using r(1) by blast
    qed
  next
    case NoSaveFault
    then show ?thesis
      using assms(3) True f by (auto simp: save_journal_def Let_def settled_def journal_says_def sized_def)
  next
    case SaveSync
    then have r: "\<exists>e. r = Inl e" "f' = f\<lparr>mf_next := Some (meta_image H (g + 1) new)\<rparr>"
      using assms(3) True f(1) by (auto simp: save_journal_def Let_def)
    have "journal_says H g body (Some new) f'" unfolding r(2) using f(2) True by (simp add: journal_says_def sized_def)
    then show ?thesis using r(1) by blast
  next
    case SaveRename
    then have r: "\<exists>e. r = Inl e" "f' = f\<lparr>mf_next := Some (meta_image H (g + 1) new)\<rparr>"
      using assms(3) True f(1) by (auto simp: save_journal_def Let_def)
    have "journal_says H g body (Some new) f'" unfolding r(2) using f(2) True by (simp add: journal_says_def sized_def)
    then show ?thesis using r(1) by blast
  qed (use True in simp)
next
  case False
  then have "(\<exists>e. r = Inl e) \<and> f' = f"
    using assms(3) by (auto simp: save_journal_def Let_def split: if_splits)
  then show ?thesis using assms(2) by (auto simp: settled_def)
qed

text \<open>Nothing but a fault keeps a save from succeeding.\<close>

lemma save_works: "settled H g body f \<Longrightarrow> length new \<le> MAX_IMAGE \<Longrightarrow> g < u64_max \<Longrightarrow>
    \<exists>f'. save_journal H NoSaveFault g new f = (Inr (g + 1), f')"
  by (simp add: save_journal_def settled_def Let_def)

text \<open>The published image read back.\<close>

lemma published_reads:
  assumes "hash_len H" and "journal_says H g body left f" and "\<And>b. body = Some b \<Longrightarrow> valid b = Inr ()"
  shows "read_published H valid True f = Inr (g, body)"
proof (cases body)
  case None
  then show ?thesis using assms(2) by (simp add: journal_says_def read_optional_def read_published_def)
next
  case (Some b)
  then have b: "mf_registry f = Some (meta_image H g b)" "length b \<le> MAX_IMAGE" "0 < g" "g \<le> u64_max"
    using assms(2) by (simp_all add: journal_says_def sized_def)
  then show ?thesis
    using Some assms(3) [OF Some] image_in_budget [OF assms(1) b(2)] decode_meta_image [OF assms(1) b(3,4,2)]
    by (simp add: read_optional_def read_published_def)
qed

lemma load_says:
  assumes "hash_len H" and "journal_says H g body left f"
    and "\<And>b. body = Some b \<Longrightarrow> valid b = Inr ()" and "\<And>b. left = Some b \<Longrightarrow> valid b = Inr ()"
    and "load_journal H valid fault f = (r, f')"
  shows "(\<exists>e. r = Inl e) \<and> f' = f \<and> fault \<noteq> no_load_fault \<or>
    left = None \<and> r = Inr (g, body) \<and> settled H g body f' \<or>
    (\<exists>new. left = Some new \<and> r = Inr (g + 1, Some new) \<and> settled H (g + 1) (Some new) f')"
proof (cases "lf_list fault \<and> lf_registry fault \<and> lf_next fault")
  case False
  then have "(\<exists>e. r = Inl e) \<and> f' = f"
    using assms(5) by (auto simp: load_journal_def read_optional_def read_published_def Let_def split: if_splits sum.splits)
  then show ?thesis using False by (auto simp: no_load_fault_def)
next
  case True
  have odd: "\<not> mf_odd f" using assms(2) by (simp add: journal_says_def)
  have head: "read_published H valid True f = Inr (g, body)" by (rule published_reads [OF assms(1,2)]) (rule assms(3))
  show ?thesis
  proof (cases "mf_next f")
    case None
    then have "left = None" using assms(2) by (auto simp: journal_says_def split: option.splits)
    moreover have "r = Inr (g, body)" "f' = f"
      using assms(5) True odd head None by (simp_all add: load_journal_def read_optional_def)
    ultimately show ?thesis using assms(2) None by (simp add: settled_def)
  next
    case (Some bytes)
    have up: "g < u64_max" using assms(2) Some by (auto simp: journal_says_def split: option.splits)
    then have nover: "\<not> g + 1 > u64_max" by simp
    obtain new k where n: "length new \<le> MAX_IMAGE" "bytes = take k (meta_image H (g + 1) new)"
      "k \<le> length (meta_image H (g + 1) new)" "left = (if k < length (meta_image H (g + 1) new) then None else Some new)"
    proof (cases left)
      case None
      then show thesis using that assms(2) Some by (auto simp: journal_says_def)
    next
      case (Some new)
      then show thesis
        using that [of new "length (meta_image H (g + 1) new)"] assms(2) \<open>mf_next f = Some bytes\<close>
        by (auto simp: journal_says_def sized_def)
    qed
    have small: "\<not> length bytes > MAX_IMAGE + META_HEADER"
      using image_in_budget [OF assms(1) n(1), of "g + 1"] n(2,3) by simp
    have start: "\<not> take (min (length bytes) (length (META_MAGIC @ be_bytes 8 (g + 1)))) bytes \<noteq>
        take (min (length bytes) (length (META_MAGIC @ be_bytes 8 (g + 1)))) (META_MAGIC @ be_bytes 8 (g + 1))"
      using beginning_recognised [OF assms(1) refl, of k "g + 1" new] n(2) by simp
    note cut = cut_off_beginning [OF assms(1) n(1,3), folded n(2)]
    have read: "read_optional True (mf_next f) = Inr (Some bytes)" using Some small by (simp add: read_optional_def)
    show ?thesis
    proof (cases "k < length (meta_image H (g + 1) new)")
      case part: True
      then have lr: "load_journal H valid fault f =
          (if \<not> lf_remove fault then (Inl MetaIo, f) else (Inr (g, body), f\<lparr>mf_next := None\<rparr>))"
        using True odd head read nover start cut by (simp add: load_journal_def Let_def)
      have "settled H g body (f\<lparr>mf_next := None\<rparr>)" using assms(2) n(4) part by (simp add: settled_def journal_says_def)
      then show ?thesis using assms(5) lr n(4) part by (auto simp: no_load_fault_def split: if_splits)
    next
      case whole: False
      then have bytes: "bytes = meta_image H (g + 1) new" and l: "left = Some new" using n by simp_all
      have v: "valid new = Inr ()" using assms(4) l by blast
      have d: "decode_meta H bytes = Inr (g + 1, new)"
        unfolding bytes by (rule decode_meta_image) (use assms(1) up n(1) in simp_all)
      have lr: "load_journal H valid fault f = (if \<not> lf_sync fault \<or> \<not> lf_rename fault then (Inl MetaIo, f)
          else (Inr (g + 1, Some new), f\<lparr>mf_registry := Some bytes, mf_next := None\<rparr>))"
        using True odd head read nover start cut whole v d by (simp add: load_journal_def Let_def)
      have "settled H (g + 1) (Some new) (f\<lparr>mf_registry := Some bytes, mf_next := None\<rparr>)"
        using assms(2) up n(1) by (simp add: settled_def journal_says_def bytes sized_def)
      then show ?thesis using assms(5) lr l by (auto simp: no_load_fault_def split: if_splits)
    qed
  qed
qed

section \<open>The contract\<close>

text \<open>
  A publication: what a file reads as is decided when a save ends, however it ended, and a load that fails changes
  nothing about it.
\<close>

locale publication =
  fixes settled_at :: "'g \<Rightarrow> 'b option \<Rightarrow> 'f \<Rightarrow> bool" and reads_as :: "'f \<Rightarrow> 'b option \<Rightarrow> bool" and ok :: "'b \<Rightarrow> bool"
    and load :: "'x \<Rightarrow> 'f \<Rightarrow> ('e + 'g \<times> 'b option) \<times> 'f" and save :: "'y \<Rightarrow> 'g \<Rightarrow> 'b \<Rightarrow> 'f \<Rightarrow> ('e + 'g) \<times> 'f"
  assumes settled_reads: "settled_at g b f \<Longrightarrow> pred_option ok b \<Longrightarrow> reads_as f b"
    and reads_ok: "reads_as f b \<Longrightarrow> pred_option ok b"
    and load_law: "reads_as f b \<Longrightarrow> load x f = (r, f') \<Longrightarrow>
      (\<exists>e. r = Inl e) \<and> f' = f \<or> (\<exists>g. r = Inr (g, b) \<and> settled_at g b f')"
    and save_law: "settled_at g b f \<Longrightarrow> pred_option ok b \<Longrightarrow> ok new \<Longrightarrow> save y g new f = (q, f') \<Longrightarrow>
      (\<exists>e. q = Inl e) \<and> (reads_as f' b \<or> reads_as f' (Some new)) \<or> (\<exists>g'. q = Inr g' \<and> settled_at g' (Some new) f')"
begin

lemma load_keeps: "reads_as f b \<Longrightarrow> reads_as (snd (load x f)) b"
  using load_law [of f b x "fst (load x f)" "snd (load x f)"] settled_reads reads_ok by force

lemma loads_keep: "reads_as f b \<Longrightarrow> reads_as (fold (\<lambda>x f. snd (load x f)) xs f) b"
  by (induction xs arbitrary: f) (simp_all add: load_keeps)

lemma save_decides:
  assumes "settled_at g b f" and "pred_option ok b" and "ok new" and "save y g new f = (r, f')"
  shows "\<exists>v. (v = b \<or> v = Some new) \<and> ((\<exists>g'. r = Inr g') \<longrightarrow> v = Some new) \<and> reads_as f' v"
  using save_law [OF assms] settled_reads [of _ "Some new" f'] assms(3) by auto

text \<open>What a promise about the content needs: that each new content keeps it.\<close>

lemma promise_saved:
  assumes "settled_at g b f" and "pred_option ok b" and "ok new" and "save y g new f = (r, f')" and "P b" and "P (Some new)"
  shows "\<exists>v. P v \<and> reads_as f' v"
  using save_decides [OF assms(1-4)] assms(5,6) by blast

end

definition reads_like :: "(byte list \<Rightarrow> byte list) \<Rightarrow> (byte list \<Rightarrow> meta_error + unit) \<Rightarrow> meta_files \<Rightarrow> byte list option \<Rightarrow> bool" where
  "reads_like H valid f b \<longleftrightarrow> hash_len H \<and> (\<exists>g body left. journal_says H g body left f \<and>
     pred_option (\<lambda>x. valid x = Inr ()) body \<and> pred_option (\<lambda>x. valid x = Inr ()) left \<and>
     b = (case left of None \<Rightarrow> body | Some new \<Rightarrow> Some new))"

lemma load_reads:
  assumes "reads_like H valid f b" and "load_journal H valid fault f = (r, f')"
  shows "(\<exists>e. r = Inl e) \<and> f' = f \<and> fault \<noteq> no_load_fault \<or> (\<exists>g. r = Inr (g, b) \<and> settled H g b f')"
proof -
  from assms(1) obtain g body left where j: "hash_len H" "journal_says H g body left f"
    "pred_option (\<lambda>x. valid x = Inr ()) body" "pred_option (\<lambda>x. valid x = Inr ()) left"
    "b = (case left of None \<Rightarrow> body | Some new \<Rightarrow> Some new)"
    unfolding reads_like_def by blast
  have "valid x = Inr ()" if "body = Some x" for x using that j(3) by simp
  moreover have "valid x = Inr ()" if "left = Some x" for x using that j(4) by simp
  ultimately show ?thesis using load_says [OF j(1,2) _ _ assms(2)] j(5) by (auto split: option.splits)
qed

interpretation meta: publication "\<lambda>g b f. hash_len H \<and> settled H g b f" "reads_like H valid" "\<lambda>x. valid x = Inr ()"
    "load_journal H valid" "save_journal H" for H valid
proof (unfold_locales, goal_cases)
  case (1 g b f)
  then show ?case unfolding reads_like_def settled_def by (intro conjI exI [of _ g] exI [of _ b] exI [of _ None]) simp_all
next
  case (2 f b)
  then show ?case by (auto simp: reads_like_def split: option.splits)
next
  case (3 f b x r f')
  then have "hash_len H" by (simp add: reads_like_def)
  then show ?case using load_reads [OF 3] by blast
next
  case (4 g b f new y q f')
  then have H: "hash_len H" and st: "settled H g b f" by simp_all
  from save_says [OF H st 4(4)] show ?case
  proof
    assume l: "(\<exists>e. q = Inl e) \<and> (\<exists>left. journal_says H g b left f' \<and> (left = None \<or> left = Some new))"
    then obtain left where left: "journal_says H g b left f'" "left = None \<or> left = Some new" by blast
    have "reads_like H valid f' (case left of None \<Rightarrow> b | Some new \<Rightarrow> Some new)"
      using H left 4(2,3) unfolding reads_like_def by (intro conjI exI [of _ g] exI [of _ b] exI [of _ left]) auto
    then show ?thesis using l left(2) by auto
  next
    assume "q = Inr (g + 1) \<and> settled H (g + 1) (Some new) f'"
    then show ?thesis using H by blast
  qed
qed

text \<open>
  C15: A publication is all or nothing: wherever a save stopped, what the next load gives is the old image or the whole
  new one, and the new one if the save answered Ok; failed loads in between change nothing about it, every load that
  answers gives the same, and one that meets no fault answers.
\<close>

theorem publication_is_all_or_nothing:
  assumes "hash_len H" and "settled H g old f" and "pred_option (\<lambda>x. valid x = Inr ()) old" and "valid new = Inr ()"
    and "save_journal H fault g new f = (r, f')"
  shows "\<exists>v. (v = old \<or> v = Some new) \<and> ((\<exists>g'. r = Inr g') \<longrightarrow> v = Some new) \<and>
    (\<forall>loads lf g' b. fst (load_journal H valid lf (fold (\<lambda>x f. snd (load_journal H valid x f)) loads f')) = Inr (g', b) \<longrightarrow> b = v) \<and>
    (\<forall>loads. \<exists>g'. fst (load_journal H valid no_load_fault (fold (\<lambda>x f. snd (load_journal H valid x f)) loads f')) = Inr (g', v))"
proof -
  obtain v where v: "v = old \<or> v = Some new" "(\<exists>g'. r = Inr g') \<longrightarrow> v = Some new" "reads_like H valid f' v"
    using meta.save_decides [OF conjI [OF assms(1,2)] assms(3-5)] by blast
  let ?after = "\<lambda>loads. fold (\<lambda>x f. snd (load_journal H valid x f)) loads f'"
  have keeps: "reads_like H valid (?after loads) v" for loads by (rule meta.loads_keep [OF v(3)])
  have "b = v" if "fst (load_journal H valid lf (?after loads)) = Inr (g', b)" for loads lf g' b
    using load_reads [OF keeps surjective_pairing, of lf loads] that by (elim disjE exE conjE) simp_all
  moreover have "\<exists>g'. fst (load_journal H valid no_load_fault (?after loads)) = Inr (g', v)" for loads
    using load_reads [OF keeps surjective_pairing, of no_load_fault loads] by (elim disjE exE conjE) simp_all
  ultimately show ?thesis using v(1,2) by blast
qed

text \<open>A second image over the first, cut off in the middle of its header.\<close>

theorem publication_is_all_or_nothing_witness:
  "\<exists>r f'. save_journal (\<lambda>_. replicate 32 7) (SaveWrite 20) 0 [1, 2] \<lparr>mf_registry = None, mf_next = None, mf_odd = False\<rparr> = (r, f') \<and>
    (\<exists>v. (v = None \<or> v = Some [1, 2]) \<and>
       (\<exists>g'. fst (load_journal (\<lambda>_. replicate 32 7) (\<lambda>_. Inr ()) no_load_fault f') = Inr (g', v)))"
proof -
  obtain r f' where s: "save_journal (\<lambda>_. replicate 32 7) (SaveWrite 20) 0 [1, 2] \<lparr>mf_registry = None, mf_next = None, mf_odd = False\<rparr> = (r, f')"
    by (metis prod.exhaust)
  have H: "hash_len (\<lambda>_. replicate 32 7)" by (simp add: hash_len_def)
  have "pred_option (\<lambda>x. Inr () = Inr ()) None" by simp
  from publication_is_all_or_nothing [OF H settled_new this refl s] obtain v where v: "v = None \<or> v = Some [1, 2]"
    "\<forall>loads. \<exists>g'. fst (load_journal (\<lambda>_. replicate 32 7) (\<lambda>_. Inr ()) no_load_fault
       (fold (\<lambda>x f. snd (load_journal (\<lambda>_. replicate 32 7) (\<lambda>_. Inr ()) x f)) loads f')) = Inr (g', v)" by blast
  from v(2) [THEN spec, of "[]"] show ?thesis using s v(1) by auto
qed

end
