(* ===== verification/TransferFacts.thy ===== *)
theory TransferFacts
  imports TransferState MetaJournalFacts
begin

text \<open>
  The life of a plan and of a receipt, and that the calls of \<open>TransferState\<close> keep to it on the disk: whatever a call
  came to, and wherever it stopped, what the next one finds is reached from what was there by the rules.
\<close>

section \<open>Calls in sequence\<close>

lemma then_do_simps [simp]: "then_do (Inl e, s) f = (Inl e, s)" "then_do (Inr x, s) f = f x s"
  by (simp_all add: then_do_def)

lemma with_result_simps [simp]: "with_result (Inl e) f s = (Inl e, s)" "with_result (Inr x) f s = f x s"
  by (simp_all add: with_result_def)

lemma then_do_Inr: "then_do rs f = (Inr y, s') \<longleftrightarrow> (\<exists>x s. rs = (Inr x, s) \<and> f x s = (Inr y, s'))"
  by (cases rs; cases "fst rs") (auto simp: then_do_def)

lemma with_result_Inr: "with_result r f s = (Inr y, s') \<longleftrightarrow> (\<exists>x. r = Inr x \<and> f x s = (Inr y, s'))"
  by (cases r) simp_all

lemma row_position_Some: "row_position P xs = Some i \<Longrightarrow> i < length xs \<and> P (xs ! i)"
  by (induction xs arbitrary: i) (auto split: if_splits)

lemma row_position_None: "row_position P xs = None \<longleftrightarrow> \<not> list_ex P xs"
  by (induction xs) (auto split: if_splits)

lemma row_position_append_new: "row_position P xs = None \<Longrightarrow> P y \<Longrightarrow> row_position P (xs @ [y]) = Some (length xs)"
  by (induction xs) (auto split: if_splits)

lemma set_remove_at: "set (remove_at i xs) \<subseteq> set xs"
  by (auto simp: remove_at_def dest: in_set_takeD in_set_dropD)

lemma remove_at_keeps:
  assumes "x \<in> set xs" and "i < length xs" and "x \<noteq> xs ! i"
  shows "x \<in> set (remove_at i xs)"
proof -
  have "x \<in> set (take i xs @ xs ! i # drop (Suc i) xs)"
    using assms(1) id_take_nth_drop [OF assms(2)] by simp
  then show ?thesis using assms(3) by (simp add: remove_at_def)
qed

lemma update_keeps: "x \<in> set xs \<Longrightarrow> i < length xs \<Longrightarrow> x \<noteq> xs ! i \<Longrightarrow> x \<in> set (xs[i := y])"
  by (metis in_set_conv_nth length_list_update nth_list_update_neq)

section \<open>The rules\<close>

text \<open>
  What one publication may do to the rows.  \<open>ps\<close> are the proofs and \<open>acks\<close> the acknowledgements that the peer gave.
\<close>

definition in_open :: "in_row \<Rightarrow> bool" where
  "in_open r \<longleftrightarrow> (case r of InComplete _ _ _ \<Rightarrow> False | _ \<Rightarrow> True)"

lemma in_open_simps [simp]:
  "\<not> in_open (InComplete p n g)" "in_open (InReceiving m)" "in_open (InImporting m b)" "in_open (InCleanup p)"
  by (simp_all add: in_open_def)

definition told :: "in_row \<Rightarrow> in_row \<Rightarrow> bool" where
  "told x y \<longleftrightarrow> x = y \<or> (\<exists>p n n' g. x = InComplete p n g \<and> y = InComplete p n' g)"

inductive life_out ::
    "(byte list \<Rightarrow> byte list) \<Rightarrow> doc_proof set \<Rightarrow> doc_ack set \<Rightarrow> out_row list \<Rightarrow> out_row list \<Rightarrow> bool"
  for H :: "byte list \<Rightarrow> byte list" and ps :: "doc_proof set" and acks :: "doc_ack set" where
  planned: "life_out H ps acks xs (xs @ [OutPreparing m])"
| withdrawn: "i < length xs \<Longrightarrow> xs ! i = OutPreparing m \<Longrightarrow> life_out H ps acks xs (remove_at i xs)"
| dropped: "life_out H ps acks xs (filter (\<lambda>r. r \<noteq> OutPreparing m) xs)"
| adopted: "i < length xs \<Longrightarrow> xs ! i = OutPreparing e \<Longrightarrow> same_preparing e m \<Longrightarrow> life_out H ps acks xs (xs[i := OutReady m])"
| readied: "OutPreparing e \<in> set xs \<Longrightarrow> same_preparing e m \<Longrightarrow>
    life_out H ps acks xs (filter (\<lambda>r. r \<noteq> OutPreparing e) xs @ [OutReady m])"
| accepted: "i < length xs \<Longrightarrow> p \<in> ps \<Longrightarrow> proof_valid p = Inr () \<Longrightarrow> out_manifest (xs ! i) = dp_manifest p \<Longrightarrow>
    life_out H ps acks xs (xs[i := OutAccepted p])"
| repeated: "p \<in> ps \<Longrightarrow> proof_valid p = Inr () \<Longrightarrow> life_out H ps acks xs (xs @ [OutNeedAck p])"
| waiting: "i < length xs \<Longrightarrow> xs ! i = OutAccepted p \<Longrightarrow> life_out H ps acks xs (xs[i := OutNeedAck p])"
| confirmed: "i < length xs \<Longrightarrow> xs ! i = OutAccepted p \<Longrightarrow> life_out H ps acks xs (remove_at i xs)"
| acked: "i < length xs \<Longrightarrow> xs ! i = OutNeedAck p \<Longrightarrow> acknowledgement H p = Inr a \<Longrightarrow> a \<in> acks \<Longrightarrow>
    life_out H ps acks xs (remove_at i xs)"

inductive life_in :: "(byte list \<Rightarrow> byte list) \<Rightarrow> doc_ack set \<Rightarrow> in_row list \<Rightarrow> in_row list \<Rightarrow> bool"
  for H :: "byte list \<Rightarrow> byte list" and acks :: "doc_ack set" where
  begun: "life_in H acks xs (xs @ [InReceiving m])"
| importing: "i < length xs \<Longrightarrow> in_open (xs ! i) \<Longrightarrow> in_manifest (xs ! i) = m \<Longrightarrow> life_in H acks xs (xs[i := InImporting m b])"
| complete: "i < length xs \<Longrightarrow> in_open (xs ! i) \<Longrightarrow> in_manifest (xs ! i) = dp_manifest p \<Longrightarrow>
    life_in H acks xs (xs[i := InComplete p n g])"
| had: "life_in H acks xs (xs @ [InComplete p n g])"
| notified: "list_all2 told xs ys \<Longrightarrow> life_in H acks xs ys"
| released: "i < length xs \<Longrightarrow> xs ! i = InComplete p n g \<or> xs ! i = InCleanup p \<Longrightarrow> acknowledgement H p = Inr a \<Longrightarrow> a \<in> acks \<Longrightarrow>
    life_in H acks xs (xs[i := InCleanup p])"
| cleaned: "i < length xs \<Longrightarrow> xs ! i = InCleanup p \<Longrightarrow> life_in H acks xs (remove_at i xs)"
| swept: "(\<And>r. r \<in> set xs \<Longrightarrow> in_manifest r = m \<Longrightarrow> in_open r) \<Longrightarrow> life_in H acks xs (filter (\<lambda>r. in_manifest r \<noteq> m) xs)"

definition life :: "(byte list \<Rightarrow> byte list) \<Rightarrow> doc_proof set \<Rightarrow> doc_ack set \<Rightarrow> 'p records \<Rightarrow> 'p records \<Rightarrow> bool" where
  "life H ps acks r r' \<longleftrightarrow> (life_out H ps acks)\<^sup>*\<^sup>* (rc_outgoing r) (rc_outgoing r') \<and>
     (life_in H acks)\<^sup>*\<^sup>* (rc_incoming r) (rc_incoming r') \<and> rc_pairing r' = rc_pairing r"

lemma life_refl [simp]: "life H ps acks r r" by (simp add: life_def)

lemma life_trans: "life H ps acks a b \<Longrightarrow> life H ps acks b c \<Longrightarrow> life H ps acks a c"
  unfolding life_def by (metis rtranclp_trans)

section \<open>What the rules keep\<close>

lemma life_out_keeps_ready:
  assumes "life_out H ps acks xs ys" and "OutReady m \<in> set xs" and "\<And>p. p \<in> ps \<Longrightarrow> dp_manifest p \<noteq> m"
  shows "OutReady m \<in> set ys"
  using assms(1)
proof cases
  case (accepted i p)
  then have "OutReady m \<noteq> xs ! i" using assms(3) [of p] by (metis out_manifest.simps(2))
  then show ?thesis unfolding accepted(1) by (rule update_keeps [OF assms(2) accepted(2)])
qed (use assms(2) in \<open>auto intro!: remove_at_keeps update_keeps\<close>)

lemma life_in_keeps_receipt:
  assumes "life_in H acks xs ys" and "InComplete p n g \<in> set xs" and "\<And>a. a \<in> acks \<Longrightarrow> acknowledgement H p \<noteq> Inr a"
  shows "\<exists>n. InComplete p n g \<in> set ys"
  using assms(1)
proof cases
  case notified
  from assms(2) obtain i where i: "i < length xs" "xs ! i = InComplete p n g" by (auto simp: in_set_conv_nth)
  then have "told (xs ! i) (ys ! i)" using notified list_all2_nthD by metis
  moreover have "i < length ys" using notified i(1) by (simp add: list_all2_lengthD)
  moreover have "\<exists>n'. ys ! i = InComplete p n' g" using calculation(1) i(2) unfolding told_def by (metis in_row.inject(3))
  ultimately show ?thesis by (metis nth_mem)
next
  case (released i q n' g' a)
  then have "xs ! i \<noteq> InComplete p n g" using assms(3) by auto
  then show ?thesis using update_keeps [OF assms(2) released(2)] released(1) by (metis)
next
  case (importing i m b)
  then have "InComplete p n g \<noteq> xs ! i" by (metis in_open_simps(1))
  then show ?thesis unfolding importing(1) using update_keeps [OF assms(2) importing(2)] by blast
next
  case (complete i q n' g')
  then have "InComplete p n g \<noteq> xs ! i" by (metis in_open_simps(1))
  then show ?thesis unfolding complete(1) using update_keeps [OF assms(2) complete(2)] by blast
next
  case (cleaned i q)
  then have "InComplete p n g \<noteq> xs ! i" by simp
  then show ?thesis unfolding cleaned(1) using remove_at_keeps [OF assms(2) cleaned(2)] by blast
next
  case (swept m)
  then have "in_manifest (InComplete p n g) \<noteq> m" using assms(2) by (metis in_open_simps(1))
  then show ?thesis unfolding swept(1) using assms(2) by (intro exI [of _ n]) simp
next
  case (had q n' g')
  then show ?thesis unfolding had(1) using assms(2) by (intro exI [of _ n]) simp
next
  case (begun m)
  then show ?thesis unfolding begun(1) using assms(2) by (intro exI [of _ n]) simp
qed

lemma life_keeps_ready:
  assumes "life H ps acks r r'" and "OutReady m \<in> set (rc_outgoing r)" and "\<And>p. p \<in> ps \<Longrightarrow> dp_manifest p \<noteq> m"
  shows "OutReady m \<in> set (rc_outgoing r')"
proof -
  have "(life_out H ps acks)\<^sup>*\<^sup>* (rc_outgoing r) (rc_outgoing r')" using assms(1) by (simp add: life_def)
  then show ?thesis by (induction rule: rtranclp_induct) (use assms(2,3) life_out_keeps_ready in \<open>blast+\<close>)
qed

lemma life_keeps_receipt:
  assumes "life H ps acks r r'" and "InComplete p n g \<in> set (rc_incoming r)" and "\<And>a. a \<in> acks \<Longrightarrow> acknowledgement H p \<noteq> Inr a"
  shows "\<exists>n. InComplete p n g \<in> set (rc_incoming r')"
proof -
  have "(life_in H acks)\<^sup>*\<^sup>* (rc_incoming r) (rc_incoming r')" using assms(1) by (simp add: life_def)
  then show ?thesis
  proof (induction rule: rtranclp_induct)
    case base
    then show ?case using assms(2) by blast
  next
    case (step y z)
    from step(3) obtain n' where "InComplete p n' g \<in> set y" by blast
    from life_in_keeps_receipt [OF step(2) this assms(3)] show ?case by blast
  qed
qed

section \<open>What the disk says\<close>

text \<open>The encoding's law: what was encoded, within the budget, decodes to what it was.\<close>

definition codec_law :: "'p dt_env \<Rightarrow> bool" where
  "codec_law E \<longleftrightarrow> hash_len (de_hash E) \<and> (\<forall>r. length (de_encode E r) \<le> MAX_IMAGE \<longrightarrow> de_decode E (de_encode E r) = Some r)"

definition reads :: "'p dt_env \<Rightarrow> byte list option \<Rightarrow> 'p records \<Rightarrow> bool" where
  "reads E b r \<longleftrightarrow> (case b of None \<Rightarrow> r = no_records E | Some bytes \<Rightarrow> de_decode E bytes = Some r)"

definition disk_says :: "'p dt_env \<Rightarrow> byte list \<Rightarrow> meta_files \<Rightarrow> 'p records \<Rightarrow> bool" where
  "disk_says E local f r \<longleftrightarrow> (\<exists>b. reads_like (de_hash E) (meta_valid E local) f b \<and> reads E b r)"

definition disk_settled :: "'p dt_env \<Rightarrow> byte list \<Rightarrow> 'p dt_state \<Rightarrow> 'p records \<Rightarrow> bool" where
  "disk_settled E local s r \<longleftrightarrow> hash_len (de_hash E) \<and> (\<exists>b. settled (de_hash E) (dt_gen s) b (dt_files s) \<and>
     pred_option (\<lambda>x. meta_valid E local x = Inr ()) b \<and> reads E b r)"

definition disk_fresh :: "'p dt_env \<Rightarrow> byte list \<Rightarrow> 'p dt_state \<Rightarrow> bool" where
  "disk_fresh E local s \<longleftrightarrow> disk_settled E local s (dt_recs s)"

lemma disk_settled_says: "disk_settled E local s r \<Longrightarrow> disk_says E local (dt_files s) r"
  unfolding disk_settled_def disk_says_def using meta.settled_reads [of "de_hash E"] by blast

lemma settled_more [simp]:
  "disk_settled E local (s\<lparr>dt_blobs := w\<rparr>) r = disk_settled E local s r"
  "disk_settled E local (s\<lparr>dt_recs := q\<rparr>) r = disk_settled E local s r"
  "disk_settled E local (drop_blob slot s) r = disk_settled E local s r"
  "disk_fresh E local (s\<lparr>dt_blobs := w\<rparr>) = disk_fresh E local s"
  "disk_fresh E local (drop_blob slot s) = disk_fresh E local s"
  by (simp_all add: disk_settled_def disk_fresh_def drop_blob_def)

lemma set_rows_simps [simp]:
  "dt_recs (set_out rows s) = (dt_recs s)\<lparr>rc_outgoing := rows\<rparr>" "dt_recs (set_in rows' s) = (dt_recs s)\<lparr>rc_incoming := rows'\<rparr>"
  "disk_settled E local (set_out rows s) r = disk_settled E local s r" "disk_settled E local (set_in rows' s) r = disk_settled E local s r"
  by (simp_all add: set_out_def set_in_def)

lemma drop_blob_recs [simp]: "dt_recs (drop_blob slot s) = dt_recs s" "dt_files (drop_blob slot s) = dt_files s"
  by (simp_all add: drop_blob_def)

lemma meta_valid_Inr: "meta_valid E local b = Inr () \<longleftrightarrow> validate_records E local b = Inr ()"
  by (simp add: meta_valid_def)

lemma validated_rows:
  assumes "validate_records E local b = Inr ()" and "de_decode E b = Some r"
  shows "check_outgoing E local (rc_outgoing r) [] [] = Inr ()" "check_incoming E local (rc_incoming r) [] = Inr ()"
  using assms by (auto simp: validate_records_def split: if_splits)

lemma settled_rows:
  assumes "disk_settled E local s r"
  shows "check_outgoing E local (rc_outgoing r) [] [] = Inr ()" "check_incoming E local (rc_incoming r) [] = Inr ()"
proof -
  from assms obtain b where b: "pred_option (\<lambda>x. validate_records E local x = Inr ()) b" "reads E b r"
    by (auto simp: disk_settled_def meta_valid_Inr)
  show "check_outgoing E local (rc_outgoing r) [] [] = Inr ()" "check_incoming E local (rc_incoming r) [] = Inr ()"
    using b validated_rows [of E local _ r] by (cases b; simp add: reads_def no_records_def)+
qed

section \<open>Calls that keep to the rules\<close>

text \<open>
  What holds between calls on one opened state, also after calls that failed: the records in memory are reached by the
  rules, and so are those of the disk, which may be behind.  A save that stopped half way has left its file, and no
  later save of this state gets past it.  The flag says that nothing failed yet: the disk says what memory says.
\<close>

definition jammed :: "'p dt_env \<Rightarrow> byte list \<Rightarrow> 'p dt_state \<Rightarrow> 'p records \<Rightarrow> bool" where
  "jammed E local s r \<longleftrightarrow> mf_next (dt_files s) \<noteq> None \<and> disk_says E local (dt_files s) r"

definition kept :: "bool \<Rightarrow> 'p dt_env \<Rightarrow> byte list \<Rightarrow> doc_proof set \<Rightarrow> doc_ack set \<Rightarrow> 'p records \<Rightarrow> 'p dt_state \<Rightarrow> bool" where
  "kept fr E local ps acks r0 s \<longleftrightarrow> life (de_hash E) ps acks r0 (dt_recs s) \<and>
     (disk_fresh E local s \<or>
      \<not> fr \<and> (\<exists>rd. life (de_hash E) ps acks r0 rd \<and> (disk_settled E local s rd \<or> jammed E local s rd)))"

text \<open>A call that failed has kept to the rules; one that answered keeps memory and disk the same if they were.\<close>

definition follows ::
    "bool \<Rightarrow> 'p dt_env \<Rightarrow> byte list \<Rightarrow> doc_proof set \<Rightarrow> doc_ack set \<Rightarrow> 'p records \<Rightarrow> (dt_error + 'a) \<times> 'p dt_state \<Rightarrow> bool" where
  "follows fr E local ps acks r0 rs \<longleftrightarrow>
     (case rs of (Inl _, s) \<Rightarrow> kept False E local ps acks r0 s | (Inr _, s) \<Rightarrow> kept fr E local ps acks r0 s)"

lemma kept_more [simp]:
  "kept fr E local ps acks r0 (s\<lparr>dt_blobs := w\<rparr>) = kept fr E local ps acks r0 s"
  "kept fr E local ps acks r0 (drop_blob slot s) = kept fr E local ps acks r0 s"
  by (simp_all add: kept_def jammed_def)

lemma kept_weak: "kept fr E local ps acks r0 s \<Longrightarrow> kept False E local ps acks r0 s"
  unfolding kept_def by blast

lemma kept_weaker: "kept True E local ps acks r0 s \<Longrightarrow> kept fr E local ps acks r0 s"
  unfolding kept_def by blast

lemma kept_fresh: "kept True E local ps acks r0 s \<longleftrightarrow> disk_fresh E local s \<and> life (de_hash E) ps acks r0 (dt_recs s)"
  unfolding kept_def by blast

lemma kept_disk:
  assumes "kept fr E local ps acks r0 s"
  obtains rd where "life (de_hash E) ps acks r0 rd" "disk_settled E local s rd \<or> jammed E local s rd"
  using assms unfolding kept_def disk_fresh_def by blast

lemma kept_says:
  assumes "kept fr E local ps acks r0 s"
  shows "\<exists>r. disk_says E local (dt_files s) r \<and> life (de_hash E) ps acks r0 r"
proof (rule kept_disk [OF assms])
  fix rd assume "life (de_hash E) ps acks r0 rd" "disk_settled E local s rd \<or> jammed E local s rd"
  then show ?thesis using disk_settled_says [of E local s rd] by (auto simp: jammed_def)
qed

lemma follows_Inl [simp]: "follows fr E local ps acks r0 (Inl e, s) \<longleftrightarrow> kept False E local ps acks r0 s"
  by (simp add: follows_def)

lemma follows_Inr [simp]: "follows fr E local ps acks r0 (Inr x, s) \<longleftrightarrow> kept fr E local ps acks r0 s"
  by (simp add: follows_def)

lemma follows_kept: "kept fr E local ps acks r0 (snd rs) \<Longrightarrow> follows fr E local ps acks r0 rs"
  using kept_weak by (cases rs; cases "fst rs") auto

lemma follows_weak: "follows fr E local ps acks r0 (q, s) \<Longrightarrow> kept False E local ps acks r0 s"
  using kept_weak by (cases q) auto

lemma follows_weaker: "follows True E local ps acks r0 rs \<Longrightarrow> follows fr E local ps acks r0 rs"
  using kept_weaker by (cases rs; cases "fst rs") auto

lemma follows_then:
  assumes "follows fr E local ps acks r0 rs"
    and "\<And>x s. rs = (Inr x, s) \<Longrightarrow> kept fr E local ps acks r0 s \<Longrightarrow> follows fr E local ps acks r0 (f x s)"
  shows "follows fr E local ps acks r0 (then_do rs f)"
  using assms by (cases rs; cases "fst rs") auto

lemma follows_with:
  assumes "kept fr E local ps acks r0 s" and "\<And>x. r = Inr x \<Longrightarrow> follows fr E local ps acks r0 (f x s)"
  shows "follows fr E local ps acks r0 (with_result r f s)"
  using assms by (cases r) (auto dest: kept_weak)

lemma save_journal_failed:
  assumes "save_journal H fault g new f = (Inl e, f')"
  shows "f' = f \<or> mf_next f' \<noteq> None"
  using assms by (auto simp: save_journal_def Let_def split: if_splits save_fault.splits)

lemma save_journal_jammed: "mf_next f \<noteq> None \<Longrightarrow> \<exists>e. save_journal H fault g new f = (Inl e, f)"
  by (auto simp: save_journal_def)

lemma save_follows:
  assumes "codec_law E" and "disk_settled E local s rd \<or> jammed E local s rd" and "life (de_hash E) ps acks r0 rd"
    and "life (de_hash E) ps acks r0 (dt_recs s)"
  shows "follows True E local ps acks r0 (save E fault local s)"
proof -
  have same: "kept False E local ps acks r0 s" unfolding kept_def using assms(2-4) by blast
  let ?new = "de_encode E (dt_recs s)"
  obtain q f' where sv: "save_journal (de_hash E) fault (dt_gen s) ?new (dt_files s) = (q, f')" by (metis prod.exhaust)
  show ?thesis
  proof (cases "validate_records E local ?new")
    case (Inl e)
    then show ?thesis using same by (simp add: save_def Let_def)
  next
    case (Inr u)
    note valid = Inr
    show ?thesis
      using assms(2)
    proof
      assume "jammed E local s rd"
      then obtain e where "q = Inl e" "f' = dt_files s" using save_journal_jammed sv by (metis jammed_def prod.inject)
      then show ?thesis using same sv Inr by (simp add: save_def Let_def)
    next
      assume st: "disk_settled E local s rd"
      then obtain b where b: "hash_len (de_hash E)" "settled (de_hash E) (dt_gen s) b (dt_files s)"
        "pred_option (\<lambda>x. meta_valid E local x = Inr ()) b" "reads E b rd" by (auto simp: disk_settled_def)
      have v: "meta_valid E local ?new = Inr ()" using Inr by (simp add: meta_valid_Inr)
      have "length ?new \<le> MAX_IMAGE" using Inr by (auto simp: validate_records_def split: if_splits)
      then have new: "reads E (Some ?new) (dt_recs s)" using assms(1) by (simp add: reads_def codec_law_def)
      from meta.save_law [OF conjI [OF b(1,2)] b(3) v sv] show ?thesis
      proof
        assume l: "(\<exists>e. q = Inl e) \<and> (reads_like (de_hash E) (meta_valid E local) f' b \<or> reads_like (de_hash E) (meta_valid E local) f' (Some ?new))"
        then obtain e where e: "q = Inl e" by blast
        have says: "\<exists>r. disk_says E local f' r \<and> life (de_hash E) ps acks r0 r"
          unfolding disk_says_def using l b(4) new assms(3,4) by blast
        have "kept False E local ps acks r0 (s\<lparr>dt_files := f'\<rparr>)"
        proof (cases "f' = dt_files s")
          case True
          then show ?thesis using same by simp
        next
          case False
          then have "mf_next f' \<noteq> None" using save_journal_failed sv e by metis
          then show ?thesis using says assms(4) by (auto simp: kept_def jammed_def)
        qed
        then show ?thesis using e valid sv by (simp add: save_def Let_def)
      next
        assume "\<exists>g'. q = Inr g' \<and> hash_len (de_hash E) \<and> settled (de_hash E) g' (Some ?new) f'"
        then obtain g' where "q = Inr g'" "settled (de_hash E) g' (Some ?new) f'" by blast
        then show ?thesis using valid sv b(1) v new assms(4)
          by (auto simp: save_def Let_def kept_fresh disk_fresh_def disk_settled_def)
      qed
    qed
  qed
qed

lemma kept_save:
  assumes "codec_law E" and "kept fr E local ps acks r0 s" and "life (de_hash E) ps acks (dt_recs s) q"
  shows "follows fr E local ps acks r0 (save E fault local (s\<lparr>dt_recs := q\<rparr>))"
proof -
  obtain rd where rd: "life (de_hash E) ps acks r0 rd" "disk_settled E local s rd \<or> jammed E local s rd"
    using assms(2) by (rule kept_disk)
  have "life (de_hash E) ps acks r0 q" using assms(2,3) life_trans by (auto simp: kept_def)
  moreover have "disk_settled E local (s\<lparr>dt_recs := q\<rparr>) rd \<or> jammed E local (s\<lparr>dt_recs := q\<rparr>) rd"
    using rd(2) by (simp add: jammed_def)
  ultimately have "follows True E local ps acks r0 (save E fault local (s\<lparr>dt_recs := q\<rparr>))"
    using save_follows [OF assms(1) _ rd(1)] by simp
  then show ?thesis by (rule follows_weaker)
qed

lemma kept_save_out:
  assumes "codec_law E" and "kept fr E local ps acks r0 s" and "life_out (de_hash E) ps acks (rc_outgoing (dt_recs s)) rows"
  shows "follows fr E local ps acks r0 (save E fault local (set_out rows s))"
  unfolding set_out_def using assms(3) by (intro kept_save assms(1,2)) (auto simp: life_def)

lemma kept_save_in:
  assumes "codec_law E" and "kept fr E local ps acks r0 s" and "life_in (de_hash E) acks (rc_incoming (dt_recs s)) rows"
  shows "follows fr E local ps acks r0 (save E fault local (set_in rows s))"
  unfolding set_in_def using assms(3) by (intro kept_save assms(1,2)) (auto simp: life_def)

lemma save_answers: "save E fault local s = (Inr u, s') \<Longrightarrow> dt_recs s' = dt_recs s"
  by (auto simp: save_def Let_def split: sum.splits prod.splits)

text \<open>Calls that only touch the stages.\<close>

definition only_blobs :: "'p dt_state \<Rightarrow> (dt_error + 'a) \<times> 'p dt_state \<Rightarrow> bool" where
  "only_blobs s rs \<longleftrightarrow> (\<exists>w. snd rs = s\<lparr>dt_blobs := w\<rparr>)"

lemma only_blobsI: "snd rs = s\<lparr>dt_blobs := w\<rparr> \<Longrightarrow> only_blobs s rs"
  by (auto simp: only_blobs_def)

lemma only_blobs_same [simp]: "only_blobs s (r, s)" "only_blobs s (r, s\<lparr>dt_blobs := w\<rparr>)" "only_blobs s (r, drop_blob slot s)"
  "only_blobs (s\<lparr>dt_blobs := w\<rparr>) rs = only_blobs s rs"
  unfolding only_blobs_def drop_blob_def by (auto intro: exI [of _ "dt_blobs s"])

lemma only_blobs_with: "(\<And>x. r = Inr x \<Longrightarrow> only_blobs s (f x s)) \<Longrightarrow> only_blobs s (with_result r f s)"
  by (cases r) auto

lemma only_blobs_then:
  assumes "only_blobs s rs" and "\<And>x w. rs = (Inr x, s\<lparr>dt_blobs := w\<rparr>) \<Longrightarrow> only_blobs s (f x (s\<lparr>dt_blobs := w\<rparr>))"
  shows "only_blobs s (then_do rs f)"
  using assms by (cases rs; cases "fst rs") (auto simp: only_blobs_def)

lemma only_blobs_follow: "only_blobs s rs \<Longrightarrow> kept fr E local ps acks r0 s \<Longrightarrow> follows fr E local ps acks r0 rs"
  by (rule follows_kept) (auto simp: only_blobs_def)

lemma list_blobs_only: "only_blobs s (list_blobs E fault s)"
  by (simp add: list_blobs_def split: prod.splits)

lemma cancel_blob_only: "only_blobs s (cancel_blob E fault m s)"
  unfolding cancel_blob_def by (rule only_blobs_with) (simp split: prod.splits)

lemma open_blob_only: "only_blobs s (open_blob E fault m s)"
  unfolding open_blob_def by (rule only_blobs_with) (simp split: prod.splits sum.splits option.splits)

lemma receive_blob_only: "only_blobs s (receive_blob E io m create s)"
  unfolding receive_blob_def by (auto intro!: open_blob_only only_blobs_with split: prod.splits sum.splits)

lemma read_outgoing_only: "only_blobs s (read_outgoing E io k look local remote m at s)"
  unfolding read_outgoing_def
  by (auto intro!: only_blobs_with only_blobs_then open_blob_only simp: drop_blob_def split: option.splits sum.splits prod.splits)

end
