(* ===== verification/TransferKeeps.thy ===== *)
theory TransferKeeps
  imports TransferFacts
begin

text \<open>Each call of \<open>TransferState\<close> keeps to the rules of \<open>TransferFacts\<close>.\<close>

section \<open>Opening\<close>

lemma incoming_distinct:
  "check_incoming E local rows ids = Inr () \<Longrightarrow>
   distinct (map in_manifest rows) \<and> (\<forall>r \<in> set rows. \<exists>i. wire_id (de_hash E) (in_manifest r) = Inr i \<and> i \<notin> set ids)"
proof (induction rows arbitrary: ids)
  case (Cons r rows)
  then obtain i where i: "wire_id (de_hash E) (in_manifest r) = Inr i" "i \<notin> set ids" "check_incoming E local rows (i # ids) = Inr ()"
    by (auto simp: Let_def split: if_splits)
  from Cons.IH [OF i(3)] have rest: "distinct (map in_manifest rows)"
    "\<forall>q \<in> set rows. \<exists>j. wire_id (de_hash E) (in_manifest q) = Inr j \<and> j \<notin> set (i # ids)" by blast+
  then have "in_manifest r \<notin> in_manifest ` set rows" using i(1) by force
  then show ?case using rest i(1,2) by auto
qed simp

lemma cleanups_open:
  assumes "check_incoming E local rows [] = Inr ()" and "m \<in> set (cleanups rows)" and "r \<in> set rows" and "in_manifest r = m"
  shows "in_open r"
proof -
  from assms(2) obtain p where p: "InCleanup p \<in> set rows" "dp_manifest p = m"
    by (auto simp: cleanups_def split: in_row.splits)
  have "distinct (map in_manifest rows)" using incoming_distinct [OF assms(1)] by blast
  then have "inj_on in_manifest (set rows)" by (simp add: distinct_map)
  then have "r = InCleanup p" by (rule inj_onD) (use p assms(3,4) in simp_all)
  then show ?thesis by simp
qed

lemma recover_out_only: "only_blobs s (recover_out E io k rows s)"
proof (induction rows arbitrary: k s)
  case (Cons r rows)
  have "only_blobs s (recover_out E io k rows (s\<lparr>dt_blobs := w\<rparr>))" for k s w
    using Cons.IH [of "s\<lparr>dt_blobs := w\<rparr>" k] by simp
  then show ?case by (cases r) (auto intro!: only_blobs_then cancel_blob_only Cons.IH)
qed simp

lemma recover_out_life:
  "recover_out E io k rows s = (Inr (rows', ch), s') \<Longrightarrow> (life_out H ps acks)\<^sup>*\<^sup>* (pre @ rows) (pre @ rows')"
proof (induction rows arbitrary: k s rows' ch s' pre)
  case (Cons r rows)
  have step: "(life_out H ps acks)\<^sup>*\<^sup>* (pre @ x # rows) (pre @ x # rest)"
    if "recover_out E io k' rows s1 = (Inr (rest, ch'), s2)" for k' s1 rest ch' s2 x
    using Cons.IH [OF that, of "pre @ [x]"] by simp
  show ?case
  proof (cases "\<exists>p. r = OutAccepted p")
    case True
    then obtain p where r: "r = OutAccepted p" by blast
    then obtain rest k' s1 ch' s2 where rest: "recover_out E io k' rows s1 = (Inr (rest, ch'), s2)" "rows' = OutNeedAck p # rest"
      using Cons.prems by (auto simp: then_do_Inr)
    have "life_out H ps acks (pre @ r # rows) ((pre @ r # rows)[length pre := OutNeedAck p])"
      by (rule waiting) (use r in simp_all)
    then have "life_out H ps acks (pre @ r # rows) (pre @ OutNeedAck p # rows)" by simp
    then show ?thesis unfolding rest(2) by (rule converse_rtranclp_into_rtranclp) (rule step [OF rest(1)])
  next
    case False
    then obtain rest k' s1 ch' s2 where rest: "recover_out E io k' rows s1 = (Inr (rest, ch'), s2)" "rows' = r # rest"
      using Cons.prems by (cases r) (auto simp: then_do_Inr)
    show ?thesis unfolding rest(2) by (rule step [OF rest(1)])
  qed
qed simp

lemma recover_out_unchanged: "recover_out E io k rows s = (Inr (rows', False), s') \<Longrightarrow> rows' = rows"
proof (induction rows arbitrary: k s rows' s')
  case (Cons r rows)
  then show ?case by (cases r) (auto simp: then_do_Inr)
qed simp

lemma recover_in_follows:
  assumes "disk_settled E local s rd" and "life (de_hash E) ps acks r0 (dt_recs s)"
    and "\<forall>r \<in> set (rc_incoming (dt_recs s)). in_manifest r \<in> set ms \<longrightarrow> in_open r"
    and "recover_in E io k ms s = (q, s')"
  shows "disk_settled E local s' rd \<and> life (de_hash E) ps acks r0 (dt_recs s')"
  using assms
proof (induction ms arbitrary: k s)
  case (Cons m ms)
  obtain c w where c: "cancel_blob E (io_cancel io k) m s = (c, s\<lparr>dt_blobs := w\<rparr>)"
    using cancel_blob_only [of s E "io_cancel io k" m] unfolding only_blobs_def by (metis prod.collapse)
  let ?rows = "filter (\<lambda>r. in_manifest r \<noteq> m) (rc_incoming (dt_recs s))"
  have "life_in (de_hash E) acks (rc_incoming (dt_recs s)) ?rows" by (rule swept) (use Cons.prems(3) in simp)
  then have "life (de_hash E) ps acks (dt_recs s) ((dt_recs s)\<lparr>rc_incoming := ?rows\<rparr>)" by (simp add: life_def)
  note l = life_trans [OF Cons.prems(2) this]
  show ?case
  proof (cases c)
    case (Inl e)
    then show ?thesis using Cons.prems c by auto
  next
    case (Inr u)
    then have "recover_in E io (Suc k) ms (set_in ?rows (s\<lparr>dt_blobs := w\<rparr>)) = (q, s')" using Cons.prems(4) c by simp
    then show ?thesis using Cons.prems(1,3) l by (intro Cons.IH) simp_all
  qed
qed simp

lemma recovers_follow:
  assumes "codec_law E" and "kept True E local ps acks r0 s"
  shows "follows True E local ps acks r0 (recover_completed_cleanup E io local s)"
  unfolding recover_completed_cleanup_def
proof (rule follows_then [OF only_blobs_follow [OF recover_out_only assms(2)]])
  fix x s1
  assume a: "recover_out E io 0 (rc_outgoing (dt_recs s)) s = (Inr x, s1)" and k: "kept True E local ps acks r0 s1"
  obtain rows ch where x: "x = (rows, ch)" by (cases x)
  obtain w where s1: "s1 = s\<lparr>dt_blobs := w\<rparr>"
    using recover_out_only [of s E io 0 "rc_outgoing (dt_recs s)"] a by (auto simp: only_blobs_def)
  have "(life_out (de_hash E) ps acks)\<^sup>*\<^sup>* (rc_outgoing (dt_recs s)) rows"
    using recover_out_life [OF a [unfolded x], of "de_hash E" ps acks "[]"] by simp
  then have "life (de_hash E) ps acks (dt_recs s) ((dt_recs s)\<lparr>rc_outgoing := rows\<rparr>)" by (simp add: life_def)
  then have l: "life (de_hash E) ps acks r0 (dt_recs (set_out rows s1))"
    using assms(2) life_trans by (auto simp: kept_fresh s1)
  have d: "disk_settled E local (set_out rows s1) (dt_recs s)" using assms(2) by (simp add: kept_fresh disk_fresh_def s1)
  have r0: "life (de_hash E) ps acks r0 (dt_recs s)" using assms(2) by (simp add: kept_fresh)
  let ?ms = "cleanups (rc_incoming (dt_recs (set_out rows s1)))"
  have "check_incoming E local (rc_incoming (dt_recs (set_out rows s1))) [] = Inr ()"
    using settled_rows(2) [OF d] s1 by simp
  note o = cleanups_open [OF this]
  obtain q s2 where rin: "recover_in E io (length rows) ?ms (set_out rows s1) = (q, s2)" by (metis prod.exhaust)
  have s2: "disk_settled E local s2 (dt_recs s) \<and> life (de_hash E) ps acks r0 (dt_recs s2)"
    by (rule recover_in_follows [OF d l _ rin]) (use o in blast)
  have weak: "kept False E local ps acks r0 s2" using s2 r0 unfolding kept_def by blast
  have "follows True E local ps acks r0 (then_do (recover_in E io (length rows) ?ms (set_out rows s1))
      (\<lambda>_ s. if ch \<or> ?ms \<noteq> [] then save E (io_save io 0) local s else (Inr (), s)))"
  proof (cases q)
    case (Inl e)
    then show ?thesis using rin weak by simp
  next
    case (Inr u)
    show ?thesis
    proof (cases "ch \<or> ?ms \<noteq> []")
      case True
      then show ?thesis using rin Inr s2 save_follows [OF assms(1) _ r0, of local s2 "io_save io 0"] by simp
    next
      case False
      then have "rows = rc_outgoing (dt_recs s)" using recover_out_unchanged [of E io 0 _ s rows s1] a x by simp
      moreover have "s2 = set_out rows s1" using rin False by simp
      ultimately have "kept True E local ps acks r0 s2"
        using assms(2) by (simp add: s1 kept_fresh disk_fresh_def set_out_def disk_settled_def)
      then show ?thesis by (subst rin) (use Inr False in simp)
    qed
  qed
  then show "follows True E local ps acks r0 ((\<lambda>(rows, changed) s. let s = set_out rows s; ms = cleanups (rc_incoming (dt_recs s))
      in then_do (recover_in E io (length rows) ms s) (\<lambda>_ s. if changed \<or> ms \<noteq> [] then save E (io_save io 0) local s else (Inr (), s))) x s1)"
    by (simp only: x prod.case Let_def)
qed

lemma reconcile_only: "only_blobs s (reconcile_references E io s)"
  unfolding reconcile_references_def by (rule only_blobs_then [OF list_blobs_only]) simp

text \<open>An opening that fails has left the disk by the rules; one that answers gives what the disk says.\<close>

lemma opening_follows:
  assumes "codec_law E" and "disk_says E local files r" and "open_state E io local files w = (q, s)"
  shows "(\<exists>r'. disk_says E local (dt_files s) r' \<and> life (de_hash E) ps acks r r')" "q = Inr u \<Longrightarrow> kept True E local ps acks r s"
proof -
  from assms(2) obtain b where b: "reads_like (de_hash E) (meta_valid E local) files b" "reads E b r" by (auto simp: disk_says_def)
  obtain j f where l: "load_journal (de_hash E) (meta_valid E local) (io_load io) files = (j, f)" by (metis prod.exhaust)
  have dir: "\<exists>r'. disk_says E local files r' \<and> life (de_hash E) ps acks r r'" using assms(2) life_refl by blast
  have "(\<exists>r'. disk_says E local (dt_files s) r' \<and> life (de_hash E) ps acks r r') \<and> (q = Inr u \<longrightarrow> kept True E local ps acks r s)"
    using load_reads [OF b(1) l]
  proof (elim disjE exE conjE)
    fix e assume "j = Inl e" "f = files"
    then show ?thesis using l dir assms(3) by (auto simp: open_state_def Let_def split: if_splits)
  next
    fix g assume g: "j = Inr (g, b)" "settled (de_hash E) g b f"
    define s0 where "s0 = \<lparr>dt_files = f, dt_gen = g, dt_recs = r, dt_blobs = w\<rparr>"
    have k0: "kept True E local ps acks r s0"
      using g(2) b meta.reads_ok [OF b(1)] assms(1)
      by (auto simp: s0_def kept_fresh disk_fresh_def disk_settled_def codec_law_def)
    let ?rest = "then_do (reconcile_references E io s0) (\<lambda>_ s. recover_completed_cleanup E io local s)"
    have k: "follows True E local ps acks r ?rest"
      by (rule follows_then [OF only_blobs_follow [OF reconcile_only k0]], rule recovers_follow [OF assms(1)], assumption)
    have "(case b of None \<Rightarrow> Some (no_records E) | Some bytes \<Rightarrow> de_decode E bytes) = Some r"
      using b(2) by (cases b) (simp_all add: reads_def)
    then consider "\<exists>e. q = Inl e" "dt_files s = files" | "\<exists>e. q = Inl e" "s = s0" | "(q, s) = ?rest"
      using assms(3) l g(1) by (auto simp: open_state_def Let_def s0_def split: if_splits)
    then show ?thesis
    proof cases
      case 1
      then show ?thesis using dir by auto
    next
      case 2
      then show ?thesis using kept_says [OF k0] by auto
    next
      case 3
      then have f: "follows True E local ps acks r (q, s)" using k by simp
      then show ?thesis using kept_says [OF follows_weak [OF f]] by auto
    qed
  qed
  then show "(\<exists>r'. disk_says E local (dt_files s) r' \<and> life (de_hash E) ps acks r r')" "q = Inr u \<Longrightarrow> kept True E local ps acks r s" by blast+
qed

section \<open>Sending\<close>

lemma follows_blobs:
  assumes "only_blobs s rs" and "kept fr E local ps acks r0 s"
    and "\<And>x w. rs = (Inr x, s\<lparr>dt_blobs := w\<rparr>) \<Longrightarrow> follows fr E local ps acks r0 (f x (s\<lparr>dt_blobs := w\<rparr>))"
  shows "follows fr E local ps acks r0 (then_do rs f)"
  by (rule follows_then [OF only_blobs_follow [OF assms(1,2)]]) (use assms in \<open>auto simp: only_blobs_def\<close>)

lemma remove_follows:
  assumes "codec_law E" and "kept fr E local ps acks r0 s" and "i < length (rc_outgoing (dt_recs s))"
    and "rc_outgoing (dt_recs s) ! i = OutPreparing e"
  shows "follows fr E local ps acks r0
    (then_do (save E fault local (set_out (remove_at i (rc_outgoing (dt_recs s))) s)) (\<lambda>_ s. (Inr x, s)))"
  by (rule follows_then [OF kept_save_out [OF assms(1,2) withdrawn [OF assms(3,4)]]]) simp

lemma resume_follows:
  assumes "codec_law E" and "kept fr E local ps acks r0 s" and "i < length (rc_outgoing (dt_recs s))"
    and "rc_outgoing (dt_recs s) ! i = OutPreparing e"
  shows "follows fr E local ps acks r0 (resume_preparing E io look local remote i e s)"
  unfolding resume_preparing_def
proof (rule follows_blobs [OF list_blobs_only assms(2)], goal_cases)
  case (1 ms w)
  show ?case
  proof (cases "filter (same_preparing e) ms")
    case Nil
    then show ?thesis using remove_follows [OF assms(1), of fr local ps acks r0 "s\<lparr>dt_blobs := w\<rparr>"] assms by (simp add: Let_def)
  next
    case (Cons m more_ms)
    then have sm: "same_preparing e m" by (auto simp: filter_eq_Cons_iff)
    show ?thesis
    proof (cases "more_ms = []")
      case False
      then show ?thesis using Cons kept_weak [OF assms(2)] by (simp add: Let_def)
    next
      case True
      let ?s = "s\<lparr>dt_blobs := w\<rparr>"
      have "follows fr E local ps acks r0 (then_do (open_blob E (io_open io 0) m ?s) f)"
        if "\<And>x w'. follows fr E local ps acks r0 (f x (s\<lparr>dt_blobs := w'\<rparr>))" for f :: "_ \<Rightarrow> _ \<Rightarrow> (dt_error + doc_chunk option) \<times> _"
        by (rule follows_blobs [OF open_blob_only]) (use assms(2) that in simp_all)
      note opened = this
      have ready: "follows fr E local ps acks r0 (then_do (save E fault local (set_out ((rc_outgoing (dt_recs s))[i := OutReady m]) s')) f)"
        if "kept fr E local ps acks r0 s'" "dt_recs s' = dt_recs s" "\<And>x s. kept fr E local ps acks r0 s \<Longrightarrow> follows fr E local ps acks r0 (f x s)"
        for fault s' and f :: "_ \<Rightarrow> _ \<Rightarrow> (dt_error + doc_chunk option) \<times> _"
        by (rule follows_then [OF kept_save_out [OF assms(1) that(1)]]) (use that assms(3,4) sm adopted in \<open>simp_all\<close>)
      have gone: "follows fr E local ps acks r0 (then_do (cancel_blob E (io_discard io) m s')
            (\<lambda>_ s. then_do (save E (io_save io 2) local (set_out (remove_at i (rc_outgoing (dt_recs s))) s)) (\<lambda>_ s. (Inr None, s))))"
        if "kept fr E local ps acks r0 s'" "dt_recs s' = dt_recs s" for s'
        by (rule follows_blobs [OF cancel_blob_only that(1)], rule remove_follows [OF assms(1)]) (use that assms(3,4) in simp_all)
      show ?thesis
        unfolding Let_def Cons
        by (auto simp: True intro!: opened ready gone kept_weak assms(2) follows_then [OF only_blobs_follow [OF read_outgoing_only]]
            split: option.splits sum.splits progress.splits)
    qed
  qed
qed

lemma active_follows:
  assumes "codec_law E" and "kept fr E local ps acks r0 s"
  shows "follows fr E local ps acks r0 (offer_active E io look local remote name have' enc s)"
proof (cases "row_position (plan_for remote name) (rc_outgoing (dt_recs s))")
  case None
  then show ?thesis using assms(2) by (simp add: offer_active_def)
next
  case (Some i)
  then have i: "i < length (rc_outgoing (dt_recs s))" using row_position_Some by blast
  show ?thesis
    unfolding offer_active_def Some option.case Let_def
    by (rule follows_with [OF assms(2)], cases "rc_outgoing (dt_recs s) ! i")
      (auto intro!: resume_follows follows_then [OF only_blobs_follow [OF read_outgoing_only]] simp: assms i)
qed

lemma set_out_twice [simp]: "set_out rows (set_out rows' s) = set_out rows s"
  by (simp add: set_out_def)

lemma follows_maps [simp]:
  "follows fr E local ps acks r0 (and_then q (\<lambda>_. Inr y), s) \<longleftrightarrow> follows fr E local ps acks r0 (q, s)"
  "follows fr E local ps acks r0 (q, drop_blob slot s) \<longleftrightarrow> follows fr E local ps acks r0 (q, s)"
  by (cases q; simp)+

text \<open>What is prepared goes on as a ready plan, or its row is taken back.\<close>

lemma offered_follows:
  assumes "codec_law E" and "kept fr E local ps acks r0 s1" and "OutPreparing expected \<in> set (rc_outgoing (dt_recs s1))"
    and go: "(case o' of Inl e \<Rightarrow> (Inl (from_outbound e), s1\<lparr>dt_blobs := w\<rparr>, c2)
        | Inr (UpToDate _ _) \<Rightarrow> (case save E (io_save io 4) local (remove_preparing expected (s1\<lparr>dt_blobs := w\<rparr>)) of
            (r, s) \<Rightarrow> (and_then r (\<lambda>_. Inr None), s, c2))
        | Inr (Transfer ob) \<Rightarrow>
            (case xw_sinks w (ob_slot ob) of
               None \<Rightarrow> (Inl DtStorage, s1\<lparr>dt_blobs := w\<rparr>, c2)
             | Some sk \<Rightarrow>
                 if \<not> same_preparing expected (sk_manifest sk)
                 then (Inl (DtInvalid ''prepared target changed''), drop_blob (ob_slot ob) (s1\<lparr>dt_blobs := w\<rparr>), c2)
                 else case read_chunk (de_hash E) (io_read io) 0 (sk, sink_files w sk) of
                   Inl e \<Rightarrow> (Inl (from_core e), drop_blob (ob_slot ob) (s1\<lparr>dt_blobs := w\<rparr>), c2)
                 | Inr bytes \<Rightarrow>
                     (case save E (io_save io 4) local (set_out (rc_outgoing (dt_recs (remove_preparing expected (s1\<lparr>dt_blobs := w\<rparr>)))
                        @ [OutReady (sk_manifest sk)]) (remove_preparing expected (s1\<lparr>dt_blobs := w\<rparr>))) of
                        (r, s2) \<Rightarrow> (and_then r (\<lambda>_. Inr (Some \<lparr>ch_manifest = sk_manifest sk, ch_offset = 0, ch_bytes = bytes\<rparr>)),
                           drop_blob (ob_slot ob) s2, c2)))) = (r, s', c')"
  shows "follows fr E local ps acks r0 (r, s')"
proof -
  have says: "kept False E local ps acks r0 s1" using kept_weak [OF assms(2)] .
  have dropping: "follows fr E local ps acks r0 (save E fault local (remove_preparing expected (s1\<lparr>dt_blobs := w\<rparr>)))" for fault
    unfolding remove_preparing_def by (rule kept_save_out [OF assms(1)]) (use assms(2) dropped in simp_all)
  have readying: "follows fr E local ps acks r0 (save E fault local (set_out (rc_outgoing (dt_recs (remove_preparing expected (s1\<lparr>dt_blobs := w\<rparr>)))
      @ [OutReady m]) (remove_preparing expected (s1\<lparr>dt_blobs := w\<rparr>))))" if "same_preparing expected m" for m fault
    unfolding remove_preparing_def set_out_twice
    by (rule kept_save_out [OF assms(1)]) (use assms(2) readied [OF assms(3) that] in simp_all)
  show ?thesis
  proof (cases o')
    case (Inl e)
    then show ?thesis using go says by auto
  next
    case (Inr pd)
    show ?thesis
    proof (cases pd)
      case (UpToDate a b)
      then show ?thesis using go Inr dropping [of "io_save io 4"]
        by (auto split: prod.splits)
    next
      case (Transfer ob)
      show ?thesis
      proof (cases "xw_sinks w (ob_slot ob)")
        case None
        then show ?thesis using go Inr Transfer says by auto
      next
        case (Some sk)
        show ?thesis
        proof (cases "same_preparing expected (sk_manifest sk)")
          case False
          then show ?thesis using go Inr Transfer Some says by auto
        next
          case True
          show ?thesis
          proof (cases "read_chunk (de_hash E) (io_read io) 0 (sk, sink_files w sk)")
            case (Inl e)
            then show ?thesis using go Inr Transfer Some True says by auto
          next
            case bytes: (Inr bytes)
            then show ?thesis using go Inr Transfer Some True readying [OF True, of "io_save io 4"]
              by (auto split: prod.splits)
          qed
        qed
      qed
    qed
  qed
qed

lemma offer_new_follows:
  assumes "codec_law E" and "kept fr E local ps acks r0 s"
    and "offer_new E X io pio fail again again2 local remote name have' enc c s = (r, s', c')"
  shows "follows fr E local ps acks r0 (r, s')"
proof (cases fail)
  case (Some e)
  then show ?thesis using assms(3) kept_weak [OF assms(2)] by (auto simp: offer_new_def)
next
  case None
  obtain d st p where c: "c = (d, st, p)" by (cases c)
  let ?desc = "\<lparr>ds_document = name, ds_epoch = st_epoch st, ds_encoding = enc, ds_base = dvn_version have', ds_target = xd_version X d\<rparr>"
  let ?spec = "\<lparr>ps_document = name, ps_source = local, ps_recipient = remote, ps_receiver_epoch = dvn_epoch have',
      ps_base = dvn_version have', ps_encoding = enc\<rparr>"
  show ?thesis
  proof (cases "st_epoch st \<noteq> dvn_epoch have'")
    case True
    then show ?thesis using assms(3) None c kept_weak [OF assms(2)] by (auto simp: offer_new_def)
  next
    case same: False
    show ?thesis
    proof (cases "bind_doc ?desc local remote 0 (replicate 32 0)")
      case (Inl e)
      then show ?thesis using assms(3) None c same kept_weak [OF assms(2)] by (auto simp: offer_new_def)
    next
      case (Inr expected)
      let ?planned = "set_out (rc_outgoing (dt_recs s) @ [OutPreparing expected]) s"
      obtain q s1 where sv: "save E (io_save io 3) local ?planned = (q, s1)" by (metis prod.exhaust)
      have f1: "follows fr E local ps acks r0 (q, s1)"
        using kept_save_out [OF assms(1,2) planned, of "io_save io 3" expected] sv by simp
      show ?thesis
      proof (cases q)
        case (Inl e)
        then show ?thesis using assms(3) None c same Inr sv f1 by (auto simp: offer_new_def)
      next
        case ok: (Inr u)
        then have k1: "kept fr E local ps acks r0 s1" using f1 by simp
        have recs: "rc_outgoing (dt_recs s1) = rc_outgoing (dt_recs s) @ [OutPreparing expected]"
          using save_answers [of E "io_save io 3" local ?planned u s1] sv ok by simp
        obtain o' c2 w where pr: "prepare X pio again again2 (io_open io 2) (io_stage io) ?spec (d, st, p) (dt_blobs s1) = (o', c2, w)"
          by (metis prod.exhaust)
        have mem: "OutPreparing expected \<in> set (rc_outgoing (dt_recs s1))" using recs by simp
        show ?thesis
          by (rule offered_follows [OF assms(1) k1 mem, where o' = o' and w = w and ?c2.0 = c2 and io = io and c' = c'])
            (use assms(3) [unfolded offer_new_def Let_def] None c same Inr sv ok pr in
               \<open>cases o'; cases "projr o'"; simp\<close>)
      qed
    qed
  qed
qed

lemma offer_follows:
  assumes "codec_law E" and "kept fr E local ps acks r0 s"
    and "offer_encoded E X io pio look fail again again2 local remote name have' enc c s = (r, s', c')"
  shows "follows fr E local ps acks r0 (r, s')"
proof -
  obtain q s1 where a: "offer_active E io look local remote name have' enc s = (q, s1)" by (metis prod.exhaust)
  have f: "follows fr E local ps acks r0 (q, s1)"
    using active_follows [OF assms(1,2), of io look remote name have' enc] a by simp
  show ?thesis
  proof (cases "q = Inr None")
    case True
    then have "offer_new E X io pio fail again again2 local remote name have' enc c s1 = (r, s', c')" "kept fr E local ps acks r0 s1"
      using assms(3) a f by (simp_all add: offer_encoded_def)
    then show ?thesis by (rule offer_new_follows [OF assms(1), rotated])
  next
    case False
    then show ?thesis using assms(3) a f by (auto simp: offer_encoded_def split: sum.splits option.splits)
  qed
qed

section \<open>Receiving\<close>

lemma row_of_Some: "row_of m s = Some i \<Longrightarrow> i < length (rc_incoming (dt_recs s)) \<and> in_manifest (rc_incoming (dt_recs s) ! i) = m"
  unfolding row_of_def by (rule row_position_Some)

definition row_open :: "manifest \<Rightarrow> 'p dt_state \<Rightarrow> bool" where
  "row_open m s \<longleftrightarrow> (case row_of m s of None \<Rightarrow> True | Some i \<Rightarrow> in_open (rc_incoming (dt_recs s) ! i))"

lemma complete_follows:
  assumes "codec_law E" and "kept fr E local ps acks r0 s" and "row_open m s" and "dp_manifest p = m"
  shows "follows fr E local ps acks r0 (save E fault local (set_in (case row_of m s of
      Some k \<Rightarrow> (rc_incoming (dt_recs s))[k := InComplete p n g] | None \<Rightarrow> rc_incoming (dt_recs s) @ [InComplete p n g]) s))"
  by (rule kept_save_in [OF assms(1,2)])
    (use assms(3,4) row_of_Some [of m s] in \<open>auto simp: row_open_def intro: complete had split: option.splits\<close>)

lemma completed_cases:
  assumes "\<nexists>k p n g. row_of m s = Some k \<and> rc_incoming (dt_recs s) ! k = InComplete p n g"
  shows "row_open m s"
  using assms by (auto simp: row_open_def in_open_def split: option.splits in_row.splits)

lemma completed_follows:
  assumes "codec_law E" and "kept fr E local ps acks r0 s"
  shows "follows fr E local ps acks r0 (completed E io local m version s)"
proof (cases "\<exists>k p n g. row_of m s = Some k \<and> rc_incoming (dt_recs s) ! k = InComplete p n g")
  case True
  then obtain k p n g where k: "row_of m s = Some k" "rc_incoming (dt_recs s) ! k = InComplete p n g" by blast
  show ?thesis
    unfolding completed_def Let_def
    by (rule follows_with [OF assms(2)]) (use k assms(2) kept_weak [OF assms(2)] in \<open>auto intro!: follows_with\<close>)
next
  case False
  note o = completed_cases [OF this]
  have saved: "follows fr E local ps acks r0 (then_do (save E (io_save io 5) local (set_in (case row_of m s of
      Some k \<Rightarrow> (rc_incoming (dt_recs s))[k := InComplete \<lparr>dp_manifest = m, dp_version = b, dp_kind = AlreadyHaveEquivalent\<rparr> ch None]
    | None \<Rightarrow> rc_incoming (dt_recs s) @ [InComplete \<lparr>dp_manifest = m, dp_version = b, dp_kind = AlreadyHaveEquivalent\<rparr> ch None]) s))
      (\<lambda>_ s. (Inr (Some (TsComplete \<lparr>dp_manifest = m, dp_version = b, dp_kind = AlreadyHaveEquivalent\<rparr>)), s)))" for b ch
    by (rule follows_then [OF complete_follows [OF assms(1,2) o]]) simp_all
  show ?thesis
    unfolding completed_def Let_def
    by (rule follows_with [OF assms(2)], use False saved assms(2) in \<open>cases "row_of m s"\<close>)
      (auto split: in_row.splits intro!: follows_with [OF assms(2)])
qed

lemma completed_None:
  assumes "completed E io local m version s = (Inr None, s')"
  shows "s' = s \<and> row_open m s"
proof (cases "\<exists>k p n g. row_of m s = Some k \<and> rc_incoming (dt_recs s) ! k = InComplete p n g")
  case True
  then show ?thesis using assms by (auto simp: completed_def Let_def with_result_Inr split: if_splits)
next
  case False
  then have "s' = s"
    using assms by (cases "row_of m s")
      (auto simp: completed_def Let_def with_result_Inr then_do_Inr split: if_splits in_row.splits)
  then show ?thesis using completed_cases [OF False] by blast
qed

lemma row_open_more [simp]: "row_open m (s\<lparr>dt_blobs := w\<rparr>) = row_open m s" "row_open m (drop_blob slot s) = row_open m s"
  by (simp_all add: row_open_def row_of_def drop_blob_def split: option.split)

lemma row_open_began:
  assumes "row_of m s = None" and "dt_recs s' = dt_recs (set_in (rc_incoming (dt_recs s) @ [InReceiving m]) s)"
  shows "row_open m s'"
proof -
  have "row_of m s' = Some (length (rc_incoming (dt_recs s)))"
    unfolding row_of_def assms(2) set_rows_simps by (simp, rule row_position_append_new) (use assms(1) in \<open>simp_all add: row_of_def\<close>)
  then show ?thesis using assms(2) by (simp add: row_open_def)
qed

lemma store_chunk_follows:
  assumes "codec_law E" and "kept fr E local ps acks r0 s"
  shows "follows fr E local ps acks r0 (store_chunk E io local chunk name create s)"
proof -
  let ?m = "ch_manifest chunk"
  have began: "follows fr E local ps acks r0 (if row_of ?m s = None
        then save E (io_save io 1) local (set_in (rc_incoming (dt_recs s) @ [InReceiving ?m]) s) else (Inr (), s))"
    using kept_save_in [OF assms(1,2) begun] assms(2) by simp
  have stored: "follows fr E local ps acks r0 (then_do (receive_blob E io ?m create s') (\<lambda>o' s.
        case o' of
          None \<Rightarrow> (Inr (Inl TsMissing), s)
        | Some (slot, sk) \<Rightarrow>
            (case append_at (de_hash E) (io_append io) slot (ch_offset chunk) (ch_bytes chunk) (dt_blobs s) of
               (Some (Inr (Stored n)), w) \<Rightarrow> (Inr (Inl (TsStored n)), drop_blob slot (s\<lparr>dt_blobs := w\<rparr>))
             | (Some (Inr (VerifiedComplete _ _)), w) \<Rightarrow> (Inr (Inr (slot, name)), s\<lparr>dt_blobs := w\<rparr>)
             | (Some (Inl e), w) \<Rightarrow> (Inl (from_core e), drop_blob slot (s\<lparr>dt_blobs := w\<rparr>))
             | (None, w) \<Rightarrow> (Inl DtStorage, s\<lparr>dt_blobs := w\<rparr>))))" if k: "kept fr E local ps acks r0 s'" for s'
    by (rule follows_blobs [OF receive_blob_only k]) (use k kept_weak [OF k] in \<open>auto split: option.split sum.split prod.split progress.split\<close>)
  show ?thesis
  proof (cases "row_of ?m s = None \<and> \<not> create")
    case False
    show ?thesis
      unfolding store_chunk_def Let_def if_not_P [OF False] by (rule follows_then [OF began]) (rule stored)
  qed (use assms(2) in \<open>simp add: store_chunk_def\<close>)
qed

lemma chunk_follows:
  assumes "codec_law E" and "kept fr E local ps acks r0 s"
  shows "follows fr E local ps acks r0 (receive_chunk E io look local remote chunk create s)"
proof -
  have "follows fr E local ps acks r0 (case complete of Some t \<Rightarrow> (Inr (Inl t), s') | None \<Rightarrow> store_chunk E io local chunk name create s')"
    if "kept fr E local ps acks r0 s'" for complete s' name
    using that store_chunk_follows [OF assms(1)] by (simp split: option.split)
  then show ?thesis
    unfolding receive_chunk_def Let_def
    by (intro follows_with [OF assms(2)]) (auto simp: assms(2) intro!: follows_with [OF assms(2)] follows_then [OF completed_follows [OF assms]])
qed

lemma stored_whole:
  assumes "then_do rs (\<lambda>o' s. case o' of
       None \<Rightarrow> (Inr (Inl TsMissing), s)
     | Some (slot, sk) \<Rightarrow>
         (case append_at H fault slot k bytes (dt_blobs s) of
            (Some (Inr (Stored n)), w) \<Rightarrow> (Inr (Inl (TsStored n)), drop_blob slot (s\<lparr>dt_blobs := w\<rparr>))
          | (Some (Inr (VerifiedComplete _ _)), w) \<Rightarrow> (Inr (Inr (slot, name)), s\<lparr>dt_blobs := w\<rparr>)
          | (Some (Inl e), w) \<Rightarrow> (Inl (from_core e), drop_blob slot (s\<lparr>dt_blobs := w\<rparr>))
          | (None, w) \<Rightarrow> (Inl DtStorage, s\<lparr>dt_blobs := w\<rparr>))) = (Inr (Inr x), s')"
  shows "\<exists>w. s' = (snd rs)\<lparr>dt_blobs := w\<rparr>"
proof -
  from assms obtain o' s where rs: "rs = (Inr o', s)" by (auto simp: then_do_Inr)
  show ?thesis
  proof (cases o')
    case (Some p)
    obtain slot sk where p: "p = (slot, sk)" by (cases p)
    obtain a w where a: "append_at H fault slot k bytes (dt_blobs s) = (a, w)" by (metis prod.exhaust)
    show ?thesis
      by (cases a; cases "the a"; cases "projr (the a)") (use assms rs Some p a in auto)
  qed (use assms rs in simp)
qed

lemma store_chunk_whole:
  assumes "store_chunk E io local chunk name create s = (Inr (Inr x), s')" and "row_open (ch_manifest chunk) s"
  shows "row_open (ch_manifest chunk) s'"
proof -
  let ?m = "ch_manifest chunk"
  have "\<not> (row_of ?m s = None \<and> \<not> create)"
  proof
    assume h: "row_of ?m s = None \<and> \<not> create"
    have "store_chunk E io local chunk name create s = (Inr (Inl TsMissing), s)"
      unfolding store_chunk_def Let_def if_P [OF h] by (rule refl)
    then show False using assms(1) by simp
  qed
  note a = assms(1) [unfolded store_chunk_def Let_def if_not_P [OF this], THEN then_do_Inr [THEN iffD1]]
  from a obtain u s2 where b: "(if row_of ?m s = None then save E (io_save io 1) local (set_in (rc_incoming (dt_recs s) @ [InReceiving ?m]) s)
      else (Inr (), s)) = (Inr u, s2)" "\<exists>w. s' = (snd (receive_blob E io ?m create s2))\<lparr>dt_blobs := w\<rparr>"
    by (elim exE conjE) (drule stored_whole, blast)
  have "row_open ?m s2"
  proof (cases "row_of ?m s = None")
    case True
    then have "save E (io_save io 1) local (set_in (rc_incoming (dt_recs s) @ [InReceiving ?m]) s) = (Inr u, s2)" using b(1) by simp
    then show ?thesis by (rule row_open_began [OF True save_answers])
  qed (use b(1) assms(2) in auto)
  then show ?thesis using b(2) receive_blob_only [of s2 E io ?m create] by (auto simp: only_blobs_def)
qed

lemma chunk_row_open:
  assumes "receive_chunk E io look local remote chunk create s = (Inr (Inr x), s')"
  shows "row_open (ch_manifest chunk) s'"
proof -
  from assms obtain version s1 name where "completed E io local (ch_manifest chunk) version s = (Inr None, s1)"
    "store_chunk E io local chunk name create s1 = (Inr (Inr x), s')"
    unfolding receive_chunk_def Let_def by (auto simp: with_result_Inr then_do_Inr split: if_splits option.splits)
  then show ?thesis using store_chunk_whole completed_None by metis
qed

lemma row_of_settled: "rc_incoming (dt_recs s') = rc_incoming (dt_recs s) \<Longrightarrow> row_of m s' = row_of m s"
  by (simp add: row_of_def)

text \<open>The import's receipt, over the row that announced it.\<close>

lemma receipt_follows:
  assumes "codec_law E" and "kept fr E local ps acks r0 s" and "i < length (rc_incoming (dt_recs s))"
    and "rc_incoming (dt_recs s) ! i = InImporting m b" and "dp_manifest p = m"
  shows "follows fr E local ps acks r0 (save E fault local (set_in ((rc_incoming (dt_recs s))[i := InComplete p n g]) s))"
  by (rule kept_save_in [OF assms(1,2)], rule complete) (use assms(3-5) in simp_all)

lemma import_follows:
  assumes "codec_law E" and "kept fr E local ps acks r0 s" and "row_open m s"
    and "import_stage E X io look aio fail local remote m name slot l s = (r, s', l')"
  shows "follows fr E local ps acks r0 (r, s')"
proof (cases "\<exists>before i bytes. look 1 name = Inr before \<and> row_of m s = Some i \<and> map_err from_core (encode_version before) = Inr bytes")
  case False
  then show ?thesis
    using assms(4) kept_weak [OF assms(2)] by (auto simp: import_stage_def split: sum.splits option.splits)
next
  case True
  then obtain before i bytes where t: "look 1 name = Inr before" "row_of m s = Some i"
    "map_err from_core (encode_version before) = Inr bytes" by blast
  have i: "i < length (rc_incoming (dt_recs s))" "in_manifest (rc_incoming (dt_recs s) ! i) = m" "in_open (rc_incoming (dt_recs s) ! i)"
    using row_of_Some [OF t(2)] assms(3) t(2) by (simp_all add: row_open_def)
  let ?s1 = "set_in ((rc_incoming (dt_recs s))[i := InImporting m bytes]) s"
  obtain q s2 where sv: "save E (io_save io 2) local ?s1 = (q, s2)" by (metis prod.exhaust)
  have f: "follows fr E local ps acks r0 (q, s2)"
    using kept_save_in [OF assms(1,2) importing [OF i(1,3,2)], of "io_save io 2" bytes] sv by simp
  show ?thesis
  proof (cases q)
    case (Inl e)
    then show ?thesis using assms(4) t sv f by (auto simp: import_stage_def)
  next
    case (Inr u)
    have k: "kept fr E local ps acks r0 s2" using f Inr by simp
    have rows: "i < length (rc_incoming (dt_recs s2))" "rc_incoming (dt_recs s2) ! i = InImporting m bytes"
      using save_answers [of E "io_save io 2" local ?s1 u s2] sv Inr i(1) by simp_all
    have receipt: "follows fr E local ps acks r0 (q', s3)"
      if "save E (io_save io 3) local (set_in ((rc_incoming (dt_recs s2))[i :=
          InComplete \<lparr>dp_manifest = m, dp_version = v, dp_kind = Applied\<rparr> n g]) (drop_blob slot s2)) = (q', s3)" for v n g q' s3
      using receipt_follows [OF assms(1), of fr local ps acks r0 "drop_blob slot s2"] k rows by (simp flip: that)
    show ?thesis
      using assms(4) t sv Inr k kept_weak [OF k]
      by (auto simp: import_stage_def Let_def dest: receipt split: option.splits sum.splits prod.splits)
  qed
qed

lemma receive_follows:
  assumes "codec_law E" and "kept fr E local ps acks r0 s"
    and "receive_doc E X io look aio fail local remote chunk create l s = (r, s', l')"
  shows "follows fr E local ps acks r0 (r, s')"
proof -
  obtain q s1 where c: "receive_chunk E io look local remote chunk create s = (q, s1)" by (metis prod.exhaust)
  have f: "follows fr E local ps acks r0 (q, s1)" using chunk_follows [OF assms(1,2)] c by metis
  show ?thesis
  proof (cases "\<exists>slot name. q = Inr (Inr (slot, name))")
    case True
    then obtain slot name where q: "q = Inr (Inr (slot, name))" by blast
    then have "import_stage E X io look aio fail local remote (ch_manifest chunk) name slot l s1 = (r, s', l')"
      using assms(3) c by (simp add: receive_doc_def)
    then show ?thesis using import_follows [OF assms(1)] f q chunk_row_open c by fastforce
  next
    case False
    then show ?thesis using assms(3) c f by (auto simp: receive_doc_def split: sum.splits)
  qed
qed

lemma status_follows:
  assumes "codec_law E" and "kept fr E local ps acks r0 s"
  shows "follows fr E local ps acks r0 (status E io look local remote m s)"
proof -
  have opened: "follows fr E local ps acks r0 (if \<not> has_row m s' then (Inr TsMissing, s')
      else then_do (open_blob E (io_open io 0) m s') (\<lambda>o' s. case o' of
          None \<Rightarrow> (Inr TsMissing, s) | Some (slot, sk) \<Rightarrow> (Inr (TsStored (sk_offset sk)), drop_blob slot s)))"
    if k: "kept fr E local ps acks r0 s'" for s'
    using follows_blobs [OF open_blob_only k] k by (auto intro!: follows_blobs [OF open_blob_only k] split: option.split)
  have answered: "follows fr E local ps acks r0 (case complete of Some t \<Rightarrow> (Inr t, s') | None \<Rightarrow> rest s')"
    if "kept fr E local ps acks r0 s'" "follows fr E local ps acks r0 (rest s')" for complete s' and rest :: "_ \<Rightarrow> (dt_error + transfer_state) \<times> _"
    using that by (auto split: option.split)
  have looked: "follows fr E local ps acks r0 (if P then (Inr t, s) else rs)" if "follows fr E local ps acks r0 rs"
    for P t and rs :: "(dt_error + transfer_state) \<times> _"
    using that assms(2) by simp
  show ?thesis
    unfolding status_def
    by (intro follows_with [OF assms(2)], rule looked, rule follows_then [OF completed_follows [OF assms]], rule answered,
        assumption, rule opened)
qed

lemma offset_only: "only_blobs s (incoming_offset E io m s)"
  unfolding incoming_offset_def by (auto intro!: only_blobs_then open_blob_only simp: drop_blob_def split: option.splits)

section \<open>Completions\<close>

lemma completion_valid: "validate_completion look local remote p = Inr () \<Longrightarrow> proof_valid p = Inr ()"
  by (auto simp: validate_completion_def)

lemma accept_checked_follows:
  assumes "codec_law E" and "kept fr E local ps acks r0 s" and "p \<in> ps" and "proof_valid p = Inr ()"
  shows "follows fr E local ps acks r0 (accept_checked E io local p confirmation s)"
proof (cases "row_position (\<lambda>r. out_manifest r = dp_manifest p) (rc_outgoing (dt_recs s))")
  case None
  then show ?thesis
    unfolding accept_checked_def by (intro follows_with [OF assms(2)]) (use assms(2) in \<open>auto intro: follows_kept kept_weak\<close>)
next
  case (Some i)
  have i: "i < length (rc_outgoing (dt_recs s))" "out_manifest (rc_outgoing (dt_recs s) ! i) = dp_manifest p"
    using row_position_Some [OF Some] by simp_all
  have last: "follows fr E local ps acks r0 (then_do (save E (io_save io 2) local
      (set_out (if confirmation then remove_at i (rc_outgoing (dt_recs s1)) else (rc_outgoing (dt_recs s1))[i := OutNeedAck p]) s1))
      (\<lambda>_ s. (acknowledgement (de_hash E) p, s)))"
    if k: "kept fr E local ps acks r0 s1" and r: "i < length (rc_outgoing (dt_recs s1))" "rc_outgoing (dt_recs s1) ! i = OutAccepted p" for s1
  proof (rule follows_then [OF kept_save_out [OF assms(1) k]])
    show "life_out (de_hash E) ps acks (rc_outgoing (dt_recs s1))
        (if confirmation then remove_at i (rc_outgoing (dt_recs s1)) else (rc_outgoing (dt_recs s1))[i := OutNeedAck p])"
      using confirmed [OF r] waiting [OF r] by simp
  qed (auto intro: follows_kept)
  show ?thesis
    unfolding accept_checked_def
  proof (rule follows_with [OF assms(2)], unfold Some option.case, rule follows_then [OF kept_save_out [OF assms(1,2) accepted [OF i(1) assms(3,4) i(2)]]])
    fix u s1
    assume sv: "save E (io_save io 1) local (set_out ((rc_outgoing (dt_recs s))[i := OutAccepted p]) s) = (Inr u, s1)"
      and k: "kept fr E local ps acks r0 s1"
    have "i < length (rc_outgoing (dt_recs s1))" "rc_outgoing (dt_recs s1) ! i = OutAccepted p"
      using save_answers [OF sv] i(1) by simp_all
    then show "follows fr E local ps acks r0 (then_do (cancel_blob E (io_discard io) (dp_manifest p) s1) (\<lambda>_ s.
        then_do (save E (io_save io 2) local (set_out (if confirmation then remove_at i (rc_outgoing (dt_recs s))
            else (rc_outgoing (dt_recs s))[i := OutNeedAck p]) s)) (\<lambda>_ s. (acknowledgement (de_hash E) p, s))))"
      by (intro follows_blobs [OF cancel_blob_only k] last) (use k in simp_all)
  qed
qed

lemma accept_follows:
  assumes "codec_law E" and "kept fr E local ps acks r0 s" and "p \<in> ps"
  shows "follows fr E local ps acks r0 (accept_proof E io look local remote p confirmation s)"
  unfolding accept_proof_def
  by (rule follows_with [OF assms(2)], rule accept_checked_follows [OF assms], rule completion_valid) simp

lemma accept_sent_follows:
  assumes "codec_law E" and "kept fr E local ps acks r0 s" and "p \<in> ps"
  shows "follows fr E local ps acks r0 (accept_sent E io look local remote sent p s)"
proof (cases "sent = dp_manifest p \<and> validate_completion look local remote p = Inr ()")
  case True
  then have v: "proof_valid p = Inr ()" using completion_valid by blast
  have new: "follows fr E local ps acks r0 (with_result (acknowledgement (de_hash E) p) (\<lambda>a s.
      then_do (save E (io_save io 1) local (set_out (rc_outgoing (dt_recs s) @ [OutNeedAck p]) s)) (\<lambda>_ s. (Inr a, s))) s)"
    by (rule follows_with [OF assms(2)], rule follows_then [OF kept_save_out [OF assms(1,2) repeated [OF assms(3) v]]]) simp
  then show ?thesis
    using True accept_checked_follows [OF assms v, of io False] by (simp add: accept_sent_def)
next
  case False
  then show ?thesis
    using kept_weak [OF assms(2)] by (auto simp: accept_sent_def intro!: follows_with [OF assms(2)])
qed

lemma acknowledge_follows:
  assumes "codec_law E" and "kept fr E local ps acks r0 s" and "ack \<in> acks"
  shows "follows fr E local ps acks r0 (acknowledge E io local remote ack s)"
proof (cases "row_of (da_manifest ack) s")
  case None
  then show ?thesis
    unfolding acknowledge_def by (intro follows_with [OF assms(2)]) (use assms(2) in simp)
next
  case (Some i)
  note i = row_of_Some [OF Some]
  have freed: "follows fr E local ps acks r0
      (then_do (save E (io_save io 1) local (set_in ((rc_incoming (dt_recs s))[i := InCleanup p]) s)) (\<lambda>_ s.
       then_do (cancel_blob E (io_discard io) (da_manifest ack) s) (\<lambda>_ s.
       then_do (save E (io_save io 2) local (set_in (remove_at i (rc_incoming (dt_recs s))) s)) (\<lambda>_ s. (Inr (AckReleased ack), s)))))"
    if "\<exists>n g. rc_incoming (dt_recs s) ! i = InComplete p n g \<or> rc_incoming (dt_recs s) ! i = InCleanup p"
      "acknowledgement (de_hash E) p = Inr ack" for p
  proof -
    from that(1) obtain n g where r: "rc_incoming (dt_recs s) ! i = InComplete p n g \<or> rc_incoming (dt_recs s) ! i = InCleanup p" by blast
    show ?thesis
    proof (rule follows_then [OF kept_save_in [OF assms(1,2) released [OF conjunct1 [OF i] r that(2) assms(3)]]])
      fix u s1
      assume sv: "save E (io_save io 1) local (set_in ((rc_incoming (dt_recs s))[i := InCleanup p]) s) = (Inr u, s1)"
        and k: "kept fr E local ps acks r0 s1"
      have c: "i < length (rc_incoming (dt_recs s1))" "rc_incoming (dt_recs s1) ! i = InCleanup p"
        using save_answers [OF sv] i by simp_all
      show "follows fr E local ps acks r0 (then_do (cancel_blob E (io_discard io) (da_manifest ack) s1) (\<lambda>_ s.
          then_do (save E (io_save io 2) local (set_in (remove_at i (rc_incoming (dt_recs s))) s)) (\<lambda>_ s. (Inr (AckReleased ack), s))))"
        by (rule follows_blobs [OF cancel_blob_only k], rule follows_then [OF kept_save_in [OF assms(1)]])
          (use k cleaned [OF c] in simp_all)
    qed
  qed
  have judged: "follows fr E local ps acks r0 (with_result (acknowledgement (de_hash E) p) (\<lambda>a s. if a \<noteq> ack then (Inr (AckReconfirm p), s)
      else then_do (save E (io_save io 1) local (set_in ((rc_incoming (dt_recs s))[i := InCleanup p]) s)) (\<lambda>_ s.
       then_do (cancel_blob E (io_discard io) (da_manifest ack) s) (\<lambda>_ s.
       then_do (save E (io_save io 2) local (set_in (remove_at i (rc_incoming (dt_recs s))) s)) (\<lambda>_ s. (Inr (AckReleased ack), s))))) s)"
    if "\<exists>n g. rc_incoming (dt_recs s) ! i = InComplete p n g \<or> rc_incoming (dt_recs s) ! i = InCleanup p" for p
    by (rule follows_with [OF assms(2)]) (use freed [OF that] assms(2) in simp)
  show ?thesis
    unfolding acknowledge_def
    by (rule follows_with [OF assms(2)], unfold Some option.case)
      (use kept_weak [OF assms(2)] judged in \<open>cases "rc_incoming (dt_recs s) ! i"; simp\<close>)
qed

lemma acknowledged_follows:
  assumes "codec_law E" and "kept fr E local ps acks r0 s"
    and "case result of AckReleased a \<Rightarrow> a \<in> acks | AckAbsent a \<Rightarrow> a \<in> acks | AckReconfirm p \<Rightarrow> p \<in> ps"
  shows "follows fr E local ps acks r0 (acknowledged E io look local remote result s)"
proof -
  have settle: "follows fr E local ps acks r0 (with_result (authorize (da_manifest ack) local remote) (\<lambda>_ s.
      case row_position (\<lambda>r. case r of OutNeedAck p \<Rightarrow> acknowledgement (de_hash E) p = Inr ack | _ \<Rightarrow> False) (rc_outgoing (dt_recs s)) of
        None \<Rightarrow> (Inr (), s)
      | Some i \<Rightarrow> save E (io_save io 1) local (set_out (remove_at i (rc_outgoing (dt_recs s))) s)) s)" if a: "ack \<in> acks" for ack
  proof (rule follows_with [OF assms(2)],
      cases "row_position (\<lambda>r. case r of OutNeedAck p \<Rightarrow> acknowledgement (de_hash E) p = Inr ack | _ \<Rightarrow> False) (rc_outgoing (dt_recs s))", goal_cases)
    case (2 u i)
    note i = row_position_Some [OF 2(2)]
    then obtain p where "rc_outgoing (dt_recs s) ! i = OutNeedAck p" "acknowledgement (de_hash E) p = Inr ack"
      by (auto split: out_row.splits)
    then show ?case
      unfolding 2(2) option.case by (intro kept_save_out [OF assms(1,2)] acked [OF conjunct1 [OF i] _ _ a])
  qed (use assms(2) in simp)
  have again: "follows fr E local ps acks r0 (with_result (proof_valid p) (\<lambda>_ s. with_result (authorize (dp_manifest p) local remote) (\<lambda>_ s.
      if list_ex (\<lambda>r. out_manifest r = dp_manifest p) (rc_outgoing (dt_recs s))
      then then_do (accept_proof E io look local remote p False s) (\<lambda>_ s. (Inr (), s)) else (Inr (), s)) s) s)" if "p \<in> ps" for p
    by (intro follows_with [OF assms(2)])
      (use assms(2) in \<open>simp, intro impI follows_then [OF accept_follows [OF assms(1,2) that]], simp\<close>)
  show ?thesis
    unfolding acknowledged_def Let_def using assms(3) settle again by (cases result) simp_all
qed

lemma all_ok_told:
  "all_ok (map (\<lambda>row. case row of
      InComplete p notify g \<Rightarrow> and_then (f p) (\<lambda>j. Inr (InComplete p (h j notify) g))
    | r \<Rightarrow> Inr r) rows) = Inr ys \<Longrightarrow> list_all2 told rows ys"
proof (induction rows arbitrary: ys)
  case (Cons r rows)
  have "told (InComplete p n g) (InComplete p n' g)" for p n n' g by (simp add: told_def)
  moreover have "told r r" by (simp add: told_def)
  ultimately show ?case using Cons by (cases r) auto
qed simp

lemma notified_follows:
  assumes "codec_law E" and "kept fr E local ps acks r0 s"
  shows "follows fr E local ps acks r0 (mark_notified E io local i s)"
  unfolding mark_notified_def
  by (rule follows_with [OF assms(2)], rule kept_save_in [OF assms], rule notified) (rule all_ok_told)

end
