(* ===== verification/TransferGuarantees.thy ===== *)
theory TransferGuarantees
  imports TransferKeeps ApplyFacts
begin

text \<open>
  Sessions over the same disk, each opening the state and making any number of calls on it, going on after those that
  fail, and what they cannot do; what a receipt says; and where a plan is stuck.
\<close>

section \<open>Calls and sessions\<close>

text \<open>
  A call on plans and receipts; its answer is not kept, and a call that failed is a step as well.  The pairing's own
  calls are not among them.
\<close>

inductive dt_call ::
    "'p dt_env \<Rightarrow> 'd xdoc \<Rightarrow> byte list \<Rightarrow> doc_proof set \<Rightarrow> doc_ack set \<Rightarrow> 'p dt_state \<Rightarrow> 'p dt_state \<Rightarrow> bool"
  for E :: "'p dt_env" and X :: "'d xdoc" and local :: "byte list" and ps :: "doc_proof set" and acks :: "doc_ack set" where
  offering: "offer_encoded E X io pio look fail again again2 local remote name have' enc c s = (r, s', c') \<Longrightarrow>
    dt_call E X local ps acks s s'"
| reading: "read_outgoing E io k look local remote m at s = (r, s') \<Longrightarrow> dt_call E X local ps acks s s'"
| receiving: "receive_doc E X io look aio fail local remote chunk create l s = (r, s', l') \<Longrightarrow> dt_call E X local ps acks s s'"
| asking: "status E io look local remote m s = (r, s') \<Longrightarrow> dt_call E X local ps acks s s'"
| placing: "incoming_offset E io m s = (r, s') \<Longrightarrow> dt_call E X local ps acks s s'"
| proving: "p \<in> ps \<Longrightarrow> accept_proof E io look local remote p confirmation s = (r, s') \<Longrightarrow> dt_call E X local ps acks s s'"
| proving_sent: "p \<in> ps \<Longrightarrow> accept_sent E io look local remote m p s = (r, s') \<Longrightarrow> dt_call E X local ps acks s s'"
| acking: "a \<in> acks \<Longrightarrow> acknowledge E io local remote a s = (r, s') \<Longrightarrow> dt_call E X local ps acks s s'"
| acked: "(case result of AckReleased a \<Rightarrow> a \<in> acks | AckAbsent a \<Rightarrow> a \<in> acks | AckReconfirm p \<Rightarrow> p \<in> ps) \<Longrightarrow>
    acknowledged E io look local remote result s = (r, s') \<Longrightarrow> dt_call E X local ps acks s s'"
| telling: "mark_notified E io local i s = (r, s') \<Longrightarrow> dt_call E X local ps acks s s'"

text \<open>
  A session opens the state; whoever holds it makes calls on the records in memory, whatever each came to (an exchange
  offers after a receiving that failed), and lets it go, or dies, between any two of them or where a call stopped.
\<close>

inductive dt_session ::
    "'p dt_env \<Rightarrow> 'd xdoc \<Rightarrow> byte list \<Rightarrow> doc_proof set \<Rightarrow> doc_ack set \<Rightarrow> meta_files \<Rightarrow> meta_files \<Rightarrow> bool"
  for E :: "'p dt_env" and X :: "'d xdoc" and local :: "byte list" and ps :: "doc_proof set" and acks :: "doc_ack set" where
  refused: "open_state E io local f w = (Inl e, s) \<Longrightarrow> dt_session E X local ps acks f (dt_files s)"
| served: "open_state E io local f w = (Inr u, s) \<Longrightarrow> (dt_call E X local ps acks)\<^sup>*\<^sup>* s s' \<Longrightarrow> dt_session E X local ps acks f (dt_files s')"

lemma call_follows:
  assumes "dt_call E X local ps acks s s'" and "codec_law E" and "kept False E local ps acks r0 s"
  shows "kept False E local ps acks r0 s'"
proof -
  have says: "kept False E local ps acks r0 s'" if "follows False E local ps acks r0 (q, s')" for q :: "dt_error + 'x"
    by (rule follows_weak [OF that])
  from assms(1) show ?thesis
  proof cases
    case (offering io pio look fail again again2 remote name have' enc c r c')
    then show ?thesis by (intro says [OF offer_follows [OF assms(2,3)]])
  next
    case (reading io k look remote m at r)
    then show ?thesis using says only_blobs_follow [OF read_outgoing_only assms(3)] by metis
  next
    case (receiving io look aio fail remote chunk create l r l')
    then show ?thesis by (intro says [OF receive_follows [OF assms(2,3)]])
  next
    case (asking io look remote m r)
    then show ?thesis using says status_follows [OF assms(2,3)] by metis
  next
    case (placing io m r)
    then show ?thesis using says only_blobs_follow [OF offset_only assms(3)] by metis
  next
    case (proving p io look remote confirmation r)
    then show ?thesis using says accept_follows [OF assms(2,3)] by metis
  next
    case (proving_sent p io look remote m r)
    then show ?thesis using says accept_sent_follows [OF assms(2,3)] by metis
  next
    case (acking a io remote r)
    then show ?thesis using says acknowledge_follows [OF assms(2,3)] by metis
  next
    case (acked result io look remote r)
    then show ?thesis using says acknowledged_follows [OF assms(2,3)] by metis
  next
    case (telling io i r)
    then show ?thesis using says notified_follows [OF assms(2,3)] by metis
  qed
qed

lemma calls_follow:
  assumes "(dt_call E X local ps acks)\<^sup>*\<^sup>* s s'" and "codec_law E" and "kept False E local ps acks r0 s"
  shows "kept False E local ps acks r0 s'"
  using assms(1) by (induction rule: rtranclp_induct) (use assms(2,3) call_follows in blast)+

lemma session_follows:
  assumes "dt_session E X local ps acks f f'" and "codec_law E" and "disk_says E local f r"
  shows "\<exists>r'. disk_says E local f' r' \<and> life (de_hash E) ps acks r r'"
  using assms(1)
proof cases
  case (refused io w e s)
  then show ?thesis using opening_follows(1) [OF assms(2,3) refused(2)] by simp
next
  case (served io w u s s')
  have "kept False E local ps acks r s" by (rule kept_weak [OF opening_follows(2) [OF assms(2,3) served(2) refl]])
  from kept_says [OF calls_follow [OF served(3) assms(2) this]] show ?thesis using served(1) by simp
qed

lemma sessions_follow:
  assumes "(dt_session E X local ps acks)\<^sup>*\<^sup>* f f'" and "codec_law E" and "disk_says E local f r"
  shows "\<exists>r'. disk_says E local f' r' \<and> life (de_hash E) ps acks r r'"
  using assms(1)
proof (induction rule: rtranclp_induct)
  case base
  then show ?case using assms(3) life_refl by blast
next
  case (step g g')
  then obtain r' where "disk_says E local g r'" "life (de_hash E) ps acks r r'" by blast
  then show ?case using session_follows [OF step(2) assms(2)] life_trans by blast
qed

text \<open>
  C9: Whatever sessions there were, with whatever calls on plans and receipts in whatever order, and wherever each of
  them failed or stopped, and was followed by others on the same opened state or not, the records load again, and what
  they hold is reached from what they held by the rules of a plan's and a receipt's life.
\<close>

theorem calls_keep_to_the_rules:
  assumes "codec_law E" and "disk_says E local f r" and "(dt_session E X local ps acks)\<^sup>*\<^sup>* f f'"
  shows "\<exists>g b r'. fst (load_journal (de_hash E) (meta_valid E local) no_load_fault f') = Inr (g, b) \<and>
    reads E b r' \<and> life (de_hash E) ps acks r r'"
proof -
  obtain r' b where r: "reads_like (de_hash E) (meta_valid E local) f' b" "reads E b r'" "life (de_hash E) ps acks r r'"
    using sessions_follow [OF assms(3,1,2)] by (auto simp: disk_says_def)
  have "\<exists>g. fst (load_journal (de_hash E) (meta_valid E local) no_load_fault f') = Inr (g, b)"
    using load_reads [OF r(1) surjective_pairing, of no_load_fault] by (elim disjE exE conjE) simp_all
  then show ?thesis using r(2,3) by blast
qed

text \<open>
  C8: A body that is to be sent stays planned, whatever sessions, calls on plans and receipts, failures and crashes
  there were, until the peer has given a proof for it, and a receipt stays until the peer has given its
  acknowledgement: whenever the state opens, they are there.
\<close>

theorem plans_and_receipts_stay:
  assumes "codec_law E" and "disk_says E local f r" and "(dt_session E X local ps acks)\<^sup>*\<^sup>* f f'"
    and "open_state E io local f' w = (Inr u, s)"
  shows "(\<forall>m. OutReady m \<in> set (rc_outgoing r) \<longrightarrow> OutReady m \<in> set (rc_outgoing (dt_recs s)) \<or> (\<exists>p \<in> ps. dp_manifest p = m)) \<and>
    (\<forall>p n g. InComplete p n g \<in> set (rc_incoming r) \<longrightarrow>
       (\<exists>n'. InComplete p n' g \<in> set (rc_incoming (dt_recs s))) \<or> (\<exists>a \<in> acks. acknowledgement (de_hash E) p = Inr a))"
proof -
  obtain r' where r: "disk_says E local f' r'" "life (de_hash E) ps acks r r'" using sessions_follow [OF assms(3,1,2)] by blast
  have "kept True E local ps acks r' s" by (rule opening_follows(2) [OF assms(1) r(1) assms(4) refl])
  then have l: "life (de_hash E) ps acks r (dt_recs s)" using life_trans [OF r(2)] by (simp add: kept_def)
  show ?thesis using life_keeps_ready [OF l] life_keeps_receipt [OF l] by metis
qed

section \<open>What a receipt says\<close>

lemma incoming_valid:
  "check_incoming E local rows ids = Inr () \<Longrightarrow> r \<in> set rows \<Longrightarrow>
   in_proof_valid r = Inr () \<and> authorize (in_manifest r) (source (in_manifest r)) local = Inr ()"
  by (induction rows arbitrary: ids) (auto simp: Let_def split: if_splits)

lemma kept_receipt:
  assumes "kept True E local ps acks r0 s" and "InComplete p n g \<in> set (rc_incoming (dt_recs s))"
  shows "proof_valid p = Inr ()"
  using incoming_valid [OF settled_rows(2) assms(2), of E local s] assms(1)
  by (simp add: kept_fresh disk_fresh_def in_proof_valid_def)

lemma decoded_encoded: "decode_doc_version b = Inr v \<Longrightarrow> encode_version v = Inr b"
  by (simp add: doc_version_Inr)

definition says_at_most :: "doc_proof \<Rightarrow> document_version \<Rightarrow> bool" where
  "says_at_most p v \<longleftrightarrow> (\<exists>u. encode_version u = Inr (dp_version p) \<and> vv_of (dvn_version u) \<le> vv_of (dvn_version v))"

lemma completed_complete:
  assumes "completed E io local m version s = (Inr (Some t), s')"
  shows "\<exists>p n g. t = TsComplete p \<and> dp_manifest p = m \<and> InComplete p n g \<in> set (rc_incoming (dt_recs s')) \<and> says_at_most p version"
proof (cases "\<exists>k p n g. row_of m s = Some k \<and> rc_incoming (dt_recs s) ! k = InComplete p n g")
  case True
  then obtain k p n g where k: "row_of m s = Some k" "rc_incoming (dt_recs s) ! k = InComplete p n g" by blast
  then have "InComplete p n g \<in> set (rc_incoming (dt_recs s))" "dp_manifest p = m"
    using row_of_Some [OF k(1)] nth_mem by (fastforce, auto)
  then show ?thesis
    using assms k decoded_encoded
    by (auto simp: completed_def Let_def with_result_Inr says_at_most_def split: if_splits)
next
  case False
  define rows where "rows = (\<lambda>c. case row_of m s of Some k \<Rightarrow> (rc_incoming (dt_recs s))[k := c] | None \<Rightarrow> rc_incoming (dt_recs s) @ [c])"
  have mem: "c \<in> set (rows c)" for c
    using row_of_Some [of m s] by (auto simp: rows_def set_update_memI split: option.splits)
  from assms False obtain bytes ch where "encode_version version = Inr bytes"
    "t = TsComplete \<lparr>dp_manifest = m, dp_version = bytes, dp_kind = AlreadyHaveEquivalent\<rparr>"
    "save E (io_save io 5) local (set_in (rows (InComplete \<lparr>dp_manifest = m, dp_version = bytes, dp_kind = AlreadyHaveEquivalent\<rparr> ch None)) s) = (Inr (), s')"
    unfolding rows_def by (cases "row_of m s")
      (auto simp: completed_def Let_def with_result_Inr then_do_Inr split: if_splits in_row.splits)
  then show ?thesis using mem save_answers by (fastforce simp: says_at_most_def)
qed

text \<open>An import that was answered for, with its receipt in the records.\<close>

lemma import_complete:
  assumes "import_stage E X io look aio fail local remote m name slot l s = (Inr (TsComplete p), s', l')"
  shows "dp_manifest p = m \<and> (\<exists>n g. InComplete p n g \<in> set (rc_incoming (dt_recs s'))) \<and>
    (\<exists>ss fi. apply_staged X aio (io_read io) \<lparr>rs_document = name, rs_source = remote, rs_recipient = local\<rparr> ss l = (Inr fi, l') \<and>
       encode_version \<lparr>dvn_epoch = fi_epoch fi, dvn_version = xd_version X (lv_doc l')\<rparr> = Inr (dp_version p))"
proof -
  from assms obtain before i bytes s2 sk where c: "look 1 name = Inr before" "row_of m s = Some i"
    "map_err from_core (encode_version before) = Inr bytes"
    "save E (io_save io 2) local (set_in ((rc_incoming (dt_recs s))[i := InImporting m bytes]) s) = (Inr (), s2)"
    "xw_sinks (dt_blobs s2) slot = Some sk"
    by (auto simp: import_stage_def split: sum.splits option.splits prod.splits)
  let ?ss = "(sk, sink_files (dt_blobs s2) sk)"
  from assms c obtain version ch g l1 where a: "context_apply X io aio fail local remote name ?ss l = (Inr (version, ch, g), l1)"
    by (auto simp: import_stage_def split: sum.splits prod.splits)
  from assms c a obtain out where o: "encode_version version = Inr out"
    by (auto simp: import_stage_def Let_def split: sum.splits prod.splits)
  let ?p = "\<lparr>dp_manifest = m, dp_version = out, dp_kind = Applied\<rparr>"
  obtain q s3 where sv: "save E (io_save io 3) local
      (set_in ((rc_incoming (dt_recs s2))[i := InComplete ?p ch g]) (drop_blob slot s2)) = (q, s3)" by (metis prod.exhaust)
  have r: "q = Inr ()" "p = ?p" "s' = s3" "l' = l1" using assms c a o sv by (auto simp: import_stage_def Let_def)
  have "InComplete p ch g \<in> set (rc_incoming (dt_recs s'))"
    using save_answers [of E "io_save io 3" local] save_answers [OF c(4)] row_of_Some [OF c(2)] sv r(1,3)
    by (fastforce simp: r(2) intro: set_update_memI)
  moreover from a obtain fi where "apply_staged X aio (io_read io) \<lparr>rs_document = name, rs_source = remote, rs_recipient = local\<rparr> ?ss l = (Inr fi, l1)"
    "version = \<lparr>dvn_epoch = fi_epoch fi, dvn_version = xd_version X (lv_doc l1)\<rparr>"
    by (auto simp: context_apply_def split: if_splits option.splits sum.splits prod.splits)
  ultimately show ?thesis using o r(2,4) by auto
qed

lemma stored_incomplete:
  "then_do rs (\<lambda>o' s. case o' of
       None \<Rightarrow> (Inr (Inl TsMissing), s)
     | Some (slot, sk) \<Rightarrow>
         (case append_at H fault slot k bytes (dt_blobs s) of
            (Some (Inr (Stored n)), w) \<Rightarrow> (Inr (Inl (TsStored n)), drop_blob slot (s\<lparr>dt_blobs := w\<rparr>))
          | (Some (Inr (VerifiedComplete _ _)), w) \<Rightarrow> (Inr (Inr (slot, name)), s\<lparr>dt_blobs := w\<rparr>)
          | (Some (Inl e), w) \<Rightarrow> (Inl (from_core e), drop_blob slot (s\<lparr>dt_blobs := w\<rparr>))
          | (None, w) \<Rightarrow> (Inl DtStorage, s\<lparr>dt_blobs := w\<rparr>))) \<noteq> (Inr (Inl (TsComplete p)), s')" (is "?l \<noteq> _")
proof
  assume a: "?l = (Inr (Inl (TsComplete p)), s')"
  then obtain o' s where rs: "rs = (Inr o', s)" by (auto simp: then_do_Inr)
  show False
  proof (cases o')
    case (Some q)
    obtain slot sk where q: "q = (slot, sk)" by (cases q)
    obtain b w where b: "append_at H fault slot k bytes (dt_blobs s) = (b, w)" by (metis prod.exhaust)
    show ?thesis
      by (cases b; cases "the b"; cases "projr (the b)") (use a rs Some q b in auto)
  qed (use a rs in simp)
qed

lemma store_chunk_incomplete: "store_chunk E io local chunk name create s \<noteq> (Inr (Inl (TsComplete p)), s')"
proof (cases "row_of (ch_manifest chunk) s = None \<and> \<not> create")
  case True
  show ?thesis unfolding store_chunk_def Let_def if_P [OF True] by simp
next
  case False
  show ?thesis
    unfolding store_chunk_def Let_def if_not_P [OF False]
    by (rule notI, drule then_do_Inr [THEN iffD1], elim exE conjE, rule notE [OF stored_incomplete], assumption)
qed

lemma chunk_complete:
  assumes "receive_chunk E io look local remote chunk create s = (Inr (Inl (TsComplete p)), s')"
  shows "\<exists>d v. wire_descriptor (ch_manifest chunk) = Inr d \<and> look 0 (ds_document d) = Inr v \<and>
    completed E io local (ch_manifest chunk) v s = (Inr (Some (TsComplete p)), s')"
  using assms
  unfolding receive_chunk_def Let_def
  by (auto simp: with_result_Inr then_do_Inr store_chunk_incomplete split: if_splits option.splits)

lemma receive_authorized:
  assumes "receive_doc E X io look aio fail local remote chunk create l s = (Inr t, s', l')"
  shows "authorize (ch_manifest chunk) remote local = Inr ()"
  using assms by (cases "authorize (ch_manifest chunk) remote local") (simp_all add: receive_doc_def receive_chunk_def Let_def)

text \<open>
  C14: A receipt says the truth and is on the disk: it is for the manifest of the chunk, from the peer that may send
  it and for this machine, valid, in the records as published, and its version is one the document had when it was
  looked at or, after the import, is that of the document, with all of it in blocks of the directory.
\<close>

theorem receipt_is_true:
  assumes "codec_law E" and "disk_says E local f r" and "open_state E io0 local f w = (Inr u, s)"
    and "doc_laws (xd_ops X) carries known" and "\<And>d. vv_of (xd_version X d) = d_version (xd_ops X) d"
    and "live_ok_copy (xd_ops X) carries used l" and "blocks_agree used (lv_pile l')"
    and "receive_doc E X io look aio fail local remote chunk create l s = (Inr (TsComplete p), s', l')"
  shows "dp_manifest p = ch_manifest chunk \<and> authorize (dp_manifest p) remote local = Inr () \<and> proof_valid p = Inr () \<and>
    (\<exists>n g. InComplete p n g \<in> set (rc_incoming (dt_recs s'))) \<and> disk_says E local (dt_files s') (dt_recs s') \<and>
    ((\<exists>d v. wire_descriptor (dp_manifest p) = Inr d \<and> look 0 (ds_document d) = Inr v \<and> says_at_most p v) \<or>
     (\<exists>v. encode_version v = Inr (dp_version p) \<and> vv_of (dvn_version v) = d_version (xd_ops X) (lv_doc l') \<and>
        covered (vv_of (dvn_version v)) \<subseteq> durable carries (lv_pile l')))"
proof -
  have k0: "kept True E local {} {} r s" by (rule opening_follows(2) [OF assms(1-3) refl])
  have k: "kept True E local {} {} r s'" using receive_follows [OF assms(1) k0 assms(8)] by simp
  have disk: "disk_says E local (dt_files s') (dt_recs s')" using k disk_settled_says by (auto simp: kept_fresh disk_fresh_def)
  have main: "dp_manifest p = ch_manifest chunk \<and> (\<exists>n g. InComplete p n g \<in> set (rc_incoming (dt_recs s'))) \<and>
    ((\<exists>d v. wire_descriptor (dp_manifest p) = Inr d \<and> look 0 (ds_document d) = Inr v \<and> says_at_most p v) \<or>
     (\<exists>v. encode_version v = Inr (dp_version p) \<and> vv_of (dvn_version v) = d_version (xd_ops X) (lv_doc l') \<and>
        covered (vv_of (dvn_version v)) \<subseteq> durable carries (lv_pile l')))"
  proof -
    obtain q s1 where c: "receive_chunk E io look local remote chunk create s = (q, s1)" by (metis prod.exhaust)
    consider (had) "q = Inr (Inl (TsComplete p))" "s1 = s'"
      | (took) slot name where "import_stage E X io look aio fail local remote (ch_manifest chunk) name slot l s1 = (Inr (TsComplete p), s', l')"
      using assms(8) c by (auto simp: receive_doc_def split: sum.splits)
    then show ?thesis
    proof cases
      case had
      from chunk_complete [OF c [unfolded had]] completed_complete show ?thesis by fastforce
    next
      case took
      from import_complete [OF took] obtain n g ss fi where i: "dp_manifest p = ch_manifest chunk"
        "InComplete p n g \<in> set (rc_incoming (dt_recs s'))"
        "apply_staged X aio (io_read io) \<lparr>rs_document = name, rs_source = remote, rs_recipient = local\<rparr> ss l = (Inr fi, l')"
        "encode_version \<lparr>dvn_epoch = fi_epoch fi, dvn_version = xd_version X (lv_doc l')\<rparr> = Inr (dp_version p)" by blast
      from i(3) obtain spec body where "apply_checked (xd_ops X) aio spec body l = (Inr fi, l')"
        by (auto simp: apply_staged_def split: sum.splits prod.splits)
      from applied_import [OF assms(4,6) this assms(7)]
      have "covered (d_version (xd_ops X) (lv_doc l')) \<subseteq> durable carries (lv_pile l')" by (elim conjE) (simp only:)
      then show ?thesis using i(1,2,4) assms(5) by fastforce
    qed
  qed
  then show ?thesis using kept_receipt [OF k] receive_authorized [OF assms(8)] disk by metis
qed

section \<open>A plan that is stuck\<close>

lemma outgoing_authorized:
  "check_outgoing E local rows ids act = Inr () \<Longrightarrow> r \<in> set rows \<Longrightarrow> authorize (out_manifest r) local (recipient (out_manifest r)) = Inr ()"
  by (induction rows arbitrary: ids act) (auto simp: Let_def split: if_splits)

lemma outgoing_step:
  assumes "check_outgoing E local (q # rows) ids act = Inr ()"
  shows "\<exists>i act'. check_outgoing E local rows (i # ids) act' = Inr () \<and> set act \<subseteq> set act' \<and>
    (plan_for remote name q \<longrightarrow> (remote, name) \<notin> set act \<and> (remote, name) \<in> set act')"
proof (cases "out_active q")
  case True
  then obtain i d where "check_outgoing E local rows (i # ids) ((recipient (out_manifest q), ds_document d) # act) = Inr ()"
    "wire_descriptor (out_manifest q) = Inr d" "(recipient (out_manifest q), ds_document d) \<notin> set act"
    using assms by (auto simp: Let_def split: if_splits)
  then show ?thesis
    by (intro exI [of _ i] exI [of _ "(recipient (out_manifest q), ds_document d) # act"]) (auto simp: plan_for_def)
next
  case False
  then obtain i where "check_outgoing E local rows (i # ids) act = Inr ()" using assms by (auto simp: Let_def split: if_splits)
  then show ?thesis using False by (intro exI [of _ i] exI [of _ act]) (simp add: plan_for_def)
qed

lemma active_is_new:
  "check_outgoing E local rows ids act = Inr () \<Longrightarrow> r \<in> set rows \<Longrightarrow> plan_for remote name r \<Longrightarrow> (remote, name) \<notin> set act"
proof (induction rows arbitrary: ids act)
  case (Cons q rows)
  from outgoing_step [OF Cons.prems(1)] obtain i act' where c: "check_outgoing E local rows (i # ids) act' = Inr ()"
    "set act \<subseteq> set act'" "plan_for remote name q \<longrightarrow> (remote, name) \<notin> set act" by blast
  show ?case
  proof (cases "r = q")
    case False
    then show ?thesis using Cons.IH [OF c(1)] Cons.prems(2,3) c(2) by auto
  qed (use c(3) Cons.prems(3) in simp)
qed simp

lemma one_plan:
  assumes "check_outgoing E local rows ids act = Inr ()" and "r \<in> set rows" and "plan_for remote name r"
  shows "\<exists>i. row_position (plan_for remote name) rows = Some i \<and> rows ! i = r"
  using assms
proof (induction rows arbitrary: ids act)
  case (Cons q rows)
  from outgoing_step [OF Cons.prems(1)] obtain i act' where c: "check_outgoing E local rows (i # ids) act' = Inr ()"
    "plan_for remote name q \<longrightarrow> (remote, name) \<in> set act'" by blast
  show ?case
  proof (cases "plan_for remote name q")
    case True
    then have "r = q" using active_is_new [OF c(1) _ Cons.prems(3)] c(2) Cons.prems(2) by auto
    then show ?thesis using True by simp
  next
    case False
    then have "r \<in> set rows" using Cons.prems(2,3) by auto
    then show ?thesis using Cons.IH [OF c(1)] Cons.prems(3) False by auto
  qed
qed simp

lemma obsolete_completion:
  assumes "wire_descriptor (dp_manifest p) = Inr d" and "look 0 (ds_document d) = Inr v" and "dvn_epoch v \<noteq> ds_epoch d"
  shows "\<exists>e. validate_completion look local remote p = Inl e"
  using assms by (cases "validate_completion look local remote p") (auto simp: validate_completion_def)

text \<open>
  C24: A plan whose document has since come to another epoch is stuck: no offer of the document to that peer gets past
  it, no proof for it is taken, neither asked for nor given with a reply, and nothing of that takes the plan away.
\<close>

theorem plan_of_a_past_epoch_is_stuck:
  assumes "codec_law E" and "disk_says E local f r" and "open_state E io0 local f w = (Inr u, s)"
    and "OutReady m \<in> set (rc_outgoing (dt_recs s))" and "wire_descriptor m = Inr d"
    and "look 0 (ds_document d) = Inr v0" and "dvn_epoch v0 \<noteq> ds_epoch d"
    and "look 1 (ds_document d) = Inr v1" and "dvn_epoch v1 \<noteq> ds_epoch d"
  shows "offer_encoded E X io pio look fail again again2 local (recipient m) (ds_document d) have' Updates c s =
      (Inl (DtInvalid ''outgoing document epoch changed''), s, c) \<and>
    (dp_manifest p = m \<longrightarrow>
      (\<exists>e. accept_proof E io look local remote p confirmation s = (Inl e, s)) \<and>
      (\<exists>e. accept_sent E io look local remote sent p s = (Inl e, s)))"
proof -
  have "kept True E local {} {} r s" by (rule opening_follows(2) [OF assms(1-3) refl])
  then have chk: "check_outgoing E local (rc_outgoing (dt_recs s)) [] [] = Inr ()"
    using settled_rows(1) by (auto simp: kept_fresh disk_fresh_def)
  have auth: "authorize m local (recipient m) = Inr ()" using outgoing_authorized [OF chk assms(4)] by simp
  have "plan_for (recipient m) (ds_document d) (OutReady m)" using assms(5) by (simp add: plan_for_def)
  from one_plan [OF chk assms(4) this] obtain i
    where i: "row_position (plan_for (recipient m) (ds_document d)) (rc_outgoing (dt_recs s)) = Some i" "rc_outgoing (dt_recs s) ! i = OutReady m"
    by blast
  have "list_ex (\<lambda>r. r = OutReady m) (rc_outgoing (dt_recs s))" using assms(4) by (auto simp: list_ex_iff)
  then have "read_outgoing E io 1 look local (recipient m) m 0 s = (Inl (DtInvalid ''outgoing document epoch changed''), s)"
    using auth assms(5,8,9) by (simp add: read_outgoing_def)
  then have offer: "offer_encoded E X io pio look fail again again2 local (recipient m) (ds_document d) have' Updates c s =
      (Inl (DtInvalid ''outgoing document epoch changed''), s, c)"
    using i by (simp add: offer_encoded_def offer_active_def)
  have "\<exists>e. validate_completion look local remote p = Inl e" if "dp_manifest p = m"
    using obsolete_completion [of p d look v0] that assms(5-7) by simp
  then show ?thesis using offer by (auto simp: accept_proof_def accept_sent_def)
qed

end
