(* ===== verification/TransferPlanDemo.thy ===== *)
theory TransferPlanDemo
  imports TransferGuarantees DocTransferDemo
begin

text \<open>
  A document that both machines have gets its receipt, and a plan falls behind its document: the hypotheses of the
  properties of plans and receipts hold of them.
\<close>

section \<open>The records\<close>

definition demo_have :: document_version where
  "demo_have = \<lparr>dvn_epoch = 1, dvn_version = [(0, 2)]\<rparr>"

definition demo_have_bytes :: "byte list" where
  "demo_have_bytes = VERSION_MAGIC @ be_bytes 4 1 @ be_bytes 4 1 @ entry_bytes (0, 2)"

definition demo_proof :: doc_proof where
  "demo_proof = \<lparr>dp_manifest = demo_bound, dp_version = demo_have_bytes, dp_kind = AlreadyHaveEquivalent\<rparr>"

definition receiver_records :: "unit records" where
  "receiver_records = \<lparr>rc_outgoing = [], rc_incoming = [InComplete demo_proof False None], rc_pairing = ()\<rparr>"

definition sender_records :: "unit records" where
  "sender_records = \<lparr>rc_outgoing = [OutReady demo_bound], rc_incoming = [], rc_pairing = ()\<rparr>"

definition records_env :: "unit dt_env" where
  "records_env = \<lparr>de_hash = toy_hash,
     de_encode = (\<lambda>r. if r = receiver_records then [1] else if r = sender_records then [2] else replicate (MAX_IMAGE + 1) 0),
     de_decode = (\<lambda>b. if b = [1] then Some receiver_records else if b = [2] then Some sender_records else None),
     de_out_size = (\<lambda>_. 0), de_in_size = (\<lambda>_. 0), de_pair_valid = (\<lambda>_ _. Inr ()), de_pair_refs = (\<lambda>_ _. False), de_pair_none = ()\<rparr>"

lemma records_env_simps [simp]:
  "de_hash records_env = toy_hash" "de_out_size records_env r = 0" "de_in_size records_env q = 0"
  "de_pair_valid records_env l () = Inr ()" "de_encode records_env receiver_records = [1]" "de_encode records_env sender_records = [2]"
  "de_decode records_env [1] = Some receiver_records" "de_decode records_env [2] = Some sender_records"
  "no_records records_env = \<lparr>rc_outgoing = [], rc_incoming = [], rc_pairing = ()\<rparr>"
  by (simp_all add: records_env_def no_records_def receiver_records_def sender_records_def)

lemma records_env_law: "codec_law records_env"
  by (simp add: codec_law_def toy_hash_len records_env_def)

lemma demo_have_encodes: "encode_version demo_have = Inr demo_have_bytes"
  by (simp add: encode_version_def write_version_def demo_have_def demo_have_bytes_def VERSION_MAGIC_def MAX_METADATA_BYTES_def
      VERSION_ENTRY_BYTES_def)

lemma demo_have_decodes: "decode_doc_version demo_have_bytes = Inr demo_have"
  using demo_have_encodes by (simp add: doc_version_Inr) (simp add: demo_have_def canonical_ok_def u64_max_def i32_max_def)

lemma demo_described: "wire_descriptor demo_bound = Inr demo_desc" "core demo_bound = Inr demo_bound"
  using demo_bound_valid demo_bound_from by (simp_all add: wire_descriptor_def core_def blob_core_def)

lemma demo_proof_valid: "proof_valid demo_proof = Inr ()"
  using demo_described demo_have_decodes
  by (simp add: proof_valid_def demo_proof_def) (simp add: demo_desc_def demo_have_def cnt_def le_fun_def)

lemma demo_authorized: "authorize demo_bound (replicate 32 1) (replicate 32 2) = Inr ()"
proof -
  have "authorized_name (ds_document demo_desc)" by (simp add: demo_desc_def authorized_name_def ROUND_DOCS_def name_bytes_def)
  then show ?thesis using demo_described by (simp add: authorize_def) (simp add: demo_bound_def)
qed

lemma demo_wire_id: "\<exists>i. wire_id toy_hash demo_bound = Inr i"
  using demo_described demo_bound_valid by (simp add: wire_id_def manifest_id_def)

lemma demo_ends [simp]: "source demo_bound = replicate 32 1" "recipient demo_bound = replicate 32 2"
  by (simp_all add: demo_bound_def)

lemma receiver_validated: "validate_records records_env (replicate 32 2) [1] = Inr ()"
  using demo_wire_id demo_authorized demo_proof_valid
  by (auto simp: validate_records_def receiver_records_def [symmetric] MAX_IMAGE_def)
    (auto simp: receiver_records_def demo_proof_def in_proof_valid_def Let_def MAX_STATE_ROWS_def MAX_ROW_BYTES_def)

lemma sender_validated: "validate_records records_env (replicate 32 1) [2] = Inr ()"
  using demo_wire_id demo_authorized demo_described
  by (auto simp: validate_records_def MAX_IMAGE_def)
    (auto simp: sender_records_def out_proof_valid_def Let_def MAX_STATE_ROWS_def MAX_ROW_BYTES_def)

section \<open>The disk\<close>

definition fair_io :: dt_io where
  "fair_io = \<lparr>io_gate = True, io_store = True, io_load = no_load_fault, io_list = (\<lambda>_. (True, None, True)),
     io_save = (\<lambda>_. NoSaveFault), io_open = (\<lambda>_. no_open_fault),
     io_cancel = (\<lambda>_. \<lparr>cf_gate = True, cf_clear = None, cf_owner = (\<lambda>_. True), cf_unlinked = None\<rparr>),
     io_discard = \<lparr>cf_gate = True, cf_clear = None, cf_owner = (\<lambda>_. True), cf_unlinked = None\<rparr>, io_append = NoFault,
     io_read = (\<lambda>_. Some 1), io_stage = (\<lambda>_. NoFault), io_root = Inr False\<rparr>"

definition no_image :: meta_files where
  "no_image = \<lparr>mf_registry = None, mf_next = None, mf_odd = False\<rparr>"

definition published :: "byte list \<Rightarrow> meta_files" where
  "published b = \<lparr>mf_registry = Some (meta_image toy_hash 1 b), mf_next = None, mf_odd = False\<rparr>"

lemma published_settled: "length b \<le> MAX_IMAGE \<Longrightarrow> settled toy_hash 1 (Some b) (published b)"
  by (simp add: settled_def journal_says_def sized_def published_def u64_max_def)

lemma none_settled: "settled toy_hash 0 None no_image"
  using settled_new by (simp add: no_image_def)

definition stateful :: "nat \<Rightarrow> unit records \<Rightarrow> meta_files \<Rightarrow> unit dt_state" where
  "stateful g r f = \<lparr>dt_files = f, dt_gen = g, dt_recs = r, dt_blobs = new_world\<rparr>"

lemma says_settled:
  assumes "settled toy_hash g b f" and "pred_option (\<lambda>x. validate_records records_env local x = Inr ()) b" and "reads records_env b r"
  shows "disk_says records_env local f r"
  by (rule disk_settled_says [of _ _ "stateful g r f", unfolded stateful_def dt_state.simps])
    (use assms toy_hash_len in \<open>auto simp: disk_settled_def meta_valid_Inr\<close>)

lemma settled_unique: "settled H g b f \<Longrightarrow> settled H g b f' \<Longrightarrow> f = f'"
  by (simp add: settled_def journal_says_def)

lemma no_stages: "list_blobs records_env (True, None, True) (stateful g r f) = (Inr [], stateful g r f)"
  by (simp add: list_blobs_def retained_manifests_def stateful_def new_world_def empty_root_def gate_def clear_initialization_def
      initialization_entries_def reservations_def)

lemma opens_settled:
  assumes "settled toy_hash g b f" and "pred_option (\<lambda>x. validate_records records_env local x = Inr ()) b" and "reads records_env b r"
    and "recover_completed_cleanup records_env fair_io local (stateful g r f) = (Inr (), stateful g r f)"
  shows "open_state records_env fair_io local f new_world = (Inr (), stateful g r f)"
proof -
  obtain q f' where l: "load_journal toy_hash (meta_valid records_env local) no_load_fault f = (q, f')" by (metis prod.exhaust)
  have "meta_valid records_env local x = Inr ()" if "b = Some x" for x using assms(2) that by (simp add: meta_valid_Inr)
  then have "q = Inr (g, b) \<and> settled toy_hash g b f'"
    using load_says [OF toy_hash_len _ _ _ l, of g b None] assms(1) by (simp add: settled_def)
  then have "q = Inr (g, b)" "f' = f" using settled_unique assms(1) by blast+
  moreover have "(case b of None \<Rightarrow> Some (no_records records_env) | Some bytes \<Rightarrow> de_decode records_env bytes) = Some r"
    using assms(3) by (cases b) (simp_all add: reads_def)
  moreover have "reconcile_references records_env fair_io (stateful g r f) = (Inr (), stateful g r f)"
    by (simp add: reconcile_references_def fair_io_def no_stages)
  ultimately show ?thesis
    using l assms(4) by (simp add: open_state_def fair_io_def Let_def) (simp add: stateful_def)
qed

lemma nothing_to_recover:
  assumes "list_all (\<lambda>r. case r of OutReady _ \<Rightarrow> True | _ \<Rightarrow> False) outs" and "cleanups ins = []"
  shows "recover_completed_cleanup records_env io local (stateful g \<lparr>rc_outgoing = outs, rc_incoming = ins, rc_pairing = p\<rparr> f) =
    (Inr (), stateful g \<lparr>rc_outgoing = outs, rc_incoming = ins, rc_pairing = p\<rparr> f)"
proof -
  have "recover_out records_env io k outs s = (Inr (outs, False), s)" for k s
    using assms(1) by (induction outs arbitrary: k) (simp_all split: out_row.splits)
  then show ?thesis using assms(2) by (simp add: recover_completed_cleanup_def Let_def stateful_def set_out_def)
qed

lemma receiver_opens_new: "open_state records_env fair_io (replicate 32 2) no_image new_world =
    (Inr (), stateful 0 (no_records records_env) no_image)"
  by (rule opens_settled [OF none_settled]) (simp_all add: reads_def nothing_to_recover cleanups_def)

lemma receiver_opens: "open_state records_env fair_io (replicate 32 2) (published [1]) new_world =
    (Inr (), stateful 1 receiver_records (published [1]))"
  by (rule opens_settled [OF published_settled])
    (simp_all add: reads_def receiver_validated MAX_IMAGE_def, simp add: receiver_records_def nothing_to_recover cleanups_def)

lemma sender_opens: "open_state records_env fair_io (replicate 32 1) (published [2]) new_world =
    (Inr (), stateful 1 sender_records (published [2]))"
  by (rule opens_settled [OF published_settled])
    (simp_all add: reads_def sender_validated MAX_IMAGE_def, simp add: sender_records_def nothing_to_recover cleanups_def)

lemma receiver_says_new: "disk_says records_env (replicate 32 2) no_image (no_records records_env)"
  by (rule says_settled [OF none_settled]) (simp_all add: reads_def)

lemma receiver_says: "disk_says records_env (replicate 32 2) (published [1]) receiver_records"
  by (rule says_settled [OF published_settled]) (simp_all add: reads_def receiver_validated MAX_IMAGE_def)

lemma sender_says: "disk_says records_env (replicate 32 1) (published [2]) sender_records"
  by (rule says_settled [OF published_settled]) (simp_all add: reads_def sender_validated MAX_IMAGE_def)

section \<open>A receipt\<close>

definition demo_chunk :: doc_chunk where
  "demo_chunk = \<lparr>ch_manifest = demo_bound, ch_offset = 0, ch_bytes = [1, 0, 0]\<rparr>"

lemma demo_saves:
  "save records_env NoSaveFault (replicate 32 2) (set_in [InComplete demo_proof False None] (stateful 0 (no_records records_env) no_image)) =
    (Inr (), stateful 1 receiver_records (published [1]))"
proof -
  have "save_journal toy_hash NoSaveFault 0 [1] no_image = (Inr 1, published [1])"
    by (simp add: save_journal_def no_image_def published_def MAX_IMAGE_def u64_max_def)
  moreover have "set_in [InComplete demo_proof False None] (stateful 0 (no_records records_env) no_image) = stateful 0 receiver_records no_image"
    by (simp add: set_in_def stateful_def receiver_records_def)
  ultimately show ?thesis using receiver_validated by (simp add: save_def stateful_def Let_def)
qed

lemma demo_completes:
  "completed records_env fair_io (replicate 32 2) demo_bound demo_have (stateful 0 (no_records records_env) no_image) =
    (Inr (Some (TsComplete demo_proof)), stateful 1 receiver_records (published [1]))"
proof -
  let ?s = "stateful 0 (no_records records_env) no_image"
  have "row_of demo_bound ?s = None" "rc_incoming (dt_recs ?s) = []" "io_save fair_io 5 = NoSaveFault"
    by (simp_all add: row_of_def stateful_def fair_io_def)
  moreover have "vv_of (ds_base demo_desc) \<le> vv_of (dvn_version demo_have)" "vv_of (ds_target demo_desc) \<le> vv_of (dvn_version demo_have)"
    by (simp_all add: demo_desc_def demo_have_def)
  ultimately show ?thesis
    using demo_described(1) demo_have_encodes demo_saves unfolding completed_def Let_def demo_proof_def by simp
qed

lemma demo_receives:
  "receive_doc records_env demo_xdoc fair_io (\<lambda>_ _. Inr demo_have) good_io None (replicate 32 2) (replicate 32 1) demo_chunk True
      receiver (stateful 0 (no_records records_env) no_image) =
    (Inr (TsComplete demo_proof), stateful 1 receiver_records (published [1]), receiver)"
proof -
  have "ch_manifest demo_chunk = demo_bound" "dvn_epoch demo_have = ds_epoch demo_desc"
    by (simp_all add: demo_chunk_def demo_desc_def demo_have_def)
  then show ?thesis using demo_authorized demo_described demo_completes by (simp add: receive_doc_def receive_chunk_def)
qed

theorem receipt_is_true_witness:
  "open_state records_env fair_io (replicate 32 2) no_image new_world = (Inr (), stateful 0 (no_records records_env) no_image) \<and>
    receive_doc records_env demo_xdoc fair_io (\<lambda>_ _. Inr demo_have) good_io None (replicate 32 2) (replicate 32 1) demo_chunk True
      receiver (stateful 0 (no_records records_env) no_image) =
    (Inr (TsComplete demo_proof), stateful 1 receiver_records (published [1]), receiver) \<and>
    dp_manifest demo_proof = demo_bound \<and> proof_valid demo_proof = Inr ()"
proof -
  have v: "vv_of (xd_version demo_xdoc d) = d_version (xd_ops demo_xdoc) d" for d by simp
  have l: "doc_laws (xd_ops demo_xdoc) byte_carries counting_known" "live_ok_copy (xd_ops demo_xdoc) byte_carries Map.empty receiver"
    using byte_docs_laws receiver_copy(1) by simp_all
  have b: "blocks_agree Map.empty (lv_pile receiver)" by (simp add: receiver_def blocks_agree_def empty_pile_def)
  show ?thesis
    using receipt_is_true [OF records_env_law receiver_says_new receiver_opens_new l(1) v l(2) b demo_receives]
      receiver_opens_new demo_receives by (simp add: demo_chunk_def)
qed

section \<open>Calls over the same disk\<close>

lemma receipt_session: "dt_session records_env demo_xdoc (replicate 32 2) {} {} no_image (published [1])"
  using served [OF receiver_opens_new r_into_rtranclp, OF receiving [OF demo_receives]] by (simp add: stateful_def)

theorem calls_keep_to_the_rules_witness:
  "(dt_session records_env demo_xdoc (replicate 32 2) {} {})\<^sup>*\<^sup>* no_image (published [1]) \<and>
    (\<exists>g b r'. fst (load_journal toy_hash (meta_valid records_env (replicate 32 2)) no_load_fault (published [1])) = Inr (g, b) \<and>
       reads records_env b r' \<and> life toy_hash {} {} (no_records records_env) r')"
proof -
  have d: "(dt_session records_env demo_xdoc (replicate 32 2) {} {})\<^sup>*\<^sup>* no_image (published [1])"
    by (rule r_into_rtranclp) (rule receipt_session)
  show ?thesis using calls_keep_to_the_rules [OF records_env_law receiver_says_new d] d by simp
qed

text \<open>A busy call, and the receipt is still there.\<close>

theorem plans_and_receipts_stay_witness:
  "(dt_session records_env demo_xdoc (replicate 32 2) {} {})\<^sup>*\<^sup>* (published [1]) (published [1]) \<and>
    open_state records_env fair_io (replicate 32 2) (published [1]) new_world = (Inr (), stateful 1 receiver_records (published [1])) \<and>
    (\<exists>n. InComplete demo_proof n None \<in> set (rc_incoming receiver_records))"
proof -
  have "open_state records_env (fair_io\<lparr>io_gate := False\<rparr>) (replicate 32 2) (published [1]) new_world =
      (Inl DtBusy, stateful 0 (no_records records_env) (published [1]))"
    by (simp add: open_state_def stateful_def Let_def)
  from refused [OF this] have d: "(dt_session records_env demo_xdoc (replicate 32 2) {} {})\<^sup>*\<^sup>* (published [1]) (published [1])"
    by (simp add: stateful_def r_into_rtranclp)
  have "InComplete demo_proof False None \<in> set (rc_incoming receiver_records)" by (simp add: receiver_records_def)
  then show ?thesis
    using plans_and_receipts_stay [OF records_env_law receiver_says d receiver_opens] d receiver_opens by (simp add: stateful_def)
qed

section \<open>A plan left behind\<close>

theorem plan_of_a_past_epoch_is_stuck_witness:
  "open_state records_env fair_io (replicate 32 1) (published [2]) new_world = (Inr (), stateful 1 sender_records (published [2])) \<and>
    offer_encoded records_env demo_xdoc fair_io all_writes (\<lambda>_ _. Inr \<lparr>dvn_epoch = 2, dvn_version = []\<rparr>) None (7, 2) (7, 2)
      (replicate 32 1) (replicate 32 2) [112, 105, 110, 115] \<lparr>dvn_epoch = 2, dvn_version = []\<rparr> Updates ((7, 2), sender_store, empty_pile)
      (stateful 1 sender_records (published [2])) =
    (Inl (DtInvalid ''outgoing document epoch changed''), stateful 1 sender_records (published [2]), (7, 2), sender_store, empty_pile)"
proof -
  have m: "OutReady demo_bound \<in> set (rc_outgoing (dt_recs (stateful 1 sender_records (published [2]))))"
    by (simp add: stateful_def sender_records_def)
  have e: "dvn_epoch \<lparr>dvn_epoch = 2, dvn_version = []\<rparr> \<noteq> ds_epoch demo_desc" by (simp add: demo_desc_def)
  have n: "ds_document demo_desc = [112, 105, 110, 115]" by (simp add: demo_desc_def)
  show ?thesis
    using plan_of_a_past_epoch_is_stuck [OF records_env_law sender_says sender_opens m demo_described(1) refl e refl e,
        of demo_xdoc fair_io all_writes None "(7, 2)" "(7, 2)"] sender_opens n by simp
qed

end
