(* ===== verification/RootQueue.thy ===== *)
theory RootQueue
  imports TransferPlan
begin

text \<open>
  The admission to a root of \<open>crates/node/src/doc_transfer_state/io.rs\<close>: \<open>RootAdmission\<close>, its permits and its waiters.
  Every critical section of the mutex is one step; threads and tasks interleave between them in any way.
\<close>

section \<open>The registry\<close>

definition ROOT_LIMIT :: nat where "ROOT_LIMIT = 64"
definition WAITER_LIMIT :: nat where "WAITER_LIMIT = 64"

record root_owner =
  ro_id :: nat
  ro_root :: string
  ro_thread :: nat

record waiting_root =
  wr_id :: nat
  wr_root :: string

record root_admission =
  ra_owners :: "root_owner list"
  ra_waiters :: "waiting_root list"
  ra_next :: nat

definition admission_id :: "root_admission \<Rightarrow> (dt_error + nat) \<times> root_admission" where
  "admission_id a =
     (if ra_next a + 1 > u64_max then (Inl (DtInvalid ''root admission ids exhausted''), a)
      else (Inr (ra_next a + 1), a\<lparr>ra_next := ra_next a + 1\<rparr>))"

text \<open>A permit is its id; \<open>thread\<close> is the thread the section runs on.\<close>

definition reserve_root :: "nat \<Rightarrow> string \<Rightarrow> nat option \<Rightarrow> root_admission \<Rightarrow> (dt_error + nat) \<times> root_admission" where
  "reserve_root thread root i a =
     (if length (ra_owners a) \<ge> ROOT_LIMIT then (Inl (DtInvalid ''active trust mutation quota exceeded''), a)
      else case (case i of Some n \<Rightarrow> (Inr n, a) | None \<Rightarrow> admission_id a) of
        (Inl e, a) \<Rightarrow> (Inl e, a)
      | (Inr n, a) \<Rightarrow> (Inr n, a\<lparr>ra_owners := ra_owners a @ [\<lparr>ro_id = n, ro_root = root, ro_thread = thread\<rparr>]\<rparr>))"

record root_waiter =
  rw_id :: nat
  rw_registered :: bool

text \<open>One pass of a caller; \<open>inner\<close>: the thread holds metadata.  \<open>Inr None\<close>: it has to wait.\<close>

definition ordinary_pass ::
    "nat \<Rightarrow> bool \<Rightarrow> string \<Rightarrow> root_waiter option \<Rightarrow> root_admission \<Rightarrow> (dt_error + nat option) \<times> root_waiter option \<times> root_admission" where
  "ordinary_pass thread inner root waiter a =
     (if inner \<or> list_ex (\<lambda>o'. ro_thread o' = thread) (ra_owners a) then (Inl DtBusy, waiter, a)
      else
        let owned = list_ex (\<lambda>o'. ro_root o' = root) (ra_owners a);
            our_turn = (case find (\<lambda>w. wr_root w = root) (ra_waiters a) of
              None \<Rightarrow> True
            | Some first \<Rightarrow> (case waiter of None \<Rightarrow> False | Some w \<Rightarrow> rw_id w = wr_id first)) in
        if \<not> owned \<and> our_turn then
          (case reserve_root thread root (map_option rw_id waiter) a of
             (Inl e, a) \<Rightarrow> (Inl e, waiter, a)
           | (Inr n, a) \<Rightarrow>
               (case waiter of
                  None \<Rightarrow> (Inr (Some n), None, a)
                | Some w \<Rightarrow> (Inr (Some n), Some (w\<lparr>rw_registered := False\<rparr>),
                    a\<lparr>ra_waiters := filter (\<lambda>x. wr_id x \<noteq> rw_id w) (ra_waiters a)\<rparr>)))
        else
          (case waiter of
             Some w \<Rightarrow> (Inr None, Some w, a)
           | None \<Rightarrow>
               if length (ra_waiters a) \<ge> WAITER_LIMIT then (Inl (DtInvalid ''ordinary root admission quota exceeded''), None, a)
               else case admission_id a of
                 (Inl e, a) \<Rightarrow> (Inl e, None, a)
               | (Inr n, a) \<Rightarrow>
                   (Inr None, Some \<lparr>rw_id = n, rw_registered = True\<rparr>,
                    a\<lparr>ra_waiters := ra_waiters a @ [\<lparr>wr_id = n, wr_root = root\<rparr>]\<rparr>)))"

definition drop_waiter :: "root_waiter option \<Rightarrow> root_admission \<Rightarrow> root_admission" where
  "drop_waiter waiter a =
     (case waiter of
        Some w \<Rightarrow> if rw_registered w then a\<lparr>ra_waiters := filter (\<lambda>x. wr_id x \<noteq> rw_id w) (ra_waiters a)\<rparr> else a
      | None \<Rightarrow> a)"

definition drop_permit :: "nat \<Rightarrow> root_admission \<Rightarrow> root_admission" where
  "drop_permit i a = a\<lparr>ra_owners := filter (\<lambda>o'. ro_id o' \<noteq> i) (ra_owners a)\<rparr>"

definition try_acquire :: "nat \<Rightarrow> string \<Rightarrow> root_admission \<Rightarrow> (dt_error + nat) \<times> root_admission" where
  "try_acquire thread root a =
     (if list_ex (\<lambda>o'. ro_root o' = root) (ra_owners a) then (Inl DtBusy, a) else reserve_root thread root None a)"

section \<open>Callers\<close>

text \<open>
  \<open>acquire_with_wait\<close> and \<open>acquire_async_with_wait\<close>: a call passes until it is admitted, refused or out of time.
  One that is over still has to drop its waiter; a permit that came too late is dropped as any other.
\<close>

record root_call =
  rl_root :: string
  rl_waiter :: "root_waiter option"
  rl_over :: bool

record root_system =
  rs_admission :: root_admission
  rs_calls :: "nat \<Rightarrow> root_call option"

datatype root_event =
    RootEnter nat string
  | RootPass nat nat bool
  | RootExpire nat
  | RootLeave nat
  | RootTry nat string
  | RootRelease nat

datatype root_answer = RootGot nat | RootRefused dt_error | RootWaits | RootSilent

definition root_step :: "root_event \<Rightarrow> root_system \<Rightarrow> root_answer \<times> root_system" where
  "root_step e s =
     (case e of
        RootEnter c root \<Rightarrow>
          (case rs_calls s c of
             None \<Rightarrow> (RootSilent, s\<lparr>rs_calls := (rs_calls s)(c := Some \<lparr>rl_root = root, rl_waiter = None, rl_over = False\<rparr>)\<rparr>)
           | Some _ \<Rightarrow> (RootSilent, s))
      | RootPass c thread inner \<Rightarrow>
          (case rs_calls s c of
             None \<Rightarrow> (RootSilent, s)
           | Some call \<Rightarrow>
               if rl_over call then (RootSilent, s)
               else case ordinary_pass thread inner (rl_root call) (rl_waiter call) (rs_admission s) of
                 (Inl x, w, a) \<Rightarrow>
                   (RootRefused x, s\<lparr>rs_admission := a, rs_calls := (rs_calls s)(c := Some (call\<lparr>rl_waiter := w, rl_over := True\<rparr>))\<rparr>)
               | (Inr (Some n), w, a) \<Rightarrow>
                   (RootGot n, s\<lparr>rs_admission := a, rs_calls := (rs_calls s)(c := Some (call\<lparr>rl_waiter := w, rl_over := True\<rparr>))\<rparr>)
               | (Inr None, w, a) \<Rightarrow>
                   (RootWaits, s\<lparr>rs_admission := a, rs_calls := (rs_calls s)(c := Some (call\<lparr>rl_waiter := w\<rparr>))\<rparr>))
      | RootExpire c \<Rightarrow>
          (case rs_calls s c of
             None \<Rightarrow> (RootSilent, s)
           | Some call \<Rightarrow> (RootRefused DtBusy, s\<lparr>rs_calls := (rs_calls s)(c := Some (call\<lparr>rl_over := True\<rparr>))\<rparr>))
      | RootLeave c \<Rightarrow>
          (case rs_calls s c of
             None \<Rightarrow> (RootSilent, s)
           | Some call \<Rightarrow>
               if \<not> rl_over call then (RootSilent, s)
               else (RootSilent, s\<lparr>rs_admission := drop_waiter (rl_waiter call) (rs_admission s), rs_calls := (rs_calls s)(c := None)\<rparr>))
      | RootTry thread root \<Rightarrow>
          (case try_acquire thread root (rs_admission s) of
             (Inl x, a) \<Rightarrow> (RootRefused x, s\<lparr>rs_admission := a\<rparr>)
           | (Inr n, a) \<Rightarrow> (RootGot n, s\<lparr>rs_admission := a\<rparr>))
      | RootRelease i \<Rightarrow> (RootSilent, s\<lparr>rs_admission := drop_permit i (rs_admission s)\<rparr>))"

definition no_roots :: root_system where
  "no_roots = \<lparr>rs_admission = \<lparr>ra_owners = [], ra_waiters = [], ra_next = 0\<rparr>, rs_calls = (\<lambda>_. None)\<rparr>"

definition root_next :: "root_system \<Rightarrow> root_event \<Rightarrow> root_system" where
  "root_next s e = snd (root_step e s)"

end
