(* ===== verification/RootQueueFacts.thy ===== *)
theory RootQueueFacts
  imports RootQueue
begin

text \<open>One owner per root, served in the order of arrival, and no waiter that nobody will take away.\<close>

section \<open>A pass\<close>

lemma admission_id_cases:
  "admission_id a = (r, a') \<Longrightarrow> (\<exists>e. r = Inl e) \<and> a' = a \<or> r = Inr (ra_next a + 1) \<and> a' = a\<lparr>ra_next := ra_next a + 1\<rparr>"
  by (auto simp: admission_id_def split: if_splits)

definition owns :: "root_admission \<Rightarrow> string \<Rightarrow> bool" where
  "owns a root \<longleftrightarrow> root \<in> ro_root ` set (ra_owners a)"

lemma owns_iff: "list_ex (\<lambda>o'. ro_root o' = root) (ra_owners a) \<longleftrightarrow> owns a root"
  by (auto simp: owns_def list_ex_iff)

lemma reserve_cases:
  assumes "reserve_root thread root i a = (r, a')"
  shows "(\<exists>e. r = Inl e) \<and> a' = a \<or>
    (\<exists>n. r = Inr n \<and> length (ra_owners a) < ROOT_LIMIT \<and> (case i of Some k \<Rightarrow> n = k | None \<Rightarrow> n = ra_next a + 1) \<and>
      a' = a\<lparr>ra_next := (case i of Some _ \<Rightarrow> ra_next a | None \<Rightarrow> n), ra_owners := ra_owners a @ [\<lparr>ro_id = n, ro_root = root, ro_thread = thread\<rparr>]\<rparr>)"
  using assms
  by (cases i) (auto simp: reserve_root_def not_le split: if_splits sum.splits prod.splits dest!: admission_id_cases)

lemma pass_cases:
  assumes "ordinary_pass thread inner root w a = (r, w', a')"
  obtains (refused) e where "r = Inl e" "w' = w" "a' = a"
  | (entered) "w = None" "r = Inr (Some (ra_next a + 1))" "w' = None" "\<not> owns a root"
      "\<forall>x \<in> set (ra_waiters a). wr_root x \<noteq> root" "length (ra_owners a) < ROOT_LIMIT"
      "a' = a\<lparr>ra_next := ra_next a + 1, ra_owners := ra_owners a @ [\<lparr>ro_id = ra_next a + 1, ro_root = root, ro_thread = thread\<rparr>]\<rparr>"
  | (served) v where "w = Some v" "r = Inr (Some (rw_id v))" "w' = Some (v\<lparr>rw_registered := False\<rparr>)" "\<not> owns a root"
      "\<forall>x. find (\<lambda>x. wr_root x = root) (ra_waiters a) = Some x \<longrightarrow> wr_id x = rw_id v" "length (ra_owners a) < ROOT_LIMIT"
      "a' = a\<lparr>ra_owners := ra_owners a @ [\<lparr>ro_id = rw_id v, ro_root = root, ro_thread = thread\<rparr>],
         ra_waiters := filter (\<lambda>x. wr_id x \<noteq> rw_id v) (ra_waiters a)\<rparr>"
  | (waits) v where "w = Some v" "r = Inr None" "w' = w" "a' = a"
  | (queued) "w = None" "r = Inr None" "w' = Some \<lparr>rw_id = ra_next a + 1, rw_registered = True\<rparr>"
      "length (ra_waiters a) < WAITER_LIMIT"
      "a' = a\<lparr>ra_next := ra_next a + 1, ra_waiters := ra_waiters a @ [\<lparr>wr_id = ra_next a + 1, wr_root = root\<rparr>]\<rparr>"
proof -
  let ?turn = "case find (\<lambda>x. wr_root x = root) (ra_waiters a) of
    None \<Rightarrow> True | Some first \<Rightarrow> (case w of None \<Rightarrow> False | Some v \<Rightarrow> rw_id v = wr_id first)"
  show thesis
  proof (cases "inner \<or> list_ex (\<lambda>o'. ro_thread o' = thread) (ra_owners a)")
    case True
    then show thesis using assms refused by (auto simp: ordinary_pass_def)
  next
    case out: False
    show thesis
    proof (cases "\<not> owns a root \<and> ?turn")
      case True
      note turn = assms [unfolded ordinary_pass_def Let_def owns_iff if_not_P [OF out] if_P [OF True]]
      obtain q a1 where q: "reserve_root thread root (map_option rw_id w) a = (q, a1)" by (metis prod.exhaust)
      show thesis
      proof (cases q)
        case (Inl e)
        then show thesis using turn q reserve_cases [OF q] refused by auto
      next
        case (Inr n)
        note got = reserve_cases [OF q, unfolded Inr]
        show thesis
        proof (cases w)
          case None
          then have none: "find (\<lambda>x. wr_root x = root) (ra_waiters a) = None" using True by (auto split: option.splits)
          then have "\<forall>x \<in> set (ra_waiters a). wr_root x \<noteq> root" by (auto simp: find_None_iff)
          then show thesis using turn q Inr None got entered True by auto
        next
          case (Some v)
          then have "\<forall>x. find (\<lambda>x. wr_root x = root) (ra_waiters a) = Some x \<longrightarrow> wr_id x = rw_id v" using True by auto
          then show thesis using turn q Inr Some got served True by auto
        qed
      qed
    next
      case False
      note wait = assms [unfolded ordinary_pass_def Let_def owns_iff if_not_P [OF out] if_not_P [OF False]]
      show thesis
      proof (cases w)
        case (Some v)
        then have "r = Inr None" "w' = w" "a' = a" using wait by simp_all
        then show thesis by (rule waits [OF Some])
      next
        case None
        obtain q a1 where q: "admission_id a = (q, a1)" by (metis prod.exhaust)
        show thesis
        proof (cases "length (ra_waiters a) \<ge> WAITER_LIMIT")
          case True
          then show thesis using wait None refused by auto
        next
          case room: False
          from admission_id_cases [OF q] show thesis
          proof
            assume "(\<exists>e. q = Inl e) \<and> a1 = a"
            then show thesis using wait None q room refused by auto
          next
            assume "q = Inr (ra_next a + 1) \<and> a1 = a\<lparr>ra_next := ra_next a + 1\<rparr>"
            then show thesis using wait None q room queued by (auto simp: not_le)
          qed
        qed
      qed
    qed
  qed
qed

section \<open>The invariant\<close>

definition admission_ok :: "root_admission \<Rightarrow> bool" where
  "admission_ok a \<longleftrightarrow> distinct (map ro_root (ra_owners a)) \<and> distinct (map ro_id (ra_owners a)) \<and>
     (\<forall>o' \<in> set (ra_owners a). ro_id o' \<le> ra_next a) \<and> sorted_wrt (<) (map wr_id (ra_waiters a)) \<and>
     (\<forall>w \<in> set (ra_waiters a). wr_id w \<le> ra_next a \<and> wr_id w \<notin> ro_id ` set (ra_owners a)) \<and>
     length (ra_owners a) \<le> ROOT_LIMIT \<and> length (ra_waiters a) \<le> WAITER_LIMIT"

definition entry_of :: "root_call option \<Rightarrow> waiting_root option" where
  "entry_of x = (case x of
     Some call \<Rightarrow> (case rl_waiter call of
       Some v \<Rightarrow> if rw_registered v then Some \<lparr>wr_id = rw_id v, wr_root = rl_root call\<rparr> else None
     | None \<Rightarrow> None)
   | None \<Rightarrow> None)"

definition settled_call :: "root_call option \<Rightarrow> bool" where
  "settled_call x \<longleftrightarrow> (case x of
     Some call \<Rightarrow> (case rl_waiter call of Some v \<Rightarrow> rw_registered v \<or> rl_over call | None \<Rightarrow> True)
   | None \<Rightarrow> True)"

text \<open>The queue is exactly the entries of the calls, each of one call.\<close>

definition calls_ok :: "root_system \<Rightarrow> bool" where
  "calls_ok s \<longleftrightarrow>
     set (ra_waiters (rs_admission s)) = {w. \<exists>c. entry_of (rs_calls s c) = Some w} \<and>
     (\<forall>c c' w. entry_of (rs_calls s c) = Some w \<longrightarrow> entry_of (rs_calls s c') = Some w \<longrightarrow> c = c') \<and>
     (\<forall>c. settled_call (rs_calls s c))"

definition root_ok :: "root_system \<Rightarrow> bool" where
  "root_ok s \<longleftrightarrow> admission_ok (rs_admission s) \<and> calls_ok s"

lemma root_ok_new: "root_ok no_roots"
  by (simp add: root_ok_def admission_ok_def calls_ok_def no_roots_def entry_of_def settled_call_def)

lemma sorted_filter: "sorted_wrt (<) (map f xs) \<Longrightarrow> sorted_wrt (<) (map f (filter P xs))"
  by (induction xs) auto

lemma admission_ok_filter:
  "admission_ok a \<Longrightarrow> admission_ok (a\<lparr>ra_waiters := filter P (ra_waiters a)\<rparr>)"
  "admission_ok a \<Longrightarrow> admission_ok (a\<lparr>ra_owners := filter Q (ra_owners a)\<rparr>)"
  by (auto simp: admission_ok_def sorted_filter distinct_map_filter intro: order.trans [OF length_filter_le])

lemma admission_ok_owner:
  assumes "admission_ok a" and "\<not> owns a root" and "length (ra_owners a) < ROOT_LIMIT"
    and "n \<le> m" and "ra_next a \<le> m" and "n \<notin> ro_id ` set (ra_owners a)" and "n \<notin> wr_id ` set (ra_waiters a)"
  shows "admission_ok (a\<lparr>ra_next := m, ra_owners := ra_owners a @ [\<lparr>ro_id = n, ro_root = root, ro_thread = t\<rparr>]\<rparr>)"
  using assms by (fastforce simp: admission_ok_def owns_def)

lemma new_id_new: "admission_ok a \<Longrightarrow> ra_next a + 1 \<notin> ro_id ` set (ra_owners a) \<and> ra_next a + 1 \<notin> wr_id ` set (ra_waiters a)"
  by (fastforce simp: admission_ok_def)

lemma admission_ok_queued:
  assumes "admission_ok a" and "length (ra_waiters a) < WAITER_LIMIT"
  shows "admission_ok (a\<lparr>ra_next := ra_next a + 1, ra_waiters := ra_waiters a @ [\<lparr>wr_id = ra_next a + 1, wr_root = root\<rparr>]\<rparr>)"
  using assms new_id_new [OF assms(1)] by (fastforce simp: admission_ok_def sorted_wrt_append)

lemma admission_ok_try:
  assumes "admission_ok a" and "try_acquire thread root a = (r, a')"
  shows "admission_ok a'" "ra_waiters a' = ra_waiters a"
proof -
  show "admission_ok a'"
  proof (cases "owns a root")
    case True
    then show ?thesis using assms by (simp add: try_acquire_def owns_iff)
  next
    case False
    then have q: "reserve_root thread root None a = (r, a')" using assms(2) by (simp add: try_acquire_def owns_iff)
    from reserve_cases [OF q] show ?thesis
      using admission_ok_owner [OF assms(1) False, of "ra_next a + 1" "ra_next a + 1" thread] new_id_new [OF assms(1)] assms(1) by auto
  qed
  show "ra_waiters a' = ra_waiters a"
    using assms(2) by (auto simp: try_acquire_def split: if_splits dest!: reserve_cases)
qed

section \<open>Steps keep it\<close>

lemma entry_unique:
  assumes "admission_ok a" and "x \<in> set (ra_waiters a)" and "y \<in> set (ra_waiters a)" and "wr_id x = wr_id y"
  shows "x = y"
proof -
  have "distinct (map wr_id (ra_waiters a))" using assms(1) strict_sorted_iff [of "map wr_id (ra_waiters a)"] by (simp add: admission_ok_def)
  then show ?thesis using assms(2-4) by (simp add: distinct_map inj_on_def)
qed

lemma entry_None [simp]: "entry_of None = None" "settled_call None"
  by (simp_all add: entry_of_def settled_call_def)

lemma entry_queued: "calls_ok s \<Longrightarrow> entry_of (rs_calls s c) = Some w \<Longrightarrow> w \<in> set (ra_waiters (rs_admission s))"
  by (auto simp: calls_ok_def)

lemma queue_updates:
  assumes "calls_ok s" and "admission_ok (rs_admission s)" and "settled_call x"
    and "set (ra_waiters a) = set (ra_waiters (rs_admission s)) - set_option (entry_of (rs_calls s c)) \<union> set_option (entry_of x)"
    and "\<And>w. entry_of x = Some w \<Longrightarrow> w \<notin> set (ra_waiters (rs_admission s)) \<or> entry_of (rs_calls s c) = Some w"
  shows "calls_ok (s\<lparr>rs_admission := a, rs_calls := (rs_calls s)(c := x)\<rparr>)"
proof -
  let ?e = "\<lambda>c. entry_of (rs_calls s c)"
  have q: "set (ra_waiters (rs_admission s)) = {w. \<exists>c. ?e c = Some w}"
    "\<And>c c' w. ?e c = Some w \<Longrightarrow> ?e c' = Some w \<Longrightarrow> c = c'" "\<And>c. settled_call (rs_calls s c)"
    using assms(1) unfolding calls_ok_def by blast+
  have "w \<in> set (ra_waiters a) \<longleftrightarrow> (\<exists>c'. entry_of (((rs_calls s)(c := x)) c') = Some w)" for w
  proof -
    have "(\<exists>c'. entry_of (((rs_calls s)(c := x)) c') = Some w) \<longleftrightarrow> entry_of x = Some w \<or> (\<exists>c'. c' \<noteq> c \<and> ?e c' = Some w)"
      by (auto split: if_splits)
    moreover have "(\<exists>c'. c' \<noteq> c \<and> ?e c' = Some w) \<longleftrightarrow> w \<in> set (ra_waiters (rs_admission s)) \<and> ?e c \<noteq> Some w"
    proof
      assume "\<exists>c'. c' \<noteq> c \<and> ?e c' = Some w"
      then obtain c' where c': "c' \<noteq> c" "?e c' = Some w" by blast
      then have "w \<in> set (ra_waiters (rs_admission s))" unfolding q(1) by blast
      moreover have "?e c \<noteq> Some w" using q(2) [OF c'(2)] c'(1) by blast
      ultimately show "w \<in> set (ra_waiters (rs_admission s)) \<and> ?e c \<noteq> Some w" by blast
    next
      assume w: "w \<in> set (ra_waiters (rs_admission s)) \<and> ?e c \<noteq> Some w"
      then obtain c' where c': "?e c' = Some w" unfolding q(1) by blast
      then have "c' \<noteq> c" using w by (metis c')
      then show "\<exists>c'. c' \<noteq> c \<and> ?e c' = Some w" using c' by blast
    qed
    ultimately show ?thesis unfolding assms(4) by auto
  qed
  then have "set (ra_waiters a) = {w. \<exists>c'. entry_of (((rs_calls s)(c := x)) c') = Some w}" by blast
  moreover have same: "c1 = c2" if "entry_of (((rs_calls s)(c := x)) c1) = Some w" "entry_of (((rs_calls s)(c := x)) c2) = Some w" for c1 c2 w
  proof -
    have u: "(c' = c \<and> entry_of x = Some w) \<or> (c' \<noteq> c \<and> ?e c' = Some w)" if "entry_of (((rs_calls s)(c := x)) c') = Some w" for c'
      using that by (simp split: if_splits)
    have only: "c' = c" if "entry_of x = Some w" "?e c' = Some w" for c'
      using assms(5) [OF that(1)] entry_queued [OF assms(1) that(2)] q(2) [OF that(2)] by blast
    show "c1 = c2"
    proof (cases "c1 = c \<or> c2 = c")
      case True
      with u [OF that(1)] u [OF that(2)] show ?thesis by (metis only)
    next
      case False
      then show ?thesis using u [OF that(1)] u [OF that(2)] q(2) by blast
    qed
  qed
  moreover have "settled_call (((rs_calls s)(c := x)) c')" for c'
    using q(3) [of c'] assms(3) by simp
  moreover have sel: "rs_admission (s\<lparr>rs_admission := a, rs_calls := (rs_calls s)(c := x)\<rparr>) = a"
    "rs_calls (s\<lparr>rs_admission := a, rs_calls := (rs_calls s)(c := x)\<rparr>) = (rs_calls s)(c := x)" by simp_all
  ultimately show ?thesis unfolding calls_ok_def sel by (intro conjI allI impI) (assumption | erule same)+
qed

lemma registered_entry:
  assumes "calls_ok s" and "rs_calls s c = Some call" and "\<not> rl_over call" and "rl_waiter call = Some v"
  shows "entry_of (rs_calls s c) = Some \<lparr>wr_id = rw_id v, wr_root = rl_root call\<rparr>" "rw_registered v"
proof -
  have "settled_call (rs_calls s c)" using assms(1) by (simp add: calls_ok_def)
  then show "rw_registered v" using assms(2-4) by (simp add: settled_call_def)
  then show "entry_of (rs_calls s c) = Some \<lparr>wr_id = rw_id v, wr_root = rl_root call\<rparr>" using assms(2,4) by (simp add: entry_of_def)
qed

lemma without_entry:
  assumes "admission_ok a" and "\<lparr>wr_id = n, wr_root = root\<rparr> \<in> set (ra_waiters a)"
  shows "set (filter (\<lambda>x. wr_id x \<noteq> n) (ra_waiters a)) = set (ra_waiters a) - {\<lparr>wr_id = n, wr_root = root\<rparr>}"
proof (rule set_eqI)
  fix x
  show "x \<in> set (filter (\<lambda>x. wr_id x \<noteq> n) (ra_waiters a)) \<longleftrightarrow> x \<in> set (ra_waiters a) - {\<lparr>wr_id = n, wr_root = root\<rparr>}"
    using entry_unique [OF assms(1) _ assms(2), of x] by (cases "wr_id x = n") auto
qed

lemma entry_updated:
  "entry_of (Some (call\<lparr>rl_waiter := w, rl_over := b\<rparr>)) =
    (case w of Some v \<Rightarrow> if rw_registered v then Some \<lparr>wr_id = rw_id v, wr_root = rl_root call\<rparr> else None | None \<Rightarrow> None)"
  "settled_call (Some (call\<lparr>rl_waiter := w, rl_over := b\<rparr>)) \<longleftrightarrow> (case w of Some v \<Rightarrow> rw_registered v \<or> b | None \<Rightarrow> True)"
  by (simp_all add: entry_of_def settled_call_def split: option.split)

lemma entry_over:
  "entry_of (Some (call\<lparr>rl_over := b\<rparr>)) = entry_of (Some call)"
  "settled_call (Some (call\<lparr>rl_over := True\<rparr>))"
  by (simp_all add: entry_of_def settled_call_def split: option.split)

lemma same_entry:
  assumes "calls_ok s" and "admission_ok (rs_admission s)" and "rs_calls s c = Some call" and "entry_of (Some call') = entry_of (Some call)"
    and "settled_call (Some call')"
  shows "calls_ok (s\<lparr>rs_admission := rs_admission s, rs_calls := (rs_calls s)(c := Some call')\<rparr>)"
proof (rule queue_updates [OF assms(1,2,5)])
  have e: "entry_of (Some call') = entry_of (rs_calls s c)" by (simp add: assms(3,4))
  show "set (ra_waiters (rs_admission s)) =
      set (ra_waiters (rs_admission s)) - set_option (entry_of (rs_calls s c)) \<union> set_option (entry_of (Some call'))"
    unfolding e using entry_queued [OF assms(1), of c] by (cases "entry_of (rs_calls s c)") auto
  show "w \<notin> set (ra_waiters (rs_admission s)) \<or> entry_of (rs_calls s c) = Some w" if "entry_of (Some call') = Some w" for w
    using that by (simp add: e)
qed

lemma call_same [simp]: "call\<lparr>rl_waiter := rl_waiter call, rl_over := b\<rparr> = call\<lparr>rl_over := b\<rparr>"
  by simp

lemma pass_keeps:
  assumes "root_ok s" and "rs_calls s c = Some call" and "\<not> rl_over call"
    and "ordinary_pass thread inner (rl_root call) (rl_waiter call) (rs_admission s) = (r, w, a)"
  shows "admission_ok a \<and> calls_ok (s\<lparr>rs_admission := a, rs_calls := (rs_calls s)(c := Some (call\<lparr>rl_waiter := w, rl_over := (r \<noteq> Inr None)\<rparr>))\<rparr>)"
proof -
  have ok: "admission_ok (rs_admission s)" "calls_ok s" using assms(1) by (simp_all add: root_ok_def)
  have mine: "entry_of (rs_calls s c) = (case rl_waiter call of
      Some v \<Rightarrow> if rw_registered v then Some \<lparr>wr_id = rw_id v, wr_root = rl_root call\<rparr> else None | None \<Rightarrow> None)"
    by (simp add: entry_of_def assms(2))
  have reg: "rw_registered v" if "rl_waiter call = Some v" for v using registered_entry(2) [OF ok(2) assms(2,3) that] .
  have q: "w' \<in> set (ra_waiters (rs_admission s))" if "entry_of (rs_calls s c) = Some w'" for w' using entry_queued [OF ok(2) that] .
  note upd = queue_updates [OF ok(2,1)]
  show ?thesis
    using assms(4)
  proof (cases rule: pass_cases)
    case (refused e)
    then show ?thesis
      using ok(1) same_entry [OF ok(2,1) assms(2), of "call\<lparr>rl_over := True\<rparr>"] by (simp add: entry_over)
  next
    case entered
    have "admission_ok a"
      unfolding entered(7) by (rule admission_ok_owner) (use entered ok(1) new_id_new [OF ok(1)] in simp_all)
    then show ?thesis using entered by (intro conjI upd) (auto simp: mine entry_updated)
  next
    case (served v)
    note e = registered_entry [OF ok(2) assms(2,3) served(1)]
    note off = without_entry [OF ok(1) q [OF e(1)]]
    let ?f = "(rs_admission s)\<lparr>ra_waiters := filter (\<lambda>x. wr_id x \<noteq> rw_id v) (ra_waiters (rs_admission s))\<rparr>"
    have f: "admission_ok ?f" by (rule admission_ok_filter(1) [OF ok(1)])
    have "rw_id v \<le> ra_next (rs_admission s)" "rw_id v \<notin> ro_id ` set (ra_owners (rs_admission s))"
      using ok(1) q [OF e(1)] by (auto simp: admission_ok_def)
    then have "admission_ok (?f\<lparr>ra_next := ra_next (rs_admission s), ra_owners := ra_owners ?f @ [\<lparr>ro_id = rw_id v, ro_root = rl_root call, ro_thread = thread\<rparr>]\<rparr>)"
      by (intro admission_ok_owner [OF f]) (use served(4,6) in \<open>auto simp: owns_def\<close>)
    then have "admission_ok a" by (cases "rs_admission s") (simp add: served(7))
    then show ?thesis using served off e by (intro conjI upd) (auto simp: mine entry_updated)
  next
    case (waits v)
    have "settled_call (Some (call\<lparr>rl_over := False\<rparr>))"
      using reg [OF waits(1)] waits(1) by (simp add: settled_call_def)
    then have "calls_ok (s\<lparr>rs_admission := rs_admission s, rs_calls := (rs_calls s)(c := Some (call\<lparr>rl_over := False\<rparr>))\<rparr>)"
      by (intro same_entry [OF ok(2,1) assms(2)]) (simp_all add: entry_over)
    moreover have "call\<lparr>rl_waiter := w, rl_over := (r \<noteq> Inr None)\<rparr> = call\<lparr>rl_over := False\<rparr>"
      using waits by (cases call) simp
    ultimately show ?thesis using ok(1) waits(4) by simp
  next
    case queued
    have "admission_ok a" unfolding queued(5) by (rule admission_ok_queued [OF ok(1) queued(4)])
    then show ?thesis using queued new_id_new [OF ok(1)] by (intro conjI upd) (force simp: mine entry_updated)+
  qed
qed

lemma root_pass_next:
  assumes "rs_calls s c = Some call" and "\<not> rl_over call"
    and "ordinary_pass thread inner (rl_root call) (rl_waiter call) (rs_admission s) = (r, w, a)"
  shows "root_next s (RootPass c thread inner) =
    s\<lparr>rs_admission := a, rs_calls := (rs_calls s)(c := Some (call\<lparr>rl_waiter := w, rl_over := (r \<noteq> Inr None)\<rparr>))\<rparr>"
  using assms by (cases call) (auto simp: root_next_def root_step_def split: sum.splits option.splits)

lemma same_queue:
  assumes "root_ok s" and "admission_ok a" and "ra_waiters a = ra_waiters (rs_admission s)"
  shows "root_ok (s\<lparr>rs_admission := a\<rparr>)"
  using assms by (simp add: root_ok_def calls_ok_def)

lemma root_step_keeps:
  assumes ok: "root_ok s"
  shows "root_ok (root_next s e)"
proof -
  have a: "admission_ok (rs_admission s)" "calls_ok s" using ok by (simp_all add: root_ok_def)
  note upd = queue_updates [OF a(2,1), where a = "rs_admission s"]
  show ?thesis
  proof (cases e)
    case (RootPass c thread inner)
    show ?thesis
    proof (cases "\<exists>call. rs_calls s c = Some call \<and> \<not> rl_over call")
      case True
      then obtain call where c: "rs_calls s c = Some call" "\<not> rl_over call" by blast
      obtain r w a' where p: "ordinary_pass thread inner (rl_root call) (rl_waiter call) (rs_admission s) = (r, w, a')" by (metis prod.exhaust)
      show ?thesis using pass_keeps [OF ok c p] by (simp add: RootPass root_pass_next [OF c p] root_ok_def)
    next
      case False
      then show ?thesis using ok RootPass by (auto simp: root_next_def root_step_def split: option.splits)
    qed
  next
    case (RootEnter c root)
    have "calls_ok (s\<lparr>rs_admission := rs_admission s, rs_calls := (rs_calls s)(c := Some \<lparr>rl_root = root, rl_waiter = None, rl_over = False\<rparr>)\<rparr>)"
      if "rs_calls s c = None"
      by (rule upd) (use that in \<open>simp_all add: entry_of_def settled_call_def\<close>)
    then show ?thesis using ok a(1) RootEnter by (auto simp: root_next_def root_step_def root_ok_def split: option.splits)
  next
    case (RootExpire c)
    have "calls_ok (s\<lparr>rs_admission := rs_admission s, rs_calls := (rs_calls s)(c := Some (call\<lparr>rl_over := True\<rparr>))\<rparr>)"
      if c: "rs_calls s c = Some call" for call
      by (rule same_entry [OF a(2,1) c]) (simp_all add: entry_over)
    then show ?thesis using ok a(1) RootExpire by (auto simp: root_next_def root_step_def root_ok_def split: option.splits)
  next
    case (RootLeave c)
    have "root_ok (s\<lparr>rs_admission := drop_waiter (rl_waiter call) (rs_admission s), rs_calls := (rs_calls s)(c := None)\<rparr>)"
      if c: "rs_calls s c = Some call" for call
    proof (cases "\<exists>v. rl_waiter call = Some v \<and> rw_registered v")
      case True
      then obtain v where v: "rl_waiter call = Some v" "rw_registered v" by blast
      then have e: "entry_of (rs_calls s c) = Some \<lparr>wr_id = rw_id v, wr_root = rl_root call\<rparr>" by (simp add: entry_of_def c)
      show ?thesis
        using without_entry [OF a(1) entry_queued [OF a(2) e]] e v admission_ok_filter(1) [OF a(1)]
        by (auto simp: root_ok_def drop_waiter_def intro!: queue_updates [OF a(2,1)])
    next
      case False
      then have "entry_of (rs_calls s c) = None" "drop_waiter (rl_waiter call) (rs_admission s) = rs_admission s"
        by (auto simp: entry_of_def c drop_waiter_def split: option.splits)
      moreover from this have "calls_ok (s\<lparr>rs_admission := rs_admission s, rs_calls := (rs_calls s)(c := None)\<rparr>)"
        by (intro upd) simp_all
      ultimately show ?thesis using a(1) by (simp add: root_ok_def)
    qed
    then show ?thesis using ok RootLeave by (auto simp: root_next_def root_step_def split: option.splits)
  next
    case (RootTry thread root)
    obtain r a' where t: "try_acquire thread root (rs_admission s) = (r, a')" by (metis prod.exhaust)
    have "root_next s e = s\<lparr>rs_admission := a'\<rparr>" using RootTry t by (simp add: root_next_def root_step_def split: sum.splits)
    then show ?thesis using same_queue [OF ok] admission_ok_try [OF a(1) t] by simp
  next
    case (RootRelease i)
    then show ?thesis
      using same_queue [OF ok] admission_ok_filter(2) [OF a(1)] by (simp add: root_next_def root_step_def drop_permit_def)
  qed
qed

interpretation root_queue: kept_invariant root_next root_ok "\<lambda>_ _. True"
  by unfold_locales (rule root_step_keeps)

lemma reachable_root_ok: "root_ok (run_inputs root_next no_roots es)"
  by (rule root_queue.run_keeps [OF root_ok_new]) simp


section \<open>The order of the queue\<close>

lemma find_sorted_first:
  assumes "sorted_wrt (<) (map wr_id ws)" and "find (\<lambda>x. wr_root x = root) ws = Some f"
  shows "f \<in> set ws" "wr_root f = root" "\<And>w. w \<in> set ws \<Longrightarrow> wr_root w = root \<Longrightarrow> wr_id f \<le> wr_id w"
  using assms by (induction ws) (force split: if_splits)+

text \<open>Who waits for the root before this call: everybody, for a call that is not in the queue.\<close>

definition ahead_of :: "root_call \<Rightarrow> root_admission \<Rightarrow> waiting_root set" where
  "ahead_of call a = {w \<in> set (ra_waiters a). wr_root w = rl_root call \<and> (case rl_waiter call of None \<Rightarrow> True | Some v \<Rightarrow> wr_id w < rw_id v)}"

lemma turn_iff:
  assumes "root_ok s" and "rs_calls s c = Some call" and "\<not> rl_over call"
  shows "(case find (\<lambda>w. wr_root w = rl_root call) (ra_waiters (rs_admission s)) of
      None \<Rightarrow> True | Some first \<Rightarrow> (case rl_waiter call of None \<Rightarrow> False | Some w \<Rightarrow> rw_id w = wr_id first)) \<longleftrightarrow>
    ahead_of call (rs_admission s) = {}"
proof -
  let ?a = "rs_admission s"
  have ok: "admission_ok ?a" "calls_ok s" using assms(1) by (simp_all add: root_ok_def)
  have srt: "sorted_wrt (<) (map wr_id (ra_waiters ?a))" using ok(1) by (simp add: admission_ok_def)
  show ?thesis
  proof (cases "find (\<lambda>w. wr_root w = rl_root call) (ra_waiters ?a)")
    case None
    then have "\<forall>w \<in> set (ra_waiters ?a). wr_root w \<noteq> rl_root call" by (simp add: find_None_iff)
    then have "ahead_of call ?a = {}" by (auto simp: ahead_of_def)
    then show ?thesis by (simp add: None)
  next
    case (Some f)
    note f = find_sorted_first [OF srt Some]
    show ?thesis
    proof (cases "rl_waiter call")
      case None
      then show ?thesis using Some f(1,2) by (auto simp: ahead_of_def)
    next
      case v: (Some v)
      have mine: "\<lparr>wr_id = rw_id v, wr_root = rl_root call\<rparr> \<in> set (ra_waiters ?a)"
        by (rule entry_queued [OF ok(2) registered_entry(1) [OF ok(2) assms(2,3) v]])
      have le: "wr_id f \<le> rw_id v" using f(3) [OF mine] by simp
      have "ahead_of call ?a = {} \<longleftrightarrow> \<not> wr_id f < rw_id v"
        using f by (auto simp: ahead_of_def v) (meson le_less_trans)
      then show ?thesis using Some v le by auto
    qed
  qed
qed

lemma queue_only_grows_at_the_end:
  assumes "root_ok s"
  shows "ra_next (rs_admission s) \<le> ra_next (rs_admission (root_next s e))"
    "w \<in> set (ra_waiters (rs_admission (root_next s e))) \<Longrightarrow> wr_id w \<le> ra_next (rs_admission s) \<Longrightarrow> w \<in> set (ra_waiters (rs_admission s))"
proof -
  let ?a = "rs_admission s"
  have "ra_next ?a \<le> ra_next a \<and> (\<forall>w \<in> set (ra_waiters a). wr_id w \<le> ra_next ?a \<longrightarrow> w \<in> set (ra_waiters ?a))"
    if "ordinary_pass t i r v ?a = (x, v', a)" for t i r v x v' a
    using that by (cases rule: pass_cases) auto
  moreover have "ra_next ?a \<le> ra_next a \<and> ra_waiters a = ra_waiters ?a" if "try_acquire t r ?a = (x, a)" for t r x a
    using that by (auto simp: try_acquire_def split: if_splits dest!: reserve_cases)
  ultimately have "ra_next ?a \<le> ra_next (rs_admission (root_next s e)) \<and>
      (\<forall>w \<in> set (ra_waiters (rs_admission (root_next s e))). wr_id w \<le> ra_next ?a \<longrightarrow> w \<in> set (ra_waiters ?a))"
    by (cases e) (auto simp: root_next_def root_step_def drop_waiter_def drop_permit_def
        split: option.split sum.split prod.split)
  then show "ra_next ?a \<le> ra_next (rs_admission (root_next s e))"
    "w \<in> set (ra_waiters (rs_admission (root_next s e))) \<Longrightarrow> wr_id w \<le> ra_next ?a \<Longrightarrow> w \<in> set (ra_waiters ?a)" by blast+
qed


lemma pass_answer:
  assumes "root_ok s" and "rs_calls s c = Some call" and "\<not> rl_over call"
  shows "(\<exists>n. fst (root_step (RootPass c thread inner) s) = RootGot n) \<longleftrightarrow>
    \<not> inner \<and> thread \<notin> ro_thread ` set (ra_owners (rs_admission s)) \<and> \<not> owns (rs_admission s) (rl_root call) \<and> ahead_of call (rs_admission s) = {} \<and>
    length (ra_owners (rs_admission s)) < ROOT_LIMIT \<and> (rl_waiter call = None \<longrightarrow> ra_next (rs_admission s) < u64_max)"
proof -
  let ?a = "rs_admission s"
  let ?p = "ordinary_pass thread inner (rl_root call) (rl_waiter call) ?a"
  have free: "list_ex (\<lambda>o'. ro_thread o' = thread) (ra_owners ?a) \<longleftrightarrow> thread \<in> ro_thread ` set (ra_owners ?a)"
    by (auto simp: list_ex_iff)
  have got: "(\<exists>n. fst (root_step (RootPass c thread inner) s) = RootGot n) \<longleftrightarrow> (\<exists>n. fst ?p = Inr (Some n))"
    using assms(2,3) by (cases ?p) (auto simp: root_step_def split: sum.splits option.splits)
  have wait: "fst (case rl_waiter call of
             Some w \<Rightarrow> (Inr None, Some w, ?a)
           | None \<Rightarrow>
               if length (ra_waiters ?a) \<ge> WAITER_LIMIT then (Inl (DtInvalid ''ordinary root admission quota exceeded''), None, ?a)
               else case admission_id ?a of
                 (Inl e, a) \<Rightarrow> (Inl e, None, a)
               | (Inr n, a) \<Rightarrow>
                   (Inr None, Some \<lparr>rw_id = n, rw_registered = True\<rparr>,
                    a\<lparr>ra_waiters := ra_waiters a @ [\<lparr>wr_id = n, wr_root = rl_root call\<rparr>]\<rparr>)) \<noteq> Inr (Some n)" for n :: nat
    by (auto simp: admission_id_def split: option.split)
  consider (nested) "inner \<or> thread \<in> ro_thread ` set (ra_owners ?a)"
    | (turn) "\<not> inner" "thread \<notin> ro_thread ` set (ra_owners ?a)" "\<not> owns ?a (rl_root call) \<and> ahead_of call ?a = {}"
    | (early) "\<not> inner" "thread \<notin> ro_thread ` set (ra_owners ?a)" "\<not> (\<not> owns ?a (rl_root call) \<and> ahead_of call ?a = {})"
    by blast
  then show ?thesis
  proof cases
    case nested
    then have "inner \<or> list_ex (\<lambda>o'. ro_thread o' = thread) (ra_owners ?a)" using free by blast
    then have "\<not> (\<exists>n. fst ?p = Inr (Some n))" unfolding ordinary_pass_def by simp
    then show ?thesis unfolding got using nested by blast
  next
    case turn
    have "(\<exists>n. fst ?p = Inr (Some n)) \<longleftrightarrow> length (ra_owners ?a) < ROOT_LIMIT \<and> (rl_waiter call = None \<longrightarrow> ra_next ?a < u64_max)"
      using turn free unfolding ordinary_pass_def Let_def owns_iff turn_iff [OF assms(1-3)]
      by (auto simp: reserve_root_def admission_id_def not_le split: option.split)
    then show ?thesis unfolding got using turn by simp
  next
    case early
    have out: "\<not> (inner \<or> list_ex (\<lambda>o'. ro_thread o' = thread) (ra_owners ?a))" using early(1,2) free by simp
    have "\<not> (\<exists>n. fst ?p = Inr (Some n))"
      unfolding ordinary_pass_def Let_def owns_iff turn_iff [OF assms(1-3)] if_not_P [OF out] if_not_P [OF early(3)] using wait by blast
    then show ?thesis unfolding got using early by blast
  qed
qed

lemma nobody_gets_ahead:
  assumes "root_ok s" and "b \<le> ra_next (rs_admission s)" and "w \<in> set (ra_waiters (rs_admission (run_inputs root_next s es)))" and "wr_id w \<le> b"
  shows "w \<in> set (ra_waiters (rs_admission s))"
  using assms
proof (induction es arbitrary: s)
  case (Cons e es)
  note keep = root_step_keeps [OF Cons.prems(1), of e] and next' = queue_only_grows_at_the_end [OF Cons.prems(1), where e = e]
  have "w \<in> set (ra_waiters (rs_admission (root_next s e)))"
    by (rule Cons.IH [OF keep]) (use Cons.prems next'(1) in \<open>auto simp: run_inputs_def\<close>)
  then show ?case using next'(2) Cons.prems(2,4) by auto
qed (simp add: run_inputs_def)


section \<open>What the queue promises\<close>

text \<open>C21: whatever calls wait, time out, are cancelled, are refused or get in, and in whatever order they do, no root has
  two owners, the limits hold, and the queue holds exactly the entries of the calls that have not left: no entry is left
  behind for a call that is gone.\<close>
theorem one_owner_per_root:
  "let s = run_inputs root_next no_roots es; a = rs_admission s in
    distinct (map ro_root (ra_owners a)) \<and> length (ra_owners a) \<le> ROOT_LIMIT \<and>
    length (ra_waiters a) \<le> WAITER_LIMIT \<and> set (ra_waiters a) = {w. \<exists>c. entry_of (rs_calls s c) = Some w}"
  using reachable_root_ok [of es] by (simp add: Let_def root_ok_def admission_ok_def calls_ok_def)

text \<open>C20: a pass of an ordinary call gets its root exactly when its thread neither holds the metadata nor owns a root,
  nobody owns this root, nobody who queues for it came before, and there is room for one more owner (and, for a call
  that is not in the queue, an id left); and whatever happens while it waits, nobody new gets ahead of it in the queue.
  A \<open>try_acquire\<close> does not queue: it may take a free root over those that wait.\<close>
theorem first_come_first_served:
  assumes s: "s = run_inputs root_next no_roots es" and call: "rs_calls s c = Some call" "\<not> rl_over call"
  shows "((\<exists>n. fst (root_step (RootPass c thread inner) s) = RootGot n) \<longleftrightarrow>
      \<not> inner \<and> thread \<notin> ro_thread ` set (ra_owners (rs_admission s)) \<and>
      rl_root call \<notin> ro_root ` set (ra_owners (rs_admission s)) \<and> ahead_of call (rs_admission s) = {} \<and>
      length (ra_owners (rs_admission s)) < ROOT_LIMIT \<and> (rl_waiter call \<noteq> None \<or> ra_next (rs_admission s) < u64_max)) \<and>
    (rl_waiter call = None \<or> ahead_of call (rs_admission (run_inputs root_next s later)) \<subseteq> ahead_of call (rs_admission s))"
proof
  have ok: "root_ok s" unfolding s by (rule reachable_root_ok)
  show "(\<exists>n. fst (root_step (RootPass c thread inner) s) = RootGot n) \<longleftrightarrow>
      \<not> inner \<and> thread \<notin> ro_thread ` set (ra_owners (rs_admission s)) \<and>
      rl_root call \<notin> ro_root ` set (ra_owners (rs_admission s)) \<and> ahead_of call (rs_admission s) = {} \<and>
      length (ra_owners (rs_admission s)) < ROOT_LIMIT \<and> (rl_waiter call \<noteq> None \<or> ra_next (rs_admission s) < u64_max)"
    unfolding pass_answer [OF ok call] owns_def by blast
  show "rl_waiter call = None \<or> ahead_of call (rs_admission (run_inputs root_next s later)) \<subseteq> ahead_of call (rs_admission s)"
  proof (cases "rl_waiter call")
    case v: (Some v)
    have "calls_ok s" using ok by (simp add: root_ok_def)
    note q = entry_queued [OF this registered_entry(1) [OF this call v]]
    then have "rw_id v \<le> ra_next (rs_admission s)" using ok by (auto simp: root_ok_def admission_ok_def)
    then show ?thesis using nobody_gets_ahead [OF ok, of "rw_id v" _ later] by (auto simp: ahead_of_def v)
  qed simp
qed

definition two_callers :: "root_event list" where
  "two_callers = [RootTry 1 ''home'', RootEnter 0 ''home'', RootEnter 1 ''home'', RootPass 0 2 False, RootPass 1 3 False, RootRelease 1]"

text \<open>The one that came second does not get in although the root is free; the first one does.\<close>
lemma two_callers_state:
  "run_inputs root_next no_roots two_callers =
    \<lparr>rs_admission = \<lparr>ra_owners = [], ra_waiters = [\<lparr>wr_id = 2, wr_root = ''home''\<rparr>, \<lparr>wr_id = 3, wr_root = ''home''\<rparr>], ra_next = 3\<rparr>,
     rs_calls = [0 \<mapsto> \<lparr>rl_root = ''home'', rl_waiter = Some \<lparr>rw_id = 2, rw_registered = True\<rparr>, rl_over = False\<rparr>,
       1 \<mapsto> \<lparr>rl_root = ''home'', rl_waiter = Some \<lparr>rw_id = 3, rw_registered = True\<rparr>, rl_over = False\<rparr>]\<rparr>"
  apply (simp add: two_callers_def no_roots_def root_next_def root_step_def try_acquire_def reserve_root_def admission_id_def
      ordinary_pass_def drop_permit_def ROOT_LIMIT_def WAITER_LIMIT_def u64_max_def)
  apply (simp only: numeral_2_eq_2 numeral_3_eq_3)
  done

theorem first_come_first_served_witness:
  "\<not> (\<exists>n. fst (root_step (RootPass 1 7 False) (run_inputs root_next no_roots two_callers)) = RootGot n) \<and>
    (\<exists>n. fst (root_step (RootPass 0 7 False) (run_inputs root_next no_roots two_callers)) = RootGot n) \<and>
    ahead_of \<lparr>rl_root = ''home'', rl_waiter = Some \<lparr>rw_id = 2, rw_registered = True\<rparr>, rl_over = False\<rparr>
      (rs_admission (run_inputs root_next (run_inputs root_next no_roots two_callers) [RootEnter 2 ''home'', RootPass 2 9 False])) = {}"
proof -
  let ?s = "run_inputs root_next no_roots two_callers"
  let ?c = "\<lambda>i. \<lparr>rl_root = ''home'', rl_waiter = Some \<lparr>rw_id = i, rw_registered = True\<rparr>, rl_over = False\<rparr>"
  have calls: "rs_calls ?s 0 = Some (?c 2)" "rs_calls ?s 1 = Some (?c 3)" "ra_owners (rs_admission ?s) = []"
    by (simp_all add: two_callers_state)
  have ahead: "ahead_of (?c 2) (rs_admission ?s) = {}" "\<lparr>wr_id = 2, wr_root = ''home''\<rparr> \<in> ahead_of (?c 3) (rs_admission ?s)"
    by (auto simp: ahead_of_def two_callers_state)
  have free: "7 \<notin> ro_thread ` set (ra_owners (rs_admission ?s))" by (simp add: calls)
  note first = first_come_first_served [OF refl calls(1), of 7 False "[RootEnter 2 ''home'', RootPass 2 9 False]"]
  note second = first_come_first_served [OF refl calls(2), of 7 False]
  have "\<exists>n. fst (root_step (RootPass 0 7 False) ?s) = RootGot n"
    using first ahead(1) free by (simp add: calls(3) ROOT_LIMIT_def)
  moreover have "\<not> (\<exists>n. fst (root_step (RootPass 1 7 False) ?s) = RootGot n)"
    using second ahead(2) by auto
  moreover have "ahead_of (?c 2) (rs_admission (run_inputs root_next ?s [RootEnter 2 ''home'', RootPass 2 9 False])) = {}"
    using first ahead(1) by simp
  ultimately show ?thesis by blast
qed

end
