(* ===== verification/Spec2Isabelle.thy ===== *)
theory Spec2Isabelle
  imports Activity DayStripFacts EventStoreCredit A2aWitnesses JsonMeterFacts RoadThrough PathFacts HopFacts PileGuarantees
    WireFacts StagingDemo TrustDemo DocTransferDemo TransferPlanDemo RootQueueFacts
begin

text \<open>
  Khor: a verification library.

  The program.  Khor ties several machines of one owner into a net.  On each machine a node
  (\<open>crates/node\<close>) watches terminal and agent sessions, keeps what it sees in small records, and shares
  it with the other machines through CRDT documents (\<open>crates/sync\<close>) over connections it keeps as
  direct as it can (\<open>crates/net\<close>, \<open>crates/node/src/hop.rs\<close>).  Agents run behind a protocol adapter
  (\<open>crates/acp\<close>), work is delegated between machines with receipts (\<open>crates/a2a\<close>), and a web entry
  (\<open>crates/web\<close>) takes requests.  Everything that is shown goes through the closed vocabularies of
  \<open>crates/core\<close>.

  The conventions.  The theories are translations of the source: a struct is a record, an enum a
  datatype, an operation one function with the code's guards in the code's order, an error a value of
  a sum type whose \<open>?\<close> is \<open>and_then\<close>.  Integers that the code adds with checks or saturation are
  naturals with the bound in the definition; where the code works on bytes and bits they are words.
  A \<open>BTreeMap\<close> is a sorted association list (\<open>bt_get\<close>, \<open>bt_insert\<close>, \<open>bt_remove\<close> of \<open>Prelude\<close>), a map
  that is never iterated a function.  What other crates or the operating system do (loro, blake3,
  base64, serde, iroh, files) is an argument of the definitions, with documented laws as named
  hypotheses; a call that can fail takes its outcome as an argument, so every error path is a
  branch, and an operation gives back the state its failure leaves behind.  Critical sections of
  threads are single steps, and any interleaving is a list of inputs.

  The library.  \<open>Prelude\<close> holds the bounded arithmetic, the lemmas on lists and ordered maps, and the
  interfaces: \<open>ordered_map\<close>, \<open>kept_invariant\<close> (an invariant of a step function), \<open>kept_promise\<close> (what,
  once true, every sparing input keeps) and \<open>keyed_words\<close> (a vocabulary with its keys).  \<open>RustBase\<close> has
  results, characters and string operations of the standard library, \<open>Bytes\<close> the integers as bytes.

  Theories and code.
  \<^item> \<open>StateWords\<close>: \<open>State\<close>, \<open>Hop\<close>, \<open>DayCell\<close>, \<open>Fill\<close>, \<open>Tokens\<close> of \<open>crates/core/src/lib.rs\<close>, their ranks and
    keys.  \<open>Activity\<close>: \<open>ActivityLog::report\<close> of \<open>activity.rs\<close>, a bounded log that shows the tail of an
    unbounded one.
  \<^item> \<open>Preview\<close>, \<open>PreviewFacts\<close>: the one-line previews of \<open>crates/core/src/lib.rs\<close>, the inline
    scanner as a \<open>partial_function\<close> whose return is proved, slices and indices checked.
  \<^item> \<open>DayStrip\<close>, \<open>DayStripFacts\<close>: \<open>crates/node/src/day.rs\<close>, one byte per session and minute over a
    day; shape, merging into fewer cells, stored form and increments.
  \<^item> \<open>Budget\<close>, \<open>Spool\<close>, \<open>SpoolFacts\<close>, \<open>EventStore\<close>, \<open>EventSystem\<close>, \<open>EventStoreFacts\<close>,
    \<open>EventStoreGuarantees\<close>, \<open>EventStoreCredit\<close>: the event store of \<open>crates/acp/src/event_store\<close>.  The budget
    (\<open>budget.rs\<close>) implements \<open>credit_pool\<close> twice, the disk log (\<open>disk.rs\<close>) implements \<open>fifo_log\<close>; the store
    with producers, worker and receiver is one step function, its invariant gives prefix delivery,
    lossless clean close, the fence, and exact credit.
  \<^item> \<open>A2aLedger\<close>, \<open>A2aStore\<close>, \<open>A2aExecutor\<close> are \<open>lib.rs\<close>, \<open>store.rs\<close>, \<open>executor.rs\<close> of \<open>crates/a2a\<close>.
    \<open>A2aMachine\<close> is the abstract machine of tasks and contexts, \<open>A2aInvariant\<close> what it keeps,
    \<open>A2aRefines\<close> that every store operation is a sequence of its changes; \<open>A2aSystem\<close> is the system of
    processes, leases and crashes, \<open>A2aGuarantees\<close> and \<open>A2aAnswers\<close> what callers rely on, \<open>A2aDemo\<close>
    and \<open>A2aWitnesses\<close> a concrete run.
  \<^item> \<open>JsonMeter\<close>, \<open>JsonMeterFacts\<close>: the request limits of \<open>crates/web/src/json_request.rs\<close>.
  \<^item> \<open>RoadBook\<close>, \<open>RoadFacts\<close>, \<open>RoadThrough\<close>: \<open>crates/node/src/roadbook.rs\<close>; the hysteresis of what a
    machine writes about its roads, and the roads through a machine in the middle.  \<open>PathChoice\<close>,
    \<open>PathFacts\<close>: \<open>crates/net/src/carry.rs\<close> and \<open>path.rs\<close>, which path a connection uses and which it keeps as a spare.  \<open>Hop\<close>,
    \<open>HopFacts\<close>: \<open>crates/node/src/hop.rs\<close>, meeting through a third machine.
  \<^item> \<open>SyncPlan\<close>: \<open>crates/sync/src/plan.rs\<close>.  \<open>Pile\<close> is \<open>store.rs\<close>: a document kept as immutable block
    files.  \<open>PileFacts\<close> states the laws of the CRDT over \<open>known\<close> and \<open>carries\<close>, \<open>PileKeeps\<close> and
    \<open>PileReads\<close> what writing and reading keep, \<open>PileRuns\<close> the step relation of several copies over one
    directory, unguarded, with books of what each block name has stood for and of the copies that pulled a block over
    edits they had not flushed; \<open>PileGuarantees\<close> that flushed edits reach every later reader.  \<open>Wire\<close> and \<open>WireFacts\<close>
    are \<open>wire.rs\<close>: one round between two copies, on top of the pile's \<open>flush\<close>.
  \<^item> \<open>Staging\<close>, \<open>StagingStore\<close>: \<open>transfer.rs\<close>, where a large document arrives chunk by chunk.
    \<open>StagingFacts\<close> reads a journal cut anywhere, \<open>StagingKeeps\<close> is one stage and one append,
    \<open>StagingRuns\<close> the directory's invariant, \<open>StagingOps\<close> what each operation does to it,
    \<open>StagingGuarantees\<close> what holds over runs with crashes, \<open>StagingDemo\<close> one transfer.
  \<^item> \<open>Binding\<close> is \<open>doc_transfer.rs\<close> and \<open>doc_transfer/version.rs\<close>, \<open>BindingFacts\<close> that a descriptor has
    exactly one spelling; its readers meet the contract \<open>wire_reader\<close>.  \<open>Outbound\<close> is
    \<open>doc_transfer/outbound.rs\<close> and \<open>body.rs\<close>, over the pile's \<open>flush\<close> and the staging directory; \<open>Apply\<close> is
    \<open>store_apply.rs\<close> and \<open>doc_transfer/receive.rs\<close>, the checked import into a live document.  \<open>ApplyFacts\<close>
    has what an import refuses, changes and gives up, \<open>OutboundFacts\<close> what is offered, read and applied and
    that a transfer brings what was offered, \<open>OutboundWorks\<close> that without faults it is offered,
    \<open>DocTransferDemo\<close> a document that goes over.
  \<^item> \<open>MetaJournal\<close> is \<open>crates/node/src/doc_transfer_state/io.rs\<close>: the metadata of transfers as one published image;
    \<open>MetaJournalFacts\<close> that a publication is all or nothing, as the contract \<open>publication\<close>.  \<open>TransferPlan\<close> and
    \<open>TransferState\<close> are \<open>doc_transfer_state.rs\<close>: the rows of plans and receipts with what makes them valid, and every
    operation on them, over the staging directory, the preparation and the live import.  \<open>TransferFacts\<close> has the rules
    of a row's life and the triple \<open>follows\<close> (what a call may leave on the disk), \<open>TransferKeeps\<close> that each
    operation keeps to them, \<open>TransferGuarantees\<close> what follows for sessions of calls on one opened state, going on after failures, and crashes, what a receipt says,
    and where a plan is stuck, \<open>TransferPlanDemo\<close> a receipt and a stuck plan.
  \<^item> \<open>RootQueue\<close> is the other half of \<open>io.rs\<close>, \<open>RootAdmission\<close> with its permits and waiters: every section under
    the mutex is one step, and calls pass, time out, are cancelled and give back in any order.  \<open>RootQueueFacts\<close> has
    the invariant that ties the queue to the calls, one owner per root, and that roots are given in the order of arrival.
  \<^item> \<open>Trust\<close>: \<open>crates/net/src/trust.rs\<close>, the certificates and the signed roster that say which machines belong
    to the network; \<open>TrustFacts\<close> is what a signature gives.  \<open>TrustNode\<close>: \<open>crates/node/src/trust.rs\<close>, the
    gate and the verbs of the root's holder over the device table; \<open>TrustGuarantees\<close> has what they
    promise and where the gate fails open, \<open>TrustDemo\<close> a signature, an encoding and a network of two.

  Bounds and fuel.  No definition is cut off by fuel: recursion is structural, has a measure
  (\<open>chunks_exact\<close>, the spool's reading, \<open>append_all\<close>, \<open>read_fill\<close>), or is a \<open>partial_function\<close> proved to return.  Sizes and
  times are the code's own constants.

  Not modelled, and why.
  \<^item> The terminal and desktop front ends, the command line, the update and catalog crates:
    presentation and plumbing.
  \<^item> \<open>crates/node/src/link.rs\<close>, \<open>live.rs\<close>, \<open>host.rs\<close>, \<open>lib.rs\<close>: asynchronous drivers whose
    behaviour is that of tokio, iroh and the terminals they talk to; the decisions they take are
    the modules modelled here.
  \<^item> Directory creation, permissions and link checks (two flags in \<open>StagingStore\<close>), pens and lock
    files (an outcome per call in \<open>Apply\<close>) and the re-seeding of old epochs in \<open>store.rs\<close>, framing in \<open>carry.rs\<close>, streams in \<open>hop.rs\<close>,
    the interleaving of serde with the two meters.
  \<^item> In \<open>crates/node/src/doc_transfer_state\<close>: the pairing records (a parameter beside the rows), the clock and the
    file lock behind a permit to the root (a call may run out of time at any step); in \<open>link_doc_transfer.rs\<close> the asynchronous driver of the exchanges.
  \<^item> In \<open>crates/node/src/trust.rs\<close>: the names people type, the list of what is pending, the cache in front of
    \<open>verify_roster\<close>, and the pairing settlement with its durable intents.
\<close>

end
